(* ===== verification/Prelude.thy ===== *)
theory Prelude
  imports Main "HOL-Library.Word" "HOL-Library.Monad_Syntax"
begin

unbundle bit_operations_syntax

text \<open>
  What every component of the simulator model shares: the machine integer types of
  \<^verbatim>\<open>base/model/base/types.h\<close>, the abort of a failed \<^verbatim>\<open>DBG_CHECK\<close> as the value \<open>None\<close>,
  C array accesses with their bounds written out, C bit-fields of a 32-bit storage unit,
  and the collections of rewrite rules the component proofs use.
\<close>

section \<open>Machine integers\<close>

type_synonym u8 = "8 word"
type_synonym u16 = "16 word"
type_synonym u32 = "32 word"
type_synonym u64 = "64 word"

section \<open>Collections\<close>

named_theorems ring_simps \<open>abstraction equations of the ring buffers\<close>
named_theorems exec_defs \<open>definitions unfolded when a closed term is evaluated\<close>
named_theorems bf_simps \<open>reading a bit-field after writing one\<close>

section \<open>Assertions and arrays\<close>

text \<open>
  \<^verbatim>\<open>DBG_CHECK(e)\<close> is \<^verbatim>\<open>assert(e)\<close>: a false argument aborts the simulation. An operation that
  can abort has type \<open>'a option\<close>; \<open>None\<close> is the abort.
\<close>

definition DBG_CHECK :: "bool \<Rightarrow> unit option" where
  "DBG_CHECK e = (if e then Some () else None)"

lemma DBG_CHECK_simps [simp]:
  "DBG_CHECK True = Some ()"
  "DBG_CHECK False = None"
  "(DBG_CHECK e = Some u) = e"
  "(DBG_CHECK e = None) = (\<not> e)"
  by (auto simp: DBG_CHECK_def)

lemma DBG_CHECK_bind [simp]: "(DBG_CHECK e \<bind> f) = (if e then f () else None)"
  by (simp add: DBG_CHECK_def)

text \<open>An array access outside the array has no defined result: it is an abort as well.\<close>

definition arr_get :: "'a list \<Rightarrow> nat \<Rightarrow> 'a option" where
  "arr_get xs i = (if i < length xs then Some (xs ! i) else None)"

definition arr_put :: "'a list \<Rightarrow> nat \<Rightarrow> 'a \<Rightarrow> 'a list option" where
  "arr_put xs i v = (if i < length xs then Some (xs[i := v]) else None)"

lemma arr_get_in [simp]: "i < length xs \<Longrightarrow> arr_get xs i = Some (xs ! i)"
  by (simp add: arr_get_def)

lemma arr_put_in [simp]: "i < length xs \<Longrightarrow> arr_put xs i v = Some (xs[i := v])"
  by (simp add: arr_put_def)

lemma arr_get_SomeD: "arr_get xs i = Some v \<Longrightarrow> i < length xs \<and> v = xs ! i"
  by (auto simp: arr_get_def split: if_splits)

lemma arr_put_SomeD: "arr_put xs i v = Some ys \<Longrightarrow> i < length xs \<and> ys = xs[i := v]"
  by (auto simp: arr_put_def split: if_splits)

declare arr_get_def [exec_defs] arr_put_def [exec_defs]

lemma find_SomeD: "List.find P xs = Some x \<Longrightarrow> x \<in> set xs \<and> P x"
  by (induction xs) (auto split: if_splits)

section \<open>Indices modulo the depth of a ring\<close>

lemma mod_add_inj_le:
  assumes eq: "(r + i) mod d = (r + j) mod d" and le: "i \<le> j" and j: "j < d"
  shows "i = (j :: nat)"
proof -
  from le have "r + i \<le> r + j" by simp
  with eq obtain q where "r + j = r + i + d * q"
    by (elim mod_eq_nat2E)
  then have "j = i + d * q" by simp
  with j have "q = 0" by (cases q) auto
  with \<open>j = i + d * q\<close> show ?thesis by simp
qed

lemma mod_add_inj:
  assumes "(r + i) mod d = (r + j) mod d" "i < d" "j < d"
  shows "i = (j :: nat)"
  using mod_add_inj_le [of r i d j] mod_add_inj_le [of r j d i] assms
  by (metis nat_le_linear)

lemma mod_Suc_add [simp]: "(Suc r mod d + i) mod d = Suc (r + i) mod d"
  by (metis add_Suc mod_add_left_eq)

declare mod_Suc_eq [simp]

lemma bind_SomeD: "f \<bind> g = Some z \<Longrightarrow> \<exists>y. f = Some y \<and> g y = Some z"
  by (cases f) auto

lemma bind_pair_SomeD:
  "f \<bind> (\<lambda>(x, y). g x y) = Some z \<Longrightarrow> \<exists>x y. f = Some (x, y) \<and> g x y = Some z"
  by (cases f) auto

end
