(* ===== verification/Fifo.thy ===== *)
theory Fifo
  imports Prelude
begin

text \<open>
  The bounded queues of the simulator: the staging queue \<^verbatim>\<open>fifo_t\<close> (\<^verbatim>\<open>base/fifo.c\<close>) and the
  FIFO mode of the module interfaces \<^verbatim>\<open>itf_t\<close> (\<^verbatim>\<open>base/itf.c\<close>). Both are ring buffers; the
  locale \<open>bounded_fifo\<close> states the contract their clients rely on and both are
  interpretations of it. A cell that was never written holds \<open>None\<close> (uninitialised memory of
  \<^verbatim>\<open>malloc\<close>), and reading it is an abort. Indices and counts are naturals: the invariant
  keeps them at most the depth, a \<^verbatim>\<open>u32\<close>, so no sum of the code wraps around. The VCD and
  trace copies of a packet, and the lock of a \<^verbatim>\<open>sim_prot\<close> interface, do not influence what is
  queued and are left out.
\<close>

section \<open>fifo.c\<close>

record 'a fifo =
  f_data :: "'a option list"
  f_depth :: nat
  f_num :: nat
  f_rptr :: nat
  f_wptr :: nat

definition fifo_construct :: "nat \<Rightarrow> 'a fifo option" where
  "fifo_construct depth = do {
     DBG_CHECK (depth > 0);
     Some \<lparr>f_data = replicate depth None, f_depth = depth, f_num = 0, f_rptr = 0, f_wptr = 0\<rparr>
   }"

definition fifo_push :: "'a fifo \<Rightarrow> 'a \<Rightarrow> 'a fifo option" where
  "fifo_push f elem = do {
     DBG_CHECK (f_num f < f_depth f);
     data \<leftarrow> arr_put (f_data f) (f_wptr f) (Some elem);
     Some (f\<lparr>f_data := data, f_num := f_num f + 1,
             f_wptr := (f_wptr f + 1) mod f_depth f\<rparr>)
   }"

definition fifo_get_front :: "'a fifo \<Rightarrow> 'a option" where
  "fifo_get_front f = do {
     DBG_CHECK (f_num f > 0);
     cell \<leftarrow> arr_get (f_data f) (f_rptr f);
     cell
   }"

definition fifo_pop :: "'a fifo \<Rightarrow> ('a \<times> 'a fifo) option" where
  "fifo_pop f = do {
     DBG_CHECK (f_num f > 0);
     cell \<leftarrow> arr_get (f_data f) (f_rptr f);
     elem \<leftarrow> cell;
     Some (elem, f\<lparr>f_num := f_num f - 1, f_rptr := (f_rptr f + 1) mod f_depth f\<rparr>)
   }"

definition fifo_clear :: "'a fifo \<Rightarrow> 'a fifo" where
  "fifo_clear f = f\<lparr>f_num := 0, f_rptr := f_wptr f\<rparr>"

definition fifo_reset :: "'a fifo \<Rightarrow> 'a fifo" where
  "fifo_reset f = f\<lparr>f_num := 0, f_rptr := 0, f_wptr := 0\<rparr>"

definition fifo_empty :: "'a fifo \<Rightarrow> bool" where
  "fifo_empty f = (f_num f = 0)"

definition fifo_full :: "'a fifo \<Rightarrow> bool" where
  "fifo_full f = (f_num f = f_depth f)"

definition fifo_count :: "'a fifo \<Rightarrow> nat" where
  "fifo_count f = f_num f"

section \<open>itf.c, FIFO mode\<close>

record 'a itf =
  pkts_data :: "'a option list"
  itf_depth :: nat
  pkt_num :: nat
  itf_rptr :: nat
  itf_wptr :: nat

definition fifo_itf_construct :: "nat \<Rightarrow> 'a itf" where
  "fifo_itf_construct fifo_depth =
     \<lparr>pkts_data = replicate fifo_depth None, itf_depth = fifo_depth, pkt_num = 0,
      itf_rptr = 0, itf_wptr = 0\<rparr>"

definition itf_reset :: "'a itf \<Rightarrow> 'a itf" where
  "itf_reset t = t\<lparr>pkt_num := 0, itf_rptr := 0, itf_wptr := 0\<rparr>"

definition itf_write :: "'a itf \<Rightarrow> 'a \<Rightarrow> 'a itf option" where
  "itf_write t pkt = do {
     DBG_CHECK (pkt_num t < itf_depth t);
     data \<leftarrow> arr_put (pkts_data t) (itf_wptr t) (Some pkt);
     Some (t\<lparr>pkts_data := data, pkt_num := pkt_num t + 1,
             itf_wptr := (itf_wptr t + 1) mod itf_depth t\<rparr>)
   }"

definition itf_read :: "'a itf \<Rightarrow> ('a \<times> 'a itf) option" where
  "itf_read t = do {
     DBG_CHECK (pkt_num t > 0);
     cell \<leftarrow> arr_get (pkts_data t) (itf_rptr t);
     pkt \<leftarrow> cell;
     Some (pkt, t\<lparr>pkt_num := pkt_num t - 1, itf_rptr := (itf_rptr t + 1) mod itf_depth t\<rparr>)
   }"

definition itf_fifo_get_front :: "'a itf \<Rightarrow> 'a option" where
  "itf_fifo_get_front t = do {
     DBG_CHECK (pkt_num t > 0);
     cell \<leftarrow> arr_get (pkts_data t) (itf_rptr t);
     cell
   }"

definition itf_fifo_pop_front :: "'a itf \<Rightarrow> 'a itf option" where
  "itf_fifo_pop_front t = do {
     DBG_CHECK (pkt_num t > 0);
     Some (t\<lparr>pkt_num := pkt_num t - 1, itf_rptr := (itf_rptr t + 1) mod itf_depth t\<rparr>)
   }"

text \<open>The \<^verbatim>\<open>while\<close> loop of \<^verbatim>\<open>itf_fifo_pop_all\<close>: every round takes one packet away.\<close>

function itf_fifo_pop_all :: "'a itf \<Rightarrow> 'a itf option" where
  "itf_fifo_pop_all t =
     (if pkt_num t > 0 then do { t' \<leftarrow> itf_fifo_pop_front t; itf_fifo_pop_all t' } else Some t)"
  by pat_completeness auto
termination
  by (relation "measure pkt_num") (auto simp: itf_fifo_pop_front_def)

declare itf_fifo_pop_all.simps [simp del]

definition itf_fifo_empty :: "'a itf \<Rightarrow> bool" where
  "itf_fifo_empty t = (pkt_num t = 0)"

definition itf_fifo_full :: "'a itf \<Rightarrow> bool" where
  "itf_fifo_full t = (pkt_num t = itf_depth t)"

declare fifo_construct_def [exec_defs] fifo_push_def [exec_defs] fifo_get_front_def [exec_defs]
  fifo_pop_def [exec_defs] fifo_clear_def [exec_defs] fifo_reset_def [exec_defs]
  fifo_empty_def [exec_defs] fifo_full_def [exec_defs] fifo_count_def [exec_defs]
  fifo_itf_construct_def [exec_defs] itf_reset_def [exec_defs] itf_write_def [exec_defs]
  itf_read_def [exec_defs] itf_fifo_get_front_def [exec_defs] itf_fifo_pop_front_def [exec_defs]
  itf_fifo_empty_def [exec_defs] itf_fifo_full_def [exec_defs]

section \<open>Ring buffers and the lists they hold\<close>

definition ring_inv :: "'a option list \<Rightarrow> nat \<Rightarrow> nat \<Rightarrow> nat \<Rightarrow> nat \<Rightarrow> bool" where
  "ring_inv data depth num rptr wptr \<longleftrightarrow>
     0 < depth \<and> length data = depth \<and> num \<le> depth \<and> rptr < depth \<and>
     wptr = (rptr + num) mod depth \<and> (\<forall>i < num. data ! ((rptr + i) mod depth) \<noteq> None)"

definition ring_list :: "'a option list \<Rightarrow> nat \<Rightarrow> nat \<Rightarrow> nat \<Rightarrow> 'a list" where
  "ring_list data depth num rptr = map (\<lambda>i. the (data ! ((rptr + i) mod depth))) [0..<num]"

lemma ring_list_length [simp]: "length (ring_list data depth num rptr) = num"
  by (simp add: ring_list_def)

lemma ring_list_nth:
  "i < num \<Longrightarrow> ring_list data depth num rptr ! i = the (data ! ((rptr + i) mod depth))"
  by (simp add: ring_list_def)

lemma ring_empty: "0 < depth \<Longrightarrow> length data = depth \<Longrightarrow> r < depth \<Longrightarrow> ring_inv data depth 0 r r"
  by (simp add: ring_inv_def)

lemma ring_wptr_fresh:
  assumes "ring_inv data depth num rptr wptr" "num < depth" "i < num"
  shows "(rptr + i) mod depth \<noteq> wptr"
  using assms mod_add_inj [of rptr i depth num] by (auto simp: ring_inv_def)

lemma ring_push_inv:
  assumes inv: "ring_inv data depth num rptr wptr" and room: "num < depth"
  shows "ring_inv (data[wptr := Some x]) depth (Suc num) rptr ((wptr + 1) mod depth)"
proof -
  have "data[wptr := Some x] ! ((rptr + i) mod depth) \<noteq> None" if "i < Suc num" for i
    using that inv ring_wptr_fresh [OF inv room, of i]
    by (cases "i = num") (auto simp: ring_inv_def)
  with inv room show ?thesis by (simp add: ring_inv_def)
qed

lemma ring_push_list:
  assumes inv: "ring_inv data depth num rptr wptr" and room: "num < depth"
  shows "ring_list (data[wptr := Some x]) depth (Suc num) rptr = ring_list data depth num rptr @ [x]"
proof -
  have "data[wptr := Some x] ! ((rptr + i) mod depth) = data ! ((rptr + i) mod depth)"
    if "i < num" for i
    using ring_wptr_fresh [OF inv room that] by simp
  moreover have "data[wptr := Some x] ! ((rptr + num) mod depth) = Some x"
    using inv by (simp add: ring_inv_def)
  ultimately show ?thesis by (simp add: ring_list_def)
qed

lemma ring_pop_inv:
  assumes "ring_inv data depth num rptr wptr" "0 < num"
  shows "ring_inv data depth (num - 1) ((rptr + 1) mod depth) wptr"
proof -
  from assms obtain n where "num = Suc n" by (cases num) auto
  with assms show ?thesis by (auto simp: ring_inv_def)
qed

lemma ring_pop_list:
  assumes "ring_inv data depth num rptr wptr" "0 < num"
  shows "ring_list data depth num rptr
    = the (data ! rptr) # ring_list data depth (num - 1) ((rptr + 1) mod depth)"
proof -
  from assms obtain n where n: "num = Suc n" by (cases num) auto
  have "[0..<Suc n] = 0 # map Suc [0..<n]"
    by (simp add: map_Suc_upt upt_conv_Cons)
  with assms show ?thesis by (simp add: n ring_list_def ring_inv_def o_def)
qed

lemma ring_front:
  "ring_inv data depth num rptr wptr \<Longrightarrow> 0 < num \<Longrightarrow> rptr < length data \<and> (\<exists>x. data ! rptr = Some x)"
  by (force simp: ring_inv_def)

section \<open>The contract of a bounded FIFO queue\<close>

datatype 'a qop = Push 'a | Pop

text \<open>A run of queue operations: the values popped and the queue left; an abort stops it.\<close>

fun run_fifo :: "('q \<Rightarrow> 'a \<Rightarrow> 'q option) \<Rightarrow> ('q \<Rightarrow> ('a \<times> 'q) option) \<Rightarrow> 'a qop list \<Rightarrow> 'q
    \<Rightarrow> ('a list \<times> 'q) option" where
  "run_fifo push pop [] q = Some ([], q)"
| "run_fifo push pop (Push x # ops) q = do { q' \<leftarrow> push q x; run_fifo push pop ops q' }"
| "run_fifo push pop (Pop # ops) q = do {
     (x, q') \<leftarrow> pop q;
     (xs, q'') \<leftarrow> run_fifo push pop ops q';
     Some (x # xs, q'')
   }"

text \<open>The queue as a list: what the ring buffers are compared with.\<close>

definition list_push :: "nat \<Rightarrow> 'a list \<Rightarrow> 'a \<Rightarrow> 'a list option" where
  "list_push cap xs x = (if length xs < cap then Some (xs @ [x]) else None)"

fun list_pop :: "'a list \<Rightarrow> ('a \<times> 'a list) option" where
  "list_pop [] = None"
| "list_pop (y # ys) = Some (y, ys)"

locale bounded_fifo =
  fixes invar :: "'q \<Rightarrow> bool"
    and contents :: "'q \<Rightarrow> 'a list"
    and capacity :: "'q \<Rightarrow> nat"
    and push :: "'q \<Rightarrow> 'a \<Rightarrow> 'q option"
    and pop :: "'q \<Rightarrow> ('a \<times> 'q) option"
    and front :: "'q \<Rightarrow> 'a option"
    and is_empty :: "'q \<Rightarrow> bool"
    and is_full :: "'q \<Rightarrow> bool"
  assumes push_room: "invar q \<Longrightarrow> length (contents q) < capacity q \<Longrightarrow>
      \<exists>q'. push q x = Some q' \<and> invar q' \<and> contents q' = contents q @ [x] \<and> capacity q' = capacity q"
    and push_full: "invar q \<Longrightarrow> length (contents q) = capacity q \<Longrightarrow> push q x = None"
    and pop_Cons: "invar q \<Longrightarrow> contents q = x # xs \<Longrightarrow>
      \<exists>q'. pop q = Some (x, q') \<and> invar q' \<and> contents q' = xs \<and> capacity q' = capacity q"
    and pop_Nil: "invar q \<Longrightarrow> contents q = [] \<Longrightarrow> pop q = None"
    and front_Cons: "invar q \<Longrightarrow> contents q = x # xs \<Longrightarrow> front q = Some x"
    and is_empty_iff: "invar q \<Longrightarrow> is_empty q \<longleftrightarrow> contents q = []"
    and is_full_iff: "invar q \<Longrightarrow> is_full q \<longleftrightarrow> length (contents q) = capacity q"
    and bounded: "invar q \<Longrightarrow> length (contents q) \<le> capacity q"
begin

lemma push_not_full:
  assumes "invar q" "\<not> is_full q"
  obtains q' where "push q x = Some q'" "invar q'" "contents q' = contents q @ [x]"
    "capacity q' = capacity q"
  using assms push_room [of q x] is_full_iff [of q] bounded [of q] by force

lemma push_ok:
  "invar q \<Longrightarrow> \<not> is_full q \<Longrightarrow>
     \<exists>q'. push q x = Some q' \<and> invar q' \<and> contents q' = contents q @ [x] \<and> capacity q' = capacity q"
  using push_not_full [of q x] by metis

lemma pop_not_empty:
  assumes "invar q" "\<not> is_empty q"
  obtains x q' where "pop q = Some (x, q')" "invar q'" "contents q = x # contents q'"
    "capacity q' = capacity q" "front q = Some x"
proof -
  from assms obtain x xs where xs: "contents q = x # xs"
    by (cases "contents q") (auto simp: is_empty_iff)
  from pop_Cons [OF assms(1) xs] front_Cons [OF assms(1) xs] xs that show ?thesis by metis
qed

lemma push_SomeD:
  assumes "push q x = Some q'" "invar q"
  shows "invar q' \<and> contents q' = contents q @ [x] \<and> capacity q' = capacity q
    \<and> length (contents q) < capacity q"
  using assms push_room [of q x] push_full [of q x] bounded [of q]
  by (metis le_neq_implies_less option.distinct(1) option.inject)

lemma pop_SomeD:
  assumes "pop q = Some (x, q')" "invar q"
  shows "invar q' \<and> contents q = x # contents q' \<and> capacity q' = capacity q"
proof (cases "contents q")
  case Nil
  with assms pop_Nil show ?thesis by simp
next
  case (Cons y ys)
  from pop_Cons [OF assms(2) Cons] assms(1) Cons show ?thesis by auto
qed

lemma push_refines:
  "invar q \<Longrightarrow> map_option contents (push q x) = list_push (capacity q) (contents q) x"
  using push_room [of q x] push_full [of q x] bounded [of q]
  by (cases "length (contents q) < capacity q") (auto simp: list_push_def)

lemma run_refines:
  "invar q \<Longrightarrow> map_option (map_prod id contents) (run_fifo push pop ops q)
     = run_fifo (list_push (capacity q)) list_pop ops (contents q)"
proof (induction ops arbitrary: q)
  case Nil
  then show ?case by simp
next
  case (Cons op ops)
  show ?case
  proof (cases op)
    case (Push x)
    show ?thesis
    proof (cases "length (contents q) < capacity q")
      case True
      from push_room [OF Cons.prems True, of x] obtain q' where
        "push q x = Some q'" "invar q'" "contents q' = contents q @ [x]" "capacity q' = capacity q"
        by auto
      with Cons.IH [of q'] True Push show ?thesis by (simp add: list_push_def)
    next
      case False
      with Cons.prems bounded have "length (contents q) = capacity q" by (simp add: le_antisym)
      with push_full [OF Cons.prems this] Push show ?thesis by (simp add: list_push_def)
    qed
  next
    case Pop
    show ?thesis
    proof (cases "contents q")
      case Nil
      with pop_Nil [OF Cons.prems] Pop show ?thesis by simp
    next
      case (Cons y ys)
      from pop_Cons [OF Cons.prems Cons] obtain q' where
        q': "pop q = Some (y, q')" "invar q'" "contents q' = ys" "capacity q' = capacity q"
        by auto
      from Cons.IH [OF q'(2)] q' have
        "run_fifo (list_push (capacity q)) list_pop ops ys
           = map_option (map_prod id contents) (run_fifo push pop ops q')"
        by (simp add: id_def)
      with q'(1) Cons Pop show ?thesis
        by (cases "run_fifo push pop ops q'") auto
    qed
  qed
qed

end

section \<open>Both queues keep the contract\<close>

definition fifo_inv :: "'a fifo \<Rightarrow> bool" where
  "fifo_inv f = ring_inv (f_data f) (f_depth f) (f_num f) (f_rptr f) (f_wptr f)"

definition fifo_list :: "'a fifo \<Rightarrow> 'a list" where
  "fifo_list f = ring_list (f_data f) (f_depth f) (f_num f) (f_rptr f)"

definition itf_inv :: "'a itf \<Rightarrow> bool" where
  "itf_inv t = ring_inv (pkts_data t) (itf_depth t) (pkt_num t) (itf_rptr t) (itf_wptr t)"

definition itf_list :: "'a itf \<Rightarrow> 'a list" where
  "itf_list t = ring_list (pkts_data t) (itf_depth t) (pkt_num t) (itf_rptr t)"

lemma ring_wptr_bound: "ring_inv data depth num rptr wptr \<Longrightarrow> wptr < length data"
  by (simp add: ring_inv_def)

interpretation fifo: bounded_fifo fifo_inv fifo_list f_depth fifo_push fifo_pop fifo_get_front
    fifo_empty fifo_full
proof (unfold_locales, goal_cases)
  case (1 q x)
  then show ?case
    using ring_push_inv [of "f_data q" "f_depth q" "f_num q" "f_rptr q" "f_wptr q" x]
      ring_push_list [of "f_data q" "f_depth q" "f_num q" "f_rptr q" "f_wptr q" x]
    by (auto simp: fifo_push_def fifo_inv_def fifo_list_def dest: ring_wptr_bound)
next
  case (3 q x xs)
  then have "0 < f_num q" by (cases "f_num q") (auto simp: fifo_list_def ring_list_def)
  with 3 show ?case
    using ring_pop_inv [of "f_data q" "f_depth q" "f_num q" "f_rptr q" "f_wptr q"]
      ring_pop_list [of "f_data q" "f_depth q" "f_num q" "f_rptr q" "f_wptr q"]
      ring_front [of "f_data q" "f_depth q" "f_num q" "f_rptr q" "f_wptr q"]
    by (auto simp: fifo_pop_def fifo_inv_def fifo_list_def)
next
  case (5 q x xs)
  then have "0 < f_num q" by (cases "f_num q") (auto simp: fifo_list_def ring_list_def)
  with 5 show ?case
    using ring_pop_list [of "f_data q" "f_depth q" "f_num q" "f_rptr q" "f_wptr q"]
      ring_front [of "f_data q" "f_depth q" "f_num q" "f_rptr q" "f_wptr q"]
    by (auto simp: fifo_get_front_def fifo_inv_def fifo_list_def)
qed (auto simp: fifo_push_def fifo_pop_def fifo_inv_def fifo_list_def ring_list_def ring_inv_def
    fifo_empty_def fifo_full_def)

interpretation itf: bounded_fifo itf_inv itf_list itf_depth itf_write itf_read itf_fifo_get_front
    itf_fifo_empty itf_fifo_full
proof (unfold_locales, goal_cases)
  case (1 q x)
  then show ?case
    using ring_push_inv [of "pkts_data q" "itf_depth q" "pkt_num q" "itf_rptr q" "itf_wptr q" x]
      ring_push_list [of "pkts_data q" "itf_depth q" "pkt_num q" "itf_rptr q" "itf_wptr q" x]
    by (auto simp: itf_write_def itf_inv_def itf_list_def dest: ring_wptr_bound)
next
  case (3 q x xs)
  then have "0 < pkt_num q" by (cases "pkt_num q") (auto simp: itf_list_def ring_list_def)
  with 3 show ?case
    using ring_pop_inv [of "pkts_data q" "itf_depth q" "pkt_num q" "itf_rptr q" "itf_wptr q"]
      ring_pop_list [of "pkts_data q" "itf_depth q" "pkt_num q" "itf_rptr q" "itf_wptr q"]
      ring_front [of "pkts_data q" "itf_depth q" "pkt_num q" "itf_rptr q" "itf_wptr q"]
    by (auto simp: itf_read_def itf_inv_def itf_list_def)
next
  case (5 q x xs)
  then have "0 < pkt_num q" by (cases "pkt_num q") (auto simp: itf_list_def ring_list_def)
  with 5 show ?case
    using ring_pop_list [of "pkts_data q" "itf_depth q" "pkt_num q" "itf_rptr q" "itf_wptr q"]
      ring_front [of "pkts_data q" "itf_depth q" "pkt_num q" "itf_rptr q" "itf_wptr q"]
    by (auto simp: itf_fifo_get_front_def itf_inv_def itf_list_def)
qed (auto simp: itf_write_def itf_read_def itf_inv_def itf_list_def ring_list_def ring_inv_def
    itf_fifo_empty_def itf_fifo_full_def)

section \<open>Construction, reset and clearing\<close>

lemma fifo_construct_inv:
  assumes "fifo_construct depth = Some f"
  shows "fifo_inv f \<and> fifo_list f = [] \<and> f_depth f = depth"
  using assms
  by (auto simp: fifo_construct_def fifo_inv_def fifo_list_def ring_list_def ring_inv_def
      split: if_splits)

lemma itf_construct_inv:
  "0 < depth \<Longrightarrow> itf_inv (fifo_itf_construct depth) \<and> itf_list (fifo_itf_construct depth) = []
     \<and> itf_depth (fifo_itf_construct depth) = depth"
  by (simp add: fifo_itf_construct_def itf_inv_def itf_list_def ring_list_def ring_inv_def)

lemma itf_construct_fresh [simp]:
  assumes "0 < depth"
  shows "itf_inv (fifo_itf_construct depth)" "itf_list (fifo_itf_construct depth) = []"
    "itf_depth (fifo_itf_construct depth) = depth" "itf_fifo_empty (fifo_itf_construct depth)"
    "\<not> itf_fifo_full (fifo_itf_construct depth)"
  using itf_construct_inv [OF assms] assms
  by (blast, blast, blast)
    (use assms in \<open>simp_all add: itf_fifo_empty_def itf_fifo_full_def fifo_itf_construct_def\<close>)

lemma fifo_clear_inv: "fifo_inv f \<Longrightarrow> fifo_inv (fifo_clear f) \<and> fifo_list (fifo_clear f) = []"
  by (auto simp: fifo_clear_def fifo_inv_def fifo_list_def ring_list_def ring_inv_def)

lemma fifo_reset_inv: "fifo_inv f \<Longrightarrow> fifo_inv (fifo_reset f) \<and> fifo_list (fifo_reset f) = []"
  by (auto simp: fifo_reset_def fifo_inv_def fifo_list_def ring_list_def ring_inv_def)

lemma fifo_depth_frame [simp]:
  "f_depth (fifo_clear f) = f_depth f" "f_depth (fifo_reset f) = f_depth f"
  by (simp_all add: fifo_clear_def fifo_reset_def)

lemma itf_reset_inv: "itf_inv t \<Longrightarrow> itf_inv (itf_reset t) \<and> itf_list (itf_reset t) = []"
  by (auto simp: itf_reset_def itf_inv_def itf_list_def ring_list_def ring_inv_def)

lemma itf_pop_front_read:
  assumes "itf_inv t" "\<not> itf_fifo_empty t"
  shows "itf_fifo_pop_front t = map_option snd (itf_read t)"
proof -
  from assms obtain x where "arr_get (pkts_data t) (itf_rptr t) = Some (Some x)"
    using ring_front [of "pkts_data t" "itf_depth t" "pkt_num t" "itf_rptr t" "itf_wptr t"]
    by (auto simp: itf_inv_def itf_fifo_empty_def)
  then show ?thesis
    by (simp add: itf_fifo_pop_front_def itf_read_def)
qed

lemma itf_pop_all_empties:
  assumes "itf_inv t"
  shows "\<exists>t'. itf_fifo_pop_all t = Some t' \<and> itf_inv t' \<and> itf_list t' = [] \<and> itf_depth t' = itf_depth t"
  using assms
proof (induction t rule: itf_fifo_pop_all.induct)
  case (1 t)
  show ?case
  proof (cases "itf_fifo_empty t")
    case True
    then show ?thesis using 1(2)
      by (auto simp: itf_fifo_pop_all.simps [of t] itf_fifo_empty_def itf.is_empty_iff [symmetric])
  next
    case False
    from itf.pop_not_empty [OF 1(2) False] obtain x t' where
      t': "itf_read t = Some (x, t')" "itf_inv t'" "itf_depth t' = itf_depth t" by metis
    then have "itf_fifo_pop_front t = Some t'"
      using itf_pop_front_read [OF 1(2) False] by simp
    with 1(1) [OF _ this] t' False show ?thesis
      by (auto simp: itf_fifo_pop_all.simps [of t] itf_fifo_empty_def)
  qed
qed

section \<open>Properties\<close>

text \<open>
  C15. The staging queue of \<^verbatim>\<open>fifo.c\<close> refines a bounded list: whatever sequence of pushes and
  pops is run on a well-formed ring buffer, the values popped, the contents left and the
  point where an assertion aborts are those of the list queue of the same capacity.
\<close>

theorem fifo_refines_queue:
  assumes "fifo_inv f"
  shows "map_option (map_prod id fifo_list) (run_fifo fifo_push fifo_pop ops f)
    = run_fifo (list_push (f_depth f)) list_pop ops (fifo_list f)"
  using assms by (rule fifo.run_refines)

theorem fifo_refines_queue_witness:
  "map_option (map_prod id fifo_list) (run_fifo fifo_push fifo_pop
      [Push 1, Push 2, Pop, Push 3, Pop] (the (fifo_construct 2)))
    = Some ([1, 2 :: nat], [3])"
proof -
  let ?f = "the (fifo_construct 2) :: nat fifo"
  have "fifo_construct 2 = Some ?f" by (simp add: fifo_construct_def)
  from fifo_construct_inv [OF this]
  have f: "fifo_inv ?f" "fifo_list ?f = []" "f_depth ?f = 2" by simp_all
  show ?thesis
    using fifo_refines_queue [OF f(1), of "[Push 1, Push 2, Pop, Push 3, Pop]"]
    by (simp add: list_push_def f)
qed

text \<open>
  The FIFO mode of a module interface (\<^verbatim>\<open>itf.c\<close>) refines the same bounded list, so a
  packet is delivered once, in the order of the writes, and a write aborts exactly when the
  interface is full.
\<close>

theorem itf_refines_queue:
  assumes "itf_inv t"
  shows "map_option (map_prod id itf_list) (run_fifo itf_write itf_read ops t)
    = run_fifo (list_push (itf_depth t)) list_pop ops (itf_list t)"
  using assms by (rule itf.run_refines)

theorem itf_refines_queue_witness:
  "map_option (map_prod id itf_list) (run_fifo itf_write itf_read
      [Push 7, Pop, Push 8, Push 9] (fifo_itf_construct 1)) = (None :: (nat list \<times> nat list) option)"
proof -
  let ?t = "fifo_itf_construct 1 :: nat itf"
  have t: "itf_inv ?t" "itf_list ?t = []" "itf_depth ?t = 1"
    using itf_construct_inv [of 1] by auto
  show ?thesis
    using itf_refines_queue [OF t(1), of "[Push 7, Pop, Push 8, Push 9]"]
    by (simp add: list_push_def t del: One_nat_def)
qed

end
