(* ===== verification/Isa.thy ===== *)
theory Isa
  imports Prelude
begin

text \<open>
  The instruction encoding of \<^verbatim>\<open>design/model/spec/core/isa.h\<close>: the bit-field views of the
  32-bit instruction word (\<^verbatim>\<open>rv32g_inst_t\<close>), the opcode and function constants, sign
  extension and the immediate decoders. The lemmas show that sign extension is the
  arithmetic one and that every decoder inverts the scattering of its immediate format.
\<close>

section \<open>Bit-fields\<close>

text \<open>
  A C bit-field of \<open>w\<close> bits that starts at bit \<open>lo\<close> of its 32-bit storage unit: reading it
  gives an unsigned value, writing it keeps the other bits and drops what does not fit.
\<close>

definition bf :: "nat \<Rightarrow> nat \<Rightarrow> u32 \<Rightarrow> u32" where
  "bf lo w x = take_bit w (drop_bit lo x)"

definition bf_set :: "nat \<Rightarrow> nat \<Rightarrow> u32 \<Rightarrow> u32 \<Rightarrow> u32" where
  "bf_set lo w v x = (x AND NOT (push_bit lo (mask w))) OR push_bit lo (take_bit w v)"

lemma bit_bf: "bit (bf lo w x) n \<longleftrightarrow> n < w \<and> bit x (lo + n)"
  by (auto simp: bf_def bit_simps)

lemma bit_bf_set:
  "bit (bf_set lo w v x) n \<longleftrightarrow>
     n < 32 \<and> (if lo \<le> n \<and> n < lo + w then bit v (n - lo) else bit x n)"
  by (auto simp: bf_set_def bit_simps)

text \<open>One- and two-bit fields, bit by bit.\<close>

lemma bit_bf_set1:
  "bit (bf_set lo (Suc 0) v x) n \<longleftrightarrow> n < 32 \<and> (if n = lo then bit v 0 else bit x n)"
  by (auto simp: bit_bf_set less_Suc_eq)

lemma bit_bf_set2:
  "bit (bf_set lo 2 v x) n \<longleftrightarrow>
     n < 32 \<and> (if n = lo then bit v 0 else if n = Suc lo then bit v 1 else bit x n)"
  by (auto simp: bit_bf_set less_Suc_eq numeral_2_eq_2)

lemma bit_bf1: "bit (bf lo (Suc 0) x) n \<longleftrightarrow> n = 0 \<and> bit x lo"
  by (auto simp: bit_bf)

lemma bf_bf_set [bf_simps]: "lo + w \<le> 32 \<Longrightarrow> bf lo w (bf_set lo w v x) = take_bit w v"
  by (rule bit_eqI) (auto simp: bit_bf bit_bf_set bit_simps)

lemma bf_bf_set_other [bf_simps]:
  "lo + w \<le> lo' \<or> lo' + w' \<le> lo \<Longrightarrow> lo + w \<le> 32 \<Longrightarrow> bf lo w (bf_set lo' w' v x) = bf lo w x"
  by (rule bit_eqI) (auto simp: bit_bf bit_bf_set)

lemma take_bit_bf [bf_simps]: "take_bit w (bf lo w x) = bf lo w x"
  by (simp add: bf_def)

lemma unat_bf_less: "unat (bf lo w x) < 2 ^ w"
proof -
  have "unat (bf lo w x) = take_bit w (unat (drop_bit lo x))"
    by (simp add: bf_def unsigned_take_bit_eq)
  then show ?thesis by simp
qed

text \<open>A value put together from two fields is equal to a constant when both fields are.\<close>

lemma concat_eq_iff:
  assumes "drop_bit n (push_bit n x) = x" "take_bit n y = (y :: u32)"
  shows "push_bit n x OR y = k \<longleftrightarrow> x = drop_bit n k \<and> y = take_bit n k"
proof
  assume k: "push_bit n x OR y = k"
  have "drop_bit n y = 0" by (subst assms(2) [symmetric]) (simp add: drop_bit_take_bit)
  moreover have "take_bit n (push_bit n x) = 0"
    by (rule bit_eqI) (auto simp: bit_simps)
  ultimately show "x = drop_bit n k \<and> y = take_bit n k"
    using assms k by (auto simp: drop_bit_or take_bit_or)
next
  assume "x = drop_bit n k \<and> y = take_bit n k"
  then show "push_bit n x OR y = k"
    by (auto intro!: bit_eqI simp: bit_simps)
qed

section \<open>Instruction fields\<close>

abbreviation (input) OPCODE_LUI :: u32 where "OPCODE_LUI \<equiv> 0b0110111"
abbreviation (input) OPCODE_AUIPC :: u32 where "OPCODE_AUIPC \<equiv> 0b0010111"
abbreviation (input) OPCODE_JAL :: u32 where "OPCODE_JAL \<equiv> 0b1101111"
abbreviation (input) OPCODE_JALR :: u32 where "OPCODE_JALR \<equiv> 0b1100111"
abbreviation (input) OPCODE_BRANCH :: u32 where "OPCODE_BRANCH \<equiv> 0b1100011"
abbreviation (input) OPCODE_LOAD :: u32 where "OPCODE_LOAD \<equiv> 0b0000011"
abbreviation (input) OPCODE_STORE :: u32 where "OPCODE_STORE \<equiv> 0b0100011"
abbreviation (input) OPCODE_ALUI :: u32 where "OPCODE_ALUI \<equiv> 0b0010011"
abbreviation (input) OPCODE_ALU :: u32 where "OPCODE_ALU \<equiv> 0b0110011"
abbreviation (input) OPCODE_MISC_MEM :: u32 where "OPCODE_MISC_MEM \<equiv> 0b0001111"
abbreviation (input) OPCODE_SYSTEM :: u32 where "OPCODE_SYSTEM \<equiv> 0b1110011"
abbreviation (input) OPCODE_AMO :: u32 where "OPCODE_AMO \<equiv> 0b0101111"

definition inst_opcode :: "u32 \<Rightarrow> u32" where "inst_opcode i = bf 0 7 i"
definition inst_rd :: "u32 \<Rightarrow> u32" where "inst_rd i = bf 7 5 i"
definition inst_funct3 :: "u32 \<Rightarrow> u32" where "inst_funct3 i = bf 12 3 i"
definition inst_rs1 :: "u32 \<Rightarrow> u32" where "inst_rs1 i = bf 15 5 i"
definition inst_rs2 :: "u32 \<Rightarrow> u32" where "inst_rs2 i = bf 20 5 i"
definition inst_funct7 :: "u32 \<Rightarrow> u32" where "inst_funct7 i = bf 25 7 i"
definition inst_i_imm_11_0 :: "u32 \<Rightarrow> u32" where "inst_i_imm_11_0 i = bf 20 12 i"
definition inst_s_imm_4_0 :: "u32 \<Rightarrow> u32" where "inst_s_imm_4_0 i = bf 7 5 i"
definition inst_s_imm_11_5 :: "u32 \<Rightarrow> u32" where "inst_s_imm_11_5 i = bf 25 7 i"
definition inst_b_imm_11 :: "u32 \<Rightarrow> u32" where "inst_b_imm_11 i = bf 7 1 i"
definition inst_b_imm_4_1 :: "u32 \<Rightarrow> u32" where "inst_b_imm_4_1 i = bf 8 4 i"
definition inst_b_imm_10_5 :: "u32 \<Rightarrow> u32" where "inst_b_imm_10_5 i = bf 25 6 i"
definition inst_b_imm_12 :: "u32 \<Rightarrow> u32" where "inst_b_imm_12 i = bf 31 1 i"
definition inst_u_imm_31_12 :: "u32 \<Rightarrow> u32" where "inst_u_imm_31_12 i = bf 12 20 i"
definition inst_j_imm_19_12 :: "u32 \<Rightarrow> u32" where "inst_j_imm_19_12 i = bf 12 8 i"
definition inst_j_imm_11 :: "u32 \<Rightarrow> u32" where "inst_j_imm_11 i = bf 20 1 i"
definition inst_j_imm_10_1 :: "u32 \<Rightarrow> u32" where "inst_j_imm_10_1 i = bf 21 10 i"
definition inst_j_imm_20 :: "u32 \<Rightarrow> u32" where "inst_j_imm_20 i = bf 31 1 i"

lemmas inst_field_defs = inst_opcode_def inst_rd_def inst_funct3_def inst_rs1_def inst_rs2_def
  inst_funct7_def inst_i_imm_11_0_def inst_s_imm_4_0_def inst_s_imm_11_5_def inst_b_imm_11_def
  inst_b_imm_4_1_def inst_b_imm_10_5_def inst_b_imm_12_def inst_u_imm_31_12_def
  inst_j_imm_19_12_def inst_j_imm_11_def inst_j_imm_10_1_def inst_j_imm_20_def

lemma reg_index_less [simp]:
  "unat (inst_rd i) < 32" "unat (inst_rs1 i) < 32" "unat (inst_rs2 i) < 32"
  using unat_bf_less [of _ 5 i] by (simp_all add: inst_field_defs)

lemma funct3_values: "inst_funct3 i \<in> {0, 1, 2, 3, 4, 5, 6, 7}"
proof -
  have *: "inst_funct3 i = of_nat n" if "unat (inst_funct3 i) = n" for n
    using that by auto
  have "unat (inst_funct3 i) < 8" using unat_bf_less [of 12 3 i] by (simp add: inst_funct3_def)
  then have "unat (inst_funct3 i) \<in> {0, 1, 2, 3, 4, 5, 6, 7}" by auto
  then show ?thesis by (auto dest!: *)
qed

section \<open>Sign extension and immediates\<close>

definition rv32g_sign_ext :: "u32 \<Rightarrow> nat \<Rightarrow> u32" where
  "rv32g_sign_ext data width =
     (if data AND push_bit (width - 1) 1 \<noteq> 0 then data OR push_bit width (NOT 0) else data)"

definition u_imm_decode :: "u32 \<Rightarrow> u32" where
  "u_imm_decode i = push_bit 12 (inst_u_imm_31_12 i)"

definition j_imm_decode :: "u32 \<Rightarrow> u32" where
  "j_imm_decode i =
     rv32g_sign_ext (push_bit 1 (inst_j_imm_10_1 i) OR push_bit 11 (inst_j_imm_11 i)
       OR push_bit 12 (inst_j_imm_19_12 i) OR push_bit 20 (inst_j_imm_20 i)) 21"

definition i_imm_decode :: "u32 \<Rightarrow> u32" where
  "i_imm_decode i = rv32g_sign_ext (inst_i_imm_11_0 i) 12"

definition b_imm_decode :: "u32 \<Rightarrow> u32" where
  "b_imm_decode i =
     rv32g_sign_ext (push_bit 1 (inst_b_imm_4_1 i) OR push_bit 5 (inst_b_imm_10_5 i)
       OR push_bit 11 (inst_b_imm_11 i) OR push_bit 12 (inst_b_imm_12 i)) 13"

definition s_imm_decode :: "u32 \<Rightarrow> u32" where
  "s_imm_decode i = rv32g_sign_ext (inst_s_imm_4_0 i OR push_bit 5 (inst_s_imm_11_5 i)) 12"

lemma and_single_bit [simp]: "(x AND 2 ^ n = 0) = (\<not> bit (x :: 'a::len word) n)"
  by (metis and_exp_eq_0_iff_not_bit)

lemma bit_sign_ext:
  assumes "0 < width" "width \<le> 32"
  shows "bit (rv32g_sign_ext data width) n \<longleftrightarrow>
    n < 32 \<and> (bit data n \<or> (width \<le> n \<and> bit data (width - 1)))"
  using assms
  by (auto simp: rv32g_sign_ext_def bit_simps dest: bit_imp_le_length)

lemma sign_ext_signed:
  assumes "0 < width" "width \<le> 32" "take_bit width data = data"
  shows "rv32g_sign_ext data width = signed_take_bit (width - 1) data"
proof (rule bit_eqI)
  fix n assume "possible_bit TYPE(32 word) n"
  moreover have "n < width" if "bit data n"
    using that assms(3) by (metis bit_take_bit_iff)
  moreover have "n = width - 1" if "\<not> n < width - 1" "n < width"
    using that by simp
  ultimately show "bit (rv32g_sign_ext data width) n = bit (signed_take_bit (width - 1) data) n"
    using assms(1,2)
    by (cases "n < width - 1"; cases "n < width")
      (auto simp: bit_sign_ext bit_signed_take_bit_iff min_def)
qed

lemma sign_ext_field:
  "0 < w \<Longrightarrow> w \<le> 32 \<Longrightarrow> rv32g_sign_ext (bf lo w x) w = signed_take_bit (w - 1) (drop_bit lo x)"
  by (simp add: sign_ext_signed take_bit_bf) (simp add: bf_def signed_take_bit_take_bit)

section \<open>The immediate formats\<close>

text \<open>
  The scattering of an immediate over the instruction word, as the instruction set manual
  lays it out; the decoders are compared with it.
\<close>

definition i_imm_encode :: "u32 \<Rightarrow> u32 \<Rightarrow> u32" where
  "i_imm_encode imm i = bf_set 20 12 imm i"

definition s_imm_encode :: "u32 \<Rightarrow> u32 \<Rightarrow> u32" where
  "s_imm_encode imm i = bf_set 7 5 (bf 0 5 imm) (bf_set 25 7 (bf 5 7 imm) i)"

definition b_imm_encode :: "u32 \<Rightarrow> u32 \<Rightarrow> u32" where
  "b_imm_encode imm i = bf_set 7 1 (bf 11 1 imm) (bf_set 8 4 (bf 1 4 imm)
     (bf_set 25 6 (bf 5 6 imm) (bf_set 31 1 (bf 12 1 imm) i)))"

definition u_imm_encode :: "u32 \<Rightarrow> u32 \<Rightarrow> u32" where
  "u_imm_encode imm i = bf_set 12 20 (bf 12 20 imm) i"

definition j_imm_encode :: "u32 \<Rightarrow> u32 \<Rightarrow> u32" where
  "j_imm_encode imm i = bf_set 12 8 (bf 12 8 imm) (bf_set 20 1 (bf 11 1 imm)
     (bf_set 21 10 (bf 1 10 imm) (bf_set 31 1 (bf 20 1 imm) i)))"

lemma bit_push_bf:
  "bit (push_bit k (bf k w x)) n \<longleftrightarrow> k \<le> n \<and> n < k + w \<and> bit x n"
  by (auto simp only: bit_push_bit_iff bit_bf le_add_diff_inverse intro: bit_imp_possible_bit)

lemma i_imm_roundtrip: "i_imm_decode (i_imm_encode imm i) = signed_take_bit 11 imm"
  by (simp add: i_imm_decode_def i_imm_encode_def inst_field_defs bf_simps sign_ext_signed
      signed_take_bit_take_bit)

lemma s_imm_roundtrip: "s_imm_decode (s_imm_encode imm i) = signed_take_bit 11 imm"
proof -
  have "bf 0 5 imm OR push_bit 5 (bf 5 7 imm) = take_bit 12 imm"
    by (rule bit_eqI) (auto simp: bit_simps bit_bf)
  then show ?thesis
    by (simp add: s_imm_decode_def s_imm_encode_def inst_field_defs bf_simps sign_ext_signed
      signed_take_bit_take_bit)
qed

lemma b_imm_roundtrip:
  "\<not> bit imm 0 \<Longrightarrow> b_imm_decode (b_imm_encode imm i) = signed_take_bit 12 imm"
proof -
  assume "\<not> bit imm 0"
  then have pos: "1 \<le> n" if "bit imm n" for n using that by (cases n) auto
  have "push_bit 1 (bf 1 4 imm) OR push_bit 5 (bf 5 6 imm) OR push_bit 11 (bf 11 1 imm)
      OR push_bit 12 (bf 12 1 imm) = take_bit 13 imm"
    by (rule bit_eqI) (auto simp only: bit_or_iff bit_push_bf bit_take_bit_iff dest: pos)
  then show ?thesis
    by (simp add: b_imm_decode_def b_imm_encode_def inst_field_defs bf_simps sign_ext_signed
      signed_take_bit_take_bit)
qed

lemma u_imm_roundtrip: "u_imm_decode (u_imm_encode imm i) = imm AND NOT (mask 12)"
proof -
  have "push_bit 12 (bf 12 20 imm) = imm AND NOT (mask 12)"
    by (rule bit_eqI) (auto simp: bit_simps bit_bf)
  then show ?thesis
    by (simp add: u_imm_decode_def u_imm_encode_def inst_field_defs bf_simps)
qed

lemma j_imm_roundtrip:
  "\<not> bit imm 0 \<Longrightarrow> j_imm_decode (j_imm_encode imm i) = signed_take_bit 20 imm"
proof -
  assume "\<not> bit imm 0"
  then have pos: "1 \<le> n" if "bit imm n" for n using that by (cases n) auto
  have "push_bit 1 (bf 1 10 imm) OR push_bit 11 (bf 11 1 imm) OR push_bit 12 (bf 12 8 imm)
      OR push_bit 20 (bf 20 1 imm) = take_bit 21 imm"
    by (rule bit_eqI) (auto simp only: bit_or_iff bit_push_bf bit_take_bit_iff dest: pos)
  then show ?thesis
    by (simp add: j_imm_decode_def j_imm_encode_def inst_field_defs bf_simps sign_ext_signed
      signed_take_bit_take_bit)
qed

text \<open>
  The immediate decoders invert the encodings of the instruction formats: an immediate
  that fits its format (twelve bits for I and S, thirteen for B and twenty-one for J with the
  lowest bit zero, the upper twenty for U), scattered over any instruction word and decoded,
  comes back sign-extended.
\<close>

theorem imm_decode_encode:
  assumes "\<not> bit off 0"
  shows "i_imm_decode (i_imm_encode imm i) = signed_take_bit 11 imm
    \<and> s_imm_decode (s_imm_encode imm i) = signed_take_bit 11 imm
    \<and> b_imm_decode (b_imm_encode off i) = signed_take_bit 12 off
    \<and> u_imm_decode (u_imm_encode imm i) = imm AND NOT (mask 12)
    \<and> j_imm_decode (j_imm_encode off i) = signed_take_bit 20 off"
  using assms i_imm_roundtrip s_imm_roundtrip b_imm_roundtrip u_imm_roundtrip j_imm_roundtrip by simp

theorem imm_decode_encode_witness:
  "\<not> bit (0x1FFE :: u32) 0 \<and> b_imm_decode (b_imm_encode 0x1FFE 0x63) = - 2
    \<and> j_imm_decode (j_imm_encode 0x1FFE 0x6F) = 0x1FFE"
proof -
  have odd: "\<not> bit (0x1FFE :: u32) 0" by simp
  have vals: "signed_take_bit 12 (0x1FFE :: u32) = - 2" "signed_take_bit 20 (0x1FFE :: u32) = 0x1FFE"
    by code_simp+
  show ?thesis
    using imm_decode_encode [OF odd, of 0 "0x63"] imm_decode_encode [OF odd, of 0 "0x6F"] odd vals by simp
qed

end
