(* ===== verification/Packets.thy ===== *)
theory Packets
  imports Fifo Isa
begin

text \<open>
  The packets the modules of a hart exchange, one record per \<^verbatim>\<open>design/model/itf/*_if.h\<close>, and
  the privilege levels of \<^verbatim>\<open>isa.h\<close>. A packet whose only member is \<^verbatim>\<open>u32 dummy\<close> is that number.
  Privilege values travel through two-bit fields and eight-bit members; every value that
  occurs is below four, so one 32-bit type serves for all of them.
\<close>

type_synonym priv = u32

abbreviation (input) RV32G_PRIV_USER :: priv where "RV32G_PRIV_USER \<equiv> 0"
abbreviation (input) RV32G_PRIV_SUPERVISOR :: priv where "RV32G_PRIV_SUPERVISOR \<equiv> 1"
abbreviation (input) RV32G_PRIV_MACHINE :: priv where "RV32G_PRIV_MACHINE \<equiv> 3"

section \<open>Execution\<close>

record ex_req =
  er_inst :: u32
  er_pc :: u32
  er_pred_taken :: bool
  er_pred_pc :: u32
  er_is_boot_code :: bool

record ex_rsp =
  xr_pc :: u32
  xr_taken :: bool
  xr_pred_true :: bool
  xr_target_pc :: u32

type_synonym fl_req = u32
type_synonym tlb_flush = u32
type_synonym l1_flush = u32
type_synonym l1_flush_ack = u32

section \<open>Loads and stores\<close>

datatype ldst_req_cmo = LDST_REQ_CMO_NONE | LDST_REQ_CMO_INVAL | LDST_REQ_CMO_CLEAN
  | LDST_REQ_CMO_FLUSH

datatype ldst_req_size = LDST_REQ_SIZE_B1 | LDST_REQ_SIZE_B2 | LDST_REQ_SIZE_B4

record ldst_req =
  lq_addr :: u32
  lq_st :: bool
  lq_cmo :: ldst_req_cmo
  lq_size :: ldst_req_size
  lq_data :: u32
  lq_strobe :: u8

text \<open>\<^verbatim>\<open>ldst_req_if_t ldst_req = { .cmo = LDST_REQ_CMO_NONE }\<close>: the other members are zero.\<close>

definition ldst_req_init :: ldst_req where
  "ldst_req_init = \<lparr>lq_addr = 0, lq_st = False, lq_cmo = LDST_REQ_CMO_NONE,
     lq_size = LDST_REQ_SIZE_B1, lq_data = 0, lq_strobe = 0\<rparr>"

record ldst_rsp =
  lr_data :: u32
  lr_ok :: bool

section \<open>Exceptions and traps\<close>

datatype hart_expt_type = HART_EXPT_TYPE_EXCEPTION | HART_EXPT_TYPE_MRET | HART_EXPT_TYPE_SRET

abbreviation (input) HART_EXPT_CAUSE_ILLEGAL_INST :: u32 where "HART_EXPT_CAUSE_ILLEGAL_INST \<equiv> 2"
abbreviation (input) HART_EXPT_CAUSE_BREAKPOINT :: u32 where "HART_EXPT_CAUSE_BREAKPOINT \<equiv> 3"
abbreviation (input) HART_EXPT_CAUSE_ECALL :: u32 where "HART_EXPT_CAUSE_ECALL \<equiv> 8"
abbreviation (input) HART_EXPT_CAUSE_INST_PAGE_FAULT :: u32 where "HART_EXPT_CAUSE_INST_PAGE_FAULT \<equiv> 12"
abbreviation (input) HART_EXPT_CAUSE_LOAD_PAGE_FAULT :: u32 where "HART_EXPT_CAUSE_LOAD_PAGE_FAULT \<equiv> 13"
abbreviation (input) HART_EXPT_CAUSE_STORE_AMO_PAGE_FAULT :: u32
  where "HART_EXPT_CAUSE_STORE_AMO_PAGE_FAULT \<equiv> 15"

record hart_expt =
  he_type :: hart_expt_type
  he_cause :: u32
  he_priv :: priv
  he_pc :: u32
  he_tval :: u32

record trap_send =
  ts_target_pc :: u32

record exu_state =
  es_priv :: priv
  es_pc :: u32
  es_irq_epc :: u32
  es_trap_defer :: bool
  es_wfi :: bool
  es_wfi_resume_pc :: u32

record csr_trap_state =
  ct_mstatus :: u32
  ct_mip :: u32
  ct_mie :: u32
  ct_mtvec :: u32
  ct_mepc :: u32
  ct_medeleg :: u32
  ct_mideleg :: u32
  ct_sstatus :: u32
  ct_sip :: u32
  ct_sie :: u32
  ct_stvec :: u32
  ct_sepc :: u32

record csr_mmu_state =
  cm_satp :: u32
  cm_mstatus :: u32

record csr_lsu_state =
  cl_satp :: u32

end
