(* ===== verification/ExuBase.thy ===== *)
theory ExuBase
  imports Packets
begin

text \<open>
  The state of the execution unit (\<^verbatim>\<open>exu.h\<close>): its registers and the interfaces it drives
  or reads, and the register file accessors of \<^verbatim>\<open>exu/utils.h\<close>. Trace output, the heartbeat
  counter and the VCD signals are left out.
\<close>

datatype amo_stage = AMO_STAGE_IDLE | AMO_STAGE_READ | AMO_STAGE_WRITE

datatype fence_i_stage = FENCE_I_STAGE_IDLE | FENCE_I_STAGE_WAIT_D_ACK
  | FENCE_I_STAGE_SEND_I_FLUSH | FENCE_I_STAGE_WAIT_I_ACK | FENCE_I_STAGE_DONE

record exu =
  fl_req_slv :: "fl_req itf"
  ex_req_slv :: "ex_req itf"
  ex_rsp_mst :: "ex_rsp itf"
  ldst_req_mst :: "ldst_req itf"
  ldst_rsp_slv :: "ldst_rsp itf"
  ex_expt_mst :: "hart_expt itf"
  tlb_flush_mst :: "tlb_flush itf"
  l1i_flush_mst :: "l1_flush itf"
  l1d_flush_mst :: "l1_flush itf"
  l1i_flush_ack_slv :: "l1_flush_ack itf"
  l1d_flush_ack_slv :: "l1_flush_ack itf"
  exu_state_o :: exu_state
  exu_priv :: priv
  cur_pc :: u32
  irq_epc :: u32
  trap_defer :: bool
  cur_opcode :: u32
  ldst_req_pend :: bool
  ldst_opcode :: u32
  ldst_pc :: u32
  ld_rd :: u32
  ld_funct3 :: u32
  amo_stage :: amo_stage
  amo_rd :: u32
  amo_addr :: u32
  amo_s2 :: u32
  amo_funct375 :: u32
  amo_lr_set :: bool
  amo_rsvd_addr :: u32
  exu_wfi :: bool
  wfi_resume_pc :: u32
  fence_i_stage :: fence_i_stage
  exu_gpr :: "u32 list"
  perf_exec_inst :: u64

definition get_gpr :: "exu \<Rightarrow> u32 \<Rightarrow> u32 option" where
  "get_gpr exu i = arr_get (exu_gpr exu) (unat i)"

definition set_gpr :: "exu \<Rightarrow> u32 \<Rightarrow> u32 \<Rightarrow> exu option" where
  "set_gpr exu i val =
     (if i > 0 then do { gpr \<leftarrow> arr_put (exu_gpr exu) (unat i) val; Some (exu\<lparr>exu_gpr := gpr\<rparr>) }
      else Some exu)"

definition exu_publish_state :: "exu \<Rightarrow> exu" where
  "exu_publish_state exu = exu\<lparr>exu_state_o :=
     \<lparr>es_priv = exu_priv exu, es_pc = cur_pc exu, es_irq_epc = irq_epc exu,
      es_trap_defer = trap_defer exu, es_wfi = exu_wfi exu,
      es_wfi_resume_pc = wfi_resume_pc exu\<rparr>\<rparr>"

text \<open>The callback of the signal through which the trap unit controls the execution unit.\<close>

definition exu_trap_ctrl_cb :: "exu \<Rightarrow> priv \<Rightarrow> u32 \<Rightarrow> bool \<Rightarrow> exu" where
  "exu_trap_ctrl_cb exu priv epc wfi =
     exu_publish_state (exu\<lparr>exu_priv := priv, irq_epc := epc, exu_wfi := wfi\<rparr>)"

text \<open>
  \<^verbatim>\<open>exu_reset\<close>: registers 1 to 31 get the values of \<^verbatim>\<open>rand()\<close>, here those of an arbitrary
  function.
\<close>

definition exu_reset :: "(nat \<Rightarrow> u32) \<Rightarrow> exu \<Rightarrow> exu" where
  "exu_reset rand exu = exu_publish_state (exu\<lparr>
     exu_gpr := 0 # map rand [1..<32],
     cur_opcode := 0, ldst_req_pend := False, ldst_opcode := 0, ldst_pc := 0, ld_rd := 0,
     ld_funct3 := 0, amo_stage := AMO_STAGE_IDLE, amo_rd := 0, amo_addr := 0, amo_s2 := 0,
     amo_funct375 := 0, amo_lr_set := False, amo_rsvd_addr := 0, exu_wfi := False,
     wfi_resume_pc := 0, fence_i_stage := FENCE_I_STAGE_IDLE, trap_defer := False,
     perf_exec_inst := 0, exu_priv := RV32G_PRIV_MACHINE, cur_pc := 0, irq_epc := 0\<rparr>)"

text \<open>
  The unit as \<^verbatim>\<open>hart_construct\<close> wires it: every interface a FIFO of depth one. The registers get
  their values from the reset that follows.
\<close>

definition hart_exu :: exu where
  "hart_exu = \<lparr>
     fl_req_slv = fifo_itf_construct 1, ex_req_slv = fifo_itf_construct 1,
     ex_rsp_mst = fifo_itf_construct 1, ldst_req_mst = fifo_itf_construct 1,
     ldst_rsp_slv = fifo_itf_construct 1, ex_expt_mst = fifo_itf_construct 1,
     tlb_flush_mst = fifo_itf_construct 1, l1i_flush_mst = fifo_itf_construct 1,
     l1d_flush_mst = fifo_itf_construct 1, l1i_flush_ack_slv = fifo_itf_construct 1,
     l1d_flush_ack_slv = fifo_itf_construct 1,
     exu_state_o = \<lparr>es_priv = 0, es_pc = 0, es_irq_epc = 0, es_trap_defer = False, es_wfi = False,
       es_wfi_resume_pc = 0\<rparr>,
     exu_priv = 0, cur_pc = 0, irq_epc = 0, trap_defer = False, cur_opcode = 0,
     ldst_req_pend = False, ldst_opcode = 0, ldst_pc = 0, ld_rd = 0, ld_funct3 = 0,
     amo_stage = AMO_STAGE_IDLE, amo_rd = 0, amo_addr = 0, amo_s2 = 0, amo_funct375 = 0,
     amo_lr_set = False, amo_rsvd_addr = 0, exu_wfi = False, wfi_resume_pc = 0,
     fence_i_stage = FENCE_I_STAGE_IDLE, exu_gpr = replicate 32 0, perf_exec_inst = 0\<rparr>"

definition gpr_ok :: "exu \<Rightarrow> bool" where
  "gpr_ok exu \<longleftrightarrow> length (exu_gpr exu) = 32 \<and> exu_gpr exu ! 0 = 0"

text \<open>The register file as the instruction set sees it: \<open>x0\<close> reads zero and ignores writes.\<close>

definition gpr_of :: "exu \<Rightarrow> u32 \<Rightarrow> u32" where
  "gpr_of exu i = exu_gpr exu ! unat i"

definition upd_gpr :: "exu \<Rightarrow> u32 \<Rightarrow> u32 \<Rightarrow> exu" where
  "upd_gpr exu i val = (if i = 0 then exu else exu\<lparr>exu_gpr := (exu_gpr exu)[unat i := val]\<rparr>)"

lemma hart_exu_ports [simp]:
  "fl_req_slv (exu_reset rand hart_exu) = fifo_itf_construct 1"
  "ex_req_slv (exu_reset rand hart_exu) = fifo_itf_construct 1"
  "ex_rsp_mst (exu_reset rand hart_exu) = fifo_itf_construct 1"
  "ldst_req_mst (exu_reset rand hart_exu) = fifo_itf_construct 1"
  "ldst_rsp_slv (exu_reset rand hart_exu) = fifo_itf_construct 1"
  "ex_expt_mst (exu_reset rand hart_exu) = fifo_itf_construct 1"
  "tlb_flush_mst (exu_reset rand hart_exu) = fifo_itf_construct 1"
  "l1i_flush_mst (exu_reset rand hart_exu) = fifo_itf_construct 1"
  "l1d_flush_mst (exu_reset rand hart_exu) = fifo_itf_construct 1"
  "l1i_flush_ack_slv (exu_reset rand hart_exu) = fifo_itf_construct 1"
  "l1d_flush_ack_slv (exu_reset rand hart_exu) = fifo_itf_construct 1"
  by (simp_all add: exu_reset_def exu_publish_state_def hart_exu_def)

lemma exu_reset_gpr_ok [simp]: "gpr_ok (exu_reset rand exu)"
  by (simp add: gpr_ok_def exu_reset_def exu_publish_state_def)

lemma exu_reset_gpr_of: "unat i < 32 \<Longrightarrow> gpr_of (exu_reset rand exu) i = (if i = 0 then 0 else rand (unat i))"
  by (cases "unat i") (auto simp: gpr_of_def exu_reset_def exu_publish_state_def unat_eq_zero)

lemma get_gpr_ok [simp]: "gpr_ok exu \<Longrightarrow> unat i < 32 \<Longrightarrow> get_gpr exu i = Some (gpr_of exu i)"
  by (simp add: get_gpr_def gpr_ok_def gpr_of_def)

lemma set_gpr_ok [simp]: "gpr_ok exu \<Longrightarrow> unat i < 32 \<Longrightarrow> set_gpr exu i v = Some (upd_gpr exu i v)"
  by (auto simp: set_gpr_def gpr_ok_def upd_gpr_def word_neq_0_conv)

lemma gpr_ok_upd [simp]: "gpr_ok exu \<Longrightarrow> gpr_ok (upd_gpr exu i v)"
  by (auto simp: gpr_ok_def upd_gpr_def nth_list_update unat_eq_zero)

lemma gpr_of_0 [simp]: "gpr_ok exu \<Longrightarrow> gpr_of exu 0 = 0"
  by (simp add: gpr_ok_def gpr_of_def)

lemma gpr_of_upd:
  "gpr_ok exu \<Longrightarrow> unat i < 32 \<Longrightarrow>
     gpr_of (upd_gpr exu i v) j = (if j = i \<and> i \<noteq> 0 then v else gpr_of exu j)"
  by (auto simp: gpr_ok_def gpr_of_def upd_gpr_def nth_list_update word_unat_eq_iff)

lemma set_gpr_SomeD:
  "set_gpr exu i v = Some exu' \<Longrightarrow> exu' = upd_gpr exu i v"
  by (auto simp: set_gpr_def upd_gpr_def word_neq_0_conv dest: arr_put_SomeD split: if_splits
      bind_splits)

section \<open>Frame rules\<close>

text \<open>Register accesses and updates of the other members do not influence each other.\<close>

lemma gpr_ok_frame [simp]:
  "gpr_ok (fl_req_slv_update g1 exu) = gpr_ok exu"
  "gpr_ok (ex_req_slv_update g2 exu) = gpr_ok exu"
  "gpr_ok (ex_rsp_mst_update g3 exu) = gpr_ok exu"
  "gpr_ok (ldst_req_mst_update g4 exu) = gpr_ok exu"
  "gpr_ok (ldst_rsp_slv_update g5 exu) = gpr_ok exu"
  "gpr_ok (ex_expt_mst_update g6 exu) = gpr_ok exu"
  "gpr_ok (tlb_flush_mst_update g7 exu) = gpr_ok exu"
  "gpr_ok (l1i_flush_mst_update g8 exu) = gpr_ok exu"
  "gpr_ok (l1d_flush_mst_update g9 exu) = gpr_ok exu"
  "gpr_ok (l1i_flush_ack_slv_update g10 exu) = gpr_ok exu"
  "gpr_ok (l1d_flush_ack_slv_update g11 exu) = gpr_ok exu"
  "gpr_ok (exu_state_o_update g12 exu) = gpr_ok exu"
  "gpr_ok (exu_priv_update g13 exu) = gpr_ok exu"
  "gpr_ok (cur_pc_update g14 exu) = gpr_ok exu"
  "gpr_ok (irq_epc_update g15 exu) = gpr_ok exu"
  "gpr_ok (trap_defer_update g16 exu) = gpr_ok exu"
  "gpr_ok (cur_opcode_update g17 exu) = gpr_ok exu"
  "gpr_ok (ldst_req_pend_update g18 exu) = gpr_ok exu"
  "gpr_ok (ldst_opcode_update g19 exu) = gpr_ok exu"
  "gpr_ok (ldst_pc_update g20 exu) = gpr_ok exu"
  "gpr_ok (ld_rd_update g21 exu) = gpr_ok exu"
  "gpr_ok (ld_funct3_update g22 exu) = gpr_ok exu"
  "gpr_ok (amo_stage_update g23 exu) = gpr_ok exu"
  "gpr_ok (amo_rd_update g24 exu) = gpr_ok exu"
  "gpr_ok (amo_addr_update g25 exu) = gpr_ok exu"
  "gpr_ok (amo_s2_update g26 exu) = gpr_ok exu"
  "gpr_ok (amo_funct375_update g27 exu) = gpr_ok exu"
  "gpr_ok (amo_lr_set_update g28 exu) = gpr_ok exu"
  "gpr_ok (amo_rsvd_addr_update g29 exu) = gpr_ok exu"
  "gpr_ok (exu_wfi_update g30 exu) = gpr_ok exu"
  "gpr_ok (wfi_resume_pc_update g31 exu) = gpr_ok exu"
  "gpr_ok (fence_i_stage_update g32 exu) = gpr_ok exu"
  "gpr_ok (perf_exec_inst_update g33 exu) = gpr_ok exu"
  by (simp_all add: gpr_ok_def)

lemma gpr_of_frame [simp]:
  "gpr_of (fl_req_slv_update g34 exu) = gpr_of exu"
  "gpr_of (ex_req_slv_update g35 exu) = gpr_of exu"
  "gpr_of (ex_rsp_mst_update g36 exu) = gpr_of exu"
  "gpr_of (ldst_req_mst_update g37 exu) = gpr_of exu"
  "gpr_of (ldst_rsp_slv_update g38 exu) = gpr_of exu"
  "gpr_of (ex_expt_mst_update g39 exu) = gpr_of exu"
  "gpr_of (tlb_flush_mst_update g40 exu) = gpr_of exu"
  "gpr_of (l1i_flush_mst_update g41 exu) = gpr_of exu"
  "gpr_of (l1d_flush_mst_update g42 exu) = gpr_of exu"
  "gpr_of (l1i_flush_ack_slv_update g43 exu) = gpr_of exu"
  "gpr_of (l1d_flush_ack_slv_update g44 exu) = gpr_of exu"
  "gpr_of (exu_state_o_update g45 exu) = gpr_of exu"
  "gpr_of (exu_priv_update g46 exu) = gpr_of exu"
  "gpr_of (cur_pc_update g47 exu) = gpr_of exu"
  "gpr_of (irq_epc_update g48 exu) = gpr_of exu"
  "gpr_of (trap_defer_update g49 exu) = gpr_of exu"
  "gpr_of (cur_opcode_update g50 exu) = gpr_of exu"
  "gpr_of (ldst_req_pend_update g51 exu) = gpr_of exu"
  "gpr_of (ldst_opcode_update g52 exu) = gpr_of exu"
  "gpr_of (ldst_pc_update g53 exu) = gpr_of exu"
  "gpr_of (ld_rd_update g54 exu) = gpr_of exu"
  "gpr_of (ld_funct3_update g55 exu) = gpr_of exu"
  "gpr_of (amo_stage_update g56 exu) = gpr_of exu"
  "gpr_of (amo_rd_update g57 exu) = gpr_of exu"
  "gpr_of (amo_addr_update g58 exu) = gpr_of exu"
  "gpr_of (amo_s2_update g59 exu) = gpr_of exu"
  "gpr_of (amo_funct375_update g60 exu) = gpr_of exu"
  "gpr_of (amo_lr_set_update g61 exu) = gpr_of exu"
  "gpr_of (amo_rsvd_addr_update g62 exu) = gpr_of exu"
  "gpr_of (exu_wfi_update g63 exu) = gpr_of exu"
  "gpr_of (wfi_resume_pc_update g64 exu) = gpr_of exu"
  "gpr_of (fence_i_stage_update g65 exu) = gpr_of exu"
  "gpr_of (perf_exec_inst_update g66 exu) = gpr_of exu"
  by (simp_all add: gpr_of_def fun_eq_iff)

lemma upd_gpr_proj [simp]:
  "fl_req_slv (upd_gpr exu i v) = fl_req_slv exu"
  "ex_req_slv (upd_gpr exu i v) = ex_req_slv exu"
  "ex_rsp_mst (upd_gpr exu i v) = ex_rsp_mst exu"
  "ldst_req_mst (upd_gpr exu i v) = ldst_req_mst exu"
  "ldst_rsp_slv (upd_gpr exu i v) = ldst_rsp_slv exu"
  "ex_expt_mst (upd_gpr exu i v) = ex_expt_mst exu"
  "tlb_flush_mst (upd_gpr exu i v) = tlb_flush_mst exu"
  "l1i_flush_mst (upd_gpr exu i v) = l1i_flush_mst exu"
  "l1d_flush_mst (upd_gpr exu i v) = l1d_flush_mst exu"
  "l1i_flush_ack_slv (upd_gpr exu i v) = l1i_flush_ack_slv exu"
  "l1d_flush_ack_slv (upd_gpr exu i v) = l1d_flush_ack_slv exu"
  "exu_state_o (upd_gpr exu i v) = exu_state_o exu"
  "exu_priv (upd_gpr exu i v) = exu_priv exu"
  "cur_pc (upd_gpr exu i v) = cur_pc exu"
  "irq_epc (upd_gpr exu i v) = irq_epc exu"
  "trap_defer (upd_gpr exu i v) = trap_defer exu"
  "cur_opcode (upd_gpr exu i v) = cur_opcode exu"
  "ldst_req_pend (upd_gpr exu i v) = ldst_req_pend exu"
  "ldst_opcode (upd_gpr exu i v) = ldst_opcode exu"
  "ldst_pc (upd_gpr exu i v) = ldst_pc exu"
  "ld_rd (upd_gpr exu i v) = ld_rd exu"
  "ld_funct3 (upd_gpr exu i v) = ld_funct3 exu"
  "amo_stage (upd_gpr exu i v) = amo_stage exu"
  "amo_rd (upd_gpr exu i v) = amo_rd exu"
  "amo_addr (upd_gpr exu i v) = amo_addr exu"
  "amo_s2 (upd_gpr exu i v) = amo_s2 exu"
  "amo_funct375 (upd_gpr exu i v) = amo_funct375 exu"
  "amo_lr_set (upd_gpr exu i v) = amo_lr_set exu"
  "amo_rsvd_addr (upd_gpr exu i v) = amo_rsvd_addr exu"
  "exu_wfi (upd_gpr exu i v) = exu_wfi exu"
  "wfi_resume_pc (upd_gpr exu i v) = wfi_resume_pc exu"
  "fence_i_stage (upd_gpr exu i v) = fence_i_stage exu"
  "perf_exec_inst (upd_gpr exu i v) = perf_exec_inst exu"
  by (simp_all add: upd_gpr_def)

lemma upd_gpr_commute [simp]:
  "upd_gpr (fl_req_slv_update g67 exu) i v = fl_req_slv_update g67 (upd_gpr exu i v)"
  "upd_gpr (ex_req_slv_update g68 exu) i v = ex_req_slv_update g68 (upd_gpr exu i v)"
  "upd_gpr (ex_rsp_mst_update g69 exu) i v = ex_rsp_mst_update g69 (upd_gpr exu i v)"
  "upd_gpr (ldst_req_mst_update g70 exu) i v = ldst_req_mst_update g70 (upd_gpr exu i v)"
  "upd_gpr (ldst_rsp_slv_update g71 exu) i v = ldst_rsp_slv_update g71 (upd_gpr exu i v)"
  "upd_gpr (ex_expt_mst_update g72 exu) i v = ex_expt_mst_update g72 (upd_gpr exu i v)"
  "upd_gpr (tlb_flush_mst_update g73 exu) i v = tlb_flush_mst_update g73 (upd_gpr exu i v)"
  "upd_gpr (l1i_flush_mst_update g74 exu) i v = l1i_flush_mst_update g74 (upd_gpr exu i v)"
  "upd_gpr (l1d_flush_mst_update g75 exu) i v = l1d_flush_mst_update g75 (upd_gpr exu i v)"
  "upd_gpr (l1i_flush_ack_slv_update g76 exu) i v = l1i_flush_ack_slv_update g76 (upd_gpr exu i v)"
  "upd_gpr (l1d_flush_ack_slv_update g77 exu) i v = l1d_flush_ack_slv_update g77 (upd_gpr exu i v)"
  "upd_gpr (exu_state_o_update g78 exu) i v = exu_state_o_update g78 (upd_gpr exu i v)"
  "upd_gpr (exu_priv_update g79 exu) i v = exu_priv_update g79 (upd_gpr exu i v)"
  "upd_gpr (cur_pc_update g80 exu) i v = cur_pc_update g80 (upd_gpr exu i v)"
  "upd_gpr (irq_epc_update g81 exu) i v = irq_epc_update g81 (upd_gpr exu i v)"
  "upd_gpr (trap_defer_update g82 exu) i v = trap_defer_update g82 (upd_gpr exu i v)"
  "upd_gpr (cur_opcode_update g83 exu) i v = cur_opcode_update g83 (upd_gpr exu i v)"
  "upd_gpr (ldst_req_pend_update g84 exu) i v = ldst_req_pend_update g84 (upd_gpr exu i v)"
  "upd_gpr (ldst_opcode_update g85 exu) i v = ldst_opcode_update g85 (upd_gpr exu i v)"
  "upd_gpr (ldst_pc_update g86 exu) i v = ldst_pc_update g86 (upd_gpr exu i v)"
  "upd_gpr (ld_rd_update g87 exu) i v = ld_rd_update g87 (upd_gpr exu i v)"
  "upd_gpr (ld_funct3_update g88 exu) i v = ld_funct3_update g88 (upd_gpr exu i v)"
  "upd_gpr (amo_stage_update g89 exu) i v = amo_stage_update g89 (upd_gpr exu i v)"
  "upd_gpr (amo_rd_update g90 exu) i v = amo_rd_update g90 (upd_gpr exu i v)"
  "upd_gpr (amo_addr_update g91 exu) i v = amo_addr_update g91 (upd_gpr exu i v)"
  "upd_gpr (amo_s2_update g92 exu) i v = amo_s2_update g92 (upd_gpr exu i v)"
  "upd_gpr (amo_funct375_update g93 exu) i v = amo_funct375_update g93 (upd_gpr exu i v)"
  "upd_gpr (amo_lr_set_update g94 exu) i v = amo_lr_set_update g94 (upd_gpr exu i v)"
  "upd_gpr (amo_rsvd_addr_update g95 exu) i v = amo_rsvd_addr_update g95 (upd_gpr exu i v)"
  "upd_gpr (exu_wfi_update g96 exu) i v = exu_wfi_update g96 (upd_gpr exu i v)"
  "upd_gpr (wfi_resume_pc_update g97 exu) i v = wfi_resume_pc_update g97 (upd_gpr exu i v)"
  "upd_gpr (fence_i_stage_update g98 exu) i v = fence_i_stage_update g98 (upd_gpr exu i v)"
  "upd_gpr (perf_exec_inst_update g99 exu) i v = perf_exec_inst_update g99 (upd_gpr exu i v)"
  by (simp_all add: upd_gpr_def)

end
