(* ===== verification/ExuAlu.thy ===== *)
theory ExuAlu
  imports ExuBase "HOL-Library.Signed_Division"
begin

text \<open>
  The integer computation group (\<^verbatim>\<open>exu/alu.c\<close>): one definition per handler, the two dispatch
  tables and \<^verbatim>\<open>alu_ex_req_proc\<close>. The reference semantics \<open>alu_sem\<close> states what each
  instruction computes in mathematical integers, as the instruction set manual does.
\<close>

section \<open>Immediate operations\<close>

definition addi_ex_req_handler :: "exu \<Rightarrow> ex_req \<Rightarrow> exu option" where
  "addi_ex_req_handler exu req = do {
     s1 \<leftarrow> get_gpr exu (inst_rs1 (er_inst req));
     set_gpr exu (inst_rd (er_inst req)) (s1 + i_imm_decode (er_inst req))
   }"

definition slti_ex_req_handler :: "exu \<Rightarrow> ex_req \<Rightarrow> exu option" where
  "slti_ex_req_handler exu req = do {
     n1 \<leftarrow> get_gpr exu (inst_rs1 (er_inst req));
     let n2 = i_imm_decode (er_inst req);
     set_gpr exu (inst_rd (er_inst req)) (if sint n1 < sint n2 then 1 else 0)
   }"

definition sltiu_ex_req_handler :: "exu \<Rightarrow> ex_req \<Rightarrow> exu option" where
  "sltiu_ex_req_handler exu req = do {
     s1 \<leftarrow> get_gpr exu (inst_rs1 (er_inst req));
     set_gpr exu (inst_rd (er_inst req)) (if s1 < i_imm_decode (er_inst req) then 1 else 0)
   }"

definition xori_ex_req_handler :: "exu \<Rightarrow> ex_req \<Rightarrow> exu option" where
  "xori_ex_req_handler exu req = do {
     s1 \<leftarrow> get_gpr exu (inst_rs1 (er_inst req));
     set_gpr exu (inst_rd (er_inst req)) (s1 XOR i_imm_decode (er_inst req))
   }"

definition ori_ex_req_handler :: "exu \<Rightarrow> ex_req \<Rightarrow> exu option" where
  "ori_ex_req_handler exu req = do {
     s1 \<leftarrow> get_gpr exu (inst_rs1 (er_inst req));
     set_gpr exu (inst_rd (er_inst req)) (s1 OR i_imm_decode (er_inst req))
   }"

definition andi_ex_req_handler :: "exu \<Rightarrow> ex_req \<Rightarrow> exu option" where
  "andi_ex_req_handler exu req = do {
     s1 \<leftarrow> get_gpr exu (inst_rs1 (er_inst req));
     set_gpr exu (inst_rd (er_inst req)) (s1 AND i_imm_decode (er_inst req))
   }"

definition slli_ex_req_handler :: "exu \<Rightarrow> ex_req \<Rightarrow> exu option" where
  "slli_ex_req_handler exu req = do {
     let imm = i_imm_decode (er_inst req) AND 0b11111;
     s1 \<leftarrow> get_gpr exu (inst_rs1 (er_inst req));
     set_gpr exu (inst_rd (er_inst req)) (push_bit (unat imm) s1)
   }"

definition srli_ex_req_handler :: "exu \<Rightarrow> ex_req \<Rightarrow> exu option" where
  "srli_ex_req_handler exu req = do {
     let imm = i_imm_decode (er_inst req) AND 0b11111;
     s1 \<leftarrow> get_gpr exu (inst_rs1 (er_inst req));
     set_gpr exu (inst_rd (er_inst req)) (drop_bit (unat imm) s1)
   }"

definition srai_ex_req_handler :: "exu \<Rightarrow> ex_req \<Rightarrow> exu option" where
  "srai_ex_req_handler exu req = do {
     let imm = i_imm_decode (er_inst req) AND 0b11111;
     ns \<leftarrow> get_gpr exu (inst_rs1 (er_inst req));
     set_gpr exu (inst_rd (er_inst req)) (signed_drop_bit (unat imm) ns)
   }"

definition sri_ex_req_handler :: "exu \<Rightarrow> ex_req \<Rightarrow> exu option" where
  "sri_ex_req_handler exu req =
     (if inst_i_imm_11_0 (er_inst req) AND 0b10000000000 \<noteq> 0
      then srai_ex_req_handler exu req
      else srli_ex_req_handler exu req)"

definition alui_group_ex_req_handler :: "exu \<Rightarrow> ex_req \<Rightarrow> exu option" where
  "alui_group_ex_req_handler exu req = (let funct3 = inst_funct3 (er_inst req) in
     if funct3 = 0b000 then addi_ex_req_handler exu req
     else if funct3 = 0b010 then slti_ex_req_handler exu req
     else if funct3 = 0b011 then sltiu_ex_req_handler exu req
     else if funct3 = 0b100 then xori_ex_req_handler exu req
     else if funct3 = 0b110 then ori_ex_req_handler exu req
     else if funct3 = 0b111 then andi_ex_req_handler exu req
     else if funct3 = 0b001 then slli_ex_req_handler exu req
     else if funct3 = 0b101 then sri_ex_req_handler exu req
     else None)"

section \<open>Register operations\<close>

definition add_ex_req_handler :: "exu \<Rightarrow> ex_req \<Rightarrow> exu option" where
  "add_ex_req_handler exu req = do {
     s1 \<leftarrow> get_gpr exu (inst_rs1 (er_inst req));
     s2 \<leftarrow> get_gpr exu (inst_rs2 (er_inst req));
     set_gpr exu (inst_rd (er_inst req)) (s1 + s2)
   }"

definition sub_ex_req_handler :: "exu \<Rightarrow> ex_req \<Rightarrow> exu option" where
  "sub_ex_req_handler exu req = do {
     s1 \<leftarrow> get_gpr exu (inst_rs1 (er_inst req));
     s2 \<leftarrow> get_gpr exu (inst_rs2 (er_inst req));
     set_gpr exu (inst_rd (er_inst req)) (s1 - s2)
   }"

definition sll_ex_req_handler :: "exu \<Rightarrow> ex_req \<Rightarrow> exu option" where
  "sll_ex_req_handler exu req = do {
     s1 \<leftarrow> get_gpr exu (inst_rs1 (er_inst req));
     r2 \<leftarrow> get_gpr exu (inst_rs2 (er_inst req));
     let s2 = r2 AND 0b11111;
     set_gpr exu (inst_rd (er_inst req)) (push_bit (unat s2) s1)
   }"

definition slt_ex_req_handler :: "exu \<Rightarrow> ex_req \<Rightarrow> exu option" where
  "slt_ex_req_handler exu req = do {
     s1 \<leftarrow> get_gpr exu (inst_rs1 (er_inst req));
     s2 \<leftarrow> get_gpr exu (inst_rs2 (er_inst req));
     set_gpr exu (inst_rd (er_inst req)) (if sint s1 < sint s2 then 1 else 0)
   }"

definition sltu_ex_req_handler :: "exu \<Rightarrow> ex_req \<Rightarrow> exu option" where
  "sltu_ex_req_handler exu req = do {
     s1 \<leftarrow> get_gpr exu (inst_rs1 (er_inst req));
     s2 \<leftarrow> get_gpr exu (inst_rs2 (er_inst req));
     set_gpr exu (inst_rd (er_inst req)) (if s1 < s2 then 1 else 0)
   }"

definition xor_ex_req_handler :: "exu \<Rightarrow> ex_req \<Rightarrow> exu option" where
  "xor_ex_req_handler exu req = do {
     s1 \<leftarrow> get_gpr exu (inst_rs1 (er_inst req));
     s2 \<leftarrow> get_gpr exu (inst_rs2 (er_inst req));
     set_gpr exu (inst_rd (er_inst req)) (s1 XOR s2)
   }"

definition srl_ex_req_handler :: "exu \<Rightarrow> ex_req \<Rightarrow> exu option" where
  "srl_ex_req_handler exu req = do {
     s1 \<leftarrow> get_gpr exu (inst_rs1 (er_inst req));
     r2 \<leftarrow> get_gpr exu (inst_rs2 (er_inst req));
     let s2 = r2 AND 0b11111;
     set_gpr exu (inst_rd (er_inst req)) (drop_bit (unat s2) s1)
   }"

definition sra_ex_req_handler :: "exu \<Rightarrow> ex_req \<Rightarrow> exu option" where
  "sra_ex_req_handler exu req = do {
     r2 \<leftarrow> get_gpr exu (inst_rs2 (er_inst req));
     let s2 = r2 AND 0b11111;
     s1 \<leftarrow> get_gpr exu (inst_rs1 (er_inst req));
     set_gpr exu (inst_rd (er_inst req)) (signed_drop_bit (unat s2) s1)
   }"

definition or_ex_req_handler :: "exu \<Rightarrow> ex_req \<Rightarrow> exu option" where
  "or_ex_req_handler exu req = do {
     s1 \<leftarrow> get_gpr exu (inst_rs1 (er_inst req));
     s2 \<leftarrow> get_gpr exu (inst_rs2 (er_inst req));
     set_gpr exu (inst_rd (er_inst req)) (s1 OR s2)
   }"

definition and_ex_req_handler :: "exu \<Rightarrow> ex_req \<Rightarrow> exu option" where
  "and_ex_req_handler exu req = do {
     s1 \<leftarrow> get_gpr exu (inst_rs1 (er_inst req));
     s2 \<leftarrow> get_gpr exu (inst_rs2 (er_inst req));
     set_gpr exu (inst_rd (er_inst req)) (s1 AND s2)
   }"

section \<open>Multiplication and division\<close>

definition mul_ex_req_handler :: "exu \<Rightarrow> ex_req \<Rightarrow> exu option" where
  "mul_ex_req_handler exu req = do {
     s1 \<leftarrow> get_gpr exu (inst_rs1 (er_inst req));
     s2 \<leftarrow> get_gpr exu (inst_rs2 (er_inst req));
     let d = (scast s1 :: u64) * scast s2;
     set_gpr exu (inst_rd (er_inst req)) (ucast d)
   }"

definition mulh_ex_req_handler :: "exu \<Rightarrow> ex_req \<Rightarrow> exu option" where
  "mulh_ex_req_handler exu req = do {
     s1 \<leftarrow> get_gpr exu (inst_rs1 (er_inst req));
     s2 \<leftarrow> get_gpr exu (inst_rs2 (er_inst req));
     let d = (scast s1 :: u64) * scast s2;
     set_gpr exu (inst_rd (er_inst req)) (ucast (drop_bit 32 d))
   }"

definition mulhsu_ex_req_handler :: "exu \<Rightarrow> ex_req \<Rightarrow> exu option" where
  "mulhsu_ex_req_handler exu req = do {
     s1 \<leftarrow> get_gpr exu (inst_rs1 (er_inst req));
     s2 \<leftarrow> get_gpr exu (inst_rs2 (er_inst req));
     let d = (scast s1 :: u64) * ucast s2;
     set_gpr exu (inst_rd (er_inst req)) (ucast (drop_bit 32 d))
   }"

definition mulhu_ex_req_handler :: "exu \<Rightarrow> ex_req \<Rightarrow> exu option" where
  "mulhu_ex_req_handler exu req = do {
     s1 \<leftarrow> get_gpr exu (inst_rs1 (er_inst req));
     s2 \<leftarrow> get_gpr exu (inst_rs2 (er_inst req));
     let d = (ucast s1 :: u64) * ucast s2;
     set_gpr exu (inst_rd (er_inst req)) (ucast (drop_bit 32 d))
   }"

definition div_ex_req_handler :: "exu \<Rightarrow> ex_req \<Rightarrow> exu option" where
  "div_ex_req_handler exu req = do {
     s1 \<leftarrow> get_gpr exu (inst_rs1 (er_inst req));
     s2 \<leftarrow> get_gpr exu (inst_rs2 (er_inst req));
     let d = (if s2 = 0 then 0xffffffff
              else if s1 = 0x80000000 \<and> sint s2 = -1 then 0x80000000
              else word_of_int (sint s1 sdiv sint s2));
     set_gpr exu (inst_rd (er_inst req)) d
   }"

definition divu_ex_req_handler :: "exu \<Rightarrow> ex_req \<Rightarrow> exu option" where
  "divu_ex_req_handler exu req = do {
     s1 \<leftarrow> get_gpr exu (inst_rs1 (er_inst req));
     s2 \<leftarrow> get_gpr exu (inst_rs2 (er_inst req));
     let d = (if s2 = 0 then 0xffffffff else s1 div s2);
     set_gpr exu (inst_rd (er_inst req)) d
   }"

definition rem_ex_req_handler :: "exu \<Rightarrow> ex_req \<Rightarrow> exu option" where
  "rem_ex_req_handler exu req = do {
     s1 \<leftarrow> get_gpr exu (inst_rs1 (er_inst req));
     s2 \<leftarrow> get_gpr exu (inst_rs2 (er_inst req));
     let d = (if s2 = 0 then s1
              else if s1 = 0x80000000 \<and> sint s2 = -1 then 0
              else word_of_int (sint s1 smod sint s2));
     set_gpr exu (inst_rd (er_inst req)) d
   }"

definition remu_ex_req_handler :: "exu \<Rightarrow> ex_req \<Rightarrow> exu option" where
  "remu_ex_req_handler exu req = do {
     s1 \<leftarrow> get_gpr exu (inst_rs1 (er_inst req));
     s2 \<leftarrow> get_gpr exu (inst_rs2 (er_inst req));
     let d = (if s2 = 0 then s1 else s1 mod s2);
     set_gpr exu (inst_rd (er_inst req)) d
   }"

definition alu_group_ex_req_handler :: "exu \<Rightarrow> ex_req \<Rightarrow> exu option" where
  "alu_group_ex_req_handler exu req = (
     let funct37 = push_bit 7 (inst_funct3 (er_inst req)) OR inst_funct7 (er_inst req) in
     if funct37 = 0b0000000000 then add_ex_req_handler exu req
     else if funct37 = 0b0000100000 then sub_ex_req_handler exu req
     else if funct37 = 0b0010000000 then sll_ex_req_handler exu req
     else if funct37 = 0b0100000000 then slt_ex_req_handler exu req
     else if funct37 = 0b0110000000 then sltu_ex_req_handler exu req
     else if funct37 = 0b1000000000 then xor_ex_req_handler exu req
     else if funct37 = 0b1010000000 then srl_ex_req_handler exu req
     else if funct37 = 0b1010100000 then sra_ex_req_handler exu req
     else if funct37 = 0b1100000000 then or_ex_req_handler exu req
     else if funct37 = 0b1110000000 then and_ex_req_handler exu req
     else if funct37 = 0b0000000001 then mul_ex_req_handler exu req
     else if funct37 = 0b0010000001 then mulh_ex_req_handler exu req
     else if funct37 = 0b0100000001 then mulhsu_ex_req_handler exu req
     else if funct37 = 0b0110000001 then mulhu_ex_req_handler exu req
     else if funct37 = 0b1000000001 then div_ex_req_handler exu req
     else if funct37 = 0b1010000001 then divu_ex_req_handler exu req
     else if funct37 = 0b1100000001 then rem_ex_req_handler exu req
     else if funct37 = 0b1110000001 then remu_ex_req_handler exu req
     else None)"

definition alu_ex_req_proc :: "exu \<Rightarrow> ex_req \<Rightarrow> exu option" where
  "alu_ex_req_proc exu req =
     (if inst_opcode (er_inst req) = OPCODE_ALUI then alui_group_ex_req_handler exu req
      else if inst_opcode (er_inst req) = OPCODE_ALU then alu_group_ex_req_handler exu req
      else None)"

section \<open>Reference semantics\<close>

datatype alu_op = OpAdd | OpSub | OpSll | OpSlt | OpSltu | OpXor | OpSrl | OpSra | OpOr | OpAnd
  | OpMul | OpMulh | OpMulhsu | OpMulhu | OpDiv | OpDivu | OpRem | OpRemu

definition shamt :: "u32 \<Rightarrow> nat" where
  "shamt b = unat b mod 32"

fun alu_sem :: "alu_op \<Rightarrow> u32 \<Rightarrow> u32 \<Rightarrow> u32" where
  "alu_sem OpAdd a b = word_of_int (uint a + uint b)"
| "alu_sem OpSub a b = word_of_int (uint a - uint b)"
| "alu_sem OpSll a b = word_of_int (uint a * 2 ^ shamt b)"
| "alu_sem OpSlt a b = of_bool (sint a < sint b)"
| "alu_sem OpSltu a b = of_bool (uint a < uint b)"
| "alu_sem OpXor a b = a XOR b"
| "alu_sem OpSrl a b = word_of_int (uint a div 2 ^ shamt b)"
| "alu_sem OpSra a b = word_of_int (sint a div 2 ^ shamt b)"
| "alu_sem OpOr a b = a OR b"
| "alu_sem OpAnd a b = a AND b"
| "alu_sem OpMul a b = word_of_int (sint a * sint b)"
| "alu_sem OpMulh a b = word_of_int (sint a * sint b div 2 ^ 32)"
| "alu_sem OpMulhsu a b = word_of_int (sint a * uint b div 2 ^ 32)"
| "alu_sem OpMulhu a b = word_of_int (uint a * uint b div 2 ^ 32)"
| "alu_sem OpDiv a b = (if b = 0 then - 1 else word_of_int (sint a sdiv sint b))"
| "alu_sem OpDivu a b = (if b = 0 then - 1 else word_of_int (uint a div uint b))"
| "alu_sem OpRem a b = (if b = 0 then a else word_of_int (sint a smod sint b))"
| "alu_sem OpRemu a b = (if b = 0 then a else word_of_int (uint a mod uint b))"

text \<open>
  The encoding tables: which operation an \<^verbatim>\<open>OP\<close> instruction names (by \<open>funct7\<close> and \<open>funct3\<close>),
  and which an \<^verbatim>\<open>OP-IMM\<close> instruction names. Of an immediate shift only bit 30 is looked at.
\<close>

definition op_decode :: "u32 \<Rightarrow> alu_op option" where
  "op_decode i = (let f3 = inst_funct3 i; f7 = inst_funct7 i in
     if f7 = 0 then Some ([OpAdd, OpSll, OpSlt, OpSltu, OpXor, OpSrl, OpOr, OpAnd] ! unat f3)
     else if f7 = 1 then
       Some ([OpMul, OpMulh, OpMulhsu, OpMulhu, OpDiv, OpDivu, OpRem, OpRemu] ! unat f3)
     else if f7 = 0x20 \<and> f3 = 0 then Some OpSub
     else if f7 = 0x20 \<and> f3 = 5 then Some OpSra
     else None)"

definition op_imm_decode :: "u32 \<Rightarrow> alu_op" where
  "op_imm_decode i = (if inst_funct3 i = 5 \<and> bit i 30 then OpSra
     else [OpAdd, OpSll, OpSlt, OpSltu, OpXor, OpSrl, OpOr, OpAnd] ! unat (inst_funct3 i))"

section \<open>The handlers compute the reference semantics\<close>

lemma unat_and_31: "unat (b AND 31 :: u32) = shamt b"
proof -
  have "b AND 31 = take_bit 5 b" by (simp add: take_bit_eq_mask mask_numeral)
  then show ?thesis by (simp add: shamt_def unsigned_take_bit_eq take_bit_nat_def)
qed

lemma push_bit_sem: "push_bit k (a :: u32) = word_of_int (uint a * 2 ^ k)"
  by (simp add: push_bit_eq_mult)

lemma drop_bit_sem: "drop_bit k (a :: u32) = word_of_int (uint a div 2 ^ k)"
proof -
  have "drop_bit k a = word_of_int (uint (drop_bit k a))" by (simp only: word_of_int_uint)
  also have "uint (drop_bit k a) = uint a div 2 ^ k"
    using uint_bounded [of a]
    by (simp only: unsigned_drop_bit_eq drop_bit_int_def) (simp add: take_bit_int_eq_self)
  finally show ?thesis .
qed

lemma signed_drop_bit_sem: "signed_drop_bit k (a :: u32) = word_of_int (sint a div 2 ^ k)"
proof -
  have "signed_drop_bit k a = word_of_int (sint (signed_drop_bit k a))" by (simp only: of_int_sint scast_id)
  also have "sint (signed_drop_bit k a) = sint a div 2 ^ k"
    by (simp only: sint_signed_drop_bit_eq drop_bit_eq_div)
  finally show ?thesis .
qed

lemma u64_high:
  "(ucast (drop_bit 32 (word_of_int p :: u64)) :: u32) = word_of_int (p div 2 ^ 32)"
proof -
  have "p div 2 ^ 32 = drop_bit 32 p" by (simp only: drop_bit_eq_div)
  then show ?thesis
    by (simp only:) (rule bit_eqI, simp add: bit_ucast_iff bit_drop_bit_eq bit_word_of_int_iff)
qed

lemma ucast_u64_word_of_int: "(ucast (word_of_int p :: u64) :: u32) = word_of_int p"
  by (rule bit_eqI) (simp add: bit_ucast_iff bit_word_of_int_iff)

lemma u64_products:
  "(scast a :: u64) * scast b = word_of_int (sint a * sint (b :: u32))"
  "(scast a :: u64) * ucast b = word_of_int (sint (a :: u32) * uint b)"
  "(ucast a :: u64) * ucast b = word_of_int (uint (a :: u32) * uint b)"
  by (simp_all only: scast_eq ucast_eq of_int_mult)

lemma funct37_eq:
  "push_bit 7 (inst_funct3 i) OR inst_funct7 i = k
     \<longleftrightarrow> inst_funct3 i = drop_bit 7 k \<and> inst_funct7 i = take_bit 7 k"
  by (rule concat_eq_iff) (auto intro!: bit_eqI simp: bit_simps bit_bf inst_field_defs)

lemma imm_bit_10: "(inst_i_imm_11_0 i AND 0b10000000000 = 0) = (\<not> bit i 30)"
proof -
  have "(inst_i_imm_11_0 i AND 2 ^ 10 = 0) = (\<not> bit i 30)"
    by (simp only: and_single_bit) (simp add: inst_field_defs bit_bf)
  then show ?thesis by simp
qed

lemma div_sem:
  "(if b = 0 then 0xffffffff else if a = 0x80000000 \<and> sint b = -1 then 0x80000000
    else word_of_int (sint a sdiv sint b)) = alu_sem OpDiv a b"
  by (auto simp: signed_divide_int_def)

lemma rem_sem:
  "(if b = 0 then a else if a = 0x80000000 \<and> sint b = -1 then 0
    else word_of_int (sint a smod sint b)) = alu_sem OpRem a b"
  by (auto simp: signed_modulo_int_def)

lemma divu_sem: "(if b = 0 then 0xffffffff else a div b) = alu_sem OpDivu a b"
  by (simp add: word_div_def)

lemma remu_sem: "(if b = 0 then a else a mod b) = alu_sem OpRemu a b"
  by (simp add: word_mod_def)

lemmas alu_op_sems = unat_and_31 push_bit_sem drop_bit_sem signed_drop_bit_sem u64_products u64_high
  ucast_u64_word_of_int div_sem rem_sem divu_sem remu_sem

lemmas alui_handler_defs = addi_ex_req_handler_def slti_ex_req_handler_def
  sltiu_ex_req_handler_def xori_ex_req_handler_def ori_ex_req_handler_def andi_ex_req_handler_def
  slli_ex_req_handler_def srli_ex_req_handler_def srai_ex_req_handler_def sri_ex_req_handler_def

lemmas alur_handler_defs = add_ex_req_handler_def sub_ex_req_handler_def sll_ex_req_handler_def
  slt_ex_req_handler_def sltu_ex_req_handler_def xor_ex_req_handler_def srl_ex_req_handler_def
  sra_ex_req_handler_def or_ex_req_handler_def and_ex_req_handler_def

lemmas alum_handler_defs = mul_ex_req_handler_def mulh_ex_req_handler_def
  mulhsu_ex_req_handler_def mulhu_ex_req_handler_def div_ex_req_handler_def
  divu_ex_req_handler_def rem_ex_req_handler_def remu_ex_req_handler_def

text \<open>What an instruction of the group does: its result goes to \<open>rd\<close>.\<close>

definition alu_result :: "exu \<Rightarrow> u32 \<Rightarrow> alu_op \<Rightarrow> u32 \<Rightarrow> exu" where
  "alu_result exu i op b = upd_gpr exu (inst_rd i) (alu_sem op (gpr_of exu (inst_rs1 i)) b)"

lemma word_if_of_bool: "(if P then 1 else 0 :: u32) = of_bool P"
  by simp

lemma alui_handlers:
  assumes ok: "gpr_ok exu" and i: "i = er_inst req"
  shows "addi_ex_req_handler exu req = Some (alu_result exu i OpAdd (i_imm_decode i))"
    and "slti_ex_req_handler exu req = Some (alu_result exu i OpSlt (i_imm_decode i))"
    and "sltiu_ex_req_handler exu req = Some (alu_result exu i OpSltu (i_imm_decode i))"
    and "xori_ex_req_handler exu req = Some (alu_result exu i OpXor (i_imm_decode i))"
    and "ori_ex_req_handler exu req = Some (alu_result exu i OpOr (i_imm_decode i))"
    and "andi_ex_req_handler exu req = Some (alu_result exu i OpAnd (i_imm_decode i))"
    and "slli_ex_req_handler exu req = Some (alu_result exu i OpSll (i_imm_decode i))"
    and "sri_ex_req_handler exu req
      = Some (alu_result exu i (if bit i 30 then OpSra else OpSrl) (i_imm_decode i))"
  using ok unfolding i
  by (simp_all add: alui_handler_defs alu_result_def unat_and_31 push_bit_sem drop_bit_sem
      signed_drop_bit_sem word_less_def imm_bit_10)

lemma alur_handlers:
  assumes ok: "gpr_ok exu" and i: "i = er_inst req"
  shows "add_ex_req_handler exu req = Some (alu_result exu i OpAdd (gpr_of exu (inst_rs2 i)))"
    and "sub_ex_req_handler exu req = Some (alu_result exu i OpSub (gpr_of exu (inst_rs2 i)))"
    and "sll_ex_req_handler exu req = Some (alu_result exu i OpSll (gpr_of exu (inst_rs2 i)))"
    and "slt_ex_req_handler exu req = Some (alu_result exu i OpSlt (gpr_of exu (inst_rs2 i)))"
    and "sltu_ex_req_handler exu req = Some (alu_result exu i OpSltu (gpr_of exu (inst_rs2 i)))"
    and "xor_ex_req_handler exu req = Some (alu_result exu i OpXor (gpr_of exu (inst_rs2 i)))"
    and "srl_ex_req_handler exu req = Some (alu_result exu i OpSrl (gpr_of exu (inst_rs2 i)))"
    and "sra_ex_req_handler exu req = Some (alu_result exu i OpSra (gpr_of exu (inst_rs2 i)))"
    and "or_ex_req_handler exu req = Some (alu_result exu i OpOr (gpr_of exu (inst_rs2 i)))"
    and "and_ex_req_handler exu req = Some (alu_result exu i OpAnd (gpr_of exu (inst_rs2 i)))"
  using ok unfolding i
  by (simp_all add: alur_handler_defs alu_result_def unat_and_31 push_bit_sem drop_bit_sem
      signed_drop_bit_sem word_less_def)

lemma alum_handlers:
  assumes ok: "gpr_ok exu" and i: "i = er_inst req"
  shows "mul_ex_req_handler exu req = Some (alu_result exu i OpMul (gpr_of exu (inst_rs2 i)))"
    and "mulh_ex_req_handler exu req = Some (alu_result exu i OpMulh (gpr_of exu (inst_rs2 i)))"
    and "mulhsu_ex_req_handler exu req = Some (alu_result exu i OpMulhsu (gpr_of exu (inst_rs2 i)))"
    and "mulhu_ex_req_handler exu req = Some (alu_result exu i OpMulhu (gpr_of exu (inst_rs2 i)))"
    and "div_ex_req_handler exu req = Some (alu_result exu i OpDiv (gpr_of exu (inst_rs2 i)))"
    and "divu_ex_req_handler exu req = Some (alu_result exu i OpDivu (gpr_of exu (inst_rs2 i)))"
    and "rem_ex_req_handler exu req = Some (alu_result exu i OpRem (gpr_of exu (inst_rs2 i)))"
    and "remu_ex_req_handler exu req = Some (alu_result exu i OpRemu (gpr_of exu (inst_rs2 i)))"
  using ok unfolding i
  by (simp_all only: alum_handler_defs alu_result_def get_gpr_ok reg_index_less set_gpr_ok
      Option.bind.simps Let_def u64_products u64_high ucast_u64_word_of_int div_sem rem_sem
      divu_sem remu_sem alu_sem.simps(11-14))

lemma alui_group_sem:
  assumes "gpr_ok exu" "i = er_inst req"
  shows "alui_group_ex_req_handler exu req = Some (alu_result exu i (op_imm_decode i) (i_imm_decode i))"
  using funct3_values [of i]
  by (auto simp: alui_group_ex_req_handler_def alui_handlers [OF assms] op_imm_decode_def
      assms(2) [symmetric])

lemma alu_group_sem:
  assumes "gpr_ok exu" "i = er_inst req"
  shows "alu_group_ex_req_handler exu req
    = map_option (\<lambda>op. alu_result exu i op (gpr_of exu (inst_rs2 i))) (op_decode i)"
  unfolding alu_group_ex_req_handler_def op_decode_def Let_def assms(2) [symmetric] funct37_eq
    alur_handlers [OF assms] alum_handlers [OF assms]
  using funct3_values [of i] by auto

lemma sint_word_of_int_small: "\<bar>x\<bar> < 2 ^ 31 \<Longrightarrow> sint (word_of_int x :: u32) = x"
  by (simp add: sint_sbintrunc' signed_take_bit_int_eq_self)

lemma abs_sint_le: "\<bar>sint (b :: u32)\<bar> \<le> 2 ^ 31"
  using sint_ge [of b] sint_lt [of b] by simp

lemma sint_nonzero: "b \<noteq> (0 :: u32) \<Longrightarrow> sint b \<noteq> 0"
  by (metis of_int_0 of_int_sint scast_id)

lemma smod_abs_less: "b \<noteq> (0 :: u32) \<Longrightarrow> \<bar>sint a smod sint b\<bar> < \<bar>sint b\<bar>"
  using smod_int_range [OF sint_nonzero, of b "sint a"] by auto

lemma rem_sem_sint:
  assumes "b \<noteq> (0 :: u32)"
  shows "sint (alu_sem OpRem a b) = sint a smod sint b"
  using smod_abs_less [OF assms, of a] abs_sint_le [of b] assms
  by (simp add: sint_word_of_int_small)

lemma div_rem_sem:
  "a = alu_sem OpDiv a b * b + alu_sem OpRem a b"
proof (cases "b = 0")
  case False
  have "alu_sem OpDiv a b * b + alu_sem OpRem a b
      = word_of_int (sint a sdiv sint b * sint b + sint a smod sint b)"
    using False by (simp add: of_int_sint scast_id)
  then show ?thesis by (simp add: sdiv_mult_smod_eq)
qed simp

lemma rem_sem_bounds:
  assumes "b \<noteq> 0"
  shows "\<bar>sint (alu_sem OpRem a b)\<bar> < \<bar>sint b\<bar>"
    and "alu_sem OpRem a b = 0 \<or> sgn (sint (alu_sem OpRem a b)) = sgn (sint a)"
proof -
  show "\<bar>sint (alu_sem OpRem a b)\<bar> < \<bar>sint b\<bar>"
    by (simp only: rem_sem_sint [OF assms] smod_abs_less [OF assms])
  have "sgn (sint a smod sint b) = sgn (sint a)" if "sint a smod sint b \<noteq> 0"
  proof -
    have "0 \<le> \<bar>sint a\<bar> mod \<bar>sint b\<bar>" using sint_nonzero [OF assms] by simp
    with that have "sgn (\<bar>sint a\<bar> mod \<bar>sint b\<bar>) = 1"
      by (intro sgn_pos) (auto simp: signed_modulo_int_def order_less_le)
    then show ?thesis by (simp add: signed_modulo_int_def sgn_mult)
  qed
  then show "alu_sem OpRem a b = 0 \<or> sgn (sint (alu_sem OpRem a b)) = sgn (sint a)"
    by (metis of_int_0 of_int_sint rem_sem_sint [OF assms] scast_id)
qed

section \<open>Properties\<close>

text \<open>
  C1. Integer instructions: for every instruction of the \<^verbatim>\<open>OP\<close> and \<^verbatim>\<open>OP-IMM\<close> groups the execution
  unit writes to \<open>rd\<close> exactly the value the instruction set defines in mathematical integers
  (wrap-around, truncating division with its zero and overflow cases, the high halves of the
  products included), changes nothing else, and aborts on exactly the \<^verbatim>\<open>OP\<close> encodings that
  name no operation.
\<close>

theorem alu_ex_req_proc_correct:
  assumes "gpr_ok exu" "inst_opcode (er_inst req) \<in> {OPCODE_ALUI, OPCODE_ALU}"
  shows "alu_ex_req_proc exu req = (let i = er_inst req in
     if inst_opcode i = OPCODE_ALUI
     then Some (alu_result exu i (op_imm_decode i) (i_imm_decode i))
     else map_option (\<lambda>op. alu_result exu i op (gpr_of exu (inst_rs2 i))) (op_decode i))"
  using assms(2) alui_group_sem [OF assms(1) refl] alu_group_sem [OF assms(1) refl]
  by (auto simp: alu_ex_req_proc_def Let_def)

theorem alu_ex_req_proc_correct_witness:
  "alu_ex_req_proc (exu_reset (\<lambda>_. 0x80000000) hart_exu)
       \<lparr>er_inst = 0x023140B3, er_pc = 0, er_pred_taken = False, er_pred_pc = 0, er_is_boot_code = False\<rparr>
     = Some (upd_gpr (exu_reset (\<lambda>_. 0x80000000) hart_exu) 1 1)"
proof -
  let ?exu = "exu_reset (\<lambda>_. 0x80000000) hart_exu"
  let ?req = "\<lparr>er_inst = 0x023140B3, er_pc = 0, er_pred_taken = False, er_pred_pc = 0,
    er_is_boot_code = False\<rparr> :: ex_req"
  have fields: "inst_opcode 0x023140B3 = OPCODE_ALU" "inst_rd 0x023140B3 = 1" "inst_rs1 0x023140B3 = 2"
    "inst_rs2 0x023140B3 = 3" "op_decode 0x023140B3 = Some OpDiv"
    by code_simp+
  have "alu_sem OpDiv 0x80000000 0x80000000 = 1" by code_simp
  then show ?thesis
    using alu_ex_req_proc_correct [of ?exu ?req]
    by (simp add: fields alu_result_def exu_reset_gpr_of del: alu_sem.simps)
qed

text \<open>
  Division and remainder of the execution unit: for every non-zero divisor the quotient
  and the remainder the code computes recompose the dividend, the remainder is smaller in
  magnitude than the divisor and has the sign of the dividend; the overflowing quotient
  \<open>-2^31 / -1\<close> is included. A zero divisor gives the quotient \<open>-1\<close> and leaves the dividend as
  the remainder.
\<close>

theorem div_rem_identity:
  assumes "gpr_ok exu" "inst_rd (er_inst req) \<noteq> 0"
    and "div_ex_req_handler exu req = Some exu_q" "rem_ex_req_handler exu req = Some exu_r"
  shows "let i = er_inst req; a = gpr_of exu (inst_rs1 i); b = gpr_of exu (inst_rs2 i);
      q = gpr_of exu_q (inst_rd i); r = gpr_of exu_r (inst_rd i)
    in a = q * b + r \<and> (b = 0 \<longrightarrow> q = - 1 \<and> r = a)
      \<and> (b \<noteq> 0 \<longrightarrow> \<bar>sint r\<bar> < \<bar>sint b\<bar> \<and> (r = 0 \<or> sgn (sint r) = sgn (sint a)))"
proof -
  let ?i = "er_inst req"
  let ?a = "gpr_of exu (inst_rs1 ?i)" and ?b = "gpr_of exu (inst_rs2 ?i)"
  have "gpr_of exu_q (inst_rd ?i) = alu_sem OpDiv ?a ?b" "gpr_of exu_r (inst_rd ?i) = alu_sem OpRem ?a ?b"
    using assms(2-) alum_handlers [OF assms(1) refl, of req] gpr_of_upd [OF assms(1), of "inst_rd ?i"]
    by (auto simp: alu_result_def simp del: alu_sem.simps)
  then show ?thesis
    using div_rem_sem [of ?a ?b] rem_sem_bounds [of ?b ?a] by (simp only: Let_def) auto
qed

theorem div_rem_identity_witness:
  "let exu = exu_reset (\<lambda>n. if n = 2 then - 7 else 2) hart_exu;
       req = \<lparr>er_inst = 0x023140B3, er_pc = 0, er_pred_taken = False, er_pred_pc = 0,
         er_is_boot_code = False\<rparr>;
       q = gpr_of (the (div_ex_req_handler exu req)) 1; r = gpr_of (the (rem_ex_req_handler exu req)) 1
   in - 7 = q * 2 + r \<and> \<bar>sint r\<bar> < 2"
proof -
  let ?exu = "exu_reset (\<lambda>n. if n = 2 then - 7 else 2) hart_exu"
  let ?req = "\<lparr>er_inst = 0x023140B3, er_pc = 0, er_pred_taken = False, er_pred_pc = 0,
    er_is_boot_code = False\<rparr> :: ex_req"
  have fields: "inst_rd 0x023140B3 = 1" "inst_rs1 0x023140B3 = 2" "inst_rs2 0x023140B3 = 3"
    by code_simp+
  have "gpr_ok ?exu" by simp
  then have ex: "div_ex_req_handler ?exu ?req = Some (the (div_ex_req_handler ?exu ?req))"
    "rem_ex_req_handler ?exu ?req = Some (the (rem_ex_req_handler ?exu ?req))"
    using alum_handlers [OF _ refl, of ?exu ?req] by simp_all
  show ?thesis
    using div_rem_identity [OF \<open>gpr_ok ?exu\<close> _ ex]
    by (simp add: fields exu_reset_gpr_of Let_def)
qed

end
