(* ===== verification/ExuBranch.thy ===== *)
theory ExuBranch
  imports ExuBase
begin

text \<open>
  Jumps and conditional branches (\<^verbatim>\<open>exu/branch.c\<close>): the handlers, the dispatch table and
  \<^verbatim>\<open>branch_ex_req_proc\<close>, which reports the outcome and whether the fetch unit predicted it.
  The response packet is a local whose members the handlers fill in; before that they are
  unspecified, here zero.
\<close>

definition jal_ex_req_handler :: "exu \<Rightarrow> ex_req \<Rightarrow> ex_rsp \<Rightarrow> (exu \<times> ex_rsp) option" where
  "jal_ex_req_handler exu req rsp = do {
     let imm = j_imm_decode (er_inst req);
     exu \<leftarrow> set_gpr exu (inst_rd (er_inst req)) (er_pc req + 4);
     let rsp = rsp\<lparr>xr_taken := True, xr_target_pc := er_pc req + imm\<rparr>;
     Some (exu\<lparr>irq_epc := xr_target_pc rsp\<rparr>, rsp)
   }"

definition jalr_ex_req_handler :: "exu \<Rightarrow> ex_req \<Rightarrow> ex_rsp \<Rightarrow> (exu \<times> ex_rsp) option" where
  "jalr_ex_req_handler exu req rsp = do {
     let imm = i_imm_decode (er_inst req);
     s1 \<leftarrow> get_gpr exu (inst_rs1 (er_inst req));
     let target_pc = (s1 + imm) AND NOT 1;
     exu \<leftarrow> set_gpr exu (inst_rd (er_inst req)) (er_pc req + 4);
     let rsp = rsp\<lparr>xr_taken := True, xr_target_pc := target_pc\<rparr>;
     Some (exu\<lparr>irq_epc := xr_target_pc rsp\<rparr>, rsp)
   }"

definition beq_ex_req_handler :: "exu \<Rightarrow> ex_req \<Rightarrow> ex_rsp \<Rightarrow> (exu \<times> ex_rsp) option" where
  "beq_ex_req_handler exu req rsp = do {
     let imm = b_imm_decode (er_inst req);
     s1 \<leftarrow> get_gpr exu (inst_rs1 (er_inst req));
     s2 \<leftarrow> get_gpr exu (inst_rs2 (er_inst req));
     let rsp = (if s1 = s2 then rsp\<lparr>xr_taken := True, xr_target_pc := er_pc req + imm\<rparr>
                else rsp\<lparr>xr_taken := False, xr_target_pc := er_pc req + 4\<rparr>);
     Some (exu\<lparr>irq_epc := xr_target_pc rsp\<rparr>, rsp)
   }"

definition bne_ex_req_handler :: "exu \<Rightarrow> ex_req \<Rightarrow> ex_rsp \<Rightarrow> (exu \<times> ex_rsp) option" where
  "bne_ex_req_handler exu req rsp = do {
     let imm = b_imm_decode (er_inst req);
     s1 \<leftarrow> get_gpr exu (inst_rs1 (er_inst req));
     s2 \<leftarrow> get_gpr exu (inst_rs2 (er_inst req));
     let rsp = (if s1 \<noteq> s2 then rsp\<lparr>xr_taken := True, xr_target_pc := er_pc req + imm\<rparr>
                else rsp\<lparr>xr_taken := False, xr_target_pc := er_pc req + 4\<rparr>);
     Some (exu\<lparr>irq_epc := xr_target_pc rsp\<rparr>, rsp)
   }"

definition blt_ex_req_handler :: "exu \<Rightarrow> ex_req \<Rightarrow> ex_rsp \<Rightarrow> (exu \<times> ex_rsp) option" where
  "blt_ex_req_handler exu req rsp = do {
     let imm = b_imm_decode (er_inst req);
     n1 \<leftarrow> get_gpr exu (inst_rs1 (er_inst req));
     n2 \<leftarrow> get_gpr exu (inst_rs2 (er_inst req));
     let rsp = (if sint n1 < sint n2 then rsp\<lparr>xr_taken := True, xr_target_pc := er_pc req + imm\<rparr>
                else rsp\<lparr>xr_taken := False, xr_target_pc := er_pc req + 4\<rparr>);
     Some (exu\<lparr>irq_epc := xr_target_pc rsp\<rparr>, rsp)
   }"

definition bge_ex_req_handler :: "exu \<Rightarrow> ex_req \<Rightarrow> ex_rsp \<Rightarrow> (exu \<times> ex_rsp) option" where
  "bge_ex_req_handler exu req rsp = do {
     let imm = b_imm_decode (er_inst req);
     n1 \<leftarrow> get_gpr exu (inst_rs1 (er_inst req));
     n2 \<leftarrow> get_gpr exu (inst_rs2 (er_inst req));
     let rsp = (if sint n1 \<ge> sint n2 then rsp\<lparr>xr_taken := True, xr_target_pc := er_pc req + imm\<rparr>
                else rsp\<lparr>xr_taken := False, xr_target_pc := er_pc req + 4\<rparr>);
     Some (exu\<lparr>irq_epc := xr_target_pc rsp\<rparr>, rsp)
   }"

definition bltu_ex_req_handler :: "exu \<Rightarrow> ex_req \<Rightarrow> ex_rsp \<Rightarrow> (exu \<times> ex_rsp) option" where
  "bltu_ex_req_handler exu req rsp = do {
     let imm = b_imm_decode (er_inst req);
     s1 \<leftarrow> get_gpr exu (inst_rs1 (er_inst req));
     s2 \<leftarrow> get_gpr exu (inst_rs2 (er_inst req));
     let rsp = (if s1 < s2 then rsp\<lparr>xr_taken := True, xr_target_pc := er_pc req + imm\<rparr>
                else rsp\<lparr>xr_taken := False, xr_target_pc := er_pc req + 4\<rparr>);
     Some (exu\<lparr>irq_epc := xr_target_pc rsp\<rparr>, rsp)
   }"

definition bgeu_ex_req_handler :: "exu \<Rightarrow> ex_req \<Rightarrow> ex_rsp \<Rightarrow> (exu \<times> ex_rsp) option" where
  "bgeu_ex_req_handler exu req rsp = do {
     let imm = b_imm_decode (er_inst req);
     s1 \<leftarrow> get_gpr exu (inst_rs1 (er_inst req));
     s2 \<leftarrow> get_gpr exu (inst_rs2 (er_inst req));
     let rsp = (if s1 \<ge> s2 then rsp\<lparr>xr_taken := True, xr_target_pc := er_pc req + imm\<rparr>
                else rsp\<lparr>xr_taken := False, xr_target_pc := er_pc req + 4\<rparr>);
     Some (exu\<lparr>irq_epc := xr_target_pc rsp\<rparr>, rsp)
   }"

definition branch_group_ex_req_handler :: "exu \<Rightarrow> ex_req \<Rightarrow> ex_rsp \<Rightarrow> (exu \<times> ex_rsp) option" where
  "branch_group_ex_req_handler exu req rsp = (let funct3 = inst_funct3 (er_inst req) in
     if funct3 = 0b000 then beq_ex_req_handler exu req rsp
     else if funct3 = 0b001 then bne_ex_req_handler exu req rsp
     else if funct3 = 0b100 then blt_ex_req_handler exu req rsp
     else if funct3 = 0b101 then bge_ex_req_handler exu req rsp
     else if funct3 = 0b110 then bltu_ex_req_handler exu req rsp
     else if funct3 = 0b111 then bgeu_ex_req_handler exu req rsp
     else None)"

definition branch_ex_req_proc :: "exu \<Rightarrow> ex_req \<Rightarrow> exu option" where
  "branch_ex_req_proc exu req =
     (if itf_fifo_full (ex_rsp_mst exu) then Some exu
      else do {
        let ex_rsp = \<lparr>xr_pc = er_pc req, xr_taken = False, xr_pred_true = False, xr_target_pc = 0\<rparr>;
        let opcode = inst_opcode (er_inst req);
        (exu, ex_rsp) \<leftarrow>
          (if opcode = OPCODE_JAL then jal_ex_req_handler exu req ex_rsp
           else if opcode = OPCODE_JALR then jalr_ex_req_handler exu req ex_rsp
           else if opcode = OPCODE_BRANCH then branch_group_ex_req_handler exu req ex_rsp
           else None);
        let pred_true = (if xr_taken ex_rsp
          then er_pred_taken req \<and> xr_target_pc ex_rsp = er_pred_pc req
          else \<not> er_pred_taken req);
        let ex_rsp = ex_rsp\<lparr>xr_pred_true := pred_true\<rparr>;
        t \<leftarrow> itf_write (ex_rsp_mst exu) ex_rsp;
        Some (exu\<lparr>ex_rsp_mst := t\<rparr>)
      })"

lemmas branch_handler_defs = jal_ex_req_handler_def jalr_ex_req_handler_def beq_ex_req_handler_def
  bne_ex_req_handler_def blt_ex_req_handler_def bge_ex_req_handler_def bltu_ex_req_handler_def
  bgeu_ex_req_handler_def

section \<open>Reference semantics\<close>

text \<open>
  What the instruction set defines: whether a control transfer is taken, where it goes, and
  the register it links. \<open>None\<close> is an undefined branch condition.
\<close>

definition branch_cond :: "u32 \<Rightarrow> u32 \<Rightarrow> u32 \<Rightarrow> bool option" where
  "branch_cond funct3 a b =
     (if funct3 = 0 then Some (a = b) else if funct3 = 1 then Some (a \<noteq> b)
      else if funct3 = 4 then Some (sint a < sint b) else if funct3 = 5 then Some (sint b \<le> sint a)
      else if funct3 = 6 then Some (uint a < uint b) else if funct3 = 7 then Some (uint b \<le> uint a)
      else None)"

definition ctrl_outcome :: "exu \<Rightarrow> u32 \<Rightarrow> u32 \<Rightarrow> (bool \<times> u32) option" where
  "ctrl_outcome exu pc i = (let a = gpr_of exu (inst_rs1 i); b = gpr_of exu (inst_rs2 i) in
     if inst_opcode i = OPCODE_JAL then Some (True, pc + j_imm_decode i)
     else if inst_opcode i = OPCODE_JALR then Some (True, (a + i_imm_decode i) AND NOT 1)
     else if inst_opcode i = OPCODE_BRANCH then
       map_option (\<lambda>t. (t, if t then pc + b_imm_decode i else pc + 4)) (branch_cond (inst_funct3 i) a b)
     else None)"

definition ctrl_link :: "exu \<Rightarrow> u32 \<Rightarrow> u32 \<Rightarrow> exu" where
  "ctrl_link exu pc i =
     (if inst_opcode i = OPCODE_BRANCH then exu else upd_gpr exu (inst_rd i) (pc + 4))"

lemma branch_group_sem:
  assumes "gpr_ok exu" "i = er_inst req"
  shows "branch_group_ex_req_handler exu req rsp =
    map_option (\<lambda>t. let pc = (if t then er_pc req + b_imm_decode i else er_pc req + 4) in
        (exu\<lparr>irq_epc := pc\<rparr>, rsp\<lparr>xr_taken := t, xr_target_pc := pc\<rparr>))
      (branch_cond (inst_funct3 i) (gpr_of exu (inst_rs1 i)) (gpr_of exu (inst_rs2 i)))"
  using assms
  by (auto simp: branch_group_ex_req_handler_def branch_handler_defs branch_cond_def Let_def
      word_less_def word_le_def)

definition branch_rsp :: "ex_req \<Rightarrow> bool \<Rightarrow> u32 \<Rightarrow> ex_rsp" where
  "branch_rsp req taken target = \<lparr>xr_pc = er_pc req, xr_taken = taken,
     xr_pred_true = (if taken then er_pred_taken req \<and> target = er_pred_pc req
                     else \<not> er_pred_taken req),
     xr_target_pc = target\<rparr>"

lemma branch_ex_req_proc_sem:
  assumes "gpr_ok exu" "\<not> itf_fifo_full (ex_rsp_mst exu)"
  shows "branch_ex_req_proc exu req =
    (case ctrl_outcome exu (er_pc req) (er_inst req) of
       None \<Rightarrow> None
     | Some (taken, target) \<Rightarrow>
         map_option (\<lambda>t. (ctrl_link exu (er_pc req) (er_inst req))\<lparr>irq_epc := target, ex_rsp_mst := t\<rparr>)
           (itf_write (ex_rsp_mst exu) (branch_rsp req taken target)))"
  using assms
  by (auto simp: branch_ex_req_proc_def ctrl_outcome_def ctrl_link_def branch_group_sem
      branch_handler_defs branch_rsp_def Let_def map_option_case
      split: option.splits bind_splits)

section \<open>Properties\<close>

text \<open>
  C24. Control transfers: when the response interface has room, a jump or branch reports
  exactly one response, with the direction and the target the instruction set defines, links
  the return address, and leaves the target as the address an interrupt would resume at; a
  branch whose condition code is undefined aborts.
\<close>

theorem branch_ex_req_proc_correct:
  assumes "gpr_ok exu" "itf_inv (ex_rsp_mst exu)" "\<not> itf_fifo_full (ex_rsp_mst exu)"
  shows "case ctrl_outcome exu (er_pc req) (er_inst req) of
      None \<Rightarrow> branch_ex_req_proc exu req = None
    | Some (taken, target) \<Rightarrow>
        \<exists>t. branch_ex_req_proc exu req
            = Some ((ctrl_link exu (er_pc req) (er_inst req))\<lparr>irq_epc := target, ex_rsp_mst := t\<rparr>)
          \<and> itf_inv t \<and> itf_list t = itf_list (ex_rsp_mst exu) @ [branch_rsp req taken target]"
proof (cases "ctrl_outcome exu (er_pc req) (er_inst req)")
  case None
  then show ?thesis using branch_ex_req_proc_sem [OF assms(1,3)] by simp
next
  case (Some out)
  obtain taken target where out: "out = (taken, target)" by (cases out)
  obtain t where "itf_write (ex_rsp_mst exu) (branch_rsp req taken target) = Some t" "itf_inv t"
    "itf_list t = itf_list (ex_rsp_mst exu) @ [branch_rsp req taken target]"
    using itf.push_not_full [OF assms(2,3)] by metis
  then show ?thesis using branch_ex_req_proc_sem [OF assms(1,3), of req] by (auto simp: Some out)
qed

abbreviation jal_req :: ex_req where
  "jal_req \<equiv> \<lparr>er_inst = 0x008000EF, er_pc = 0x100, er_pred_taken = True, er_pred_pc = 0x108,
    er_is_boot_code = False\<rparr>"

lemma jal_req_outcome:
  "ctrl_outcome exu 0x100 0x008000EF = Some (True, 0x108)" "inst_rd 0x008000EF = 1"
  "inst_opcode 0x008000EF \<noteq> OPCODE_BRANCH"
proof -
  have "inst_opcode 0x008000EF = OPCODE_JAL" "j_imm_decode 0x008000EF = 8" by code_simp+
  then show "ctrl_outcome exu 0x100 0x008000EF = Some (True, 0x108)"
    by (simp add: ctrl_outcome_def)
  show "inst_rd 0x008000EF = 1" "inst_opcode 0x008000EF \<noteq> OPCODE_BRANCH" by code_simp+
qed

theorem branch_ex_req_proc_correct_witness:
  "\<exists>t. branch_ex_req_proc (exu_reset (\<lambda>_. 0) hart_exu) jal_req
      = Some ((upd_gpr (exu_reset (\<lambda>_. 0) hart_exu) 1 0x104)\<lparr>irq_epc := 0x108, ex_rsp_mst := t\<rparr>)
    \<and> itf_list t = [\<lparr>xr_pc = 0x100, xr_taken = True, xr_pred_true = True, xr_target_pc = 0x108\<rparr>]"
  using branch_ex_req_proc_correct [of "exu_reset (\<lambda>_. 0) hart_exu" jal_req]
  by (auto simp: jal_req_outcome ctrl_link_def branch_rsp_def)

text \<open>
  A confirmed prediction is a correct one: when the response to a control transfer
  reports \<^verbatim>\<open>pred_true\<close>, the address the fetch unit went on with is the address the program
  continues at, so no wrongly fetched instruction is executed. The report is exact unless the
  transfer goes to the next instruction anyway.
\<close>

theorem branch_pred_true_sound:
  assumes "gpr_ok exu" "itf_inv (ex_rsp_mst exu)" "\<not> itf_fifo_full (ex_rsp_mst exu)"
    and "branch_ex_req_proc exu req = Some exu'"
  shows "let rsp = last (itf_list (ex_rsp_mst exu'));
      fetched = (if er_pred_taken req then er_pred_pc req else er_pc req + 4)
    in (xr_pred_true rsp \<longrightarrow> fetched = irq_epc exu')
      \<and> (fetched = irq_epc exu' \<and> irq_epc exu' \<noteq> er_pc req + 4 \<and> xr_taken rsp \<longrightarrow> xr_pred_true rsp)"
proof -
  obtain out where out: "ctrl_outcome exu (er_pc req) (er_inst req) = Some out"
    using branch_ex_req_proc_sem [OF assms(1,3), of req] assms(4) by (auto split: option.splits)
  obtain taken target where tt: "out = (taken, target)" by (cases out)
  have fall: "target = er_pc req + 4" if "\<not> taken"
    using out that unfolding tt by (auto simp: ctrl_outcome_def Let_def split: if_splits)
  obtain t where t: "itf_write (ex_rsp_mst exu) (branch_rsp req taken target) = Some t"
    and exu': "exu' = (ctrl_link exu (er_pc req) (er_inst req))\<lparr>irq_epc := target, ex_rsp_mst := t\<rparr>"
    using branch_ex_req_proc_sem [OF assms(1,3), of req] assms(4) out
    by (cases "itf_write (ex_rsp_mst exu) (branch_rsp req taken target)") (auto simp: tt)
  have "last (itf_list t) = branch_rsp req taken target"
    using itf.push_SomeD [OF t assms(2)] by simp
  then show ?thesis using fall by (auto simp: exu' branch_rsp_def Let_def)
qed

theorem branch_pred_true_sound_witness:
  "\<exists>exu'. branch_ex_req_proc (exu_reset (\<lambda>_. 0) hart_exu) jal_req = Some exu'
     \<and> xr_pred_true (last (itf_list (ex_rsp_mst exu'))) \<and> irq_epc exu' = 0x108"
proof -
  let ?exu = "exu_reset (\<lambda>_. 0) hart_exu"
  let ?rsp = "branch_rsp jal_req True 0x108"
  have ok: "gpr_ok ?exu" "itf_inv (ex_rsp_mst ?exu)" "\<not> itf_fifo_full (ex_rsp_mst ?exu)" by simp_all
  obtain t where t: "itf_write (ex_rsp_mst ?exu) ?rsp = Some t" "itf_list t = [?rsp]"
    using itf.push_not_full [OF ok(2,3), of ?rsp] by auto
  then have exu': "branch_ex_req_proc ?exu jal_req
      = Some ((ctrl_link ?exu 0x100 0x008000EF)\<lparr>irq_epc := 0x108, ex_rsp_mst := t\<rparr>)"
    using branch_ex_req_proc_sem [OF ok(1,3), of jal_req] by (simp add: jal_req_outcome)
  from branch_pred_true_sound [OF ok exu'] t exu' show ?thesis
    by (simp add: Let_def branch_rsp_def)
qed

end
