(* ===== verification/ExuMem.thy ===== *)
theory ExuMem
  imports ExuBase
begin

text \<open>
  The instructions of the execution unit that talk to memory: \<^verbatim>\<open>exu/misc.c\<close> (upper immediates,
  fences and cache block operations), \<^verbatim>\<open>exu/ldst.c\<close> (loads and stores) and \<^verbatim>\<open>exu/amo.c\<close>
  (load-reserved, store-conditional and the atomic read-modify-write operations, which run as
  a read followed by a write).
\<close>

section \<open>misc.c\<close>

definition lui_ex_req_handler :: "exu \<Rightarrow> ex_req \<Rightarrow> exu option" where
  "lui_ex_req_handler exu req = set_gpr exu (inst_rd (er_inst req)) (u_imm_decode (er_inst req))"

definition auipc_ex_req_handler :: "exu \<Rightarrow> ex_req \<Rightarrow> exu option" where
  "auipc_ex_req_handler exu req =
     set_gpr exu (inst_rd (er_inst req)) (er_pc req + u_imm_decode (er_inst req))"

definition fence_ex_req_handler :: "exu \<Rightarrow> ex_req \<Rightarrow> exu option" where
  "fence_ex_req_handler exu req = (let fm = drop_bit 8 (inst_i_imm_11_0 (er_inst req)) in
     if fm = 0b0000 then Some exu else if fm = 0b1000 then Some exu else None)"

definition exu_start_fence_i :: "exu \<Rightarrow> exu option" where
  "exu_start_fence_i exu = do {
     DBG_CHECK (fence_i_stage exu = FENCE_I_STAGE_IDLE);
     DBG_CHECK (\<not> itf_fifo_full (l1d_flush_mst exu));
     t \<leftarrow> itf_write (l1d_flush_mst exu) 0;
     Some (exu\<lparr>l1d_flush_mst := t, fence_i_stage := FENCE_I_STAGE_WAIT_D_ACK\<rparr>)
   }"

definition fence_i_ex_req_handler :: "exu \<Rightarrow> ex_req \<Rightarrow> exu option" where
  "fence_i_ex_req_handler exu req = exu_start_fence_i exu"

definition cbo_ex_req_handler :: "exu \<Rightarrow> ex_req \<Rightarrow> exu option" where
  "cbo_ex_req_handler exu req = do {
     DBG_CHECK (\<not> itf_fifo_full (ldst_req_mst exu));
     let imm = inst_i_imm_11_0 (er_inst req);
     cmo \<leftarrow> (if imm = 0 then Some LDST_REQ_CMO_INVAL
             else if imm = 1 then Some LDST_REQ_CMO_CLEAN
             else if imm = 2 then Some LDST_REQ_CMO_FLUSH
             else None);
     addr \<leftarrow> get_gpr exu (inst_rs1 (er_inst req));
     let ldst_req = \<lparr>lq_addr = addr, lq_st = False, lq_cmo = cmo, lq_size = LDST_REQ_SIZE_B4,
       lq_data = 0, lq_strobe = 0\<rparr>;
     t \<leftarrow> itf_write (ldst_req_mst exu) ldst_req;
     Some (exu\<lparr>ldst_req_mst := t, cur_opcode := OPCODE_MISC_MEM, ldst_req_pend := True,
       trap_defer := True\<rparr>)
   }"

definition misc_ex_req_proc :: "exu \<Rightarrow> ex_req \<Rightarrow> exu option" where
  "misc_ex_req_proc exu req = (let opcode = inst_opcode (er_inst req) in
     if opcode = OPCODE_LUI then lui_ex_req_handler exu req
     else if opcode = OPCODE_AUIPC then auipc_ex_req_handler exu req
     else if opcode = OPCODE_MISC_MEM then
       (let funct3 = inst_funct3 (er_inst req) in
        if funct3 = 0b000 then fence_ex_req_handler exu req
        else if funct3 = 0b001 then fence_i_ex_req_handler exu req
        else if funct3 = 0b010 then cbo_ex_req_handler exu req
        else None)
     else None)"

section \<open>ldst.c\<close>

definition lb_ex_req_handler :: "exu \<Rightarrow> ex_req \<Rightarrow> ldst_req \<Rightarrow> ldst_req option" where
  "lb_ex_req_handler exu ex_req ldst_req = do {
     s1 \<leftarrow> get_gpr exu (inst_rs1 (er_inst ex_req));
     Some (ldst_req\<lparr>lq_st := False, lq_size := LDST_REQ_SIZE_B1,
       lq_addr := s1 + i_imm_decode (er_inst ex_req)\<rparr>)
   }"

definition lb_biu_rsp_handler :: "exu \<Rightarrow> ldst_rsp \<Rightarrow> exu option" where
  "lb_biu_rsp_handler exu ldst_rsp =
     set_gpr exu (ld_rd exu) (rv32g_sign_ext (lr_data ldst_rsp AND 0xff) 8)"

definition lh_ex_req_handler :: "exu \<Rightarrow> ex_req \<Rightarrow> ldst_req \<Rightarrow> ldst_req option" where
  "lh_ex_req_handler exu ex_req ldst_req = do {
     s1 \<leftarrow> get_gpr exu (inst_rs1 (er_inst ex_req));
     Some (ldst_req\<lparr>lq_st := False, lq_size := LDST_REQ_SIZE_B2,
       lq_addr := s1 + i_imm_decode (er_inst ex_req)\<rparr>)
   }"

definition lh_biu_rsp_handler :: "exu \<Rightarrow> ldst_rsp \<Rightarrow> exu option" where
  "lh_biu_rsp_handler exu ldst_rsp =
     set_gpr exu (ld_rd exu) (rv32g_sign_ext (lr_data ldst_rsp AND 0xffff) 16)"

definition lw_ex_req_handler :: "exu \<Rightarrow> ex_req \<Rightarrow> ldst_req \<Rightarrow> ldst_req option" where
  "lw_ex_req_handler exu ex_req ldst_req = do {
     s1 \<leftarrow> get_gpr exu (inst_rs1 (er_inst ex_req));
     Some (ldst_req\<lparr>lq_st := False, lq_size := LDST_REQ_SIZE_B4,
       lq_addr := s1 + i_imm_decode (er_inst ex_req)\<rparr>)
   }"

definition lw_biu_rsp_handler :: "exu \<Rightarrow> ldst_rsp \<Rightarrow> exu option" where
  "lw_biu_rsp_handler exu ldst_rsp = set_gpr exu (ld_rd exu) (lr_data ldst_rsp)"

definition lbu_ex_req_handler :: "exu \<Rightarrow> ex_req \<Rightarrow> ldst_req \<Rightarrow> ldst_req option" where
  "lbu_ex_req_handler exu ex_req ldst_req = do {
     s1 \<leftarrow> get_gpr exu (inst_rs1 (er_inst ex_req));
     Some (ldst_req\<lparr>lq_st := False, lq_size := LDST_REQ_SIZE_B1,
       lq_addr := s1 + i_imm_decode (er_inst ex_req)\<rparr>)
   }"

definition lbu_biu_rsp_handler :: "exu \<Rightarrow> ldst_rsp \<Rightarrow> exu option" where
  "lbu_biu_rsp_handler exu ldst_rsp = set_gpr exu (ld_rd exu) (lr_data ldst_rsp AND 0xff)"

definition lhu_ex_req_handler :: "exu \<Rightarrow> ex_req \<Rightarrow> ldst_req \<Rightarrow> ldst_req option" where
  "lhu_ex_req_handler exu ex_req ldst_req = do {
     s1 \<leftarrow> get_gpr exu (inst_rs1 (er_inst ex_req));
     Some (ldst_req\<lparr>lq_st := False, lq_size := LDST_REQ_SIZE_B2,
       lq_addr := s1 + i_imm_decode (er_inst ex_req)\<rparr>)
   }"

definition lhu_biu_rsp_handler :: "exu \<Rightarrow> ldst_rsp \<Rightarrow> exu option" where
  "lhu_biu_rsp_handler exu ldst_rsp = set_gpr exu (ld_rd exu) (lr_data ldst_rsp AND 0xffff)"

definition load_group_ex_req_handler :: "exu \<Rightarrow> ex_req \<Rightarrow> ldst_req \<Rightarrow> ldst_req option" where
  "load_group_ex_req_handler exu ex_req ldst_req = (let funct3 = inst_funct3 (er_inst ex_req) in
     if funct3 = 0b000 then lb_ex_req_handler exu ex_req ldst_req
     else if funct3 = 0b001 then lh_ex_req_handler exu ex_req ldst_req
     else if funct3 = 0b010 then lw_ex_req_handler exu ex_req ldst_req
     else if funct3 = 0b100 then lbu_ex_req_handler exu ex_req ldst_req
     else if funct3 = 0b101 then lhu_ex_req_handler exu ex_req ldst_req
     else None)"

definition load_group_biu_rsp_handler :: "exu \<Rightarrow> ldst_rsp \<Rightarrow> exu option" where
  "load_group_biu_rsp_handler exu ldst_rsp = (let funct3 = ld_funct3 exu in
     if funct3 = 0b000 then lb_biu_rsp_handler exu ldst_rsp
     else if funct3 = 0b001 then lh_biu_rsp_handler exu ldst_rsp
     else if funct3 = 0b010 then lw_biu_rsp_handler exu ldst_rsp
     else if funct3 = 0b100 then lbu_biu_rsp_handler exu ldst_rsp
     else if funct3 = 0b101 then lhu_biu_rsp_handler exu ldst_rsp
     else None)"

definition sb_ex_req_handler :: "exu \<Rightarrow> ex_req \<Rightarrow> ldst_req \<Rightarrow> ldst_req option" where
  "sb_ex_req_handler exu ex_req ldst_req = do {
     s1 \<leftarrow> get_gpr exu (inst_rs1 (er_inst ex_req));
     s2 \<leftarrow> get_gpr exu (inst_rs2 (er_inst ex_req));
     Some (ldst_req\<lparr>lq_st := True, lq_size := LDST_REQ_SIZE_B1,
       lq_addr := s1 + s_imm_decode (er_inst ex_req), lq_data := s2, lq_strobe := 0b0001\<rparr>)
   }"

definition sh_ex_req_handler :: "exu \<Rightarrow> ex_req \<Rightarrow> ldst_req \<Rightarrow> ldst_req option" where
  "sh_ex_req_handler exu ex_req ldst_req = do {
     s1 \<leftarrow> get_gpr exu (inst_rs1 (er_inst ex_req));
     s2 \<leftarrow> get_gpr exu (inst_rs2 (er_inst ex_req));
     Some (ldst_req\<lparr>lq_st := True, lq_size := LDST_REQ_SIZE_B2,
       lq_addr := s1 + s_imm_decode (er_inst ex_req), lq_data := s2, lq_strobe := 0b0011\<rparr>)
   }"

definition sw_ex_req_handler :: "exu \<Rightarrow> ex_req \<Rightarrow> ldst_req \<Rightarrow> ldst_req option" where
  "sw_ex_req_handler exu ex_req ldst_req = do {
     s1 \<leftarrow> get_gpr exu (inst_rs1 (er_inst ex_req));
     s2 \<leftarrow> get_gpr exu (inst_rs2 (er_inst ex_req));
     Some (ldst_req\<lparr>lq_st := True, lq_size := LDST_REQ_SIZE_B4,
       lq_addr := s1 + s_imm_decode (er_inst ex_req), lq_data := s2, lq_strobe := 0b1111\<rparr>)
   }"

definition store_group_ex_req_handler :: "exu \<Rightarrow> ex_req \<Rightarrow> ldst_req \<Rightarrow> ldst_req option" where
  "store_group_ex_req_handler exu ex_req ldst_req = (let funct3 = inst_funct3 (er_inst ex_req) in
     if funct3 = 0b000 then sb_ex_req_handler exu ex_req ldst_req
     else if funct3 = 0b001 then sh_ex_req_handler exu ex_req ldst_req
     else if funct3 = 0b010 then sw_ex_req_handler exu ex_req ldst_req
     else None)"

definition ldst_ex_req_proc :: "exu \<Rightarrow> ex_req \<Rightarrow> exu option" where
  "ldst_ex_req_proc exu ex_req =
     (if itf_fifo_full (ldst_req_mst exu) then Some exu
      else if ldst_req_pend exu then Some exu
      else do {
        let opcode = inst_opcode (er_inst ex_req);
        ldst_req \<leftarrow>
          (if opcode = OPCODE_LOAD then load_group_ex_req_handler exu ex_req ldst_req_init
           else if opcode = OPCODE_STORE then store_group_ex_req_handler exu ex_req ldst_req_init
           else None);
        t \<leftarrow> itf_write (ldst_req_mst exu) ldst_req;
        let exu = exu\<lparr>ldst_req_mst := t, cur_opcode := opcode, ldst_req_pend := True,
          ldst_opcode := opcode, ldst_pc := er_pc ex_req, trap_defer := True\<rparr>;
        Some (if opcode = OPCODE_LOAD
              then exu\<lparr>ld_rd := inst_rd (er_inst ex_req), ld_funct3 := inst_funct3 (er_inst ex_req)\<rparr>
              else exu\<lparr>ld_rd := 0, ld_funct3 := 0\<rparr>)
      })"

definition ldst_biu_rsp_proc :: "exu \<Rightarrow> ldst_rsp \<Rightarrow> exu option" where
  "ldst_biu_rsp_proc exu ldst_rsp = do {
     exu \<leftarrow> (if ldst_opcode exu = OPCODE_LOAD then load_group_biu_rsp_handler exu ldst_rsp
            else Some exu);
     Some (exu\<lparr>ldst_req_pend := False, ldst_opcode := 0, ldst_pc := 0, ld_rd := 0, ld_funct3 := 0,
       trap_defer := False\<rparr>)
   }"

section \<open>amo.c\<close>

text \<open>
  A handler returns whether its request packet is to be sent. \<^verbatim>\<open>biu_rdy\<close> says that the request
  interface has room.
\<close>

definition lr_ex_req_handler ::
    "exu \<Rightarrow> ex_req \<Rightarrow> ldst_req \<Rightarrow> bool \<Rightarrow> (exu \<times> ldst_req \<times> bool) option" where
  "lr_ex_req_handler exu ex_req ldst_req biu_rdy =
     (if \<not> biu_rdy then Some (exu, ldst_req, False)
      else do {
        addr \<leftarrow> get_gpr exu (inst_rs1 (er_inst ex_req));
        let ldst_req = ldst_req\<lparr>lq_st := False, lq_size := LDST_REQ_SIZE_B4, lq_addr := addr,
          lq_strobe := 0b1111\<rparr>;
        Some (exu\<lparr>amo_rd := inst_rd (er_inst ex_req), amo_addr := lq_addr ldst_req,
                amo_stage := AMO_STAGE_READ\<rparr>, ldst_req, True)
      })"

definition lr_biu_rsp_handler ::
    "exu \<Rightarrow> ldst_rsp \<Rightarrow> ldst_req \<Rightarrow> bool \<Rightarrow> (exu \<times> ldst_req \<times> bool) option" where
  "lr_biu_rsp_handler exu ldst_rsp st_req biu_rdy =
     (if amo_stage exu = AMO_STAGE_READ then do {
        let exu = exu\<lparr>amo_lr_set := True, amo_rsvd_addr := amo_addr exu\<rparr>;
        exu \<leftarrow> set_gpr exu (amo_rd exu) (lr_data ldst_rsp);
        Some (exu\<lparr>amo_stage := AMO_STAGE_IDLE\<rparr>, st_req, False)
      } else None)"

definition sc_ex_req_handler ::
    "exu \<Rightarrow> ex_req \<Rightarrow> ldst_req \<Rightarrow> bool \<Rightarrow> (exu \<times> ldst_req \<times> bool) option" where
  "sc_ex_req_handler exu ex_req ldst_req biu_rdy = do {
     store_addr \<leftarrow> get_gpr exu (inst_rs1 (er_inst ex_req));
     let exu = exu\<lparr>amo_rd := inst_rd (er_inst ex_req)\<rparr>;
     let success = (amo_lr_set exu \<and> amo_rsvd_addr exu = store_addr);
     if success \<and> \<not> biu_rdy then Some (exu, ldst_req, False)
     else if \<not> success then do {
       exu \<leftarrow> set_gpr exu (amo_rd exu) 1;
       Some (exu\<lparr>amo_lr_set := False, amo_stage := AMO_STAGE_IDLE\<rparr>, ldst_req, False)
     }
     else do {
       s2 \<leftarrow> get_gpr exu (inst_rs2 (er_inst ex_req));
       Some (exu\<lparr>amo_stage := AMO_STAGE_WRITE\<rparr>,
         ldst_req\<lparr>lq_st := True, lq_size := LDST_REQ_SIZE_B4, lq_addr := store_addr, lq_data := s2,
           lq_strobe := 0b1111\<rparr>, True)
     }
   }"

definition sc_biu_rsp_handler ::
    "exu \<Rightarrow> ldst_rsp \<Rightarrow> ldst_req \<Rightarrow> bool \<Rightarrow> (exu \<times> ldst_req \<times> bool) option" where
  "sc_biu_rsp_handler exu ldst_rsp st_req biu_rdy =
     (if amo_stage exu = AMO_STAGE_WRITE then do {
        exu \<leftarrow> set_gpr exu (amo_rd exu) 0;
        Some (exu\<lparr>amo_lr_set := False, amo_stage := AMO_STAGE_IDLE\<rparr>, st_req, False)
      } else None)"

text \<open>
  The bodies of the nine read-modify-write instructions are two macros; the response macro
  takes the expression that computes the new value from the old one and \<^verbatim>\<open>amo_s2\<close>.
\<close>

definition AMO_EX_REQ_HANDLER_TEMPLATE ::
    "exu \<Rightarrow> ex_req \<Rightarrow> ldst_req \<Rightarrow> bool \<Rightarrow> (exu \<times> ldst_req \<times> bool) option" where
  "AMO_EX_REQ_HANDLER_TEMPLATE exu ex_req ldst_req biu_rdy =
     (if \<not> biu_rdy then Some (exu, ldst_req, False)
      else do {
        addr \<leftarrow> get_gpr exu (inst_rs1 (er_inst ex_req));
        s2 \<leftarrow> get_gpr exu (inst_rs2 (er_inst ex_req));
        let ldst_req = ldst_req\<lparr>lq_st := False, lq_size := LDST_REQ_SIZE_B4, lq_addr := addr,
          lq_strobe := 0b1111\<rparr>;
        Some (exu\<lparr>amo_rd := inst_rd (er_inst ex_req), amo_addr := lq_addr ldst_req, amo_s2 := s2,
                amo_stage := AMO_STAGE_READ\<rparr>, ldst_req, True)
      })"

definition AMO_BIU_RSP_HANDLER_TEMPLATE ::
    "(u32 \<Rightarrow> u32 \<Rightarrow> u32) \<Rightarrow> exu \<Rightarrow> ldst_rsp \<Rightarrow> ldst_req \<Rightarrow> bool \<Rightarrow> (exu \<times> ldst_req \<times> bool) option" where
  "AMO_BIU_RSP_HANDLER_TEMPLATE expr exu ldst_rsp st_req biu_rdy =
     (case amo_stage exu of
        AMO_STAGE_READ \<Rightarrow>
          if \<not> biu_rdy then Some (exu, st_req, False)
          else do {
            let old_val = lr_data ldst_rsp;
            exu \<leftarrow> set_gpr exu (amo_rd exu) old_val;
            let new_val = expr old_val (amo_s2 exu);
            Some (exu\<lparr>amo_stage := AMO_STAGE_WRITE\<rparr>,
              st_req\<lparr>lq_st := True, lq_size := LDST_REQ_SIZE_B4, lq_addr := amo_addr exu,
                lq_data := new_val, lq_strobe := 0b1111\<rparr>, True)
          }
      | AMO_STAGE_WRITE \<Rightarrow> Some (exu\<lparr>amo_stage := AMO_STAGE_IDLE\<rparr>, st_req, False)
      | AMO_STAGE_IDLE \<Rightarrow> None)"

text \<open>
  The expressions. \<^verbatim>\<open>old_val.s + amo_s2.s\<close> is a sum of two signed integers, which the
  compilers the project is built with wrap around.
\<close>

definition amoswap_expr :: "u32 \<Rightarrow> u32 \<Rightarrow> u32" where "amoswap_expr old_val s2 = s2"
definition amoadd_expr :: "u32 \<Rightarrow> u32 \<Rightarrow> u32" where
  "amoadd_expr old_val s2 = word_of_int (sint old_val + sint s2)"
definition amoxor_expr :: "u32 \<Rightarrow> u32 \<Rightarrow> u32" where "amoxor_expr old_val s2 = old_val XOR s2"
definition amoand_expr :: "u32 \<Rightarrow> u32 \<Rightarrow> u32" where "amoand_expr old_val s2 = old_val AND s2"
definition amoor_expr :: "u32 \<Rightarrow> u32 \<Rightarrow> u32" where "amoor_expr old_val s2 = old_val OR s2"
definition amomin_expr :: "u32 \<Rightarrow> u32 \<Rightarrow> u32" where
  "amomin_expr old_val s2 = (if sint old_val < sint s2 then old_val else s2)"
definition amomax_expr :: "u32 \<Rightarrow> u32 \<Rightarrow> u32" where
  "amomax_expr old_val s2 = (if sint old_val > sint s2 then old_val else s2)"
definition amominu_expr :: "u32 \<Rightarrow> u32 \<Rightarrow> u32" where
  "amominu_expr old_val s2 = (if old_val < s2 then old_val else s2)"
definition amomaxu_expr :: "u32 \<Rightarrow> u32 \<Rightarrow> u32" where
  "amomaxu_expr old_val s2 = (if old_val > s2 then old_val else s2)"

abbreviation (input) AMO_LR :: u32 where "AMO_LR \<equiv> 0b01000010"
abbreviation (input) AMO_SC :: u32 where "AMO_SC \<equiv> 0b01000011"

text \<open>The nine entries of both handler tables that use the macros, by \<^verbatim>\<open>funct375\<close>.\<close>

definition amo_rmw_expr :: "u32 \<Rightarrow> (u32 \<Rightarrow> u32 \<Rightarrow> u32) option" where
  "amo_rmw_expr funct375 =
     (if funct375 = 0b01000001 then Some amoswap_expr
      else if funct375 = 0b01000000 then Some amoadd_expr
      else if funct375 = 0b01000100 then Some amoxor_expr
      else if funct375 = 0b01001100 then Some amoand_expr
      else if funct375 = 0b01001000 then Some amoor_expr
      else if funct375 = 0b01010000 then Some amomin_expr
      else if funct375 = 0b01010100 then Some amomax_expr
      else if funct375 = 0b01011000 then Some amominu_expr
      else if funct375 = 0b01011100 then Some amomaxu_expr
      else None)"

definition amo_ex_req_proc :: "exu \<Rightarrow> ex_req \<Rightarrow> exu option" where
  "amo_ex_req_proc exu ex_req = do {
     DBG_CHECK (inst_opcode (er_inst ex_req) = OPCODE_AMO);
     let funct375 = push_bit 5 (inst_funct3 (er_inst ex_req))
       OR drop_bit 2 (inst_funct7 (er_inst ex_req));
     let biu_rdy = (\<not> itf_fifo_full (ldst_req_mst exu));
     (exu, ldst_req, send_ldst_req) \<leftarrow>
       (if funct375 = AMO_LR then lr_ex_req_handler exu ex_req ldst_req_init biu_rdy
        else if funct375 = AMO_SC then sc_ex_req_handler exu ex_req ldst_req_init biu_rdy
        else if amo_rmw_expr funct375 \<noteq> None
        then AMO_EX_REQ_HANDLER_TEMPLATE exu ex_req ldst_req_init biu_rdy
        else None);
     t \<leftarrow> (if send_ldst_req then itf_write (ldst_req_mst exu) ldst_req else Some (ldst_req_mst exu));
     Some (exu\<lparr>ldst_req_mst := t, cur_opcode := OPCODE_AMO, amo_funct375 := funct375,
       trap_defer := (amo_stage exu \<noteq> AMO_STAGE_IDLE)\<rparr>)
   }"

definition amo_biu_rsp_proc :: "exu \<Rightarrow> ldst_rsp \<Rightarrow> exu option" where
  "amo_biu_rsp_proc exu ldst_rsp = do {
     DBG_CHECK (cur_opcode exu = OPCODE_AMO);
     let biu_rdy = (\<not> itf_fifo_full (ldst_req_mst exu));
     (exu, st_req, send_st_req) \<leftarrow>
       (if amo_funct375 exu = AMO_LR then lr_biu_rsp_handler exu ldst_rsp ldst_req_init biu_rdy
        else if amo_funct375 exu = AMO_SC then sc_biu_rsp_handler exu ldst_rsp ldst_req_init biu_rdy
        else do {
          expr \<leftarrow> amo_rmw_expr (amo_funct375 exu);
          AMO_BIU_RSP_HANDLER_TEMPLATE expr exu ldst_rsp ldst_req_init biu_rdy
        });
     t \<leftarrow> (if send_st_req then itf_write (ldst_req_mst exu) st_req else Some (ldst_req_mst exu));
     let exu = exu\<lparr>ldst_req_mst := t, trap_defer := (amo_stage exu \<noteq> AMO_STAGE_IDLE)\<rparr>;
     Some (if \<not> trap_defer exu then exu\<lparr>irq_epc := cur_pc exu + 4\<rparr> else exu)
   }"

section \<open>Loads and stores: reference semantics\<close>

definition access_size :: "u32 \<Rightarrow> ldst_req_size option" where
  "access_size width = (if width = 0 then Some LDST_REQ_SIZE_B1 else if width = 1 then Some LDST_REQ_SIZE_B2
     else if width = 2 then Some LDST_REQ_SIZE_B4 else None)"

text \<open>The request a load or a store puts on the bus, and what a load leaves in \<open>rd\<close>.\<close>

definition mem_req :: "exu \<Rightarrow> u32 \<Rightarrow> ldst_req option" where
  "mem_req exu i = (let f3 = inst_funct3 i; a = gpr_of exu (inst_rs1 i) in
     if inst_opcode i = OPCODE_LOAD \<and> f3 \<noteq> 6 then
       map_option (\<lambda>sz. ldst_req_init\<lparr>lq_addr := a + i_imm_decode i, lq_size := sz\<rparr>)
         (access_size (take_bit 2 f3))
     else if inst_opcode i = OPCODE_STORE then
       map_option (\<lambda>sz. ldst_req_init\<lparr>lq_addr := a + s_imm_decode i, lq_st := True, lq_size := sz,
           lq_data := gpr_of exu (inst_rs2 i), lq_strobe := mask (2 ^ unat f3)\<rparr>)
         (access_size f3)
     else None)"

definition load_sem :: "u32 \<Rightarrow> u32 \<Rightarrow> u32" where
  "load_sem f3 d = (if f3 = 0 then word_of_int (sint (ucast d :: u8))
     else if f3 = 1 then word_of_int (sint (ucast d :: u16))
     else if f3 = 4 then word_of_int (uint (ucast d :: u8))
     else if f3 = 5 then word_of_int (uint (ucast d :: u16)) else d)"

definition mem_result :: "exu \<Rightarrow> u32 \<Rightarrow> u32 \<Rightarrow> exu" where
  "mem_result exu i d = (if inst_opcode i = OPCODE_LOAD
     then upd_gpr exu (inst_rd i) (load_sem (inst_funct3 i) d) else exu)"

lemma and_mask_numerals: "d AND 0xff = take_bit 8 (d :: u32)" "d AND 0xffff = take_bit 16 (d :: u32)"
  by (simp_all add: take_bit_eq_mask mask_numeral)

lemma load_extensions:
  "rv32g_sign_ext (d AND 0xff) 8 = word_of_int (sint (ucast d :: u8))"
  "rv32g_sign_ext (d AND 0xffff) 16 = word_of_int (sint (ucast d :: u16))"
  "d AND 0xff = word_of_int (uint (ucast d :: u8))"
  "d AND 0xffff = word_of_int (uint (ucast d :: u16))"
proof -
  have eq7: "n = 7" if "7 \<le> n" "n < 8" for n :: nat using that by simp
  have eq15: "n = 15" if "15 \<le> n" "n < 16" for n :: nat using that by simp
  show "rv32g_sign_ext (d AND 0xff) 8 = word_of_int (sint (ucast d :: u8))"
    unfolding and_mask_numerals scast_eq [symmetric]
    by (rule bit_eqI) (auto simp: bit_sign_ext bit_take_bit_iff bit_signed_iff bit_ucast_iff min_def
        not_le dest: eq7)
  show "rv32g_sign_ext (d AND 0xffff) 16 = word_of_int (sint (ucast d :: u16))"
    unfolding and_mask_numerals scast_eq [symmetric]
    by (rule bit_eqI) (auto simp: bit_sign_ext bit_take_bit_iff bit_signed_iff bit_ucast_iff min_def
        not_le dest: eq15)
  show "d AND 0xff = word_of_int (uint (ucast d :: u8))"
    unfolding and_mask_numerals ucast_eq [symmetric]
    by (rule bit_eqI) (auto simp: bit_take_bit_iff bit_ucast_iff)
  show "d AND 0xffff = word_of_int (uint (ucast d :: u16))"
    unfolding and_mask_numerals ucast_eq [symmetric]
    by (rule bit_eqI) (auto simp: bit_take_bit_iff bit_ucast_iff)
qed

lemmas load_handler_defs = lb_ex_req_handler_def lh_ex_req_handler_def lw_ex_req_handler_def
  lbu_ex_req_handler_def lhu_ex_req_handler_def

lemmas store_handler_defs = sb_ex_req_handler_def sh_ex_req_handler_def sw_ex_req_handler_def

lemmas load_rsp_defs = lb_biu_rsp_handler_def lh_biu_rsp_handler_def lw_biu_rsp_handler_def
  lbu_biu_rsp_handler_def lhu_biu_rsp_handler_def

lemma strobe_masks: "mask 2 = (0b0011 :: u8)" "mask 4 = (0b1111 :: u8)"
  by code_simp+

lemma load_group_req:
  assumes "gpr_ok exu" "i = er_inst req" "inst_opcode i = OPCODE_LOAD"
  shows "load_group_ex_req_handler exu req ldst_req_init = mem_req exu i"
  using assms funct3_values [of i]
  by (auto simp: load_group_ex_req_handler_def load_handler_defs mem_req_def access_size_def Let_def
      ldst_req_init_def)

lemma store_group_req:
  assumes "gpr_ok exu" "i = er_inst req" "inst_opcode i = OPCODE_STORE"
  shows "store_group_ex_req_handler exu req ldst_req_init = mem_req exu i"
  using assms
  by (auto simp: store_group_ex_req_handler_def store_handler_defs mem_req_def access_size_def Let_def
      ldst_req_init_def strobe_masks)

lemma load_group_rsp:
  assumes "gpr_ok exu" "unat (ld_rd exu) < 32" "ld_funct3 exu \<in> {0, 1, 2, 4, 5}"
  shows "load_group_biu_rsp_handler exu rsp
    = Some (upd_gpr exu (ld_rd exu) (load_sem (ld_funct3 exu) (lr_data rsp)))"
  using assms
  unfolding load_group_biu_rsp_handler_def load_rsp_defs load_sem_def Let_def
    load_extensions(1,2)
  unfolding load_extensions(3,4) by (elim insertE) simp_all

section \<open>Atomic operations: reference semantics\<close>

text \<open>
  What a read-modify-write instruction stores, by the operation field \<open>funct5\<close> of the
  instruction set manual, over integers.
\<close>

definition amo_sem :: "u32 \<Rightarrow> (u32 \<Rightarrow> u32 \<Rightarrow> u32) option" where
  "amo_sem f5 =
     (if f5 = 0b00001 then Some (\<lambda>old s2. s2)
      else if f5 = 0b00000 then Some (\<lambda>old s2. word_of_int (uint old + uint s2))
      else if f5 = 0b00100 then Some (\<lambda>old s2. old XOR s2)
      else if f5 = 0b01100 then Some (\<lambda>old s2. old AND s2)
      else if f5 = 0b01000 then Some (\<lambda>old s2. old OR s2)
      else if f5 = 0b10000 then Some (\<lambda>old s2. word_of_int (min (sint old) (sint s2)))
      else if f5 = 0b10100 then Some (\<lambda>old s2. word_of_int (max (sint old) (sint s2)))
      else if f5 = 0b11000 then Some (\<lambda>old s2. word_of_int (min (uint old) (uint s2)))
      else if f5 = 0b11100 then Some (\<lambda>old s2. word_of_int (max (uint old) (uint s2)))
      else None)"

definition inst_funct5 :: "u32 \<Rightarrow> u32" where
  "inst_funct5 i = bf 27 5 i"

definition is_amo_w :: "u32 \<Rightarrow> bool" where
  "is_amo_w i \<longleftrightarrow> inst_opcode i = OPCODE_AMO \<and> inst_funct3 i = 2"

lemma funct7_drop_2: "drop_bit 2 (inst_funct7 i) = inst_funct5 i"
  by (rule bit_eqI) (auto simp: inst_funct7_def inst_funct5_def bit_bf bit_simps)

lemma funct375_cases:
  "0x40 OR inst_funct5 i = k \<longleftrightarrow> 2 = drop_bit 5 k \<and> inst_funct5 i = take_bit 5 k"
proof -
  have "(push_bit 5 2 OR inst_funct5 i = k) = ((2 :: u32) = drop_bit 5 k \<and> inst_funct5 i = take_bit 5 k)"
    by (rule concat_eq_iff) (auto intro!: bit_eqI simp: inst_funct5_def bit_bf bit_simps)
  moreover have "push_bit 5 (2 :: u32) = 0x40" by simp
  ultimately show ?thesis by (simp only:)
qed

lemma amo_exprs:
  "amoswap_expr = (\<lambda>old s2. s2)"
  "amoadd_expr = (\<lambda>old s2. word_of_int (uint old + uint s2))"
  "amoxor_expr = (\<lambda>old s2. old XOR s2)" "amoand_expr = (\<lambda>old s2. old AND s2)"
  "amoor_expr = (\<lambda>old s2. old OR s2)"
  "amomin_expr = (\<lambda>old s2. word_of_int (min (sint old) (sint s2)))"
  "amomax_expr = (\<lambda>old s2. word_of_int (max (sint old) (sint s2)))"
  "amominu_expr = (\<lambda>old s2. word_of_int (min (uint old) (uint s2)))"
  "amomaxu_expr = (\<lambda>old s2. word_of_int (max (uint old) (uint s2)))"
  by (auto simp: fun_eq_iff amoswap_expr_def amoadd_expr_def amoxor_expr_def amoand_expr_def
      amoor_expr_def amomin_expr_def amomax_expr_def amominu_expr_def amomaxu_expr_def min_def
      max_def word_less_def word_le_def)

lemma amo_rmw_expr_sem: "amo_rmw_expr (0x40 OR inst_funct5 i) = amo_sem (inst_funct5 i)"
  unfolding amo_rmw_expr_def amo_sem_def funct375_cases amo_exprs by simp

definition amo_read_req :: "u32 \<Rightarrow> ldst_req" where
  "amo_read_req a = ldst_req_init\<lparr>lq_addr := a, lq_size := LDST_REQ_SIZE_B4, lq_strobe := 0b1111\<rparr>"

definition amo_write_req :: "u32 \<Rightarrow> u32 \<Rightarrow> ldst_req" where
  "amo_write_req a v = ldst_req_init\<lparr>lq_addr := a, lq_st := True, lq_size := LDST_REQ_SIZE_B4,
     lq_data := v, lq_strobe := 0b1111\<rparr>"

lemma funct375_rmw:
  "amo_sem (inst_funct5 i) = Some f \<Longrightarrow>
     0x40 OR inst_funct5 i \<noteq> AMO_LR \<and> 0x40 OR inst_funct5 i \<noteq> AMO_SC"
  unfolding funct375_cases by (auto simp: amo_sem_def)

lemma amo_rmw_issue:
  assumes "gpr_ok exu" "\<not> itf_fifo_full (ldst_req_mst exu)" "is_amo_w (er_inst req)"
    and "amo_sem (inst_funct5 (er_inst req)) = Some f"
    and "itf_write (ldst_req_mst exu) (amo_read_req (gpr_of exu (inst_rs1 (er_inst req)))) = Some t"
  shows "amo_ex_req_proc exu req = Some (exu\<lparr>ldst_req_mst := t, cur_opcode := OPCODE_AMO,
      amo_funct375 := 0x40 OR inst_funct5 (er_inst req), trap_defer := True,
      amo_rd := inst_rd (er_inst req), amo_addr := gpr_of exu (inst_rs1 (er_inst req)),
      amo_s2 := gpr_of exu (inst_rs2 (er_inst req)), amo_stage := AMO_STAGE_READ\<rparr>)"
  using assms funct375_rmw [OF assms(4)]
  by (simp add: amo_ex_req_proc_def is_amo_w_def funct7_drop_2 Let_def amo_rmw_expr_sem
      AMO_EX_REQ_HANDLER_TEMPLATE_def amo_read_req_def ldst_req_init_def)

lemma amo_rmw_read_rsp:
  assumes "gpr_ok exu" "unat (amo_rd exu) < 32" "cur_opcode exu = OPCODE_AMO"
    and "amo_funct375 exu = 0x40 OR inst_funct5 i" "amo_sem (inst_funct5 i) = Some f"
    and "amo_stage exu = AMO_STAGE_READ" "\<not> itf_fifo_full (ldst_req_mst exu)"
    and "itf_write (ldst_req_mst exu) (amo_write_req (amo_addr exu) (f (lr_data rsp) (amo_s2 exu))) = Some t"
  shows "amo_biu_rsp_proc exu rsp = Some ((upd_gpr exu (amo_rd exu) (lr_data rsp))\<lparr>
      ldst_req_mst := t, trap_defer := True, amo_stage := AMO_STAGE_WRITE\<rparr>)"
  using assms funct375_rmw [OF assms(5)]
  by (simp add: amo_biu_rsp_proc_def Let_def amo_rmw_expr_sem AMO_BIU_RSP_HANDLER_TEMPLATE_def
      amo_write_req_def ldst_req_init_def)

lemma amo_rmw_write_rsp:
  assumes "cur_opcode exu = OPCODE_AMO" "amo_funct375 exu = 0x40 OR inst_funct5 i"
    and "amo_sem (inst_funct5 i) = Some f" "amo_stage exu = AMO_STAGE_WRITE"
  shows "amo_biu_rsp_proc exu rsp = Some (exu\<lparr>trap_defer := False, amo_stage := AMO_STAGE_IDLE,
      irq_epc := cur_pc exu + 4\<rparr>)"
  using assms funct375_rmw [OF assms(3)]
  by (simp add: amo_biu_rsp_proc_def Let_def amo_rmw_expr_sem AMO_BIU_RSP_HANDLER_TEMPLATE_def)

section \<open>Properties\<close>

text \<open>
  C16. Loads and stores: when the unit is free and the request interface has room, a legal
  load or store puts exactly the request the instruction set defines on the interface and
  holds traps back; the response then completes it, with the sign- or zero-extended value in
  \<open>rd\<close> of a load and every other register unchanged, and traps are allowed again.
\<close>

theorem ldst_transaction_correct:
  assumes "gpr_ok exu" "itf_inv (ldst_req_mst exu)" "\<not> itf_fifo_full (ldst_req_mst exu)"
    and "\<not> ldst_req_pend exu" "mem_req exu (er_inst req) = Some q"
  shows "\<exists>exu1. ldst_ex_req_proc exu req = Some exu1
      \<and> itf_list (ldst_req_mst exu1) = itf_list (ldst_req_mst exu) @ [q]
      \<and> ldst_req_pend exu1 \<and> trap_defer exu1 \<and> exu_gpr exu1 = exu_gpr exu
      \<and> (\<exists>exu2. ldst_biu_rsp_proc exu1 rsp = Some exu2 \<and> \<not> ldst_req_pend exu2 \<and> \<not> trap_defer exu2
          \<and> exu_gpr exu2 = exu_gpr (mem_result exu (er_inst req) (lr_data rsp)))"
proof -
  let ?i = "er_inst req"
  obtain t where t: "itf_write (ldst_req_mst exu) q = Some t"
    "itf_list t = itf_list (ldst_req_mst exu) @ [q]"
    using itf.push_not_full [OF assms(2,3)] by metis
  consider (load) "inst_opcode ?i = OPCODE_LOAD" "inst_funct3 ?i \<in> {0, 1, 2, 4, 5}"
    | (store) "inst_opcode ?i = OPCODE_STORE"
    using assms(5) funct3_values [of ?i]
    by (auto simp: mem_req_def Let_def access_size_def split: if_splits)
  then show ?thesis
  proof cases
    case load
    let ?exu1 = "exu\<lparr>ldst_req_mst := t, cur_opcode := OPCODE_LOAD, ldst_req_pend := True,
      ldst_opcode := OPCODE_LOAD, ldst_pc := er_pc req, trap_defer := True, ld_rd := inst_rd ?i,
      ld_funct3 := inst_funct3 ?i\<rparr>"
    have "ldst_ex_req_proc exu req = Some ?exu1"
      using assms t load(1) load_group_req [OF assms(1) refl load(1)] by (simp add: ldst_ex_req_proc_def)
    then show ?thesis
      using t load assms(1) load_group_rsp [of ?exu1 rsp]
      by (simp add: ldst_biu_rsp_proc_def mem_result_def upd_gpr_def)
  next
    case store
    then show ?thesis
      using assms t store_group_req [OF assms(1) refl store]
      by (simp add: ldst_ex_req_proc_def ldst_biu_rsp_proc_def mem_result_def)
  qed
qed

abbreviation lh_req :: ex_req where
  "lh_req \<equiv> \<lparr>er_inst = 0xFFE11083, er_pc = 0x100, er_pred_taken = False, er_pred_pc = 0,
    er_is_boot_code = False\<rparr>"

theorem ldst_transaction_correct_witness:
  "\<exists>exu1. ldst_ex_req_proc (exu_reset (\<lambda>_. 0x1002) hart_exu) lh_req = Some exu1
    \<and> itf_list (ldst_req_mst exu1) = [ldst_req_init\<lparr>lq_addr := 0x1000, lq_size := LDST_REQ_SIZE_B2\<rparr>]
    \<and> (\<exists>exu2. ldst_biu_rsp_proc exu1 \<lparr>lr_data = 0x1234FFFE, lr_ok = True\<rparr> = Some exu2
        \<and> exu_gpr exu2 = (exu_gpr (exu_reset (\<lambda>_. 0x1002) hart_exu))[1 := - 2])"
proof -
  let ?exu = "exu_reset (\<lambda>_. 0x1002) hart_exu"
  let ?q = "ldst_req_init\<lparr>lq_addr := 0x1000, lq_size := LDST_REQ_SIZE_B2\<rparr>"
  have fields: "inst_opcode 0xFFE11083 = OPCODE_LOAD" "inst_rd 0xFFE11083 = 1" "inst_rs1 0xFFE11083 = 2"
    "inst_funct3 0xFFE11083 = 1" "i_imm_decode 0xFFE11083 = - 2" by code_simp+
  have val: "load_sem 1 0x1234FFFE = - 2" by code_simp
  have q: "mem_req ?exu (er_inst lh_req) = Some ?q"
    by (simp add: mem_req_def fields exu_reset_gpr_of access_size_def)
  have free: "\<not> ldst_req_pend ?exu" by (simp add: exu_reset_def exu_publish_state_def)
  show ?thesis
    using ldst_transaction_correct [of ?exu lh_req ?q "\<lparr>lr_data = 0x1234FFFE, lr_ok = True\<rparr>", OF _ _ _ free q]
    by (auto simp: mem_result_def fields val upd_gpr_def)
qed

text \<open>
  C17. Atomic read-modify-write: whatever the interface looks like when the two responses
  arrive (the load/store unit may have drained it), the instruction reads the word at \<open>rs1\<close>,
  writes back the value the instruction set defines from the word read and \<open>rs2\<close> to the same
  address, leaves the old word in \<open>rd\<close>, and lets no trap in before the write has completed.
\<close>

theorem amo_rmw_transaction_correct:
  assumes "gpr_ok exu" "itf_inv (ldst_req_mst exu)" "\<not> itf_fifo_full (ldst_req_mst exu)"
    and "is_amo_w (er_inst req)" "amo_sem (inst_funct5 (er_inst req)) = Some f"
    and "itf_inv t1" "\<not> itf_fifo_full t1"
  shows "let i = er_inst req; addr = gpr_of exu (inst_rs1 i); s2 = gpr_of exu (inst_rs2 i) in
    \<exists>exu1 exu2 exu3.
      amo_ex_req_proc exu req = Some exu1
      \<and> itf_list (ldst_req_mst exu1) = itf_list (ldst_req_mst exu) @ [amo_read_req addr]
      \<and> trap_defer exu1
      \<and> amo_biu_rsp_proc (exu1\<lparr>ldst_req_mst := t1\<rparr>) \<lparr>lr_data = old, lr_ok = True\<rparr> = Some exu2
      \<and> itf_list (ldst_req_mst exu2) = itf_list t1 @ [amo_write_req addr (f old s2)]
      \<and> trap_defer exu2
      \<and> amo_biu_rsp_proc (exu2\<lparr>ldst_req_mst := t2\<rparr>) rsp = Some exu3
      \<and> \<not> trap_defer exu3 \<and> amo_stage exu3 = AMO_STAGE_IDLE \<and> ldst_req_mst exu3 = t2
      \<and> exu_gpr exu3 = exu_gpr (upd_gpr exu (inst_rd i) old) \<and> irq_epc exu3 = cur_pc exu + 4"
proof -
  let ?i = "er_inst req"
  let ?a = "gpr_of exu (inst_rs1 ?i)" and ?s2 = "gpr_of exu (inst_rs2 ?i)"
  obtain t where t: "itf_write (ldst_req_mst exu) (amo_read_req ?a) = Some t"
    "itf_list t = itf_list (ldst_req_mst exu) @ [amo_read_req ?a]"
    using itf.push_not_full [OF assms(2,3)] by metis
  obtain t' where t': "itf_write t1 (amo_write_req ?a (f old ?s2)) = Some t'"
    "itf_list t' = itf_list t1 @ [amo_write_req ?a (f old ?s2)]"
    using itf.push_not_full [OF assms(6,7)] by metis
  define exu1 where "exu1 = exu\<lparr>ldst_req_mst := t, cur_opcode := OPCODE_AMO,
      amo_funct375 := 0x40 OR inst_funct5 ?i, trap_defer := True, amo_rd := inst_rd ?i,
      amo_addr := ?a, amo_s2 := ?s2, amo_stage := AMO_STAGE_READ\<rparr>"
  define exu2 where "exu2 = (upd_gpr exu1 (inst_rd ?i) old)\<lparr>ldst_req_mst := t', trap_defer := True,
      amo_stage := AMO_STAGE_WRITE\<rparr>"
  define exu3 where "exu3 = exu2\<lparr>ldst_req_mst := t2, trap_defer := False,
      amo_stage := AMO_STAGE_IDLE, irq_epc := cur_pc exu + 4\<rparr>"
  have 1: "amo_ex_req_proc exu req = Some exu1"
    using amo_rmw_issue [OF assms(1,3,4,5) t(1)] by (simp add: exu1_def)
  have 2: "amo_biu_rsp_proc (exu1\<lparr>ldst_req_mst := t1\<rparr>) \<lparr>lr_data = old, lr_ok = True\<rparr> = Some exu2"
    using amo_rmw_read_rsp [of "exu1\<lparr>ldst_req_mst := t1\<rparr>" ?i f "\<lparr>lr_data = old, lr_ok = True\<rparr>" t'] assms t'
    by (simp add: exu1_def exu2_def)
  have 3: "amo_biu_rsp_proc (exu2\<lparr>ldst_req_mst := t2\<rparr>) rsp = Some exu3"
    using amo_rmw_write_rsp [of "exu2\<lparr>ldst_req_mst := t2\<rparr>" ?i f rsp] assms(5)
    by (simp add: exu1_def exu2_def exu3_def)
  have "itf_list (ldst_req_mst exu1) = itf_list (ldst_req_mst exu) @ [amo_read_req ?a]" "trap_defer exu1"
    "itf_list (ldst_req_mst exu2) = itf_list t1 @ [amo_write_req ?a (f old ?s2)]" "trap_defer exu2"
    "\<not> trap_defer exu3" "amo_stage exu3 = AMO_STAGE_IDLE" "ldst_req_mst exu3 = t2"
    "exu_gpr exu3 = exu_gpr (upd_gpr exu (inst_rd ?i) old)" "irq_epc exu3 = cur_pc exu + 4"
    using t(2) t'(2) by (simp_all add: exu1_def exu2_def exu3_def)
  with 1 2 3 show ?thesis unfolding Let_def by blast
qed

abbreviation amoadd_req :: ex_req where
  "amoadd_req \<equiv> \<lparr>er_inst = 0x003120AF, er_pc = 0x100, er_pred_taken = False, er_pred_pc = 0,
    er_is_boot_code = False\<rparr>"

theorem amo_rmw_transaction_correct_witness:
  "\<exists>exu1 exu2 exu3. amo_ex_req_proc (exu_reset (\<lambda>n. of_nat n) hart_exu) amoadd_req = Some exu1
     \<and> amo_biu_rsp_proc (exu1\<lparr>ldst_req_mst := fifo_itf_construct 1\<rparr>) \<lparr>lr_data = 40, lr_ok = True\<rparr> = Some exu2
     \<and> itf_list (ldst_req_mst exu2) = [amo_write_req 2 43]
     \<and> amo_biu_rsp_proc (exu2\<lparr>ldst_req_mst := fifo_itf_construct 1\<rparr>) \<lparr>lr_data = 0, lr_ok = True\<rparr> = Some exu3
     \<and> exu_gpr exu3 = exu_gpr (upd_gpr (exu_reset (\<lambda>n. of_nat n) hart_exu) 1 40)"
proof -
  let ?exu = "exu_reset (\<lambda>n. of_nat n) hart_exu"
  have fields: "inst_rd 0x003120AF = 1" "inst_rs1 0x003120AF = 2" "inst_rs2 0x003120AF = 3"
    "is_amo_w 0x003120AF" "inst_funct5 0x003120AF = 0" by code_simp+
  have sem: "amo_sem 0 = Some (\<lambda>old s2. word_of_int (uint old + uint s2))" by (simp add: amo_sem_def)
  have ok: "gpr_ok ?exu" "itf_inv (ldst_req_mst ?exu)" "\<not> itf_fifo_full (ldst_req_mst ?exu)"
    "is_amo_w (er_inst amoadd_req)"
    "amo_sem (inst_funct5 (er_inst amoadd_req)) = Some (\<lambda>old s2. word_of_int (uint old + uint s2))"
    by (simp_all add: fields sem)
  show ?thesis
    using amo_rmw_transaction_correct [OF ok, of "fifo_itf_construct 1" 40 "fifo_itf_construct 1"
        "\<lparr>lr_data = 0, lr_ok = True\<rparr>"]
    by (auto simp: Let_def fields exu_reset_gpr_of)
qed

lemma funct375_lr_sc:
  "0x40 OR inst_funct5 i = AMO_LR \<longleftrightarrow> inst_funct5 i = 2" "0x40 OR inst_funct5 i = AMO_SC \<longleftrightarrow> inst_funct5 i = 3"
  unfolding funct375_cases by simp_all

lemma lr_transaction:
  assumes "gpr_ok exu" "\<not> itf_fifo_full (ldst_req_mst exu)" "is_amo_w (er_inst req)"
    and "inst_funct5 (er_inst req) = 2"
    and "itf_write (ldst_req_mst exu) (amo_read_req (gpr_of exu (inst_rs1 (er_inst req)))) = Some t"
  shows "\<exists>exu1. amo_ex_req_proc exu req = Some exu1 \<and> trap_defer exu1 \<and> ldst_req_mst exu1 = t
    \<and> (\<exists>exu2. amo_biu_rsp_proc exu1 rsp = Some exu2 \<and> \<not> trap_defer exu2 \<and> amo_stage exu2 = AMO_STAGE_IDLE
        \<and> amo_lr_set exu2 \<and> amo_rsvd_addr exu2 = gpr_of exu (inst_rs1 (er_inst req))
        \<and> exu_gpr exu2 = exu_gpr (upd_gpr exu (inst_rd (er_inst req)) (lr_data rsp)))"
  using assms
  by (simp add: amo_ex_req_proc_def amo_biu_rsp_proc_def is_amo_w_def funct7_drop_2 Let_def
      lr_ex_req_handler_def lr_biu_rsp_handler_def amo_read_req_def ldst_req_init_def)

end
