(* ===== verification/Csr.thy ===== *)
theory Csr
  imports Packets
begin

text \<open>
  The control and status registers: the register file generated into
  \<^verbatim>\<open>design/model/spec/core/csr.c\<close> (reset values, privilege-checked reads and writes) and the CSR
  module \<^verbatim>\<open>core/hart/csr.c\<close> around it: the supervisor views of the machine registers, the
  interrupt inputs and the state published to the MMU, the load/store unit and the trap unit.

  \<^verbatim>\<open>rv32g_csr_t\<close> has one 32-bit member per CSR address; here it is a function from addresses.
  Every case of the two switch statements checks the privilege and copies the whole member,
  so both are given by one table of address ranges with the privilege they need and whether
  they have a case in \<^verbatim>\<open>rv32g_csr_write\<close>.
\<close>

type_synonym csr_regs = "u32 \<Rightarrow> u32"

abbreviation (input) CSR_SSTATUS :: u32 where "CSR_SSTATUS \<equiv> 0x100"
abbreviation (input) CSR_SIE :: u32 where "CSR_SIE \<equiv> 0x104"
abbreviation (input) CSR_STVEC :: u32 where "CSR_STVEC \<equiv> 0x105"
abbreviation (input) CSR_SEPC :: u32 where "CSR_SEPC \<equiv> 0x141"
abbreviation (input) CSR_SCAUSE :: u32 where "CSR_SCAUSE \<equiv> 0x142"
abbreviation (input) CSR_STVAL :: u32 where "CSR_STVAL \<equiv> 0x143"
abbreviation (input) CSR_SIP :: u32 where "CSR_SIP \<equiv> 0x144"
abbreviation (input) CSR_STIMECMP :: u32 where "CSR_STIMECMP \<equiv> 0x14d"
abbreviation (input) CSR_STIMECMPH :: u32 where "CSR_STIMECMPH \<equiv> 0x15d"
abbreviation (input) CSR_SATP :: u32 where "CSR_SATP \<equiv> 0x180"
abbreviation (input) CSR_MSTATUS :: u32 where "CSR_MSTATUS \<equiv> 0x300"
abbreviation (input) CSR_MISA :: u32 where "CSR_MISA \<equiv> 0x301"
abbreviation (input) CSR_MEDELEG :: u32 where "CSR_MEDELEG \<equiv> 0x302"
abbreviation (input) CSR_MIDELEG :: u32 where "CSR_MIDELEG \<equiv> 0x303"
abbreviation (input) CSR_MIE :: u32 where "CSR_MIE \<equiv> 0x304"
abbreviation (input) CSR_MTVEC :: u32 where "CSR_MTVEC \<equiv> 0x305"
abbreviation (input) CSR_MEPC :: u32 where "CSR_MEPC \<equiv> 0x341"
abbreviation (input) CSR_MCAUSE :: u32 where "CSR_MCAUSE \<equiv> 0x342"
abbreviation (input) CSR_MTVAL :: u32 where "CSR_MTVAL \<equiv> 0x343"
abbreviation (input) CSR_MIP :: u32 where "CSR_MIP \<equiv> 0x344"
abbreviation (input) CSR_CYCLE :: u32 where "CSR_CYCLE \<equiv> 0xc00"
abbreviation (input) CSR_TIME :: u32 where "CSR_TIME \<equiv> 0xc01"
abbreviation (input) CSR_CYCLEH :: u32 where "CSR_CYCLEH \<equiv> 0xc80"
abbreviation (input) CSR_TIMEH :: u32 where "CSR_TIMEH \<equiv> 0xc81"

section \<open>The register file\<close>

text \<open>First and last address of a run of cases, the privilege they check, and whether they write.\<close>

definition csr_table :: "(u32 \<times> u32 \<times> priv \<times> bool) list" where
  "csr_table =
    [(0x100, 0x100, 1, True), (0x104, 0x106, 1, True), (0x10a, 0x10a, 1, True),
     (0x140, 0x144, 1, True), (0x14d, 0x14d, 1, True), (0x15d, 0x15d, 1, True),
     (0x180, 0x180, 1, True), (0x300, 0x306, 3, True), (0x30a, 0x30a, 3, True),
     (0x310, 0x310, 3, True), (0x31a, 0x31a, 3, True), (0x320, 0x344, 3, True),
     (0x34a, 0x34b, 3, True), (0x3a0, 0x3ef, 3, True), (0x721, 0x73f, 3, True),
     (0x7a0, 0x7a0, 3, True), (0x7a4, 0x7a4, 3, True), (0xb03, 0xb1f, 3, True),
     (0xb83, 0xb9f, 3, True), (0xc00, 0xc02, 0, False), (0xc80, 0xc81, 0, False),
     (0xda0, 0xda0, 1, False), (0xf11, 0xf14, 3, False), (0xfb0, 0xfb0, 3, False)]"

definition csr_find :: "u32 \<Rightarrow> (priv \<times> bool) option" where
  "csr_find addr = map_option (\<lambda>(_, _, p, w). (p, w))
     (List.find (\<lambda>(first, last, _, _). first \<le> addr \<and> addr \<le> last) csr_table)"

definition rv32g_csr_reset :: csr_regs where
  "rv32g_csr_reset = (\<lambda>_. 0)(CSR_MISA := 0x40141101)"

definition rv32g_csr_read :: "csr_regs \<Rightarrow> priv \<Rightarrow> u32 \<Rightarrow> u32 option" where
  "rv32g_csr_read csr priv addr = (case csr_find addr of
     None \<Rightarrow> None
   | Some (p, _) \<Rightarrow> if priv < p then None else Some (csr addr))"

definition rv32g_csr_write :: "csr_regs \<Rightarrow> priv \<Rightarrow> u32 \<Rightarrow> u32 \<Rightarrow> csr_regs option" where
  "rv32g_csr_write csr priv addr data = (case csr_find addr of
     None \<Rightarrow> None
   | Some (p, w) \<Rightarrow> if \<not> w then None else if priv < p then None else Some (csr(addr := data)))"

section \<open>csr.c\<close>

record csr =
  regs :: csr_regs
  core_s_irq_slv :: "bool itf"
  core_timer_in :: u64
  core_m_irq_mtimer_in :: bool
  core_m_irq_msw_in :: bool
  ext_irq_in :: bool
  core_swi_pend_out :: bool
  csr_cycle :: u64
  mmu_state_o :: csr_mmu_state
  lsu_state_o :: csr_lsu_state
  trap_state_o :: csr_trap_state

abbreviation (input) CSR_S_IRQ_MASK :: u32 where
  "CSR_S_IRQ_MASK \<equiv> 0x2222"

definition csr_publish_state :: "csr \<Rightarrow> csr" where
  "csr_publish_state csr = (let r = regs csr in csr\<lparr>
     mmu_state_o := \<lparr>cm_satp = r CSR_SATP, cm_mstatus = r CSR_MSTATUS\<rparr>,
     lsu_state_o := \<lparr>cl_satp = r CSR_SATP\<rparr>,
     trap_state_o := \<lparr>ct_mstatus = r CSR_MSTATUS, ct_mip = r CSR_MIP, ct_mie = r CSR_MIE,
       ct_mtvec = r CSR_MTVEC, ct_mepc = r CSR_MEPC, ct_medeleg = r CSR_MEDELEG,
       ct_mideleg = r CSR_MIDELEG, ct_sstatus = r CSR_SSTATUS, ct_sip = r CSR_SIP,
       ct_sie = r CSR_SIE, ct_stvec = r CSR_STVEC, ct_sepc = r CSR_SEPC\<rparr>\<rparr>)"

text \<open>
  The fields both copies assign, in the order of the assignments: \<^verbatim>\<open>sie\<close>, \<^verbatim>\<open>spie\<close>, \<^verbatim>\<open>ube\<close>, \<^verbatim>\<open>spp\<close>,
  \<^verbatim>\<open>vs\<close>, \<^verbatim>\<open>fs\<close>, \<^verbatim>\<open>xs\<close>, \<^verbatim>\<open>sum\<close>, \<^verbatim>\<open>mxr\<close>, \<^verbatim>\<open>spelp\<close>, \<^verbatim>\<open>sd\<close>, by first bit and width. Both registers have
  them at the same place.
\<close>

definition status_fields :: "(nat \<times> nat) list" where
  "status_fields = [(1, 1), (5, 1), (6, 1), (8, 1), (9, 2), (13, 2), (15, 2), (18, 1), (19, 1),
     (23, 1), (31, 1)]"

definition copy_status_fields :: "u32 \<Rightarrow> u32 \<Rightarrow> u32" where
  "copy_status_fields src dst = fold (\<lambda>(lo, w) d. bf_set lo w (bf lo w src) d) status_fields dst"

definition sync_sstatus_from_mstatus :: "csr_regs \<Rightarrow> csr_regs" where
  "sync_sstatus_from_mstatus r =
     r(CSR_SSTATUS := copy_status_fields (r CSR_MSTATUS) (r CSR_SSTATUS))"

definition sync_mstatus_from_sstatus :: "csr_regs \<Rightarrow> csr_regs" where
  "sync_mstatus_from_sstatus r =
     r(CSR_MSTATUS := copy_status_fields (r CSR_SSTATUS) (r CSR_MSTATUS))"

definition sync_s_irq_from_m_irq :: "csr_regs \<Rightarrow> csr_regs" where
  "sync_s_irq_from_m_irq r = r(
     CSR_SIE := r CSR_MIE AND CSR_S_IRQ_MASK,
     CSR_SIP := (r CSR_SIP AND NOT CSR_S_IRQ_MASK) OR (r CSR_MIP AND CSR_S_IRQ_MASK))"

definition sync_m_irq_from_s_irq :: "csr_regs \<Rightarrow> csr_regs" where
  "sync_m_irq_from_s_irq r = r(
     CSR_MIE := (r CSR_MIE AND NOT CSR_S_IRQ_MASK) OR (r CSR_SIE AND CSR_S_IRQ_MASK),
     CSR_MIP := (r CSR_MIP AND NOT CSR_S_IRQ_MASK) OR (r CSR_SIP AND CSR_S_IRQ_MASK))"

definition csr_publish_core_swi_pend :: "csr \<Rightarrow> csr" where
  "csr_publish_core_swi_pend csr = csr\<lparr>core_swi_pend_out := (bf 3 1 (regs csr CSR_MIP) \<noteq> 0)\<rparr>"

definition csr_update_m_irq :: "csr_regs \<Rightarrow> bool \<Rightarrow> bool \<Rightarrow> csr_regs" where
  "csr_update_m_irq r mtimer msw = (
     let r = r(CSR_MIP := bf_set 7 1 (if mtimer then 1 else 0) (r CSR_MIP));
         r = r(CSR_MIP := bf_set 3 1 (if msw then 1 else 0) (r CSR_MIP))
     in sync_s_irq_from_m_irq r)"

definition csr_update_ext_irq :: "csr_regs \<Rightarrow> bool \<Rightarrow> csr_regs" where
  "csr_update_ext_irq r irq = (
     let r = r(CSR_MIP := bf_set 11 1 (if irq then 1 else 0) (r CSR_MIP));
         r = r(CSR_MIP := bf_set 9 1 (if irq then 1 else 0) (r CSR_MIP))
     in sync_s_irq_from_m_irq r)"

definition csr_sync_supervisor_aliases :: "csr_regs \<Rightarrow> u32 \<Rightarrow> csr_regs" where
  "csr_sync_supervisor_aliases r written_addr =
     (if written_addr = 0x100 then sync_mstatus_from_sstatus r
      else if written_addr = 0x104 \<or> written_addr = 0x144 then sync_m_irq_from_s_irq r
      else if written_addr = 0x300 then sync_sstatus_from_mstatus r
      else if written_addr = 0x304 \<or> written_addr = 0x344 then sync_s_irq_from_m_irq r
      else r)"

text \<open>
  The callbacks of the read and write request signals run inside the request: their result
  is the response the requester looks at when the call returns. \<open>None\<close> is \<^verbatim>\<open>ok = false\<close>.
\<close>

definition csr_read_cb :: "csr \<Rightarrow> u32 \<Rightarrow> priv \<Rightarrow> u32 option" where
  "csr_read_cb csr addr priv = rv32g_csr_read (regs csr) priv addr"

definition csr_write_cb :: "csr \<Rightarrow> u32 \<Rightarrow> priv \<Rightarrow> u32 \<Rightarrow> bool \<times> csr" where
  "csr_write_cb csr addr priv val = (
     let (ok, r) = (case rv32g_csr_write (regs csr) priv addr val of
           None \<Rightarrow> (False, regs csr)
         | Some r \<Rightarrow> (True, csr_sync_supervisor_aliases r addr));
         csr = csr\<lparr>regs := r\<rparr>
     in (ok, csr_publish_state (csr_publish_core_swi_pend csr)))"

definition csr_trap_write_cb :: "csr \<Rightarrow> u32 \<Rightarrow> u32 \<Rightarrow> bool \<times> csr" where
  "csr_trap_write_cb csr addr val = (
     let (ok, r) = (case rv32g_csr_write (regs csr) RV32G_PRIV_MACHINE addr val of
           None \<Rightarrow> (False, regs csr)
         | Some r \<Rightarrow> (True, csr_sync_supervisor_aliases r addr))
     in (ok, csr_publish_state (csr\<lparr>regs := r\<rparr>)))"

definition csr_reset :: "csr \<Rightarrow> csr" where
  "csr_reset csr = (
     let r = rv32g_csr_reset(CSR_STIMECMP := 0xffffffff, CSR_STIMECMPH := 0xffffffff);
         r = sync_s_irq_from_m_irq (sync_sstatus_from_mstatus r)
     in csr_publish_state (csr_publish_core_swi_pend (csr\<lparr>regs := r\<rparr>)))"

definition csr_update_proc :: "csr \<Rightarrow> csr" where
  "csr_update_proc csr = (
     let r = (regs csr)(CSR_TIME := ucast (core_timer_in csr),
           CSR_TIMEH := ucast (drop_bit 32 (core_timer_in csr)));
         r = csr_update_m_irq r (core_m_irq_mtimer_in csr) (core_m_irq_msw_in csr);
         r = csr_update_ext_irq r (ext_irq_in csr);
         time = push_bit 32 (ucast (r CSR_TIMEH)) OR ucast (r CSR_TIME) :: u64;
         stimecmp = push_bit 32 (ucast (r CSR_STIMECMPH)) OR ucast (r CSR_STIMECMP);
         r = r(CSR_MIP := bf_set 5 1 (if time \<ge> stimecmp then 1 else 0) (r CSR_MIP));
         r = sync_s_irq_from_m_irq r;
         r = r(CSR_CYCLE := ucast (csr_cycle csr), CSR_CYCLEH := ucast (drop_bit 32 (csr_cycle csr)))
     in csr\<lparr>regs := r\<rparr>)"

definition csr_core_s_irq_proc :: "csr \<Rightarrow> csr option" where
  "csr_core_s_irq_proc csr =
     (if itf_fifo_empty (core_s_irq_slv csr) then Some csr
      else do {
        (ssw, t) \<leftarrow> itf_read (core_s_irq_slv csr);
        let r = regs csr;
        Some (csr\<lparr>core_s_irq_slv := t,
          regs := (if ssw then sync_m_irq_from_s_irq (r(CSR_MIP := bf_set 1 1 1 (r CSR_MIP),
                     CSR_SIP := bf_set 1 1 1 (r CSR_SIP))) else r)\<rparr>)
      })"

definition csr_clock :: "csr \<Rightarrow> csr option" where
  "csr_clock csr = do {
     csr \<leftarrow> csr_core_s_irq_proc (csr_update_proc csr);
     Some (csr_publish_state csr)
   }"

text \<open>
  The module as the core wires it, with its interrupt queue of depth one and the signals it
  publishes still zero; the reset gives the registers their values.
\<close>

definition hart_csr :: csr where
  "hart_csr = \<lparr>regs = (\<lambda>_. 0), core_s_irq_slv = fifo_itf_construct 1, core_timer_in = 0,
     core_m_irq_mtimer_in = False, core_m_irq_msw_in = False, ext_irq_in = False,
     core_swi_pend_out = False, csr_cycle = 0,
     mmu_state_o = \<lparr>cm_satp = 0, cm_mstatus = 0\<rparr>, lsu_state_o = \<lparr>cl_satp = 0\<rparr>,
     trap_state_o = \<lparr>ct_mstatus = 0, ct_mip = 0, ct_mie = 0, ct_mtvec = 0, ct_mepc = 0, ct_medeleg = 0,
       ct_mideleg = 0, ct_sstatus = 0, ct_sip = 0, ct_sie = 0, ct_stvec = 0, ct_sepc = 0\<rparr>\<rparr>"

section \<open>Privilege and access rules\<close>

text \<open>
  The instruction set encodes the lowest privilege that may access a CSR in bits 9 and 8 of
  its address, and read-only registers by ones in bits 11 and 10. The table follows both.
\<close>

lemma csr_table_rules:
  "list_all (\<lambda>(first, last, p, w). list_all (\<lambda>a. p = bf 8 2 (word_of_int a)
       \<and> w = (bf 10 2 (word_of_int a) \<noteq> 3)) [uint first..uint last]) csr_table"
  by code_simp

lemma csr_find_SomeD:
  assumes "csr_find addr = Some (p, w)"
  shows "p = bf 8 2 addr" "w \<longleftrightarrow> bf 10 2 addr \<noteq> 3"
proof -
  from assms obtain first last where *: "(first, last, p, w) \<in> set csr_table" "first \<le> addr" "addr \<le> last"
    by (auto simp: csr_find_def dest!: find_SomeD)
  then have "uint addr \<in> set [uint first..uint last]" by (auto simp: word_le_def)
  with * csr_table_rules have "p = bf 8 2 (word_of_int (uint addr))
      \<and> w = (bf 10 2 (word_of_int (uint addr)) \<noteq> 3)"
    unfolding list_all_iff by fastforce
  then show "p = bf 8 2 addr" "w \<longleftrightarrow> bf 10 2 addr \<noteq> 3" by simp_all
qed

lemma csr_read_SomeD:
  "rv32g_csr_read r priv addr = Some v \<Longrightarrow> bf 8 2 addr \<le> priv \<and> v = r addr"
  by (auto simp: rv32g_csr_read_def not_less dest: csr_find_SomeD split: option.splits if_splits)

lemma csr_write_SomeD:
  "rv32g_csr_write r priv addr v = Some r' \<Longrightarrow>
     bf 8 2 addr \<le> priv \<and> bf 10 2 addr \<noteq> 3 \<and> r' = r(addr := v) \<and> csr_find addr = Some (bf 8 2 addr, True)"
  by (auto simp: rv32g_csr_write_def not_less dest: csr_find_SomeD split: option.splits if_splits)

section \<open>The supervisor views\<close>

definition status_alias :: "csr_regs \<Rightarrow> bool" where
  "status_alias r \<longleftrightarrow> list_all (\<lambda>(lo, w). bf lo w (r CSR_SSTATUS) = bf lo w (r CSR_MSTATUS)) status_fields"

definition irq_alias :: "csr_regs \<Rightarrow> bool" where
  "irq_alias r \<longleftrightarrow> r CSR_SIE AND CSR_S_IRQ_MASK = r CSR_MIE AND CSR_S_IRQ_MASK
     \<and> r CSR_SIP AND CSR_S_IRQ_MASK = r CSR_MIP AND CSR_S_IRQ_MASK"

definition alias_inv :: "csr_regs \<Rightarrow> bool" where
  "alias_inv r \<longleftrightarrow> status_alias r \<and> irq_alias r"

lemma bit_copy_fields:
  "n < 32 \<Longrightarrow> bit (fold (\<lambda>(lo, w) d. bf_set lo w (bf lo w src) d) fs dst) n
     = bit (if \<exists>(lo, w) \<in> set fs. lo \<le> n \<and> n < lo + w then src else dst) n"
  by (induction fs arbitrary: dst) (auto simp: bit_bf_set bit_bf)

lemma bf_copy_fields:
  assumes "(lo, w) \<in> set status_fields"
  shows "bf lo w (copy_status_fields src dst) = bf lo w src"
proof (rule bit_eqI)
  fix n
  have "lo + w \<le> 32" using assms by (auto simp: status_fields_def)
  then show "bit (bf lo w (copy_status_fields src dst)) n = bit (bf lo w src) n"
    using assms bit_copy_fields [of "lo + n" src status_fields dst]
    by (cases "n < w") (auto simp: bit_bf copy_status_fields_def split: if_splits)
qed

lemma status_alias_copy:
  "status_alias (sync_sstatus_from_mstatus r)" "status_alias (sync_mstatus_from_sstatus r)"
  by (auto simp: status_alias_def sync_sstatus_from_mstatus_def sync_mstatus_from_sstatus_def
      list_all_iff bf_copy_fields)

lemma mask_merge: "((x AND NOT m) OR (y AND m)) AND m = y AND (m :: u32)"
  by (rule bit_eqI) (auto simp: bit_simps)

lemma irq_alias_copy: "irq_alias (sync_s_irq_from_m_irq r)" "irq_alias (sync_m_irq_from_s_irq r)"
  by (simp_all add: irq_alias_def sync_s_irq_from_m_irq_def sync_m_irq_from_s_irq_def and.assoc
      mask_merge [of _ CSR_S_IRQ_MASK, simplified])

lemma alias_frames:
  "irq_alias (sync_sstatus_from_mstatus r) = irq_alias r"
  "irq_alias (sync_mstatus_from_sstatus r) = irq_alias r"
  "status_alias (sync_s_irq_from_m_irq r) = status_alias r"
  "status_alias (sync_m_irq_from_s_irq r) = status_alias r"
  by (simp_all add: irq_alias_def status_alias_def sync_sstatus_from_mstatus_def
      sync_mstatus_from_sstatus_def sync_s_irq_from_m_irq_def sync_m_irq_from_s_irq_def)

lemma alias_upd_other:
  "addr \<notin> {CSR_SSTATUS, CSR_MSTATUS} \<Longrightarrow> status_alias (r(addr := v)) = status_alias r"
  "addr \<notin> {CSR_SIE, CSR_SIP, CSR_MIE, CSR_MIP} \<Longrightarrow> irq_alias (r(addr := v)) = irq_alias r"
  by (auto simp: status_alias_def irq_alias_def)

lemma alias_sync_write: "alias_inv r \<Longrightarrow> alias_inv (csr_sync_supervisor_aliases (r(addr := v)) addr)"
  by (auto simp: alias_inv_def csr_sync_supervisor_aliases_def alias_frames alias_upd_other
      status_alias_copy irq_alias_copy)

lemma alias_update_proc: "alias_inv (regs csr) \<Longrightarrow> alias_inv (regs (csr_update_proc csr))"
  by (simp add: csr_update_proc_def csr_update_m_irq_def csr_update_ext_irq_def Let_def alias_inv_def
      alias_frames alias_upd_other irq_alias_copy)

lemma alias_core_s_irq:
  "csr_core_s_irq_proc csr = Some csr' \<Longrightarrow> alias_inv (regs csr) \<Longrightarrow> alias_inv (regs csr')"
  by (auto simp: csr_core_s_irq_proc_def alias_inv_def alias_frames alias_upd_other irq_alias_copy Let_def
      split: if_splits bind_splits)

section \<open>The published state\<close>

definition csr_published :: "csr \<Rightarrow> bool" where
  "csr_published csr \<longleftrightarrow> csr_publish_state csr = csr"

lemma publish_idem [simp]: "csr_published (csr_publish_state csr)"
  by (simp add: csr_published_def csr_publish_state_def Let_def)

lemma publish_regs [simp]: "regs (csr_publish_state csr) = regs csr"
  "regs (csr_publish_core_swi_pend csr) = regs csr"
  by (simp_all add: csr_publish_state_def csr_publish_core_swi_pend_def Let_def)

lemma publish_fields:
  "mmu_state_o (csr_publish_state csr) = \<lparr>cm_satp = regs csr CSR_SATP, cm_mstatus = regs csr CSR_MSTATUS\<rparr>"
  "lsu_state_o (csr_publish_state csr) = \<lparr>cl_satp = regs csr CSR_SATP\<rparr>"
  "ct_mstatus (trap_state_o (csr_publish_state csr)) = regs csr CSR_MSTATUS"
  "ct_mip (trap_state_o (csr_publish_state csr)) = regs csr CSR_MIP"
  "ct_mie (trap_state_o (csr_publish_state csr)) = regs csr CSR_MIE"
  "ct_mtvec (trap_state_o (csr_publish_state csr)) = regs csr CSR_MTVEC"
  "ct_mepc (trap_state_o (csr_publish_state csr)) = regs csr CSR_MEPC"
  "ct_medeleg (trap_state_o (csr_publish_state csr)) = regs csr CSR_MEDELEG"
  "ct_mideleg (trap_state_o (csr_publish_state csr)) = regs csr CSR_MIDELEG"
  "ct_stvec (trap_state_o (csr_publish_state csr)) = regs csr CSR_STVEC"
  "ct_sepc (trap_state_o (csr_publish_state csr)) = regs csr CSR_SEPC"
  by (simp_all add: csr_publish_state_def Let_def)

lemma published_fields:
  assumes "csr_published csr"
  shows "mmu_state_o csr = \<lparr>cm_satp = regs csr CSR_SATP, cm_mstatus = regs csr CSR_MSTATUS\<rparr>"
    and "lsu_state_o csr = \<lparr>cl_satp = regs csr CSR_SATP\<rparr>"
    and "ct_mstatus (trap_state_o csr) = regs csr CSR_MSTATUS"
    and "ct_mip (trap_state_o csr) = regs csr CSR_MIP"
    and "ct_mie (trap_state_o csr) = regs csr CSR_MIE"
    and "ct_mtvec (trap_state_o csr) = regs csr CSR_MTVEC"
    and "ct_mepc (trap_state_o csr) = regs csr CSR_MEPC"
    and "ct_medeleg (trap_state_o csr) = regs csr CSR_MEDELEG"
    and "ct_mideleg (trap_state_o csr) = regs csr CSR_MIDELEG"
    and "ct_stvec (trap_state_o csr) = regs csr CSR_STVEC"
    and "ct_sepc (trap_state_o csr) = regs csr CSR_SEPC"
  using assms publish_fields [of csr] by (simp_all add: csr_published_def)

text \<open>
  A run of the module: accesses of the execution unit and the trap unit and clock ticks, in
  any order, with any values on the input signals and in the supervisor interrupt queue.
\<close>

inductive csr_reachable :: "csr \<Rightarrow> bool" where
  reset: "csr_reachable (csr_reset csr)"
| exu_write: "csr_reachable csr \<Longrightarrow> csr_reachable (snd (csr_write_cb csr addr priv v))"
| trap_write: "csr_reachable csr \<Longrightarrow> csr_reachable (snd (csr_trap_write_cb csr addr v))"
| clock: "csr_reachable csr \<Longrightarrow> csr_clock csr = Some csr' \<Longrightarrow> csr_reachable csr'"
| inputs: "csr_reachable csr \<Longrightarrow> csr_reachable (csr\<lparr>core_s_irq_slv := q, core_timer_in := t,
    core_m_irq_mtimer_in := mt, core_m_irq_msw_in := ms, ext_irq_in := e, csr_cycle := c\<rparr>)"

lemma published_inputs:
  "csr_published csr \<Longrightarrow> csr_published (csr\<lparr>core_s_irq_slv := q, core_timer_in := t,
    core_m_irq_mtimer_in := mt, core_m_irq_msw_in := ms, ext_irq_in := e, csr_cycle := c\<rparr>)"
  by (cases csr) (simp add: csr_published_def csr_publish_state_def Let_def)

lemma write_cb_inv:
  "csr_published (snd (csr_write_cb csr addr priv v))"
  "alias_inv (regs csr) \<Longrightarrow> alias_inv (regs (snd (csr_write_cb csr addr priv v)))"
  "csr_published (snd (csr_trap_write_cb csr addr v))"
  "alias_inv (regs csr) \<Longrightarrow> alias_inv (regs (snd (csr_trap_write_cb csr addr v)))"
  by (auto simp: csr_write_cb_def csr_trap_write_cb_def Let_def alias_sync_write
      dest!: csr_write_SomeD split: option.splits)

lemma clock_inv:
  assumes "csr_clock csr = Some csr'" "alias_inv (regs csr)"
  shows "alias_inv (regs csr') \<and> csr_published csr'"
  using assms alias_core_s_irq alias_update_proc
  by (auto simp: csr_clock_def split: bind_splits)

lemma reset_inv: "alias_inv (regs (csr_reset csr)) \<and> csr_published (csr_reset csr)"
  by (simp add: csr_reset_def Let_def alias_inv_def alias_frames status_alias_copy irq_alias_copy)

section \<open>Interrupt inputs\<close>

definition csr_stimecmp :: "csr_regs \<Rightarrow> u64" where
  "csr_stimecmp r = push_bit 32 (ucast (r CSR_STIMECMPH)) OR ucast (r CSR_STIMECMP)"

lemma u64_halves: "push_bit 32 (ucast (ucast (drop_bit 32 t) :: u32)) OR ucast (ucast t :: u32) = (t :: u64)"
  by (rule bit_eqI) (auto simp: bit_simps)

lemma mip_update_fields:
  "regs (csr_update_proc csr) CSR_MIP =
     bf_set 5 1 (if core_timer_in csr \<ge> csr_stimecmp (regs csr) then 1 else 0)
      (bf_set 9 1 (if ext_irq_in csr then 1 else 0) (bf_set 11 1 (if ext_irq_in csr then 1 else 0)
       (bf_set 3 1 (if core_m_irq_msw_in csr then 1 else 0)
        (bf_set 7 1 (if core_m_irq_mtimer_in csr then 1 else 0) (regs csr CSR_MIP)))))"
  by (simp add: csr_update_proc_def csr_update_m_irq_def csr_update_ext_irq_def Let_def
      sync_s_irq_from_m_irq_def u64_halves csr_stimecmp_def)

lemma bit_bf_set_1: "lo < 32 \<Longrightarrow> bit (bf_set lo 1 (if P then 1 else 0) x) n = (if n = lo then P else bit x n)"
  using bit_imp_le_length [of x n] by (auto simp: bit_bf_set)

lemma mip_after_update:
  fixes csr defines "r \<equiv> regs csr" and "r' \<equiv> regs (csr_update_proc csr)"
  shows "bit (r' CSR_MIP) n = (if n = 7 then core_m_irq_mtimer_in csr else if n = 3 then core_m_irq_msw_in csr
      else if n = 11 \<or> n = 9 then ext_irq_in csr
      else if n = 5 then core_timer_in csr \<ge> csr_stimecmp r else bit (r CSR_MIP) n)"
  unfolding r_def r'_def mip_update_fields by (simp add: bit_bf_set_1 del: One_nat_def)

lemma alias_bit:
  assumes "x AND m = y AND (m :: u32)" "bit m n"
  shows "bit x n = bit y n"
proof -
  have "bit (x AND m) n = bit (y AND m) n" using assms(1) by simp
  with assms(2) show ?thesis by (simp add: bit_simps)
qed

lemma bit_merge:
  "bit ((x AND NOT m) OR (y AND m)) n = (if bit (m :: u32) n then bit y n else bit x n)"
  using bit_imp_le_length [of x n] by (auto simp: bit_simps)

lemma mip_after_s_irq:
  assumes "irq_alias r"
  shows "bit (sync_m_irq_from_s_irq (r(CSR_MIP := bf_set 1 1 1 (r CSR_MIP),
      CSR_SIP := bf_set 1 1 1 (r CSR_SIP))) CSR_MIP) n = (n = 1 \<or> bit (r CSR_MIP) n)"
proof -
  have "bit CSR_S_IRQ_MASK 1" by code_simp
  moreover have "bit (r CSR_SIP) n = bit (r CSR_MIP) n" if "bit CSR_S_IRQ_MASK n"
    using assms alias_bit [of "r CSR_SIP" CSR_S_IRQ_MASK "r CSR_MIP" n] that by (simp only: irq_alias_def)
  moreover have "n < 32" if "bit (x :: u32) n" for x using that bit_imp_le_length by fastforce
  ultimately show ?thesis
    by (cases "n = 1") (auto simp: sync_m_irq_from_s_irq_def bit_bf_set
        bit_merge [of _ CSR_S_IRQ_MASK, simplified])
qed

section \<open>Properties\<close>

text \<open>
  Access rules of the register file: a read or write succeeds only at the privilege
  encoded in bits 9 and 8 of the address, no write succeeds on a read-only address (bits 11
  and 10 set), and a write that succeeds is read back, with every other register unchanged.
\<close>

theorem csr_access_rules:
  assumes "rv32g_csr_write r priv addr v = Some r'"
  shows "bf 8 2 addr \<le> priv \<and> bf 10 2 addr \<noteq> 3 \<and> rv32g_csr_read r' priv addr = Some v
    \<and> (\<forall>a. a \<noteq> addr \<longrightarrow> r' a = r a)
    \<and> (\<forall>p. rv32g_csr_read r p addr \<noteq> None \<longleftrightarrow> bf 8 2 addr \<le> p)"
  using csr_write_SomeD [OF assms] by (auto simp: rv32g_csr_read_def)

theorem csr_access_rules_witness:
  "rv32g_csr_write rv32g_csr_reset RV32G_PRIV_SUPERVISOR CSR_SATP 0x80000123
     = Some (rv32g_csr_reset(CSR_SATP := 0x80000123))
   \<and> rv32g_csr_read (rv32g_csr_reset(CSR_SATP := 0x80000123)) RV32G_PRIV_SUPERVISOR CSR_SATP = Some 0x80000123
   \<and> rv32g_csr_read rv32g_csr_reset RV32G_PRIV_USER CSR_SATP = None"
proof -
  have find: "csr_find CSR_SATP = Some (1, True)" by code_simp
  then have w: "rv32g_csr_write rv32g_csr_reset RV32G_PRIV_SUPERVISOR CSR_SATP 0x80000123
     = Some (rv32g_csr_reset(CSR_SATP := 0x80000123))" by (simp add: rv32g_csr_write_def)
  have "bf 8 2 CSR_SATP = 1" by code_simp
  with w csr_access_rules [OF w] show ?thesis by force
qed

text \<open>
  C22. In every reachable state of the CSR module, whatever accesses, interrupts and clock
  ticks came before, the supervisor registers agree with the machine registers on every field
  they share, and the state published to the MMU, the load/store unit and the trap unit is
  the current one. The signal of the pending core software interrupt is published on other occasions only and is not covered.
\<close>

theorem csr_reachable_coherent:
  assumes "csr_reachable csr"
  shows "alias_inv (regs csr) \<and> csr_published csr"
  using assms
  by (induction rule: csr_reachable.induct)
    (auto simp: reset_inv write_cb_inv published_inputs dest: clock_inv)

theorem csr_reachable_coherent_witness:
  "let csr = snd (csr_write_cb (csr_reset hart_csr) CSR_SSTATUS RV32G_PRIV_SUPERVISOR 0x2)
   in bf 1 1 (regs csr CSR_MSTATUS) = bf 1 1 (regs csr CSR_SSTATUS)
     \<and> ct_mstatus (trap_state_o csr) = regs csr CSR_MSTATUS"
  using csr_reachable_coherent [OF csr_reachable.exu_write [OF csr_reachable.reset]] published_fields(3)
  by (auto simp: Let_def alias_inv_def status_alias_def status_fields_def)

text \<open>
  Interrupt pending bits after a clock tick: the machine timer, software and external
  bits and the supervisor external bit show their input signals, the supervisor timer bit
  shows whether the timer has reached \<^verbatim>\<open>stimecmp\<close>, a supervisor software interrupt that was
  queued sets its bit, and every other bit of \<^verbatim>\<open>mip\<close> keeps its value.
\<close>

theorem csr_clock_mip:
  assumes "csr_clock csr = Some csr'" "itf_inv (core_s_irq_slv csr)"
  shows "bit (regs csr' CSR_MIP) n =
    (if n = 7 then core_m_irq_mtimer_in csr else if n = 3 then core_m_irq_msw_in csr
     else if n = 11 \<or> n = 9 then ext_irq_in csr
     else if n = 5 then core_timer_in csr \<ge> csr_stimecmp (regs csr)
     else bit (regs csr CSR_MIP) n
       \<or> n = 1 \<and> itf_list (core_s_irq_slv csr) \<noteq> [] \<and> hd (itf_list (core_s_irq_slv csr)))"
proof -
  let ?u = "csr_update_proc csr"
  have q: "core_s_irq_slv ?u = core_s_irq_slv csr" by (simp add: csr_update_proc_def Let_def)
  have ali: "irq_alias (regs ?u)"
    by (simp add: csr_update_proc_def Let_def alias_upd_other irq_alias_copy)
  show ?thesis
  proof (cases "itf_fifo_empty (core_s_irq_slv csr)")
    case True
    with assms q itf.is_empty_iff [OF assms(2)] show ?thesis
      by (auto simp: csr_clock_def csr_core_s_irq_proc_def mip_after_update)
  next
    case False
    obtain ssw t where read: "itf_read (core_s_irq_slv csr) = Some (ssw, t)"
      and "itf_list (core_s_irq_slv csr) = ssw # itf_list t"
      using itf.pop_not_empty [OF assms(2) False] by metis
    with assms(1) q False mip_after_s_irq [OF ali] show ?thesis
      by (cases ssw) (auto simp: csr_clock_def csr_core_s_irq_proc_def mip_after_update Let_def
          simp del: One_nat_def)
  qed
qed

theorem csr_clock_mip_witness:
  "\<exists>csr'. csr_clock ((csr_reset hart_csr)\<lparr>core_m_irq_mtimer_in := True, core_timer_in := 5\<rparr>) = Some csr'
     \<and> bit (regs csr' CSR_MIP) 7 \<and> \<not> bit (regs csr' CSR_MIP) 5"
proof -
  let ?csr = "(csr_reset hart_csr)\<lparr>core_m_irq_mtimer_in := True, core_timer_in := 5\<rparr>"
  have q: "core_s_irq_slv ?csr = fifo_itf_construct 1"
    by (simp add: csr_reset_def hart_csr_def Let_def csr_publish_state_def csr_publish_core_swi_pend_def)
  have "core_s_irq_slv (csr_update_proc ?csr) = fifo_itf_construct 1"
    using q by (simp add: csr_update_proc_def Let_def)
  then obtain csr' where csr': "csr_clock ?csr = Some csr'"
    by (simp add: csr_clock_def csr_core_s_irq_proc_def)
  have "csr_stimecmp (regs ?csr) = - 1"
  proof -
    have "regs ?csr CSR_STIMECMP = - 1" "regs ?csr CSR_STIMECMPH = - 1"
      by (simp_all add: csr_reset_def Let_def sync_s_irq_from_m_irq_def sync_sstatus_from_mstatus_def)
    then show ?thesis by (simp add: csr_stimecmp_def) code_simp
  qed
  moreover have "\<not> (- 1 :: u64) \<le> 5" by code_simp
  ultimately show ?thesis
    using csr' csr_clock_mip [OF csr', of 7] csr_clock_mip [OF csr', of 5] q by simp
qed

end
