(* ===== verification/ExuSys.thy ===== *)
theory ExuSys
  imports ExuBase Csr
begin

text \<open>
  The \<^verbatim>\<open>SYSTEM\<close> instructions (\<^verbatim>\<open>exu/sys.c\<close>): environment calls, trap returns, \<^verbatim>\<open>wfi\<close>,
  \<^verbatim>\<open>sfence.vma\<close> and the CSR instructions. A CSR access is a write to a request signal whose
  callback runs the CSR module at once, so these handlers act on the pair of both modules.
\<close>

definition exu_send_expt :: "exu \<Rightarrow> hart_expt_type \<Rightarrow> u32 \<Rightarrow> u32 \<Rightarrow> u32 \<Rightarrow> exu option" where
  "exu_send_expt exu type cause pc tval = do {
     t \<leftarrow> itf_write (ex_expt_mst exu) \<lparr>he_type = type, he_cause = cause, he_priv = exu_priv exu,
            he_pc = pc, he_tval = tval\<rparr>;
     Some (exu\<lparr>ex_expt_mst := t\<rparr>)
   }"

definition ecall_ex_req_handler :: "exu \<Rightarrow> ex_req \<Rightarrow> exu option" where
  "ecall_ex_req_handler exu req =
     exu_send_expt exu HART_EXPT_TYPE_EXCEPTION HART_EXPT_CAUSE_ECALL (er_pc req) 0"

definition ebreak_ex_req_handler :: "exu \<Rightarrow> ex_req \<Rightarrow> exu option" where
  "ebreak_ex_req_handler exu req =
     exu_send_expt exu HART_EXPT_TYPE_EXCEPTION HART_EXPT_CAUSE_BREAKPOINT (er_pc req) (er_pc req)"

definition sret_ex_req_handler :: "exu \<Rightarrow> ex_req \<Rightarrow> exu option" where
  "sret_ex_req_handler exu req = exu_send_expt exu HART_EXPT_TYPE_SRET 0 (er_pc req) 0"

definition mret_ex_req_handler :: "exu \<Rightarrow> ex_req \<Rightarrow> exu option" where
  "mret_ex_req_handler exu req = exu_send_expt exu HART_EXPT_TYPE_MRET 0 (er_pc req) 0"

definition wfi_ex_req_handler :: "exu \<Rightarrow> ex_req \<Rightarrow> exu option" where
  "wfi_ex_req_handler exu req = Some (exu\<lparr>exu_wfi := True, wfi_resume_pc := er_pc req + 4\<rparr>)"

definition sfence_vma_ex_req_handler :: "exu \<Rightarrow> ex_req \<Rightarrow> exu option" where
  "sfence_vma_ex_req_handler exu req = do {
     t \<leftarrow> itf_write (tlb_flush_mst exu) 0;
     Some (exu\<lparr>tlb_flush_mst := t\<rparr>)
   }"

definition priv_group_ex_req_handler :: "exu \<Rightarrow> ex_req \<Rightarrow> exu option" where
  "priv_group_ex_req_handler exu req = (
     let i = er_inst req; imm = inst_i_imm_11_0 i; rs1 = inst_rs1 i; rd = inst_rd i;
         funct7 = inst_funct7 i; rs2 = inst_rs2 i in
     if imm = 0 \<and> rs1 = 0 \<and> rd = 0 then ecall_ex_req_handler exu req
     else if imm = 1 \<and> rs1 = 0 \<and> rd = 0 then ebreak_ex_req_handler exu req
     else if funct7 = 0b0001000 \<and> rs2 = 0b00010 \<and> rs1 = 0 \<and> rd = 0 then sret_ex_req_handler exu req
     else if funct7 = 0b0011000 \<and> rs2 = 0b00010 \<and> rs1 = 0 \<and> rd = 0 then mret_ex_req_handler exu req
     else if funct7 = 0b0001000 \<and> rs2 = 0b00101 \<and> rs1 = 0 \<and> rd = 0 then wfi_ex_req_handler exu req
     else if funct7 = 0b0001001 \<and> rd = 0 then sfence_vma_ex_req_handler exu req
     else None)"

definition csr_read :: "exu \<Rightarrow> csr \<Rightarrow> u32 \<Rightarrow> u32 option" where
  "csr_read exu csr addr = csr_read_cb csr addr (exu_priv exu)"

definition csr_write :: "exu \<Rightarrow> csr \<Rightarrow> u32 \<Rightarrow> u32 \<Rightarrow> bool \<times> csr" where
  "csr_write exu csr addr data = csr_write_cb csr addr (exu_priv exu) data"

definition notify_translation_csr_write :: "exu \<Rightarrow> u32 \<Rightarrow> exu option" where
  "notify_translation_csr_write exu addr =
     (if addr \<noteq> CSR_SATP then Some exu
      else do { t \<leftarrow> itf_write (tlb_flush_mst exu) 0; Some (exu\<lparr>tlb_flush_mst := t\<rparr>) })"

definition csr_access_trap :: "exu \<Rightarrow> ex_req \<Rightarrow> exu option" where
  "csr_access_trap exu req = exu_send_expt exu HART_EXPT_TYPE_EXCEPTION
     HART_EXPT_CAUSE_ILLEGAL_INST (er_pc req) (er_inst req)"

definition csrrw_ex_req_handler :: "exu \<Rightarrow> csr \<Rightarrow> ex_req \<Rightarrow> (exu \<times> csr) option" where
  "csrrw_ex_req_handler exu csr req = (
     let i = er_inst req; addr = inst_i_imm_11_0 i in
     case (if inst_rd i \<noteq> 0 then csr_read exu csr addr else Some 0) of
       None \<Rightarrow> do { exu \<leftarrow> csr_access_trap exu req; Some (exu, csr) }
     | Some old_val \<Rightarrow> do {
         new_val \<leftarrow> get_gpr exu (inst_rs1 i);
         let (ok, csr) = csr_write exu csr addr new_val;
         if \<not> ok then do { exu \<leftarrow> csr_access_trap exu req; Some (exu, csr) }
         else do {
           exu \<leftarrow> notify_translation_csr_write exu addr;
           exu \<leftarrow> set_gpr exu (inst_rd i) old_val;
           Some (exu, csr)
         }
       })"

definition csrrs_ex_req_handler :: "exu \<Rightarrow> csr \<Rightarrow> ex_req \<Rightarrow> (exu \<times> csr) option" where
  "csrrs_ex_req_handler exu csr req = (
     let i = er_inst req; addr = inst_i_imm_11_0 i in
     case csr_read exu csr addr of
       None \<Rightarrow> do { exu \<leftarrow> csr_access_trap exu req; Some (exu, csr) }
     | Some old_val \<Rightarrow> do {
         mask \<leftarrow> get_gpr exu (inst_rs1 i);
         if mask \<noteq> 0 then do {
           let (ok, csr) = csr_write exu csr addr (old_val OR mask);
           if \<not> ok then do { exu \<leftarrow> csr_access_trap exu req; Some (exu, csr) }
           else do {
             exu \<leftarrow> notify_translation_csr_write exu addr;
             exu \<leftarrow> set_gpr exu (inst_rd i) old_val;
             Some (exu, csr)
           }
         } else do { exu \<leftarrow> set_gpr exu (inst_rd i) old_val; Some (exu, csr) }
       })"

definition csrrc_ex_req_handler :: "exu \<Rightarrow> csr \<Rightarrow> ex_req \<Rightarrow> (exu \<times> csr) option" where
  "csrrc_ex_req_handler exu csr req = (
     let i = er_inst req; addr = inst_i_imm_11_0 i in
     case csr_read exu csr addr of
       None \<Rightarrow> do { exu \<leftarrow> csr_access_trap exu req; Some (exu, csr) }
     | Some old_val \<Rightarrow> do {
         mask \<leftarrow> get_gpr exu (inst_rs1 i);
         if mask \<noteq> 0 then do {
           let (ok, csr) = csr_write exu csr addr (old_val AND NOT mask);
           if \<not> ok then do { exu \<leftarrow> csr_access_trap exu req; Some (exu, csr) }
           else do {
             exu \<leftarrow> notify_translation_csr_write exu addr;
             exu \<leftarrow> set_gpr exu (inst_rd i) old_val;
             Some (exu, csr)
           }
         } else do { exu \<leftarrow> set_gpr exu (inst_rd i) old_val; Some (exu, csr) }
       })"

definition csrrwi_ex_req_handler :: "exu \<Rightarrow> csr \<Rightarrow> ex_req \<Rightarrow> (exu \<times> csr) option" where
  "csrrwi_ex_req_handler exu csr req = (
     let i = er_inst req; addr = inst_i_imm_11_0 i in
     case (if inst_rd i \<noteq> 0 then csr_read exu csr addr else Some 0) of
       None \<Rightarrow> do { exu \<leftarrow> csr_access_trap exu req; Some (exu, csr) }
     | Some old_val \<Rightarrow> do {
         let new_val = inst_rs1 i;
         let (ok, csr) = csr_write exu csr addr new_val;
         if \<not> ok then do { exu \<leftarrow> csr_access_trap exu req; Some (exu, csr) }
         else do {
           exu \<leftarrow> notify_translation_csr_write exu addr;
           exu \<leftarrow> set_gpr exu (inst_rd i) old_val;
           Some (exu, csr)
         }
       })"

definition csrrsi_ex_req_handler :: "exu \<Rightarrow> csr \<Rightarrow> ex_req \<Rightarrow> (exu \<times> csr) option" where
  "csrrsi_ex_req_handler exu csr req = (
     let i = er_inst req; addr = inst_i_imm_11_0 i in
     case csr_read exu csr addr of
       None \<Rightarrow> do { exu \<leftarrow> csr_access_trap exu req; Some (exu, csr) }
     | Some old_val \<Rightarrow> do {
         let mask = inst_rs1 i;
         if mask \<noteq> 0 then do {
           let (ok, csr) = csr_write exu csr addr (old_val OR mask);
           if \<not> ok then do { exu \<leftarrow> csr_access_trap exu req; Some (exu, csr) }
           else do {
             exu \<leftarrow> notify_translation_csr_write exu addr;
             exu \<leftarrow> set_gpr exu (inst_rd i) old_val;
             Some (exu, csr)
           }
         } else do { exu \<leftarrow> set_gpr exu (inst_rd i) old_val; Some (exu, csr) }
       })"

definition csrrci_ex_req_handler :: "exu \<Rightarrow> csr \<Rightarrow> ex_req \<Rightarrow> (exu \<times> csr) option" where
  "csrrci_ex_req_handler exu csr req = (
     let i = er_inst req; addr = inst_i_imm_11_0 i in
     case csr_read exu csr addr of
       None \<Rightarrow> do { exu \<leftarrow> csr_access_trap exu req; Some (exu, csr) }
     | Some old_val \<Rightarrow> do {
         let mask = inst_rs1 i;
         if mask \<noteq> 0 then do {
           let (ok, csr) = csr_write exu csr addr (old_val AND NOT mask);
           if \<not> ok then do { exu \<leftarrow> csr_access_trap exu req; Some (exu, csr) }
           else do {
             exu \<leftarrow> notify_translation_csr_write exu addr;
             exu \<leftarrow> set_gpr exu (inst_rd i) old_val;
             Some (exu, csr)
           }
         } else do { exu \<leftarrow> set_gpr exu (inst_rd i) old_val; Some (exu, csr) }
       })"

definition sys_group_ex_req_handler :: "exu \<Rightarrow> csr \<Rightarrow> ex_req \<Rightarrow> (exu \<times> csr) option" where
  "sys_group_ex_req_handler exu csr req = (let funct3 = inst_funct3 (er_inst req) in
     if funct3 = 0b000 then map_option (\<lambda>exu. (exu, csr)) (priv_group_ex_req_handler exu req)
     else if funct3 = 0b001 then csrrw_ex_req_handler exu csr req
     else if funct3 = 0b010 then csrrs_ex_req_handler exu csr req
     else if funct3 = 0b011 then csrrc_ex_req_handler exu csr req
     else if funct3 = 0b101 then csrrwi_ex_req_handler exu csr req
     else if funct3 = 0b110 then csrrsi_ex_req_handler exu csr req
     else if funct3 = 0b111 then csrrci_ex_req_handler exu csr req
     else None)"

definition sys_ex_req_proc :: "exu \<Rightarrow> csr \<Rightarrow> ex_req \<Rightarrow> (exu \<times> csr) option" where
  "sys_ex_req_proc exu csr req =
     (if inst_opcode (er_inst req) = OPCODE_SYSTEM then sys_group_ex_req_handler exu csr req else None)"

lemmas csr_handler_defs = csrrw_ex_req_handler_def csrrs_ex_req_handler_def csrrc_ex_req_handler_def
  csrrwi_ex_req_handler_def csrrsi_ex_req_handler_def csrrci_ex_req_handler_def

section \<open>Reference semantics of the CSR instructions\<close>

text \<open>
  The operand is a register or the five-bit immediate in its place; the value written is the
  operand, or the old value with the operand's bits set or cleared. A swap that needs no old
  value does not read; a set or clear of no bits does not write.
\<close>

definition csr_operand :: "exu \<Rightarrow> u32 \<Rightarrow> u32" where
  "csr_operand exu i = (if bit (inst_funct3 i) 2 then inst_rs1 i else gpr_of exu (inst_rs1 i))"

definition csr_new_value :: "u32 \<Rightarrow> u32 \<Rightarrow> u32 \<Rightarrow> u32" where
  "csr_new_value f3 old x = (if take_bit 2 f3 = 1 then x else if take_bit 2 f3 = 2 then old OR x
     else old AND NOT x)"

definition csr_writes :: "u32 \<Rightarrow> u32 \<Rightarrow> bool" where
  "csr_writes f3 x \<longleftrightarrow> take_bit 2 f3 = 1 \<or> x \<noteq> 0"

definition csr_readable :: "priv \<Rightarrow> u32 \<Rightarrow> bool" where
  "csr_readable priv addr \<longleftrightarrow> csr_find addr \<noteq> None \<and> bf 8 2 addr \<le> priv"

definition csr_legal :: "exu \<Rightarrow> u32 \<Rightarrow> bool" where
  "csr_legal exu i \<longleftrightarrow> csr_readable (exu_priv exu) (inst_i_imm_11_0 i)
     \<and> (csr_writes (inst_funct3 i) (csr_operand exu i) \<longrightarrow> bf 10 2 (inst_i_imm_11_0 i) \<noteq> 3)"

definition csr_after_write :: "csr \<Rightarrow> u32 \<Rightarrow> u32 \<Rightarrow> csr" where
  "csr_after_write csr addr v = csr_publish_state (csr_publish_core_swi_pend
     (csr\<lparr>regs := csr_sync_supervisor_aliases ((regs csr)(addr := v)) addr\<rparr>))"

definition illegal_inst_pkt :: "exu \<Rightarrow> ex_req \<Rightarrow> hart_expt" where
  "illegal_inst_pkt exu req = \<lparr>he_type = HART_EXPT_TYPE_EXCEPTION, he_cause = HART_EXPT_CAUSE_ILLEGAL_INST,
     he_priv = exu_priv exu, he_pc = er_pc req, he_tval = er_inst req\<rparr>"

lemma csr_read_sem:
  "csr_read exu csr addr = (if csr_readable (exu_priv exu) addr then Some (regs csr addr) else None)"
  by (auto simp: csr_read_def csr_read_cb_def rv32g_csr_read_def csr_readable_def not_less
      dest: csr_find_SomeD split: option.splits)

lemma csr_write_sem:
  "csr_write exu csr addr v = (if csr_readable (exu_priv exu) addr \<and> bf 10 2 addr \<noteq> 3
     then (True, csr_after_write csr addr v)
     else (False, csr_publish_state (csr_publish_core_swi_pend csr)))"
  by (auto simp: csr_write_def csr_write_cb_def rv32g_csr_write_def csr_readable_def not_less Let_def
      csr_after_write_def dest: csr_find_SomeD split: option.splits)

text \<open>The six handlers are one scheme in the operand and the kind of access.\<close>

definition csr_scheme :: "exu \<Rightarrow> csr \<Rightarrow> ex_req \<Rightarrow> (exu \<times> csr) option" where
  "csr_scheme exu csr req = (
     let i = er_inst req; addr = inst_i_imm_11_0 i; x = csr_operand exu i; f3 = inst_funct3 i;
         old = regs csr addr in
     if \<not> csr_legal exu i then do {
       exu' \<leftarrow> csr_access_trap exu req;
       Some (exu', if csr_readable (exu_priv exu) addr \<or> take_bit 2 f3 = 1 \<and> inst_rd i = 0
                   then csr_publish_state (csr_publish_core_swi_pend csr) else csr) }
     else if csr_writes f3 x then do {
       exu' \<leftarrow> notify_translation_csr_write exu addr;
       exu' \<leftarrow> set_gpr exu' (inst_rd i) (if take_bit 2 f3 = 1 \<and> inst_rd i = 0 then 0 else old);
       Some (exu', csr_after_write csr addr (csr_new_value f3 old x)) }
     else do { exu' \<leftarrow> set_gpr exu (inst_rd i) old; Some (exu', csr) })"

lemma csr_handlers_scheme:
  assumes "gpr_ok exu" "i = er_inst req" "inst_opcode i = OPCODE_SYSTEM" "inst_funct3 i \<notin> {0, 4}"
  shows "sys_ex_req_proc exu csr req = csr_scheme exu csr req"
proof -
  have bits: "\<not> bit (1 :: u32) 2" "\<not> bit (2 :: u32) 2" "\<not> bit (3 :: u32) 2" "bit (5 :: u32) 2"
    "bit (6 :: u32) 2" "bit (7 :: u32) 2" by code_simp+
  have "inst_funct3 i \<in> {1, 2, 3, 5, 6, 7}" using assms(4) funct3_values [of i] by auto
  then show ?thesis
    unfolding csr_scheme_def csr_legal_def Let_def assms(2) [symmetric]
    using assms
    by (elim insertE emptyE)
      (auto simp: sys_ex_req_proc_def sys_group_ex_req_handler_def csr_handler_defs Let_def csr_read_sem
        csr_write_sem csr_operand_def csr_new_value_def csr_writes_def bits)
qed

lemma send_expt_ok:
  assumes "itf_inv (ex_expt_mst exu)" "\<not> itf_fifo_full (ex_expt_mst exu)"
  obtains t where "exu_send_expt exu type cause pc tval = Some (exu\<lparr>ex_expt_mst := t\<rparr>)" "itf_inv t"
    "itf_list t = itf_list (ex_expt_mst exu) @ [\<lparr>he_type = type, he_cause = cause, he_priv = exu_priv exu,
       he_pc = pc, he_tval = tval\<rparr>]"
proof -
  let ?pkt = "\<lparr>he_type = type, he_cause = cause, he_priv = exu_priv exu, he_pc = pc, he_tval = tval\<rparr>"
  from itf.push_ok [OF assms, of ?pkt] show ?thesis using that by (auto simp: exu_send_expt_def)
qed

lemma notify_ok:
  assumes "itf_inv (tlb_flush_mst exu)" "\<not> itf_fifo_full (tlb_flush_mst exu)"
  obtains t where "notify_translation_csr_write exu addr = Some (exu\<lparr>tlb_flush_mst := t\<rparr>)"
    "itf_list t = itf_list (tlb_flush_mst exu) @ (if addr = CSR_SATP then [0] else [])"
proof (cases "addr = CSR_SATP")
  case True
  with itf.push_ok [OF assms, of 0] show ?thesis
    using that by (auto simp: notify_translation_csr_write_def)
next
  case False
  then show ?thesis
    using that [of "tlb_flush_mst exu"] by (simp add: notify_translation_csr_write_def)
qed

section \<open>Properties\<close>

text \<open>
  C23. CSR instructions: a legal one leaves the old value in \<open>rd\<close>, writes the value the
  instruction set defines (through to the machine or supervisor view and the published
  state), raises nothing, and asks for a TLB flush exactly when it wrote \<^verbatim>\<open>satp\<close>; an illegal
  one raises one illegal-instruction exception that carries the instruction, and changes no
  general register and no CSR.
\<close>

theorem sys_csr_correct:
  assumes "gpr_ok exu" "inst_opcode (er_inst req) = OPCODE_SYSTEM" "inst_funct3 (er_inst req) \<notin> {0, 4}"
    and "itf_inv (ex_expt_mst exu)" "\<not> itf_fifo_full (ex_expt_mst exu)"
    and "itf_inv (tlb_flush_mst exu)" "\<not> itf_fifo_full (tlb_flush_mst exu)"
  shows "let i = er_inst req; addr = inst_i_imm_11_0 i; old = regs csr addr; x = csr_operand exu i;
      wr = csr_writes (inst_funct3 i) x in
    \<exists>exu' csr'. sys_ex_req_proc exu csr req = Some (exu', csr') \<and>
      (if csr_legal exu i then
         exu_gpr exu' = exu_gpr (upd_gpr exu (inst_rd i) old)
         \<and> csr' = (if wr then csr_after_write csr addr (csr_new_value (inst_funct3 i) old x) else csr)
         \<and> itf_list (ex_expt_mst exu') = itf_list (ex_expt_mst exu)
         \<and> itf_list (tlb_flush_mst exu')
             = itf_list (tlb_flush_mst exu) @ (if wr \<and> addr = CSR_SATP then [0] else [])
       else exu_gpr exu' = exu_gpr exu \<and> regs csr' = regs csr
         \<and> itf_list (ex_expt_mst exu') = itf_list (ex_expt_mst exu) @ [illegal_inst_pkt exu req]
         \<and> itf_list (tlb_flush_mst exu') = itf_list (tlb_flush_mst exu))"
proof -
  let ?i = "er_inst req"
  obtain t where t: "csr_access_trap exu req = Some (exu\<lparr>ex_expt_mst := t\<rparr>)"
    "itf_list t = itf_list (ex_expt_mst exu) @ [illegal_inst_pkt exu req]"
    using send_expt_ok [OF assms(4,5)] unfolding csr_access_trap_def illegal_inst_pkt_def by metis
  obtain u where u: "notify_translation_csr_write exu (inst_i_imm_11_0 ?i) = Some (exu\<lparr>tlb_flush_mst := u\<rparr>)"
    "itf_list u = itf_list (tlb_flush_mst exu) @ (if inst_i_imm_11_0 ?i = CSR_SATP then [0] else [])"
    using notify_ok [OF assms(6,7)] by metis
  have gpr0: "upd_gpr exu 0 v = exu" for v by (simp add: upd_gpr_def)
  show ?thesis
    unfolding csr_handlers_scheme [OF assms(1) refl assms(2,3)] csr_scheme_def Let_def
    using assms(1) t u by (auto simp: gpr0)
qed

abbreviation csrrw_req :: ex_req where
  "csrrw_req \<equiv> \<lparr>er_inst = 0x180110F3, er_pc = 0x100, er_pred_taken = False, er_pred_pc = 0,
    er_is_boot_code = False\<rparr>"

theorem sys_csr_correct_witness:
  "\<exists>exu' csr'. sys_ex_req_proc (exu_reset (\<lambda>_. 0x80000123) hart_exu) (csr_reset hart_csr) csrrw_req
      = Some (exu', csr')
    \<and> exu_gpr exu' = exu_gpr (upd_gpr (exu_reset (\<lambda>_. 0x80000123) hart_exu) 1 0)
    \<and> csr' = csr_after_write (csr_reset hart_csr) CSR_SATP 0x80000123
    \<and> itf_list (tlb_flush_mst exu') = [0]"
proof -
  let ?exu = "exu_reset (\<lambda>_. 0x80000123) hart_exu"
  have fields: "inst_opcode 0x180110F3 = OPCODE_SYSTEM" "inst_rd 0x180110F3 = 1" "inst_rs1 0x180110F3 = 2"
    "inst_funct3 0x180110F3 = 1" "inst_i_imm_11_0 0x180110F3 = CSR_SATP" "\<not> bit (1 :: u32) 2"
    "csr_find CSR_SATP = Some (1, True)" "bf 8 2 CSR_SATP = 1" "bf 10 2 CSR_SATP = 0" by code_simp+
  have priv: "exu_priv ?exu = RV32G_PRIV_MACHINE" by (simp add: exu_reset_def exu_publish_state_def)
  have satp: "regs (csr_reset hart_csr) CSR_SATP = 0"
    by (simp add: csr_reset_def Let_def sync_s_irq_from_m_irq_def sync_sstatus_from_mstatus_def
        rv32g_csr_reset_def)
  have op: "csr_operand ?exu 0x180110F3 = 0x80000123"
    by (simp add: csr_operand_def fields exu_reset_gpr_of)
  have "csr_legal ?exu 0x180110F3"
    by (simp add: csr_legal_def csr_readable_def fields priv)
  then show ?thesis
    using sys_csr_correct [of ?exu csrrw_req "csr_reset hart_csr"]
    by (auto simp: Let_def fields op satp csr_writes_def csr_new_value_def)
qed

text \<open>
  C30. The trap returns are forwarded to the trap unit whatever the current privilege is: no
  illegal-instruction exception is raised for one executed in user mode.
\<close>

theorem mret_no_privilege_check:
  assumes "inst_opcode (er_inst req) = OPCODE_SYSTEM" "er_inst req = 0x30200073"
    and "exu_priv exu = RV32G_PRIV_USER" "itf_inv (ex_expt_mst exu)" "\<not> itf_fifo_full (ex_expt_mst exu)"
  shows "\<exists>exu'. sys_ex_req_proc exu csr req = Some (exu', csr)
    \<and> itf_list (ex_expt_mst exu') = itf_list (ex_expt_mst exu) @
        [\<lparr>he_type = HART_EXPT_TYPE_MRET, he_cause = 0, he_priv = RV32G_PRIV_USER, he_pc = er_pc req, he_tval = 0\<rparr>]"
proof -
  have fields: "inst_funct3 0x30200073 = 0" "inst_i_imm_11_0 0x30200073 = 0x302" "inst_rs1 0x30200073 = 0"
    "inst_rd 0x30200073 = 0" "inst_funct7 0x30200073 = 0b0011000" "inst_rs2 0x30200073 = 2" by code_simp+
  obtain t where "exu_send_expt exu HART_EXPT_TYPE_MRET 0 (er_pc req) 0 = Some (exu\<lparr>ex_expt_mst := t\<rparr>)"
    "itf_list t = itf_list (ex_expt_mst exu) @ [\<lparr>he_type = HART_EXPT_TYPE_MRET, he_cause = 0,
       he_priv = exu_priv exu, he_pc = er_pc req, he_tval = 0\<rparr>]"
    using send_expt_ok [OF assms(4,5)] by metis
  with assms show ?thesis
    by (simp add: sys_ex_req_proc_def sys_group_ex_req_handler_def priv_group_ex_req_handler_def fields
        mret_ex_req_handler_def)
qed

theorem mret_no_privilege_check_witness:
  "let exu = (exu_reset (\<lambda>_. 0) hart_exu)\<lparr>exu_priv := RV32G_PRIV_USER\<rparr> in
   exu_priv exu = RV32G_PRIV_USER \<and> (\<exists>exu'. sys_ex_req_proc exu hart_csr
       \<lparr>er_inst = 0x30200073, er_pc = 0x80, er_pred_taken = False, er_pred_pc = 0, er_is_boot_code = False\<rparr>
     = Some (exu', hart_csr) \<and> map he_type (itf_list (ex_expt_mst exu')) = [HART_EXPT_TYPE_MRET])"
proof -
  let ?exu = "(exu_reset (\<lambda>_. 0) hart_exu)\<lparr>exu_priv := RV32G_PRIV_USER\<rparr>"
  let ?req = "\<lparr>er_inst = 0x30200073, er_pc = 0x80, er_pred_taken = False, er_pred_pc = 0, er_is_boot_code = False\<rparr>"
  have op: "inst_opcode 0x30200073 = OPCODE_SYSTEM" by code_simp
  have "itf_inv (ex_expt_mst ?exu)" "\<not> itf_fifo_full (ex_expt_mst ?exu)" "itf_list (ex_expt_mst ?exu) = []"
    by (simp_all add: exu_reset_def exu_publish_state_def hart_exu_def)
  with mret_no_privilege_check [of ?req ?exu hart_csr] op show ?thesis
    by (auto simp: Let_def)
qed

end
