(* ===== verification/Exu.thy ===== *)
theory Exu
  imports ExuAlu ExuBranch ExuMem ExuSys
begin

text \<open>
  The execution unit as a whole (\<^verbatim>\<open>exu/exu.c\<close>): dispatch of an instruction, the handling of
  load/store responses, the \<^verbatim>\<open>fence.i\<close> sequence and the clock tick. The unit acts on the pair
  of itself and the CSR module, since CSR instructions run the latter. \<^verbatim>\<open>is_boot_code\<close> only
  switches trace output.
\<close>

definition exu_ldst_issue_blocked :: "exu \<Rightarrow> ex_req \<Rightarrow> bool" where
  "exu_ldst_issue_blocked exu ex_req = (let opcode = inst_opcode (er_inst ex_req) in
     (opcode = OPCODE_LOAD \<or> opcode = OPCODE_STORE) \<and> itf_fifo_full (ldst_req_mst exu))"

definition exu_proc_fence_i_flush :: "exu \<Rightarrow> (bool \<times> exu) option" where
  "exu_proc_fence_i_flush exu = (case fence_i_stage exu of
     FENCE_I_STAGE_IDLE \<Rightarrow> Some (False, exu)
   | FENCE_I_STAGE_WAIT_D_ACK \<Rightarrow>
       if itf_fifo_empty (l1d_flush_ack_slv exu) then Some (True, exu)
       else do {
         (_, t) \<leftarrow> itf_read (l1d_flush_ack_slv exu);
         Some (True, exu\<lparr>l1d_flush_ack_slv := t, fence_i_stage := FENCE_I_STAGE_SEND_I_FLUSH\<rparr>)
       }
   | FENCE_I_STAGE_SEND_I_FLUSH \<Rightarrow>
       if itf_fifo_full (l1i_flush_mst exu) then Some (True, exu)
       else do {
         t \<leftarrow> itf_write (l1i_flush_mst exu) 0;
         Some (True, exu\<lparr>l1i_flush_mst := t, fence_i_stage := FENCE_I_STAGE_WAIT_I_ACK\<rparr>)
       }
   | FENCE_I_STAGE_WAIT_I_ACK \<Rightarrow>
       if itf_fifo_empty (l1i_flush_ack_slv exu) then Some (True, exu)
       else do {
         (_, t) \<leftarrow> itf_read (l1i_flush_ack_slv exu);
         Some (True, exu\<lparr>l1i_flush_ack_slv := t, fence_i_stage := FENCE_I_STAGE_DONE\<rparr>)
       }
   | FENCE_I_STAGE_DONE \<Rightarrow> Some (True, exu\<lparr>fence_i_stage := FENCE_I_STAGE_IDLE\<rparr>))"

text \<open>The table of the twelve opcode groups; the other opcodes have no entry.\<close>

definition ex_req_procs :: "u32 \<Rightarrow> (exu \<Rightarrow> csr \<Rightarrow> ex_req \<Rightarrow> (exu \<times> csr) option) option" where
  "ex_req_procs opcode = (
     let pure = (\<lambda>proc exu csr req. map_option (\<lambda>exu. (exu, csr)) (proc exu req)) in
     if opcode \<in> {OPCODE_LUI, OPCODE_AUIPC, OPCODE_MISC_MEM} then Some (pure misc_ex_req_proc)
     else if opcode \<in> {OPCODE_JAL, OPCODE_JALR, OPCODE_BRANCH} then Some (pure branch_ex_req_proc)
     else if opcode \<in> {OPCODE_LOAD, OPCODE_STORE} then Some (pure ldst_ex_req_proc)
     else if opcode \<in> {OPCODE_ALUI, OPCODE_ALU} then Some (pure alu_ex_req_proc)
     else if opcode = OPCODE_SYSTEM then Some sys_ex_req_proc
     else if opcode = OPCODE_AMO then Some (pure amo_ex_req_proc)
     else None)"

definition exu_execute :: "exu \<Rightarrow> csr \<Rightarrow> ex_req \<Rightarrow> (exu \<times> csr) option" where
  "exu_execute exu csr ex_req = do {
     proc \<leftarrow> ex_req_procs (inst_opcode (er_inst ex_req));
     (exu, csr) \<leftarrow> proc (exu\<lparr>cur_pc := er_pc ex_req, irq_epc := er_pc ex_req + 4\<rparr>) csr ex_req;
     Some (exu\<lparr>perf_exec_inst := perf_exec_inst exu + 1\<rparr>, csr)
   }"

definition exu_proc_ex_req :: "exu \<Rightarrow> csr \<Rightarrow> (exu \<times> csr) option" where
  "exu_proc_ex_req exu csr =
     (if \<not> itf_fifo_empty (fl_req_slv exu) then do {
        (_, t) \<leftarrow> itf_read (fl_req_slv exu);
        let exu = exu\<lparr>fl_req_slv := t\<rparr>;
        if \<not> itf_fifo_empty (ex_req_slv exu) then do {
          (_, t) \<leftarrow> itf_read (ex_req_slv exu);
          Some (exu\<lparr>ex_req_slv := t\<rparr>, csr)
        } else Some (exu, csr)
      }
      else if itf_fifo_empty (ex_req_slv exu) then Some (exu, csr)
      else if exu_wfi exu then Some (exu, csr)
      else do {
        front \<leftarrow> itf_fifo_get_front (ex_req_slv exu);
        if ldst_req_pend exu then Some (exu, csr)
        else if amo_stage exu \<noteq> AMO_STAGE_IDLE then Some (exu, csr)
        else if exu_ldst_issue_blocked exu front then Some (exu, csr)
        else do {
          (ex_req, t) \<leftarrow> itf_read (ex_req_slv exu);
          let exu = exu\<lparr>ex_req_slv := t\<rparr>;
          if \<not> itf_fifo_empty (fl_req_slv exu) then do {
            (_, t) \<leftarrow> itf_read (fl_req_slv exu);
            Some (exu\<lparr>fl_req_slv := t\<rparr>, csr)
          } else exu_execute exu csr ex_req
        }
      })"

definition exu_proc_biu_rsp :: "exu \<Rightarrow> exu option" where
  "exu_proc_biu_rsp exu =
     (if itf_fifo_empty (ldst_rsp_slv exu) then Some exu
      else do {
        (ldst_rsp, t) \<leftarrow> itf_read (ldst_rsp_slv exu);
        let exu = exu\<lparr>ldst_rsp_slv := t\<rparr>;
        if \<not> lr_ok ldst_rsp then
          Some (if ldst_req_pend exu
                then exu\<lparr>ldst_req_pend := False, ldst_opcode := 0, trap_defer := False\<rparr>
                else exu\<lparr>amo_stage := AMO_STAGE_IDLE, trap_defer := False\<rparr>)
        else if ldst_req_pend exu then ldst_biu_rsp_proc exu ldst_rsp
        else if cur_opcode exu = OPCODE_AMO then amo_biu_rsp_proc exu ldst_rsp
        else if cur_opcode exu = OPCODE_MISC_MEM then
          Some (exu\<lparr>ldst_req_pend := False, trap_defer := False, irq_epc := cur_pc exu + 4\<rparr>)
        else None
      })"

definition exu_clock :: "exu \<Rightarrow> csr \<Rightarrow> (exu \<times> csr) option" where
  "exu_clock exu csr = do {
     (fence_i_busy, exu) \<leftarrow> exu_proc_fence_i_flush exu;
     (exu, csr) \<leftarrow> (if \<not> fence_i_busy then exu_proc_ex_req exu csr else Some (exu, csr));
     exu \<leftarrow> exu_proc_biu_rsp exu;
     Some (exu_publish_state exu, csr)
   }"

section \<open>The unit's invariant\<close>

definition exu_ports_inv :: "exu \<Rightarrow> bool" where
  "exu_ports_inv exu \<longleftrightarrow> itf_inv (fl_req_slv exu) \<and> itf_inv (ex_req_slv exu) \<and> itf_inv (ex_rsp_mst exu)
     \<and> itf_inv (ldst_req_mst exu) \<and> itf_inv (ldst_rsp_slv exu) \<and> itf_inv (ex_expt_mst exu)
     \<and> itf_inv (tlb_flush_mst exu) \<and> itf_inv (l1i_flush_mst exu) \<and> itf_inv (l1d_flush_mst exu)
     \<and> itf_inv (l1i_flush_ack_slv exu) \<and> itf_inv (l1d_flush_ack_slv exu)"

text \<open>
  Traps are held back exactly while a load, store, cache operation or atomic is outstanding,
  and never two of them at once.
\<close>

definition exu_busy_inv :: "exu \<Rightarrow> bool" where
  "exu_busy_inv exu \<longleftrightarrow> trap_defer exu = (ldst_req_pend exu \<or> amo_stage exu \<noteq> AMO_STAGE_IDLE)
     \<and> \<not> (ldst_req_pend exu \<and> amo_stage exu \<noteq> AMO_STAGE_IDLE)
     \<and> (amo_stage exu \<noteq> AMO_STAGE_IDLE \<longrightarrow> cur_opcode exu = OPCODE_AMO)"

definition exu_inv :: "exu \<Rightarrow> bool" where
  "exu_inv exu \<longleftrightarrow> gpr_ok exu \<and> unat (ld_rd exu) < 32 \<and> unat (amo_rd exu) < 32 \<and> exu_ports_inv exu
     \<and> exu_busy_inv exu"

lemmas exu_inv_defs = exu_inv_def exu_ports_inv_def exu_busy_inv_def

lemma itf_write_inv: "itf_write t x = Some t' \<Longrightarrow> itf_inv t \<Longrightarrow> itf_inv t'"
  using itf.push_SomeD [of t x t'] by simp

lemma itf_read_inv: "itf_read t = Some (x, t') \<Longrightarrow> itf_inv t \<Longrightarrow> itf_inv t'"
  using itf.pop_SomeD [of t x t'] by simp

lemmas exu_inv_dests = itf_write_inv itf_read_inv

lemma gpr_ok_set_gpr: "set_gpr exu i v = Some exu' \<Longrightarrow> gpr_ok exu \<Longrightarrow> exu' = upd_gpr exu i v \<and> gpr_ok exu'"
  using set_gpr_SomeD by force

lemma alu_only_rd:
  assumes "alu_ex_req_proc exu req = Some exu'" "gpr_ok exu"
  shows "\<exists>op b. exu' = alu_result exu (er_inst req) op b"
proof (cases "inst_opcode (er_inst req) = OPCODE_ALUI")
  case True
  with assms(1) alui_group_sem [OF assms(2) refl, of req] show ?thesis
    by (metis alu_ex_req_proc_def option.inject)
next
  case False
  with assms(1) have "alu_group_ex_req_handler exu req = Some exu'"
    by (simp add: alu_ex_req_proc_def split: if_splits)
  with alu_group_sem [OF assms(2) refl, of req] show ?thesis
    by (metis map_option_eq_Some)
qed

lemma alu_inv:
  assumes "alu_ex_req_proc exu req = Some exu'" "exu_inv exu"
  shows "exu_inv exu'"
proof -
  have "gpr_ok exu" using assms(2) by (simp add: exu_inv_def)
  from alu_only_rd [OF assms(1) this] show ?thesis
    using assms(2) by (auto simp: exu_inv_defs alu_result_def)
qed

lemma branch_inv:
  assumes "branch_ex_req_proc exu req = Some exu'" "exu_inv exu"
  shows "exu_inv exu'"
proof (cases "itf_fifo_full (ex_rsp_mst exu)")
  case True
  with assms show ?thesis by (simp add: branch_ex_req_proc_def)
next
  case False
  have ok: "gpr_ok exu" using assms(2) by (simp add: exu_inv_def)
  obtain taken target t where t: "itf_write (ex_rsp_mst exu) (branch_rsp req taken target) = Some t"
    "exu' = (ctrl_link exu (er_pc req) (er_inst req))\<lparr>irq_epc := target, ex_rsp_mst := t\<rparr>"
    using assms(1) branch_ex_req_proc_sem [OF ok False, of req]
    by (auto split: option.splits)
  then show ?thesis
    using assms(2) itf_write_inv [OF t(1)] by (auto simp: exu_inv_defs ctrl_link_def)
qed

lemma misc_inv:
  "misc_ex_req_proc exu req = Some exu' \<Longrightarrow> exu_inv exu \<Longrightarrow> \<not> trap_defer exu \<Longrightarrow> exu_inv exu'"
  by (auto simp: misc_ex_req_proc_def lui_ex_req_handler_def auipc_ex_req_handler_def
      fence_ex_req_handler_def fence_i_ex_req_handler_def exu_start_fence_i_def cbo_ex_req_handler_def
      exu_inv_defs Let_def split: if_splits bind_splits dest: itf_write_inv)

lemma ldst_inv:
  "ldst_ex_req_proc exu req = Some exu' \<Longrightarrow> exu_inv exu \<Longrightarrow> \<not> trap_defer exu \<Longrightarrow> exu_inv exu'"
  by (auto simp: ldst_ex_req_proc_def exu_inv_defs Let_def split: if_splits bind_splits dest: itf_write_inv)

lemma ldst_rsp_inv:
  assumes "ldst_biu_rsp_proc exu rsp = Some exu'" "exu_inv exu" "amo_stage exu = AMO_STAGE_IDLE"
  shows "exu_inv exu'"
  using assms
  by (auto simp: ldst_biu_rsp_proc_def load_group_biu_rsp_handler_def load_rsp_defs exu_inv_defs Let_def
      split: if_splits bind_splits)

lemma set_gpr_inv: "set_gpr exu i v = Some exu' \<Longrightarrow> exu_inv exu \<Longrightarrow> exu_inv exu'"
  by (drule set_gpr_SomeD) (simp add: exu_inv_defs)

lemma send_expt_inv: "exu_send_expt exu ty c pc tv = Some exu' \<Longrightarrow> exu_inv exu \<Longrightarrow> exu_inv exu'"
  by (auto simp: exu_send_expt_def exu_inv_defs split: bind_splits dest: itf_write_inv)

lemma notify_inv: "notify_translation_csr_write exu addr = Some exu' \<Longrightarrow> exu_inv exu \<Longrightarrow> exu_inv exu'"
  by (auto simp: notify_translation_csr_write_def exu_inv_defs split: if_splits bind_splits
      dest: itf_write_inv)

lemma sys_csr_inv:
  assumes "exu_inv exu" "csr_scheme exu csr req = Some (exu', csr')"
  shows "exu_inv exu'"
  using assms unfolding csr_scheme_def Let_def csr_access_trap_def
  by (auto split: if_splits bind_splits dest: set_gpr_inv send_expt_inv notify_inv)

lemma sfence_inv: "sfence_vma_ex_req_handler exu req = Some exu' \<Longrightarrow> exu_inv exu \<Longrightarrow> exu_inv exu'"
  by (auto simp: sfence_vma_ex_req_handler_def exu_inv_defs split: bind_splits dest: itf_write_inv)

lemma wfi_inv: "wfi_ex_req_handler exu req = Some exu' \<Longrightarrow> exu_inv exu \<Longrightarrow> exu_inv exu'"
  by (auto simp: wfi_ex_req_handler_def exu_inv_defs)

lemma sys_priv_inv:
  "priv_group_ex_req_handler exu req = Some exu' \<Longrightarrow> exu_inv exu \<Longrightarrow> exu_inv exu'"
  unfolding priv_group_ex_req_handler_def Let_def ecall_ex_req_handler_def ebreak_ex_req_handler_def
    sret_ex_req_handler_def mret_ex_req_handler_def
  by (auto split: if_splits dest: send_expt_inv sfence_inv wfi_inv)

lemma sys_inv:
  assumes "sys_ex_req_proc exu csr req = Some (exu', csr')" "exu_inv exu"
  shows "exu_inv exu'"
proof (cases "inst_funct3 (er_inst req) \<in> {0, 4}")
  case True
  with assms sys_priv_inv show ?thesis
    by (auto simp: sys_ex_req_proc_def sys_group_ex_req_handler_def split: if_splits)
next
  case False
  have "inst_opcode (er_inst req) = OPCODE_SYSTEM"
    using assms(1) by (simp add: sys_ex_req_proc_def split: if_splits)
  with False assms sys_csr_inv csr_handlers_scheme [OF _ refl] show ?thesis
    by (metis exu_inv_def)
qed

lemma amo_ex_inv:
  assumes "amo_ex_req_proc exu req = Some exu'" "exu_inv exu" "\<not> trap_defer exu"
  shows "exu_inv exu'"
  using assms
  by (auto simp: amo_ex_req_proc_def lr_ex_req_handler_def sc_ex_req_handler_def
      AMO_EX_REQ_HANDLER_TEMPLATE_def exu_inv_defs Let_def split: if_splits bind_splits dest: itf_write_inv)

lemma amo_rsp_inv:
  assumes "amo_biu_rsp_proc exu rsp = Some exu'" "exu_inv exu" "\<not> ldst_req_pend exu"
  shows "exu_inv exu'"
  using assms
  by (auto simp: amo_biu_rsp_proc_def lr_biu_rsp_handler_def sc_biu_rsp_handler_def
      AMO_BIU_RSP_HANDLER_TEMPLATE_def exu_inv_defs Let_def
      split: if_splits bind_splits amo_stage.splits) (erule itf_write_inv, assumption)

lemma ex_req_procs_cases:
  assumes "ex_req_procs opcode = Some proc" "proc exu csr req = Some (exu', csr')"
  shows "misc_ex_req_proc exu req = Some exu' \<or> branch_ex_req_proc exu req = Some exu'
    \<or> ldst_ex_req_proc exu req = Some exu' \<or> alu_ex_req_proc exu req = Some exu'
    \<or> amo_ex_req_proc exu req = Some exu' \<or> sys_ex_req_proc exu csr req = Some (exu', csr')"
  using assms unfolding ex_req_procs_def Let_def
  by (simp split: if_splits) (elim exE conjE disjE, auto)

lemma execute_inv:
  assumes "exu_execute exu csr req = Some (exu', csr')" "exu_inv exu" "\<not> trap_defer exu"
  shows "exu_inv exu'"
proof -
  let ?exu = "exu\<lparr>cur_pc := er_pc req, irq_epc := er_pc req + 4\<rparr>"
  have start: "exu_inv ?exu" "\<not> trap_defer ?exu" using assms(2,3) by (simp_all add: exu_inv_defs)
  obtain proc exu1 where run: "ex_req_procs (inst_opcode (er_inst req)) = Some proc"
    "proc ?exu csr req = Some (exu1, csr')" and exu': "exu' = exu1\<lparr>perf_exec_inst := perf_exec_inst exu1 + 1\<rparr>"
    using assms(1) by (auto simp: exu_execute_def split: bind_splits)
  from ex_req_procs_cases [OF run] have "exu_inv exu1"
    using misc_inv [OF _ start] branch_inv [OF _ start(1)] ldst_inv [OF _ start] alu_inv [OF _ start(1)]
      sys_inv [OF _ start(1)] amo_ex_inv [OF _ start] by blast
  with exu' show ?thesis by (simp add: exu_inv_defs)
qed

lemma proc_ex_req_inv:
  assumes "exu_proc_ex_req exu csr = Some (exu', csr')" "exu_inv exu"
  shows "exu_inv exu'"
proof -
  have *: "exu_inv (exu\<lparr>ex_req_slv := t\<rparr>)" if "itf_read (ex_req_slv exu) = Some (x, t)" for x t
    using assms(2) itf_read_inv [OF that] by (simp add: exu_inv_defs)
  have **: "exu_inv (exu\<lparr>fl_req_slv := t\<rparr>)" if "itf_read (fl_req_slv exu) = Some (x, t)" for x t
    using assms(2) itf_read_inv [OF that] by (simp add: exu_inv_defs)
  have ***: "exu_inv (exu\<lparr>fl_req_slv := t, ex_req_slv := t'\<rparr>)"
    if "itf_read (fl_req_slv exu) = Some (x, t)" "itf_read (ex_req_slv exu) = Some (y, t')" for x t y t'
    using assms(2) itf_read_inv [OF that(1)] itf_read_inv [OF that(2)] by (simp add: exu_inv_defs)
  have free: "\<not> trap_defer exu" if "\<not> ldst_req_pend exu" "amo_stage exu = AMO_STAGE_IDLE"
    using assms(2) that by (simp add: exu_inv_defs)
  show ?thesis
    using assms
    by (auto simp: exu_proc_ex_req_def Let_def free split: if_splits bind_splits
        dest: * ** *** elim!: execute_inv)
qed

lemma proc_biu_rsp_inv:
  assumes "exu_proc_biu_rsp exu = Some exu'" "exu_inv exu"
  shows "exu_inv exu'"
proof (cases "itf_fifo_empty (ldst_rsp_slv exu)")
  case True
  with assms show ?thesis by (simp add: exu_proc_biu_rsp_def)
next
  case False
  then obtain rsp t where r: "itf_read (ldst_rsp_slv exu) = Some (rsp, t)"
    using assms(1) by (auto simp: exu_proc_biu_rsp_def split: bind_splits)
  let ?exu = "exu\<lparr>ldst_rsp_slv := t\<rparr>"
  have inv: "exu_inv ?exu" using assms(2) itf_read_inv [OF r] by (simp add: exu_inv_defs)
  have excl: "amo_stage ?exu = AMO_STAGE_IDLE" if "ldst_req_pend ?exu" using inv that by (simp add: exu_inv_defs)
  have idle: "exu_inv (?exu\<lparr>ldst_req_pend := False, ldst_opcode := 0, trap_defer := False\<rparr>)" if "ldst_req_pend ?exu"
    using inv that by (simp add: exu_inv_defs)
  have idle': "exu_inv (?exu\<lparr>amo_stage := AMO_STAGE_IDLE, trap_defer := False\<rparr>)" if "\<not> ldst_req_pend ?exu"
    using inv that by (simp add: exu_inv_defs)
  have dead: "exu_inv (?exu\<lparr>ldst_req_pend := False, trap_defer := False, irq_epc := cur_pc ?exu + 4\<rparr>)"
    if "\<not> ldst_req_pend ?exu" "cur_opcode ?exu = OPCODE_MISC_MEM"
    using inv that by (auto simp: exu_inv_defs)
  show ?thesis
  proof (cases "ldst_req_pend ?exu")
    case True
    with assms(1) r False ldst_rsp_inv [OF _ inv excl] idle show ?thesis
      by (auto simp: exu_proc_biu_rsp_def Let_def split: if_splits)
  next
    case pend: False
    with assms(1) r False amo_rsp_inv [OF _ inv] idle' dead show ?thesis
      by (auto simp: exu_proc_biu_rsp_def Let_def split: if_splits)
  qed
qed

lemma fence_i_ports:
  assumes "exu_inv exu"
  shows "itf_read (l1d_flush_ack_slv exu) = Some (x, t) \<Longrightarrow> exu_inv (exu\<lparr>l1d_flush_ack_slv := t, fence_i_stage := st\<rparr>)"
    "itf_write (l1i_flush_mst exu) y = Some u \<Longrightarrow> exu_inv (exu\<lparr>l1i_flush_mst := u, fence_i_stage := st\<rparr>)"
    "itf_read (l1i_flush_ack_slv exu) = Some (x, t) \<Longrightarrow> exu_inv (exu\<lparr>l1i_flush_ack_slv := t, fence_i_stage := st\<rparr>)"
    "exu_inv (exu\<lparr>fence_i_stage := st\<rparr>)"
  using assms by (simp_all add: exu_inv_defs) (blast intro: itf_write_inv itf_read_inv)+

lemma fence_i_inv:
  assumes "exu_proc_fence_i_flush exu = Some (b, exu')" "exu_inv exu"
  shows "exu_inv exu'"
proof (cases "fence_i_stage exu")
  case FENCE_I_STAGE_IDLE
  with assms show ?thesis by (simp add: exu_proc_fence_i_flush_def)
next
  case FENCE_I_STAGE_WAIT_D_ACK
  with assms fence_i_ports(1) [OF assms(2)] show ?thesis
    by (auto simp: exu_proc_fence_i_flush_def split: if_splits bind_splits)
next
  case FENCE_I_STAGE_SEND_I_FLUSH
  with assms fence_i_ports(2) [OF assms(2)] show ?thesis
    by (auto simp: exu_proc_fence_i_flush_def split: if_splits bind_splits)
next
  case FENCE_I_STAGE_WAIT_I_ACK
  with assms fence_i_ports(3) [OF assms(2)] show ?thesis
    by (auto simp: exu_proc_fence_i_flush_def split: if_splits bind_splits)
next
  case FENCE_I_STAGE_DONE
  with assms fence_i_ports(4) [OF assms(2)] show ?thesis
    by (auto simp: exu_proc_fence_i_flush_def)
qed

lemma exu_clock_steps:
  assumes "exu_clock exu csr = Some (exu', csr')"
  shows "\<exists>b exu1 exu2 exu3. exu_proc_fence_i_flush exu = Some (b, exu1)
    \<and> (if \<not> b then exu_proc_ex_req exu1 csr else Some (exu1, csr)) = Some (exu2, csr')
    \<and> exu_proc_biu_rsp exu2 = Some exu3 \<and> exu' = exu_publish_state exu3"
proof -
  from bind_pair_SomeD [OF assms [unfolded exu_clock_def]] obtain b exu1 where
    1: "exu_proc_fence_i_flush exu = Some (b, exu1)"
    and r1: "(if \<not> b then exu_proc_ex_req exu1 csr else Some (exu1, csr)) \<bind>
      (\<lambda>(exu, csr). exu_proc_biu_rsp exu \<bind> (\<lambda>exu. Some (exu_publish_state exu, csr))) = Some (exu', csr')"
    by blast
  from bind_pair_SomeD [OF r1] obtain exu2 csr2 where
    2: "(if \<not> b then exu_proc_ex_req exu1 csr else Some (exu1, csr)) = Some (exu2, csr2)"
    and r2: "exu_proc_biu_rsp exu2 \<bind> (\<lambda>exu. Some (exu_publish_state exu, csr2)) = Some (exu', csr')"
    by blast
  from bind_SomeD [OF r2] obtain exu3 where "exu_proc_biu_rsp exu2 = Some exu3"
    "exu' = exu_publish_state exu3" "csr' = csr2" by blast
  with 1 2 show ?thesis by blast
qed

lemma exu_clock_inv:
  assumes "exu_clock exu csr = Some (exu', csr')" "exu_inv exu"
  shows "exu_inv exu'"
proof -
  from exu_clock_steps [OF assms(1)] obtain b exu1 exu2 exu3 where
    steps: "exu_proc_fence_i_flush exu = Some (b, exu1)"
    "(if \<not> b then exu_proc_ex_req exu1 csr else Some (exu1, csr)) = Some (exu2, csr')"
    "exu_proc_biu_rsp exu2 = Some exu3" "exu' = exu_publish_state exu3" by blast
  have "exu_inv exu1" using fence_i_inv [OF steps(1) assms(2)] .
  then have "exu_inv exu2" using steps(2) proc_ex_req_inv by (cases b) auto
  then have "exu_inv exu3" by (rule proc_biu_rsp_inv [OF steps(3)])
  with steps(4) show ?thesis by (simp add: exu_publish_state_def exu_inv_defs)
qed

section \<open>Store-conditional\<close>

text \<open>
  C18. Store-conditional, from the instruction to the answer of the bus: it issues its store exactly when a reservation for its address is
  held. A store that is answered as done reports 0 in \<open>rd\<close> and gives the reservation up; one that is answered as
  failed leaves \<open>rd\<close> and the reservation as they were, for the trap to follow; either way traps are no longer held back. Without
  the reservation it touches no memory, reports 1 and leaves no reservation.
\<close>

theorem sc_transaction_correct:
  assumes "gpr_ok exu" "itf_inv (ldst_req_mst exu)" "\<not> itf_fifo_full (ldst_req_mst exu)" "\<not> ldst_req_pend exu"
    and "is_amo_w (er_inst req)" "inst_funct5 (er_inst req) = 3"
    and "itf_inv answers" "itf_list answers = rsp # rest"
  shows "let i = er_inst req; addr = gpr_of exu (inst_rs1 i) in
    \<exists>exu1. amo_ex_req_proc exu req = Some exu1 \<and>
      (if amo_lr_set exu \<and> amo_rsvd_addr exu = addr
       then itf_list (ldst_req_mst exu1)
            = itf_list (ldst_req_mst exu) @ [amo_write_req addr (gpr_of exu (inst_rs2 i))]
          \<and> trap_defer exu1
          \<and> (\<exists>exu2. exu_proc_biu_rsp (exu1\<lparr>ldst_rsp_slv := answers\<rparr>) = Some exu2 \<and> \<not> trap_defer exu2
              \<and> amo_stage exu2 = AMO_STAGE_IDLE \<and> itf_list (ldst_rsp_slv exu2) = rest
              \<and> (if lr_ok rsp then \<not> amo_lr_set exu2 \<and> exu_gpr exu2 = exu_gpr (upd_gpr exu (inst_rd i) 0)
                 else amo_lr_set exu2 \<and> amo_rsvd_addr exu2 = addr \<and> exu_gpr exu2 = exu_gpr exu))
       else ldst_req_mst exu1 = ldst_req_mst exu \<and> \<not> amo_lr_set exu1 \<and> \<not> trap_defer exu1
          \<and> exu_gpr exu1 = exu_gpr (upd_gpr exu (inst_rd i) 1))"
proof -
  let ?i = "er_inst req"
  let ?q = "amo_write_req (gpr_of exu (inst_rs1 ?i)) (gpr_of exu (inst_rs2 ?i))"
  obtain t where "itf_write (ldst_req_mst exu) ?q = Some t" "itf_list t = itf_list (ldst_req_mst exu) @ [?q]"
    using itf.push_not_full [OF assms(2,3)] by metis
  moreover obtain u where "itf_read answers = Some (rsp, u)" "itf_list u = rest" using itf.pop_Cons [OF assms(7,8)] by blast
  moreover have "\<not> itf_fifo_empty answers" using assms(7,8) by (simp add: itf.is_empty_iff)
  ultimately show ?thesis
    using assms(1,3-6)
    by (auto simp: exu_proc_biu_rsp_def amo_ex_req_proc_def amo_biu_rsp_proc_def is_amo_w_def funct7_drop_2 funct375_lr_sc Let_def
        sc_ex_req_handler_def sc_biu_rsp_handler_def amo_write_req_def ldst_req_init_def)
qed

theorem sc_transaction_correct_witness:
  "let exu = (exu_reset (\<lambda>n. of_nat n) hart_exu)\<lparr>amo_lr_set := True, amo_rsvd_addr := 2\<rparr>;
       answers = the (itf_write (fifo_itf_construct 1) \<lparr>lr_data = 0, lr_ok = False\<rparr>) in
   \<exists>exu1 exu2. amo_ex_req_proc exu
       \<lparr>er_inst = 0x183120AF, er_pc = 0x100, er_pred_taken = False, er_pred_pc = 0, er_is_boot_code = False\<rparr> = Some exu1
     \<and> exu_proc_biu_rsp (exu1\<lparr>ldst_rsp_slv := answers\<rparr>) = Some exu2 \<and> amo_lr_set exu2 \<and> exu_gpr exu2 = exu_gpr exu"
proof -
  define exu0 where "exu0 = exu_reset (\<lambda>n. of_nat n) hart_exu"
  define exu where "exu = exu0\<lparr>amo_lr_set := True, amo_rsvd_addr := 2\<rparr>"
  define req where "req = \<lparr>er_inst = 0x183120AF, er_pc = 0x100, er_pred_taken = False, er_pred_pc = 0, er_is_boot_code = False\<rparr>"
  define f where "f = \<lparr>lr_data = 0, lr_ok = False\<rparr>"
  define answers where "answers = the (itf_write (fifo_itf_construct 1) f)"
  have i: "er_inst req = 0x183120AF" by (simp add: req_def)
  have fields: "inst_rs1 0x183120AF = 2" "is_amo_w 0x183120AF" "inst_funct5 0x183120AF = 3" by code_simp+
  obtain u where "itf_write (fifo_itf_construct 1) f = Some u" "itf_inv u" "itf_list u = [f]"
    using itf.push_not_full [of "fifo_itf_construct 1" f] by (auto simp del: One_nat_def)
  then have t: "itf_inv answers" "itf_list answers = f # []" by (simp_all add: answers_def)
  have "gpr_ok exu0" "itf_inv (ldst_req_mst exu0)" "\<not> itf_fifo_full (ldst_req_mst exu0)" by (simp_all add: exu0_def)
  then have g: "gpr_ok exu" "itf_inv (ldst_req_mst exu)" "\<not> itf_fifo_full (ldst_req_mst exu)" by (simp_all add: exu_def gpr_ok_def)
  have p: "\<not> ldst_req_pend exu" by (simp add: exu_def exu0_def exu_reset_def exu_publish_state_def)
  have two: "gpr_of exu 2 = 2" using exu_reset_gpr_of [of 2 "\<lambda>n. of_nat n" hart_exu] by (simp add: exu_def exu0_def gpr_of_def)
  from sc_transaction_correct [OF g p, of req answers f "[]"] fields t
  obtain exu1 exu2 where "amo_ex_req_proc exu req = Some exu1" "exu_proc_biu_rsp (exu1\<lparr>ldst_rsp_slv := answers\<rparr>) = Some exu2"
    "amo_lr_set exu2" "exu_gpr exu2 = exu_gpr exu"
    unfolding i fields Let_def two by (auto simp: f_def exu_def)
  then show ?thesis unfolding Let_def exu_def exu0_def answers_def f_def req_def by blast
qed

end
