(* ===== verification/ExuRun.thy ===== *)
theory ExuRun
  imports Exu
begin

text \<open>
  Runs of the execution unit between its neighbours. A run starts at reset and interleaves
  clock ticks with what the other modules do to the unit's interfaces: the fetch unit writes
  instructions and flush requests, the load/store unit takes a request and later answers it,
  the trap unit changes privilege and wait state, the CSR contents change at will. The
  load/store unit is only assumed to answer requests it has taken; the number it holds is
  part of the state of a run.
\<close>

section \<open>Packets of the memory interface\<close>

lemma itf_write_num: "itf_write t x = Some t' \<Longrightarrow> pkt_num t' = pkt_num t + 1 \<and> itf_depth t' = itf_depth t"
  by (auto simp: itf_write_def DBG_CHECK_def split: if_splits bind_splits)

lemma itf_read_num: "itf_read t = Some (x, t') \<Longrightarrow> pkt_num t = pkt_num t' + 1 \<and> itf_depth t' = itf_depth t"
  by (auto simp: itf_read_def DBG_CHECK_def split: if_splits bind_splits)

lemma itf_empty_not_full: "itf_inv t \<Longrightarrow> pkt_num t = 0 \<Longrightarrow> \<not> itf_fifo_full t"
  by (simp add: itf_inv_def ring_inv_def itf_fifo_full_def)

text \<open>
  A request is in the request interface, held by the load/store unit, or answered in the
  response interface; the three together make one exactly while the unit defers traps.
\<close>

definition txn_inv :: "exu \<Rightarrow> nat \<Rightarrow> bool" where
  "txn_inv exu n \<longleftrightarrow> pkt_num (ldst_req_mst exu) + n + pkt_num (ldst_rsp_slv exu) = of_bool (trap_defer exu)"

definition same_mem :: "exu \<Rightarrow> exu \<Rightarrow> bool" where
  "same_mem exu exu' \<longleftrightarrow> ldst_req_mst exu' = ldst_req_mst exu \<and> ldst_rsp_slv exu' = ldst_rsp_slv exu
     \<and> trap_defer exu' = trap_defer exu"

lemma same_mem_txn: "same_mem exu exu' \<Longrightarrow> txn_inv exu' n = txn_inv exu n"
  by (simp add: same_mem_def txn_inv_def)

lemma same_mem_refl [simp]: "same_mem exu exu"
  by (simp add: same_mem_def)

lemma same_mem_trans: "same_mem a b \<Longrightarrow> same_mem b c \<Longrightarrow> same_mem a c"
  by (simp add: same_mem_def)

lemma alu_mem: "alu_ex_req_proc exu req = Some exu' \<Longrightarrow> gpr_ok exu \<Longrightarrow> same_mem exu exu'"
  by (drule (1) alu_only_rd) (auto simp: alu_result_def same_mem_def)

lemma branch_mem:
  assumes "branch_ex_req_proc exu req = Some exu'" "gpr_ok exu"
  shows "same_mem exu exu'"
proof (cases "itf_fifo_full (ex_rsp_mst exu)")
  case True
  with assms show ?thesis by (simp add: branch_ex_req_proc_def)
next
  case False
  with assms(1) branch_ex_req_proc_sem [OF assms(2) False, of req] show ?thesis
    by (auto simp: same_mem_def ctrl_link_def split: option.splits if_splits)
qed

lemma send_expt_mem: "exu_send_expt exu ty c pc tv = Some exu' \<Longrightarrow> same_mem exu exu'"
  by (auto simp: exu_send_expt_def same_mem_def split: bind_splits)

lemma set_gpr_mem: "set_gpr exu i v = Some exu' \<Longrightarrow> same_mem exu exu'"
  by (drule set_gpr_SomeD) (simp add: same_mem_def)

lemma notify_mem: "notify_translation_csr_write exu addr = Some exu' \<Longrightarrow> same_mem exu exu'"
  by (auto simp: notify_translation_csr_write_def same_mem_def split: if_splits bind_splits)

lemma csr_scheme_mem: "csr_scheme exu csr req = Some (exu', csr') \<Longrightarrow> same_mem exu exu'"
  unfolding csr_scheme_def Let_def csr_access_trap_def
  by (auto split: if_splits bind_splits dest!: set_gpr_mem send_expt_mem notify_mem intro: same_mem_trans)

lemma priv_group_mem: "priv_group_ex_req_handler exu req = Some exu' \<Longrightarrow> same_mem exu exu'"
  unfolding priv_group_ex_req_handler_def Let_def ecall_ex_req_handler_def ebreak_ex_req_handler_def
    sret_ex_req_handler_def mret_ex_req_handler_def
  by (auto split: if_splits bind_splits dest!: send_expt_mem
      simp: sfence_vma_ex_req_handler_def wfi_ex_req_handler_def same_mem_def)

lemma sys_mem:
  assumes "sys_ex_req_proc exu csr req = Some (exu', csr')" "gpr_ok exu"
  shows "same_mem exu exu'"
proof (cases "inst_funct3 (er_inst req) \<in> {0, 4}")
  case True
  with assms(1) priv_group_mem show ?thesis
    by (auto simp: sys_ex_req_proc_def sys_group_ex_req_handler_def split: if_splits)
next
  case False
  have "inst_opcode (er_inst req) = OPCODE_SYSTEM"
    using assms(1) by (simp add: sys_ex_req_proc_def split: if_splits)
  with False assms csr_scheme_mem csr_handlers_scheme [OF _ refl] show ?thesis by metis
qed

lemma quiet_txn:
  assumes "gpr_ok exu" "txn_inv exu n"
  shows "branch_ex_req_proc exu req = Some exu' \<Longrightarrow> txn_inv exu' n"
    "alu_ex_req_proc exu req = Some exu' \<Longrightarrow> txn_inv exu' n"
    "sys_ex_req_proc exu csr req = Some (exu', csr') \<Longrightarrow> txn_inv exu' n"
  using assms branch_mem alu_mem sys_mem same_mem_txn by blast+

lemma misc_txn:
  assumes "misc_ex_req_proc exu req = Some exu'" "gpr_ok exu" "\<not> trap_defer exu" "txn_inv exu n"
  shows "txn_inv exu' n"
  using assms
  by (auto simp: misc_ex_req_proc_def lui_ex_req_handler_def auipc_ex_req_handler_def
      fence_ex_req_handler_def fence_i_ex_req_handler_def exu_start_fence_i_def cbo_ex_req_handler_def
      txn_inv_def Let_def split: if_splits bind_splits dest!: itf_write_num set_gpr_SomeD)

lemma ldst_txn:
  assumes "ldst_ex_req_proc exu req = Some exu'" "\<not> trap_defer exu" "txn_inv exu n"
  shows "txn_inv exu' n"
  using assms
  by (auto simp: ldst_ex_req_proc_def txn_inv_def Let_def split: if_splits bind_splits dest!: itf_write_num)

lemma amo_ex_txn:
  assumes "amo_ex_req_proc exu req = Some exu'" "exu_inv exu" "\<not> trap_defer exu" "txn_inv exu n"
  shows "txn_inv exu' n"
proof -
  have "\<not> itf_fifo_full (ldst_req_mst exu)" "amo_stage exu = AMO_STAGE_IDLE"
    using assms(2-4) itf_empty_not_full by (auto simp: exu_inv_defs txn_inv_def)
  with assms show ?thesis
    by (auto simp: amo_ex_req_proc_def lr_ex_req_handler_def sc_ex_req_handler_def
        AMO_EX_REQ_HANDLER_TEMPLATE_def txn_inv_def Let_def split: if_splits bind_splits
        dest!: itf_write_num set_gpr_SomeD)
qed

lemma execute_txn:
  assumes "exu_execute exu csr req = Some (exu', csr')" "exu_inv exu" "\<not> trap_defer exu" "txn_inv exu n"
  shows "txn_inv exu' n"
proof -
  let ?exu = "exu\<lparr>cur_pc := er_pc req, irq_epc := er_pc req + 4\<rparr>"
  have start: "exu_inv ?exu" "\<not> trap_defer ?exu" "txn_inv ?exu n" "gpr_ok ?exu"
    using assms(2-4) by (simp_all add: exu_inv_defs txn_inv_def)
  obtain proc exu1 where run: "ex_req_procs (inst_opcode (er_inst req)) = Some proc"
    "proc ?exu csr req = Some (exu1, csr')" and exu': "exu' = exu1\<lparr>perf_exec_inst := perf_exec_inst exu1 + 1\<rparr>"
    using assms(1) by (auto simp: exu_execute_def split: bind_splits)
  from ex_req_procs_cases [OF run] have "txn_inv exu1 n"
    using misc_txn [OF _ start(4,2,3)] ldst_txn [OF _ start(2,3)] amo_ex_txn [OF _ start(1-3)]
      quiet_txn [OF start(4,3)] by blast
  with exu' show ?thesis by (simp add: txn_inv_def)
qed

lemma proc_ex_req_txn:
  assumes "exu_proc_ex_req exu csr = Some (exu', csr')" "exu_inv exu" "txn_inv exu n"
  shows "txn_inv exu' n"
proof -
  have *: "exu_inv (exu\<lparr>ex_req_slv := t\<rparr>)" if "itf_read (ex_req_slv exu) = Some (x, t)" for x t
    using assms(2) itf_read_inv [OF that] by (simp add: exu_inv_defs)
  have upd: "txn_inv (exu\<lparr>ex_req_slv := t\<rparr>) n" "txn_inv (exu\<lparr>fl_req_slv := u\<rparr>) n"
    "txn_inv (exu\<lparr>fl_req_slv := u, ex_req_slv := t\<rparr>) n" for t u
    using assms(3) by (simp_all add: txn_inv_def)
  have free: "\<not> trap_defer exu" if "\<not> ldst_req_pend exu" "amo_stage exu = AMO_STAGE_IDLE"
    using assms(2) that by (simp add: exu_inv_defs)
  show ?thesis
    using assms(1,3) upd
    by (auto simp: exu_proc_ex_req_def Let_def free split: if_splits bind_splits
        dest: * elim!: execute_txn)
qed

lemma amo_rsp_txn:
  assumes "amo_biu_rsp_proc exu rsp = Some exu'" "exu_inv exu" "pkt_num (ldst_req_mst exu) = 0"
    "n + pkt_num (ldst_rsp_slv exu) = 0"
  shows "txn_inv exu' n"
proof -
  have "\<not> itf_fifo_full (ldst_req_mst exu)"
    using assms(2,3) itf_empty_not_full by (auto simp: exu_inv_defs)
  with assms show ?thesis
    by (auto simp: amo_biu_rsp_proc_def lr_biu_rsp_handler_def sc_biu_rsp_handler_def
        AMO_BIU_RSP_HANDLER_TEMPLATE_def txn_inv_def Let_def
        split: if_splits bind_splits amo_stage.splits dest!: itf_write_num set_gpr_SomeD)
qed

lemma ldst_rsp_txn:
  "ldst_biu_rsp_proc exu rsp = Some exu' \<Longrightarrow> pkt_num (ldst_req_mst exu) = 0
    \<Longrightarrow> n + pkt_num (ldst_rsp_slv exu) = 0 \<Longrightarrow> txn_inv exu' n"
  by (auto simp: ldst_biu_rsp_proc_def load_group_biu_rsp_handler_def load_rsp_defs txn_inv_def Let_def
      split: if_splits bind_splits dest!: set_gpr_SomeD)

lemma proc_biu_rsp_txn:
  assumes "exu_proc_biu_rsp exu = Some exu'" "exu_inv exu" "txn_inv exu n"
  shows "txn_inv exu' n"
proof (cases "itf_fifo_empty (ldst_rsp_slv exu)")
  case True
  with assms show ?thesis by (simp add: exu_proc_biu_rsp_def)
next
  case False
  then obtain rsp t where r: "itf_read (ldst_rsp_slv exu) = Some (rsp, t)"
    using assms(1) by (auto simp: exu_proc_biu_rsp_def split: bind_splits)
  let ?exu = "exu\<lparr>ldst_rsp_slv := t\<rparr>"
  have nums: "pkt_num (ldst_req_mst ?exu) = 0" "n + pkt_num (ldst_rsp_slv ?exu) = 0" "trap_defer exu"
    using assms(3) itf_read_num [OF r] by (cases "trap_defer exu"; auto simp: txn_inv_def)+
  have inv: "exu_inv ?exu" using assms(2) itf_read_inv [OF r] by (simp add: exu_inv_defs)
  have busy: "ldst_req_pend ?exu \<or> amo_stage ?exu \<noteq> AMO_STAGE_IDLE" "amo_stage ?exu \<noteq> AMO_STAGE_IDLE \<longrightarrow> cur_opcode ?exu = OPCODE_AMO"
    using nums(3) inv by (simp_all add: exu_inv_defs)
  have idle: "txn_inv (?exu\<lparr>ldst_req_pend := False, ldst_opcode := 0, trap_defer := False\<rparr>) n"
    "txn_inv (?exu\<lparr>amo_stage := AMO_STAGE_IDLE, trap_defer := False\<rparr>) n"
    using nums(1,2) by (simp_all add: txn_inv_def)
  show ?thesis
  proof (cases "ldst_req_pend ?exu")
    case True
    with assms(1) r False ldst_rsp_txn [OF _ nums(1,2)] idle show ?thesis
      by (auto simp: exu_proc_biu_rsp_def Let_def split: if_splits)
  next
    case pend: False
    with assms(1) r False amo_rsp_txn [OF _ inv nums(1,2)] idle busy show ?thesis
      by (auto simp: exu_proc_biu_rsp_def Let_def split: if_splits)
  qed
qed

lemma fence_i_mem: "exu_proc_fence_i_flush exu = Some (b, exu') \<Longrightarrow> same_mem exu exu'"
  by (auto simp: exu_proc_fence_i_flush_def same_mem_def split: fence_i_stage.splits if_splits bind_splits)

lemma exu_clock_txn:
  assumes "exu_clock exu csr = Some (exu', csr')" "exu_inv exu" "txn_inv exu n"
  shows "txn_inv exu' n"
proof -
  from exu_clock_steps [OF assms(1)] obtain b exu1 exu2 exu3 where
    steps: "exu_proc_fence_i_flush exu = Some (b, exu1)"
    "(if \<not> b then exu_proc_ex_req exu1 csr else Some (exu1, csr)) = Some (exu2, csr')"
    "exu_proc_biu_rsp exu2 = Some exu3" "exu' = exu_publish_state exu3" by blast
  have 1: "exu_inv exu1" "txn_inv exu1 n"
    using fence_i_inv [OF steps(1) assms(2)] same_mem_txn [OF fence_i_mem [OF steps(1)]] assms(3) by simp_all
  then have 2: "exu_inv exu2" "txn_inv exu2 n"
    using steps(2) proc_ex_req_inv proc_ex_req_txn by (cases b; simp)+
  then have "txn_inv exu3 n" using proc_biu_rsp_txn [OF steps(3)] by blast
  with steps(4) show ?thesis by (simp add: exu_publish_state_def txn_inv_def)
qed

section \<open>Runs\<close>

inductive exu_run :: "exu \<Rightarrow> csr \<Rightarrow> nat \<Rightarrow> bool" where
  reset: "exu_run (exu_reset rand hart_exu) csr 0"
| tick: "exu_run exu csr n \<Longrightarrow> exu_clock exu csr = Some (exu', csr') \<Longrightarrow> exu_run exu' csr' n"
| csr_change: "exu_run exu csr n \<Longrightarrow> exu_run exu csr' n"
| trap_ctrl: "exu_run exu csr n \<Longrightarrow> exu_run (exu_trap_ctrl_cb exu p epc w) csr n"
| ifu_inst: "exu_run exu csr n \<Longrightarrow> itf_write (ex_req_slv exu) req = Some t
    \<Longrightarrow> exu_run (exu\<lparr>ex_req_slv := t\<rparr>) csr n"
| ifu_flush: "exu_run exu csr n \<Longrightarrow> itf_write (fl_req_slv exu) fl = Some u
    \<Longrightarrow> exu_run (exu\<lparr>fl_req_slv := u\<rparr>) csr n"
| ifu_rsp: "exu_run exu csr n \<Longrightarrow> itf_read (ex_rsp_mst exu) = Some (rsp, v)
    \<Longrightarrow> exu_run (exu\<lparr>ex_rsp_mst := v\<rparr>) csr n"
| lsu_take: "exu_run exu csr n \<Longrightarrow> itf_read (ldst_req_mst exu) = Some (lq, q)
    \<Longrightarrow> exu_run (exu\<lparr>ldst_req_mst := q\<rparr>) csr (n + 1)"
| lsu_answer: "exu_run exu csr (n + 1) \<Longrightarrow> itf_write (ldst_rsp_slv exu) lr = Some a
    \<Longrightarrow> exu_run (exu\<lparr>ldst_rsp_slv := a\<rparr>) csr n"
| expt_take: "exu_run exu csr n \<Longrightarrow> itf_read (ex_expt_mst exu) = Some (e, x)
    \<Longrightarrow> exu_run (exu\<lparr>ex_expt_mst := x\<rparr>) csr n"
| tlb_take: "exu_run exu csr n \<Longrightarrow> itf_read (tlb_flush_mst exu) = Some (f, y)
    \<Longrightarrow> exu_run (exu\<lparr>tlb_flush_mst := y\<rparr>) csr n"
| l1d_take: "exu_run exu csr n \<Longrightarrow> itf_read (l1d_flush_mst exu) = Some (df, d)
    \<Longrightarrow> exu_run (exu\<lparr>l1d_flush_mst := d\<rparr>) csr n"
| l1d_ack: "exu_run exu csr n \<Longrightarrow> itf_write (l1d_flush_ack_slv exu) da = Some d
    \<Longrightarrow> exu_run (exu\<lparr>l1d_flush_ack_slv := d\<rparr>) csr n"
| l1i_take: "exu_run exu csr n \<Longrightarrow> itf_read (l1i_flush_mst exu) = Some (if', i)
    \<Longrightarrow> exu_run (exu\<lparr>l1i_flush_mst := i\<rparr>) csr n"
| l1i_ack: "exu_run exu csr n \<Longrightarrow> itf_write (l1i_flush_ack_slv exu) ia = Some i
    \<Longrightarrow> exu_run (exu\<lparr>l1i_flush_ack_slv := i\<rparr>) csr n"

lemma port_steps_inv:
  assumes "exu_inv exu"
  shows "itf_write (ex_req_slv exu) x1 = Some a \<Longrightarrow> exu_inv (exu\<lparr>ex_req_slv := a\<rparr>)"
    "itf_write (fl_req_slv exu) x2 = Some b \<Longrightarrow> exu_inv (exu\<lparr>fl_req_slv := b\<rparr>)"
    "itf_read (ex_rsp_mst exu) = Some (x3, c) \<Longrightarrow> exu_inv (exu\<lparr>ex_rsp_mst := c\<rparr>)"
    "itf_read (ldst_req_mst exu) = Some (x4, d) \<Longrightarrow> exu_inv (exu\<lparr>ldst_req_mst := d\<rparr>)"
    "itf_write (ldst_rsp_slv exu) x5 = Some e \<Longrightarrow> exu_inv (exu\<lparr>ldst_rsp_slv := e\<rparr>)"
    "itf_read (ex_expt_mst exu) = Some (x6, f) \<Longrightarrow> exu_inv (exu\<lparr>ex_expt_mst := f\<rparr>)"
    "itf_read (tlb_flush_mst exu) = Some (x7, g) \<Longrightarrow> exu_inv (exu\<lparr>tlb_flush_mst := g\<rparr>)"
    "itf_read (l1d_flush_mst exu) = Some (x8, h) \<Longrightarrow> exu_inv (exu\<lparr>l1d_flush_mst := h\<rparr>)"
    "itf_write (l1d_flush_ack_slv exu) x9 = Some i \<Longrightarrow> exu_inv (exu\<lparr>l1d_flush_ack_slv := i\<rparr>)"
    "itf_read (l1i_flush_mst exu) = Some (x10, j) \<Longrightarrow> exu_inv (exu\<lparr>l1i_flush_mst := j\<rparr>)"
    "itf_write (l1i_flush_ack_slv exu) x11 = Some k \<Longrightarrow> exu_inv (exu\<lparr>l1i_flush_ack_slv := k\<rparr>)"
    "exu_inv (exu_trap_ctrl_cb exu p epc w)"
  using assms by (simp_all add: exu_inv_defs exu_trap_ctrl_cb_def exu_publish_state_def)
    (blast dest: itf_write_inv itf_read_inv)+

lemma run_inv: "exu_run exu csr n \<Longrightarrow> exu_inv exu"
proof (induction rule: exu_run.induct)
  case (reset rand csr)
  then show ?case by (simp add: exu_inv_defs exu_reset_def exu_publish_state_def hart_exu_def gpr_ok_def)
next
  case (tick exu csr n exu' csr')
  then show ?case using exu_clock_inv by blast
qed (blast intro: port_steps_inv)+

lemma run_txn: "exu_run exu csr n \<Longrightarrow> txn_inv exu n"
proof (induction rule: exu_run.induct)
  case (reset rand csr)
  then show ?case by (simp add: txn_inv_def exu_reset_def exu_publish_state_def hart_exu_def fifo_itf_construct_def)
next
  case (tick exu csr n exu' csr')
  then show ?case using exu_clock_txn run_inv by blast
qed (auto simp: txn_inv_def exu_trap_ctrl_cb_def exu_publish_state_def of_bool_def split: if_splits
    dest!: itf_write_num itf_read_num)

section \<open>What a tick may issue\<close>

definition exu_issues :: "exu \<Rightarrow> bool" where
  "exu_issues exu \<longleftrightarrow> fence_i_stage exu = FENCE_I_STAGE_IDLE \<and> itf_fifo_empty (fl_req_slv exu)
     \<and> \<not> itf_fifo_empty (ex_req_slv exu) \<and> \<not> exu_wfi exu \<and> \<not> ldst_req_pend exu
     \<and> amo_stage exu = AMO_STAGE_IDLE
     \<and> \<not> (\<exists>req. itf_fifo_get_front (ex_req_slv exu) = Some req \<and> exu_ldst_issue_blocked exu req)"

definition front_frame :: "exu \<Rightarrow> exu \<Rightarrow> bool" where
  "front_frame exu exu' \<longleftrightarrow> perf_exec_inst exu' = perf_exec_inst exu \<and> ex_req_slv exu' = ex_req_slv exu
     \<and> fl_req_slv exu' = fl_req_slv exu"

lemma front_frame_refl [simp]: "front_frame exu exu"
  by (simp add: front_frame_def)

lemma front_frame_trans: "front_frame a b \<Longrightarrow> front_frame b c \<Longrightarrow> front_frame a c"
  by (simp add: front_frame_def)

lemma front_frame_upd: "front_frame exu (upd_gpr exu i v)"
  by (simp add: front_frame_def)

lemma alu_front: "alu_ex_req_proc exu req = Some exu' \<Longrightarrow> gpr_ok exu \<Longrightarrow> front_frame exu exu'"
  by (drule (1) alu_only_rd) (auto simp: alu_result_def front_frame_def)

lemma branch_front:
  assumes "branch_ex_req_proc exu req = Some exu'" "gpr_ok exu"
  shows "front_frame exu exu'"
proof (cases "itf_fifo_full (ex_rsp_mst exu)")
  case True
  with assms show ?thesis by (simp add: branch_ex_req_proc_def)
next
  case False
  with assms(1) branch_ex_req_proc_sem [OF assms(2) False, of req] show ?thesis
    by (auto simp: front_frame_def ctrl_link_def split: option.splits if_splits)
qed

lemma sys_parts_front:
  "exu_send_expt exu ty c pc tv = Some exu' \<Longrightarrow> front_frame exu exu'"
  "set_gpr exu i v = Some exu' \<Longrightarrow> front_frame exu exu'"
  "notify_translation_csr_write exu addr = Some exu' \<Longrightarrow> front_frame exu exu'"
  by (auto simp: exu_send_expt_def notify_translation_csr_write_def front_frame_def
      split: if_splits bind_splits dest!: set_gpr_SomeD)

lemma csr_scheme_front: "csr_scheme exu csr req = Some (exu', csr') \<Longrightarrow> front_frame exu exu'"
  unfolding csr_scheme_def Let_def csr_access_trap_def
  by (auto split: if_splits bind_splits dest!: sys_parts_front intro: front_frame_trans)

lemma priv_group_front: "priv_group_ex_req_handler exu req = Some exu' \<Longrightarrow> front_frame exu exu'"
  unfolding priv_group_ex_req_handler_def Let_def ecall_ex_req_handler_def ebreak_ex_req_handler_def
    sret_ex_req_handler_def mret_ex_req_handler_def
  by (auto split: if_splits bind_splits dest!: sys_parts_front(1)
      simp: sfence_vma_ex_req_handler_def wfi_ex_req_handler_def front_frame_def)

lemma sys_front:
  assumes "sys_ex_req_proc exu csr req = Some (exu', csr')" "gpr_ok exu"
  shows "front_frame exu exu'"
proof (cases "inst_funct3 (er_inst req) \<in> {0, 4}")
  case True
  with assms(1) priv_group_front show ?thesis
    by (auto simp: sys_ex_req_proc_def sys_group_ex_req_handler_def split: if_splits)
next
  case False
  have "inst_opcode (er_inst req) = OPCODE_SYSTEM"
    using assms(1) by (simp add: sys_ex_req_proc_def split: if_splits)
  with False assms csr_scheme_front csr_handlers_scheme [OF _ refl] show ?thesis by metis
qed

lemma misc_front: "misc_ex_req_proc exu req = Some exu' \<Longrightarrow> front_frame exu exu'"
  by (auto simp: misc_ex_req_proc_def lui_ex_req_handler_def auipc_ex_req_handler_def
      fence_ex_req_handler_def fence_i_ex_req_handler_def exu_start_fence_i_def cbo_ex_req_handler_def
      front_frame_def Let_def split: if_splits bind_splits dest!: set_gpr_SomeD)

lemma mem_front:
  "ldst_ex_req_proc exu req = Some exu' \<Longrightarrow> front_frame exu exu'"
  "ldst_biu_rsp_proc exu rsp = Some exu' \<Longrightarrow> front_frame exu exu'"
  by (auto simp: ldst_ex_req_proc_def ldst_biu_rsp_proc_def load_group_biu_rsp_handler_def load_rsp_defs
      front_frame_def Let_def split: if_splits bind_splits dest!: set_gpr_SomeD)

lemma amo_front: "amo_ex_req_proc exu req = Some exu' \<Longrightarrow> front_frame exu exu'"
  by (auto simp: amo_ex_req_proc_def lr_ex_req_handler_def sc_ex_req_handler_def
      AMO_EX_REQ_HANDLER_TEMPLATE_def front_frame_def Let_def split: if_splits bind_splits
      dest!: set_gpr_SomeD)

lemma amo_rsp_front: "amo_biu_rsp_proc exu rsp = Some exu' \<Longrightarrow> front_frame exu exu'"
  by (auto simp: amo_biu_rsp_proc_def lr_biu_rsp_handler_def sc_biu_rsp_handler_def
      AMO_BIU_RSP_HANDLER_TEMPLATE_def front_frame_def Let_def
      split: if_splits bind_splits amo_stage.splits dest!: set_gpr_SomeD)

lemma biu_rsp_front:
  assumes "exu_proc_biu_rsp exu = Some exu'"
  shows "front_frame exu exu'"
proof (cases "itf_fifo_empty (ldst_rsp_slv exu)")
  case True
  with assms show ?thesis by (simp add: exu_proc_biu_rsp_def)
next
  case False
  then obtain rsp t where r: "itf_read (ldst_rsp_slv exu) = Some (rsp, t)"
    using assms(1) by (auto simp: exu_proc_biu_rsp_def split: bind_splits)
  have "front_frame exu (exu\<lparr>ldst_rsp_slv := t\<rparr>)" by (simp add: front_frame_def)
  moreover have "front_frame (exu\<lparr>ldst_rsp_slv := t\<rparr>) exu'"
    using assms r False mem_front(2) amo_rsp_front
    by (auto simp: exu_proc_biu_rsp_def Let_def front_frame_def split: if_splits)
  ultimately show ?thesis by (rule front_frame_trans)
qed

lemma execute_front:
  assumes "exu_execute exu csr req = Some (exu', csr')" "gpr_ok exu"
  shows "perf_exec_inst exu' = perf_exec_inst exu + 1 \<and> ex_req_slv exu' = ex_req_slv exu"
proof -
  let ?exu = "exu\<lparr>cur_pc := er_pc req, irq_epc := er_pc req + 4\<rparr>"
  have ok: "gpr_ok ?exu" using assms(2) by simp
  obtain proc exu1 where run: "ex_req_procs (inst_opcode (er_inst req)) = Some proc"
    "proc ?exu csr req = Some (exu1, csr')" and exu': "exu' = exu1\<lparr>perf_exec_inst := perf_exec_inst exu1 + 1\<rparr>"
    using assms(1) by (auto simp: exu_execute_def split: bind_splits)
  from ex_req_procs_cases [OF run] have "front_frame ?exu exu1"
    using misc_front mem_front(1) amo_front alu_front [OF _ ok] branch_front [OF _ ok] sys_front [OF _ ok]
    by blast
  with exu' show ?thesis by (simp add: front_frame_def)
qed

lemma proc_ex_req_cases:
  assumes "exu_proc_ex_req exu csr = Some (exu', csr')" "fence_i_stage exu = FENCE_I_STAGE_IDLE"
  shows "if exu_issues exu
    then \<exists>req t. itf_read (ex_req_slv exu) = Some (req, t)
      \<and> exu_execute (exu\<lparr>ex_req_slv := t\<rparr>) csr req = Some (exu', csr')
    else csr' = csr \<and> perf_exec_inst exu' = perf_exec_inst exu \<and> exu_gpr exu' = exu_gpr exu
      \<and> ldst_rsp_slv exu' = ldst_rsp_slv exu"
  using assms
  by (auto simp: exu_proc_ex_req_def exu_issues_def Let_def split: if_splits bind_splits)

lemma fence_i_front: "exu_proc_fence_i_flush exu = Some (b, exu') \<Longrightarrow> front_frame exu exu' \<and> exu_gpr exu' = exu_gpr exu
    \<and> b = (fence_i_stage exu \<noteq> FENCE_I_STAGE_IDLE) \<and> (\<not> b \<longrightarrow> exu' = exu) \<and> ldst_rsp_slv exu' = ldst_rsp_slv exu"
  by (auto simp: exu_proc_fence_i_flush_def front_frame_def split: fence_i_stage.splits if_splits bind_splits)

lemma clock_not_issuing:
  assumes "exu_clock exu csr = Some (exu', csr')" "\<not> exu_issues exu"
  shows "csr' = csr \<and> perf_exec_inst exu' = perf_exec_inst exu
    \<and> (itf_fifo_empty (ldst_rsp_slv exu) \<longrightarrow> exu_gpr exu' = exu_gpr exu)"
proof -
  from exu_clock_steps [OF assms(1)] obtain b exu1 exu2 exu3 where
    steps: "exu_proc_fence_i_flush exu = Some (b, exu1)"
    "(if \<not> b then exu_proc_ex_req exu1 csr else Some (exu1, csr)) = Some (exu2, csr')"
    "exu_proc_biu_rsp exu2 = Some exu3" "exu' = exu_publish_state exu3" by blast
  note f = fence_i_front [OF steps(1)]
  have 2: "csr' = csr \<and> perf_exec_inst exu2 = perf_exec_inst exu1 \<and> exu_gpr exu2 = exu_gpr exu1
    \<and> ldst_rsp_slv exu2 = ldst_rsp_slv exu1"
  proof (cases b)
    case True
    with steps(2) show ?thesis by simp
  next
    case False
    with f have idle: "fence_i_stage exu = FENCE_I_STAGE_IDLE" "exu1 = exu" by simp_all
    from proc_ex_req_cases [of exu csr exu2 csr'] steps(2) False idle assms(2) show ?thesis by auto
  qed
  have "exu_gpr exu3 = exu_gpr exu2" if "itf_fifo_empty (ldst_rsp_slv exu2)"
    using steps(3) that by (simp add: exu_proc_biu_rsp_def)
  with 2 f steps(4) biu_rsp_front [OF steps(3)] show ?thesis
    by (auto simp: front_frame_def exu_publish_state_def)
qed

lemma clock_issuing:
  assumes "exu_clock exu csr = Some (exu', csr')" "exu_issues exu" "exu_inv exu"
  shows "\<exists>req t exu1. itf_read (ex_req_slv exu) = Some (req, t)
    \<and> exu_execute (exu\<lparr>ex_req_slv := t\<rparr>) csr req = Some (exu1, csr')
    \<and> map_option exu_publish_state (exu_proc_biu_rsp exu1) = Some exu'
    \<and> perf_exec_inst exu' = perf_exec_inst exu + 1 \<and> ex_req_slv exu' = t"
proof -
  from exu_clock_steps [OF assms(1)] obtain b exu1 exu2 exu3 where
    steps: "exu_proc_fence_i_flush exu = Some (b, exu1)"
    "(if \<not> b then exu_proc_ex_req exu1 csr else Some (exu1, csr)) = Some (exu2, csr')"
    "exu_proc_biu_rsp exu2 = Some exu3" "exu' = exu_publish_state exu3" by blast
  have idle: "fence_i_stage exu = FENCE_I_STAGE_IDLE" using assms(2) by (simp add: exu_issues_def)
  with fence_i_front [OF steps(1)] have "exu1 = exu" "\<not> b" by simp_all
  with proc_ex_req_cases [of exu csr exu2 csr'] steps(2) idle assms(2) obtain req t where
    e: "itf_read (ex_req_slv exu) = Some (req, t)"
    "exu_execute (exu\<lparr>ex_req_slv := t\<rparr>) csr req = Some (exu2, csr')" by auto
  moreover have "gpr_ok (exu\<lparr>ex_req_slv := t\<rparr>)" using assms(3) by (simp add: exu_inv_def)
  note execute_front [OF e(2) this]
  ultimately show ?thesis
    using steps(3,4) biu_rsp_front [OF steps(3)] by (auto simp: front_frame_def exu_publish_state_def)
qed

section \<open>Properties\<close>

text \<open>
  C3. In every run of the execution unit between its neighbours, register x0 holds zero, at
  most one memory transaction is in flight (waiting in the request interface, held by the
  load/store unit, or answered in the response interface), and traps are deferred exactly
  while one is. A load or store and an atomic are never outstanding together.
\<close>

theorem exu_single_transaction:
  assumes "exu_run exu csr n"
  shows "gpr_of exu 0 = 0 \<and> length (exu_gpr exu) = 32
    \<and> pkt_num (ldst_req_mst exu) + n + pkt_num (ldst_rsp_slv exu) = of_bool (trap_defer exu)
    \<and> trap_defer exu = (ldst_req_pend exu \<or> amo_stage exu \<noteq> AMO_STAGE_IDLE)
    \<and> \<not> (ldst_req_pend exu \<and> amo_stage exu \<noteq> AMO_STAGE_IDLE)"
  using run_inv [OF assms] run_txn [OF assms] by (auto simp: exu_inv_defs txn_inv_def gpr_ok_def gpr_of_def)

text \<open>An \<^verbatim>\<open>lh\<close> is written to the unit after reset and issued by the next tick.\<close>

abbreviation start_exu :: exu where
  "start_exu \<equiv> (exu_reset (\<lambda>_. 0x1002) hart_exu)
     \<lparr>ex_req_slv := the (itf_write (ex_req_slv (exu_reset (\<lambda>_. 0x1002) hart_exu)) lh_req)\<rparr>"

abbreviation issued :: "exu \<times> csr" where
  "issued \<equiv> the (exu_clock start_exu hart_csr)"

lemma start_exu_run: "exu_run start_exu hart_csr 0"
proof -
  have "itf_write (ex_req_slv (exu_reset (\<lambda>_. 0x1002) hart_exu)) lh_req \<noteq> None"
    by (simp add: exu_reset_def exu_publish_state_def hart_exu_def exec_defs)
  then obtain t where "itf_write (ex_req_slv (exu_reset (\<lambda>_. 0x1002) hart_exu)) lh_req = Some t" by blast
  from exu_run.ifu_inst [OF exu_run.reset this] this show ?thesis by simp
qed

lemma start_exu_clock: "exu_clock start_exu hart_csr = Some (fst issued, snd issued)"
proof -
  have "exu_clock start_exu hart_csr \<noteq> None" by code_simp
  then show ?thesis by simp
qed

theorem exu_single_transaction_witness:
  "exu_run (fst issued) (snd issued) 0 \<and> trap_defer (fst issued)
    \<and> pkt_num (ldst_req_mst (fst issued)) + 0 + pkt_num (ldst_rsp_slv (fst issued)) = 1"
proof -
  have run: "exu_run (fst issued) (snd issued) 0"
    by (rule exu_run.tick [OF start_exu_run start_exu_clock])
  have "trap_defer (fst issued)" by code_simp
  with run exu_single_transaction [OF run] show ?thesis by simp
qed

text \<open>
  C21. A tick executes an instruction exactly when one is waiting, no flush request is
  pending, no \<^verbatim>\<open>fence.i\<close> is in progress, the hart does not wait for an interrupt, no memory
  access or atomic is outstanding, and a load or store finds its request interface free. It
  then takes the oldest instruction, executes it once, and counts it once. Any other tick
  executes nothing: the CSRs and the instruction count stay, and without a memory response
  the registers stay too.
\<close>

theorem exu_issue_rules:
  assumes "exu_run exu csr n" "exu_clock exu csr = Some (exu', csr')"
  shows "if exu_issues exu
    then \<exists>req t exu1. itf_read (ex_req_slv exu) = Some (req, t)
      \<and> exu_execute (exu\<lparr>ex_req_slv := t\<rparr>) csr req = Some (exu1, csr')
      \<and> map_option exu_publish_state (exu_proc_biu_rsp exu1) = Some exu'
      \<and> perf_exec_inst exu' = perf_exec_inst exu + 1 \<and> ex_req_slv exu' = t
    else csr' = csr \<and> perf_exec_inst exu' = perf_exec_inst exu
      \<and> (itf_fifo_empty (ldst_rsp_slv exu) \<longrightarrow> exu_gpr exu' = exu_gpr exu)"
  using clock_issuing [OF assms(2) _ run_inv [OF assms(1)]] clock_not_issuing [OF assms(2)] by simp

theorem exu_issue_rules_witness:
  "\<not> exu_issues (fst issued) \<and> exu_issues start_exu \<and> perf_exec_inst (fst issued) = 1"
proof -
  have i: "exu_issues start_exu"
    by (auto simp: exu_issues_def exu_ldst_issue_blocked_def Let_def exu_reset_def exu_publish_state_def hart_exu_def exec_defs)
  have "perf_exec_inst start_exu = 0" by (simp add: exu_reset_def exu_publish_state_def)
  with exu_issue_rules [OF start_exu_run start_exu_clock] i have "perf_exec_inst (fst issued) = 1" by auto
  moreover have "ldst_req_pend (fst issued)" by code_simp
  ultimately show ?thesis using i by (simp add: exu_issues_def)
qed

section \<open>The fence.i sequence\<close>

lemma set_gpr_stage: "set_gpr exu i v = Some exu' \<Longrightarrow> fence_i_stage exu' = fence_i_stage exu"
  by (drule set_gpr_SomeD) simp

lemma rsp_stage:
  "ldst_biu_rsp_proc exu rsp = Some exu' \<Longrightarrow> fence_i_stage exu' = fence_i_stage exu"
  "amo_biu_rsp_proc exu rsp = Some exu' \<Longrightarrow> fence_i_stage exu' = fence_i_stage exu"
  by (auto simp: ldst_biu_rsp_proc_def load_group_biu_rsp_handler_def load_rsp_defs
      amo_biu_rsp_proc_def lr_biu_rsp_handler_def sc_biu_rsp_handler_def
      AMO_BIU_RSP_HANDLER_TEMPLATE_def Let_def
      split: if_splits bind_splits amo_stage.splits dest!: set_gpr_stage)

lemma biu_rsp_stage: "exu_proc_biu_rsp exu = Some exu' \<Longrightarrow> fence_i_stage exu' = fence_i_stage exu"
  by (auto simp: exu_proc_biu_rsp_def Let_def split: if_splits bind_splits dest!: rsp_stage)

text \<open>
  While a \<^verbatim>\<open>fence.i\<close> is in progress no tick issues an instruction or changes a CSR, and
  the sequence moves on in one order only: the data cache's acknowledgement, then the flush
  request to the instruction cache, then that cache's acknowledgement, then one last tick.
  A tick without the awaited event leaves the stage as it is, so the sequence waits and
  never skips the write-back of the data cache.
\<close>

theorem fence_i_order:
  assumes "exu_clock exu csr = Some (exu', csr')" "fence_i_stage exu \<noteq> FENCE_I_STAGE_IDLE"
  shows "csr' = csr \<and> perf_exec_inst exu' = perf_exec_inst exu \<and> ex_req_slv exu' = ex_req_slv exu
    \<and> fence_i_stage exu' = (case fence_i_stage exu of
        FENCE_I_STAGE_WAIT_D_ACK \<Rightarrow>
          if itf_fifo_empty (l1d_flush_ack_slv exu) then FENCE_I_STAGE_WAIT_D_ACK else FENCE_I_STAGE_SEND_I_FLUSH
      | FENCE_I_STAGE_SEND_I_FLUSH \<Rightarrow>
          if itf_fifo_full (l1i_flush_mst exu) then FENCE_I_STAGE_SEND_I_FLUSH else FENCE_I_STAGE_WAIT_I_ACK
      | FENCE_I_STAGE_WAIT_I_ACK \<Rightarrow>
          if itf_fifo_empty (l1i_flush_ack_slv exu) then FENCE_I_STAGE_WAIT_I_ACK else FENCE_I_STAGE_DONE
      | _ \<Rightarrow> FENCE_I_STAGE_IDLE)"
proof -
  from exu_clock_steps [OF assms(1)] obtain b exu1 exu2 exu3 where
    steps: "exu_proc_fence_i_flush exu = Some (b, exu1)"
    "(if \<not> b then exu_proc_ex_req exu1 csr else Some (exu1, csr)) = Some (exu2, csr')"
    "exu_proc_biu_rsp exu2 = Some exu3" "exu' = exu_publish_state exu3" by blast
  have "exu2 = exu1" "csr' = csr" using fence_i_front [OF steps(1)] assms(2) steps(2) by simp_all
  moreover from steps(1) assms(2) have "fence_i_stage exu1 = (case fence_i_stage exu of
        FENCE_I_STAGE_WAIT_D_ACK \<Rightarrow>
          if itf_fifo_empty (l1d_flush_ack_slv exu) then FENCE_I_STAGE_WAIT_D_ACK else FENCE_I_STAGE_SEND_I_FLUSH
      | FENCE_I_STAGE_SEND_I_FLUSH \<Rightarrow>
          if itf_fifo_full (l1i_flush_mst exu) then FENCE_I_STAGE_SEND_I_FLUSH else FENCE_I_STAGE_WAIT_I_ACK
      | FENCE_I_STAGE_WAIT_I_ACK \<Rightarrow>
          if itf_fifo_empty (l1i_flush_ack_slv exu) then FENCE_I_STAGE_WAIT_I_ACK else FENCE_I_STAGE_DONE
      | _ \<Rightarrow> FENCE_I_STAGE_IDLE)"
    by (auto simp: exu_proc_fence_i_flush_def split: fence_i_stage.splits if_splits bind_splits)
  ultimately show ?thesis
    using fence_i_front [OF steps(1)] biu_rsp_front [OF steps(3)] biu_rsp_stage [OF steps(3)] steps(4)
    by (simp add: front_frame_def exu_publish_state_def)
qed

theorem fence_i_order_witness:
  "let exu = hart_exu\<lparr>fence_i_stage := FENCE_I_STAGE_SEND_I_FLUSH\<rparr> in
    exu_clock exu hart_csr \<noteq> None
    \<and> fence_i_stage (fst (the (exu_clock exu hart_csr))) = FENCE_I_STAGE_WAIT_I_ACK"
proof -
  let ?exu = "hart_exu\<lparr>fence_i_stage := FENCE_I_STAGE_SEND_I_FLUSH\<rparr>"
  have ne: "exu_clock ?exu hart_csr \<noteq> None" by code_simp
  then have "exu_clock ?exu hart_csr = Some (fst (the (exu_clock ?exu hart_csr)), snd (the (exu_clock ?exu hart_csr)))"
    by simp
  from fence_i_order [OF this] ne show ?thesis by (simp add: Let_def hart_exu_def)
qed

end
