(* ===== verification/Trap.thy ===== *)
theory Trap
  imports ExuSys
begin

text \<open>
  The trap unit (\<^verbatim>\<open>core/hart/trap.c\<close>): delegation, trap entry, trap return, and the choice
  between exceptions and interrupts in a clock tick. The unit writes CSRs and the state of
  the execution unit through signals whose callbacks run at once, so it acts on a state that
  holds the three modules. The exception interface from the execution unit is one object for
  both ends; it lives in the execution unit's record.
\<close>

record trap =
  fch_expt_slv :: "hart_expt itf"
  ldst_expt_slv :: "hart_expt itf"
  trap_send_mst :: "trap_send itf"

record hart =
  h_exu :: exu
  h_csr :: csr
  h_trap :: trap

abbreviation (input) EPC_ALIGN_MASK :: u32 where "EPC_ALIGN_MASK \<equiv> NOT 3"

definition trap_mstatus :: "hart \<Rightarrow> u32" where
  "trap_mstatus s = ct_mstatus (trap_state_o (h_csr s))"

definition trap_write_csr :: "hart \<Rightarrow> u32 \<Rightarrow> u32 \<Rightarrow> hart option" where
  "trap_write_csr s addr val = do {
     let (ok, csr) = csr_trap_write_cb (h_csr s) addr val;
     DBG_CHECK ok;
     Some (s\<lparr>h_csr := csr\<rparr>)
   }"

definition trap_update_exu :: "hart \<Rightarrow> priv \<Rightarrow> u32 \<Rightarrow> bool \<Rightarrow> hart" where
  "trap_update_exu s priv epc wfi = s\<lparr>h_exu := exu_trap_ctrl_cb (h_exu s) priv epc wfi\<rparr>"

definition trap_send_redirect :: "hart \<Rightarrow> u32 \<Rightarrow> hart option" where
  "trap_send_redirect s target_pc = do {
     t \<leftarrow> itf_write (trap_send_mst (h_trap s)) \<lparr>ts_target_pc = target_pc\<rparr>;
     Some (s\<lparr>h_trap := (h_trap s)\<lparr>trap_send_mst := t\<rparr>\<rparr>)
   }"

definition trap_compute_tvec_pc :: "u32 \<Rightarrow> bool \<Rightarrow> u32 \<Rightarrow> u32" where
  "trap_compute_tvec_pc raw is_interrupt cause = (let base = push_bit 2 (bf 2 30 raw) in
     if is_interrupt \<and> bf 0 2 raw = 1 then base + cause * 4 else base)"

definition trap_compute_stvec_pc :: "u32 \<Rightarrow> bool \<Rightarrow> u32 \<Rightarrow> u32" where
  "trap_compute_stvec_pc raw is_interrupt cause = (let base = push_bit 2 (bf 2 30 raw) in
     if is_interrupt \<and> bf 0 2 raw = 1 then base + cause * 4 else base)"

definition trap_is_delegated_to_s :: "hart \<Rightarrow> priv \<Rightarrow> bool \<Rightarrow> u32 \<Rightarrow> bool" where
  "trap_is_delegated_to_s s src_priv is_interrupt cause =
     (if src_priv = RV32G_PRIV_MACHINE then False
      else let deleg = (if is_interrupt then ct_mideleg (trap_state_o (h_csr s))
                        else ct_medeleg (trap_state_o (h_csr s)))
           in drop_bit (unat cause) deleg AND 1 \<noteq> 0)"

definition trap_enter_m_mode :: "hart \<Rightarrow> priv \<Rightarrow> u32 \<Rightarrow> bool \<Rightarrow> u32 \<Rightarrow> u32 \<Rightarrow> hart option" where
  "trap_enter_m_mode s src_priv cause is_interrupt epc tval = do {
     let mstatus = trap_mstatus s;
     let mstatus = bf_set 7 1 (bf 3 1 mstatus) mstatus;
     let mstatus = bf_set 11 2 src_priv mstatus;
     let mstatus = bf_set 3 1 0 mstatus;
     let mcause = bf_set 0 31 cause 0;
     let mcause = bf_set 31 1 (if is_interrupt then 1 else 0) mcause;
     s \<leftarrow> trap_write_csr s CSR_MSTATUS mstatus;
     s \<leftarrow> trap_write_csr s CSR_MCAUSE mcause;
     s \<leftarrow> trap_write_csr s CSR_MEPC (epc AND EPC_ALIGN_MASK);
     s \<leftarrow> trap_write_csr s CSR_MTVAL tval;
     let target_pc = trap_compute_tvec_pc (ct_mtvec (trap_state_o (h_csr s))) is_interrupt cause;
     let s = trap_update_exu s RV32G_PRIV_MACHINE target_pc False;
     trap_send_redirect s target_pc
   }"

definition trap_enter_s_mode :: "hart \<Rightarrow> priv \<Rightarrow> u32 \<Rightarrow> bool \<Rightarrow> u32 \<Rightarrow> u32 \<Rightarrow> hart option" where
  "trap_enter_s_mode s src_priv cause is_interrupt epc tval = do {
     let mstatus = trap_mstatus s;
     let mstatus = bf_set 5 1 (bf 1 1 mstatus) mstatus;
     let mstatus = bf_set 8 1 (if src_priv = RV32G_PRIV_SUPERVISOR then 1 else 0) mstatus;
     let mstatus = bf_set 1 1 0 mstatus;
     let scause = bf_set 0 31 cause 0;
     let scause = bf_set 31 1 (if is_interrupt then 1 else 0) scause;
     s \<leftarrow> trap_write_csr s CSR_MSTATUS mstatus;
     s \<leftarrow> trap_write_csr s CSR_SCAUSE scause;
     s \<leftarrow> trap_write_csr s CSR_SEPC (epc AND EPC_ALIGN_MASK);
     s \<leftarrow> trap_write_csr s CSR_STVAL tval;
     let target_pc = trap_compute_stvec_pc (ct_stvec (trap_state_o (h_csr s))) is_interrupt cause;
     let s = trap_update_exu s RV32G_PRIV_SUPERVISOR target_pc False;
     trap_send_redirect s target_pc
   }"

definition trap_take :: "hart \<Rightarrow> priv \<Rightarrow> u32 \<Rightarrow> bool \<Rightarrow> u32 \<Rightarrow> u32 \<Rightarrow> hart option" where
  "trap_take s src_priv cause is_interrupt epc tval =
     (if trap_is_delegated_to_s s src_priv is_interrupt cause
      then trap_enter_s_mode s src_priv cause is_interrupt epc tval
      else trap_enter_m_mode s src_priv cause is_interrupt epc tval)"

definition trap_do_mret :: "hart \<Rightarrow> hart option" where
  "trap_do_mret s = do {
     let mstatus = trap_mstatus s;
     let prev_priv = bf 11 2 mstatus;
     let mstatus = bf_set 3 1 (bf 7 1 mstatus) mstatus;
     let mstatus = bf_set 7 1 1 mstatus;
     let mstatus = bf_set 11 2 RV32G_PRIV_USER mstatus;
     let mstatus = (if prev_priv \<noteq> RV32G_PRIV_MACHINE then bf_set 17 1 0 mstatus else mstatus);
     s \<leftarrow> trap_write_csr s CSR_MSTATUS mstatus;
     let target_pc = ct_mepc (trap_state_o (h_csr s)) AND EPC_ALIGN_MASK;
     let s = trap_update_exu s prev_priv target_pc False;
     trap_send_redirect s target_pc
   }"

definition trap_do_sret :: "hart \<Rightarrow> hart option" where
  "trap_do_sret s = do {
     let mstatus = trap_mstatus s;
     let prev_priv = (if bf 8 1 mstatus \<noteq> 0 then RV32G_PRIV_SUPERVISOR else RV32G_PRIV_USER);
     let mstatus = bf_set 1 1 (bf 5 1 mstatus) mstatus;
     let mstatus = bf_set 5 1 1 mstatus;
     let mstatus = bf_set 8 1 0 mstatus;
     let mstatus = bf_set 17 1 0 mstatus;
     s \<leftarrow> trap_write_csr s CSR_MSTATUS mstatus;
     let target_pc = ct_sepc (trap_state_o (h_csr s)) AND EPC_ALIGN_MASK;
     let s = trap_update_exu s prev_priv target_pc False;
     trap_send_redirect s target_pc
   }"

definition trap_handle_exception :: "hart \<Rightarrow> hart_expt \<Rightarrow> hart option" where
  "trap_handle_exception s expt = (case he_type expt of
     HART_EXPT_TYPE_MRET \<Rightarrow> trap_do_mret s
   | HART_EXPT_TYPE_SRET \<Rightarrow> trap_do_sret s
   | HART_EXPT_TYPE_EXCEPTION \<Rightarrow> do {
       cause \<leftarrow> (if he_cause expt = HART_EXPT_CAUSE_ECALL then
                  (if he_priv expt = RV32G_PRIV_USER then Some 8
                   else if he_priv expt = RV32G_PRIV_SUPERVISOR then Some 9
                   else if he_priv expt = RV32G_PRIV_MACHINE then Some 11
                   else None)
                else Some (he_cause expt));
       trap_take s (he_priv expt) cause False (he_pc expt) (he_tval expt)
     })"

text \<open>The sources are tried in the order of the array: execution, load/store, then fetch.\<close>

definition trap_proc_exception :: "hart \<Rightarrow> (bool \<times> hart) option" where
  "trap_proc_exception s =
     (if \<not> itf_fifo_empty (ex_expt_mst (h_exu s)) then do {
        (expt, t) \<leftarrow> itf_read (ex_expt_mst (h_exu s));
        s \<leftarrow> trap_handle_exception (s\<lparr>h_exu := (h_exu s)\<lparr>ex_expt_mst := t\<rparr>\<rparr>) expt;
        Some (True, s)
      }
      else if \<not> itf_fifo_empty (ldst_expt_slv (h_trap s)) then do {
        (expt, t) \<leftarrow> itf_read (ldst_expt_slv (h_trap s));
        s \<leftarrow> trap_handle_exception (s\<lparr>h_trap := (h_trap s)\<lparr>ldst_expt_slv := t\<rparr>\<rparr>) expt;
        Some (True, s)
      }
      else if \<not> es_trap_defer (exu_state_o (h_exu s)) \<and> \<not> itf_fifo_empty (fch_expt_slv (h_trap s)) then do {
        (expt, t) \<leftarrow> itf_read (fch_expt_slv (h_trap s));
        s \<leftarrow> trap_handle_exception (s\<lparr>h_trap := (h_trap s)\<lparr>fch_expt_slv := t\<rparr>\<rparr>) expt;
        Some (True, s)
      }
      else Some (False, s))"

text \<open>\<open>None\<close> is the return value \<^verbatim>\<open>-1\<close>.\<close>

definition trap_pending_irq :: "hart \<Rightarrow> u32 option" where
  "trap_pending_irq s = (
     let cs = trap_state_o (h_csr s);
         pending = ct_mip cs AND ct_mie cs in
     if pending = 0 then None
     else
     let mstatus = trap_mstatus s;
         priv = es_priv (exu_state_o (h_exu s));
         m_ie = (if priv = RV32G_PRIV_MACHINE then bf 3 1 mstatus \<noteq> 0 else True);
         s_ie = (if priv = RV32G_PRIV_SUPERVISOR then bf 1 1 mstatus \<noteq> 0
                 else priv < RV32G_PRIV_SUPERVISOR);
         m_enabled = pending AND NOT (ct_mideleg cs);
         s_enabled = pending AND ct_mideleg cs;
         s_part = (if s_ie \<and> s_enabled \<noteq> 0 then
             (if s_enabled AND 0x200 \<noteq> 0 then Some 9
              else if s_enabled AND 0x2 \<noteq> 0 then Some 1
              else if s_enabled AND 0x20 \<noteq> 0 then Some 5
              else if s_enabled AND 0x2000 \<noteq> 0 then Some 13
              else None)
           else None)
     in if m_ie \<and> m_enabled \<noteq> 0 then
          (if m_enabled AND 0x800 \<noteq> 0 then Some 11
           else if m_enabled AND 0x8 \<noteq> 0 then Some 3
           else if m_enabled AND 0x80 \<noteq> 0 then Some 7
           else if m_enabled AND 0x200 \<noteq> 0 then Some 9
           else if m_enabled AND 0x2 \<noteq> 0 then Some 1
           else if m_enabled AND 0x20 \<noteq> 0 then Some 5
           else if m_enabled AND 0x2000 \<noteq> 0 then Some 13
           else s_part)
        else s_part)"

definition trap_proc_interrupt :: "hart \<Rightarrow> hart option" where
  "trap_proc_interrupt s = (let es = exu_state_o (h_exu s); cs = trap_state_o (h_csr s) in
     if es_trap_defer es then Some s
     else let wake = (ct_mip cs AND ct_mie cs \<noteq> 0) in
       case trap_pending_irq s of
         None \<Rightarrow>
           if es_wfi es \<and> wake then
             let epc = es_wfi_resume_pc es
             in trap_send_redirect (trap_update_exu s (es_priv es) epc False) epc
           else Some s
       | Some irq \<Rightarrow>
           let epc = (if es_wfi es then es_wfi_resume_pc es else es_irq_epc es)
           in trap_take s (es_priv es) irq True epc 0)"

definition trap_clock :: "hart \<Rightarrow> hart option" where
  "trap_clock s = do {
     (done, s) \<leftarrow> trap_proc_exception s;
     if \<not> done then trap_proc_interrupt s else Some s
   }"

section \<open>CSR writes of the trap unit\<close>

lemma publish_regs_upd [simp]:
  "csr_publish_state ((csr_publish_state csr)\<lparr>regs := r\<rparr>) = csr_publish_state (csr\<lparr>regs := r\<rparr>)"
  by (simp add: csr_publish_state_def Let_def)

lemma trap_csrs_writable:
  "csr_find CSR_MSTATUS = Some (3, True)" "csr_find CSR_MCAUSE = Some (3, True)"
  "csr_find CSR_MEPC = Some (3, True)" "csr_find CSR_MTVAL = Some (3, True)"
  "csr_find CSR_SCAUSE = Some (1, True)" "csr_find CSR_SEPC = Some (1, True)"
  "csr_find CSR_STVAL = Some (1, True)"
  by code_simp+

lemma trap_write_csr_eq:
  assumes "csr_find addr = Some (p, True)" "p \<le> 3"
  shows "trap_write_csr s addr v = Some (s\<lparr>h_csr := csr_publish_state ((h_csr s)\<lparr>regs :=
    csr_sync_supervisor_aliases ((regs (h_csr s))(addr := v)) addr\<rparr>)\<rparr>)"
  using assms
  by (simp add: trap_write_csr_def csr_trap_write_cb_def rv32g_csr_write_def Let_def not_less [symmetric])

lemma sync_mstatus: "csr_sync_supervisor_aliases (r(CSR_MSTATUS := v)) CSR_MSTATUS
    = r(CSR_MSTATUS := v, CSR_SSTATUS := copy_status_fields v (r CSR_SSTATUS))"
  by (simp add: csr_sync_supervisor_aliases_def sync_sstatus_from_mstatus_def)

lemma sync_other:
  "csr_sync_supervisor_aliases r CSR_MCAUSE = r" "csr_sync_supervisor_aliases r CSR_MEPC = r"
  "csr_sync_supervisor_aliases r CSR_MTVAL = r" "csr_sync_supervisor_aliases r CSR_SCAUSE = r"
  "csr_sync_supervisor_aliases r CSR_SEPC = r" "csr_sync_supervisor_aliases r CSR_STVAL = r"
  by (simp_all add: csr_sync_supervisor_aliases_def)

lemmas trap_csr_writes =
  trap_write_csr_eq [OF trap_csrs_writable(1) order_refl, unfolded sync_mstatus]
  trap_write_csr_eq [OF trap_csrs_writable(2) order_refl, unfolded sync_other]
  trap_write_csr_eq [OF trap_csrs_writable(3) order_refl, unfolded sync_other]
  trap_write_csr_eq [OF trap_csrs_writable(4) order_refl, unfolded sync_other]
  trap_write_csr_eq [OF trap_csrs_writable(5), simplified, unfolded sync_other]
  trap_write_csr_eq [OF trap_csrs_writable(6), simplified, unfolded sync_other]
  trap_write_csr_eq [OF trap_csrs_writable(7), simplified, unfolded sync_other]

text \<open>The machine status words of trap entry and return, and the cause register.\<close>

definition mstatus_enter_m :: "priv \<Rightarrow> u32 \<Rightarrow> u32" where
  "mstatus_enter_m p m = bf_set 3 1 0 (bf_set 11 2 p (bf_set 7 1 (bf 3 1 m) m))"

definition mstatus_enter_s :: "priv \<Rightarrow> u32 \<Rightarrow> u32" where
  "mstatus_enter_s p m = bf_set 1 1 0 (bf_set 8 1 (if p = RV32G_PRIV_SUPERVISOR then 1 else 0)
     (bf_set 5 1 (bf 1 1 m) m))"

definition mstatus_mret :: "u32 \<Rightarrow> u32" where
  "mstatus_mret m = (let m' = bf_set 11 2 0 (bf_set 7 1 1 (bf_set 3 1 (bf 7 1 m) m))
     in if bf 11 2 m \<noteq> 3 then bf_set 17 1 0 m' else m')"

definition mstatus_sret :: "u32 \<Rightarrow> u32" where
  "mstatus_sret m = bf_set 17 1 0 (bf_set 8 1 0 (bf_set 5 1 1 (bf_set 1 1 (bf 5 1 m) m)))"

definition cause_word :: "u32 \<Rightarrow> bool \<Rightarrow> u32" where
  "cause_word cause is_interrupt = bf_set 31 1 (if is_interrupt then 1 else 0) (bf_set 0 31 cause 0)"

text \<open>The registers after an entry to machine or supervisor mode.\<close>

definition regs_enter_m :: "csr_regs \<Rightarrow> priv \<Rightarrow> u32 \<Rightarrow> bool \<Rightarrow> u32 \<Rightarrow> u32 \<Rightarrow> csr_regs" where
  "regs_enter_m r p cause i epc tval = (let m = mstatus_enter_m p (r CSR_MSTATUS) in
     r(CSR_MSTATUS := m, CSR_SSTATUS := copy_status_fields m (r CSR_SSTATUS),
       CSR_MCAUSE := cause_word cause i, CSR_MEPC := epc AND EPC_ALIGN_MASK, CSR_MTVAL := tval))"

definition regs_enter_s :: "csr_regs \<Rightarrow> priv \<Rightarrow> u32 \<Rightarrow> bool \<Rightarrow> u32 \<Rightarrow> u32 \<Rightarrow> csr_regs" where
  "regs_enter_s r p cause i epc tval = (let m = mstatus_enter_s p (r CSR_MSTATUS) in
     r(CSR_MSTATUS := m, CSR_SSTATUS := copy_status_fields m (r CSR_SSTATUS),
       CSR_SCAUSE := cause_word cause i, CSR_SEPC := epc AND EPC_ALIGN_MASK, CSR_STVAL := tval))"

definition regs_status :: "csr_regs \<Rightarrow> u32 \<Rightarrow> csr_regs" where
  "regs_status r m = r(CSR_MSTATUS := m, CSR_SSTATUS := copy_status_fields m (r CSR_SSTATUS))"

definition redirect :: "hart \<Rightarrow> csr_regs \<Rightarrow> priv \<Rightarrow> u32 \<Rightarrow> hart option" where
  "redirect s r p pc = trap_send_redirect (s\<lparr>h_csr := csr_publish_state ((h_csr s)\<lparr>regs := r\<rparr>),
     h_exu := exu_trap_ctrl_cb (h_exu s) p pc False\<rparr>) pc"

lemma published_trap_mstatus: "csr_published (h_csr s) \<Longrightarrow> trap_mstatus s = regs (h_csr s) CSR_MSTATUS"
  by (simp add: trap_mstatus_def published_fields)

lemma enter_m_eq:
  assumes "csr_published (h_csr s)"
  shows "trap_enter_m_mode s p cause i epc tval = redirect s
    (regs_enter_m (regs (h_csr s)) p cause i epc tval) RV32G_PRIV_MACHINE
    (trap_compute_tvec_pc (regs (h_csr s) CSR_MTVEC) i cause)"
  by (simp add: trap_enter_m_mode_def trap_csr_writes redirect_def regs_enter_m_def mstatus_enter_m_def
      cause_word_def Let_def published_trap_mstatus [OF assms] publish_fields trap_update_exu_def)

lemma enter_s_eq:
  assumes "csr_published (h_csr s)"
  shows "trap_enter_s_mode s p cause i epc tval = redirect s
    (regs_enter_s (regs (h_csr s)) p cause i epc tval) RV32G_PRIV_SUPERVISOR
    (trap_compute_stvec_pc (regs (h_csr s) CSR_STVEC) i cause)"
  by (simp add: trap_enter_s_mode_def trap_csr_writes redirect_def regs_enter_s_def mstatus_enter_s_def
      cause_word_def Let_def published_trap_mstatus [OF assms] publish_fields trap_update_exu_def)

lemma mret_eq:
  assumes "csr_published (h_csr s)"
  shows "trap_do_mret s = redirect s (regs_status (regs (h_csr s)) (mstatus_mret (regs (h_csr s) CSR_MSTATUS)))
    (bf 11 2 (regs (h_csr s) CSR_MSTATUS)) (regs (h_csr s) CSR_MEPC AND EPC_ALIGN_MASK)"
  by (simp add: trap_do_mret_def trap_csr_writes redirect_def regs_status_def mstatus_mret_def
      Let_def published_trap_mstatus [OF assms] publish_fields trap_update_exu_def)

lemma sret_eq:
  assumes "csr_published (h_csr s)"
  shows "trap_do_sret s = redirect s (regs_status (regs (h_csr s)) (mstatus_sret (regs (h_csr s) CSR_MSTATUS)))
    (if bf 8 1 (regs (h_csr s) CSR_MSTATUS) \<noteq> 0 then RV32G_PRIV_SUPERVISOR else RV32G_PRIV_USER)
    (regs (h_csr s) CSR_SEPC AND EPC_ALIGN_MASK)"
  by (simp add: trap_do_sret_def trap_csr_writes redirect_def regs_status_def mstatus_sret_def
      Let_def published_trap_mstatus [OF assms] publish_fields trap_update_exu_def)

text \<open>Everything the trap unit ever does to the hart: new registers, a new mode and one redirect.\<close>

definition redirected :: "hart \<Rightarrow> csr_regs \<Rightarrow> priv \<Rightarrow> u32 \<Rightarrow> hart \<Rightarrow> bool" where
  "redirected s r p pc s' \<longleftrightarrow>
     regs (h_csr s') = r \<and> csr_published (h_csr s')
     \<and> h_exu s' = exu_trap_ctrl_cb (h_exu s) p pc False
     \<and> itf_inv (trap_send_mst (h_trap s'))
     \<and> itf_list (trap_send_mst (h_trap s')) = itf_list (trap_send_mst (h_trap s)) @ [\<lparr>ts_target_pc = pc\<rparr>]
     \<and> fch_expt_slv (h_trap s') = fch_expt_slv (h_trap s)
     \<and> ldst_expt_slv (h_trap s') = ldst_expt_slv (h_trap s)"

lemma redirect_ok:
  assumes "itf_inv (trap_send_mst (h_trap s))" "\<not> itf_fifo_full (trap_send_mst (h_trap s))"
  shows "\<exists>s'. redirect s r p pc = Some s' \<and> redirected s r p pc s'"
  using itf.push_ok [OF assms, of "\<lparr>ts_target_pc = pc\<rparr>"]
  by (auto simp: redirect_def trap_send_redirect_def redirected_def)

lemma redirect_SomeD:
  assumes "redirect s r p pc = Some s'" "itf_inv (trap_send_mst (h_trap s))"
  shows "redirected s r p pc s'"
  using assms itf.push_SomeD
  by (fastforce simp: redirect_def trap_send_redirect_def redirected_def split: bind_splits)

lemma exu_trap_ctrl_fields [simp]:
  "exu_priv (exu_trap_ctrl_cb exu p pc w) = p" "irq_epc (exu_trap_ctrl_cb exu p pc w) = pc"
  "exu_wfi (exu_trap_ctrl_cb exu p pc w) = w" "exu_gpr (exu_trap_ctrl_cb exu p pc w) = exu_gpr exu"
  "es_priv (exu_state_o (exu_trap_ctrl_cb exu p pc w)) = p"
  by (simp_all add: exu_trap_ctrl_cb_def exu_publish_state_def)

section \<open>Trap entry\<close>

lemma is_delegated_eq:
  assumes "csr_published (h_csr s)"
  shows "trap_is_delegated_to_s s p i cause \<longleftrightarrow> p \<noteq> RV32G_PRIV_MACHINE
    \<and> bit (regs (h_csr s) (if i then CSR_MIDELEG else CSR_MEDELEG)) (unat cause)"
proof -
  have "(x AND 1 = 0) = (\<not> bit (x :: u32) 0)" for x
    using and_single_bit [of x 0] by simp
  then show ?thesis
    using assms by (auto simp: trap_is_delegated_to_s_def published_fields bit_drop_bit_eq Let_def)
qed

text \<open>What the manual says of a trap: target mode, registers and the address control goes to.\<close>

definition trap_target_s :: "csr_regs \<Rightarrow> priv \<Rightarrow> bool \<Rightarrow> u32 \<Rightarrow> bool" where
  "trap_target_s r p i cause \<longleftrightarrow> p \<noteq> RV32G_PRIV_MACHINE
     \<and> bit (r (if i then CSR_MIDELEG else CSR_MEDELEG)) (unat cause)"

definition tvec_pc :: "u32 \<Rightarrow> bool \<Rightarrow> u32 \<Rightarrow> u32" where
  "tvec_pc tvec i cause = (tvec AND NOT 3) + (if i \<and> tvec AND 3 = 1 then 4 * cause else 0)"

lemma tvec_base: "push_bit 2 (bf 2 30 x) = x AND NOT 3" "bf 0 2 x = x AND 3"
proof -
  have three: "(3 :: u32) = mask 2" by (simp add: mask_numeral)
  show "push_bit 2 (bf 2 30 x) = x AND NOT 3" "bf 0 2 x = x AND 3"
    unfolding three
    by (auto intro!: bit_eqI simp: bit_push_bf bit_and_iff bit_not_iff bit_mask_iff bit_bf)
qed

lemma compute_tvec: "trap_compute_tvec_pc x i cause = tvec_pc x i cause"
  "trap_compute_stvec_pc x i cause = tvec_pc x i cause"
  by (simp_all add: trap_compute_tvec_pc_def trap_compute_stvec_pc_def tvec_pc_def tvec_base Let_def
      mult.commute)

lemma trap_take_eq:
  assumes "csr_published (h_csr s)"
  shows "trap_take s p cause i epc tval = (let r = regs (h_csr s) in
    if trap_target_s r p i cause
    then redirect s (regs_enter_s r p cause i epc tval) RV32G_PRIV_SUPERVISOR (tvec_pc (r CSR_STVEC) i cause)
    else redirect s (regs_enter_m r p cause i epc tval) RV32G_PRIV_MACHINE (tvec_pc (r CSR_MTVEC) i cause))"
  using assms
  by (simp add: trap_take_def is_delegated_eq enter_m_eq enter_s_eq compute_tvec trap_target_s_def Let_def)

section \<open>Status words\<close>

lemmas status_words = mstatus_enter_m_def mstatus_enter_s_def mstatus_mret_def mstatus_sret_def

lemma mstatus_enter_m_fields:
  "bf 3 1 (mstatus_enter_m p m) = 0" "bf 7 1 (mstatus_enter_m p m) = bf 3 1 m"
  "bf 11 2 (mstatus_enter_m p m) = take_bit 2 p" "bf 1 1 (mstatus_enter_m p m) = bf 1 1 m"
  "bf 17 1 (mstatus_enter_m p m) = bf 17 1 m"
  by (simp_all add: mstatus_enter_m_def bf_simps)

lemma mstatus_enter_s_fields:
  "bf 1 1 (mstatus_enter_s p m) = 0" "bf 5 1 (mstatus_enter_s p m) = bf 1 1 m"
  "bf 8 1 (mstatus_enter_s p m) = (if p = RV32G_PRIV_SUPERVISOR then 1 else 0)"
  "bf 3 1 (mstatus_enter_s p m) = bf 3 1 m" "bf 11 2 (mstatus_enter_s p m) = bf 11 2 m"
  by (simp_all add: mstatus_enter_s_def bf_simps)

lemma mstatus_mret_fields:
  "bf 3 1 (mstatus_mret m) = bf 7 1 m" "bf 7 1 (mstatus_mret m) = 1" "bf 11 2 (mstatus_mret m) = 0"
  by (simp_all add: mstatus_mret_def bf_simps Let_def)

lemma mstatus_sret_fields:
  "bf 1 1 (mstatus_sret m) = bf 5 1 m" "bf 5 1 (mstatus_sret m) = 1" "bf 8 1 (mstatus_sret m) = 0"
  "bf 17 1 (mstatus_sret m) = 0"
  by (simp_all add: mstatus_sret_def bf_simps)

lemma cause_word_fields: "bf 0 31 (cause_word c i) = take_bit 31 c" "bf 31 1 (cause_word c i) = of_bool i"
  by (simp_all add: cause_word_def bf_simps)

text \<open>Outside the bits a trap entry saves to, a return undoes the entry bit by bit.\<close>

lemma bit_mstatus_mret:
  "n \<notin> {11, 12, 17} \<Longrightarrow> bit (mstatus_mret m) n = (n < 32 \<and> (if n = 3 then bit m 7 else n = 7 \<or> bit m n))"
  by (simp add: mstatus_mret_def Let_def bit_bf_set1 bit_bf_set2 bit_bf1)

lemma bit_mstatus_enter_m:
  "n \<notin> {11, 12} \<Longrightarrow> bit (mstatus_enter_m p m) n = (n < 32 \<and> n \<noteq> 3 \<and> bit m (if n = 7 then 3 else n))"
  by (simp add: mstatus_enter_m_def bit_bf_set1 bit_bf_set2 bit_bf1)

lemma mstatus_m_roundtrip_bit:
  "n \<notin> {7, 11, 12, 17} \<Longrightarrow> bit (mstatus_mret (mstatus_enter_m p m)) n = bit m n"
  using bit_imp_le_length [of m n] by (auto simp: bit_mstatus_mret bit_mstatus_enter_m)

lemma mstatus_s_roundtrip_bit:
  "n \<notin> {5, 8, 17} \<Longrightarrow> bit (mstatus_sret (mstatus_enter_s p m)) n = bit m n"
  using bit_imp_le_length [of m n]
  by (auto simp: mstatus_sret_def mstatus_enter_s_def bit_bf_set1 bit_bf1)

section \<open>Properties\<close>

text \<open>The hart after the fetch unit has taken the redirects: the interface is any other one.\<close>

definition with_send :: "hart \<Rightarrow> trap_send itf \<Rightarrow> hart" where
  "with_send s t = s\<lparr>h_trap := (h_trap s)\<lparr>trap_send_mst := t\<rparr>\<rparr>"

lemma with_send_simps [simp]:
  "h_csr (with_send s t) = h_csr s" "h_exu (with_send s t) = h_exu s"
  "trap_send_mst (h_trap (with_send s t)) = t"
  by (simp_all add: with_send_def)

text \<open>
  C2. Trap entry: an exception or interrupt goes to supervisor mode exactly when it does not
  come from machine mode and its delegation bit is set, and to machine mode otherwise, so
  that it never lowers the privilege. It never aborts; it records cause, interrupt flag,
  aligned address and trap value, saves and clears the interrupt enable of the target mode,
  ends a \<^verbatim>\<open>wfi\<close>, keeps the general registers, and redirects the fetch unit once, to the vector
  the manual prescribes.
\<close>

theorem trap_take_correct:
  assumes "csr_published (h_csr s)" "itf_inv (trap_send_mst (h_trap s))"
    and "\<not> itf_fifo_full (trap_send_mst (h_trap s))" "p \<in> {RV32G_PRIV_USER, RV32G_PRIV_SUPERVISOR, RV32G_PRIV_MACHINE}"
  shows "let r = regs (h_csr s); to_s = trap_target_s r p i cause;
      pc = tvec_pc (r (if to_s then CSR_STVEC else CSR_MTVEC)) i cause in
    \<exists>s'. trap_take s p cause i epc tval = Some s' \<and>
      (let r' = regs (h_csr s') in
        exu_priv (h_exu s') = (if to_s then RV32G_PRIV_SUPERVISOR else RV32G_PRIV_MACHINE)
        \<and> p \<le> exu_priv (h_exu s') \<and> \<not> exu_wfi (h_exu s') \<and> exu_gpr (h_exu s') = exu_gpr (h_exu s)
        \<and> itf_list (trap_send_mst (h_trap s')) = itf_list (trap_send_mst (h_trap s)) @ [\<lparr>ts_target_pc = pc\<rparr>]
        \<and> r' (if to_s then CSR_SCAUSE else CSR_MCAUSE) = cause_word cause i
        \<and> r' (if to_s then CSR_SEPC else CSR_MEPC) = epc AND NOT 3
        \<and> r' (if to_s then CSR_STVAL else CSR_MTVAL) = tval
        \<and> (if to_s then bf 1 1 (r' CSR_MSTATUS) = 0 \<and> bf 5 1 (r' CSR_MSTATUS) = bf 1 1 (r CSR_MSTATUS)
             \<and> bf 8 1 (r' CSR_MSTATUS) = p
           else bf 3 1 (r' CSR_MSTATUS) = 0 \<and> bf 7 1 (r' CSR_MSTATUS) = bf 3 1 (r CSR_MSTATUS)
             \<and> bf 11 2 (r' CSR_MSTATUS) = p))"
proof -
  let ?r = "regs (h_csr s)"
  let ?to_s = "trap_target_s ?r p i cause"
  let ?pc = "tvec_pc (?r (if ?to_s then CSR_STVEC else CSR_MTVEC)) i cause"
  let ?r' = "if ?to_s then regs_enter_s ?r p cause i epc tval else regs_enter_m ?r p cause i epc tval"
  let ?p' = "if ?to_s then RV32G_PRIV_SUPERVISOR else RV32G_PRIV_MACHINE"
  obtain s' where s': "trap_take s p cause i epc tval = Some s'" "redirected s ?r' ?p' ?pc s'"
    using redirect_ok [OF assms(2,3), of ?r' ?p' ?pc] trap_take_eq [OF assms(1)]
    by (cases ?to_s) (auto simp: Let_def)
  have le: "p \<le> ?p'" using assms(4) by (auto simp: trap_target_s_def)
  have p2: "take_bit 2 p = p" using assms(4) by auto
  have ps: "(if p = RV32G_PRIV_SUPERVISOR then 1 else 0) = p" if ?to_s
    using that assms(4) by (auto simp: trap_target_s_def)
  show ?thesis
    unfolding Let_def using s' le p2 ps
    by (intro exI [of _ s'])
      (auto simp: redirected_def regs_enter_s_def regs_enter_m_def Let_def mstatus_enter_m_fields
        mstatus_enter_s_fields simp del: One_nat_def)
qed

text \<open>The hart after its reset, with empty interfaces.\<close>

definition hart_init :: hart where
  "hart_init = \<lparr>h_exu = exu_reset (\<lambda>_. 0) hart_exu, h_csr = csr_reset hart_csr,
     h_trap = \<lparr>fch_expt_slv = fifo_itf_construct 1, ldst_expt_slv = fifo_itf_construct 1,
       trap_send_mst = fifo_itf_construct 1\<rparr>\<rparr>"

lemma hart_init_ok:
  "csr_published (h_csr hart_init)" "itf_inv (trap_send_mst (h_trap hart_init))"
  "\<not> itf_fifo_full (trap_send_mst (h_trap hart_init))" "itf_list (trap_send_mst (h_trap hart_init)) = []"
  using reset_inv [of hart_csr] by (simp_all add: hart_init_def)

lemma hart_init_regs:
  "regs (h_csr hart_init) CSR_MEDELEG = 0" "regs (h_csr hart_init) CSR_MTVEC = 0"
  by (simp_all add: hart_init_def csr_reset_def Let_def sync_s_irq_from_m_irq_def
      sync_sstatus_from_mstatus_def rv32g_csr_reset_def)

theorem trap_take_correct_witness:
  "\<exists>s'. trap_take hart_init RV32G_PRIV_USER HART_EXPT_CAUSE_LOAD_PAGE_FAULT False 0x1003 0x2000 = Some s'
     \<and> exu_priv (h_exu s') = RV32G_PRIV_MACHINE \<and> regs (h_csr s') CSR_MEPC = 0x1000
     \<and> regs (h_csr s') CSR_MTVAL = 0x2000 \<and> itf_list (trap_send_mst (h_trap s')) = [\<lparr>ts_target_pc = 0\<rparr>]"
  using trap_take_correct [OF hart_init_ok(1-3), where p = RV32G_PRIV_USER and i = False
      and cause = HART_EXPT_CAUSE_LOAD_PAGE_FAULT and epc = "0x1003" and tval = "0x2000"]
  by (auto simp: Let_def trap_target_s_def hart_init_regs hart_init_ok(4) tvec_pc_def)

text \<open>
  C19. A trap to machine mode followed by \<^verbatim>\<open>mret\<close> is transparent: whatever was in the interrupted
  program's mode, address and interrupt enable is restored, and of the whole status word only
  the fields the entry saved into (\<^verbatim>\<open>mpie\<close>, \<^verbatim>\<open>mpp\<close>, \<^verbatim>\<open>mprv\<close>) may differ.
\<close>

theorem trap_m_mret_roundtrip:
  assumes "csr_published (h_csr s)" "itf_inv (trap_send_mst (h_trap s))"
    and "\<not> itf_fifo_full (trap_send_mst (h_trap s))" "itf_inv t" "\<not> itf_fifo_full t" "p < 4"
  shows "\<exists>s1 s2. trap_enter_m_mode s p cause i epc tval = Some s1
    \<and> exu_priv (h_exu s1) = RV32G_PRIV_MACHINE
    \<and> trap_do_mret (with_send s1 t) = Some s2 \<and> exu_priv (h_exu s2) = p
    \<and> itf_list (trap_send_mst (h_trap s2)) = itf_list t @ [\<lparr>ts_target_pc = epc AND NOT 3\<rparr>]
    \<and> (\<forall>n. n \<notin> {7, 11, 12, 17} \<longrightarrow>
          bit (regs (h_csr s2) CSR_MSTATUS) n = bit (regs (h_csr s) CSR_MSTATUS) n)
    \<and> exu_gpr (h_exu s2) = exu_gpr (h_exu s)"
proof -
  let ?r = "regs (h_csr s)"
  let ?r1 = "regs_enter_m ?r p cause i epc tval"
  obtain s1 where s1: "trap_enter_m_mode s p cause i epc tval = Some s1"
    "redirected s ?r1 RV32G_PRIV_MACHINE (trap_compute_tvec_pc (?r CSR_MTVEC) i cause) s1"
    using redirect_ok [OF assms(2,3)] enter_m_eq [OF assms(1)] by metis
  have r1: "?r1 CSR_MSTATUS = mstatus_enter_m p (?r CSR_MSTATUS)" "?r1 CSR_MEPC = epc AND NOT 3"
    by (simp_all add: regs_enter_m_def Let_def)
  have p: "take_bit 2 p = p" using assms(6) by (simp add: take_bit_eq_mod mod_word_less)
  have "csr_published (h_csr (with_send s1 t))" "itf_inv (trap_send_mst (h_trap (with_send s1 t)))"
    "\<not> itf_fifo_full (trap_send_mst (h_trap (with_send s1 t)))"
    using s1(2) assms(4,5) by (simp_all add: redirected_def)
  then obtain s2 where "trap_do_mret (with_send s1 t) = Some s2"
    "redirected (with_send s1 t) (regs_status (regs (h_csr s1)) (mstatus_mret (regs (h_csr s1) CSR_MSTATUS)))
       (bf 11 2 (regs (h_csr s1) CSR_MSTATUS)) (regs (h_csr s1) CSR_MEPC AND NOT 3) s2"
    using mret_eq redirect_ok with_send_simps(1) by metis
  then show ?thesis
    using s1 p by (auto simp: redirected_def r1 mstatus_enter_m_fields regs_status_def and.assoc
        mstatus_m_roundtrip_bit)
qed

theorem trap_m_mret_roundtrip_witness:
  "\<exists>s1 s2. trap_enter_m_mode hart_init RV32G_PRIV_SUPERVISOR 7 True 0x80001236 0 = Some s1
     \<and> trap_do_mret (with_send s1 (fifo_itf_construct 1)) = Some s2
     \<and> exu_priv (h_exu s2) = RV32G_PRIV_SUPERVISOR
     \<and> itf_list (trap_send_mst (h_trap s2)) = [\<lparr>ts_target_pc = 0x80001234\<rparr>]"
  using trap_m_mret_roundtrip [OF hart_init_ok(1-3), where t = "fifo_itf_construct 1" and i = True
      and p = RV32G_PRIV_SUPERVISOR and cause = 7 and epc = "0x80001236" and tval = 0]
  by auto

text \<open>
  A trap to supervisor mode followed by \<^verbatim>\<open>sret\<close> restores the mode (user or supervisor), the
  address and every status bit but the ones the entry saved into (\<^verbatim>\<open>spie\<close>, \<^verbatim>\<open>spp\<close>) and \<^verbatim>\<open>mprv\<close>.
\<close>

theorem trap_s_sret_roundtrip:
  assumes "csr_published (h_csr s)" "itf_inv (trap_send_mst (h_trap s))"
    and "\<not> itf_fifo_full (trap_send_mst (h_trap s))" "itf_inv t" "\<not> itf_fifo_full t"
    and "p \<in> {RV32G_PRIV_USER, RV32G_PRIV_SUPERVISOR}"
  shows "\<exists>s1 s2. trap_enter_s_mode s p cause i epc tval = Some s1
    \<and> exu_priv (h_exu s1) = RV32G_PRIV_SUPERVISOR
    \<and> trap_do_sret (with_send s1 t) = Some s2 \<and> exu_priv (h_exu s2) = p
    \<and> itf_list (trap_send_mst (h_trap s2)) = itf_list t @ [\<lparr>ts_target_pc = epc AND NOT 3\<rparr>]
    \<and> (\<forall>n. n \<notin> {5, 8, 17} \<longrightarrow>
          bit (regs (h_csr s2) CSR_MSTATUS) n = bit (regs (h_csr s) CSR_MSTATUS) n)
    \<and> exu_gpr (h_exu s2) = exu_gpr (h_exu s)"
proof -
  let ?r = "regs (h_csr s)"
  let ?r1 = "regs_enter_s ?r p cause i epc tval"
  obtain s1 where s1: "trap_enter_s_mode s p cause i epc tval = Some s1"
    "redirected s ?r1 RV32G_PRIV_SUPERVISOR (trap_compute_stvec_pc (?r CSR_STVEC) i cause) s1"
    using redirect_ok [OF assms(2,3)] enter_s_eq [OF assms(1)] by metis
  have r1: "?r1 CSR_MSTATUS = mstatus_enter_s p (?r CSR_MSTATUS)" "?r1 CSR_SEPC = epc AND NOT 3"
    by (simp_all add: regs_enter_s_def Let_def)
  have "csr_published (h_csr (with_send s1 t))" "itf_inv (trap_send_mst (h_trap (with_send s1 t)))"
    "\<not> itf_fifo_full (trap_send_mst (h_trap (with_send s1 t)))"
    using s1(2) assms(4,5) by (simp_all add: redirected_def)
  then obtain s2 where "trap_do_sret (with_send s1 t) = Some s2"
    "redirected (with_send s1 t) (regs_status (regs (h_csr s1)) (mstatus_sret (regs (h_csr s1) CSR_MSTATUS)))
       (if bf 8 1 (regs (h_csr s1) CSR_MSTATUS) \<noteq> 0 then RV32G_PRIV_SUPERVISOR else RV32G_PRIV_USER)
       (regs (h_csr s1) CSR_SEPC AND NOT 3) s2"
    using sret_eq redirect_ok with_send_simps(1) by metis
  then show ?thesis
    using s1 assms(6) by (auto simp: redirected_def r1 mstatus_enter_s_fields regs_status_def and.assoc
        mstatus_s_roundtrip_bit simp del: One_nat_def)
qed

theorem trap_s_sret_roundtrip_witness:
  "\<exists>s1 s2. trap_enter_s_mode hart_init RV32G_PRIV_USER 8 False 0x1000 0 = Some s1
     \<and> trap_do_sret (with_send s1 (fifo_itf_construct 1)) = Some s2
     \<and> exu_priv (h_exu s2) = RV32G_PRIV_USER
     \<and> itf_list (trap_send_mst (h_trap s2)) = [\<lparr>ts_target_pc = 0x1000\<rparr>]"
  using trap_s_sret_roundtrip [OF hart_init_ok(1-3), where t = "fifo_itf_construct 1" and i = False
      and p = RV32G_PRIV_USER and cause = 8 and epc = "0x1000" and tval = 0]
  by auto

section \<open>Choosing an interrupt\<close>

text \<open>
  An interrupt is taken when it is pending and individually enabled, and the hart runs below
  the mode it goes to, or in that mode with interrupts on. Those bound for machine mode come
  first; within a mode the order is external, software, timer, machine before supervisor,
  then the counter overflow.
\<close>

definition irq_enabled :: "csr_regs \<Rightarrow> priv \<Rightarrow> nat \<Rightarrow> bool" where
  "irq_enabled r priv c \<longleftrightarrow> bit (r CSR_MIP) c \<and> bit (r CSR_MIE) c \<and>
     (if bit (r CSR_MIDELEG) c then priv < 1 \<or> priv = 1 \<and> bit (r CSR_MSTATUS) 1
      else priv \<noteq> 3 \<or> bit (r CSR_MSTATUS) 3)"

definition irq_choice :: "csr_regs \<Rightarrow> priv \<Rightarrow> nat option" where
  "irq_choice r priv =
     (case List.find (\<lambda>c. irq_enabled r priv c \<and> \<not> bit (r CSR_MIDELEG) c) [11, 3, 7, 9, 1, 5, 13] of
        Some c \<Rightarrow> Some c
      | None \<Rightarrow> List.find (\<lambda>c. irq_enabled r priv c \<and> bit (r CSR_MIDELEG) c) [9, 1, 5, 13])"

lemma irq_bits:
  "(x AND 0x800 = 0) = (\<not> bit (x :: u32) 11)" "(x AND 0x8 = 0) = (\<not> bit x 3)"
  "(x AND 0x80 = 0) = (\<not> bit x 7)" "(x AND 0x200 = 0) = (\<not> bit x 9)" "(x AND 0x2 = 0) = (\<not> bit x 1)"
  "(x AND 0x20 = 0) = (\<not> bit x 5)" "(x AND 0x2000 = 0) = (\<not> bit x 13)"
  using and_single_bit [of x 11] and_single_bit [of x 3] and_single_bit [of x 7] and_single_bit [of x 9]
    and_single_bit [of x 1] and_single_bit [of x 5] and_single_bit [of x 13]
  by simp_all

lemma bf1_nonzero: "(bf lo 1 x = 0) = (\<not> bit x lo)"
proof -
  have "bf lo 1 x = of_bool (bit x lo)" by (rule bit_eqI) (auto simp: bit_bf bit_simps)
  then show ?thesis by simp
qed

definition exu_published :: "exu \<Rightarrow> bool" where
  "exu_published exu \<longleftrightarrow> exu_publish_state exu = exu"

lemma exu_published_fields:
  assumes "exu_published exu"
  shows "es_priv (exu_state_o exu) = exu_priv exu" "es_trap_defer (exu_state_o exu) = trap_defer exu"
    "es_wfi (exu_state_o exu) = exu_wfi exu" "es_irq_epc (exu_state_o exu) = irq_epc exu"
    "es_wfi_resume_pc (exu_state_o exu) = wfi_resume_pc exu"
  using assms unfolding exu_published_def by (metis exu_publish_state_def exu_state.select_convs
      exu.select_convs(12) exu.surjective exu.update_convs(12))+

lemma m_chain:
  "(if e AND 0x800 \<noteq> 0 then Some 11 else if e AND 0x8 \<noteq> 0 then Some 3
    else if e AND 0x80 \<noteq> 0 then Some 7 else if e AND 0x200 \<noteq> 0 then Some 9
    else if e AND 0x2 \<noteq> 0 then Some 1 else if e AND 0x20 \<noteq> 0 then Some 5
    else if e AND 0x2000 \<noteq> 0 then Some 13 else d)
   = (case List.find (bit (e :: u32)) [11, 3, 7, 9, 1, 5, 13] of
        Some c \<Rightarrow> Some (of_nat c :: u32) | None \<Rightarrow> d)"
  by (simp add: irq_bits)

lemma s_chain:
  "(if e AND 0x200 \<noteq> 0 then Some 9 else if e AND 0x2 \<noteq> 0 then Some 1
    else if e AND 0x20 \<noteq> 0 then Some 5 else if e AND 0x2000 \<noteq> 0 then Some 13 else None)
   = map_option (of_nat :: nat \<Rightarrow> u32) (List.find (bit (e :: u32)) [9, 1, 5, 13])"
  by (simp add: irq_bits)

lemma find_bit_0: "List.find (bit (0 :: u32)) xs = None"
  by (induction xs) auto

lemma find_conj: "List.find (\<lambda>c. b \<and> P c) xs = (if b then List.find P xs else None)"
  by (induction xs) auto

text \<open>
  C20. Interrupt selection: the interrupt the code picks is the one the privileged
  architecture prescribes, taking pending and enable bits, delegation, the current mode and
  its interrupt enable and the priority order into account; none is picked when none of the
  seven is enabled.
\<close>

theorem trap_pending_irq_correct:
  assumes "csr_published (h_csr s)" "exu_published (h_exu s)"
  shows "map_option unat (trap_pending_irq s) = irq_choice (regs (h_csr s)) (exu_priv (h_exu s))"
proof -
  let ?r = "regs (h_csr s)" and ?p = "exu_priv (h_exu s)"
  let ?e = "?r CSR_MIP AND ?r CSR_MIE"
  let ?m_ie = "?p = 3 \<longrightarrow> bit (?r CSR_MSTATUS) 3"
    and ?s_ie = "if ?p = 1 then bit (?r CSR_MSTATUS) 1 else ?p < 1"
  have code: "trap_pending_irq s = (if ?e = 0 then None else
      case (if ?m_ie then List.find (bit (?e AND NOT (?r CSR_MIDELEG))) [11, 3, 7, 9, 1, 5, 13] else None) of
        Some c \<Rightarrow> Some (of_nat c)
      | None \<Rightarrow> if ?s_ie then map_option of_nat (List.find (bit (?e AND ?r CSR_MIDELEG)) [9, 1, 5, 13]) else None)"
    unfolding trap_pending_irq_def Let_def published_fields [OF assms(1)] exu_published_fields [OF assms(2)]
      published_trap_mstatus [OF assms(1)] bf1_nonzero m_chain s_chain
    by (simp add: find_bit_0 split: option.splits)
  have m: "(\<lambda>c. irq_enabled ?r ?p c \<and> \<not> bit (?r CSR_MIDELEG) c)
      = (\<lambda>c. ?m_ie \<and> bit (?e AND NOT (?r CSR_MIDELEG)) c)"
    by (auto simp: fun_eq_iff irq_enabled_def bit_and_iff bit_not_iff dest: bit_imp_possible_bit)
  have sup: "(\<lambda>c. irq_enabled ?r ?p c \<and> bit (?r CSR_MIDELEG) c)
      = (\<lambda>c. ?s_ie \<and> bit (?e AND ?r CSR_MIDELEG) c)"
    by (auto simp: fun_eq_iff irq_enabled_def bit_and_iff)
  have small: "unat (of_nat c :: u32) = c" if "List.find P xs = Some c" "list_all (\<lambda>n. n < 32) xs"
    for P xs c
    using that find_SomeD [OF that(1)] by (auto simp: list_all_iff unat_of_nat take_bit_nat_eq_self)
  show ?thesis
    unfolding code irq_choice_def m sup find_conj
    by (auto simp: find_bit_0 option.map_comp o_def small cong: option.map_cong split: option.splits)
qed

theorem trap_pending_irq_correct_witness:
  "map_option unat (trap_pending_irq (hart_init\<lparr>h_csr := csr_publish_state ((h_csr hart_init)\<lparr>regs :=
     (\<lambda>_. 0)(CSR_MIP := 0x82, CSR_MIE := 0x82, CSR_MSTATUS := 8)\<rparr>)\<rparr>)) = Some 7"
proof -
  let ?r = "(\<lambda>_. 0)(CSR_MIP := 0x82, CSR_MIE := 0x82, CSR_MSTATUS := 8) :: csr_regs"
  let ?s = "hart_init\<lparr>h_csr := csr_publish_state ((h_csr hart_init)\<lparr>regs := ?r\<rparr>)\<rparr>"
  have "exu_published (h_exu hart_init)" "exu_priv (h_exu hart_init) = 3"
    by (simp_all add: hart_init_def exu_published_def exu_reset_def exu_publish_state_def)
  moreover have "irq_choice ?r 3 = Some 7" by code_simp
  ultimately show ?thesis using trap_pending_irq_correct [of ?s] by simp
qed

section \<open>A clock tick of the trap unit\<close>

text \<open>The packets the exception interfaces carry name one of the three privilege levels.\<close>

definition expt_ok :: "hart_expt \<Rightarrow> bool" where
  "expt_ok e \<longleftrightarrow> he_priv e \<in> {RV32G_PRIV_USER, RV32G_PRIV_SUPERVISOR, RV32G_PRIV_MACHINE}"

definition trap_ports_ok :: "hart \<Rightarrow> bool" where
  "trap_ports_ok s \<longleftrightarrow> itf_inv (ex_expt_mst (h_exu s)) \<and> itf_inv (ldst_expt_slv (h_trap s))
     \<and> itf_inv (fch_expt_slv (h_trap s)) \<and> itf_inv (trap_send_mst (h_trap s))
     \<and> list_all expt_ok (itf_list (ex_expt_mst (h_exu s)) @ itf_list (ldst_expt_slv (h_trap s))
          @ itf_list (fch_expt_slv (h_trap s)))"

definition one_redirect :: "hart \<Rightarrow> hart \<Rightarrow> bool" where
  "one_redirect s s' \<longleftrightarrow> csr_published (h_csr s') \<and>
     (\<exists>pc. itf_list (trap_send_mst (h_trap s')) = itf_list (trap_send_mst (h_trap s)) @ [\<lparr>ts_target_pc = pc\<rparr>]
        \<and> irq_epc (h_exu s') = pc) \<and> exu_gpr (h_exu s') = exu_gpr (h_exu s)"

lemma redirect_one:
  assumes "itf_inv (trap_send_mst (h_trap s))" "\<not> itf_fifo_full (trap_send_mst (h_trap s))"
  shows "\<exists>s'. redirect s r p pc = Some s' \<and> one_redirect s s'"
  using redirect_ok [OF assms, of r p pc] by (auto simp: redirected_def one_redirect_def)

lemma trap_take_one:
  assumes "csr_published (h_csr s)" "itf_inv (trap_send_mst (h_trap s))"
    and "\<not> itf_fifo_full (trap_send_mst (h_trap s))"
  shows "\<exists>s'. trap_take s p cause i epc tval = Some s' \<and> one_redirect s s'"
  using trap_take_eq [OF assms(1)] redirect_one [OF assms(2,3)] by (simp add: Let_def)

lemma handle_exception_one:
  assumes "csr_published (h_csr s)" "itf_inv (trap_send_mst (h_trap s))"
    and "\<not> itf_fifo_full (trap_send_mst (h_trap s))" "expt_ok e"
  shows "\<exists>s'. trap_handle_exception s e = Some s' \<and> one_redirect s s'"
proof (cases "he_type e")
  case HART_EXPT_TYPE_EXCEPTION
  with assms(4) trap_take_one [OF assms(1-3)] show ?thesis
    by (auto simp: trap_handle_exception_def expt_ok_def)
next
  case HART_EXPT_TYPE_MRET
  with redirect_one [OF assms(2,3)] mret_eq [OF assms(1)] show ?thesis
    by (simp add: trap_handle_exception_def)
next
  case HART_EXPT_TYPE_SRET
  with redirect_one [OF assms(2,3)] sret_eq [OF assms(1)] show ?thesis
    by (simp add: trap_handle_exception_def)
qed

text \<open>A source with a packet at its front gives one redirect, on the state without the packet.\<close>

lemma one_redirect_source [simp]:
  "one_redirect (s\<lparr>h_exu := (h_exu s)\<lparr>ex_expt_mst := t\<rparr>\<rparr>) = one_redirect s"
  "one_redirect (s\<lparr>h_trap := (h_trap s)\<lparr>ldst_expt_slv := t\<rparr>\<rparr>) = one_redirect s"
  "one_redirect (s\<lparr>h_trap := (h_trap s)\<lparr>fch_expt_slv := t\<rparr>\<rparr>) = one_redirect s"
  by (simp_all add: one_redirect_def fun_eq_iff)

lemma source_read:
  assumes "itf_inv q" "\<not> itf_fifo_empty q" "list_all expt_ok (itf_list q)"
  obtains e t where "itf_read q = Some (e, t)" "expt_ok e"
  using itf.pop_not_empty [OF assms(1,2)] assms(3) by (metis list.pred_inject(2))

lemma proc_interrupt_one:
  assumes "csr_published (h_csr s)" "itf_inv (trap_send_mst (h_trap s))"
    and "\<not> itf_fifo_full (trap_send_mst (h_trap s))" "exu_published (h_exu s)"
  shows "\<exists>s'. trap_proc_interrupt s = Some s' \<and> (s' = s \<or> one_redirect s s') \<and> (trap_defer (h_exu s) \<longrightarrow> s' = s)"
proof -
  have wake: "\<exists>s'. trap_send_redirect (trap_update_exu s p pc False) pc = Some s' \<and> one_redirect s s'" for p pc
    using itf.push_ok [OF assms(2,3), of "\<lparr>ts_target_pc = pc\<rparr>"] assms(1)
    by (auto simp: trap_send_redirect_def trap_update_exu_def one_redirect_def)
  from wake [of "exu_priv (h_exu s)" "wfi_resume_pc (h_exu s)"] trap_take_one [OF assms(1-3)] show ?thesis
    by (cases "trap_pending_irq s")
      (auto simp: trap_proc_interrupt_def Let_def exu_published_fields [OF assms(4)], metis+)
qed

text \<open>
  A tick of the trap unit never aborts and does one of two things: nothing at all, or
  exactly one redirect of the fetch unit, after which the published CSR state is current and
  an interrupt would resume at the redirect target. While the execution unit holds traps
  back and no exception of an executing instruction waits, it does nothing, so neither a
  fetch fault nor an interrupt can cut into a load, store or atomic in flight.
\<close>

theorem trap_clock_one_redirect:
  assumes "trap_ports_ok s" "\<not> itf_fifo_full (trap_send_mst (h_trap s))"
    and "csr_published (h_csr s)" "exu_published (h_exu s)"
  shows "\<exists>s'. trap_clock s = Some s' \<and> (s' = s \<or> one_redirect s s')
    \<and> (trap_defer (h_exu s) \<and> itf_fifo_empty (ex_expt_mst (h_exu s))
         \<and> itf_fifo_empty (ldst_expt_slv (h_trap s)) \<longrightarrow> s' = s)"
proof -
  note ports = assms(1) [unfolded trap_ports_ok_def list_all_append]
  consider (ex) "\<not> itf_fifo_empty (ex_expt_mst (h_exu s))"
    | (ldst) "itf_fifo_empty (ex_expt_mst (h_exu s))" "\<not> itf_fifo_empty (ldst_expt_slv (h_trap s))"
    | (fch) "itf_fifo_empty (ex_expt_mst (h_exu s))" "itf_fifo_empty (ldst_expt_slv (h_trap s))"
      "\<not> trap_defer (h_exu s)" "\<not> itf_fifo_empty (fch_expt_slv (h_trap s))"
    | (none) "itf_fifo_empty (ex_expt_mst (h_exu s))" "itf_fifo_empty (ldst_expt_slv (h_trap s))"
      "trap_defer (h_exu s) \<or> itf_fifo_empty (fch_expt_slv (h_trap s))" by blast
  then show ?thesis
  proof cases
    case ex
    obtain e t where e: "itf_read (ex_expt_mst (h_exu s)) = Some (e, t)" "expt_ok e"
      using source_read ports ex by metis
    with handle_exception_one [of "s\<lparr>h_exu := (h_exu s)\<lparr>ex_expt_mst := t\<rparr>\<rparr>" e] assms ports ex
    show ?thesis by (auto simp: trap_clock_def trap_proc_exception_def)
  next
    case ldst
    obtain e t where e: "itf_read (ldst_expt_slv (h_trap s)) = Some (e, t)" "expt_ok e"
      using source_read ports ldst by metis
    with handle_exception_one [of "s\<lparr>h_trap := (h_trap s)\<lparr>ldst_expt_slv := t\<rparr>\<rparr>" e] assms ports ldst
    show ?thesis by (auto simp: trap_clock_def trap_proc_exception_def)
  next
    case fch
    obtain e t where e: "itf_read (fch_expt_slv (h_trap s)) = Some (e, t)" "expt_ok e"
      using source_read ports fch by metis
    with handle_exception_one [of "s\<lparr>h_trap := (h_trap s)\<lparr>fch_expt_slv := t\<rparr>\<rparr>" e] assms ports fch
    show ?thesis
      by (auto simp: trap_clock_def trap_proc_exception_def exu_published_fields)
  next
    case none
    from proc_interrupt_one [OF assms(3) _ assms(2,4)] ports
    obtain s' where "trap_proc_interrupt s = Some s'" "s' = s \<or> one_redirect s s'"
      "trap_defer (h_exu s) \<longrightarrow> s' = s" by auto
    with none show ?thesis
      using assms by (auto simp: trap_clock_def trap_proc_exception_def exu_published_fields)
  qed
qed

theorem trap_clock_one_redirect_witness:
  "\<exists>s'. trap_clock (hart_init\<lparr>h_exu := (h_exu hart_init)\<lparr>ex_expt_mst := the (itf_write (fifo_itf_construct 1)
      \<lparr>he_type = HART_EXPT_TYPE_MRET, he_cause = 0, he_priv = 3, he_pc = 0x100, he_tval = 0\<rparr>)\<rparr>\<rparr>) = Some s'
    \<and> csr_published (h_csr s')"
proof -
  let ?e = "\<lparr>he_type = HART_EXPT_TYPE_MRET, he_cause = 0, he_priv = 3, he_pc = 0x100, he_tval = 0\<rparr>"
  let ?q = "the (itf_write (fifo_itf_construct 1) ?e)"
  let ?s = "hart_init\<lparr>h_exu := (h_exu hart_init)\<lparr>ex_expt_mst := ?q\<rparr>\<rparr>"
  have "itf_inv ?q" "itf_list ?q = [?e]" using itf.push_ok [of "fifo_itf_construct 1" ?e] by auto
  then have "trap_ports_ok ?s" using hart_init_ok by (simp add: trap_ports_ok_def expt_ok_def hart_init_def)
  moreover have "exu_published (h_exu ?s)"
    by (simp add: hart_init_def exu_published_def exu_reset_def exu_publish_state_def)
  ultimately show ?thesis
    using trap_clock_one_redirect [of ?s] hart_init_ok by (auto simp: one_redirect_def)
qed

end
