(* ===== verification/Arb.thy ===== *)
theory Arb
  imports Prelude
begin

text \<open>
  The round-robin arbiter of the bus multiplexers (\<^verbatim>\<open>base/arb.c\<close>). \<^verbatim>\<open>grant_idx\<close> is a signed
  32-bit integer with \<^verbatim>\<open>-1\<close> for no grant; the index computation of \<^verbatim>\<open>arb_clock\<close> converts it to
  unsigned, so it is written with the wrap-around at \<open>2 ^ 32\<close>.
\<close>

record arb =
  arb_req_num :: nat
  arb_req :: "bool list"
  grant_idx :: int

definition arb_reset :: "arb \<Rightarrow> arb" where
  "arb_reset arb = arb\<lparr>arb_req := replicate (arb_req_num arb) False, grant_idx := - 1\<rparr>"

definition arb_nxt :: "arb \<Rightarrow> nat \<Rightarrow> nat" where
  "arb_nxt arb i = nat ((grant_idx arb + int i + 1) mod 2 ^ 32) mod arb_req_num arb"

text \<open>The loop returns at the first requester it meets.\<close>

definition arb_clock :: "arb \<Rightarrow> arb" where
  "arb_clock arb = (case List.find (\<lambda>i. arb_req arb ! arb_nxt arb i) [0..<arb_req_num arb] of
     Some i \<Rightarrow> arb\<lparr>grant_idx := int (arb_nxt arb i)\<rparr>
   | None \<Rightarrow> arb\<lparr>grant_idx := - 1\<rparr>)"

definition arb_inv :: "arb \<Rightarrow> bool" where
  "arb_inv arb \<longleftrightarrow> 0 < arb_req_num arb \<and> arb_req_num arb \<le> 2 ^ 31 \<and> length (arb_req arb) = arb_req_num arb
     \<and> - 1 \<le> grant_idx arb \<and> grant_idx arb < int (arb_req_num arb)"

text \<open>The position after the last grant, where the next scan starts.\<close>

definition arb_start :: "arb \<Rightarrow> nat" where
  "arb_start arb = nat (grant_idx arb + 1)"

lemma arb_nxt_eq:
  assumes "arb_inv arb" "i < arb_req_num arb"
  shows "arb_nxt arb i = (arb_start arb + i) mod arb_req_num arb"
proof -
  have "0 \<le> grant_idx arb + int i + 1" "grant_idx arb + int i + 1 < 2 ^ 32"
    using assms by (auto simp: arb_inv_def)
  then have "nat ((grant_idx arb + int i + 1) mod 2 ^ 32) = arb_start arb + i"
    using assms by (simp add: arb_start_def arb_inv_def) arith
  then show ?thesis by (simp add: arb_nxt_def)
qed

lemma arb_nxt_less: "arb_inv arb \<Longrightarrow> arb_nxt arb i < arb_req_num arb"
  by (simp add: arb_nxt_def arb_inv_def)

lemma find_upt_least:
  "List.find P [m..<n] = Some i \<longleftrightarrow> m \<le> i \<and> i < n \<and> P i \<and> (\<forall>j. m \<le> j \<and> j < i \<longrightarrow> \<not> P j)"
proof -
  have "List.find P [m..<n] = Some i \<longleftrightarrow> (\<exists>k<n - m. P ([m..<n] ! k) \<and> i = [m..<n] ! k \<and> (\<forall>j<k. \<not> P ([m..<n] ! j)))"
    by (auto simp: find_Some_iff)
  also have "\<dots> \<longleftrightarrow> m \<le> i \<and> i < n \<and> P i \<and> (\<forall>j. m \<le> j \<and> j < i \<longrightarrow> \<not> P j)"
  proof (intro iffI; elim exE conjE)
    fix k assume "k < n - m" "P ([m..<n] ! k)" "i = [m..<n] ! k" "\<forall>j<k. \<not> P ([m..<n] ! j)"
    moreover have "\<not> P j" if "m \<le> j" "j < i" for j
      using calculation that by (auto dest: spec [of _ "j - m"])
    ultimately show "m \<le> i \<and> i < n \<and> P i \<and> (\<forall>j. m \<le> j \<and> j < i \<longrightarrow> \<not> P j)" by auto
  next
    assume "m \<le> i" "i < n" "P i" "\<forall>j. m \<le> j \<and> j < i \<longrightarrow> \<not> P j"
    then show "\<exists>k<n - m. P ([m..<n] ! k) \<and> i = [m..<n] ! k \<and> (\<forall>j<k. \<not> P ([m..<n] ! j))"
      by (intro exI [of _ "i - m"]) auto
  qed
  finally show ?thesis .
qed

lemma arb_clock_grant:
  assumes "List.find (\<lambda>i. arb_req arb ! arb_nxt arb i) [0..<arb_req_num arb] = Some i" "arb_inv arb"
  shows "arb_clock arb = arb\<lparr>grant_idx := int ((arb_start arb + i) mod arb_req_num arb)\<rparr>"
    "i < arb_req_num arb" "arb_req arb ! ((arb_start arb + i) mod arb_req_num arb)"
    "\<forall>j<i. \<not> arb_req arb ! ((arb_start arb + j) mod arb_req_num arb)"
proof -
  from assms(1) show less: "i < arb_req_num arb" by (simp add: find_upt_least)
  then show "arb_clock arb = arb\<lparr>grant_idx := int ((arb_start arb + i) mod arb_req_num arb)\<rparr>"
    using assms(1) arb_nxt_eq [OF assms(2)] by (simp add: arb_clock_def)
  from assms(1) less arb_nxt_eq [OF assms(2)]
  show "arb_req arb ! ((arb_start arb + i) mod arb_req_num arb)"
    "\<forall>j<i. \<not> arb_req arb ! ((arb_start arb + j) mod arb_req_num arb)"
    by (auto simp: find_upt_least)
qed

lemma arb_clock_inv: "arb_inv arb \<Longrightarrow> arb_inv (arb_clock arb)"
  using arb_nxt_less by (auto simp: arb_clock_def arb_inv_def split: option.splits)

text \<open>Every requester is met by the scan at its distance from the start.\<close>

definition arb_dist :: "nat \<Rightarrow> nat \<Rightarrow> nat \<Rightarrow> nat" where
  "arb_dist n s k = (k + n - s mod n) mod n"

lemma arb_dist_reaches: "0 < n \<Longrightarrow> k < n \<Longrightarrow> (s + arb_dist n s k) mod n = k \<and> arb_dist n s k < n"
proof -
  assume n: "0 < n" "k < n"
  have "(s + arb_dist n s k) mod n = (s mod n + (k + n - s mod n)) mod n"
    unfolding arb_dist_def by (metis mod_add_left_eq mod_add_right_eq)
  also have "s mod n + (k + n - s mod n) = k + n"
    using n by (simp add: less_imp_le_nat trans_le_add2)
  finally show ?thesis using n by (simp add: arb_dist_def)
qed

lemma arb_finds:
  assumes "arb_inv arb" "k < arb_req_num arb" "arb_req arb ! k"
  obtains i where "List.find (\<lambda>i. arb_req arb ! arb_nxt arb i) [0..<arb_req_num arb] = Some i"
    "i \<le> arb_dist (arb_req_num arb) (arb_start arb) k"
proof -
  let ?d = "arb_dist (arb_req_num arb) (arb_start arb) k"
  have d: "(arb_start arb + ?d) mod arb_req_num arb = k" "?d < arb_req_num arb"
    using arb_dist_reaches [of "arb_req_num arb" k "arb_start arb"] assms by (auto simp: arb_inv_def)
  with assms arb_nxt_eq have hit: "arb_req arb ! arb_nxt arb ?d" by simp
  show ?thesis
  proof (cases "List.find (\<lambda>i. arb_req arb ! arb_nxt arb i) [0..<arb_req_num arb]")
    case None
    with hit d(2) show ?thesis by (auto simp: find_None_iff)
  next
    case (Some i)
    with hit d(2) have "i \<le> ?d" by (auto simp: find_upt_least not_less [symmetric])
    with Some that show ?thesis by blast
  qed
qed

text \<open>If the grant does not go to \<open>k\<close>, the scan for \<open>k\<close> gets shorter.\<close>

lemma arb_dist_step:
  assumes "0 < n" "k < n" "i < arb_dist n s k"
  shows "arb_dist n ((s + i) mod n + 1) k = arb_dist n s k - i - 1"
proof -
  let ?d = "arb_dist n s k" and ?d' = "arb_dist n ((s + i) mod n + 1) k"
  have d: "(s + ?d) mod n = k" "?d < n" using arb_dist_reaches [OF assms(1,2)] by blast+
  have "((s + i) mod n + 1 + ?d') mod n = k" "?d' < n" using arb_dist_reaches [OF assms(1,2)] by blast+
  moreover have "((s + i) mod n + 1 + (?d - i - 1)) mod n = (s + i + (1 + (?d - i - 1))) mod n"
    by (metis add.assoc mod_add_left_eq)
  then have "((s + i) mod n + 1 + (?d - i - 1)) mod n = k" using d assms(3) by simp
  ultimately show ?thesis
    using mod_add_inj [of "(s + i) mod n + 1" ?d' n "?d - i - 1"] d assms by simp
qed

text \<open>A run of the arbiter on a stream of request vectors.\<close>

primrec arb_run :: "(nat \<Rightarrow> bool list) \<Rightarrow> arb \<Rightarrow> nat \<Rightarrow> arb" where
  "arb_run reqs arb 0 = arb"
| "arb_run reqs arb (Suc t) = arb_clock ((arb_run reqs arb t)\<lparr>arb_req := reqs t\<rparr>)"

lemma arb_run_inv:
  "arb_inv arb \<Longrightarrow> \<forall>t. length (reqs t) = arb_req_num arb \<Longrightarrow>
    arb_inv (arb_run reqs arb t) \<and> arb_req_num (arb_run reqs arb t) = arb_req_num arb"
proof (induction t)
  case (Suc t)
  then have "arb_inv ((arb_run reqs arb t)\<lparr>arb_req := reqs t\<rparr>)" by (simp add: arb_inv_def)
  from arb_clock_inv [OF this] Suc show ?case by (simp add: arb_clock_def split: option.splits)
qed simp

lemma arb_step_towards:
  assumes "arb_inv arb" "k < arb_req_num arb" "arb_req arb ! k"
  shows "grant_idx (arb_clock arb) = int k
    \<or> arb_dist (arb_req_num arb) (arb_start (arb_clock arb)) k < arb_dist (arb_req_num arb) (arb_start arb) k"
proof -
  let ?n = "arb_req_num arb" and ?s = "arb_start arb"
  obtain i where i: "List.find (\<lambda>i. arb_req arb ! arb_nxt arb i) [0..<?n] = Some i" "i \<le> arb_dist ?n ?s k"
    using arb_finds [OF assms] .
  note c = arb_clock_grant(1) [OF i(1) assms(1)]
  have n: "0 < ?n" using assms(1) by (simp add: arb_inv_def)
  show ?thesis
  proof (cases "i = arb_dist ?n ?s k")
    case True
    with arb_dist_reaches [OF n assms(2), of ?s] c show ?thesis by simp
  next
    case False
    with i(2) have "i < arb_dist ?n ?s k" by simp
    from arb_dist_step [OF n assms(2) this] this c show ?thesis
      by (simp add: arb_start_def nat_add_distrib)
  qed
qed

section \<open>Properties\<close>

text \<open>
  Arbitration: a tick grants some requester exactly when there is one, only ever a
  requester, and no requester between the previous grant and the new one is passed over.
\<close>

theorem arb_grants_next:
  assumes "arb_inv arb"
  shows "if \<exists>k<arb_req_num arb. arb_req arb ! k
    then \<exists>d<arb_req_num arb. grant_idx (arb_clock arb) = int ((arb_start arb + d) mod arb_req_num arb)
      \<and> arb_req arb ! nat (grant_idx (arb_clock arb))
      \<and> (\<forall>j<d. \<not> arb_req arb ! ((arb_start arb + j) mod arb_req_num arb))
    else grant_idx (arb_clock arb) = - 1"
proof (cases "\<exists>k<arb_req_num arb. arb_req arb ! k")
  case True
  then obtain k where k: "k < arb_req_num arb" "arb_req arb ! k" by blast
  obtain i where "List.find (\<lambda>i. arb_req arb ! arb_nxt arb i) [0..<arb_req_num arb] = Some i"
    using arb_finds [OF assms k] .
  from arb_clock_grant [OF this assms] True show ?thesis by (auto intro!: exI [of _ i])
next
  case False
  with arb_nxt_less [OF assms] have "List.find (\<lambda>i. arb_req arb ! arb_nxt arb i) [0..<arb_req_num arb] = None"
    by (auto simp: find_None_iff)
  with False show ?thesis by (simp add: arb_clock_def)
qed

abbreviation three_way :: arb where
  "three_way \<equiv> \<lparr>arb_req_num = 3, arb_req = [True, False, True], grant_idx = 0\<rparr>"

theorem arb_grants_next_witness:
  "arb_inv three_way \<and> grant_idx (arb_clock three_way) = 2"
proof -
  have inv: "arb_inv three_way" by (simp add: arb_inv_def)
  have "\<exists>k<3. [True, False, True] ! k" by (intro exI [of _ 0]) simp
  with arb_grants_next [OF inv] obtain d where
    d: "grant_idx (arb_clock three_way) = int ((1 + d) mod 3)" "d < 3"
    "[True, False, True] ! nat (grant_idx (arb_clock three_way))"
    "\<forall>j<d. \<not> [True, False, True] ! ((1 + j) mod 3)"
    by (auto simp: arb_start_def)
  then consider "d = 0" | "d = 1" | "d = 2" by linarith
  then show ?thesis
  proof cases
    case 1
    with d show ?thesis by simp
  next
    case 2
    with d inv show ?thesis by simp
  next
    case 3
    with d(4) have "\<not> [True, False, True] ! 2" by (auto dest: spec [of _ 1])
    then show ?thesis by simp
  qed
qed

text \<open>
  No starvation: a requester that keeps its request up is granted within as many ticks
  as there are requesters, whatever the others do.
\<close>

theorem arb_no_starvation:
  assumes "arb_inv arb" "\<forall>t. length (reqs t) = arb_req_num arb"
    and "k < arb_req_num arb" "\<forall>t<arb_req_num arb. reqs t ! k"
  shows "\<exists>t<arb_req_num arb. grant_idx (arb_run reqs arb (Suc t)) = int k"
proof (rule ccontr)
  let ?n = "arb_req_num arb" and ?dist = "\<lambda>t. arb_dist (arb_req_num arb) (arb_start (arb_run reqs arb t)) k"
  assume none: "\<not> ?thesis"
  have "?dist t + t \<le> ?dist 0" if "t \<le> ?n" for t
    using that
  proof (induction t)
    case (Suc t)
    let ?a = "(arb_run reqs arb t)\<lparr>arb_req := reqs t\<rparr>"
    have "arb_inv ?a" "arb_req_num ?a = ?n" "arb_start ?a = arb_start (arb_run reqs arb t)"
      using arb_run_inv [OF assms(1,2), of t] assms(2) by (auto simp: arb_inv_def arb_start_def)
    with arb_step_towards [of ?a k] none Suc assms(3,4) show ?case by auto
  qed simp
  from this [OF order_refl] arb_dist_reaches [of ?n k "arb_start arb"] assms(1,3)
  show False by (auto simp: arb_inv_def)
qed

theorem arb_no_starvation_witness:
  "arb_inv three_way \<and> (\<exists>t<3. grant_idx (arb_run (\<lambda>t. [t = 0, True, True]) three_way (Suc t)) = 1)"
proof -
  have "arb_inv three_way" by (simp add: arb_inv_def)
  with arb_no_starvation [of three_way "\<lambda>t. [t = 0, True, True]" 1] show ?thesis by simp
qed

end
