(* ===== verification/Ost.thy ===== *)
theory Ost
  imports Fifo
begin

text \<open>
  The tables of outstanding transactions (\<^verbatim>\<open>base/ost.c\<close>): the queue \<^verbatim>\<open>ostq\<close>, whose slots are
  freed in the order of their allocation, and the keyed table \<^verbatim>\<open>ostk\<close>, whose slots are
  found by key, oldest first. A freed slot stays occupied until the next clock tick. The
  context of a slot is a value of the client's type; \<open>None\<close> stands for the zeroed bytes of a
  slot that was never written since it was cleared, which no client reads.
\<close>

section \<open>ost.c: the queue\<close>

record 'c ostq_entry =
  qe_vld :: bool
  qe_free_pending :: bool
  qe_ctx :: "'c option"

record 'c ostq =
  q_entries :: "'c ostq_entry list"
  q_depth :: nat
  q_count :: nat
  q_free_pending_count :: nat
  q_rptr :: nat
  q_wptr :: nat

definition qe_clear :: "'c ostq_entry" where
  "qe_clear = \<lparr>qe_vld = False, qe_free_pending = False, qe_ctx = None\<rparr>"

definition ostq_reset :: "'c ostq \<Rightarrow> 'c ostq" where
  "ostq_reset ost = ost\<lparr>q_entries := replicate (q_depth ost) qe_clear, q_count := 0,
     q_free_pending_count := 0, q_rptr := 0, q_wptr := 0\<rparr>"

definition ostq_construct :: "nat \<Rightarrow> 'c ostq option" where
  "ostq_construct depth = do {
     DBG_CHECK (depth > 0);
     Some (ostq_reset \<lparr>q_entries = replicate depth qe_clear, q_depth = depth, q_count = 0,
       q_free_pending_count = 0, q_rptr = 0, q_wptr = 0\<rparr>)
   }"

definition ostq_full :: "'c ostq \<Rightarrow> bool" where
  "ostq_full ost = (q_count ost = q_depth ost)"

definition ostq_empty :: "'c ostq \<Rightarrow> bool" where
  "ostq_empty ost = (q_count ost = 0)"

definition ostq_count :: "'c ostq \<Rightarrow> nat" where
  "ostq_count ost = q_count ost"

definition ostq_slot_valid :: "'c ostq \<Rightarrow> nat \<Rightarrow> bool option" where
  "ostq_slot_valid ost slot = do {
     DBG_CHECK (slot < q_depth ost);
     entry \<leftarrow> arr_get (q_entries ost) slot;
     Some (qe_vld entry \<and> \<not> qe_free_pending entry)
   }"

text \<open>The \<^verbatim>\<open>while\<close> loop of \<^verbatim>\<open>ostq_clock_slow\<close>.\<close>

function ostq_clock_loop :: "'c ostq \<Rightarrow> 'c ostq option" where
  "ostq_clock_loop ost =
     (if q_count ost > 0 then do {
        entry \<leftarrow> arr_get (q_entries ost) (q_rptr ost);
        DBG_CHECK (qe_vld entry);
        if \<not> qe_free_pending entry then Some ost
        else do {
          DBG_CHECK (q_free_pending_count ost > 0);
          ostq_clock_loop (ost\<lparr>q_entries := (q_entries ost)[q_rptr ost := qe_clear],
            q_count := q_count ost - 1, q_free_pending_count := q_free_pending_count ost - 1,
            q_rptr := (q_rptr ost + 1) mod q_depth ost\<rparr>)
        }
      } else Some ost)"
  by pat_completeness auto
termination
  by (relation "measure q_count") auto

declare ostq_clock_loop.simps [simp del]

definition ostq_clock_slow :: "'c ostq \<Rightarrow> 'c ostq option" where
  "ostq_clock_slow ost = (if q_free_pending_count ost = 0 then Some ost else ostq_clock_loop ost)"

definition ostq_clock :: "'c ostq \<Rightarrow> 'c ostq option" where
  "ostq_clock ost = (if q_free_pending_count ost \<noteq> 0 then ostq_clock_slow ost else Some ost)"

text \<open>\<open>Some None\<close> is the return value \<^verbatim>\<open>false\<close>.\<close>

definition ostq_alloc :: "'c ostq \<Rightarrow> 'c \<Rightarrow> (nat \<times> 'c ostq) option option" where
  "ostq_alloc ost ctx =
     (if ostq_full ost then Some None
      else do {
        let idx = q_wptr ost;
        entry \<leftarrow> arr_get (q_entries ost) idx;
        DBG_CHECK (\<not> qe_vld entry);
        Some (Some (idx, ost\<lparr>q_entries := (q_entries ost)
            [idx := \<lparr>qe_vld = True, qe_free_pending = False, qe_ctx = Some ctx\<rparr>],
          q_count := q_count ost + 1, q_wptr := (idx + 1) mod q_depth ost\<rparr>))
      })"

definition ostq_peek_head :: "'c ostq \<Rightarrow> (nat \<times> 'c) option option" where
  "ostq_peek_head ost =
     (if ostq_empty ost then Some None
      else do {
        entry \<leftarrow> arr_get (q_entries ost) (q_rptr ost);
        DBG_CHECK (qe_vld entry);
        if qe_free_pending entry then Some None
        else do {
          ctx \<leftarrow> qe_ctx entry;
          Some (Some (q_rptr ost, ctx))
        }
      })"

definition ostq_free_head :: "'c ostq \<Rightarrow> 'c ostq option" where
  "ostq_free_head ost = do {
     DBG_CHECK (\<not> ostq_empty ost);
     entry \<leftarrow> arr_get (q_entries ost) (q_rptr ost);
     DBG_CHECK (qe_vld entry);
     DBG_CHECK (\<not> qe_free_pending entry);
     Some (ost\<lparr>q_entries := (q_entries ost)[q_rptr ost := entry\<lparr>qe_free_pending := True\<rparr>],
       q_free_pending_count := q_free_pending_count ost + 1\<rparr>)
   }"

definition ostq_read_slot :: "'c ostq \<Rightarrow> nat \<Rightarrow> 'c option" where
  "ostq_read_slot ost slot = do {
     ok \<leftarrow> ostq_slot_valid ost slot;
     DBG_CHECK ok;
     entry \<leftarrow> arr_get (q_entries ost) slot;
     qe_ctx entry
   }"

definition ostq_write_slot :: "'c ostq \<Rightarrow> nat \<Rightarrow> 'c \<Rightarrow> 'c ostq option" where
  "ostq_write_slot ost slot ctx = do {
     ok \<leftarrow> ostq_slot_valid ost slot;
     DBG_CHECK ok;
     entry \<leftarrow> arr_get (q_entries ost) slot;
     Some (ost\<lparr>q_entries := (q_entries ost)[slot := entry\<lparr>qe_ctx := Some ctx\<rparr>]\<rparr>)
   }"

section \<open>The queue's invariant\<close>

text \<open>
  The valid slots are a window of the ring that starts at the read pointer; at most one slot
  waits to be freed, the one at the read pointer.
\<close>

definition ostq_data :: "'c ostq \<Rightarrow> 'c option list" where
  "ostq_data ost = map (\<lambda>e. if qe_vld e then qe_ctx e else None) (q_entries ost)"

definition ostq_inv :: "'c ostq \<Rightarrow> bool" where
  "ostq_inv ost \<longleftrightarrow> ring_inv (ostq_data ost) (q_depth ost) (q_count ost) (q_rptr ost) (q_wptr ost)
     \<and> (\<forall>i<q_depth ost - q_count ost.
          \<not> qe_vld (q_entries ost ! ((q_rptr ost + q_count ost + i) mod q_depth ost)))
     \<and> (q_free_pending_count ost = 0 \<or> q_free_pending_count ost = 1 \<and> q_count ost > 0)
     \<and> (\<forall>i<q_depth ost. qe_free_pending (q_entries ost ! i)
          = (i = q_rptr ost \<and> q_free_pending_count ost = 1))"

definition ostq_list :: "'c ostq \<Rightarrow> 'c list" where
  "ostq_list ost = ring_list (ostq_data ost) (q_depth ost) (q_count ost) (q_rptr ost)"

definition ostq_head_freed :: "'c ostq \<Rightarrow> bool" where
  "ostq_head_freed ost = (q_free_pending_count ost = 1)"

lemma ostq_data_length [simp]: "length (ostq_data ost) = length (q_entries ost)"
  by (simp add: ostq_data_def)

lemma ostq_inv_bounds:
  assumes "ostq_inv ost"
  shows "length (q_entries ost) = q_depth ost" "q_rptr ost < q_depth ost" "q_wptr ost < q_depth ost"
    "q_count ost \<le> q_depth ost" "0 < q_depth ost"
  using assms by (auto simp: ostq_inv_def ring_inv_def)

lemma ostq_slot_in_window:
  assumes "ostq_inv ost" "i < q_count ost"
  shows "qe_vld (q_entries ost ! ((q_rptr ost + i) mod q_depth ost))
    \<and> qe_ctx (q_entries ost ! ((q_rptr ost + i) mod q_depth ost)) = Some (ostq_list ost ! i)"
proof -
  let ?j = "(q_rptr ost + i) mod q_depth ost"
  have j: "?j < length (q_entries ost)" using ostq_inv_bounds [OF assms(1)] by simp
  have "ostq_data ost ! ?j \<noteq> None" using assms by (auto simp: ostq_inv_def ring_inv_def)
  moreover have "ostq_list ost ! i = the (ostq_data ost ! ?j)"
    using assms(2) by (simp add: ostq_list_def ring_list_nth)
  ultimately show ?thesis using j by (auto simp: ostq_data_def split: if_splits)
qed

lemma ostq_head:
  assumes "ostq_inv ost" "ostq_list ost = x # xs"
  shows "0 < q_count ost" "qe_vld (q_entries ost ! q_rptr ost)" "qe_ctx (q_entries ost ! q_rptr ost) = Some x"
    "qe_free_pending (q_entries ost ! q_rptr ost) = ostq_head_freed ost"
proof -
  show pos: "0 < q_count ost"
    using assms(2) by (cases "q_count ost") (auto simp: ostq_list_def ring_list_def)
  from ostq_slot_in_window [OF assms(1) this] assms(2) ostq_inv_bounds [OF assms(1)]
  show "qe_vld (q_entries ost ! q_rptr ost)" "qe_ctx (q_entries ost ! q_rptr ost) = Some x" by simp_all
  show "qe_free_pending (q_entries ost ! q_rptr ost) = ostq_head_freed ost"
    using assms(1) ostq_inv_bounds [OF assms(1)] by (simp add: ostq_inv_def ostq_head_freed_def)
qed

lemma ostq_wptr_free:
  assumes "ostq_inv ost" "q_count ost < q_depth ost"
  shows "\<not> qe_vld (q_entries ost ! q_wptr ost)" "\<not> qe_free_pending (q_entries ost ! q_wptr ost)"
proof -
  have w: "q_wptr ost = (q_rptr ost + q_count ost) mod q_depth ost"
    using assms(1) by (simp add: ostq_inv_def ring_inv_def)
  with assms show v: "\<not> qe_vld (q_entries ost ! q_wptr ost)"
    by (auto simp: ostq_inv_def dest: spec [of _ 0])
  have "qe_free_pending (q_entries ost ! q_wptr ost) \<Longrightarrow> q_wptr ost = q_rptr ost \<and> 0 < q_count ost"
    using assms(1) ostq_inv_bounds [OF assms(1)] by (auto simp: ostq_inv_def split: if_splits)
  with v ostq_slot_in_window [OF assms(1), of 0] ostq_inv_bounds [OF assms(1)]
  show "\<not> qe_free_pending (q_entries ost ! q_wptr ost)" by auto
qed

lemma ostq_data_upd:
  "ostq_data (ost\<lparr>q_entries := (q_entries ost)[i := e]\<rparr>) = (ostq_data ost)[i := if qe_vld e then qe_ctx e else None]"
  by (simp add: ostq_data_def map_update)

lemma ostq_data_frame [simp]:
  "ostq_data (ost\<lparr>q_count := a\<rparr>) = ostq_data ost" "ostq_data (ost\<lparr>q_wptr := a\<rparr>) = ostq_data ost"
  "ostq_data (ost\<lparr>q_rptr := a\<rparr>) = ostq_data ost" "ostq_data (ost\<lparr>q_free_pending_count := a\<rparr>) = ostq_data ost"
  by (simp_all add: ostq_data_def)

lemma ring_beyond:
  assumes "i < d - Suc n" "n < d"
  shows "((r + Suc n + i) mod d :: nat) \<noteq> (r + n) mod d"
proof -
  from assms have "Suc n + i < d" by linarith
  with mod_add_inj [of r "Suc n + i" d n] assms(2) show ?thesis by (auto simp: add.assoc)
qed

lemma ostq_alloc_ok:
  assumes inv: "ostq_inv ost" and room: "q_count ost < q_depth ost"
  shows "\<exists>ost'. ostq_alloc ost x = Some (Some (q_wptr ost, ost')) \<and> ostq_inv ost'
    \<and> ostq_list ost' = ostq_list ost @ [x] \<and> q_depth ost' = q_depth ost \<and> q_rptr ost' = q_rptr ost
    \<and> ostq_head_freed ost' = ostq_head_freed ost"
proof -
  let ?e = "\<lparr>qe_vld = True, qe_free_pending = False, qe_ctx = Some x\<rparr>"
  let ?ost = "ost\<lparr>q_entries := (q_entries ost)[q_wptr ost := ?e], q_count := q_count ost + 1,
    q_wptr := (q_wptr ost + 1) mod q_depth ost\<rparr>"
  note b = ostq_inv_bounds [OF inv] and free = ostq_wptr_free [OF inv room]
  have ring: "ring_inv (ostq_data ost) (q_depth ost) (q_count ost) (q_rptr ost) (q_wptr ost)"
    using inv by (simp add: ostq_inv_def)
  have w: "q_wptr ost = (q_rptr ost + q_count ost) mod q_depth ost" using ring by (simp add: ring_inv_def)
  have data: "ostq_data ?ost = (ostq_data ost)[q_wptr ost := Some x]"
    by (simp add: ostq_data_def map_update)
  have "\<not> qe_vld ((q_entries ost)[q_wptr ost := ?e] ! ((q_rptr ost + Suc (q_count ost) + i) mod q_depth ost))"
    if "i < q_depth ost - Suc (q_count ost)" for i
  proof -
    have "q_wptr ost \<noteq> (q_rptr ost + Suc (q_count ost) + i) mod q_depth ost"
      using ring_beyond [OF that room, of "q_rptr ost"] w by simp
    moreover from that have "Suc i < q_depth ost - q_count ost" by linarith
    with inv have "\<not> qe_vld (q_entries ost ! ((q_rptr ost + q_count ost + Suc i) mod q_depth ost))"
      unfolding ostq_inv_def by blast
    ultimately show ?thesis by simp
  qed
  moreover have "qe_free_pending ((q_entries ost)[q_wptr ost := ?e] ! i)
      = (i = q_rptr ost \<and> q_free_pending_count ost = 1)" if "i < q_depth ost" for i
    using inv free(2) that b by (cases "i = q_wptr ost") (auto simp: ostq_inv_def)
  ultimately have "ostq_inv ?ost"
    using ring_push_inv [OF ring room, of x] data inv by (auto simp: ostq_inv_def)
  moreover have "ostq_list ?ost = ostq_list ost @ [x]"
    using ring_push_list [OF ring room, of x] data by (simp add: ostq_list_def)
  moreover have "ostq_alloc ost x = Some (Some (q_wptr ost, ?ost))"
    using room free b by (simp add: ostq_alloc_def ostq_full_def Let_def)
  ultimately show ?thesis by (auto simp: ostq_head_freed_def)
qed

lemma ostq_alloc_full: "ostq_full ost \<Longrightarrow> ostq_alloc ost x = Some None"
  by (simp add: ostq_alloc_def)

lemma ostq_peek_eq:
  assumes "ostq_inv ost"
  shows "ostq_peek_head ost = Some (case ostq_list ost of
    [] \<Rightarrow> None | x # _ \<Rightarrow> if ostq_head_freed ost then None else Some (q_rptr ost, x))"
proof (cases "ostq_list ost")
  case Nil
  then show ?thesis by (simp add: ostq_peek_head_def ostq_empty_def ostq_list_def ring_list_def)
next
  case (Cons x xs)
  with ostq_head [OF assms Cons] ostq_inv_bounds [OF assms] show ?thesis
    by (simp add: ostq_peek_head_def ostq_empty_def)
qed

lemma ostq_free_head_ok:
  assumes inv: "ostq_inv ost" and ne: "ostq_list ost \<noteq> []" and live: "\<not> ostq_head_freed ost"
  shows "\<exists>ost'. ostq_free_head ost = Some ost' \<and> ostq_inv ost' \<and> ostq_list ost' = ostq_list ost
    \<and> ostq_head_freed ost' \<and> q_depth ost' = q_depth ost \<and> q_rptr ost' = q_rptr ost"
proof -
  obtain x xs where l: "ostq_list ost = x # xs" using ne by (cases "ostq_list ost") auto
  note h = ostq_head [OF inv l] and b = ostq_inv_bounds [OF inv]
  let ?e = "(q_entries ost ! q_rptr ost)\<lparr>qe_free_pending := True\<rparr>"
  let ?ost = "ost\<lparr>q_entries := (q_entries ost)[q_rptr ost := ?e], q_free_pending_count := q_free_pending_count ost + 1\<rparr>"
  have zero: "q_free_pending_count ost = 0" using live inv by (auto simp: ostq_head_freed_def ostq_inv_def)
  have data: "ostq_data ?ost = ostq_data ost"
    using h b by (simp add: ostq_data_def map_update list_update_same_conv)
  have vld: "qe_vld ((q_entries ost)[q_rptr ost := ?e] ! i) = qe_vld (q_entries ost ! i)" if "i < q_depth ost" for i
    using b that by (cases "i = q_rptr ost") auto
  have "qe_free_pending ((q_entries ost)[q_rptr ost := ?e] ! i) = (i = q_rptr ost)" if "i < q_depth ost" for i
    using inv b that zero by (cases "i = q_rptr ost") (auto simp: ostq_inv_def)
  with inv data vld zero h(1) b have "ostq_inv ?ost" by (auto simp: ostq_inv_def)
  moreover have "ostq_free_head ost = Some ?ost"
    using h b live by (simp add: ostq_free_head_def ostq_empty_def)
  ultimately show ?thesis using data zero by (auto simp: ostq_list_def ostq_head_freed_def)
qed

lemma ostq_clock_idle: "\<not> ostq_head_freed ost \<Longrightarrow> ostq_inv ost \<Longrightarrow> ostq_clock ost = Some ost"
  by (auto simp: ostq_clock_def ostq_head_freed_def ostq_inv_def)

lemma ostq_pop_inv:
  assumes inv: "ostq_inv ost" and freed: "ostq_head_freed ost" and l: "ostq_list ost = x # xs"
  defines "ost' \<equiv> ost\<lparr>q_entries := (q_entries ost)[q_rptr ost := qe_clear], q_count := q_count ost - 1,
    q_free_pending_count := q_free_pending_count ost - 1, q_rptr := (q_rptr ost + 1) mod q_depth ost\<rparr>"
  shows "ostq_inv ost' \<and> ostq_list ost' = xs \<and> \<not> ostq_head_freed ost'"
proof -
  note h = ostq_head [OF inv l] and b = ostq_inv_bounds [OF inv]
  let ?es = "(q_entries ost)[q_rptr ost := qe_clear]" and ?d = "q_depth ost" and ?r = "q_rptr ost"
  obtain n where n: "q_count ost = Suc n" using h(1) by (cases "q_count ost") auto
  have one: "q_free_pending_count ost = 1" using freed by (simp add: ostq_head_freed_def)
  have ring: "ring_inv (ostq_data ost) ?d (Suc n) ?r (q_wptr ost)" using inv n by (simp add: ostq_inv_def)
  have data: "ostq_data ost' = (ostq_data ost)[?r := None]"
    by (simp add: ost'_def ostq_data_def map_update qe_clear_def)
  have skip: "?r \<noteq> (?r + Suc i) mod ?d" if "i < n" for i
    using mod_add_inj [of ?r 0 ?d "Suc i"] that b n by auto
  have "ring_inv (ostq_data ost') ?d n ((?r + 1) mod ?d) (q_wptr ost)"
    using ring_pop_inv [OF ring] skip data by (auto simp: ring_inv_def)
  moreover have "ring_list (ostq_data ost') ?d n ((?r + 1) mod ?d) = ring_list (ostq_data ost) ?d n ((?r + 1) mod ?d)"
    using skip data by (auto simp: ring_list_def)
  moreover have "ring_list (ostq_data ost) ?d n ((?r + 1) mod ?d) = xs"
    using ring_pop_list [OF ring] l n by (simp add: ostq_list_def)
  moreover have "\<not> qe_vld (?es ! (((?r + 1) mod ?d + n + i) mod ?d))" if "i < ?d - n" for i
  proof (cases "((?r + 1) mod ?d + n + i) mod ?d = ?r")
    case True
    then show ?thesis using b by (simp add: qe_clear_def)
  next
    case False
    have "i < ?d - Suc n"
    proof (rule ccontr)
      assume "\<not> i < ?d - Suc n"
      with that have "Suc n + i = ?d" by simp
      then have "((?r + 1) mod ?d + n + i) mod ?d = ?r"
        using b by (metis add.assoc add.commute add_Suc_right mod_add_left_eq mod_add_self2 mod_less plus_1_eq_Suc)
      with False show False by simp
    qed
    with inv n have "\<not> qe_vld (q_entries ost ! ((?r + Suc n + i) mod ?d))" by (simp add: ostq_inv_def)
    with False show ?thesis by (simp add: add.assoc)
  qed
  moreover have "\<not> qe_free_pending (?es ! i)" if "i < ?d" for i
    using inv b that by (cases "i = ?r") (auto simp: ostq_inv_def qe_clear_def)
  ultimately show ?thesis
    using n one by (simp add: ostq_inv_def ostq_list_def ostq_head_freed_def ost'_def)
qed

lemma ostq_clock_freed:
  assumes inv: "ostq_inv ost" and freed: "ostq_head_freed ost" and l: "ostq_list ost = x # xs"
  shows "\<exists>ost'. ostq_clock ost = Some ost' \<and> ostq_inv ost' \<and> ostq_list ost' = xs
    \<and> \<not> ostq_head_freed ost' \<and> q_depth ost' = q_depth ost \<and> q_rptr ost' = (q_rptr ost + 1) mod q_depth ost"
proof -
  let ?ost = "ost\<lparr>q_entries := (q_entries ost)[q_rptr ost := qe_clear], q_count := q_count ost - 1,
    q_free_pending_count := q_free_pending_count ost - 1, q_rptr := (q_rptr ost + 1) mod q_depth ost\<rparr>"
  note h = ostq_head [OF inv l] and b = ostq_inv_bounds [OF inv] and p = ostq_pop_inv [OF inv freed l]
  have one: "q_free_pending_count ost = 1" using freed by (simp add: ostq_head_freed_def)
  have "ostq_clock_loop ?ost = Some ?ost"
  proof (cases "ostq_list ?ost")
    case Nil
    then have "q_count ?ost = 0" by (simp add: ostq_list_def ring_list_def)
    then show ?thesis by (subst ostq_clock_loop.simps) simp
  next
    case (Cons y ys)
    with ostq_head [of ?ost y ys] ostq_inv_bounds [of ?ost] p show ?thesis
      by (subst ostq_clock_loop.simps) simp
  qed
  then have "ostq_clock ost = Some ?ost"
    using h b one by (simp add: ostq_clock_def ostq_clock_slow_def ostq_clock_loop.simps [of ost] freed)
  with p show ?thesis by (intro exI [of _ ?ost]) simp
qed

section \<open>Slots\<close>

lemma ostq_slot_valid_eq:
  assumes inv: "ostq_inv ost" and i: "i < q_count ost"
  shows "ostq_slot_valid ost ((q_rptr ost + i) mod q_depth ost) = Some (\<not> (i = 0 \<and> ostq_head_freed ost))"
proof -
  let ?j = "(q_rptr ost + i) mod q_depth ost"
  note b = ostq_inv_bounds [OF inv]
  have j: "?j < q_depth ost" using b by simp
  have "?j = q_rptr ost \<longleftrightarrow> i = 0" using mod_add_inj [of "q_rptr ost" i "q_depth ost" 0] b i by auto
  moreover have "qe_free_pending (q_entries ost ! ?j) = (?j = q_rptr ost \<and> q_free_pending_count ost = 1)"
    using inv j by (simp add: ostq_inv_def)
  ultimately show ?thesis
    using ostq_slot_in_window [OF inv i] j b by (simp add: ostq_slot_valid_def ostq_head_freed_def)
qed

lemma ostq_read_slot_eq:
  assumes "ostq_inv ost" "i < q_count ost" "\<not> (i = 0 \<and> ostq_head_freed ost)"
  shows "ostq_read_slot ost ((q_rptr ost + i) mod q_depth ost) = Some (ostq_list ost ! i)"
  using ostq_slot_valid_eq [OF assms(1,2)] ostq_slot_in_window [OF assms(1,2)] ostq_inv_bounds [OF assms(1)]
    assms(3) by (simp add: ostq_read_slot_def)

lemma ostq_write_slot_eq:
  assumes inv: "ostq_inv ost" and i: "i < q_count ost" and live: "\<not> (i = 0 \<and> ostq_head_freed ost)"
  shows "\<exists>ost'. ostq_write_slot ost ((q_rptr ost + i) mod q_depth ost) c = Some ost' \<and> ostq_inv ost'
    \<and> ostq_list ost' = (ostq_list ost)[i := c] \<and> q_depth ost' = q_depth ost \<and> q_rptr ost' = q_rptr ost
    \<and> q_count ost' = q_count ost \<and> ostq_head_freed ost' = ostq_head_freed ost"
proof -
  let ?d = "q_depth ost" and ?r = "q_rptr ost" and ?j = "(q_rptr ost + i) mod q_depth ost"
  note b = ostq_inv_bounds [OF inv] and w = ostq_slot_in_window [OF inv i]
  let ?e = "(q_entries ost ! ?j)\<lparr>qe_ctx := Some c\<rparr>"
  let ?ost = "ost\<lparr>q_entries := (q_entries ost)[?j := ?e]\<rparr>"
  have j: "?j < length (q_entries ost)" using b by simp
  have data: "ostq_data ?ost = (ostq_data ost)[?j := Some c]" using w by (simp add: ostq_data_upd)
  have sel: "ostq_data ?ost ! ((?r + k) mod ?d) = (if k = i then Some c else ostq_data ost ! ((?r + k) mod ?d))"
    if "k < q_count ost" for k
  proof (cases "k = i")
    case False
    with mod_add_inj [of ?r k ?d i] that i b have "?j \<noteq> (?r + k) mod ?d" by auto
    with False data show ?thesis by (simp add: nth_list_update_neq)
  qed (use data j in simp)
  have "qe_vld (q_entries ?ost ! k) = qe_vld (q_entries ost ! k)"
    "qe_free_pending (q_entries ?ost ! k) = qe_free_pending (q_entries ost ! k)" if "k < ?d" for k
    using that b by (cases "k = ?j"; simp)+
  then have "ostq_inv ?ost"
    using inv sel b data by (auto simp: ostq_inv_def ring_inv_def)
  moreover have "ostq_list ?ost = (ostq_list ost)[i := c]"
    using sel by (intro nth_equalityI) (auto simp: ostq_list_def ring_list_nth nth_list_update)
  moreover have "ostq_write_slot ost ?j c = Some ?ost"
    using ostq_slot_valid_eq [OF inv i] live j by (simp add: ostq_write_slot_def)
  ultimately show ?thesis by (auto simp: ostq_head_freed_def)
qed

lemma ostq_construct_inv:
  assumes "ostq_construct depth = Some ost"
  shows "ostq_inv ost \<and> ostq_list ost = [] \<and> \<not> ostq_head_freed ost \<and> q_depth ost = depth"
proof -
  have "qe_vld (replicate depth qe_clear ! (k mod depth)) = False"
    "qe_free_pending (replicate depth qe_clear ! (k mod depth)) = False" if "0 < depth" for k
    using that by (simp_all add: qe_clear_def)
  with assms show ?thesis
    by (auto simp: ostq_construct_def ostq_reset_def ostq_inv_def ostq_list_def ring_list_def ring_inv_def
        ostq_head_freed_def ostq_data_def qe_clear_def split: if_splits)
qed

section \<open>The queue as a bounded FIFO\<close>

definition ostq_push :: "'c ostq \<Rightarrow> 'c \<Rightarrow> 'c ostq option" where
  "ostq_push ost x = do { r \<leftarrow> ostq_alloc ost x; (slot, ost) \<leftarrow> r; Some ost }"

text \<open>The head leaves the queue in the clock tick after it was freed.\<close>

definition ostq_pop :: "'c ostq \<Rightarrow> ('c \<times> 'c ostq) option" where
  "ostq_pop ost = do {
     r \<leftarrow> ostq_peek_head ost;
     (slot, x) \<leftarrow> r;
     ost \<leftarrow> ostq_free_head ost;
     ost \<leftarrow> ostq_clock ost;
     Some (x, ost)
   }"

definition ostq_front :: "'c ostq \<Rightarrow> 'c option" where
  "ostq_front ost = map_option snd (Option.bind (ostq_peek_head ost) id)"

definition ostq_settled :: "'c ostq \<Rightarrow> bool" where
  "ostq_settled ost \<longleftrightarrow> ostq_inv ost \<and> \<not> ostq_head_freed ost"

lemma ostq_list_length: "length (ostq_list ost) = q_count ost"
  by (simp add: ostq_list_def)

interpretation ostq: bounded_fifo ostq_settled ostq_list q_depth ostq_push ostq_pop ostq_front ostq_empty ostq_full
proof (unfold_locales, goal_cases)
  case (1 q x)
  then show ?case
    using ostq_alloc_ok [of q x] by (auto simp: ostq_push_def ostq_settled_def ostq_list_length)
next
  case (3 q x xs)
  then have peek: "ostq_peek_head q = Some (Some (q_rptr q, x))" by (simp add: ostq_peek_eq ostq_settled_def)
  from 3 obtain q1 where q1: "ostq_free_head q = Some q1" "ostq_inv q1" "ostq_list q1 = x # xs"
    "ostq_head_freed q1" "q_depth q1 = q_depth q"
    using ostq_free_head_ok [of q] by (auto simp: ostq_settled_def)
  with ostq_clock_freed [OF q1(2,4,3)] peek show ?case by (auto simp: ostq_pop_def ostq_settled_def)
next
  case (4 q)
  then show ?case by (simp add: ostq_pop_def ostq_peek_eq ostq_settled_def)
qed (auto simp: ostq_settled_def ostq_push_def ostq_pop_def ostq_front_def ostq_alloc_def ostq_peek_eq
    ostq_full_def ostq_empty_def ostq_list_length intro: ostq_inv_bounds simp flip: length_0_conv)

section \<open>Properties\<close>

text \<open>
  The queue of outstanding transactions refines a bounded list: whatever sequence of
  allocations and of take-and-free operations (with the clock tick that completes them) is
  run, transactions come back in the order of their allocation with their contexts, an
  allocation fails exactly when the queue is full, and no assertion of the code fails
  otherwise.
\<close>

theorem ostq_refines_queue:
  assumes "ostq_settled ost"
  shows "map_option (map_prod id ostq_list) (run_fifo ostq_push ostq_pop ops ost)
    = run_fifo (list_push (q_depth ost)) list_pop ops (ostq_list ost)"
  using assms by (rule ostq.run_refines)

theorem ostq_refines_queue_witness:
  "map_option (map_prod id ostq_list) (run_fifo ostq_push ostq_pop
      [Push 1, Push 2, Pop, Push 3, Pop] (the (ostq_construct 2))) = Some ([1, 2 :: nat], [3])"
proof -
  let ?q = "the (ostq_construct 2) :: nat ostq"
  have "ostq_construct 2 = Some ?q" by (simp add: ostq_construct_def)
  from ostq_construct_inv [OF this]
  have q: "ostq_settled ?q" "ostq_list ?q = []" "q_depth ?q = 2" by (simp_all add: ostq_settled_def)
  show ?thesis
    using ostq_refines_queue [OF q(1), of "[Push 1, Push 2, Pop, Push 3, Pop]"]
    by (simp add: list_push_def q)
qed

end
