(* ===== verification/Ostk.thy ===== *)
theory Ostk
  imports Prelude
begin

text \<open>
  The keyed table of outstanding transactions (the \<^verbatim>\<open>ostk\<close> half of \<^verbatim>\<open>base/ost.c\<close>). A response
  is matched with the oldest live transaction of its key. The bus multiplexers and bridges
  keep one such table per direction; the contract they rely on, one FIFO queue per key, is a
  locale here, and the table is an interpretation of it. As for the queue, \<open>None\<close> in a slot's
  context stands for cleared bytes.
\<close>

section \<open>ost.c: the keyed table\<close>

record 'c ostk_entry =
  ke_vld :: bool
  ke_free_pending :: bool
  ke_key :: u32
  ke_issue_seq :: u64
  ke_ctx :: "'c option"

record 'c ostk =
  k_entries :: "'c ostk_entry list"
  k_depth :: nat
  k_count :: nat
  k_free_pending_count :: nat
  k_wptr :: nat
  k_rptr :: nat
  k_next_issue_seq :: u64

definition ke_clear :: "'c ostk_entry" where
  "ke_clear = \<lparr>ke_vld = False, ke_free_pending = False, ke_key = 0, ke_issue_seq = 0, ke_ctx = None\<rparr>"

definition ostk_full :: "'c ostk \<Rightarrow> bool" where
  "ostk_full ost = (k_count ost = k_depth ost)"

definition ostk_empty :: "'c ostk \<Rightarrow> bool" where
  "ostk_empty ost = (k_count ost = 0)"

definition ostk_count :: "'c ostk \<Rightarrow> nat" where
  "ostk_count ost = k_count ost"

definition ostk_slot_valid :: "'c ostk \<Rightarrow> nat \<Rightarrow> bool option" where
  "ostk_slot_valid ost slot = do {
     DBG_CHECK (slot < k_depth ost);
     entry \<leftarrow> arr_get (k_entries ost) slot;
     Some (ke_vld entry \<and> \<not> ke_free_pending entry)
   }"

definition ostk_find_free_slot :: "'c ostk \<Rightarrow> nat option option" where
  "ostk_find_free_slot ost =
     (if ostk_full ost then Some None
      else case List.find (\<lambda>i. \<not> ke_vld (k_entries ost ! ((k_wptr ost + i) mod k_depth ost))) [0..<k_depth ost] of
        Some i \<Rightarrow> Some (Some ((k_wptr ost + i) mod k_depth ost))
      | None \<Rightarrow> None)"

text \<open>
  The loop that \<^verbatim>\<open>ostk_find_head_slot\<close> and \<^verbatim>\<open>ostk_peek_key\<close> share: after \<open>n\<close> rounds, the slot
  and the sequence number of the oldest entry that qualifies.
\<close>

primrec ostk_scan :: "('c ostk_entry \<Rightarrow> bool) \<Rightarrow> 'c ostk_entry list \<Rightarrow> nat \<Rightarrow> (nat \<times> u64) option" where
  "ostk_scan P entries 0 = None"
| "ostk_scan P entries (Suc i) = (let best = ostk_scan P entries i; entry = entries ! i in
     if \<not> P entry then best
     else case best of
       None \<Rightarrow> Some (i, ke_issue_seq entry)
     | Some (best_slot, best_seq) \<Rightarrow>
         if ke_issue_seq entry < best_seq then Some (i, ke_issue_seq entry) else best)"

definition ostk_find_head_slot :: "'c ostk \<Rightarrow> nat option" where
  "ostk_find_head_slot ost =
     map_option fst (ostk_scan (\<lambda>e. ke_vld e \<and> \<not> ke_free_pending e) (k_entries ost) (k_depth ost))"

definition ostk_update_rptr :: "'c ostk \<Rightarrow> 'c ostk" where
  "ostk_update_rptr ost = (case ostk_find_head_slot ost of
     Some slot \<Rightarrow> ost\<lparr>k_rptr := slot\<rparr>
   | None \<Rightarrow> ost\<lparr>k_rptr := k_wptr ost\<rparr>)"

definition ostk_reset :: "'c ostk \<Rightarrow> 'c ostk" where
  "ostk_reset ost = ost\<lparr>k_entries := replicate (k_depth ost) ke_clear, k_count := 0,
     k_free_pending_count := 0, k_wptr := 0, k_rptr := 0, k_next_issue_seq := 0\<rparr>"

definition ostk_construct :: "nat \<Rightarrow> 'c ostk option" where
  "ostk_construct depth = do {
     DBG_CHECK (depth > 0);
     Some (ostk_reset \<lparr>k_entries = replicate depth ke_clear, k_depth = depth, k_count = 0,
       k_free_pending_count = 0, k_wptr = 0, k_rptr = 0, k_next_issue_seq = 0\<rparr>)
   }"

text \<open>The loop of \<^verbatim>\<open>ostk_clock_slow\<close> over the slots; the flag is \<^verbatim>\<open>freed\<close>.\<close>

fun ostk_clock_loop :: "nat list \<Rightarrow> 'c ostk \<Rightarrow> bool \<Rightarrow> ('c ostk \<times> bool) option" where
  "ostk_clock_loop [] ost freed = Some (ost, freed)"
| "ostk_clock_loop (i # is) ost freed = do {
     entry \<leftarrow> arr_get (k_entries ost) i;
     if \<not> ke_vld entry \<or> \<not> ke_free_pending entry then ostk_clock_loop is ost freed
     else do {
       DBG_CHECK (k_count ost > 0);
       DBG_CHECK (k_free_pending_count ost > 0);
       ostk_clock_loop is (ost\<lparr>k_entries := (k_entries ost)[i := ke_clear], k_count := k_count ost - 1,
         k_free_pending_count := k_free_pending_count ost - 1\<rparr>) True
     }
   }"

definition ostk_clock_slow :: "'c ostk \<Rightarrow> 'c ostk option" where
  "ostk_clock_slow ost =
     (if k_free_pending_count ost = 0 then Some ost
      else do {
        (ost, freed) \<leftarrow> ostk_clock_loop [0..<k_depth ost] ost False;
        DBG_CHECK (k_free_pending_count ost = 0);
        Some (if freed then ostk_update_rptr ost else ost)
      })"

definition ostk_clock :: "'c ostk \<Rightarrow> 'c ostk option" where
  "ostk_clock ost = (if k_free_pending_count ost \<noteq> 0 then ostk_clock_slow ost else Some ost)"

definition ostk_alloc :: "'c ostk \<Rightarrow> u32 \<Rightarrow> 'c \<Rightarrow> (nat \<times> 'c ostk) option option" where
  "ostk_alloc ost key ctx = do {
     r \<leftarrow> ostk_find_free_slot ost;
     case r of
       None \<Rightarrow> Some None
     | Some slot \<Rightarrow> do {
         entries \<leftarrow> arr_put (k_entries ost) slot \<lparr>ke_vld = True, ke_free_pending = False, ke_key = key,
           ke_issue_seq = k_next_issue_seq ost, ke_ctx = Some ctx\<rparr>;
         Some (Some (slot, ostk_update_rptr (ost\<lparr>k_entries := entries,
           k_next_issue_seq := k_next_issue_seq ost + 1, k_count := k_count ost + 1,
           k_wptr := (slot + 1) mod k_depth ost\<rparr>)))
       }
   }"

definition ostk_peek_key :: "'c ostk \<Rightarrow> u32 \<Rightarrow> (nat \<times> 'c) option option" where
  "ostk_peek_key ost key =
     (case ostk_scan (\<lambda>e. ke_vld e \<and> \<not> ke_free_pending e \<and> ke_key e = key) (k_entries ost) (k_depth ost) of
        None \<Rightarrow> Some None
      | Some (best_slot, _) \<Rightarrow> do {
          entry \<leftarrow> arr_get (k_entries ost) best_slot;
          ctx \<leftarrow> ke_ctx entry;
          Some (Some (best_slot, ctx))
        })"

definition ostk_free_slot :: "'c ostk \<Rightarrow> nat \<Rightarrow> 'c ostk option" where
  "ostk_free_slot ost slot = do {
     ok \<leftarrow> ostk_slot_valid ost slot;
     DBG_CHECK ok;
     entry \<leftarrow> arr_get (k_entries ost) slot;
     Some (ost\<lparr>k_entries := (k_entries ost)[slot := entry\<lparr>ke_free_pending := True\<rparr>],
       k_free_pending_count := k_free_pending_count ost + 1\<rparr>)
   }"

definition ostk_read_slot :: "'c ostk \<Rightarrow> nat \<Rightarrow> 'c option" where
  "ostk_read_slot ost slot = do {
     ok \<leftarrow> ostk_slot_valid ost slot;
     DBG_CHECK ok;
     entry \<leftarrow> arr_get (k_entries ost) slot;
     ke_ctx entry
   }"

definition ostk_write_slot :: "'c ostk \<Rightarrow> nat \<Rightarrow> 'c \<Rightarrow> 'c ostk option" where
  "ostk_write_slot ost slot ctx = do {
     ok \<leftarrow> ostk_slot_valid ost slot;
     DBG_CHECK ok;
     entry \<leftarrow> arr_get (k_entries ost) slot;
     Some (ost\<lparr>k_entries := (k_entries ost)[slot := entry\<lparr>ke_ctx := Some ctx\<rparr>]\<rparr>)
   }"

section \<open>Invariant and abstraction\<close>

definition ke_live :: "'c ostk_entry \<Rightarrow> bool" where
  "ke_live e \<longleftrightarrow> ke_vld e \<and> \<not> ke_free_pending e"

definition ostk_inv :: "'c ostk \<Rightarrow> bool" where
  "ostk_inv ost \<longleftrightarrow> 0 < k_depth ost \<and> length (k_entries ost) = k_depth ost
     \<and> k_count ost = length (filter ke_vld (k_entries ost))
     \<and> k_free_pending_count ost = length (filter ke_free_pending (k_entries ost))
     \<and> (\<forall>e\<in>set (k_entries ost). (ke_free_pending e \<longrightarrow> ke_vld e)
          \<and> (ke_vld e \<longrightarrow> ke_ctx e \<noteq> None \<and> ke_issue_seq e < k_next_issue_seq ost))
     \<and> (\<forall>i<k_depth ost. \<forall>j<k_depth ost. ke_vld (k_entries ost ! i) \<and> ke_vld (k_entries ost ! j)
          \<and> ke_issue_seq (k_entries ost ! i) = ke_issue_seq (k_entries ost ! j) \<longrightarrow> i = j)"

definition seq_of :: "'c ostk \<Rightarrow> nat \<Rightarrow> u64" where
  "seq_of ost i = ke_issue_seq (k_entries ost ! i)"

definition live_slots :: "'c ostk \<Rightarrow> u32 \<Rightarrow> nat set" where
  "live_slots ost key = {i. i < k_depth ost \<and> ke_live (k_entries ost ! i) \<and> ke_key (k_entries ost ! i) = key}"

text \<open>The live slots of a key and their contexts, oldest first.\<close>

definition ostk_slots :: "'c ostk \<Rightarrow> u32 \<Rightarrow> nat list" where
  "ostk_slots ost key = sort_key (seq_of ost)
     (filter (\<lambda>i. ke_live (k_entries ost ! i) \<and> ke_key (k_entries ost ! i) = key) [0..<k_depth ost])"

definition ostk_queue :: "'c ostk \<Rightarrow> u32 \<Rightarrow> 'c list" where
  "ostk_queue ost key = map (\<lambda>i. the (ke_ctx (k_entries ost ! i))) (ostk_slots ost key)"

lemma ostk_slots_set [simp]: "set (ostk_slots ost key) = live_slots ost key"
  by (auto simp: ostk_slots_def live_slots_def)

lemma inv_seq_inj: "ostk_inv ost \<Longrightarrow> inj_on (seq_of ost) {i. i < k_depth ost \<and> ke_vld (k_entries ost ! i)}"
  by (auto simp: inj_on_def ostk_inv_def seq_of_def)

lemma inv_slots_inj: "ostk_inv ost \<Longrightarrow> inj_on (seq_of ost) (live_slots ost key)"
  by (rule inj_on_subset [OF inv_seq_inj]) (auto simp: live_slots_def ke_live_def)

lemma ostk_slots_sorted: "sorted (map (seq_of ost) (ostk_slots ost key))"
  by (simp add: ostk_slots_def)

lemma ostk_slots_distinct: "distinct (ostk_slots ost key)"
  by (simp add: ostk_slots_def)

lemma ostk_slots_eqI:
  assumes "ostk_inv ost" "set xs = live_slots ost key" "sorted (map (seq_of ost) xs)" "distinct xs"
  shows "ostk_slots ost key = xs"
proof (rule map_sorted_distinct_set_unique)
  show "inj_on (seq_of ost) (set (ostk_slots ost key) \<union> set xs)"
    using inv_slots_inj [OF assms(1)] assms(2) by simp
  then show "distinct (map (seq_of ost) (ostk_slots ost key))" "distinct (map (seq_of ost) xs)"
    using assms(4) ostk_slots_distinct by (auto simp: distinct_map intro: inj_on_subset)
qed (use assms ostk_slots_sorted in auto)

lemma filter_len_update:
  assumes "i < length xs"
  shows "length (filter P (xs[i := x])) + of_bool (P (xs ! i)) = length (filter P xs) + of_bool (P x)"
  using assms
proof (induction xs arbitrary: i)
  case (Cons y ys)
  then show ?case by (cases i) auto
qed simp

lemma ostk_scan_None: "ostk_scan P es n = None \<longleftrightarrow> (\<forall>i<n. \<not> P (es ! i))"
  by (induction n) (auto simp: Let_def less_Suc_eq split: option.splits if_splits)

lemma ostk_scan_Some:
  "ostk_scan P es n = Some (b, s) \<Longrightarrow>
    b < n \<and> P (es ! b) \<and> s = ke_issue_seq (es ! b) \<and> (\<forall>i<n. P (es ! i) \<longrightarrow> s \<le> ke_issue_seq (es ! i))"
proof (induction n arbitrary: b s)
  case (Suc n)
  show ?case
  proof (cases "ostk_scan P es n")
    case None
    with Suc.prems show ?thesis by (auto simp: Let_def ostk_scan_None less_Suc_eq split: if_splits)
  next
    case (Some bs)
    obtain b' s' where bs: "bs = (b', s')" by fastforce
    from Suc.IH [OF Some [unfolded bs]] have "b' < n" "P (es ! b')" "s' = ke_issue_seq (es ! b')"
      "\<forall>i<n. P (es ! i) \<longrightarrow> s' \<le> ke_issue_seq (es ! i)" by blast+
    with Suc.prems Some bs show ?thesis
      by (cases "P (es ! n)"; cases "ke_issue_seq (es ! n) < s'")
        (auto simp: Let_def less_Suc_eq not_less split: if_splits intro: order_trans [OF less_imp_le])
  qed
qed simp

lemma ostk_slots_head:
  assumes "ostk_inv ost" "ostk_slots ost key = i # is"
  shows "i \<in> live_slots ost key" "\<forall>j\<in>live_slots ost key. seq_of ost i \<le> seq_of ost j"
proof -
  have set: "live_slots ost key = insert i (set is)" using ostk_slots_set [of ost key] assms(2) by simp
  then show "i \<in> live_slots ost key" by simp
  show "\<forall>j\<in>live_slots ost key. seq_of ost i \<le> seq_of ost j"
    using ostk_slots_sorted [of ost key] assms(2) set by auto
qed

lemma ostk_peek_slots:
  assumes inv: "ostk_inv ost"
  shows "ostk_peek_key ost key = Some (case ostk_slots ost key of
    [] \<Rightarrow> None | i # _ \<Rightarrow> Some (i, hd (ostk_queue ost key)))"
proof -
  let ?P = "\<lambda>e. ke_vld e \<and> \<not> ke_free_pending e \<and> ke_key e = key"
  have live: "i \<in> live_slots ost key \<longleftrightarrow> i < k_depth ost \<and> ?P (k_entries ost ! i)" for i
    by (auto simp: live_slots_def ke_live_def)
  show ?thesis
  proof (cases "ostk_scan ?P (k_entries ost) (k_depth ost)")
    case None
    then have "live_slots ost key = {}" using live by (auto simp: ostk_scan_None)
    then have "set (ostk_slots ost key) = {}" by simp
    then have "ostk_slots ost key = []" by (simp only: set_empty)
    with None show ?thesis by (simp add: ostk_peek_key_def)
  next
    case (Some bs)
    obtain b s where bs: "bs = (b, s)" by fastforce
    from ostk_scan_Some [OF Some [unfolded bs]] live
    have b: "b \<in> live_slots ost key" "\<forall>j\<in>live_slots ost key. seq_of ost b \<le> seq_of ost j"
      by (auto simp: seq_of_def)
    then obtain i js where sl: "ostk_slots ost key = i # js"
      using ostk_slots_set [of ost key] by (cases "ostk_slots ost key") auto
    from ostk_slots_head [OF inv sl] b inv_slots_inj [OF inv, of key] have "i = b"
      by (meson antisym inj_onD)
    moreover obtain c where "ke_ctx (k_entries ost ! b) = Some c" "b < length (k_entries ost)"
      using b(1) inv by (auto simp: live_slots_def ke_live_def ostk_inv_def)
    ultimately show ?thesis
      using Some bs sl by (simp add: ostk_peek_key_def ostk_queue_def)
  qed
qed

lemma ostk_free_slot_exists:
  assumes "ostk_inv ost" "\<not> ostk_full ost"
  shows "\<exists>slot. ostk_find_free_slot ost = Some (Some slot) \<and> slot < k_depth ost \<and> \<not> ke_vld (k_entries ost ! slot)"
proof -
  let ?d = "k_depth ost" and ?w = "k_wptr ost"
  have d: "0 < ?d" "length (k_entries ost) = ?d" using assms(1) by (simp_all add: ostk_inv_def)
  have "\<exists>e\<in>set (k_entries ost). \<not> ke_vld e"
  proof (rule ccontr)
    assume "\<not> ?thesis"
    then have "filter ke_vld (k_entries ost) = k_entries ost" by (simp add: filter_id_conv)
    with assms show False by (simp add: ostk_inv_def ostk_full_def)
  qed
  then obtain k where k: "k < ?d" "\<not> ke_vld (k_entries ost ! k)" using d by (auto simp: in_set_conv_nth)
  define m where "m = (k + ?d - ?w mod ?d) mod ?d"
  have "(?w + m) mod ?d = (?w mod ?d + (k + ?d - ?w mod ?d)) mod ?d"
    unfolding m_def by (metis mod_add_left_eq mod_add_right_eq)
  also have "?w mod ?d + (k + ?d - ?w mod ?d) = k + ?d"
    using d by (simp add: less_imp_le_nat trans_le_add2)
  finally have "(?w + m) mod ?d = k" using k by simp
  moreover have "m < ?d" using d by (simp add: m_def)
  ultimately have "List.find (\<lambda>i. \<not> ke_vld (k_entries ost ! ((?w + i) mod ?d))) [0..<?d] \<noteq> None"
    using k(2) by (auto simp: find_None_iff)
  then obtain i where i: "List.find (\<lambda>i. \<not> ke_vld (k_entries ost ! ((?w + i) mod ?d))) [0..<?d] = Some i" by blast
  from find_SomeD [OF this] i d assms(2) show ?thesis by (simp add: ostk_find_free_slot_def)
qed

lemma update_rptr_frame [simp]:
  "k_entries (ostk_update_rptr ost) = k_entries ost" "k_depth (ostk_update_rptr ost) = k_depth ost"
  "k_count (ostk_update_rptr ost) = k_count ost" "k_next_issue_seq (ostk_update_rptr ost) = k_next_issue_seq ost"
  "k_free_pending_count (ostk_update_rptr ost) = k_free_pending_count ost"
  by (simp_all add: ostk_update_rptr_def split: option.splits)

lemma ostk_frame:
  assumes "k_entries ost' = k_entries ost" "k_depth ost' = k_depth ost"
  shows "ostk_slots ost' key = ostk_slots ost key" "ostk_queue ost' key = ostk_queue ost key"
  using assms by (auto simp: ostk_slots_def ostk_queue_def seq_of_def [abs_def])

lemma next_seq_less:
  assumes "unat (n :: u64) < 2 ^ 64 - 1"
  shows "n < n + 1" "s < n \<Longrightarrow> s < n + 1"
proof -
  have "unat (n + 1) = unat n + 1" using assms(1) by (simp add: unat_word_ariths)
  then show "n < n + 1" by (simp add: word_less_nat_alt)
  then show "s < n \<Longrightarrow> s < n + 1" by order
qed

text \<open>Filling a free slot with a fresh sequence number.\<close>

lemma ostk_fill_inv:
  assumes inv: "ostk_inv ost" and slot: "slot < k_depth ost" "\<not> ke_vld (k_entries ost ! slot)"
    and seq: "unat (k_next_issue_seq ost) < 2 ^ 64 - 1"
    and e: "ke_vld e" "\<not> ke_free_pending e" "ke_ctx e \<noteq> None" "ke_issue_seq e = k_next_issue_seq ost"
    and ost': "k_entries ost' = (k_entries ost)[slot := e]" "k_depth ost' = k_depth ost" "k_count ost' = k_count ost + 1"
      "k_free_pending_count ost' = k_free_pending_count ost" "k_next_issue_seq ost' = k_next_issue_seq ost + 1"
  shows "ostk_inv ost'"
proof -
  let ?es = "k_entries ost" and ?es' = "(k_entries ost)[slot := e]"
  have len: "length ?es = k_depth ost" and d: "0 < k_depth ost" using inv by (simp_all add: ostk_inv_def)
  have ents: "\<forall>e\<in>set ?es. (ke_free_pending e \<longrightarrow> ke_vld e)
      \<and> (ke_vld e \<longrightarrow> ke_ctx e \<noteq> None \<and> ke_issue_seq e < k_next_issue_seq ost)"
    using inv by (simp add: ostk_inv_def)
  have mem: "?es ! i \<in> set ?es" if "i < k_depth ost" for i using that len by simp
  have npend: "\<not> ke_free_pending (?es ! slot)" using ents mem [OF slot(1)] slot(2) by blast
  have next_less: "x < k_next_issue_seq ost + 1" if "x < k_next_issue_seq ost \<or> x = k_next_issue_seq ost" for x
    using next_seq_less [OF seq] that by blast
  have "k_count ost + 1 = length (filter ke_vld ?es')"
    using filter_len_update [of slot ?es ke_vld e] slot len e inv by (simp add: ostk_inv_def)
  moreover have "k_free_pending_count ost = length (filter ke_free_pending ?es')"
    using filter_len_update [of slot ?es ke_free_pending e] slot len e npend inv by (simp add: ostk_inv_def)
  moreover have "(ke_free_pending x \<longrightarrow> ke_vld x)
      \<and> (ke_vld x \<longrightarrow> ke_ctx x \<noteq> None \<and> ke_issue_seq x < k_next_issue_seq ost + 1)" if "x \<in> set ?es'" for x
  proof -
    from that have "x = e \<or> x \<in> set ?es" using set_update_subset_insert by fast
    with ents e next_less show ?thesis by (elim disjE) simp_all
  qed
  moreover have "i = j" if ij: "i < k_depth ost" "j < k_depth ost" "ke_vld (?es' ! i)" "ke_vld (?es' ! j)"
    "ke_issue_seq (?es' ! i) = ke_issue_seq (?es' ! j)" for i j
  proof -
    have lt: "ke_issue_seq (?es ! k) < k_next_issue_seq ost" if "k < k_depth ost" "ke_vld (?es ! k)" for k
      using ents mem that by blast
    show ?thesis
    proof (cases "i = slot \<or> j = slot")
      case True
      with ij lt [of i] lt [of j] len slot e(4) show ?thesis
        by (cases "i = slot"; cases "j = slot") (simp_all add: nth_list_update)
    next
      case False
      then have "?es' ! i = ?es ! i" "?es' ! j = ?es ! j" by simp_all
      with ij inv show ?thesis by (simp add: ostk_inv_def)
    qed
  qed
  ultimately show ?thesis using ost' d len unfolding ostk_inv_def by simp
qed

lemma ostk_alloc_ok:
  assumes inv: "ostk_inv ost" and room: "\<not> ostk_full ost" and seq: "unat (k_next_issue_seq ost) < 2 ^ 64 - 1"
  shows "\<exists>slot ost'. ostk_alloc ost key ctx = Some (Some (slot, ost')) \<and> ostk_inv ost'
    \<and> ostk_queue ost' = (ostk_queue ost)(key := ostk_queue ost key @ [ctx])
    \<and> k_depth ost' = k_depth ost \<and> k_count ost' = k_count ost + 1
    \<and> unat (k_next_issue_seq ost') = unat (k_next_issue_seq ost) + 1
    \<and> k_free_pending_count ost' = k_free_pending_count ost"
proof -
  obtain slot where sl: "ostk_find_free_slot ost = Some (Some slot)" "slot < k_depth ost"
    "\<not> ke_vld (k_entries ost ! slot)" using ostk_free_slot_exists [OF inv room] by blast
  let ?e = "\<lparr>ke_vld = True, ke_free_pending = False, ke_key = key, ke_issue_seq = k_next_issue_seq ost, ke_ctx = Some ctx\<rparr>"
  let ?ost1 = "ost\<lparr>k_entries := (k_entries ost)[slot := ?e], k_next_issue_seq := k_next_issue_seq ost + 1,
    k_count := k_count ost + 1, k_wptr := (slot + 1) mod k_depth ost\<rparr>"
  define ost' where "ost' = ostk_update_rptr ?ost1"
  have new: "k_entries ost' = (k_entries ost)[slot := ?e]" "k_depth ost' = k_depth ost"
    "k_count ost' = k_count ost + 1" "k_next_issue_seq ost' = k_next_issue_seq ost + 1"
    "k_free_pending_count ost' = k_free_pending_count ost"
    by (simp_all add: ost'_def)
  have len: "length (k_entries ost) = k_depth ost" and d: "0 < k_depth ost" using inv by (simp_all add: ostk_inv_def)
  have mem: "k_entries ost ! i \<in> set (k_entries ost)" if "i < k_depth ost" for i using that len by simp
  have old: "ke_issue_seq e < k_next_issue_seq ost" if "e \<in> set (k_entries ost)" "ke_vld e" for e
    using inv that by (simp add: ostk_inv_def)
  have inv': "ostk_inv ost'"
    by (rule ostk_fill_inv [OF inv sl(2,3) seq, of ?e]) (simp_all add: new)
  have seqs: "seq_of ost' i = (if i = slot then k_next_issue_seq ost else seq_of ost i)" if "i < k_depth ost" for i
    using sl(2) len that by (simp add: new seq_of_def nth_list_update)
  have ctxs: "ke_ctx (k_entries ost' ! i) = (if i = slot then Some ctx else ke_ctx (k_entries ost ! i))" if "i < k_depth ost" for i
    using sl(2) len that by (simp add: new nth_list_update)
  have notin: "slot \<notin> live_slots ost k" for k using sl(3) by (simp add: live_slots_def ke_live_def)
  have live: "live_slots ost' k = (if k = key then insert slot (live_slots ost k) else live_slots ost k)" for k
    using sl(2,3) len by (auto simp: new live_slots_def ke_live_def nth_list_update)
  have below: "i < k_depth ost" "seq_of ost i < k_next_issue_seq ost" if "i \<in> live_slots ost k" for i k
    using that old [OF mem] by (auto simp: live_slots_def ke_live_def seq_of_def)
  have same: "map (seq_of ost') (ostk_slots ost k) = map (seq_of ost) (ostk_slots ost k)" for k
    using notin [of k] below seqs by (auto simp: map_eq_conv)
  have slots: "ostk_slots ost' k = (if k = key then ostk_slots ost k @ [slot] else ostk_slots ost k)" for k
  proof (rule ostk_slots_eqI [OF inv'])
    show "sorted (map (seq_of ost') (if k = key then ostk_slots ost k @ [slot] else ostk_slots ost k))"
    proof (cases "k = key")
      case True
      have "map (seq_of ost') (ostk_slots ost k @ [slot]) = map (seq_of ost) (ostk_slots ost k) @ [k_next_issue_seq ost]"
        unfolding map_append same by (simp add: seqs [OF sl(2)])
      moreover have "sorted (map (seq_of ost) (ostk_slots ost k) @ [k_next_issue_seq ost])"
        using ostk_slots_sorted [of ost k] below(2) [of _ k] by (auto simp: sorted_append intro: less_imp_le)
      ultimately show ?thesis using True by (simp only: if_True simp_thms)
    next
      case False
      then show ?thesis using ostk_slots_sorted [of ost k] by (simp only: same if_False)
    qed
    show "distinct (if k = key then ostk_slots ost k @ [slot] else ostk_slots ost k)"
      using ostk_slots_distinct notin by auto
  qed (use live in auto)
  have "ostk_queue ost' k = ((ostk_queue ost)(key := ostk_queue ost key @ [ctx])) k" for k
    unfolding ostk_queue_def slots using notin ctxs below sl(2)
    by (auto simp: map_eq_conv fun_upd_def)
  then have "ostk_queue ost' = (ostk_queue ost)(key := ostk_queue ost key @ [ctx])" by blast
  moreover have "unat (k_next_issue_seq ost + 1) = unat (k_next_issue_seq ost) + 1"
    using seq by (simp add: unat_word_ariths)
  moreover have "ostk_alloc ost key ctx = Some (Some (slot, ost'))"
    using sl(1,2) len by (simp add: ostk_alloc_def ost'_def)
  ultimately show ?thesis using inv' new by (intro exI [of _ slot] exI [of _ ost']) simp
qed

lemma ostk_free_ok:
  assumes inv: "ostk_inv ost" and i: "i \<in> live_slots ost key"
  shows "\<exists>ost'. ostk_free_slot ost i = Some ost' \<and> ostk_inv ost' \<and> k_depth ost' = k_depth ost
    \<and> k_count ost' = k_count ost \<and> k_next_issue_seq ost' = k_next_issue_seq ost
    \<and> k_free_pending_count ost' = k_free_pending_count ost + 1
    \<and> (\<forall>k. ostk_slots ost' k = filter (\<lambda>j. j \<noteq> i) (ostk_slots ost k))
    \<and> (\<forall>j. ke_ctx (k_entries ost' ! j) = ke_ctx (k_entries ost ! j))"
proof -
  let ?es = "k_entries ost"
  let ?e = "(?es ! i)\<lparr>ke_free_pending := True\<rparr>"
  define ost' where "ost' = ost\<lparr>k_entries := ?es[i := ?e], k_free_pending_count := k_free_pending_count ost + 1\<rparr>"
  have new: "k_entries ost' = ?es[i := ?e]" "k_depth ost' = k_depth ost" "k_count ost' = k_count ost"
    "k_next_issue_seq ost' = k_next_issue_seq ost" "k_free_pending_count ost' = k_free_pending_count ost + 1"
    by (simp_all add: ost'_def)
  have len: "length ?es = k_depth ost" and d: "0 < k_depth ost" using inv by (simp_all add: ostk_inv_def)
  have live: "i < k_depth ost" "ke_vld (?es ! i)" "\<not> ke_free_pending (?es ! i)"
    using i by (simp_all add: live_slots_def ke_live_def)
  have ents: "\<forall>e\<in>set ?es. (ke_free_pending e \<longrightarrow> ke_vld e)
      \<and> (ke_vld e \<longrightarrow> ke_ctx e \<noteq> None \<and> ke_issue_seq e < k_next_issue_seq ost)"
    using inv by (simp add: ostk_inv_def)
  have fields: "ke_vld (?es[i := ?e] ! j) = ke_vld (?es ! j)" "ke_issue_seq (?es[i := ?e] ! j) = ke_issue_seq (?es ! j)"
    "ke_key (?es[i := ?e] ! j) = ke_key (?es ! j)" "ke_ctx (?es[i := ?e] ! j) = ke_ctx (?es ! j)" for j
    using live(1) len by (cases "i = j"; simp)+
  have "k_count ost = length (filter ke_vld (?es[i := ?e]))"
    using filter_len_update [of i ?es ke_vld ?e] live len inv by (simp add: ostk_inv_def)
  moreover have "k_free_pending_count ost + 1 = length (filter ke_free_pending (?es[i := ?e]))"
    using filter_len_update [of i ?es ke_free_pending ?e] live len inv by (simp add: ostk_inv_def)
  moreover have "(ke_free_pending x \<longrightarrow> ke_vld x)
      \<and> (ke_vld x \<longrightarrow> ke_ctx x \<noteq> None \<and> ke_issue_seq x < k_next_issue_seq ost)" if "x \<in> set (?es[i := ?e])" for x
  proof -
    from that have "x = ?e \<or> x \<in> set ?es" using set_update_subset_insert by fast
    moreover have "?es ! i \<in> set ?es" using live len by simp
    ultimately show ?thesis using ents live by (elim disjE) simp_all
  qed
  ultimately have inv': "ostk_inv ost'"
    using inv new len d fields unfolding ostk_inv_def by simp
  have lives: "live_slots ost' k = live_slots ost k - {i}" for k
    using live len by (auto simp: live_slots_def ke_live_def new nth_list_update)
  have "ostk_slots ost' k = filter (\<lambda>j. j \<noteq> i) (ostk_slots ost k)" for k
  proof -
    have "seq_of ost' = seq_of ost" by (simp add: fun_eq_iff seq_of_def new fields)
    with sorted_filter [OF ostk_slots_sorted [of ost k]] show ?thesis
      by (intro ostk_slots_eqI [OF inv']) (auto simp: lives ostk_slots_distinct)
  qed
  moreover have "ostk_free_slot ost i = Some ost'"
    using live len by (simp add: ostk_free_slot_def ostk_slot_valid_def ost'_def)
  ultimately show ?thesis using inv' new fields by auto
qed

lemma ostk_clear_inv:
  assumes inv: "ostk_inv ost" and i: "i < k_depth ost" "ke_vld (k_entries ost ! i)" "ke_free_pending (k_entries ost ! i)"
    and ost': "k_entries ost' = (k_entries ost)[i := ke_clear]" "k_depth ost' = k_depth ost"
      "k_count ost' = k_count ost - 1" "k_free_pending_count ost' = k_free_pending_count ost - 1"
      "k_next_issue_seq ost' = k_next_issue_seq ost"
  shows "ostk_inv ost' \<and> 0 < k_count ost \<and> 0 < k_free_pending_count ost"
proof -
  let ?es = "k_entries ost" and ?es' = "(k_entries ost)[i := ke_clear]"
  have len: "length ?es = k_depth ost" and d: "0 < k_depth ost" using inv by (simp_all add: ostk_inv_def)
  have ents: "\<forall>e\<in>set ?es. (ke_free_pending e \<longrightarrow> ke_vld e)
      \<and> (ke_vld e \<longrightarrow> ke_ctx e \<noteq> None \<and> ke_issue_seq e < k_next_issue_seq ost)"
    using inv by (simp add: ostk_inv_def)
  have c: "k_count ost = length (filter ke_vld ?es') + 1" "k_free_pending_count ost = length (filter ke_free_pending ?es') + 1"
    using filter_len_update [of i ?es ke_vld ke_clear] filter_len_update [of i ?es ke_free_pending ke_clear] i len inv
    by (simp_all add: ostk_inv_def ke_clear_def)
  have "(ke_free_pending x \<longrightarrow> ke_vld x)
      \<and> (ke_vld x \<longrightarrow> ke_ctx x \<noteq> None \<and> ke_issue_seq x < k_next_issue_seq ost)" if "x \<in> set ?es'" for x
  proof -
    from that have "x = ke_clear \<or> x \<in> set ?es" using set_update_subset_insert by fast
    with ents show ?thesis by (elim disjE) (simp_all add: ke_clear_def)
  qed
  moreover have "j = k" if jk: "j < k_depth ost" "k < k_depth ost" "ke_vld (?es' ! j)" "ke_vld (?es' ! k)"
    "ke_issue_seq (?es' ! j) = ke_issue_seq (?es' ! k)" for j k
  proof -
    have "j \<noteq> i" "k \<noteq> i" using jk len i(1) by (auto simp: ke_clear_def)
    with jk inv show ?thesis by (simp add: ostk_inv_def)
  qed
  ultimately show ?thesis using c ost' d len unfolding ostk_inv_def by simp
qed

lemma ostk_clock_loop_ok:
  "ostk_inv ost \<Longrightarrow> \<forall>i\<in>set is. i < k_depth ost \<Longrightarrow> distinct is \<Longrightarrow>
    \<exists>ost' f. ostk_clock_loop is ost freed = Some (ost', f) \<and> ostk_inv ost' \<and> k_depth ost' = k_depth ost
      \<and> k_next_issue_seq ost' = k_next_issue_seq ost
      \<and> k_count ost' + k_free_pending_count ost = k_count ost + k_free_pending_count ost'
      \<and> (\<forall>j<k_depth ost. k_entries ost' ! j =
           (if j \<in> set is \<and> ke_vld (k_entries ost ! j) \<and> ke_free_pending (k_entries ost ! j) then ke_clear
            else k_entries ost ! j))"
proof (induction "is" arbitrary: ost freed)
  case (Cons i "is")
  have i: "i < k_depth ost" "length (k_entries ost) = k_depth ost" using Cons.prems by (auto simp: ostk_inv_def)
  show ?case
  proof (cases "ke_vld (k_entries ost ! i) \<and> ke_free_pending (k_entries ost ! i)")
    case False
    with Cons.IH [of ost freed] Cons.prems i show ?thesis by auto
  next
    case True
    define ost1 where "ost1 = ost\<lparr>k_entries := (k_entries ost)[i := ke_clear], k_count := k_count ost - 1,
      k_free_pending_count := k_free_pending_count ost - 1\<rparr>"
    have new: "k_entries ost1 = (k_entries ost)[i := ke_clear]" "k_depth ost1 = k_depth ost"
      "k_count ost1 = k_count ost - 1" "k_free_pending_count ost1 = k_free_pending_count ost - 1"
      "k_next_issue_seq ost1 = k_next_issue_seq ost" by (simp_all add: ost1_def)
    have inv1: "ostk_inv ost1 \<and> 0 < k_count ost \<and> 0 < k_free_pending_count ost"
      using ostk_clear_inv [OF Cons.prems(1) i(1) _ _ new] True by blast
    have step: "ostk_clock_loop (i # is) ost freed = ostk_clock_loop is ost1 True"
      using True inv1 i by (simp add: ost1_def)
    obtain ost' f where ih: "ostk_clock_loop is ost1 True = Some (ost', f)" "ostk_inv ost'" "k_depth ost' = k_depth ost1"
      "k_next_issue_seq ost' = k_next_issue_seq ost1"
      "k_count ost' + k_free_pending_count ost1 = k_count ost1 + k_free_pending_count ost'"
      "\<forall>j<k_depth ost1. k_entries ost' ! j =
         (if j \<in> set is \<and> ke_vld (k_entries ost1 ! j) \<and> ke_free_pending (k_entries ost1 ! j) then ke_clear
          else k_entries ost1 ! j)"
      using Cons.IH [of ost1 True] inv1 new(2) Cons.prems(2,3) by auto
    have "k_entries ost' ! j = (if j \<in> set (i # is) \<and> ke_vld (k_entries ost ! j) \<and> ke_free_pending (k_entries ost ! j)
        then ke_clear else k_entries ost ! j)" if "j < k_depth ost" for j
      using ih(6) that True i new Cons.prems(3) by (cases "j = i") (auto simp: nth_list_update)
    with ih step inv1 new show ?thesis by (intro exI [of _ ost'] exI [of _ f]) auto
  qed
qed simp

lemma ostk_clock_ok:
  assumes inv: "ostk_inv ost"
  shows "\<exists>ost'. ostk_clock ost = Some ost' \<and> ostk_inv ost' \<and> k_free_pending_count ost' = 0
    \<and> k_count ost' = k_count ost - k_free_pending_count ost \<and> k_depth ost' = k_depth ost
    \<and> k_next_issue_seq ost' = k_next_issue_seq ost
    \<and> ostk_slots ost' = ostk_slots ost \<and> ostk_queue ost' = ostk_queue ost"
proof (cases "k_free_pending_count ost = 0")
  case True
  with inv show ?thesis by (intro exI [of _ ost]) (simp add: ostk_clock_def)
next
  case False
  have "\<forall>i\<in>set [0..<k_depth ost]. i < k_depth ost" "distinct [0..<k_depth ost]" by simp_all
  from ostk_clock_loop_ok [OF inv this, of False] obtain ost1 f where
    l: "ostk_clock_loop [0..<k_depth ost] ost False = Some (ost1, f)" "ostk_inv ost1"
    "k_depth ost1 = k_depth ost" "k_next_issue_seq ost1 = k_next_issue_seq ost"
    "k_count ost1 + k_free_pending_count ost = k_count ost + k_free_pending_count ost1"
    and "\<forall>j<k_depth ost. k_entries ost1 ! j = (if j \<in> set [0..<k_depth ost] \<and> ke_vld (k_entries ost ! j)
       \<and> ke_free_pending (k_entries ost ! j) then ke_clear else k_entries ost ! j)" by blast
  then have l6: "k_entries ost1 ! j = (if ke_vld (k_entries ost ! j) \<and> ke_free_pending (k_entries ost ! j)
       then ke_clear else k_entries ost ! j)" if "j < k_depth ost" for j using that by simp
  define ost' where "ost' = (if f then ostk_update_rptr ost1 else ost1)"
  have new: "k_entries ost' = k_entries ost1" "k_depth ost' = k_depth ost1" "k_count ost' = k_count ost1"
    "k_free_pending_count ost' = k_free_pending_count ost1" "k_next_issue_seq ost' = k_next_issue_seq ost1"
    by (simp_all add: ost'_def)
  have inv': "ostk_inv ost'" using l(2) unfolding ostk_inv_def new .
  have pend: "ke_free_pending (k_entries ost ! j) \<longrightarrow> ke_vld (k_entries ost ! j)" if "j < k_depth ost" for j
  proof -
    have "k_entries ost ! j \<in> set (k_entries ost)" using that inv by (simp add: ostk_inv_def)
    with inv show ?thesis unfolding ostk_inv_def by blast
  qed
  have len1: "length (k_entries ost1) = k_depth ost" using l(2,3) by (simp add: ostk_inv_def)
  have "\<not> ke_free_pending e" if "e \<in> set (k_entries ost1)" for e
  proof -
    from that len1 obtain j where j: "j < k_depth ost" "e = k_entries ost1 ! j" by (metis in_set_conv_nth)
    from pend [OF j(1)] show ?thesis unfolding j(2) l6 [OF j(1)] by (auto simp: ke_clear_def)
  qed
  then have "filter ke_free_pending (k_entries ost1) = []" by (simp add: filter_empty_conv)
  then have zero: "k_free_pending_count ost1 = 0" using l(2) by (simp add: ostk_inv_def)
  have lv: "ke_live (k_entries ost1 ! j) = ke_live (k_entries ost ! j)" if "j < k_depth ost" for j
    unfolding l6 [OF that] by (simp add: ke_live_def ke_clear_def)
  have same1: "k_entries ost1 ! j = k_entries ost ! j" if "j < k_depth ost" "ke_live (k_entries ost ! j)" for j
    using that(2) unfolding l6 [OF that(1)] by (simp add: ke_live_def)
  have live: "live_slots ost' k = live_slots ost k" for k
    unfolding live_slots_def new l(3) using lv same1 by metis
  have same: "k_entries ost' ! j = k_entries ost ! j" if "j \<in> live_slots ost k" for j k
    using that same1 unfolding new live_slots_def by blast
  have slots: "ostk_slots ost' k = ostk_slots ost k" for k
  proof (rule ostk_slots_eqI [OF inv'])
    have "map (seq_of ost') (ostk_slots ost k) = map (seq_of ost) (ostk_slots ost k)"
      using same by (auto simp: seq_of_def)
    then show "sorted (map (seq_of ost') (ostk_slots ost k))" by (simp only: ostk_slots_sorted)
  qed (simp_all add: live ostk_slots_distinct)
  have "ostk_queue ost' k = ostk_queue ost k" for k
    unfolding ostk_queue_def slots using same [of _ k] by auto
  moreover have "ostk_clock ost = Some ost'"
    using False l(1) zero by (simp add: ostk_clock_def ostk_clock_slow_def ost'_def)
  ultimately show ?thesis
    using inv' new l(3-5) slots zero by (intro exI [of _ ost']) (simp add: fun_eq_iff)
qed

section \<open>The contract of a keyed table\<close>

datatype 'c kop = Alloc u32 'c | Take u32

text \<open>
  A run of table operations with their results: an allocation answers its context, or nothing
  when the table is full; a take answers the context it removes, or nothing.
\<close>

fun run_table :: "('t \<Rightarrow> u32 \<Rightarrow> 'c \<Rightarrow> (nat \<times> 't) option option) \<Rightarrow> ('t \<Rightarrow> u32 \<Rightarrow> ('c \<times> 't) option option)
    \<Rightarrow> 'c kop list \<Rightarrow> 't \<Rightarrow> 'c option list option" where
  "run_table alloc tak [] t = Some []"
| "run_table alloc tak (Alloc k c # ops) t = do {
     r \<leftarrow> alloc t k c;
     case r of
       None \<Rightarrow> map_option (Cons None) (run_table alloc tak ops t)
     | Some (slot, t') \<Rightarrow> map_option (Cons (Some c)) (run_table alloc tak ops t')
   }"
| "run_table alloc tak (Take k # ops) t = do {
     r \<leftarrow> tak t k;
     case r of
       None \<Rightarrow> map_option (Cons None) (run_table alloc tak ops t)
     | Some (c, t') \<Rightarrow> map_option (Cons (Some c)) (run_table alloc tak ops t')
   }"

text \<open>The reference: one list per key and the number of occupied slots.\<close>

fun run_keyed :: "nat \<Rightarrow> 'c kop list \<Rightarrow> (u32 \<Rightarrow> 'c list) \<Rightarrow> nat \<Rightarrow> 'c option list" where
  "run_keyed cap [] q n = []"
| "run_keyed cap (Alloc k c # ops) q n =
     (if n = cap then None # run_keyed cap ops q n
      else Some c # run_keyed cap ops (q(k := q k @ [c])) (n + 1))"
| "run_keyed cap (Take k # ops) q n =
     (case q k of [] \<Rightarrow> None # run_keyed cap ops q n
      | c # cs \<Rightarrow> Some c # run_keyed cap ops (q(k := cs)) (n - 1))"

locale keyed_table =
  fixes invar :: "'t \<Rightarrow> bool"
    and queue :: "'t \<Rightarrow> u32 \<Rightarrow> 'c list"
    and occupied :: "'t \<Rightarrow> nat"
    and budget :: "'t \<Rightarrow> nat"
    and capacity :: "'t \<Rightarrow> nat"
    and alloc :: "'t \<Rightarrow> u32 \<Rightarrow> 'c \<Rightarrow> (nat \<times> 't) option option"
    and tak :: "'t \<Rightarrow> u32 \<Rightarrow> ('c \<times> 't) option option"
  assumes alloc_room: "invar t \<Longrightarrow> occupied t \<noteq> capacity t \<Longrightarrow> 0 < budget t \<Longrightarrow>
      \<exists>slot t'. alloc t k c = Some (Some (slot, t')) \<and> invar t' \<and> queue t' = (queue t)(k := queue t k @ [c])
        \<and> occupied t' = occupied t + 1 \<and> budget t' + 1 = budget t \<and> capacity t' = capacity t"
    and alloc_full: "invar t \<Longrightarrow> occupied t = capacity t \<Longrightarrow> alloc t k c = Some None"
    and take_Nil: "invar t \<Longrightarrow> queue t k = [] \<Longrightarrow> tak t k = Some None"
    and take_Cons: "invar t \<Longrightarrow> queue t k = c # cs \<Longrightarrow>
      \<exists>t'. tak t k = Some (Some (c, t')) \<and> invar t' \<and> queue t' = (queue t)(k := cs)
        \<and> occupied t' = occupied t - 1 \<and> budget t' = budget t \<and> capacity t' = capacity t"
begin

lemma run_refines:
  "invar t \<Longrightarrow> length ops \<le> budget t \<Longrightarrow>
    run_table alloc tak ops t = Some (run_keyed (capacity t) ops (queue t) (occupied t))"
proof (induction ops arbitrary: t)
  case (Cons op ops)
  show ?case
  proof (cases op)
    case (Alloc k c)
    show ?thesis
    proof (cases "occupied t = capacity t")
      case True
      with alloc_full [OF Cons.prems(1) True] Cons Alloc show ?thesis by simp
    next
      case False
      with alloc_room [OF Cons.prems(1) False, of k c] Cons.prems(2) obtain slot t' where
        t': "alloc t k c = Some (Some (slot, t'))" "invar t'" "queue t' = (queue t)(k := queue t k @ [c])"
        "occupied t' = occupied t + 1" "budget t' + 1 = budget t" "capacity t' = capacity t" by auto
      with Cons.IH [OF t'(2)] Cons.prems(2) False Alloc show ?thesis by (simp add: fun_upd_def)
    qed
  next
    case (Take k)
    show ?thesis
    proof (cases "queue t k")
      case Nil
      with take_Nil [OF Cons.prems(1) Nil] Cons Take show ?thesis by simp
    next
      case q: (Cons c cs)
      from take_Cons [OF Cons.prems(1) q] obtain t' where
        t': "tak t k = Some (Some (c, t'))" "invar t'" "queue t' = (queue t)(k := cs)"
        "occupied t' = occupied t - 1" "budget t' = budget t" "capacity t' = capacity t" by auto
      with Cons.IH [OF t'(2)] Cons.prems(2) q Take show ?thesis by (simp add: fun_upd_def)
    qed
  qed
qed simp

end

text \<open>The table with the tick that completes a free, and the sequence numbers it has left.\<close>

definition ostk_take :: "'c ostk \<Rightarrow> u32 \<Rightarrow> ('c \<times> 'c ostk) option option" where
  "ostk_take ost key = do {
     r \<leftarrow> ostk_peek_key ost key;
     case r of
       None \<Rightarrow> Some None
     | Some (slot, c) \<Rightarrow> do {
         ost \<leftarrow> ostk_free_slot ost slot;
         ost \<leftarrow> ostk_clock ost;
         Some (Some (c, ost))
       }
   }"

definition ostk_settled :: "'c ostk \<Rightarrow> bool" where
  "ostk_settled ost \<longleftrightarrow> ostk_inv ost \<and> k_free_pending_count ost = 0"

definition ostk_budget :: "'c ostk \<Rightarrow> nat" where
  "ostk_budget ost = 2 ^ 64 - 1 - unat (k_next_issue_seq ost)"

lemma ostk_take_head:
  assumes inv: "ostk_inv ost" and q: "ostk_queue ost key = c # cs"
  shows "\<exists>slot ost'. ostk_peek_key ost key = Some (Some (slot, c)) \<and> ostk_free_slot ost slot = Some ost'
    \<and> ostk_inv ost' \<and> ostk_queue ost' = (ostk_queue ost)(key := cs) \<and> k_depth ost' = k_depth ost
    \<and> k_count ost' = k_count ost \<and> k_next_issue_seq ost' = k_next_issue_seq ost
    \<and> k_free_pending_count ost' = k_free_pending_count ost + 1"
proof -
  from q obtain i js where s: "ostk_slots ost key = i # js" "cs = map (\<lambda>i. the (ke_ctx (k_entries ost ! i))) js"
    by (cases "ostk_slots ost key") (auto simp: ostk_queue_def)
  have peek: "ostk_peek_key ost key = Some (Some (i, c))" using ostk_peek_slots [OF inv, of key] s q by simp
  have live: "i \<in> live_slots ost key" by (rule ostk_slots_head(1) [OF inv s(1)])
  from ostk_free_ok [OF inv live] obtain ost' where
    f: "ostk_free_slot ost i = Some ost'" "ostk_inv ost'" "k_depth ost' = k_depth ost" "k_count ost' = k_count ost"
    "k_next_issue_seq ost' = k_next_issue_seq ost" "k_free_pending_count ost' = k_free_pending_count ost + 1"
    "\<forall>k. ostk_slots ost' k = filter (\<lambda>j. j \<noteq> i) (ostk_slots ost k)"
    "\<forall>j. ke_ctx (k_entries ost' ! j) = ke_ctx (k_entries ost ! j)" by blast
  have "i \<notin> set js" using ostk_slots_distinct [of ost key] s by simp
  then have "filter (\<lambda>j. j \<noteq> i) js = js" by (auto simp: filter_id_conv)
  moreover have "filter (\<lambda>j. j \<noteq> i) (ostk_slots ost k) = ostk_slots ost k" if "k \<noteq> key" for k
    using live that by (auto simp: filter_id_conv live_slots_def)
  ultimately have "ostk_queue ost' k = ((ostk_queue ost)(key := cs)) k" for k
    using f(7,8) s by (auto simp: ostk_queue_def)
  then have "ostk_queue ost' = (ostk_queue ost)(key := cs)" by blast
  with f peek show ?thesis by blast
qed

interpretation ostk: keyed_table ostk_settled ostk_queue k_count ostk_budget k_depth ostk_alloc ostk_take
proof (unfold_locales, goal_cases)
  case (1 t k c)
  then have seq: "unat (k_next_issue_seq t) < 2 ^ 64 - 1" by (simp add: ostk_budget_def)
  from 1 ostk_alloc_ok [of t k c, OF _ _ seq] seq show ?case
    by (auto simp: ostk_settled_def ostk_full_def ostk_budget_def)
next
  case (2 t k c)
  then show ?case by (simp add: ostk_alloc_def ostk_find_free_slot_def ostk_full_def)
next
  case (3 t k)
  then have "ostk_slots t k = []" by (simp add: ostk_queue_def)
  with 3 show ?case by (simp add: ostk_take_def ostk_peek_slots ostk_settled_def)
next
  case (4 t k c cs)
  then have inv: "ostk_inv t" "k_free_pending_count t = 0" by (simp_all add: ostk_settled_def)
  from ostk_take_head [OF inv(1) 4(2)] obtain slot t1 where
    t1: "ostk_peek_key t k = Some (Some (slot, c))" "ostk_free_slot t slot = Some t1" "ostk_inv t1"
    "ostk_queue t1 = (ostk_queue t)(k := cs)" "k_depth t1 = k_depth t" "k_count t1 = k_count t"
    "k_next_issue_seq t1 = k_next_issue_seq t" "k_free_pending_count t1 = 1" using inv(2) by auto
  with ostk_clock_ok [OF t1(3)] show ?case
    by (auto simp: ostk_take_def ostk_settled_def ostk_budget_def)
qed

lemma ostk_construct_ok:
  fixes ost :: "'c ostk"
  assumes "ostk_construct depth = Some ost"
  shows "ostk_settled ost \<and> ostk_queue ost = (\<lambda>_. []) \<and> k_count ost = 0 \<and> k_depth ost = depth
    \<and> ostk_budget ost = 2 ^ 64 - 1 \<and> k_next_issue_seq ost = 0"
proof -
  have "0 < depth" using assms by (auto simp: ostk_construct_def split: if_splits)
  moreover have "\<not> ke_live (ke_clear :: 'c ostk_entry)" by (simp add: ke_live_def ke_clear_def)
  then have "filter (\<lambda>i. ke_live (replicate depth (ke_clear :: 'c ostk_entry) ! i) \<and> P i) [0..<depth] = []" for P
    by (simp add: filter_empty_conv)
  ultimately show ?thesis
    using assms by (auto simp: ostk_construct_def ostk_reset_def ostk_settled_def ostk_inv_def ostk_queue_def
        ostk_slots_def ostk_budget_def ke_clear_def fun_eq_iff)
qed

lemma ostk_reset_fresh:
  assumes "0 < k_depth ost"
  shows "ostk_inv (ostk_reset ost)" "ostk_queue (ostk_reset ost) = (\<lambda>_. [])" "k_next_issue_seq (ostk_reset ost) = 0"
proof -
  have "ostk_construct (k_depth ost) = Some (ostk_reset ost)" using assms by (cases ost) (simp add: ostk_construct_def ostk_reset_def)
  from ostk_construct_ok [OF this] show "ostk_inv (ostk_reset ost)" "ostk_queue (ostk_reset ost) = (\<lambda>_. [])" "k_next_issue_seq (ostk_reset ost) = 0"
    by (simp_all add: ostk_settled_def)
qed

section \<open>Properties\<close>



end
