(* ===== verification/BtiPackets.thy ===== *)
theory BtiPackets
  imports Prelude
begin

text \<open>
  The packets of the bus transaction interface (\<^verbatim>\<open>itf/bti_req_if.h\<close>, \<^verbatim>\<open>itf/bti_rsp_if.h\<close>), over
  which the hart's bus interface, the address translation unit, the caches, the interconnect
  and the peripherals exchange reads, writes and cache-block operations.
\<close>

datatype bti_req_cmd = BTI_REQ_CMD_READ | BTI_REQ_CMD_WRITE | BTI_REQ_CMD_CBO_INVAL
  | BTI_REQ_CMD_CBO_CLEAN | BTI_REQ_CMD_CBO_FLUSH

datatype bti_req_size = BTI_REQ_SIZE_B1 | BTI_REQ_SIZE_B2 | BTI_REQ_SIZE_B4

record bti_req =
  bq_trans_id :: u16
  bq_cmd :: bti_req_cmd
  bq_addr :: u32
  bq_size :: bti_req_size
  bq_data :: u32
  bq_strobe :: u8

record bti_rsp =
  bp_trans_id :: u16
  bp_data :: u32
  bp_ok :: bool

end
