(* ===== verification/Bursts.thy ===== *)
theory Bursts
  imports Main
begin

text \<open>
  How bursts of several partners share one channel. \<open>weaves\<close>: the beats on the channel are taken, one
  after the other, from the partner of the oldest unfinished transaction; \<open>deals\<close>: the beats on the channel go,
  one after the other, to the partner of the oldest unfinished transaction. In both, the transaction ends with the beat that
  is marked as the last one.
\<close>

text \<open>A host's part of a merged order, in which every item is tagged with its host.\<close>

definition of_host :: "nat \<Rightarrow> (nat \<times> 'a) list \<Rightarrow> 'a list" where
  "of_host h acc = map snd (filter (\<lambda>x. fst x = h) acc)"

lemma of_host_snoc [simp]: "of_host h (acc @ [(i, a)]) = of_host h acc @ (if i = h then [a] else [])"
  by (simp add: of_host_def)

inductive weaves :: "('r \<Rightarrow> bool) \<Rightarrow> nat list \<Rightarrow> (nat \<Rightarrow> 'r list) \<Rightarrow> 'r list \<Rightarrow> nat list \<Rightarrow> (nat \<Rightarrow> 'r list) \<Rightarrow> bool"
  for fin :: "'r \<Rightarrow> bool" and ts :: "nat list" and q :: "nat \<Rightarrow> 'r list" where
  weaves_start: "weaves fin ts q [] ts q"
| weaves_beat: "weaves fin ts q out (g # ts') q' \<Longrightarrow> q' g = r # rs
    \<Longrightarrow> weaves fin ts q (out @ [r]) (if fin r then ts' else g # ts') (q'(g := rs))"

inductive deals :: "('r \<Rightarrow> bool) \<Rightarrow> nat list \<Rightarrow> 'r list \<Rightarrow> (nat \<Rightarrow> 'r list) \<Rightarrow> nat list \<Rightarrow> bool"
  for fin :: "'r \<Rightarrow> bool" and ts :: "nat list" where
  deals_start: "deals fin ts [] (\<lambda>_. []) ts"
| deals_beat: "deals fin ts rs outs (g # ts')
    \<Longrightarrow> deals fin ts (rs @ [r]) (outs(g := outs g @ [r])) (if fin r then ts' else g # ts')"

lemma weaves_more_targets: "weaves fin ts q out ts' q' \<Longrightarrow> weaves fin (ts @ us) q out (ts' @ us) q'"
proof (induction rule: weaves.induct)
  case (weaves_beat out g ts' q' r rs)
  from weaves.weaves_beat [of fin "ts @ us" q out g "ts' @ us" q' r rs] weaves_beat show ?case by (cases "fin r") (simp_all add: fun_upd_def)
qed (rule weaves.weaves_start)

lemma weaves_more_beats: "weaves fin ts q out ts' q' \<Longrightarrow> weaves fin ts (q(h := q h @ [x])) out ts' (q'(h := q' h @ [x]))"
proof (induction rule: weaves.induct)
  case (weaves_beat out g ts' q' r rs)
  let ?q = "q'(h := q' h @ [x])"
  have "?q g = r # (if g = h then rs @ [x] else rs)" using weaves_beat.hyps(2) by auto
  from weaves.weaves_beat [OF weaves_beat.IH this]
  have "weaves fin ts (q(h := q h @ [x])) (out @ [r]) (if fin r then ts' else g # ts') (?q(g := if g = h then rs @ [x] else rs))" .
  moreover have "?q(g := if g = h then rs @ [x] else rs) = (q'(g := rs))(h := (q'(g := rs)) h @ [x])" by auto
  ultimately show ?case by (simp only: fun_upd_def)
qed (rule weaves.weaves_start)

lemma weaves_prefix: "weaves fin ts q out ts' q' \<Longrightarrow> out = a @ b \<Longrightarrow> \<exists>ts' q'. weaves fin ts q a ts' q'"
proof (induction arbitrary: b rule: weaves.induct)
  case weaves_start
  then show ?case using weaves.weaves_start [of fin ts q] by blast
next
  case (weaves_beat out g ts' q' r rs)
  show ?case
  proof (cases b rule: rev_cases)
    case Nil
    with weaves_beat weaves.weaves_beat [OF weaves_beat.hyps(1,2)] show ?thesis by auto
  next
    case (snoc b' x)
    with weaves_beat show ?thesis by auto
  qed
qed

lemma deals_more_targets: "deals fin ts rs outs ts' \<Longrightarrow> deals fin (ts @ us) rs outs (ts' @ us)"
proof (induction rule: deals.induct)
  case (deals_beat rs outs g ts' r)
  from deals.deals_beat [of fin "ts @ us" rs outs g "ts' @ us" r] deals_beat show ?case by (cases "fin r") (simp_all add: fun_upd_def)
qed (rule deals.deals_start)

end
