(* ===== verification/BtiMux.thy ===== *)
theory BtiMux
  imports BtiPackets Fifo Ostk Bursts
begin

text \<open>
  The multiplexer of the bus transaction interface (\<^verbatim>\<open>bus/mux/bti_mux.c\<close>): several
  hosts share one guest, requests are forwarded round-robin and the host of each is remembered in a keyed table under the transaction identifier, so
  that the response finds its way back.
\<close>

section \<open>bti_mux.c\<close>

record bti_mux_ost_ctx =
  mc_host_idx :: nat

record bti_mux =
  host_bti_req_slvs :: "bti_req itf list"
  host_bti_rsp_msts :: "bti_rsp itf list"
  gst_bti_req_mst :: "bti_req itf"
  gst_bti_rsp_slv :: "bti_rsp itf"
  host_num :: nat
  req_rr_idx :: nat
  host_req_fifos :: "bti_req fifo list"
  mux_ost :: "bti_mux_ost_ctx ostk"
  mux_perf_stg_full :: u64

definition bti_mux_reset :: "bti_mux \<Rightarrow> bti_mux" where
  "bti_mux_reset m = m\<lparr>req_rr_idx := 0, host_req_fifos := map fifo_reset (host_req_fifos m),
     mux_ost := ostk_reset (mux_ost m), mux_perf_stg_full := 0\<rparr>"

text \<open>The body of the loop of \<^verbatim>\<open>bti_mux_capture_req\<close> and the loop.\<close>

definition bti_mux_capture_host :: "bti_mux \<Rightarrow> nat \<Rightarrow> bti_mux option" where
  "bti_mux_capture_host m i = do {
     host_req \<leftarrow> arr_get (host_bti_req_slvs m) i;
     req_fifo \<leftarrow> arr_get (host_req_fifos m) i;
     if fifo_full req_fifo then
       Some (if \<not> itf_fifo_empty host_req then m\<lparr>mux_perf_stg_full := mux_perf_stg_full m + 1\<rparr> else m)
     else if itf_fifo_empty host_req then Some m
     else do {
       (req, host_req) \<leftarrow> itf_read host_req;
       req_fifo \<leftarrow> fifo_push req_fifo req;
       Some (m\<lparr>host_bti_req_slvs := (host_bti_req_slvs m)[i := host_req],
         host_req_fifos := (host_req_fifos m)[i := req_fifo]\<rparr>)
     }
   }"

fun bti_mux_capture_loop :: "nat list \<Rightarrow> bti_mux \<Rightarrow> bti_mux option" where
  "bti_mux_capture_loop [] m = Some m"
| "bti_mux_capture_loop (i # is) m = do { m \<leftarrow> bti_mux_capture_host m i; bti_mux_capture_loop is m }"

definition bti_mux_capture_req :: "bti_mux \<Rightarrow> bti_mux option" where
  "bti_mux_capture_req m = bti_mux_capture_loop [0..<host_num m] m"

text \<open>The host whose turn it is: the first one with a staged request.\<close>

definition bti_mux_next_host :: "bti_mux \<Rightarrow> nat option" where
  "bti_mux_next_host m = map_option (\<lambda>i. (req_rr_idx m + i) mod host_num m)
     (List.find (\<lambda>i. \<not> fifo_empty (host_req_fifos m ! ((req_rr_idx m + i) mod host_num m))) [0..<host_num m])"

definition bti_mux_proc_req :: "bti_mux \<Rightarrow> bti_mux option" where
  "bti_mux_proc_req m =
     (if ostk_full (mux_ost m) then Some m
      else if itf_fifo_full (gst_bti_req_mst m) then Some m
      else case bti_mux_next_host m of
        None \<Rightarrow> Some m
      | Some host_idx \<Rightarrow> do {
          host_req_fifo \<leftarrow> arr_get (host_req_fifos m) host_idx;
          (req, host_req_fifo) \<leftarrow> fifo_pop host_req_fifo;
          r \<leftarrow> ostk_alloc (mux_ost m) (ucast (bq_trans_id req)) \<lparr>mc_host_idx = host_idx\<rparr>;
          (slot, ost) \<leftarrow> r;
          t \<leftarrow> itf_write (gst_bti_req_mst m) req;
          Some (m\<lparr>host_req_fifos := (host_req_fifos m)[host_idx := host_req_fifo], mux_ost := ost,
            gst_bti_req_mst := t, req_rr_idx := (host_idx + 1) mod host_num m\<rparr>)
        })"

definition bti_mux_proc_rsp :: "bti_mux \<Rightarrow> bti_mux option" where
  "bti_mux_proc_rsp m =
     (if itf_fifo_empty (gst_bti_rsp_slv m) then Some m
      else do {
        rsp \<leftarrow> itf_fifo_get_front (gst_bti_rsp_slv m);
        r \<leftarrow> ostk_peek_key (mux_ost m) (ucast (bp_trans_id rsp));
        (slot, ctx) \<leftarrow> r;
        DBG_CHECK (mc_host_idx ctx < host_num m);
        host_rsp \<leftarrow> arr_get (host_bti_rsp_msts m) (mc_host_idx ctx);
        if itf_fifo_full host_rsp then Some m
        else do {
          (rsp, t) \<leftarrow> itf_read (gst_bti_rsp_slv m);
          host_rsp \<leftarrow> itf_write host_rsp rsp;
          ost \<leftarrow> ostk_free_slot (mux_ost m) slot;
          Some (m\<lparr>gst_bti_rsp_slv := t, mux_ost := ost,
            host_bti_rsp_msts := (host_bti_rsp_msts m)[mc_host_idx ctx := host_rsp]\<rparr>)
        }
      })"

definition bti_mux_clock :: "bti_mux \<Rightarrow> bti_mux option" where
  "bti_mux_clock m = do {
     ost \<leftarrow> ostk_clock (mux_ost m);
     m \<leftarrow> bti_mux_capture_req (m\<lparr>mux_ost := ost\<rparr>);
     m \<leftarrow> bti_mux_proc_rsp m;
     bti_mux_proc_req m
   }"

section \<open>Invariant\<close>

definition mux_hosts :: "bti_mux \<Rightarrow> u16 \<Rightarrow> nat list" where
  "mux_hosts m tid = map mc_host_idx (ostk_queue (mux_ost m) (ucast tid))"

definition mux_ports :: "bti_mux \<Rightarrow> bool" where
  "mux_ports m \<longleftrightarrow> 0 < host_num m \<and> length (host_bti_req_slvs m) = host_num m
     \<and> length (host_bti_rsp_msts m) = host_num m \<and> length (host_req_fifos m) = host_num m
     \<and> (\<forall>t\<in>set (host_bti_req_slvs m). itf_inv t) \<and> (\<forall>t\<in>set (host_bti_rsp_msts m). itf_inv t)
     \<and> (\<forall>f\<in>set (host_req_fifos m). fifo_inv f) \<and> itf_inv (gst_bti_req_mst m) \<and> itf_inv (gst_bti_rsp_slv m)"

definition mux_inv :: "bti_mux \<Rightarrow> bool" where
  "mux_inv m \<longleftrightarrow> mux_ports m \<and> ostk_inv (mux_ost m) \<and> (\<forall>tid. \<forall>h\<in>set (mux_hosts m tid). h < host_num m)"

text \<open>The requests of a host that were not forwarded yet.\<close>

definition mux_staged :: "bti_mux \<Rightarrow> nat \<Rightarrow> bti_req list" where
  "mux_staged m h = (if h < host_num m then fifo_list (host_req_fifos m ! h) @ itf_list (host_bti_req_slvs m ! h) else [])"

text \<open>How many packets of an interface carry an identifier.\<close>

definition num_req :: "u16 \<Rightarrow> bti_req list \<Rightarrow> nat" where
  "num_req tid qs = length (filter (\<lambda>q. bq_trans_id q = tid) qs)"

definition num_rsp :: "u16 \<Rightarrow> bti_rsp list \<Rightarrow> nat" where
  "num_rsp tid ps = length (filter (\<lambda>p. bp_trans_id p = tid) ps)"

text \<open>
  With \<open>g tid\<close> requests held by the guest, the table has an entry for every request that was
  forwarded and not yet answered to its host.
\<close>

definition mux_balance :: "bti_mux \<Rightarrow> (u16 \<Rightarrow> nat) \<Rightarrow> bool" where
  "mux_balance m g \<longleftrightarrow> (\<forall>tid. length (mux_hosts m tid)
     = num_req tid (itf_list (gst_bti_req_mst m)) + g tid + num_rsp tid (itf_list (gst_bti_rsp_slv m)))"

lemma num_append [simp]: "num_req tid (xs @ ys) = num_req tid xs + num_req tid ys"
  "num_rsp tid (us @ vs) = num_rsp tid us + num_rsp tid vs"
  "num_req tid [q] = of_bool (bq_trans_id q = tid)" "num_rsp tid (p # ps) = of_bool (bp_trans_id p = tid) + num_rsp tid ps"
  "num_req tid (q # qs) = of_bool (bq_trans_id q = tid) + num_req tid qs" "num_req tid [] = 0" "num_rsp tid [] = 0"
  by (simp_all add: num_req_def num_rsp_def)

lemma ucast_u16_inj: "ucast (a :: u16) = (ucast b :: u32) \<longleftrightarrow> a = b"
proof
  assume eq: "ucast a = (ucast b :: u32)"
  show "a = b"
  proof (rule bit_word_eqI)
    fix n assume "n < LENGTH(16)"
    moreover from eq have "bit (ucast a :: u32) n = bit (ucast b :: u32) n" by simp
    ultimately show "bit a n = bit b n" by (simp add: bit_ucast_iff)
  qed
qed simp

section \<open>The parts of a tick\<close>

lemma capture_host_ok:
  assumes "mux_ports m" "i < host_num m"
  shows "\<exists>m'. bti_mux_capture_host m i = Some m' \<and> mux_ports m' \<and> host_num m' = host_num m
    \<and> mux_ost m' = mux_ost m \<and> gst_bti_req_mst m' = gst_bti_req_mst m \<and> gst_bti_rsp_slv m' = gst_bti_rsp_slv m
    \<and> host_bti_rsp_msts m' = host_bti_rsp_msts m \<and> req_rr_idx m' = req_rr_idx m \<and> mux_staged m' = mux_staged m"
proof -
  let ?t = "host_bti_req_slvs m ! i" and ?f = "host_req_fifos m ! i"
  have len: "i < length (host_bti_req_slvs m)" "i < length (host_req_fifos m)"
    using assms by (simp_all add: mux_ports_def)
  have inv: "itf_inv ?t" "fifo_inv ?f" using assms len by (simp_all add: mux_ports_def)
  show ?thesis
  proof (cases "fifo_full ?f \<or> itf_fifo_empty ?t")
    case True
    with len assms show ?thesis by (auto simp: bti_mux_capture_host_def mux_ports_def mux_staged_def fun_eq_iff)
  next
    case False
    from False itf.pop_not_empty [OF inv(1)] obtain req t where t: "itf_read ?t = Some (req, t)" "itf_inv t" "itf_list ?t = req # itf_list t" by metis
    from False fifo.push_ok [OF inv(2)] obtain f where f: "fifo_push ?f req = Some f" "fifo_inv f" "fifo_list f = fifo_list ?f @ [req]" by metis
    have "\<forall>x\<in>set ((host_bti_req_slvs m)[i := t]). itf_inv x" "\<forall>x\<in>set ((host_req_fifos m)[i := f]). fifo_inv x"
      using assms t f by (auto simp: mux_ports_def dest!: subsetD [OF set_update_subset_insert])
    moreover have "mux_staged (m\<lparr>host_bti_req_slvs := (host_bti_req_slvs m)[i := t], host_req_fifos := (host_req_fifos m)[i := f]\<rparr>) = mux_staged m"
      using t(3) f(3) len by (auto simp: mux_staged_def fun_eq_iff nth_list_update)
    ultimately show ?thesis using False len t(1) f(1) assms by (simp add: bti_mux_capture_host_def mux_ports_def)
  qed
qed

lemma capture_loop_ok:
  "mux_ports m \<Longrightarrow> \<forall>i\<in>set is. i < host_num m \<Longrightarrow>
    \<exists>m'. bti_mux_capture_loop is m = Some m' \<and> mux_ports m' \<and> host_num m' = host_num m
      \<and> mux_ost m' = mux_ost m \<and> gst_bti_req_mst m' = gst_bti_req_mst m \<and> gst_bti_rsp_slv m' = gst_bti_rsp_slv m
      \<and> host_bti_rsp_msts m' = host_bti_rsp_msts m \<and> req_rr_idx m' = req_rr_idx m \<and> mux_staged m' = mux_staged m"
proof (induction "is" arbitrary: m)
  case (Cons i "is")
  then obtain m1 where m1: "bti_mux_capture_host m i = Some m1" "mux_ports m1" "host_num m1 = host_num m"
    "mux_ost m1 = mux_ost m" "gst_bti_req_mst m1 = gst_bti_req_mst m" "gst_bti_rsp_slv m1 = gst_bti_rsp_slv m"
    "host_bti_rsp_msts m1 = host_bti_rsp_msts m" "req_rr_idx m1 = req_rr_idx m" "mux_staged m1 = mux_staged m"
    using capture_host_ok [of m i] by auto
  have "\<forall>i\<in>set is. i < host_num m1" using Cons.prems(2) m1(3) by simp
  from Cons.IH [OF m1(2) this] m1 show ?case by auto
qed simp

lemma capture_ok:
  assumes "mux_inv m" "mux_balance m g"
  shows "\<exists>m'. bti_mux_capture_req m = Some m' \<and> mux_inv m' \<and> mux_balance m' g \<and> host_num m' = host_num m
      \<and> mux_ost m' = mux_ost m \<and> gst_bti_rsp_slv m' = gst_bti_rsp_slv m \<and> host_bti_rsp_msts m' = host_bti_rsp_msts m
      \<and> gst_bti_req_mst m' = gst_bti_req_mst m \<and> mux_staged m' = mux_staged m"
proof -
  have "\<forall>i\<in>set [0..<host_num m]. i < host_num m" by simp
  moreover have "mux_ports m" using assms(1) by (simp add: mux_inv_def)
  ultimately obtain m' where m': "bti_mux_capture_req m = Some m'" "mux_ports m'" "host_num m' = host_num m"
    "mux_ost m' = mux_ost m" "gst_bti_req_mst m' = gst_bti_req_mst m" "gst_bti_rsp_slv m' = gst_bti_rsp_slv m"
    "host_bti_rsp_msts m' = host_bti_rsp_msts m" "mux_staged m' = mux_staged m"
    using capture_loop_ok [of m "[0..<host_num m]"] unfolding bti_mux_capture_req_def by blast
  with assms show ?thesis by (simp add: mux_inv_def mux_balance_def mux_hosts_def)
qed

lemma mux_hosts_upd:
  assumes "ostk_queue (mux_ost m') = (ostk_queue (mux_ost m))(ucast tid := cs)"
  shows "mux_hosts m' = (mux_hosts m)(tid := map mc_host_idx cs)"
  using assms by (auto simp: mux_hosts_def fun_eq_iff ucast_u16_inj)

lemma rsp_hosts:
  assumes "mux_inv m" "mux_balance m g" "itf_list (gst_bti_rsp_slv m) = rsp # rsps"
  obtains h hs where "mux_hosts m (bp_trans_id rsp) = h # hs" "h < host_num m"
proof -
  have "0 < length (mux_hosts m (bp_trans_id rsp))" using assms(2,3) by (simp add: mux_balance_def)
  then obtain h hs where h: "mux_hosts m (bp_trans_id rsp) = h # hs" by (cases "mux_hosts m (bp_trans_id rsp)") auto
  moreover from h assms(1) have "h < host_num m" by (metis list.set_intros(1) mux_inv_def)
  ultimately show ?thesis by (rule that)
qed

text \<open>What \<^verbatim>\<open>bti_mux_proc_rsp\<close> does with the response at the front.\<close>

definition mux_rsp_step :: "bti_mux \<Rightarrow> bti_mux \<Rightarrow> bool" where
  "mux_rsp_step m m' \<longleftrightarrow> (case itf_list (gst_bti_rsp_slv m) of
     [] \<Rightarrow> m' = m
   | rsp # rsps \<Rightarrow> \<exists>h hs. mux_hosts m (bp_trans_id rsp) = h # hs \<and> h < host_num m
       \<and> (if itf_fifo_full (host_bti_rsp_msts m ! h) then m' = m
          else itf_list (gst_bti_rsp_slv m') = rsps
            \<and> itf_list (host_bti_rsp_msts m' ! h) = itf_list (host_bti_rsp_msts m ! h) @ [rsp]
            \<and> (\<forall>j. j \<noteq> h \<longrightarrow> host_bti_rsp_msts m' ! j = host_bti_rsp_msts m ! j)
            \<and> mux_hosts m' = (mux_hosts m)(bp_trans_id rsp := hs)))"

lemma proc_rsp_ok:
  assumes inv: "mux_inv m" and bal: "mux_balance m g"
  shows "\<exists>m'. bti_mux_proc_rsp m = Some m' \<and> mux_inv m' \<and> mux_balance m' g \<and> mux_rsp_step m m'
    \<and> host_num m' = host_num m \<and> k_next_issue_seq (mux_ost m') = k_next_issue_seq (mux_ost m)
    \<and> host_req_fifos m' = host_req_fifos m \<and> req_rr_idx m' = req_rr_idx m \<and> gst_bti_req_mst m' = gst_bti_req_mst m
    \<and> host_bti_req_slvs m' = host_bti_req_slvs m"
proof (cases "itf_list (gst_bti_rsp_slv m)")
  case Nil
  have "itf_inv (gst_bti_rsp_slv m)" using inv by (simp add: mux_inv_def mux_ports_def)
  with Nil assms show ?thesis by (simp add: bti_mux_proc_rsp_def itf.is_empty_iff mux_rsp_step_def)
next
  case (Cons rsp rsps)
  let ?tid = "bp_trans_id rsp"
  have ports: "mux_ports m" and ok: "ostk_inv (mux_ost m)" using inv by (simp_all add: mux_inv_def)
  then have ii: "itf_inv (gst_bti_rsp_slv m)" by (simp add: mux_ports_def)
  then have ne: "\<not> itf_fifo_empty (gst_bti_rsp_slv m)" using Cons by (simp add: itf.is_empty_iff)
  obtain h hs where h: "mux_hosts m ?tid = h # hs" "h < host_num m" using rsp_hosts [OF inv bal Cons] .
  then obtain c cs where q: "ostk_queue (mux_ost m) (ucast ?tid) = c # cs" "h = mc_host_idx c" "hs = map mc_host_idx cs"
    by (auto simp: mux_hosts_def)
  from ostk_take_head [OF ok q(1)] obtain slot ost where
    tk: "ostk_peek_key (mux_ost m) (ucast ?tid) = Some (Some (slot, c))" "ostk_free_slot (mux_ost m) slot = Some ost"
    "ostk_inv ost" "ostk_queue ost = (ostk_queue (mux_ost m))(ucast ?tid := cs)"
    "k_next_issue_seq ost = k_next_issue_seq (mux_ost m)" by blast
  have front: "itf_fifo_get_front (gst_bti_rsp_slv m) = Some rsp" by (rule itf.front_Cons [OF ii Cons])
  have len: "h < length (host_bti_rsp_msts m)" using h ports by (simp add: mux_ports_def)
  show ?thesis
  proof (cases "itf_fifo_full (host_bti_rsp_msts m ! h)")
    case True
    with front tk(1) ne q(2) h len Cons assms show ?thesis
      by (simp add: bti_mux_proc_rsp_def mux_rsp_step_def)
  next
    case False
    obtain t where t: "itf_read (gst_bti_rsp_slv m) = Some (rsp, t)" "itf_inv t" "itf_list t = rsps"
      using itf.pop_Cons [OF ii Cons] by blast
    have "itf_inv (host_bti_rsp_msts m ! h)" using ports len by (simp add: mux_ports_def)
    from itf.push_ok [OF this False] obtain u where
      u: "itf_write (host_bti_rsp_msts m ! h) rsp = Some u" "itf_inv u" "itf_list u = itf_list (host_bti_rsp_msts m ! h) @ [rsp]"
      by blast
    define m' where "m' = m\<lparr>gst_bti_rsp_slv := t, mux_ost := ost, host_bti_rsp_msts := (host_bti_rsp_msts m)[h := u]\<rparr>"
    have step: "bti_mux_proc_rsp m = Some m'"
      using front tk(1,2) ne q(2) h len False t u by (simp add: bti_mux_proc_rsp_def m'_def)
    have hosts: "mux_hosts m' = (mux_hosts m)(?tid := hs)"
      using mux_hosts_upd [of m' m ?tid cs] tk(4) q(3) by (simp add: m'_def)
    have "\<forall>x\<in>set ((host_bti_rsp_msts m)[h := u]). itf_inv x"
      using ports u(2) by (auto simp: mux_ports_def dest!: subsetD [OF set_update_subset_insert])
    then have "mux_ports m'" using ports t by (simp add: mux_ports_def m'_def)
    moreover have "\<forall>x\<in>set (h # hs). x < host_num m" using inv h(1) by (metis mux_inv_def)
    then have "\<forall>x\<in>set (mux_hosts m' tid). x < host_num m'" for tid
      using inv hosts by (auto simp: mux_inv_def m'_def split: if_splits)
    ultimately have inv': "mux_inv m'" using tk(3) by (simp add: mux_inv_def m'_def)
    have "mux_balance m' g"
      unfolding mux_balance_def
    proof
      fix tid
      have "length (mux_hosts m tid) = num_req tid (itf_list (gst_bti_req_mst m)) + g tid
          + (of_bool (?tid = tid) + num_rsp tid rsps)" using bal Cons by (simp add: mux_balance_def)
      with h(1) hosts t(3) show "length (mux_hosts m' tid) = num_req tid (itf_list (gst_bti_req_mst m')) + g tid
          + num_rsp tid (itf_list (gst_bti_rsp_slv m'))" by (cases "tid = ?tid") (auto simp: m'_def)
    qed
    moreover have "mux_rsp_step m m'"
      using Cons h False hosts t(3) u(3) len by (simp add: mux_rsp_step_def m'_def)
    ultimately show ?thesis
      using step inv' tk(5) by (intro exI [of _ m']) (simp add: m'_def)
  qed
qed

text \<open>What \<^verbatim>\<open>bti_mux_proc_req\<close> forwards.\<close>

definition mux_req_step :: "bti_mux \<Rightarrow> bti_mux \<Rightarrow> bool" where
  "mux_req_step m m' \<longleftrightarrow>
     (if ostk_full (mux_ost m) \<or> itf_fifo_full (gst_bti_req_mst m) then m' = m
      else case bti_mux_next_host m of
        None \<Rightarrow> m' = m
      | Some h \<Rightarrow> \<exists>req. fifo_list (host_req_fifos m ! h) = req # fifo_list (host_req_fifos m' ! h)
          \<and> (\<forall>j. j \<noteq> h \<longrightarrow> host_req_fifos m' ! j = host_req_fifos m ! j)
          \<and> itf_list (gst_bti_req_mst m') = itf_list (gst_bti_req_mst m) @ [req]
          \<and> mux_hosts m' = (mux_hosts m)(bq_trans_id req := mux_hosts m (bq_trans_id req) @ [h])
          \<and> req_rr_idx m' = (h + 1) mod host_num m)"

lemma next_host_SomeD:
  assumes "bti_mux_next_host m = Some h" "0 < host_num m"
  shows "h < host_num m \<and> \<not> fifo_empty (host_req_fifos m ! h)"
  using assms by (auto simp: bti_mux_next_host_def dest!: find_SomeD)

lemma proc_req_ok:
  assumes inv: "mux_inv m" and bal: "mux_balance m g" and seq: "unat (k_next_issue_seq (mux_ost m)) < 2 ^ 64 - 1"
  shows "\<exists>m'. bti_mux_proc_req m = Some m' \<and> mux_inv m' \<and> mux_balance m' g \<and> mux_req_step m m'
    \<and> host_num m' = host_num m \<and> unat (k_next_issue_seq (mux_ost m')) \<le> unat (k_next_issue_seq (mux_ost m)) + 1
    \<and> gst_bti_rsp_slv m' = gst_bti_rsp_slv m \<and> host_bti_rsp_msts m' = host_bti_rsp_msts m \<and> host_bti_req_slvs m' = host_bti_req_slvs m"
proof (cases "ostk_full (mux_ost m) \<or> itf_fifo_full (gst_bti_req_mst m) \<or> bti_mux_next_host m = None")
  case True
  with assms show ?thesis by (auto simp: bti_mux_proc_req_def mux_req_step_def)
next
  case False
  then obtain h where nh: "bti_mux_next_host m = Some h" by auto
  have ports: "mux_ports m" and ok: "ostk_inv (mux_ost m)" using inv by (simp_all add: mux_inv_def)
  have h: "h < host_num m" "\<not> fifo_empty (host_req_fifos m ! h)"
    using next_host_SomeD [OF nh] ports by (simp_all add: mux_ports_def)
  have len: "h < length (host_req_fifos m)" using h ports by (simp add: mux_ports_def)
  have "fifo_inv (host_req_fifos m ! h)" using ports len by (simp add: mux_ports_def)
  from fifo.pop_not_empty [OF this h(2)] obtain req f where
    f: "fifo_pop (host_req_fifos m ! h) = Some (req, f)" "fifo_inv f" "fifo_list (host_req_fifos m ! h) = req # fifo_list f"
    by metis
  let ?tid = "bq_trans_id req"
  from ostk_alloc_ok [OF ok _ seq, of "ucast ?tid" "\<lparr>mc_host_idx = h\<rparr>"] False obtain slot ost where
    al: "ostk_alloc (mux_ost m) (ucast ?tid) \<lparr>mc_host_idx = h\<rparr> = Some (Some (slot, ost))" "ostk_inv ost"
    "ostk_queue ost = (ostk_queue (mux_ost m))(ucast ?tid := ostk_queue (mux_ost m) (ucast ?tid) @ [\<lparr>mc_host_idx = h\<rparr>])"
    "unat (k_next_issue_seq ost) = unat (k_next_issue_seq (mux_ost m)) + 1" by blast
  have "itf_inv (gst_bti_req_mst m)" using ports by (simp add: mux_ports_def)
  from itf.push_ok [OF this] False obtain t where
    t: "itf_write (gst_bti_req_mst m) req = Some t" "itf_inv t" "itf_list t = itf_list (gst_bti_req_mst m) @ [req]"
    by blast
  define m' where "m' = m\<lparr>host_req_fifos := (host_req_fifos m)[h := f], mux_ost := ost,
    gst_bti_req_mst := t, req_rr_idx := (h + 1) mod host_num m\<rparr>"
  have step: "bti_mux_proc_req m = Some m'"
    using False nh len f al t by (simp add: bti_mux_proc_req_def m'_def)
  have hosts: "mux_hosts m' = (mux_hosts m)(?tid := mux_hosts m ?tid @ [h])"
    using mux_hosts_upd [of m' m ?tid] al(3) by (simp add: m'_def mux_hosts_def)
  have "\<forall>x\<in>set ((host_req_fifos m)[h := f]). fifo_inv x"
    using ports f(2) by (auto simp: mux_ports_def dest!: subsetD [OF set_update_subset_insert])
  then have "mux_ports m'" using ports t by (simp add: mux_ports_def m'_def)
  moreover have "\<forall>x\<in>set (mux_hosts m' tid). x < host_num m'" for tid
    using inv h(1) hosts by (auto simp: mux_inv_def m'_def split: if_splits)
  ultimately have inv': "mux_inv m'" using al(2) by (simp add: mux_inv_def m'_def)
  moreover have "mux_balance m' g" using bal hosts t(3) by (auto simp: mux_balance_def m'_def)
  moreover have "mux_req_step m m'"
    using False nh f(3) hosts t(3) len by (simp add: mux_req_step_def m'_def)
  ultimately show ?thesis using step al(4) by (intro exI [of _ m']) (simp add: m'_def)
qed

section \<open>The order of the requests\<close>

text \<open>
  What the hosts and the guest have seen: the requests each host issued and the responses it took, the requests the guest took, how many of an
  identifier it still holds, and the responses it gave.
\<close>

record mux_ghost =
  mg_reqs :: "nat \<Rightarrow> bti_req list"
  mg_rsps :: "nat \<Rightarrow> bti_rsp list"
  mg_taken :: "bti_req list"
  mg_held :: "u16 \<Rightarrow> nat"
  mg_given :: "bti_rsp list"

text \<open>
  A merge of the hosts' requests, each tagged with the host that issued it, and the hosts of the requests with an identifier. The responses with that
  identifier belong to these hosts, one each, in this order: \<open>used\<close> are those that were passed on.
\<close>

definition id_hosts :: "(nat \<times> bti_req) list \<Rightarrow> u16 \<Rightarrow> nat list" where
  "id_hosts acc tid = map fst (filter (\<lambda>x. bq_trans_id (snd x) = tid) acc)"

definition id_rsps :: "u16 \<Rightarrow> bti_rsp list \<Rightarrow> bti_rsp list" where
  "id_rsps tid = filter (\<lambda>p. bp_trans_id p = tid)"

definition mux_routed :: "bti_mux \<Rightarrow> mux_ghost \<Rightarrow> (nat \<times> bti_req) list \<Rightarrow> u16 \<Rightarrow> bti_rsp list \<Rightarrow> bool" where
  "mux_routed m G acc tid used \<longleftrightarrow> id_rsps tid (mg_given G) = used @ id_rsps tid (itf_list (gst_bti_rsp_slv m))
     \<and> length used \<le> length (id_hosts acc tid) \<and> mux_hosts m tid = drop (length used) (id_hosts acc tid)
     \<and> (\<forall>h<host_num m. id_rsps tid (mg_rsps G h @ itf_list (host_bti_rsp_msts m ! h)) = of_host h (zip (id_hosts acc tid) used))"

definition mux_log :: "bti_mux \<Rightarrow> mux_ghost \<Rightarrow> bool" where
  "mux_log m G \<longleftrightarrow> (\<exists>acc. (\<forall>h<host_num m. mg_reqs G h = of_host h acc @ mux_staged m h)
     \<and> mg_taken G @ itf_list (gst_bti_req_mst m) = map snd acc \<and> (\<forall>tid. \<exists>used. mux_routed m G acc tid used))"

lemma mux_log_cong:
  assumes "host_num m' = host_num m" "mux_staged m' = mux_staged m" "gst_bti_req_mst m' = gst_bti_req_mst m"
    "gst_bti_rsp_slv m' = gst_bti_rsp_slv m" "host_bti_rsp_msts m' = host_bti_rsp_msts m" "mux_hosts m' = mux_hosts m"
  shows "mux_log m' G = mux_log m G"
  using assms by (simp add: mux_log_def mux_routed_def)

lemma id_rsps_simps [simp]: "id_rsps tid [] = []" "id_rsps tid (p # ps) = (if bp_trans_id p = tid then p # id_rsps tid ps else id_rsps tid ps)"
  "id_rsps tid (ps @ qs) = id_rsps tid ps @ id_rsps tid qs"
  by (simp_all add: id_rsps_def)

lemma id_hosts_snoc [simp]: "id_hosts (acc @ [(h, q)]) tid = id_hosts acc tid @ (if bq_trans_id q = tid then [h] else [])"
  by (simp add: id_hosts_def)

lemma of_host_zip_snoc:
  assumes "drop (length used) hs = h # hs'" "length used \<le> length hs"
  shows "of_host g (zip hs (used @ [p])) = of_host g (zip hs used) @ (if h = g then [p] else [])"
proof -
  have len: "length used < length hs" using assms by (metis drop_all leI list.distinct(1))
  have "zip hs (used @ ps) = zip (take (length used) hs) used @ zip (drop (length used) hs) ps" for ps
    using zip_append1 [of "take (length used) hs" "drop (length used) hs" "used @ ps"] len by simp
  from this [of "[p]"] this [of "[]"] assms(1) have "zip hs (used @ [p]) = zip hs used @ [(h, p)]" by simp
  then show ?thesis by simp
qed

lemma mux_rsp_log:
  assumes log: "mux_log m G" and step: "mux_rsp_step m m'" and len: "length (host_bti_rsp_msts m) = host_num m"
    and same: "host_num m' = host_num m" "mux_staged m' = mux_staged m" "gst_bti_req_mst m' = gst_bti_req_mst m"
  shows "mux_log m' G"
proof (cases "m' = m")
  case False
  with step obtain rsp rsps h hs where r: "itf_list (gst_bti_rsp_slv m) = rsp # rsps" "mux_hosts m (bp_trans_id rsp) = h # hs" "h < host_num m"
    "itf_list (gst_bti_rsp_slv m') = rsps" "itf_list (host_bti_rsp_msts m' ! h) = itf_list (host_bti_rsp_msts m ! h) @ [rsp]"
    "\<forall>j. j \<noteq> h \<longrightarrow> host_bti_rsp_msts m' ! j = host_bti_rsp_msts m ! j" "mux_hosts m' = (mux_hosts m)(bp_trans_id rsp := hs)"
    by (auto simp: mux_rsp_step_def split: list.splits if_splits)
  from log obtain acc where a: "\<forall>h<host_num m. mg_reqs G h = of_host h acc @ mux_staged m h"
    "mg_taken G @ itf_list (gst_bti_req_mst m) = map snd acc" "\<forall>tid. \<exists>used. mux_routed m G acc tid used" by (auto simp: mux_log_def)
  have "\<exists>used. mux_routed m' G acc tid used" for tid
  proof -
    from a(3) obtain used where u: "mux_routed m G acc tid used" by blast
    show ?thesis
    proof (cases "tid = bp_trans_id rsp")
      case False
      have "id_rsps tid (itf_list (host_bti_rsp_msts m' ! g)) = id_rsps tid (itf_list (host_bti_rsp_msts m ! g))" for g
        using r(5,6) False by (cases "g = h") auto
      with u False r(1,4,7) same(1) have "mux_routed m' G acc tid used" by (simp add: mux_routed_def)
      then show ?thesis ..
    next
      case True
      let ?hs = "id_hosts acc tid"
      have d: "drop (length used) ?hs = h # hs" "length used \<le> length ?hs" using u True r(2) by (simp_all add: mux_routed_def)
      then have d': "length used < length ?hs" "drop (Suc (length used)) ?hs = hs"
        by (metis drop_all leI list.distinct(1)) (metis d(1) drop_Suc list.sel(3) tl_drop)
      have "id_rsps tid (mg_rsps G g @ itf_list (host_bti_rsp_msts m' ! g)) = of_host g (zip ?hs (used @ [rsp]))" if "g < host_num m" for g
      proof -
        have "id_rsps tid (mg_rsps G g @ itf_list (host_bti_rsp_msts m ! g)) = of_host g (zip ?hs used)" using u that by (simp add: mux_routed_def)
        with of_host_zip_snoc [OF d, of g rsp] r(5,6) True show ?thesis by (cases "g = h") simp_all
      qed
      with u True r(1,4,7) same(1) d' have "mux_routed m' G acc tid (used @ [rsp])" by (simp add: mux_routed_def)
      then show ?thesis ..
    qed
  qed
  with a same show ?thesis unfolding mux_log_def by auto
qed (use log in simp)

lemma mux_req_log:
  assumes log: "mux_log m G" and step: "mux_req_step m m'" and ports: "mux_ports m"
    and same: "host_num m' = host_num m" "host_bti_req_slvs m' = host_bti_req_slvs m" "gst_bti_rsp_slv m' = gst_bti_rsp_slv m"
      "host_bti_rsp_msts m' = host_bti_rsp_msts m"
  shows "mux_log m' G"
proof (cases "m' = m")
  case False
  with step obtain h req where nh: "bti_mux_next_host m = Some h" and
    r: "fifo_list (host_req_fifos m ! h) = req # fifo_list (host_req_fifos m' ! h)" "\<forall>j. j \<noteq> h \<longrightarrow> host_req_fifos m' ! j = host_req_fifos m ! j"
      "itf_list (gst_bti_req_mst m') = itf_list (gst_bti_req_mst m) @ [req]"
      "mux_hosts m' = (mux_hosts m)(bq_trans_id req := mux_hosts m (bq_trans_id req) @ [h])"
    by (auto simp: mux_req_step_def split: option.splits if_splits)
  from log obtain acc where a: "\<forall>h<host_num m. mg_reqs G h = of_host h acc @ mux_staged m h"
    "mg_taken G @ itf_list (gst_bti_req_mst m) = map snd acc" "\<forall>tid. \<exists>used. mux_routed m G acc tid used" by (auto simp: mux_log_def)
  have "mux_staged m g = (if g = h then [req] else []) @ mux_staged m' g" if "g < host_num m" for g
    using r(1,2) same(1,2) that by (cases "g = h") (simp_all add: mux_staged_def)
  then have "\<forall>g<host_num m. mg_reqs G g = of_host g (acc @ [(h, req)]) @ mux_staged m' g" using a(1) by auto
  moreover have "\<exists>used. mux_routed m' G (acc @ [(h, req)]) tid used" for tid
  proof -
    from a(3) obtain used where u: "mux_routed m G acc tid used" by blast
    then have "zip (id_hosts acc tid @ hs) used = zip (id_hosts acc tid) used" for hs by (simp add: mux_routed_def zip_append1)
    with u same r(4) have "mux_routed m' G (acc @ [(h, req)]) tid used" by (auto simp: mux_routed_def)
    then show ?thesis ..
  qed
  ultimately show ?thesis using a(2) r(3) same(1) unfolding mux_log_def by (intro exI [of _ "acc @ [(h, req)]"]) simp
qed (use log in simp)

section \<open>Ticks and runs\<close>

lemma mux_clock_ok:
  assumes inv: "mux_inv m" and bal: "mux_balance m g" and seq: "unat (k_next_issue_seq (mux_ost m)) < 2 ^ 64 - 1" and log: "mux_log m G"
  shows "\<exists>m'. bti_mux_clock m = Some m' \<and> mux_inv m' \<and> mux_balance m' g \<and> mux_log m' G \<and> host_num m' = host_num m
    \<and> unat (k_next_issue_seq (mux_ost m')) \<le> unat (k_next_issue_seq (mux_ost m)) + 1
    \<and> (\<forall>rsp rsps. itf_list (gst_bti_rsp_slv m) = rsp # rsps \<longrightarrow> (\<forall>h<host_num m. \<not> itf_fifo_full (host_bti_rsp_msts m ! h))
         \<longrightarrow> itf_list (gst_bti_rsp_slv m') = rsps)"
proof -
  have "ostk_inv (mux_ost m)" using inv by (simp add: mux_inv_def)
  from ostk_clock_ok [OF this] obtain ost where ost: "ostk_clock (mux_ost m) = Some ost" "ostk_inv ost"
    "k_next_issue_seq ost = k_next_issue_seq (mux_ost m)" "ostk_queue ost = ostk_queue (mux_ost m)" by blast
  let ?m = "m\<lparr>mux_ost := ost\<rparr>"
  have "mux_inv ?m" "mux_balance ?m g"
    using inv bal ost by (simp_all add: mux_inv_def mux_ports_def mux_balance_def mux_hosts_def)
  from capture_ok [OF this] obtain m1 where m1: "bti_mux_capture_req ?m = Some m1" "mux_inv m1" "mux_balance m1 g"
    "host_num m1 = host_num m" "mux_ost m1 = ost" "gst_bti_rsp_slv m1 = gst_bti_rsp_slv m"
    "host_bti_rsp_msts m1 = host_bti_rsp_msts m" "gst_bti_req_mst m1 = gst_bti_req_mst m" "mux_staged m1 = mux_staged ?m" by auto
  have h1: "mux_hosts m1 = mux_hosts m" using m1(5) ost(4) by (simp add: mux_hosts_def fun_eq_iff)
  have "mux_log m1 G" using mux_log_cong [of m1 m G] log h1 m1(4,6-9) by (simp add: mux_staged_def fun_eq_iff)
  from proc_rsp_ok [OF m1(2,3)] obtain m2 where m2: "bti_mux_proc_rsp m1 = Some m2" "mux_inv m2" "mux_balance m2 g"
    "mux_rsp_step m1 m2" "host_num m2 = host_num m1" "k_next_issue_seq (mux_ost m2) = k_next_issue_seq (mux_ost m1)"
    "host_req_fifos m2 = host_req_fifos m1" "host_bti_req_slvs m2 = host_bti_req_slvs m1" "gst_bti_req_mst m2 = gst_bti_req_mst m1" by blast
  have "length (host_bti_rsp_msts m1) = host_num m1" "mux_ports m2" using m1(2) m2(2) by (simp_all add: mux_inv_def mux_ports_def)
  then have l2: "mux_log m2 G" using mux_rsp_log [OF \<open>mux_log m1 G\<close> m2(4)] m2(5,7-9) by (simp add: mux_staged_def fun_eq_iff)
  have "unat (k_next_issue_seq (mux_ost m2)) < 2 ^ 64 - 1" using m2(6) m1(5) ost(3) seq by simp
  from proc_req_ok [OF m2(2,3) this] obtain m' where m': "bti_mux_proc_req m2 = Some m'" "mux_inv m'" "mux_balance m' g"
    "mux_req_step m2 m'" "host_num m' = host_num m2"
    "unat (k_next_issue_seq (mux_ost m')) \<le> unat (k_next_issue_seq (mux_ost m2)) + 1"
    "gst_bti_rsp_slv m' = gst_bti_rsp_slv m2" "host_bti_rsp_msts m' = host_bti_rsp_msts m2" "host_bti_req_slvs m' = host_bti_req_slvs m2" by blast
  have "mux_log m' G" by (rule mux_req_log [OF l2 m'(4) \<open>mux_ports m2\<close> m'(5,9,7,8)])
  moreover have "bti_mux_clock m = Some m'" using ost(1) m1(1) m2(1) m'(1) by (simp add: bti_mux_clock_def)
  moreover have "\<forall>rsp rsps. itf_list (gst_bti_rsp_slv m) = rsp # rsps \<longrightarrow> (\<forall>h<host_num m. \<not> itf_fifo_full (host_bti_rsp_msts m ! h))
      \<longrightarrow> itf_list (gst_bti_rsp_slv m') = rsps"
    using m2(4) m1(4,6,7) m'(7) by (auto simp: mux_rsp_step_def split: if_splits)
  ultimately show ?thesis using m1 m2 m' ost(3) by simp
qed

text \<open>
  The multiplexer between its hosts and its guest. The guest may answer any identifier of
  which it holds a request; the hosts do what they like. The last argument counts the ticks.
\<close>

inductive mux_run :: "bti_mux \<Rightarrow> mux_ghost \<Rightarrow> nat \<Rightarrow> bool" where
  start: "mux_ports m \<Longrightarrow> ostk_construct d = Some (mux_ost m) \<Longrightarrow> itf_list (gst_bti_req_mst m) = []
    \<Longrightarrow> itf_list (gst_bti_rsp_slv m) = [] \<Longrightarrow> \<forall>h<host_num m. mux_staged m h = [] \<and> itf_list (host_bti_rsp_msts m ! h) = []
    \<Longrightarrow> mux_run m \<lparr>mg_reqs = (\<lambda>_. []), mg_rsps = (\<lambda>_. []), mg_taken = [], mg_held = (\<lambda>_. 0), mg_given = []\<rparr> 0"
| tick: "mux_run m G n \<Longrightarrow> bti_mux_clock m = Some m' \<Longrightarrow> mux_run m' G (n + 1)"
| host_req: "mux_run m G n \<Longrightarrow> h < host_num m \<Longrightarrow> itf_write (host_bti_req_slvs m ! h) req = Some t
    \<Longrightarrow> mux_run (m\<lparr>host_bti_req_slvs := (host_bti_req_slvs m)[h := t]\<rparr>) (G\<lparr>mg_reqs := (mg_reqs G)(h := mg_reqs G h @ [req])\<rparr>) n"
| host_rsp: "mux_run m G n \<Longrightarrow> h < host_num m \<Longrightarrow> itf_read (host_bti_rsp_msts m ! h) = Some (rsp, u)
    \<Longrightarrow> mux_run (m\<lparr>host_bti_rsp_msts := (host_bti_rsp_msts m)[h := u]\<rparr>) (G\<lparr>mg_rsps := (mg_rsps G)(h := mg_rsps G h @ [rsp])\<rparr>) n"
| guest_take: "mux_run m G n \<Longrightarrow> itf_read (gst_bti_req_mst m) = Some (req, v)
    \<Longrightarrow> mux_run (m\<lparr>gst_bti_req_mst := v\<rparr>)
      (G\<lparr>mg_taken := mg_taken G @ [req], mg_held := (mg_held G)(bq_trans_id req := mg_held G (bq_trans_id req) + 1)\<rparr>) n"
| guest_answer: "mux_run m G n \<Longrightarrow> 0 < mg_held G (bp_trans_id rsp) \<Longrightarrow> itf_write (gst_bti_rsp_slv m) rsp = Some w
    \<Longrightarrow> mux_run (m\<lparr>gst_bti_rsp_slv := w\<rparr>)
      (G\<lparr>mg_given := mg_given G @ [rsp], mg_held := (mg_held G)(bp_trans_id rsp := mg_held G (bp_trans_id rsp) - 1)\<rparr>) n"

lemma mux_inv_host_req: "mux_inv m \<Longrightarrow> itf_inv t \<Longrightarrow> mux_inv (m\<lparr>host_bti_req_slvs := (host_bti_req_slvs m)[h := t]\<rparr>)"
  by (auto simp: mux_inv_def mux_ports_def mux_hosts_def dest!: subsetD [OF set_update_subset_insert])

lemma mux_inv_host_rsp: "mux_inv m \<Longrightarrow> itf_inv t \<Longrightarrow> mux_inv (m\<lparr>host_bti_rsp_msts := (host_bti_rsp_msts m)[h := t]\<rparr>)"
  by (auto simp: mux_inv_def mux_ports_def mux_hosts_def dest!: subsetD [OF set_update_subset_insert])

lemma mux_inv_guest: "mux_inv m \<Longrightarrow> itf_inv v \<Longrightarrow> mux_inv (m\<lparr>gst_bti_req_mst := v\<rparr>)"
    "mux_inv m \<Longrightarrow> itf_inv w \<Longrightarrow> mux_inv (m\<lparr>gst_bti_rsp_slv := w\<rparr>)"
  by (simp_all add: mux_inv_def mux_ports_def mux_hosts_def)

lemma mux_inv_parts:
  assumes "mux_inv m"
  shows "h < host_num m \<Longrightarrow> itf_inv (host_bti_req_slvs m ! h)" "h < host_num m \<Longrightarrow> itf_inv (host_bti_rsp_msts m ! h)"
    "itf_inv (gst_bti_req_mst m)" "itf_inv (gst_bti_rsp_slv m)"
    "length (host_bti_req_slvs m) = host_num m" "length (host_bti_rsp_msts m) = host_num m"
  using assms by (simp_all add: mux_inv_def mux_ports_def)

text \<open>What the hosts and the guest do keeps the order.\<close>

lemma mux_log_host_req:
  assumes "mux_log m G" "h < length (host_bti_req_slvs m)" "itf_list t = itf_list (host_bti_req_slvs m ! h) @ [req]"
  shows "mux_log (m\<lparr>host_bti_req_slvs := (host_bti_req_slvs m)[h := t]\<rparr>) (G\<lparr>mg_reqs := (mg_reqs G)(h := mg_reqs G h @ [req])\<rparr>)"
    (is "mux_log ?m ?G")
proof -
  have "mux_routed ?m ?G = mux_routed m G" by (simp add: fun_eq_iff mux_routed_def mux_hosts_def)
  moreover have "mux_staged ?m g = (if g = h \<and> g < host_num m then mux_staged m g @ [req] else mux_staged m g)" for g
    using assms(2,3) by (auto simp: mux_staged_def)
  ultimately show ?thesis using assms(1) unfolding mux_log_def by auto
qed

lemma mux_log_host_rsp:
  assumes "mux_log m G" "h < length (host_bti_rsp_msts m)" "itf_list (host_bti_rsp_msts m ! h) = rsp # itf_list u"
  shows "mux_log (m\<lparr>host_bti_rsp_msts := (host_bti_rsp_msts m)[h := u]\<rparr>) (G\<lparr>mg_rsps := (mg_rsps G)(h := mg_rsps G h @ [rsp])\<rparr>)"
    (is "mux_log ?m ?G")
proof -
  have "mg_rsps ?G g @ itf_list (host_bti_rsp_msts ?m ! g) = mg_rsps G g @ itf_list (host_bti_rsp_msts m ! g)" for g
    using assms(2,3) by (cases "g = h") simp_all
  then have "mux_routed ?m ?G = mux_routed m G" by (simp add: fun_eq_iff mux_routed_def mux_hosts_def del: id_rsps_simps)
  moreover have "mux_staged ?m = mux_staged m" by (simp add: fun_eq_iff mux_staged_def)
  ultimately show ?thesis using assms(1) by (simp add: mux_log_def)
qed

lemma mux_log_guest_take:
  assumes "mux_log m G" "itf_list (gst_bti_req_mst m) = req # itf_list v"
  shows "mux_log (m\<lparr>gst_bti_req_mst := v\<rparr>) (G\<lparr>mg_taken := mg_taken G @ [req], mg_held := g\<rparr>)" (is "mux_log ?m ?G")
proof -
  have "mux_routed ?m ?G = mux_routed m G" "mux_staged ?m = mux_staged m" by (simp_all add: fun_eq_iff mux_routed_def mux_hosts_def mux_staged_def)
  then show ?thesis using assms by (simp add: mux_log_def)
qed

lemma mux_log_guest_answer:
  assumes "mux_log m G" "itf_list w = itf_list (gst_bti_rsp_slv m) @ [rsp]"
  shows "mux_log (m\<lparr>gst_bti_rsp_slv := w\<rparr>) (G\<lparr>mg_given := mg_given G @ [rsp], mg_held := g\<rparr>)" (is "mux_log ?m ?G")
proof -
  have "mux_routed m G acc tid used \<Longrightarrow> mux_routed ?m ?G acc tid used" for acc tid used
    using assms(2) by (simp add: mux_routed_def mux_hosts_def)
  moreover have "mux_staged ?m = mux_staged m" by (simp add: fun_eq_iff mux_staged_def)
  moreover have "host_num ?m = host_num m" "mg_reqs ?G = mg_reqs G" "mg_taken ?G = mg_taken G" "gst_bti_req_mst ?m = gst_bti_req_mst m" by simp_all
  ultimately show ?thesis using assms(1) unfolding mux_log_def by metis
qed

lemma mux_run_inv:
  "mux_run m G n \<Longrightarrow> n < 2 ^ 64 - 1 \<Longrightarrow>
    mux_inv m \<and> mux_balance m (mg_held G) \<and> mux_log m G \<and> unat (k_next_issue_seq (mux_ost m)) \<le> n"
proof (induction rule: mux_run.induct)
  case (start m d)
  from ostk_construct_ok [OF start(2)] have o: "ostk_inv (mux_ost m)" "mux_hosts m tid = []" "k_next_issue_seq (mux_ost m) = 0" for tid
    by (simp_all add: mux_hosts_def ostk_settled_def)
  with start show ?case
    by (auto simp: mux_inv_def mux_balance_def mux_log_def mux_routed_def id_hosts_def of_host_def)
next
  case (tick m G n m')
  then have "unat (k_next_issue_seq (mux_ost m)) < 2 ^ 64 - 1" by linarith
  with mux_clock_ok [of m "mg_held G" G] tick show ?case by (auto intro: le_trans)
next
  case (host_req m G n h req t)
  then have i: "mux_inv m" "mux_balance m (mg_held G)" "mux_log m G" "unat (k_next_issue_seq (mux_ost m)) \<le> n" by simp_all
  note t = itf.push_SomeD [OF host_req(3) mux_inv_parts(1) [OF i(1) host_req(2)]]
  from t mux_inv_host_req [OF i(1)] mux_log_host_req [OF i(3)] mux_inv_parts(5) [OF i(1)] host_req(2) i(2,4) show ?case
    by (simp add: mux_balance_def mux_hosts_def)
next
  case (host_rsp m G n h rsp u)
  then have i: "mux_inv m" "mux_balance m (mg_held G)" "mux_log m G" "unat (k_next_issue_seq (mux_ost m)) \<le> n" by simp_all
  note u = itf.pop_SomeD [OF host_rsp(3) mux_inv_parts(2) [OF i(1) host_rsp(2)]]
  from u mux_inv_host_rsp [OF i(1)] mux_log_host_rsp [OF i(3)] mux_inv_parts(6) [OF i(1)] host_rsp(2) i(2,4) show ?case
    by (simp add: mux_balance_def mux_hosts_def)
next
  case (guest_take m G n req v)
  then have i: "mux_inv m" "mux_balance m (mg_held G)" "mux_log m G" "unat (k_next_issue_seq (mux_ost m)) \<le> n" by simp_all
  note v = itf.pop_SomeD [OF guest_take(2) mux_inv_parts(3) [OF i(1)]]
  have "mux_balance (m\<lparr>gst_bti_req_mst := v\<rparr>) ((mg_held G)(bq_trans_id req := mg_held G (bq_trans_id req) + 1))"
    using v i(2) by (auto simp: mux_balance_def mux_hosts_def)
  with v mux_inv_guest(1) [OF i(1)] mux_log_guest_take [OF i(3)] i(4) show ?case by (simp add: fun_upd_def)
next
  case (guest_answer m G n rsp w)
  then have i: "mux_inv m" "mux_balance m (mg_held G)" "mux_log m G" "unat (k_next_issue_seq (mux_ost m)) \<le> n" by simp_all
  note w = itf.push_SomeD [OF guest_answer(3) mux_inv_parts(4) [OF i(1)]]
  have "mux_balance (m\<lparr>gst_bti_rsp_slv := w\<rparr>) ((mg_held G)(bp_trans_id rsp := mg_held G (bp_trans_id rsp) - 1))"
    using w i(2) guest_answer(2) by (auto simp: mux_balance_def mux_hosts_def)
  with w mux_inv_guest(2) [OF i(1)] mux_log_guest_answer [OF i(3)] i(4) show ?case by (simp add: fun_upd_def)
qed

section \<open>Properties\<close>

text \<open>
  C40. Every response reaches the host whose request it answers. In every run in which the guest answers only identifiers of which it
  holds a request, the next tick does not abort; there is one order (\<open>acc\<close>) of the requests, each with the host that issued
  it, that keeps every host's own order and in which the guest gets them; of every transaction identifier, the guest's first response goes to the
  host of the first request with it, the second to the host of the second, and so on: what a host has received of an identifier are,
  in order and unchanged, the responses that fall to its own requests. And a response is not held back: a tick passes it on when the
  hosts have room. The bound is the number of sequence numbers of the table.
\<close>

theorem bti_mux_routes_response:
  assumes "mux_run m G n" "n < 2 ^ 64 - 1"
  shows "\<exists>m' acc. bti_mux_clock m = Some m'
    \<and> (\<forall>h<host_num m. \<exists>rest. mg_reqs G h = of_host h acc @ rest) \<and> (\<exists>rest. map snd acc = mg_taken G @ rest)
    \<and> (\<forall>tid. \<exists>used later. id_rsps tid (mg_given G) = used @ later \<and> length used \<le> length (id_hosts acc tid)
         \<and> (\<forall>h<host_num m. \<exists>rest. of_host h (zip (id_hosts acc tid) used) = id_rsps tid (mg_rsps G h) @ rest))
    \<and> (\<forall>rsp rsps. itf_list (gst_bti_rsp_slv m) = rsp # rsps \<longrightarrow> (\<forall>h<host_num m. \<not> itf_fifo_full (host_bti_rsp_msts m ! h))
         \<longrightarrow> itf_list (gst_bti_rsp_slv m') = rsps)"
proof -
  have i: "mux_inv m" "mux_balance m (mg_held G)" "unat (k_next_issue_seq (mux_ost m)) < 2 ^ 64 - 1" "mux_log m G"
    using mux_run_inv [OF assms] assms(2) by linarith+
  from i(4) obtain acc where a: "\<forall>h<host_num m. mg_reqs G h = of_host h acc @ mux_staged m h"
    "mg_taken G @ itf_list (gst_bti_req_mst m) = map snd acc" "\<forall>tid. \<exists>used. mux_routed m G acc tid used" unfolding mux_log_def by blast
  have "\<exists>used later. id_rsps tid (mg_given G) = used @ later \<and> length used \<le> length (id_hosts acc tid)
      \<and> (\<forall>h<host_num m. \<exists>rest. of_host h (zip (id_hosts acc tid) used) = id_rsps tid (mg_rsps G h) @ rest)" for tid
  proof -
    from a(3) obtain used where u: "mux_routed m G acc tid used" by blast
    then have "\<forall>h<host_num m. of_host h (zip (id_hosts acc tid) used) = id_rsps tid (mg_rsps G h) @ id_rsps tid (itf_list (host_bti_rsp_msts m ! h))"
      by (simp add: mux_routed_def)
    with u show ?thesis unfolding mux_routed_def by blast
  qed
  with mux_clock_ok [OF i] a(1) a(2) [symmetric] show ?thesis by blast
qed

definition two_hosts :: bti_mux where
  "two_hosts = \<lparr>host_bti_req_slvs = [fifo_itf_construct 1, fifo_itf_construct 1],
     host_bti_rsp_msts = [fifo_itf_construct 1, fifo_itf_construct 1],
     gst_bti_req_mst = fifo_itf_construct 1, gst_bti_rsp_slv = fifo_itf_construct 1, host_num = 2,
     req_rr_idx = 0, host_req_fifos = [the (fifo_construct 2), the (fifo_construct 2)],
     mux_ost = the (ostk_construct 4), mux_perf_stg_full = 0\<rparr>"

lemma two_hosts_run: "mux_run two_hosts \<lparr>mg_reqs = (\<lambda>_. []), mg_rsps = (\<lambda>_. []), mg_taken = [], mg_held = (\<lambda>_. 0), mg_given = []\<rparr> 0"
proof (rule mux_run.start)
  have f: "fifo_construct 2 = Some (the (fifo_construct 2) :: bti_req fifo)" by (simp add: fifo_construct_def)
  from fifo_construct_inv [OF f] show "mux_ports two_hosts" by (simp add: mux_ports_def two_hosts_def)
  show "ostk_construct 4 = Some (mux_ost two_hosts)" by (simp add: ostk_construct_def two_hosts_def)
  show "\<forall>h<host_num two_hosts. mux_staged two_hosts h = [] \<and> itf_list (host_bti_rsp_msts two_hosts ! h) = []"
    "itf_list (gst_bti_req_mst two_hosts) = []" "itf_list (gst_bti_rsp_slv two_hosts) = []" by code_simp+
qed

text \<open>A read of the second host, forwarded, taken by the guest and answered.\<close>

definition mux_q :: bti_req where
  "mux_q = \<lparr>bq_trans_id = 7, bq_cmd = BTI_REQ_CMD_READ, bq_addr = 0x40, bq_size = BTI_REQ_SIZE_B4, bq_data = 0, bq_strobe = 0\<rparr>"

definition mux_p :: bti_rsp where
  "mux_p = \<lparr>bp_trans_id = 7, bp_data = 99, bp_ok = True\<rparr>"

definition mux_demo0 :: bti_mux where
  "mux_demo0 = two_hosts\<lparr>host_bti_req_slvs := (host_bti_req_slvs two_hosts)[1 := the (itf_write (host_bti_req_slvs two_hosts ! 1) mux_q)]\<rparr>"

definition mux_demo1 :: bti_mux where "mux_demo1 = the (bti_mux_clock mux_demo0)"

definition mux_demo2 :: bti_mux where
  "mux_demo2 = mux_demo1\<lparr>gst_bti_req_mst := snd (the (itf_read (gst_bti_req_mst mux_demo1)))\<rparr>"

definition mux_demo3 :: bti_mux where
  "mux_demo3 = mux_demo2\<lparr>gst_bti_rsp_slv := the (itf_write (gst_bti_rsp_slv mux_demo2) mux_p)\<rparr>"

definition mux_demo4 :: bti_mux where "mux_demo4 = the (bti_mux_clock mux_demo3)"

definition mux_demo5 :: bti_mux where
  "mux_demo5 = mux_demo4\<lparr>host_bti_rsp_msts := (host_bti_rsp_msts mux_demo4)[1 := snd (the (itf_read (host_bti_rsp_msts mux_demo4 ! 1)))]\<rparr>"

lemma mux_demo_run: "\<exists>G. mux_run mux_demo5 G 2 \<and> mg_reqs G = (\<lambda>_. [])(1 := [mux_q]) \<and> mg_rsps G = (\<lambda>_. [])(1 := [mux_p]) \<and> mg_given G = [mux_p]"
proof -
  have "1 < host_num two_hosts" "itf_write (host_bti_req_slvs two_hosts ! 1) mux_q \<noteq> None" by code_simp+
  with mux_run.host_req [OF two_hosts_run, of 1 mux_q] obtain G0 where
    run0: "mux_run mux_demo0 G0 0" "G0 = \<lparr>mg_reqs = (\<lambda>_. [])(1 := [mux_q]), mg_rsps = (\<lambda>_. []), mg_taken = [], mg_held = (\<lambda>_. 0), mg_given = []\<rparr>"
    by (auto simp: mux_demo0_def)
  have "bti_mux_clock mux_demo0 \<noteq> None" by code_simp
  with mux_run.tick [OF run0(1)] have run1: "mux_run mux_demo1 G0 1" by (auto simp: mux_demo1_def)
  have "map_option (\<lambda>(q, v). q) (itf_read (gst_bti_req_mst mux_demo1)) = Some mux_q" by code_simp
  then obtain v where v: "itf_read (gst_bti_req_mst mux_demo1) = Some (mux_q, v)" by auto
  from mux_run.guest_take [OF run1 v] v obtain G2 where run2: "mux_run mux_demo2 G2 1" "mg_reqs G2 = (\<lambda>_. [])(1 := [mux_q])"
    "mg_rsps G2 = (\<lambda>_. [])" "mg_given G2 = []" "mg_held G2 7 = 1" by (auto simp: mux_demo2_def run0(2) mux_q_def)
  have "itf_write (gst_bti_rsp_slv mux_demo2) mux_p \<noteq> None" by code_simp
  then obtain w where w: "itf_write (gst_bti_rsp_slv mux_demo2) mux_p = Some w" by blast
  have "0 < mg_held G2 (bp_trans_id mux_p)" using run2(5) by (simp add: mux_p_def)
  from mux_run.guest_answer [OF run2(1) this w] w run2(2-4) obtain G3 where run3: "mux_run mux_demo3 G3 1"
    "mg_reqs G3 = (\<lambda>_. [])(1 := [mux_q])" "mg_rsps G3 = (\<lambda>_. [])" "mg_given G3 = [mux_p]" by (auto simp: mux_demo3_def)
  have "bti_mux_clock mux_demo3 \<noteq> None" by code_simp
  with mux_run.tick [OF run3(1)] have run4: "mux_run mux_demo4 G3 2" by (auto simp: mux_demo4_def numeral_2_eq_2)
  have h: "1 < host_num mux_demo4" by code_simp
  have "map_option (\<lambda>(p, u). p) (itf_read (host_bti_rsp_msts mux_demo4 ! 1)) = Some mux_p" by code_simp
  then obtain u where u: "itf_read (host_bti_rsp_msts mux_demo4 ! 1) = Some (mux_p, u)" by auto
  from mux_run.host_rsp [OF run4 h u] u run3(2-4) show ?thesis by (auto simp: mux_demo5_def)
qed

theorem bti_mux_routes_response_witness:
  "\<exists>G m' acc. mux_run mux_demo5 G 2 \<and> mg_rsps G 1 = [mux_p] \<and> bti_mux_clock mux_demo5 = Some m' \<and> (\<exists>rest. [mux_q] = of_host 1 acc @ rest)"
proof -
  obtain G where G: "mux_run mux_demo5 G 2" "mg_reqs G = (\<lambda>_. [])(1 := [mux_q])" "mg_rsps G = (\<lambda>_. [])(1 := [mux_p])" using mux_demo_run by blast
  have "1 < host_num mux_demo5" by code_simp
  with bti_mux_routes_response [OF G(1)] G show ?thesis by fastforce
qed

end
