(* ===== verification/Bpu.thy ===== *)
theory Bpu
  imports Isa
begin

text \<open>
  The branch prediction unit (\<^verbatim>\<open>core/hart/bpu.c\<close>): a table of two-bit counters for
  conditional branches, a fully associative target buffer with least-recently-used
  replacement for indirect jumps, and a return address stack. The fetch unit asks for a
  prediction through a signal that is answered at once, and reports outcomes through an
  update signal that the unit applies at its next clock tick; a prediction asked for in
  between takes the waiting update into account.
\<close>

section \<open>Packets and state\<close>

record bpu_pred_req =
  pq_vld :: bool
  pq_pc :: u32
  pq_ir :: u32

record bpu_pred_rsp =
  pr_vld :: bool
  pr_is_ctrl :: bool
  pr_pred_taken :: bool
  pr_pred_pc :: u32
  pr_cond_bht_hit :: bool
  pr_jalr_ras_hit :: bool
  pr_jalr_btb_hit :: bool
  pr_jalr_btb_miss :: bool

record bpu_update =
  bu_vld :: bool
  bu_pc :: u32
  bu_ir :: u32
  bu_taken :: bool
  bu_target_pc :: u32
  bu_pred_taken :: bool
  bu_pred_pc :: u32
  bu_pred_true :: bool
  bu_is_boot_code :: bool
  bu_pred_cond_bht_hit :: bool
  bu_pred_jalr_ras_hit :: bool
  bu_pred_jalr_btb_hit :: bool
  bu_pred_jalr_btb_miss :: bool

abbreviation (input) BPU_COND_BHT_SIZE :: nat where "BPU_COND_BHT_SIZE \<equiv> 512"
abbreviation (input) BPU_JALR_BTB_SIZE :: nat where "BPU_JALR_BTB_SIZE \<equiv> 64"
abbreviation (input) BPU_RAS_SIZE :: nat where "BPU_RAS_SIZE \<equiv> 16"

record bpu_ras =
  ras_entry :: "u32 list"
  ras_sp :: nat
  ras_count :: nat

record bht_entry =
  bht_vld :: bool
  bht_counter :: u8

record btb_entry =
  btb_vld :: bool
  btb_pc :: u32
  btb_target_pc :: u32
  btb_last_used :: u32

record bpu_perf =
  pf_branch :: u64
  pf_pred_true :: u64
  pf_cond_branch :: u64
  pf_cond_branch_pred_true :: u64
  pf_jal :: u64
  pf_jal_pred_true :: u64
  pf_jalr :: u64
  pf_jalr_pred_true :: u64
  pf_cond_bht_hit :: u64
  pf_ras_pred :: u64
  pf_jalr_ras_hit :: u64
  pf_jalr_btb_hit :: u64
  pf_jalr_btb_miss :: u64

record bpu =
  access_seq :: u32
  cond_bht :: "bht_entry list"
  jalr_btb :: "btb_entry list"
  bpu_ras_o :: bpu_ras
  bpu_perf_o :: bpu_perf

section \<open>bpu.c\<close>

definition sat_counter_update :: "u8 \<Rightarrow> bool \<Rightarrow> u8" where
  "sat_counter_update cnt taken =
     (if taken then (if cnt < 3 then cnt + 1 else cnt) else (if cnt > 0 then cnt - 1 else cnt))"

definition bpu_is_link_reg :: "u32 \<Rightarrow> bool" where
  "bpu_is_link_reg reg \<longleftrightarrow> reg = 1 \<or> reg = 5"

definition bpu_jalr_reads_ras :: "u32 \<Rightarrow> bool" where
  "bpu_jalr_reads_ras inst = (let rd_link = bpu_is_link_reg (inst_rd inst);
       rs1_link = bpu_is_link_reg (inst_rs1 inst)
     in rs1_link \<and> (\<not> rd_link \<or> inst_rd inst \<noteq> inst_rs1 inst))"

definition bpu_cond_bht_idx :: "u32 \<Rightarrow> nat" where
  "bpu_cond_bht_idx pc = unat (drop_bit 2 pc AND 511)"

definition bpu_ras_push :: "bpu_ras \<Rightarrow> u32 \<Rightarrow> bpu_ras" where
  "bpu_ras_push ras pc = ras\<lparr>ras_entry := (ras_entry ras)[ras_sp ras := pc],
     ras_sp := (ras_sp ras + 1) mod BPU_RAS_SIZE,
     ras_count := (if ras_count ras < BPU_RAS_SIZE then ras_count ras + 1 else ras_count ras)\<rparr>"

definition bpu_ras_peek :: "bpu_ras \<Rightarrow> u32 option" where
  "bpu_ras_peek ras = (if ras_count ras = 0 then None
     else Some (ras_entry ras ! ((ras_sp ras + BPU_RAS_SIZE - 1) mod BPU_RAS_SIZE)))"

definition bpu_ras_pop :: "bpu_ras \<Rightarrow> bpu_ras" where
  "bpu_ras_pop ras = (if ras_count ras = 0 then ras
     else ras\<lparr>ras_sp := (ras_sp ras + BPU_RAS_SIZE - 1) mod BPU_RAS_SIZE, ras_count := ras_count ras - 1\<rparr>)"

text \<open>The search loops over the target buffer: the first entry that qualifies.\<close>

definition btb_find :: "(btb_entry \<Rightarrow> bool) \<Rightarrow> btb_entry list \<Rightarrow> nat option" where
  "btb_find P btb = List.find (\<lambda>i. P (btb ! i)) [0..<BPU_JALR_BTB_SIZE]"

definition bpu_jalr_btb_lookup :: "btb_entry list \<Rightarrow> u32 \<Rightarrow> u32 option" where
  "bpu_jalr_btb_lookup btb pc =
     map_option (\<lambda>i. btb_target_pc (btb ! i)) (btb_find (\<lambda>e. btb_vld e \<and> btb_pc e = pc) btb)"

definition bpu_jalr_btb_touch :: "bpu \<Rightarrow> u32 \<Rightarrow> bpu" where
  "bpu_jalr_btb_touch bpu pc = (let seq = access_seq bpu + 1; btb = jalr_btb bpu in
     case btb_find (\<lambda>e. btb_vld e \<and> btb_pc e = pc) btb of
       Some i \<Rightarrow> bpu\<lparr>access_seq := seq, jalr_btb := btb[i := (btb ! i)\<lparr>btb_last_used := seq\<rparr>]\<rparr>
     | None \<Rightarrow> bpu\<lparr>access_seq := seq\<rparr>)"

text \<open>The loop that looks for the least recently used entry, after \<open>n\<close> rounds.\<close>

primrec btb_lru :: "btb_entry list \<Rightarrow> nat \<Rightarrow> nat \<times> u32" where
  "btb_lru btb 0 = (0, btb_last_used (btb ! 0))"
| "btb_lru btb (Suc n) = (let (lru_idx, lru_min) = btb_lru btb n in
     if btb_last_used (btb ! Suc n) < lru_min then (Suc n, btb_last_used (btb ! Suc n)) else (lru_idx, lru_min))"

definition bpu_update_jalr_btb :: "bpu \<Rightarrow> u32 \<Rightarrow> u32 \<Rightarrow> bpu" where
  "bpu_update_jalr_btb bpu pc target_pc = (let seq = access_seq bpu + 1; btb = jalr_btb bpu;
       new = \<lparr>btb_vld = True, btb_pc = pc, btb_target_pc = target_pc, btb_last_used = seq\<rparr> in
     case btb_find (\<lambda>e. btb_vld e \<and> btb_pc e = pc) btb of
       Some i \<Rightarrow> bpu\<lparr>access_seq := seq,
         jalr_btb := btb[i := (btb ! i)\<lparr>btb_target_pc := target_pc, btb_last_used := seq\<rparr>]\<rparr>
     | None \<Rightarrow> (case btb_find (\<lambda>e. \<not> btb_vld e) btb of
         Some i \<Rightarrow> bpu\<lparr>access_seq := seq, jalr_btb := btb[i := new]\<rparr>
       | None \<Rightarrow> bpu\<lparr>access_seq := seq, jalr_btb := btb[fst (btb_lru btb (BPU_JALR_BTB_SIZE - 1)) := new]\<rparr>))"

definition bpu_update_ras_state :: "bpu_ras \<Rightarrow> bpu_update \<Rightarrow> bpu_ras" where
  "bpu_update_ras_state ras update = (let inst = bu_ir update in
     if inst_opcode inst = OPCODE_JAL then
       (if bpu_is_link_reg (inst_rd inst) then bpu_ras_push ras (bu_pc update + 4) else ras)
     else if inst_opcode inst \<noteq> OPCODE_JALR then ras
     else let rd_link = bpu_is_link_reg (inst_rd inst); rs1_link = bpu_is_link_reg (inst_rs1 inst) in
       if \<not> rd_link \<and> rs1_link then bpu_ras_pop ras
       else if rd_link \<and> \<not> rs1_link then bpu_ras_push ras (bu_pc update + 4)
       else if rd_link \<and> rs1_link then
         bpu_ras_push (if inst_rd inst \<noteq> inst_rs1 inst then bpu_ras_pop ras else ras) (bu_pc update + 4)
       else ras)"

definition bpu_update_ras :: "bpu \<Rightarrow> bpu_update \<Rightarrow> bpu" where
  "bpu_update_ras bpu update = bpu\<lparr>bpu_ras_o := bpu_update_ras_state (bpu_ras_o bpu) update\<rparr>"

definition bpu_update_tables :: "bpu \<Rightarrow> bpu_update \<Rightarrow> bpu" where
  "bpu_update_tables bpu update = (let inst = bu_ir update in
     if inst_opcode inst = OPCODE_BRANCH then
       let idx = bpu_cond_bht_idx (bu_pc update); e = cond_bht bpu ! idx in
       bpu\<lparr>cond_bht := (cond_bht bpu)[idx :=
         if \<not> bht_vld e then \<lparr>bht_vld = True, bht_counter = (if bu_taken update then 2 else 1)\<rparr>
         else e\<lparr>bht_counter := sat_counter_update (bht_counter e) (bu_taken update)\<rparr>]\<rparr>
     else if inst_opcode inst = OPCODE_JALR then bpu_update_jalr_btb bpu (bu_pc update) (bu_target_pc update)
     else bpu)"

definition bpu_update_pred_meta :: "bpu \<Rightarrow> bpu_update \<Rightarrow> bpu" where
  "bpu_update_pred_meta bpu update = (
     let perf = bpu_perf_o bpu;
         perf = (if bu_pred_cond_bht_hit update then perf\<lparr>pf_cond_bht_hit := pf_cond_bht_hit perf + 1\<rparr> else perf);
         perf = (if bu_pred_jalr_ras_hit update
           then perf\<lparr>pf_ras_pred := pf_ras_pred perf + 1, pf_jalr_ras_hit := pf_jalr_ras_hit perf + 1\<rparr> else perf);
         perf = (if bu_pred_jalr_btb_hit update then perf\<lparr>pf_jalr_btb_hit := pf_jalr_btb_hit perf + 1\<rparr> else perf);
         perf = (if bu_pred_jalr_btb_miss update then perf\<lparr>pf_jalr_btb_miss := pf_jalr_btb_miss perf + 1\<rparr> else perf);
         bpu = bpu\<lparr>bpu_perf_o := perf\<rparr>
     in if bu_pred_jalr_btb_hit update then bpu_jalr_btb_touch bpu (bu_pc update) else bpu)"

definition bpu_update_is_opcode :: "bpu_update \<Rightarrow> u32 \<Rightarrow> bool" where
  "bpu_update_is_opcode update opcode = (if \<not> bu_vld update then False else inst_opcode (bu_ir update) = opcode)"

definition bpu_cond_bht_lookup_effective :: "bpu \<Rightarrow> bpu_update \<Rightarrow> u32 \<Rightarrow> u8 option" where
  "bpu_cond_bht_lookup_effective bpu update pc = (
     let idx = bpu_cond_bht_idx pc; e = cond_bht bpu ! idx; vld = bht_vld e; cnt = bht_counter e;
         (vld, cnt) = (if bpu_update_is_opcode update OPCODE_BRANCH \<and> bpu_cond_bht_idx (bu_pc update) = idx
           then (if \<not> vld then (True, if bu_taken update then 2 else 1)
                 else (vld, sat_counter_update cnt (bu_taken update)))
           else (vld, cnt))
     in if \<not> vld then None else Some cnt)"

definition bpu_jalr_btb_lookup_effective :: "bpu \<Rightarrow> bpu_update \<Rightarrow> u32 \<Rightarrow> u32 option" where
  "bpu_jalr_btb_lookup_effective bpu update pc =
     (if bpu_update_is_opcode update OPCODE_JALR \<and> bu_pc update = pc then Some (bu_target_pc update)
      else bpu_jalr_btb_lookup (jalr_btb bpu) pc)"

definition bpu_ras_apply_effective_update :: "bpu_ras \<Rightarrow> bpu_update \<Rightarrow> bpu_ras" where
  "bpu_ras_apply_effective_update ras update = (if \<not> bu_vld update then ras else bpu_update_ras_state ras update)"

definition bpu_eval_pred_req :: "bpu \<Rightarrow> bpu_update \<Rightarrow> bpu_pred_req \<Rightarrow> bpu_pred_rsp" where
  "bpu_eval_pred_req bpu update req = (
     let rsp = \<lparr>pr_vld = pq_vld req, pr_is_ctrl = False, pr_pred_taken = False, pr_pred_pc = pq_pc req + 4,
           pr_cond_bht_hit = False, pr_jalr_ras_hit = False, pr_jalr_btb_hit = False, pr_jalr_btb_miss = False\<rparr>
     in if \<not> pq_vld req then rsp
     else let inst = pq_ir req;
              rsp = rsp\<lparr>pr_is_ctrl := inst_opcode inst \<in> {OPCODE_JAL, OPCODE_JALR, OPCODE_BRANCH}\<rparr>
     in if \<not> pr_is_ctrl rsp then rsp
     else if inst_opcode inst = OPCODE_JAL then
       rsp\<lparr>pr_pred_taken := True, pr_pred_pc := pq_pc req + j_imm_decode inst\<rparr>
     else if inst_opcode inst = OPCODE_BRANCH then
       (let offset = b_imm_decode inst in
        case bpu_cond_bht_lookup_effective bpu update (pq_pc req) of
          Some counter \<Rightarrow>
            let rsp = rsp\<lparr>pr_cond_bht_hit := True, pr_pred_taken := counter \<ge> 2\<rparr>
            in if pr_pred_taken rsp then rsp\<lparr>pr_pred_pc := pq_pc req + offset\<rparr> else rsp
        | None \<Rightarrow>
            if sint offset < 0 then rsp\<lparr>pr_pred_taken := True, pr_pred_pc := pq_pc req + offset\<rparr> else rsp)
     else case (if bpu_jalr_reads_ras inst
                then bpu_ras_peek (bpu_ras_apply_effective_update (bpu_ras_o bpu) update) else None) of
       Some target_pc \<Rightarrow> rsp\<lparr>pr_pred_taken := True, pr_pred_pc := target_pc, pr_jalr_ras_hit := True\<rparr>
     | None \<Rightarrow> (case bpu_jalr_btb_lookup_effective bpu update (pq_pc req) of
         Some target_pc \<Rightarrow> rsp\<lparr>pr_pred_taken := True, pr_pred_pc := target_pc, pr_jalr_btb_hit := True\<rparr>
       | None \<Rightarrow> rsp\<lparr>pr_jalr_btb_miss := True\<rparr>))"

definition bpu_reset :: "bpu \<Rightarrow> bpu" where
  "bpu_reset bpu = \<lparr>access_seq = 0,
     cond_bht = replicate BPU_COND_BHT_SIZE \<lparr>bht_vld = False, bht_counter = 0\<rparr>,
     jalr_btb = replicate BPU_JALR_BTB_SIZE \<lparr>btb_vld = False, btb_pc = 0, btb_target_pc = 0, btb_last_used = 0\<rparr>,
     bpu_ras_o = \<lparr>ras_entry = replicate BPU_RAS_SIZE 0, ras_sp = 0, ras_count = 0\<rparr>,
     bpu_perf_o = \<lparr>pf_branch = 0, pf_pred_true = 0, pf_cond_branch = 0, pf_cond_branch_pred_true = 0,
       pf_jal = 0, pf_jal_pred_true = 0, pf_jalr = 0, pf_jalr_pred_true = 0, pf_cond_bht_hit = 0,
       pf_ras_pred = 0, pf_jalr_ras_hit = 0, pf_jalr_btb_hit = 0, pf_jalr_btb_miss = 0\<rparr>\<rparr>"

definition bpu_clock :: "bpu \<Rightarrow> bpu_update \<Rightarrow> bpu" where
  "bpu_clock bpu update =
     (if \<not> bu_vld update then bpu
      else
      let opcode = inst_opcode (bu_ir update);
          perf = bpu_perf_o bpu;
          bpu = (if bu_is_boot_code update then bpu
            else bpu\<lparr>bpu_perf_o := (let perf = perf\<lparr>pf_branch := pf_branch perf + 1\<rparr> in
              if opcode = OPCODE_BRANCH then perf\<lparr>pf_cond_branch := pf_cond_branch perf + 1\<rparr>
              else if opcode = OPCODE_JAL then perf\<lparr>pf_jal := pf_jal perf + 1\<rparr>
              else if opcode = OPCODE_JALR then perf\<lparr>pf_jalr := pf_jalr perf + 1\<rparr>
              else perf)\<rparr>);
          bpu = bpu_update_ras (bpu_update_tables (bpu_update_pred_meta bpu update) update) update;
          perf = bpu_perf_o bpu
      in if \<not> bu_pred_true update \<or> bu_is_boot_code update then bpu
         else bpu\<lparr>bpu_perf_o := (let perf = perf\<lparr>pf_pred_true := pf_pred_true perf + 1\<rparr> in
           if opcode = OPCODE_BRANCH then perf\<lparr>pf_cond_branch_pred_true := pf_cond_branch_pred_true perf + 1\<rparr>
           else if opcode = OPCODE_JAL then perf\<lparr>pf_jal_pred_true := pf_jal_pred_true perf + 1\<rparr>
           else if opcode = OPCODE_JALR then perf\<lparr>pf_jalr_pred_true := pf_jalr_pred_true perf + 1\<rparr>
           else perf)\<rparr>)"

section \<open>The return address stack as a bounded stack\<close>

definition ras_inv :: "bpu_ras \<Rightarrow> bool" where
  "ras_inv ras \<longleftrightarrow> length (ras_entry ras) = BPU_RAS_SIZE \<and> ras_sp ras < BPU_RAS_SIZE \<and> ras_count ras \<le> BPU_RAS_SIZE"

text \<open>The addresses on the stack, the newest first.\<close>

definition ras_list :: "bpu_ras \<Rightarrow> u32 list" where
  "ras_list ras = map (\<lambda>i. ras_entry ras ! ((ras_sp ras + (15 - i)) mod BPU_RAS_SIZE)) [0..<ras_count ras]"

lemma ras_list_length [simp]: "length (ras_list ras) = ras_count ras"
  by (simp add: ras_list_def)

lemma ras_list_nth: "i < ras_count ras \<Longrightarrow> ras_list ras ! i = ras_entry ras ! ((ras_sp ras + (15 - i)) mod BPU_RAS_SIZE)"
  by (simp add: ras_list_def)

lemma ring16:
  assumes "sp < 16"
  shows "((sp + 1) mod 16 + 15) mod 16 = (sp :: nat)"
    "i < 15 \<Longrightarrow> ((sp + 1) mod 16 + (15 - Suc i)) mod 16 = (sp + (15 - i)) mod 16"
    "i < 15 \<Longrightarrow> (sp + (15 - i)) mod 16 \<noteq> sp"
    "i < 15 \<Longrightarrow> ((sp + 15) mod 16 + (15 - i)) mod 16 = (sp + (15 - Suc i)) mod 16"
proof -
  show "((sp + 1) mod 16 + 15) mod 16 = sp" using assms by (cases "sp = 15") simp_all
  show "((sp + 1) mod 16 + (15 - Suc i)) mod 16 = (sp + (15 - i)) mod 16" if "i < 15"
  proof -
    have "((sp + 1) mod 16 + (15 - Suc i)) mod 16 = (sp + 1 + (15 - Suc i)) mod 16" by (rule mod_add_left_eq)
    also have "sp + 1 + (15 - Suc i) = sp + (15 - i)" using that by simp
    finally show ?thesis .
  qed
  show "(sp + (15 - i)) mod 16 \<noteq> sp" if "i < 15"
  proof
    assume "(sp + (15 - i)) mod 16 = sp"
    then have "(sp + (15 - i)) mod 16 = (sp + 0) mod 16" using assms by simp
    moreover have "15 - i < 16" "15 - i \<noteq> 0" using that by linarith+
    ultimately show False using mod_add_inj [of sp "15 - i" 16 0] by simp
  qed
  show "((sp + 15) mod 16 + (15 - i)) mod 16 = (sp + (15 - Suc i)) mod 16" if "i < 15"
  proof -
    have "((sp + 15) mod 16 + (15 - i)) mod 16 = (sp + 15 + (15 - i)) mod 16" by (rule mod_add_left_eq)
    also have "sp + 15 + (15 - i) = sp + (15 - Suc i) + 16" using that by simp
    also have "\<dots> mod 16 = (sp + (15 - Suc i)) mod 16" by simp
    finally show ?thesis .
  qed
qed

lemma ras_push_list:
  assumes "ras_inv ras"
  shows "ras_list (bpu_ras_push ras pc) = take BPU_RAS_SIZE (pc # ras_list ras)"
proof (rule nth_equalityI)
  show "length (ras_list (bpu_ras_push ras pc)) = length (take BPU_RAS_SIZE (pc # ras_list ras))"
    using assms by (simp add: bpu_ras_push_def ras_inv_def)
next
  fix i assume "i < length (ras_list (bpu_ras_push ras pc))"
  then have i: "i < ras_count (bpu_ras_push ras pc)" "i < 16" using assms by (auto simp: bpu_ras_push_def ras_inv_def split: if_splits)
  show "ras_list (bpu_ras_push ras pc) ! i = take BPU_RAS_SIZE (pc # ras_list ras) ! i"
  proof (cases i)
    case 0
    with i ring16(1) [of "ras_sp ras"] assms show ?thesis
      by (simp add: ras_list_nth bpu_ras_push_def ras_inv_def)
  next
    case (Suc j)
    with i have j: "j < 15" "j < ras_count ras" by (auto simp: bpu_ras_push_def split: if_splits)
    have "ras_list (bpu_ras_push ras pc) ! i = (ras_entry ras)[ras_sp ras := pc] ! ((ras_sp ras + (15 - j)) mod 16)"
      using i Suc ring16(2) [of "ras_sp ras" j] j assms by (simp add: ras_list_nth bpu_ras_push_def ras_inv_def)
    also have "\<dots> = ras_list ras ! j"
      using ring16(3) [of "ras_sp ras" j] j assms by (simp add: ras_list_nth ras_inv_def)
    finally show ?thesis using Suc i by simp
  qed
qed

lemma ras_pop_list:
  assumes "ras_inv ras"
  shows "ras_list (bpu_ras_pop ras) = tl (ras_list ras)"
proof (rule nth_equalityI)
  show "length (ras_list (bpu_ras_pop ras)) = length (tl (ras_list ras))" by (simp add: bpu_ras_pop_def)
next
  fix i assume "i < length (ras_list (bpu_ras_pop ras))"
  then have i: "Suc i < ras_count ras" "ras_count ras \<noteq> 0" by (auto simp: bpu_ras_pop_def split: if_splits)
  with assms have "i < 15" by (simp add: ras_inv_def)
  with i ring16(4) [of "ras_sp ras" i] assms show "ras_list (bpu_ras_pop ras) ! i = tl (ras_list ras) ! i"
    by (simp add: nth_tl ras_list_nth bpu_ras_pop_def ras_inv_def add.commute)
qed

lemma ras_peek_list:
  assumes "ras_inv ras"
  shows "bpu_ras_peek ras = (case ras_list ras of [] \<Rightarrow> None | x # _ \<Rightarrow> Some x)"
proof (cases "ras_count ras = 0")
  case True
  then show ?thesis by (simp add: bpu_ras_peek_def ras_list_def)
next
  case False
  then have "ras_list ras \<noteq> []" by (simp add: ras_list_def)
  then obtain x xs where x: "ras_list ras = x # xs" by (cases "ras_list ras") auto
  then have "x = ras_list ras ! 0" by simp
  with False x show ?thesis by (simp add: ras_list_nth bpu_ras_peek_def add.commute)
qed

lemma ras_inv_ops: "ras_inv ras \<Longrightarrow> ras_inv (bpu_ras_push ras pc)" "ras_inv ras \<Longrightarrow> ras_inv (bpu_ras_pop ras)"
  by (auto simp: ras_inv_def bpu_ras_push_def bpu_ras_pop_def)

section \<open>Tables\<close>

text \<open>At most one valid entry of the target buffer per address.\<close>

definition btb_unique :: "btb_entry list \<Rightarrow> bool" where
  "btb_unique btb \<longleftrightarrow> (\<forall>i j. i < length btb \<and> j < length btb \<and> btb_vld (btb ! i) \<and> btb_vld (btb ! j)
     \<and> btb_pc (btb ! i) = btb_pc (btb ! j) \<longrightarrow> i = j)"

lemma btb_uniqueD: "btb_unique btb \<Longrightarrow> i < length btb \<Longrightarrow> j < length btb \<Longrightarrow> btb_vld (btb ! i) \<Longrightarrow> btb_vld (btb ! j)
    \<Longrightarrow> btb_pc (btb ! i) = btb_pc (btb ! j) \<Longrightarrow> i = j"
  unfolding btb_unique_def by blast

definition bpu_inv :: "bpu \<Rightarrow> bool" where
  "bpu_inv bpu \<longleftrightarrow> length (cond_bht bpu) = BPU_COND_BHT_SIZE \<and> length (jalr_btb bpu) = BPU_JALR_BTB_SIZE
     \<and> (\<forall>e\<in>set (cond_bht bpu). bht_counter e \<le> 3)
     \<and> btb_unique (jalr_btb bpu)
     \<and> ras_inv (bpu_ras_o bpu)"

lemma bht_idx_less: "bpu_cond_bht_idx pc < BPU_COND_BHT_SIZE"
proof -
  have "drop_bit 2 pc AND 511 = take_bit 9 (drop_bit 2 pc)"
    by (simp add: take_bit_eq_mask mask_eq_exp_minus_1)
  then show ?thesis by (simp add: bpu_cond_bht_idx_def unsigned_take_bit_eq take_bit_nat_less_exp [of 9, simplified])
qed

lemma sat_counter_le: "cnt \<le> 3 \<Longrightarrow> sat_counter_update cnt taken \<le> 3"
proof -
  assume le: "cnt \<le> 3"
  have "unat (cnt + 1) \<le> 3" if "cnt < 3" using that by (simp add: word_less_nat_alt unat_word_ariths)
  moreover have "unat (cnt - 1) \<le> 3" if "cnt > 0"
  proof -
    have "unat (cnt - 1) = unat cnt - 1" using that by (intro unat_minus_one) auto
    with le show ?thesis by (simp add: word_le_nat_alt)
  qed
  ultimately show ?thesis using le by (auto simp: sat_counter_update_def word_le_nat_alt)
qed

lemma btb_find_SomeD: "btb_find P btb = Some i \<Longrightarrow> i < BPU_JALR_BTB_SIZE \<and> P (btb ! i)"
  by (auto simp: btb_find_def dest: find_SomeD)

lemma btb_find_NoneD: "btb_find P btb = None \<Longrightarrow> i < BPU_JALR_BTB_SIZE \<Longrightarrow> \<not> P (btb ! i)"
  by (auto simp: btb_find_def find_None_iff)

lemma btb_lru_less: "fst (btb_lru btb n) \<le> n"
  by (induction n) (auto simp: case_prod_beta Let_def)

text \<open>With at most one entry per address, the lookup finds it wherever it is.\<close>

lemma btb_lookup_unique:
  assumes "btb_unique btb \<and> length btb = 64" and "i < 64" "btb_vld (btb ! i)" "btb_pc (btb ! i) = pc"
  shows "bpu_jalr_btb_lookup btb pc = Some (btb_target_pc (btb ! i))"
proof -
  have "btb_find (\<lambda>e. btb_vld e \<and> btb_pc e = pc) btb \<noteq> None"
  proof
    assume "btb_find (\<lambda>e. btb_vld e \<and> btb_pc e = pc) btb = None"
    from btb_find_NoneD [OF this assms(2)] assms(3,4) show False by simp
  qed
  then obtain j where j: "btb_find (\<lambda>e. btb_vld e \<and> btb_pc e = pc) btb = Some j" by auto
  from btb_find_SomeD [OF j] have "j < 64" "btb_vld (btb ! j) \<and> btb_pc (btb ! j) = pc" by simp_all
  with assms have "j = i" by (intro btb_uniqueD [of btb]) simp_all
  with j show ?thesis by (simp add: bpu_jalr_btb_lookup_def)
qed

lemma btb_lookup_none: "bpu_jalr_btb_lookup btb pc = None \<longleftrightarrow> (\<forall>i<64. \<not> (btb_vld (btb ! i) \<and> btb_pc (btb ! i) = pc))"
  by (auto simp: bpu_jalr_btb_lookup_def btb_find_def find_None_iff)

lemma btb_touch:
  assumes "bpu_inv bpu"
  shows "bpu_inv (bpu_jalr_btb_touch bpu pc)"
    "btb_pc (jalr_btb (bpu_jalr_btb_touch bpu pc) ! i) = btb_pc (jalr_btb bpu ! i)"
    "btb_vld (jalr_btb (bpu_jalr_btb_touch bpu pc) ! i) = btb_vld (jalr_btb bpu ! i)"
    "btb_target_pc (jalr_btb (bpu_jalr_btb_touch bpu pc) ! i) = btb_target_pc (jalr_btb bpu ! i)"
proof -
  have same: "btb_pc (jalr_btb (bpu_jalr_btb_touch bpu pc) ! i) = btb_pc (jalr_btb bpu ! i)
    \<and> btb_vld (jalr_btb (bpu_jalr_btb_touch bpu pc) ! i) = btb_vld (jalr_btb bpu ! i)
    \<and> btb_target_pc (jalr_btb (bpu_jalr_btb_touch bpu pc) ! i) = btb_target_pc (jalr_btb bpu ! i)" for i
  proof (cases "btb_find (\<lambda>e. btb_vld e \<and> btb_pc e = pc) (jalr_btb bpu)")
    case None
    then show ?thesis by (simp add: bpu_jalr_btb_touch_def Let_def)
  next
    case (Some j)
    with btb_find_SomeD [OF Some] assms show ?thesis
      by (cases "i = j") (simp_all add: bpu_jalr_btb_touch_def Let_def bpu_inv_def)
  qed
  then show "btb_pc (jalr_btb (bpu_jalr_btb_touch bpu pc) ! i) = btb_pc (jalr_btb bpu ! i)"
    "btb_vld (jalr_btb (bpu_jalr_btb_touch bpu pc) ! i) = btb_vld (jalr_btb bpu ! i)"
    "btb_target_pc (jalr_btb (bpu_jalr_btb_touch bpu pc) ! i) = btb_target_pc (jalr_btb bpu ! i)" by simp_all
  have "length (jalr_btb (bpu_jalr_btb_touch bpu pc)) = length (jalr_btb bpu)"
    "cond_bht (bpu_jalr_btb_touch bpu pc) = cond_bht bpu" "bpu_ras_o (bpu_jalr_btb_touch bpu pc) = bpu_ras_o bpu"
    by (simp_all add: bpu_jalr_btb_touch_def Let_def split: option.splits)
  with same assms show "bpu_inv (bpu_jalr_btb_touch bpu pc)" by (simp add: bpu_inv_def btb_unique_def)
qed

text \<open>The slot an update of the target buffer writes, and what it writes.\<close>

definition btb_slot :: "btb_entry list \<Rightarrow> u32 \<Rightarrow> nat" where
  "btb_slot btb pc = (case btb_find (\<lambda>e. btb_vld e \<and> btb_pc e = pc) btb of
     Some i \<Rightarrow> i
   | None \<Rightarrow> (case btb_find (\<lambda>e. \<not> btb_vld e) btb of Some i \<Rightarrow> i | None \<Rightarrow> fst (btb_lru btb 63)))"

lemma btb_slot_less: "btb_slot btb pc < 64"
  using btb_lru_less [of btb 63] by (auto simp: btb_slot_def dest: btb_find_SomeD split: option.splits)

lemma btb_update:
  assumes "bpu_inv bpu"
  shows "jalr_btb (bpu_update_jalr_btb bpu pc tgt) = (jalr_btb bpu)[btb_slot (jalr_btb bpu) pc :=
    \<lparr>btb_vld = True, btb_pc = pc, btb_target_pc = tgt, btb_last_used = access_seq bpu + 1\<rparr>]"
proof (cases "btb_find (\<lambda>e. btb_vld e \<and> btb_pc e = pc) (jalr_btb bpu)")
  case None
  then show ?thesis by (simp add: bpu_update_jalr_btb_def btb_slot_def Let_def split: option.splits)
next
  case (Some i)
  from btb_find_SomeD [OF Some]
  have "(jalr_btb bpu ! i)\<lparr>btb_target_pc := tgt, btb_last_used := access_seq bpu + 1\<rparr>
      = \<lparr>btb_vld = True, btb_pc = pc, btb_target_pc = tgt, btb_last_used = access_seq bpu + 1\<rparr>"
    by (cases "jalr_btb bpu ! i") simp
  with Some show ?thesis by (simp add: bpu_update_jalr_btb_def btb_slot_def Let_def)
qed

lemma btb_slot_unique:
  assumes "bpu_inv bpu" "i < 64" "btb_vld (jalr_btb bpu ! i)" "btb_pc (jalr_btb bpu ! i) = pc"
  shows "btb_slot (jalr_btb bpu) pc = i"
proof (cases "btb_find (\<lambda>e. btb_vld e \<and> btb_pc e = pc) (jalr_btb bpu)")
  case None
  from btb_find_NoneD [OF None assms(2)] assms(3,4) show ?thesis by simp
next
  case (Some j)
  from btb_find_SomeD [OF Some] have "j < 64" "btb_vld (jalr_btb bpu ! j)" "btb_pc (jalr_btb bpu ! j) = pc" by simp_all
  with assms have "j = i" by (intro btb_uniqueD [of "jalr_btb bpu"]) (simp_all add: bpu_inv_def)
  with Some show ?thesis by (simp add: btb_slot_def)
qed

lemma btb_update_frame:
  "cond_bht (bpu_update_jalr_btb bpu pc tgt) = cond_bht bpu" "bpu_ras_o (bpu_update_jalr_btb bpu pc tgt) = bpu_ras_o bpu"
  by (simp_all add: bpu_update_jalr_btb_def Let_def split: option.splits)

lemma btb_unique_update:
  assumes u: "btb_unique btb" and s: "s < length btb"
    and other: "\<And>k. k < length btb \<Longrightarrow> btb_vld (btb ! k) \<Longrightarrow> btb_pc (btb ! k) = btb_pc e \<Longrightarrow> k = s"
  shows "btb_unique (btb[s := e])"
  unfolding btb_unique_def
proof (intro allI impI, elim conjE)
  fix i j
  assume len: "i < length (btb[s := e])" "j < length (btb[s := e])"
    and v: "btb_vld (btb[s := e] ! i)" "btb_vld (btb[s := e] ! j)"
    and pc: "btb_pc (btb[s := e] ! i) = btb_pc (btb[s := e] ! j)"
  show "i = j"
  proof (cases "i = s"; cases "j = s")
    assume "i = s" "j \<noteq> s"
    with len v pc s other [of j] show ?thesis by simp
  next
    assume "i \<noteq> s" "j = s"
    with len v pc s other [of i] show ?thesis by simp
  next
    assume "i \<noteq> s" "j \<noteq> s"
    with len v pc btb_uniqueD [OF u, of i j] show ?thesis by simp
  qed simp
qed

lemma btb_update_inv:
  assumes "bpu_inv bpu"
  shows "bpu_inv (bpu_update_jalr_btb bpu pc tgt)"
proof -
  have len: "length (jalr_btb bpu) = 64" and u: "btb_unique (jalr_btb bpu)" using assms by (simp_all add: bpu_inv_def)
  have "btb_unique (jalr_btb (bpu_update_jalr_btb bpu pc tgt))" unfolding btb_update [OF assms]
  proof (rule btb_unique_update [OF u])
    show "btb_slot (jalr_btb bpu) pc < length (jalr_btb bpu)" using btb_slot_less len by simp
    show "k = btb_slot (jalr_btb bpu) pc"
      if "k < length (jalr_btb bpu)" "btb_vld (jalr_btb bpu ! k)"
        "btb_pc (jalr_btb bpu ! k) = btb_pc \<lparr>btb_vld = True, btb_pc = pc, btb_target_pc = tgt, btb_last_used = access_seq bpu + 1\<rparr>" for k
      using btb_slot_unique [OF assms, of k pc] that len by simp
  qed
  moreover have "length (jalr_btb (bpu_update_jalr_btb bpu pc tgt)) = 64" by (simp add: btb_update [OF assms] len)
  ultimately show ?thesis using assms unfolding bpu_inv_def btb_update_frame by blast
qed

section \<open>The whole unit\<close>

text \<open>What predictions depend on: the three tables, not the counters or the use stamps.\<close>

lemma bpu_perf_inv [simp]: "bpu_inv (bpu\<lparr>bpu_perf_o := p\<rparr>) = bpu_inv bpu"
  by (simp add: bpu_inv_def)

lemma pred_meta_inv: "bpu_inv bpu \<Longrightarrow> bpu_inv (bpu_update_pred_meta bpu update)"
  by (simp add: bpu_update_pred_meta_def Let_def btb_touch(1))

lemma bht_update_inv:
  assumes "bpu_inv bpu" "bht_counter e \<le> 3"
  shows "bpu_inv (bpu\<lparr>cond_bht := (cond_bht bpu)[idx := e]\<rparr>)"
  using assms set_update_subset_insert [of "cond_bht bpu" idx e] unfolding bpu_inv_def by auto

lemma tables_inv:
  assumes inv: "bpu_inv bpu"
  shows "bpu_inv (bpu_update_tables bpu update)"
proof -
  let ?e = "cond_bht bpu ! bpu_cond_bht_idx (bu_pc update)"
  have "?e \<in> set (cond_bht bpu)" using inv bht_idx_less by (simp add: bpu_inv_def)
  with inv have "bht_counter ?e \<le> 3" by (simp add: bpu_inv_def)
  then have "bht_counter (if \<not> bht_vld ?e then \<lparr>bht_vld = True, bht_counter = (if bu_taken update then 2 else 1)\<rparr>
         else ?e\<lparr>bht_counter := sat_counter_update (bht_counter ?e) (bu_taken update)\<rparr>) \<le> 3"
    using sat_counter_le by (simp add: word_le_nat_alt)
  from bht_update_inv [OF inv this] btb_update_inv [OF inv] inv show ?thesis
    by (simp add: bpu_update_tables_def Let_def)
qed

lemma ras_state_inv: "ras_inv ras \<Longrightarrow> ras_inv (bpu_update_ras_state ras update)"
  by (simp add: bpu_update_ras_state_def Let_def ras_inv_ops)

lemma ras_update_inv: "bpu_inv bpu \<Longrightarrow> bpu_inv (bpu_update_ras bpu update)"
  by (simp add: bpu_inv_def bpu_update_ras_def ras_state_inv)

lemma bpu_clock_inv: "bpu_inv bpu \<Longrightarrow> bpu_inv (bpu_clock bpu update)"
  by (simp add: bpu_clock_def Let_def ras_update_inv tables_inv pred_meta_inv)

lemma bpu_reset_inv: "bpu_inv (bpu_reset bpu)"
  by (auto simp: bpu_inv_def bpu_reset_def btb_unique_def ras_inv_def)

text \<open>The unit after a sequence of updates, one per clock tick.\<close>

definition bpu_run :: "bpu_update list \<Rightarrow> bpu \<Rightarrow> bpu" where
  "bpu_run us bpu = foldl bpu_clock bpu us"

lemma bpu_run_simps [simp]:
  "bpu_run [] bpu = bpu" "bpu_run (u # us) bpu = bpu_run us (bpu_clock bpu u)"
  "bpu_run (us @ vs) bpu = bpu_run vs (bpu_run us bpu)"
  by (simp_all add: bpu_run_def)

lemma bpu_run_inv: "bpu_inv bpu \<Longrightarrow> bpu_inv (bpu_run us bpu)"
  by (induction us arbitrary: bpu) (simp_all add: bpu_clock_inv)

lemma tables_ras [simp]: "bpu_ras_o (bpu_update_tables bpu update) = bpu_ras_o bpu"
  by (simp add: bpu_update_tables_def Let_def btb_update_frame)

lemma meta_frame [simp]:
  "bpu_ras_o (bpu_update_pred_meta bpu update) = bpu_ras_o bpu" "cond_bht (bpu_update_pred_meta bpu update) = cond_bht bpu"
  by (simp_all add: bpu_update_pred_meta_def bpu_jalr_btb_touch_def Let_def split: option.splits)

lemma clock_ras: "bu_vld u \<Longrightarrow> bpu_ras_o (bpu_clock bpu u) = bpu_update_ras_state (bpu_ras_o bpu) u"
  by (simp add: bpu_clock_def Let_def bpu_update_ras_def)

section \<open>Calls and returns\<close>

definition is_call :: "bpu_update \<Rightarrow> bool" where
  "is_call u \<longleftrightarrow> bu_vld u \<and> bpu_is_link_reg (inst_rd (bu_ir u))
     \<and> (inst_opcode (bu_ir u) = OPCODE_JAL \<or> inst_opcode (bu_ir u) = OPCODE_JALR \<and> \<not> bpu_is_link_reg (inst_rs1 (bu_ir u)))"

definition is_ret_ir :: "u32 \<Rightarrow> bool" where
  "is_ret_ir ir \<longleftrightarrow> inst_opcode ir = OPCODE_JALR \<and> bpu_is_link_reg (inst_rs1 ir) \<and> \<not> bpu_is_link_reg (inst_rd ir)"

definition is_ret :: "bpu_update \<Rightarrow> bool" where
  "is_ret u \<longleftrightarrow> bu_vld u \<and> is_ret_ir (bu_ir u)"

definition is_plain :: "bpu_update \<Rightarrow> bool" where
  "is_plain u \<longleftrightarrow> \<not> bu_vld u \<or> inst_opcode (bu_ir u) \<noteq> OPCODE_JAL \<and> inst_opcode (bu_ir u) \<noteq> OPCODE_JALR
     \<or> \<not> bpu_is_link_reg (inst_rd (bu_ir u)) \<and> \<not> (inst_opcode (bu_ir u) = OPCODE_JALR \<and> bpu_is_link_reg (inst_rs1 (bu_ir u)))"

text \<open>Update sequences in which every call returns, with calls nested at most \<open>n\<close> deep.\<close>

inductive balanced :: "nat \<Rightarrow> bpu_update list \<Rightarrow> bool" where
  bal_nil: "balanced n []"
| bal_plain: "is_plain u \<Longrightarrow> balanced n us \<Longrightarrow> balanced n (u # us)"
| bal_call: "is_call u \<Longrightarrow> balanced n us \<Longrightarrow> is_ret v \<Longrightarrow> balanced (Suc n) vs \<Longrightarrow> balanced (Suc n) (u # us @ v # vs)"

abbreviation bpu_stack :: "bpu \<Rightarrow> u32 list" where
  "bpu_stack bpu \<equiv> ras_list (bpu_ras_o bpu)"

lemma bpu_inv_ras: "bpu_inv bpu \<Longrightarrow> ras_inv (bpu_ras_o bpu)"
  by (simp add: bpu_inv_def)

lemma clock_call: "bpu_inv bpu \<Longrightarrow> is_call u \<Longrightarrow> bpu_stack (bpu_clock bpu u) = take 16 ((bu_pc u + 4) # bpu_stack bpu)"
  using ras_push_list [OF bpu_inv_ras] by (auto simp: is_call_def clock_ras bpu_update_ras_state_def Let_def)

lemma clock_ret: "bpu_inv bpu \<Longrightarrow> is_ret u \<Longrightarrow> bpu_stack (bpu_clock bpu u) = tl (bpu_stack bpu)"
  using ras_pop_list [OF bpu_inv_ras] by (auto simp: is_ret_def is_ret_ir_def clock_ras bpu_update_ras_state_def Let_def)

lemma clock_plain: "is_plain u \<Longrightarrow> bpu_ras_o (bpu_clock bpu u) = bpu_ras_o bpu"
proof (cases "bu_vld u")
  case True
  then show "is_plain u \<Longrightarrow> ?thesis" by (auto simp: is_plain_def clock_ras bpu_update_ras_state_def Let_def)
qed (simp add: bpu_clock_def)

text \<open>A balanced sequence leaves the newest \<open>16 - n\<close> addresses of the stack in place.\<close>

lemma balanced_stack:
  assumes "balanced n us" "bpu_inv bpu" "n \<le> 16"
  shows "take (16 - n) (bpu_stack (bpu_run us bpu)) = take (16 - n) (bpu_stack bpu)"
  using assms
proof (induction arbitrary: bpu rule: balanced.induct)
  case (bal_plain u n us)
  then show ?case by (simp add: clock_plain bpu_clock_inv)
next
  case (bal_call u n us v vs)
  let ?b1 = "bpu_clock bpu u" and ?b2 = "bpu_run us (bpu_clock bpu u)"
  note inv1 = bpu_clock_inv [OF bal_call.prems(1), of u]
  note inv2 = bpu_run_inv [OF inv1, of us]
  have n: "16 - n = Suc (16 - Suc n)" "n \<le> 16" using bal_call.prems(2) by simp_all
  have "take (16 - Suc n) (bpu_stack (bpu_run vs (bpu_clock ?b2 v))) = take (16 - Suc n) (bpu_stack (bpu_clock ?b2 v))"
    using bal_call.IH(2) bpu_clock_inv [OF inv2] bal_call.prems(2) by blast
  also have "\<dots> = tl (take (16 - n) (bpu_stack ?b2))"
    by (simp add: clock_ret [OF inv2 bal_call.hyps(3)] n(1) take_Suc tl_take)
  also have "take (16 - n) (bpu_stack ?b2) = take (16 - n) (bpu_stack ?b1)" by (rule bal_call.IH(1) [OF inv1 n(2)])
  also have "\<dots> = (bu_pc u + 4) # take (16 - Suc n) (bpu_stack bpu)"
    by (simp add: clock_call [OF bal_call.prems(1) bal_call.hyps(1)] n(1) min_def)
  finally show ?case by simp
qed simp

text \<open>An update signal that carries nothing.\<close>

definition no_update :: bpu_update where
  "no_update = \<lparr>bu_vld = False, bu_pc = 0, bu_ir = 0, bu_taken = False, bu_target_pc = 0, bu_pred_taken = False, bu_pred_pc = 0,
     bu_pred_true = False, bu_is_boot_code = False, bu_pred_cond_bht_hit = False, bu_pred_jalr_ras_hit = False,
     bu_pred_jalr_btb_hit = False, bu_pred_jalr_btb_miss = False\<rparr>"

lemma no_update_vld [simp]: "\<not> bu_vld no_update"
  by (simp add: no_update_def)

lemma eval_ret:
  assumes "bpu_inv bpu" "pq_vld req" "is_ret_ir (pq_ir req)" "\<not> bu_vld upd" "bpu_stack bpu = x # xs"
  shows "pr_pred_taken (bpu_eval_pred_req bpu upd req)" "pr_pred_pc (bpu_eval_pred_req bpu upd req) = x"
    "pr_jalr_ras_hit (bpu_eval_pred_req bpu upd req)"
  using assms ras_peek_list [OF bpu_inv_ras [OF assms(1)]]
  by (simp_all add: bpu_eval_pred_req_def Let_def is_ret_ir_def bpu_jalr_reads_ras_def bpu_ras_apply_effective_update_def)

section \<open>Forwarding of the waiting update\<close>

lemma clock_bht:
  assumes "bpu_inv bpu"
  shows "bpu_cond_bht_lookup_effective (bpu_clock bpu u) no_update pc = bpu_cond_bht_lookup_effective bpu u pc"
proof -
  have len: "bpu_cond_bht_idx pc < length (cond_bht bpu)" "bpu_cond_bht_idx (bu_pc u) < length (cond_bht bpu)"
    using assms bht_idx_less by (simp_all add: bpu_inv_def)
  have "cond_bht (bpu_clock bpu u) = (if bu_vld u then cond_bht (bpu_update_tables bpu u) else cond_bht bpu)"
    by (simp add: bpu_clock_def Let_def bpu_update_ras_def bpu_update_tables_def btb_update_frame)
  with len show ?thesis
    by (auto simp: bpu_cond_bht_lookup_effective_def bpu_update_is_opcode_def Let_def bpu_update_tables_def btb_update_frame)
qed

text \<open>The address whose entry an update of the target buffer pushes out, if any.\<close>

definition btb_evicted :: "bpu \<Rightarrow> bpu_update \<Rightarrow> u32 option" where
  "btb_evicted bpu u = (let e = jalr_btb bpu ! btb_slot (jalr_btb bpu) (bu_pc u) in
     if bpu_update_is_opcode u OPCODE_JALR \<and> btb_vld e \<and> btb_pc e \<noteq> bu_pc u then Some (btb_pc e) else None)"

lemma touch_find: "bpu_inv bpu \<Longrightarrow>
  btb_find (\<lambda>e. btb_vld e \<and> btb_pc e = pc) (jalr_btb (bpu_jalr_btb_touch bpu pc')) = btb_find (\<lambda>e. btb_vld e \<and> btb_pc e = pc) (jalr_btb bpu)"
  by (simp add: btb_find_def btb_touch)

lemma touch_lookup: "bpu_inv bpu \<Longrightarrow> bpu_jalr_btb_lookup (jalr_btb (bpu_jalr_btb_touch bpu pc')) pc = bpu_jalr_btb_lookup (jalr_btb bpu) pc"
  unfolding bpu_jalr_btb_lookup_def touch_find by (simp add: btb_touch)

text \<open>Touching the entry of the updated address does not change which slot the update writes.\<close>

lemma touch_slot:
  assumes "bpu_inv bpu"
  shows "btb_slot (jalr_btb (bpu_jalr_btb_touch bpu pc)) pc = btb_slot (jalr_btb bpu) pc"
proof (cases "btb_find (\<lambda>e. btb_vld e \<and> btb_pc e = pc) (jalr_btb bpu)")
  case None
  then show ?thesis by (simp add: bpu_jalr_btb_touch_def Let_def)
next
  case (Some i)
  then show ?thesis by (simp add: btb_slot_def touch_find [OF assms])
qed

lemma update_lookup:
  assumes inv: "bpu_inv bpu"
    and ev: "pc = upc \<or> \<not> (btb_vld (jalr_btb bpu ! btb_slot (jalr_btb bpu) upc) \<and> btb_pc (jalr_btb bpu ! btb_slot (jalr_btb bpu) upc) = pc)"
  shows "bpu_jalr_btb_lookup (jalr_btb (bpu_update_jalr_btb bpu upc tgt)) pc =
    (if pc = upc then Some tgt else bpu_jalr_btb_lookup (jalr_btb bpu) pc)"
proof -
  define s where "s = btb_slot (jalr_btb bpu) upc"
  define e where "e = \<lparr>btb_vld = True, btb_pc = upc, btb_target_pc = tgt, btb_last_used = access_seq bpu + 1\<rparr>"
  have btb: "jalr_btb (bpu_update_jalr_btb bpu upc tgt) = (jalr_btb bpu)[s := e]" unfolding s_def e_def by (rule btb_update [OF inv])
  have len: "length (jalr_btb bpu) = 64" and s: "s < 64" using inv btb_slot_less by (simp_all add: bpu_inv_def s_def)
  have inv': "btb_unique ((jalr_btb bpu)[s := e]) \<and> length ((jalr_btb bpu)[s := e]) = 64"
    using btb_update_inv [OF inv, of upc tgt] unfolding bpu_inv_def btb by simp
  show ?thesis
  proof (cases "pc = upc")
    case True
    then show ?thesis unfolding btb using btb_lookup_unique [OF inv' s] s len by (simp add: e_def)
  next
    case False
    have at_s: "btb_pc ((jalr_btb bpu)[s := e] ! s) \<noteq> pc" using s len False by (simp add: e_def)
    have old_s: "\<not> (btb_vld (jalr_btb bpu ! s) \<and> btb_pc (jalr_btb bpu ! s) = pc)" using ev False by (simp add: s_def)
    have "(btb_vld ((jalr_btb bpu)[s := e] ! i) \<and> btb_pc ((jalr_btb bpu)[s := e] ! i) = pc) = (btb_vld (jalr_btb bpu ! i) \<and> btb_pc (jalr_btb bpu ! i) = pc)" for i
      using at_s old_s by (cases "i = s") auto
    then have f: "btb_find (\<lambda>e. btb_vld e \<and> btb_pc e = pc) ((jalr_btb bpu)[s := e]) = btb_find (\<lambda>e. btb_vld e \<and> btb_pc e = pc) (jalr_btb bpu)"
      by (simp add: btb_find_def)
    show ?thesis
    proof (cases "btb_find (\<lambda>e. btb_vld e \<and> btb_pc e = pc) (jalr_btb bpu)")
      case (Some i)
      with btb_find_SomeD [OF Some] old_s have "i \<noteq> s" by auto
      with False Some f show ?thesis unfolding btb by (simp add: bpu_jalr_btb_lookup_def)
    next
      case None
      with False f show ?thesis unfolding btb by (simp add: bpu_jalr_btb_lookup_def)
    qed
  qed
qed

text \<open>The event counters do not take part in any update of the tables.\<close>

lemma perf_commute:
  "bpu_jalr_btb_touch (bpu\<lparr>bpu_perf_o := p\<rparr>) pc = (bpu_jalr_btb_touch bpu pc)\<lparr>bpu_perf_o := p\<rparr>"
  "bpu_update_jalr_btb (bpu\<lparr>bpu_perf_o := p\<rparr>) pc tgt = (bpu_update_jalr_btb bpu pc tgt)\<lparr>bpu_perf_o := p\<rparr>"
  "bpu_update_tables (bpu\<lparr>bpu_perf_o := p\<rparr>) u = (bpu_update_tables bpu u)\<lparr>bpu_perf_o := p\<rparr>"
proof -
  show 1: "bpu_jalr_btb_touch (bpu\<lparr>bpu_perf_o := p\<rparr>) pc = (bpu_jalr_btb_touch bpu pc)\<lparr>bpu_perf_o := p\<rparr>" for bpu
    by (simp add: bpu_jalr_btb_touch_def Let_def split: option.splits)
  show 2: "bpu_update_jalr_btb (bpu\<lparr>bpu_perf_o := p\<rparr>) pc tgt = (bpu_update_jalr_btb bpu pc tgt)\<lparr>bpu_perf_o := p\<rparr>" for pc tgt
    by (simp add: bpu_update_jalr_btb_def Let_def split: option.splits)
  show "bpu_update_tables (bpu\<lparr>bpu_perf_o := p\<rparr>) u = (bpu_update_tables bpu u)\<lparr>bpu_perf_o := p\<rparr>"
    by (simp add: bpu_update_tables_def Let_def 2)
qed

lemma meta_eq: "\<exists>p. bpu_update_pred_meta bpu u = (if bu_pred_jalr_btb_hit u then bpu_jalr_btb_touch bpu (bu_pc u) else bpu)\<lparr>bpu_perf_o := p\<rparr>"
  unfolding bpu_update_pred_meta_def Let_def perf_commute
  by (cases "bu_pred_jalr_btb_hit u") (simp_all only: if_True if_False, blast+)

lemma meta_btb: "jalr_btb (bpu_update_tables (bpu_update_pred_meta (bpu\<lparr>bpu_perf_o := p\<rparr>) u) u)
    = jalr_btb (bpu_update_tables (if bu_pred_jalr_btb_hit u then bpu_jalr_btb_touch bpu (bu_pc u) else bpu) u)"
  using meta_eq [of "bpu\<lparr>bpu_perf_o := p\<rparr>" u] by (auto simp: perf_commute)

lemma clock_btb:
  "jalr_btb (bpu_clock bpu u) = (if \<not> bu_vld u then jalr_btb bpu
     else jalr_btb (bpu_update_tables (if bu_pred_jalr_btb_hit u then bpu_jalr_btb_touch bpu (bu_pc u) else bpu) u))"
proof (cases "bu_is_boot_code u")
  case True
  with meta_btb [where bpu = bpu and p = "bpu_perf_o bpu" and u = u] show ?thesis by (simp add: bpu_clock_def Let_def bpu_update_ras_def)
next
  case False
  then show ?thesis by (simp add: bpu_clock_def Let_def bpu_update_ras_def meta_btb)
qed

lemma clock_lookup:
  assumes inv: "bpu_inv bpu" and ev: "btb_evicted bpu u \<noteq> Some pc"
  shows "bpu_jalr_btb_lookup (jalr_btb (bpu_clock bpu u)) pc = bpu_jalr_btb_lookup_effective bpu u pc"
proof -
  let ?b = "if bu_pred_jalr_btb_hit u then bpu_jalr_btb_touch bpu (bu_pc u) else bpu"
  have invb: "bpu_inv ?b" using inv by (simp add: btb_touch(1))
  have look: "bpu_jalr_btb_lookup (jalr_btb ?b) pc = bpu_jalr_btb_lookup (jalr_btb bpu) pc" by (simp add: touch_lookup [OF inv])
  have slot: "btb_slot (jalr_btb ?b) (bu_pc u) = btb_slot (jalr_btb bpu) (bu_pc u)" by (simp add: touch_slot [OF inv])
  have same: "btb_vld (jalr_btb ?b ! i) = btb_vld (jalr_btb bpu ! i)" "btb_pc (jalr_btb ?b ! i) = btb_pc (jalr_btb bpu ! i)" for i
    by (simp_all add: btb_touch [OF inv])
  show ?thesis
  proof (cases "bpu_update_is_opcode u OPCODE_JALR")
    case False
    then have "jalr_btb (bpu_clock bpu u) = (if bu_vld u then jalr_btb ?b else jalr_btb bpu)"
      by (auto simp: clock_btb bpu_update_is_opcode_def bpu_update_tables_def Let_def split: if_splits)
    with False look show ?thesis by (simp add: bpu_jalr_btb_lookup_effective_def)
  next
    case True
    then have "jalr_btb (bpu_clock bpu u) = jalr_btb (bpu_update_jalr_btb ?b (bu_pc u) (bu_target_pc u))"
      by (auto simp: clock_btb bpu_update_is_opcode_def bpu_update_tables_def Let_def split: if_splits)
    moreover have "pc = bu_pc u \<or> \<not> (btb_vld (jalr_btb ?b ! btb_slot (jalr_btb ?b) (bu_pc u)) \<and> btb_pc (jalr_btb ?b ! btb_slot (jalr_btb ?b) (bu_pc u)) = pc)"
      using ev True unfolding slot same btb_evicted_def Let_def by auto
    ultimately show ?thesis using update_lookup [OF invb, of pc "bu_pc u" "bu_target_pc u"] look True
      by (simp add: bpu_jalr_btb_lookup_effective_def eq_commute)
  qed
qed

lemma clock_ras_effective: "bpu_ras_o (bpu_clock bpu u) = bpu_ras_apply_effective_update (bpu_ras_o bpu) u"
  by (simp add: bpu_ras_apply_effective_update_def clock_ras) (simp add: bpu_clock_def)

lemma idle_effective: "bpu_ras_apply_effective_update ras no_update = ras"
  "bpu_jalr_btb_lookup_effective bpu no_update pc = bpu_jalr_btb_lookup (jalr_btb bpu) pc"
  by (simp_all add: bpu_ras_apply_effective_update_def bpu_jalr_btb_lookup_effective_def bpu_update_is_opcode_def)

section \<open>Properties\<close>

text \<open>
  C38. A prediction asked for while an outcome is still waiting on the update signal is the
  prediction the unit gives after the clock tick that applies it, for every kind of control
  transfer: the forwarding paths (counter, target buffer, return stack) agree with the tables.
  The only case left out is the one in which the waiting update evicts the entry of the
  requested address from the target buffer.
\<close>

theorem bpu_forwarding_agrees:
  assumes "bpu_inv bpu" and "btb_evicted bpu u \<noteq> Some (pq_pc req)"
  shows "bpu_eval_pred_req bpu u req = bpu_eval_pred_req (bpu_clock bpu u) no_update req"
  unfolding bpu_eval_pred_req_def Let_def clock_bht [OF assms(1)] idle_effective clock_lookup [OF assms] clock_ras_effective ..

definition bpu_sample_update :: bpu_update where
  "bpu_sample_update = no_update\<lparr>bu_vld := True, bu_pc := 0x1000, bu_ir := 0x000500E7, bu_taken := True, bu_target_pc := 0x2000\<rparr>"

theorem bpu_forwarding_agrees_witness:
  "btb_evicted (bpu_reset undefined) bpu_sample_update \<noteq> Some 0x1000
   \<and> bpu_eval_pred_req (bpu_reset undefined) bpu_sample_update \<lparr>pq_vld = True, pq_pc = 0x1000, pq_ir = 0x000500E7\<rparr>
     = bpu_eval_pred_req (bpu_clock (bpu_reset undefined) bpu_sample_update) no_update \<lparr>pq_vld = True, pq_pc = 0x1000, pq_ir = 0x000500E7\<rparr>"
proof -
  have "btb_vld (jalr_btb (bpu_reset undefined) ! i) = False" if "i < 64" for i using that by (simp add: bpu_reset_def)
  then have ev: "btb_evicted (bpu_reset undefined) bpu_sample_update \<noteq> Some 0x1000"
    by (simp add: btb_evicted_def Let_def btb_slot_less)
  with bpu_forwarding_agrees [OF bpu_reset_inv, of undefined bpu_sample_update "\<lparr>pq_vld = True, pq_pc = 0x1000, pq_ir = 0x000500E7\<rparr>"]
  show ?thesis by simp
qed

text \<open>
  C39. A return is predicted to go back to its call: whatever the state of the unit, after a
  call has been applied and then any number of further updates in which every call returns and
  calls nest at most fifteen deep, the prediction for a return instruction is taken, comes from
  the return stack and is the address after the call.
\<close>

theorem bpu_return_predicted:
  assumes "bpu_inv bpu" and "is_call u" and "balanced n us" and "n < 16" and "pq_vld req" and "is_ret_ir (pq_ir req)"
  shows "let rsp = bpu_eval_pred_req (bpu_run (u # us) bpu) no_update req
    in pr_pred_taken rsp \<and> pr_jalr_ras_hit rsp \<and> pr_pred_pc rsp = bu_pc u + 4"
proof -
  let ?b1 = "bpu_clock bpu u" and ?b2 = "bpu_run us (bpu_clock bpu u)"
  note inv1 = bpu_clock_inv [OF assms(1), of u]
  have "take (16 - n) (bpu_stack ?b2) = take (16 - n) (bpu_stack ?b1)"
    using balanced_stack [OF assms(3) inv1] assms(4) by simp
  moreover have "16 - n = Suc (15 - n)" using assms(4) by simp
  ultimately have "take (Suc (15 - n)) (bpu_stack ?b2) = (bu_pc u + 4) # take (15 - n) (bpu_stack bpu)"
    by (simp add: clock_call [OF assms(1,2)] min_def)
  then obtain xs where "bpu_stack ?b2 = (bu_pc u + 4) # xs" by (cases "bpu_stack ?b2") auto
  from eval_ret [OF bpu_run_inv [OF inv1] assms(5,6) no_update_vld this] show ?thesis by (simp add: Let_def)
qed

theorem bpu_return_predicted_witness:
  "let rsp = bpu_eval_pred_req (bpu_run [bpu_sample_update, bpu_sample_update, bpu_sample_update\<lparr>bu_ir := 0x00008067\<rparr>] (bpu_reset undefined)) no_update
     \<lparr>pq_vld = True, pq_pc = 0x2004, pq_ir = 0x00008067\<rparr>
   in pr_pred_taken rsp \<and> pr_jalr_ras_hit rsp \<and> pr_pred_pc rsp = bu_pc bpu_sample_update + 4"
proof -
  have call: "is_call bpu_sample_update" by code_simp
  have ret: "is_ret (bpu_sample_update\<lparr>bu_ir := 0x00008067\<rparr>)" "is_ret_ir 0x00008067" by code_simp+
  have "balanced 1 [bpu_sample_update, bpu_sample_update\<lparr>bu_ir := 0x00008067\<rparr>]"
    using bal_call [OF call bal_nil ret(1) bal_nil, of 0] by simp
  from bpu_return_predicted [OF bpu_reset_inv call this] ret show ?thesis by simp
qed

text \<open>
  In every state the unit reaches from reset, the branch counters are at most three, the
  target buffer holds at most one valid entry per address, and the stack pointer and count of the
  return stack are in range.
\<close>

theorem bpu_invariant: "bpu_inv (bpu_run us (bpu_reset bpu))"
  by (rule bpu_run_inv [OF bpu_reset_inv])

end
