(* ===== verification/OstSlots.thy ===== *)
theory OstSlots
  imports Ost
begin

text \<open>
  How the clients of the in-order table use it (\<^verbatim>\<open>hbi.c\<close>, \<^verbatim>\<open>lsu.c\<close>, \<^verbatim>\<open>mmu.c\<close>): they look for the
  oldest live slot whose context satisfies a condition, update it in place, and free the head
  when its context says it is complete. A slot that was freed in the current clock tick is no
  longer live. The lemmas give every operation as an operation on the list of live contexts.
\<close>

section \<open>The search loop\<close>

fun ostq_find_loop :: "('c \<Rightarrow> bool) \<Rightarrow> 'c ostq \<Rightarrow> nat list \<Rightarrow> (nat \<times> 'c) option option" where
  "ostq_find_loop P ost [] = Some None"
| "ostq_find_loop P ost (i # is) = do {
     let idx = (q_rptr ost + i) mod q_depth ost;
     ok \<leftarrow> ostq_slot_valid ost idx;
     if \<not> ok then ostq_find_loop P ost is
     else do {
       cur \<leftarrow> ostq_read_slot ost idx;
       if \<not> P cur then ostq_find_loop P ost is else Some (Some (idx, cur))
     }
   }"

definition ostq_find :: "('c \<Rightarrow> bool) \<Rightarrow> 'c ostq \<Rightarrow> (nat \<times> 'c) option option" where
  "ostq_find P ost = ostq_find_loop P ost [0..<q_depth ost]"

section \<open>Live contexts\<close>

definition ostq_live :: "'c ostq \<Rightarrow> 'c list" where
  "ostq_live ost = (if ostq_head_freed ost then tl (ostq_list ost) else ostq_list ost)"

definition ostq_off :: "'c ostq \<Rightarrow> nat" where
  "ostq_off ost = (if ostq_head_freed ost then 1 else 0)"

definition ostq_slot :: "'c ostq \<Rightarrow> nat \<Rightarrow> nat" where
  "ostq_slot ost k = (q_rptr ost + (ostq_off ost + k)) mod q_depth ost"

fun find_idx :: "('a \<Rightarrow> bool) \<Rightarrow> 'a list \<Rightarrow> nat option" where
  "find_idx P [] = None"
| "find_idx P (x # xs) = (if P x then Some 0 else map_option Suc (find_idx P xs))"

lemma find_idx_SomeD: "find_idx P xs = Some k \<Longrightarrow> k < length xs \<and> P (xs ! k) \<and> (\<forall>j<k. \<not> P (xs ! j))"
proof (induction xs arbitrary: k)
  case (Cons x xs)
  then show ?case by (cases k) (auto split: if_splits simp: less_Suc_eq_0_disj)
qed simp

lemma find_idx_None: "find_idx P xs = None \<longleftrightarrow> (\<forall>x\<in>set xs. \<not> P x)"
  by (induction xs) auto

lemma ostq_count_live: "ostq_inv ost \<Longrightarrow> q_count ost = length (ostq_live ost) + ostq_off ost"
  by (auto simp: ostq_live_def ostq_off_def ostq_list_length ostq_head_freed_def ostq_inv_def)

lemma ostq_live_nth:
  assumes "ostq_inv ost" "k < length (ostq_live ost)"
  shows "ostq_live ost ! k = ostq_list ost ! (ostq_off ost + k)" "ostq_off ost + k < q_count ost"
    "\<not> (ostq_off ost + k = 0 \<and> ostq_head_freed ost)"
  using assms ostq_count_live [OF assms(1)] by (auto simp: ostq_live_def ostq_off_def nth_tl)

lemma ostq_beyond:
  assumes inv: "ostq_inv ost" and i: "q_count ost \<le> i" "i < q_depth ost"
  shows "ostq_slot_valid ost ((q_rptr ost + i) mod q_depth ost) = Some False"
proof -
  from i obtain j where j: "i = q_count ost + j" "j < q_depth ost - q_count ost"
    using ostq_inv_bounds(4) [OF inv] by (metis add_diff_inverse_nat diff_less_mono linorder_not_le)
  with inv have "\<not> qe_vld (q_entries ost ! ((q_rptr ost + i) mod q_depth ost))"
    unfolding ostq_inv_def by (simp add: add.assoc)
  with ostq_inv_bounds [OF inv] show ?thesis by (simp add: ostq_slot_valid_def)
qed

lemma find_loop_beyond:
  assumes "ostq_inv ost" "\<forall>i\<in>set is. q_count ost \<le> i \<and> i < q_depth ost"
  shows "ostq_find_loop P ost is = Some None"
  using assms(2) by (induction "is") (simp_all add: ostq_beyond [OF assms(1)])

lemma find_loop_window:
  assumes inv: "ostq_inv ost" and k: "k \<le> length (ostq_live ost)"
  shows "ostq_find_loop P ost [ostq_off ost + k..<q_depth ost]
    = Some (map_option (\<lambda>j. (ostq_slot ost (k + j), ostq_live ost ! (k + j))) (find_idx P (drop k (ostq_live ost))))"
  using k
proof (induction "length (ostq_live ost) - k" arbitrary: k)
  case 0
  then have "k = length (ostq_live ost)" by simp
  with find_loop_beyond [OF inv, of "[q_count ost..<q_depth ost]"] ostq_count_live [OF inv] show ?case
    by (simp add: add.commute)
next
  case (Suc n)
  then have k: "k < length (ostq_live ost)" by simp
  note nth = ostq_live_nth [OF inv k]
  have lt: "ostq_off ost + k < q_depth ost" using nth(2) ostq_inv_bounds(4) [OF inv] by simp
  have IH: "ostq_find_loop P ost [ostq_off ost + Suc k..<q_depth ost]
    = Some (map_option (\<lambda>j. (ostq_slot ost (Suc k + j), ostq_live ost ! (Suc k + j))) (find_idx P (drop (Suc k) (ostq_live ost))))"
    by (rule Suc.hyps(1)) (use Suc.hyps(2) k in linarith)+
  from lt have "[ostq_off ost + k..<q_depth ost] = (ostq_off ost + k) # [ostq_off ost + Suc k..<q_depth ost]"
    by (simp add: upt_conv_Cons)
  moreover have "drop k (ostq_live ost) = ostq_live ost ! k # drop (Suc k) (ostq_live ost)" using k by (simp add: Cons_nth_drop_Suc)
  ultimately show ?case
    using IH ostq_slot_valid_eq [OF inv nth(2)] ostq_read_slot_eq [OF inv nth(2,3)] nth
    by (auto simp: ostq_slot_def option.map_comp comp_def)
qed

text \<open>The loop finds the oldest live context that satisfies the condition.\<close>

lemma ostq_find_eq:
  assumes inv: "ostq_inv ost"
  shows "ostq_find P ost = Some (map_option (\<lambda>k. (ostq_slot ost k, ostq_live ost ! k)) (find_idx P (ostq_live ost)))"
proof (cases "ostq_head_freed ost")
  case False
  with find_loop_window [OF inv, of 0 P] show ?thesis by (simp add: ostq_find_def ostq_off_def)
next
  case True
  note b = ostq_inv_bounds [OF inv]
  have "0 < q_count ost" using inv True by (auto simp: ostq_inv_def ostq_head_freed_def)
  then have v: "ostq_slot_valid ost ((q_rptr ost + 0) mod q_depth ost) = Some False"
    using ostq_slot_valid_eq [OF inv, of 0] True by simp
  have "[0..<q_depth ost] = 0 # [1..<q_depth ost]" using b by (simp add: upt_conv_Cons)
  with v have "ostq_find P ost = ostq_find_loop P ost [1..<q_depth ost]" by (simp add: ostq_find_def)
  with find_loop_window [OF inv, of 0 P] True show ?thesis by (simp add: ostq_off_def)
qed

section \<open>Operations on the live contexts\<close>

lemma ostq_read_live:
  assumes "ostq_inv ost" "k < length (ostq_live ost)"
  shows "ostq_read_slot ost (ostq_slot ost k) = Some (ostq_live ost ! k)"
  using ostq_read_slot_eq [OF assms(1) ostq_live_nth(2,3) [OF assms]] ostq_live_nth(1) [OF assms]
  by (simp add: ostq_slot_def)

lemma ostq_write_live:
  assumes inv: "ostq_inv ost" and k: "k < length (ostq_live ost)"
  shows "\<exists>ost'. ostq_write_slot ost (ostq_slot ost k) c = Some ost' \<and> ostq_inv ost'
    \<and> ostq_live ost' = (ostq_live ost)[k := c] \<and> ostq_head_freed ost' = ostq_head_freed ost
    \<and> q_depth ost' = q_depth ost \<and> q_count ost' = q_count ost \<and> ostq_slot ost' = ostq_slot ost"
proof -
  from ostq_write_slot_eq [OF inv ostq_live_nth(2,3) [OF inv k], of c] obtain ost' where
    o: "ostq_write_slot ost (ostq_slot ost k) c = Some ost'" "ostq_inv ost'"
    "ostq_list ost' = (ostq_list ost)[ostq_off ost + k := c]" "q_depth ost' = q_depth ost" "q_rptr ost' = q_rptr ost"
    "q_count ost' = q_count ost" "ostq_head_freed ost' = ostq_head_freed ost" unfolding ostq_slot_def by blast
  have "ostq_live ost' = (ostq_live ost)[k := c]"
    using o(3,7) by (cases "ostq_list ost") (auto simp: ostq_live_def ostq_off_def)
  moreover have "ostq_slot ost' = ostq_slot ost" using o(4,5,7) by (simp add: ostq_slot_def ostq_off_def fun_eq_iff)
  ultimately show ?thesis using o by blast
qed

lemma ostq_alloc_live:
  assumes inv: "ostq_inv ost" and room: "\<not> ostq_full ost"
  shows "\<exists>ost'. ostq_alloc ost x = Some (Some (ostq_slot ost (length (ostq_live ost)), ost')) \<and> ostq_inv ost'
    \<and> ostq_live ost' = ostq_live ost @ [x] \<and> ostq_head_freed ost' = ostq_head_freed ost
    \<and> q_depth ost' = q_depth ost \<and> ostq_slot ost' = ostq_slot ost"
proof -
  have "q_count ost < q_depth ost" using room ostq_inv_bounds(4) [OF inv] by (simp add: ostq_full_def)
  from ostq_alloc_ok [OF inv this, of x] obtain ost' where
    o: "ostq_alloc ost x = Some (Some (q_wptr ost, ost'))" "ostq_inv ost'" "ostq_list ost' = ostq_list ost @ [x]"
    "q_depth ost' = q_depth ost" "q_rptr ost' = q_rptr ost" "ostq_head_freed ost' = ostq_head_freed ost" by blast
  have "ostq_list ost \<noteq> []" if "ostq_head_freed ost"
    using that inv by (auto simp: ostq_head_freed_def ostq_inv_def simp flip: length_0_conv simp: ostq_list_length)
  with o have "ostq_live ost' = ostq_live ost @ [x]" by (simp add: ostq_live_def)
  moreover have "q_wptr ost = ostq_slot ost (length (ostq_live ost))"
    using inv ostq_count_live [OF inv] by (simp add: ostq_inv_def ring_inv_def ostq_slot_def add.commute)
  moreover have "ostq_slot ost' = ostq_slot ost" using o by (simp add: ostq_slot_def ostq_off_def fun_eq_iff)
  ultimately show ?thesis using o by auto
qed

lemma ostq_peek_live:
  assumes "ostq_inv ost"
  shows "ostq_peek_head ost = Some (if ostq_head_freed ost \<or> ostq_live ost = [] then None
    else Some (q_rptr ost, hd (ostq_live ost)))"
  using ostq_peek_eq [OF assms] by (auto simp: ostq_live_def split: list.splits)

lemma ostq_free_live:
  assumes inv: "ostq_inv ost" and live: "\<not> ostq_head_freed ost" "ostq_live ost \<noteq> []"
  shows "\<exists>ost'. ostq_free_head ost = Some ost' \<and> ostq_inv ost' \<and> ostq_live ost' = tl (ostq_live ost)
    \<and> ostq_head_freed ost' \<and> q_depth ost' = q_depth ost"
  using ostq_free_head_ok [OF inv _ live(1)] live by (auto simp: ostq_live_def)

lemma ostq_clock_live:
  assumes inv: "ostq_inv ost"
  shows "\<exists>ost'. ostq_clock ost = Some ost' \<and> ostq_inv ost' \<and> ostq_live ost' = ostq_live ost
    \<and> \<not> ostq_head_freed ost' \<and> q_depth ost' = q_depth ost"
proof (cases "ostq_head_freed ost")
  case False
  with ostq_clock_idle [OF False inv] inv show ?thesis by simp
next
  case True
  with inv have "ostq_list ost \<noteq> []"
    by (auto simp: ostq_head_freed_def ostq_inv_def simp flip: length_0_conv simp: ostq_list_length)
  then obtain x xs where l: "ostq_list ost = x # xs" by (cases "ostq_list ost") auto
  from ostq_clock_freed [OF inv True l] l True show ?thesis by (auto simp: ostq_live_def)
qed

section \<open>Slot numbers\<close>

lemma ostq_slot_lt: "ostq_inv ost \<Longrightarrow> ostq_slot ost k < q_depth ost"
  using ostq_inv_bounds(5) [of ost] by (simp add: ostq_slot_def)

lemma ostq_slot_inj:
  assumes inv: "ostq_inv ost" and "j < length (ostq_live ost)" "k < length (ostq_live ost)" "ostq_slot ost j = ostq_slot ost k"
  shows "j = k"
  using mod_add_inj [of "q_rptr ost" "ostq_off ost + j" "q_depth ost" "ostq_off ost + k"] assms
    ostq_live_nth(2) [OF inv, of j] ostq_live_nth(2) [OF inv, of k] ostq_inv_bounds(4) [OF inv] by (simp add: ostq_slot_def)

lemma ostq_slot_valid_live:
  assumes "ostq_inv ost" "k < length (ostq_live ost)"
  shows "ostq_slot_valid ost (ostq_slot ost k) = Some True"
  using ostq_slot_valid_eq [OF assms(1) ostq_live_nth(2) [OF assms]] ostq_live_nth(3) [OF assms] by (simp add: ostq_slot_def)

text \<open>A slot holds a live context or is not valid.\<close>

lemma ostq_slot_cases:
  assumes inv: "ostq_inv ost" and i: "i < q_depth ost"
  obtains (live) k where "k < length (ostq_live ost)" "i = ostq_slot ost k" | (dead) "ostq_slot_valid ost i = Some False"
proof -
  note b = ostq_inv_bounds [OF inv]
  define d where "d = (if q_rptr ost \<le> i then i - q_rptr ost else i + q_depth ost - q_rptr ost)"
  have d: "d < q_depth ost" "i = (q_rptr ost + d) mod q_depth ost" using i b by (auto simp: d_def)
  show thesis
  proof (cases "d < q_count ost")
    case False
    with ostq_beyond [OF inv, of d] d dead show thesis by simp
  next
    case True
    note v = ostq_slot_valid_eq [OF inv True]
    show thesis
    proof (cases "d = 0 \<and> ostq_head_freed ost")
      case True
      then show thesis using v d dead by simp
    next
      case False
      then have "ostq_off ost \<le> d" by (auto simp: ostq_off_def)
      then obtain k where k: "d = ostq_off ost + k" by (auto simp: le_iff_add)
      with \<open>d < q_count ost\<close> ostq_count_live [OF inv] have "k < length (ostq_live ost)" by simp
      then show thesis using d k by (intro live [of k]) (simp_all add: ostq_slot_def)
    qed
  qed
qed

lemma ostq_free_slot:
  assumes "ostq_inv ost" "ostq_live ost \<noteq> []" "\<not> ostq_head_freed ost" "ostq_free_head ost = Some ost'"
  shows "ostq_slot ost' k = ostq_slot ost (Suc k)"
  using ostq_free_head_ok [OF assms(1) _ assms(3)] assms by (auto simp: ostq_live_def ostq_slot_def ostq_off_def)

lemma ostq_clock_slot:
  assumes inv: "ostq_inv ost" and clk: "ostq_clock ost = Some ost'"
  shows "ostq_slot ost' k = ostq_slot ost k"
proof (cases "ostq_head_freed ost")
  case False
  with ostq_clock_idle [OF False inv] clk show ?thesis by simp
next
  case True
  with inv have "ostq_list ost \<noteq> []"
    by (auto simp: ostq_head_freed_def ostq_inv_def simp flip: length_0_conv simp: ostq_list_length)
  then obtain x xs where l: "ostq_list ost = x # xs" by (cases "ostq_list ost") auto
  from ostq_clock_freed [OF inv True l] clk True show ?thesis by (auto simp: ostq_slot_def ostq_off_def)
qed

lemma ostq_construct_live: "ostq_construct depth = Some ost \<Longrightarrow>
    ostq_inv ost \<and> ostq_live ost = [] \<and> \<not> ostq_head_freed ost \<and> q_depth ost = depth"
  using ostq_construct_inv [of depth ost] by (simp add: ostq_live_def)

lemma ostq_empty_live: "ostq_inv ost \<Longrightarrow> ostq_empty ost \<longleftrightarrow> ostq_live ost = [] \<and> \<not> ostq_head_freed ost"
  using ostq_count_live [of ost] by (auto simp: ostq_empty_def ostq_off_def)

lemma ostq_reset_live:
  assumes "0 < q_depth ost"
  shows "ostq_inv (ostq_reset ost)" "ostq_live (ostq_reset ost) = []" "\<not> ostq_head_freed (ostq_reset ost)" "q_depth (ostq_reset ost) = q_depth ost"
proof -
  have "ostq_construct (q_depth ost) = Some (ostq_reset ost)" using assms by (cases ost) (simp add: ostq_construct_def ostq_reset_def)
  from ostq_construct_live [OF this] show "ostq_inv (ostq_reset ost)" "ostq_live (ostq_reset ost) = []" "\<not> ostq_head_freed (ostq_reset ost)"
    "q_depth (ostq_reset ost) = q_depth ost" by simp_all
qed

end
