(* ===== verification/Lsu.thy ===== *)
theory Lsu
  imports OstSlots Packets "HOL-Library.Sublist"
begin

text \<open>
  The load/store unit (\<^verbatim>\<open>core/hart/lsu.c\<close>), between the execution unit and the hart's bus
  interface. An access that crosses a page boundary while address translation is on is split
  into byte requests, whose responses are put together again; other requests pass through.
  Accesses are kept in an in-order table until their response has been sent.
\<close>

section \<open>State\<close>

record lsu_ost_ctx =
  lc_req :: ldst_req
  lc_split :: bool
  lc_byte_num :: nat
  lc_req_idx :: nat
  lc_rsp_idx :: nat
  lc_rsp_data :: u32
  lc_ready :: bool
  lc_ok :: bool

record lsu =
  ls_exu_ldst_req_slv :: "ldst_req itf"
  ls_exu_ldst_rsp_mst :: "ldst_rsp itf"
  ls_hbi_ldst_req_mst :: "ldst_req itf"
  ls_hbi_ldst_rsp_slv :: "ldst_rsp itf"
  ls_csr_state_i :: csr_lsu_state
  ls_req_fifo :: "ldst_req fifo"
  ls_ost :: "lsu_ost_ctx ostq"
  ls_busy :: bool
  ls_split :: bool
  ls_req :: ldst_req
  ls_byte_num :: nat
  ls_req_byte_idx :: nat
  ls_rsp_byte_idx :: nat
  ls_rsp_data :: u32
  ls_perf_stg_full :: u64
  ls_perf_ost_full :: u64

section \<open>lsu.c\<close>

definition lsu_req_byte_num :: "ldst_req_size \<Rightarrow> nat" where
  "lsu_req_byte_num sz = (case sz of LDST_REQ_SIZE_B1 \<Rightarrow> 1 | LDST_REQ_SIZE_B2 \<Rightarrow> 2 | LDST_REQ_SIZE_B4 \<Rightarrow> 4)"

definition lsu_translation_enabled :: "lsu \<Rightarrow> bool" where
  "lsu_translation_enabled lsu \<longleftrightarrow> cl_satp (ls_csr_state_i lsu) AND 0x80000000 \<noteq> 0"

definition lsu_cross_page :: "ldst_req \<Rightarrow> bool" where
  "lsu_cross_page req \<longleftrightarrow> unat (lq_addr req AND 0xfff) + lsu_req_byte_num (lq_size req) > 4096"

definition lsu_make_byte_req :: "ldst_req \<Rightarrow> nat \<Rightarrow> ldst_req" where
  "lsu_make_byte_req src byte_idx = \<lparr>lq_addr = lq_addr src + of_nat byte_idx, lq_st = lq_st src,
     lq_cmo = LDST_REQ_CMO_NONE, lq_size = LDST_REQ_SIZE_B1,
     lq_data = drop_bit (byte_idx * 8) (lq_data src) AND 0xff,
     lq_strobe = (if lq_st src \<and> lq_strobe src AND push_bit byte_idx 1 \<noteq> 0 then 1 else 0)\<rparr>"

definition lsu_capture_req :: "lsu \<Rightarrow> lsu option" where
  "lsu_capture_req lsu =
     (if fifo_full (ls_req_fifo lsu) then
        Some (if \<not> itf_fifo_empty (ls_exu_ldst_req_slv lsu)
          then lsu\<lparr>ls_perf_stg_full := ls_perf_stg_full lsu + 1\<rparr> else lsu)
      else if itf_fifo_empty (ls_exu_ldst_req_slv lsu) then Some lsu
      else do {
        (req, t) \<leftarrow> itf_read (ls_exu_ldst_req_slv lsu);
        f \<leftarrow> fifo_push (ls_req_fifo lsu) req;
        Some (lsu\<lparr>ls_exu_ldst_req_slv := t, ls_req_fifo := f\<rparr>)
      })"

definition lsu_alloc_req :: "lsu \<Rightarrow> lsu option" where
  "lsu_alloc_req lsu =
     (if fifo_empty (ls_req_fifo lsu) then Some lsu
      else if ostq_full (ls_ost lsu) then Some (lsu\<lparr>ls_perf_ost_full := ls_perf_ost_full lsu + 1\<rparr>)
      else do {
        (req, f) \<leftarrow> fifo_pop (ls_req_fifo lsu);
        let split = (lq_cmo req = LDST_REQ_CMO_NONE \<and> lsu_translation_enabled lsu \<and> lsu_cross_page req);
        let ctx = \<lparr>lc_req = req, lc_split = split,
          lc_byte_num = (if split then lsu_req_byte_num (lq_size req) else 1),
          lc_req_idx = 0, lc_rsp_idx = 0, lc_rsp_data = 0, lc_ready = False, lc_ok = True\<rparr>;
        r \<leftarrow> ostq_alloc (ls_ost lsu) ctx;
        (slot, ost) \<leftarrow> r;
        Some (lsu\<lparr>ls_req_fifo := f, ls_ost := ost\<rparr>)
      })"

definition lsu_find_issue_slot :: "lsu \<Rightarrow> (nat \<times> lsu_ost_ctx) option option" where
  "lsu_find_issue_slot lsu = ostq_find (\<lambda>cur. \<not> (lc_ready cur \<or> lc_req_idx cur \<ge> lc_byte_num cur)) (ls_ost lsu)"

definition lsu_find_rsp_slot :: "lsu \<Rightarrow> (nat \<times> lsu_ost_ctx) option option" where
  "lsu_find_rsp_slot lsu = ostq_find (\<lambda>cur. \<not> (lc_ready cur \<or> lc_rsp_idx cur \<ge> lc_req_idx cur)) (ls_ost lsu)"

definition lsu_issue_req :: "lsu \<Rightarrow> lsu option" where
  "lsu_issue_req lsu =
     (if itf_fifo_full (ls_hbi_ldst_req_mst lsu) then Some lsu
      else do {
        r \<leftarrow> lsu_find_issue_slot lsu;
        (case r of None \<Rightarrow> Some lsu
         | Some (slot, ctx) \<Rightarrow> do {
             let req = (if lc_split ctx then lsu_make_byte_req (lc_req ctx) (lc_req_idx ctx) else lc_req ctx);
             t \<leftarrow> itf_write (ls_hbi_ldst_req_mst lsu) req;
             ost \<leftarrow> ostq_write_slot (ls_ost lsu) slot (ctx\<lparr>lc_req_idx := lc_req_idx ctx + 1\<rparr>);
             Some (lsu\<lparr>ls_hbi_ldst_req_mst := t, ls_ost := ost\<rparr>)
           })
      })"

text \<open>What a response does to the context it belongs to.\<close>

definition lsu_take_rsp :: "lsu_ost_ctx \<Rightarrow> ldst_rsp \<Rightarrow> lsu_ost_ctx" where
  "lsu_take_rsp ctx rsp =
     (if \<not> lr_ok rsp then ctx\<lparr>lc_ok := False, lc_ready := True\<rparr>
      else
        let ctx = (if lc_split ctx then
              (if \<not> lq_st (lc_req ctx)
               then ctx\<lparr>lc_rsp_data := lc_rsp_data ctx OR push_bit (lc_rsp_idx ctx * 8) (lr_data rsp AND 0xff)\<rparr>
               else ctx)
            else ctx\<lparr>lc_rsp_data := lr_data rsp\<rparr>);
            ctx = ctx\<lparr>lc_rsp_idx := lc_rsp_idx ctx + 1\<rparr>
        in if lc_rsp_idx ctx = lc_byte_num ctx then ctx\<lparr>lc_ready := True, lc_ok := True\<rparr> else ctx)"

definition lsu_proc_rsp :: "lsu \<Rightarrow> lsu option" where
  "lsu_proc_rsp lsu =
     (if itf_fifo_empty (ls_hbi_ldst_rsp_slv lsu) then Some lsu
      else do {
        r \<leftarrow> lsu_find_rsp_slot lsu;
        (case r of None \<Rightarrow> Some lsu
         | Some (slot, ctx) \<Rightarrow> do {
             (rsp, t) \<leftarrow> itf_read (ls_hbi_ldst_rsp_slv lsu);
             ost \<leftarrow> ostq_write_slot (ls_ost lsu) slot (lsu_take_rsp ctx rsp);
             Some (lsu\<lparr>ls_hbi_ldst_rsp_slv := t, ls_ost := ost\<rparr>)
           })
      })"

definition lsu_send_ready_rsp :: "lsu \<Rightarrow> lsu option" where
  "lsu_send_ready_rsp lsu =
     (if itf_fifo_full (ls_exu_ldst_rsp_mst lsu) then Some lsu
      else do {
        r \<leftarrow> ostq_peek_head (ls_ost lsu);
        (case r of None \<Rightarrow> Some lsu
         | Some (slot, ctx) \<Rightarrow>
             if \<not> lc_ready ctx then Some lsu
             else do {
               let rsp = \<lparr>lr_data = (if lc_ok ctx \<and> \<not> lq_st (lc_req ctx) then lc_rsp_data ctx else 0), lr_ok = lc_ok ctx\<rparr>;
               t \<leftarrow> itf_write (ls_exu_ldst_rsp_mst lsu) rsp;
               ost \<leftarrow> ostq_free_head (ls_ost lsu);
               Some (lsu\<lparr>ls_exu_ldst_rsp_mst := t, ls_ost := ost\<rparr>)
             })
      })"

definition lsu_update_dbg_state :: "lsu \<Rightarrow> lsu option" where
  "lsu_update_dbg_state lsu = do {
     let lsu = lsu\<lparr>ls_busy := \<not> ostq_empty (ls_ost lsu) \<or> \<not> fifo_empty (ls_req_fifo lsu), ls_split := False,
       ls_req := ldst_req_init, ls_byte_num := 0, ls_req_byte_idx := 0, ls_rsp_byte_idx := 0, ls_rsp_data := 0\<rparr>;
     r \<leftarrow> ostq_peek_head (ls_ost lsu);
     Some (case r of None \<Rightarrow> lsu
       | Some (slot, ctx) \<Rightarrow> lsu\<lparr>ls_split := lc_split ctx, ls_req := lc_req ctx, ls_byte_num := lc_byte_num ctx,
           ls_req_byte_idx := lc_req_idx ctx, ls_rsp_byte_idx := lc_rsp_idx ctx, ls_rsp_data := lc_rsp_data ctx\<rparr>)
   }"

definition lsu_reset :: "lsu \<Rightarrow> lsu" where
  "lsu_reset lsu = lsu\<lparr>ls_busy := False, ls_split := False, ls_req := ldst_req_init, ls_byte_num := 0,
     ls_req_byte_idx := 0, ls_rsp_byte_idx := 0, ls_rsp_data := 0, ls_req_fifo := fifo_reset (ls_req_fifo lsu),
     ls_ost := ostq_reset (ls_ost lsu), ls_perf_stg_full := 0, ls_perf_ost_full := 0\<rparr>"

definition lsu_clock :: "lsu \<Rightarrow> lsu option" where
  "lsu_clock lsu = do {
     ost \<leftarrow> ostq_clock (ls_ost lsu);
     let lsu = lsu\<lparr>ls_ost := ost\<rparr>;
     lsu \<leftarrow> lsu_capture_req lsu;
     lsu \<leftarrow> lsu_proc_rsp lsu;
     lsu \<leftarrow> lsu_send_ready_rsp lsu;
     lsu \<leftarrow> lsu_issue_req lsu;
     lsu \<leftarrow> lsu_alloc_req lsu;
     lsu \<leftarrow> lsu_issue_req lsu;
     lsu_update_dbg_state lsu
   }"

section \<open>Specification: what the unit owes each access\<close>

text \<open>
  An access is a request with the decision whether it is split: it is when translation is on
  and it crosses a page. Its bus requests, and the response made from the data that come back.
\<close>

type_synonym acc = "ldst_req \<times> bool"

definition lsu_acc :: "lsu \<Rightarrow> ldst_req \<Rightarrow> acc" where
  "lsu_acc lsu req = (req, lq_cmo req = LDST_REQ_CMO_NONE \<and> lsu_translation_enabled lsu \<and> lsu_cross_page req)"

lemma lsu_acc_frame [simp]: "lsu_acc (s\<lparr>ls_exu_ldst_req_slv := a\<rparr>) = lsu_acc s" "lsu_acc (s\<lparr>ls_exu_ldst_rsp_mst := b\<rparr>) = lsu_acc s"
  "lsu_acc (s\<lparr>ls_hbi_ldst_req_mst := c\<rparr>) = lsu_acc s" "lsu_acc (s\<lparr>ls_hbi_ldst_rsp_slv := d\<rparr>) = lsu_acc s"
  "lsu_acc (s\<lparr>ls_req_fifo := e\<rparr>) = lsu_acc s" "lsu_acc (s\<lparr>ls_ost := g\<rparr>) = lsu_acc s"
  by (simp_all add: lsu_acc_def lsu_translation_enabled_def fun_eq_iff)

definition expand :: "acc \<Rightarrow> ldst_req list" where
  "expand a = (if snd a then map (lsu_make_byte_req (fst a)) [0..<lsu_req_byte_num (lq_size (fst a))] else [fst a])"

definition assemble :: "u32 list \<Rightarrow> u32" where
  "assemble ds = foldl (\<lambda>w (i, d). w OR push_bit (i * 8) (d AND 0xff)) 0 (enumerate 0 ds)"

definition respond :: "acc \<Rightarrow> u32 list \<Rightarrow> ldst_rsp" where
  "respond a ds = \<lparr>lr_data = (if lq_st (fst a) then 0 else if snd a then assemble ds else hd ds), lr_ok = True\<rparr>"

text \<open>The responses to a sequence of accesses, given the data that came back so far.\<close>

fun serve :: "acc list \<Rightarrow> u32 list \<Rightarrow> ldst_rsp list" where
  "serve [] ds = []"
| "serve (a # as) ds = (let n = length (expand a) in
     if length ds < n then [] else respond a (take n ds) # serve as (drop n ds))"

lemma expand_nonempty: "0 < length (expand a)"
  by (simp add: expand_def lsu_req_byte_num_def split: ldst_req_size.splits)

lemma assemble_snoc [simp]: "assemble [] = 0" "assemble (ds @ [d]) = assemble ds OR push_bit (length ds * 8) (d AND 0xff)"
  by (simp_all add: assemble_def enumerate_append_eq)

lemma serve_append:
  "\<forall>(a, ds)\<in>set D. length ds = length (expand a) \<Longrightarrow>
   serve (map fst D @ as) (concat (map snd D) @ ds) = map (\<lambda>(a, ds). respond a ds) D @ serve as ds"
  by (induction D) auto

section \<open>Invariant\<close>

text \<open>
  A context paired with the data of the responses it has received. \<open>lsu_inv\<close> ties a state to
  the histories of its four interfaces: \<open>I\<close> the requests the execution unit sent, \<open>os\<close> the
  responses it received, \<open>Q\<close> the requests the bus interface received, \<open>R\<close> the data it sent;
  \<open>D\<close> are the accesses that are done, \<open>P\<close> those in the table.
\<close>

definition ctx_acc :: "lsu_ost_ctx \<Rightarrow> acc" where
  "ctx_acc c = (lc_req c, lc_split c)"

definition ctx_ok :: "lsu_ost_ctx \<times> u32 list \<Rightarrow> bool" where
  "ctx_ok p \<longleftrightarrow> (case p of (c, ds) \<Rightarrow> lc_byte_num c = length (expand (ctx_acc c)) \<and> lc_rsp_idx c = length ds
     \<and> lc_rsp_idx c \<le> lc_req_idx c \<and> lc_req_idx c \<le> lc_byte_num c \<and> lc_ready c = (lc_rsp_idx c = lc_byte_num c) \<and> lc_ok c
     \<and> (\<not> lq_st (lc_req c) \<longrightarrow> lc_rsp_data c = (if lc_split c then assemble ds else if ds = [] then 0 else hd ds)))"

text \<open>Work proceeds front to back: behind an unfinished element nothing has begun.\<close>

definition frontier :: "('a \<Rightarrow> nat) \<Rightarrow> ('a \<Rightarrow> nat) \<Rightarrow> 'a list \<Rightarrow> bool" where
  "frontier f n xs \<longleftrightarrow> (\<forall>i j. i < j \<and> j < length xs \<and> 0 < f (xs ! j) \<longrightarrow> f (xs ! i) = n (xs ! i))"

abbreviation req_of :: "lsu_ost_ctx \<times> u32 list \<Rightarrow> nat" where "req_of p \<equiv> lc_req_idx (fst p)"
abbreviation rsp_of :: "lsu_ost_ctx \<times> u32 list \<Rightarrow> nat" where "rsp_of p \<equiv> length (snd p)"
abbreviation num_of :: "lsu_ost_ctx \<times> u32 list \<Rightarrow> nat" where "num_of p \<equiv> lc_byte_num (fst p)"

definition issued :: "lsu_ost_ctx \<times> u32 list \<Rightarrow> ldst_req list" where
  "issued p = take (req_of p) (expand (ctx_acc (fst p)))"

definition lsu_itfs :: "lsu \<Rightarrow> bool" where
  "lsu_itfs s \<longleftrightarrow> itf_inv (ls_exu_ldst_req_slv s) \<and> itf_inv (ls_exu_ldst_rsp_mst s) \<and> itf_inv (ls_hbi_ldst_req_mst s)
     \<and> itf_inv (ls_hbi_ldst_rsp_slv s) \<and> fifo_inv (ls_req_fifo s) \<and> ostq_inv (ls_ost s)"

definition tab_ok :: "lsu_ost_ctx list \<Rightarrow> (lsu_ost_ctx \<times> u32 list) list \<Rightarrow> bool" where
  "tab_ok L P \<longleftrightarrow> map fst P = L \<and> (\<forall>p\<in>set P. ctx_ok p) \<and> frontier req_of num_of P \<and> frontier rsp_of num_of P"

definition hist_ok :: "(acc \<times> u32 list) list \<Rightarrow> (lsu_ost_ctx \<times> u32 list) list \<Rightarrow> acc list \<Rightarrow> acc list
    \<Rightarrow> ldst_rsp list \<Rightarrow> ldst_req list \<Rightarrow> u32 list \<Rightarrow> ldst_rsp list \<Rightarrow> bool" where
  "hist_ok D P I pend outs reqs R rsps \<longleftrightarrow>
     I = map fst D @ map (ctx_acc \<circ> fst) P @ pend
     \<and> outs = map (\<lambda>(a, ds). respond a ds) D
     \<and> reqs = concat (map (expand \<circ> fst) D) @ concat (map issued P)
     \<and> R = concat (map snd D) @ concat (map snd P) @ map lr_data rsps
     \<and> (\<forall>(a, ds)\<in>set D. length ds = length (expand a))"

definition lsu_inv :: "lsu \<Rightarrow> acc list \<Rightarrow> ldst_rsp list \<Rightarrow> ldst_req list \<Rightarrow> u32 list \<Rightarrow> bool" where
  "lsu_inv s I os Q R \<longleftrightarrow> lsu_itfs s \<and> (\<forall>r\<in>set (itf_list (ls_hbi_ldst_rsp_slv s)). lr_ok r)
     \<and> (\<exists>D P. tab_ok (ostq_live (ls_ost s)) P
         \<and> hist_ok D P I (map (lsu_acc s) (fifo_list (ls_req_fifo s) @ itf_list (ls_exu_ldst_req_slv s)))
             (os @ itf_list (ls_exu_ldst_rsp_mst s)) (Q @ itf_list (ls_hbi_ldst_req_mst s)) R (itf_list (ls_hbi_ldst_rsp_slv s)))"

subsection \<open>Lists with a frontier\<close>

lemma frontierD: "frontier f n xs \<Longrightarrow> i < j \<Longrightarrow> j < length xs \<Longrightarrow> 0 < f (xs ! j) \<Longrightarrow> f (xs ! i) = n (xs ! i)"
  unfolding frontier_def by blast

text \<open>Behind the first unfinished element nothing has begun.\<close>

lemma frontier_after:
  assumes "frontier f n xs" "k < length xs" "f (xs ! k) < n (xs ! k)" "k < j" "j < length xs"
  shows "f (xs ! j) = 0"
  using frontierD [OF assms(1,4,5)] assms(3) by (cases "f (xs ! j)") auto

lemma frontier_step:
  assumes "frontier f n xs" "k < length xs" "f (xs ! k) < n (xs ! k)" "n x = n (xs ! k)"
    "\<forall>i<k. f (xs ! i) = n (xs ! i)"
  shows "frontier f n (xs[k := x])"
  unfolding frontier_def
proof (intro allI impI, elim conjE)
  fix i j assume ij: "i < j" "j < length (xs[k := x])" "0 < f (xs[k := x] ! j)"
  show "f (xs[k := x] ! i) = n (xs[k := x] ! i)"
  proof (cases "j \<le> k")
    case True
    with ij assms(5) show ?thesis by simp
  next
    case False
    then have "f (xs ! j) = 0" using frontier_after [OF assms(1-3), of j] ij by simp
    with False ij show ?thesis by simp
  qed
qed

lemma frontier_same:
  assumes "frontier f n xs" "k < length xs" "f x = f (xs ! k)" "n x = n (xs ! k)"
  shows "frontier f n (xs[k := x])"
proof -
  have same: "f (xs[k := x] ! i) = f (xs ! i) \<and> n (xs[k := x] ! i) = n (xs ! i)" if "i < length xs" for i
    using that assms(2-4) by (cases "i = k") simp_all
  show ?thesis unfolding frontier_def
  proof (intro allI impI, elim conjE)
    fix i j assume "i < j" "j < length (xs[k := x])" "0 < f (xs[k := x] ! j)"
    with same [of i] same [of j] frontierD [OF assms(1), of i j] show "f (xs[k := x] ! i) = n (xs[k := x] ! i)" by simp
  qed
qed

lemma frontier_snoc: "frontier f n xs \<Longrightarrow> f x = 0 \<Longrightarrow> frontier f n (xs @ [x])"
  unfolding frontier_def by (auto simp: nth_append)

lemma frontier_tl: "frontier f n (x # xs) \<Longrightarrow> frontier f n xs"
  unfolding frontier_def by (metis Suc_less_eq length_Cons nth_Cons_Suc)

lemma concat_update:
  assumes "k < length xs" "\<And>j. k < j \<Longrightarrow> j < length xs \<Longrightarrow> g (xs ! j) = []" "g x = g (xs ! k) @ ys"
  shows "concat (map g (xs[k := x])) = concat (map g xs) @ ys"
proof -
  have "g y = []" if y: "y \<in> set (drop (Suc k) xs)" for y
  proof -
    from y obtain i where "i < length xs - Suc k" "y = xs ! (Suc k + i)" by (auto simp: in_set_conv_nth)
    with assms(2) [of "Suc k + i"] show ?thesis by auto
  qed
  then have nil: "concat (map g (drop (Suc k) xs)) = []" by auto
  have "concat (map g (xs[k := x])) = concat (map g (take k xs)) @ g x @ concat (map g (drop (Suc k) xs))"
    using assms(1) by (simp add: upd_conv_take_nth_drop)
  moreover have "concat (map g xs) = concat (map g (take k xs)) @ g (xs ! k) @ concat (map g (drop (Suc k) xs))"
    using assms(1) by (subst id_take_nth_drop [OF assms(1)]) simp
  ultimately show ?thesis using assms(3) nil by simp
qed

subsection \<open>Steps of the table and the histories\<close>

lemma step_alloc:
  assumes t: "tab_ok L P" and h: "hist_ok D P I (ctx_acc c # pend) outs reqs R rsps"
    and c: "ctx_ok (c, [])" "lc_req_idx c = 0"
  shows "tab_ok (L @ [c]) (P @ [(c, [])])" "hist_ok D (P @ [(c, [])]) I pend outs reqs R rsps"
proof -
  show "tab_ok (L @ [c]) (P @ [(c, [])])" using t c by (auto simp: tab_ok_def intro: frontier_snoc)
  have "issued (c, []) = []" using c(2) by (simp add: issued_def)
  with h show "hist_ok D (P @ [(c, [])]) I pend outs reqs R rsps" by (simp add: hist_ok_def)
qed

definition next_req :: "lsu_ost_ctx \<Rightarrow> ldst_req" where
  "next_req c = (if lc_split c then lsu_make_byte_req (lc_req c) (lc_req_idx c) else lc_req c)"

lemma issued_next:
  assumes "ctx_ok (c, ds)" "lc_req_idx c < lc_byte_num c"
  shows "issued (c\<lparr>lc_req_idx := lc_req_idx c + 1\<rparr>, ds) = issued (c, ds) @ [next_req c]"
proof -
  have lt: "lc_req_idx c < length (expand (ctx_acc c))" using assms by (simp add: ctx_ok_def)
  then have "next_req c = expand (ctx_acc c) ! lc_req_idx c" by (auto simp: next_req_def expand_def ctx_acc_def split: if_splits)
  with lt show ?thesis by (simp add: issued_def ctx_acc_def take_Suc_conv_app_nth)
qed

lemma tab_nth:
  assumes "tab_ok L P" "k < length L"
  shows "k < length P" "fst (P ! k) = L ! k" "ctx_ok (L ! k, snd (P ! k))"
  using assms by (auto simp: tab_ok_def)

text \<open>What has been issued is a prefix of all the bus requests the table asks for.\<close>

lemma issued_prefix:
  assumes "\<forall>p\<in>set P. ctx_ok p" "frontier req_of num_of P"
  shows "prefix (concat (map issued P)) (concat (map (expand \<circ> ctx_acc \<circ> fst) P))"
  using assms
proof (induction P)
  case (Cons p P)
  obtain c ds where p: "p = (c, ds)" by force
  show ?case
  proof (cases "req_of p = num_of p")
    case True
    with Cons.prems(1) p have "issued p = expand (ctx_acc c)" by (simp add: issued_def ctx_ok_def)
    with Cons.IH Cons.prems p show ?thesis by (auto dest: frontier_tl)
  next
    case False
    have "req_of q = 0" if "q \<in> set P" for q
    proof -
      from that obtain j where "j < length P" "q = P ! j" by (auto simp: in_set_conv_nth)
      with frontierD [OF Cons.prems(2), of 0 "Suc j"] False show ?thesis by auto
    qed
    then have "concat (map issued P) = []" by (simp add: issued_def)
    then have "concat (map issued (p # P)) = issued p" by simp
    moreover have "prefix (issued p) (expand (ctx_acc (fst p)))" by (simp add: issued_def take_is_prefix)
    ultimately show ?thesis by (simp only: list.map concat.simps comp_apply prefix_prefix)
  qed
qed simp

lemma tab_issued_prefix: "tab_ok L P \<Longrightarrow> prefix (concat (map issued P)) (concat (map (expand \<circ> (ctx_acc \<circ> fst)) P @ xs))"
  using issued_prefix [of P] by (simp add: tab_ok_def comp_assoc)

lemma step_issue:
  assumes t: "tab_ok L P" and h: "hist_ok D P I pend outs reqs R rsps" and k: "k < length L"
    and c: "lc_req_idx (L ! k) < lc_byte_num (L ! k)" and before: "\<forall>i<k. lc_req_idx (L ! i) \<ge> lc_byte_num (L ! i)"
  shows "\<exists>P'. tab_ok (L[k := (L ! k)\<lparr>lc_req_idx := lc_req_idx (L ! k) + 1\<rparr>]) P'
    \<and> hist_ok D P' I pend outs (reqs @ [next_req (L ! k)]) R rsps"
proof -
  note n = tab_nth [OF t k]
  let ?c = "(L ! k)\<lparr>lc_req_idx := lc_req_idx (L ! k) + 1\<rparr>" and ?ds = "snd (P ! k)"
  let ?P = "P[k := (?c, ?ds)]"
  have "req_of (P ! i) = num_of (P ! i)" if "i < k" for i
    using before that k tab_nth [OF t, of i] by (auto simp: ctx_ok_def intro: le_antisym)
  then have full: "\<forall>i<k. req_of (P ! i) = num_of (P ! i)" by blast
  have fr0: "frontier req_of num_of P" "frontier rsp_of num_of P" using t by (simp_all add: tab_ok_def)
  have lt: "req_of (P ! k) < num_of (P ! k)" using n(2) c by simp
  have "frontier req_of num_of ?P" by (rule frontier_step [OF fr0(1) n(1) lt]) (simp_all add: n full)
  moreover have "frontier rsp_of num_of ?P" by (rule frontier_same [OF fr0(2) n(1)]) (simp_all add: n)
  ultimately have fr: "frontier req_of num_of ?P" "frontier rsp_of num_of ?P" by blast+
  have ok: "ctx_ok (?c, ?ds)" using n(3) c by (simp add: ctx_ok_def ctx_acc_def)
  have "\<forall>p\<in>set ?P. ctx_ok p" using t ok set_update_subset_insert [of P k "(?c, ?ds)"] by (auto simp: tab_ok_def)
  with fr t have "tab_ok (L[k := ?c]) ?P" by (simp add: tab_ok_def map_update)
  moreover have "concat (map issued ?P) = concat (map issued P) @ [next_req (L ! k)]"
  proof (rule concat_update [OF n(1)])
    show "issued (P ! j) = []" if "k < j" "j < length P" for j
      using frontier_after [of req_of num_of P k j] t n c that by (simp add: tab_ok_def issued_def)
    show "issued (?c, ?ds) = issued (P ! k) @ [next_req (L ! k)]"
      using issued_next [OF n(3) c] n(2) by (metis prod.collapse)
  qed
  moreover have "map (ctx_acc \<circ> fst) ?P = map (ctx_acc \<circ> fst) P" "map snd ?P = map snd P"
    using n(1,2) by (simp_all add: map_update list_update_same_conv ctx_acc_def)
  ultimately show ?thesis using h unfolding hist_ok_def by (intro exI [of _ ?P]) simp
qed

lemma ctx_take_rsp:
  assumes "ctx_ok (c, ds)" "lc_rsp_idx c < lc_req_idx c" "lr_ok r"
  shows "ctx_ok (lsu_take_rsp c r, ds @ [lr_data r])" "lc_req (lsu_take_rsp c r) = lc_req c"
    "ctx_acc (lsu_take_rsp c r) = ctx_acc c" "lc_req_idx (lsu_take_rsp c r) = lc_req_idx c"
    "lc_byte_num (lsu_take_rsp c r) = lc_byte_num c"
proof -
  show "lc_req (lsu_take_rsp c r) = lc_req c" "ctx_acc (lsu_take_rsp c r) = ctx_acc c"
    "lc_req_idx (lsu_take_rsp c r) = lc_req_idx c" "lc_byte_num (lsu_take_rsp c r) = lc_byte_num c"
    by (simp_all add: lsu_take_rsp_def Let_def ctx_acc_def)
  have "ds = []" if "\<not> lc_split c" using assms that by (cases ds) (auto simp: ctx_ok_def expand_def ctx_acc_def)
  with assms show "ctx_ok (lsu_take_rsp c r, ds @ [lr_data r])"
    by (auto simp: ctx_ok_def lsu_take_rsp_def Let_def ctx_acc_def)
qed

lemma step_rsp:
  assumes t: "tab_ok L P" and h: "hist_ok D P I pend outs reqs R (r # rsps)" and r: "lr_ok r" and k: "k < length L"
    and c: "lc_rsp_idx (L ! k) < lc_req_idx (L ! k)"
    and before: "\<forall>i<k. lc_ready (L ! i) \<or> lc_rsp_idx (L ! i) \<ge> lc_req_idx (L ! i)"
  shows "\<exists>P'. tab_ok (L[k := lsu_take_rsp (L ! k) r]) P' \<and> hist_ok D P' I pend outs reqs R rsps"
proof -
  note n = tab_nth [OF t k]
  let ?c = "lsu_take_rsp (L ! k) r" and ?ds = "snd (P ! k) @ [lr_data r]"
  let ?P = "P[k := (?c, ?ds)]"
  note tk = ctx_take_rsp [OF n(3) c r]
  have fr: "frontier req_of num_of P" "frontier rsp_of num_of P" using t by (simp_all add: tab_ok_def)
  have full: "rsp_of (P ! i) = num_of (P ! i)" if i: "i < k" for i
  proof -
    note ni = tab_nth [OF t, of i]
    have "0 < req_of (P ! k)" using c n(2) by simp
    with frontierD [OF fr(1) i n(1)] have "req_of (P ! i) = num_of (P ! i)" .
    with before i k ni show ?thesis by (auto simp: ctx_ok_def)
  qed
  have lt: "rsp_of (P ! k) < num_of (P ! k)" using n c by (simp add: ctx_ok_def)
  have "frontier req_of num_of ?P" by (rule frontier_same [OF fr(1) n(1)]) (simp_all add: tk n)
  moreover have "frontier rsp_of num_of ?P" by (rule frontier_step [OF fr(2) n(1) lt]) (simp_all add: tk n full)
  ultimately have fr': "frontier req_of num_of ?P" "frontier rsp_of num_of ?P" by blast+
  have "\<forall>p\<in>set ?P. ctx_ok p" using t tk(1) set_update_subset_insert [of P k "(?c, ?ds)"] by (auto simp: tab_ok_def)
  with fr' t have "tab_ok (L[k := ?c]) ?P" by (simp add: tab_ok_def map_update)
  moreover have "concat (map snd ?P) = concat (map snd P) @ [lr_data r]"
  proof (rule concat_update [OF n(1)])
    show "snd (P ! j) = []" if "k < j" "j < length P" for j
      using frontier_after [OF fr(2) n(1) lt that] by simp
  qed simp
  moreover have "map (ctx_acc \<circ> fst) ?P = map (ctx_acc \<circ> fst) P" "map issued ?P = map issued P"
    using n(1,2) tk by (simp_all add: map_update list_update_same_conv issued_def)
  ultimately show ?thesis using h unfolding hist_ok_def by (intro exI [of _ ?P]) simp
qed

lemma step_send:
  assumes t: "tab_ok (c # L) P" and h: "hist_ok D P I pend outs reqs R rsps" and ready: "lc_ready c"
  shows "\<exists>D' P'. tab_ok L P' \<and> hist_ok D' P' I pend
    (outs @ [\<lparr>lr_data = (if lc_ok c \<and> \<not> lq_st (lc_req c) then lc_rsp_data c else 0), lr_ok = lc_ok c\<rparr>]) reqs R rsps"
proof -
  from t obtain ds P' where P: "P = (c, ds) # P'" "map fst P' = L" by (auto simp: tab_ok_def)
  have ok: "ctx_ok (c, ds)" using t P by (simp add: tab_ok_def)
  with ready have full: "lc_req_idx c = length (expand (ctx_acc c))" "length ds = length (expand (ctx_acc c))"
    by (auto simp: ctx_ok_def)
  with expand_nonempty [of "ctx_acc c"] have "ds \<noteq> []" by auto
  with ok have "\<lparr>lr_data = (if lc_ok c \<and> \<not> lq_st (lc_req c) then lc_rsp_data c else 0), lr_ok = lc_ok c\<rparr> = respond (ctx_acc c) ds"
    by (simp add: respond_def ctx_ok_def ctx_acc_def)
  moreover have "issued (c, ds) = expand (ctx_acc c)" using full(1) by (simp add: issued_def)
  moreover have "fst (ctx_acc c) = lc_req c" by (simp add: ctx_acc_def)
  moreover have "tab_ok L P'" using t P by (auto simp: tab_ok_def dest: frontier_tl)
  ultimately show ?thesis using h P full(2) unfolding hist_ok_def
    by (intro exI [of _ "D @ [(ctx_acc c, ds)]"] exI [of _ P']) simp
qed

subsection \<open>The operations keep the invariant\<close>

lemma lsu_inv_cong:
  assumes "ls_exu_ldst_req_slv s' = ls_exu_ldst_req_slv s" "ls_exu_ldst_rsp_mst s' = ls_exu_ldst_rsp_mst s"
    "ls_hbi_ldst_req_mst s' = ls_hbi_ldst_req_mst s" "ls_hbi_ldst_rsp_slv s' = ls_hbi_ldst_rsp_slv s"
    "ls_req_fifo s' = ls_req_fifo s" "ls_ost s' = ls_ost s" "ls_csr_state_i s' = ls_csr_state_i s" "lsu_inv s I os Q R"
  shows "lsu_inv s' I os Q R"
proof -
  have "lsu_acc s' = lsu_acc s" using assms(7) by (simp add: lsu_acc_def lsu_translation_enabled_def fun_eq_iff)
  with assms show ?thesis by (simp add: lsu_inv_def lsu_itfs_def)
qed

lemma lsu_inv_itfs:
  assumes "lsu_inv s I os Q R"
  shows "itf_inv (ls_exu_ldst_req_slv s)" "itf_inv (ls_exu_ldst_rsp_mst s)" "itf_inv (ls_hbi_ldst_req_mst s)"
    "itf_inv (ls_hbi_ldst_rsp_slv s)" "fifo_inv (ls_req_fifo s)" "ostq_inv (ls_ost s)"
  using assms by (simp_all add: lsu_inv_def lsu_itfs_def)

lemma lsu_tick_ost:
  assumes inv: "lsu_inv s I os Q R"
  shows "\<exists>ost. ostq_clock (ls_ost s) = Some ost \<and> lsu_inv (s\<lparr>ls_ost := ost\<rparr>) I os Q R"
proof -
  from ostq_clock_live [OF lsu_inv_itfs(6) [OF inv]] obtain ost where
    o: "ostq_clock (ls_ost s) = Some ost" "ostq_inv ost" "ostq_live ost = ostq_live (ls_ost s)" by blast
  with inv have "lsu_inv (s\<lparr>ls_ost := ost\<rparr>) I os Q R" by (simp add: lsu_inv_def lsu_itfs_def)
  with o show ?thesis by blast
qed

lemma lsu_capture_inv:
  assumes inv: "lsu_inv s I os Q R"
  shows "\<exists>s'. lsu_capture_req s = Some s' \<and> lsu_inv s' I os Q R"
proof (cases "fifo_full (ls_req_fifo s) \<or> itf_fifo_empty (ls_exu_ldst_req_slv s)")
  case True
  then have "lsu_capture_req s = Some s \<or> lsu_capture_req s = Some (s\<lparr>ls_perf_stg_full := ls_perf_stg_full s + 1\<rparr>)"
    by (auto simp: lsu_capture_req_def)
  moreover have "lsu_inv (s\<lparr>ls_perf_stg_full := ls_perf_stg_full s + 1\<rparr>) I os Q R"
    by (rule lsu_inv_cong [OF _ _ _ _ _ _ _ inv]) simp_all
  ultimately show ?thesis using inv by blast
next
  case False
  note i = lsu_inv_itfs [OF inv]
  from itf.pop_not_empty [OF i(1)] False obtain req q where
    q: "itf_read (ls_exu_ldst_req_slv s) = Some (req, q)" "itf_inv q" "itf_list (ls_exu_ldst_req_slv s) = req # itf_list q"
    by metis
  from fifo.push_ok [OF i(5), of req] False obtain f where
    f: "fifo_push (ls_req_fifo s) req = Some f" "fifo_inv f" "fifo_list f = fifo_list (ls_req_fifo s) @ [req]" by blast
  let ?s = "s\<lparr>ls_exu_ldst_req_slv := q, ls_req_fifo := f\<rparr>"
  have "lsu_capture_req s = Some ?s" using False q f by (simp add: lsu_capture_req_def)
  moreover have "lsu_inv ?s I os Q R" using inv q f by (simp add: lsu_inv_def lsu_itfs_def)
  ultimately show ?thesis by blast
qed

lemma lsu_alloc_inv:
  assumes inv: "lsu_inv s I os Q R"
  shows "\<exists>s'. lsu_alloc_req s = Some s' \<and> lsu_inv s' I os Q R"
proof (cases "fifo_empty (ls_req_fifo s) \<or> ostq_full (ls_ost s)")
  case True
  then have "lsu_alloc_req s = Some s \<or> lsu_alloc_req s = Some (s\<lparr>ls_perf_ost_full := ls_perf_ost_full s + 1\<rparr>)"
    by (auto simp: lsu_alloc_req_def)
  moreover have "lsu_inv (s\<lparr>ls_perf_ost_full := ls_perf_ost_full s + 1\<rparr>) I os Q R"
    by (rule lsu_inv_cong [OF _ _ _ _ _ _ _ inv]) simp_all
  ultimately show ?thesis using inv by blast
next
  case False
  note i = lsu_inv_itfs [OF inv]
  from fifo.pop_not_empty [OF i(5)] False obtain req f where
    f: "fifo_pop (ls_req_fifo s) = Some (req, f)" "fifo_inv f" "fifo_list (ls_req_fifo s) = req # fifo_list f" by metis
  define sp where "sp = (lq_cmo req = LDST_REQ_CMO_NONE \<and> lsu_translation_enabled s \<and> lsu_cross_page req)"
  define c where "c = \<lparr>lc_req = req, lc_split = sp, lc_byte_num = (if sp then lsu_req_byte_num (lq_size req) else 1),
      lc_req_idx = 0, lc_rsp_idx = 0, lc_rsp_data = 0, lc_ready = False, lc_ok = True\<rparr>"
  from ostq_alloc_live [OF i(6), of c] False obtain slot ost where
    o: "ostq_alloc (ls_ost s) c = Some (Some (slot, ost))" "ostq_inv ost" "ostq_live ost = ostq_live (ls_ost s) @ [c]" by blast
  have c: "ctx_ok (c, [])" "lc_req_idx c = 0" "ctx_acc c = lsu_acc s req"
    using expand_nonempty [of "(req, sp)"] by (auto simp: ctx_ok_def c_def ctx_acc_def expand_def lsu_acc_def sp_def)
  from inv obtain D P where t: "tab_ok (ostq_live (ls_ost s)) P"
    and h: "hist_ok D P I (ctx_acc c # map (lsu_acc s) (fifo_list f @ itf_list (ls_exu_ldst_req_slv s))) (os @ itf_list (ls_exu_ldst_rsp_mst s))
      (Q @ itf_list (ls_hbi_ldst_req_mst s)) R (itf_list (ls_hbi_ldst_rsp_slv s))"
    unfolding lsu_inv_def f(3) c(3) by auto
  let ?s = "s\<lparr>ls_req_fifo := f, ls_ost := ost\<rparr>"
  have "lsu_inv ?s I os Q R" using inv step_alloc [OF t h c(1,2)] o f by (auto simp: lsu_inv_def lsu_itfs_def)
  moreover have "lsu_alloc_req s = Some ?s"
    using False f o(1) unfolding c_def sp_def by (simp add: lsu_alloc_req_def)
  ultimately show ?thesis by blast
qed

lemma lsu_issue_inv:
  assumes inv: "lsu_inv s I os Q R"
  shows "\<exists>s'. lsu_issue_req s = Some s' \<and> lsu_inv s' I os Q R"
proof -
  note i = lsu_inv_itfs [OF inv]
  let ?L = "ostq_live (ls_ost s)" and ?cond = "\<lambda>cur. \<not> (lc_ready cur \<or> lc_req_idx cur \<ge> lc_byte_num cur)"
  have find: "lsu_find_issue_slot s = Some (map_option (\<lambda>k. (ostq_slot (ls_ost s) k, ?L ! k)) (find_idx ?cond ?L))"
    unfolding lsu_find_issue_slot_def by (rule ostq_find_eq [OF i(6)])
  show ?thesis
  proof (cases "itf_fifo_full (ls_hbi_ldst_req_mst s) \<or> find_idx ?cond ?L = None")
    case True
    with find have "lsu_issue_req s = Some s" by (auto simp: lsu_issue_req_def)
    with inv show ?thesis by blast
  next
    case False
    then obtain k where k: "find_idx ?cond ?L = Some k" by auto
    let ?c = "?L ! k"
    from find_idx_SomeD [OF k] have k': "k < length ?L" "lc_req_idx ?c < lc_byte_num ?c" by auto
    from itf.push_ok [OF i(3), of "next_req ?c"] False obtain q where
      q: "itf_write (ls_hbi_ldst_req_mst s) (next_req ?c) = Some q" "itf_inv q"
        "itf_list q = itf_list (ls_hbi_ldst_req_mst s) @ [next_req ?c]" by blast
    from ostq_write_live [OF i(6) k'(1), of "?c\<lparr>lc_req_idx := lc_req_idx ?c + 1\<rparr>"] obtain ost where
      o: "ostq_write_slot (ls_ost s) (ostq_slot (ls_ost s) k) (?c\<lparr>lc_req_idx := lc_req_idx ?c + 1\<rparr>) = Some ost"
        "ostq_inv ost" "ostq_live ost = ?L[k := ?c\<lparr>lc_req_idx := lc_req_idx ?c + 1\<rparr>]" by blast
    let ?s = "s\<lparr>ls_hbi_ldst_req_mst := q, ls_ost := ost\<rparr>"
    have step: "lsu_issue_req s = Some ?s"
      using False find k q(1) o(1) by (simp add: lsu_issue_req_def next_req_def)
    from inv obtain D P where t: "tab_ok ?L P" and h: "hist_ok D P I (map (lsu_acc s) (fifo_list (ls_req_fifo s) @ itf_list (ls_exu_ldst_req_slv s)))
      (os @ itf_list (ls_exu_ldst_rsp_mst s)) (Q @ itf_list (ls_hbi_ldst_req_mst s)) R (itf_list (ls_hbi_ldst_rsp_slv s))"
      unfolding lsu_inv_def by blast
    have "lc_req_idx (?L ! j) \<ge> lc_byte_num (?L ! j)" if "j < k" for j
      using find_idx_SomeD [OF k] tab_nth(3) [OF t, of j] that by (auto simp: ctx_ok_def)
    with step_issue [OF t h k'] obtain P' where
      "tab_ok (ostq_live ost) P'" "hist_ok D P' I (map (lsu_acc s) (fifo_list (ls_req_fifo s) @ itf_list (ls_exu_ldst_req_slv s)))
      (os @ itf_list (ls_exu_ldst_rsp_mst s)) (Q @ itf_list q) R (itf_list (ls_hbi_ldst_rsp_slv s))"
      unfolding o(3) q(3) append_assoc [symmetric] by blast
    with inv q(2) o(2) have "lsu_inv ?s I os Q R" by (auto simp: lsu_inv_def lsu_itfs_def)
    with step show ?thesis by blast
  qed
qed

lemma lsu_rsp_inv:
  assumes inv: "lsu_inv s I os Q R"
  shows "\<exists>s'. lsu_proc_rsp s = Some s' \<and> lsu_inv s' I os Q R"
proof -
  note i = lsu_inv_itfs [OF inv]
  let ?L = "ostq_live (ls_ost s)" and ?cond = "\<lambda>cur. \<not> (lc_ready cur \<or> lc_rsp_idx cur \<ge> lc_req_idx cur)"
  have find: "lsu_find_rsp_slot s = Some (map_option (\<lambda>k. (ostq_slot (ls_ost s) k, ?L ! k)) (find_idx ?cond ?L))"
    unfolding lsu_find_rsp_slot_def by (rule ostq_find_eq [OF i(6)])
  show ?thesis
  proof (cases "itf_fifo_empty (ls_hbi_ldst_rsp_slv s) \<or> find_idx ?cond ?L = None")
    case True
    with find have "lsu_proc_rsp s = Some s" by (auto simp: lsu_proc_rsp_def)
    with inv show ?thesis by blast
  next
    case False
    then obtain k where k: "find_idx ?cond ?L = Some k" by auto
    let ?c = "?L ! k"
    from find_idx_SomeD [OF k] have k': "k < length ?L" "lc_rsp_idx ?c < lc_req_idx ?c"
      "\<forall>j<k. lc_ready (?L ! j) \<or> lc_rsp_idx (?L ! j) \<ge> lc_req_idx (?L ! j)" by auto
    from itf.pop_not_empty [OF i(4)] False obtain r q where
      q: "itf_read (ls_hbi_ldst_rsp_slv s) = Some (r, q)" "itf_inv q" "itf_list (ls_hbi_ldst_rsp_slv s) = r # itf_list q" by metis
    from ostq_write_live [OF i(6) k'(1), of "lsu_take_rsp ?c r"] obtain ost where
      o: "ostq_write_slot (ls_ost s) (ostq_slot (ls_ost s) k) (lsu_take_rsp ?c r) = Some ost"
        "ostq_inv ost" "ostq_live ost = ?L[k := lsu_take_rsp ?c r]" by blast
    let ?s = "s\<lparr>ls_hbi_ldst_rsp_slv := q, ls_ost := ost\<rparr>"
    have step: "lsu_proc_rsp s = Some ?s" using False find k q(1) o(1) by (simp add: lsu_proc_rsp_def)
    from inv obtain D P where t: "tab_ok ?L P" and h: "hist_ok D P I (map (lsu_acc s) (fifo_list (ls_req_fifo s) @ itf_list (ls_exu_ldst_req_slv s)))
      (os @ itf_list (ls_exu_ldst_rsp_mst s)) (Q @ itf_list (ls_hbi_ldst_req_mst s)) R (r # itf_list q)"
      unfolding lsu_inv_def q(3) by blast
    have oks: "lr_ok r" "\<forall>x\<in>set (itf_list q). lr_ok x" using inv q(3) by (simp_all add: lsu_inv_def)
    from step_rsp [OF t h oks(1) k'] obtain P' where
      "tab_ok (ostq_live ost) P'" "hist_ok D P' I (map (lsu_acc s) (fifo_list (ls_req_fifo s) @ itf_list (ls_exu_ldst_req_slv s)))
      (os @ itf_list (ls_exu_ldst_rsp_mst s)) (Q @ itf_list (ls_hbi_ldst_req_mst s)) R (itf_list q)"
      unfolding o(3) by blast
    with inv oks q(2) o(2) have "lsu_inv ?s I os Q R" by (auto simp: lsu_inv_def lsu_itfs_def)
    with step show ?thesis by blast
  qed
qed

lemma lsu_send_inv:
  assumes inv: "lsu_inv s I os Q R"
  shows "\<exists>s'. lsu_send_ready_rsp s = Some s' \<and> lsu_inv s' I os Q R"
proof -
  note i = lsu_inv_itfs [OF inv]
  note peek = ostq_peek_live [OF i(6)]
  show ?thesis
  proof (cases "itf_fifo_full (ls_exu_ldst_rsp_mst s) \<or> ostq_head_freed (ls_ost s) \<or> ostq_live (ls_ost s) = []
      \<or> \<not> lc_ready (hd (ostq_live (ls_ost s)))")
    case True
    with peek have "lsu_send_ready_rsp s = Some s" by (auto simp: lsu_send_ready_rsp_def)
    with inv show ?thesis by blast
  next
    case False
    then obtain c L where L: "ostq_live (ls_ost s) = c # L" and ready: "lc_ready c"
      by (cases "ostq_live (ls_ost s)") auto
    let ?r = "\<lparr>lr_data = (if lc_ok c \<and> \<not> lq_st (lc_req c) then lc_rsp_data c else 0), lr_ok = lc_ok c\<rparr>"
    from itf.push_ok [OF i(2), of ?r] False obtain q where
      q: "itf_write (ls_exu_ldst_rsp_mst s) ?r = Some q" "itf_inv q" "itf_list q = itf_list (ls_exu_ldst_rsp_mst s) @ [?r]" by blast
    from ostq_free_live [OF i(6)] False L obtain ost where
      o: "ostq_free_head (ls_ost s) = Some ost" "ostq_inv ost" "ostq_live ost = L" by auto
    let ?s = "s\<lparr>ls_exu_ldst_rsp_mst := q, ls_ost := ost\<rparr>"
    have step: "lsu_send_ready_rsp s = Some ?s"
      using False peek L ready q(1) o(1) by (simp add: lsu_send_ready_rsp_def)
    from inv obtain D P where t: "tab_ok (c # L) P" and h: "hist_ok D P I (map (lsu_acc s) (fifo_list (ls_req_fifo s) @ itf_list (ls_exu_ldst_req_slv s)))
      (os @ itf_list (ls_exu_ldst_rsp_mst s)) (Q @ itf_list (ls_hbi_ldst_req_mst s)) R (itf_list (ls_hbi_ldst_rsp_slv s))"
      unfolding lsu_inv_def L by blast
    from step_send [OF t h ready] obtain D' P' where
      "tab_ok (ostq_live ost) P'" "hist_ok D' P' I (map (lsu_acc s) (fifo_list (ls_req_fifo s) @ itf_list (ls_exu_ldst_req_slv s)))
      (os @ itf_list q) (Q @ itf_list (ls_hbi_ldst_req_mst s)) R (itf_list (ls_hbi_ldst_rsp_slv s))"
      unfolding o(3) q(3) append_assoc [symmetric] by blast
    with inv q(2) o(2) have "lsu_inv ?s I os Q R" by (auto simp: lsu_inv_def lsu_itfs_def)
    with step show ?thesis by blast
  qed
qed

lemma lsu_dbg_inv:
  assumes inv: "lsu_inv s I os Q R"
  shows "\<exists>s'. lsu_update_dbg_state s = Some s' \<and> lsu_inv s' I os Q R"
proof -
  let ?s = "the (lsu_update_dbg_state s)"
  have "lsu_update_dbg_state s \<noteq> None"
    using ostq_peek_live [OF lsu_inv_itfs(6) [OF inv]] by (simp add: lsu_update_dbg_state_def Let_def)
  then have s: "lsu_update_dbg_state s = Some ?s" by auto
  have "lsu_inv ?s I os Q R"
    by (rule lsu_inv_cong [OF _ _ _ _ _ _ _ inv])
      (simp_all add: lsu_update_dbg_state_def Let_def ostq_peek_live [OF lsu_inv_itfs(6) [OF inv]])
  with s show ?thesis by blast
qed

lemma lsu_clock_inv:
  assumes inv: "lsu_inv s I os Q R"
  shows "\<exists>s'. lsu_clock s = Some s' \<and> lsu_inv s' I os Q R"
proof -
  from lsu_tick_ost [OF inv] obtain ost where o: "ostq_clock (ls_ost s) = Some ost" "lsu_inv (s\<lparr>ls_ost := ost\<rparr>) I os Q R" by blast
  from lsu_capture_inv [OF o(2)] obtain s1 where 1: "lsu_capture_req (s\<lparr>ls_ost := ost\<rparr>) = Some s1" "lsu_inv s1 I os Q R" by blast
  from lsu_rsp_inv [OF 1(2)] obtain s2 where 2: "lsu_proc_rsp s1 = Some s2" "lsu_inv s2 I os Q R" by blast
  from lsu_send_inv [OF 2(2)] obtain s3 where 3: "lsu_send_ready_rsp s2 = Some s3" "lsu_inv s3 I os Q R" by blast
  from lsu_issue_inv [OF 3(2)] obtain s4 where 4: "lsu_issue_req s3 = Some s4" "lsu_inv s4 I os Q R" by blast
  from lsu_alloc_inv [OF 4(2)] obtain s5 where 5: "lsu_alloc_req s4 = Some s5" "lsu_inv s5 I os Q R" by blast
  from lsu_issue_inv [OF 5(2)] obtain s6 where 6: "lsu_issue_req s5 = Some s6" "lsu_inv s6 I os Q R" by blast
  from lsu_dbg_inv [OF 6(2)] o(1) 1(1) 2(1) 3(1) 4(1) 5(1) 6(1) show ?thesis by (simp add: lsu_clock_def)
qed

section \<open>Runs\<close>

text \<open>
  A run of the unit between its neighbours: the execution unit sends requests and collects
  responses, the bus interface collects requests and answers them successfully and in order,
  and the translation control changes only while the unit holds no access. The histories are
  those of \<open>lsu_inv\<close>.
\<close>

definition lsu_idle :: "lsu \<Rightarrow> bool" where
  "lsu_idle s \<longleftrightarrow> fifo_empty (ls_req_fifo s) \<and> itf_fifo_empty (ls_exu_ldst_req_slv s)"

definition lsu_fresh :: "lsu \<Rightarrow> bool" where
  "lsu_fresh s \<longleftrightarrow> lsu_itfs s \<and> itf_list (ls_exu_ldst_req_slv s) = [] \<and> itf_list (ls_exu_ldst_rsp_mst s) = []
     \<and> itf_list (ls_hbi_ldst_req_mst s) = [] \<and> itf_list (ls_hbi_ldst_rsp_slv s) = [] \<and> fifo_list (ls_req_fifo s) = []
     \<and> ostq_live (ls_ost s) = []"

inductive lsu_run :: "lsu \<Rightarrow> lsu \<Rightarrow> acc list \<Rightarrow> ldst_rsp list \<Rightarrow> ldst_req list \<Rightarrow> u32 list \<Rightarrow> bool" for s0 where
  start: "lsu_run s0 s0 [] [] [] []"
| exu_send: "lsu_run s0 s I os Q R \<Longrightarrow> itf_write (ls_exu_ldst_req_slv s) req = Some t \<Longrightarrow>
    lsu_run s0 (s\<lparr>ls_exu_ldst_req_slv := t\<rparr>) (I @ [lsu_acc s req]) os Q R"
| exu_recv: "lsu_run s0 s I os Q R \<Longrightarrow> itf_read (ls_exu_ldst_rsp_mst s) = Some (rsp, t) \<Longrightarrow>
    lsu_run s0 (s\<lparr>ls_exu_ldst_rsp_mst := t\<rparr>) I (os @ [rsp]) Q R"
| hbi_recv: "lsu_run s0 s I os Q R \<Longrightarrow> itf_read (ls_hbi_ldst_req_mst s) = Some (req, t) \<Longrightarrow>
    lsu_run s0 (s\<lparr>ls_hbi_ldst_req_mst := t\<rparr>) I os (Q @ [req]) R"
| hbi_send: "lsu_run s0 s I os Q R \<Longrightarrow> length R < length Q \<Longrightarrow>
    itf_write (ls_hbi_ldst_rsp_slv s) \<lparr>lr_data = d, lr_ok = True\<rparr> = Some t \<Longrightarrow>
    lsu_run s0 (s\<lparr>ls_hbi_ldst_rsp_slv := t\<rparr>) I os Q (R @ [d])"
| csr_change: "lsu_run s0 s I os Q R \<Longrightarrow> lsu_idle s \<Longrightarrow> lsu_run s0 (s\<lparr>ls_csr_state_i := c\<rparr>) I os Q R"
| tick: "lsu_run s0 s I os Q R \<Longrightarrow> lsu_clock s = Some s' \<Longrightarrow> lsu_run s0 s' I os Q R"

lemma lsu_fresh_inv: "lsu_fresh s \<Longrightarrow> lsu_inv s [] [] [] []"
  by (simp add: lsu_fresh_def lsu_inv_def tab_ok_def hist_ok_def frontier_def)

lemma hist_grow:
  "hist_ok D P I pend outs reqs R rsps \<Longrightarrow> hist_ok D P (I @ [a]) (pend @ [a]) outs reqs R rsps"
  "hist_ok D P I pend outs reqs R rsps \<Longrightarrow> hist_ok D P I pend outs reqs (R @ [lr_data r]) (rsps @ [r])"
  by (simp_all add: hist_ok_def)

lemma lsu_run_inv:
  assumes "lsu_run s0 s I os Q R" "lsu_fresh s0"
  shows "lsu_inv s I os Q R"
  using assms(1)
proof (induction rule: lsu_run.induct)
  case start
  show ?case by (rule lsu_fresh_inv [OF assms(2)])
next
  case (exu_send s I os Q R req t)
  from itf.push_SomeD [OF exu_send.hyps(2) lsu_inv_itfs(1) [OF exu_send.IH]]
  have t: "itf_inv t" "itf_list t = itf_list (ls_exu_ldst_req_slv s) @ [req]" by simp_all
  with exu_send.IH hist_grow(1) [where a = "lsu_acc s req"] show ?case
    by (fastforce simp: lsu_inv_def lsu_itfs_def)
next
  case (exu_recv s I os Q R rsp t)
  from itf.pop_SomeD [OF exu_recv.hyps(2) lsu_inv_itfs(2) [OF exu_recv.IH]] exu_recv.IH
  show ?case by (simp add: lsu_inv_def lsu_itfs_def)
next
  case (hbi_recv s I os Q R req t)
  from itf.pop_SomeD [OF hbi_recv.hyps(2) lsu_inv_itfs(3) [OF hbi_recv.IH]] hbi_recv.IH
  show ?case by (simp add: lsu_inv_def lsu_itfs_def)
next
  case (hbi_send s I os Q R d t)
  from itf.push_SomeD [OF hbi_send.hyps(3) lsu_inv_itfs(4) [OF hbi_send.IH]]
  have t: "itf_inv t" "itf_list t = itf_list (ls_hbi_ldst_rsp_slv s) @ [\<lparr>lr_data = d, lr_ok = True\<rparr>]" by simp_all
  with hbi_send.IH hist_grow(2) [where r = "\<lparr>lr_data = d, lr_ok = True\<rparr>"] show ?case
    by (fastforce simp: lsu_inv_def lsu_itfs_def)
next
  case (csr_change s I os Q R c)
  note i = lsu_inv_itfs [OF csr_change.IH]
  from csr_change.hyps(2) have "fifo_list (ls_req_fifo s) = []" "itf_list (ls_exu_ldst_req_slv s) = []"
    using itf.is_empty_iff [OF i(1)] fifo.is_empty_iff [OF i(5)] by (simp_all add: lsu_idle_def)
  with csr_change.IH show ?case by (simp add: lsu_inv_def lsu_itfs_def)
next
  case (tick s I os Q R s')
  with lsu_clock_inv [OF tick.IH] show ?case by auto
qed

section \<open>Properties\<close>

text \<open>
  C10. Every access is answered once, in order and with its own data. In a run in which the bus
  interface answers every request successfully and the translation mode changes only while the unit is idle, the unit never aborts; the requests on the bus are those of
  the accesses in order (the access itself, or one byte request per byte when it is split);
  and the responses to the execution unit are, in order, the data of each access, put together
  from its bytes when it was split.
\<close>

theorem lsu_transparent:
  assumes "lsu_fresh s0" and "lsu_run s0 s I os Q R"
  shows "lsu_clock s \<noteq> None \<and> prefix Q (concat (map expand I)) \<and> prefix os (serve I R)"
proof -
  note inv = lsu_run_inv [OF assms(2,1)]
  from inv obtain D P pend where h: "hist_ok D P I pend (os @ itf_list (ls_exu_ldst_rsp_mst s))
      (Q @ itf_list (ls_hbi_ldst_req_mst s)) R (itf_list (ls_hbi_ldst_rsp_slv s))" and t: "tab_ok (ostq_live (ls_ost s)) P"
    unfolding lsu_inv_def by blast
  have "prefix (os @ itf_list (ls_exu_ldst_rsp_mst s)) (serve I R)"
    using h serve_append [of D] unfolding hist_ok_def by simp
  then have "prefix os (serve I R)" by (rule append_prefixD)
  moreover have "prefix (Q @ itf_list (ls_hbi_ldst_req_mst s)) (concat (map expand I))"
    using h tab_issued_prefix [OF t] unfolding hist_ok_def by simp
  then have "prefix Q (concat (map expand I))" by (rule append_prefixD)
  ultimately show ?thesis using lsu_clock_inv [OF inv] by auto
qed

text \<open>A scheduler for concrete runs.\<close>

datatype lsu_ev = ExuSend ldst_req | ExuRecv | HbiRecv | HbiSend ldst_rsp | Tick

type_synonym lsu_hist = "lsu \<times> acc list \<times> ldst_rsp list \<times> ldst_req list \<times> u32 list"

fun lsu_event :: "lsu_ev \<Rightarrow> lsu_hist \<Rightarrow> lsu_hist option" where
  "lsu_event (ExuSend req) (s, I, os, Q, R) =
     map_option (\<lambda>t. (s\<lparr>ls_exu_ldst_req_slv := t\<rparr>, I @ [lsu_acc s req], os, Q, R)) (itf_write (ls_exu_ldst_req_slv s) req)"
| "lsu_event ExuRecv (s, I, os, Q, R) =
     map_option (\<lambda>(rsp, t). (s\<lparr>ls_exu_ldst_rsp_mst := t\<rparr>, I, os @ [rsp], Q, R)) (itf_read (ls_exu_ldst_rsp_mst s))"
| "lsu_event HbiRecv (s, I, os, Q, R) =
     map_option (\<lambda>(req, t). (s\<lparr>ls_hbi_ldst_req_mst := t\<rparr>, I, os, Q @ [req], R)) (itf_read (ls_hbi_ldst_req_mst s))"
| "lsu_event (HbiSend rsp) (s, I, os, Q, R) = (if length R < length Q then
     map_option (\<lambda>t. (s\<lparr>ls_hbi_ldst_rsp_slv := t\<rparr>, I, os, Q, R @ [lr_data rsp])) (itf_write (ls_hbi_ldst_rsp_slv s) rsp) else None)"
| "lsu_event Tick (s, I, os, Q, R) = map_option (\<lambda>s'. (s', I, os, Q, R)) (lsu_clock s)"

fun lsu_exec :: "lsu_ev list \<Rightarrow> lsu_hist \<Rightarrow> lsu_hist option" where
  "lsu_exec [] h = Some h"
| "lsu_exec (e # es) h = Option.bind (lsu_event e h) (lsu_exec es)"

lemma lsu_exec_run:
  assumes "lsu_run s0 s I os Q R" "\<forall>r. HbiSend r \<in> set es \<longrightarrow> lr_ok r" "lsu_exec es (s, I, os, Q, R) = Some (s', I', os', Q', R')"
  shows "lsu_run s0 s' I' os' Q' R'"
  using assms
proof (induction es arbitrary: s I os Q R)
  case (Cons e es)
  from Cons.prems(3) obtain s1 I1 os1 Q1 R1 where
    e: "lsu_event e (s, I, os, Q, R) = Some (s1, I1, os1, Q1, R1)" "lsu_exec es (s1, I1, os1, Q1, R1) = Some (s', I', os', Q', R')"
    by (auto simp: bind_eq_Some_conv)
  have "lsu_run s0 s1 I1 os1 Q1 R1"
  proof (cases e)
    case (HbiSend r)
    with Cons.prems(2) have "r = \<lparr>lr_data = lr_data r, lr_ok = True\<rparr>" by (cases r) auto
    with HbiSend e(1) Cons.prems(1) show ?thesis by (auto split: if_splits intro: lsu_run.hbi_send)
  qed (use e(1) Cons.prems(1) in \<open>auto intro: lsu_run.intros\<close>)
  from Cons.IH [OF this _ e(2)] Cons.prems(2) show ?case by simp
qed simp

definition lsu_sample :: lsu where
  "lsu_sample = \<lparr>ls_exu_ldst_req_slv = fifo_itf_construct 1, ls_exu_ldst_rsp_mst = fifo_itf_construct 1,
     ls_hbi_ldst_req_mst = fifo_itf_construct 1, ls_hbi_ldst_rsp_slv = fifo_itf_construct 1,
     ls_csr_state_i = \<lparr>cl_satp = 0x80000000\<rparr>, ls_req_fifo = the (fifo_construct 2), ls_ost = the (ostq_construct 2),
     ls_busy = False, ls_split = False, ls_req = ldst_req_init, ls_byte_num = 0, ls_req_byte_idx = 0,
     ls_rsp_byte_idx = 0, ls_rsp_data = 0, ls_perf_stg_full = 0, ls_perf_ost_full = 0\<rparr>"

lemma lsu_sample_fresh: "lsu_fresh lsu_sample"
proof -
  have f: "fifo_construct 2 = Some (the (fifo_construct 2 :: ldst_req fifo option))" by (simp add: fifo_construct_def)
  have o: "ostq_construct 2 = Some (the (ostq_construct 2 :: lsu_ost_ctx ostq option))" by (simp add: ostq_construct_def)
  from fifo_construct_inv [OF f] ostq_construct_live [OF o] show ?thesis
    by (simp add: lsu_fresh_def lsu_itfs_def lsu_sample_def del: One_nat_def)
qed

text \<open>A halfword load from the last byte of a page: two byte requests, one response.\<close>

definition lsu_sample_req :: ldst_req where
  "lsu_sample_req = ldst_req_init\<lparr>lq_size := LDST_REQ_SIZE_B2, lq_addr := 0x1fff\<rparr>"

definition lsu_sample_evs :: "lsu_ev list" where
  "lsu_sample_evs = [ExuSend lsu_sample_req, Tick, HbiRecv, HbiSend \<lparr>lr_data = 0x34, lr_ok = True\<rparr>, Tick, HbiRecv,
     HbiSend \<lparr>lr_data = 0x12, lr_ok = True\<rparr>, Tick, ExuRecv]"

definition lsu_sample_end :: lsu_hist where
  "lsu_sample_end = the (lsu_exec lsu_sample_evs (lsu_sample, [], [], [], []))"

theorem lsu_transparent_witness:
  "let (s, I, os, Q, R) = lsu_sample_end in
     I = [(lsu_sample_req, True)] \<and> R = [0x34, 0x12] \<and> os = [\<lparr>lr_data = 0x1234, lr_ok = True\<rparr>]
     \<and> lsu_clock s \<noteq> None \<and> prefix Q (concat (map expand I)) \<and> prefix os (serve I R)"
proof -
  obtain s I os Q R where e: "lsu_sample_end = (s, I, os, Q, R)" by (cases lsu_sample_end)
  have "lsu_exec lsu_sample_evs (lsu_sample, [], [], [], []) \<noteq> None" by code_simp
  then have x: "lsu_exec lsu_sample_evs (lsu_sample, [], [], [], []) = Some (s, I, os, Q, R)" using e unfolding lsu_sample_end_def by (metis option.collapse)
  have "fst (snd lsu_sample_end) = [(lsu_sample_req, True)]" "snd (snd (snd (snd lsu_sample_end))) = [0x34, 0x12]"
    "fst (snd (snd lsu_sample_end)) = [\<lparr>lr_data = 0x1234, lr_ok = True\<rparr>]" by code_simp+
  then have v: "I = [(lsu_sample_req, True)]" "R = [0x34, 0x12]" "os = [\<lparr>lr_data = 0x1234, lr_ok = True\<rparr>]" by (simp_all add: e)
  have "\<forall>r. HbiSend r \<in> set lsu_sample_evs \<longrightarrow> lr_ok r" by (auto simp: lsu_sample_evs_def)
  from lsu_transparent [OF lsu_sample_fresh lsu_exec_run [OF lsu_run.start this x]] v show ?thesis
    unfolding e Let_def prod.case by blast
qed

end
