(* ===== verification/Mmu.thy ===== *)
theory Mmu
  imports OstSlots Packets BtiPackets
begin

text \<open>
  The address translation unit (\<^verbatim>\<open>core/hart/mmu.c\<close>): it takes instruction fetches and data
  accesses with virtual addresses, translates them by the Sv32 page tables through a page table
  walker and two translation buffers, and sends them on with physical addresses; faults are
  reported as exceptions. Responses leave in the order of the requests, per side.
\<close>

section \<open>State\<close>

abbreviation (input) MMU_ITLB_SIZE :: nat where "MMU_ITLB_SIZE \<equiv> 64"
abbreviation (input) MMU_DTLB_SIZE :: nat where "MMU_DTLB_SIZE \<equiv> 32"
abbreviation (input) MMU_PTE_TRANS_ID :: u16 where "MMU_PTE_TRANS_ID \<equiv> 0xfffe"

abbreviation (input) PTE_V :: u32 where "PTE_V \<equiv> 0x01"
abbreviation (input) PTE_R :: u32 where "PTE_R \<equiv> 0x02"
abbreviation (input) PTE_W :: u32 where "PTE_W \<equiv> 0x04"
abbreviation (input) PTE_X :: u32 where "PTE_X \<equiv> 0x08"
abbreviation (input) PTE_U :: u32 where "PTE_U \<equiv> 0x10"
abbreviation (input) PTE_A :: u32 where "PTE_A \<equiv> 0x40"
abbreviation (input) PTE_D :: u32 where "PTE_D \<equiv> 0x80"

record mmu_tlb_entry =
  te_vld :: bool
  te_tag :: u32
  te_satp_ppn :: u32
  te_satp_asid :: u32
  te_priv :: priv
  te_sum :: bool
  te_mxr :: bool
  te_level :: int
  te_pte :: u32
  te_pa_base :: u32

record mmu_ost_ctx =
  mo_is_inst :: bool
  mo_req :: bti_req
  mo_pa_issued :: bool
  mo_ready :: bool
  mo_expt_vld :: bool
  mo_expt :: hart_expt
  mo_rsp :: bti_rsp

record mmu_req_ctx =
  mr_req :: bti_req
  mr_priv :: priv
  mr_sum :: bool
  mr_mxr :: bool
  mr_fault_pc :: u32

record mmu =
  mm_va_i_bti_req_slv :: "bti_req itf"
  mm_va_i_bti_rsp_mst :: "bti_rsp itf"
  mm_va_d_bti_req_slv :: "bti_req itf"
  mm_va_d_bti_rsp_mst :: "bti_rsp itf"
  mm_fch_expt_mst :: "hart_expt itf"
  mm_ldst_expt_mst :: "hart_expt itf"
  mm_pa_i_bti_req_mst :: "bti_req itf"
  mm_pa_i_bti_rsp_slv :: "bti_rsp itf"
  mm_pa_d_bti_req_mst :: "bti_req itf"
  mm_pa_d_bti_rsp_slv :: "bti_rsp itf"
  mm_ptw_bti_req_mst :: "bti_req itf"
  mm_ptw_bti_rsp_slv :: "bti_rsp itf"
  mm_tlb_flush_slv :: "tlb_flush itf"
  mm_exu_state_i :: exu_state
  mm_csr_state_i :: csr_mmu_state
  mm_va_i_req_fifo :: "mmu_req_ctx fifo"
  mm_va_d_req_fifo :: "mmu_req_ctx fifo"
  mm_i_ost :: "mmu_ost_ctx ostq"
  mm_d_ost :: "mmu_ost_ctx ostq"
  mm_walk_slot_vld :: bool
  mm_walk_is_inst :: bool
  mm_walk_slot :: nat
  mm_busy :: bool
  mm_is_inst :: bool
  mm_req :: bti_req
  mm_req_priv :: priv
  mm_req_sum :: bool
  mm_req_mxr :: bool
  mm_fault_pc :: u32
  mm_root_base :: u32
  mm_va :: u32
  mm_pte :: u32
  mm_leaf_pa_base :: u32
  mm_level :: int
  mm_pte_req_pending :: bool
  mm_final_req_pending :: bool
  mm_final_rsp_pending :: bool
  mm_drop_ptw_rsp :: bool
  mm_drop_i_rsp :: bool
  mm_bare_i_rsp_pending :: bool
  mm_itlb_replace_idx :: nat
  mm_dtlb_replace_idx :: nat
  mm_itlb :: "mmu_tlb_entry list"
  mm_dtlb :: "mmu_tlb_entry list"
  mm_perf_itlb_hit :: u64
  mm_perf_itlb_miss :: u64
  mm_perf_dtlb_hit :: u64
  mm_perf_dtlb_miss :: u64
  mm_perf_i_stg_full :: u64
  mm_perf_d_stg_full :: u64
  mm_perf_i_ost_full :: u64
  mm_perf_d_ost_full :: u64

datatype mmu_access = MMU_ACCESS_INST | MMU_ACCESS_LOAD | MMU_ACCESS_STORE

section \<open>mmu.c: requests and completion\<close>

definition mmu_data_access_from_cmd :: "bti_req_cmd \<Rightarrow> mmu_access" where
  "mmu_data_access_from_cmd cmd = (case cmd of
     BTI_REQ_CMD_READ \<Rightarrow> MMU_ACCESS_LOAD | BTI_REQ_CMD_CBO_INVAL \<Rightarrow> MMU_ACCESS_LOAD
   | BTI_REQ_CMD_CBO_CLEAN \<Rightarrow> MMU_ACCESS_LOAD | BTI_REQ_CMD_CBO_FLUSH \<Rightarrow> MMU_ACCESS_LOAD
   | BTI_REQ_CMD_WRITE \<Rightarrow> MMU_ACCESS_STORE)"

definition mmu_mstatus :: "mmu \<Rightarrow> u32" where
  "mmu_mstatus mmu = cm_mstatus (mm_csr_state_i mmu)"

definition mmu_satp :: "mmu \<Rightarrow> u32" where
  "mmu_satp mmu = cm_satp (mm_csr_state_i mmu)"

text \<open>The bit-fields of \<^verbatim>\<open>rv32g_csr_satp_t\<close> and \<^verbatim>\<open>rv32g_csr_mstatus_t\<close> the unit reads.\<close>

definition satp_ppn :: "u32 \<Rightarrow> u32" where "satp_ppn r = bf 0 22 r"
definition satp_asid :: "u32 \<Rightarrow> u32" where "satp_asid r = bf 22 9 r"
definition satp_mode :: "u32 \<Rightarrow> u32" where "satp_mode r = bf 31 1 r"
definition mstatus_mprv :: "u32 \<Rightarrow> u32" where "mstatus_mprv r = bf 17 1 r"
definition mstatus_mpp :: "u32 \<Rightarrow> u32" where "mstatus_mpp r = bf 11 2 r"
definition mstatus_sum :: "u32 \<Rightarrow> u32" where "mstatus_sum r = bf 18 1 r"
definition mstatus_mxr :: "u32 \<Rightarrow> u32" where "mstatus_mxr r = bf 19 1 r"

definition mmu_reset :: "mmu \<Rightarrow> mmu" where
  "mmu_reset mmu = mmu\<lparr>mm_busy := False, mm_pte_req_pending := False, mm_final_req_pending := False,
     mm_final_rsp_pending := False, mm_drop_ptw_rsp := False, mm_drop_i_rsp := False, mm_bare_i_rsp_pending := False,
     mm_walk_slot_vld := False, mm_va_i_req_fifo := fifo_reset (mm_va_i_req_fifo mmu),
     mm_va_d_req_fifo := fifo_reset (mm_va_d_req_fifo mmu), mm_i_ost := ostq_reset (mm_i_ost mmu),
     mm_d_ost := ostq_reset (mm_d_ost mmu), mm_itlb_replace_idx := 0, mm_dtlb_replace_idx := 0,
     mm_itlb := map (te_vld_update (\<lambda>_. False)) (mm_itlb mmu), mm_dtlb := map (te_vld_update (\<lambda>_. False)) (mm_dtlb mmu),
     mm_perf_itlb_hit := 0, mm_perf_itlb_miss := 0, mm_perf_dtlb_hit := 0, mm_perf_dtlb_miss := 0,
     mm_perf_i_stg_full := 0, mm_perf_d_stg_full := 0, mm_perf_i_ost_full := 0, mm_perf_d_ost_full := 0\<rparr>"

definition mmu_count_ost_full :: "mmu \<Rightarrow> bool \<Rightarrow> mmu" where
  "mmu_count_ost_full mmu is_inst =
     (if is_inst then mmu\<lparr>mm_perf_i_ost_full := mm_perf_i_ost_full mmu + 1\<rparr>
      else mmu\<lparr>mm_perf_d_ost_full := mm_perf_d_ost_full mmu + 1\<rparr>)"

definition mmu_effective_priv :: "mmu \<Rightarrow> mmu_access \<Rightarrow> priv" where
  "mmu_effective_priv mmu access = (let mstatus = mmu_mstatus mmu; priv = es_priv (mm_exu_state_i mmu) in
     if access \<noteq> MMU_ACCESS_INST \<and> priv = RV32G_PRIV_MACHINE \<and> mstatus_mprv mstatus \<noteq> 0
     then mstatus_mpp mstatus else priv)"

definition mmu_req_ctx_translation_enabled :: "mmu \<Rightarrow> mmu_req_ctx \<Rightarrow> bool" where
  "mmu_req_ctx_translation_enabled mmu ctx \<longleftrightarrow> mr_priv ctx \<noteq> RV32G_PRIV_MACHINE \<and> satp_mode (mmu_satp mmu) = 1"

definition mmu_make_req_ctx :: "mmu \<Rightarrow> bool \<Rightarrow> bti_req \<Rightarrow> mmu_req_ctx" where
  "mmu_make_req_ctx mmu is_inst req = (
     let access = (if is_inst then MMU_ACCESS_INST else mmu_data_access_from_cmd (bq_cmd req));
         mstatus = mmu_mstatus mmu
     in \<lparr>mr_req = req, mr_priv = mmu_effective_priv mmu access, mr_sum = mstatus_sum mstatus \<noteq> 0,
          mr_mxr = mstatus_mxr mstatus \<noteq> 0,
          mr_fault_pc = (if is_inst then bq_addr req else es_pc (mm_exu_state_i mmu))\<rparr>)"

definition mmu_ost :: "mmu \<Rightarrow> bool \<Rightarrow> mmu_ost_ctx ostq" where
  "mmu_ost mmu is_inst = (if is_inst then mm_i_ost mmu else mm_d_ost mmu)"

definition mmu_set_ost :: "mmu \<Rightarrow> bool \<Rightarrow> mmu_ost_ctx ostq \<Rightarrow> mmu" where
  "mmu_set_ost mmu is_inst ost = (if is_inst then mmu\<lparr>mm_i_ost := ost\<rparr> else mmu\<lparr>mm_d_ost := ost\<rparr>)"

definition mmu_complete_normal :: "mmu \<Rightarrow> bool \<Rightarrow> nat \<Rightarrow> bti_rsp \<Rightarrow> mmu option" where
  "mmu_complete_normal mmu is_inst slot rsp = do {
     ctx \<leftarrow> ostq_read_slot (mmu_ost mmu is_inst) slot;
     ost \<leftarrow> ostq_write_slot (mmu_ost mmu is_inst) slot (ctx\<lparr>mo_rsp := rsp, mo_ready := True, mo_expt_vld := False\<rparr>);
     Some (mmu_set_ost mmu is_inst ost)
   }"

definition mmu_complete_fault :: "mmu \<Rightarrow> bool \<Rightarrow> nat \<Rightarrow> u32 \<Rightarrow> priv \<Rightarrow> u32 \<Rightarrow> u32 \<Rightarrow> mmu option" where
  "mmu_complete_fault mmu is_inst slot cause priv pc tval = do {
     ctx \<leftarrow> ostq_read_slot (mmu_ost mmu is_inst) slot;
     let ctx = ctx\<lparr>mo_expt := \<lparr>he_type = HART_EXPT_TYPE_EXCEPTION, he_cause = cause, he_priv = priv, he_pc = pc, he_tval = tval\<rparr>,
       mo_expt_vld := True, mo_rsp := \<lparr>bp_trans_id = bq_trans_id (mo_req ctx), bp_data = 0, bp_ok = False\<rparr>, mo_ready := True\<rparr>;
     ost \<leftarrow> ostq_write_slot (mmu_ost mmu is_inst) slot ctx;
     Some (mmu_set_ost mmu is_inst ost)
   }"

definition mmu_complete_current_fault :: "mmu \<Rightarrow> u32 \<Rightarrow> mmu option" where
  "mmu_complete_current_fault mmu cause = do {
     DBG_CHECK (mm_walk_slot_vld mmu);
     mmu_complete_fault mmu (mm_is_inst mmu) (mm_walk_slot mmu) cause (mm_req_priv mmu) (mm_fault_pc mmu) (mm_va mmu)
   }"

definition mmu_fault_cause :: "bool \<Rightarrow> bti_req_cmd \<Rightarrow> u32" where
  "mmu_fault_cause is_inst cmd =
     (if is_inst then HART_EXPT_CAUSE_INST_PAGE_FAULT
      else if mmu_data_access_from_cmd cmd = MMU_ACCESS_STORE then HART_EXPT_CAUSE_STORE_AMO_PAGE_FAULT
      else HART_EXPT_CAUSE_LOAD_PAGE_FAULT)"

definition mmu_raise_fault :: "mmu \<Rightarrow> mmu option" where
  "mmu_raise_fault mmu = do {
     mmu \<leftarrow> mmu_complete_current_fault mmu (mmu_fault_cause (mm_is_inst mmu) (bq_cmd (mm_req mmu)));
     Some (mmu\<lparr>mm_busy := False, mm_walk_slot_vld := False, mm_pte_req_pending := False,
       mm_final_req_pending := False, mm_final_rsp_pending := False\<rparr>)
   }"

definition mmu_find_pa_rsp_slot :: "mmu \<Rightarrow> bool \<Rightarrow> (nat \<times> mmu_ost_ctx) option option" where
  "mmu_find_pa_rsp_slot mmu is_inst = ostq_find (\<lambda>cur. \<not> (\<not> mo_pa_issued cur \<or> mo_ready cur)) (mmu_ost mmu is_inst)"

definition mmu_pa_req_mst :: "mmu \<Rightarrow> bool \<Rightarrow> bti_req itf" where
  "mmu_pa_req_mst mmu is_inst = (if is_inst then mm_pa_i_bti_req_mst mmu else mm_pa_d_bti_req_mst mmu)"

definition mmu_send_pa_req :: "mmu \<Rightarrow> bool \<Rightarrow> bti_req \<Rightarrow> mmu option" where
  "mmu_send_pa_req mmu is_inst req = do {
     DBG_CHECK (\<not> itf_fifo_full (mmu_pa_req_mst mmu is_inst));
     t \<leftarrow> itf_write (mmu_pa_req_mst mmu is_inst) req;
     Some (if is_inst then mmu\<lparr>mm_pa_i_bti_req_mst := t\<rparr> else mmu\<lparr>mm_pa_d_bti_req_mst := t\<rparr>)
   }"

definition mmu_set_active_req :: "mmu \<Rightarrow> bool \<Rightarrow> mmu_req_ctx \<Rightarrow> mmu" where
  "mmu_set_active_req mmu is_inst ctx = mmu\<lparr>mm_is_inst := is_inst, mm_req := mr_req ctx, mm_req_priv := mr_priv ctx,
     mm_req_sum := mr_sum ctx, mm_req_mxr := mr_mxr ctx, mm_fault_pc := mr_fault_pc ctx, mm_va := bq_addr (mr_req ctx),
     mm_root_base := push_bit 12 (satp_ppn (mmu_satp mmu))\<rparr>"

definition mmu_start_req_ctx :: "mmu \<Rightarrow> bool \<Rightarrow> mmu_req_ctx \<Rightarrow> nat \<Rightarrow> mmu" where
  "mmu_start_req_ctx mmu is_inst ctx slot =
     (mmu_set_active_req (mmu\<lparr>mm_busy := True\<rparr>) is_inst ctx)
       \<lparr>mm_level := 1, mm_pte_req_pending := False, mm_final_req_pending := False,
        mm_walk_slot_vld := True, mm_walk_is_inst := is_inst, mm_walk_slot := slot\<rparr>"

definition mmu_invalidate_tlb :: "mmu \<Rightarrow> mmu" where
  "mmu_invalidate_tlb mmu = mmu\<lparr>mm_itlb := map (te_vld_update (\<lambda>_. False)) (mm_itlb mmu),
     mm_dtlb := map (te_vld_update (\<lambda>_. False)) (mm_dtlb mmu)\<rparr>"

definition mmu_recv_tlb_flush :: "mmu \<Rightarrow> mmu option" where
  "mmu_recv_tlb_flush mmu =
     (if itf_fifo_empty (mm_tlb_flush_slv mmu) then Some mmu
      else do {
        (pkt, t) \<leftarrow> itf_read (mm_tlb_flush_slv mmu);
        Some (mmu_invalidate_tlb (mmu\<lparr>mm_tlb_flush_slv := t\<rparr>))
      })"

definition mmu_drop_canceled_rsp :: "mmu \<Rightarrow> mmu option" where
  "mmu_drop_canceled_rsp mmu = do {
     mmu \<leftarrow> (if mm_drop_ptw_rsp mmu \<and> \<not> itf_fifo_empty (mm_ptw_bti_rsp_slv mmu) then do {
         (rsp, t) \<leftarrow> itf_read (mm_ptw_bti_rsp_slv mmu);
         DBG_CHECK (bp_trans_id rsp = MMU_PTE_TRANS_ID);
         Some (mmu\<lparr>mm_ptw_bti_rsp_slv := t, mm_drop_ptw_rsp := False\<rparr>)
       } else Some mmu);
     if mm_drop_i_rsp mmu \<and> \<not> itf_fifo_empty (mm_pa_i_bti_rsp_slv mmu) then do {
       (rsp, t) \<leftarrow> itf_read (mm_pa_i_bti_rsp_slv mmu);
       Some (mmu\<lparr>mm_pa_i_bti_rsp_slv := t, mm_drop_i_rsp := False\<rparr>)
     } else Some mmu
   }"

section \<open>mmu.c: translation buffers\<close>

definition mmu_tlb_tag :: "u32 \<Rightarrow> int \<Rightarrow> u32" where
  "mmu_tlb_tag va level = (if level = 1 then drop_bit 22 va else drop_bit 12 va)"

definition mmu_tlb_page_mask :: "int \<Rightarrow> u32" where
  "mmu_tlb_page_mask level = (if level = 1 then 0x3fffff else 0xfff)"

definition mmu_tlb_entries :: "mmu \<Rightarrow> bool \<Rightarrow> mmu_tlb_entry list" where
  "mmu_tlb_entries mmu is_inst = (if is_inst then mm_itlb mmu else mm_dtlb mmu)"

definition mmu_tlb_new :: "mmu \<Rightarrow> mmu_tlb_entry" where
  "mmu_tlb_new mmu = \<lparr>te_vld = True, te_tag = mmu_tlb_tag (mm_va mmu) (mm_level mmu),
     te_satp_ppn = satp_ppn (mmu_satp mmu), te_satp_asid = satp_asid (mmu_satp mmu), te_priv = mm_req_priv mmu,
     te_sum = mm_req_sum mmu, te_mxr = mm_req_mxr mmu, te_level = mm_level mmu, te_pte = mm_pte mmu,
     te_pa_base = mm_leaf_pa_base mmu AND NOT (mmu_tlb_page_mask (mm_level mmu))\<rparr>"

definition mmu_tlb_fill :: "mmu \<Rightarrow> mmu option" where
  "mmu_tlb_fill mmu =
     (if mm_is_inst mmu then do {
        tlb \<leftarrow> arr_put (mm_itlb mmu) (mm_itlb_replace_idx mmu) (mmu_tlb_new mmu);
        Some (mmu\<lparr>mm_itlb := tlb, mm_itlb_replace_idx := (mm_itlb_replace_idx mmu + 1) mod MMU_ITLB_SIZE\<rparr>)
      } else do {
        tlb \<leftarrow> arr_put (mm_dtlb mmu) (mm_dtlb_replace_idx mmu) (mmu_tlb_new mmu);
        Some (mmu\<lparr>mm_dtlb := tlb, mm_dtlb_replace_idx := (mm_dtlb_replace_idx mmu + 1) mod MMU_DTLB_SIZE\<rparr>)
      })"

definition mmu_capture_req :: "mmu \<Rightarrow> mmu option" where
  "mmu_capture_req mmu = do {
     mmu \<leftarrow> (if fifo_full (mm_va_i_req_fifo mmu) then
         Some (if \<not> itf_fifo_empty (mm_va_i_bti_req_slv mmu) then mmu\<lparr>mm_perf_i_stg_full := mm_perf_i_stg_full mmu + 1\<rparr> else mmu)
       else if \<not> itf_fifo_empty (mm_va_i_bti_req_slv mmu) then do {
         (req, t) \<leftarrow> itf_read (mm_va_i_bti_req_slv mmu);
         f \<leftarrow> fifo_push (mm_va_i_req_fifo mmu) (mmu_make_req_ctx mmu True req);
         Some (mmu\<lparr>mm_va_i_bti_req_slv := t, mm_va_i_req_fifo := f\<rparr>)
       } else Some mmu);
     if fifo_full (mm_va_d_req_fifo mmu) then
       Some (if \<not> itf_fifo_empty (mm_va_d_bti_req_slv mmu) then mmu\<lparr>mm_perf_d_stg_full := mm_perf_d_stg_full mmu + 1\<rparr> else mmu)
     else if \<not> itf_fifo_empty (mm_va_d_bti_req_slv mmu) then do {
       (req, t) \<leftarrow> itf_read (mm_va_d_bti_req_slv mmu);
       f \<leftarrow> fifo_push (mm_va_d_req_fifo mmu) (mmu_make_req_ctx mmu False req);
       Some (mmu\<lparr>mm_va_d_bti_req_slv := t, mm_va_d_req_fifo := f\<rparr>)
     } else Some mmu
   }"

definition mmu_ctx0 :: "bool \<Rightarrow> bti_req \<Rightarrow> mmu_ost_ctx" where
  "mmu_ctx0 is_inst req = \<lparr>mo_is_inst = is_inst, mo_req = req, mo_pa_issued = False, mo_ready = False, mo_expt_vld = False,
     mo_expt = \<lparr>he_type = HART_EXPT_TYPE_EXCEPTION, he_cause = 0, he_priv = 0, he_pc = 0, he_tval = 0\<rparr>,
     mo_rsp = \<lparr>bp_trans_id = 0, bp_data = 0, bp_ok = False\<rparr>\<rparr>"

definition mmu_alloc_ost_req :: "mmu \<Rightarrow> bool \<Rightarrow> bti_req \<Rightarrow> (nat option \<times> mmu) option" where
  "mmu_alloc_ost_req mmu is_inst req =
     (if ostq_full (mmu_ost mmu is_inst) then Some (None, mmu_count_ost_full mmu is_inst)
      else do {
        r \<leftarrow> ostq_alloc (mmu_ost mmu is_inst) (mmu_ctx0 is_inst req);
        Some (case r of None \<Rightarrow> (None, mmu) | Some (slot, ost) \<Rightarrow> (Some slot, mmu_set_ost mmu is_inst ost))
      })"

definition mmu_tlb_match :: "mmu \<Rightarrow> mmu_req_ctx \<Rightarrow> mmu_tlb_entry \<Rightarrow> bool" where
  "mmu_tlb_match mmu ctx entry \<longleftrightarrow> te_vld entry
     \<and> \<not> (te_satp_ppn entry \<noteq> satp_ppn (mmu_satp mmu) \<or> te_satp_asid entry \<noteq> satp_asid (mmu_satp mmu)
         \<or> te_priv entry \<noteq> mr_priv ctx \<or> te_sum entry \<noteq> mr_sum ctx \<or> te_mxr entry \<noteq> mr_mxr ctx
         \<or> te_tag entry \<noteq> mmu_tlb_tag (bq_addr (mr_req ctx)) (te_level entry))"

definition mmu_lookup_tlb_entry :: "mmu \<Rightarrow> bool \<Rightarrow> mmu_req_ctx \<Rightarrow> mmu_tlb_entry option" where
  "mmu_lookup_tlb_entry mmu is_inst ctx = List.find (mmu_tlb_match mmu ctx) (mmu_tlb_entries mmu is_inst)"

section \<open>mmu.c: page table entries\<close>

definition mmu_pte_ppn :: "u32 \<Rightarrow> u32" where "mmu_pte_ppn pte = drop_bit 10 pte"
definition mmu_pte_ppn0 :: "u32 \<Rightarrow> u32" where "mmu_pte_ppn0 pte = drop_bit 10 pte AND 0x3ff"
definition mmu_pte_ppn1 :: "u32 \<Rightarrow> u32" where "mmu_pte_ppn1 pte = drop_bit 20 pte AND 0xfff"

definition mmu_page_table_index :: "u32 \<Rightarrow> int \<Rightarrow> u32" where
  "mmu_page_table_index va level = (if level = 1 then drop_bit 22 va AND 0x3ff else drop_bit 12 va AND 0x3ff)"

definition mmu_pte_addr :: "mmu \<Rightarrow> u32" where
  "mmu_pte_addr mmu = mm_root_base mmu + mmu_page_table_index (mm_va mmu) (mm_level mmu) * 4"

definition mmu_pte_is_leaf :: "u32 \<Rightarrow> bool" where
  "mmu_pte_is_leaf pte \<longleftrightarrow> pte AND (PTE_R OR PTE_W OR PTE_X) \<noteq> 0"

definition mmu_pte_valid :: "u32 \<Rightarrow> bool" where
  "mmu_pte_valid pte = (if pte AND PTE_V = 0 then False else if pte AND PTE_W \<noteq> 0 \<and> \<not> pte AND PTE_R \<noteq> 0 then False else True)"

definition mmu_pte_permits :: "mmu \<Rightarrow> u32 \<Rightarrow> bool" where
  "mmu_pte_permits mmu pte = (let priv = mm_req_priv mmu; user_page = (pte AND PTE_U \<noteq> 0) in
     if priv = RV32G_PRIV_USER \<and> \<not> user_page then False
     else if priv = RV32G_PRIV_SUPERVISOR \<and> user_page \<and> (mm_is_inst mmu \<or> \<not> mm_req_sum mmu) then False
     else if mm_is_inst mmu then pte AND PTE_X \<noteq> 0
     else if mmu_data_access_from_cmd (bq_cmd (mm_req mmu)) = MMU_ACCESS_STORE then pte AND PTE_W \<noteq> 0
     else pte AND PTE_R \<noteq> 0 \<or> mm_req_mxr mmu \<and> pte AND PTE_X \<noteq> 0)"

definition mmu_pte_ad_ok :: "mmu \<Rightarrow> u32 \<Rightarrow> bool" where
  "mmu_pte_ad_ok mmu pte =
     (if pte AND PTE_A = 0 then False
      else if \<not> mm_is_inst mmu \<and> mmu_data_access_from_cmd (bq_cmd (mm_req mmu)) = MMU_ACCESS_STORE \<and> pte AND PTE_D = 0 then False
      else True)"

definition mmu_leaf_to_pa :: "mmu \<Rightarrow> u32 \<Rightarrow> u32 option" where
  "mmu_leaf_to_pa mmu pte = (let vpn0 = drop_bit 12 (mm_va mmu) AND 0x3ff; page_off = mm_va mmu AND 0xfff in
     if mm_level mmu = 1 then
       (if mmu_pte_ppn0 pte \<noteq> 0 then None
        else Some (push_bit 22 (mmu_pte_ppn1 pte) OR push_bit 12 vpn0 OR page_off))
     else Some (push_bit 12 (mmu_pte_ppn pte) OR page_off))"

section \<open>mmu.c: acceptance, walk and tick\<close>

definition mmu_accept_tlb_hit :: "mmu \<Rightarrow> bool \<Rightarrow> mmu_req_ctx \<Rightarrow> nat \<Rightarrow> mmu_tlb_entry \<Rightarrow> mmu option" where
  "mmu_accept_tlb_hit mmu is_inst ctx slot entry = (
     let mmu = (mmu_set_active_req (mmu\<lparr>mm_busy := True\<rparr>) is_inst ctx)\<lparr>mm_pte := te_pte entry\<rparr> in
     if \<not> mmu_pte_permits mmu (te_pte entry) \<or> \<not> mmu_pte_ad_ok mmu (te_pte entry) then do {
       mmu \<leftarrow> mmu_complete_fault mmu is_inst slot (mmu_fault_cause is_inst (bq_cmd (mr_req ctx)))
         (mr_priv ctx) (mr_fault_pc ctx) (bq_addr (mr_req ctx));
       Some (mmu\<lparr>mm_busy := False\<rparr>)
     }
     else do {
       let pa_req = (mr_req ctx)\<lparr>bq_addr := te_pa_base entry OR (bq_addr (mr_req ctx) AND mmu_tlb_page_mask (te_level entry))\<rparr>;
       ost_ctx \<leftarrow> ostq_read_slot (mmu_ost mmu is_inst) slot;
       ost \<leftarrow> ostq_write_slot (mmu_ost mmu is_inst) slot (ost_ctx\<lparr>mo_pa_issued := True\<rparr>);
       mmu \<leftarrow> mmu_send_pa_req (mmu_set_ost mmu is_inst ost) is_inst pa_req;
       let mmu = (if is_inst then mmu\<lparr>mm_perf_itlb_hit := mm_perf_itlb_hit mmu + 1\<rparr>
         else mmu\<lparr>mm_perf_dtlb_hit := mm_perf_dtlb_hit mmu + 1\<rparr>);
       Some (mmu\<lparr>mm_busy := False\<rparr>)
     })"

definition mmu_req_fifo :: "mmu \<Rightarrow> bool \<Rightarrow> mmu_req_ctx fifo" where
  "mmu_req_fifo mmu is_inst = (if is_inst then mm_va_i_req_fifo mmu else mm_va_d_req_fifo mmu)"

definition mmu_set_req_fifo :: "mmu \<Rightarrow> bool \<Rightarrow> mmu_req_ctx fifo \<Rightarrow> mmu" where
  "mmu_set_req_fifo mmu is_inst f = (if is_inst then mmu\<lparr>mm_va_i_req_fifo := f\<rparr> else mmu\<lparr>mm_va_d_req_fifo := f\<rparr>)"

text \<open>The three ways \<^verbatim>\<open>mmu_accept_one_req\<close> takes a request: untranslated, from the buffer, by a walk.\<close>

definition mmu_accept_bare :: "mmu \<Rightarrow> bool \<Rightarrow> mmu_req_ctx \<Rightarrow> (bool \<times> mmu) option" where
  "mmu_accept_bare mmu is_inst req_ctx =
     (if itf_fifo_full (mmu_pa_req_mst mmu is_inst) \<or> ostq_full (mmu_ost mmu is_inst) then
        Some (False, if ostq_full (mmu_ost mmu is_inst) then mmu_count_ost_full mmu is_inst else mmu)
      else do {
        (r, mmu) \<leftarrow> mmu_alloc_ost_req mmu is_inst (mr_req req_ctx);
        slot \<leftarrow> r;
        ctx \<leftarrow> ostq_read_slot (mmu_ost mmu is_inst) slot;
        ost \<leftarrow> ostq_write_slot (mmu_ost mmu is_inst) slot (ctx\<lparr>mo_pa_issued := True\<rparr>);
        let mmu = mmu_set_ost mmu is_inst ost;
        (req_ctx, f) \<leftarrow> fifo_pop (mmu_req_fifo mmu is_inst);
        mmu \<leftarrow> mmu_send_pa_req (mmu_set_req_fifo mmu is_inst f) is_inst (mr_req req_ctx);
        Some (True, mmu)
      })"

definition mmu_accept_hit :: "mmu \<Rightarrow> bool \<Rightarrow> mmu_req_ctx \<Rightarrow> mmu_tlb_entry \<Rightarrow> (bool \<times> mmu) option" where
  "mmu_accept_hit mmu is_inst req_ctx entry =
     (if itf_fifo_full (mmu_pa_req_mst mmu is_inst) \<or> ostq_full (mmu_ost mmu is_inst) then
        Some (False, if ostq_full (mmu_ost mmu is_inst) then mmu_count_ost_full mmu is_inst else mmu)
      else do {
        (r, mmu) \<leftarrow> mmu_alloc_ost_req mmu is_inst (mr_req req_ctx);
        slot \<leftarrow> r;
        (req_ctx, f) \<leftarrow> fifo_pop (mmu_req_fifo mmu is_inst);
        mmu \<leftarrow> mmu_accept_tlb_hit (mmu_set_req_fifo mmu is_inst f) is_inst req_ctx slot entry;
        Some (True, mmu)
      })"

definition mmu_accept_miss :: "mmu \<Rightarrow> bool \<Rightarrow> mmu_req_ctx \<Rightarrow> (bool \<times> mmu) option" where
  "mmu_accept_miss mmu is_inst req_ctx =
     (if mm_busy mmu \<or> \<not> ostq_empty (mm_i_ost mmu) \<or> \<not> ostq_empty (mm_d_ost mmu) then Some (False, mmu)
      else if ostq_full (mmu_ost mmu is_inst) then Some (False, mmu_count_ost_full mmu is_inst)
      else do {
        (r, mmu) \<leftarrow> mmu_alloc_ost_req mmu is_inst (mr_req req_ctx);
        slot \<leftarrow> r;
        (req_ctx, f) \<leftarrow> fifo_pop (mmu_req_fifo mmu is_inst);
        let mmu = mmu_set_req_fifo mmu is_inst f;
        let mmu = (if is_inst then mmu\<lparr>mm_perf_itlb_miss := mm_perf_itlb_miss mmu + 1\<rparr>
          else mmu\<lparr>mm_perf_dtlb_miss := mm_perf_dtlb_miss mmu + 1\<rparr>);
        Some (True, mmu_start_req_ctx mmu is_inst req_ctx slot)
      })"

definition mmu_accept_one_req :: "mmu \<Rightarrow> bool \<Rightarrow> (bool \<times> mmu) option" where
  "mmu_accept_one_req mmu is_inst =
     (if fifo_empty (mmu_req_fifo mmu is_inst) then Some (False, mmu)
      else if mm_drop_ptw_rsp mmu \<or> mm_drop_i_rsp mmu then Some (False, mmu)
      else if mm_busy mmu then Some (False, mmu)
      else do {
        req_ctx \<leftarrow> fifo_get_front (mmu_req_fifo mmu is_inst);
        if \<not> mmu_req_ctx_translation_enabled mmu req_ctx then mmu_accept_bare mmu is_inst req_ctx
        else case mmu_lookup_tlb_entry mmu is_inst req_ctx of
          Some entry \<Rightarrow> mmu_accept_hit mmu is_inst req_ctx entry
        | None \<Rightarrow> mmu_accept_miss mmu is_inst req_ctx
      })"

definition mmu_accept_new_req :: "mmu \<Rightarrow> mmu option" where
  "mmu_accept_new_req mmu = do {
     (ok, mmu) \<leftarrow> mmu_accept_one_req mmu False;
     if ok then Some mmu else map_option snd (mmu_accept_one_req mmu True)
   }"

definition mmu_finish_translate :: "mmu \<Rightarrow> mmu option" where
  "mmu_finish_translate mmu =
     (if \<not> mmu_pte_valid (mm_pte mmu) then mmu_raise_fault mmu
      else if \<not> mmu_pte_is_leaf (mm_pte mmu) then
        (if mm_pte mmu AND (PTE_U OR PTE_A OR PTE_D) \<noteq> 0 \<or> mm_level mmu = 0 then mmu_raise_fault mmu
         else Some (mmu\<lparr>mm_root_base := push_bit 12 (mmu_pte_ppn (mm_pte mmu)), mm_level := mm_level mmu - 1\<rparr>))
      else if \<not> mmu_pte_permits mmu (mm_pte mmu) \<or> \<not> mmu_pte_ad_ok mmu (mm_pte mmu) then mmu_raise_fault mmu
      else case mmu_leaf_to_pa mmu (mm_pte mmu) of
        None \<Rightarrow> mmu_raise_fault mmu
      | Some pa \<Rightarrow> do {
          mmu \<leftarrow> mmu_tlb_fill (mmu\<lparr>mm_leaf_pa_base := pa\<rparr>);
          Some (mmu\<lparr>mm_req := (mm_req mmu)\<lparr>bq_addr := pa\<rparr>, mm_final_req_pending := True\<rparr>)
        })"

definition mmu_send_pte_req :: "mmu \<Rightarrow> mmu option" where
  "mmu_send_pte_req mmu =
     (if mm_pte_req_pending mmu \<or> itf_fifo_full (mm_ptw_bti_req_mst mmu) then Some mmu
      else do {
        t \<leftarrow> itf_write (mm_ptw_bti_req_mst mmu) \<lparr>bq_trans_id = MMU_PTE_TRANS_ID, bq_cmd = BTI_REQ_CMD_READ,
          bq_addr = mmu_pte_addr mmu, bq_size = BTI_REQ_SIZE_B4, bq_data = 0, bq_strobe = 0xf\<rparr>;
        Some (mmu\<lparr>mm_ptw_bti_req_mst := t, mm_pte_req_pending := True\<rparr>)
      })"

definition mmu_recv_pte_rsp :: "mmu \<Rightarrow> mmu option" where
  "mmu_recv_pte_rsp mmu =
     (if \<not> mm_pte_req_pending mmu \<or> itf_fifo_empty (mm_ptw_bti_rsp_slv mmu) then Some mmu
      else do {
        (rsp, t) \<leftarrow> itf_read (mm_ptw_bti_rsp_slv mmu);
        DBG_CHECK (bp_trans_id rsp = MMU_PTE_TRANS_ID);
        let mmu = mmu\<lparr>mm_ptw_bti_rsp_slv := t, mm_pte_req_pending := False\<rparr>;
        if \<not> bp_ok rsp then mmu_raise_fault mmu
        else mmu_finish_translate (mmu\<lparr>mm_pte := bp_data rsp\<rparr>)
      })"

definition mmu_send_final_req :: "mmu \<Rightarrow> mmu option" where
  "mmu_send_final_req mmu =
     (if \<not> mm_final_req_pending mmu then Some mmu
      else if itf_fifo_full (mmu_pa_req_mst mmu (mm_is_inst mmu)) then Some mmu
      else do {
        t \<leftarrow> itf_write (mmu_pa_req_mst mmu (mm_is_inst mmu)) (mm_req mmu);
        let mmu = (if mm_is_inst mmu then mmu\<lparr>mm_pa_i_bti_req_mst := t\<rparr> else mmu\<lparr>mm_pa_d_bti_req_mst := t\<rparr>);
        Some (mmu\<lparr>mm_final_req_pending := False, mm_final_rsp_pending := True\<rparr>)
      })"

definition mmu_pa_rsp_slv :: "mmu \<Rightarrow> bool \<Rightarrow> bti_rsp itf" where
  "mmu_pa_rsp_slv mmu is_inst = (if is_inst then mm_pa_i_bti_rsp_slv mmu else mm_pa_d_bti_rsp_slv mmu)"

definition mmu_set_pa_rsp_slv :: "mmu \<Rightarrow> bool \<Rightarrow> bti_rsp itf \<Rightarrow> mmu" where
  "mmu_set_pa_rsp_slv mmu is_inst t = (if is_inst then mmu\<lparr>mm_pa_i_bti_rsp_slv := t\<rparr> else mmu\<lparr>mm_pa_d_bti_rsp_slv := t\<rparr>)"

definition mmu_recv_final_rsp :: "mmu \<Rightarrow> mmu option" where
  "mmu_recv_final_rsp mmu =
     (if \<not> mm_final_rsp_pending mmu then Some mmu
      else if itf_fifo_empty (mmu_pa_rsp_slv mmu (mm_is_inst mmu)) then Some mmu
      else do {
        (rsp, t) \<leftarrow> itf_read (mmu_pa_rsp_slv mmu (mm_is_inst mmu));
        let mmu = mmu_set_pa_rsp_slv mmu (mm_is_inst mmu) t;
        DBG_CHECK (mm_walk_slot_vld mmu);
        mmu \<leftarrow> mmu_complete_normal mmu (mm_is_inst mmu) (mm_walk_slot mmu) rsp;
        Some (mmu\<lparr>mm_final_rsp_pending := False, mm_busy := False, mm_walk_slot_vld := False\<rparr>)
      })"

definition mmu_proc_walk :: "mmu \<Rightarrow> mmu option" where
  "mmu_proc_walk mmu =
     (if \<not> mm_busy mmu then Some mmu
      else if mm_final_req_pending mmu then mmu_send_final_req mmu
      else if mm_final_rsp_pending mmu then mmu_recv_final_rsp mmu
      else do {
        mmu \<leftarrow> mmu_recv_pte_rsp mmu;
        if mm_busy mmu \<and> \<not> mm_final_req_pending mmu then mmu_send_pte_req mmu else Some mmu
      })"

definition mmu_proc_pa_rsp :: "mmu \<Rightarrow> bool \<Rightarrow> mmu option" where
  "mmu_proc_pa_rsp mmu is_inst =
     (if itf_fifo_empty (mmu_pa_rsp_slv mmu is_inst) then Some mmu
      else do {
        r \<leftarrow> mmu_find_pa_rsp_slot mmu is_inst;
        (case r of None \<Rightarrow> Some mmu
         | Some (slot, ctx) \<Rightarrow> do {
             (rsp, t) \<leftarrow> itf_read (mmu_pa_rsp_slv mmu is_inst);
             mmu_complete_normal (mmu_set_pa_rsp_slv mmu is_inst t) is_inst slot rsp
           })
      })"

definition mmu_send_ready_rsp :: "mmu \<Rightarrow> bool \<Rightarrow> mmu option" where
  "mmu_send_ready_rsp mmu is_inst = do {
     let va_rsp_mst = (if is_inst then mm_va_i_bti_rsp_mst mmu else mm_va_d_bti_rsp_mst mmu);
     let expt_mst = (if is_inst then mm_fch_expt_mst mmu else mm_ldst_expt_mst mmu);
     r \<leftarrow> ostq_peek_head (mmu_ost mmu is_inst);
     (case r of None \<Rightarrow> Some mmu
      | Some (slot, ctx) \<Rightarrow>
          if \<not> mo_ready ctx then Some mmu
          else if mo_expt_vld ctx then
            (if itf_fifo_full expt_mst then Some mmu
             else if \<not> is_inst \<and> itf_fifo_full va_rsp_mst then Some mmu
             else do {
               t \<leftarrow> itf_write expt_mst (mo_expt ctx);
               let mmu = (if is_inst then mmu\<lparr>mm_fch_expt_mst := t\<rparr> else mmu\<lparr>mm_ldst_expt_mst := t\<rparr>);
               mmu \<leftarrow> (if \<not> is_inst then do {
                   t \<leftarrow> itf_write va_rsp_mst (mo_rsp ctx);
                   Some (mmu\<lparr>mm_va_d_bti_rsp_mst := t\<rparr>)
                 } else Some mmu);
               ost \<leftarrow> ostq_free_head (mmu_ost mmu is_inst);
               Some (mmu_set_ost mmu is_inst ost)
             })
          else if itf_fifo_full va_rsp_mst then Some mmu
          else do {
            t \<leftarrow> itf_write va_rsp_mst (mo_rsp ctx);
            let mmu = (if is_inst then mmu\<lparr>mm_va_i_bti_rsp_mst := t\<rparr> else mmu\<lparr>mm_va_d_bti_rsp_mst := t\<rparr>);
            ost \<leftarrow> ostq_free_head (mmu_ost mmu is_inst);
            Some (mmu_set_ost mmu is_inst ost)
          })
   }"

definition mmu_clock :: "mmu \<Rightarrow> mmu option" where
  "mmu_clock mmu = do {
     i_ost \<leftarrow> ostq_clock (mm_i_ost mmu);
     d_ost \<leftarrow> ostq_clock (mm_d_ost mmu);
     mmu \<leftarrow> mmu_recv_tlb_flush (mmu\<lparr>mm_i_ost := i_ost, mm_d_ost := d_ost\<rparr>);
     mmu \<leftarrow> mmu_drop_canceled_rsp mmu;
     mmu \<leftarrow> mmu_capture_req mmu;
     mmu \<leftarrow> mmu_proc_walk mmu;
     mmu \<leftarrow> mmu_proc_pa_rsp mmu True;
     mmu \<leftarrow> mmu_proc_pa_rsp mmu False;
     mmu \<leftarrow> mmu_send_ready_rsp mmu True;
     mmu \<leftarrow> mmu_send_ready_rsp mmu False;
     mmu \<leftarrow> mmu_accept_new_req mmu;
     mmu_accept_new_req mmu
   }"

end
