(* ===== verification/MmuWalk.thy ===== *)
theory MmuWalk
  imports Mmu
begin

text \<open>
  Sv32 address translation as the privileged architecture defines it, and what the walker and
  the translation buffers of \<^verbatim>\<open>mmu.c\<close> make of it.
\<close>

section \<open>Sv32 as implemented\<close>

text \<open>
  Translation with 32-bit physical addresses, where a table entry that cannot be read is a fault like any other. The memory that holds the page tables answers a read of a word with its value or with a bus
  error. The walk looks for the leaf entry of an address: from the root table by the upper ten
  bits of the page number, and from the table that entry points to by the lower ten. An entry
  is rejected when it is invalid, writable but not readable, or a pointer with bits set that
  only a leaf may have; a pointer in the second table is rejected as well.
\<close>

type_synonym pt_mem = "u32 \<Rightarrow> u32 option"

definition pte_bad :: "u32 \<Rightarrow> bool" where
  "pte_bad pte \<longleftrightarrow> \<not> bit pte 0 \<or> bit pte 2 \<and> \<not> bit pte 1"

definition pte_leaf :: "u32 \<Rightarrow> bool" where
  "pte_leaf pte \<longleftrightarrow> bit pte 1 \<or> bit pte 2 \<or> bit pte 3"

definition pte_ptr_bad :: "u32 \<Rightarrow> bool" where
  "pte_ptr_bad pte \<longleftrightarrow> bit pte 4 \<or> bit pte 6 \<or> bit pte 7"

definition vpn1 :: "u32 \<Rightarrow> u32" where "vpn1 va = take_bit 10 (drop_bit 22 va)"
definition vpn0 :: "u32 \<Rightarrow> u32" where "vpn0 va = take_bit 10 (drop_bit 12 va)"

definition leaf_walk0 :: "pt_mem \<Rightarrow> u32 \<Rightarrow> u32 \<Rightarrow> (int \<times> u32) option" where
  "leaf_walk0 mem root va = (case mem (root + 4 * vpn0 va) of
     None \<Rightarrow> None
   | Some pte \<Rightarrow> if pte_bad pte \<or> \<not> pte_leaf pte then None else Some (0, pte))"

definition leaf_walk :: "pt_mem \<Rightarrow> u32 \<Rightarrow> u32 \<Rightarrow> (int \<times> u32) option" where
  "leaf_walk mem root va = (case mem (root + 4 * vpn1 va) of
     None \<Rightarrow> None
   | Some pte \<Rightarrow> if pte_bad pte then None
       else if pte_leaf pte then Some (1, pte)
       else if pte_ptr_bad pte then None
       else leaf_walk0 mem (push_bit 12 (drop_bit 10 pte)) va)"

text \<open>What a leaf entry allows, and the physical address; a large page must be aligned.\<close>

definition leaf_allows :: "mmu_access \<Rightarrow> priv \<Rightarrow> bool \<Rightarrow> bool \<Rightarrow> u32 \<Rightarrow> bool" where
  "leaf_allows access priv sm mxr pte \<longleftrightarrow>
     (priv = RV32G_PRIV_USER \<longrightarrow> bit pte 4)
     \<and> (priv = RV32G_PRIV_SUPERVISOR \<and> bit pte 4 \<longrightarrow> access \<noteq> MMU_ACCESS_INST \<and> sm)
     \<and> (case access of MMU_ACCESS_INST \<Rightarrow> bit pte 3
        | MMU_ACCESS_LOAD \<Rightarrow> bit pte 1 \<or> mxr \<and> bit pte 3
        | MMU_ACCESS_STORE \<Rightarrow> bit pte 2 \<and> bit pte 7)
     \<and> bit pte 6"

definition leaf_pa :: "int \<Rightarrow> u32 \<Rightarrow> u32 \<Rightarrow> u32 option" where
  "leaf_pa level pte va =
     (if level = 1 then
        (if take_bit 10 (drop_bit 10 pte) \<noteq> 0 then None else Some (push_bit 22 (drop_bit 20 pte) OR take_bit 22 va))
      else Some (push_bit 12 (drop_bit 10 pte) OR take_bit 12 va))"

definition leaf_xlate :: "mmu_access \<Rightarrow> priv \<Rightarrow> bool \<Rightarrow> bool \<Rightarrow> u32 \<Rightarrow> (int \<times> u32) option \<Rightarrow> u32 option" where
  "leaf_xlate access priv sm mxr va r = (case r of
     None \<Rightarrow> None
   | Some (level, pte) \<Rightarrow> if leaf_allows access priv sm mxr pte then leaf_pa level pte va else None)"

definition sv32 :: "pt_mem \<Rightarrow> u32 \<Rightarrow> mmu_access \<Rightarrow> priv \<Rightarrow> bool \<Rightarrow> bool \<Rightarrow> u32 \<Rightarrow> u32 option" where
  "sv32 mem root access priv sm mxr va = leaf_xlate access priv sm mxr va (leaf_walk mem root va)"

section \<open>The code's bit tests\<close>

lemma pte_bits:
  fixes pte :: u32
  shows "(pte AND PTE_V = 0) = (\<not> bit pte 0)" "(pte AND PTE_R = 0) = (\<not> bit pte 1)" "(pte AND PTE_W = 0) = (\<not> bit pte 2)"
    "(pte AND PTE_X = 0) = (\<not> bit pte 3)" "(pte AND PTE_U = 0) = (\<not> bit pte 4)" "(pte AND PTE_A = 0) = (\<not> bit pte 6)"
    "(pte AND PTE_D = 0) = (\<not> bit pte 7)"
  using and_exp_eq_0_iff_not_bit [of pte 0] and_exp_eq_0_iff_not_bit [of pte 1] and_exp_eq_0_iff_not_bit [of pte 2]
    and_exp_eq_0_iff_not_bit [of pte 3] and_exp_eq_0_iff_not_bit [of pte 4] and_exp_eq_0_iff_not_bit [of pte 6]
    and_exp_eq_0_iff_not_bit [of pte 7]
  by simp_all

lemma and_or_zero: "(x AND (y OR z) = 0) = (x AND y = 0 \<and> x AND z = 0)" for x :: u32
  by (auto simp: bit_eq_iff bit_simps)

lemma masks:
  fixes x :: u32
  shows "x AND 0x3ff = take_bit 10 x" "x AND 0xfff = take_bit 12 x" "x AND 0x3fffff = take_bit 22 x"
  by (simp_all add: take_bit_eq_mask mask_eq_exp_minus_1)

lemma mmu_pte_valid_iff: "mmu_pte_valid pte = (\<not> pte_bad pte)"
  by (simp add: mmu_pte_valid_def pte_bad_def pte_bits)

lemma mmu_pte_is_leaf_iff: "mmu_pte_is_leaf pte = pte_leaf pte"
  using and_or_zero [of pte "PTE_R OR PTE_W" PTE_X] and_or_zero [of pte PTE_R PTE_W]
  by (simp add: mmu_pte_is_leaf_def pte_leaf_def pte_bits)

lemma mmu_ptr_bad_iff: "(pte AND (PTE_U OR PTE_A OR PTE_D) \<noteq> 0) = pte_ptr_bad pte"
  using and_or_zero [of pte "PTE_U OR PTE_A" PTE_D] and_or_zero [of pte PTE_U PTE_A]
  by (simp add: pte_ptr_bad_def pte_bits)

lemma mmu_ptr_mask: "(pte AND 208 = 0) = (\<not> pte_ptr_bad pte)"
  using mmu_ptr_bad_iff [of pte] by auto

definition mmu_access_of :: "bool \<Rightarrow> bti_req_cmd \<Rightarrow> mmu_access" where
  "mmu_access_of is_inst cmd = (if is_inst then MMU_ACCESS_INST else mmu_data_access_from_cmd cmd)"

lemma mmu_permits_iff:
  "(mmu_pte_permits mmu pte \<and> mmu_pte_ad_ok mmu pte)
   = leaf_allows (mmu_access_of (mm_is_inst mmu) (bq_cmd (mm_req mmu))) (mm_req_priv mmu) (mm_req_sum mmu) (mm_req_mxr mmu) pte"
  by (cases "bq_cmd (mm_req mmu)"; cases "mm_is_inst mmu")
    (auto simp: mmu_pte_permits_def mmu_pte_ad_ok_def leaf_allows_def mmu_access_of_def mmu_data_access_from_cmd_def Let_def pte_bits)

lemma pa_large:
  fixes va pte :: u32
  shows "push_bit 22 (take_bit 12 (drop_bit 20 pte)) OR push_bit 12 (take_bit 10 (drop_bit 12 va)) OR take_bit 12 va
    = push_bit 22 (drop_bit 20 pte) OR take_bit 22 va"
  by (rule bit_word_eqI) (auto simp: bit_simps)

lemma mmu_leaf_to_pa_eq: "mmu_leaf_to_pa mmu pte = leaf_pa (mm_level mmu) pte (mm_va mmu)"
  by (simp add: mmu_leaf_to_pa_def leaf_pa_def Let_def mmu_pte_ppn0_def mmu_pte_ppn1_def mmu_pte_ppn_def masks pa_large)

lemma mmu_pte_addr_eq:
  "mmu_pte_addr mmu = mm_root_base mmu + 4 * (if mm_level mmu = 1 then vpn1 (mm_va mmu) else vpn0 (mm_va mmu))"
  by (simp add: mmu_pte_addr_def mmu_page_table_index_def vpn1_def vpn0_def masks)

section \<open>Walks\<close>

text \<open>The rest of a walk from where the walker stands, and the outcome it will have.\<close>

definition walk_rest :: "pt_mem \<Rightarrow> mmu \<Rightarrow> (int \<times> u32) option" where
  "walk_rest mem mmu = (if mm_level mmu = 1 then leaf_walk mem (mm_root_base mmu) (mm_va mmu)
     else leaf_walk0 mem (mm_root_base mmu) (mm_va mmu))"

definition leaf_outcome :: "mmu \<Rightarrow> (int \<times> u32) option \<Rightarrow> u32 option" where
  "leaf_outcome mmu = leaf_xlate (mmu_access_of (mm_is_inst mmu) (bq_cmd (mm_req mmu))) (mm_req_priv mmu)
     (mm_req_sum mmu) (mm_req_mxr mmu) (mm_va mmu)"

definition walk_outcome :: "pt_mem \<Rightarrow> mmu \<Rightarrow> u32 option" where
  "walk_outcome mem mmu = leaf_outcome mmu (walk_rest mem mmu)"

definition walking :: "mmu \<Rightarrow> bool" where
  "walking mmu \<longleftrightarrow> mm_busy mmu \<and> \<not> mm_final_req_pending mmu \<and> \<not> mm_final_rsp_pending mmu \<and> mm_walk_slot_vld mmu
     \<and> (mm_level mmu = 0 \<or> mm_level mmu = 1)"

definition pte_req :: "mmu \<Rightarrow> bti_req" where
  "pte_req mmu = \<lparr>bq_trans_id = MMU_PTE_TRANS_ID, bq_cmd = BTI_REQ_CMD_READ,
     bq_addr = mmu_pte_addr mmu, bq_size = BTI_REQ_SIZE_B4, bq_data = 0, bq_strobe = 0xf\<rparr>"

text \<open>The memory's answer to a read of a page table entry.\<close>

definition pt_answer :: "pt_mem \<Rightarrow> bti_req \<Rightarrow> bti_rsp" where
  "pt_answer mem req = (case mem (bq_addr req) of
     Some d \<Rightarrow> \<lparr>bp_trans_id = bq_trans_id req, bp_data = d, bp_ok = True\<rparr>
   | None \<Rightarrow> \<lparr>bp_trans_id = bq_trans_id req, bp_data = 0, bp_ok = False\<rparr>)"

definition ptw_ok :: "pt_mem \<Rightarrow> mmu \<Rightarrow> bool" where
  "ptw_ok mem mmu \<longleftrightarrow> itf_inv (mm_ptw_bti_req_mst mmu) \<and> itf_inv (mm_ptw_bti_rsp_slv mmu)
     \<and> (if mm_pte_req_pending mmu
        then itf_list (mm_ptw_bti_req_mst mmu) = [pte_req mmu] \<and> itf_list (mm_ptw_bti_rsp_slv mmu) = []
          \<or> itf_list (mm_ptw_bti_req_mst mmu) = [] \<and> itf_list (mm_ptw_bti_rsp_slv mmu) = [pt_answer mem (pte_req mmu)]
        else itf_list (mm_ptw_bti_req_mst mmu) = [] \<and> itf_list (mm_ptw_bti_rsp_slv mmu) = [])"

definition tlb_shape :: "mmu \<Rightarrow> bool" where
  "tlb_shape mmu \<longleftrightarrow> length (mm_itlb mmu) = MMU_ITLB_SIZE \<and> length (mm_dtlb mmu) = MMU_DTLB_SIZE
     \<and> mm_itlb_replace_idx mmu < MMU_ITLB_SIZE \<and> mm_dtlb_replace_idx mmu < MMU_DTLB_SIZE"

text \<open>The slot of the walk is live in the table of its side.\<close>

definition walk_slot_ok :: "mmu \<Rightarrow> bool" where
  "walk_slot_ok mmu \<longleftrightarrow> ostq_inv (mmu_ost mmu (mm_is_inst mmu))
     \<and> (\<exists>k<length (ostq_live (mmu_ost mmu (mm_is_inst mmu))). mm_walk_slot mmu = ostq_slot (mmu_ost mmu (mm_is_inst mmu)) k)"

definition fault_ctx :: "mmu \<Rightarrow> mmu_ost_ctx \<Rightarrow> mmu_ost_ctx" where
  "fault_ctx mmu ctx = ctx\<lparr>mo_expt := \<lparr>he_type = HART_EXPT_TYPE_EXCEPTION,
       he_cause = mmu_fault_cause (mm_is_inst mmu) (bq_cmd (mm_req mmu)), he_priv = mm_req_priv mmu,
       he_pc = mm_fault_pc mmu, he_tval = mm_va mmu\<rparr>, mo_expt_vld := True,
     mo_rsp := \<lparr>bp_trans_id = bq_trans_id (mo_req ctx), bp_data = 0, bp_ok = False\<rparr>, mo_ready := True\<rparr>"

definition walk_faulted :: "mmu \<Rightarrow> mmu \<Rightarrow> bool" where
  "walk_faulted mmu mmu' \<longleftrightarrow> (\<exists>ost k. k < length (ostq_live (mmu_ost mmu (mm_is_inst mmu)))
     \<and> mm_walk_slot mmu = ostq_slot (mmu_ost mmu (mm_is_inst mmu)) k \<and> ostq_inv ost
     \<and> ostq_live ost = (ostq_live (mmu_ost mmu (mm_is_inst mmu)))[k := fault_ctx mmu (ostq_live (mmu_ost mmu (mm_is_inst mmu)) ! k)]
     \<and> ostq_head_freed ost = ostq_head_freed (mmu_ost mmu (mm_is_inst mmu)) \<and> q_depth ost = q_depth (mmu_ost mmu (mm_is_inst mmu))
     \<and> mmu' = (mmu_set_ost mmu (mm_is_inst mmu) ost)\<lparr>mm_busy := False, mm_walk_slot_vld := False, mm_pte_req_pending := False,
         mm_final_req_pending := False, mm_final_rsp_pending := False\<rparr>)"

lemma raise_fault_ok:
  assumes slot: "walk_slot_ok mmu" and vld: "mm_walk_slot_vld mmu"
  shows "\<exists>mmu'. mmu_raise_fault mmu = Some mmu' \<and> walk_faulted mmu mmu'"
proof -
  let ?ost = "mmu_ost mmu (mm_is_inst mmu)"
  from slot obtain k where inv: "ostq_inv ?ost" and k: "k < length (ostq_live ?ost)" "mm_walk_slot mmu = ostq_slot ?ost k"
    unfolding walk_slot_ok_def by blast
  from ostq_write_live [OF inv k(1), of "fault_ctx mmu (ostq_live ?ost ! k)"] obtain ost where
    w: "ostq_write_slot ?ost (ostq_slot ?ost k) (fault_ctx mmu (ostq_live ?ost ! k)) = Some ost"
    and o: "ostq_inv ost" "ostq_live ost = (ostq_live ?ost)[k := fault_ctx mmu (ostq_live ?ost ! k)]"
      "ostq_head_freed ost = ostq_head_freed ?ost" "q_depth ost = q_depth ?ost" by blast
  let ?m = "(mmu_set_ost mmu (mm_is_inst mmu) ost)\<lparr>mm_busy := False, mm_walk_slot_vld := False, mm_pte_req_pending := False,
         mm_final_req_pending := False, mm_final_rsp_pending := False\<rparr>"
  have "mmu_complete_current_fault mmu (mmu_fault_cause (mm_is_inst mmu) (bq_cmd (mm_req mmu))) = Some (mmu_set_ost mmu (mm_is_inst mmu) ost)"
    using ostq_read_live [OF inv k(1)] w vld k(2)
    by (simp add: mmu_complete_current_fault_def mmu_complete_fault_def Let_def fault_ctx_def)
  then have "mmu_raise_fault mmu = Some ?m" by (simp add: mmu_raise_fault_def)
  moreover have "walk_faulted mmu ?m" unfolding walk_faulted_def using k o by blast
  ultimately show ?thesis by blast
qed

text \<open>A translated walk: the request with its physical address waits to be sent, and the leaf is in the buffer.\<close>

definition walk_translated :: "u32 \<Rightarrow> u32 \<Rightarrow> mmu \<Rightarrow> mmu \<Rightarrow> bool" where
  "walk_translated pte pa mmu mmu' \<longleftrightarrow>
     (let m = mmu\<lparr>mm_pte := pte, mm_leaf_pa_base := pa\<rparr>;
          m = (if mm_is_inst mmu
            then m\<lparr>mm_itlb := (mm_itlb mmu)[mm_itlb_replace_idx mmu := mmu_tlb_new m],
              mm_itlb_replace_idx := (mm_itlb_replace_idx mmu + 1) mod MMU_ITLB_SIZE\<rparr>
            else m\<lparr>mm_dtlb := (mm_dtlb mmu)[mm_dtlb_replace_idx mmu := mmu_tlb_new m],
              mm_dtlb_replace_idx := (mm_dtlb_replace_idx mmu + 1) mod MMU_DTLB_SIZE\<rparr>)
      in mmu' = m\<lparr>mm_req := (mm_req mmu)\<lparr>bq_addr := pa\<rparr>, mm_final_req_pending := True\<rparr>)"

lemma tlb_new_pte: "mmu_tlb_new (mmu\<lparr>mm_pte := pte, mm_leaf_pa_base := pa\<rparr>) = \<lparr>te_vld = True, te_tag = mmu_tlb_tag (mm_va mmu) (mm_level mmu),
     te_satp_ppn = satp_ppn (mmu_satp mmu), te_satp_asid = satp_asid (mmu_satp mmu), te_priv = mm_req_priv mmu,
     te_sum = mm_req_sum mmu, te_mxr = mm_req_mxr mmu, te_level = mm_level mmu, te_pte = pte,
     te_pa_base = pa AND NOT (mmu_tlb_page_mask (mm_level mmu))\<rparr>"
  by (simp add: mmu_tlb_new_def mmu_satp_def)

lemma walk_slot_frame [simp]:
  "walk_slot_ok (mmu\<lparr>mm_pte := a\<rparr>) = walk_slot_ok mmu" "walk_slot_ok (mmu\<lparr>mm_ptw_bti_rsp_slv := b\<rparr>) = walk_slot_ok mmu"
  "walk_slot_ok (mmu\<lparr>mm_pte_req_pending := c\<rparr>) = walk_slot_ok mmu"
  by (simp_all add: walk_slot_ok_def mmu_ost_def)

text \<open>What the walker does with an entry: fault, translate, or go down one level with the same outcome ahead.\<close>

lemma finish_step:
  assumes w: "walking mmu" and shape: "tlb_shape mmu" and mem: "mem (mmu_pte_addr mmu) = Some pte"
  shows "walk_outcome mem mmu = None \<and> mmu_finish_translate (mmu\<lparr>mm_pte := pte\<rparr>) = mmu_raise_fault (mmu\<lparr>mm_pte := pte\<rparr>)
    \<or> (\<exists>pa mmu'. walk_rest mem mmu = Some (mm_level mmu, pte) \<and> walk_outcome mem mmu = Some pa
        \<and> mmu_finish_translate (mmu\<lparr>mm_pte := pte\<rparr>) = Some mmu' \<and> walk_translated pte pa mmu mmu')
    \<or> (let m = mmu\<lparr>mm_pte := pte, mm_root_base := push_bit 12 (drop_bit 10 pte), mm_level := 0\<rparr>
       in mm_level mmu = 1 \<and> mmu_finish_translate (mmu\<lparr>mm_pte := pte\<rparr>) = Some m \<and> walk_outcome mem m = walk_outcome mem mmu
         \<and> walk_rest mem m = walk_rest mem mmu)"
proof -
  let ?m = "mmu\<lparr>mm_pte := pte\<rparr>"
  have mem': "mem (mm_root_base mmu + 4 * (if mm_level mmu = 1 then vpn1 (mm_va mmu) else vpn0 (mm_va mmu))) = Some pte"
    using mem by (simp only: mmu_pte_addr_eq)
  note code = mmu_finish_translate_def mmu_pte_valid_iff mmu_pte_is_leaf_iff mmu_ptr_mask
  show ?thesis
  proof (cases "pte_bad pte \<or> \<not> pte_leaf pte \<and> (pte_ptr_bad pte \<or> mm_level mmu = 0)")
    case True
    then have "walk_rest mem mmu = None"
      using w mem' by (auto simp: walk_rest_def leaf_walk_def leaf_walk0_def walking_def split: if_splits)
    then have "walk_outcome mem mmu = None" by (simp add: walk_outcome_def leaf_outcome_def leaf_xlate_def)
    moreover have "mmu_finish_translate ?m = mmu_raise_fault ?m" using True by (auto simp: code)
    ultimately show ?thesis by blast
  next
    case False
    show ?thesis
    proof (cases "pte_leaf pte")
      case leaf: False
      with False w have l1: "mm_level mmu = 1" by (auto simp: walking_def)
      let ?d = "mmu\<lparr>mm_pte := pte, mm_root_base := push_bit 12 (drop_bit 10 pte), mm_level := 0\<rparr>"
      have "mmu_finish_translate ?m = Some ?d" using False leaf l1 by (simp add: code mmu_pte_ppn_def)
      moreover have rest: "walk_rest mem ?d = walk_rest mem mmu" using False leaf l1 mem' by (simp add: walk_rest_def leaf_walk_def)
      have "walk_outcome mem ?d = walk_outcome mem mmu" unfolding walk_outcome_def rest by (simp add: leaf_outcome_def)
      ultimately show ?thesis using l1 rest by (simp add: Let_def)
    next
      case leaf: True
      with False w mem' have rest: "walk_rest mem mmu = Some (mm_level mmu, pte)"
        by (auto simp: walk_rest_def leaf_walk_def leaf_walk0_def walking_def)
      show ?thesis
      proof (cases "walk_outcome mem mmu")
        case None
        then have "mmu_finish_translate ?m = mmu_raise_fault ?m"
          using False leaf mmu_permits_iff [of ?m pte]
          by (auto simp: code walk_outcome_def leaf_outcome_def leaf_xlate_def rest mmu_leaf_to_pa_eq split: if_splits option.splits)
        with None show ?thesis by blast
      next
        case (Some pa)
        then have ok: "mmu_pte_permits ?m pte \<and> mmu_pte_ad_ok ?m pte" "mmu_leaf_to_pa ?m pte = Some pa"
          using mmu_permits_iff [of ?m pte] by (auto simp: walk_outcome_def leaf_outcome_def leaf_xlate_def rest mmu_leaf_to_pa_eq split: if_splits)
        have "\<exists>mmu'. mmu_finish_translate ?m = Some mmu' \<and> walk_translated pte pa mmu mmu'"
          using False leaf ok shape by (simp add: code mmu_tlb_fill_def walk_translated_def tlb_shape_def Let_def)
        with rest Some show ?thesis by blast
      qed
    qed
  qed
qed

section \<open>Steps of the walker\<close>

definition walk_inv :: "pt_mem \<Rightarrow> mmu \<Rightarrow> bool" where
  "walk_inv mem mmu \<longleftrightarrow> walking mmu \<and> ptw_ok mem mmu \<and> tlb_shape mmu \<and> walk_slot_ok mmu"

text \<open>The memory takes a waiting page table request and answers it.\<close>

definition ptw_serve :: "pt_mem \<Rightarrow> mmu \<Rightarrow> mmu option" where
  "ptw_serve mem mmu =
     (if itf_fifo_empty (mm_ptw_bti_req_mst mmu) \<or> itf_fifo_full (mm_ptw_bti_rsp_slv mmu) then Some mmu
      else do {
        (req, t) \<leftarrow> itf_read (mm_ptw_bti_req_mst mmu);
        u \<leftarrow> itf_write (mm_ptw_bti_rsp_slv mmu) (pt_answer mem req);
        Some (mmu\<lparr>mm_ptw_bti_req_mst := t, mm_ptw_bti_rsp_slv := u\<rparr>)
      })"

text \<open>The queues beside the walker are well formed; responses are never marked to be dropped.\<close>

definition mmu_ports :: "mmu \<Rightarrow> bool" where
  "mmu_ports mmu \<longleftrightarrow> itf_inv (mm_va_i_bti_req_slv mmu) \<and> itf_inv (mm_va_i_bti_rsp_mst mmu) \<and> itf_inv (mm_va_d_bti_req_slv mmu)
     \<and> itf_inv (mm_va_d_bti_rsp_mst mmu) \<and> itf_inv (mm_fch_expt_mst mmu) \<and> itf_inv (mm_ldst_expt_mst mmu)
     \<and> itf_inv (mm_pa_i_bti_req_mst mmu) \<and> itf_inv (mm_pa_i_bti_rsp_slv mmu) \<and> itf_inv (mm_pa_d_bti_req_mst mmu)
     \<and> itf_inv (mm_pa_d_bti_rsp_slv mmu) \<and> itf_inv (mm_tlb_flush_slv mmu) \<and> fifo_inv (mm_va_i_req_fifo mmu)
     \<and> fifo_inv (mm_va_d_req_fifo mmu) \<and> \<not> mm_drop_ptw_rsp mmu \<and> \<not> mm_drop_i_rsp mmu"

text \<open>The request under translation is that of the walk \<open>mmu0\<close>.\<close>

definition same_walk :: "mmu \<Rightarrow> mmu \<Rightarrow> bool" where
  "same_walk mmu0 mmu \<longleftrightarrow> mm_is_inst mmu = mm_is_inst mmu0 \<and> mm_req mmu = mm_req mmu0 \<and> mm_req_priv mmu = mm_req_priv mmu0
     \<and> mm_req_sum mmu = mm_req_sum mmu0 \<and> mm_req_mxr mmu = mm_req_mxr mmu0 \<and> mm_fault_pc mmu = mm_fault_pc mmu0
     \<and> mm_va mmu = mm_va mmu0 \<and> mm_walk_slot mmu = mm_walk_slot mmu0
     \<and> mm_i_ost mmu = mm_i_ost mmu0 \<and> mm_d_ost mmu = mm_d_ost mmu0 \<and> mm_csr_state_i mmu = mm_csr_state_i mmu0
     \<and> mm_itlb mmu = mm_itlb mmu0 \<and> mm_dtlb mmu = mm_dtlb mmu0 \<and> mmu_ports mmu = mmu_ports mmu0"

lemma itf_room: "itf_inv t \<Longrightarrow> itf_list t = [] \<Longrightarrow> \<not> itf_fifo_full t"
  using itf.is_full_iff [of t] by (auto simp: itf_inv_def ring_inv_def)

lemma send_pte:
  assumes inv: "walk_inv mem mmu" and np: "\<not> mm_pte_req_pending mmu"
  shows "\<exists>t. mmu_send_pte_req mmu = Some (mmu\<lparr>mm_ptw_bti_req_mst := t, mm_pte_req_pending := True\<rparr>)
    \<and> itf_inv t \<and> itf_list t = [pte_req mmu]"
proof -
  from inv np have i: "itf_inv (mm_ptw_bti_req_mst mmu)" "itf_list (mm_ptw_bti_req_mst mmu) = []"
    by (simp_all add: walk_inv_def ptw_ok_def)
  with itf.push_ok [OF i(1) itf_room [OF i], of "pte_req mmu"] itf_room [OF i] np show ?thesis
    by (auto simp: mmu_send_pte_req_def pte_req_def)
qed

lemma walk_frames [simp]:
  "mmu_pte_addr (mmu\<lparr>mm_ptw_bti_req_mst := a\<rparr>) = mmu_pte_addr mmu" "mmu_pte_addr (mmu\<lparr>mm_ptw_bti_rsp_slv := b\<rparr>) = mmu_pte_addr mmu"
  "mmu_pte_addr (mmu\<lparr>mm_pte_req_pending := c\<rparr>) = mmu_pte_addr mmu" "mmu_pte_addr (mmu\<lparr>mm_pte := d\<rparr>) = mmu_pte_addr mmu"
  "walk_rest mem (mmu\<lparr>mm_ptw_bti_req_mst := a\<rparr>) = walk_rest mem mmu" "walk_rest mem (mmu\<lparr>mm_ptw_bti_rsp_slv := b\<rparr>) = walk_rest mem mmu"
  "walk_rest mem (mmu\<lparr>mm_pte_req_pending := c\<rparr>) = walk_rest mem mmu" "walk_rest mem (mmu\<lparr>mm_pte := d\<rparr>) = walk_rest mem mmu"
  "leaf_outcome (mmu\<lparr>mm_ptw_bti_req_mst := a\<rparr>) r = leaf_outcome mmu r" "leaf_outcome (mmu\<lparr>mm_ptw_bti_rsp_slv := b\<rparr>) r = leaf_outcome mmu r"
  "leaf_outcome (mmu\<lparr>mm_pte_req_pending := c\<rparr>) r = leaf_outcome mmu r" "leaf_outcome (mmu\<lparr>mm_pte := d\<rparr>) r = leaf_outcome mmu r"
  "walking (mmu\<lparr>mm_ptw_bti_req_mst := a\<rparr>) = walking mmu" "walking (mmu\<lparr>mm_ptw_bti_rsp_slv := b\<rparr>) = walking mmu"
  "walking (mmu\<lparr>mm_pte_req_pending := c\<rparr>) = walking mmu" "walking (mmu\<lparr>mm_pte := d\<rparr>) = walking mmu"
  "tlb_shape (mmu\<lparr>mm_ptw_bti_req_mst := a\<rparr>) = tlb_shape mmu" "tlb_shape (mmu\<lparr>mm_ptw_bti_rsp_slv := b\<rparr>) = tlb_shape mmu"
  "tlb_shape (mmu\<lparr>mm_pte_req_pending := c\<rparr>) = tlb_shape mmu" "tlb_shape (mmu\<lparr>mm_pte := d\<rparr>) = tlb_shape mmu"
  "walk_slot_ok (mmu\<lparr>mm_ptw_bti_req_mst := a\<rparr>) = walk_slot_ok mmu"
  by (simp_all add: mmu_pte_addr_def walk_rest_def leaf_outcome_def walking_def tlb_shape_def walk_slot_ok_def mmu_ost_def)

text \<open>The state in which an answer has been taken off the interface.\<close>

definition pte_taken :: "mmu \<Rightarrow> u32 \<Rightarrow> mmu \<Rightarrow> bool" where
  "pte_taken mmu pte m \<longleftrightarrow> (\<exists>t. itf_inv t \<and> itf_list t = [] \<and> itf_list (mm_ptw_bti_req_mst mmu) = []
     \<and> m = mmu\<lparr>mm_ptw_bti_rsp_slv := t, mm_pte_req_pending := False, mm_pte := pte\<rparr>)"

definition walk_goes_on :: "pt_mem \<Rightarrow> mmu \<Rightarrow> mmu \<Rightarrow> bool" where
  "walk_goes_on mem mmu mmu' \<longleftrightarrow> walk_inv mem mmu' \<and> walk_rest mem mmu' = walk_rest mem mmu
     \<and> walk_outcome mem mmu' = walk_outcome mem mmu \<and> same_walk mmu mmu'"

definition walk_ended :: "pt_mem \<Rightarrow> mmu \<Rightarrow> mmu \<Rightarrow> bool" where
  "walk_ended mem mmu mmu' \<longleftrightarrow> (\<exists>pte m. pte_taken mmu pte m \<and>
     (case walk_outcome mem mmu of
        None \<Rightarrow> walk_faulted m mmu'
      | Some pa \<Rightarrow> walk_rest mem mmu = Some (mm_level mmu, pte) \<and> walk_translated pte pa m mmu'))"

lemma walk_proc_none:
  assumes inv: "walk_inv mem mmu" and np: "\<not> mm_pte_req_pending mmu"
  shows "\<exists>mmu'. mmu_proc_walk mmu = Some mmu' \<and> mm_pte_req_pending mmu' \<and> itf_list (mm_ptw_bti_req_mst mmu') = [pte_req mmu']
    \<and> walk_goes_on mem mmu mmu' \<and> mm_level mmu' = mm_level mmu"
proof -
  from send_pte [OF inv np] obtain t where
    t: "mmu_send_pte_req mmu = Some (mmu\<lparr>mm_ptw_bti_req_mst := t, mm_pte_req_pending := True\<rparr>)" "itf_inv t" "itf_list t = [pte_req mmu]" by blast
  let ?m = "mmu\<lparr>mm_ptw_bti_req_mst := t, mm_pte_req_pending := True\<rparr>"
  have w: "walking mmu" using inv by (simp add: walk_inv_def)
  have "mmu_proc_walk mmu = Some ?m"
    using w np t(1) by (simp add: mmu_proc_walk_def walking_def mmu_recv_pte_rsp_def)
  moreover have pr: "pte_req ?m = pte_req mmu" by (simp add: pte_req_def)
  moreover have "ptw_ok mem ?m" unfolding ptw_ok_def pr using inv np t by (simp add: walk_inv_def ptw_ok_def)
  moreover have "same_walk mmu ?m" by (simp add: same_walk_def mmu_ost_def mmu_ports_def)
  ultimately show ?thesis using inv t(3) by (simp add: walk_goes_on_def walk_inv_def walk_outcome_def)
qed

lemma walk_proc_wait:
  assumes inv: "walk_inv mem mmu" and p: "mm_pte_req_pending mmu" "itf_list (mm_ptw_bti_rsp_slv mmu) = []"
  shows "mmu_proc_walk mmu = Some mmu"
proof -
  have "itf_fifo_empty (mm_ptw_bti_rsp_slv mmu)" using inv p(2) itf.is_empty_iff by (auto simp: walk_inv_def ptw_ok_def)
  with inv p(1) show ?thesis
    by (simp add: mmu_proc_walk_def walk_inv_def walking_def mmu_recv_pte_rsp_def mmu_send_pte_req_def)
qed

lemma descend_inv:
  assumes inv: "walk_inv mem mmu" and t: "pte_taken mmu pte m"
  shows "walk_inv mem (m\<lparr>mm_root_base := r, mm_level := 0\<rparr>)"
  using assms by (auto simp: walk_inv_def walking_def ptw_ok_def tlb_shape_def walk_slot_ok_def mmu_ost_def pte_taken_def)

lemma walk_proc_answer:
  assumes inv: "walk_inv mem mmu" and p: "mm_pte_req_pending mmu" "itf_list (mm_ptw_bti_rsp_slv mmu) \<noteq> []"
  shows "\<exists>mmu'. mmu_proc_walk mmu = Some mmu' \<and> (walk_ended mem mmu mmu'
    \<or> mm_level mmu = 1 \<and> mm_level mmu' = 0 \<and> mm_pte_req_pending mmu' \<and> itf_list (mm_ptw_bti_req_mst mmu') = [pte_req mmu']
      \<and> walk_goes_on mem mmu mmu')"
proof -
  from inv p have w: "walking mmu" and shape: "tlb_shape mmu" and slot: "walk_slot_ok mmu"
    and i: "itf_inv (mm_ptw_bti_rsp_slv mmu)" "itf_list (mm_ptw_bti_rsp_slv mmu) = [pt_answer mem (pte_req mmu)]"
      "itf_list (mm_ptw_bti_req_mst mmu) = []"
    by (auto simp: walk_inv_def ptw_ok_def)
  from itf.pop_Cons [OF i(1,2)] obtain t where
    t: "itf_read (mm_ptw_bti_rsp_slv mmu) = Some (pt_answer mem (pte_req mmu), t)" "itf_inv t" "itf_list t = []" by blast
  let ?m = "mmu\<lparr>mm_ptw_bti_rsp_slv := t, mm_pte_req_pending := False\<rparr>"
  have ne: "\<not> itf_fifo_empty (mm_ptw_bti_rsp_slv mmu)" using itf.is_empty_iff [OF i(1)] i(2) by simp
  have addr: "bq_addr (pte_req mmu) = mmu_pte_addr mmu" "bq_trans_id (pte_req mmu) = MMU_PTE_TRANS_ID" by (simp_all add: pte_req_def)
  have taken: "pte_taken mmu pte (?m\<lparr>mm_pte := pte\<rparr>)" for pte unfolding pte_taken_def using t i(3) by blast
  have proc: "mmu_proc_walk mmu = do {
      m \<leftarrow> mmu_recv_pte_rsp mmu; if mm_busy m \<and> \<not> mm_final_req_pending m then mmu_send_pte_req m else Some m }"
    using w by (simp add: mmu_proc_walk_def walking_def)
  show ?thesis
  proof (cases "mem (mmu_pte_addr mmu)")
    case None
    have slot': "walk_slot_ok (?m\<lparr>mm_pte := mm_pte mmu\<rparr>)" "mm_walk_slot_vld (?m\<lparr>mm_pte := mm_pte mmu\<rparr>)" using slot w by (simp_all add: walking_def)
    from raise_fault_ok [OF slot'] obtain mmu' where f: "mmu_raise_fault (?m\<lparr>mm_pte := mm_pte mmu\<rparr>) = Some mmu'"
      "walk_faulted (?m\<lparr>mm_pte := mm_pte mmu\<rparr>) mmu'" by blast
    have "?m\<lparr>mm_pte := mm_pte mmu\<rparr> = ?m" by simp
    with f(1) None p(1) ne t(1) addr have "mmu_recv_pte_rsp mmu = Some mmu'"
      by (simp add: mmu_recv_pte_rsp_def pt_answer_def)
    moreover have "\<not> mm_busy mmu'" using f(2) unfolding walk_faulted_def by auto
    ultimately have "mmu_proc_walk mmu = Some mmu'" by (simp add: proc)
    moreover have out: "walk_outcome mem mmu = None"
      using None w by (auto simp: walk_outcome_def leaf_outcome_def leaf_xlate_def walk_rest_def leaf_walk_def leaf_walk0_def mmu_pte_addr_eq)
    have "walk_ended mem mmu mmu'" unfolding walk_ended_def out option.case using taken f(2) by blast
    ultimately show ?thesis by blast
  next
    case (Some pte)
    have recv: "mmu_recv_pte_rsp mmu = mmu_finish_translate (?m\<lparr>mm_pte := pte\<rparr>)"
      using Some p(1) ne t(1) addr by (simp add: mmu_recv_pte_rsp_def pt_answer_def)
    have m: "walking ?m" "tlb_shape ?m" "mem (mmu_pte_addr ?m) = Some pte" "walk_outcome mem ?m = walk_outcome mem mmu"
      "walk_rest mem ?m = walk_rest mem mmu" using w shape Some by (simp_all add: walk_outcome_def)
    let ?d = "?m\<lparr>mm_pte := pte, mm_root_base := push_bit 12 (drop_bit 10 pte), mm_level := 0\<rparr>"
    consider (fault) "walk_outcome mem mmu = None" "mmu_finish_translate (?m\<lparr>mm_pte := pte\<rparr>) = mmu_raise_fault (?m\<lparr>mm_pte := pte\<rparr>)"
      | (leaf) pa mmu' where "walk_rest mem mmu = Some (mm_level ?m, pte)" "walk_outcome mem mmu = Some pa"
          "mmu_finish_translate (?m\<lparr>mm_pte := pte\<rparr>) = Some mmu'" "walk_translated pte pa ?m mmu'"
      | (down) "mm_level mmu = 1" "mmu_finish_translate (?m\<lparr>mm_pte := pte\<rparr>) = Some ?d"
          "walk_outcome mem ?d = walk_outcome mem mmu" "walk_rest mem ?d = walk_rest mem mmu"
      using finish_step [of ?m mem pte, OF m(1-3)] unfolding m(4,5) Let_def by auto
    then show ?thesis
    proof cases
      case fault
      have slot': "walk_slot_ok (?m\<lparr>mm_pte := pte\<rparr>)" "mm_walk_slot_vld (?m\<lparr>mm_pte := pte\<rparr>)" using slot w by (simp_all add: walking_def)
      from raise_fault_ok [OF slot'] obtain mmu' where f: "mmu_raise_fault (?m\<lparr>mm_pte := pte\<rparr>) = Some mmu'"
        "walk_faulted (?m\<lparr>mm_pte := pte\<rparr>) mmu'" by blast
      then have "\<not> mm_busy mmu'" unfolding walk_faulted_def by auto
      with fault f(1) recv have "mmu_proc_walk mmu = Some mmu'" by (simp add: proc)
      moreover have "walk_ended mem mmu mmu'" unfolding walk_ended_def using taken [of pte] f(2) fault(1) by auto
      ultimately show ?thesis by blast
    next
      case leaf
      have tr: "walk_translated pte pa (?m\<lparr>mm_pte := pte\<rparr>) mmu'" using leaf(4) by (simp add: walk_translated_def tlb_new_pte Let_def mmu_satp_def)
      then have "mm_final_req_pending mmu'" by (auto simp: walk_translated_def Let_def split: if_splits)
      with leaf(3) recv have "mmu_proc_walk mmu = Some mmu'" by (simp add: proc)
      moreover have "walk_ended mem mmu mmu'" unfolding walk_ended_def using taken [of pte] tr leaf(1,2) by auto
      ultimately show ?thesis by blast
    next
      case down
      have d: "walk_inv mem ?d" using descend_inv [OF inv taken [of pte], of "push_bit 12 (drop_bit 10 pte)"] by simp
      have np: "\<not> mm_pte_req_pending ?d" by simp
      from walk_proc_none [OF d np] obtain mmu' where
        x: "mmu_proc_walk ?d = Some mmu'" "mm_pte_req_pending mmu'" "itf_list (mm_ptw_bti_req_mst mmu') = [pte_req mmu']"
          "walk_goes_on mem ?d mmu'" "mm_level mmu' = mm_level ?d" by blast
      have b: "mm_busy ?d" "\<not> mm_final_req_pending ?d" "\<not> mm_final_rsp_pending ?d" using w by (simp_all add: walking_def)
      then have "mmu_proc_walk ?d = mmu_send_pte_req ?d" by (simp add: mmu_proc_walk_def mmu_recv_pte_rsp_def)
      with x(1) b down(2) recv have "mmu_proc_walk mmu = Some mmu'" by (simp add: proc)
      moreover have "walk_goes_on mem mmu mmu'"
        using x(4) down(3,4) unfolding walk_goes_on_def by (simp add: same_walk_def mmu_ost_def mmu_ports_def)
      ultimately show ?thesis using x down(1) by simp
    qed
  qed
qed

section \<open>A walk against its memory\<close>

definition walk_round :: "pt_mem \<Rightarrow> mmu \<Rightarrow> mmu option" where
  "walk_round mem mmu = do { mmu \<leftarrow> mmu_proc_walk mmu; ptw_serve mem mmu }"

primrec walk_rounds :: "nat \<Rightarrow> pt_mem \<Rightarrow> mmu \<Rightarrow> mmu option" where
  "walk_rounds 0 mem mmu = Some mmu"
| "walk_rounds (Suc n) mem mmu = Option.bind (walk_round mem mmu) (walk_rounds n mem)"

definition walk_served :: "pt_mem \<Rightarrow> mmu \<Rightarrow> bool" where
  "walk_served mem mmu \<longleftrightarrow> walk_inv mem mmu \<and> mm_pte_req_pending mmu \<and> itf_list (mm_ptw_bti_rsp_slv mmu) \<noteq> []"

lemma serve_pending:
  assumes inv: "walk_inv mem mmu" and p: "mm_pte_req_pending mmu" "itf_list (mm_ptw_bti_req_mst mmu) = [pte_req mmu]"
  shows "\<exists>mmu'. ptw_serve mem mmu = Some mmu' \<and> walk_served mem mmu' \<and> walk_goes_on mem mmu mmu' \<and> mm_level mmu' = mm_level mmu"
proof -
  from inv p have i: "itf_inv (mm_ptw_bti_req_mst mmu)" "itf_inv (mm_ptw_bti_rsp_slv mmu)" "itf_list (mm_ptw_bti_rsp_slv mmu) = []"
    by (auto simp: walk_inv_def ptw_ok_def)
  note room = itf_room [OF i(2,3)]
  from itf.pop_Cons [OF i(1) p(2)] obtain t where t: "itf_read (mm_ptw_bti_req_mst mmu) = Some (pte_req mmu, t)" "itf_inv t" "itf_list t = []" by blast
  from itf.push_ok [OF i(2) room, of "pt_answer mem (pte_req mmu)"] i(3) obtain u where
    u: "itf_write (mm_ptw_bti_rsp_slv mmu) (pt_answer mem (pte_req mmu)) = Some u" "itf_inv u" "itf_list u = [pt_answer mem (pte_req mmu)]" by auto
  let ?m = "mmu\<lparr>mm_ptw_bti_req_mst := t, mm_ptw_bti_rsp_slv := u\<rparr>"
  have "\<not> itf_fifo_empty (mm_ptw_bti_req_mst mmu)" using itf.is_empty_iff [OF i(1)] p(2) by simp
  with room t u have "ptw_serve mem mmu = Some ?m" by (simp add: ptw_serve_def)
  moreover have pr: "pte_req ?m = pte_req mmu" by (simp add: pte_req_def)
  moreover have "ptw_ok mem ?m" unfolding ptw_ok_def pr using t u p(1) by simp
  moreover have "same_walk mmu ?m" by (simp add: same_walk_def mmu_ost_def mmu_ports_def)
  ultimately show ?thesis using inv p(1) u(3) by (simp add: walk_served_def walk_goes_on_def walk_inv_def walk_outcome_def)
qed

lemma serve_idle: "itf_inv (mm_ptw_bti_req_mst mmu) \<Longrightarrow> itf_list (mm_ptw_bti_req_mst mmu) = [] \<Longrightarrow> ptw_serve mem mmu = Some mmu"
  using itf.is_empty_iff by (auto simp: ptw_serve_def)

lemma ended_ptw_frame:
  "walk_faulted m mmu' \<Longrightarrow> mm_ptw_bti_req_mst mmu' = mm_ptw_bti_req_mst m"
  "walk_faulted m mmu' \<Longrightarrow> mm_ptw_bti_rsp_slv mmu' = mm_ptw_bti_rsp_slv m"
  "walk_translated pte pa m mmu' \<Longrightarrow> mm_ptw_bti_req_mst mmu' = mm_ptw_bti_req_mst m"
  "walk_translated pte pa m mmu' \<Longrightarrow> mm_ptw_bti_rsp_slv mmu' = mm_ptw_bti_rsp_slv m"
  unfolding walk_faulted_def walk_translated_def Let_def by (elim exE conjE, simp add: mmu_set_ost_def)+ simp_all

lemma ended_no_req:
  assumes "walk_ended mem mmu mmu'" "walk_inv mem mmu"
  shows "itf_inv (mm_ptw_bti_req_mst mmu')" "itf_list (mm_ptw_bti_req_mst mmu') = []"
proof -
  from assms(1) obtain pte m where t: "pte_taken mmu pte m"
    and e: "case walk_outcome mem mmu of None \<Rightarrow> walk_faulted m mmu'
      | Some pa \<Rightarrow> walk_rest mem mmu = Some (mm_level mmu, pte) \<and> walk_translated pte pa m mmu'" unfolding walk_ended_def by blast
  from t have "mm_ptw_bti_req_mst m = mm_ptw_bti_req_mst mmu" "itf_list (mm_ptw_bti_req_mst mmu) = []"
    unfolding pte_taken_def by (elim exE conjE, simp)+
  moreover have "mm_ptw_bti_req_mst mmu' = mm_ptw_bti_req_mst m"
    using e ended_ptw_frame by (cases "walk_outcome mem mmu") auto
  ultimately show "itf_inv (mm_ptw_bti_req_mst mmu')" "itf_list (mm_ptw_bti_req_mst mmu') = []"
    using assms(2) by (simp_all add: walk_inv_def ptw_ok_def)
qed

lemma goes_on_trans:
  "walk_goes_on mem a b \<Longrightarrow> walk_goes_on mem b c \<Longrightarrow> walk_goes_on mem a c"
  by (simp add: walk_goes_on_def same_walk_def)

lemma round_first:
  assumes inv: "walk_inv mem mmu" and np: "\<not> mm_pte_req_pending mmu"
  shows "\<exists>mmu'. walk_round mem mmu = Some mmu' \<and> walk_served mem mmu' \<and> walk_goes_on mem mmu mmu' \<and> mm_level mmu' = mm_level mmu"
proof -
  from walk_proc_none [OF assms] obtain m where m: "mmu_proc_walk mmu = Some m" "mm_pte_req_pending m"
    "itf_list (mm_ptw_bti_req_mst m) = [pte_req m]" "walk_goes_on mem mmu m" "mm_level m = mm_level mmu" by blast
  then have "walk_inv mem m" by (simp add: walk_goes_on_def)
  from serve_pending [OF this m(2,3)] m goes_on_trans show ?thesis by (fastforce simp: walk_round_def)
qed

lemma round_next:
  assumes s: "walk_served mem mmu"
  shows "\<exists>mmu'. walk_round mem mmu = Some mmu' \<and> (walk_ended mem mmu mmu'
    \<or> mm_level mmu = 1 \<and> mm_level mmu' = 0 \<and> walk_served mem mmu' \<and> walk_goes_on mem mmu mmu')"
proof -
  from s have inv: "walk_inv mem mmu" and p: "mm_pte_req_pending mmu" "itf_list (mm_ptw_bti_rsp_slv mmu) \<noteq> []"
    by (simp_all add: walk_served_def)
  from walk_proc_answer [OF inv p] obtain m where m: "mmu_proc_walk mmu = Some m" and
    alt: "walk_ended mem mmu m \<or> mm_level mmu = 1 \<and> mm_level m = 0 \<and> mm_pte_req_pending m \<and> itf_list (mm_ptw_bti_req_mst m) = [pte_req m]
      \<and> walk_goes_on mem mmu m" by blast
  from alt show ?thesis
  proof
    assume e: "walk_ended mem mmu m"
    from serve_idle [OF ended_no_req [OF e inv]] m e show ?thesis by (simp add: walk_round_def)
  next
    assume d: "mm_level mmu = 1 \<and> mm_level m = 0 \<and> mm_pte_req_pending m \<and> itf_list (mm_ptw_bti_req_mst m) = [pte_req m]
      \<and> walk_goes_on mem mmu m"
    then have "walk_inv mem m" by (simp add: walk_goes_on_def)
    from serve_pending [OF this] d m goes_on_trans show ?thesis by (fastforce simp: walk_round_def)
  qed
qed

section \<open>The whole walk\<close>

text \<open>A state in which a walk for a request in slot number \<open>k\<close> of its side can start.\<close>

definition walk_ready :: "mmu \<Rightarrow> bool \<Rightarrow> nat \<Rightarrow> bool" where
  "walk_ready mmu is_inst k \<longleftrightarrow> itf_inv (mm_ptw_bti_req_mst mmu) \<and> itf_inv (mm_ptw_bti_rsp_slv mmu)
     \<and> itf_list (mm_ptw_bti_req_mst mmu) = [] \<and> itf_list (mm_ptw_bti_rsp_slv mmu) = [] \<and> \<not> mm_final_rsp_pending mmu
     \<and> tlb_shape mmu \<and> ostq_inv (mmu_ost mmu is_inst) \<and> k < length (ostq_live (mmu_ost mmu is_inst))"

definition page_fault :: "mmu_access \<Rightarrow> mmu_req_ctx \<Rightarrow> hart_expt" where
  "page_fault access ctx = \<lparr>he_type = HART_EXPT_TYPE_EXCEPTION,
     he_cause = (case access of MMU_ACCESS_INST \<Rightarrow> 12 | MMU_ACCESS_LOAD \<Rightarrow> 13 | MMU_ACCESS_STORE \<Rightarrow> 15),
     he_priv = mr_priv ctx, he_pc = mr_fault_pc ctx, he_tval = bq_addr (mr_req ctx)\<rparr>"

text \<open>The outcome of a request: forwarded with a physical address, or completed with a page fault.\<close>

definition xlate_result :: "bool \<Rightarrow> mmu_req_ctx \<Rightarrow> nat \<Rightarrow> u32 option \<Rightarrow> mmu \<Rightarrow> bool" where
  "xlate_result is_inst ctx k r mmu' \<longleftrightarrow> (case r of
     Some pa \<Rightarrow> mm_busy mmu' \<and> mm_final_req_pending mmu' \<and> mm_is_inst mmu' = is_inst \<and> mm_req mmu' = (mr_req ctx)\<lparr>bq_addr := pa\<rparr>
   | None \<Rightarrow> \<not> mm_busy mmu' \<and> (let c = ostq_live (mmu_ost mmu' is_inst) ! k in
       mo_ready c \<and> mo_expt_vld c \<and> mo_expt c = page_fault (mmu_access_of is_inst (bq_cmd (mr_req ctx))) ctx))"

lemma fault_cause_eq: "mmu_fault_cause is_inst cmd
    = (case mmu_access_of is_inst cmd of MMU_ACCESS_INST \<Rightarrow> 12 | MMU_ACCESS_LOAD \<Rightarrow> 13 | MMU_ACCESS_STORE \<Rightarrow> 15)"
  by (cases cmd) (simp_all add: mmu_fault_cause_def mmu_access_of_def mmu_data_access_from_cmd_def)

lemma start_inv:
  fixes ctx :: mmu_req_ctx
  assumes r: "walk_ready mmu is_inst k"
  defines "m \<equiv> mmu_start_req_ctx mmu is_inst ctx (ostq_slot (mmu_ost mmu is_inst) k)"
  shows "walk_inv mem m" "\<not> mm_pte_req_pending m"
    "walk_outcome mem m = sv32 mem (push_bit 12 (satp_ppn (mmu_satp mmu))) (mmu_access_of is_inst (bq_cmd (mr_req ctx)))
       (mr_priv ctx) (mr_sum ctx) (mr_mxr ctx) (bq_addr (mr_req ctx))"
    "mm_level m = 1"
proof -
  have f: "walking m" "ptw_ok mem m" "tlb_shape m"
    using r by (simp_all add: m_def mmu_start_req_ctx_def mmu_set_active_req_def walk_ready_def walking_def ptw_ok_def tlb_shape_def)
  have "mmu_ost m (mm_is_inst m) = mmu_ost mmu is_inst" "mm_walk_slot m = ostq_slot (mmu_ost mmu is_inst) k"
    by (simp_all add: m_def mmu_start_req_ctx_def mmu_set_active_req_def mmu_ost_def)
  then have "walk_slot_ok m" using r unfolding walk_slot_ok_def walk_ready_def by auto
  with f show "walk_inv mem m" by (simp add: walk_inv_def)
  show "\<not> mm_pte_req_pending m" "mm_level m = 1" by (simp_all add: m_def mmu_start_req_ctx_def)
  show "walk_outcome mem m = sv32 mem (push_bit 12 (satp_ppn (mmu_satp mmu))) (mmu_access_of is_inst (bq_cmd (mr_req ctx)))
       (mr_priv ctx) (mr_sum ctx) (mr_mxr ctx) (bq_addr (mr_req ctx))"
    by (simp add: m_def mmu_start_req_ctx_def mmu_set_active_req_def walk_outcome_def leaf_outcome_def sv32_def walk_rest_def mmu_satp_def)
qed

lemma slot_inj:
  assumes "ostq_inv ost" "j < length (ostq_live ost)" "k < length (ostq_live ost)" "ostq_slot ost j = ostq_slot ost k"
  shows "j = k"
proof -
  have "ostq_off ost + j < q_depth ost" "ostq_off ost + k < q_depth ost"
    using ostq_live_nth(2) [OF assms(1,2)] ostq_live_nth(2) [OF assms(1,3)] ostq_inv_bounds(4) [OF assms(1)] by simp_all
  with assms(4) mod_add_inj [of "q_rptr ost" "ostq_off ost + j" "q_depth ost" "ostq_off ost + k"] show ?thesis
    unfolding ostq_slot_def by simp
qed

lemma ended_result:
  assumes e: "walk_ended mem m mmu'" and w: "walking m" and r: "walk_ready mmu is_inst k"
    and s: "same_walk (mmu_start_req_ctx mmu is_inst ctx (ostq_slot (mmu_ost mmu is_inst) k)) m"
  shows "xlate_result is_inst ctx k (walk_outcome mem m) mmu'"
proof -
  from s have m: "mm_is_inst m = is_inst" "mm_req m = mr_req ctx" "mm_req_priv m = mr_priv ctx" "mm_fault_pc m = mr_fault_pc ctx"
    "mm_va m = bq_addr (mr_req ctx)" "mm_walk_slot m = ostq_slot (mmu_ost mmu is_inst) k" "mmu_ost m is_inst = mmu_ost mmu is_inst"
    by (simp_all add: same_walk_def mmu_start_req_ctx_def mmu_set_active_req_def mmu_ost_def)
  from e obtain pte m' where t: "pte_taken m pte m'"
    and c: "case walk_outcome mem m of None \<Rightarrow> walk_faulted m' mmu'
      | Some pa \<Rightarrow> walk_rest mem m = Some (mm_level m, pte) \<and> walk_translated pte pa m' mmu'" unfolding walk_ended_def by blast
  from t obtain t' where m'_eq: "m' = m\<lparr>mm_ptw_bti_rsp_slv := t', mm_pte_req_pending := False, mm_pte := pte\<rparr>"
    unfolding pte_taken_def by (elim exE conjE) (rule that)
  have ost': "mmu_ost m' is_inst = mmu_ost m is_inst" by (simp add: m'_eq mmu_ost_def)
  have m': "mm_is_inst m' = is_inst" "mm_req m' = mr_req ctx" "mm_req_priv m' = mr_priv ctx" "mm_fault_pc m' = mr_fault_pc ctx"
    "mm_va m' = bq_addr (mr_req ctx)" "mm_walk_slot m' = ostq_slot (mmu_ost mmu is_inst) k" "mmu_ost m' is_inst = mmu_ost mmu is_inst"
    "mm_busy m'" using m w ost' by (simp_all add: m'_eq walking_def)
  show ?thesis
  proof (cases "walk_outcome mem m")
    case (Some pa)
    then have "walk_translated pte pa m' mmu'" using c by simp
    then have "mm_busy mmu' \<and> mm_final_req_pending mmu' \<and> mm_is_inst mmu' = is_inst \<and> mm_req mmu' = (mr_req ctx)\<lparr>bq_addr := pa\<rparr>"
      unfolding walk_translated_def Let_def using m' by simp
    with Some show ?thesis by (simp add: xlate_result_def)
  next
    case None
    let ?L = "ostq_live (mmu_ost mmu is_inst)"
    from None c have f: "walk_faulted m' mmu'" by simp
    obtain ost j where j: "j < length ?L" "ostq_slot (mmu_ost mmu is_inst) k = ostq_slot (mmu_ost mmu is_inst) j"
      and o: "ostq_live ost = ?L[j := fault_ctx m' (?L ! j)]"
      and mmu': "mmu' = (mmu_set_ost m' is_inst ost)\<lparr>mm_busy := False, mm_walk_slot_vld := False, mm_pte_req_pending := False,
         mm_final_req_pending := False, mm_final_rsp_pending := False\<rparr>"
      using f [unfolded walk_faulted_def m'(1,6,7)] by (elim exE conjE) (rule that)
    have "k = j" using slot_inj [OF _ _ j(1) j(2)] r by (simp add: walk_ready_def)
    with o j(1) have "ostq_live ost ! k = fault_ctx m' (?L ! k)" by simp
    moreover have "\<not> mm_busy mmu'" "mmu_ost mmu' is_inst = ost" unfolding mmu' by (simp_all add: mmu_ost_def mmu_set_ost_def)
    ultimately show ?thesis using None m'
      by (simp add: xlate_result_def Let_def fault_ctx_def page_fault_def fault_cause_eq)
  qed
qed

lemma walk_ends:
  assumes "walk_ready mmu is_inst k"
  shows "\<exists>n\<le>3. \<exists>mmu'. walk_rounds n mem (mmu_start_req_ctx mmu is_inst ctx (ostq_slot (mmu_ost mmu is_inst) k)) = Some mmu'
    \<and> xlate_result is_inst ctx k (sv32 mem (push_bit 12 (satp_ppn (mmu_satp mmu))) (mmu_access_of is_inst (bq_cmd (mr_req ctx)))
        (mr_priv ctx) (mr_sum ctx) (mr_mxr ctx) (bq_addr (mr_req ctx))) mmu'"
proof -
  let ?m0 = "mmu_start_req_ctx mmu is_inst ctx (ostq_slot (mmu_ost mmu is_inst) k)"
  have st: "walk_inv mem ?m0" "\<not> mm_pte_req_pending ?m0"
    "walk_outcome mem ?m0 = sv32 mem (push_bit 12 (satp_ppn (mmu_satp mmu))) (mmu_access_of is_inst (bq_cmd (mr_req ctx)))
        (mr_priv ctx) (mr_sum ctx) (mr_mxr ctx) (bq_addr (mr_req ctx))"
    by (rule start_inv [OF assms])+
  from round_first [OF st(1,2)] obtain m1 where m1: "walk_round mem ?m0 = Some m1" "walk_served mem m1" "walk_goes_on mem ?m0 m1" by blast
  have fin: ?thesis if e: "walk_ended mem m mmu'" and m: "walk_inv mem m" "walk_goes_on mem ?m0 m"
    and n: "walk_rounds n mem ?m0 = Some mmu'" "n \<le> 3" for m mmu' n
  proof -
    have "walking m" "same_walk ?m0 m" "walk_outcome mem m = walk_outcome mem ?m0" using m by (simp_all add: walk_inv_def walk_goes_on_def)
    with ended_result [OF e _ assms] n st(3) show ?thesis by auto
  qed
  from round_next [OF m1(2)] obtain m2 where m2: "walk_round mem m1 = Some m2" "walk_ended mem m1 m2
      \<or> mm_level m1 = 1 \<and> mm_level m2 = 0 \<and> walk_served mem m2 \<and> walk_goes_on mem m1 m2" by blast
  have inv1: "walk_inv mem m1" using m1(2) by (simp add: walk_served_def)
  show ?thesis
  proof (cases "walk_ended mem m1 m2")
    case True
    have "walk_rounds 2 mem ?m0 = Some m2" using m1(1) m2(1) by (simp add: numeral_2_eq_2)
    from fin [OF True inv1 m1(3) this] show ?thesis by simp
  next
    case False
    with m2 have d: "mm_level m2 = 0" "walk_served mem m2" "walk_goes_on mem m1 m2" by simp_all
    from round_next [OF d(2)] d(1) obtain m3 where m3: "walk_round mem m2 = Some m3" "walk_ended mem m2 m3" by auto
    have "walk_inv mem m2" using d(2) by (simp add: walk_served_def)
    moreover have "walk_rounds 3 mem ?m0 = Some m3" using m1(1) m2(1) m3(1) by (simp add: numeral_3_eq_3)
    ultimately show ?thesis using fin [OF m3(2) _ goes_on_trans [OF m1(3) d(3)]] by simp
  qed
qed

section \<open>The architecture's algorithm\<close>

text \<open>
  The translation of the privileged specification, with its 34-bit physical addresses: from level 1 down, an entry that the
  memory does not deliver is an access fault; an invalid or reserved entry, a leaf that does not allow the access or is
  misaligned, and a pointer at the last level are page faults.
\<close>

datatype sv32_result = Sv32_Pa "34 word" | Sv32_Page_Fault | Sv32_Access_Fault

definition sv32_leaf :: "mmu_access \<Rightarrow> priv \<Rightarrow> bool \<Rightarrow> bool \<Rightarrow> u32 \<Rightarrow> nat \<Rightarrow> u32 \<Rightarrow> sv32_result" where
  "sv32_leaf access priv sm mxr va i pte =
     (if \<not> leaf_allows access priv sm mxr pte then Sv32_Page_Fault
      else if i = 1 \<and> take_bit 10 (drop_bit 10 pte) \<noteq> 0 then Sv32_Page_Fault
      else Sv32_Pa (push_bit (12 + 10 * i) (ucast (drop_bit (10 + 10 * i) pte)) OR ucast (take_bit (12 + 10 * i) va)))"

primrec sv32_from :: "(34 word \<Rightarrow> u32 option) \<Rightarrow> (nat \<Rightarrow> u32 \<Rightarrow> sv32_result) \<Rightarrow> u32 \<Rightarrow> nat \<Rightarrow> 34 word \<Rightarrow> sv32_result" where
  "sv32_from pm leaf va 0 a = (case pm (a + 4 * ucast (vpn0 va)) of
     None \<Rightarrow> Sv32_Access_Fault
   | Some pte \<Rightarrow> if pte_bad pte \<or> \<not> pte_leaf pte then Sv32_Page_Fault else leaf 0 pte)"
| "sv32_from pm leaf va (Suc i) a = (case pm (a + 4 * ucast (vpn1 va)) of
     None \<Rightarrow> Sv32_Access_Fault
   | Some pte \<Rightarrow> if pte_bad pte then Sv32_Page_Fault else if pte_leaf pte then leaf (Suc i) pte
       else if pte_ptr_bad pte then Sv32_Page_Fault else sv32_from pm leaf va i (push_bit 12 (ucast (drop_bit 10 pte))))"

definition sv32_arch :: "(34 word \<Rightarrow> u32 option) \<Rightarrow> u32 \<Rightarrow> mmu_access \<Rightarrow> priv \<Rightarrow> bool \<Rightarrow> bool \<Rightarrow> u32 \<Rightarrow> sv32_result" where
  "sv32_arch pm ppn access priv sm mxr va = sv32_from pm (sv32_leaf access priv sm mxr va) va 1 (push_bit 12 (ucast ppn))"

text \<open>
  What this implementation makes of it: its bus carries 32 address bits, and it knows no access fault of a walk but reports
  a page fault.
\<close>

definition sv32_seen :: "sv32_result \<Rightarrow> u32 option" where
  "sv32_seen r = (case r of Sv32_Pa pa \<Rightarrow> Some (ucast pa) | Sv32_Page_Fault \<Rightarrow> None | Sv32_Access_Fault \<Rightarrow> None)"

lemma ucast_34_add: "(ucast (a + b :: 34 word) :: u32) = ucast a + ucast b"
proof -
  have "unat (ucast (a + b) :: u32) = unat (ucast a + ucast b :: u32)"
    by (simp add: unsigned_ucast_eq unat_word_ariths take_bit_eq_mod mod_add_eq mod_mod_cancel)
  then show ?thesis by (rule unsigned_word_eqI)
qed

lemma ucast_34_addr: "(ucast (push_bit 12 (ucast (x :: u32)) + 4 * ucast (y :: u32) :: 34 word) :: u32) = push_bit 12 x + 4 * y"
proof -
  have "4 * z = push_bit 2 z" for z :: "34 word" by (simp add: push_bit_eq_mult)
  moreover have "4 * z = push_bit 2 z" for z :: u32 by (simp add: push_bit_eq_mult)
  ultimately have "(ucast (4 * ucast y :: 34 word) :: u32) = 4 * y" "(ucast (push_bit 12 (ucast x) :: 34 word) :: u32) = push_bit 12 x"
    by (auto intro!: bit_word_eqI simp only: bit_simps) simp_all
  then show ?thesis by (simp only: ucast_34_add)
qed

lemma sv32_leaf_seen:
  "sv32_seen (sv32_leaf access priv sm mxr va 0 pte) = leaf_xlate access priv sm mxr va (Some (0, pte))"
  "sv32_seen (sv32_leaf access priv sm mxr va (Suc 0) pte) = leaf_xlate access priv sm mxr va (Some (1, pte))"
  by (auto intro!: bit_word_eqI simp: sv32_seen_def sv32_leaf_def leaf_xlate_def leaf_pa_def bit_simps)

lemma sv32_arch_seen:
  "sv32_seen (sv32_arch (\<lambda>a. mem (ucast a)) ppn access priv sm mxr va) = sv32 mem (push_bit 12 ppn) access priv sm mxr va"
  by (simp add: sv32_arch_def sv32_def leaf_walk_def leaf_walk0_def ucast_34_addr sv32_leaf_seen split: option.split)
    (auto simp: sv32_seen_def leaf_xlate_def)

section \<open>Properties\<close>

text \<open>
  C4. The page table walker implements Sv32 on a bus of 32 address bits. From the start of a walk, in at most three rounds
  of the walker and the memory that holds the page tables, the walk ends: where the algorithm of the privileged architecture gives a physical
  address, with the request waiting to be sent with that address, cut to 32 bits; where it demands a page fault, with a page fault of the right kind with privilege,
  program counter and address of the request in its slot; and where it demands an access fault, because an entry cannot be read, with
  such a page fault as well. No assertion fails on the way.
\<close>

theorem mmu_walk_correct:
  assumes "walk_ready mmu is_inst k"
  shows "\<exists>n\<le>3. \<exists>mmu'. walk_rounds n mem (mmu_start_req_ctx mmu is_inst ctx (ostq_slot (mmu_ost mmu is_inst) k)) = Some mmu'
    \<and> xlate_result is_inst ctx k (sv32_seen (sv32_arch (\<lambda>a. mem (ucast a)) (satp_ppn (mmu_satp mmu)) (mmu_access_of is_inst (bq_cmd (mr_req ctx)))
        (mr_priv ctx) (mr_sum ctx) (mr_mxr ctx) (bq_addr (mr_req ctx)))) mmu'"
  unfolding sv32_arch_seen by (rule walk_ends [OF assms])

text \<open>A unit with a store waiting in the first data slot, and page tables that map its page.\<close>

definition mmu_sample_req :: bti_req where
  "mmu_sample_req = \<lparr>bq_trans_id = 1, bq_cmd = BTI_REQ_CMD_WRITE, bq_addr = 0x3abc, bq_size = BTI_REQ_SIZE_B4, bq_data = 7, bq_strobe = 0xf\<rparr>"

definition mmu_sample_ctx :: mmu_req_ctx where
  "mmu_sample_ctx = \<lparr>mr_req = mmu_sample_req, mr_priv = RV32G_PRIV_SUPERVISOR, mr_sum = False, mr_mxr = False, mr_fault_pc = 0x100\<rparr>"

definition mmu_sample_ost :: "mmu_ost_ctx ostq" where
  "mmu_sample_ost = snd (the (the (ostq_alloc (the (ostq_construct 2)) (mmu_ctx0 False mmu_sample_req))))"

definition tlb_blank :: mmu_tlb_entry where
  "tlb_blank = \<lparr>te_vld = False, te_tag = 0, te_satp_ppn = 0, te_satp_asid = 0, te_priv = 0, te_sum = False, te_mxr = False,
     te_level = 0, te_pte = 0, te_pa_base = 0\<rparr>"

definition mmu_blank :: "mmu_ost_ctx ostq \<Rightarrow> u32 \<Rightarrow> mmu" where
  "mmu_blank d_ost satp = \<lparr>mm_va_i_bti_req_slv = fifo_itf_construct 1, mm_va_i_bti_rsp_mst = fifo_itf_construct 1,
     mm_va_d_bti_req_slv = fifo_itf_construct 1, mm_va_d_bti_rsp_mst = fifo_itf_construct 1,
     mm_fch_expt_mst = fifo_itf_construct 1, mm_ldst_expt_mst = fifo_itf_construct 1,
     mm_pa_i_bti_req_mst = fifo_itf_construct 1, mm_pa_i_bti_rsp_slv = fifo_itf_construct 1,
     mm_pa_d_bti_req_mst = fifo_itf_construct 1, mm_pa_d_bti_rsp_slv = fifo_itf_construct 1,
     mm_ptw_bti_req_mst = fifo_itf_construct 1, mm_ptw_bti_rsp_slv = fifo_itf_construct 1, mm_tlb_flush_slv = fifo_itf_construct 1,
     mm_exu_state_i = \<lparr>es_priv = RV32G_PRIV_SUPERVISOR, es_pc = 0x100, es_irq_epc = 0, es_trap_defer = False, es_wfi = False, es_wfi_resume_pc = 0\<rparr>,
     mm_csr_state_i = \<lparr>cm_satp = satp, cm_mstatus = 0\<rparr>,
     mm_va_i_req_fifo = the (fifo_construct 2), mm_va_d_req_fifo = the (fifo_construct 2),
     mm_i_ost = the (ostq_construct 2), mm_d_ost = d_ost, mm_walk_slot_vld = False, mm_walk_is_inst = False, mm_walk_slot = 0,
     mm_busy = False, mm_is_inst = False, mm_req = mmu_sample_req, mm_req_priv = 0, mm_req_sum = False, mm_req_mxr = False,
     mm_fault_pc = 0, mm_root_base = 0, mm_va = 0, mm_pte = 0, mm_leaf_pa_base = 0, mm_level = 0, mm_pte_req_pending = False,
     mm_final_req_pending = False, mm_final_rsp_pending = False, mm_drop_ptw_rsp = False, mm_drop_i_rsp = False,
     mm_bare_i_rsp_pending = False, mm_itlb_replace_idx = 0, mm_dtlb_replace_idx = 0,
     mm_itlb = replicate MMU_ITLB_SIZE tlb_blank, mm_dtlb = replicate MMU_DTLB_SIZE tlb_blank,
     mm_perf_itlb_hit = 0, mm_perf_itlb_miss = 0, mm_perf_dtlb_hit = 0, mm_perf_dtlb_miss = 0, mm_perf_i_stg_full = 0,
     mm_perf_d_stg_full = 0, mm_perf_i_ost_full = 0, mm_perf_d_ost_full = 0\<rparr>"

definition mmu_sample :: mmu where
  "mmu_sample = mmu_blank mmu_sample_ost 0x80000001"

definition pt_sample :: pt_mem where
  "pt_sample a = (if a = 0x1000 then Some 0x801 else if a = 0x200c then Some 0x200014cf else None)"

lemma mmu_sample_ready: "walk_ready mmu_sample False 0"
proof -
  have c: "ostq_construct 2 = Some (the (ostq_construct 2 :: mmu_ost_ctx ostq option))" by (simp add: ostq_construct_def)
  let ?q = "the (ostq_construct 2) :: mmu_ost_ctx ostq"
  have q: "ostq_inv ?q" "ostq_live ?q = []" using ostq_construct_live [OF c] by simp_all
  have "\<not> ostq_full ?q" by (simp add: ostq_full_def ostq_construct_def ostq_reset_def)
  from ostq_alloc_live [OF q(1) this, of "mmu_ctx0 False mmu_sample_req"] q(2)
  have "ostq_inv mmu_sample_ost" "ostq_live mmu_sample_ost = [mmu_ctx0 False mmu_sample_req]" by (auto simp: mmu_sample_ost_def)
  then show ?thesis
    by (simp add: walk_ready_def mmu_sample_def mmu_blank_def tlb_shape_def mmu_ost_def del: One_nat_def)
qed

theorem mmu_walk_correct_witness:
  "\<exists>n\<le>3. \<exists>mmu'. walk_rounds n pt_sample (mmu_start_req_ctx mmu_sample False mmu_sample_ctx (ostq_slot (mmu_ost mmu_sample False) 0)) = Some mmu'
    \<and> xlate_result False mmu_sample_ctx 0 (Some 0x80005abc) mmu'"
proof -
  have "sv32 pt_sample (push_bit 12 (satp_ppn (mmu_satp mmu_sample))) (mmu_access_of False (bq_cmd (mr_req mmu_sample_ctx)))
        (mr_priv mmu_sample_ctx) (mr_sum mmu_sample_ctx) (mr_mxr mmu_sample_ctx) (bq_addr (mr_req mmu_sample_ctx)) = Some 0x80005abc"
    by code_simp
  with mmu_walk_correct [OF mmu_sample_ready, of pt_sample mmu_sample_ctx] show ?thesis by (simp add: sv32_arch_seen)
qed

end
