(* ===== verification/MmuTlb.thy ===== *)
theory MmuTlb
  imports MmuWalk
begin

text \<open>
  The translation buffers against the page tables: an entry is coherent when it holds what a
  walk would find for every address it matches. With coherent buffers a hit gives the same
  outcome as a walk, and the walker fills the buffers with coherent entries as long as the
  translation control register stays what it was when the walk began.
\<close>

section \<open>Coherence\<close>

definition entry_ok :: "pt_mem \<Rightarrow> mmu_tlb_entry \<Rightarrow> bool" where
  "entry_ok mem e \<longleftrightarrow> (\<forall>va. mmu_tlb_tag va (te_level e) = te_tag e \<longrightarrow>
     leaf_walk mem (push_bit 12 (te_satp_ppn e)) va = Some (te_level e, te_pte e)
     \<and> (\<exists>pa. leaf_pa (te_level e) (te_pte e) va = Some pa \<and> te_pa_base e = pa AND NOT (mmu_tlb_page_mask (te_level e))))"

definition tlb_coherent :: "pt_mem \<Rightarrow> mmu \<Rightarrow> bool" where
  "tlb_coherent mem mmu \<longleftrightarrow> (\<forall>e\<in>set (mm_itlb mmu) \<union> set (mm_dtlb mmu). te_vld e \<longrightarrow> entry_ok mem e)"

lemma page_mask_eq: "mmu_tlb_page_mask level = mask (if level = 1 then 22 else 12)"
  by (simp add: mmu_tlb_page_mask_def mask_eq_exp_minus_1)

lemma leaf_pa_offset:
  assumes "leaf_pa level pte va = Some pa"
  shows "pa AND NOT (mmu_tlb_page_mask level) OR (va AND mmu_tlb_page_mask level) = pa"
proof (rule bit_word_eqI)
  fix n assume "n < LENGTH(32)"
  then show "bit (pa AND NOT (mmu_tlb_page_mask level) OR (va AND mmu_tlb_page_mask level)) n = bit pa n"
    using assms by (cases "level = 1") (auto simp: leaf_pa_def page_mask_eq bit_simps split: if_splits)
qed

lemma tag_vpn:
  "mmu_tlb_tag va 1 = mmu_tlb_tag va' 1 \<Longrightarrow> vpn1 va = vpn1 va'"
  "mmu_tlb_tag va 0 = mmu_tlb_tag va' 0 \<Longrightarrow> vpn1 va = vpn1 va' \<and> vpn0 va = vpn0 va'"
proof -
  show "mmu_tlb_tag va 1 = mmu_tlb_tag va' 1 \<Longrightarrow> vpn1 va = vpn1 va'" by (simp add: mmu_tlb_tag_def vpn1_def)
  assume "mmu_tlb_tag va 0 = mmu_tlb_tag va' 0"
  then have d: "drop_bit 12 va = drop_bit 12 va'" by (simp add: mmu_tlb_tag_def)
  then have "drop_bit 10 (drop_bit 12 va) = drop_bit 10 (drop_bit 12 va')" by simp
  then have "drop_bit 22 va = drop_bit 22 va'" by (simp add: drop_bit_drop_bit)
  with d show "vpn1 va = vpn1 va' \<and> vpn0 va = vpn0 va'" by (simp add: vpn1_def vpn0_def)
qed

lemma leaf_walk_tag:
  assumes w: "leaf_walk mem root va = Some (l, pte)" and t: "mmu_tlb_tag va' l = mmu_tlb_tag va l"
  shows "leaf_walk mem root va' = Some (l, pte)" "l = 0 \<or> l = 1"
proof -
  show l: "l = 0 \<or> l = 1" using w by (auto simp: leaf_walk_def leaf_walk0_def split: option.splits if_splits)
  then show "leaf_walk mem root va' = Some (l, pte)"
  proof
    assume "l = 1"
    with t tag_vpn(1) [of va' va] w show ?thesis
      by (auto simp: leaf_walk_def leaf_walk0_def split: option.splits if_splits)
  next
    assume "l = 0"
    with t tag_vpn(2) [of va' va] w show ?thesis
      by (auto simp: leaf_walk_def leaf_walk0_def split: option.splits if_splits)
  qed
qed

lemma leaf_pa_tag:
  assumes p: "leaf_pa l pte va = Some pa" and t: "mmu_tlb_tag va' l = mmu_tlb_tag va l" and l: "l = 0 \<or> l = 1"
  shows "\<exists>pa'. leaf_pa l pte va' = Some pa' \<and> pa' AND NOT (mmu_tlb_page_mask l) = pa AND NOT (mmu_tlb_page_mask l)"
proof (cases "l = 1")
  case True
  with p obtain pa' where pa': "leaf_pa l pte va' = Some pa'" by (auto simp: leaf_pa_def split: if_splits)
  with True p have "pa' AND NOT (mask 22) = pa AND NOT (mask 22)"
    by (auto simp: leaf_pa_def bit_simps intro!: bit_word_eqI split: if_splits)
  with pa' True show ?thesis by (simp add: page_mask_eq)
next
  case False
  with p obtain pa' where pa': "leaf_pa l pte va' = Some pa'" by (auto simp: leaf_pa_def)
  with False p have "pa' AND NOT (mask 12) = pa AND NOT (mask 12)"
    by (auto simp: leaf_pa_def bit_simps intro!: bit_word_eqI)
  with pa' False show ?thesis by (simp add: page_mask_eq)
qed

text \<open>What the walker puts into a buffer is coherent, if the walk began at the root the register still names.\<close>

lemma tlb_new_ok:
  assumes w: "leaf_walk mem (push_bit 12 (satp_ppn (mmu_satp mmu))) (mm_va mmu) = Some (mm_level mmu, pte)"
    and p: "leaf_pa (mm_level mmu) pte (mm_va mmu) = Some pa"
  shows "entry_ok mem (mmu_tlb_new (mmu\<lparr>mm_pte := pte, mm_leaf_pa_base := pa\<rparr>))"
  unfolding entry_ok_def tlb_new_pte mmu_tlb_entry.simps
proof (intro allI impI)
  fix va assume t: "mmu_tlb_tag va (mm_level mmu) = mmu_tlb_tag (mm_va mmu) (mm_level mmu)"
  from leaf_walk_tag [OF w t] leaf_pa_tag [OF p t]
  show "leaf_walk mem (push_bit 12 (satp_ppn (mmu_satp mmu))) va = Some (mm_level mmu, pte) \<and>
    (\<exists>pa'. leaf_pa (mm_level mmu) pte va = Some pa' \<and> pa AND NOT (mmu_tlb_page_mask (mm_level mmu)) = pa' AND NOT (mmu_tlb_page_mask (mm_level mmu)))"
    by auto
qed

section \<open>Hits\<close>

definition req_sv32 :: "pt_mem \<Rightarrow> mmu \<Rightarrow> bool \<Rightarrow> mmu_req_ctx \<Rightarrow> u32 option" where
  "req_sv32 mem mmu is_inst ctx = sv32 mem (push_bit 12 (satp_ppn (mmu_satp mmu))) (mmu_access_of is_inst (bq_cmd (mr_req ctx)))
     (mr_priv ctx) (mr_sum ctx) (mr_mxr ctx) (bq_addr (mr_req ctx))"

lemma lookup_ok:
  assumes coh: "tlb_coherent mem mmu" and l: "mmu_lookup_tlb_entry mmu is_inst ctx = Some e"
  shows "req_sv32 mem mmu is_inst ctx =
      (if leaf_allows (mmu_access_of is_inst (bq_cmd (mr_req ctx))) (mr_priv ctx) (mr_sum ctx) (mr_mxr ctx) (te_pte e)
       then Some (te_pa_base e OR (bq_addr (mr_req ctx) AND mmu_tlb_page_mask (te_level e))) else None)"
proof -
  from l find_SomeD [of "mmu_tlb_match mmu ctx"] have m: "mmu_tlb_match mmu ctx e" "e \<in> set (mmu_tlb_entries mmu is_inst)"
    unfolding mmu_lookup_tlb_entry_def by blast+
  then have "e \<in> set (mm_itlb mmu) \<union> set (mm_dtlb mmu)" by (simp add: mmu_tlb_entries_def split: if_splits)
  with coh m(1) have ok: "entry_ok mem e" by (simp add: tlb_coherent_def mmu_tlb_match_def)
  let ?va = "bq_addr (mr_req ctx)"
  from m(1) have "mmu_tlb_tag ?va (te_level e) = te_tag e" "te_satp_ppn e = satp_ppn (mmu_satp mmu)" by (simp_all add: mmu_tlb_match_def)
  with ok obtain pa where w: "leaf_walk mem (push_bit 12 (satp_ppn (mmu_satp mmu))) ?va = Some (te_level e, te_pte e)"
    and pa: "leaf_pa (te_level e) (te_pte e) ?va = Some pa" "te_pa_base e = pa AND NOT (mmu_tlb_page_mask (te_level e))"
    unfolding entry_ok_def by metis
  from leaf_pa_offset [OF pa(1)] pa w show ?thesis by (simp add: req_sv32_def sv32_def leaf_xlate_def)
qed

text \<open>The state of a request that hit: sent on with its physical address, or completed with a page fault.\<close>

definition hit_result :: "mmu \<Rightarrow> bool \<Rightarrow> mmu_req_ctx \<Rightarrow> nat \<Rightarrow> u32 option \<Rightarrow> mmu \<Rightarrow> bool" where
  "hit_result mmu is_inst ctx k r mmu' \<longleftrightarrow> \<not> mm_busy mmu' \<and> (let c = ostq_live (mmu_ost mmu' is_inst) ! k in
     case r of
       Some pa \<Rightarrow> itf_list (mmu_pa_req_mst mmu' is_inst) = itf_list (mmu_pa_req_mst mmu is_inst) @ [(mr_req ctx)\<lparr>bq_addr := pa\<rparr>]
         \<and> c = (ostq_live (mmu_ost mmu is_inst) ! k)\<lparr>mo_pa_issued := True\<rparr>
     | None \<Rightarrow> mmu_pa_req_mst mmu' is_inst = mmu_pa_req_mst mmu is_inst
         \<and> mo_ready c \<and> mo_expt_vld c \<and> mo_expt c = page_fault (mmu_access_of is_inst (bq_cmd (mr_req ctx))) ctx)"

lemma active_fields:
  defines "m \<equiv> \<lambda>mmu is_inst ctx. (mmu_set_active_req (mmu\<lparr>mm_busy := True\<rparr>) is_inst ctx)"
  shows "mm_is_inst (m mmu is_inst ctx) = is_inst" "mm_req (m mmu is_inst ctx) = mr_req ctx" "mm_req_priv (m mmu is_inst ctx) = mr_priv ctx"
    "mm_req_sum (m mmu is_inst ctx) = mr_sum ctx" "mm_req_mxr (m mmu is_inst ctx) = mr_mxr ctx" "mm_va (m mmu is_inst ctx) = bq_addr (mr_req ctx)"
    "mmu_ost (m mmu is_inst ctx) i = mmu_ost mmu i" "mmu_pa_req_mst (m mmu is_inst ctx) i = mmu_pa_req_mst mmu i"
  by (simp_all add: m_def mmu_set_active_req_def mmu_ost_def mmu_pa_req_mst_def)

lemma set_ost_simps [simp]:
  "mmu_ost (mmu_set_ost mmu i ost) i = ost" "mmu_pa_req_mst (mmu_set_ost mmu i ost) j = mmu_pa_req_mst mmu j"
  "mmu_ost (mmu\<lparr>mm_busy := b\<rparr>) j = mmu_ost mmu j" "mmu_pa_req_mst (mmu\<lparr>mm_busy := b\<rparr>) j = mmu_pa_req_mst mmu j"
  "mmu_ost (mmu\<lparr>mm_pte := p\<rparr>) j = mmu_ost mmu j" "mmu_pa_req_mst (mmu\<lparr>mm_pte := p\<rparr>) j = mmu_pa_req_mst mmu j"
  "mmu_ost (mmu\<lparr>mm_pa_i_bti_req_mst := t\<rparr>) j = mmu_ost mmu j" "mmu_ost (mmu\<lparr>mm_pa_d_bti_req_mst := t\<rparr>) j = mmu_ost mmu j"
  "mmu_ost (mmu\<lparr>mm_perf_itlb_hit := h\<rparr>) j = mmu_ost mmu j" "mmu_ost (mmu\<lparr>mm_perf_dtlb_hit := h\<rparr>) j = mmu_ost mmu j"
  "mmu_pa_req_mst (mmu\<lparr>mm_perf_itlb_hit := h\<rparr>) j = mmu_pa_req_mst mmu j" "mmu_pa_req_mst (mmu\<lparr>mm_perf_dtlb_hit := h\<rparr>) j = mmu_pa_req_mst mmu j"
  "mmu_pa_req_mst (mmu\<lparr>mm_pa_i_bti_req_mst := t\<rparr>) True = t" "mmu_pa_req_mst (mmu\<lparr>mm_pa_d_bti_req_mst := t\<rparr>) False = t"
  by (simp_all add: mmu_ost_def mmu_set_ost_def mmu_pa_req_mst_def)

lemma send_pa_ok:
  assumes "itf_inv (mmu_pa_req_mst mmu i)" "\<not> itf_fifo_full (mmu_pa_req_mst mmu i)"
  shows "\<exists>mmu'. mmu_send_pa_req mmu i req = Some mmu' \<and> itf_list (mmu_pa_req_mst mmu' i) = itf_list (mmu_pa_req_mst mmu i) @ [req]
    \<and> mmu_ost mmu' = mmu_ost mmu"
proof -
  from itf.push_ok [OF assms, of req] obtain t where t: "itf_write (mmu_pa_req_mst mmu i) req = Some t"
    "itf_list t = itf_list (mmu_pa_req_mst mmu i) @ [req]" by blast
  with assms(2) show ?thesis by (cases i) (simp_all add: mmu_send_pa_req_def fun_eq_iff)
qed

lemma accept_hit_sent:
  assumes ok: "mmu_pte_permits m (te_pte e)" "mmu_pte_ad_ok m (te_pte e)"
    and m: "m = (mmu_set_active_req (mmu\<lparr>mm_busy := True\<rparr>) is_inst ctx)\<lparr>mm_pte := te_pte e\<rparr>"
    and inv: "ostq_inv (mmu_ost mmu is_inst)" and k: "k < length (ostq_live (mmu_ost mmu is_inst))"
    and pa: "itf_inv (mmu_pa_req_mst mmu is_inst)" "\<not> itf_fifo_full (mmu_pa_req_mst mmu is_inst)"
  shows "\<exists>mmu'. mmu_accept_tlb_hit mmu is_inst ctx (ostq_slot (mmu_ost mmu is_inst) k) e = Some mmu'
    \<and> hit_result mmu is_inst ctx k (Some (te_pa_base e OR (bq_addr (mr_req ctx) AND mmu_tlb_page_mask (te_level e)))) mmu'"
proof -
  let ?ost = "mmu_ost mmu is_inst"
  let ?pa = "te_pa_base e OR (bq_addr (mr_req ctx) AND mmu_tlb_page_mask (te_level e))"
  have ost: "mmu_ost m is_inst = ?ost" "mmu_pa_req_mst m is_inst = mmu_pa_req_mst mmu is_inst" unfolding m by (simp_all add: active_fields)
  from ostq_write_live [OF inv k, of "(ostq_live ?ost ! k)\<lparr>mo_pa_issued := True\<rparr>"] obtain o' where
    o': "ostq_write_slot ?ost (ostq_slot ?ost k) ((ostq_live ?ost ! k)\<lparr>mo_pa_issued := True\<rparr>) = Some o'"
      "ostq_live o' = (ostq_live ?ost)[k := (ostq_live ?ost ! k)\<lparr>mo_pa_issued := True\<rparr>]" by blast
  have "itf_inv (mmu_pa_req_mst (mmu_set_ost m is_inst o') is_inst)" "\<not> itf_fifo_full (mmu_pa_req_mst (mmu_set_ost m is_inst o') is_inst)"
    using pa ost by simp_all
  from send_pa_ok [OF this, of "(mr_req ctx)\<lparr>bq_addr := ?pa\<rparr>"] obtain m2 where
    m2: "mmu_send_pa_req (mmu_set_ost m is_inst o') is_inst ((mr_req ctx)\<lparr>bq_addr := ?pa\<rparr>) = Some m2"
      "itf_list (mmu_pa_req_mst m2 is_inst) = itf_list (mmu_pa_req_mst mmu is_inst) @ [(mr_req ctx)\<lparr>bq_addr := ?pa\<rparr>]"
      "mmu_ost m2 is_inst = o'" using ost by auto
  define m3 where "m3 = (if is_inst then m2\<lparr>mm_perf_itlb_hit := mm_perf_itlb_hit m2 + 1\<rparr>
    else m2\<lparr>mm_perf_dtlb_hit := mm_perf_dtlb_hit m2 + 1\<rparr>)\<lparr>mm_busy := False\<rparr>"
  have "mmu_accept_tlb_hit mmu is_inst ctx (ostq_slot ?ost k) e = Some m3"
    unfolding mmu_accept_tlb_hit_def Let_def m [symmetric] m3_def
    using ok ost ostq_read_live [OF inv k] o'(1) m2(1) by simp
  moreover have "mmu_ost m3 is_inst = mmu_ost m2 is_inst" "mmu_pa_req_mst m3 is_inst = mmu_pa_req_mst m2 is_inst" "\<not> mm_busy m3"
    unfolding m3_def by simp_all
  then have "hit_result mmu is_inst ctx k (Some ?pa) m3"
    using o'(2) k m2(2,3) by (simp add: hit_result_def Let_def)
  ultimately show ?thesis by blast
qed

lemma accept_hit_fault:
  assumes bad: "\<not> (mmu_pte_permits m (te_pte e) \<and> mmu_pte_ad_ok m (te_pte e))"
    and m: "m = (mmu_set_active_req (mmu\<lparr>mm_busy := True\<rparr>) is_inst ctx)\<lparr>mm_pte := te_pte e\<rparr>"
    and inv: "ostq_inv (mmu_ost mmu is_inst)" and k: "k < length (ostq_live (mmu_ost mmu is_inst))"
  shows "\<exists>mmu'. mmu_accept_tlb_hit mmu is_inst ctx (ostq_slot (mmu_ost mmu is_inst) k) e = Some mmu'
    \<and> hit_result mmu is_inst ctx k None mmu'"
proof -
  let ?ost = "mmu_ost mmu is_inst"
  have ost: "mmu_ost m is_inst = ?ost" "mmu_pa_req_mst m is_inst = mmu_pa_req_mst mmu is_inst" unfolding m by (simp_all add: active_fields)
  define c where "c = (ostq_live ?ost ! k)\<lparr>mo_expt := page_fault (mmu_access_of is_inst (bq_cmd (mr_req ctx))) ctx, mo_expt_vld := True,
     mo_rsp := \<lparr>bp_trans_id = bq_trans_id (mo_req (ostq_live ?ost ! k)), bp_data = 0, bp_ok = False\<rparr>, mo_ready := True\<rparr>"
  from ostq_write_live [OF inv k, of c] obtain o' where
    o': "ostq_write_slot ?ost (ostq_slot ?ost k) c = Some o'" "ostq_live o' = (ostq_live ?ost)[k := c]" by blast
  have "mmu_complete_fault m is_inst (ostq_slot ?ost k) (mmu_fault_cause is_inst (bq_cmd (mr_req ctx)))
         (mr_priv ctx) (mr_fault_pc ctx) (bq_addr (mr_req ctx)) = Some (mmu_set_ost m is_inst o')"
    using ostq_read_live [OF inv k] o'(1) ost(1)
    by (simp add: mmu_complete_fault_def Let_def c_def page_fault_def fault_cause_eq)
  then have "mmu_accept_tlb_hit mmu is_inst ctx (ostq_slot ?ost k) e = Some ((mmu_set_ost m is_inst o')\<lparr>mm_busy := False\<rparr>)"
    unfolding mmu_accept_tlb_hit_def Let_def m [symmetric] using bad by simp
  moreover have "mo_ready c" "mo_expt_vld c" "mo_expt c = page_fault (mmu_access_of is_inst (bq_cmd (mr_req ctx))) ctx" by (simp_all add: c_def)
  ultimately show ?thesis using o'(2) k ost(2) by (simp add: hit_result_def Let_def)
qed

section \<open>Properties\<close>

text \<open>
  C6. With coherent translation buffers a hit gives exactly the outcome of a walk: the request
  goes on with the physical address that Sv32 defines, or its slot is completed with the page
  fault Sv32 demands, by the access kind, privilege and status bits of the request.
\<close>

theorem mmu_hit_equals_walk:
  assumes "tlb_coherent mem mmu" and "mmu_lookup_tlb_entry mmu is_inst ctx = Some e"
    and "ostq_inv (mmu_ost mmu is_inst)" and "k < length (ostq_live (mmu_ost mmu is_inst))"
    and "itf_inv (mmu_pa_req_mst mmu is_inst)" and "\<not> itf_fifo_full (mmu_pa_req_mst mmu is_inst)"
  shows "\<exists>mmu'. mmu_accept_tlb_hit mmu is_inst ctx (ostq_slot (mmu_ost mmu is_inst) k) e = Some mmu'
    \<and> hit_result mmu is_inst ctx k (req_sv32 mem mmu is_inst ctx) mmu'"
proof -
  define m where "m = (mmu_set_active_req (mmu\<lparr>mm_busy := True\<rparr>) is_inst ctx)\<lparr>mm_pte := te_pte e\<rparr>"
  have perm: "(mmu_pte_permits m (te_pte e) \<and> mmu_pte_ad_ok m (te_pte e))
      = leaf_allows (mmu_access_of is_inst (bq_cmd (mr_req ctx))) (mr_priv ctx) (mr_sum ctx) (mr_mxr ctx) (te_pte e)"
    unfolding mmu_permits_iff by (simp add: m_def active_fields)
  note r = lookup_ok [OF assms(1,2)]
  show ?thesis
  proof (cases "mmu_pte_permits m (te_pte e) \<and> mmu_pte_ad_ok m (te_pte e)")
    case True
    with accept_hit_sent [OF _ _ m_def assms(3-6)] r perm show ?thesis by simp
  next
    case False
    with accept_hit_fault [OF _ m_def assms(3,4)] r perm show ?thesis by simp
  qed
qed

definition tlb_sample_entry :: mmu_tlb_entry where
  "tlb_sample_entry = mmu_tlb_new (mmu_sample\<lparr>mm_va := 0x3abc, mm_level := 0, mm_req_priv := RV32G_PRIV_SUPERVISOR,
     mm_pte := 0x200014cf, mm_leaf_pa_base := 0x80005abc\<rparr>)"

definition tlb_sample :: mmu where
  "tlb_sample = mmu_sample\<lparr>mm_dtlb := (replicate MMU_DTLB_SIZE tlb_blank)[0 := tlb_sample_entry]\<rparr>"

lemma tlb_sample_coherent: "tlb_coherent pt_sample tlb_sample"
proof -
  let ?m = "mmu_sample\<lparr>mm_va := 0x3abc, mm_level := 0, mm_req_priv := RV32G_PRIV_SUPERVISOR\<rparr>"
  have "leaf_walk pt_sample (push_bit 12 (satp_ppn (mmu_satp ?m))) (mm_va ?m) = Some (mm_level ?m, 0x200014cf)"
    "leaf_pa (mm_level ?m) 0x200014cf (mm_va ?m) = Some 0x80005abc" by code_simp+
  then have "entry_ok pt_sample tlb_sample_entry" unfolding tlb_sample_entry_def by (rule tlb_new_ok)
  moreover have "\<not> te_vld tlb_blank" by (simp add: tlb_blank_def)
  moreover have "set (mm_dtlb tlb_sample) \<subseteq> {tlb_sample_entry, tlb_blank}" "set (mm_itlb tlb_sample) \<subseteq> {tlb_blank}"
    using set_update_subset_insert [of "replicate MMU_DTLB_SIZE tlb_blank" 0 tlb_sample_entry]
    by (auto simp: tlb_sample_def mmu_sample_def mmu_blank_def)
  ultimately show ?thesis unfolding tlb_coherent_def by blast
qed

theorem mmu_hit_equals_walk_witness:
  "\<exists>mmu'. mmu_accept_tlb_hit tlb_sample False mmu_sample_ctx (ostq_slot (mmu_ost tlb_sample False) 0) tlb_sample_entry = Some mmu'
    \<and> hit_result tlb_sample False mmu_sample_ctx 0 (Some 0x80005abc) mmu'"
proof -
  have l: "mmu_lookup_tlb_entry tlb_sample False mmu_sample_ctx = Some tlb_sample_entry" by code_simp
  have r: "req_sv32 pt_sample tlb_sample False mmu_sample_ctx = Some 0x80005abc" by code_simp
  have "mmu_ost tlb_sample False = mmu_ost mmu_sample False" by (simp add: tlb_sample_def mmu_ost_def)
  with mmu_sample_ready have o: "ostq_inv (mmu_ost tlb_sample False)" "0 < length (ostq_live (mmu_ost tlb_sample False))"
    by (simp_all add: walk_ready_def)
  have p: "itf_inv (mmu_pa_req_mst tlb_sample False)" "\<not> itf_fifo_full (mmu_pa_req_mst tlb_sample False)"
    by (simp_all add: mmu_pa_req_mst_def tlb_sample_def mmu_sample_def mmu_blank_def del: One_nat_def)
  from mmu_hit_equals_walk [OF tlb_sample_coherent l o p] show ?thesis unfolding r .
qed

section \<open>A walk under way at a change of the translation register\<close>

text \<open>A walk between two rounds: nothing asked yet, or the last question answered. From there it ends within three rounds.\<close>

definition walk_paused :: "pt_mem \<Rightarrow> mmu \<Rightarrow> bool" where
  "walk_paused mem m \<longleftrightarrow> walk_inv mem m \<and> (mm_pte_req_pending m \<longrightarrow> itf_list (mm_ptw_bti_rsp_slv m) \<noteq> [])"

lemma goes_on_refl: "walk_inv mem m \<Longrightarrow> walk_goes_on mem m m"
  by (simp add: walk_goes_on_def same_walk_def)

lemma paused_round:
  assumes "walk_paused mem m"
  shows "\<exists>m'. walk_round mem m = Some m' \<and> (walk_ended mem m m' \<or> walk_paused mem m' \<and> walk_goes_on mem m m')"
proof (cases "mm_pte_req_pending m")
  case False
  with assms round_first [of mem m] show ?thesis by (auto simp: walk_paused_def walk_served_def)
next
  case True
  with assms have "walk_served mem m" by (simp add: walk_paused_def walk_served_def)
  from round_next [OF this] show ?thesis by (auto simp: walk_paused_def walk_served_def)
qed

lemma paused_ends:
  assumes "walk_paused mem m"
  shows "\<exists>j\<le>3. \<exists>a m'. walk_rounds j mem m = Some m' \<and> walk_goes_on mem m a \<and> walk_ended mem a m'"
proof -
  have served: "\<exists>j\<le>2. \<exists>a m'. walk_rounds j mem m = Some m' \<and> walk_goes_on mem m a \<and> walk_ended mem a m'" if s: "walk_served mem m" for m
  proof -
    have g: "walk_goes_on mem m m" using s by (simp add: walk_served_def goes_on_refl)
    from round_next [OF s] obtain m1 where m1: "walk_round mem m = Some m1"
      "walk_ended mem m m1 \<or> mm_level m1 = 0 \<and> walk_served mem m1 \<and> walk_goes_on mem m m1" by blast
    from m1(2) show ?thesis
    proof (elim disjE conjE)
      assume "walk_ended mem m m1"
      with g m1(1) show ?thesis by (intro exI [of _ 1] conjI exI [of _ m] exI [of _ m1]) simp_all
    next
      assume d: "mm_level m1 = 0" "walk_served mem m1" "walk_goes_on mem m m1"
      from round_next [OF d(2)] d(1) obtain m2 where "walk_round mem m1 = Some m2" "walk_ended mem m1 m2" by auto
      with d(3) m1(1) show ?thesis by (intro exI [of _ 2] conjI exI [of _ m1] exI [of _ m2]) (simp_all add: numeral_2_eq_2)
    qed
  qed
  show ?thesis
  proof (cases "mm_pte_req_pending m")
    case True
    with assms have "walk_served mem m" by (simp add: walk_paused_def walk_served_def)
    from served [OF this] obtain j a m' where "j \<le> 2" "walk_rounds j mem m = Some m'" "walk_goes_on mem m a" "walk_ended mem a m'" by blast
    then show ?thesis by (intro exI [of _ j] conjI exI [of _ a] exI [of _ m']) simp_all
  next
    case False
    with assms round_first [of mem m] obtain m1 where m1: "walk_round mem m = Some m1" "walk_served mem m1" "walk_goes_on mem m m1"
      by (auto simp: walk_paused_def)
    from served [OF m1(2)] obtain j a m' where j: "j \<le> 2" "walk_rounds j mem m1 = Some m'" "walk_goes_on mem m1 a" "walk_ended mem a m'" by blast
    from j m1(1) goes_on_trans [OF m1(3) j(3)] show ?thesis by (intro exI [of _ "Suc j"] conjI exI [of _ a] exI [of _ m']) simp_all
  qed
qed

text \<open>As long as it has not ended, a walk from its start is paused between its rounds, and its outcome is the one Sv32 defines under the register at its start.\<close>

lemma ended_not_walking:
  assumes "walk_ended mem m m'"
  shows "\<not> walking m'"
proof -
  from assms obtain pte a where "pte_taken m pte a" and c: "case walk_outcome mem m of None \<Rightarrow> walk_faulted a m'
      | Some pa \<Rightarrow> walk_rest mem m = Some (mm_level m, pte) \<and> walk_translated pte pa a m'" unfolding walk_ended_def by blast
  show ?thesis
  proof (cases "walk_outcome mem m")
    case None
    with c have "walk_faulted a m'" by simp
    then have "\<not> mm_busy m'" unfolding walk_faulted_def by (elim exE conjE) simp
    then show ?thesis by (simp add: walking_def)
  next
    case (Some pa)
    with c have "walk_translated pte pa a m'" by simp
    then have "mm_final_req_pending m'" unfolding walk_translated_def Let_def by simp
    then show ?thesis by (simp add: walking_def)
  qed
qed

lemma rounds_paused:
  assumes "walk_paused mem m0" "walk_rounds n mem m0 = Some m" "walking m" "n \<le> 2" "\<not> mm_pte_req_pending m0"
  shows "walk_paused mem m \<and> walk_goes_on mem m0 m"
proof -
  have g0: "walk_goes_on mem m0 m0" using assms(1) by (simp add: walk_paused_def goes_on_refl)
  from assms(1,5) round_first [of mem m0] obtain m1 where m1: "walk_round mem m0 = Some m1" "walk_served mem m1" "walk_goes_on mem m0 m1"
    by (auto simp: walk_paused_def)
  then have p1: "walk_paused mem m1" by (simp add: walk_paused_def walk_served_def)
  from assms(4) consider "n = 0" | "n = 1" | "n = 2" by linarith
  then show ?thesis
  proof cases
    case 1
    with assms(1,2) g0 show ?thesis by simp
  next
    case 2
    with assms(2) m1 p1 show ?thesis by simp
  next
    case 3
    from paused_round [OF p1] obtain m2 where m2: "walk_round mem m1 = Some m2"
      "walk_ended mem m1 m2 \<or> walk_paused mem m2 \<and> walk_goes_on mem m1 m2" by blast
    have "m2 = m" using 3 assms(2) m1(1) m2(1) by (simp add: numeral_2_eq_2)
    with m2(2) ended_not_walking assms(3) goes_on_trans [OF m1(3)] show ?thesis by blast
  qed
qed

text \<open>The register changes and the buffers are flushed: the walk notices neither.\<close>

definition satp_changed :: "mmu \<Rightarrow> csr_mmu_state \<Rightarrow> mmu" where
  "satp_changed m s = mmu_invalidate_tlb (m\<lparr>mm_csr_state_i := s\<rparr>)"

lemma satp_changed_walk:
  "walk_paused mem (satp_changed m s) = walk_paused mem m" "walk_outcome mem (satp_changed m s) = walk_outcome mem m"
proof -
  have "walk_inv mem (satp_changed m s) = walk_inv mem m"
    by (simp add: satp_changed_def mmu_invalidate_tlb_def walk_inv_def walking_def ptw_ok_def tlb_shape_def walk_slot_ok_def mmu_ost_def
      pte_req_def mmu_pte_addr_def)
  then show "walk_paused mem (satp_changed m s) = walk_paused mem m"
    by (simp add: walk_paused_def) (simp add: satp_changed_def mmu_invalidate_tlb_def)
  show "walk_outcome mem (satp_changed m s) = walk_outcome mem m"
    by (simp add: satp_changed_def mmu_invalidate_tlb_def walk_outcome_def walk_rest_def leaf_outcome_def)
qed

text \<open>The entry that a walk fills into an empty buffer is the one that is found, under the register as it then is.\<close>

lemma find_only:
  assumes "i < length es" "P e" "\<forall>x\<in>set es. \<not> P x"
  shows "List.find P (es[i := e]) = Some e"
  using assms by (induction es arbitrary: i) (auto split: nat.split)

lemma ended_lookup:
  assumes e: "walk_ended mem a m'" "walk_outcome mem a = Some pa" and shape: "tlb_shape a"
    and empty: "\<forall>x\<in>set (mm_itlb a) \<union> set (mm_dtlb a). \<not> te_vld x"
    and ctx: "mm_va a = bq_addr (mr_req ctx)" "mm_req_priv a = mr_priv ctx" "mm_req_sum a = mr_sum ctx" "mm_req_mxr a = mr_mxr ctx"
  shows "mm_csr_state_i m' = mm_csr_state_i a \<and> (\<exists>e. mmu_lookup_tlb_entry m' (mm_is_inst a) ctx = Some e
    \<and> te_pa_base e OR (bq_addr (mr_req ctx) AND mmu_tlb_page_mask (te_level e)) = pa)"
proof -
  from e obtain pte b where b: "pte_taken a pte b" and r: "walk_rest mem a = Some (mm_level a, pte)" and w: "walk_translated pte pa b m'"
    unfolding walk_ended_def by auto
  from b obtain t where b_eq: "b = a\<lparr>mm_ptw_bti_rsp_slv := t, mm_pte_req_pending := False, mm_pte := pte\<rparr>"
    unfolding pte_taken_def by (elim exE conjE) (rule that)
  define new where "new = mmu_tlb_new (b\<lparr>mm_pte := pte, mm_leaf_pa_base := pa\<rparr>)"
  have f: "mm_is_inst b = mm_is_inst a" "mm_itlb b = mm_itlb a" "mm_dtlb b = mm_dtlb a" "mm_csr_state_i b = mm_csr_state_i a"
    "mm_itlb_replace_idx b = mm_itlb_replace_idx a" "mm_dtlb_replace_idx b = mm_dtlb_replace_idx a" by (simp_all add: b_eq)
  have m': "mm_csr_state_i m' = mm_csr_state_i a" "mmu_tlb_entries m' (mm_is_inst a) =
      (if mm_is_inst a then (mm_itlb a)[mm_itlb_replace_idx a := new] else (mm_dtlb a)[mm_dtlb_replace_idx a := new])"
    using w [unfolded walk_translated_def Let_def, folded new_def] f by (simp_all add: mmu_tlb_entries_def)
  have n: "te_vld new" "te_tag new = mmu_tlb_tag (bq_addr (mr_req ctx)) (mm_level a)" "te_satp_ppn new = satp_ppn (mmu_satp a)" "te_satp_asid new = satp_asid (mmu_satp a)"
    "te_priv new = mr_priv ctx" "te_sum new = mr_sum ctx" "te_mxr new = mr_mxr ctx" "te_level new = mm_level a"
    "te_pa_base new = pa AND NOT (mmu_tlb_page_mask (mm_level a))"
    unfolding new_def tlb_new_pte using ctx by (simp_all add: b_eq mmu_satp_def)
  then have match: "mmu_tlb_match m' ctx new" using m'(1) by (simp add: mmu_tlb_match_def mmu_satp_def)
  have "\<forall>x\<in>set (mm_itlb a) \<union> set (mm_dtlb a). \<not> mmu_tlb_match m' ctx x" using empty by (simp add: mmu_tlb_match_def)
  then have "mmu_lookup_tlb_entry m' (mm_is_inst a) ctx = Some new"
    using shape match by (simp add: mmu_lookup_tlb_entry_def m'(2) tlb_shape_def find_only)
  moreover have "leaf_pa (mm_level a) pte (bq_addr (mr_req ctx)) = Some pa"
    using e(2) r ctx(1) by (auto simp: walk_outcome_def leaf_outcome_def leaf_xlate_def split: if_splits)
  ultimately show ?thesis using m'(1) n(8,9) leaf_pa_offset by auto
qed

text \<open>
  C37. A walk that is under way when the translation control register changes leaves a stale
  entry, whatever the two register values and the tables are: the flush that comes with the change empties the buffers but does not stop the walk,
  and the entry the walk fills in afterwards carries the new register value. When the walk of a request began
  under a register value that translates it to \<open>pa\<close>, has not ended, and the register then takes any value \<open>s\<close> and the buffers are flushed,
  the walk ends within three more rounds and the request then hits in the buffer under \<open>s\<close> with the translation \<open>pa\<close> of the old register value.
\<close>

theorem mmu_stale_fill:
  assumes "walk_ready mmu is_inst k" "req_sv32 mem mmu is_inst ctx = Some pa"
    and "walk_rounds n mem (mmu_start_req_ctx mmu is_inst ctx (ostq_slot (mmu_ost mmu is_inst) k)) = Some m" "n \<le> 2" "walking m"
  shows "\<exists>j\<le>3. \<exists>mmu' e. walk_rounds j mem (mmu_invalidate_tlb (m\<lparr>mm_csr_state_i := s\<rparr>)) = Some mmu' \<and> mm_csr_state_i mmu' = s
    \<and> mmu_lookup_tlb_entry mmu' is_inst ctx = Some e \<and> te_pa_base e OR (bq_addr (mr_req ctx) AND mmu_tlb_page_mask (te_level e)) = pa"
proof -
  let ?m0 = "mmu_start_req_ctx mmu is_inst ctx (ostq_slot (mmu_ost mmu is_inst) k)" and ?m1 = "satp_changed m s"
  have st: "walk_inv mem ?m0" "\<not> mm_pte_req_pending ?m0" "walk_outcome mem ?m0 = Some pa"
    using start_inv [OF assms(1)] assms(2) by (simp_all add: req_sv32_def)
  then have "walk_paused mem ?m0" by (simp add: walk_paused_def)
  from rounds_paused [OF this assms(3,5,4) st(2)] have p: "walk_paused mem m" "walk_goes_on mem ?m0 m" by simp_all
  then have "walk_paused mem ?m1" by (simp add: satp_changed_walk)
  from paused_ends [OF this] obtain j a mmu' where j: "j \<le> 3" "walk_rounds j mem ?m1 = Some mmu'" "walk_goes_on mem ?m1 a" "walk_ended mem a mmu'" by blast
  have m: "mm_is_inst m = is_inst" "mm_va m = bq_addr (mr_req ctx)" "mm_req_priv m = mr_priv ctx" "mm_req_sum m = mr_sum ctx" "mm_req_mxr m = mr_mxr ctx"
    "walk_outcome mem m = Some pa"
    using p(2) st(3) by (simp_all add: walk_goes_on_def same_walk_def mmu_start_req_ctx_def mmu_set_active_req_def)
  have a: "walk_outcome mem a = Some pa" "tlb_shape a" "mm_csr_state_i a = s" "mm_is_inst a = is_inst"
    "\<forall>x\<in>set (mm_itlb a) \<union> set (mm_dtlb a). \<not> te_vld x"
    "mm_va a = bq_addr (mr_req ctx)" "mm_req_priv a = mr_priv ctx" "mm_req_sum a = mr_sum ctx" "mm_req_mxr a = mr_mxr ctx"
    using j(3) m satp_changed_walk(2) [of mem m s] by (auto simp: walk_goes_on_def same_walk_def walk_inv_def satp_changed_def mmu_invalidate_tlb_def)
  from ended_lookup [OF j(4) a(1,2,5-9)] a(3,4) j(1,2) show ?thesis unfolding satp_changed_def by blast
qed

text \<open>The walk of the example, interrupted after its first round: under the new register value the address is not mapped.\<close>

theorem mmu_stale_fill_witness:
  "\<exists>m mmu' e. walk_rounds 1 pt_sample (mmu_start_req_ctx mmu_sample False mmu_sample_ctx (ostq_slot (mmu_ost mmu_sample False) 0)) = Some m
    \<and> mm_csr_state_i mmu' = \<lparr>cm_satp = 0x80000005, cm_mstatus = 0\<rparr> \<and> req_sv32 pt_sample mmu' False mmu_sample_ctx = None
    \<and> mmu_lookup_tlb_entry mmu' False mmu_sample_ctx = Some e
    \<and> te_pa_base e OR (bq_addr (mr_req mmu_sample_ctx) AND mmu_tlb_page_mask (te_level e)) = 0x80005abc"
proof -
  let ?m0 = "mmu_start_req_ctx mmu_sample False mmu_sample_ctx (ostq_slot (mmu_ost mmu_sample False) 0)"
  have r: "req_sv32 pt_sample mmu_sample False mmu_sample_ctx = Some 0x80005abc" by code_simp
  have "map_option walking (walk_rounds 1 pt_sample ?m0) = Some True" by code_simp
  then obtain m where m: "walk_rounds 1 pt_sample ?m0 = Some m" "walking m" by auto
  from mmu_stale_fill [OF mmu_sample_ready r m(1) _ m(2), of "\<lparr>cm_satp = 0x80000005, cm_mstatus = 0\<rparr>"] obtain mmu' e where
    x: "mm_csr_state_i mmu' = \<lparr>cm_satp = 0x80000005, cm_mstatus = 0\<rparr>" "mmu_lookup_tlb_entry mmu' False mmu_sample_ctx = Some e"
    "te_pa_base e OR (bq_addr (mr_req mmu_sample_ctx) AND mmu_tlb_page_mask (te_level e)) = 0x80005abc" by auto
  have "sv32 pt_sample (push_bit 12 (satp_ppn 0x80000005)) (mmu_access_of False (bq_cmd (mr_req mmu_sample_ctx)))
     (mr_priv mmu_sample_ctx) (mr_sum mmu_sample_ctx) (mr_mxr mmu_sample_ctx) (bq_addr (mr_req mmu_sample_ctx)) = None" by code_simp
  then have "req_sv32 pt_sample mmu' False mmu_sample_ctx = None" using x(1) by (simp add: req_sv32_def mmu_satp_def)
  with m(1) x show ?thesis by blast
qed

end
