(* ===== verification/MmuRun.thy ===== *)
theory MmuRun
  imports MmuTlb
begin

text \<open>
  Runs of the address translation unit: with page tables and translation control that stay the
  same, whatever its neighbours send and however the memory is timed, the unit never aborts and
  its translation buffers stay coherent with the page tables.
\<close>

section \<open>Invariant\<close>

definition ptw_quiet :: "mmu \<Rightarrow> bool" where
  "ptw_quiet mmu \<longleftrightarrow> itf_inv (mm_ptw_bti_req_mst mmu) \<and> itf_inv (mm_ptw_bti_rsp_slv mmu) \<and> \<not> mm_pte_req_pending mmu
     \<and> itf_list (mm_ptw_bti_req_mst mmu) = [] \<and> itf_list (mm_ptw_bti_rsp_slv mmu) = []"

text \<open>While a walk is under way its slot is the only live one of its side and not yet complete.\<close>

definition walk_table :: "mmu \<Rightarrow> bool" where
  "walk_table mmu \<longleftrightarrow> mm_walk_slot_vld mmu \<and> (\<exists>c. ostq_live (mmu_ost mmu (mm_is_inst mmu)) = [c] \<and> \<not> mo_ready c \<and> \<not> mo_pa_issued c)
     \<and> \<not> ostq_head_freed (mmu_ost mmu (mm_is_inst mmu))
     \<and> mm_walk_slot mmu = ostq_slot (mmu_ost mmu (mm_is_inst mmu)) 0"

definition walk_rooted :: "pt_mem \<Rightarrow> mmu \<Rightarrow> bool" where
  "walk_rooted mem mmu \<longleftrightarrow> walk_rest mem mmu = leaf_walk mem (push_bit 12 (satp_ppn (mmu_satp mmu))) (mm_va mmu)"

definition walk_phase :: "pt_mem \<Rightarrow> mmu \<Rightarrow> bool" where
  "walk_phase mem mmu \<longleftrightarrow>
     (if \<not> mm_busy mmu then ptw_quiet mmu \<and> \<not> mm_final_req_pending mmu \<and> \<not> mm_final_rsp_pending mmu
      else walk_table mmu \<and>
       (if mm_final_req_pending mmu then ptw_quiet mmu \<and> \<not> mm_final_rsp_pending mmu
        else if mm_final_rsp_pending mmu then ptw_quiet mmu
        else walking mmu \<and> ptw_ok mem mmu \<and> walk_rooted mem mmu))"

definition mmu_inv :: "pt_mem \<Rightarrow> u32 \<Rightarrow> mmu \<Rightarrow> bool" where
  "mmu_inv mem satp mmu \<longleftrightarrow> mmu_satp mmu = satp \<and> mmu_ports mmu \<and> ostq_inv (mm_i_ost mmu) \<and> ostq_inv (mm_d_ost mmu)
     \<and> tlb_shape mmu \<and> tlb_coherent mem mmu \<and> walk_phase mem mmu"

text \<open>What the walker and the tables consist of; the rest are the queues to the neighbours and counters.\<close>

definition mmu_core where
  "mmu_core mmu = ((mm_busy mmu, mm_final_req_pending mmu, mm_final_rsp_pending mmu, mm_pte_req_pending mmu, mm_walk_slot_vld mmu),
     (mm_is_inst mmu, mm_walk_slot mmu, mm_level mmu, mm_root_base mmu, mm_va mmu), (mm_i_ost mmu, mm_d_ost mmu),
     (mm_ptw_bti_req_mst mmu, mm_ptw_bti_rsp_slv mmu), (mm_itlb mmu, mm_dtlb mmu, mm_itlb_replace_idx mmu, mm_dtlb_replace_idx mmu),
     mmu_satp mmu)"

lemma mmu_core_cong:
  assumes "mmu_core m' = mmu_core m"
  shows "mmu_satp m' = mmu_satp m" "mm_i_ost m' = mm_i_ost m" "mm_d_ost m' = mm_d_ost m" "tlb_shape m' = tlb_shape m"
    "tlb_coherent mem m' = tlb_coherent mem m" "walk_phase mem m' = walk_phase mem m"
proof -
  note c = assms [unfolded mmu_core_def prod.inject]
  from c show "mmu_satp m' = mmu_satp m" "mm_i_ost m' = mm_i_ost m" "mm_d_ost m' = mm_d_ost m" by blast+
  from c show "tlb_shape m' = tlb_shape m" "tlb_coherent mem m' = tlb_coherent mem m"
    by (simp_all only: tlb_shape_def tlb_coherent_def)
  have "pte_req m' = pte_req m" "walking m' = walking m" "walk_rest mem m' = walk_rest mem m" "ptw_quiet m' = ptw_quiet m"
    using c by (simp_all only: pte_req_def mmu_pte_addr_def walking_def walk_rest_def ptw_quiet_def)
  moreover have "mmu_ost m' = mmu_ost m" using c by (simp add: mmu_ost_def fun_eq_iff)
  ultimately show "walk_phase mem m' = walk_phase mem m" using c
    by (simp only: walk_phase_def walk_table_def walk_rooted_def ptw_ok_def)
qed

lemma mmu_inv_core:
  assumes "mmu_inv mem satp m" "mmu_core m' = mmu_core m" "mmu_ports m'"
  shows "mmu_inv mem satp m'"
  using assms(1,3) unfolding mmu_inv_def mmu_core_cong [OF assms(2)] by blast

lemma mmu_ost_inv: "mmu_inv mem satp mmu \<Longrightarrow> ostq_inv (mmu_ost mmu i)"
  by (simp add: mmu_inv_def mmu_ost_def)

text \<open>Changes that touch neither the walker nor the tables.\<close>

lemma mmu_inv_ports:
  assumes "mmu_inv mem satp mmu"
  shows "itf_inv t \<Longrightarrow> mmu_inv mem satp (mmu\<lparr>mm_va_i_bti_req_slv := t\<rparr>)" "itf_inv t \<Longrightarrow> mmu_inv mem satp (mmu\<lparr>mm_va_d_bti_req_slv := t\<rparr>)"
    "itf_inv u \<Longrightarrow> mmu_inv mem satp (mmu\<lparr>mm_va_i_bti_rsp_mst := u\<rparr>)" "itf_inv u \<Longrightarrow> mmu_inv mem satp (mmu\<lparr>mm_va_d_bti_rsp_mst := u\<rparr>)"
    "itf_inv e \<Longrightarrow> mmu_inv mem satp (mmu\<lparr>mm_fch_expt_mst := e\<rparr>)" "itf_inv e \<Longrightarrow> mmu_inv mem satp (mmu\<lparr>mm_ldst_expt_mst := e\<rparr>)"
    "itf_inv t \<Longrightarrow> mmu_inv mem satp (mmu\<lparr>mm_pa_i_bti_req_mst := t\<rparr>)" "itf_inv t \<Longrightarrow> mmu_inv mem satp (mmu\<lparr>mm_pa_d_bti_req_mst := t\<rparr>)"
    "itf_inv u \<Longrightarrow> mmu_inv mem satp (mmu\<lparr>mm_pa_i_bti_rsp_slv := u\<rparr>)" "itf_inv u \<Longrightarrow> mmu_inv mem satp (mmu\<lparr>mm_pa_d_bti_rsp_slv := u\<rparr>)"
    "itf_inv fl \<Longrightarrow> mmu_inv mem satp (mmu\<lparr>mm_tlb_flush_slv := fl\<rparr>)"
    "fifo_inv f \<Longrightarrow> mmu_inv mem satp (mmu\<lparr>mm_va_i_req_fifo := f\<rparr>)" "fifo_inv f \<Longrightarrow> mmu_inv mem satp (mmu\<lparr>mm_va_d_req_fifo := f\<rparr>)"
    "mmu_inv mem satp (mmu\<lparr>mm_exu_state_i := es\<rparr>)"
  by (rule mmu_inv_core [OF assms], simp add: mmu_core_def mmu_satp_def, use assms in \<open>simp add: mmu_inv_def mmu_ports_def\<close>)+

lemma mmu_inv_csr:
  assumes "mmu_inv mem satp mmu" "cm_satp cs = satp"
  shows "mmu_inv mem satp (mmu\<lparr>mm_csr_state_i := cs\<rparr>)"
proof (rule mmu_inv_core [OF assms(1)])
  have "cm_satp (mm_csr_state_i mmu) = satp" using assms(1) by (simp add: mmu_inv_def mmu_satp_def)
  with assms(2) show "mmu_core (mmu\<lparr>mm_csr_state_i := cs\<rparr>) = mmu_core mmu" by (simp add: mmu_core_def mmu_satp_def)
  show "mmu_ports (mmu\<lparr>mm_csr_state_i := cs\<rparr>)" using assms(1) by (simp add: mmu_inv_def mmu_ports_def)
qed

section \<open>Operations\<close>

lemma flush_coherent: "tlb_coherent mem (mmu_invalidate_tlb mmu)"
  by (auto simp: tlb_coherent_def mmu_invalidate_tlb_def)

lemma flush_inv:
  assumes inv: "mmu_inv mem satp mmu"
  shows "\<exists>mmu'. mmu_recv_tlb_flush mmu = Some mmu' \<and> mmu_inv mem satp mmu'"
proof (cases "itf_fifo_empty (mm_tlb_flush_slv mmu)")
  case True
  with inv show ?thesis by (simp add: mmu_recv_tlb_flush_def)
next
  case False
  have i: "itf_inv (mm_tlb_flush_slv mmu)" using inv by (simp add: mmu_inv_def mmu_ports_def)
  from itf.pop_not_empty [OF i False] obtain p t where t: "itf_read (mm_tlb_flush_slv mmu) = Some (p, t)" "itf_inv t" by metis
  let ?m = "mmu\<lparr>mm_tlb_flush_slv := t\<rparr>" and ?m' = "mmu_invalidate_tlb (mmu\<lparr>mm_tlb_flush_slv := t\<rparr>)"
  have m: "mmu_inv mem satp ?m" by (rule mmu_inv_ports(11) [OF inv t(2)])
  have frame: "mmu_satp ?m' = mmu_satp ?m" "mmu_ports ?m' = mmu_ports ?m" "mm_i_ost ?m' = mm_i_ost ?m" "mm_d_ost ?m' = mm_d_ost ?m"
    "tlb_shape ?m' = tlb_shape ?m" by (simp_all add: mmu_invalidate_tlb_def mmu_satp_def mmu_ports_def tlb_shape_def)
  have "walk_phase mem ?m' = walk_phase mem ?m"
  proof -
    have "pte_req ?m' = pte_req ?m" "walking ?m' = walking ?m" "walk_rest mem ?m' = walk_rest mem ?m" "ptw_quiet ?m' = ptw_quiet ?m"
      by (simp_all add: mmu_invalidate_tlb_def pte_req_def mmu_pte_addr_def walking_def walk_rest_def ptw_quiet_def)
    then show ?thesis by (simp add: walk_phase_def walk_table_def walk_rooted_def ptw_ok_def mmu_ost_def mmu_satp_def)
      (simp add: mmu_invalidate_tlb_def)
  qed
  with m have "mmu_inv mem satp ?m'" unfolding mmu_inv_def frame by (simp add: flush_coherent)
  moreover have "mmu_recv_tlb_flush mmu = Some ?m'" using False t(1) by (simp add: mmu_recv_tlb_flush_def)
  ultimately show ?thesis by blast
qed

lemma drop_inv: "mmu_inv mem satp mmu \<Longrightarrow> mmu_drop_canceled_rsp mmu = Some mmu"
  by (simp add: mmu_inv_def mmu_ports_def mmu_drop_canceled_rsp_def)

lemma table_update:
  assumes inv: "mmu_inv mem satp mmu" and o: "ostq_inv ost"
    and own: "mm_busy mmu \<Longrightarrow> mm_is_inst mmu = i \<Longrightarrow> ostq_live ost = ostq_live (mmu_ost mmu i) \<and> \<not> ostq_head_freed ost
      \<and> ostq_slot ost 0 = ostq_slot (mmu_ost mmu i) 0"
  shows "mmu_inv mem satp (mmu_set_ost mmu i ost)"
proof -
  let ?m = "mmu_set_ost mmu i ost"
  have frame: "mmu_satp ?m = mmu_satp mmu" "mmu_ports ?m = mmu_ports mmu" "tlb_shape ?m = tlb_shape mmu" "tlb_coherent mem ?m = tlb_coherent mem mmu"
    by (simp_all add: mmu_set_ost_def mmu_satp_def mmu_ports_def tlb_shape_def tlb_coherent_def)
  have f2: "pte_req ?m = pte_req mmu" "walking ?m = walking mmu" "walk_rest mem ?m = walk_rest mem mmu" "ptw_quiet ?m = ptw_quiet mmu"
    "mm_busy ?m = mm_busy mmu" "mm_is_inst ?m = mm_is_inst mmu" "mm_walk_slot ?m = mm_walk_slot mmu" "mm_walk_slot_vld ?m = mm_walk_slot_vld mmu"
    "mm_final_req_pending ?m = mm_final_req_pending mmu" "mm_final_rsp_pending ?m = mm_final_rsp_pending mmu" "mm_va ?m = mm_va mmu"
    "mm_pte_req_pending ?m = mm_pte_req_pending mmu" "mm_ptw_bti_req_mst ?m = mm_ptw_bti_req_mst mmu" "mm_ptw_bti_rsp_slv ?m = mm_ptw_bti_rsp_slv mmu"
    by (simp_all add: mmu_set_ost_def pte_req_def mmu_pte_addr_def walking_def walk_rest_def ptw_quiet_def)
  have tab: "walk_table ?m = walk_table mmu" if "mm_busy mmu"
  proof (cases "mm_is_inst mmu = i")
    case True
    then have "mmu_ost ?m (mm_is_inst ?m) = ost" by (simp add: f2 True)
    with own [OF that True] True inv that show ?thesis unfolding walk_table_def f2
      by (auto simp: mmu_inv_def walk_phase_def walk_table_def)
  next
    case False
    then have "mmu_ost ?m (mm_is_inst ?m) = mmu_ost mmu (mm_is_inst mmu)" by (auto simp: f2 mmu_ost_def mmu_set_ost_def)
    then show ?thesis by (simp only: walk_table_def f2)
  qed
  have "walk_phase mem ?m = walk_phase mem mmu"
    unfolding walk_phase_def ptw_ok_def walk_rooted_def f2 frame using tab by (cases "mm_busy mmu") simp_all
  moreover have "ostq_inv (mm_i_ost ?m)" "ostq_inv (mm_d_ost ?m)" using inv o by (simp_all add: mmu_set_ost_def mmu_inv_def)
  ultimately show ?thesis using inv unfolding mmu_inv_def frame by blast
qed

lemma walk_tableD:
  assumes "mmu_inv mem satp mmu" "mm_busy mmu" "mm_is_inst mmu = i"
  shows "\<exists>c. ostq_live (mmu_ost mmu i) = [c] \<and> \<not> mo_ready c \<and> \<not> mo_pa_issued c" "\<not> ostq_head_freed (mmu_ost mmu i)"
    "mm_walk_slot mmu = ostq_slot (mmu_ost mmu i) 0" "mm_walk_slot_vld mmu"
  using assms by (auto simp: mmu_inv_def walk_phase_def walk_table_def)

lemma tick_ost_inv:
  assumes inv: "mmu_inv mem satp mmu"
  shows "\<exists>ost. ostq_clock (mmu_ost mmu i) = Some ost \<and> mmu_inv mem satp (mmu_set_ost mmu i ost)"
proof -
  note oi = mmu_ost_inv [OF inv, of i]
  from ostq_clock_live [OF oi] obtain ost where o: "ostq_clock (mmu_ost mmu i) = Some ost" "ostq_inv ost"
    "ostq_live ost = ostq_live (mmu_ost mmu i)" "\<not> ostq_head_freed ost" by blast
  have "mmu_inv mem satp (mmu_set_ost mmu i ost)"
  proof (rule table_update [OF inv o(2)])
    assume b: "mm_busy mmu" "mm_is_inst mmu = i"
    from ostq_clock_idle [OF walk_tableD(2) [OF inv b] oi] o(1) have "ost = mmu_ost mmu i" by simp
    with o show "ostq_live ost = ostq_live (mmu_ost mmu i) \<and> \<not> ostq_head_freed ost \<and> ostq_slot ost 0 = ostq_slot (mmu_ost mmu i) 0" by simp
  qed
  with o show ?thesis by blast
qed

lemma perf_inv:
  assumes "mmu_inv mem satp mmu"
  shows "mmu_inv mem satp (mmu\<lparr>mm_perf_i_stg_full := a\<rparr>)" "mmu_inv mem satp (mmu\<lparr>mm_perf_d_stg_full := a\<rparr>)"
    "mmu_inv mem satp (mmu\<lparr>mm_perf_i_ost_full := a\<rparr>)" "mmu_inv mem satp (mmu\<lparr>mm_perf_d_ost_full := a\<rparr>)"
    "mmu_inv mem satp (mmu\<lparr>mm_perf_itlb_hit := a\<rparr>)" "mmu_inv mem satp (mmu\<lparr>mm_perf_dtlb_hit := a\<rparr>)"
    "mmu_inv mem satp (mmu\<lparr>mm_perf_itlb_miss := a\<rparr>)" "mmu_inv mem satp (mmu\<lparr>mm_perf_dtlb_miss := a\<rparr>)"
  by (rule mmu_inv_core [OF assms], simp add: mmu_core_def mmu_satp_def, use assms in \<open>simp add: mmu_inv_def mmu_ports_def\<close>)+

lemma count_full_inv: "mmu_inv mem satp mmu \<Longrightarrow> mmu_inv mem satp (mmu_count_ost_full mmu i)"
  by (simp add: mmu_count_ost_full_def perf_inv)

lemma portsD:
  assumes "mmu_inv mem satp mmu"
  shows "itf_inv (mm_va_i_bti_req_slv mmu)" "itf_inv (mm_va_d_bti_req_slv mmu)" "fifo_inv (mm_va_i_req_fifo mmu)" "fifo_inv (mm_va_d_req_fifo mmu)"
    "itf_inv (mmu_pa_req_mst mmu i)" "itf_inv (mmu_pa_rsp_slv mmu i)" "itf_inv (mm_va_i_bti_rsp_mst mmu)" "itf_inv (mm_va_d_bti_rsp_mst mmu)"
    "itf_inv (mm_fch_expt_mst mmu)" "itf_inv (mm_ldst_expt_mst mmu)" "fifo_inv (mmu_req_fifo mmu i)"
  using assms by (simp_all add: mmu_inv_def mmu_ports_def mmu_pa_req_mst_def mmu_pa_rsp_slv_def mmu_req_fifo_def)

text \<open>One side of \<^verbatim>\<open>mmu_capture_req\<close>.\<close>

lemma capture_i:
  assumes inv: "mmu_inv mem satp mmu" and ne: "\<not> fifo_full (mm_va_i_req_fifo mmu)" "\<not> itf_fifo_empty (mm_va_i_bti_req_slv mmu)"
  shows "\<exists>req t f. itf_read (mm_va_i_bti_req_slv mmu) = Some (req, t) \<and> fifo_push (mm_va_i_req_fifo mmu) (mmu_make_req_ctx mmu True req) = Some f
    \<and> mmu_inv mem satp (mmu\<lparr>mm_va_i_bti_req_slv := t, mm_va_i_req_fifo := f\<rparr>)"
proof -
  from itf.pop_not_empty [OF portsD(1) [OF inv] ne(2)] obtain req t where t: "itf_read (mm_va_i_bti_req_slv mmu) = Some (req, t)" "itf_inv t" by metis
  from fifo.push_ok [OF portsD(3) [OF inv] ne(1)] obtain f where
    f: "fifo_push (mm_va_i_req_fifo mmu) (mmu_make_req_ctx mmu True req) = Some f" "fifo_inv f" by blast
  from mmu_inv_ports(12) [OF mmu_inv_ports(1) [OF inv t(2)] f(2)] t f show ?thesis by blast
qed

lemma capture_d:
  assumes inv: "mmu_inv mem satp mmu" and ne: "\<not> fifo_full (mm_va_d_req_fifo mmu)" "\<not> itf_fifo_empty (mm_va_d_bti_req_slv mmu)"
  shows "\<exists>req t f. itf_read (mm_va_d_bti_req_slv mmu) = Some (req, t) \<and> fifo_push (mm_va_d_req_fifo mmu) (mmu_make_req_ctx mmu False req) = Some f
    \<and> mmu_inv mem satp (mmu\<lparr>mm_va_d_bti_req_slv := t, mm_va_d_req_fifo := f\<rparr>)"
proof -
  from itf.pop_not_empty [OF portsD(2) [OF inv] ne(2)] obtain req t where t: "itf_read (mm_va_d_bti_req_slv mmu) = Some (req, t)" "itf_inv t" by metis
  from fifo.push_ok [OF portsD(4) [OF inv] ne(1)] obtain f where
    f: "fifo_push (mm_va_d_req_fifo mmu) (mmu_make_req_ctx mmu False req) = Some f" "fifo_inv f" by blast
  from mmu_inv_ports(13) [OF mmu_inv_ports(2) [OF inv t(2)] f(2)] t f show ?thesis by blast
qed

lemma capture_inv:
  assumes inv: "mmu_inv mem satp mmu"
  shows "\<exists>mmu'. mmu_capture_req mmu = Some mmu' \<and> mmu_inv mem satp mmu'"
proof -
  let ?i = "\<lambda>mmu. (if fifo_full (mm_va_i_req_fifo mmu) then
         Some (if \<not> itf_fifo_empty (mm_va_i_bti_req_slv mmu) then mmu\<lparr>mm_perf_i_stg_full := mm_perf_i_stg_full mmu + 1\<rparr> else mmu)
       else if \<not> itf_fifo_empty (mm_va_i_bti_req_slv mmu) then do {
         (req, t) \<leftarrow> itf_read (mm_va_i_bti_req_slv mmu);
         f \<leftarrow> fifo_push (mm_va_i_req_fifo mmu) (mmu_make_req_ctx mmu True req);
         Some (mmu\<lparr>mm_va_i_bti_req_slv := t, mm_va_i_req_fifo := f\<rparr>)
       } else Some mmu)"
  have "\<exists>m. ?i mmu = Some m \<and> mmu_inv mem satp m" using capture_i [OF inv] perf_inv(1) [OF inv] inv by auto
  then obtain m where m: "?i mmu = Some m" "mmu_inv mem satp m" by blast
  have "\<exists>mmu'. (if fifo_full (mm_va_d_req_fifo m) then
       Some (if \<not> itf_fifo_empty (mm_va_d_bti_req_slv m) then m\<lparr>mm_perf_d_stg_full := mm_perf_d_stg_full m + 1\<rparr> else m)
     else if \<not> itf_fifo_empty (mm_va_d_bti_req_slv m) then do {
       (req, t) \<leftarrow> itf_read (mm_va_d_bti_req_slv m);
       f \<leftarrow> fifo_push (mm_va_d_req_fifo m) (mmu_make_req_ctx m False req);
       Some (m\<lparr>mm_va_d_bti_req_slv := t, mm_va_d_req_fifo := f\<rparr>)
     } else Some m) = Some mmu' \<and> mmu_inv mem satp mmu'" using capture_d [OF m(2)] perf_inv(2) [OF m(2)] m(2) by auto
  then show ?thesis unfolding mmu_capture_req_def m(1) by simp
qed

subsection \<open>Without a walk\<close>

definition idle_ok :: "pt_mem \<Rightarrow> u32 \<Rightarrow> mmu \<Rightarrow> bool" where
  "idle_ok mem satp mmu \<longleftrightarrow> mmu_satp mmu = satp \<and> mmu_ports mmu \<and> ostq_inv (mm_i_ost mmu) \<and> ostq_inv (mm_d_ost mmu)
     \<and> tlb_shape mmu \<and> tlb_coherent mem mmu \<and> ptw_quiet mmu \<and> \<not> mm_final_req_pending mmu \<and> \<not> mm_final_rsp_pending mmu"

lemma idle_inv: "\<not> mm_busy mmu \<Longrightarrow> mmu_inv mem satp mmu = idle_ok mem satp mmu"
  by (auto simp: mmu_inv_def idle_ok_def walk_phase_def)

lemma idle_frames [simp]:
  "idle_ok mem satp (mmu\<lparr>mm_busy := b\<rparr>) = idle_ok mem satp mmu" "idle_ok mem satp (mmu\<lparr>mm_pte := p\<rparr>) = idle_ok mem satp mmu"
  "idle_ok mem satp (mmu\<lparr>mm_walk_slot_vld := b\<rparr>) = idle_ok mem satp mmu"
  "idle_ok mem satp (mmu\<lparr>mm_perf_itlb_hit := n\<rparr>) = idle_ok mem satp mmu" "idle_ok mem satp (mmu\<lparr>mm_perf_dtlb_hit := n\<rparr>) = idle_ok mem satp mmu"
  "idle_ok mem satp (mmu\<lparr>mm_perf_itlb_miss := n\<rparr>) = idle_ok mem satp mmu" "idle_ok mem satp (mmu\<lparr>mm_perf_dtlb_miss := n\<rparr>) = idle_ok mem satp mmu"
  "idle_ok mem satp (mmu_set_active_req mmu i ctx) = idle_ok mem satp mmu"
  by (simp_all add: idle_ok_def mmu_satp_def mmu_ports_def tlb_shape_def tlb_coherent_def ptw_quiet_def mmu_set_active_req_def)

lemma idle_set:
  assumes "idle_ok mem satp mmu"
  shows "ostq_inv ost \<Longrightarrow> idle_ok mem satp (mmu_set_ost mmu i ost)" "fifo_inv f \<Longrightarrow> idle_ok mem satp (mmu_set_req_fifo mmu i f)"
    "itf_inv t \<Longrightarrow> idle_ok mem satp (mmu\<lparr>mm_pa_i_bti_req_mst := t\<rparr>)" "itf_inv t \<Longrightarrow> idle_ok mem satp (mmu\<lparr>mm_pa_d_bti_req_mst := t\<rparr>)"
  using assms by (simp_all add: idle_ok_def mmu_satp_def mmu_ports_def tlb_shape_def tlb_coherent_def ptw_quiet_def mmu_set_ost_def mmu_set_req_fifo_def)

lemma idle_parts:
  assumes "idle_ok mem satp mmu"
  shows "ostq_inv (mmu_ost mmu i)" "fifo_inv (mmu_req_fifo mmu i)" "itf_inv (mmu_pa_req_mst mmu i)"
  using assms by (simp_all add: idle_ok_def mmu_ports_def mmu_ost_def mmu_req_fifo_def mmu_pa_req_mst_def)

lemma idle_send_pa:
  assumes ok: "idle_ok mem satp mmu" and nf: "\<not> itf_fifo_full (mmu_pa_req_mst mmu i)"
  shows "\<exists>mmu'. mmu_send_pa_req mmu i req = Some mmu' \<and> idle_ok mem satp mmu' \<and> mm_busy mmu' = mm_busy mmu"
proof -
  from itf.push_ok [OF idle_parts(3) [OF ok] nf, of req] obtain t where t: "itf_write (mmu_pa_req_mst mmu i) req = Some t" "itf_inv t" by blast
  with nf idle_set(3,4) [OF ok t(2)] show ?thesis by (cases i) (simp_all add: mmu_send_pa_req_def)
qed

text \<open>A fresh slot for a request.\<close>

lemma idle_alloc:
  assumes ok: "idle_ok mem satp mmu" and nf: "\<not> ostq_full (mmu_ost mmu i)"
  shows "\<exists>k ost. mmu_alloc_ost_req mmu i req = Some (Some (ostq_slot (mmu_ost mmu i) k), mmu_set_ost mmu i ost) \<and> ostq_inv ost
    \<and> k = length (ostq_live (mmu_ost mmu i)) \<and> ostq_live ost = ostq_live (mmu_ost mmu i) @ [mmu_ctx0 i req]
    \<and> ostq_slot ost = ostq_slot (mmu_ost mmu i) \<and> ostq_head_freed ost = ostq_head_freed (mmu_ost mmu i)"
proof -
  from ostq_alloc_live [OF idle_parts(1) [OF ok] nf, of "mmu_ctx0 i req"] obtain ost where
    o: "ostq_alloc (mmu_ost mmu i) (mmu_ctx0 i req) = Some (Some (ostq_slot (mmu_ost mmu i) (length (ostq_live (mmu_ost mmu i))), ost))"
      "ostq_inv ost" "ostq_live ost = ostq_live (mmu_ost mmu i) @ [mmu_ctx0 i req]" "ostq_head_freed ost = ostq_head_freed (mmu_ost mmu i)"
      "ostq_slot ost = ostq_slot (mmu_ost mmu i)" by blast
  then have "mmu_alloc_ost_req mmu i req = Some (Some (ostq_slot (mmu_ost mmu i) (length (ostq_live (mmu_ost mmu i)))), mmu_set_ost mmu i ost)"
    using nf by (simp add: mmu_alloc_ost_req_def)
  with o show ?thesis by blast
qed

lemma set_ost_more [simp]:
  "mm_busy (mmu_set_ost mmu i ost) = mm_busy mmu" "mmu_req_fifo (mmu_set_ost mmu i ost) j = mmu_req_fifo mmu j"
  "mm_busy (mmu_set_req_fifo mmu i f) = mm_busy mmu" "mmu_ost (mmu_set_req_fifo mmu i f) j = mmu_ost mmu j"
  "mmu_pa_req_mst (mmu_set_req_fifo mmu i f) j = mmu_pa_req_mst mmu j"
  by (simp_all add: mmu_set_ost_def mmu_set_req_fifo_def mmu_req_fifo_def mmu_ost_def mmu_pa_req_mst_def)

lemma accept_bare_inv:
  assumes ok: "idle_ok mem satp mmu" and nb: "\<not> mm_busy mmu" and ne: "\<not> fifo_empty (mmu_req_fifo mmu i)"
  shows "\<exists>r mmu'. mmu_accept_bare mmu i ctx = Some (r, mmu') \<and> mmu_inv mem satp mmu'"
proof (cases "itf_fifo_full (mmu_pa_req_mst mmu i) \<or> ostq_full (mmu_ost mmu i)")
  case True
  have "mmu_inv mem satp mmu" using ok nb by (simp add: idle_inv)
  with True count_full_inv [of mem satp mmu i] show ?thesis by (cases "ostq_full (mmu_ost mmu i)") (auto simp: mmu_accept_bare_def)
next
  case False
  with idle_alloc [OF ok, of i "mr_req ctx"] obtain k ost where a: "mmu_alloc_ost_req mmu i (mr_req ctx) = Some (Some (ostq_slot (mmu_ost mmu i) k), mmu_set_ost mmu i ost)"
    "ostq_inv ost" "k = length (ostq_live (mmu_ost mmu i))" "ostq_live ost = ostq_live (mmu_ost mmu i) @ [mmu_ctx0 i (mr_req ctx)]"
    "ostq_slot ost = ostq_slot (mmu_ost mmu i)" by blast
  have k: "k < length (ostq_live ost)" using a(3,4) by simp
  from ostq_write_live [OF a(2) k, of "(ostq_live ost ! k)\<lparr>mo_pa_issued := True\<rparr>"] obtain ost2 where
    w: "ostq_write_slot ost (ostq_slot ost k) ((ostq_live ost ! k)\<lparr>mo_pa_issued := True\<rparr>) = Some ost2" "ostq_inv ost2" by blast
  note rd = ostq_read_live [OF a(2) k]
  let ?m1 = "mmu_set_ost (mmu_set_ost mmu i ost) i ost2"
  have ok1: "idle_ok mem satp ?m1" using idle_set(1) [OF idle_set(1) [OF ok a(2)] w(2)] .
  from fifo.pop_not_empty [OF idle_parts(2) [OF ok] ne] obtain c f where f: "fifo_pop (mmu_req_fifo mmu i) = Some (c, f)" "fifo_inv f" by metis
  have ok2: "idle_ok mem satp (mmu_set_req_fifo ?m1 i f)" using idle_set(2) [OF ok1 f(2)] .
  from idle_send_pa [OF ok2, of i "mr_req c"] False obtain m3 where
    m3: "mmu_send_pa_req (mmu_set_req_fifo ?m1 i f) i (mr_req c) = Some m3" "idle_ok mem satp m3" "mm_busy m3 = mm_busy mmu" by auto
  have "mmu_accept_bare mmu i ctx = Some (True, m3)"
    using False a(1) rd w(1) f(1) m3(1) a(5) by (simp add: mmu_accept_bare_def)
  moreover have "mmu_inv mem satp m3" using m3 nb by (simp add: idle_inv)
  ultimately show ?thesis by blast
qed

lemma accept_tlb_hit_ok:
  assumes ok: "idle_ok mem satp mmu" and nf: "\<not> itf_fifo_full (mmu_pa_req_mst mmu i)" and k: "k < length (ostq_live (mmu_ost mmu i))"
  shows "\<exists>mmu'. mmu_accept_tlb_hit mmu i ctx (ostq_slot (mmu_ost mmu i) k) e = Some mmu' \<and> mmu_inv mem satp mmu'"
proof -
  define m where "m = (mmu_set_active_req (mmu\<lparr>mm_busy := True\<rparr>) i ctx)\<lparr>mm_pte := te_pte e\<rparr>"
  have okm: "idle_ok mem satp m" unfolding m_def using ok by simp
  have om: "mmu_ost m i = mmu_ost mmu i" "mmu_pa_req_mst m i = mmu_pa_req_mst mmu i" unfolding m_def by (simp_all add: active_fields)
  note inv = idle_parts(1) [OF ok, of i]
  note rd = ostq_read_live [OF inv k]
  show ?thesis
  proof (cases "\<not> mmu_pte_permits m (te_pte e) \<or> \<not> mmu_pte_ad_ok m (te_pte e)")
    case True
    let ?x = "mmu_complete_fault m i (ostq_slot (mmu_ost mmu i) k) (mmu_fault_cause i (bq_cmd (mr_req ctx)))
         (mr_priv ctx) (mr_fault_pc ctx) (bq_addr (mr_req ctx))"
    let ?old = "ostq_live (mmu_ost mmu i) ! k"
    let ?c = "?old\<lparr>mo_expt := \<lparr>he_type = HART_EXPT_TYPE_EXCEPTION, he_cause = mmu_fault_cause i (bq_cmd (mr_req ctx)), he_priv = mr_priv ctx,
        he_pc = mr_fault_pc ctx, he_tval = bq_addr (mr_req ctx)\<rparr>, mo_expt_vld := True,
        mo_rsp := \<lparr>bp_trans_id = bq_trans_id (mo_req ?old), bp_data = 0, bp_ok = False\<rparr>, mo_ready := True\<rparr>"
    from ostq_write_live [OF inv k, of ?c] obtain ost where
      w: "ostq_write_slot (mmu_ost mmu i) (ostq_slot (mmu_ost mmu i) k) ?c = Some ost" "ostq_inv ost" by blast
    have o: "?x = Some (mmu_set_ost m i ost)" "ostq_inv ost" using rd om(1) w by (simp_all add: mmu_complete_fault_def)
    have "mmu_accept_tlb_hit mmu i ctx (ostq_slot (mmu_ost mmu i) k) e = Some ((mmu_set_ost m i ost)\<lparr>mm_busy := False\<rparr>)"
      unfolding mmu_accept_tlb_hit_def Let_def m_def [symmetric] using True o(1) by simp
    with idle_set(1) [OF okm o(2), of i] show ?thesis by (simp add: idle_inv)
  next
    case False
    let ?c = "(ostq_live (mmu_ost mmu i) ! k)\<lparr>mo_pa_issued := True\<rparr>"
    from ostq_write_live [OF inv k, of ?c] obtain ost where
      o: "ostq_write_slot (mmu_ost mmu i) (ostq_slot (mmu_ost mmu i) k) ?c = Some ost" "ostq_inv ost" by blast
    let ?r = "(mr_req ctx)\<lparr>bq_addr := te_pa_base e OR (bq_addr (mr_req ctx) AND mmu_tlb_page_mask (te_level e))\<rparr>"
    from idle_send_pa [OF idle_set(1) [OF okm o(2), of i], of i ?r] nf om obtain m2 where
      m2: "mmu_send_pa_req (mmu_set_ost m i ost) i ?r = Some m2" "idle_ok mem satp m2" by auto
    let ?m3 = "(if i then m2\<lparr>mm_perf_itlb_hit := mm_perf_itlb_hit m2 + 1\<rparr> else m2\<lparr>mm_perf_dtlb_hit := mm_perf_dtlb_hit m2 + 1\<rparr>)\<lparr>mm_busy := False\<rparr>"
    have "mmu_accept_tlb_hit mmu i ctx (ostq_slot (mmu_ost mmu i) k) e = Some ?m3"
      unfolding mmu_accept_tlb_hit_def Let_def m_def [symmetric] using False om rd o(1) m2(1) by simp
    moreover have "idle_ok mem satp ?m3" "\<not> mm_busy ?m3" using m2(2) by simp_all
    ultimately show ?thesis using idle_inv by blast
  qed
qed

lemma accept_hit_inv:
  assumes ok: "idle_ok mem satp mmu" and nb: "\<not> mm_busy mmu" and ne: "\<not> fifo_empty (mmu_req_fifo mmu i)"
  shows "\<exists>r mmu'. mmu_accept_hit mmu i ctx e = Some (r, mmu') \<and> mmu_inv mem satp mmu'"
proof (cases "itf_fifo_full (mmu_pa_req_mst mmu i) \<or> ostq_full (mmu_ost mmu i)")
  case True
  have "mmu_inv mem satp mmu" using ok nb by (simp add: idle_inv)
  with True count_full_inv [of mem satp mmu i] show ?thesis by (cases "ostq_full (mmu_ost mmu i)") (auto simp: mmu_accept_hit_def)
next
  case False
  with idle_alloc [OF ok, of i "mr_req ctx"] obtain k ost where a: "mmu_alloc_ost_req mmu i (mr_req ctx) = Some (Some (ostq_slot (mmu_ost mmu i) k), mmu_set_ost mmu i ost)"
    "ostq_inv ost" "k = length (ostq_live (mmu_ost mmu i))" "ostq_live ost = ostq_live (mmu_ost mmu i) @ [mmu_ctx0 i (mr_req ctx)]"
    "ostq_slot ost = ostq_slot (mmu_ost mmu i)" by blast
  have k: "k < length (ostq_live ost)" using a(3,4) by simp
  from fifo.pop_not_empty [OF idle_parts(2) [OF ok] ne] obtain c f where f: "fifo_pop (mmu_req_fifo mmu i) = Some (c, f)" "fifo_inv f" by metis
  let ?m = "mmu_set_req_fifo (mmu_set_ost mmu i ost) i f"
  have okm: "idle_ok mem satp ?m" using idle_set(2) [OF idle_set(1) [OF ok a(2)] f(2)] .
  have "\<not> itf_fifo_full (mmu_pa_req_mst ?m i)" "k < length (ostq_live (mmu_ost ?m i))" using False k by simp_all
  from accept_tlb_hit_ok [OF okm this, of c e] a(5) obtain m' where
    "mmu_accept_tlb_hit ?m i c (ostq_slot (mmu_ost mmu i) k) e = Some m'" "mmu_inv mem satp m'" by auto
  moreover from this(1) have "mmu_accept_hit mmu i ctx e = Some (True, m')" using False a(1) f(1) by (simp add: mmu_accept_hit_def)
  ultimately show ?thesis by blast
qed

lemma accept_miss_inv:
  assumes ok: "idle_ok mem satp mmu" and nb: "\<not> mm_busy mmu" and ne: "\<not> fifo_empty (mmu_req_fifo mmu i)"
  shows "\<exists>r mmu'. mmu_accept_miss mmu i ctx = Some (r, mmu') \<and> mmu_inv mem satp mmu'"
proof (cases "\<not> ostq_empty (mm_i_ost mmu) \<or> \<not> ostq_empty (mm_d_ost mmu) \<or> ostq_full (mmu_ost mmu i)")
  case True
  have "mmu_inv mem satp mmu" using ok nb by (simp add: idle_inv)
  with True count_full_inv [of mem satp mmu i] show ?thesis by (auto simp: mmu_accept_miss_def)
next
  case False
  with idle_alloc [OF ok, of i "mr_req ctx"] obtain k ost where a: "mmu_alloc_ost_req mmu i (mr_req ctx) = Some (Some (ostq_slot (mmu_ost mmu i) k), mmu_set_ost mmu i ost)"
    "ostq_inv ost" "k = length (ostq_live (mmu_ost mmu i))" "ostq_live ost = ostq_live (mmu_ost mmu i) @ [mmu_ctx0 i (mr_req ctx)]"
    "ostq_slot ost = ostq_slot (mmu_ost mmu i)" "ostq_head_freed ost = ostq_head_freed (mmu_ost mmu i)" by blast
  have e: "ostq_live (mmu_ost mmu i) = []" "\<not> ostq_head_freed (mmu_ost mmu i)"
    using False ostq_empty_live [OF idle_parts(1) [OF ok, of i]] by (simp_all add: mmu_ost_def split: if_splits)
  from fifo.pop_not_empty [OF idle_parts(2) [OF ok] ne] obtain c f where f: "fifo_pop (mmu_req_fifo mmu i) = Some (c, f)" "fifo_inv f" by metis
  define m where "m = (let m = mmu_set_req_fifo (mmu_set_ost mmu i ost) i f in
    if i then m\<lparr>mm_perf_itlb_miss := mm_perf_itlb_miss m + 1\<rparr> else m\<lparr>mm_perf_dtlb_miss := mm_perf_dtlb_miss m + 1\<rparr>)"
  have okm: "idle_ok mem satp m" using idle_set(2) [OF idle_set(1) [OF ok a(2)] f(2)] unfolding m_def Let_def by simp
  have om: "mmu_ost m i = ost" unfolding m_def Let_def by (simp add: mmu_ost_def mmu_set_req_fifo_def mmu_set_ost_def)
  let ?s = "mmu_start_req_ctx m i c (ostq_slot (mmu_ost mmu i) k)"
  have "mmu_accept_miss mmu i ctx = Some (True, ?s)"
    using False nb a(1) f(1) unfolding m_def Let_def by (simp add: mmu_accept_miss_def Let_def)
  moreover have "mmu_inv mem satp ?s"
    using okm om a e
    by (simp add: mmu_inv_def idle_ok_def mmu_start_req_ctx_def mmu_set_active_req_def mmu_satp_def mmu_ports_def tlb_shape_def
        tlb_coherent_def walk_phase_def ptw_quiet_def walk_table_def walking_def ptw_ok_def walk_rooted_def walk_rest_def mmu_ost_def mmu_ctx0_def
        split: if_splits)
  ultimately show ?thesis by blast
qed

lemma accept_one_inv:
  assumes inv: "mmu_inv mem satp mmu"
  shows "\<exists>r mmu'. mmu_accept_one_req mmu i = Some (r, mmu') \<and> mmu_inv mem satp mmu'"
proof (cases "fifo_empty (mmu_req_fifo mmu i) \<or> mm_drop_ptw_rsp mmu \<or> mm_drop_i_rsp mmu \<or> mm_busy mmu")
  case True
  with inv show ?thesis by (auto simp: mmu_accept_one_req_def)
next
  case False
  then have nb: "\<not> mm_busy mmu" and ne: "\<not> fifo_empty (mmu_req_fifo mmu i)" by simp_all
  have ok: "idle_ok mem satp mmu" using inv nb by (simp add: idle_inv)
  from fifo.pop_not_empty [OF idle_parts(2) [OF ok] ne] obtain ctx where g: "fifo_get_front (mmu_req_fifo mmu i) = Some ctx" by metis
  show ?thesis
    using False g accept_bare_inv [OF ok nb ne] accept_hit_inv [OF ok nb ne] accept_miss_inv [OF ok nb ne]
    by (cases "mmu_req_ctx_translation_enabled mmu ctx"; cases "mmu_lookup_tlb_entry mmu i ctx") (simp_all add: mmu_accept_one_req_def)
qed

lemma accept_inv:
  assumes inv: "mmu_inv mem satp mmu"
  shows "\<exists>mmu'. mmu_accept_new_req mmu = Some mmu' \<and> mmu_inv mem satp mmu'"
proof -
  from accept_one_inv [OF inv, of False] obtain r m where m: "mmu_accept_one_req mmu False = Some (r, m)" "mmu_inv mem satp m" by blast
  from accept_one_inv [OF m(2), of True] m show ?thesis by (auto simp: mmu_accept_new_req_def)
qed

subsection \<open>Responses\<close>

lemma complete_normal_ok:
  assumes inv: "ostq_inv (mmu_ost mmu i)" and k: "k < length (ostq_live (mmu_ost mmu i))"
  shows "\<exists>ost. mmu_complete_normal mmu i (ostq_slot (mmu_ost mmu i) k) rsp = Some (mmu_set_ost mmu i ost) \<and> ostq_inv ost"
proof -
  let ?c = "(ostq_live (mmu_ost mmu i) ! k)\<lparr>mo_rsp := rsp, mo_ready := True, mo_expt_vld := False\<rparr>"
  from ostq_write_live [OF inv k, of ?c] obtain ost where
    "ostq_write_slot (mmu_ost mmu i) (ostq_slot (mmu_ost mmu i) k) ?c = Some ost" "ostq_inv ost" by blast
  with ostq_read_live [OF inv k] show ?thesis by (auto simp: mmu_complete_normal_def)
qed

lemma pa_rsp_set:
  "mmu_inv mem satp mmu \<Longrightarrow> itf_inv t \<Longrightarrow> mmu_inv mem satp (mmu_set_pa_rsp_slv mmu i t)"
  "mmu_ost (mmu_set_pa_rsp_slv mmu i t) j = mmu_ost mmu j" "mm_busy (mmu_set_pa_rsp_slv mmu i t) = mm_busy mmu"
  "mm_is_inst (mmu_set_pa_rsp_slv mmu i t) = mm_is_inst mmu"
  by (simp_all add: mmu_set_pa_rsp_slv_def mmu_inv_ports mmu_ost_def)

lemma proc_pa_inv:
  assumes inv: "mmu_inv mem satp mmu"
  shows "\<exists>mmu'. mmu_proc_pa_rsp mmu i = Some mmu' \<and> mmu_inv mem satp mmu'"
proof -
  let ?L = "ostq_live (mmu_ost mmu i)" and ?P = "\<lambda>cur. \<not> (\<not> mo_pa_issued cur \<or> mo_ready cur)"
  note oi = mmu_ost_inv [OF inv, of i]
  have find: "mmu_find_pa_rsp_slot mmu i = Some (map_option (\<lambda>k. (ostq_slot (mmu_ost mmu i) k, ?L ! k)) (find_idx ?P ?L))"
    unfolding mmu_find_pa_rsp_slot_def by (rule ostq_find_eq [OF oi])
  show ?thesis
  proof (cases "itf_fifo_empty (mmu_pa_rsp_slv mmu i) \<or> find_idx ?P ?L = None")
    case True
    with find have "mmu_proc_pa_rsp mmu i = Some mmu" by (auto simp: mmu_proc_pa_rsp_def)
    with inv show ?thesis by blast
  next
    case False
    then obtain k where k: "find_idx ?P ?L = Some k" by auto
    from find_idx_SomeD [OF k] have k': "k < length ?L" "?P (?L ! k)" by blast+
    have other: "\<not> (mm_busy mmu \<and> mm_is_inst mmu = i)"
    proof
      assume "mm_busy mmu \<and> mm_is_inst mmu = i"
      with walk_tableD(1) [OF inv, of i] obtain c where "?L = [c]" "\<not> mo_pa_issued c" by auto
      with k' show False by simp
    qed
    from False itf.pop_not_empty [OF portsD(6) [OF inv]] obtain rsp t where t: "itf_read (mmu_pa_rsp_slv mmu i) = Some (rsp, t)" "itf_inv t" by metis
    let ?m = "mmu_set_pa_rsp_slv mmu i t"
    have m: "mmu_inv mem satp ?m" "mmu_ost ?m i = mmu_ost mmu i" using pa_rsp_set(1) [OF inv t(2)] pa_rsp_set(2) by blast+
    from complete_normal_ok [of ?m i k rsp] oi k'(1) m(2) obtain ost where
      c: "mmu_complete_normal ?m i (ostq_slot (mmu_ost mmu i) k) rsp = Some (mmu_set_ost ?m i ost)" "ostq_inv ost" by auto
    have "mmu_inv mem satp (mmu_set_ost ?m i ost)"
      by (rule table_update [OF m(1) c(2)]) (use other in \<open>simp_all add: pa_rsp_set(3,4)\<close>)
    moreover have "mmu_proc_pa_rsp mmu i = Some (mmu_set_ost ?m i ost)"
      using False find k t(1) c(1) by (simp add: mmu_proc_pa_rsp_def)
    ultimately show ?thesis by blast
  qed
qed

lemma rsp_port_set:
  assumes inv: "mmu_inv mem satp mmu" "itf_inv t"
  shows "mmu_inv mem satp (if i then mmu\<lparr>mm_va_i_bti_rsp_mst := t\<rparr> else mmu\<lparr>mm_va_d_bti_rsp_mst := t\<rparr>)"
    "mmu_ost (if i then mmu\<lparr>mm_va_i_bti_rsp_mst := t\<rparr> else mmu\<lparr>mm_va_d_bti_rsp_mst := t\<rparr>) = mmu_ost mmu"
    "mm_busy (if i then mmu\<lparr>mm_va_i_bti_rsp_mst := t\<rparr> else mmu\<lparr>mm_va_d_bti_rsp_mst := t\<rparr>) = mm_busy mmu"
    "mm_is_inst (if i then mmu\<lparr>mm_va_i_bti_rsp_mst := t\<rparr> else mmu\<lparr>mm_va_d_bti_rsp_mst := t\<rparr>) = mm_is_inst mmu"
  using mmu_inv_ports(3,4) [OF inv] by (simp_all add: mmu_ost_def fun_eq_iff)

lemma expt_port_set:
  assumes inv: "mmu_inv mem satp mmu" "itf_inv e"
  shows "mmu_inv mem satp (if i then mmu\<lparr>mm_fch_expt_mst := e\<rparr> else mmu\<lparr>mm_ldst_expt_mst := e\<rparr>)"
    "mmu_ost (if i then mmu\<lparr>mm_fch_expt_mst := e\<rparr> else mmu\<lparr>mm_ldst_expt_mst := e\<rparr>) = mmu_ost mmu"
    "mm_busy (if i then mmu\<lparr>mm_fch_expt_mst := e\<rparr> else mmu\<lparr>mm_ldst_expt_mst := e\<rparr>) = mm_busy mmu"
    "mm_is_inst (if i then mmu\<lparr>mm_fch_expt_mst := e\<rparr> else mmu\<lparr>mm_ldst_expt_mst := e\<rparr>) = mm_is_inst mmu"
  using mmu_inv_ports(5,6) [OF inv] by (simp_all add: mmu_ost_def fun_eq_iff)

text \<open>Freeing the head after its response has been written.\<close>

lemma free_head_inv:
  assumes m: "mmu_inv mem satp m" "mmu_ost m i = ost" "\<not> (mm_busy m \<and> mm_is_inst m = i)"
    and o: "\<not> ostq_head_freed ost" "ostq_live ost \<noteq> []"
  shows "\<exists>ost'. ostq_free_head ost = Some ost' \<and> mmu_inv mem satp (mmu_set_ost m i ost')"
proof -
  from ostq_free_live [OF _ o] mmu_ost_inv [OF m(1), of i] m(2) obtain ost' where o': "ostq_free_head ost = Some ost'" "ostq_inv ost'" by blast
  have "mmu_inv mem satp (mmu_set_ost m i ost')" by (rule table_update [OF m(1) o'(2)]) (use m(3) in simp_all)
  with o' show ?thesis by blast
qed

lemma mmu_send_expt_inv:
  assumes inv: "mmu_inv mem satp mmu" and live: "\<not> ostq_head_freed (mmu_ost mmu i)" "ostq_live (mmu_ost mmu i) \<noteq> []"
    and c: "mo_ready (hd (ostq_live (mmu_ost mmu i)))" "mo_expt_vld (hd (ostq_live (mmu_ost mmu i)))"
    and other: "\<not> (mm_busy mmu \<and> mm_is_inst mmu = i)"
  shows "\<exists>mmu'. mmu_send_ready_rsp mmu i = Some mmu' \<and> mmu_inv mem satp mmu'"
proof -
  let ?ost = "mmu_ost mmu i" and ?c = "hd (ostq_live (mmu_ost mmu i))"
  let ?va = "if i then mm_va_i_bti_rsp_mst mmu else mm_va_d_bti_rsp_mst mmu"
  let ?ex = "if i then mm_fch_expt_mst mmu else mm_ldst_expt_mst mmu"
  note peek = ostq_peek_live [OF mmu_ost_inv [OF inv, of i]]
  have va: "itf_inv ?va" and ex: "itf_inv ?ex" using portsD [OF inv] by simp_all
  show ?thesis
  proof (cases "itf_fifo_full ?ex \<or> \<not> i \<and> itf_fifo_full ?va")
    case True
    with live c peek have "mmu_send_ready_rsp mmu i = Some mmu" by (auto simp: mmu_send_ready_rsp_def Let_def)
    with inv show ?thesis by blast
  next
    case nf: False
    then have "\<not> itf_fifo_full ?ex" by blast
    from itf.push_ok [OF ex this, of "mo_expt ?c"] obtain t where t: "itf_write ?ex (mo_expt ?c) = Some t" "itf_inv t" by blast
    define m1 where "m1 = (if i then mmu\<lparr>mm_fch_expt_mst := t\<rparr> else mmu\<lparr>mm_ldst_expt_mst := t\<rparr>)"
    note p = expt_port_set [OF inv t(2), of i, folded m1_def]
    show ?thesis
    proof (cases i)
      case True
      have "\<not> (mm_busy m1 \<and> mm_is_inst m1 = i)" using other p by simp
      from free_head_inv [OF p(1) _ this live] p(2) obtain ost' where
        f: "ostq_free_head ?ost = Some ost'" "mmu_inv mem satp (mmu_set_ost m1 i ost')" by auto
      have "mmu_send_ready_rsp mmu i = Some (mmu_set_ost m1 i ost')"
        using live c peek nf t(1) f(1) True p(2) by (simp add: mmu_send_ready_rsp_def Let_def m1_def)
      with f(2) show ?thesis by blast
    next
      case di: False
      then have "\<not> itf_fifo_full ?va" using nf by blast
      from itf.push_ok [OF va this, of "mo_rsp ?c"] obtain u where u: "itf_write ?va (mo_rsp ?c) = Some u" "itf_inv u" by blast
      let ?m2 = "m1\<lparr>mm_va_d_bti_rsp_mst := u\<rparr>"
      have m2: "mmu_inv mem satp ?m2" "mmu_ost ?m2 i = ?ost" "\<not> (mm_busy ?m2 \<and> mm_is_inst ?m2 = i)"
        using rsp_port_set [OF p(1) u(2), of False] p other by simp_all
      from free_head_inv [OF m2 live] obtain ost' where
        f: "ostq_free_head ?ost = Some ost'" "mmu_inv mem satp (mmu_set_ost ?m2 i ost')" by auto
      have "mmu_send_ready_rsp mmu i = Some (mmu_set_ost ?m2 i ost')"
        using live c peek nf t(1) u(1) f(1) di m2(2) by (simp add: mmu_send_ready_rsp_def Let_def m1_def)
      with f(2) show ?thesis by blast
    qed
  qed
qed

lemma send_plain_inv:
  assumes inv: "mmu_inv mem satp mmu" and live: "\<not> ostq_head_freed (mmu_ost mmu i)" "ostq_live (mmu_ost mmu i) \<noteq> []"
    and c: "mo_ready (hd (ostq_live (mmu_ost mmu i)))" "\<not> mo_expt_vld (hd (ostq_live (mmu_ost mmu i)))"
    and other: "\<not> (mm_busy mmu \<and> mm_is_inst mmu = i)"
  shows "\<exists>mmu'. mmu_send_ready_rsp mmu i = Some mmu' \<and> mmu_inv mem satp mmu'"
proof -
  let ?ost = "mmu_ost mmu i" and ?c = "hd (ostq_live (mmu_ost mmu i))"
  let ?va = "if i then mm_va_i_bti_rsp_mst mmu else mm_va_d_bti_rsp_mst mmu"
  note peek = ostq_peek_live [OF mmu_ost_inv [OF inv, of i]]
  have va: "itf_inv ?va" using portsD [OF inv] by simp
  show ?thesis
  proof (cases "itf_fifo_full ?va")
    case True
    with live c peek have "mmu_send_ready_rsp mmu i = Some mmu" by (auto simp: mmu_send_ready_rsp_def Let_def)
    with inv show ?thesis by blast
  next
    case nf: False
    from itf.push_ok [OF va nf, of "mo_rsp ?c"] obtain u where u: "itf_write ?va (mo_rsp ?c) = Some u" "itf_inv u" by blast
    define m1 where "m1 = (if i then mmu\<lparr>mm_va_i_bti_rsp_mst := u\<rparr> else mmu\<lparr>mm_va_d_bti_rsp_mst := u\<rparr>)"
    note p = rsp_port_set [OF inv u(2), of i, folded m1_def]
    have "\<not> (mm_busy m1 \<and> mm_is_inst m1 = i)" using other p by simp
    from free_head_inv [OF p(1) _ this live] p(2) obtain ost' where
      f: "ostq_free_head ?ost = Some ost'" "mmu_inv mem satp (mmu_set_ost m1 i ost')" by auto
    have "mmu_send_ready_rsp mmu i = Some (mmu_set_ost m1 i ost')"
      using live c peek nf u(1) f(1) p(2) by (simp add: mmu_send_ready_rsp_def Let_def m1_def [symmetric])
    with f(2) show ?thesis by blast
  qed
qed

lemma send_ready_inv:
  assumes inv: "mmu_inv mem satp mmu"
  shows "\<exists>mmu'. mmu_send_ready_rsp mmu i = Some mmu' \<and> mmu_inv mem satp mmu'"
proof (cases "ostq_head_freed (mmu_ost mmu i) \<or> ostq_live (mmu_ost mmu i) = [] \<or> \<not> mo_ready (hd (ostq_live (mmu_ost mmu i)))")
  case True
  with ostq_peek_live [OF mmu_ost_inv [OF inv, of i]] have "mmu_send_ready_rsp mmu i = Some mmu"
    by (auto simp: mmu_send_ready_rsp_def Let_def)
  with inv show ?thesis by blast
next
  case False
  then have live: "\<not> ostq_head_freed (mmu_ost mmu i)" "ostq_live (mmu_ost mmu i) \<noteq> []" and c: "mo_ready (hd (ostq_live (mmu_ost mmu i)))"
    by simp_all
  have other: "\<not> (mm_busy mmu \<and> mm_is_inst mmu = i)"
  proof
    assume "mm_busy mmu \<and> mm_is_inst mmu = i"
    with walk_tableD(1) [OF inv, of i] c show False by auto
  qed
  show ?thesis
    by (cases "mo_expt_vld (hd (ostq_live (mmu_ost mmu i)))")
      (rule mmu_send_expt_inv [OF inv live c _ other] send_plain_inv [OF inv live c _ other], assumption)+
qed

subsection \<open>The walker\<close>

lemma walk_inv_of:
  assumes inv: "mmu_inv mem satp mmu" and w: "mm_busy mmu" "\<not> mm_final_req_pending mmu" "\<not> mm_final_rsp_pending mmu"
  shows "walk_inv mem mmu" "walk_rooted mem mmu"
proof -
  have "walking mmu" "ptw_ok mem mmu" "tlb_shape mmu" using inv w by (simp_all add: mmu_inv_def walk_phase_def)
  moreover have "walk_slot_ok mmu" using walk_tableD [OF inv w(1) refl] mmu_ost_inv [OF inv, of "mm_is_inst mmu"]
    unfolding walk_slot_ok_def by auto
  ultimately show "walk_inv mem mmu" by (simp add: walk_inv_def)
  show "walk_rooted mem mmu" using inv w by (simp add: mmu_inv_def walk_phase_def)
qed

lemma goes_on_inv:
  assumes inv: "mmu_inv mem satp mmu" and w: "mm_busy mmu" "\<not> mm_final_req_pending mmu" "\<not> mm_final_rsp_pending mmu"
    and g: "walk_goes_on mem mmu mmu'"
  shows "mmu_inv mem satp mmu'"
proof -
  from g have wi: "walking mmu'" "ptw_ok mem mmu'" "tlb_shape mmu'" and rest: "walk_rest mem mmu' = walk_rest mem mmu"
    and s: "same_walk mmu mmu'" by (simp_all add: walk_goes_on_def walk_inv_def)
  have eq: "mm_i_ost mmu' = mm_i_ost mmu" "mm_d_ost mmu' = mm_d_ost mmu" "mmu_ost mmu' (mm_is_inst mmu') = mmu_ost mmu (mm_is_inst mmu)"
    "mm_walk_slot mmu' = mm_walk_slot mmu" "mmu_satp mmu' = mmu_satp mmu" "mm_va mmu' = mm_va mmu" "mmu_ports mmu' = mmu_ports mmu"
    "tlb_coherent mem mmu' = tlb_coherent mem mmu"
    using s by (simp_all add: same_walk_def mmu_ost_def mmu_satp_def tlb_coherent_def)
  have "walk_table mmu'" using walk_tableD [OF inv w(1) refl] wi(1) unfolding walk_table_def eq by (simp add: walking_def)
  moreover have "walk_rooted mem mmu'" using walk_inv_of(2) [OF inv w] unfolding walk_rooted_def rest eq .
  moreover have "mm_busy mmu'" "\<not> mm_final_req_pending mmu'" "\<not> mm_final_rsp_pending mmu'" using wi(1) by (simp_all add: walking_def)
  ultimately have "walk_phase mem mmu'" using wi by (simp add: walk_phase_def)
  then show ?thesis using inv wi(3) unfolding mmu_inv_def eq by blast
qed

text \<open>The end of a walk: a fault leaves the walker idle, a translation fills the buffer and waits to be sent.\<close>

lemma faulted_inv:
  assumes inv: "mmu_inv mem satp mmu" and w: "walking mmu" and t: "pte_taken mmu pte m" and f: "walk_faulted m mmu'"
  shows "mmu_inv mem satp mmu'"
proof -
  obtain t' where t': "itf_inv t'" "itf_list t' = []" "itf_list (mm_ptw_bti_req_mst mmu) = []"
    and m: "m = mmu\<lparr>mm_ptw_bti_rsp_slv := t', mm_pte_req_pending := False, mm_pte := pte\<rparr>"
    using t unfolding pte_taken_def by (elim exE conjE) (rule that)
  obtain ost where o: "ostq_inv ost" and mmu': "mmu' = (mmu_set_ost m (mm_is_inst m) ost)\<lparr>mm_busy := False, mm_walk_slot_vld := False,
      mm_pte_req_pending := False, mm_final_req_pending := False, mm_final_rsp_pending := False\<rparr>"
    using f unfolding walk_faulted_def by (elim exE conjE) (rule that)
  have i: "itf_inv (mm_ptw_bti_req_mst mmu)" using inv w by (auto simp: mmu_inv_def walk_phase_def walking_def ptw_ok_def)
  define n where "n = m\<lparr>mm_final_req_pending := False, mm_final_rsp_pending := False\<rparr>"
  have "idle_ok mem satp n" using inv t' i
    by (simp add: n_def m mmu_inv_def idle_ok_def mmu_satp_def mmu_ports_def tlb_shape_def tlb_coherent_def ptw_quiet_def)
  from idle_set(1) [OF this o, of "mm_is_inst m"] have "idle_ok mem satp (mmu_set_ost n (mm_is_inst m) ost)" .
  moreover have "mmu' = (mmu_set_ost n (mm_is_inst m) ost)\<lparr>mm_busy := False, mm_walk_slot_vld := False\<rparr>"
    unfolding mmu' n_def m by (simp add: mmu_set_ost_def)
  ultimately show ?thesis by (simp add: idle_inv)
qed

lemma coherent_put: "\<forall>e\<in>set xs. te_vld e \<longrightarrow> entry_ok mem e \<Longrightarrow> entry_ok mem x \<Longrightarrow> \<forall>e\<in>set (xs[n := x]). te_vld e \<longrightarrow> entry_ok mem e"
  using set_update_subset_insert [of xs n x] by blast

lemma translated_inv:
  assumes inv: "mmu_inv mem satp mmu" and w: "walking mmu" and r: "walk_rooted mem mmu" and t: "pte_taken mmu pte m"
    and out: "walk_outcome mem mmu = Some pa" "walk_rest mem mmu = Some (mm_level mmu, pte)" and f: "walk_translated pte pa m mmu'"
  shows "mmu_inv mem satp mmu'"
proof -
  obtain t' where t': "itf_inv t'" "itf_list t' = []" "itf_list (mm_ptw_bti_req_mst mmu) = []"
    and m: "m = mmu\<lparr>mm_ptw_bti_rsp_slv := t', mm_pte_req_pending := False, mm_pte := pte\<rparr>"
    using t unfolding pte_taken_def by (elim exE conjE) (rule that)
  define e where "e = mmu_tlb_new (m\<lparr>mm_pte := pte, mm_leaf_pa_base := pa\<rparr>)"
  have e: "entry_ok mem e" unfolding e_def
  proof (rule tlb_new_ok)
    show "leaf_walk mem (push_bit 12 (satp_ppn (mmu_satp m))) (mm_va m) = Some (mm_level m, pte)"
      using r out(2) by (simp add: walk_rooted_def m mmu_satp_def)
    show "leaf_pa (mm_level m) pte (mm_va m) = Some pa"
      using out by (simp add: walk_outcome_def leaf_outcome_def leaf_xlate_def m split: if_splits)
  qed
  have b: "mm_busy mmu" "\<not> mm_final_rsp_pending mmu" using w by (simp_all add: walking_def)
  have i: "itf_inv (mm_ptw_bti_req_mst mmu)" using inv w by (auto simp: mmu_inv_def walk_phase_def walking_def ptw_ok_def)
  have tab: "walk_table mmu" using inv b(1) by (simp add: mmu_inv_def walk_phase_def)
  have mmu': "mmu' = (if mm_is_inst m
      then m\<lparr>mm_pte := pte, mm_leaf_pa_base := pa, mm_itlb := (mm_itlb m)[mm_itlb_replace_idx m := e],
        mm_itlb_replace_idx := (mm_itlb_replace_idx m + 1) mod MMU_ITLB_SIZE\<rparr>
      else m\<lparr>mm_pte := pte, mm_leaf_pa_base := pa, mm_dtlb := (mm_dtlb m)[mm_dtlb_replace_idx m := e],
        mm_dtlb_replace_idx := (mm_dtlb_replace_idx m + 1) mod MMU_DTLB_SIZE\<rparr>)\<lparr>mm_req := (mm_req m)\<lparr>bq_addr := pa\<rparr>, mm_final_req_pending := True\<rparr>"
    using f unfolding walk_translated_def Let_def e_def .
  have coh: "\<forall>e\<in>set (mm_itlb mmu). te_vld e \<longrightarrow> entry_ok mem e" "\<forall>e\<in>set (mm_dtlb mmu). te_vld e \<longrightarrow> entry_ok mem e"
    using inv by (simp_all add: mmu_inv_def tlb_coherent_def ball_Un)
  have "tlb_coherent mem mmu'"
    using coh coherent_put [OF coh(1) e, of "mm_itlb_replace_idx mmu"] coherent_put [OF coh(2) e, of "mm_dtlb_replace_idx mmu"]
    unfolding mmu' m tlb_coherent_def ball_Un by simp
  moreover have "tlb_shape mmu'" using inv unfolding mmu' m by (simp add: mmu_inv_def tlb_shape_def)
  moreover have "mmu_ports mmu'" "mmu_satp mmu' = satp" "ostq_inv (mm_i_ost mmu')" "ostq_inv (mm_d_ost mmu')"
    using inv unfolding mmu' m by (simp_all add: mmu_inv_def mmu_ports_def mmu_satp_def)
  moreover have "walk_table mmu'" using tab unfolding mmu' m by (cases "mm_is_inst mmu") (simp_all add: walk_table_def mmu_ost_def)
  moreover have "ptw_quiet mmu'" using t' i unfolding mmu' m by (simp add: ptw_quiet_def)
  moreover have "mm_busy mmu'" "mm_final_req_pending mmu'" "\<not> mm_final_rsp_pending mmu'" using b unfolding mmu' m by simp_all
  ultimately show ?thesis by (simp add: mmu_inv_def walk_phase_def)
qed

lemma ended_inv:
  assumes inv: "mmu_inv mem satp mmu" and w: "mm_busy mmu" "\<not> mm_final_req_pending mmu" "\<not> mm_final_rsp_pending mmu"
    and e: "walk_ended mem mmu mmu'"
  shows "mmu_inv mem satp mmu'"
proof -
  from e obtain pte m where t: "pte_taken mmu pte m"
    and c: "case walk_outcome mem mmu of None \<Rightarrow> walk_faulted m mmu'
      | Some pa \<Rightarrow> walk_rest mem mmu = Some (mm_level mmu, pte) \<and> walk_translated pte pa m mmu'" unfolding walk_ended_def by blast
  have wk: "walking mmu" using walk_inv_of(1) [OF inv w] by (simp add: walk_inv_def)
  show ?thesis
  proof (cases "walk_outcome mem mmu")
    case None
    with c have "walk_faulted m mmu'" by simp
    then show ?thesis by (rule faulted_inv [OF inv wk t])
  next
    case (Some pa)
    with c have "walk_rest mem mmu = Some (mm_level mmu, pte)" "walk_translated pte pa m mmu'" by simp_all
    then show ?thesis by (rule translated_inv [OF inv wk walk_inv_of(2) [OF inv w] t Some])
  qed
qed

lemma send_final_inv:
  assumes inv: "mmu_inv mem satp mmu" and w: "mm_busy mmu" "mm_final_req_pending mmu"
  shows "\<exists>mmu'. mmu_send_final_req mmu = Some mmu' \<and> mmu_inv mem satp mmu'"
proof (cases "itf_fifo_full (mmu_pa_req_mst mmu (mm_is_inst mmu))")
  case True
  with inv show ?thesis by (simp add: mmu_send_final_req_def)
next
  case False
  from itf.push_ok [OF portsD(5) [OF inv] False, of "mm_req mmu"] obtain t where
    t: "itf_write (mmu_pa_req_mst mmu (mm_is_inst mmu)) (mm_req mmu) = Some t" "itf_inv t" by blast
  define m where "m = (if mm_is_inst mmu then mmu\<lparr>mm_pa_i_bti_req_mst := t\<rparr> else mmu\<lparr>mm_pa_d_bti_req_mst := t\<rparr>)"
  have m: "mmu_inv mem satp m" "mm_busy m" "mm_final_req_pending m" unfolding m_def using mmu_inv_ports(7,8) [OF inv t(2)] w by simp_all
  have "mmu_inv mem satp (m\<lparr>mm_final_req_pending := False, mm_final_rsp_pending := True\<rparr>)"
  proof -
    let ?n = "m\<lparr>mm_final_req_pending := False, mm_final_rsp_pending := True\<rparr>"
    have f: "ptw_quiet ?n = ptw_quiet m" "mmu_ost ?n (mm_is_inst ?n) = mmu_ost m (mm_is_inst m)" "mmu_satp ?n = mmu_satp m" "mmu_ports ?n = mmu_ports m"
      "tlb_shape ?n = tlb_shape m" "tlb_coherent mem ?n = tlb_coherent mem m"
      by (simp_all add: ptw_quiet_def mmu_ost_def mmu_satp_def mmu_ports_def tlb_shape_def tlb_coherent_def)
    have "walk_table ?n = walk_table m" unfolding walk_table_def f by simp
    with m f show ?thesis by (simp add: mmu_inv_def walk_phase_def)
  qed
  moreover have "mmu_send_final_req mmu = Some (m\<lparr>mm_final_req_pending := False, mm_final_rsp_pending := True\<rparr>)"
    using False w t(1) by (simp add: mmu_send_final_req_def Let_def m_def)
  ultimately show ?thesis by blast
qed

lemma recv_final_inv:
  assumes inv: "mmu_inv mem satp mmu" and w: "mm_busy mmu" "\<not> mm_final_req_pending mmu" "mm_final_rsp_pending mmu"
  shows "\<exists>mmu'. mmu_recv_final_rsp mmu = Some mmu' \<and> mmu_inv mem satp mmu'"
proof (cases "itf_fifo_empty (mmu_pa_rsp_slv mmu (mm_is_inst mmu))")
  case True
  with inv show ?thesis by (simp add: mmu_recv_final_rsp_def)
next
  case False
  let ?i = "mm_is_inst mmu"
  from itf.pop_not_empty [OF portsD(6) [OF inv] False] obtain rsp t where t: "itf_read (mmu_pa_rsp_slv mmu ?i) = Some (rsp, t)" "itf_inv t" by metis
  define m where "m = mmu_set_pa_rsp_slv mmu ?i t"
  have m: "mmu_inv mem satp m" "mmu_ost m ?i = mmu_ost mmu ?i" "mm_busy m" "mm_is_inst m = ?i" "\<not> mm_final_req_pending m" "mm_walk_slot m = mm_walk_slot mmu"
    "mm_walk_slot_vld m" "mm_final_rsp_pending m"
    unfolding m_def using pa_rsp_set(1) [OF inv t(2)] pa_rsp_set(2-4) w walk_tableD(4) [OF inv w(1) refl]
    by (simp_all add: mmu_set_pa_rsp_slv_def)
  have k: "0 < length (ostq_live (mmu_ost m ?i))" using walk_tableD(1) [OF inv w(1) refl] m(2) by auto
  from complete_normal_ok [OF mmu_ost_inv [OF m(1)] k, of rsp] obtain ost where
    c: "mmu_complete_normal m ?i (mm_walk_slot m) rsp = Some (mmu_set_ost m ?i ost)" "ostq_inv ost"
    using walk_tableD(3) [OF inv w(1) refl] m(2,6) by auto
  define n where "n = m\<lparr>mm_final_rsp_pending := False\<rparr>"
  have "idle_ok mem satp n" using m unfolding n_def
    by (simp add: mmu_inv_def idle_ok_def walk_phase_def mmu_satp_def mmu_ports_def tlb_shape_def tlb_coherent_def ptw_quiet_def)
  from idle_set(1) [OF this c(2), of ?i] have ok: "idle_ok mem satp ((mmu_set_ost n ?i ost)\<lparr>mm_busy := False, mm_walk_slot_vld := False\<rparr>)" by simp
  have "mmu_recv_final_rsp mmu = Some ((mmu_set_ost n ?i ost)\<lparr>mm_busy := False, mm_walk_slot_vld := False\<rparr>)"
    using False w t(1) c(1) m by (simp add: mmu_recv_final_rsp_def Let_def m_def [symmetric]) (simp add: n_def mmu_set_ost_def)
  with ok show ?thesis by (simp add: idle_inv)
qed

lemma proc_walk_inv:
  assumes inv: "mmu_inv mem satp mmu"
  shows "\<exists>mmu'. mmu_proc_walk mmu = Some mmu' \<and> mmu_inv mem satp mmu'"
proof (cases "mm_busy mmu \<and> \<not> mm_final_req_pending mmu \<and> \<not> mm_final_rsp_pending mmu")
  case True
  then have w: "mm_busy mmu" "\<not> mm_final_req_pending mmu" "\<not> mm_final_rsp_pending mmu" by simp_all
  note wi = walk_inv_of(1) [OF inv w]
  show ?thesis
  proof (cases "mm_pte_req_pending mmu")
    case False
    from walk_proc_none [OF wi False] obtain m where "mmu_proc_walk mmu = Some m" "walk_goes_on mem mmu m" by blast
    with goes_on_inv [OF inv w] show ?thesis by blast
  next
    case p: True
    show ?thesis
    proof (cases "itf_list (mm_ptw_bti_rsp_slv mmu) = []")
      case True
      from walk_proc_wait [OF wi p True] inv show ?thesis by blast
    next
      case False
      from walk_proc_answer [OF wi p False] obtain m where "mmu_proc_walk mmu = Some m" "walk_ended mem mmu m \<or> walk_goes_on mem mmu m" by blast
      with goes_on_inv [OF inv w] ended_inv [OF inv w] show ?thesis by blast
    qed
  qed
next
  case False
  show ?thesis
    using False inv send_final_inv [OF inv] recv_final_inv [OF inv]
    by (cases "mm_busy mmu"; cases "mm_final_req_pending mmu") (simp_all add: mmu_proc_walk_def)
qed

lemma mmu_clock_inv:
  assumes inv: "mmu_inv mem satp mmu"
  shows "\<exists>mmu'. mmu_clock mmu = Some mmu' \<and> mmu_inv mem satp mmu'"
proof -
  from tick_ost_inv [OF inv, of True] obtain i_ost where i: "ostq_clock (mm_i_ost mmu) = Some i_ost" "mmu_inv mem satp (mmu\<lparr>mm_i_ost := i_ost\<rparr>)"
    by (auto simp: mmu_ost_def mmu_set_ost_def)
  from tick_ost_inv [OF i(2), of False] obtain d_ost where
    d: "ostq_clock (mm_d_ost mmu) = Some d_ost" "mmu_inv mem satp (mmu\<lparr>mm_i_ost := i_ost, mm_d_ost := d_ost\<rparr>)"
    by (auto simp: mmu_ost_def mmu_set_ost_def)
  from flush_inv [OF d(2)] obtain m1 where m1: "mmu_recv_tlb_flush (mmu\<lparr>mm_i_ost := i_ost, mm_d_ost := d_ost\<rparr>) = Some m1" "mmu_inv mem satp m1" by blast
  note m2 = drop_inv [OF m1(2)]
  from capture_inv [OF m1(2)] obtain m3 where m3: "mmu_capture_req m1 = Some m3" "mmu_inv mem satp m3" by blast
  from proc_walk_inv [OF m3(2)] obtain m4 where m4: "mmu_proc_walk m3 = Some m4" "mmu_inv mem satp m4" by blast
  from proc_pa_inv [OF m4(2), of True] obtain m5 where m5: "mmu_proc_pa_rsp m4 True = Some m5" "mmu_inv mem satp m5" by blast
  from proc_pa_inv [OF m5(2), of False] obtain m6 where m6: "mmu_proc_pa_rsp m5 False = Some m6" "mmu_inv mem satp m6" by blast
  from send_ready_inv [OF m6(2), of True] obtain m7 where m7: "mmu_send_ready_rsp m6 True = Some m7" "mmu_inv mem satp m7" by blast
  from send_ready_inv [OF m7(2), of False] obtain m8 where m8: "mmu_send_ready_rsp m7 False = Some m8" "mmu_inv mem satp m8" by blast
  from accept_inv [OF m8(2)] obtain m9 where m9: "mmu_accept_new_req m8 = Some m9" "mmu_inv mem satp m9" by blast
  from accept_inv [OF m9(2)] obtain m10 where m10: "mmu_accept_new_req m9 = Some m10" "mmu_inv mem satp m10" by blast
  have "mmu_clock mmu = Some m10"
    by (simp add: mmu_clock_def i(1) d(1) m1(1) m2 m3(1) m4(1) m5(1) m6(1) m7(1) m8(1) m9(1) m10(1))
  with m10(2) show ?thesis by blast
qed

section \<open>Runs\<close>

text \<open>
  The unit with its neighbours: the fetch and load/store units send virtual requests and take
  responses and exceptions, the memory takes physical requests and answers them, page table
  reads are answered from the page tables, the execution unit and the CSR file present their
  state and ask for flushes. The translation control register may change when no walk is under
  way.
\<close>

inductive mmu_run :: "pt_mem \<Rightarrow> mmu \<Rightarrow> mmu \<Rightarrow> bool" for mem s0 where
  start: "mmu_run mem s0 s0"
| tick: "mmu_run mem s0 s \<Longrightarrow> mmu_clock s = Some s' \<Longrightarrow> mmu_run mem s0 s'"
| ptw: "mmu_run mem s0 s \<Longrightarrow> ptw_serve mem s = Some s' \<Longrightarrow> mmu_run mem s0 s'"
| va_i_req: "mmu_run mem s0 s \<Longrightarrow> itf_write (mm_va_i_bti_req_slv s) q = Some t \<Longrightarrow> mmu_run mem s0 (s\<lparr>mm_va_i_bti_req_slv := t\<rparr>)"
| va_d_req: "mmu_run mem s0 s \<Longrightarrow> itf_write (mm_va_d_bti_req_slv s) q = Some t \<Longrightarrow> mmu_run mem s0 (s\<lparr>mm_va_d_bti_req_slv := t\<rparr>)"
| va_i_rsp: "mmu_run mem s0 s \<Longrightarrow> itf_read (mm_va_i_bti_rsp_mst s) = Some (r, u) \<Longrightarrow> mmu_run mem s0 (s\<lparr>mm_va_i_bti_rsp_mst := u\<rparr>)"
| va_d_rsp: "mmu_run mem s0 s \<Longrightarrow> itf_read (mm_va_d_bti_rsp_mst s) = Some (r, u) \<Longrightarrow> mmu_run mem s0 (s\<lparr>mm_va_d_bti_rsp_mst := u\<rparr>)"
| fch_expt: "mmu_run mem s0 s \<Longrightarrow> itf_read (mm_fch_expt_mst s) = Some (x, e) \<Longrightarrow> mmu_run mem s0 (s\<lparr>mm_fch_expt_mst := e\<rparr>)"
| ldst_expt: "mmu_run mem s0 s \<Longrightarrow> itf_read (mm_ldst_expt_mst s) = Some (x, e) \<Longrightarrow> mmu_run mem s0 (s\<lparr>mm_ldst_expt_mst := e\<rparr>)"
| pa_i_req: "mmu_run mem s0 s \<Longrightarrow> itf_read (mm_pa_i_bti_req_mst s) = Some (q, t) \<Longrightarrow> mmu_run mem s0 (s\<lparr>mm_pa_i_bti_req_mst := t\<rparr>)"
| pa_d_req: "mmu_run mem s0 s \<Longrightarrow> itf_read (mm_pa_d_bti_req_mst s) = Some (q, t) \<Longrightarrow> mmu_run mem s0 (s\<lparr>mm_pa_d_bti_req_mst := t\<rparr>)"
| pa_i_rsp: "mmu_run mem s0 s \<Longrightarrow> itf_write (mm_pa_i_bti_rsp_slv s) r = Some u \<Longrightarrow> mmu_run mem s0 (s\<lparr>mm_pa_i_bti_rsp_slv := u\<rparr>)"
| pa_d_rsp: "mmu_run mem s0 s \<Longrightarrow> itf_write (mm_pa_d_bti_rsp_slv s) r = Some u \<Longrightarrow> mmu_run mem s0 (s\<lparr>mm_pa_d_bti_rsp_slv := u\<rparr>)"
| flush: "mmu_run mem s0 s \<Longrightarrow> itf_write (mm_tlb_flush_slv s) fl = Some f \<Longrightarrow> mmu_run mem s0 (s\<lparr>mm_tlb_flush_slv := f\<rparr>)"
| exu_state: "mmu_run mem s0 s \<Longrightarrow> mmu_run mem s0 (s\<lparr>mm_exu_state_i := es\<rparr>)"
| csr_state: "mmu_run mem s0 s \<Longrightarrow> cm_satp cs = mmu_satp s \<or> \<not> mm_busy s \<Longrightarrow> mmu_run mem s0 (s\<lparr>mm_csr_state_i := cs\<rparr>)"

definition mmu_built :: "mmu \<Rightarrow> bool" where
  "mmu_built mmu \<longleftrightarrow> mmu_ports (mmu\<lparr>mm_drop_ptw_rsp := False, mm_drop_i_rsp := False\<rparr>)
     \<and> 0 < q_depth (mm_i_ost mmu) \<and> 0 < q_depth (mm_d_ost mmu)
     \<and> length (mm_itlb mmu) = MMU_ITLB_SIZE \<and> length (mm_dtlb mmu) = MMU_DTLB_SIZE
     \<and> itf_inv (mm_ptw_bti_req_mst mmu) \<and> itf_inv (mm_ptw_bti_rsp_slv mmu)
     \<and> itf_list (mm_ptw_bti_req_mst mmu) = [] \<and> itf_list (mm_ptw_bti_rsp_slv mmu) = []"

lemma mmu_reset_inv:
  assumes b: "mmu_built mmu"
  shows "mmu_inv mem (mmu_satp mmu) (mmu_reset mmu)"
proof -
  define m where "m = mmu_reset mmu"
  have "mmu_ports m" "tlb_shape m" "tlb_coherent mem m" "mmu_satp m = mmu_satp mmu" "ptw_quiet m"
    using b fifo_reset_inv [of "mm_va_i_req_fifo mmu"] fifo_reset_inv [of "mm_va_d_req_fifo mmu"]
    unfolding m_def mmu_reset_def
    by (auto simp: mmu_built_def mmu_ports_def tlb_shape_def tlb_coherent_def mmu_satp_def ptw_quiet_def)
  moreover have "ostq_inv (mm_i_ost m)" "ostq_inv (mm_d_ost m)"
    using b unfolding m_def mmu_reset_def by (simp_all add: mmu_built_def ostq_reset_live(1))
  moreover have "\<not> mm_busy m" "\<not> mm_final_req_pending m" "\<not> mm_final_rsp_pending m"
    unfolding m_def mmu_reset_def by simp_all
  ultimately show ?thesis unfolding m_def [symmetric] by (simp add: idle_inv idle_ok_def)
qed

lemma csr_idle_inv:
  assumes inv: "mmu_inv mem satp mmu" and nb: "\<not> mm_busy mmu"
  shows "mmu_inv mem (cm_satp cs) (mmu\<lparr>mm_csr_state_i := cs\<rparr>)"
proof -
  have "idle_ok mem satp mmu" using inv nb by (simp add: idle_inv)
  then have "idle_ok mem (cm_satp cs) (mmu\<lparr>mm_csr_state_i := cs\<rparr>)"
    by (simp add: idle_ok_def mmu_satp_def mmu_ports_def tlb_shape_def tlb_coherent_def ptw_quiet_def)
  with nb show ?thesis by (simp add: idle_inv)
qed

lemma serve_inv:
  assumes inv: "mmu_inv mem satp mmu" and s: "ptw_serve mem mmu = Some mmu'"
  shows "mmu_inv mem satp mmu'"
proof (cases "itf_list (mm_ptw_bti_req_mst mmu) = []")
  case True
  have "itf_inv (mm_ptw_bti_req_mst mmu)" using inv by (auto simp: mmu_inv_def walk_phase_def ptw_quiet_def ptw_ok_def split: if_splits)
  from serve_idle [OF this True, of mem] s inv show ?thesis by simp
next
  case False
  then have w: "mm_busy mmu" "\<not> mm_final_req_pending mmu" "\<not> mm_final_rsp_pending mmu"
    using inv by (auto simp: mmu_inv_def walk_phase_def ptw_quiet_def split: if_splits)
  note wi = walk_inv_of(1) [OF inv w]
  with False have p: "mm_pte_req_pending mmu" "itf_list (mm_ptw_bti_req_mst mmu) = [pte_req mmu]"
    by (auto simp: walk_inv_def ptw_ok_def split: if_splits)
  from serve_pending [OF wi p] s goes_on_inv [OF inv w] show ?thesis by auto
qed

lemma satp_frames [simp]:
  "mmu_satp (s\<lparr>mm_va_i_bti_req_slv := t\<rparr>) = mmu_satp s" "mmu_satp (s\<lparr>mm_va_d_bti_req_slv := t\<rparr>) = mmu_satp s"
  "mmu_satp (s\<lparr>mm_va_i_bti_rsp_mst := u\<rparr>) = mmu_satp s" "mmu_satp (s\<lparr>mm_va_d_bti_rsp_mst := u\<rparr>) = mmu_satp s"
  "mmu_satp (s\<lparr>mm_fch_expt_mst := e\<rparr>) = mmu_satp s" "mmu_satp (s\<lparr>mm_ldst_expt_mst := e\<rparr>) = mmu_satp s"
  "mmu_satp (s\<lparr>mm_pa_i_bti_req_mst := t\<rparr>) = mmu_satp s" "mmu_satp (s\<lparr>mm_pa_d_bti_req_mst := t\<rparr>) = mmu_satp s"
  "mmu_satp (s\<lparr>mm_pa_i_bti_rsp_slv := u\<rparr>) = mmu_satp s" "mmu_satp (s\<lparr>mm_pa_d_bti_rsp_slv := u\<rparr>) = mmu_satp s"
  "mmu_satp (s\<lparr>mm_tlb_flush_slv := f\<rparr>) = mmu_satp s" "mmu_satp (s\<lparr>mm_exu_state_i := es\<rparr>) = mmu_satp s"
  "mmu_satp (s\<lparr>mm_csr_state_i := cs\<rparr>) = cm_satp cs"
  by (simp_all add: mmu_satp_def)

lemma inv_satp: "mmu_inv mem satp s \<Longrightarrow> mmu_inv mem (mmu_satp s) s"
  by (simp add: mmu_inv_def)

lemma inv_itfs:
  assumes "mmu_inv mem satp s"
  shows "itf_inv (mm_pa_i_bti_req_mst s)" "itf_inv (mm_pa_d_bti_req_mst s)" "itf_inv (mm_pa_i_bti_rsp_slv s)"
    "itf_inv (mm_pa_d_bti_rsp_slv s)" "itf_inv (mm_tlb_flush_slv s)"
  using assms by (simp_all add: mmu_inv_def mmu_ports_def)

lemma itf_push_inv: "itf_write t x = Some t' \<Longrightarrow> itf_inv t \<Longrightarrow> itf_inv t'"
  by (drule (1) itf.push_SomeD) simp

lemma itf_pop_inv: "itf_read t = Some (x, t') \<Longrightarrow> itf_inv t \<Longrightarrow> itf_inv t'"
  by (drule (1) itf.pop_SomeD) simp

lemma mmu_run_inv:
  assumes "mmu_run mem s0 s" "mmu_inv mem (mmu_satp s0) s0"
  shows "mmu_inv mem (mmu_satp s) s"
  using assms(1)
proof (induction rule: mmu_run.induct)
  case start
  show ?case by (rule assms(2))
next
  case (tick s s')
  from mmu_clock_inv [OF tick.IH] tick.hyps(2) show ?case by (auto dest: inv_satp)
next
  case (ptw s s')
  from serve_inv [OF ptw.IH ptw.hyps(2)] show ?case by (rule inv_satp)
next
  case (csr_state s cs)
  show ?case
  proof (cases "mm_busy s")
    case True
    with csr_state have "cm_satp cs = mmu_satp s" by simp
    with mmu_inv_csr [OF csr_state.IH] show ?thesis by simp
  next
    case False
    from csr_idle_inv [OF csr_state.IH this] show ?thesis by simp
  qed
qed (simp_all add: mmu_inv_ports itf_push_inv itf_pop_inv portsD inv_itfs)

text \<open>
  C5. However its neighbours behave and however the memory is timed, from reset on the unit
  never fails an assertion and its translation buffers stay coherent with the page tables, as
  long as the page tables stay the same and the translation control register is only changed
  while no walk is under way.
\<close>

theorem mmu_run_coherent:
  assumes "mmu_built mmu0" "mmu_run mem (mmu_reset mmu0) mmu"
  shows "tlb_coherent mem mmu \<and> (\<exists>mmu'. mmu_clock mmu = Some mmu' \<and> tlb_coherent mem mmu')"
proof -
  have "mmu_satp (mmu_reset mmu0) = mmu_satp mmu0" by (simp add: mmu_satp_def mmu_reset_def)
  with mmu_reset_inv [OF assms(1)] have "mmu_inv mem (mmu_satp (mmu_reset mmu0)) (mmu_reset mmu0)" by simp
  note inv = mmu_run_inv [OF assms(2) this]
  from mmu_clock_inv [OF inv] inv show ?thesis by (auto simp: mmu_inv_def)
qed

text \<open>A run in which a store misses, is walked and fills the data buffer.\<close>

definition store_episode :: "pt_mem \<Rightarrow> mmu \<Rightarrow> mmu option" where
  "store_episode mem s = do {
     t \<leftarrow> itf_write (mm_va_d_bti_req_slv s) mmu_sample_req;
     s \<leftarrow> mmu_clock (s\<lparr>mm_va_d_bti_req_slv := t\<rparr>);
     s \<leftarrow> mmu_clock s; s \<leftarrow> ptw_serve mem s;
     s \<leftarrow> mmu_clock s; s \<leftarrow> ptw_serve mem s;
     mmu_clock s }"

lemma store_episode_run: "store_episode mem s = Some s' \<Longrightarrow> mmu_run mem s s'"
  unfolding store_episode_def bind_eq_Some_conv
  by (elim exE conjE) (rule mmu_run.tick, rule mmu_run.ptw, rule mmu_run.tick, rule mmu_run.ptw, rule mmu_run.tick, rule mmu_run.tick,
    rule mmu_run.va_d_req, rule mmu_run.start)

definition mmu_unused :: mmu where
  "mmu_unused = mmu_blank (the (ostq_construct 2)) 0x80000001"

lemma mmu_unused_built: "mmu_built mmu_unused"
proof -
  have "fifo_inv (the (fifo_construct 2) :: mmu_req_ctx fifo)" using fifo_construct_inv [of 2] by (auto simp: fifo_construct_def)
  then show ?thesis
    by (simp add: mmu_built_def mmu_unused_def mmu_blank_def mmu_ports_def ostq_construct_def ostq_reset_def del: One_nat_def)
qed

theorem mmu_run_coherent_witness:
  "\<exists>mmu. mmu_run pt_sample (mmu_reset mmu_unused) mmu
    \<and> map_option te_pa_base (mmu_lookup_tlb_entry mmu False mmu_sample_ctx) = Some 0x80005000
    \<and> tlb_coherent pt_sample mmu \<and> (\<exists>mmu'. mmu_clock mmu = Some mmu' \<and> tlb_coherent pt_sample mmu')"
proof -
  have "case store_episode pt_sample (mmu_reset mmu_unused) of None \<Rightarrow> False
    | Some mmu \<Rightarrow> map_option te_pa_base (mmu_lookup_tlb_entry mmu False mmu_sample_ctx) = Some 0x80005000" by code_simp
  then obtain mmu where m: "store_episode pt_sample (mmu_reset mmu_unused) = Some mmu"
    "map_option te_pa_base (mmu_lookup_tlb_entry mmu False mmu_sample_ctx) = Some 0x80005000" by (auto split: option.splits)
  note r = store_episode_run [OF m(1)]
  from mmu_run_coherent [OF mmu_unused_built r] r m(2) show ?thesis by blast
qed

end
