(* ===== verification/ApbPackets.thy ===== *)
theory ApbPackets
  imports Prelude
begin

text \<open>
  The packets of the peripheral bus (\<^verbatim>\<open>itf/apb_req_if.h\<close>, \<^verbatim>\<open>itf/apb_rsp_if.h\<close>) and the address
  range test of \<^verbatim>\<open>base/def.h\<close> that its decoders use.
\<close>

record apb_req =
  aq_paddr :: u32
  aq_pwrite :: bool
  aq_pwdata :: u32
  aq_pstrb :: u8

record apb_rsp =
  ap_prdata :: u32
  ap_pslverr :: bool

definition ADDR_IN :: "u32 \<Rightarrow> u32 \<Rightarrow> u32 \<Rightarrow> bool" where
  "ADDR_IN addr base sz \<longleftrightarrow> addr \<ge> base \<and> addr < base + sz"

end
