(* ===== verification/Plic.thy ===== *)
theory Plic
  imports Fifo ApbPackets
begin

text \<open>
  The platform interrupt controller (\<^verbatim>\<open>core/plic.c\<close>): it latches the lines of up to 32 interrupt
  sources, and software sets priorities, enables and a threshold, claims the source to serve and
  reports completion, all through the peripheral bus. One line to the hart says whether there is
  a source to claim.
\<close>

section \<open>State\<close>

abbreviation (input) PLIC_MAX_IRQ_NUM :: nat where "PLIC_MAX_IRQ_NUM \<equiv> 32"
abbreviation (input) PLIC_SOURCE_NUM :: nat where "PLIC_SOURCE_NUM \<equiv> 33"
abbreviation (input) PLIC_BITFIELD_WORDS :: nat where "PLIC_BITFIELD_WORDS \<equiv> 2"
abbreviation (input) PLIC_BASE :: u32 where "PLIC_BASE \<equiv> 0x31100000"
abbreviation (input) PLIC_PRIORITY_BASE :: u32 where "PLIC_PRIORITY_BASE \<equiv> 0"
abbreviation (input) PLIC_PRIORITY_SIZE :: u32 where "PLIC_PRIORITY_SIZE \<equiv> 33 * 4"
abbreviation (input) PLIC_PENDING_BASE :: u32 where "PLIC_PENDING_BASE \<equiv> 0x1000"
abbreviation (input) PLIC_PENDING_SIZE :: u32 where "PLIC_PENDING_SIZE \<equiv> 2 * 4"
abbreviation (input) PLIC_ENABLE_BASE :: u32 where "PLIC_ENABLE_BASE \<equiv> 0x2000"
abbreviation (input) PLIC_ENABLE_SIZE :: u32 where "PLIC_ENABLE_SIZE \<equiv> 2 * 4"
abbreviation (input) PLIC_CONTEXT_BASE :: u32 where "PLIC_CONTEXT_BASE \<equiv> 0x200000"
abbreviation (input) PLIC_CONTEXT_SIZE :: u32 where "PLIC_CONTEXT_SIZE \<equiv> 0x1000"
abbreviation (input) PLIC_CONTEXT_THRESHOLD :: u32 where "PLIC_CONTEXT_THRESHOLD \<equiv> 0"
abbreviation (input) PLIC_CONTEXT_CLAIM :: u32 where "PLIC_CONTEXT_CLAIM \<equiv> 4"
abbreviation (input) PLIC_MAX_PRIORITY :: u32 where "PLIC_MAX_PRIORITY \<equiv> 7"

text \<open>The interrupt lines are signals: the value last driven, or nothing where no source is connected.\<close>

record plic =
  pl_cfg_apb_req_slv :: "apb_req itf"
  pl_cfg_apb_rsp_mst :: "apb_rsp itf"
  pl_div_ext_irq_ins :: "bool option list"
  pl_conv_ext_irq_out :: bool
  pl_priority :: "u32 list"
  pl_pending :: "u32 list"
  pl_claimed :: "u32 list"
  pl_enable :: "u32 list"
  pl_threshold :: u32

section \<open>plic.c\<close>

definition plic_addr_in :: "u32 \<Rightarrow> u32 \<Rightarrow> u32 \<Rightarrow> bool" where
  "plic_addr_in offset base sz \<longleftrightarrow> offset \<ge> base \<and> offset - base < sz"

definition plic_word_mask :: "u32 \<Rightarrow> u32" where
  "plic_word_mask word =
     (if word + 1 < 2 then 0xffffffff
      else let valid_bits = 33 - word * 32 in
        if valid_bits \<ge> 32 then 0xffffffff else push_bit (unat valid_bits) 1 - 1)"

definition plic_source_bit :: "u32 \<Rightarrow> u32" where
  "plic_source_bit source = push_bit (unat (source AND 31)) 1"

definition plic_set_bit :: "u32 list \<Rightarrow> u32 \<Rightarrow> bool \<Rightarrow> u32 list option" where
  "plic_set_bit bits source val = do {
     w \<leftarrow> arr_get bits (unat (drop_bit 5 source));
     arr_put bits (unat (drop_bit 5 source))
       (if val then w OR plic_source_bit source else w AND NOT (plic_source_bit source))
   }"

definition plic_get_bit :: "u32 list \<Rightarrow> u32 \<Rightarrow> bool option" where
  "plic_get_bit bits source = do {
     w \<leftarrow> arr_get bits (unat (drop_bit 5 source));
     Some (w AND plic_source_bit source \<noteq> 0)
   }"

text \<open>The body of the search over the sources, with the best source and priority so far.\<close>

fun plic_best_loop :: "plic \<Rightarrow> u32 list \<Rightarrow> u32 \<Rightarrow> u32 \<Rightarrow> u32 option" where
  "plic_best_loop plic [] best_source best_priority = Some best_source"
| "plic_best_loop plic (source # rest) best_source best_priority = do {
     pending \<leftarrow> plic_get_bit (pl_pending plic) source;
     if \<not> pending then plic_best_loop plic rest best_source best_priority else do {
     claimed \<leftarrow> plic_get_bit (pl_claimed plic) source;
     if claimed then plic_best_loop plic rest best_source best_priority else do {
     enable \<leftarrow> plic_get_bit (pl_enable plic) source;
     if \<not> enable then plic_best_loop plic rest best_source best_priority else do {
     priority \<leftarrow> arr_get (pl_priority plic) (unat source);
     if priority > best_priority then plic_best_loop plic rest source priority
     else plic_best_loop plic rest best_source best_priority }}}
   }"

definition plic_find_best_irq :: "plic \<Rightarrow> u32 option" where
  "plic_find_best_irq plic = plic_best_loop plic (map of_nat [1..<PLIC_SOURCE_NUM]) 0 (pl_threshold plic)"

definition plic_update_irq :: "plic \<Rightarrow> plic option" where
  "plic_update_irq plic = do {
     source \<leftarrow> plic_find_best_irq plic;
     let irq = (source \<noteq> 0);
     Some (if irq \<noteq> pl_conv_ext_irq_out plic then plic\<lparr>pl_conv_ext_irq_out := irq\<rparr> else plic)
   }"

definition plic_claim :: "plic \<Rightarrow> (u32 \<times> plic) option" where
  "plic_claim plic = do {
     source \<leftarrow> plic_find_best_irq plic;
     if source \<noteq> 0 then do {
       pending \<leftarrow> plic_set_bit (pl_pending plic) source False;
       claimed \<leftarrow> plic_set_bit (pl_claimed plic) source True;
       Some (source, plic\<lparr>pl_pending := pending, pl_claimed := claimed\<rparr>)
     } else Some (source, plic)
   }"

definition plic_complete :: "plic \<Rightarrow> u32 \<Rightarrow> plic option" where
  "plic_complete plic source =
     (if source = 0 \<or> source \<ge> 33 then Some plic
      else do {
        claimed \<leftarrow> plic_set_bit (pl_claimed plic) source False;
        Some (plic\<lparr>pl_claimed := claimed\<rparr>)
      })"

definition plic_read :: "plic \<Rightarrow> u32 \<Rightarrow> (u32 \<times> bool \<times> plic) option" where
  "plic_read plic offset =
     (if plic_addr_in offset PLIC_PRIORITY_BASE PLIC_PRIORITY_SIZE then do {
        p \<leftarrow> arr_get (pl_priority plic) (unat (drop_bit 2 (offset - PLIC_PRIORITY_BASE)));
        Some (p, True, plic)
      }
      else if plic_addr_in offset PLIC_PENDING_BASE PLIC_PENDING_SIZE then do {
        let word = drop_bit 2 (offset - PLIC_PENDING_BASE);
        w \<leftarrow> arr_get (pl_pending plic) (unat word);
        Some (w AND plic_word_mask word AND NOT 1, True, plic)
      }
      else if plic_addr_in offset PLIC_ENABLE_BASE PLIC_ENABLE_SIZE then do {
        let word = drop_bit 2 (offset - PLIC_ENABLE_BASE);
        w \<leftarrow> arr_get (pl_enable plic) (unat word);
        Some (w AND plic_word_mask word AND NOT 1, True, plic)
      }
      else if plic_addr_in offset PLIC_CONTEXT_BASE PLIC_CONTEXT_SIZE
        \<and> offset - PLIC_CONTEXT_BASE = PLIC_CONTEXT_THRESHOLD then Some (pl_threshold plic, True, plic)
      else if plic_addr_in offset PLIC_CONTEXT_BASE PLIC_CONTEXT_SIZE
        \<and> offset - PLIC_CONTEXT_BASE = PLIC_CONTEXT_CLAIM then do {
        (source, plic) \<leftarrow> plic_claim plic;
        plic \<leftarrow> plic_update_irq plic;
        Some (source, True, plic)
      }
      else Some (0, False, plic))"

definition plic_write :: "plic \<Rightarrow> u32 \<Rightarrow> u32 \<Rightarrow> (bool \<times> plic) option" where
  "plic_write plic offset val =
     (if plic_addr_in offset PLIC_PRIORITY_BASE PLIC_PRIORITY_SIZE then do {
        let source = drop_bit 2 (offset - PLIC_PRIORITY_BASE);
        plic \<leftarrow> (if source \<noteq> 0 then do {
            p \<leftarrow> arr_put (pl_priority plic) (unat source) (val AND PLIC_MAX_PRIORITY);
            Some (plic\<lparr>pl_priority := p\<rparr>)
          } else Some plic);
        plic \<leftarrow> plic_update_irq plic;
        Some (True, plic)
      }
      else if plic_addr_in offset PLIC_PENDING_BASE PLIC_PENDING_SIZE then Some (True, plic)
      else if plic_addr_in offset PLIC_ENABLE_BASE PLIC_ENABLE_SIZE then do {
        let word = drop_bit 2 (offset - PLIC_ENABLE_BASE);
        e \<leftarrow> arr_put (pl_enable plic) (unat word) (val AND plic_word_mask word AND NOT 1);
        plic \<leftarrow> plic_update_irq (plic\<lparr>pl_enable := e\<rparr>);
        Some (True, plic)
      }
      else if plic_addr_in offset PLIC_CONTEXT_BASE PLIC_CONTEXT_SIZE
        \<and> offset - PLIC_CONTEXT_BASE = PLIC_CONTEXT_THRESHOLD then do {
        plic \<leftarrow> plic_update_irq (plic\<lparr>pl_threshold := val AND PLIC_MAX_PRIORITY\<rparr>);
        Some (True, plic)
      }
      else if plic_addr_in offset PLIC_CONTEXT_BASE PLIC_CONTEXT_SIZE
        \<and> offset - PLIC_CONTEXT_BASE = PLIC_CONTEXT_CLAIM then do {
        plic \<leftarrow> plic_complete plic val;
        plic \<leftarrow> plic_update_irq plic;
        Some (True, plic)
      }
      else Some (False, plic))"

definition plic_apb_proc :: "plic \<Rightarrow> plic option" where
  "plic_apb_proc plic =
     (if itf_fifo_empty (pl_cfg_apb_req_slv plic) then Some plic
      else do {
        (req, t) \<leftarrow> itf_read (pl_cfg_apb_req_slv plic);
        let plic = plic\<lparr>pl_cfg_apb_req_slv := t\<rparr>;
        let offset = aq_paddr req - PLIC_BASE;
        (prdata, ok, plic) \<leftarrow> (if aq_pwrite req
          then do { (ok, plic) \<leftarrow> plic_write plic offset (aq_pwdata req); Some (0, ok, plic) }
          else plic_read plic offset);
        u \<leftarrow> itf_write (pl_cfg_apb_rsp_mst plic) \<lparr>ap_prdata = prdata, ap_pslverr = \<not> ok\<rparr>;
        Some (plic\<lparr>pl_cfg_apb_rsp_mst := u\<rparr>)
      })"

fun plic_sample_loop :: "nat list \<Rightarrow> plic \<Rightarrow> plic option" where
  "plic_sample_loop [] plic = Some plic"
| "plic_sample_loop (i # rest) plic = do {
     line \<leftarrow> arr_get (pl_div_ext_irq_ins plic) i;
     case line of None \<Rightarrow> plic_sample_loop rest plic
     | Some irq \<Rightarrow> do {
         let source = of_nat i + 1;
         claimed \<leftarrow> plic_get_bit (pl_claimed plic) source;
         if irq \<and> \<not> claimed then do {
           pending \<leftarrow> plic_set_bit (pl_pending plic) source True;
           plic_sample_loop rest (plic\<lparr>pl_pending := pending\<rparr>)
         } else plic_sample_loop rest plic
       }
   }"

definition plic_sample_inputs :: "plic \<Rightarrow> plic option" where
  "plic_sample_inputs plic = plic_sample_loop [0..<PLIC_MAX_IRQ_NUM] plic"

definition plic_reset :: "plic \<Rightarrow> plic" where
  "plic_reset plic = plic\<lparr>pl_priority := replicate PLIC_SOURCE_NUM 0, pl_pending := replicate PLIC_BITFIELD_WORDS 0,
     pl_claimed := replicate PLIC_BITFIELD_WORDS 0, pl_enable := replicate PLIC_BITFIELD_WORDS 0, pl_threshold := 0,
     pl_conv_ext_irq_out := False\<rparr>"

definition plic_clock :: "plic \<Rightarrow> plic option" where
  "plic_clock plic = do {
     plic \<leftarrow> plic_apb_proc plic;
     plic \<leftarrow> plic_sample_inputs plic;
     plic_update_irq plic
   }"

section \<open>Bit fields as sets of sources\<close>

definition plic_has :: "u32 list \<Rightarrow> nat \<Rightarrow> bool" where
  "plic_has bits s = bit (bits ! (s div 32)) (s mod 32)"

lemma unat_drop: "unat (drop_bit n (w :: u32)) = unat w div 2 ^ n"
  by (metis unat_drop_bit_eq drop_bit_eq_div)

lemma source_idx:
  assumes "s < 64"
  shows "unat (drop_bit 5 (of_nat s :: u32)) = s div 32" "unat (of_nat s AND 31 :: u32) = s mod 32"
proof -
  have s: "unat (of_nat s :: u32) = s" using assms by (simp add: unat_of_nat)
  then show "unat (drop_bit 5 (of_nat s :: u32)) = s div 32" unfolding unat_drop by simp
  have "(of_nat s AND 31 :: u32) = take_bit 5 (of_nat s)" by (simp add: take_bit_eq_mask mask_eq_exp_minus_1)
  then have "unat (of_nat s AND 31 :: u32) = take_bit 5 (unat (of_nat s :: u32))" by (simp only: unsigned_take_bit_eq)
  with s show "unat (of_nat s AND 31 :: u32) = s mod 32" by (simp add: take_bit_eq_mod)
qed

lemma source_bit: "s < 64 \<Longrightarrow> plic_source_bit (of_nat s) = 2 ^ (s mod 32)"
  by (simp add: plic_source_bit_def source_idx push_bit_of_1)

lemma plic_get_bit_eq: "s < 64 \<Longrightarrow> length bits = PLIC_BITFIELD_WORDS \<Longrightarrow> plic_get_bit bits (of_nat s) = Some (plic_has bits s)"
  by (simp add: plic_get_bit_def source_idx source_bit plic_has_def and_exp_eq_0_iff_not_bit less_mult_imp_div_less)

lemma word_bit_upd:
  fixes w :: u32
  assumes "n < 32" "m < 32"
  shows "bit (w OR 2 ^ n) m = (m = n \<or> bit w m)" "bit (w AND NOT (2 ^ n)) m = (m \<noteq> n \<and> bit w m)"
  using assms by (auto simp: bit_simps)

lemma plic_set_bit_eq:
  assumes s: "s < 64" and len: "length bits = PLIC_BITFIELD_WORDS"
  shows "\<exists>bits'. plic_set_bit bits (of_nat s) v = Some bits' \<and> length bits' = PLIC_BITFIELD_WORDS
    \<and> (\<forall>t<64. plic_has bits' t = (if t = s then v else plic_has bits t))"
proof -
  have i: "s div 32 < length bits" using s len by (simp add: less_mult_imp_div_less)
  let ?w = "bits ! (s div 32)"
  let ?b = "bits[s div 32 := (if v then ?w OR 2 ^ (s mod 32) else ?w AND NOT (2 ^ (s mod 32)))]"
  have "plic_set_bit bits (of_nat s) v = Some ?b" using i s by (simp add: plic_set_bit_def source_idx source_bit)
  moreover have "plic_has ?b t = (if t = s then v else plic_has bits t)" if t: "t < 64" for t
  proof (cases "t div 32 = s div 32")
    case True
    have "(t mod 32 = s mod 32) = (t = s)" using True by (metis div_mult_mod_eq)
    then show ?thesis using True i by (auto simp: plic_has_def word_bit_upd)
  next
    case False
    then have "t \<noteq> s" by auto
    with False i show ?thesis by (simp add: plic_has_def)
  qed
  ultimately show ?thesis using len by auto
qed

section \<open>The source to serve\<close>

definition plic_shape :: "plic \<Rightarrow> bool" where
  "plic_shape p \<longleftrightarrow> length (pl_priority p) = PLIC_SOURCE_NUM \<and> length (pl_pending p) = PLIC_BITFIELD_WORDS
     \<and> length (pl_claimed p) = PLIC_BITFIELD_WORDS \<and> length (pl_enable p) = PLIC_BITFIELD_WORDS
     \<and> length (pl_div_ext_irq_ins p) = PLIC_MAX_IRQ_NUM"

text \<open>A source that may interrupt: pending, enabled, not being served, above the threshold.\<close>

definition plic_cand :: "plic \<Rightarrow> nat \<Rightarrow> bool" where
  "plic_cand p s \<longleftrightarrow> 1 \<le> s \<and> s < PLIC_SOURCE_NUM \<and> plic_has (pl_pending p) s \<and> \<not> plic_has (pl_claimed p) s
     \<and> plic_has (pl_enable p) s \<and> pl_threshold p < pl_priority p ! s"

text \<open>The source to serve: of highest priority, the lowest number among equals; 0 if there is none.\<close>

definition plic_best :: "plic \<Rightarrow> nat \<Rightarrow> bool" where
  "plic_best p b \<longleftrightarrow> (if \<exists>s. plic_cand p s
     then plic_cand p b \<and> (\<forall>s. plic_cand p s \<longrightarrow> pl_priority p ! s < pl_priority p ! b \<or> pl_priority p ! s = pl_priority p ! b \<and> b \<le> s)
     else b = 0)"

definition best_below :: "plic \<Rightarrow> nat \<Rightarrow> nat \<Rightarrow> u32 \<Rightarrow> bool" where
  "best_below p k b bp \<longleftrightarrow>
     b = 0 \<and> bp = pl_threshold p \<and> (\<forall>s<k. \<not> plic_cand p s)
     \<or> plic_cand p b \<and> b < k \<and> bp = pl_priority p ! b
       \<and> (\<forall>s<k. plic_cand p s \<longrightarrow> pl_priority p ! s < bp \<or> pl_priority p ! s = bp \<and> b \<le> s)"

lemma best_below_skip: "best_below p k b bp \<Longrightarrow> \<not> plic_cand p k \<or> \<not> bp < pl_priority p ! k \<Longrightarrow> best_below p (Suc k) b bp"
proof -
  assume b: "best_below p k b bp" and k: "\<not> plic_cand p k \<or> \<not> bp < pl_priority p ! k"
  show ?thesis
  proof (cases "plic_cand p k")
    case False
    with b show ?thesis unfolding best_below_def by (auto simp: less_Suc_eq)
  next
    case True
    with k have "\<not> bp < pl_priority p ! k" by simp
    moreover from True have "pl_threshold p < pl_priority p ! k" by (simp add: plic_cand_def)
    ultimately show ?thesis using b unfolding best_below_def by (auto simp: less_Suc_eq not_less)
  qed
qed

lemma best_below_take: "best_below p k b bp \<Longrightarrow> plic_cand p k \<Longrightarrow> bp < pl_priority p ! k \<Longrightarrow> best_below p (Suc k) k (pl_priority p ! k)"
  unfolding best_below_def by (auto simp: less_Suc_eq)

lemma best_loop_eq:
  assumes sh: "plic_shape p" and k: "1 \<le> k" "k \<le> PLIC_SOURCE_NUM" and b: "best_below p k b bp"
  shows "\<exists>b' bp'. plic_best_loop p (map of_nat [k..<PLIC_SOURCE_NUM]) (of_nat b) bp = Some (of_nat b') \<and> best_below p PLIC_SOURCE_NUM b' bp'"
  using k b
proof (induction "PLIC_SOURCE_NUM - k" arbitrary: k b bp)
  case 0
  then show ?case by auto
next
  case (Suc n)
  then have lt: "k < PLIC_SOURCE_NUM" by simp
  then have k: "k < 64" "unat (of_nat k :: u32) = k" "k < length (pl_priority p)" using sh by (simp_all add: unat_of_nat plic_shape_def)
  note IH = Suc.hyps(1) [of "Suc k"]
  have up: "map of_nat [k..<PLIC_SOURCE_NUM] = of_nat k # map of_nat [Suc k..<PLIC_SOURCE_NUM]" using lt by (simp add: upt_conv_Cons)
  have bits: "plic_get_bit (pl_pending p) (of_nat k) = Some (plic_has (pl_pending p) k)"
    "plic_get_bit (pl_claimed p) (of_nat k) = Some (plic_has (pl_claimed p) k)"
    "plic_get_bit (pl_enable p) (of_nat k) = Some (plic_has (pl_enable p) k)"
    using sh k(1) by (simp_all add: plic_get_bit_eq plic_shape_def)
  let ?c = "plic_has (pl_pending p) k \<and> \<not> plic_has (pl_claimed p) k \<and> plic_has (pl_enable p) k \<and> bp < pl_priority p ! k"
  have step: "plic_best_loop p (map of_nat [k..<PLIC_SOURCE_NUM]) (of_nat b) bp =
    (if ?c then plic_best_loop p (map of_nat [Suc k..<PLIC_SOURCE_NUM]) (of_nat k) (pl_priority p ! k)
     else plic_best_loop p (map of_nat [Suc k..<PLIC_SOURCE_NUM]) (of_nat b) bp)"
    unfolding up using bits k by simp
  have th: "pl_threshold p \<le> bp" using Suc.prems(3) unfolding best_below_def plic_cand_def by auto
  have n: "n = PLIC_SOURCE_NUM - Suc k" using Suc.hyps(2) by simp
  show ?case
  proof (cases ?c)
    case True
    with le_less_trans [OF th] lt Suc.prems(1) have "plic_cand p k" by (simp add: plic_cand_def)
    from best_below_take [OF Suc.prems(3) this] True have "best_below p (Suc k) k (pl_priority p ! k)" by simp
    from IH [OF n _ _ this] lt True step show ?thesis by simp
  next
    case False
    then have "\<not> plic_cand p k \<or> \<not> bp < pl_priority p ! k" by (auto simp: plic_cand_def)
    from best_below_skip [OF Suc.prems(3) this] have "best_below p (Suc k) b bp" .
    from IH [OF n _ _ this] lt show ?thesis unfolding step if_not_P [OF False] by simp
  qed
qed

lemma cand_range: "plic_cand p s \<Longrightarrow> s < PLIC_SOURCE_NUM"
  by (simp add: plic_cand_def)

lemma best_below_all: "best_below p PLIC_SOURCE_NUM b bp \<Longrightarrow> plic_best p b"
  using cand_range [of p] unfolding best_below_def plic_best_def by auto

lemma plic_find_best:
  assumes "plic_shape p"
  shows "\<exists>b. plic_find_best_irq p = Some (of_nat b) \<and> plic_best p b"
proof -
  have "best_below p 1 0 (pl_threshold p)" by (simp add: best_below_def plic_cand_def)
  from best_loop_eq [OF assms _ _ this] best_below_all show ?thesis unfolding plic_find_best_irq_def by fastforce
qed

lemma plic_bestD:
  assumes "plic_best p b"
  shows "b < PLIC_SOURCE_NUM" "b \<noteq> 0 \<longleftrightarrow> (\<exists>s. plic_cand p s)" "(of_nat b = (0 :: u32)) = (b = 0)" "b \<noteq> 0 \<Longrightarrow> plic_cand p b"
proof -
  show r: "b < PLIC_SOURCE_NUM" and e: "b \<noteq> 0 \<longleftrightarrow> (\<exists>s. plic_cand p s)" and "b \<noteq> 0 \<Longrightarrow> plic_cand p b"
    using assms by (auto simp: plic_best_def plic_cand_def split: if_splits)
  from r have "unat (of_nat b :: u32) = b" by (simp add: unat_of_nat)
  then show "(of_nat b = (0 :: u32)) = (b = 0)" by auto
qed

lemma plic_update_irq_eq:
  assumes "plic_shape p"
  shows "plic_update_irq p = Some (p\<lparr>pl_conv_ext_irq_out := (\<exists>s. plic_cand p s)\<rparr>)"
proof -
  from plic_find_best [OF assms] obtain b where b: "plic_find_best_irq p = Some (of_nat b)" "plic_best p b" by blast
  have "(of_nat b \<noteq> (0 :: u32)) = (\<exists>s. plic_cand p s)" using plic_bestD(2,3) [OF b(2)] by simp
  then have "plic_update_irq p = Some (if (\<exists>s. plic_cand p s) \<noteq> pl_conv_ext_irq_out p
      then p\<lparr>pl_conv_ext_irq_out := (\<exists>s. plic_cand p s)\<rparr> else p)" by (simp only: plic_update_irq_def b(1) bind.bind_lunit Let_def)
  then show ?thesis by (cases "\<exists>s. plic_cand p s"; cases "pl_conv_ext_irq_out p") simp_all
qed

lemma plic_claim_eq:
  assumes sh: "plic_shape p"
  shows "\<exists>b pend clm. plic_claim p = Some (of_nat b, p\<lparr>pl_pending := pend, pl_claimed := clm\<rparr>) \<and> plic_best p b
    \<and> length pend = PLIC_BITFIELD_WORDS \<and> length clm = PLIC_BITFIELD_WORDS
    \<and> (\<forall>s<64. plic_has pend s = (plic_has (pl_pending p) s \<and> (s = b \<longrightarrow> b = 0)))
    \<and> (\<forall>s<64. plic_has clm s = (plic_has (pl_claimed p) s \<or> s = b \<and> b \<noteq> 0))"
proof -
  from plic_find_best [OF assms] obtain b where b: "plic_find_best_irq p = Some (of_nat b)" "plic_best p b" by blast
  note bd = plic_bestD [OF b(2)]
  show ?thesis
  proof (cases "b = 0")
    case True
    with b sh have "plic_claim p = Some (of_nat b, p\<lparr>pl_pending := pl_pending p, pl_claimed := pl_claimed p\<rparr>)" by (simp add: plic_claim_def)
    with True b sh show ?thesis unfolding plic_shape_def by blast
  next
    case False
    have len: "length (pl_pending p) = PLIC_BITFIELD_WORDS" "length (pl_claimed p) = PLIC_BITFIELD_WORDS" using sh by (simp_all add: plic_shape_def)
    have b64: "b < 64" using bd(1) by simp
    from plic_set_bit_eq [OF b64 len(1), of False] obtain pend where
      pend: "plic_set_bit (pl_pending p) (of_nat b) False = Some pend" "length pend = PLIC_BITFIELD_WORDS"
        "\<forall>t<64. plic_has pend t = (if t = b then False else plic_has (pl_pending p) t)" by blast
    from plic_set_bit_eq [OF b64 len(2), of True] obtain clm where
      clm: "plic_set_bit (pl_claimed p) (of_nat b) True = Some clm" "length clm = PLIC_BITFIELD_WORDS"
        "\<forall>t<64. plic_has clm t = (if t = b then True else plic_has (pl_claimed p) t)" by blast
    have "plic_claim p = Some (of_nat b, p\<lparr>pl_pending := pend, pl_claimed := clm\<rparr>)"
      using b(1) bd(3) False pend(1) clm(1) by (simp add: plic_claim_def)
    moreover have "\<forall>s<64. plic_has pend s = (plic_has (pl_pending p) s \<and> (s = b \<longrightarrow> b = 0))"
      "\<forall>s<64. plic_has clm s = (plic_has (pl_claimed p) s \<or> s = b \<and> b \<noteq> 0)" using False pend(3) clm(3) by simp_all
    ultimately show ?thesis using b(2) pend(2) clm(2) by blast
  qed
qed

section \<open>Invariant\<close>

text \<open>
  Priorities and the threshold stay in range; no source is pending while it is being served;
  only connected sources are ever pending; the enable bits of source 0 and of source 32 are
  never set.
\<close>

definition plic_regs_ok :: "plic \<Rightarrow> bool" where
  "plic_regs_ok p \<longleftrightarrow> plic_shape p \<and> (\<forall>s<PLIC_SOURCE_NUM. pl_priority p ! s \<le> PLIC_MAX_PRIORITY) \<and> pl_threshold p \<le> PLIC_MAX_PRIORITY
     \<and> (\<forall>s<64. plic_has (pl_pending p) s \<longrightarrow> 1 \<le> s \<and> s < PLIC_SOURCE_NUM \<and> \<not> plic_has (pl_claimed p) s)
     \<and> (\<forall>s<64. plic_has (pl_enable p) s \<longrightarrow> 1 \<le> s \<and> s < 32)"

definition plic_ports :: "plic \<Rightarrow> bool" where
  "plic_ports p \<longleftrightarrow> itf_inv (pl_cfg_apb_req_slv p) \<and> itf_inv (pl_cfg_apb_rsp_mst p)
     \<and> (itf_list (pl_cfg_apb_req_slv p) = [] \<or> (\<exists>q. itf_list (pl_cfg_apb_req_slv p) = [q]) \<and> itf_list (pl_cfg_apb_rsp_mst p) = [])"

definition same_ports :: "plic \<Rightarrow> plic \<Rightarrow> bool" where
  "same_ports p p' \<longleftrightarrow> pl_cfg_apb_req_slv p' = pl_cfg_apb_req_slv p \<and> pl_cfg_apb_rsp_mst p' = pl_cfg_apb_rsp_mst p
     \<and> pl_div_ext_irq_ins p' = pl_div_ext_irq_ins p"

lemma regs_ok_shape: "plic_regs_ok p \<Longrightarrow> plic_shape p"
  by (simp add: plic_regs_ok_def)

lemma update_irq_ok:
  assumes "plic_regs_ok p"
  shows "\<exists>p'. plic_update_irq p = Some p' \<and> plic_regs_ok p' \<and> same_ports p p'"
  using plic_update_irq_eq [OF regs_ok_shape [OF assms]] assms
  by (auto simp: plic_regs_ok_def plic_shape_def same_ports_def)

lemma claim_ok:
  assumes "plic_regs_ok p"
  shows "\<exists>b p'. plic_claim p = Some (of_nat b, p') \<and> plic_regs_ok p' \<and> same_ports p p'"
proof -
  note sh = regs_ok_shape [OF assms]
  from plic_claim_eq [OF sh] obtain b pend clm where
    c: "plic_claim p = Some (of_nat b, p\<lparr>pl_pending := pend, pl_claimed := clm\<rparr>)" and
    l: "length pend = PLIC_BITFIELD_WORDS" "length clm = PLIC_BITFIELD_WORDS"
      "\<forall>s<64. plic_has pend s = (plic_has (pl_pending p) s \<and> (s = b \<longrightarrow> b = 0))"
      "\<forall>s<64. plic_has clm s = (plic_has (pl_claimed p) s \<or> s = b \<and> b \<noteq> 0)" by blast
  have "plic_regs_ok (p\<lparr>pl_pending := pend, pl_claimed := clm\<rparr>)"
    using assms l by (auto simp: plic_regs_ok_def plic_shape_def)
  with c show ?thesis by (auto simp: same_ports_def)
qed

lemma complete_ok:
  assumes "plic_regs_ok p"
  shows "\<exists>p'. plic_complete p val = Some p' \<and> plic_regs_ok p' \<and> same_ports p p'"
proof (cases "val = 0 \<or> val \<ge> 33")
  case True
  with assms show ?thesis by (auto simp: plic_complete_def same_ports_def)
next
  case False
  let ?s = "unat val"
  have s: "?s < 64" using False by (simp add: not_le word_less_nat_alt)
  have "length (pl_claimed p) = PLIC_BITFIELD_WORDS" using assms by (simp add: plic_regs_ok_def plic_shape_def)
  from plic_set_bit_eq [OF s this, of False] obtain clm where
    clm: "plic_set_bit (pl_claimed p) val False = Some clm" "length clm = PLIC_BITFIELD_WORDS"
      "\<forall>t<64. plic_has clm t = (if t = ?s then False else plic_has (pl_claimed p) t)" by auto
  have "plic_regs_ok (p\<lparr>pl_claimed := clm\<rparr>)" using assms clm(2,3) by (auto simp: plic_regs_ok_def plic_shape_def)
  with False clm(1) show ?thesis by (auto simp: plic_complete_def same_ports_def)
qed

lemma word_index:
  "plic_addr_in offset base 132 \<Longrightarrow> unat (drop_bit 2 (offset - base)) < 33"
  "plic_addr_in offset base 8 \<Longrightarrow> unat (drop_bit 2 (offset - base)) < 2"
  by (simp_all only: plic_addr_in_def unat_drop word_less_nat_alt) (simp_all add: less_mult_imp_div_less)

lemma word_01: "unat (w :: u32) < 2 \<Longrightarrow> w = 0 \<or> w = 1"
proof -
  assume "unat w < 2"
  then have "unat w = 0 \<or> unat w = 1" by auto
  then have "unat w = unat (0 :: u32) \<or> unat w = unat (1 :: u32)" by simp
  then show ?thesis unfolding word_unat_eq_iff by blast
qed

lemma enable_bits:
  assumes "unat (w :: u32) < 2" "length en = PLIC_BITFIELD_WORDS" "\<forall>s<64. plic_has en s \<longrightarrow> 1 \<le> s \<and> s < 32"
  shows "\<forall>s<64. plic_has (en[unat w := val AND plic_word_mask w AND NOT 1]) s \<longrightarrow> 1 \<le> s \<and> s < 32"
proof (intro allI impI)
  fix s :: nat assume s: "s < 64" "plic_has (en[unat w := val AND plic_word_mask w AND NOT 1]) s"
  from word_01 [OF assms(1)] show "1 \<le> s \<and> s < 32"
  proof
    assume w: "w = 0"
    show ?thesis
    proof (cases "s < 32")
      case True
      then have "s div 32 = 0" "s mod 32 = s" by simp_all
      with s(2) w assms(2) have "bit (val AND plic_word_mask 0 AND NOT 1) s" by (simp add: plic_has_def)
      then have "s \<noteq> 0" by (auto simp: bit_simps)
      with True show ?thesis by simp
    next
      case False
      with s have "s div 32 = 1" by simp
      with s(2) w have "plic_has en s" by (simp add: plic_has_def)
      with assms(3) s(1) show ?thesis by blast
    qed
  next
    assume w: "w = 1"
    have "plic_word_mask 1 = 1" by code_simp
    then have z: "val AND plic_word_mask 1 AND NOT 1 = 0" by (simp add: and.assoc)
    show ?thesis
    proof (cases "s < 32")
      case True
      then have "s div 32 = 0" by simp
      with s(2) w have "plic_has en s" by (simp add: plic_has_def)
      with assms(3) s(1) show ?thesis by blast
    next
      case False
      with s have "s div 32 = 1" by simp
      with s(2) w assms(2) z show ?thesis by (simp add: plic_has_def)
    qed
  qed
qed

lemma and_7_le: "val AND 7 \<le> (7 :: u32)"
  by (rule word_and_le1)

definition access_ok :: "plic \<Rightarrow> ('a \<times> plic) option \<Rightarrow> bool" where
  "access_ok p x = (case x of None \<Rightarrow> False | Some (r, p') \<Rightarrow> plic_regs_ok p' \<and> same_ports p p')"

definition read_result :: "(u32 \<times> bool \<times> plic) option \<Rightarrow> ((u32 \<times> bool) \<times> plic) option" where
  "read_result x = map_option (\<lambda>(v, r, p). ((v, r), p)) x"

lemma plic_read_ok:
  assumes ok: "plic_regs_ok p"
  shows "access_ok p (read_result (plic_read p offset))"
proof -
  have len: "length (pl_priority p) = 33" "length (pl_pending p) = 2" "length (pl_enable p) = 2"
    using ok by (simp_all add: plic_regs_ok_def plic_shape_def)
  have refl: "same_ports p p" by (simp add: same_ports_def)
  from claim_ok [OF ok] obtain b p1 where c: "plic_claim p = Some (of_nat b, p1)" "plic_regs_ok p1" "same_ports p p1" by blast
  from update_irq_ok [OF c(2)] obtain p2 where u: "plic_update_irq p1 = Some p2" "plic_regs_ok p2" "same_ports p1 p2" by blast
  have far: "\<not> plic_addr_in 0x200004 0 132" "\<not> plic_addr_in 0x200000 0 132" by (simp_all add: plic_addr_in_def)
  have p2: "same_ports p p2" using c(3) u(3) by (simp add: same_ports_def)
  show ?thesis
    unfolding plic_read_def Let_def using ok refl c(1) u(1,2) p2 word_index(2) [of offset] word_index(1) [of offset 0] far len
    by (simp add: access_ok_def read_result_def)
qed

lemma plic_write_ok:
  assumes ok: "plic_regs_ok p"
  shows "access_ok p (plic_write p offset val)"
proof -
  have refl: "same_ports p p" by (simp add: same_ports_def)
  have upd: "access_ok p (do { plic \<leftarrow> plic_update_irq q; Some (True, plic) })" if "plic_regs_ok q" "same_ports p q" for q
    using update_irq_ok [OF that(1)] that(2) by (auto simp: same_ports_def access_ok_def)
  have noop: "access_ok p (Some (r, p))" for r :: bool using ok refl by (simp add: access_ok_def)
  have len: "length (pl_priority p) = 33" "length (pl_enable p) = 2"
    and en: "\<forall>s<64. plic_has (pl_enable p) s \<longrightarrow> 1 \<le> s \<and> s < 32" using ok by (simp_all add: plic_regs_ok_def plic_shape_def)
  let ?s = "drop_bit 2 (offset - PLIC_PRIORITY_BASE)" and ?w = "drop_bit 2 (offset - PLIC_ENABLE_BASE)"
  let ?prio = "p\<lparr>pl_priority := (pl_priority p)[unat ?s := val AND PLIC_MAX_PRIORITY]\<rparr>"
  let ?thr = "p\<lparr>pl_threshold := val AND PLIC_MAX_PRIORITY\<rparr>"
  let ?en = "p\<lparr>pl_enable := (pl_enable p)[unat ?w := val AND plic_word_mask ?w AND NOT 1]\<rparr>"
  have prio: "plic_regs_ok ?prio" "same_ports p ?prio" if "unat ?s < 33"
    using ok and_7_le [of val] that by (auto simp: plic_regs_ok_def plic_shape_def nth_list_update same_ports_def)
  have thr: "plic_regs_ok ?thr" "same_ports p ?thr" using ok and_7_le [of val] by (auto simp: plic_regs_ok_def plic_shape_def same_ports_def)
  have enable: "plic_regs_ok ?en" "same_ports p ?en" if "unat ?w < 2"
    using ok enable_bits [OF that len(2) en, of val] by (simp_all add: plic_regs_ok_def plic_shape_def same_ports_def)
  from complete_ok [OF ok] obtain c where c: "plic_complete p val = Some c" "plic_regs_ok c" "same_ports p c" by blast
  have idx: "plic_addr_in offset 0 132 \<Longrightarrow> unat (drop_bit 2 (offset - 0)) < 33" "plic_addr_in offset 0x2000 8 \<Longrightarrow> unat (drop_bit 2 (offset - 0x2000)) < 2"
    by (rule word_index, assumption)+
  show ?thesis
    unfolding plic_write_def Let_def
    using idx len upd [OF prio] upd [OF ok refl] upd [OF thr] upd [OF enable] upd [OF c(2,3)] c(1) noop by simp
qed

lemma apb_ok:
  assumes ok: "plic_regs_ok p" "plic_ports p"
  shows "\<exists>p'. plic_apb_proc p = Some p' \<and> plic_regs_ok p' \<and> plic_ports p' \<and> pl_div_ext_irq_ins p' = pl_div_ext_irq_ins p"
proof (cases "itf_list (pl_cfg_apb_req_slv p) = []")
  case True
  with ok itf.is_empty_iff [of "pl_cfg_apb_req_slv p"] show ?thesis by (auto simp: plic_apb_proc_def plic_ports_def)
next
  case False
  with ok obtain q where q: "itf_list (pl_cfg_apb_req_slv p) = [q]" "itf_list (pl_cfg_apb_rsp_mst p) = []"
    and i: "itf_inv (pl_cfg_apb_req_slv p)" "itf_inv (pl_cfg_apb_rsp_mst p)" by (auto simp: plic_ports_def)
  from itf.pop_Cons [OF i(1) q(1)] obtain t where t: "itf_read (pl_cfg_apb_req_slv p) = Some (q, t)" "itf_inv t" "itf_list t = []" by blast
  let ?p = "p\<lparr>pl_cfg_apb_req_slv := t\<rparr>" and ?o = "aq_paddr q - PLIC_BASE"
  have p: "plic_regs_ok ?p" using ok(1) by (simp add: plic_regs_ok_def plic_shape_def)
  let ?x = "if aq_pwrite q then do { (ok, plic) \<leftarrow> plic_write ?p ?o (aq_pwdata q); Some (0, ok, plic) } else plic_read ?p ?o"
  from plic_read_ok [OF p, of ?o] plic_write_ok [OF p, of ?o "aq_pwdata q"] obtain v r p1 where
    x: "?x = Some (v, r, p1)" "plic_regs_ok p1" "same_ports ?p p1"
    by (cases "aq_pwrite q") (auto simp: access_ok_def read_result_def split: option.splits)
  have rm: "pl_cfg_apb_rsp_mst p1 = pl_cfg_apb_rsp_mst p" using x(3) by (simp add: same_ports_def)
  have "\<not> itf_fifo_full (pl_cfg_apb_rsp_mst p)" using itf.is_full_iff [OF i(2)] q(2) i(2) by (auto simp: itf_inv_def ring_inv_def)
  from itf.push_ok [OF i(2) this, of "\<lparr>ap_prdata = v, ap_pslverr = \<not> r\<rparr>"] obtain u where
    u: "itf_write (pl_cfg_apb_rsp_mst p) \<lparr>ap_prdata = v, ap_pslverr = \<not> r\<rparr> = Some u" "itf_inv u" by blast
  have "\<not> itf_fifo_empty (pl_cfg_apb_req_slv p)" using itf.is_empty_iff [OF i(1)] q(1) by simp
  with t(1) x(1) u(1) rm have "plic_apb_proc p = Some (p1\<lparr>pl_cfg_apb_rsp_mst := u\<rparr>)"
    by (simp add: plic_apb_proc_def Let_def)
  moreover have "plic_regs_ok (p1\<lparr>pl_cfg_apb_rsp_mst := u\<rparr>)" using x(2) by (simp add: plic_regs_ok_def plic_shape_def)
  moreover have "plic_ports (p1\<lparr>pl_cfg_apb_rsp_mst := u\<rparr>)" using x(3) t u(2) by (simp add: plic_ports_def same_ports_def)
  ultimately show ?thesis using x(3) by (simp add: same_ports_def)
qed

lemma sample_loop_ok:
  assumes "\<forall>i\<in>set is. i < PLIC_MAX_IRQ_NUM" "plic_regs_ok p"
  shows "\<exists>p'. plic_sample_loop is p = Some p' \<and> plic_regs_ok p' \<and> same_ports p p'"
  using assms
proof (induction "is" arbitrary: p)
  case Nil
  then show ?case by (simp add: same_ports_def)
next
  case (Cons i rest)
  then have i: "i < length (pl_div_ext_irq_ins p)" "Suc i < 64" and len: "length (pl_claimed p) = 2" "length (pl_pending p) = 2"
    by (auto simp: plic_regs_ok_def plic_shape_def)
  have g: "plic_get_bit (pl_claimed p) (of_nat i + 1) = Some (plic_has (pl_claimed p) (Suc i))"
    using plic_get_bit_eq [OF i(2) len(1)] by (simp add: add.commute)
  from plic_set_bit_eq [OF i(2) len(2), of True] obtain pend where
    pend: "plic_set_bit (pl_pending p) (of_nat i + 1) True = Some pend" "length pend = 2"
      "\<forall>t<64. plic_has pend t = (if t = Suc i then True else plic_has (pl_pending p) t)" by (auto simp: add.commute)
  note IH = Cons.IH [OF _ Cons.prems(2)] and IH' = Cons.IH [of "p\<lparr>pl_pending := pend\<rparr>"]
  have "plic_regs_ok (p\<lparr>pl_pending := pend\<rparr>)" if "\<not> plic_has (pl_claimed p) (Suc i)"
    using Cons.prems pend(2,3) that by (auto simp: plic_regs_ok_def plic_shape_def)
  with IH IH' Cons.prems(1) i g pend(1) show ?case
    by (cases "pl_div_ext_irq_ins p ! i") (auto simp: Let_def same_ports_def)
qed

lemma plic_clock_ok:
  assumes "plic_regs_ok p" "plic_ports p"
  shows "\<exists>p'. plic_clock p = Some p' \<and> plic_regs_ok p' \<and> plic_ports p' \<and> pl_conv_ext_irq_out p' = (\<exists>s. plic_cand p' s)"
proof -
  from apb_ok [OF assms] obtain p1 where p1: "plic_apb_proc p = Some p1" "plic_regs_ok p1" "plic_ports p1" by blast
  from sample_loop_ok [OF _ p1(2), of "[0..<PLIC_MAX_IRQ_NUM]"] obtain p2 where
    p2: "plic_sample_inputs p1 = Some p2" "plic_regs_ok p2" "same_ports p1 p2" unfolding plic_sample_inputs_def by auto
  let ?p3 = "p2\<lparr>pl_conv_ext_irq_out := (\<exists>s. plic_cand p2 s)\<rparr>"
  have "plic_clock p = Some ?p3" using p1(1) p2(1) plic_update_irq_eq [OF regs_ok_shape [OF p2(2)]] by (simp add: plic_clock_def)
  moreover have "plic_regs_ok ?p3" "plic_ports ?p3" using p2(2,3) p1(3) by (simp_all add: plic_regs_ok_def plic_shape_def plic_ports_def same_ports_def)
  moreover have "plic_cand ?p3 = plic_cand p2" by (simp add: fun_eq_iff plic_cand_def)
  ultimately show ?thesis by simp
qed

section \<open>Runs\<close>

text \<open>The controller on its bus, whose master has one transfer under way at a time, with interrupt lines that change at will.\<close>

inductive plic_run :: "plic \<Rightarrow> plic \<Rightarrow> bool" for p0 where
  start: "plic_run p0 p0"
| tick: "plic_run p0 p \<Longrightarrow> plic_clock p = Some p' \<Longrightarrow> plic_run p0 p'"
| apb_send: "plic_run p0 p \<Longrightarrow> itf_fifo_empty (pl_cfg_apb_req_slv p) \<Longrightarrow> itf_fifo_empty (pl_cfg_apb_rsp_mst p)
    \<Longrightarrow> itf_write (pl_cfg_apb_req_slv p) q = Some t \<Longrightarrow> plic_run p0 (p\<lparr>pl_cfg_apb_req_slv := t\<rparr>)"
| apb_recv: "plic_run p0 p \<Longrightarrow> itf_read (pl_cfg_apb_rsp_mst p) = Some (r, u) \<Longrightarrow> plic_run p0 (p\<lparr>pl_cfg_apb_rsp_mst := u\<rparr>)"
| lines_change: "plic_run p0 p \<Longrightarrow> length ls = PLIC_MAX_IRQ_NUM \<Longrightarrow> plic_run p0 (p\<lparr>pl_div_ext_irq_ins := ls\<rparr>)"

definition plic_built :: "plic \<Rightarrow> bool" where
  "plic_built p \<longleftrightarrow> itf_inv (pl_cfg_apb_req_slv p) \<and> itf_inv (pl_cfg_apb_rsp_mst p)
     \<and> itf_list (pl_cfg_apb_req_slv p) = [] \<and> itf_list (pl_cfg_apb_rsp_mst p) = [] \<and> length (pl_div_ext_irq_ins p) = PLIC_MAX_IRQ_NUM"

lemma plic_reset_ok: "plic_built p \<Longrightarrow> plic_regs_ok (plic_reset p) \<and> plic_ports (plic_reset p)"
proof -
  have "\<not> plic_has (replicate 2 0) s" if "s < 64" for s
  proof -
    have "s div 32 < 2" using that by (simp add: less_mult_imp_div_less)
    then show ?thesis by (simp add: plic_has_def)
  qed
  then show "plic_built p \<Longrightarrow> ?thesis"
    by (auto simp: plic_built_def plic_reset_def plic_regs_ok_def plic_shape_def plic_ports_def)
qed

lemma plic_run_ok:
  assumes "plic_run (plic_reset p0) p" "plic_built p0"
  shows "plic_regs_ok p \<and> plic_ports p"
  using assms(1)
proof (induction rule: plic_run.induct)
  case start
  show ?case by (rule plic_reset_ok [OF assms(2)])
next
  case (tick p p')
  with plic_clock_ok [of p] show ?case by auto
next
  case (apb_send p q t)
  note i = apb_send.IH [unfolded plic_ports_def]
  from apb_send.hyps(2,3) i have "itf_list (pl_cfg_apb_req_slv p) = []" "itf_list (pl_cfg_apb_rsp_mst p) = []"
    using itf.is_empty_iff by auto
  with apb_send.IH itf.push_SomeD [OF apb_send.hyps(4)] i show ?case
    by (simp add: plic_regs_ok_def plic_shape_def plic_ports_def)
next
  case (apb_recv p r u)
  with itf.pop_SomeD [OF apb_recv.hyps(2)] show ?case
    by (auto simp: plic_regs_ok_def plic_shape_def plic_ports_def)
next
  case (lines_change p ls)
  then show ?case by (simp add: plic_regs_ok_def plic_shape_def plic_ports_def)
qed

section \<open>Properties\<close>

text \<open>
  C25. Reading the claim register of a controller in any state reached from reset returns the
  source to serve: the pending, enabled, unserved source above the threshold of highest
  priority, the lowest number among equals, and 0 if there is none. That source stops being
  pending and is marked as served, no other source changes, and the line to the hart tells
  afterwards whether another source is left.
\<close>

theorem plic_claim_correct:
  assumes "plic_built p0" "plic_run (plic_reset p0) p"
  shows "\<exists>b p'. plic_read p (PLIC_CONTEXT_BASE + PLIC_CONTEXT_CLAIM) = Some (of_nat b, True, p') \<and> plic_best p b
    \<and> (\<forall>s<PLIC_SOURCE_NUM. plic_has (pl_pending p') s = (plic_has (pl_pending p) s \<and> s \<noteq> b)
        \<and> plic_has (pl_claimed p') s = (plic_has (pl_claimed p) s \<or> s = b \<and> b \<noteq> 0))
    \<and> pl_conv_ext_irq_out p' = (\<exists>s. plic_cand p' s)"
proof -
  from plic_run_ok [OF assms(2,1)] have ok: "plic_regs_ok p" by simp
  note sh = regs_ok_shape [OF ok]
  from plic_claim_eq [OF sh] obtain b pend clm where
    c: "plic_claim p = Some (of_nat b, p\<lparr>pl_pending := pend, pl_claimed := clm\<rparr>)" "plic_best p b"
    and l: "length pend = PLIC_BITFIELD_WORDS" "length clm = PLIC_BITFIELD_WORDS"
      "\<forall>s<64. plic_has pend s = (plic_has (pl_pending p) s \<and> (s = b \<longrightarrow> b = 0))"
      "\<forall>s<64. plic_has clm s = (plic_has (pl_claimed p) s \<or> s = b \<and> b \<noteq> 0)" by blast
  let ?q = "p\<lparr>pl_pending := pend, pl_claimed := clm\<rparr>"
  let ?p' = "?q\<lparr>pl_conv_ext_irq_out := (\<exists>s. plic_cand ?q s)\<rparr>"
  have "plic_shape ?q" using sh l by (simp add: plic_shape_def)
  note u = plic_update_irq_eq [OF this]
  have "plic_read p (PLIC_CONTEXT_BASE + PLIC_CONTEXT_CLAIM) = Some (of_nat b, True, ?p')"
    using c(1) u by (simp add: plic_read_def plic_addr_in_def)
  moreover have "plic_has (pl_pending p) 0 \<longrightarrow> 1 \<le> (0 :: nat)" using ok unfolding plic_regs_ok_def by (elim conjE allE [where x = 0]) simp
  then have "\<not> plic_has (pl_pending p) 0" by simp
  with l(3,4) have "\<forall>s<PLIC_SOURCE_NUM. plic_has (pl_pending ?p') s = (plic_has (pl_pending p) s \<and> s \<noteq> b)
        \<and> plic_has (pl_claimed ?p') s = (plic_has (pl_claimed p) s \<or> s = b \<and> b \<noteq> 0)" by (auto intro: gr0I)
  moreover have "plic_cand ?p' = plic_cand ?q" by (simp add: fun_eq_iff plic_cand_def)
  ultimately show ?thesis using c(2) by force
qed

text \<open>
  C26. In every run from reset no tick fails an assertion or leaves an array, whatever address
  and value software writes; after the tick the line to the hart is up exactly if there is a
  source to serve, and no source is pending while it is being served.
\<close>

theorem plic_tick_safe:
  assumes "plic_built p0" "plic_run (plic_reset p0) p"
  shows "\<exists>p'. plic_clock p = Some p' \<and> pl_conv_ext_irq_out p' = (\<exists>s. plic_cand p' s)
    \<and> (\<forall>s<PLIC_SOURCE_NUM. \<not> (plic_has (pl_pending p') s \<and> plic_has (pl_claimed p') s))"
proof -
  from plic_run_ok [OF assms(2,1)] plic_clock_ok [of p] obtain p' where
    p': "plic_clock p = Some p'" "plic_regs_ok p'" "pl_conv_ext_irq_out p' = (\<exists>s. plic_cand p' s)" by blast
  then show ?thesis by (auto simp: plic_regs_ok_def)
qed

text \<open>
  C29. The last of the 32 interrupt lines can never interrupt the hart: in no run from reset
  does source 32 become a source to serve, whatever software writes and whatever the line does.
  The mask that keeps source 0 disabled clears the lowest bit of both enable words, and the
  lowest bit of the second word is the enable bit of source 32.
\<close>

theorem plic_source_32_dead:
  assumes "plic_built p0" "plic_run (plic_reset p0) p"
  shows "\<not> plic_cand p 32 \<and> plic_find_best_irq p \<noteq> Some 32"
proof -
  from plic_run_ok [OF assms(2,1)] have ok: "plic_regs_ok p" by simp
  then have "plic_has (pl_enable p) 32 \<longrightarrow> 32 < (32 :: nat)" unfolding plic_regs_ok_def by (elim conjE allE [where x = 32]) simp
  then have "\<not> plic_has (pl_enable p) 32" by simp
  then have n: "\<not> plic_cand p 32" by (simp add: plic_cand_def)
  from plic_find_best [OF regs_ok_shape [OF ok]] obtain b where b: "plic_find_best_irq p = Some (of_nat b)" "plic_best p b" by blast
  have "b \<noteq> 32"
  proof
    assume "b = 32"
    with plic_bestD(4) [OF b(2)] n show False by simp
  qed
  moreover have "unat (of_nat b :: u32) = b" using plic_bestD(1) [OF b(2)] by (simp add: unat_of_nat)
  ultimately have "of_nat b \<noteq> (32 :: u32)" by auto
  with b(1) n show ?thesis by simp
qed

text \<open>A run in which source 3 rises, enabled with priority 5, and one in which source 32 rises with the highest priority after software has set its enable bit.\<close>

definition plic_sample :: plic where
  "plic_sample = \<lparr>pl_cfg_apb_req_slv = fifo_itf_construct 1, pl_cfg_apb_rsp_mst = fifo_itf_construct 1,
     pl_div_ext_irq_ins = replicate 32 (Some False), pl_conv_ext_irq_out = False, pl_priority = [], pl_pending = [], pl_claimed = [],
     pl_enable = [], pl_threshold = 0\<rparr>"

definition plic_apb_write :: "u32 \<Rightarrow> u32 \<Rightarrow> plic \<Rightarrow> plic option" where
  "plic_apb_write offset val p = do {
     DBG_CHECK (itf_fifo_empty (pl_cfg_apb_req_slv p) \<and> itf_fifo_empty (pl_cfg_apb_rsp_mst p));
     t \<leftarrow> itf_write (pl_cfg_apb_req_slv p) \<lparr>aq_paddr = PLIC_BASE + offset, aq_pwrite = True, aq_pwdata = val, aq_pstrb = 15\<rparr>;
     p \<leftarrow> plic_clock (p\<lparr>pl_cfg_apb_req_slv := t\<rparr>);
     (r, u) \<leftarrow> itf_read (pl_cfg_apb_rsp_mst p);
     Some (p\<lparr>pl_cfg_apb_rsp_mst := u\<rparr>)
   }"

lemma plic_apb_write_run:
  assumes r: "plic_run p0 p" and w: "plic_apb_write offset val p = Some p'"
  shows "plic_run p0 p'"
proof -
  let ?q = "\<lparr>aq_paddr = PLIC_BASE + offset, aq_pwrite = True, aq_pwdata = val, aq_pstrb = 15\<rparr>"
  have e: "itf_fifo_empty (pl_cfg_apb_req_slv p)" "itf_fifo_empty (pl_cfg_apb_rsp_mst p)"
    using w by (simp_all add: plic_apb_write_def split: if_splits)
  with w obtain t q x u where t: "itf_write (pl_cfg_apb_req_slv p) ?q = Some t" and q: "plic_clock (p\<lparr>pl_cfg_apb_req_slv := t\<rparr>) = Some q"
    and x: "itf_read (pl_cfg_apb_rsp_mst q) = Some (x, u)" "p' = q\<lparr>pl_cfg_apb_rsp_mst := u\<rparr>"
    unfolding plic_apb_write_def by (auto dest!: bind_SomeD)
  from plic_run.apb_recv [OF plic_run.tick [OF plic_run.apb_send [OF r e t] q] x(1)] x(2) show ?thesis by simp
qed

definition plic_script :: "bool option list \<Rightarrow> (u32 \<times> u32) list \<Rightarrow> plic option" where
  "plic_script ls ws = Option.bind (foldl (\<lambda>x (offset, val). Option.bind x (plic_apb_write offset val)) (Some (plic_reset plic_sample)) ws)
     (\<lambda>p. plic_clock (p\<lparr>pl_div_ext_irq_ins := ls\<rparr>))"

lemma plic_writes_run:
  "plic_run p0 p \<Longrightarrow> foldl (\<lambda>x (offset, val). Option.bind x (plic_apb_write offset val)) (Some p) ws = Some p' \<Longrightarrow> plic_run p0 p'"
proof (induction ws arbitrary: p)
  case (Cons w ws)
  obtain offset val where w: "w = (offset, val)" by (cases w)
  have none: "foldl (\<lambda>x (offset, val). Option.bind x (plic_apb_write offset val)) None ws = None" by (induction ws) auto
  show ?case
  proof (cases "plic_apb_write offset val p")
    case None
    with Cons.prems(2) w none show ?thesis by simp
  next
    case (Some q)
    with Cons.IH [OF plic_apb_write_run [OF Cons.prems(1) Some]] Cons.prems(2) w show ?thesis by simp
  qed
qed simp

lemma plic_script_run: "plic_script ls ws = Some p \<Longrightarrow> length ls = PLIC_MAX_IRQ_NUM \<Longrightarrow> plic_run (plic_reset plic_sample) p"
  unfolding plic_script_def bind_eq_Some_conv
  by (elim exE conjE) (rule plic_run.tick, rule plic_run.lines_change, rule plic_writes_run, rule plic_run.start)

lemma plic_sample_built: "plic_built plic_sample"
  by (simp add: plic_built_def plic_sample_def del: One_nat_def)

definition plic_one :: "plic option" where
  "plic_one = plic_script ((replicate 32 (Some False))[2 := Some True]) [(12, 5), (0x2000, 0xffffffff)]"

definition plic_last :: "plic option" where
  "plic_last = plic_script ((replicate 32 (Some False))[31 := Some True]) [(128, 7), (0x2004, 0xffffffff)]"

theorem plic_claim_correct_witness:
  "\<exists>p b p'. plic_one = Some p \<and> b = 3 \<and> plic_read p 0x200004 = Some (of_nat b, True, p') \<and> plic_best p b \<and> plic_has (pl_claimed p') 3"
proof -
  have "case plic_one of None \<Rightarrow> False | Some p \<Rightarrow> map_option fst (plic_read p 0x200004) = Some 3" by code_simp
  then obtain p where p: "plic_one = Some p" "map_option fst (plic_read p 0x200004) = Some 3" by (auto split: option.splits)
  from plic_claim_correct [OF plic_sample_built plic_script_run [OF p(1) [unfolded plic_one_def]]] obtain b p' where
    r: "plic_read p 0x200004 = Some (of_nat b, True, p')" "plic_best p b"
      "\<forall>s<PLIC_SOURCE_NUM. plic_has (pl_pending p') s = (plic_has (pl_pending p) s \<and> s \<noteq> b)
        \<and> plic_has (pl_claimed p') s = (plic_has (pl_claimed p) s \<or> s = b \<and> b \<noteq> 0)" by auto
  from r(1) p(2) have "(of_nat b :: u32) = 3" by simp
  then have "unat (of_nat b :: u32) = 3" by simp
  then have "b = 3" using plic_bestD(1) [OF r(2)] by (simp add: unat_of_nat)
  with p(1) r show ?thesis by auto
qed

theorem plic_tick_safe_witness:
  "\<exists>p p'. plic_one = Some p \<and> plic_clock p = Some p' \<and> pl_conv_ext_irq_out p' = (\<exists>s. plic_cand p' s) \<and> pl_conv_ext_irq_out p'"
proof -
  have "case plic_one of None \<Rightarrow> False | Some p \<Rightarrow> map_option pl_conv_ext_irq_out (plic_clock p) = Some True" by code_simp
  then obtain p where p: "plic_one = Some p" "map_option pl_conv_ext_irq_out (plic_clock p) = Some True" by (auto split: option.splits)
  from plic_tick_safe [OF plic_sample_built plic_script_run [OF p(1) [unfolded plic_one_def]]] p show ?thesis by auto
qed

theorem plic_source_32_dead_witness:
  "\<exists>p. plic_last = Some p \<and> plic_has (pl_pending p) 32 \<and> pl_priority p ! 32 = 7 \<and> plic_find_best_irq p = Some 0 \<and> \<not> plic_cand p 32"
proof -
  have "case plic_last of None \<Rightarrow> False
    | Some p \<Rightarrow> plic_has (pl_pending p) 32 \<and> pl_priority p ! 32 = 7 \<and> plic_find_best_irq p = Some 0" by code_simp
  then obtain p where p: "plic_last = Some p" "plic_has (pl_pending p) 32 \<and> pl_priority p ! 32 = 7 \<and> plic_find_best_irq p = Some 0"
    by (auto split: option.splits)
  from plic_source_32_dead [OF plic_sample_built plic_script_run [OF p(1) [unfolded plic_last_def]]] p show ?thesis by (intro exI [of _ p]) simp
qed

end
