(* ===== verification/Aclint.thy ===== *)
theory Aclint
  imports Fifo ApbPackets
begin

text \<open>
  The timer and software interrupt controller (\<^verbatim>\<open>core/aclint.c\<close>): a 64-bit timer that software
  can set, a compare value per hart that raises the machine timer interrupt, and the registers
  that raise machine and supervisor software interrupts.
\<close>

section \<open>State\<close>

abbreviation (input) HART_NUM :: nat where "HART_NUM \<equiv> 1"

record aclint_conf =
  mtimer_base :: u32
  mtimer_size :: u32
  mtimecmp_base :: u32
  mtimecmp_size :: u32
  mswi_base :: u32
  mswi_size :: u32
  sswi_base :: u32
  sswi_size :: u32
  mtimer_tick_cycles :: u32

record core_m_irq =
  mi_mtimer :: bool
  mi_msw :: bool

record aclint =
  al_cfg_apb_req_slv :: "apb_req itf"
  al_cfg_apb_rsp_mst :: "apb_rsp itf"
  al_core_timer_out :: u64
  al_core_m_irq_outs :: "core_m_irq list"
  al_core_s_irq_msts :: "bool itf list"
  al_core_swi_pend_ins :: "bool list"
  al_conf :: aclint_conf
  al_mtime_cycle_cnt :: u32
  al_mtime :: u64
  al_mtimecmp :: "u64 list"
  al_mtime_exceed_old :: "bool list"

text \<open>The halves of the union \<^verbatim>\<open>aclint_reg64_t\<close>.\<close>

definition reg_lo :: "u64 \<Rightarrow> u32" where "reg_lo raw = ucast raw"
definition reg_hi :: "u64 \<Rightarrow> u32" where "reg_hi raw = ucast (drop_bit 32 raw)"
definition set_reg_lo :: "u64 \<Rightarrow> u32 \<Rightarrow> u64" where "set_reg_lo raw v = push_bit 32 (drop_bit 32 raw) OR ucast v"
definition set_reg_hi :: "u64 \<Rightarrow> u32 \<Rightarrow> u64" where "set_reg_hi raw v = push_bit 32 (ucast v) OR take_bit 32 raw"

section \<open>aclint.c\<close>

definition aclint_write_core_timer :: "aclint \<Rightarrow> u64 \<Rightarrow> aclint" where
  "aclint_write_core_timer aclint time = aclint\<lparr>al_core_timer_out := time\<rparr>"

definition aclint_read_core_m_irq :: "aclint \<Rightarrow> nat \<Rightarrow> core_m_irq option" where
  "aclint_read_core_m_irq aclint hart_id = do {
     DBG_CHECK (hart_id < HART_NUM);
     arr_get (al_core_m_irq_outs aclint) hart_id
   }"

definition aclint_write_core_m_irq :: "aclint \<Rightarrow> nat \<Rightarrow> core_m_irq \<Rightarrow> aclint option" where
  "aclint_write_core_m_irq aclint hart_id irq = do {
     DBG_CHECK (hart_id < HART_NUM);
     outs \<leftarrow> arr_put (al_core_m_irq_outs aclint) hart_id irq;
     Some (aclint\<lparr>al_core_m_irq_outs := outs\<rparr>)
   }"

definition aclint_read_core_swi_pend :: "aclint \<Rightarrow> nat \<Rightarrow> bool option" where
  "aclint_read_core_swi_pend aclint hart_id = do {
     DBG_CHECK (hart_id < HART_NUM);
     arr_get (al_core_swi_pend_ins aclint) hart_id
   }"

fun aclint_reset_loop :: "nat list \<Rightarrow> aclint \<Rightarrow> aclint option" where
  "aclint_reset_loop [] aclint = Some aclint"
| "aclint_reset_loop (i # rest) aclint = do {
     cmp \<leftarrow> arr_put (al_mtimecmp aclint) i 0xffffffffffffffff;
     old \<leftarrow> arr_put (al_mtime_exceed_old aclint) i False;
     aclint \<leftarrow> aclint_write_core_m_irq (aclint\<lparr>al_mtimecmp := cmp, al_mtime_exceed_old := old\<rparr>) i \<lparr>mi_mtimer = False, mi_msw = False\<rparr>;
     aclint_reset_loop rest aclint
   }"

definition aclint_reset :: "aclint \<Rightarrow> aclint option" where
  "aclint_reset aclint = aclint_reset_loop [0..<HART_NUM]
     (aclint_write_core_timer (aclint\<lparr>al_mtime := 0, al_mtime_cycle_cnt := 0\<rparr>) 0)"

definition timer_proc :: "aclint \<Rightarrow> aclint" where
  "timer_proc aclint = (
     let aclint = aclint\<lparr>al_mtime_cycle_cnt := al_mtime_cycle_cnt aclint + 1\<rparr> in
     if al_mtime_cycle_cnt aclint = mtimer_tick_cycles (al_conf aclint) then
       let aclint = aclint\<lparr>al_mtime_cycle_cnt := 0, al_mtime := al_mtime aclint + 1\<rparr> in
       aclint_write_core_timer aclint (al_mtime aclint)
     else aclint)"

definition gen_write_mask :: "u8 \<Rightarrow> u32" where
  "gen_write_mask strb = foldl (\<lambda>mask i. if strb AND push_bit i 1 \<noteq> 0 then mask OR push_bit (i * 8) 0xff else mask) 0 [0..<4]"

text \<open>The pair is the register and the value after the access.\<close>

definition reg32_rw :: "u32 \<Rightarrow> u32 \<Rightarrow> bool \<Rightarrow> u8 \<Rightarrow> u32 \<times> u32" where
  "reg32_rw reg val write strb =
     (if write then let mask = gen_write_mask strb in ((reg AND NOT mask) OR (val AND mask), val)
      else (reg, reg))"

definition mtime_reg_rw :: "aclint \<Rightarrow> u32 \<Rightarrow> u32 \<Rightarrow> bool \<Rightarrow> u8 \<Rightarrow> bool \<times> u32 \<times> aclint" where
  "mtime_reg_rw aclint addr val write strb =
     (if addr = 0 then let (reg, val) = reg32_rw (reg_lo (al_mtime aclint)) val write strb
        in (True, val, aclint\<lparr>al_mtime := set_reg_lo (al_mtime aclint) reg\<rparr>)
      else if addr = 4 then let (reg, val) = reg32_rw (reg_hi (al_mtime aclint)) val write strb
        in (True, val, aclint\<lparr>al_mtime := set_reg_hi (al_mtime aclint) reg\<rparr>)
      else (False, val, aclint))"

fun mtimecmp_loop :: "nat list \<Rightarrow> aclint \<Rightarrow> u32 \<Rightarrow> u32 \<Rightarrow> bool \<Rightarrow> u8 \<Rightarrow> (bool \<times> u32 \<times> aclint) option" where
  "mtimecmp_loop [] aclint addr val write strb = Some (False, val, aclint)"
| "mtimecmp_loop (i # rest) aclint addr val write strb =
     (if addr = of_nat i * 8 + 0 then do {
        cmp \<leftarrow> arr_get (al_mtimecmp aclint) i;
        let (reg, val) = reg32_rw (reg_lo cmp) val write strb;
        cmps \<leftarrow> arr_put (al_mtimecmp aclint) i (set_reg_lo cmp reg);
        Some (True, val, aclint\<lparr>al_mtimecmp := cmps\<rparr>)
      }
      else if addr = of_nat i * 8 + 4 then do {
        cmp \<leftarrow> arr_get (al_mtimecmp aclint) i;
        let (reg, val) = reg32_rw (reg_hi cmp) val write strb;
        cmps \<leftarrow> arr_put (al_mtimecmp aclint) i (set_reg_hi cmp reg);
        Some (True, val, aclint\<lparr>al_mtimecmp := cmps\<rparr>)
      }
      else mtimecmp_loop rest aclint addr val write strb)"

definition mtimecmp_reg_rw :: "aclint \<Rightarrow> u32 \<Rightarrow> u32 \<Rightarrow> bool \<Rightarrow> u8 \<Rightarrow> (bool \<times> u32 \<times> aclint) option" where
  "mtimecmp_reg_rw aclint addr val write strb = mtimecmp_loop [0..<HART_NUM] aclint addr val write strb"

fun mswi_loop :: "nat list \<Rightarrow> aclint \<Rightarrow> u32 \<Rightarrow> u32 \<Rightarrow> bool \<Rightarrow> u8 \<Rightarrow> (bool \<times> u32 \<times> aclint) option" where
  "mswi_loop [] aclint addr val write strb = Some (False, val, aclint)"
| "mswi_loop (i # rest) aclint addr val write strb =
     (if addr \<noteq> of_nat i * 4 then mswi_loop rest aclint addr val write strb
      else if write \<and> strb AND 1 \<noteq> 0 then do {
        irq \<leftarrow> aclint_read_core_m_irq aclint i;
        aclint \<leftarrow> aclint_write_core_m_irq aclint i (irq\<lparr>mi_msw := (val AND 1 \<noteq> 0)\<rparr>);
        Some (True, val, aclint)
      }
      else if \<not> write then do {
        pend \<leftarrow> aclint_read_core_swi_pend aclint i;
        Some (True, if pend then 1 else 0, aclint)
      }
      else mswi_loop rest aclint addr val write strb)"

definition mswi_reg_rw :: "aclint \<Rightarrow> u32 \<Rightarrow> u32 \<Rightarrow> bool \<Rightarrow> u8 \<Rightarrow> (bool \<times> u32 \<times> aclint) option" where
  "mswi_reg_rw aclint addr val write strb = mswi_loop [0..<HART_NUM] aclint addr val write strb"

fun sswi_loop :: "nat list \<Rightarrow> aclint \<Rightarrow> u32 \<Rightarrow> u32 \<Rightarrow> bool \<Rightarrow> u8 \<Rightarrow> (bool \<times> u32 \<times> aclint) option" where
  "sswi_loop [] aclint addr val write strb = Some (False, val, aclint)"
| "sswi_loop (i # rest) aclint addr val write strb =
     (if addr = of_nat i * 4 \<and> write \<and> strb AND 1 \<noteq> 0 \<and> val AND 1 \<noteq> 0 then do {
        mst \<leftarrow> arr_get (al_core_s_irq_msts aclint) i;
        DBG_CHECK (\<not> itf_fifo_full mst);
        mst \<leftarrow> itf_write mst True;
        msts \<leftarrow> arr_put (al_core_s_irq_msts aclint) i mst;
        Some (True, val, aclint\<lparr>al_core_s_irq_msts := msts\<rparr>)
      }
      else sswi_loop rest aclint addr val write strb)"

definition sswi_reg_rw :: "aclint \<Rightarrow> u32 \<Rightarrow> u32 \<Rightarrow> bool \<Rightarrow> u8 \<Rightarrow> (bool \<times> u32 \<times> aclint) option" where
  "sswi_reg_rw aclint addr val write strb = sswi_loop [0..<HART_NUM] aclint addr val write strb"

definition aclint_reg_rw :: "aclint \<Rightarrow> u32 \<Rightarrow> u32 \<Rightarrow> bool \<Rightarrow> u8 \<Rightarrow> (bool \<times> u32 \<times> aclint) option" where
  "aclint_reg_rw aclint addr val write strb = (let conf = al_conf aclint in
     if ADDR_IN addr (mtimer_base conf) (mtimer_size conf) then Some (mtime_reg_rw aclint (addr - mtimer_base conf) val write strb)
     else if ADDR_IN addr (mtimecmp_base conf) (mtimecmp_size conf) then mtimecmp_reg_rw aclint (addr - mtimecmp_base conf) val write strb
     else if ADDR_IN addr (mswi_base conf) (mswi_size conf) then mswi_reg_rw aclint (addr - mswi_base conf) val write strb
     else if ADDR_IN addr (sswi_base conf) (sswi_size conf) then sswi_reg_rw aclint (addr - sswi_base conf) val write strb
     else Some (False, val, aclint))"

text \<open>
  The response's \<^verbatim>\<open>prdata\<close> is not initialised before the access: \<open>junk\<close> is what the memory held,
  and what a failed read and every write return.
\<close>

definition apb_cfg_proc :: "u32 \<Rightarrow> aclint \<Rightarrow> aclint option" where
  "apb_cfg_proc junk aclint =
     (if itf_fifo_empty (al_cfg_apb_req_slv aclint) then Some aclint
      else if itf_fifo_full (al_cfg_apb_rsp_mst aclint) then Some aclint
      else do {
        (req, t) \<leftarrow> itf_read (al_cfg_apb_req_slv aclint);
        let aclint = aclint\<lparr>al_cfg_apb_req_slv := t\<rparr>;
        (ok, val, aclint) \<leftarrow> aclint_reg_rw aclint (aq_paddr req) (if aq_pwrite req then aq_pwdata req else junk) (aq_pwrite req) (aq_pstrb req);
        u \<leftarrow> itf_write (al_cfg_apb_rsp_mst aclint) \<lparr>ap_prdata = (if aq_pwrite req then junk else val), ap_pslverr = \<not> ok\<rparr>;
        Some (aclint\<lparr>al_cfg_apb_rsp_mst := u\<rparr>)
      })"

definition raise_or_clear_mtimer_irq :: "aclint \<Rightarrow> nat \<Rightarrow> aclint option" where
  "raise_or_clear_mtimer_irq aclint hart_id = do {
     DBG_CHECK (hart_id < HART_NUM);
     cmp \<leftarrow> arr_get (al_mtimecmp aclint) hart_id;
     old \<leftarrow> arr_get (al_mtime_exceed_old aclint) hart_id;
     let m_exceed = (al_mtime aclint \<ge> cmp);
     if m_exceed \<noteq> old then do {
       irq \<leftarrow> aclint_read_core_m_irq aclint hart_id;
       aclint \<leftarrow> aclint_write_core_m_irq aclint hart_id (irq\<lparr>mi_mtimer := m_exceed\<rparr>);
       olds \<leftarrow> arr_put (al_mtime_exceed_old aclint) hart_id m_exceed;
       Some (aclint\<lparr>al_mtime_exceed_old := olds\<rparr>)
     } else Some aclint
   }"

fun core_irq_loop :: "nat list \<Rightarrow> aclint \<Rightarrow> aclint option" where
  "core_irq_loop [] aclint = Some aclint"
| "core_irq_loop (i # rest) aclint = Option.bind (raise_or_clear_mtimer_irq aclint i) (core_irq_loop rest)"

definition core_irq_proc :: "aclint \<Rightarrow> aclint option" where
  "core_irq_proc aclint = core_irq_loop [0..<HART_NUM] aclint"

definition aclint_clock :: "u32 \<Rightarrow> aclint \<Rightarrow> aclint option" where
  "aclint_clock junk aclint = do {
     aclint \<leftarrow> apb_cfg_proc junk (timer_proc aclint);
     core_irq_proc aclint
   }"

section \<open>Invariant\<close>

text \<open>One hart: the arrays have one element, whose values the specification names directly.\<close>

definition al_cmp :: "aclint \<Rightarrow> u64" where "al_cmp a = al_mtimecmp a ! 0"
definition al_line :: "aclint \<Rightarrow> core_m_irq" where "al_line a = al_core_m_irq_outs a ! 0"

definition aclint_shape :: "aclint \<Rightarrow> bool" where
  "aclint_shape a \<longleftrightarrow> length (al_mtimecmp a) = HART_NUM \<and> length (al_core_m_irq_outs a) = HART_NUM \<and> length (al_core_s_irq_msts a) = HART_NUM
     \<and> length (al_core_swi_pend_ins a) = HART_NUM \<and> length (al_mtime_exceed_old a) = HART_NUM"

definition aclint_inv :: "aclint \<Rightarrow> bool" where
  "aclint_inv a \<longleftrightarrow> aclint_shape a \<and> itf_inv (al_cfg_apb_req_slv a) \<and> itf_inv (al_cfg_apb_rsp_mst a)
     \<and> itf_inv (al_core_s_irq_msts a ! 0) \<and> al_mtime_exceed_old a ! 0 = mi_mtimer (al_line a)"

lemma hart_list: "[0..<HART_NUM] = [0]" by simp

lemma timer_frame:
  "aclint_inv (timer_proc a) = aclint_inv a" "al_core_s_irq_msts (timer_proc a) = al_core_s_irq_msts a"
  "al_mtimecmp (timer_proc a) = al_mtimecmp a" "al_cfg_apb_req_slv (timer_proc a) = al_cfg_apb_req_slv a"
  "al_conf (timer_proc a) = al_conf a"
  by (simp_all add: timer_proc_def Let_def aclint_write_core_timer_def aclint_inv_def aclint_shape_def al_line_def)

lemma irq_proc_eq:
  assumes "aclint_inv a"
  shows "\<exists>a'. core_irq_proc a = Some a' \<and> aclint_inv a' \<and> mi_mtimer (al_line a') = (al_cmp a \<le> al_mtime a)
    \<and> al_mtime a' = al_mtime a \<and> al_mtimecmp a' = al_mtimecmp a \<and> al_core_s_irq_msts a' = al_core_s_irq_msts a
    \<and> al_mtime_cycle_cnt a' = al_mtime_cycle_cnt a \<and> al_conf a' = al_conf a \<and> al_cfg_apb_req_slv a' = al_cfg_apb_req_slv a"
  using assms
  by (auto simp: core_irq_proc_def raise_or_clear_mtimer_irq_def hart_list aclint_read_core_m_irq_def aclint_write_core_m_irq_def
      aclint_inv_def aclint_shape_def al_line_def al_cmp_def Let_def)

definition rw_ok :: "aclint \<Rightarrow> (bool \<times> u32 \<times> aclint) option \<Rightarrow> bool" where
  "rw_ok a x = (case x of None \<Rightarrow> False | Some (r, v, a') \<Rightarrow> aclint_inv a' \<and> al_cfg_apb_req_slv a' = al_cfg_apb_req_slv a
     \<and> al_cfg_apb_rsp_mst a' = al_cfg_apb_rsp_mst a \<and> al_conf a' = al_conf a)"

lemma sswi_ok:
  assumes "aclint_inv a" "\<not> itf_fifo_full (al_core_s_irq_msts a ! 0)"
  shows "rw_ok a (sswi_reg_rw a addr val write strb)"
proof -
  have i: "itf_inv (al_core_s_irq_msts a ! 0)" "length (al_core_s_irq_msts a) = 1" using assms(1) by (simp_all add: aclint_inv_def aclint_shape_def)
  from itf.push_ok [OF i(1) assms(2), of True] obtain t where t: "itf_write (al_core_s_irq_msts a ! 0) True = Some t" "itf_inv t" by blast
  with assms i show ?thesis
    by (simp add: rw_ok_def sswi_reg_rw_def hart_list aclint_inv_def aclint_shape_def al_line_def)
qed

lemma reg_rw_ok:
  assumes "aclint_inv a" "\<not> itf_fifo_full (al_core_s_irq_msts a ! 0)"
  shows "rw_ok a (aclint_reg_rw a addr val write strb)"
proof -
  have same: "rw_ok a (Some (r, v, a))" for r v using assms(1) by (simp add: rw_ok_def)
  have mtime: "rw_ok a (Some (mtime_reg_rw a x val write strb))" for x
    using assms(1) by (simp add: rw_ok_def mtime_reg_rw_def aclint_inv_def aclint_shape_def al_line_def split: prod.splits)
  have cmp: "rw_ok a (mtimecmp_reg_rw a x val write strb)" for x
    using assms(1) by (simp add: rw_ok_def mtimecmp_reg_rw_def hart_list aclint_inv_def aclint_shape_def al_line_def split: prod.splits)
  have msw: "rw_ok a (mswi_reg_rw a x val write strb)" for x
    using assms(1) by (simp add: rw_ok_def mswi_reg_rw_def hart_list aclint_inv_def aclint_shape_def al_line_def
        aclint_read_core_m_irq_def aclint_write_core_m_irq_def aclint_read_core_swi_pend_def)
  show ?thesis
    unfolding aclint_reg_rw_def Let_def using mtime cmp msw sswi_ok [OF assms] same by simp
qed

lemma cfg_ok:
  assumes inv: "aclint_inv a" and room: "\<not> itf_fifo_full (al_core_s_irq_msts a ! 0)"
  shows "\<exists>a'. apb_cfg_proc junk a = Some a' \<and> aclint_inv a'"
proof (cases "itf_fifo_empty (al_cfg_apb_req_slv a) \<or> itf_fifo_full (al_cfg_apb_rsp_mst a)")
  case True
  with inv show ?thesis by (auto simp: apb_cfg_proc_def)
next
  case False
  have i: "itf_inv (al_cfg_apb_req_slv a)" "itf_inv (al_cfg_apb_rsp_mst a)" using inv by (simp_all add: aclint_inv_def)
  from False itf.pop_not_empty [OF i(1)] obtain req t where t: "itf_read (al_cfg_apb_req_slv a) = Some (req, t)" "itf_inv t" by metis
  let ?a = "a\<lparr>al_cfg_apb_req_slv := t\<rparr>"
  have a: "aclint_inv ?a" "\<not> itf_fifo_full (al_core_s_irq_msts ?a ! 0)" using inv room t(2) by (simp_all add: aclint_inv_def aclint_shape_def al_line_def)
  let ?v = "if aq_pwrite req then aq_pwdata req else junk"
  from reg_rw_ok [OF a, of "aq_paddr req" ?v "aq_pwrite req" "aq_pstrb req"] obtain ok val a1 where
    rw: "aclint_reg_rw ?a (aq_paddr req) ?v (aq_pwrite req) (aq_pstrb req) = Some (ok, val, a1)" "aclint_inv a1"
      "al_cfg_apb_rsp_mst a1 = al_cfg_apb_rsp_mst a" unfolding rw_ok_def by (auto split: option.splits)
  let ?r = "\<lparr>ap_prdata = (if aq_pwrite req then junk else val), ap_pslverr = \<not> ok\<rparr>"
  from False itf.push_ok [OF i(2), of ?r] obtain u where u: "itf_write (al_cfg_apb_rsp_mst a) ?r = Some u" "itf_inv u" by blast
  have "apb_cfg_proc junk a = Some (a1\<lparr>al_cfg_apb_rsp_mst := u\<rparr>)"
    using False t(1) rw u(1) by (simp add: apb_cfg_proc_def Let_def)
  moreover have "aclint_inv (a1\<lparr>al_cfg_apb_rsp_mst := u\<rparr>)" using rw(2) u(2) by (simp add: aclint_inv_def aclint_shape_def al_line_def)
  ultimately show ?thesis by blast
qed

lemma aclint_clock_ok:
  assumes inv: "aclint_inv a" and room: "\<not> itf_fifo_full (al_core_s_irq_msts a ! 0)"
  shows "\<exists>a'. aclint_clock junk a = Some a' \<and> aclint_inv a' \<and> mi_mtimer (al_line a') = (al_cmp a' \<le> al_mtime a')"
proof -
  have t: "aclint_inv (timer_proc a)" "\<not> itf_fifo_full (al_core_s_irq_msts (timer_proc a) ! 0)" using inv room by (simp_all add: timer_frame)
  from cfg_ok [OF t, of junk] obtain a1 where a1: "apb_cfg_proc junk (timer_proc a) = Some a1" "aclint_inv a1" by blast
  from irq_proc_eq [OF a1(2)] a1(1) show ?thesis by (auto simp: aclint_clock_def al_cmp_def)
qed

section \<open>Runs\<close>

text \<open>
  The controller with its bus, the software interrupt state the hart reports and the mailbox of
  the supervisor software interrupt, which the hart empties between ticks.
\<close>

inductive aclint_run :: "aclint \<Rightarrow> aclint \<Rightarrow> bool" for a0 where
  start: "aclint_run a0 a0"
| tick: "aclint_run a0 a \<Longrightarrow> \<not> itf_fifo_full (al_core_s_irq_msts a ! 0) \<Longrightarrow> aclint_clock junk a = Some a' \<Longrightarrow> aclint_run a0 a'"
| apb_send: "aclint_run a0 a \<Longrightarrow> itf_write (al_cfg_apb_req_slv a) q = Some t \<Longrightarrow> aclint_run a0 (a\<lparr>al_cfg_apb_req_slv := t\<rparr>)"
| apb_recv: "aclint_run a0 a \<Longrightarrow> itf_read (al_cfg_apb_rsp_mst a) = Some (r, u) \<Longrightarrow> aclint_run a0 (a\<lparr>al_cfg_apb_rsp_mst := u\<rparr>)"
| swi_taken: "aclint_run a0 a \<Longrightarrow> itf_read (al_core_s_irq_msts a ! 0) = Some (w, m) \<Longrightarrow> aclint_run a0 (a\<lparr>al_core_s_irq_msts := [m]\<rparr>)"
| pend_change: "aclint_run a0 a \<Longrightarrow> aclint_run a0 (a\<lparr>al_core_swi_pend_ins := [b]\<rparr>)"

definition aclint_built :: "aclint \<Rightarrow> bool" where
  "aclint_built a \<longleftrightarrow> aclint_shape a \<and> itf_inv (al_cfg_apb_req_slv a) \<and> itf_inv (al_cfg_apb_rsp_mst a) \<and> itf_inv (al_core_s_irq_msts a ! 0)"

lemma aclint_reset_ok: "aclint_built a \<Longrightarrow> \<exists>a'. aclint_reset a = Some a' \<and> aclint_inv a'"
  by (simp add: aclint_built_def aclint_reset_def hart_list aclint_write_core_timer_def aclint_write_core_m_irq_def
      aclint_inv_def aclint_shape_def al_line_def)

lemma aclint_run_inv:
  assumes "aclint_run a0 a" "aclint_inv a0"
  shows "aclint_inv a"
  using assms(1)
proof (induction rule: aclint_run.induct)
  case start
  show ?case by (rule assms(2))
next
  case (tick a junk a')
  with aclint_clock_ok [of a junk] show ?case by auto
next
  case (apb_send a q t)
  with itf.push_SomeD [OF apb_send.hyps(2)] show ?case by (simp add: aclint_inv_def aclint_shape_def al_line_def)
next
  case (apb_recv a r u)
  with itf.pop_SomeD [OF apb_recv.hyps(2)] show ?case by (simp add: aclint_inv_def aclint_shape_def al_line_def)
next
  case (swi_taken a w m)
  with itf.pop_SomeD [OF swi_taken.hyps(2)] show ?case by (simp add: aclint_inv_def aclint_shape_def al_line_def)
next
  case (pend_change a b)
  then show ?case by (simp add: aclint_inv_def aclint_shape_def al_line_def)
qed

section \<open>Idle ticks\<close>

primrec aclint_ticks :: "nat \<Rightarrow> aclint \<Rightarrow> aclint option" where
  "aclint_ticks 0 a = Some a"
| "aclint_ticks (Suc n) a = Option.bind (aclint_ticks n a) (aclint_clock 0)"

lemma timer_count:
  assumes lt: "al_mtime_cycle_cnt a < mtimer_tick_cycles (al_conf a)"
  shows "unat (al_mtime_cycle_cnt (timer_proc a)) = Suc (unat (al_mtime_cycle_cnt a)) mod unat (mtimer_tick_cycles (al_conf a))"
    "al_mtime (timer_proc a) = al_mtime a + of_nat (Suc (unat (al_mtime_cycle_cnt a)) div unat (mtimer_tick_cycles (al_conf a)))"
proof -
  let ?c = "al_mtime_cycle_cnt a" and ?T = "mtimer_tick_cycles (al_conf a)"
  have l: "unat ?c < unat ?T" using lt by (simp add: word_less_nat_alt)
  have s: "unat (?c + 1) = Suc (unat ?c)"
  proof -
    have "Suc (unat ?c) \<le> unat ?T" using l by simp
    also have "unat ?T < 2 ^ LENGTH(32)" by (rule unsigned_less)
    finally show ?thesis by (simp add: unat_word_ariths)
  qed
  have eq: "(?c + 1 = ?T) = (Suc (unat ?c) = unat ?T)" unfolding word_unat_eq_iff s ..
  show "unat (al_mtime_cycle_cnt (timer_proc a)) = Suc (unat ?c) mod unat ?T"
    "al_mtime (timer_proc a) = al_mtime a + of_nat (Suc (unat ?c) div unat ?T)"
    using l s eq by (auto simp: timer_proc_def Let_def aclint_write_core_timer_def)
qed

definition idle_after :: "aclint \<Rightarrow> nat \<Rightarrow> aclint \<Rightarrow> bool" where
  "idle_after a n a' \<longleftrightarrow> (let T = unat (mtimer_tick_cycles (al_conf a)); c = unat (al_mtime_cycle_cnt a) in
     aclint_inv a' \<and> al_conf a' = al_conf a \<and> al_mtimecmp a' = al_mtimecmp a \<and> itf_fifo_empty (al_cfg_apb_req_slv a')
     \<and> unat (al_mtime_cycle_cnt a') = (c + n) mod T \<and> al_mtime a' = al_mtime a + of_nat ((c + n) div T)
     \<and> (0 < n \<longrightarrow> mi_mtimer (al_line a') = (al_cmp a' \<le> al_mtime a')))"

lemma Suc_div_step: "0 < T \<Longrightarrow> x div T + Suc (x mod T) div T = Suc x div (T :: nat)"
proof -
  assume T: "0 < T"
  have "Suc x = x div T * T + Suc (x mod T)" by simp
  also have "\<dots> div T = x div T + Suc (x mod T) div T" using T by (simp only: div_mult_self3 neq0_conv)
  finally show ?thesis by simp
qed

lemma ticks_idle:
  assumes inv: "aclint_inv a" and e: "itf_fifo_empty (al_cfg_apb_req_slv a)" and lt: "al_mtime_cycle_cnt a < mtimer_tick_cycles (al_conf a)"
  shows "\<exists>a'. aclint_ticks n a = Some a' \<and> idle_after a n a'"
proof (induction n)
  case 0
  from lt have "unat (al_mtime_cycle_cnt a) < unat (mtimer_tick_cycles (al_conf a))" by (simp add: word_less_nat_alt)
  with inv e show ?case by (simp add: idle_after_def Let_def)
next
  case (Suc n)
  then obtain b where b: "aclint_ticks n a = Some b" "idle_after a n b" by blast
  let ?T = "unat (mtimer_tick_cycles (al_conf a))" and ?c = "unat (al_mtime_cycle_cnt a)"
  from b(2) have bi: "aclint_inv b" "al_conf b = al_conf a" "al_mtimecmp b = al_mtimecmp a" "itf_fifo_empty (al_cfg_apb_req_slv b)"
    "unat (al_mtime_cycle_cnt b) = (?c + n) mod ?T" "al_mtime b = al_mtime a + of_nat ((?c + n) div ?T)"
    by (simp_all add: idle_after_def Let_def)
  have T: "0 < ?T" using lt by (simp add: word_less_nat_alt)
  have ltb: "al_mtime_cycle_cnt b < mtimer_tick_cycles (al_conf b)"
    unfolding word_less_nat_alt bi(2,5) using T by simp
  note tc = timer_count [OF ltb, unfolded bi(2,5,6)]
  have mods: "Suc ((?c + n) mod ?T) mod ?T = (?c + Suc n) mod ?T" "(?c + n) div ?T + Suc ((?c + n) mod ?T) div ?T = (?c + Suc n) div ?T"
    using Suc_div_step [OF T, of "?c + n"] by (simp_all add: mod_Suc_eq)
  let ?t = "timer_proc b"
  have "apb_cfg_proc 0 ?t = Some ?t" using bi(4) by (simp add: apb_cfg_proc_def timer_frame)
  moreover have "aclint_inv ?t" using bi(1) by (simp add: timer_frame)
  from irq_proc_eq [OF this] obtain d where d: "core_irq_proc ?t = Some d" "aclint_inv d" "mi_mtimer (al_line d) = (al_cmp ?t \<le> al_mtime ?t)"
    "al_mtime d = al_mtime ?t" "al_mtimecmp d = al_mtimecmp ?t" "al_mtime_cycle_cnt d = al_mtime_cycle_cnt ?t" "al_conf d = al_conf ?t"
    "al_cfg_apb_req_slv d = al_cfg_apb_req_slv ?t" by blast
  ultimately have "aclint_ticks (Suc n) a = Some d" using b(1) by (simp add: aclint_clock_def)
  moreover have "al_mtime d = al_mtime a + of_nat ((?c + Suc n) div ?T)"
    unfolding d(4) tc(2) mods(2) [symmetric] by (simp add: add.assoc)
  then have "idle_after a (Suc n) d" using d bi tc(1) mods(1) by (simp add: idle_after_def Let_def timer_frame al_cmp_def)
  ultimately show ?case by blast
qed

section \<open>Properties\<close>

text \<open>
  C27. In every run from reset a tick never fails an assertion, and after it the machine timer
  interrupt line is up exactly if the timer has reached the compare value, however software has
  written the timer, the compare value or the software interrupt registers in between. The tick
  starts with room in the supervisor interrupt mailbox.
\<close>

theorem aclint_timer_irq:
  assumes "aclint_built a0" "aclint_reset a0 = Some a1" "aclint_run a1 a" "\<not> itf_fifo_full (al_core_s_irq_msts a ! 0)"
  shows "\<exists>a'. aclint_clock junk a = Some a' \<and> mi_mtimer (al_line a') = (al_cmp a' \<le> al_mtime a')"
proof -
  from aclint_reset_ok [OF assms(1)] assms(2) have "aclint_inv a1" by auto
  from aclint_clock_ok [OF aclint_run_inv [OF assms(3) this] assms(4), of junk] show ?thesis by blast
qed

text \<open>
  C28. The timer interrupt comes, and exactly on time: with no access to the registers, the line
  is up after \<open>n\<close> ticks exactly if enough ticks have passed to count the timer from its present
  value to the compare value, at one step every \<^verbatim>\<open>mtimer_tick_cycles\<close> ticks.
\<close>

theorem aclint_timer_fires:
  assumes "aclint_inv a" "itf_fifo_empty (al_cfg_apb_req_slv a)" "al_mtime_cycle_cnt a < mtimer_tick_cycles (al_conf a)"
    "0 < n" "unat (al_mtime a) + (unat (al_mtime_cycle_cnt a) + n) div unat (mtimer_tick_cycles (al_conf a)) < 2 ^ 64"
    "unat (al_mtime a) \<le> unat (al_cmp a)"
  shows "\<exists>a'. aclint_ticks n a = Some a' \<and> mi_mtimer (al_line a') =
    ((unat (al_cmp a) - unat (al_mtime a)) * unat (mtimer_tick_cycles (al_conf a)) \<le> unat (al_mtime_cycle_cnt a) + n)"
proof -
  let ?T = "unat (mtimer_tick_cycles (al_conf a))" and ?c = "unat (al_mtime_cycle_cnt a)"
  have T: "0 < ?T" using assms(3) by (simp add: word_less_nat_alt)
  from ticks_idle [OF assms(1-3), of n] obtain a' where a': "aclint_ticks n a = Some a'" "idle_after a n a'" by blast
  then have m: "al_mtime a' = al_mtime a + of_nat ((?c + n) div ?T)" "al_cmp a' = al_cmp a" "mi_mtimer (al_line a') = (al_cmp a' \<le> al_mtime a')"
    using assms(4) by (simp_all add: idle_after_def Let_def al_cmp_def)
  have "unat (al_mtime a') = unat (al_mtime a) + (?c + n) div ?T"
    unfolding m(1) using assms(5) by (simp add: unat_word_ariths unat_of_nat)
  then have "mi_mtimer (al_line a') = (unat (al_cmp a) - unat (al_mtime a) \<le> (?c + n) div ?T)"
    using m(2,3) assms(6) by (auto simp: word_le_nat_alt)
  also have "\<dots> = ((unat (al_cmp a) - unat (al_mtime a)) * ?T \<le> ?c + n)" using T by (rule less_eq_div_iff_mult_less_eq)
  finally show ?thesis using a'(1) by blast
qed

definition aclint_sample :: aclint where
  "aclint_sample = \<lparr>al_cfg_apb_req_slv = fifo_itf_construct 1, al_cfg_apb_rsp_mst = fifo_itf_construct 1, al_core_timer_out = 0,
     al_core_m_irq_outs = [\<lparr>mi_mtimer = False, mi_msw = False\<rparr>], al_core_s_irq_msts = [fifo_itf_construct 1], al_core_swi_pend_ins = [False],
     al_conf = \<lparr>mtimer_base = 0x31000000, mtimer_size = 8, mtimecmp_base = 0x31010000, mtimecmp_size = 0x7ff8, mswi_base = 0x31020000,
       mswi_size = 0x4000, sswi_base = 0x31030000, sswi_size = 0x4000, mtimer_tick_cycles = 4\<rparr>,
     al_mtime_cycle_cnt = 0, al_mtime = 0, al_mtimecmp = [3], al_mtime_exceed_old = [False]\<rparr>"

lemma aclint_sample_inv: "aclint_inv aclint_sample" "aclint_built aclint_sample"
  by (simp_all add: aclint_inv_def aclint_built_def aclint_shape_def aclint_sample_def al_line_def del: One_nat_def)

theorem aclint_timer_irq_witness:
  "\<exists>a1 a'. aclint_reset aclint_sample = Some a1 \<and> aclint_clock 0 a1 = Some a' \<and> mi_mtimer (al_line a') = (al_cmp a' \<le> al_mtime a')"
proof -
  from aclint_reset_ok [OF aclint_sample_inv(2)] obtain a1 where a1: "aclint_reset aclint_sample = Some a1" by blast
  have "case aclint_reset aclint_sample of None \<Rightarrow> False | Some a \<Rightarrow> \<not> itf_fifo_full (al_core_s_irq_msts a ! 0)" by code_simp
  with a1 have "\<not> itf_fifo_full (al_core_s_irq_msts a1 ! 0)" by simp
  from aclint_timer_irq [OF aclint_sample_inv(2) a1 aclint_run.start this, of 0] a1 show ?thesis by blast
qed

theorem aclint_timer_fires_witness:
  "(\<exists>a'. aclint_ticks 12 aclint_sample = Some a' \<and> mi_mtimer (al_line a') = (3 * 4 \<le> (0 :: nat) + 12))
   \<and> map_option (\<lambda>a. mi_mtimer (al_line a)) (aclint_ticks 11 aclint_sample) = Some False"
proof -
  have e: "itf_fifo_empty (al_cfg_apb_req_slv aclint_sample)" by code_simp
  have v: "unat (al_mtime aclint_sample) = 0" "unat (al_cmp aclint_sample) = 3" "unat (al_mtime_cycle_cnt aclint_sample) = 0"
    "unat (mtimer_tick_cycles (al_conf aclint_sample)) = 4" "al_mtime_cycle_cnt aclint_sample < mtimer_tick_cycles (al_conf aclint_sample)"
    by (simp_all add: aclint_sample_def al_cmp_def)
  from aclint_timer_fires [OF aclint_sample_inv(1) e v(5), of 12] aclint_timer_fires [OF aclint_sample_inv(1) e v(5), of 11] v
  show ?thesis by auto
qed

end
