(* ===== verification/FchPackets.thy ===== *)
theory FchPackets
  imports Packets
begin

text \<open>
  The packets of the instruction fetch path (\<^verbatim>\<open>itf/fch_req_if.h\<close>, \<^verbatim>\<open>itf/fch_rsp_if.h\<close>), between
  the fetch unit and the bus interface of the hart.
\<close>

record fch_req =
  fq_pc :: u32

record fch_rsp =
  fr_ir :: u32
  fr_ok :: bool
  fr_expt :: bool
  fr_cause :: u32
  fr_priv :: priv
  fr_tval :: u32

end
