(* ===== verification/Ifu.thy ===== *)
theory Ifu
  imports Bpu OstSlots FchPackets ApbPackets
begin

text \<open>
  The instruction fetch unit (\<^verbatim>\<open>core/hart/ifu.c\<close>): it fetches ahead along the predicted path,
  keeps the fetched instructions in order, asks the branch predictor about each one, hands them
  to the execution unit, and starts over elsewhere when the execution unit or the trap unit
  redirects it. Answers to fetches that belong to an abandoned path are discarded as they come.
  The signal to the predictor is answered by a callback while it is written; the callback is the
  parameter \<open>cb\<close>, which \<open>bpu_eval_pred_req\<close> provides. The flush inputs and the state of the
  execution unit are optional in the code, hence \<open>option\<close> values here.
\<close>

section \<open>ifu.h\<close>

record ifu_ctrlq_entry =
  ce_vld :: bool
  ce_pc :: u32
  ce_ir :: u32
  ce_pred_taken :: bool
  ce_pred_pc :: u32
  ce_pred_cond_bht_hit :: bool
  ce_pred_jalr_ras_hit :: bool
  ce_pred_jalr_btb_hit :: bool
  ce_pred_jalr_btb_miss :: bool

record ifu_fch_ost_ctx =
  fo_pc :: u32

record ifu_fch_rspq_entry =
  re_pc :: u32
  re_ir :: u32
  re_ok :: bool
  re_expt :: bool
  re_cause :: u32
  re_priv :: priv
  re_tval :: u32

datatype ifu_fch_state = IFU_FCH_STATE_REQ | IFU_FCH_STATE_PEND | IFU_FCH_STATE_RSP | IFU_FCH_STATE_FAULT

datatype ifu_redirect_state = IFU_REDIRECT_STATE_IDLE | IFU_REDIRECT_STATE_BRANCH | IFU_REDIRECT_STATE_TRAP
  | IFU_REDIRECT_STATE_REDIRECT

record ifu_fch =
  fc_state :: ifu_fch_state
  fc_pc :: u32
  fc_ir :: u32
  fc_req_ptr :: nat
  fc_rsp_ptr :: nat
  fc_discard_end_ptr :: nat
  fc_discard_vld :: bool

record ifu_issue =
  is_vld :: bool
  is_pc :: u32
  is_ir :: u32
  is_pred_target_pc :: u32
  is_pred_taken :: bool
  is_pred_vld :: bool
  is_pred_redirected :: bool
  is_is_ctrl :: bool
  is_pred_cond_bht_hit :: bool
  is_pred_jalr_ras_hit :: bool
  is_pred_jalr_btb_hit :: bool
  is_pred_jalr_btb_miss :: bool

record ifu_redirect =
  rd_state :: ifu_redirect_state
  rd_pc :: u32

record ifu =
  if_fch_req_mst :: "fch_req itf"
  if_fch_rsp_slv :: "fch_rsp itf"
  if_ex_req_mst :: "ex_req itf"
  if_ex_rsp_slv :: "ex_rsp itf"
  if_fl_req_mst :: "fl_req itf"
  if_bpu_pred_req_mst :: bpu_pred_req
  if_bpu_pred_rsp_slv :: bpu_pred_rsp
  if_bpu_update_mst :: bpu_update
  if_fch_expt_mst :: "hart_expt itf"
  if_trap_send_slv :: "trap_send itf"
  if_tlb_flush_slv :: "tlb_flush itf option"
  if_l1i_flush_slv :: "l1_flush itf option"
  if_exu_state_i :: "exu_state option"
  if_reset_pc :: u32
  if_fch_ost_depth :: nat
  if_fch :: ifu_fch
  if_back_blocked :: bool
  if_fch_ost :: "ifu_fch_ost_ctx ostq"
  if_fch_rspq :: "ifu_fch_rspq_entry fifo"
  if_issue :: ifu_issue
  if_redirect :: ifu_redirect
  if_ctrlq :: "ifu_ctrlq_entry fifo"
  if_boot_rom_base :: u32
  if_boot_rom_size :: u32
  if_perf_fch_rsp_inst :: u64
  if_perf_fch_ost_full :: u64

type_synonym bpu_cb = "bpu_update \<Rightarrow> bpu_pred_req \<Rightarrow> bpu_pred_rsp"

section \<open>ifu.c\<close>

definition no_pred_req :: bpu_pred_req where
  "no_pred_req = \<lparr>pq_vld = False, pq_pc = 0, pq_ir = 0\<rparr>"

definition clear_update :: bpu_update where
  "clear_update = \<lparr>bu_vld = False, bu_pc = 0, bu_ir = 0, bu_taken = False, bu_target_pc = 0, bu_pred_taken = False, bu_pred_pc = 0,
     bu_pred_true = False, bu_is_boot_code = False, bu_pred_cond_bht_hit = False, bu_pred_jalr_ras_hit = False,
     bu_pred_jalr_btb_hit = False, bu_pred_jalr_btb_miss = False\<rparr>"

text \<open>Writing the request signal runs the callback of the predictor, which writes the response signal.\<close>

definition write_pred_req :: "bpu_cb \<Rightarrow> ifu \<Rightarrow> bpu_pred_req \<Rightarrow> ifu" where
  "write_pred_req cb ifu req = ifu\<lparr>if_bpu_pred_req_mst := req, if_bpu_pred_rsp_slv := cb (if_bpu_update_mst ifu) req\<rparr>"

definition ifu_clear_bpu_pred_req :: "bpu_cb \<Rightarrow> ifu \<Rightarrow> ifu" where
  "ifu_clear_bpu_pred_req cb ifu = write_pred_req cb ifu no_pred_req"

definition ifu_clear_bpu_update :: "ifu \<Rightarrow> ifu" where
  "ifu_clear_bpu_update ifu = ifu\<lparr>if_bpu_update_mst := clear_update\<rparr>"

definition ifu_send_bpu_pred_req :: "bpu_cb \<Rightarrow> ifu \<Rightarrow> u32 \<Rightarrow> u32 \<Rightarrow> ifu" where
  "ifu_send_bpu_pred_req cb ifu pc ir = write_pred_req cb ifu \<lparr>pq_vld = True, pq_pc = pc, pq_ir = ir\<rparr>"

definition ifu_reset :: "bpu_cb \<Rightarrow> ifu \<Rightarrow> ifu" where
  "ifu_reset cb ifu = (let
     ifu = ifu\<lparr>if_fch := \<lparr>fc_state = IFU_FCH_STATE_REQ, fc_pc = if_reset_pc ifu, fc_ir = 0, fc_req_ptr = 0, fc_rsp_ptr = 0,
         fc_discard_end_ptr = 0, fc_discard_vld = False\<rparr>,
       if_back_blocked := False,
       if_fch_ost := ostq_reset (if_fch_ost ifu),
       if_fch_rspq := fifo_reset (if_fch_rspq ifu),
       if_issue := \<lparr>is_vld = False, is_pc = if_reset_pc ifu, is_ir = 0, is_pred_target_pc = if_reset_pc ifu + 4,
         is_pred_taken = False, is_pred_vld = False, is_pred_redirected = False, is_is_ctrl = False,
         is_pred_cond_bht_hit = False, is_pred_jalr_ras_hit = False, is_pred_jalr_btb_hit = False,
         is_pred_jalr_btb_miss = False\<rparr>,
       if_redirect := \<lparr>rd_state = IFU_REDIRECT_STATE_IDLE, rd_pc = if_reset_pc ifu\<rparr>,
       if_ctrlq := fifo_reset (if_ctrlq ifu),
       if_perf_fch_rsp_inst := 0,
       if_perf_fch_ost_full := 0\<rparr>;
     ifu = write_pred_req cb ifu no_pred_req
     in ifu\<lparr>if_bpu_update_mst := clear_update\<rparr>)"

definition ifu_update_fch_state :: "ifu \<Rightarrow> ifu" where
  "ifu_update_fch_state ifu =
     (if fc_state (if_fch ifu) = IFU_FCH_STATE_FAULT then ifu
      else if \<not> fifo_empty (if_fch_rspq ifu) then ifu\<lparr>if_fch := (if_fch ifu)\<lparr>fc_state := IFU_FCH_STATE_RSP\<rparr>\<rparr>
      else if \<not> ostq_empty (if_fch_ost ifu) then ifu\<lparr>if_fch := (if_fch ifu)\<lparr>fc_state := IFU_FCH_STATE_PEND\<rparr>\<rparr>
      else ifu\<lparr>if_fch := (if_fch ifu)\<lparr>fc_state := IFU_FCH_STATE_REQ\<rparr>\<rparr>)"

definition ifu_fch_ptr_next :: "ifu \<Rightarrow> nat \<Rightarrow> nat option" where
  "ifu_fch_ptr_next ifu ptr = do {
     let ptr_num = if_fch_ost_depth ifu * 2;
     DBG_CHECK (ptr < ptr_num);
     Some (if ptr + 1 = ptr_num then 0 else ptr + 1)
   }"

definition ifu_fch_ptr_distance :: "ifu \<Rightarrow> nat \<Rightarrow> nat \<Rightarrow> nat option" where
  "ifu_fch_ptr_distance ifu begn endp = do {
     let ptr_num = if_fch_ost_depth ifu * 2;
     DBG_CHECK (begn < ptr_num);
     DBG_CHECK (endp < ptr_num);
     Some (if endp \<ge> begn then endp - begn else ptr_num - begn + endp)
   }"

definition ifu_check_fch_ost :: "ifu \<Rightarrow> unit option" where
  "ifu_check_fch_ost ifu = do {
     DBG_CHECK (q_count (if_fch_ost ifu) \<ge> q_free_pending_count (if_fch_ost ifu));
     let active_num = q_count (if_fch_ost ifu) - q_free_pending_count (if_fch_ost ifu);
     ptr_active_num \<leftarrow> ifu_fch_ptr_distance ifu (fc_rsp_ptr (if_fch ifu)) (fc_req_ptr (if_fch ifu));
     DBG_CHECK (ptr_active_num = active_num);
     DBG_CHECK (active_num \<le> if_fch_ost_depth ifu);
     if \<not> fc_discard_vld (if_fch ifu) then Some ()
     else do {
       discard_num \<leftarrow> ifu_fch_ptr_distance ifu (fc_rsp_ptr (if_fch ifu)) (fc_discard_end_ptr (if_fch ifu));
       DBG_CHECK (discard_num > 0);
       DBG_CHECK (discard_num \<le> active_num)
     }
   }"

definition ifu_set_fch_discard_boundary :: "ifu \<Rightarrow> ifu" where
  "ifu_set_fch_discard_boundary ifu = ifu\<lparr>if_fch := (if_fch ifu)\<lparr>fc_discard_end_ptr := fc_req_ptr (if_fch ifu),
     fc_discard_vld := fc_rsp_ptr (if_fch ifu) \<noteq> fc_req_ptr (if_fch ifu)\<rparr>\<rparr>"

definition ifu_flush_fetch_path :: "ifu \<Rightarrow> u32 \<Rightarrow> ifu" where
  "ifu_flush_fetch_path ifu pc = (let ifu = ifu_set_fch_discard_boundary ifu in
     ifu\<lparr>if_fch := (if_fch ifu)\<lparr>fc_pc := pc, fc_ir := 0, fc_state := IFU_FCH_STATE_REQ\<rparr>,
       if_fch_rspq := fifo_clear (if_fch_rspq ifu)\<rparr>)"

definition ifu_fault_fetch_path :: "ifu \<Rightarrow> u32 \<Rightarrow> ifu" where
  "ifu_fault_fetch_path ifu pc = (let ifu = ifu_set_fch_discard_boundary ifu in
     ifu\<lparr>if_fch := (if_fch ifu)\<lparr>fc_pc := pc, fc_ir := 0, fc_state := IFU_FCH_STATE_FAULT\<rparr>,
       if_fch_rspq := fifo_clear (if_fch_rspq ifu)\<rparr>)"

definition ifu_fch_ost_full :: "ifu \<Rightarrow> bool" where
  "ifu_fch_ost_full ifu \<longleftrightarrow> ostq_count (if_fch_ost ifu) + fifo_count (if_fch_rspq ifu) \<ge> if_fch_ost_depth ifu"

definition ifu_request_redirect :: "ifu \<Rightarrow> u32 \<Rightarrow> ifu_redirect_state \<Rightarrow> ifu option" where
  "ifu_request_redirect ifu pc state = do {
     DBG_CHECK (state = IFU_REDIRECT_STATE_BRANCH \<or> state = IFU_REDIRECT_STATE_TRAP);
     Some (ifu\<lparr>if_redirect := \<lparr>rd_state = state, rd_pc = pc\<rparr>\<rparr>)
   }"

definition ifu_ctrlq_push :: "ifu \<Rightarrow> u32 \<Rightarrow> u32 \<Rightarrow> bool \<Rightarrow> u32 \<Rightarrow> bool \<Rightarrow> bool \<Rightarrow> bool \<Rightarrow> bool \<Rightarrow> ifu option" where
  "ifu_ctrlq_push ifu pc ir pred_taken pred_pc pred_cond_bht_hit pred_jalr_ras_hit pred_jalr_btb_hit pred_jalr_btb_miss = do {
     q \<leftarrow> fifo_push (if_ctrlq ifu) \<lparr>ce_vld = True, ce_pc = pc, ce_ir = ir, ce_pred_taken = pred_taken, ce_pred_pc = pred_pc,
       ce_pred_cond_bht_hit = pred_cond_bht_hit, ce_pred_jalr_ras_hit = pred_jalr_ras_hit,
       ce_pred_jalr_btb_hit = pred_jalr_btb_hit, ce_pred_jalr_btb_miss = pred_jalr_btb_miss\<rparr>;
     Some (ifu\<lparr>if_ctrlq := q\<rparr>)
   }"

definition ifu_ctrlq_pop_valid :: "ifu \<Rightarrow> u32 \<Rightarrow> (ifu_ctrlq_entry option \<times> ifu) option" where
  "ifu_ctrlq_pop_valid ifu pc =
     (if fifo_empty (if_ctrlq ifu) then Some (None, ifu)
      else do {
        entry \<leftarrow> fifo_get_front (if_ctrlq ifu);
        if \<not> ce_vld entry then do {
          (entry, q) \<leftarrow> fifo_pop (if_ctrlq ifu);
          Some (None, ifu\<lparr>if_ctrlq := q\<rparr>)
        }
        else if ce_pc entry \<noteq> pc then Some (None, ifu)
        else do {
          (entry, q) \<leftarrow> fifo_pop (if_ctrlq ifu);
          Some (Some entry, ifu\<lparr>if_ctrlq := q\<rparr>)
        }
      })"

definition ifu_ctrlq_flush :: "ifu \<Rightarrow> ifu" where
  "ifu_ctrlq_flush ifu = ifu\<lparr>if_ctrlq := fifo_clear (if_ctrlq ifu)\<rparr>"

definition ifu_proc_redirect :: "ifu \<Rightarrow> bool \<times> ifu" where
  "ifu_proc_redirect ifu =
     (if rd_state (if_redirect ifu) = IFU_REDIRECT_STATE_IDLE then (False, ifu)
      else let
        ifu = ifu\<lparr>if_issue := (if_issue ifu)\<lparr>is_vld := False, is_is_ctrl := False, is_pred_vld := False, is_pred_redirected := False\<rparr>,
          if_fch := (if_fch ifu)\<lparr>fc_ir := 0\<rparr>\<rparr>;
        ifu = ifu_flush_fetch_path ifu (rd_pc (if_redirect ifu))
      in (True, ifu\<lparr>if_redirect := (if_redirect ifu)\<lparr>rd_state := IFU_REDIRECT_STATE_IDLE\<rparr>\<rparr>))"

definition ifu_flush_event_pending :: "ifu \<Rightarrow> bool" where
  "ifu_flush_event_pending ifu \<longleftrightarrow>
     (case if_tlb_flush_slv ifu of None \<Rightarrow> False | Some t \<Rightarrow> \<not> itf_fifo_empty t)
     \<or> (case if_l1i_flush_slv ifu of None \<Rightarrow> False | Some t \<Rightarrow> \<not> itf_fifo_empty t)"

definition ifu_proc_frontend_flush :: "ifu \<Rightarrow> bool \<times> ifu" where
  "ifu_proc_frontend_flush ifu =
     (if \<not> ifu_flush_event_pending ifu then (False, ifu)
      else case if_exu_state_i ifu of None \<Rightarrow> (False, ifu)
      | Some st \<Rightarrow> let
          ifu = ifu\<lparr>if_issue := (if_issue ifu)\<lparr>is_vld := False, is_is_ctrl := False, is_pred_vld := False, is_pred_redirected := False\<rparr>\<rparr>;
          ifu = ifu_ctrlq_flush ifu
        in (True, ifu_flush_fetch_path ifu (es_irq_epc st)))"

definition ifu_send_fch :: "ifu \<Rightarrow> ifu option" where
  "ifu_send_fch ifu =
     (if fc_state (if_fch ifu) = IFU_FCH_STATE_FAULT then Some ifu
      else if rd_state (if_redirect ifu) \<noteq> IFU_REDIRECT_STATE_IDLE then Some ifu
      else if is_vld (if_issue ifu) \<and> \<not> is_pred_vld (if_issue ifu) then Some ifu
      else if is_vld (if_issue ifu) \<and> is_pred_vld (if_issue ifu) \<and> is_is_ctrl (if_issue ifu) \<and> is_pred_taken (if_issue ifu)
        \<and> \<not> is_pred_redirected (if_issue ifu) then Some ifu
      else if ifu_fch_ost_full ifu then Some (ifu\<lparr>if_perf_fch_ost_full := if_perf_fch_ost_full ifu + 1\<rparr>)
      else if ostq_full (if_fch_ost ifu) then Some (ifu\<lparr>if_perf_fch_ost_full := if_perf_fch_ost_full ifu + 1\<rparr>)
      else if itf_fifo_full (if_fch_req_mst ifu) then Some ifu
      else do {
        let fch_req = \<lparr>fq_pc = fc_pc (if_fch ifu)\<rparr>;
        let ctx = \<lparr>fo_pc = fc_pc (if_fch ifu)\<rparr>;
        alloc \<leftarrow> ostq_alloc (if_fch_ost ifu) ctx;
        (slot, ost) \<leftarrow> alloc;
        ptr \<leftarrow> ifu_fch_ptr_next ifu (fc_req_ptr (if_fch ifu));
        t \<leftarrow> itf_write (if_fch_req_mst ifu) fch_req;
        Some (ifu\<lparr>if_fch_ost := ost, if_fch_req_mst := t,
          if_fch := (if_fch ifu)\<lparr>fc_req_ptr := ptr, fc_pc := fc_pc (if_fch ifu) + 4, fc_state := IFU_FCH_STATE_PEND\<rparr>\<rparr>)
      })"

definition ifu_proc_fch_rsp :: "ifu \<Rightarrow> ifu option" where
  "ifu_proc_fch_rsp ifu =
     (if itf_fifo_empty (if_fch_rsp_slv ifu) then Some ifu
      else do {
        found \<leftarrow> ostq_peek_head (if_fch_ost ifu);
        case found of None \<Rightarrow> Some ifu
        | Some (slot, ctx) \<Rightarrow> do {
            fch_rsp \<leftarrow> itf_fifo_get_front (if_fch_rsp_slv ifu);
            let discard = fc_discard_vld (if_fch ifu);
            if \<not> discard \<and> fifo_full (if_fch_rspq ifu) then Some ifu
            else do {
              t \<leftarrow> itf_fifo_pop_front (if_fch_rsp_slv ifu);
              ost \<leftarrow> ostq_free_head (if_fch_ost ifu);
              ptr \<leftarrow> ifu_fch_ptr_next ifu (fc_rsp_ptr (if_fch ifu));
              let ifu = ifu\<lparr>if_fch_rsp_slv := t, if_perf_fch_rsp_inst := if_perf_fch_rsp_inst ifu + 1, if_fch_ost := ost,
                if_fch := (if_fch ifu)\<lparr>fc_rsp_ptr := ptr\<rparr>\<rparr>;
              let ifu = (if discard \<and> fc_rsp_ptr (if_fch ifu) = fc_discard_end_ptr (if_fch ifu)
                then ifu\<lparr>if_fch := (if_fch ifu)\<lparr>fc_discard_vld := False\<rparr>\<rparr> else ifu);
              if discard then Some ifu
              else do {
                q \<leftarrow> fifo_push (if_fch_rspq ifu) \<lparr>re_pc = fo_pc ctx, re_ir = fr_ir fch_rsp, re_ok = fr_ok fch_rsp,
                  re_expt = fr_expt fch_rsp, re_cause = fr_cause fch_rsp, re_priv = fr_priv fch_rsp, re_tval = fr_tval fch_rsp\<rparr>;
                Some (ifu\<lparr>if_fch_rspq := q, if_fch := (if_fch ifu)\<lparr>fc_ir := fr_ir fch_rsp, fc_state := IFU_FCH_STATE_RSP\<rparr>\<rparr>)
              }
            }
          }
      })"

definition ifu_apply_bpu_pred_rsp :: "ifu \<Rightarrow> ifu option" where
  "ifu_apply_bpu_pred_rsp ifu =
     (if \<not> is_vld (if_issue ifu) \<or> is_pred_vld (if_issue ifu) then Some ifu
      else do {
        let rsp = if_bpu_pred_rsp_slv ifu;
        DBG_CHECK (pr_vld rsp);
        let ifu = ifu\<lparr>if_issue := (if_issue ifu)\<lparr>is_is_ctrl := pr_is_ctrl rsp, is_pred_taken := pr_pred_taken rsp,
          is_pred_target_pc := pr_pred_pc rsp, is_pred_cond_bht_hit := pr_cond_bht_hit rsp,
          is_pred_jalr_ras_hit := pr_jalr_ras_hit rsp, is_pred_jalr_btb_hit := pr_jalr_btb_hit rsp,
          is_pred_jalr_btb_miss := pr_jalr_btb_miss rsp, is_pred_vld := True\<rparr>\<rparr>;
        if is_is_ctrl (if_issue ifu) \<and> is_pred_taken (if_issue ifu) then do {
          let ifu = ifu_flush_fetch_path ifu (is_pred_target_pc (if_issue ifu));
          Some (ifu\<lparr>if_issue := (if_issue ifu)\<lparr>is_pred_redirected := True\<rparr>\<rparr>)
        }
        else Some ifu
      })"

definition ifu_prepare_issue :: "bpu_cb \<Rightarrow> ifu \<Rightarrow> ifu option" where
  "ifu_prepare_issue cb ifu =
     (if rd_state (if_redirect ifu) \<noteq> IFU_REDIRECT_STATE_IDLE then Some ifu
      else if fifo_empty (if_fch_rspq ifu) then Some ifu
      else if is_vld (if_issue ifu) then Some ifu
      else do {
        fch \<leftarrow> fifo_get_front (if_fch_rspq ifu);
        if re_expt fch then
          (if is_vld (if_issue ifu) then Some ifu
           else if \<not> fifo_empty (if_ctrlq ifu) then Some ifu
           else if itf_fifo_full (if_fch_expt_mst ifu) then Some ifu
           else do {
             (fch, q) \<leftarrow> fifo_pop (if_fch_rspq ifu);
             t \<leftarrow> itf_write (if_fch_expt_mst ifu) \<lparr>he_type = HART_EXPT_TYPE_EXCEPTION, he_cause = re_cause fch,
               he_priv = re_priv fch, he_pc = re_pc fch, he_tval = re_tval fch\<rparr>;
             Some (ifu_fault_fetch_path (ifu\<lparr>if_fch_rspq := q, if_fch_expt_mst := t\<rparr>) (re_pc fch))
           })
        else if \<not> re_ok fch then do {
          (fch, q) \<leftarrow> fifo_pop (if_fch_rspq ifu);
          Some (ifu_flush_fetch_path (ifu\<lparr>if_fch_rspq := q\<rparr>) (re_pc fch))
        }
        else do {
          (fch, q) \<leftarrow> fifo_pop (if_fch_rspq ifu);
          let ifu = ifu\<lparr>if_fch_rspq := q,
            if_issue := \<lparr>is_vld = True, is_pc = re_pc fch, is_ir = re_ir fch, is_pred_target_pc = re_pc fch + 4,
              is_pred_taken = False, is_pred_vld = False, is_pred_redirected = False, is_is_ctrl = False,
              is_pred_cond_bht_hit = False, is_pred_jalr_ras_hit = False, is_pred_jalr_btb_hit = False,
              is_pred_jalr_btb_miss = False\<rparr>\<rparr>;
          let ifu = ifu_send_bpu_pred_req cb ifu (is_pc (if_issue ifu)) (is_ir (if_issue ifu));
          Some (ifu_update_fch_state ifu)
        }
      })"

definition ifu_send_ex_req :: "ifu \<Rightarrow> ifu option" where
  "ifu_send_ex_req ifu =
     (if \<not> is_vld (if_issue ifu) then Some ifu
      else if \<not> is_pred_vld (if_issue ifu) then Some ifu
      else if rd_state (if_redirect ifu) \<noteq> IFU_REDIRECT_STATE_IDLE then Some ifu
      else if itf_fifo_full (if_ex_req_mst ifu) then Some ifu
      else if is_is_ctrl (if_issue ifu) \<and> fifo_full (if_ctrlq ifu) then Some ifu
      else do {
        let iss = if_issue ifu;
        t \<leftarrow> itf_write (if_ex_req_mst ifu) \<lparr>er_inst = is_ir iss, er_pc = is_pc iss, er_pred_taken = is_pred_taken iss,
          er_pred_pc = is_pred_target_pc iss, er_is_boot_code = ADDR_IN (is_pc iss) (if_boot_rom_base ifu) (if_boot_rom_size ifu)\<rparr>;
        let ifu = ifu\<lparr>if_ex_req_mst := t\<rparr>;
        ifu \<leftarrow> (if is_is_ctrl iss then ifu_ctrlq_push ifu (is_pc iss) (is_ir iss) (is_pred_taken iss) (is_pred_target_pc iss)
            (is_pred_cond_bht_hit iss) (is_pred_jalr_ras_hit iss) (is_pred_jalr_btb_hit iss) (is_pred_jalr_btb_miss iss)
          else Some ifu);
        Some (ifu\<lparr>if_issue := iss\<lparr>is_vld := False, is_is_ctrl := False, is_pred_vld := False, is_pred_redirected := False,
          is_pred_cond_bht_hit := False, is_pred_jalr_ras_hit := False, is_pred_jalr_btb_hit := False,
          is_pred_jalr_btb_miss := False\<rparr>\<rparr>)
      })"

definition ifu_proc_ex_rsp :: "ifu \<Rightarrow> ifu option" where
  "ifu_proc_ex_rsp ifu =
     (if rd_state (if_redirect ifu) \<noteq> IFU_REDIRECT_STATE_IDLE then Some ifu
      else if itf_fifo_empty (if_ex_rsp_slv ifu) then Some ifu
      else do {
        (ex_rsp, t) \<leftarrow> itf_read (if_ex_rsp_slv ifu);
        (popped, ifu) \<leftarrow> ifu_ctrlq_pop_valid (ifu\<lparr>if_ex_rsp_slv := t\<rparr>) (xr_pc ex_rsp);
        case popped of None \<Rightarrow> Some ifu
        | Some ctrl \<Rightarrow> do {
            let is_boot = ADDR_IN (xr_pc ex_rsp) (if_boot_rom_base ifu) (if_boot_rom_size ifu);
            let ifu = ifu\<lparr>if_bpu_update_mst := \<lparr>bu_vld = True, bu_pc = ce_pc ctrl, bu_ir = ce_ir ctrl, bu_taken = xr_taken ex_rsp,
              bu_target_pc = xr_target_pc ex_rsp, bu_pred_taken = ce_pred_taken ctrl, bu_pred_pc = ce_pred_pc ctrl,
              bu_pred_true = xr_pred_true ex_rsp, bu_is_boot_code = is_boot, bu_pred_cond_bht_hit = ce_pred_cond_bht_hit ctrl,
              bu_pred_jalr_ras_hit = ce_pred_jalr_ras_hit ctrl, bu_pred_jalr_btb_hit = ce_pred_jalr_btb_hit ctrl,
              bu_pred_jalr_btb_miss = ce_pred_jalr_btb_miss ctrl\<rparr>\<rparr>;
            if xr_pred_true ex_rsp then Some ifu
            else do {
              DBG_CHECK (itf_fifo_empty (if_fl_req_mst ifu));
              f \<leftarrow> itf_write (if_fl_req_mst ifu) 0;
              ifu_request_redirect (ifu_ctrlq_flush (ifu\<lparr>if_fl_req_mst := f\<rparr>)) (xr_target_pc ex_rsp) IFU_REDIRECT_STATE_BRANCH
            }
          }
      })"

definition ifu_proc_trap_send :: "ifu \<Rightarrow> ifu option" where
  "ifu_proc_trap_send ifu =
     (if rd_state (if_redirect ifu) \<noteq> IFU_REDIRECT_STATE_IDLE then Some ifu
      else if \<not> itf_fifo_empty (if_ex_rsp_slv ifu) then Some ifu
      else if \<not> fifo_empty (if_ctrlq ifu) then Some ifu
      else if itf_fifo_empty (if_trap_send_slv ifu) then Some ifu
      else do {
        (trap_send, t) \<leftarrow> itf_read (if_trap_send_slv ifu);
        DBG_CHECK (itf_fifo_empty (if_fl_req_mst ifu));
        f \<leftarrow> itf_write (if_fl_req_mst ifu) 0;
        ifu_request_redirect (ifu_ctrlq_flush (ifu\<lparr>if_trap_send_slv := t, if_fl_req_mst := f\<rparr>)) (ts_target_pc trap_send)
          IFU_REDIRECT_STATE_TRAP
      })"

definition ifu_front_proc :: "bpu_cb \<Rightarrow> ifu \<Rightarrow> ifu option" where
  "ifu_front_proc cb ifu = do {
     ost \<leftarrow> ostq_clock (if_fch_ost ifu);
     let ifu = ifu\<lparr>if_fch_ost := ost, if_back_blocked := False\<rparr>;
     let ifu = ifu_clear_bpu_update (ifu_clear_bpu_pred_req cb ifu);
     ifu \<leftarrow> ifu_proc_ex_rsp ifu;
     ifu \<leftarrow> ifu_proc_trap_send ifu;
     if rd_state (if_redirect ifu) = IFU_REDIRECT_STATE_BRANCH \<or> rd_state (if_redirect ifu) = IFU_REDIRECT_STATE_TRAP then
       Some ((ifu_update_fch_state (snd (ifu_proc_redirect ifu)))\<lparr>if_back_blocked := True\<rparr>)
     else case ifu_proc_frontend_flush ifu of
       (True, ifu) \<Rightarrow> Some ((ifu_update_fch_state ifu)\<lparr>if_back_blocked := True\<rparr>)
     | (False, ifu) \<Rightarrow> do {
         ifu \<leftarrow> ifu_proc_fch_rsp ifu;
         ifu_prepare_issue cb ifu
       }
   }"

definition ifu_back_proc :: "ifu \<Rightarrow> ifu option" where
  "ifu_back_proc ifu =
     (if if_back_blocked ifu then Some ifu
      else do {
        ifu \<leftarrow> ifu_apply_bpu_pred_rsp ifu;
        ifu \<leftarrow> ifu_send_ex_req ifu;
        ifu \<leftarrow> ifu_send_fch ifu;
        Some (ifu_update_fch_state ifu)
      })"

definition ifu_clock :: "bpu_cb \<Rightarrow> ifu \<Rightarrow> ifu option" where
  "ifu_clock cb ifu = do {
     ifu \<leftarrow> ifu_front_proc cb ifu;
     ifu \<leftarrow> ifu_back_proc ifu;
     ifu_check_fch_ost ifu;
     Some ifu
   }"

section \<open>The path that is being fetched\<close>

text \<open>
  The outstanding fetches are the live contexts of the table. The pointers are positions modulo
  twice its depth: the response pointer is that of the oldest outstanding fetch, the request
  pointer the one after the youngest, and while answers are being discarded the end pointer is
  the one after the last fetch of the abandoned path. The path that is being fetched is what has
  been fetched, what is being fetched for it, and what will be fetched next.
\<close>

definition ifu_live :: "ifu \<Rightarrow> u32 list" where
  "ifu_live ifu = map fo_pc (ostq_live (if_fch_ost ifu))"

definition ptr_dist :: "nat \<Rightarrow> nat \<Rightarrow> nat \<Rightarrow> nat" where
  "ptr_dist D b e = (if e \<ge> b then e - b else D - b + e)"

definition ifu_discards :: "ifu \<Rightarrow> nat" where
  "ifu_discards ifu = (if fc_discard_vld (if_fch ifu)
     then ptr_dist (if_fch_ost_depth ifu * 2) (fc_rsp_ptr (if_fch ifu)) (fc_discard_end_ptr (if_fch ifu)) else 0)"

definition ifu_ptrs :: "ifu \<Rightarrow> bool" where
  "ifu_ptrs ifu \<longleftrightarrow> (let n = length (ifu_live ifu); D = if_fch_ost_depth ifu * 2; f = if_fch ifu in
     fc_rsp_ptr f < D \<and> n \<le> if_fch_ost_depth ifu \<and> fc_req_ptr f = (fc_rsp_ptr f + n) mod D
     \<and> (fc_discard_vld f \<longrightarrow> (\<exists>d. 0 < d \<and> d \<le> n \<and> fc_discard_end_ptr f = (fc_rsp_ptr f + d) mod D)))"

definition ifu_path :: "ifu \<Rightarrow> u32 list" where
  "ifu_path ifu = map re_pc (fifo_list (if_fch_rspq ifu)) @ drop (ifu_discards ifu) (ifu_live ifu) @ [fc_pc (if_fch ifu)]"

lemma ptr_dist_mod: "b < D \<Longrightarrow> d < D \<Longrightarrow> ptr_dist D b ((b + d) mod D) = d"
  by (cases "b + d < D") (auto simp: ptr_dist_def mod_if)

lemma ptr_next_mod: "p < (D :: nat) \<Longrightarrow> (if p + 1 = D then 0 else p + 1) = (p + 1) mod D"
  by (auto simp: mod_if)

lemma path_ne [simp]: "ifu_path ifu \<noteq> []"
  by (simp add: ifu_path_def)

text \<open>The answers that wait and the requests that are under way belong to the outstanding fetches, in order.\<close>

definition ifu_aligned :: "(u32 \<Rightarrow> fch_rsp \<Rightarrow> bool) \<Rightarrow> ifu \<Rightarrow> u32 list \<Rightarrow> bool" where
  "ifu_aligned R ifu pend \<longleftrightarrow> (\<exists>A. ifu_live ifu = A @ pend @ map fq_pc (itf_list (if_fch_req_mst ifu))
     \<and> list_all2 R A (itf_list (if_fch_rsp_slv ifu)))"

definition entry_of :: "u32 \<Rightarrow> fch_rsp \<Rightarrow> ifu_fch_rspq_entry" where
  "entry_of pc rsp = \<lparr>re_pc = pc, re_ir = fr_ir rsp, re_ok = fr_ok rsp, re_expt = fr_expt rsp, re_cause = fr_cause rsp,
     re_priv = fr_priv rsp, re_tval = fr_tval rsp\<rparr>"

definition ifu_fetched :: "(u32 \<Rightarrow> fch_rsp \<Rightarrow> bool) \<Rightarrow> ifu \<Rightarrow> bool" where
  "ifu_fetched R ifu \<longleftrightarrow> (\<forall>e\<in>set (fifo_list (if_fch_rspq ifu)). \<exists>rsp. R (re_pc e) rsp \<and> e = entry_of (re_pc e) rsp)"

definition ifu_faulted :: "ifu \<Rightarrow> bool" where
  "ifu_faulted ifu \<longleftrightarrow> fc_state (if_fch ifu) = IFU_FCH_STATE_FAULT"

definition ifu_mem :: "ifu \<Rightarrow> bool" where
  "ifu_mem ifu \<longleftrightarrow> ostq_inv (if_fch_ost ifu) \<and> q_depth (if_fch_ost ifu) = if_fch_ost_depth ifu \<and> fifo_inv (if_fch_rspq ifu)
     \<and> itf_inv (if_fch_req_mst ifu) \<and> itf_inv (if_fch_rsp_slv ifu)"

definition ifu_fetch_ok :: "(u32 \<Rightarrow> fch_rsp \<Rightarrow> bool) \<Rightarrow> ifu \<Rightarrow> u32 list \<Rightarrow> bool" where
  "ifu_fetch_ok R ifu pend \<longleftrightarrow> ifu_mem ifu \<and> ifu_ptrs ifu \<and> ifu_aligned R ifu pend
     \<and> successively (\<lambda>x y. y = x + 4) (ifu_path ifu) \<and> ifu_fetched R ifu
     \<and> (ifu_faulted ifu \<longrightarrow> ifu_path ifu = [fc_pc (if_fch ifu)])"

definition ifu_ports :: "ifu \<Rightarrow> bool" where
  "ifu_ports ifu \<longleftrightarrow> itf_inv (if_ex_req_mst ifu) \<and> itf_inv (if_ex_rsp_slv ifu) \<and> itf_inv (if_fl_req_mst ifu)
     \<and> itf_inv (if_fch_expt_mst ifu) \<and> itf_inv (if_trap_send_slv ifu) \<and> fifo_inv (if_ctrlq ifu)"

text \<open>The packets the unit has written and not yet lost to their readers.\<close>

definition ifu_outs :: "ifu \<Rightarrow> ex_req list \<times> fl_req list \<times> hart_expt list" where
  "ifu_outs ifu = (itf_list (if_ex_req_mst ifu), itf_list (if_fl_req_mst ifu), itf_list (if_fch_expt_mst ifu))"

section \<open>Operations on the fetch path\<close>

lemma ptrsD:
  assumes "ifu_ptrs ifu"
  shows "fc_rsp_ptr (if_fch ifu) < if_fch_ost_depth ifu * 2" "length (ifu_live ifu) \<le> if_fch_ost_depth ifu"
    "fc_req_ptr (if_fch ifu) = (fc_rsp_ptr (if_fch ifu) + length (ifu_live ifu)) mod (if_fch_ost_depth ifu * 2)"
    "ifu_discards ifu \<le> length (ifu_live ifu)" "fc_discard_vld (if_fch ifu) = (0 < ifu_discards ifu)"
    "fc_discard_vld (if_fch ifu) \<Longrightarrow> fc_discard_end_ptr (if_fch ifu) = (fc_rsp_ptr (if_fch ifu) + ifu_discards ifu) mod (if_fch_ost_depth ifu * 2)"
proof -
  show a: "fc_rsp_ptr (if_fch ifu) < if_fch_ost_depth ifu * 2" "length (ifu_live ifu) \<le> if_fch_ost_depth ifu"
    "fc_req_ptr (if_fch ifu) = (fc_rsp_ptr (if_fch ifu) + length (ifu_live ifu)) mod (if_fch_ost_depth ifu * 2)"
    using assms by (simp_all add: ifu_ptrs_def Let_def)
  have *: "0 < ifu_discards ifu \<and> ifu_discards ifu \<le> length (ifu_live ifu)
    \<and> fc_discard_end_ptr (if_fch ifu) = (fc_rsp_ptr (if_fch ifu) + ifu_discards ifu) mod (if_fch_ost_depth ifu * 2)" if v: "fc_discard_vld (if_fch ifu)"
  proof -
    from assms v obtain d where d: "0 < d" "d \<le> length (ifu_live ifu)"
      "fc_discard_end_ptr (if_fch ifu) = (fc_rsp_ptr (if_fch ifu) + d) mod (if_fch_ost_depth ifu * 2)" by (auto simp: ifu_ptrs_def Let_def)
    have "ifu_discards ifu = d" using ptr_dist_mod [OF a(1), of d] d a v by (simp add: ifu_discards_def)
    with d show ?thesis by simp
  qed
  have z: "ifu_discards ifu = 0" if "\<not> fc_discard_vld (if_fch ifu)" using that by (simp add: ifu_discards_def)
  show "ifu_discards ifu \<le> length (ifu_live ifu)" "fc_discard_vld (if_fch ifu) = (0 < ifu_discards ifu)" using * z by fastforce+
  show "fc_discard_vld (if_fch ifu) \<Longrightarrow> fc_discard_end_ptr (if_fch ifu) = (fc_rsp_ptr (if_fch ifu) + ifu_discards ifu) mod (if_fch_ost_depth ifu * 2)"
    using * by simp
qed

lemma check_ok:
  assumes m: "ifu_mem ifu" and p: "ifu_ptrs ifu"
  shows "ifu_check_fch_ost ifu = Some ()"
proof -
  note d = ptrsD [OF p]
  from m have inv: "ostq_inv (if_fch_ost ifu)" by (simp add: ifu_mem_def)
  have n: "q_count (if_fch_ost ifu) - q_free_pending_count (if_fch_ost ifu) = length (ifu_live ifu)"
    "q_free_pending_count (if_fch_ost ifu) \<le> q_count (if_fch_ost ifu)"
    using ostq_count_live [OF inv] inv by (auto simp: ifu_live_def ostq_off_def ostq_head_freed_def ostq_inv_def)
  have D: "0 < if_fch_ost_depth ifu" using d(1) by simp
  have dist: "ifu_fch_ptr_distance ifu (fc_rsp_ptr (if_fch ifu)) ((fc_rsp_ptr (if_fch ifu) + k) mod (if_fch_ost_depth ifu * 2)) = Some k"
    if "k \<le> if_fch_ost_depth ifu" for k
    using that ptr_dist_mod [OF d(1), of k] d(1) D by (simp add: ifu_fch_ptr_distance_def ptr_dist_def)
  show ?thesis using n dist [OF d(2)] dist [of "ifu_discards ifu"] d by (auto simp: ifu_check_fch_ost_def)
qed

text \<open>Starting over at another address abandons everything outstanding.\<close>

definition restart :: "ifu \<Rightarrow> u32 \<Rightarrow> ifu_fch_state \<Rightarrow> ifu" where
  "restart ifu pc st = ifu\<lparr>if_fch := (if_fch ifu)\<lparr>fc_discard_end_ptr := fc_req_ptr (if_fch ifu),
      fc_discard_vld := fc_rsp_ptr (if_fch ifu) \<noteq> fc_req_ptr (if_fch ifu), fc_pc := pc, fc_ir := 0, fc_state := st\<rparr>,
    if_fch_rspq := fifo_clear (if_fch_rspq ifu)\<rparr>"

lemma flush_restart: "ifu_flush_fetch_path ifu pc = restart ifu pc IFU_FCH_STATE_REQ"
  "ifu_fault_fetch_path ifu pc = restart ifu pc IFU_FCH_STATE_FAULT"
  by (simp_all add: ifu_flush_fetch_path_def ifu_fault_fetch_path_def restart_def ifu_set_fch_discard_boundary_def)

lemma restart_frame [simp]:
  "if_issue (restart ifu pc st) = if_issue ifu" "if_ctrlq (restart ifu pc st) = if_ctrlq ifu"
  "if_redirect (restart ifu pc st) = if_redirect ifu" "ifu_outs (restart ifu pc st) = ifu_outs ifu"
  "ifu_ports (restart ifu pc st) = ifu_ports ifu" "if_back_blocked (restart ifu pc st) = if_back_blocked ifu"
  "if_fch_ost (restart ifu pc st) = if_fch_ost ifu" "ifu_live (restart ifu pc st) = ifu_live ifu"
  "if_exu_state_i (restart ifu pc st) = if_exu_state_i ifu" "ifu_faulted (restart ifu pc st) = (st = IFU_FCH_STATE_FAULT)"
  "fc_pc (if_fch (restart ifu pc st)) = pc"
  by (simp_all add: restart_def ifu_outs_def ifu_ports_def ifu_live_def ifu_faulted_def)

lemma restart_ok:
  assumes m: "ifu_mem ifu" and p: "ifu_ptrs ifu" and a: "ifu_aligned R ifu pend"
  shows "ifu_fetch_ok R (restart ifu pc st) pend" "ifu_path (restart ifu pc st) = [pc]"
proof -
  let ?i = "restart ifu pc st"
  note d = ptrsD [OF p]
  have D: "length (ifu_live ifu) < if_fch_ost_depth ifu * 2" using d by linarith
  have e: "ptr_dist (if_fch_ost_depth ifu * 2) (fc_rsp_ptr (if_fch ifu)) (fc_req_ptr (if_fch ifu)) = length (ifu_live ifu)"
    using ptr_dist_mod [OF d(1) D] d(3) by simp
  have v: "fc_rsp_ptr (if_fch ifu) \<noteq> fc_req_ptr (if_fch ifu) \<longleftrightarrow> 0 < length (ifu_live ifu)"
  proof (cases "length (ifu_live ifu) = 0")
    case True
    then show ?thesis using d(1,3) by simp
  next
    case False
    then show ?thesis using e by (auto simp: ptr_dist_def split: if_splits)
  qed
  have disc: "ifu_discards ?i = length (ifu_live ifu)" using e v by (auto simp: ifu_discards_def restart_def)
  have l: "ifu_live ?i = ifu_live ifu" by simp
  have rq: "fifo_inv (fifo_clear (if_fch_rspq ifu))" "fifo_list (fifo_clear (if_fch_rspq ifu)) = []"
    using m fifo_clear_inv by (auto simp: ifu_mem_def)
  show path: "ifu_path ?i = [pc]" using disc rq by (simp add: ifu_path_def) (simp add: restart_def rq)
  have "ifu_ptrs ?i" using d(1-3) v
    by (simp add: ifu_ptrs_def Let_def) (auto simp: restart_def intro!: exI [of _ "length (ifu_live ifu)"])
  moreover have "ifu_mem ?i" using m rq by (simp add: ifu_mem_def restart_def)
  moreover have "ifu_aligned R ?i pend" using a by (simp add: ifu_aligned_def) (simp add: restart_def)
  moreover have "ifu_fetched R ?i" using rq by (simp add: ifu_fetched_def restart_def)
  ultimately show "ifu_fetch_ok R ?i pend" unfolding ifu_fetch_ok_def path by simp
qed

text \<open>What the fetch path depends on.\<close>

definition ifu_core :: "ifu \<Rightarrow> _" where
  "ifu_core ifu = (if_fch_ost ifu, if_fch_ost_depth ifu, if_fch_rspq ifu, if_fch_req_mst ifu, if_fch_rsp_slv ifu,
     fc_pc (if_fch ifu), fc_req_ptr (if_fch ifu), fc_rsp_ptr (if_fch ifu), fc_discard_end_ptr (if_fch ifu),
     fc_discard_vld (if_fch ifu), ifu_faulted ifu)"

lemma core_cong:
  assumes "ifu_core ifu = ifu_core ifu'"
  shows "ifu_fetch_ok R ifu pend = ifu_fetch_ok R ifu' pend" "ifu_path ifu = ifu_path ifu'" "ifu_faulted ifu = ifu_faulted ifu'"
    "ifu_live ifu = ifu_live ifu'"
  using assms by (simp_all add: ifu_core_def ifu_fetch_ok_def ifu_mem_def ifu_ptrs_def ifu_live_def Let_def ifu_aligned_def
    ifu_path_def ifu_discards_def ifu_fetched_def)

lemma update_state_frame [simp]:
  "if_issue (ifu_update_fch_state ifu) = if_issue ifu" "if_ctrlq (ifu_update_fch_state ifu) = if_ctrlq ifu"
  "if_redirect (ifu_update_fch_state ifu) = if_redirect ifu" "ifu_outs (ifu_update_fch_state ifu) = ifu_outs ifu"
  "ifu_ports (ifu_update_fch_state ifu) = ifu_ports ifu" "if_back_blocked (ifu_update_fch_state ifu) = if_back_blocked ifu"
  "ifu_core (ifu_update_fch_state ifu) = ifu_core ifu" "if_bpu_pred_rsp_slv (ifu_update_fch_state ifu) = if_bpu_pred_rsp_slv ifu"
  "if_ex_rsp_slv (ifu_update_fch_state ifu) = if_ex_rsp_slv ifu" "if_trap_send_slv (ifu_update_fch_state ifu) = if_trap_send_slv ifu"
  by (simp_all add: ifu_update_fch_state_def ifu_outs_def ifu_ports_def ifu_core_def ifu_faulted_def)

lemma update_state_ok [simp]:
  "ifu_fetch_ok R (ifu_update_fch_state ifu) pend = ifu_fetch_ok R ifu pend" "ifu_path (ifu_update_fch_state ifu) = ifu_path ifu"
  "ifu_faulted (ifu_update_fch_state ifu) = ifu_faulted ifu"
  using core_cong [of "ifu_update_fch_state ifu" ifu] by simp_all

text \<open>What an operation that only moves the fetch path leaves alone.\<close>

definition ifu_rest :: "ifu \<Rightarrow> _" where
  "ifu_rest ifu = (if_ex_req_mst ifu, if_ex_rsp_slv ifu, if_fl_req_mst ifu, if_fch_expt_mst ifu, if_trap_send_slv ifu, if_ctrlq ifu,
     if_issue ifu, if_redirect ifu, if_back_blocked ifu, if_bpu_pred_rsp_slv ifu)"

lemma rest_cong:
  assumes "ifu_rest ifu = ifu_rest ifu'"
  shows "ifu_outs ifu = ifu_outs ifu'" "ifu_ports ifu = ifu_ports ifu'" "if_issue ifu = if_issue ifu'" "if_redirect ifu = if_redirect ifu'"
    "if_back_blocked ifu = if_back_blocked ifu'" "if_bpu_pred_rsp_slv ifu = if_bpu_pred_rsp_slv ifu'" "if_ctrlq ifu = if_ctrlq ifu'"
    "if_ex_rsp_slv ifu = if_ex_rsp_slv ifu'" "if_trap_send_slv ifu = if_trap_send_slv ifu'"
  using assms by (simp_all add: ifu_rest_def ifu_outs_def ifu_ports_def)

text \<open>Taking an answer does not move the path: it is dropped, or the oldest fetch of the path becomes fetched.\<close>

lemma fch_rsp_ok:
  assumes ok: "ifu_fetch_ok R ifu pend" and nf: "\<not> ostq_head_freed (if_fch_ost ifu)"
  shows "\<exists>ifu'. ifu_proc_fch_rsp ifu = Some ifu' \<and> ifu_fetch_ok R ifu' pend \<and> ifu_path ifu' = ifu_path ifu
    \<and> ifu_faulted ifu' = ifu_faulted ifu \<and> ifu_rest ifu' = ifu_rest ifu"
proof (cases "itf_fifo_empty (if_fch_rsp_slv ifu) \<or> ifu_live ifu = [] \<or> \<not> fc_discard_vld (if_fch ifu) \<and> fifo_full (if_fch_rspq ifu)")
  case True
  from ok have inv: "ostq_inv (if_fch_ost ifu)" "itf_inv (if_fch_rsp_slv ifu)" by (simp_all add: ifu_fetch_ok_def ifu_mem_def)
  have "ifu_proc_fch_rsp ifu = Some ifu"
  proof (cases "itf_fifo_empty (if_fch_rsp_slv ifu)")
    case F: False
    obtain x q' where "itf_fifo_get_front (if_fch_rsp_slv ifu) = Some x" by (rule itf.pop_not_empty [OF inv(2) F])
    then show ?thesis using True F ostq_peek_live [OF inv(1)] nf by (auto simp: ifu_proc_fch_rsp_def ifu_live_def)
  qed (simp add: ifu_proc_fch_rsp_def)
  with ok show ?thesis by simp
next
  case False
  then have ne: "\<not> itf_fifo_empty (if_fch_rsp_slv ifu)" and lne: "ostq_live (if_fch_ost ifu) \<noteq> []"
    and room: "\<not> fc_discard_vld (if_fch ifu) \<Longrightarrow> \<not> fifo_full (if_fch_rspq ifu)" by (auto simp: ifu_live_def)
  from ok have m: "ifu_mem ifu" and p: "ifu_ptrs ifu" and al: "ifu_aligned R ifu pend" and su: "successively (\<lambda>x y. y = x + 4) (ifu_path ifu)"
    and fe: "ifu_fetched R ifu" and fa: "ifu_faulted ifu \<Longrightarrow> ifu_path ifu = [fc_pc (if_fch ifu)]" by (simp_all add: ifu_fetch_ok_def)
  from m have inv: "ostq_inv (if_fch_ost ifu)" "itf_inv (if_fch_rsp_slv ifu)" "fifo_inv (if_fch_rspq ifu)" by (simp_all add: ifu_mem_def)
  obtain rsp t where t: "itf_read (if_fch_rsp_slv ifu) = Some (rsp, t)" "itf_inv t" "itf_list (if_fch_rsp_slv ifu) = rsp # itf_list t"
    "itf_fifo_get_front (if_fch_rsp_slv ifu) = Some rsp" by (rule itf.pop_not_empty [OF inv(2) ne])
  have pop: "itf_fifo_pop_front (if_fch_rsp_slv ifu) = Some t" using itf_pop_front_read [OF inv(2) ne] t(1) by simp
  from ostq_free_live [OF inv(1) nf lne] obtain ost where
    o: "ostq_free_head (if_fch_ost ifu) = Some ost" "ostq_inv ost" "ostq_live ost = tl (ostq_live (if_fch_ost ifu))" "q_depth ost = q_depth (if_fch_ost ifu)" by blast
  define c where "c = hd (ostq_live (if_fch_ost ifu))"
  have live: "ifu_live ifu = fo_pc c # map fo_pc (ostq_live ost)" using lne o(3) by (cases "ostq_live (if_fch_ost ifu)") (auto simp: ifu_live_def c_def)
  have peek: "ostq_peek_head (if_fch_ost ifu) = Some (Some (q_rptr (if_fch_ost ifu), c))" using ostq_peek_live [OF inv(1)] nf lne by (simp add: c_def)
  from al live t(3) obtain A where A: "map fo_pc (ostq_live ost) = A @ pend @ map fq_pc (itf_list (if_fch_req_mst ifu))" "list_all2 R A (itf_list t)" "R (fo_pc c) rsp"
    unfolding ifu_aligned_def by (auto simp: list_all2_Cons2)
  note d = ptrsD [OF p]
  let ?D = "if_fch_ost_depth ifu * 2" and ?f = "if_fch ifu"
  let ?r = "(fc_rsp_ptr ?f + 1) mod ?D"
  have D: "0 < ?D" using d(1) by simp
  have nxt: "ifu_fch_ptr_next ifu (fc_rsp_ptr ?f) = Some ?r" using d(1) ptr_next_mod [OF d(1)] by (simp add: ifu_fch_ptr_next_def)
  have len: "length (ifu_live ifu) = Suc (length (ostq_live ost))" using live by simp
  have req: "fc_req_ptr ?f = (?r + length (ostq_live ost)) mod ?D" using d(3) len by (simp add: mod_add_left_eq)
  let ?i = "ifu\<lparr>if_fch_rsp_slv := t, if_perf_fch_rsp_inst := if_perf_fch_rsp_inst ifu + 1, if_fch_ost := ost\<rparr>"
  have al': "ifu_aligned R i pend" if "ifu_live i = map fo_pc (ostq_live ost)" "if_fch_req_mst i = if_fch_req_mst ifu" "if_fch_rsp_slv i = t" for i
    using that A by (auto simp: ifu_aligned_def)
  show ?thesis
  proof (cases "fc_discard_vld ?f")
    case v: True
    let ?i' = "?i\<lparr>if_fch := ?f\<lparr>fc_rsp_ptr := ?r, fc_discard_vld := ?r \<noteq> fc_discard_end_ptr ?f\<rparr>\<rparr>"
    note e = d(6) [OF v]
    from v d(5) obtain k where k: "ifu_discards ifu = Suc k" using gr0_conv_Suc by auto
    have kl: "k \<le> length (ostq_live ost)" "Suc k < ?D" using k d(2,4) len by simp_all
    have e': "fc_discard_end_ptr ?f = (?r + k) mod ?D" using e k by (simp add: mod_add_left_eq)
    have v': "?r \<noteq> fc_discard_end_ptr ?f \<longleftrightarrow> 0 < k"
    proof (cases k)
      case 0
      then show ?thesis using e' by simp
    next
      case (Suc j)
      then show ?thesis using e' mod_add_inj [of ?r 0 ?D k] kl D by fastforce
    qed
    have run: "ifu_proc_fch_rsp ifu = Some ?i'"
      using ne peek t(4) v pop o(1) nxt by (simp add: ifu_proc_fch_rsp_def Let_def)
    have lv: "ifu_live ?i' = map fo_pc (ostq_live ost)" by (simp add: ifu_live_def)
    have ds: "ifu_discards ?i' = k"
      using ptr_dist_mod [of ?r ?D k] kl D e' v' by (auto simp: ifu_discards_def)
    have pa: "ifu_path ?i' = ifu_path ifu" unfolding ifu_path_def ds k lv live by simp
    have "ifu_ptrs ?i'" using D req kl e' v' d(2) len lv by (auto simp: ifu_ptrs_def Let_def)
    moreover have "ifu_mem ?i'" using m t o by (simp add: ifu_mem_def)
    moreover have "ifu_aligned R ?i' pend" by (rule al') (simp_all add: ifu_live_def)
    moreover have "ifu_faulted ?i' = ifu_faulted ifu" "ifu_fetched R ?i'" "ifu_rest ?i' = ifu_rest ifu" using fe by (simp_all add: ifu_faulted_def ifu_fetched_def ifu_rest_def)
    ultimately show ?thesis using run pa su fa by (simp add: ifu_fetch_ok_def)
  next
    case v: False
    from fifo.push_ok [OF inv(3) room [OF v], of "entry_of (fo_pc c) rsp"] obtain q where
      q: "fifo_push (if_fch_rspq ifu) (entry_of (fo_pc c) rsp) = Some q" "fifo_inv q" "fifo_list q = fifo_list (if_fch_rspq ifu) @ [entry_of (fo_pc c) rsp]" by blast
    let ?i' = "?i\<lparr>if_fch_rspq := q, if_fch := ?f\<lparr>fc_rsp_ptr := ?r, fc_ir := fr_ir rsp, fc_state := IFU_FCH_STATE_RSP\<rparr>\<rparr>"
    have z: "ifu_discards ifu = 0" using v by (simp add: ifu_discards_def)
    have run: "ifu_proc_fch_rsp ifu = Some ?i'"
      using ne peek t(4) v pop o(1) nxt room [OF v] q(1) by (simp add: ifu_proc_fch_rsp_def Let_def entry_of_def)
    have lv: "ifu_live ?i' = map fo_pc (ostq_live ost)" by (simp add: ifu_live_def)
    have ds: "ifu_discards ?i' = 0" using v by (simp add: ifu_discards_def)
    have pa: "ifu_path ?i' = ifu_path ifu" unfolding ifu_path_def ds z lv live using q(3) by (simp add: entry_of_def)
    have nfa: "\<not> ifu_faulted ifu" using fa z live by (auto simp: ifu_path_def)
    have "ifu_ptrs ?i'" using D req d(2) len v lv by (auto simp: ifu_ptrs_def Let_def)
    moreover have "ifu_mem ?i'" using m t o q by (simp add: ifu_mem_def)
    moreover have "ifu_aligned R ?i' pend" by (rule al') (simp_all add: ifu_live_def)
    moreover have "ifu_fetched R ?i'" using fe q(3) A(3) by (auto simp: ifu_fetched_def entry_of_def)
    moreover have "\<not> ifu_faulted ?i'" "ifu_rest ?i' = ifu_rest ifu" by (simp_all add: ifu_faulted_def ifu_rest_def)
    ultimately show ?thesis using run pa su nfa by (simp add: ifu_fetch_ok_def)
  qed
qed

text \<open>A new request extends the path by the next instruction.\<close>

lemma send_fch_ok:
  assumes ok: "ifu_fetch_ok R ifu pend"
  shows "\<exists>ifu'. ifu_send_fch ifu = Some ifu' \<and> ifu_fetch_ok R ifu' pend \<and> hd (ifu_path ifu') = hd (ifu_path ifu)
    \<and> ifu_faulted ifu' = ifu_faulted ifu \<and> ifu_rest ifu' = ifu_rest ifu"
proof -
  let ?P = "\<lambda>ifu'. ifu_fetch_ok R ifu' pend \<and> hd (ifu_path ifu') = hd (ifu_path ifu)
    \<and> ifu_faulted ifu' = ifu_faulted ifu \<and> ifu_rest ifu' = ifu_rest ifu"
  have stay: "?P ifu" "?P (ifu\<lparr>if_perf_fch_ost_full := if_perf_fch_ost_full ifu + 1\<rparr>)"
    using ok core_cong [of "ifu\<lparr>if_perf_fch_ost_full := if_perf_fch_ost_full ifu + 1\<rparr>" ifu]
    by (simp_all add: ifu_core_def ifu_faulted_def ifu_rest_def)
  have go: "\<exists>ifu'. ifu_send_fch ifu = Some ifu' \<and> ?P ifu'"
    if g: "fc_state (if_fch ifu) \<noteq> IFU_FCH_STATE_FAULT" "rd_state (if_redirect ifu) = IFU_REDIRECT_STATE_IDLE"
      "\<not> (is_vld (if_issue ifu) \<and> \<not> is_pred_vld (if_issue ifu))"
      "\<not> (is_vld (if_issue ifu) \<and> is_pred_vld (if_issue ifu) \<and> is_is_ctrl (if_issue ifu) \<and> is_pred_taken (if_issue ifu)
        \<and> \<not> is_pred_redirected (if_issue ifu))"
      "\<not> ifu_fch_ost_full ifu" "\<not> ostq_full (if_fch_ost ifu)" "\<not> itf_fifo_full (if_fch_req_mst ifu)"
  proof -
    from ok have m: "ifu_mem ifu" and p: "ifu_ptrs ifu" and al: "ifu_aligned R ifu pend" and su: "successively (\<lambda>x y. y = x + 4) (ifu_path ifu)"
      and fe: "ifu_fetched R ifu" by (simp_all add: ifu_fetch_ok_def)
    from m have inv: "ostq_inv (if_fch_ost ifu)" "itf_inv (if_fch_req_mst ifu)" by (simp_all add: ifu_mem_def)
    from ostq_alloc_live [OF inv(1) g(6), of "\<lparr>fo_pc = fc_pc (if_fch ifu)\<rparr>"] obtain sl ost where
      o: "ostq_alloc (if_fch_ost ifu) \<lparr>fo_pc = fc_pc (if_fch ifu)\<rparr> = Some (Some (sl, ost))" "ostq_inv ost"
      "ostq_live ost = ostq_live (if_fch_ost ifu) @ [\<lparr>fo_pc = fc_pc (if_fch ifu)\<rparr>]" "q_depth ost = q_depth (if_fch_ost ifu)" by blast
    from itf.push_ok [OF inv(2) g(7), of "\<lparr>fq_pc = fc_pc (if_fch ifu)\<rparr>"] obtain t where
      t: "itf_write (if_fch_req_mst ifu) \<lparr>fq_pc = fc_pc (if_fch ifu)\<rparr> = Some t" "itf_inv t"
      "itf_list t = itf_list (if_fch_req_mst ifu) @ [\<lparr>fq_pc = fc_pc (if_fch ifu)\<rparr>]" by blast
    note d = ptrsD [OF p]
    let ?D = "if_fch_ost_depth ifu * 2" and ?f = "if_fch ifu"
    let ?r = "(fc_req_ptr ?f + 1) mod ?D"
    have D: "0 < ?D" using d(1) by simp
    have "fc_req_ptr ?f < ?D" using d(3) D by simp
    then have nxt: "ifu_fch_ptr_next ifu (fc_req_ptr ?f) = Some ?r" using ptr_next_mod [of "fc_req_ptr ?f" ?D] by (simp add: ifu_fch_ptr_next_def)
    let ?i = "ifu\<lparr>if_fch_ost := ost, if_fch_req_mst := t, if_fch := ?f\<lparr>fc_req_ptr := ?r, fc_pc := fc_pc ?f + 4, fc_state := IFU_FCH_STATE_PEND\<rparr>\<rparr>"
    have run: "ifu_send_fch ifu = Some ?i" using g(1,2,5-7) o(1) t(1) nxt unfolding ifu_send_fch_def by (simp add: g(3,4))
    have lv: "ifu_live ?i = ifu_live ifu @ [fc_pc ?f]" using o(3) by (simp add: ifu_live_def)
    have ds: "ifu_discards ?i = ifu_discards ifu" by (simp add: ifu_discards_def)
    have pa: "ifu_path ?i = ifu_path ifu @ [fc_pc ?f + 4]" unfolding ifu_path_def ds lv using d(4) by simp
    have la: "last (ifu_path ifu) = fc_pc ?f" by (simp add: ifu_path_def)
    have cap: "length (ifu_live ifu) < if_fch_ost_depth ifu"
      using ostq_count_live [OF inv(1)] g(5) by (simp add: ifu_live_def ifu_fch_ost_full_def ostq_count_def)
    have "ifu_ptrs ?i" unfolding ifu_ptrs_def Let_def lv using d(1,3,6) cap ds
      by (auto simp: mod_Suc_eq intro!: exI [of _ "ifu_discards ifu"]) (use d(4,5) in simp_all)
    moreover have "ifu_mem ?i" using m o t by (simp add: ifu_mem_def)
    moreover from al have "ifu_aligned R ?i pend" unfolding ifu_aligned_def lv using t(3) by auto
    moreover have "ifu_fetched R ?i" using fe by (simp add: ifu_fetched_def)
    moreover have "successively (\<lambda>x y. y = x + 4) (ifu_path ?i)" using su la unfolding pa successively_append_iff by simp
    moreover have "hd (ifu_path ?i) = hd (ifu_path ifu)" unfolding pa by simp
    moreover have "\<not> ifu_faulted ?i" "\<not> ifu_faulted ifu" "ifu_rest ?i = ifu_rest ifu" using g(1) by (simp_all add: ifu_faulted_def ifu_rest_def)
    ultimately show ?thesis using run by (simp add: ifu_fetch_ok_def)
  qed
  show ?thesis
  proof (rule ccontr)
    assume n: "\<not> ?thesis"
    then have x: "ifu_send_fch ifu \<noteq> Some ifu" "ifu_send_fch ifu \<noteq> Some (ifu\<lparr>if_perf_fch_ost_full := if_perf_fch_ost_full ifu + 1\<rparr>)" using stay by blast+
    have "\<exists>ifu'. ifu_send_fch ifu = Some ifu' \<and> ?P ifu'" by (rule go; use x in \<open>auto simp: ifu_send_fch_def split: if_splits\<close>)
    with n show False by blast
  qed
qed

section \<open>Instructions on their way to the execution unit\<close>

text \<open>
  What the fetch unit relies on of a branch predictor: it answers exactly when it is asked, it
  predicts only control instructions as taken, and an instruction that it does not predict as
  taken is followed by the next one.
\<close>

locale branch_predictor =
  fixes predict :: bpu_cb
  assumes predict_vld: "pr_vld (predict u req) = pq_vld req"
    and taken_ctrl: "pr_pred_taken (predict u req) \<Longrightarrow> pr_is_ctrl (predict u req)"
    and fallthrough: "\<not> pr_pred_taken (predict u req) \<Longrightarrow> pr_pred_pc (predict u req) = pq_pc req + 4"

lemma eval_rules:
  "pr_vld (bpu_eval_pred_req bpu u req) = pq_vld req"
  "pr_pred_taken (bpu_eval_pred_req bpu u req) \<Longrightarrow> pr_is_ctrl (bpu_eval_pred_req bpu u req)"
  "\<not> pr_pred_taken (bpu_eval_pred_req bpu u req) \<Longrightarrow> pr_pred_pc (bpu_eval_pred_req bpu u req) = pq_pc req + 4"
  by (auto simp: bpu_eval_pred_req_def Let_def split: option.splits if_splits)

interpretation bpu_predictor: branch_predictor "bpu_eval_pred_req bpu" for bpu
  by unfold_locales (rule eval_rules; assumption?)+

definition ifu_answered :: "(u32 \<Rightarrow> fch_rsp \<Rightarrow> bool) \<Rightarrow> u32 \<Rightarrow> u32 \<Rightarrow> bool" where
  "ifu_answered R pc ir \<longleftrightarrow> (\<exists>rsp. R pc rsp \<and> fr_ok rsp \<and> \<not> fr_expt rsp \<and> fr_ir rsp = ir)"

text \<open>An instruction that waits for its prediction, and one that has it.\<close>

definition issue_fresh :: "(u32 \<Rightarrow> fch_rsp \<Rightarrow> bool) \<Rightarrow> ifu \<Rightarrow> bool" where
  "issue_fresh R ifu \<longleftrightarrow> (let iss = if_issue ifu in ifu_answered R (is_pc iss) (is_ir iss) \<and> \<not> ifu_faulted ifu
     \<and> hd (ifu_path ifu) = is_pc iss + 4)"

definition issue_ready :: "(u32 \<Rightarrow> fch_rsp \<Rightarrow> bool) \<Rightarrow> ifu \<Rightarrow> bool" where
  "issue_ready R ifu \<longleftrightarrow> (let iss = if_issue ifu in ifu_answered R (is_pc iss) (is_ir iss) \<and> \<not> ifu_faulted ifu
     \<and> is_pred_vld iss \<and> hd (ifu_path ifu) = is_pred_target_pc iss \<and> (\<not> is_pred_taken iss \<longrightarrow> is_pred_target_pc iss = is_pc iss + 4))"

text \<open>The next instruction to hand over; none after a fetch exception.\<close>

definition ifu_next :: "ifu \<Rightarrow> u32 option" where
  "ifu_next ifu = (if is_vld (if_issue ifu) then Some (is_pc (if_issue ifu)) else if ifu_faulted ifu then None
     else Some (hd (ifu_path ifu)))"

lemma hd_path_rspq:
  assumes "fifo_inv (if_fch_rspq ifu)" "\<not> fifo_empty (if_fch_rspq ifu)"
  obtains e q where "fifo_get_front (if_fch_rspq ifu) = Some e" "fifo_pop (if_fch_rspq ifu) = Some (e, q)" "fifo_inv q"
    "fifo_list (if_fch_rspq ifu) = e # fifo_list q" "hd (ifu_path ifu) = re_pc e"
proof -
  obtain e q where "fifo_pop (if_fch_rspq ifu) = Some (e, q)" "fifo_inv q" "fifo_list (if_fch_rspq ifu) = e # fifo_list q"
    "fifo_get_front (if_fch_rspq ifu) = Some e" by (rule fifo.pop_not_empty [OF assms])
  then show ?thesis by (intro that) (simp_all add: ifu_path_def)
qed

lemma pop_rspq_ok:
  assumes ok: "ifu_fetch_ok R ifu pend" and q: "fifo_inv q" "fifo_list (if_fch_rspq ifu) = e # fifo_list q"
    and i: "ifu_core ifu' = ifu_core (ifu\<lparr>if_fch_rspq := q\<rparr>)"
  shows "ifu_fetch_ok R ifu' pend" "ifu_path ifu = re_pc e # ifu_path ifu'" "hd (ifu_path ifu') = re_pc e + 4"
    "ifu_faulted ifu' = ifu_faulted ifu" "\<not> ifu_faulted ifu"
proof -
  let ?i = "ifu\<lparr>if_fch_rspq := q\<rparr>"
  have l: "ifu_live ?i = ifu_live ifu" "ifu_discards ?i = ifu_discards ifu" "ifu_faulted ?i = ifu_faulted ifu"
    by (simp_all add: ifu_live_def ifu_discards_def ifu_faulted_def)
  have p: "ifu_path ifu = re_pc e # ifu_path ?i" unfolding ifu_path_def l using q(2) by simp
  from ok have su: "successively (\<lambda>x y. y = x + 4) (ifu_path ifu)" by (simp add: ifu_fetch_ok_def)
  have h: "hd (ifu_path ?i) = re_pc e + 4 \<and> successively (\<lambda>x y. y = x + 4) (ifu_path ?i)"
    using su path_ne [of ?i] unfolding p by (cases "ifu_path ?i") auto
  have nf: "\<not> ifu_faulted ifu" using ok p by (auto simp: ifu_fetch_ok_def)
  have "ifu_mem ?i" "ifu_ptrs ?i" "ifu_aligned R ?i pend" "ifu_fetched R ?i" using ok q l
    by (simp_all add: ifu_fetch_ok_def ifu_mem_def ifu_ptrs_def ifu_aligned_def ifu_fetched_def)
  with h nf l have "ifu_fetch_ok R ?i pend" by (simp add: ifu_fetch_ok_def)
  then show "ifu_fetch_ok R ifu' pend" "ifu_path ifu = re_pc e # ifu_path ifu'" "hd (ifu_path ifu') = re_pc e + 4"
    "ifu_faulted ifu' = ifu_faulted ifu" "\<not> ifu_faulted ifu" using core_cong [OF i] h p l nf by simp_all
qed

section \<open>What a tick does\<close>

text \<open>
  Seen from outside a tick does one of five things, and the next instruction to hand over
  moves accordingly: it is the predicted successor of the one handed over, the target of a
  redirect or of a flush, and nothing after a fetch exception has been reported.
\<close>

datatype ifu_act = Redirected u32 | Flushed u32 | Issued ex_req | Faulted hart_expt | Waited

fun path_step :: "u32 option \<Rightarrow> ifu_act \<Rightarrow> u32 option option" where
  "path_step n (Redirected pc) = Some (Some pc)"
| "path_step n (Flushed pc) = Some (Some pc)"
| "path_step n (Issued r) = (if n = Some (er_pc r) then Some (Some (er_pred_pc r)) else None)"
| "path_step n (Faulted e) = (if n = Some (he_pc e) then Some None else None)"
| "path_step n Waited = Some n"

fun act_outs :: "ifu_act \<Rightarrow> ex_req list \<times> fl_req list \<times> hart_expt list" where
  "act_outs (Redirected pc) = ([], [0], [])"
| "act_outs (Flushed pc) = ([], [], [])"
| "act_outs (Issued r) = ([r], [], [])"
| "act_outs (Faulted e) = ([], [], [e])"
| "act_outs Waited = ([], [], [])"

definition outs_grow :: "ifu \<Rightarrow> ifu_act \<Rightarrow> ifu \<Rightarrow> bool" where
  "outs_grow ifu act ifu' \<longleftrightarrow> (case (ifu_outs ifu, act_outs act) of ((a, b, c), (x, y, z)) \<Rightarrow> ifu_outs ifu' = (a @ x, b @ y, c @ z))"

text \<open>An instruction handed over is the answer to its fetch, with a prediction; an exception reported is the answer to its fetch.\<close>

fun act_just :: "(u32 \<Rightarrow> fch_rsp \<Rightarrow> bool) \<Rightarrow> ifu_act \<Rightarrow> bool" where
  "act_just R (Issued r) = (ifu_answered R (er_pc r) (er_inst r) \<and> (\<not> er_pred_taken r \<longrightarrow> er_pred_pc r = er_pc r + 4))"
| "act_just R (Faulted e) = (\<exists>rsp. R (he_pc e) rsp \<and> fr_expt rsp \<and> e = \<lparr>he_type = HART_EXPT_TYPE_EXCEPTION, he_cause = fr_cause rsp,
     he_priv = fr_priv rsp, he_pc = he_pc e, he_tval = fr_tval rsp\<rparr>)"
| "act_just R _ = True"

definition issue_waits :: "(u32 \<Rightarrow> fch_rsp \<Rightarrow> bool) \<Rightarrow> bpu_cb \<Rightarrow> ifu \<Rightarrow> bool" where
  "issue_waits R cb ifu \<longleftrightarrow> issue_fresh R ifu \<and> \<not> is_pred_vld (if_issue ifu)
     \<and> (\<exists>u. if_bpu_pred_rsp_slv ifu = cb u \<lparr>pq_vld = True, pq_pc = is_pc (if_issue ifu), pq_ir = is_ir (if_issue ifu)\<rparr>)"

lemma outs_grow_same: "ifu_outs ifu' = ifu_outs ifu \<Longrightarrow> act_outs act = ([], [], []) \<Longrightarrow> outs_grow ifu act ifu'"
  by (cases "ifu_outs ifu") (simp add: outs_grow_def)

lemma issue_ready_cong:
  assumes "if_issue ifu' = if_issue ifu" "ifu_faulted ifu' = ifu_faulted ifu" "hd (ifu_path ifu') = hd (ifu_path ifu)"
  shows "issue_ready R ifu' = issue_ready R ifu" "ifu_next ifu' = ifu_next ifu"
  using assms by (simp_all add: issue_ready_def ifu_next_def)

text \<open>A part of a tick that does \<open>act\<close>, other than the redirects.\<close>

fun act_inside :: "ifu_act \<Rightarrow> bool" where
  "act_inside (Redirected pc) = False"
| "act_inside (Flushed pc) = False"
| "act_inside _ = True"

definition ifu_moves :: "(u32 \<Rightarrow> fch_rsp \<Rightarrow> bool) \<Rightarrow> u32 list \<Rightarrow> ifu \<Rightarrow> ifu_act \<Rightarrow> ifu \<Rightarrow> bool" where
  "ifu_moves R pend ifu act ifu' \<longleftrightarrow> act_inside act \<and> act_just R act \<and> outs_grow ifu act ifu' \<and> path_step (ifu_next ifu) act = Some (ifu_next ifu')
     \<and> ifu_fetch_ok R ifu' pend \<and> ifu_ports ifu' \<and> if_redirect ifu' = if_redirect ifu \<and> if_back_blocked ifu' = if_back_blocked ifu"

lemma movesI:
  assumes "act_inside act" "act_just R act" "outs_grow ifu act ifu'" "path_step (ifu_next ifu) act = Some (ifu_next ifu')"
    "ifu_fetch_ok R ifu' pend" "ifu_ports ifu'" "if_redirect ifu' = if_redirect ifu" "if_back_blocked ifu' = if_back_blocked ifu"
  shows "ifu_moves R pend ifu act ifu'"
  using assms by (simp add: ifu_moves_def)

lemma moves_refl: "ifu_fetch_ok R ifu pend \<Longrightarrow> ifu_ports ifu \<Longrightarrow> ifu_moves R pend ifu Waited ifu"
  by (intro movesI) (auto intro: outs_grow_same)

text \<open>Two parts of a tick in a row, at most one of which is visible outside.\<close>

lemma moves_trans:
  assumes a: "ifu_moves R pend ifu act ifu'" and b: "ifu_moves R pend ifu' act' ifu''" and w: "act = Waited \<or> act' = Waited"
  shows "ifu_moves R pend ifu (if act = Waited then act' else act) ifu''"
proof (cases "act = Waited")
  case True
  with a have "ifu_outs ifu' = ifu_outs ifu" by (cases "ifu_outs ifu") (simp add: ifu_moves_def outs_grow_def)
  with a b True show ?thesis by (simp add: ifu_moves_def outs_grow_def)
next
  case False
  with b w have "ifu_outs ifu'' = ifu_outs ifu'" by (cases "ifu_outs ifu'") (simp add: ifu_moves_def outs_grow_def)
  with a b False w show ?thesis by (simp add: ifu_moves_def outs_grow_def)
qed

text \<open>The oldest fetched instruction is taken up for issue, reported as an exception, or fetched again.\<close>

lemma prepare_fault:
  assumes ok: "ifu_fetch_ok R ifu pend" and po: "ifu_ports ifu" and nv: "\<not> is_vld (if_issue ifu)"
    and q: "fifo_inv q" "fifo_list (if_fch_rspq ifu) = e # fifo_list q" and x: "re_expt e"
    and t: "itf_write (if_fch_expt_mst ifu) h = Some t"
    and h: "h = \<lparr>he_type = HART_EXPT_TYPE_EXCEPTION, he_cause = re_cause e, he_priv = re_priv e, he_pc = re_pc e, he_tval = re_tval e\<rparr>"
  defines "ifu' \<equiv> ifu_fault_fetch_path (ifu\<lparr>if_fch_rspq := q, if_fch_expt_mst := t\<rparr>) (re_pc e)"
  shows "ifu_moves R pend ifu (Faulted h) ifu'" "if_issue ifu' = if_issue ifu"
proof -
  let ?i = "ifu\<lparr>if_fch_rspq := q, if_fch_expt_mst := t\<rparr>"
  have c: "ifu_core ?i = ifu_core (ifu\<lparr>if_fch_rspq := q\<rparr>)" by (simp add: ifu_core_def ifu_faulted_def)
  note p = pop_rspq_ok [OF ok q c]
  from p(1) have "ifu_mem ?i" "ifu_ptrs ?i" "ifu_aligned R ?i pend" by (simp_all add: ifu_fetch_ok_def)
  note r = restart_ok [OF this, of "re_pc e" IFU_FCH_STATE_FAULT]
  have i: "ifu' = restart ?i (re_pc e) IFU_FCH_STATE_FAULT" by (simp add: ifu'_def flush_restart)
  from ok q(2) obtain rsp where rsp: "R (re_pc e) rsp" "e = entry_of (re_pc e) rsp" by (auto simp: ifu_fetch_ok_def ifu_fetched_def)
  have f: "re_expt e = fr_expt rsp" "re_cause e = fr_cause rsp" "re_priv e = fr_priv rsp" "re_tval e = fr_tval rsp"
    by (subst rsp(2), simp add: entry_of_def)+
  have tl: "itf_inv t" "itf_list t = itf_list (if_fch_expt_mst ifu) @ [h]" using itf.push_SomeD [OF t] po by (simp_all add: ifu_ports_def)
  show "ifu_moves R pend ifu (Faulted h) ifu'"
  proof (rule movesI)
    show "act_just R (Faulted h)" using rsp(1) f x by (auto simp: h)
    show "outs_grow ifu (Faulted h) ifu'" using tl by (simp add: outs_grow_def i) (simp add: ifu_outs_def)
    show "path_step (ifu_next ifu) (Faulted h) = Some (ifu_next ifu')" using p(2,5) nv by (simp add: ifu_next_def i h)
    show "ifu_ports ifu'" using po tl(1) by (simp add: i) (simp add: ifu_ports_def)
  qed (use r(1) in \<open>simp_all add: i\<close>)
  show "if_issue ifu' = if_issue ifu" by (simp add: i)
qed

lemma prepare_retry:
  assumes ok: "ifu_fetch_ok R ifu pend" and po: "ifu_ports ifu" and nv: "\<not> is_vld (if_issue ifu)"
    and q: "fifo_inv q" "fifo_list (if_fch_rspq ifu) = e # fifo_list q"
  defines "ifu' \<equiv> ifu_flush_fetch_path (ifu\<lparr>if_fch_rspq := q\<rparr>) (re_pc e)"
  shows "ifu_moves R pend ifu Waited ifu'" "if_issue ifu' = if_issue ifu"
proof -
  let ?i = "ifu\<lparr>if_fch_rspq := q\<rparr>"
  note p = pop_rspq_ok [OF ok q refl]
  from p(1) have "ifu_mem ?i" "ifu_ptrs ?i" "ifu_aligned R ?i pend" by (simp_all add: ifu_fetch_ok_def)
  note r = restart_ok [OF this, of "re_pc e" IFU_FCH_STATE_REQ]
  have i: "ifu' = restart ?i (re_pc e) IFU_FCH_STATE_REQ" by (simp add: ifu'_def flush_restart)
  show "ifu_moves R pend ifu Waited ifu'"
  proof (rule movesI)
    show "outs_grow ifu Waited ifu'" by (rule outs_grow_same) (simp_all add: i, simp add: ifu_outs_def)
    show "path_step (ifu_next ifu) Waited = Some (ifu_next ifu')" using p(2,5) nv r(2) by (simp add: ifu_next_def i)
    show "ifu_ports ifu'" using po by (simp add: i) (simp add: ifu_ports_def)
  qed (use r(1) in \<open>simp_all add: i\<close>)
  show "if_issue ifu' = if_issue ifu" by (simp add: i)
qed

lemma prepare_take:
  fixes cb :: bpu_cb
  assumes ok: "ifu_fetch_ok R ifu pend" and po: "ifu_ports ifu" and nv: "\<not> is_vld (if_issue ifu)"
    and q: "fifo_inv q" "fifo_list (if_fch_rspq ifu) = e # fifo_list q" and x: "\<not> re_expt e" "re_ok e"
    and iss: "is_vld iss" "is_pc iss = re_pc e" "is_ir iss = re_ir e" "\<not> is_pred_vld iss"
  defines "ifu' \<equiv> ifu_update_fch_state (ifu_send_bpu_pred_req cb (ifu\<lparr>if_fch_rspq := q, if_issue := iss\<rparr>) (re_pc e) (re_ir e))"
  shows "ifu_moves R pend ifu Waited ifu'" "issue_waits R cb ifu'"
proof -
  let ?i = "ifu_send_bpu_pred_req cb (ifu\<lparr>if_fch_rspq := q, if_issue := iss\<rparr>) (re_pc e) (re_ir e)"
  have c: "ifu_core ?i = ifu_core (ifu\<lparr>if_fch_rspq := q\<rparr>)"
    by (simp add: ifu_core_def ifu_faulted_def ifu_send_bpu_pred_req_def write_pred_req_def)
  note p = pop_rspq_ok [OF ok q c]
  have fr: "if_issue ?i = iss" "ifu_outs ?i = ifu_outs ifu" "ifu_ports ?i = ifu_ports ifu" "if_redirect ?i = if_redirect ifu"
    "if_back_blocked ?i = if_back_blocked ifu"
    by (simp_all add: ifu_send_bpu_pred_req_def write_pred_req_def ifu_outs_def ifu_ports_def)
  from ok q(2) obtain rsp where rsp: "R (re_pc e) rsp" "e = entry_of (re_pc e) rsp" by (auto simp: ifu_fetch_ok_def ifu_fetched_def)
  have f: "re_expt e = fr_expt rsp" "re_ok e = fr_ok rsp" "re_ir e = fr_ir rsp" by (subst rsp(2), simp add: entry_of_def)+
  show "ifu_moves R pend ifu Waited ifu'" unfolding ifu'_def
  proof (rule movesI)
    show "outs_grow ifu Waited (ifu_update_fch_state ?i)" by (rule outs_grow_same) (simp_all add: fr)
    show "path_step (ifu_next ifu) Waited = Some (ifu_next (ifu_update_fch_state ?i))"
      using p(2,5) nv by (simp add: ifu_next_def fr iss)
  qed (use p(1) po in \<open>simp_all add: fr\<close>)
  show "issue_waits R cb ifu'" unfolding ifu'_def
    using p(3-5) rsp f x by (auto simp: issue_waits_def issue_fresh_def fr iss ifu_answered_def)
      (auto simp: ifu_send_bpu_pred_req_def write_pred_req_def iss)
qed

definition issue_ok :: "(u32 \<Rightarrow> fch_rsp \<Rightarrow> bool) \<Rightarrow> ifu \<Rightarrow> bool" where
  "issue_ok R ifu \<longleftrightarrow> (is_vld (if_issue ifu) \<longrightarrow> issue_ready R ifu)"

lemma prepare_ok:
  assumes ok: "ifu_fetch_ok R ifu pend" and po: "ifu_ports ifu" and iok: "issue_ok R ifu"
  shows "\<exists>act ifu'. ifu_prepare_issue cb ifu = Some ifu' \<and> ifu_moves R pend ifu act ifu'
    \<and> (issue_ok R ifu' \<and> (act = Waited \<or> \<not> is_vld (if_issue ifu')) \<or> act = Waited \<and> issue_waits R cb ifu')"
proof -
  have stay: ?thesis if "ifu_prepare_issue cb ifu = Some ifu" using that moves_refl [OF ok po] iok by blast
  have idle: "ifu_prepare_issue cb ifu = Some ifu" if "\<not> (rd_state (if_redirect ifu) = IFU_REDIRECT_STATE_IDLE
      \<and> \<not> fifo_empty (if_fch_rspq ifu) \<and> \<not> is_vld (if_issue ifu))" using that by (auto simp: ifu_prepare_issue_def)
  consider "ifu_prepare_issue cb ifu = Some ifu" | "rd_state (if_redirect ifu) = IFU_REDIRECT_STATE_IDLE"
      "\<not> fifo_empty (if_fch_rspq ifu)" "\<not> is_vld (if_issue ifu)" using idle by blast
  then show ?thesis
  proof cases
    case 2
    from ok have fi: "fifo_inv (if_fch_rspq ifu)" by (simp add: ifu_fetch_ok_def ifu_mem_def)
    obtain e q where e: "fifo_get_front (if_fch_rspq ifu) = Some e" "fifo_pop (if_fch_rspq ifu) = Some (e, q)" "fifo_inv q"
      "fifo_list (if_fch_rspq ifu) = e # fifo_list q" by (rule hd_path_rspq [OF fi 2(2)])
    note g = 2(1,3) 2(2) e(1,2)
    show ?thesis
    proof (cases "re_expt e")
      case x: True
      let ?h = "\<lparr>he_type = HART_EXPT_TYPE_EXCEPTION, he_cause = re_cause e, he_priv = re_priv e, he_pc = re_pc e, he_tval = re_tval e\<rparr>"
      show ?thesis
      proof (cases "fifo_empty (if_ctrlq ifu) \<and> \<not> itf_fifo_full (if_fch_expt_mst ifu)")
        case True
        from po have "itf_inv (if_fch_expt_mst ifu)" by (simp add: ifu_ports_def)
        from itf.push_ok [OF this, of ?h] True obtain t where t: "itf_write (if_fch_expt_mst ifu) ?h = Some t" by blast
        note f = prepare_fault [OF ok po 2(3) e(3,4) x t refl]
        have "ifu_prepare_issue cb ifu = Some (ifu_fault_fetch_path (ifu\<lparr>if_fch_rspq := q, if_fch_expt_mst := t\<rparr>) (re_pc e))"
          using g x True t by (simp add: ifu_prepare_issue_def)
        with f 2(3) show ?thesis by (auto simp: issue_ok_def)
      next
        case False
        then show ?thesis using g x by (intro stay) (auto simp: ifu_prepare_issue_def)
      qed
    next
      case x: False
      show ?thesis
      proof (cases "re_ok e")
        case False
        have "ifu_prepare_issue cb ifu = Some (ifu_flush_fetch_path (ifu\<lparr>if_fch_rspq := q\<rparr>) (re_pc e))"
          using g x False by (simp add: ifu_prepare_issue_def)
        with prepare_retry [OF ok po 2(3) e(3,4)] 2(3) show ?thesis by (auto simp: issue_ok_def)
      next
        case True
        define iss where "iss = \<lparr>is_vld = True, is_pc = re_pc e, is_ir = re_ir e, is_pred_target_pc = re_pc e + 4,
              is_pred_taken = False, is_pred_vld = False, is_pred_redirected = False, is_is_ctrl = False,
              is_pred_cond_bht_hit = False, is_pred_jalr_ras_hit = False, is_pred_jalr_btb_hit = False,
              is_pred_jalr_btb_miss = False\<rparr>"
        have i: "is_vld iss" "is_pc iss = re_pc e" "is_ir iss = re_ir e" "\<not> is_pred_vld iss" by (simp_all add: iss_def)
        have "ifu_prepare_issue cb ifu
          = Some (ifu_update_fch_state (ifu_send_bpu_pred_req cb (ifu\<lparr>if_fch_rspq := q, if_issue := iss\<rparr>) (re_pc e) (re_ir e)))"
          using g x True i by (simp add: ifu_prepare_issue_def flip: iss_def)
        with prepare_take [OF ok po 2(3) e(3,4) x True i] show ?thesis by blast
      qed
    qed
  qed (rule stay)
qed

text \<open>A prediction arrives; a predicted jump restarts the fetch path at its target.\<close>

context branch_predictor
begin

lemma apply_ok:
  assumes ok: "ifu_fetch_ok R ifu pend" and po: "ifu_ports ifu" and v: "is_vld (if_issue ifu)" and w: "issue_waits R predict ifu"
  shows "\<exists>ifu'. ifu_apply_bpu_pred_rsp ifu = Some ifu' \<and> ifu_moves R pend ifu Waited ifu' \<and> issue_ok R ifu'"
proof -
  let ?s = "if_issue ifu"
  from w obtain u where u: "if_bpu_pred_rsp_slv ifu = predict u \<lparr>pq_vld = True, pq_pc = is_pc ?s, pq_ir = is_ir ?s\<rparr>"
    and nv: "\<not> is_pred_vld ?s" and fr: "issue_fresh R ifu" by (auto simp: issue_waits_def)
  define r where "r = if_bpu_pred_rsp_slv ifu"
  have r: "pr_vld r" "pr_pred_taken r \<Longrightarrow> pr_is_ctrl r" "\<not> pr_pred_taken r \<Longrightarrow> pr_pred_pc r = is_pc ?s + 4"
    unfolding r_def u by (simp_all add: predict_vld taken_ctrl fallthrough)
  define iss where "iss = ?s\<lparr>is_is_ctrl := pr_is_ctrl r, is_pred_taken := pr_pred_taken r,
          is_pred_target_pc := pr_pred_pc r, is_pred_cond_bht_hit := pr_cond_bht_hit r,
          is_pred_jalr_ras_hit := pr_jalr_ras_hit r, is_pred_jalr_btb_hit := pr_jalr_btb_hit r,
          is_pred_jalr_btb_miss := pr_jalr_btb_miss r, is_pred_vld := True\<rparr>"
  have iss: "is_vld iss" "is_pc iss = is_pc ?s" "is_ir iss = is_ir ?s" "is_pred_vld iss" "is_pred_taken iss = pr_pred_taken r"
    "is_pred_target_pc iss = pr_pred_pc r" "is_is_ctrl iss = pr_is_ctrl r" using v by (simp_all add: iss_def)
  let ?i = "ifu\<lparr>if_issue := iss\<rparr>"
  have c: "ifu_core ?i = ifu_core ifu" by (simp add: ifu_core_def ifu_faulted_def)
  note cc = core_cong [OF c]
  have o: "ifu_outs ?i = ifu_outs ifu" "ifu_ports ?i = ifu_ports ifu" by (simp_all add: ifu_outs_def ifu_ports_def)
  have run: "ifu_apply_bpu_pred_rsp ifu = Some (if pr_is_ctrl r \<and> pr_pred_taken r
      then (restart ?i (pr_pred_pc r) IFU_FCH_STATE_REQ)\<lparr>if_issue := iss\<lparr>is_pred_redirected := True\<rparr>\<rparr> else ?i)"
    using v nv r(1) unfolding ifu_apply_bpu_pred_rsp_def r_def [symmetric] by (auto simp: flush_restart Let_def iss_def)
  show ?thesis
  proof (cases "pr_pred_taken r")
    case True
    let ?k = "restart ?i (pr_pred_pc r) IFU_FCH_STATE_REQ"
    let ?i' = "?k\<lparr>if_issue := iss\<lparr>is_pred_redirected := True\<rparr>\<rparr>"
    from ok cc(1) [of R pend] have "ifu_mem ?i" "ifu_ptrs ?i" "ifu_aligned R ?i pend" by (simp_all add: ifu_fetch_ok_def)
    note rr = restart_ok [OF this, of "pr_pred_pc r" IFU_FCH_STATE_REQ]
    have c': "ifu_core ?i' = ifu_core ?k" by (simp add: ifu_core_def ifu_faulted_def)
    note kk = core_cong [OF c']
    have o': "ifu_outs ?i' = ifu_outs ?k" "ifu_ports ?i' = ifu_ports ?k" by (simp_all add: ifu_outs_def ifu_ports_def)
    have "ifu_moves R pend ifu Waited ?i'"
    proof (rule movesI)
      show "outs_grow ifu Waited ?i'" by (rule outs_grow_same) (simp_all add: o o' del: ifu.update_convs)
      show "path_step (ifu_next ifu) Waited = Some (ifu_next ?i')" using v iss by (simp add: ifu_next_def)
      show "ifu_fetch_ok R ?i' pend" using rr(1) kk(1) [of R pend] by simp
      show "ifu_ports ?i'" using po by (simp add: o o' del: ifu.update_convs)
    qed simp_all
    moreover have "issue_ok R ?i'" using fr True iss rr(2) kk(2,3) by (simp add: issue_ok_def issue_ready_def issue_fresh_def Let_def)
    ultimately show ?thesis using run True r(2) by simp
  next
    case False
    have "ifu_moves R pend ifu Waited ?i"
    proof (rule movesI)
      show "outs_grow ifu Waited ?i" by (rule outs_grow_same) (simp_all add: o)
      show "path_step (ifu_next ifu) Waited = Some (ifu_next ?i)" using v iss by (simp add: ifu_next_def)
    qed (use ok po cc(1) [of R pend] o in simp_all)
    moreover have "issue_ok R ?i" using fr False iss r(3) cc(2,3) by (simp add: issue_ok_def issue_ready_def issue_fresh_def Let_def)
    ultimately show ?thesis using run False by simp
  qed
qed

end

lemma ctrlq_push_ok:
  assumes "fifo_inv (if_ctrlq ifu)" "\<not> fifo_full (if_ctrlq ifu)"
  shows "\<exists>q. ifu_ctrlq_push ifu a b c d e f g h = Some (ifu\<lparr>if_ctrlq := q\<rparr>) \<and> fifo_inv q"
proof -
  let ?x = "\<lparr>ce_vld = True, ce_pc = a, ce_ir = b, ce_pred_taken = c, ce_pred_pc = d, ce_pred_cond_bht_hit = e, ce_pred_jalr_ras_hit = f,
       ce_pred_jalr_btb_hit = g, ce_pred_jalr_btb_miss = h\<rparr>"
  obtain q where "fifo_push (if_ctrlq ifu) ?x = Some q" "fifo_inv q" by (rule fifo.push_not_full [OF assms])
  then show ?thesis by (intro exI [of _ q]) (simp add: ifu_ctrlq_push_def)
qed

text \<open>An instruction with its prediction is handed over as soon as there is room for it.\<close>

lemma send_ex_ok:
  assumes ok: "ifu_fetch_ok R ifu pend" and po: "ifu_ports ifu" and iok: "issue_ok R ifu"
  shows "\<exists>act ifu'. ifu_send_ex_req ifu = Some ifu' \<and> ifu_moves R pend ifu act ifu' \<and> issue_ok R ifu' \<and> (is_vld (if_issue ifu) \<or> act = Waited)"
proof -
  have stay: ?thesis if "ifu_send_ex_req ifu = Some ifu" using that moves_refl [OF ok po] iok by blast
  let ?s = "if_issue ifu"
  have idle: "ifu_send_ex_req ifu = Some ifu" if "\<not> (is_vld ?s \<and> is_pred_vld ?s \<and> rd_state (if_redirect ifu) = IFU_REDIRECT_STATE_IDLE
      \<and> \<not> itf_fifo_full (if_ex_req_mst ifu) \<and> \<not> (is_is_ctrl ?s \<and> fifo_full (if_ctrlq ifu)))"
    using that by (auto simp: ifu_send_ex_req_def)
  consider "ifu_send_ex_req ifu = Some ifu" | "is_vld ?s" "is_pred_vld ?s" "rd_state (if_redirect ifu) = IFU_REDIRECT_STATE_IDLE"
      "\<not> itf_fifo_full (if_ex_req_mst ifu)" "\<not> (is_is_ctrl ?s \<and> fifo_full (if_ctrlq ifu))" using idle by blast
  then show ?thesis
  proof cases
    case 2
    define r where "r = \<lparr>er_inst = is_ir ?s, er_pc = is_pc ?s, er_pred_taken = is_pred_taken ?s,
          er_pred_pc = is_pred_target_pc ?s, er_is_boot_code = ADDR_IN (is_pc ?s) (if_boot_rom_base ifu) (if_boot_rom_size ifu)\<rparr>"
    from po have pi: "itf_inv (if_ex_req_mst ifu)" "fifo_inv (if_ctrlq ifu)" by (simp_all add: ifu_ports_def)
    obtain t where t: "itf_write (if_ex_req_mst ifu) r = Some t" "itf_inv t" "itf_list t = itf_list (if_ex_req_mst ifu) @ [r]"
      by (rule itf.push_not_full [OF pi(1) 2(4), of r])
    let ?i = "ifu\<lparr>if_ex_req_mst := t\<rparr>"
    obtain q where q: "(if is_is_ctrl ?s then ifu_ctrlq_push ?i (is_pc ?s) (is_ir ?s) (is_pred_taken ?s) (is_pred_target_pc ?s)
            (is_pred_cond_bht_hit ?s) (is_pred_jalr_ras_hit ?s) (is_pred_jalr_btb_hit ?s) (is_pred_jalr_btb_miss ?s)
          else Some ?i) = Some (?i\<lparr>if_ctrlq := q\<rparr>)" "fifo_inv q"
    proof (cases "is_is_ctrl ?s")
      case True
      then show ?thesis using that ctrlq_push_ok [of ?i] pi(2) 2(5) by fastforce
    next
      case False
      then show ?thesis using that [of "if_ctrlq ifu"] pi(2) by simp
    qed
    define iss where "iss = ?s\<lparr>is_vld := False, is_is_ctrl := False, is_pred_vld := False, is_pred_redirected := False,
          is_pred_cond_bht_hit := False, is_pred_jalr_ras_hit := False, is_pred_jalr_btb_hit := False,
          is_pred_jalr_btb_miss := False\<rparr>"
    let ?i' = "?i\<lparr>if_ctrlq := q, if_issue := iss\<rparr>"
    have run: "ifu_send_ex_req ifu = Some ?i'"
      using 2 t(1) q(1) unfolding ifu_send_ex_req_def Let_def r_def [symmetric] iss_def [symmetric]
      by (simp, blast)
    have c: "ifu_core ?i' = ifu_core ifu" by (simp add: ifu_core_def ifu_faulted_def)
    note cc = core_cong [OF c]
    have rd: "issue_ready R ifu" using iok 2(1) by (simp add: issue_ok_def)
    have nv: "\<not> is_vld iss" by (simp add: iss_def)
    have "ifu_moves R pend ifu (Issued r) ?i'"
    proof (rule movesI)
      show "act_just R (Issued r)" using rd by (auto simp: issue_ready_def Let_def r_def)
      show "outs_grow ifu (Issued r) ?i'" using t(3) by (simp add: outs_grow_def ifu_outs_def)
      show "path_step (ifu_next ifu) (Issued r) = Some (ifu_next ?i')"
        using rd 2(1) nv cc(2,3) by (simp add: issue_ready_def Let_def r_def ifu_next_def)
      show "ifu_ports ?i'" using po t(2) q(2) by (simp add: ifu_ports_def)
    qed (use ok cc(1) [of R pend] in simp_all)
    moreover have "issue_ok R ?i'" using nv by (simp add: issue_ok_def)
    ultimately show ?thesis using run 2(1) by blast
  qed (rule stay)
qed

section \<open>The tick\<close>

text \<open>The part of a tick after a fetch answer has been looked at.\<close>

lemma rest_next:
  assumes "ifu_rest ifu' = ifu_rest ifu" "ifu_faulted ifu' = ifu_faulted ifu" "hd (ifu_path ifu') = hd (ifu_path ifu)"
    and "ifu_fetch_ok R ifu' pend" "ifu_ports ifu"
  shows "ifu_moves R pend ifu Waited ifu'" "issue_ok R ifu' = issue_ok R ifu"
  using rest_cong [OF assms(1)] assms(2-) issue_ready_cong [of ifu' ifu]
  by (auto intro!: movesI outs_grow_same simp: issue_ok_def)

lemma moves_fetch: "ifu_moves R pend ifu act ifu' \<Longrightarrow> ifu_fetch_ok R ifu' pend \<and> ifu_ports ifu' \<and> if_redirect ifu' = if_redirect ifu
    \<and> if_back_blocked ifu' = if_back_blocked ifu"
  by (simp add: ifu_moves_def)

lemma update_state_moves:
  assumes "ifu_fetch_ok R ifu pend" "ifu_ports ifu" "issue_ok R ifu"
  shows "ifu_moves R pend ifu Waited (ifu_update_fch_state ifu)" "issue_ok R (ifu_update_fch_state ifu)"
  using assms issue_ready_cong [of "ifu_update_fch_state ifu" ifu] by (auto intro!: movesI outs_grow_same simp: issue_ok_def)

lemma apply_idle: "issue_ok R ifu \<Longrightarrow> ifu_apply_bpu_pred_rsp ifu = Some ifu"
  by (auto simp: ifu_apply_bpu_pred_rsp_def issue_ok_def issue_ready_def Let_def)

lemma back_ok:
  assumes ok: "ifu_fetch_ok R ifu pend" and po: "ifu_ports ifu" and iok: "issue_ok R ifu"
  shows "\<exists>act ifu1 ifu'. ifu_send_ex_req ifu = Some ifu1 \<and> (\<exists>ifu2. ifu_send_fch ifu1 = Some ifu2 \<and> ifu' = ifu_update_fch_state ifu2)
    \<and> ifu_moves R pend ifu act ifu' \<and> issue_ok R ifu' \<and> (is_vld (if_issue ifu) \<or> act = Waited)"
proof -
  from send_ex_ok [OF assms] obtain act ifu1 where
    1: "ifu_send_ex_req ifu = Some ifu1" "ifu_moves R pend ifu act ifu1" "issue_ok R ifu1" "is_vld (if_issue ifu) \<or> act = Waited" by blast
  note m1 = moves_fetch [OF 1(2)]
  from send_fch_ok [of R ifu1 pend] m1 obtain ifu2 where 2: "ifu_send_fch ifu1 = Some ifu2" "ifu_fetch_ok R ifu2 pend"
    "hd (ifu_path ifu2) = hd (ifu_path ifu1)" "ifu_faulted ifu2 = ifu_faulted ifu1" "ifu_rest ifu2 = ifu_rest ifu1" by blast
  note m2 = rest_next [OF 2(5,4,3,2)]
  from m1 m2 1(3) have i2: "ifu_moves R pend ifu1 Waited ifu2" "issue_ok R ifu2" by simp_all
  note m3 = moves_fetch [OF i2(1)]
  have u: "ifu_moves R pend ifu2 Waited (ifu_update_fch_state ifu2)" "issue_ok R (ifu_update_fch_state ifu2)"
    using update_state_moves [of R ifu2 pend] m3 i2(2) by simp_all
  from moves_trans [OF 1(2) moves_trans [OF i2(1) u(1)]] have "ifu_moves R pend ifu act (ifu_update_fch_state ifu2)" by (simp split: if_splits)
  with 1 2(1) u(2) show ?thesis by blast
qed

definition ifu_idle :: "ifu \<Rightarrow> bool" where
  "ifu_idle ifu \<longleftrightarrow> rd_state (if_redirect ifu) = IFU_REDIRECT_STATE_IDLE"

context branch_predictor
begin

lemma quiet_tick:
  assumes ok: "ifu_fetch_ok R ifu pend" and po: "ifu_ports ifu" and iok: "issue_ok R ifu" and nf: "\<not> ostq_head_freed (if_fch_ost ifu)"
    and nb: "\<not> if_back_blocked ifu"
  shows "\<exists>act ifu1 ifu2 ifu'. ifu_proc_fch_rsp ifu = Some ifu1 \<and> ifu_prepare_issue predict ifu1 = Some ifu2
    \<and> ifu_back_proc ifu2 = Some ifu' \<and> ifu_moves R pend ifu act ifu' \<and> issue_ok R ifu'"
proof -
  from fch_rsp_ok [OF ok nf] obtain ifu1 where 1: "ifu_proc_fch_rsp ifu = Some ifu1" "ifu_fetch_ok R ifu1 pend" "ifu_path ifu1 = ifu_path ifu"
    "ifu_faulted ifu1 = ifu_faulted ifu" "ifu_rest ifu1 = ifu_rest ifu" by blast
  have m1: "ifu_moves R pend ifu Waited ifu1" "issue_ok R ifu1" using rest_next [OF 1(5,4) _ 1(2) po] 1(3) iok by simp_all
  note f1 = moves_fetch [OF m1(1)]
  from prepare_ok [of R ifu1 pend predict] f1 m1(2) obtain act ifu2 where
    2: "ifu_prepare_issue predict ifu1 = Some ifu2" "ifu_moves R pend ifu1 act ifu2"
    "issue_ok R ifu2 \<and> (act = Waited \<or> \<not> is_vld (if_issue ifu2)) \<or> act = Waited \<and> issue_waits R predict ifu2" by blast
  note f2 = moves_fetch [OF 2(2)]
  have nb2: "\<not> if_back_blocked ifu2" using nb f1 f2 by simp
  have "\<exists>ifu3. ifu_apply_bpu_pred_rsp ifu2 = Some ifu3 \<and> ifu_moves R pend ifu2 Waited ifu3 \<and> issue_ok R ifu3
    \<and> (act = Waited \<or> \<not> is_vld (if_issue ifu3))"
  proof (cases "issue_ok R ifu2")
    case True
    have "act = Waited \<or> \<not> is_vld (if_issue ifu2)" using 2(3) by blast
    then show ?thesis using apply_idle [OF True] moves_refl [of R ifu2 pend] f2 True by blast
  next
    case False
    then have w: "issue_waits R predict ifu2" "act = Waited" "is_vld (if_issue ifu2)" using 2(3) by (auto simp: issue_ok_def)
    from apply_ok [of R ifu2 pend] f2 w show ?thesis by blast
  qed
  then obtain ifu3 where 3: "ifu_apply_bpu_pred_rsp ifu2 = Some ifu3" "ifu_moves R pend ifu2 Waited ifu3" "issue_ok R ifu3"
    "act = Waited \<or> \<not> is_vld (if_issue ifu3)" by blast
  note f3 = moves_fetch [OF 3(2)]
  from back_ok [of R ifu3 pend] f3 3(3) obtain act' ifu4 ifu5 where
    4: "ifu_send_ex_req ifu3 = Some ifu4" "ifu_send_fch ifu4 = Some ifu5" "ifu_moves R pend ifu3 act' (ifu_update_fch_state ifu5)"
    "issue_ok R (ifu_update_fch_state ifu5)" "is_vld (if_issue ifu3) \<or> act' = Waited" by blast
  have b: "ifu_back_proc ifu2 = Some (ifu_update_fch_state ifu5)" using nb2 3(1) 4(1,2) by (simp add: ifu_back_proc_def)
  have w: "act = Waited \<or> act' = Waited" using 3(4) 4(5) by blast
  from moves_trans [OF 3(2) 4(3)] have "ifu_moves R pend ifu2 act' (ifu_update_fch_state ifu5)" by simp
  from moves_trans [OF 2(2) this w] have "ifu_moves R pend ifu1 (if act = Waited then act' else act) (ifu_update_fch_state ifu5)" .
  from moves_trans [OF m1(1) this] have "ifu_moves R pend ifu (if act = Waited then act' else act) (ifu_update_fch_state ifu5)" by simp
  with 1(1) 2(1) b 4(4) show ?thesis by blast
qed

end

text \<open>
  Redirects: a wrong prediction reported by the execution unit, or a trap once no control
  instruction is unresolved. They leave the fetch path to the part of the tick that follows.
\<close>

definition ifu_keep :: "ifu \<Rightarrow> _" where
  "ifu_keep ifu = (ifu_core ifu, if_issue ifu, if_back_blocked ifu, if_tlb_flush_slv ifu, if_l1i_flush_slv ifu, if_exu_state_i ifu)"

definition redirected :: "ifu \<Rightarrow> ifu \<Rightarrow> bool" where
  "redirected ifu ifu' \<longleftrightarrow> (rd_state (if_redirect ifu') = IFU_REDIRECT_STATE_BRANCH \<or> rd_state (if_redirect ifu') = IFU_REDIRECT_STATE_TRAP)
     \<and> outs_grow ifu (Redirected (rd_pc (if_redirect ifu'))) ifu'
     \<and> ((\<exists>x. x \<in> set (itf_list (if_ex_rsp_slv ifu)) \<and> \<not> xr_pred_true x \<and> rd_pc (if_redirect ifu') = xr_target_pc x)
       \<or> (\<exists>t. t \<in> set (itf_list (if_trap_send_slv ifu)) \<and> rd_pc (if_redirect ifu') = ts_target_pc t))"

definition heard :: "ifu \<Rightarrow> ifu \<Rightarrow> bool" where
  "heard ifu ifu' \<longleftrightarrow> ifu_ports ifu' \<and> ifu_keep ifu' = ifu_keep ifu \<and> set (itf_list (if_ex_rsp_slv ifu')) \<subseteq> set (itf_list (if_ex_rsp_slv ifu))
     \<and> set (itf_list (if_trap_send_slv ifu')) \<subseteq> set (itf_list (if_trap_send_slv ifu))
     \<and> (ifu_idle ifu' \<and> ifu_outs ifu' = ifu_outs ifu \<or> redirected ifu ifu')"

lemma pop_valid_ok:
  assumes "fifo_inv (if_ctrlq ifu)"
  shows "\<exists>popped q. ifu_ctrlq_pop_valid ifu pc = Some (popped, ifu\<lparr>if_ctrlq := q\<rparr>) \<and> fifo_inv q"
proof (cases "fifo_empty (if_ctrlq ifu)")
  case True
  then show ?thesis using assms by (intro exI [of _ None] exI [of _ "if_ctrlq ifu"]) (simp add: ifu_ctrlq_pop_valid_def)
next
  case False
  obtain e q where e: "fifo_pop (if_ctrlq ifu) = Some (e, q)" "fifo_inv q" "fifo_get_front (if_ctrlq ifu) = Some e"
    by (rule fifo.pop_not_empty [OF assms False])
  consider "ce_vld e" "ce_pc e = pc" | "ce_vld e" "ce_pc e \<noteq> pc" | "\<not> ce_vld e" by blast
  then show ?thesis
  proof cases
    case 1
    show ?thesis by (rule exI [of _ "Some e"], rule exI [of _ q]) (simp add: ifu_ctrlq_pop_valid_def False e 1)
  next
    case 2
    show ?thesis by (rule exI [of _ None], rule exI [of _ "if_ctrlq ifu"]) (simp add: ifu_ctrlq_pop_valid_def False e 2 assms)
  next
    case 3
    show ?thesis by (rule exI [of _ None], rule exI [of _ q]) (simp add: ifu_ctrlq_pop_valid_def False e 3)
  qed
qed

lemma outs_fl:
  assumes "itf_list (if_fl_req_mst ifu') = itf_list (if_fl_req_mst ifu) @ [0]" "if_ex_req_mst ifu' = if_ex_req_mst ifu"
    "if_fch_expt_mst ifu' = if_fch_expt_mst ifu"
  shows "outs_grow ifu (Redirected pc) ifu'"
  using assms by (simp add: outs_grow_def ifu_outs_def)

lemma ex_rsp_ok:
  assumes po: "ifu_ports ifu" and id: "ifu_idle ifu" and fl: "itf_fifo_empty (if_fl_req_mst ifu)"
  shows "\<exists>ifu'. ifu_proc_ex_rsp ifu = Some ifu' \<and> heard ifu ifu' \<and> if_trap_send_slv ifu' = if_trap_send_slv ifu
    \<and> (ifu_idle ifu' \<longrightarrow> if_fl_req_mst ifu' = if_fl_req_mst ifu)"
proof (cases "itf_fifo_empty (if_ex_rsp_slv ifu)")
  case True
  then have "ifu_proc_ex_rsp ifu = Some ifu" using id by (simp add: ifu_proc_ex_rsp_def ifu_idle_def)
  then show ?thesis using po id by (simp add: heard_def)
next
  case False
  from po have inv: "itf_inv (if_ex_rsp_slv ifu)" "fifo_inv (if_ctrlq ifu)" "itf_inv (if_fl_req_mst ifu)" by (simp_all add: ifu_ports_def)
  obtain x t where t: "itf_read (if_ex_rsp_slv ifu) = Some (x, t)" "itf_inv t" "itf_list (if_ex_rsp_slv ifu) = x # itf_list t"
    by (rule itf.pop_not_empty [OF inv(1) False])
  let ?i = "ifu\<lparr>if_ex_rsp_slv := t\<rparr>"
  from pop_valid_ok [of ?i "xr_pc x"] inv(2) obtain popped q where
    p: "ifu_ctrlq_pop_valid ?i (xr_pc x) = Some (popped, ?i\<lparr>if_ctrlq := q\<rparr>)" "fifo_inv q" by auto
  let ?j = "?i\<lparr>if_ctrlq := q\<rparr>"
  note k = ifu_keep_def ifu_core_def ifu_faulted_def heard_def ifu_ports_def ifu_idle_def ifu_outs_def
  show ?thesis
  proof (cases popped)
    case None
    then have "ifu_proc_ex_rsp ifu = Some ?j" using False t(1) p(1) id by (simp add: ifu_proc_ex_rsp_def ifu_idle_def)
    moreover have "heard ifu ?j" using po id t(2,3) p(2) by (auto simp: k)
    ultimately show ?thesis by simp
  next
    case (Some c)
    define u where "u = \<lparr>bu_vld = True, bu_pc = ce_pc c, bu_ir = ce_ir c, bu_taken = xr_taken x,
              bu_target_pc = xr_target_pc x, bu_pred_taken = ce_pred_taken c, bu_pred_pc = ce_pred_pc c,
              bu_pred_true = xr_pred_true x, bu_is_boot_code = ADDR_IN (xr_pc x) (if_boot_rom_base ifu) (if_boot_rom_size ifu),
              bu_pred_cond_bht_hit = ce_pred_cond_bht_hit c,
              bu_pred_jalr_ras_hit = ce_pred_jalr_ras_hit c, bu_pred_jalr_btb_hit = ce_pred_jalr_btb_hit c,
              bu_pred_jalr_btb_miss = ce_pred_jalr_btb_miss c\<rparr>"
    let ?u = "?j\<lparr>if_bpu_update_mst := u\<rparr>"
    obtain f where f: "itf_write (if_fl_req_mst ifu) 0 = Some f" "itf_inv f" "itf_list f = itf_list (if_fl_req_mst ifu) @ [0]"
      using itf.push_SomeD [of "if_fl_req_mst ifu"] itf.push_room [OF inv(3), of 0] fl itf.is_empty_iff [OF inv(3)]
        inv(3) by (auto simp: itf_inv_def ring_inv_def)
    let ?r = "?u\<lparr>if_fl_req_mst := f, if_ctrlq := fifo_clear q, if_redirect := \<lparr>rd_state = IFU_REDIRECT_STATE_BRANCH, rd_pc = xr_target_pc x\<rparr>\<rparr>"
    have run: "ifu_proc_ex_rsp ifu = Some (if xr_pred_true x then ?u else ?r)"
      using False t(1) p(1) Some id fl f(1) unfolding ifu_proc_ex_rsp_def ifu_idle_def
      by (simp add: ifu_request_redirect_def ifu_ctrlq_flush_def flip: u_def)
    have "heard ifu ?u" using po id t(2,3) p(2) by (auto simp: k)
    moreover have "heard ifu ?r" if "\<not> xr_pred_true x"
    proof -
      have "redirected ifu ?r" using f(3) t(3) that by (auto simp: redirected_def intro: outs_fl)
      moreover have "ifu_ports ?r" using po t(2) f(2) fifo_clear_inv [OF p(2)] by (simp add: ifu_ports_def)
      ultimately show ?thesis using t(3) by (simp add: heard_def) (auto simp: ifu_keep_def ifu_core_def ifu_faulted_def)
    qed
    ultimately show ?thesis using run by (cases "xr_pred_true x") (simp_all add: ifu_idle_def)
  qed
qed

lemma trap_send_ok:
  assumes po: "ifu_ports ifu" and fl: "ifu_idle ifu \<Longrightarrow> itf_fifo_empty (if_fl_req_mst ifu)"
  shows "\<exists>ifu'. ifu_proc_trap_send ifu = Some ifu' \<and> (if ifu_idle ifu then heard ifu ifu' else ifu' = ifu)"
proof -
  have idle: "ifu_proc_trap_send ifu = Some ifu" if "\<not> (ifu_idle ifu \<and> itf_fifo_empty (if_ex_rsp_slv ifu) \<and> fifo_empty (if_ctrlq ifu)
      \<and> \<not> itf_fifo_empty (if_trap_send_slv ifu))" using that by (auto simp: ifu_proc_trap_send_def ifu_idle_def)
  show ?thesis
  proof (cases "ifu_idle ifu \<and> itf_fifo_empty (if_ex_rsp_slv ifu) \<and> fifo_empty (if_ctrlq ifu) \<and> \<not> itf_fifo_empty (if_trap_send_slv ifu)")
    case False
    with idle po show ?thesis by (simp add: heard_def)
  next
    case True
    from po have inv: "itf_inv (if_trap_send_slv ifu)" "fifo_inv (if_ctrlq ifu)" "itf_inv (if_fl_req_mst ifu)" by (simp_all add: ifu_ports_def)
    from True have ne: "\<not> itf_fifo_empty (if_trap_send_slv ifu)" by simp
    obtain x t where t: "itf_read (if_trap_send_slv ifu) = Some (x, t)" "itf_inv t" "itf_list (if_trap_send_slv ifu) = x # itf_list t"
      by (rule itf.pop_not_empty [OF inv(1) ne])
    obtain f where f: "itf_write (if_fl_req_mst ifu) 0 = Some f" "itf_inv f" "itf_list f = itf_list (if_fl_req_mst ifu) @ [0]"
      using itf.push_room [OF inv(3), of 0] fl True itf.is_empty_iff [OF inv(3)] inv(3) by (auto simp: itf_inv_def ring_inv_def)
    let ?r = "ifu\<lparr>if_trap_send_slv := t, if_fl_req_mst := f, if_ctrlq := fifo_clear (if_ctrlq ifu),
      if_redirect := \<lparr>rd_state = IFU_REDIRECT_STATE_TRAP, rd_pc = ts_target_pc x\<rparr>\<rparr>"
    have run: "ifu_proc_trap_send ifu = Some ?r"
      using True t(1) f(1) fl by (simp add: ifu_proc_trap_send_def ifu_idle_def ifu_request_redirect_def ifu_ctrlq_flush_def)
    have "redirected ifu ?r" using f(3) t(3) by (auto simp: redirected_def intro: outs_fl)
    moreover have "ifu_ports ?r" using po t(2) f(2) fifo_clear_inv [OF inv(2)] by (simp add: ifu_ports_def)
    ultimately have "heard ifu ?r" using t(3) by (simp add: heard_def) (auto simp: ifu_keep_def ifu_core_def ifu_faulted_def)
    with run True show ?thesis by simp
  qed
qed

lemma heard_trans:
  assumes a: "heard ifu ifu'" "ifu_idle ifu'" and b: "heard ifu' ifu''"
  shows "heard ifu ifu''"
proof -
  have o: "ifu_outs ifu' = ifu_outs ifu" using a by (auto simp: heard_def redirected_def ifu_idle_def)
  have "redirected ifu ifu''" if "redirected ifu' ifu''"
    using that a(1) o by (auto simp: redirected_def heard_def outs_grow_def)
  with a(1) b o show ?thesis by (auto simp: heard_def)
qed

fun act_cause :: "ifu \<Rightarrow> ifu_act \<Rightarrow> bool" where
  "act_cause ifu (Redirected pc) = ((\<exists>x. x \<in> set (itf_list (if_ex_rsp_slv ifu)) \<and> \<not> xr_pred_true x \<and> pc = xr_target_pc x)
     \<or> (\<exists>t. t \<in> set (itf_list (if_trap_send_slv ifu)) \<and> pc = ts_target_pc t))"
| "act_cause ifu (Flushed pc) = (ifu_flush_event_pending ifu \<and> (\<exists>st. if_exu_state_i ifu = Some st \<and> pc = es_irq_epc st))"
| "act_cause ifu _ = True"

definition ifu_inv :: "(u32 \<Rightarrow> fch_rsp \<Rightarrow> bool) \<Rightarrow> ifu \<Rightarrow> u32 list \<Rightarrow> bool" where
  "ifu_inv R ifu pend \<longleftrightarrow> ifu_fetch_ok R ifu pend \<and> ifu_ports ifu \<and> issue_ok R ifu \<and> ifu_idle ifu"

definition tick_ok :: "(u32 \<Rightarrow> fch_rsp \<Rightarrow> bool) \<Rightarrow> u32 list \<Rightarrow> ifu \<Rightarrow> ifu_act \<Rightarrow> ifu \<Rightarrow> bool" where
  "tick_ok R pend ifu act ifu' \<longleftrightarrow> ifu_inv R ifu' pend \<and> act_just R act \<and> act_cause ifu act \<and> outs_grow ifu act ifu'
     \<and> path_step (ifu_next ifu) act = Some (ifu_next ifu')"

lemma keepD:
  assumes "ifu_keep ifu' = ifu_keep ifu"
  shows "ifu_core ifu' = ifu_core ifu" "if_issue ifu' = if_issue ifu" "if_back_blocked ifu' = if_back_blocked ifu"
    "if_exu_state_i ifu' = if_exu_state_i ifu" "ifu_flush_event_pending ifu' = ifu_flush_event_pending ifu"
    "ifu_fetch_ok R ifu' pend = ifu_fetch_ok R ifu pend" "issue_ok R ifu' = issue_ok R ifu" "ifu_next ifu' = ifu_next ifu"
    "if_fch_ost ifu' = if_fch_ost ifu"
proof -
  show k: "ifu_core ifu' = ifu_core ifu" "if_issue ifu' = if_issue ifu" "if_back_blocked ifu' = if_back_blocked ifu"
    "if_exu_state_i ifu' = if_exu_state_i ifu" "ifu_flush_event_pending ifu' = ifu_flush_event_pending ifu"
    "if_fch_ost ifu' = if_fch_ost ifu"
    using assms by (simp_all add: ifu_keep_def ifu_flush_event_pending_def ifu_core_def)
  note c = core_cong [OF k(1)]
  show "ifu_fetch_ok R ifu' pend = ifu_fetch_ok R ifu pend" by (rule c)
  show "issue_ok R ifu' = issue_ok R ifu" "ifu_next ifu' = ifu_next ifu" using k(2) c issue_ready_cong [of ifu' ifu] by (simp_all add: issue_ok_def)
qed

text \<open>A redirect and a flush empty the unit and restart it.\<close>

lemma restarted_ok:
  assumes ok: "ifu_fetch_ok R ifu pend" and po: "ifu_ports ifu'"
    and c: "ifu_core ifu' = ifu_core (restart ifu pc IFU_FCH_STATE_REQ)" and nv: "\<not> is_vld (if_issue ifu')" and id: "ifu_idle ifu'"
  shows "ifu_inv R ifu' pend" "ifu_next ifu' = Some pc"
proof -
  from ok have "ifu_mem ifu" "ifu_ptrs ifu" "ifu_aligned R ifu pend" by (simp_all add: ifu_fetch_ok_def)
  note r = restart_ok [OF this, of pc IFU_FCH_STATE_REQ] and cc = core_cong [OF c]
  show "ifu_inv R ifu' pend" "ifu_next ifu' = Some pc"
    using r po nv id cc(1) [of R pend] cc(2,3) by (simp_all add: ifu_inv_def issue_ok_def ifu_next_def)
qed

lemma redirect_tick:
  assumes ok: "ifu_fetch_ok R ifu pend" and po: "ifu_ports ifu" and rd: "redirected ifu0 ifu"
  defines "ifu' \<equiv> (ifu_update_fch_state (snd (ifu_proc_redirect ifu)))\<lparr>if_back_blocked := True\<rparr>"
  shows "ifu_inv R ifu' pend" "ifu_next ifu' = Some (rd_pc (if_redirect ifu))" "ifu_outs ifu' = ifu_outs ifu" "if_back_blocked ifu'"
proof -
  let ?i = "ifu\<lparr>if_issue := (if_issue ifu)\<lparr>is_vld := False, is_is_ctrl := False, is_pred_vld := False, is_pred_redirected := False\<rparr>,
          if_fch := (if_fch ifu)\<lparr>fc_ir := 0\<rparr>\<rparr>"
  let ?k = "restart ?i (rd_pc (if_redirect ifu)) IFU_FCH_STATE_REQ"
  let ?r = "?k\<lparr>if_redirect := (if_redirect ?k)\<lparr>rd_state := IFU_REDIRECT_STATE_IDLE\<rparr>\<rparr>"
  have p: "snd (ifu_proc_redirect ifu) = ?r" using rd by (auto simp: ifu_proc_redirect_def redirected_def Let_def flush_restart)
  have c: "ifu_core ?i = ifu_core ifu" by (simp add: ifu_core_def ifu_faulted_def)
  have ci: "ifu_core ifu' = ifu_core (ifu_update_fch_state ?r)" unfolding ifu'_def p by (simp add: ifu_core_def ifu_faulted_def)
  also have "\<dots> = ifu_core ?k" unfolding update_state_frame by (simp add: ifu_core_def ifu_faulted_def)
  finally have c': "ifu_core ifu' = ifu_core ?k" .
  have f: "ifu_ports ifu' = ifu_ports (ifu_update_fch_state ?r)" "ifu_outs ifu' = ifu_outs (ifu_update_fch_state ?r)"
    "if_issue ifu' = if_issue (ifu_update_fch_state ?r)" "if_redirect ifu' = if_redirect (ifu_update_fch_state ?r)"
    unfolding ifu'_def p by (simp_all add: ifu_ports_def ifu_outs_def)
  have f': "ifu_ports ?r = ifu_ports ?k" "ifu_outs ?r = ifu_outs ?k" "ifu_ports ?i = ifu_ports ifu" "ifu_outs ?i = ifu_outs ifu"
    by (simp_all add: ifu_ports_def ifu_outs_def)
  have "ifu_fetch_ok R ?i pend" using ok core_cong(1) [OF c, of R pend] by simp
  moreover have "ifu_ports ifu'" using po f(1) f' by simp
  moreover have "\<not> is_vld (if_issue ifu')" "ifu_idle ifu'" using f(3,4) by (simp_all add: ifu_idle_def)
  ultimately show "ifu_inv R ifu' pend" "ifu_next ifu' = Some (rd_pc (if_redirect ifu))"
    by (rule restarted_ok [OF _ _ c'])+
  show "ifu_outs ifu' = ifu_outs ifu" using f(2) f' by simp
  show "if_back_blocked ifu'" by (simp add: ifu'_def)
qed

lemma flush_tick:
  assumes ok: "ifu_fetch_ok R ifu pend" and po: "ifu_ports ifu" and id: "ifu_idle ifu" and st: "if_exu_state_i ifu = Some st"
    and fl: "ifu_flush_event_pending ifu"
  defines "ifu' \<equiv> (ifu_update_fch_state (snd (ifu_proc_frontend_flush ifu)))\<lparr>if_back_blocked := True\<rparr>"
  shows "ifu_inv R ifu' pend" "ifu_next ifu' = Some (es_irq_epc st)" "ifu_outs ifu' = ifu_outs ifu" "fst (ifu_proc_frontend_flush ifu)"
    "if_back_blocked ifu'"
proof -
  let ?i = "ifu\<lparr>if_issue := (if_issue ifu)\<lparr>is_vld := False, is_is_ctrl := False, is_pred_vld := False, is_pred_redirected := False\<rparr>,
          if_ctrlq := fifo_clear (if_ctrlq ifu)\<rparr>"
  let ?k = "restart ?i (es_irq_epc st) IFU_FCH_STATE_REQ"
  have p: "ifu_proc_frontend_flush ifu = (True, ?k)" using st fl by (simp add: ifu_proc_frontend_flush_def Let_def flush_restart ifu_ctrlq_flush_def)
  have c: "ifu_core ?i = ifu_core ifu" by (simp add: ifu_core_def ifu_faulted_def)
  have ci: "ifu_core ifu' = ifu_core (ifu_update_fch_state ?k)" unfolding ifu'_def p by (simp add: ifu_core_def ifu_faulted_def)
  then have c': "ifu_core ifu' = ifu_core ?k" unfolding update_state_frame .
  have f: "ifu_ports ifu' = ifu_ports (ifu_update_fch_state ?k)" "ifu_outs ifu' = ifu_outs (ifu_update_fch_state ?k)"
    "if_issue ifu' = if_issue (ifu_update_fch_state ?k)" "if_redirect ifu' = if_redirect (ifu_update_fch_state ?k)"
    unfolding ifu'_def p by (simp_all add: ifu_ports_def ifu_outs_def)
  have f': "ifu_ports ?i" "ifu_outs ?i = ifu_outs ifu" using po fifo_clear_inv [of "if_ctrlq ifu"] by (simp_all add: ifu_ports_def ifu_outs_def)
  have "ifu_fetch_ok R ?i pend" using ok core_cong(1) [OF c, of R pend] by simp
  moreover have "ifu_ports ifu'" using f(1) f' by simp
  moreover have "\<not> is_vld (if_issue ifu')" "ifu_idle ifu'" using f(3,4) id by (simp_all add: ifu_idle_def)
  ultimately show "ifu_inv R ifu' pend" "ifu_next ifu' = Some (es_irq_epc st)" by (rule restarted_ok [OF _ _ c'])+
  show "ifu_outs ifu' = ifu_outs ifu" using f(2) f' by simp
  show "fst (ifu_proc_frontend_flush ifu)" "if_back_blocked ifu'" by (simp_all add: p ifu'_def)
qed

lemma start_tick:
  assumes inv: "ifu_inv R ifu pend"
  shows "\<exists>ost. ostq_clock (if_fch_ost ifu) = Some ost \<and> (let ifu0 = ifu_clear_bpu_update (ifu_clear_bpu_pred_req cb (ifu\<lparr>if_fch_ost := ost, if_back_blocked := False\<rparr>))
    in ifu_inv R ifu0 pend \<and> \<not> ostq_head_freed (if_fch_ost ifu0) \<and> \<not> if_back_blocked ifu0 \<and> ifu_outs ifu0 = ifu_outs ifu \<and> ifu_next ifu0 = ifu_next ifu
      \<and> if_ex_rsp_slv ifu0 = if_ex_rsp_slv ifu \<and> if_trap_send_slv ifu0 = if_trap_send_slv ifu \<and> if_fl_req_mst ifu0 = if_fl_req_mst ifu
      \<and> if_exu_state_i ifu0 = if_exu_state_i ifu \<and> ifu_flush_event_pending ifu0 = ifu_flush_event_pending ifu)"
proof -
  from inv have "ostq_inv (if_fch_ost ifu)" by (simp add: ifu_inv_def ifu_fetch_ok_def ifu_mem_def)
  from ostq_clock_live [OF this] obtain ost where o: "ostq_clock (if_fch_ost ifu) = Some ost" "ostq_inv ost"
    "ostq_live ost = ostq_live (if_fch_ost ifu)" "\<not> ostq_head_freed ost" "q_depth ost = q_depth (if_fch_ost ifu)" by blast
  let ?i = "ifu_clear_bpu_update (ifu_clear_bpu_pred_req cb (ifu\<lparr>if_fch_ost := ost, if_back_blocked := False\<rparr>))"
  have e: "if_fch_ost ?i = ost" "\<not> if_back_blocked ?i" "if_fch ?i = if_fch ifu" "if_fch_rspq ?i = if_fch_rspq ifu" "if_fch_req_mst ?i = if_fch_req_mst ifu"
    "if_fch_rsp_slv ?i = if_fch_rsp_slv ifu" "if_fch_ost_depth ?i = if_fch_ost_depth ifu" "if_issue ?i = if_issue ifu" "if_redirect ?i = if_redirect ifu"
    "ifu_outs ?i = ifu_outs ifu" "ifu_ports ?i = ifu_ports ifu"
    "if_ex_rsp_slv ?i = if_ex_rsp_slv ifu" "if_trap_send_slv ?i = if_trap_send_slv ifu" "if_fl_req_mst ?i = if_fl_req_mst ifu"
    "if_exu_state_i ?i = if_exu_state_i ifu" "ifu_flush_event_pending ?i = ifu_flush_event_pending ifu"
    by (simp_all add: ifu_clear_bpu_update_def ifu_clear_bpu_pred_req_def write_pred_req_def ifu_outs_def ifu_ports_def ifu_flush_event_pending_def)
  have l: "ifu_live ?i = ifu_live ifu" "ifu_discards ?i = ifu_discards ifu" "ifu_faulted ?i = ifu_faulted ifu"
    using o by (simp_all add: ifu_live_def ifu_discards_def ifu_faulted_def e)
  have p: "ifu_path ?i = ifu_path ifu" unfolding ifu_path_def l e ..
  have "ifu_mem ?i" "ifu_ptrs ?i" "ifu_aligned R ?i pend" "ifu_fetched R ?i" using inv o
    by (simp_all add: ifu_inv_def ifu_fetch_ok_def ifu_mem_def ifu_ptrs_def ifu_aligned_def ifu_fetched_def e l)
  with inv have "ifu_fetch_ok R ?i pend" unfolding ifu_inv_def ifu_fetch_ok_def p l e by simp
  moreover have r: "issue_ready R ?i = issue_ready R ifu" "ifu_next ?i = ifu_next ifu"
    using issue_ready_cong [of ?i ifu] p l e by simp_all
  ultimately have "ifu_inv R ?i pend" using inv by (simp add: ifu_inv_def e issue_ok_def ifu_idle_def)
  with o(1,4) e r show ?thesis by (simp add: Let_def)
qed

context branch_predictor
begin

lemma ifu_clock_ok:
  assumes inv: "ifu_inv R ifu pend" and fl: "itf_fifo_empty (if_fl_req_mst ifu)"
  shows "\<exists>act ifu'. ifu_clock predict ifu = Some ifu' \<and> tick_ok R pend ifu act ifu'"
proof -
  from start_tick [OF inv, of predict] obtain ost ifu0 where
    o: "ostq_clock (if_fch_ost ifu) = Some ost"
    and i0: "ifu0 = ifu_clear_bpu_update (ifu_clear_bpu_pred_req predict (ifu\<lparr>if_fch_ost := ost, if_back_blocked := False\<rparr>))"
    and 0: "ifu_inv R ifu0 pend" "\<not> ostq_head_freed (if_fch_ost ifu0)" "\<not> if_back_blocked ifu0" "ifu_outs ifu0 = ifu_outs ifu" "ifu_next ifu0 = ifu_next ifu"
      "if_ex_rsp_slv ifu0 = if_ex_rsp_slv ifu" "if_trap_send_slv ifu0 = if_trap_send_slv ifu" "if_fl_req_mst ifu0 = if_fl_req_mst ifu"
      "if_exu_state_i ifu0 = if_exu_state_i ifu" "ifu_flush_event_pending ifu0 = ifu_flush_event_pending ifu"
    unfolding Let_def by blast
  from 0(1) have inv0: "ifu_fetch_ok R ifu0 pend" "ifu_ports ifu0" "issue_ok R ifu0" "ifu_idle ifu0" by (simp_all add: ifu_inv_def)
  from ex_rsp_ok [OF inv0(2,4)] fl 0(8) obtain ifu1 where 1: "ifu_proc_ex_rsp ifu0 = Some ifu1" "heard ifu0 ifu1"
    "ifu_idle ifu1 \<Longrightarrow> if_fl_req_mst ifu1 = if_fl_req_mst ifu0" by auto
  from 1(2) have p1: "ifu_ports ifu1" by (simp add: heard_def)
  from trap_send_ok [OF p1] fl 0(8) 1(3) obtain ifu2 where 2: "ifu_proc_trap_send ifu1 = Some ifu2"
    "if ifu_idle ifu1 then heard ifu1 ifu2 else ifu2 = ifu1" by auto
  have h: "heard ifu0 ifu2" using 1(2) 2(2) heard_trans [of ifu0 ifu1 ifu2] by (simp split: if_splits)
  then have p2: "ifu_ports ifu2" and kp: "ifu_keep ifu2 = ifu_keep ifu0" by (simp_all add: heard_def)
  note k = keepD [OF kp]
  have f2: "ifu_fetch_ok R ifu2 pend" "issue_ok R ifu2" using inv0 k by simp_all
  have fin: "\<exists>act ifu'. ifu_clock predict ifu = Some ifu' \<and> tick_ok R pend ifu act ifu'"
    if "ifu_front_proc predict ifu = Some ifu3" "ifu_back_proc ifu3 = Some ifu'" "tick_ok R pend ifu act ifu'" for ifu3 ifu' act
  proof -
    from that(3) have "ifu_mem ifu'" "ifu_ptrs ifu'" by (simp_all add: tick_ok_def ifu_inv_def ifu_fetch_ok_def)
    from check_ok [OF this] that show ?thesis by (intro exI [of _ act] exI [of _ ifu']) (simp add: ifu_clock_def)
  qed
  have front: "ifu_front_proc predict ifu = (if rd_state (if_redirect ifu2) = IFU_REDIRECT_STATE_BRANCH \<or> rd_state (if_redirect ifu2) = IFU_REDIRECT_STATE_TRAP
     then Some ((ifu_update_fch_state (snd (ifu_proc_redirect ifu2)))\<lparr>if_back_blocked := True\<rparr>)
     else case ifu_proc_frontend_flush ifu2 of
       (True, ifu) \<Rightarrow> Some ((ifu_update_fch_state ifu)\<lparr>if_back_blocked := True\<rparr>)
     | (False, ifu) \<Rightarrow> do { ifu \<leftarrow> ifu_proc_fch_rsp ifu; ifu_prepare_issue predict ifu })"
    using 1(1) 2(1) by (simp add: ifu_front_proc_def o i0)
  show ?thesis
  proof (cases "ifu_idle ifu2")
    case False
    then have rd: "redirected ifu0 ifu2" using h by (simp add: heard_def)
    let ?i = "(ifu_update_fch_state (snd (ifu_proc_redirect ifu2)))\<lparr>if_back_blocked := True\<rparr>"
    note r = redirect_tick [OF f2(1) p2 rd]
    have fp: "ifu_front_proc predict ifu = Some ?i" using rd by (auto simp: front redirected_def)
    have bp: "ifu_back_proc ?i = Some ?i" using r(4) by (simp add: ifu_back_proc_def)
    have "tick_ok R pend ifu (Redirected (rd_pc (if_redirect ifu2))) ?i"
      using r rd 0(4,6,7) by (auto simp: tick_ok_def redirected_def outs_grow_def)
    then show ?thesis by (rule fin [OF fp bp])
  next
    case True
    then have o2: "ifu_outs ifu2 = ifu_outs ifu" using h 0(4) by (auto simp: heard_def redirected_def ifu_idle_def)
    have st: "rd_state (if_redirect ifu2) = IFU_REDIRECT_STATE_IDLE" using True by (simp add: ifu_idle_def)
    show ?thesis
    proof (cases "ifu_flush_event_pending ifu2 \<and> if_exu_state_i ifu2 \<noteq> None")
      case fl: True
      then obtain es where es: "if_exu_state_i ifu2 = Some es" "ifu_flush_event_pending ifu2" by auto
      let ?i = "(ifu_update_fch_state (snd (ifu_proc_frontend_flush ifu2)))\<lparr>if_back_blocked := True\<rparr>"
      note r = flush_tick [OF f2(1) p2 True es]
      obtain k2 where k2: "ifu_proc_frontend_flush ifu2 = (True, k2)" using r(4) by (cases "ifu_proc_frontend_flush ifu2") auto
      have fp: "ifu_front_proc predict ifu = Some ?i" unfolding front using st by (simp add: k2)
      have bp: "ifu_back_proc ?i = Some ?i" using r(5) by (simp add: ifu_back_proc_def)
      have "tick_ok R pend ifu (Flushed (es_irq_epc es)) ?i"
        using r es k(4,5) 0(9,10) o2 by (auto simp: tick_ok_def intro: outs_grow_same)
      then show ?thesis by (rule fin [OF fp bp])
    next
      case False
      then have "ifu_proc_frontend_flush ifu2 = (False, ifu2)" by (auto simp: ifu_proc_frontend_flush_def)
      then have fp: "ifu_front_proc predict ifu = do { ifu \<leftarrow> ifu_proc_fch_rsp ifu2; ifu_prepare_issue predict ifu }"
        unfolding front using st by simp
      from quiet_tick [OF f2(1) p2 f2(2)] 0(2,3) k(3,9) obtain act ifu3 ifu4 ifu' where
        q: "ifu_proc_fch_rsp ifu2 = Some ifu3" "ifu_prepare_issue predict ifu3 = Some ifu4" "ifu_back_proc ifu4 = Some ifu'"
        "ifu_moves R pend ifu2 act ifu'" "issue_ok R ifu'" by auto
      have q6: "act_cause ifu act" using q(4) by (cases act) (simp_all add: ifu_moves_def)
      have "tick_ok R pend ifu act ifu'"
        using q(4,5) q6 o2 k(8) 0(5) True by (simp add: tick_ok_def ifu_inv_def ifu_moves_def outs_grow_def ifu_idle_def)
      then show ?thesis using fin [of ifu4 ifu' act] fp q by simp
    qed
  qed
qed

end

end
