(* ===== verification/IfuRun.thy ===== *)
theory IfuRun
  imports Ifu
begin

text \<open>
  The fetch unit with its branch predictor, between the fetch path of the bus interface, the
  execution unit and the trap unit. The bus interface answers fetches in the order in which
  they were sent, after any delay and each with any packet that the relation \<open>R\<close> allows for its
  address; the other neighbours read and write their ports at any time. The fetch unit and the
  predictor are clocked one after the other, as in \<^verbatim>\<open>hart_clock_real\<close>.
\<close>

section \<open>Reset\<close>

definition ifu_built :: "ifu \<Rightarrow> bool" where
  "ifu_built ifu \<longleftrightarrow> ifu_ports ifu \<and> 0 < if_fch_ost_depth ifu \<and> q_depth (if_fch_ost ifu) = if_fch_ost_depth ifu
     \<and> fifo_inv (if_fch_rspq ifu) \<and> itf_inv (if_fch_req_mst ifu) \<and> itf_inv (if_fch_rsp_slv ifu)
     \<and> itf_list (if_fch_req_mst ifu) = [] \<and> itf_list (if_fch_rsp_slv ifu) = []"

lemma ifu_reset_ok:
  assumes b: "ifu_built ifu"
  shows "ifu_inv R (ifu_reset cb ifu) []" "ifu_next (ifu_reset cb ifu) = Some (if_reset_pc ifu)"
proof -
  let ?i = "ifu_reset cb ifu"
  note r = ostq_reset_live [of "if_fch_ost ifu"]
  have e: "if_fch_ost ?i = ostq_reset (if_fch_ost ifu)" "if_fch_rspq ?i = fifo_reset (if_fch_rspq ifu)" "if_fch_ost_depth ?i = if_fch_ost_depth ifu"
    "if_fch_req_mst ?i = if_fch_req_mst ifu" "if_fch_rsp_slv ?i = if_fch_rsp_slv ifu" "\<not> is_vld (if_issue ?i)" "ifu_idle ?i"
    "fc_pc (if_fch ?i) = if_reset_pc ifu" "fc_rsp_ptr (if_fch ?i) = 0" "fc_req_ptr (if_fch ?i) = 0" "\<not> fc_discard_vld (if_fch ?i)" "\<not> ifu_faulted ?i"
    by (simp_all add: ifu_reset_def write_pred_req_def Let_def ifu_idle_def ifu_faulted_def)
  from b have q: "fifo_inv (fifo_reset (if_fch_rspq ifu))" "fifo_list (fifo_reset (if_fch_rspq ifu)) = []"
    using fifo_reset_inv [of "if_fch_rspq ifu"] by (simp_all add: ifu_built_def)
  from b have o: "ostq_inv (ostq_reset (if_fch_ost ifu))" "ostq_live (ostq_reset (if_fch_ost ifu)) = []" "q_depth (ostq_reset (if_fch_ost ifu)) = if_fch_ost_depth ifu"
    using r by (simp_all add: ifu_built_def)
  have l: "ifu_live ?i = []" "ifu_discards ?i = 0" using o e by (simp_all add: ifu_live_def ifu_discards_def)
  have p: "ifu_path ?i = [if_reset_pc ifu]" unfolding ifu_path_def l e using q by simp
  have "ifu_mem ?i" "ifu_ptrs ?i" "ifu_aligned R ?i []" "ifu_fetched R ?i" using b o q
    by (simp_all add: ifu_built_def ifu_mem_def ifu_ptrs_def ifu_aligned_def ifu_fetched_def l e)
  then have "ifu_fetch_ok R ?i []" using p e by (simp add: ifu_fetch_ok_def)
  moreover have "ifu_ports ?i" using b fifo_reset_inv [of "if_ctrlq ifu"]
    by (simp add: ifu_built_def ifu_ports_def ifu_reset_def write_pred_req_def Let_def)
  ultimately show "ifu_inv R ?i []" using e by (simp add: ifu_inv_def issue_ok_def)
  show "ifu_next ?i = Some (if_reset_pc ifu)" using p e by (simp add: ifu_next_def)
qed

section \<open>Runs\<close>

type_synonym front = "ifu \<times> bpu \<times> u32 list"

inductive front_run :: "(u32 \<Rightarrow> fch_rsp \<Rightarrow> bool) \<Rightarrow> front \<Rightarrow> front \<Rightarrow> bool" for R s where
  start: "front_run R s s"
| tick: "front_run R s (ifu, bpu, pend) \<Longrightarrow> itf_fifo_empty (if_fl_req_mst ifu) \<Longrightarrow>
    ifu_clock (bpu_eval_pred_req bpu) ifu = Some ifu' \<Longrightarrow> front_run R s (ifu', bpu_clock bpu (if_bpu_update_mst ifu'), pend)"
| hbi_take: "front_run R s (ifu, bpu, pend) \<Longrightarrow> itf_read (if_fch_req_mst ifu) = Some (req, t) \<Longrightarrow>
    front_run R s (ifu\<lparr>if_fch_req_mst := t\<rparr>, bpu, pend @ [fq_pc req])"
| hbi_answer: "front_run R s (ifu, bpu, pc # pend) \<Longrightarrow> R pc rsp \<Longrightarrow> itf_write (if_fch_rsp_slv ifu) rsp = Some t \<Longrightarrow>
    front_run R s (ifu\<lparr>if_fch_rsp_slv := t\<rparr>, bpu, pend)"
| exu_take: "front_run R s (ifu, bpu, pend) \<Longrightarrow> itf_read (if_ex_req_mst ifu) = Some (req, t) \<Longrightarrow>
    front_run R s (ifu\<lparr>if_ex_req_mst := t\<rparr>, bpu, pend)"
| exu_flushed: "front_run R s (ifu, bpu, pend) \<Longrightarrow> itf_read (if_fl_req_mst ifu) = Some (fl, t) \<Longrightarrow>
    front_run R s (ifu\<lparr>if_fl_req_mst := t\<rparr>, bpu, pend)"
| exu_respond: "front_run R s (ifu, bpu, pend) \<Longrightarrow> itf_write (if_ex_rsp_slv ifu) rsp' = Some t \<Longrightarrow>
    front_run R s (ifu\<lparr>if_ex_rsp_slv := t\<rparr>, bpu, pend)"
| trap_take: "front_run R s (ifu, bpu, pend) \<Longrightarrow> itf_read (if_fch_expt_mst ifu) = Some (e, t) \<Longrightarrow>
    front_run R s (ifu\<lparr>if_fch_expt_mst := t\<rparr>, bpu, pend)"
| trap_redirect: "front_run R s (ifu, bpu, pend) \<Longrightarrow> itf_write (if_trap_send_slv ifu) ts = Some t \<Longrightarrow>
    front_run R s (ifu\<lparr>if_trap_send_slv := t\<rparr>, bpu, pend)"
| flush_inputs: "front_run R s (ifu, bpu, pend) \<Longrightarrow>
    front_run R s (ifu\<lparr>if_tlb_flush_slv := a, if_l1i_flush_slv := b, if_exu_state_i := c\<rparr>, bpu, pend)"

text \<open>The neighbours only touch their ports.\<close>

lemma ifu_inv_ports:
  assumes inv: "ifu_inv R ifu pend" and c: "ifu_core ifu' = ifu_core ifu" and i: "if_issue ifu' = if_issue ifu" "if_redirect ifu' = if_redirect ifu"
    and p: "ifu_ports ifu'"
  shows "ifu_inv R ifu' pend"
  using inv core_cong [OF c] issue_ready_cong(1) [of ifu' ifu] i p by (simp add: ifu_inv_def issue_ok_def ifu_idle_def)

lemma ifu_inv_fetch:
  assumes inv: "ifu_inv R ifu pend" and t: "itf_inv t" "itf_inv u"
    and a: "ifu_aligned R (ifu\<lparr>if_fch_req_mst := t, if_fch_rsp_slv := u\<rparr>) pend'"
  shows "ifu_inv R (ifu\<lparr>if_fch_req_mst := t, if_fch_rsp_slv := u\<rparr>) pend'"
proof -
  let ?i = "ifu\<lparr>if_fch_req_mst := t, if_fch_rsp_slv := u\<rparr>"
  have l: "ifu_live ?i = ifu_live ifu" "ifu_discards ?i = ifu_discards ifu" "ifu_faulted ?i = ifu_faulted ifu" "if_fch ?i = if_fch ifu"
    by (simp_all add: ifu_live_def ifu_discards_def ifu_faulted_def)
  have p: "ifu_path ?i = ifu_path ifu" unfolding ifu_path_def l by simp
  have "ifu_mem ?i" "ifu_ptrs ?i" "ifu_fetched R ?i" using inv t l
    by (simp_all add: ifu_inv_def ifu_fetch_ok_def ifu_mem_def ifu_ptrs_def ifu_fetched_def)
  with a inv have "ifu_fetch_ok R ?i pend'" unfolding ifu_inv_def ifu_fetch_ok_def p l by simp
  moreover have "issue_ready R ?i = issue_ready R ifu" using issue_ready_cong(1) [of ?i ifu] p l by simp
  ultimately show ?thesis using inv by (simp add: ifu_inv_def issue_ok_def ifu_idle_def ifu_ports_def)
qed

lemma front_run_inv:
  assumes "front_run R s s'" "s = (ifu0, bpu0, [])" "ifu_inv R ifu0 []"
  shows "ifu_inv R (fst s') (snd (snd s'))"
  using assms
proof induction
  case (tick ifu bpu pend ifu')
  then show ?case using bpu_predictor.ifu_clock_ok [of R ifu pend bpu] by (auto simp: tick_ok_def)
next
  case (hbi_take ifu bpu pend req t)
  then have i: "ifu_inv R ifu pend" by simp
  then have m: "itf_inv (if_fch_req_mst ifu)" "itf_inv (if_fch_rsp_slv ifu)" "ifu_aligned R ifu pend"
    by (simp_all add: ifu_inv_def ifu_fetch_ok_def ifu_mem_def)
  note r = itf.pop_SomeD [OF hbi_take.hyps(2) m(1)]
  have "ifu_aligned R (ifu\<lparr>if_fch_req_mst := t, if_fch_rsp_slv := if_fch_rsp_slv ifu\<rparr>) (pend @ [fq_pc req])"
    using m(3) r by (simp add: ifu_aligned_def ifu_live_def)
  from ifu_inv_fetch [OF i _ m(2) this] r show ?case by simp
next
  case (hbi_answer ifu bpu pc pend rsp t)
  then have i: "ifu_inv R ifu (pc # pend)" by simp
  then have m: "itf_inv (if_fch_req_mst ifu)" "itf_inv (if_fch_rsp_slv ifu)" "ifu_aligned R ifu (pc # pend)"
    by (simp_all add: ifu_inv_def ifu_fetch_ok_def ifu_mem_def)
  note r = itf.push_SomeD [OF hbi_answer.hyps(3) m(2)]
  from m(3) obtain A where A: "ifu_live ifu = A @ (pc # pend) @ map fq_pc (itf_list (if_fch_req_mst ifu))" "list_all2 R A (itf_list (if_fch_rsp_slv ifu))"
    by (auto simp: ifu_aligned_def)
  have "ifu_aligned R (ifu\<lparr>if_fch_req_mst := if_fch_req_mst ifu, if_fch_rsp_slv := t\<rparr>) pend"
    unfolding ifu_aligned_def using A r hbi_answer.hyps(2)
    by (intro exI [of _ "A @ [pc]"]) (simp add: ifu_live_def list_all2_appendI)
  from ifu_inv_fetch [OF i m(1) _ this] r show ?case by simp
next
  case (exu_take ifu bpu pend req t)
  then have i: "ifu_inv R ifu pend" by simp
  show ?case using itf.pop_SomeD [OF exu_take.hyps(2)] i
    by (simp, intro ifu_inv_ports [OF i]) (auto simp: ifu_core_def ifu_faulted_def ifu_ports_def ifu_inv_def)
next
  case (exu_flushed ifu bpu pend fl t)
  then have i: "ifu_inv R ifu pend" by simp
  show ?case using itf.pop_SomeD [OF exu_flushed.hyps(2)] i
    by (simp, intro ifu_inv_ports [OF i]) (auto simp: ifu_core_def ifu_faulted_def ifu_ports_def ifu_inv_def)
next
  case (exu_respond ifu bpu pend rsp' t)
  then have i: "ifu_inv R ifu pend" by simp
  show ?case using itf.push_SomeD [OF exu_respond.hyps(2)] i
    by (simp, intro ifu_inv_ports [OF i]) (auto simp: ifu_core_def ifu_faulted_def ifu_ports_def ifu_inv_def)
next
  case (trap_take ifu bpu pend e t)
  then have i: "ifu_inv R ifu pend" by simp
  show ?case using itf.pop_SomeD [OF trap_take.hyps(2)] i
    by (simp, intro ifu_inv_ports [OF i]) (auto simp: ifu_core_def ifu_faulted_def ifu_ports_def ifu_inv_def)
next
  case (trap_redirect ifu bpu pend ts t)
  then have i: "ifu_inv R ifu pend" by simp
  show ?case using itf.push_SomeD [OF trap_redirect.hyps(2)] i
    by (simp, intro ifu_inv_ports [OF i]) (auto simp: ifu_core_def ifu_faulted_def ifu_ports_def ifu_inv_def)
next
  case (flush_inputs ifu bpu pend a b c)
  then have i: "ifu_inv R ifu pend" by simp
  then show ?case
    by (simp, intro ifu_inv_ports [OF i]) (auto simp: ifu_core_def ifu_faulted_def ifu_ports_def ifu_inv_def)
qed simp

section \<open>The instructions handed over\<close>

text \<open>
  C7. The fetch unit follows the predicted path. It starts at the reset address; from then on, in
  every run with the branch predictor, a tick never fails an assertion and does one of five things.
  It hands over exactly one instruction, the one at the next address of the path, with the
  instruction word that the fetch path answered for that very address, and the path goes on at the
  predicted successor, which is the following word unless the branch is predicted as taken. Or it
  reports the exception with which that fetch was answered, and the path ends. Or it is redirected
  to the target of a wrongly predicted branch or of a trap, flushing the execution unit. Or it
  restarts where the execution unit stands, after a cache or translation flush. Or nothing is handed
  over and the path stays. Answers to fetches of abandoned paths are never handed over.
\<close>

theorem ifu_follows_path:
  assumes "ifu_built ifu0" "front_run R (ifu_reset cb ifu0, bpu0, []) (ifu, bpu, pend)" "itf_fifo_empty (if_fl_req_mst ifu)"
  shows "ifu_next (ifu_reset cb ifu0) = Some (if_reset_pc ifu0)
    \<and> (\<exists>act ifu'. ifu_clock (bpu_eval_pred_req bpu) ifu = Some ifu' \<and> act_just R act \<and> act_cause ifu act \<and> outs_grow ifu act ifu'
      \<and> path_step (ifu_next ifu) act = Some (ifu_next ifu'))"
proof -
  note r = ifu_reset_ok(1) [OF assms(1), of R cb] ifu_reset_ok(2) [OF assms(1), of cb]
  from front_run_inv [OF assms(2) refl r(1)] have "ifu_inv R ifu pend" by simp
  from bpu_predictor.ifu_clock_ok [OF this assms(3), of bpu] r(2) show ?thesis by (auto simp: tick_ok_def)
qed

text \<open>A run that fetches a jump at the reset address.\<close>

datatype front_ev = Tick | Take | Answer

fun front_event :: "(u32 \<Rightarrow> fch_rsp) \<Rightarrow> front_ev \<Rightarrow> front \<Rightarrow> front option" where
  "front_event mem Tick (ifu, bpu, pend) = do {
     DBG_CHECK (itf_fifo_empty (if_fl_req_mst ifu));
     ifu' \<leftarrow> ifu_clock (bpu_eval_pred_req bpu) ifu;
     Some (ifu', bpu_clock bpu (if_bpu_update_mst ifu'), pend)
   }"
| "front_event mem Take (ifu, bpu, pend) = do {
     (req, t) \<leftarrow> itf_read (if_fch_req_mst ifu);
     Some (ifu\<lparr>if_fch_req_mst := t\<rparr>, bpu, pend @ [fq_pc req])
   }"
| "front_event mem Answer (ifu, bpu, pend) = (case pend of [] \<Rightarrow> None | pc # pend \<Rightarrow> do {
     t \<leftarrow> itf_write (if_fch_rsp_slv ifu) (mem pc);
     Some (ifu\<lparr>if_fch_rsp_slv := t\<rparr>, bpu, pend)
   })"

fun front_exec :: "(u32 \<Rightarrow> fch_rsp) \<Rightarrow> front_ev list \<Rightarrow> front \<Rightarrow> front option" where
  "front_exec mem [] s = Some s"
| "front_exec mem (ev # evs) s = do { s \<leftarrow> front_event mem ev s; front_exec mem evs s }"

lemma front_event_run:
  assumes "front_run (\<lambda>pc rsp. rsp = mem pc) s0 s" "front_event mem ev s = Some s'"
  shows "front_run (\<lambda>pc rsp. rsp = mem pc) s0 s'"
proof -
  obtain ifu bpu pend where s: "s = (ifu, bpu, pend)" by (cases s)
  show ?thesis
  proof (cases ev)
    case Tick
    then show ?thesis using assms s by (auto split: if_splits simp: bind_eq_Some_conv intro: front_run.tick)
  next
    case Take
    then show ?thesis using assms s by (auto simp: bind_eq_Some_conv intro: front_run.hbi_take)
  next
    case Answer
    then show ?thesis using assms s by (auto simp: bind_eq_Some_conv split: list.splits intro: front_run.hbi_answer)
  qed
qed

lemma front_exec_run:
  "front_run (\<lambda>pc rsp. rsp = mem pc) s0 s \<Longrightarrow> front_exec mem evs s = Some s' \<Longrightarrow> front_run (\<lambda>pc rsp. rsp = mem pc) s0 s'"
proof (induction evs arbitrary: s)
  case (Cons ev evs)
  from Cons.prems(2) obtain t where "front_event mem ev s = Some t" "front_exec mem evs t = Some s'" by (auto simp: bind_eq_Some_conv)
  with Cons.IH front_event_run [OF Cons.prems(1)] show ?case by blast
qed simp

definition jump_mem :: "u32 \<Rightarrow> fch_rsp" where
  "jump_mem pc = \<lparr>fr_ir = (if pc = 0x80 then 0x0100006F else 0x13), fr_ok = True, fr_expt = False, fr_cause = 0, fr_priv = 3, fr_tval = 0\<rparr>"

definition ifu_sample :: ifu where
  "ifu_sample = \<lparr>if_fch_req_mst = fifo_itf_construct 1, if_fch_rsp_slv = fifo_itf_construct 1, if_ex_req_mst = fifo_itf_construct 1,
     if_ex_rsp_slv = fifo_itf_construct 1, if_fl_req_mst = fifo_itf_construct 1, if_bpu_pred_req_mst = no_pred_req,
     if_bpu_pred_rsp_slv = bpu_eval_pred_req (bpu_reset undefined) clear_update no_pred_req, if_bpu_update_mst = clear_update,
     if_fch_expt_mst = fifo_itf_construct 1, if_trap_send_slv = fifo_itf_construct 1, if_tlb_flush_slv = None, if_l1i_flush_slv = None,
     if_exu_state_i = None, if_reset_pc = 0x80, if_fch_ost_depth = 2, if_fch = undefined, if_back_blocked = False,
     if_fch_ost = the (ostq_construct 2), if_fch_rspq = the (fifo_construct 2), if_issue = undefined, if_redirect = undefined,
     if_ctrlq = the (fifo_construct 2), if_boot_rom_base = 0, if_boot_rom_size = 0, if_perf_fch_rsp_inst = 0, if_perf_fch_ost_full = 0\<rparr>"

definition front_start :: front where
  "front_start = (ifu_reset (bpu_eval_pred_req (bpu_reset undefined)) ifu_sample, bpu_reset undefined, [])"

definition front_demo :: front where
  "front_demo = the (front_exec jump_mem [Tick, Take, Tick, Answer] front_start)"

lemma ifu_sample_built: "ifu_built ifu_sample"
  by (simp add: ifu_built_def ifu_sample_def ifu_ports_def fifo_construct_def ostq_construct_def)
    (simp add: fifo_inv_def ring_inv_def ostq_reset_def)

lemma front_demo_run: "front_run (\<lambda>pc rsp. rsp = jump_mem pc) front_start front_demo"
proof -
  have "front_exec jump_mem [Tick, Take, Tick, Answer] front_start \<noteq> None" by code_simp
  then have "front_exec jump_mem [Tick, Take, Tick, Answer] front_start = Some front_demo" by (auto simp: front_demo_def)
  from front_exec_run [OF front_run.start this] show ?thesis .
qed

theorem ifu_follows_path_witness:
  "front_run (\<lambda>pc rsp. rsp = jump_mem pc) front_start front_demo
   \<and> (\<exists>ifu'. ifu_clock (bpu_eval_pred_req (fst (snd front_demo))) (fst front_demo) = Some ifu'
     \<and> map er_pc (itf_list (if_ex_req_mst ifu')) = [0x80] \<and> ifu_next ifu' = Some 0x90)"
proof -
  have fl: "itf_fifo_empty (if_fl_req_mst (fst front_demo))" by code_simp
  have ex: "map_option (\<lambda>i. map (\<lambda>r. (er_pc r, er_pred_pc r)) (itf_list (if_ex_req_mst i)))
      (ifu_clock (bpu_eval_pred_req (fst (snd front_demo))) (fst front_demo)) = Some [(0x80, 0x90)]" by code_simp
  have o: "ifu_outs (fst front_demo) = ([], [], [])" by code_simp
  have "front_run (\<lambda>pc rsp. rsp = jump_mem pc) (ifu_reset (bpu_eval_pred_req (bpu_reset undefined)) ifu_sample, bpu_reset undefined, [])
      (fst front_demo, fst (snd front_demo), snd (snd front_demo))" using front_demo_run by (simp add: front_start_def)
  from ifu_follows_path [OF ifu_sample_built this fl] obtain act ifu' where
    a: "ifu_clock (bpu_eval_pred_req (fst (snd front_demo))) (fst front_demo) = Some ifu'" "outs_grow (fst front_demo) act ifu'"
      "path_step (ifu_next (fst front_demo)) act = Some (ifu_next ifu')" by (elim conjE exE) (rule that)
  from ex a(1) have e: "map (\<lambda>r. (er_pc r, er_pred_pc r)) (itf_list (if_ex_req_mst ifu')) = [(0x80, 0x90)]" by simp
  with a(2) o obtain r where r: "act = Issued r" "itf_list (if_ex_req_mst ifu') = [r]"
    by (cases act) (auto simp: outs_grow_def ifu_outs_def)
  from r e have "er_pc r = 0x80" "er_pred_pc r = 0x90" by simp_all
  moreover from a(3) r(1) have "ifu_next ifu' = Some (er_pred_pc r)" by (simp split: if_splits)
  ultimately show ?thesis using front_demo_run a(1) r(2) by simp
qed

end
