(* ===== verification/Hbi.thy ===== *)
theory Hbi
  imports OstSlots FchPackets BtiPackets "HOL-Library.Sublist"
begin

text \<open>
  The bus interface of a hart (\<^verbatim>\<open>core/hart/hbi.c\<close>): it turns fetches and data accesses into bus
  transactions, keeps both kinds in a table of their own, and answers each kind in order. A
  fetch whose translation fails is answered by an exception from the address translation unit,
  which names the address of the fetch, instead of a bus response.
\<close>

section \<open>hbi.h\<close>

abbreviation (input) FCH_TRANS_ID :: u16 where "FCH_TRANS_ID \<equiv> 0"
abbreviation (input) LDST_TRANS_ID :: u16 where "LDST_TRANS_ID \<equiv> 1"

record hbi_i_ost_ctx =
  hc_pc :: u32
  hc_rsp_vld :: bool
  hc_rsp :: fch_rsp

record hbi_d_ost_ctx =
  hd_rsp_vld :: bool
  hd_rsp :: ldst_rsp

record hbi =
  hb_i_bti_req_mst :: "bti_req itf"
  hb_i_bti_rsp_slv :: "bti_rsp itf"
  hb_d_bti_req_mst :: "bti_req itf"
  hb_d_bti_rsp_slv :: "bti_rsp itf"
  hb_fch_req_slv :: "fch_req itf"
  hb_fch_rsp_mst :: "fch_rsp itf"
  hb_mmu_fch_expt_slv :: "hart_expt itf"
  hb_ldst_req_slv :: "ldst_req itf"
  hb_ldst_rsp_mst :: "ldst_rsp itf"
  hb_fch_req_fifo :: "fch_req fifo"
  hb_ldst_req_fifo :: "ldst_req fifo"
  hb_i_ost :: "hbi_i_ost_ctx ostq"
  hb_d_ost :: "hbi_d_ost_ctx ostq"
  hb_perf_i_stg_full :: u64
  hb_perf_d_stg_full :: u64
  hb_perf_i_ost_full :: u64
  hb_perf_d_ost_full :: u64

section \<open>hbi.c\<close>

definition hbi_reset :: "hbi \<Rightarrow> hbi" where
  "hbi_reset hbi = hbi\<lparr>hb_fch_req_fifo := fifo_reset (hb_fch_req_fifo hbi), hb_ldst_req_fifo := fifo_reset (hb_ldst_req_fifo hbi),
     hb_i_ost := ostq_reset (hb_i_ost hbi), hb_d_ost := ostq_reset (hb_d_ost hbi),
     hb_perf_i_stg_full := 0, hb_perf_d_stg_full := 0, hb_perf_i_ost_full := 0, hb_perf_d_ost_full := 0\<rparr>"

definition hbi_capture_i_req :: "hbi \<Rightarrow> hbi option" where
  "hbi_capture_i_req hbi =
     (if fifo_full (hb_fch_req_fifo hbi) then
        Some (if \<not> itf_fifo_empty (hb_fch_req_slv hbi) then hbi\<lparr>hb_perf_i_stg_full := hb_perf_i_stg_full hbi + 1\<rparr> else hbi)
      else if itf_fifo_empty (hb_fch_req_slv hbi) then Some hbi
      else do {
        (fch_req, t) \<leftarrow> itf_read (hb_fch_req_slv hbi);
        q \<leftarrow> fifo_push (hb_fch_req_fifo hbi) fch_req;
        Some (hbi\<lparr>hb_fch_req_slv := t, hb_fch_req_fifo := q\<rparr>)
      })"

definition hbi_capture_d_req :: "hbi \<Rightarrow> hbi option" where
  "hbi_capture_d_req hbi =
     (if fifo_full (hb_ldst_req_fifo hbi) then
        Some (if \<not> itf_fifo_empty (hb_ldst_req_slv hbi) then hbi\<lparr>hb_perf_d_stg_full := hb_perf_d_stg_full hbi + 1\<rparr> else hbi)
      else if itf_fifo_empty (hb_ldst_req_slv hbi) then Some hbi
      else do {
        (ldst_req, t) \<leftarrow> itf_read (hb_ldst_req_slv hbi);
        q \<leftarrow> fifo_push (hb_ldst_req_fifo hbi) ldst_req;
        Some (hbi\<lparr>hb_ldst_req_slv := t, hb_ldst_req_fifo := q\<rparr>)
      })"

text \<open>The empty packets \<^verbatim>\<open>{}\<close>.\<close>

definition no_fch_rsp :: fch_rsp where
  "no_fch_rsp = \<lparr>fr_ir = 0, fr_ok = False, fr_expt = False, fr_cause = 0, fr_priv = 0, fr_tval = 0\<rparr>"

definition no_ldst_rsp :: ldst_rsp where
  "no_ldst_rsp = \<lparr>lr_data = 0, lr_ok = False\<rparr>"

definition fch_bti :: "fch_req \<Rightarrow> bti_req" where
  "fch_bti req = \<lparr>bq_trans_id = FCH_TRANS_ID, bq_cmd = BTI_REQ_CMD_READ, bq_addr = fq_pc req, bq_size = BTI_REQ_SIZE_B4,
     bq_data = 0, bq_strobe = 0\<rparr>"

definition hbi_proc_i_req :: "hbi \<Rightarrow> hbi option" where
  "hbi_proc_i_req hbi =
     (if fifo_empty (hb_fch_req_fifo hbi) then Some hbi
      else if ostq_full (hb_i_ost hbi) then Some (hbi\<lparr>hb_perf_i_ost_full := hb_perf_i_ost_full hbi + 1\<rparr>)
      else if itf_fifo_full (hb_i_bti_req_mst hbi) then Some hbi
      else do {
        (fch_req, q) \<leftarrow> fifo_pop (hb_fch_req_fifo hbi);
        t \<leftarrow> itf_write (hb_i_bti_req_mst hbi) (fch_bti fch_req);
        alloc \<leftarrow> ostq_alloc (hb_i_ost hbi) \<lparr>hc_pc = fq_pc fch_req, hc_rsp_vld = False, hc_rsp = no_fch_rsp\<rparr>;
        (slot, ost) \<leftarrow> alloc;
        Some (hbi\<lparr>hb_fch_req_fifo := q, hb_i_bti_req_mst := t, hb_i_ost := ost\<rparr>)
      })"

definition ldst_bti :: "ldst_req \<Rightarrow> bti_req" where
  "ldst_bti req = \<lparr>bq_trans_id = LDST_TRANS_ID,
     bq_cmd = (case lq_cmo req of
         LDST_REQ_CMO_NONE \<Rightarrow> if lq_st req then BTI_REQ_CMD_WRITE else BTI_REQ_CMD_READ
       | LDST_REQ_CMO_INVAL \<Rightarrow> BTI_REQ_CMD_CBO_INVAL
       | LDST_REQ_CMO_CLEAN \<Rightarrow> BTI_REQ_CMD_CBO_CLEAN
       | LDST_REQ_CMO_FLUSH \<Rightarrow> BTI_REQ_CMD_CBO_FLUSH),
     bq_addr = lq_addr req,
     bq_size = (case lq_size req of LDST_REQ_SIZE_B1 \<Rightarrow> BTI_REQ_SIZE_B1 | LDST_REQ_SIZE_B2 \<Rightarrow> BTI_REQ_SIZE_B2
       | LDST_REQ_SIZE_B4 \<Rightarrow> BTI_REQ_SIZE_B4),
     bq_data = lq_data req, bq_strobe = lq_strobe req\<rparr>"

definition hbi_proc_d_req :: "hbi \<Rightarrow> hbi option" where
  "hbi_proc_d_req hbi =
     (if fifo_empty (hb_ldst_req_fifo hbi) then Some hbi
      else if ostq_full (hb_d_ost hbi) then Some (hbi\<lparr>hb_perf_d_ost_full := hb_perf_d_ost_full hbi + 1\<rparr>)
      else if itf_fifo_full (hb_d_bti_req_mst hbi) then Some hbi
      else do {
        (ldst_req, q) \<leftarrow> fifo_pop (hb_ldst_req_fifo hbi);
        t \<leftarrow> itf_write (hb_d_bti_req_mst hbi) (ldst_bti ldst_req);
        alloc \<leftarrow> ostq_alloc (hb_d_ost hbi) \<lparr>hd_rsp_vld = False, hd_rsp = no_ldst_rsp\<rparr>;
        (slot, ost) \<leftarrow> alloc;
        Some (hbi\<lparr>hb_ldst_req_fifo := q, hb_d_bti_req_mst := t, hb_d_ost := ost\<rparr>)
      })"

definition hbi_find_i_slot_by_pc :: "hbi \<Rightarrow> u32 \<Rightarrow> (nat \<times> hbi_i_ost_ctx) option option" where
  "hbi_find_i_slot_by_pc hbi pc = ostq_find (\<lambda>cur. hc_pc cur = pc) (hb_i_ost hbi)"

definition hbi_find_oldest_i_wait_slot :: "hbi \<Rightarrow> (nat \<times> hbi_i_ost_ctx) option option" where
  "hbi_find_oldest_i_wait_slot hbi = ostq_find (\<lambda>cur. \<not> hc_rsp_vld cur) (hb_i_ost hbi)"

definition hbi_find_oldest_d_wait_slot :: "hbi \<Rightarrow> (nat \<times> hbi_d_ost_ctx) option option" where
  "hbi_find_oldest_d_wait_slot hbi = ostq_find (\<lambda>cur. \<not> hd_rsp_vld cur) (hb_d_ost hbi)"

definition fch_of_bti :: "bti_rsp \<Rightarrow> fch_rsp" where
  "fch_of_bti rsp = \<lparr>fr_ir = bp_data rsp, fr_ok = bp_ok rsp, fr_expt = False, fr_cause = 0, fr_priv = 0, fr_tval = 0\<rparr>"

definition fch_of_expt :: "hart_expt \<Rightarrow> fch_rsp" where
  "fch_of_expt expt = \<lparr>fr_ir = 0, fr_ok = False, fr_expt = True, fr_cause = he_cause expt, fr_priv = he_priv expt, fr_tval = he_tval expt\<rparr>"

definition hbi_proc_i_rsp :: "hbi \<Rightarrow> hbi option" where
  "hbi_proc_i_rsp hbi =
     (if itf_fifo_empty (hb_i_bti_rsp_slv hbi) then Some hbi
      else do {
        (bti_rsp, t) \<leftarrow> itf_read (hb_i_bti_rsp_slv hbi);
        let hbi = hbi\<lparr>hb_i_bti_rsp_slv := t\<rparr>;
        DBG_CHECK (bp_trans_id bti_rsp = FCH_TRANS_ID);
        found \<leftarrow> hbi_find_oldest_i_wait_slot hbi;
        (slot, ctx) \<leftarrow> found;
        DBG_CHECK (\<not> hc_rsp_vld ctx);
        ost \<leftarrow> ostq_write_slot (hb_i_ost hbi) slot (ctx\<lparr>hc_rsp := fch_of_bti bti_rsp, hc_rsp_vld := True\<rparr>);
        Some (hbi\<lparr>hb_i_ost := ost\<rparr>)
      })"

definition hbi_proc_i_expt :: "hbi \<Rightarrow> hbi option" where
  "hbi_proc_i_expt hbi =
     (if itf_fifo_empty (hb_mmu_fch_expt_slv hbi) then Some hbi
      else do {
        expt \<leftarrow> itf_fifo_get_front (hb_mmu_fch_expt_slv hbi);
        DBG_CHECK (he_type expt = HART_EXPT_TYPE_EXCEPTION);
        found \<leftarrow> hbi_find_i_slot_by_pc hbi (he_pc expt);
        (slot, ctx) \<leftarrow> found;
        DBG_CHECK (\<not> hc_rsp_vld ctx);
        t \<leftarrow> itf_fifo_pop_front (hb_mmu_fch_expt_slv hbi);
        ost \<leftarrow> ostq_write_slot (hb_i_ost hbi) slot (ctx\<lparr>hc_rsp := fch_of_expt expt, hc_rsp_vld := True\<rparr>);
        Some (hbi\<lparr>hb_mmu_fch_expt_slv := t, hb_i_ost := ost\<rparr>)
      })"

definition hbi_send_i_rsp :: "hbi \<Rightarrow> hbi option" where
  "hbi_send_i_rsp hbi =
     (if itf_fifo_full (hb_fch_rsp_mst hbi) then Some hbi
      else do {
        found \<leftarrow> ostq_peek_head (hb_i_ost hbi);
        case found of None \<Rightarrow> Some hbi
        | Some (slot, ctx) \<Rightarrow>
            if \<not> hc_rsp_vld ctx then Some hbi
            else do {
              t \<leftarrow> itf_write (hb_fch_rsp_mst hbi) (hc_rsp ctx);
              ost \<leftarrow> ostq_free_head (hb_i_ost hbi);
              Some (hbi\<lparr>hb_fch_rsp_mst := t, hb_i_ost := ost\<rparr>)
            }
      })"

definition ldst_of_bti :: "bti_rsp \<Rightarrow> ldst_rsp" where
  "ldst_of_bti rsp = \<lparr>lr_data = bp_data rsp, lr_ok = bp_ok rsp\<rparr>"

definition hbi_proc_d_rsp :: "hbi \<Rightarrow> hbi option" where
  "hbi_proc_d_rsp hbi =
     (if itf_fifo_empty (hb_d_bti_rsp_slv hbi) then Some hbi
      else do {
        found \<leftarrow> hbi_find_oldest_d_wait_slot hbi;
        (slot, ctx) \<leftarrow> found;
        DBG_CHECK (\<not> hd_rsp_vld ctx);
        (bti_rsp, t) \<leftarrow> itf_read (hb_d_bti_rsp_slv hbi);
        DBG_CHECK (bp_trans_id bti_rsp = LDST_TRANS_ID);
        ost \<leftarrow> ostq_write_slot (hb_d_ost hbi) slot (ctx\<lparr>hd_rsp := ldst_of_bti bti_rsp, hd_rsp_vld := True\<rparr>);
        Some (hbi\<lparr>hb_d_bti_rsp_slv := t, hb_d_ost := ost\<rparr>)
      })"

definition hbi_send_d_rsp :: "hbi \<Rightarrow> hbi option" where
  "hbi_send_d_rsp hbi =
     (if itf_fifo_full (hb_ldst_rsp_mst hbi) then Some hbi
      else do {
        found \<leftarrow> ostq_peek_head (hb_d_ost hbi);
        case found of None \<Rightarrow> Some hbi
        | Some (slot, ctx) \<Rightarrow>
            if \<not> hd_rsp_vld ctx then Some hbi
            else do {
              t \<leftarrow> itf_write (hb_ldst_rsp_mst hbi) (hd_rsp ctx);
              ost \<leftarrow> ostq_free_head (hb_d_ost hbi);
              Some (hbi\<lparr>hb_ldst_rsp_mst := t, hb_d_ost := ost\<rparr>)
            }
      })"

definition hbi_clock :: "hbi \<Rightarrow> hbi option" where
  "hbi_clock hbi = do {
     i_ost \<leftarrow> ostq_clock (hb_i_ost hbi);
     d_ost \<leftarrow> ostq_clock (hb_d_ost hbi);
     let hbi = hbi\<lparr>hb_i_ost := i_ost, hb_d_ost := d_ost\<rparr>;
     hbi \<leftarrow> hbi_capture_i_req hbi;
     hbi \<leftarrow> hbi_capture_d_req hbi;
     hbi \<leftarrow> hbi_proc_i_expt hbi;
     hbi \<leftarrow> hbi_proc_i_rsp hbi;
     hbi \<leftarrow> hbi_send_i_rsp hbi;
     hbi \<leftarrow> hbi_proc_d_rsp hbi;
     hbi \<leftarrow> hbi_send_d_rsp hbi;
     hbi \<leftarrow> hbi_proc_i_req hbi;
     hbi_proc_d_req hbi
   }"

section \<open>Data accesses\<close>

text \<open>
  \<open>I\<close> are the accesses the load/store unit has sent, \<open>os\<close> the answers it has taken, \<open>Q\<close> the
  transactions the bus has taken and \<open>R\<close> the responses it has given.
\<close>

definition hbi_d_ports :: "hbi \<Rightarrow> bool" where
  "hbi_d_ports hbi \<longleftrightarrow> itf_inv (hb_d_bti_req_mst hbi) \<and> itf_inv (hb_d_bti_rsp_slv hbi) \<and> itf_inv (hb_ldst_req_slv hbi)
     \<and> itf_inv (hb_ldst_rsp_mst hbi) \<and> fifo_inv (hb_ldst_req_fifo hbi) \<and> ostq_inv (hb_d_ost hbi)"

definition d_slots :: "hbi_d_ost_ctx list \<Rightarrow> bti_rsp list \<Rightarrow> bti_rsp list \<Rightarrow> ldst_rsp list \<Rightarrow> nat \<Rightarrow> bool" where
  "d_slots L R waiting outs sent \<longleftrightarrow> sent = length outs + length L \<and> (\<exists>V W P. L = V @ W \<and> (\<forall>c\<in>set V. hd_rsp_vld c) \<and> (\<forall>c\<in>set W. \<not> hd_rsp_vld c)
     \<and> R = P @ waiting \<and> map ldst_of_bti P = outs @ map hd_rsp V)"

definition hbi_d_inv :: "hbi \<Rightarrow> ldst_req list \<Rightarrow> ldst_rsp list \<Rightarrow> bti_req list \<Rightarrow> bti_rsp list \<Rightarrow> bool" where
  "hbi_d_inv hbi I os Q R \<longleftrightarrow> hbi_d_ports hbi \<and> length R \<le> length Q \<and> (\<forall>r\<in>set R. bp_trans_id r = LDST_TRANS_ID)
     \<and> map ldst_bti I = Q @ itf_list (hb_d_bti_req_mst hbi) @ map ldst_bti (fifo_list (hb_ldst_req_fifo hbi) @ itf_list (hb_ldst_req_slv hbi))
     \<and> d_slots (ostq_live (hb_d_ost hbi)) R (itf_list (hb_d_bti_rsp_slv hbi)) (os @ itf_list (hb_ldst_rsp_mst hbi))
         (length Q + length (itf_list (hb_d_bti_req_mst hbi)))"

definition hbi_d_view :: "hbi \<Rightarrow> _" where
  "hbi_d_view hbi = (hb_d_bti_req_mst hbi, hb_d_bti_rsp_slv hbi, hb_ldst_req_slv hbi, hb_ldst_rsp_mst hbi, hb_ldst_req_fifo hbi, hb_d_ost hbi)"

definition hbi_i_view :: "hbi \<Rightarrow> _" where
  "hbi_i_view hbi = (hb_i_bti_req_mst hbi, hb_i_bti_rsp_slv hbi, hb_fch_req_slv hbi, hb_fch_rsp_mst hbi, hb_mmu_fch_expt_slv hbi,
     hb_fch_req_fifo hbi, hb_i_ost hbi)"

lemma d_inv_cong: "hbi_d_view hbi' = hbi_d_view hbi \<Longrightarrow> hbi_d_inv hbi' I os Q R = hbi_d_inv hbi I os Q R"
  by (simp add: hbi_d_view_def hbi_d_inv_def hbi_d_ports_def)

lemma find_idx_first: "(\<forall>x\<in>set xs. \<not> P x) \<Longrightarrow> P y \<Longrightarrow> find_idx P (xs @ y # ys) = Some (length xs)"
  by (induction xs) auto

lemma d_slots_answer:
  assumes s: "d_slots L R (r # waiting) outs sent" and n: "length R \<le> sent"
  shows "\<exists>k. find_idx (\<lambda>c. \<not> hd_rsp_vld c) L = Some k \<and> k < length L
    \<and> d_slots (L[k := (L ! k)\<lparr>hd_rsp := ldst_of_bti r, hd_rsp_vld := True\<rparr>]) R waiting outs sent"
proof -
  from s obtain V W P where v: "L = V @ W" "\<forall>c\<in>set V. hd_rsp_vld c" "\<forall>c\<in>set W. \<not> hd_rsp_vld c"
    "R = P @ r # waiting" "map ldst_of_bti P = outs @ map hd_rsp V" "sent = length outs + length L" by (auto simp: d_slots_def)
  have "length P = length outs + length V" using arg_cong [OF v(5), of length] by simp
  with n v obtain c W' where w: "W = c # W'" by (cases W) auto
  let ?c = "c\<lparr>hd_rsp := ldst_of_bti r, hd_rsp_vld := True\<rparr>"
  have f: "find_idx (\<lambda>c. \<not> hd_rsp_vld c) L = Some (length V)" unfolding v(1) w by (rule find_idx_first) (use v(2,3) w in auto)
  have u: "L[length V := (L ! length V)\<lparr>hd_rsp := ldst_of_bti r, hd_rsp_vld := True\<rparr>] = (V @ [?c]) @ W'" unfolding v(1) w by simp
  have "d_slots ((V @ [?c]) @ W') R waiting outs sent" unfolding d_slots_def
    by (rule conjI, use v(1,6) w in simp, rule exI [of _ "V @ [?c]"], rule exI [of _ W'], rule exI [of _ "P @ [r]"]) (use v w in auto)
  then show ?thesis using f u v(1) w by (intro exI [of _ "length V"]) simp
qed

lemma d_slots_send:
  assumes "d_slots (c # L) R waiting outs sent" "hd_rsp_vld c"
  shows "d_slots L R waiting (outs @ [hd_rsp c]) sent"
proof -
  from assms(1) obtain V W P where v: "sent = length outs + length (c # L)" "c # L = V @ W" "\<forall>c\<in>set V. hd_rsp_vld c"
    "\<forall>c\<in>set W. \<not> hd_rsp_vld c" "R = P @ waiting" "map ldst_of_bti P = outs @ map hd_rsp V"
    unfolding d_slots_def by (elim conjE exE) (rule that)
  then obtain V' where "V = c # V'" "L = V' @ W" using assms(2) by (cases V) auto
  with v show ?thesis by (auto simp: d_slots_def)
qed

lemma d_slots_alloc:
  "d_slots L R waiting outs sent \<Longrightarrow> d_slots (L @ [\<lparr>hd_rsp_vld = False, hd_rsp = no_ldst_rsp\<rparr>]) R waiting outs (Suc sent)"
  by (fastforce simp: d_slots_def)

lemma d_slots_rsp: "d_slots L R waiting outs sent \<Longrightarrow> d_slots L (R @ [r]) (waiting @ [r]) outs sent"
  by (auto simp: d_slots_def)

lemma d_slots_prefix:
  assumes "d_slots L R waiting outs sent"
  shows "prefix outs (map ldst_of_bti R)"
proof -
  from assms obtain V W P where v: "sent = length outs + length L" "L = V @ W" "\<forall>c\<in>set V. hd_rsp_vld c"
    "\<forall>c\<in>set W. \<not> hd_rsp_vld c" "R = P @ waiting" "map ldst_of_bti P = outs @ map hd_rsp V"
    unfolding d_slots_def by (elim conjE exE) (rule that)
  then show ?thesis by simp
qed

lemma d_inv_portsD:
  assumes "hbi_d_inv hbi I os Q R"
  shows "itf_inv (hb_d_bti_req_mst hbi)" "itf_inv (hb_d_bti_rsp_slv hbi)" "itf_inv (hb_ldst_req_slv hbi)"
     "itf_inv (hb_ldst_rsp_mst hbi)" "fifo_inv (hb_ldst_req_fifo hbi)" "ostq_inv (hb_d_ost hbi)"
  using assms by (simp_all add: hbi_d_inv_def hbi_d_ports_def)

lemma capture_d_ok:
  assumes inv: "hbi_d_inv hbi I os Q R"
  shows "\<exists>hbi'. hbi_capture_d_req hbi = Some hbi' \<and> hbi_d_inv hbi' I os Q R \<and> hbi_i_view hbi' = hbi_i_view hbi \<and> hb_d_ost hbi' = hb_d_ost hbi"
proof (cases "fifo_full (hb_ldst_req_fifo hbi) \<or> itf_fifo_empty (hb_ldst_req_slv hbi)")
  case True
  then have "hbi_capture_d_req hbi = Some hbi \<or> hbi_capture_d_req hbi = Some (hbi\<lparr>hb_perf_d_stg_full := hb_perf_d_stg_full hbi + 1\<rparr>)"
    by (auto simp: hbi_capture_d_req_def)
  moreover have "hbi_d_inv (hbi\<lparr>hb_perf_d_stg_full := hb_perf_d_stg_full hbi + 1\<rparr>) I os Q R"
    using inv by (subst d_inv_cong [of _ hbi]) (simp_all add: hbi_d_view_def)
  ultimately show ?thesis using inv by (auto simp: hbi_i_view_def)
next
  case False
  note p = d_inv_portsD [OF inv]
  from False have ne: "\<not> itf_fifo_empty (hb_ldst_req_slv hbi)" and nf: "\<not> fifo_full (hb_ldst_req_fifo hbi)" by simp_all
  obtain r t where t: "itf_read (hb_ldst_req_slv hbi) = Some (r, t)" "itf_inv t" "itf_list (hb_ldst_req_slv hbi) = r # itf_list t"
    by (rule itf.pop_not_empty [OF p(3) ne])
  obtain q where q: "fifo_push (hb_ldst_req_fifo hbi) r = Some q" "fifo_inv q" "fifo_list q = fifo_list (hb_ldst_req_fifo hbi) @ [r]"
    by (rule fifo.push_not_full [OF p(5) nf])
  let ?h = "hbi\<lparr>hb_ldst_req_slv := t, hb_ldst_req_fifo := q\<rparr>"
  have "hbi_capture_d_req hbi = Some ?h" using False t(1) q(1) by (simp add: hbi_capture_d_req_def)
  moreover have "hbi_d_inv ?h I os Q R" using inv t q by (simp add: hbi_d_inv_def hbi_d_ports_def)
  ultimately show ?thesis by (simp add: hbi_i_view_def)
qed

lemma d_rsp_ok:
  assumes inv: "hbi_d_inv hbi I os Q R"
  shows "\<exists>hbi'. hbi_proc_d_rsp hbi = Some hbi' \<and> hbi_d_inv hbi' I os Q R \<and> hbi_i_view hbi' = hbi_i_view hbi
    \<and> ostq_head_freed (hb_d_ost hbi') = ostq_head_freed (hb_d_ost hbi)"
proof (cases "itf_fifo_empty (hb_d_bti_rsp_slv hbi)")
  case True
  then show ?thesis using inv by (simp add: hbi_proc_d_rsp_def)
next
  case False
  note p = d_inv_portsD [OF inv]
  obtain r t where t: "itf_read (hb_d_bti_rsp_slv hbi) = Some (r, t)" "itf_inv t" "itf_list (hb_d_bti_rsp_slv hbi) = r # itf_list t"
    by (rule itf.pop_not_empty [OF p(2) False])
  let ?L = "ostq_live (hb_d_ost hbi)"
  from inv have s: "d_slots ?L R (r # itf_list t) (os @ itf_list (hb_ldst_rsp_mst hbi)) (length Q + length (itf_list (hb_d_bti_req_mst hbi)))"
    and rn: "length R \<le> length Q" and id: "\<forall>r\<in>set R. bp_trans_id r = LDST_TRANS_ID" by (simp_all add: hbi_d_inv_def t(3))
  from d_slots_answer [OF s] rn obtain k where k: "find_idx (\<lambda>c. \<not> hd_rsp_vld c) ?L = Some k" "k < length ?L"
    "d_slots (?L[k := (?L ! k)\<lparr>hd_rsp := ldst_of_bti r, hd_rsp_vld := True\<rparr>]) R (itf_list t) (os @ itf_list (hb_ldst_rsp_mst hbi))
      (length Q + length (itf_list (hb_d_bti_req_mst hbi)))" by auto
  have "r \<in> set R" using s by (auto simp: d_slots_def)
  with id have tid: "bp_trans_id r = LDST_TRANS_ID" by simp
  have nv: "\<not> hd_rsp_vld (?L ! k)" using find_idx_SomeD [OF k(1)] by simp
  let ?c = "(?L ! k)\<lparr>hd_rsp := ldst_of_bti r, hd_rsp_vld := True\<rparr>"
  from ostq_write_live [OF p(6) k(2), of ?c] obtain ost where o: "ostq_write_slot (hb_d_ost hbi) (ostq_slot (hb_d_ost hbi) k) ?c = Some ost"
    "ostq_inv ost" "ostq_live ost = ?L[k := ?c]" "ostq_head_freed ost = ostq_head_freed (hb_d_ost hbi)" by blast
  let ?h = "hbi\<lparr>hb_d_bti_rsp_slv := t, hb_d_ost := ost\<rparr>"
  have "hbi_proc_d_rsp hbi = Some ?h"
    using False t(1) tid o(1) ostq_find_eq [OF p(6), of "\<lambda>c. \<not> hd_rsp_vld c"] k(1) nv
    by (simp add: hbi_proc_d_rsp_def hbi_find_oldest_d_wait_slot_def)
  moreover have "hbi_d_inv ?h I os Q R" using inv t(2) o(2,3) k(3) by (simp add: hbi_d_inv_def hbi_d_ports_def)
  ultimately show ?thesis using o(4) by (simp add: hbi_i_view_def)
qed

lemma send_d_ok:
  assumes inv: "hbi_d_inv hbi I os Q R" and nf: "\<not> ostq_head_freed (hb_d_ost hbi)"
  shows "\<exists>hbi'. hbi_send_d_rsp hbi = Some hbi' \<and> hbi_d_inv hbi' I os Q R \<and> hbi_i_view hbi' = hbi_i_view hbi"
proof (cases "itf_fifo_full (hb_ldst_rsp_mst hbi) \<or> ostq_live (hb_d_ost hbi) = [] \<or> \<not> hd_rsp_vld (hd (ostq_live (hb_d_ost hbi)))")
  case True
  then have "hbi_send_d_rsp hbi = Some hbi" using ostq_peek_live [OF d_inv_portsD(6) [OF inv]] nf by (auto simp: hbi_send_d_rsp_def)
  then show ?thesis using inv by simp
next
  case False
  note p = d_inv_portsD [OF inv]
  from False obtain c L where l: "ostq_live (hb_d_ost hbi) = c # L" "hd_rsp_vld c" by (cases "ostq_live (hb_d_ost hbi)") auto
  obtain t where t: "itf_write (hb_ldst_rsp_mst hbi) (hd_rsp c) = Some t" "itf_inv t" "itf_list t = itf_list (hb_ldst_rsp_mst hbi) @ [hd_rsp c]"
    using itf.push_ok [OF p(4), of "hd_rsp c"] False by blast
  from ostq_free_live [OF p(6) nf] l obtain ost where o: "ostq_free_head (hb_d_ost hbi) = Some ost" "ostq_inv ost" "ostq_live ost = L" by auto
  let ?h = "hbi\<lparr>hb_ldst_rsp_mst := t, hb_d_ost := ost\<rparr>"
  have "hbi_send_d_rsp hbi = Some ?h" using False ostq_peek_live [OF p(6)] nf l t(1) o(1) by (simp add: hbi_send_d_rsp_def)
  moreover have "hbi_d_inv ?h I os Q R"
    using inv t o l d_slots_send [of c L R _ _ _] by (simp add: hbi_d_inv_def hbi_d_ports_def) (metis append_assoc)
  ultimately show ?thesis by (simp add: hbi_i_view_def)
qed

lemma d_req_ok:
  assumes inv: "hbi_d_inv hbi I os Q R"
  shows "\<exists>hbi'. hbi_proc_d_req hbi = Some hbi' \<and> hbi_d_inv hbi' I os Q R \<and> hbi_i_view hbi' = hbi_i_view hbi"
proof (cases "fifo_empty (hb_ldst_req_fifo hbi) \<or> ostq_full (hb_d_ost hbi) \<or> itf_fifo_full (hb_d_bti_req_mst hbi)")
  case True
  then have "hbi_proc_d_req hbi = Some hbi \<or> hbi_proc_d_req hbi = Some (hbi\<lparr>hb_perf_d_ost_full := hb_perf_d_ost_full hbi + 1\<rparr>)"
    by (auto simp: hbi_proc_d_req_def)
  moreover have "hbi_d_inv (hbi\<lparr>hb_perf_d_ost_full := hb_perf_d_ost_full hbi + 1\<rparr>) I os Q R"
    using inv by (subst d_inv_cong [of _ hbi]) (simp_all add: hbi_d_view_def)
  ultimately show ?thesis using inv by (auto simp: hbi_i_view_def)
next
  case False
  note p = d_inv_portsD [OF inv]
  from False have ne: "\<not> fifo_empty (hb_ldst_req_fifo hbi)" and room: "\<not> ostq_full (hb_d_ost hbi)" and nf: "\<not> itf_fifo_full (hb_d_bti_req_mst hbi)" by simp_all
  obtain r q where q: "fifo_pop (hb_ldst_req_fifo hbi) = Some (r, q)" "fifo_inv q" "fifo_list (hb_ldst_req_fifo hbi) = r # fifo_list q"
    by (rule fifo.pop_not_empty [OF p(5) ne])
  obtain t where t: "itf_write (hb_d_bti_req_mst hbi) (ldst_bti r) = Some t" "itf_inv t" "itf_list t = itf_list (hb_d_bti_req_mst hbi) @ [ldst_bti r]"
    by (rule itf.push_not_full [OF p(1) nf])
  from ostq_alloc_live [OF p(6) room, of "\<lparr>hd_rsp_vld = False, hd_rsp = no_ldst_rsp\<rparr>"] obtain sl ost where
    o: "ostq_alloc (hb_d_ost hbi) \<lparr>hd_rsp_vld = False, hd_rsp = no_ldst_rsp\<rparr> = Some (Some (sl, ost))" "ostq_inv ost"
    "ostq_live ost = ostq_live (hb_d_ost hbi) @ [\<lparr>hd_rsp_vld = False, hd_rsp = no_ldst_rsp\<rparr>]" by blast
  let ?h = "hbi\<lparr>hb_ldst_req_fifo := q, hb_d_bti_req_mst := t, hb_d_ost := ost\<rparr>"
  have "hbi_proc_d_req hbi = Some ?h" using False q(1) t(1) o(1) by (simp add: hbi_proc_d_req_def)
  moreover have "hbi_d_inv ?h I os Q R" using inv q t o by (simp add: hbi_d_inv_def hbi_d_ports_def d_slots_alloc)
  ultimately show ?thesis by (simp add: hbi_i_view_def)
qed

section \<open>Fetches\<close>

text \<open>
  A fetch is answered by the bus or by an exception. Answers are given in the order of the
  fetches, but an exception and a bus response that arrive in the same tick are taken in the
  order exception first: the slot of an exception is found by the address it names. What still
  waits at the two ports is, in order, what the slots that are not filled yet are waiting for.
\<close>

datatype ans = Rsp bti_rsp | Expt hart_expt

fun fch_of_ans :: "ans \<Rightarrow> fch_rsp" where
  "fch_of_ans (Rsp r) = fch_of_bti r"
| "fch_of_ans (Expt e) = fch_of_expt e"

fun wait_rsp :: "hbi_i_ost_ctx list \<Rightarrow> ans list \<Rightarrow> bti_rsp list" where
  "wait_rsp (c # L) (Rsp r # B) = (if hc_rsp_vld c then wait_rsp L B else r # wait_rsp L B)"
| "wait_rsp (c # L) (Expt e # B) = wait_rsp L B"
| "wait_rsp _ _ = []"

fun wait_expt :: "hbi_i_ost_ctx list \<Rightarrow> ans list \<Rightarrow> hart_expt list" where
  "wait_expt (c # L) (Expt e # B) = (if hc_rsp_vld c then wait_expt L B else e # wait_expt L B)"
| "wait_expt (c # L) (Rsp r # B) = wait_expt L B"
| "wait_expt _ _ = []"

text \<open>Slot \<open>i\<close> belongs to answer \<open>i\<close>; an exception names the address of its slot and of no older one.\<close>

definition slots_ok :: "hbi_i_ost_ctx list \<Rightarrow> ans list \<Rightarrow> bool" where
  "slots_ok L B \<longleftrightarrow> length B \<le> length L \<and> (\<forall>i<length L. hc_rsp_vld (L ! i) \<longrightarrow> i < length B \<and> hc_rsp (L ! i) = fch_of_ans (B ! i))
     \<and> (\<forall>i<length B. case B ! i of Rsp r \<Rightarrow> bp_trans_id r = FCH_TRANS_ID
        | Expt e \<Rightarrow> he_type e = HART_EXPT_TYPE_EXCEPTION \<and> he_pc e = hc_pc (L ! i) \<and> (\<forall>j<i. hc_pc (L ! j) \<noteq> he_pc e))"

lemma slots_ansD:
  assumes "slots_ok L B" "i < length B"
  shows "case B ! i of Rsp r \<Rightarrow> bp_trans_id r = FCH_TRANS_ID
        | Expt e \<Rightarrow> he_type e = HART_EXPT_TYPE_EXCEPTION \<and> he_pc e = hc_pc (L ! i) \<and> (\<forall>j<i. hc_pc (L ! j) \<noteq> he_pc e)"
  using assms unfolding slots_ok_def by blast

lemma wait_append:
  assumes "length L1 = length B1"
  shows "wait_rsp (L1 @ L2) (B1 @ B2) = wait_rsp L1 B1 @ wait_rsp L2 B2"
    "wait_expt (L1 @ L2) (B1 @ B2) = wait_expt L1 B1 @ wait_expt L2 B2"
proof -
  have "wait_rsp (L1 @ L2) (B1 @ B2) = wait_rsp L1 B1 @ wait_rsp L2 B2 \<and> wait_expt (L1 @ L2) (B1 @ B2) = wait_expt L1 B1 @ wait_expt L2 B2"
    using assms
  proof (induction L1 B1 rule: list_induct2)
    case (Cons c L b B)
    then show ?case by (cases b) auto
  qed simp
  then show "wait_rsp (L1 @ L2) (B1 @ B2) = wait_rsp L1 B1 @ wait_rsp L2 B2"
    "wait_expt (L1 @ L2) (B1 @ B2) = wait_expt L1 B1 @ wait_expt L2 B2" by blast+
qed

lemma wait_nil [simp]: "wait_rsp L [] = []" "wait_expt L [] = []" "wait_rsp [] B = []" "wait_expt [] B = []"
  by (cases L; simp)+

lemma wait_snoc: "length B \<le> length L \<Longrightarrow> wait_rsp (L @ [c]) B = wait_rsp L B" "length B \<le> length L \<Longrightarrow> wait_expt (L @ [c]) B = wait_expt L B"
proof -
  assume le: "length B \<le> length L"
  have e: "length (take (length B) L) = length B" using le by simp
  have "L @ [c] = take (length B) L @ (drop (length B) L @ [c])" "L = take (length B) L @ drop (length B) L" by simp_all
  with wait_append [OF e, of _ "[]"] show "wait_rsp (L @ [c]) B = wait_rsp L B" "wait_expt (L @ [c]) B = wait_expt L B"
    by (metis append.right_neutral wait_nil)+
qed

lemma wait_expt_first:
  "wait_expt L B = e # es \<Longrightarrow> \<exists>L1 c L2 B1 B2. L = L1 @ c # L2 \<and> B = B1 @ Expt e # B2 \<and> length L1 = length B1
     \<and> wait_expt L1 B1 = [] \<and> \<not> hc_rsp_vld c \<and> es = wait_expt L2 B2"
proof (induction L B rule: wait_expt.induct)
  case (1 c L e' B)
  show ?case
  proof (cases "hc_rsp_vld c")
    case True
    with 1 obtain L1 c' L2 B1 B2 where "L = L1 @ c' # L2" "B = B1 @ Expt e # B2" "length L1 = length B1" "wait_expt L1 B1 = []"
      "\<not> hc_rsp_vld c'" "es = wait_expt L2 B2" by auto
    with True show ?thesis by (intro exI [of _ "c # L1"] exI [of _ c'] exI [of _ L2] exI [of _ "Expt e' # B1"] exI [of _ B2]) simp
  next
    case False
    show ?thesis by (rule exI [of _ "[]"], rule exI [of _ c], rule exI [of _ L], rule exI [of _ "[]"], rule exI [of _ B])
      (use False "1.prems" in simp)
  qed
next
  case (2 c L r B)
  then obtain L1 c' L2 B1 B2 where "L = L1 @ c' # L2" "B = B1 @ Expt e # B2" "length L1 = length B1" "wait_expt L1 B1 = []"
      "\<not> hc_rsp_vld c'" "es = wait_expt L2 B2" by auto
  then show ?case by (intro exI [of _ "c # L1"] exI [of _ c'] exI [of _ L2] exI [of _ "Rsp r # B1"] exI [of _ B2]) simp
qed simp_all

text \<open>With no exception waiting, the oldest slot that waits is the one the oldest response is for.\<close>

lemma wait_rsp_first:
  "wait_rsp L B = r # rs \<Longrightarrow> wait_expt L B = [] \<Longrightarrow> \<exists>L1 c L2 B1 B2. L = L1 @ c # L2 \<and> B = B1 @ Rsp r # B2 \<and> length L1 = length B1
     \<and> (\<forall>x\<in>set L1. hc_rsp_vld x) \<and> \<not> hc_rsp_vld c \<and> rs = wait_rsp L2 B2 \<and> wait_rsp L1 B1 = []"
proof (induction L B rule: wait_rsp.induct)
  case (1 c L r' B)
  show ?case
  proof (cases "hc_rsp_vld c")
    case True
    with 1 obtain L1 c' L2 B1 B2 where "L = L1 @ c' # L2" "B = B1 @ Rsp r # B2" "length L1 = length B1" "\<forall>x\<in>set L1. hc_rsp_vld x"
      "\<not> hc_rsp_vld c'" "rs = wait_rsp L2 B2" "wait_rsp L1 B1 = []" by auto
    with True show ?thesis by (intro exI [of _ "c # L1"] exI [of _ c'] exI [of _ L2] exI [of _ "Rsp r' # B1"] exI [of _ B2]) simp
  next
    case False
    show ?thesis by (rule exI [of _ "[]"], rule exI [of _ c], rule exI [of _ L], rule exI [of _ "[]"], rule exI [of _ B])
      (use False "1.prems" in simp)
  qed
next
  case (2 c L e B)
  then have v: "hc_rsp_vld c" by (simp split: if_splits)
  with 2 obtain L1 c' L2 B1 B2 where "L = L1 @ c' # L2" "B = B1 @ Rsp r # B2" "length L1 = length B1" "\<forall>x\<in>set L1. hc_rsp_vld x"
      "\<not> hc_rsp_vld c'" "rs = wait_rsp L2 B2" "wait_rsp L1 B1 = []" by auto
  with v show ?case by (intro exI [of _ "c # L1"] exI [of _ c'] exI [of _ L2] exI [of _ "Expt e # B1"] exI [of _ B2]) simp
qed simp_all

lemma slots_fill:
  assumes ok: "slots_ok (L1 @ c # L2) (B1 @ b # B2)" and l: "length L1 = length B1"
    and c: "hc_pc c' = hc_pc c" "hc_rsp c' = fch_of_ans b"
  shows "slots_ok (L1 @ c' # L2) (B1 @ b # B2)"
proof -
  let ?L = "L1 @ c # L2" and ?L' = "L1 @ c' # L2" and ?B = "B1 @ b # B2"
  have len: "length ?L' = length ?L" by simp
  have e: "?L' ! i = (if i = length L1 then c' else ?L ! i)" for i by (auto simp: nth_append nth_Cons')
  have pc: "hc_pc (?L' ! i) = hc_pc (?L ! i)" for i using c(1) e [of i] by simp
  have v: "i < length ?B \<and> hc_rsp (?L' ! i) = fch_of_ans (?B ! i)" if "i < length ?L'" "hc_rsp_vld (?L' ! i)" for i
  proof (cases "i = length L1")
    case True
    then show ?thesis using c(2) l by (simp add: nth_append)
  next
    case False
    then have "?L' ! i = ?L ! i" using e [of i] by simp
    then show ?thesis using ok that unfolding slots_ok_def len by metis
  qed
  from ok have "length ?B \<le> length ?L'" unfolding slots_ok_def len by blast
  moreover from ok have "\<forall>i<length ?B. case ?B ! i of Rsp r \<Rightarrow> bp_trans_id r = FCH_TRANS_ID
        | Expt e \<Rightarrow> he_type e = HART_EXPT_TYPE_EXCEPTION \<and> he_pc e = hc_pc (?L' ! i) \<and> (\<forall>j<i. hc_pc (?L' ! j) \<noteq> he_pc e)"
    unfolding slots_ok_def pc by blast
  ultimately show ?thesis using v unfolding slots_ok_def by blast
qed

definition hbi_i_ports :: "hbi \<Rightarrow> bool" where
  "hbi_i_ports hbi \<longleftrightarrow> itf_inv (hb_i_bti_req_mst hbi) \<and> itf_inv (hb_i_bti_rsp_slv hbi) \<and> itf_inv (hb_fch_req_slv hbi) \<and> itf_inv (hb_fch_rsp_mst hbi)
     \<and> itf_inv (hb_mmu_fch_expt_slv hbi) \<and> itf_depth (hb_mmu_fch_expt_slv hbi) = 1 \<and> fifo_inv (hb_fch_req_fifo hbi) \<and> ostq_inv (hb_i_ost hbi)"

text \<open>\<open>I\<close>, \<open>os\<close> and \<open>Q\<close> as before, \<open>A\<close> the answers given so far by bus and translation unit together.\<close>

definition hbi_i_inv :: "hbi \<Rightarrow> fch_req list \<Rightarrow> fch_rsp list \<Rightarrow> bti_req list \<Rightarrow> ans list \<Rightarrow> bool" where
  "hbi_i_inv hbi I os Q A \<longleftrightarrow> (let outs = os @ itf_list (hb_fch_rsp_mst hbi); n = length outs; L = ostq_live (hb_i_ost hbi); B = drop n A in
     hbi_i_ports hbi \<and> length A \<le> length Q \<and> n \<le> length A
     \<and> map fch_bti I = Q @ itf_list (hb_i_bti_req_mst hbi) @ map fch_bti (fifo_list (hb_fch_req_fifo hbi) @ itf_list (hb_fch_req_slv hbi))
     \<and> length Q + length (itf_list (hb_i_bti_req_mst hbi)) = n + length L
     \<and> map hc_pc L = map fq_pc (take (length L) (drop n I))
     \<and> map fch_of_ans (take n A) = outs \<and> slots_ok L B
     \<and> wait_rsp L B = itf_list (hb_i_bti_rsp_slv hbi) \<and> wait_expt L B = itf_list (hb_mmu_fch_expt_slv hbi))"

lemma i_inv_cong: "hbi_i_view hbi' = hbi_i_view hbi \<Longrightarrow> hbi_i_inv hbi' I os Q A = hbi_i_inv hbi I os Q A"
  by (simp add: hbi_i_view_def hbi_i_inv_def hbi_i_ports_def)

lemma i_inv_portsD:
  assumes "hbi_i_inv hbi I os Q A"
  shows "itf_inv (hb_i_bti_req_mst hbi)" "itf_inv (hb_i_bti_rsp_slv hbi)" "itf_inv (hb_fch_req_slv hbi)" "itf_inv (hb_fch_rsp_mst hbi)"
     "itf_inv (hb_mmu_fch_expt_slv hbi)" "itf_depth (hb_mmu_fch_expt_slv hbi) = 1" "fifo_inv (hb_fch_req_fifo hbi)" "ostq_inv (hb_i_ost hbi)"
  using assms by (simp_all add: hbi_i_inv_def hbi_i_ports_def Let_def)

lemma capture_i_ok:
  assumes inv: "hbi_i_inv hbi I os Q A"
  shows "\<exists>hbi'. hbi_capture_i_req hbi = Some hbi' \<and> hbi_i_inv hbi' I os Q A \<and> hbi_d_view hbi' = hbi_d_view hbi \<and> hb_i_ost hbi' = hb_i_ost hbi"
proof (cases "fifo_full (hb_fch_req_fifo hbi) \<or> itf_fifo_empty (hb_fch_req_slv hbi)")
  case True
  then have "hbi_capture_i_req hbi = Some hbi \<or> hbi_capture_i_req hbi = Some (hbi\<lparr>hb_perf_i_stg_full := hb_perf_i_stg_full hbi + 1\<rparr>)"
    by (auto simp: hbi_capture_i_req_def)
  moreover have "hbi_i_inv (hbi\<lparr>hb_perf_i_stg_full := hb_perf_i_stg_full hbi + 1\<rparr>) I os Q A"
    using inv by (subst i_inv_cong [of _ hbi]) (simp_all add: hbi_i_view_def)
  ultimately show ?thesis using inv by (auto simp: hbi_d_view_def)
next
  case False
  note p = i_inv_portsD [OF inv]
  from False have ne: "\<not> itf_fifo_empty (hb_fch_req_slv hbi)" and nf: "\<not> fifo_full (hb_fch_req_fifo hbi)" by simp_all
  obtain r t where t: "itf_read (hb_fch_req_slv hbi) = Some (r, t)" "itf_inv t" "itf_list (hb_fch_req_slv hbi) = r # itf_list t"
    by (rule itf.pop_not_empty [OF p(3) ne])
  obtain q where q: "fifo_push (hb_fch_req_fifo hbi) r = Some q" "fifo_inv q" "fifo_list q = fifo_list (hb_fch_req_fifo hbi) @ [r]"
    by (rule fifo.push_not_full [OF p(7) nf])
  let ?h = "hbi\<lparr>hb_fch_req_slv := t, hb_fch_req_fifo := q\<rparr>"
  have "hbi_capture_i_req hbi = Some ?h" using False t(1) q(1) by (simp add: hbi_capture_i_req_def)
  moreover have "hbi_i_inv ?h I os Q A" using inv t q by (simp add: hbi_i_inv_def hbi_i_ports_def Let_def)
  ultimately show ?thesis by (simp add: hbi_d_view_def)
qed

text \<open>Filling the slot of an answer.\<close>

lemma list_update_mid: "(xs @ y # ys)[length xs := z] = xs @ z # ys" by simp

lemma i_fill_ok:
  assumes inv: "hbi_i_inv hbi I os Q A"
    and l: "ostq_live (hb_i_ost hbi) = L1 @ c # L2" "drop (length os + length (itf_list (hb_fch_rsp_mst hbi))) A = B1 @ b # B2" "length L1 = length B1"
    and o: "ostq_inv ost" "ostq_live ost = L1 @ c\<lparr>hc_rsp := fch_of_ans b, hc_rsp_vld := True\<rparr> # L2"
    and t: "itf_inv t" "itf_list t = wait_rsp L1 B1 @ wait_rsp L2 B2" and u: "itf_inv u" "itf_list u = wait_expt L1 B1 @ wait_expt L2 B2" "itf_depth u = 1"
  shows "hbi_i_inv (hbi\<lparr>hb_i_bti_rsp_slv := t, hb_mmu_fch_expt_slv := u, hb_i_ost := ost\<rparr>) I os Q A"
proof -
  let ?c = "c\<lparr>hc_rsp := fch_of_ans b, hc_rsp_vld := True\<rparr>"
  from inv have ok: "slots_ok (L1 @ c # L2) (B1 @ b # B2)" using l by (simp add: hbi_i_inv_def Let_def)
  have s: "slots_ok (L1 @ ?c # L2) (B1 @ b # B2)" by (rule slots_fill [OF ok l(3)]) simp_all
  have w: "wait_rsp (L1 @ ?c # L2) (B1 @ b # B2) = itf_list t" "wait_expt (L1 @ ?c # L2) (B1 @ b # B2) = itf_list u"
    using wait_append [OF l(3)] t(2) u(2) by (cases b; simp)+
  from inv s w show ?thesis unfolding hbi_i_inv_def Let_def hbi_i_ports_def using l o t(1) u(1,3) by simp
qed

lemma i_expt_ok:
  assumes inv: "hbi_i_inv hbi I os Q A"
  shows "\<exists>hbi'. hbi_proc_i_expt hbi = Some hbi' \<and> hbi_i_inv hbi' I os Q A \<and> hbi_d_view hbi' = hbi_d_view hbi
    \<and> ostq_head_freed (hb_i_ost hbi') = ostq_head_freed (hb_i_ost hbi) \<and> itf_list (hb_mmu_fch_expt_slv hbi') = []"
proof (cases "itf_fifo_empty (hb_mmu_fch_expt_slv hbi)")
  case True
  then show ?thesis using inv itf.is_empty_iff [OF i_inv_portsD(5) [OF inv]] by (simp add: hbi_proc_i_expt_def)
next
  case False
  note p = i_inv_portsD [OF inv]
  let ?L = "ostq_live (hb_i_ost hbi)" and ?B = "drop (length os + length (itf_list (hb_fch_rsp_mst hbi))) A"
  obtain e t where t: "itf_read (hb_mmu_fch_expt_slv hbi) = Some (e, t)" "itf_inv t" "itf_list (hb_mmu_fch_expt_slv hbi) = e # itf_list t"
    "itf_depth t = itf_depth (hb_mmu_fch_expt_slv hbi)" "itf_fifo_get_front (hb_mmu_fch_expt_slv hbi) = Some e" by (rule itf.pop_not_empty [OF p(5) False])
  have emp: "itf_list t = []" using itf.bounded [OF p(5)] t(3) p(6) by simp
  from inv t(3) have we: "wait_expt ?L ?B = e # itf_list t" and ok: "slots_ok ?L ?B" and wr: "wait_rsp ?L ?B = itf_list (hb_i_bti_rsp_slv hbi)"
    by (simp_all add: hbi_i_inv_def Let_def)
  from wait_expt_first [OF we] obtain L1 c L2 B1 B2 where l: "?L = L1 @ c # L2" "?B = B1 @ Expt e # B2" "length L1 = length B1"
    "wait_expt L1 B1 = []" "\<not> hc_rsp_vld c" "itf_list t = wait_expt L2 B2" by blast
  have e: "he_type e = HART_EXPT_TYPE_EXCEPTION" "he_pc e = hc_pc c" "\<forall>x\<in>set L1. hc_pc x \<noteq> he_pc e"
  proof -
    have x: "he_type e = HART_EXPT_TYPE_EXCEPTION \<and> he_pc e = hc_pc (?L ! length L1) \<and> (\<forall>j<length L1. hc_pc (?L ! j) \<noteq> he_pc e)"
      using slots_ansD [OF ok, of "length B1"] l(2,3) by (simp, metis)
    then show "he_type e = HART_EXPT_TYPE_EXCEPTION" "he_pc e = hc_pc c" unfolding l(1) by simp_all
    show "\<forall>x\<in>set L1. hc_pc x \<noteq> he_pc e"
    proof
      fix x assume "x \<in> set L1"
      then obtain j where j: "j < length L1" "L1 ! j = x" by (auto simp: in_set_conv_nth)
      with x have "hc_pc (?L ! j) \<noteq> he_pc e" by blast
      with j show "hc_pc x \<noteq> he_pc e" unfolding l(1) by (simp add: nth_append)
    qed
  qed
  have f: "find_idx (\<lambda>c. hc_pc c = he_pc e) ?L = Some (length L1)" unfolding l(1) by (rule find_idx_first) (use e in auto)
  let ?c = "c\<lparr>hc_rsp := fch_of_ans (Expt e), hc_rsp_vld := True\<rparr>"
  have k: "length L1 < length ?L" "?L ! length L1 = c" unfolding l(1) by simp_all
  from ostq_write_live [OF p(8) k(1), of ?c] obtain ost where o: "ostq_write_slot (hb_i_ost hbi) (ostq_slot (hb_i_ost hbi) (length L1)) ?c = Some ost"
    "ostq_inv ost" "ostq_live ost = ?L[length L1 := ?c]" "ostq_head_freed ost = ostq_head_freed (hb_i_ost hbi)" by blast
  have o3: "ostq_live ost = L1 @ ?c # L2" using o(3) unfolding l(1) by simp
  let ?h = "hbi\<lparr>hb_i_bti_rsp_slv := hb_i_bti_rsp_slv hbi, hb_mmu_fch_expt_slv := t, hb_i_ost := ost\<rparr>"
  have pf: "itf_fifo_pop_front (hb_mmu_fch_expt_slv hbi) = Some t" using itf_pop_front_read [OF p(5) False] t(1) by simp
  have "hbi_proc_i_expt hbi = Some ?h"
    using False t(5) e(1) pf o(1) k(2) l(5) ostq_find_eq [OF p(8), of "\<lambda>c. hc_pc c = he_pc e"] f
    by (simp add: hbi_proc_i_expt_def hbi_find_i_slot_by_pc_def)
  moreover have "hbi_i_inv ?h I os Q A"
    by (rule i_fill_ok [OF inv l(1-3) o(2) o3 p(2) _ t(2)]) (use wr l t(4) p(6) wait_append [OF l(3)] in simp_all)
  ultimately show ?thesis using o(4) emp by (simp add: hbi_d_view_def)
qed

lemma i_rsp_ok:
  assumes inv: "hbi_i_inv hbi I os Q A" and ne: "itf_list (hb_mmu_fch_expt_slv hbi) = []"
  shows "\<exists>hbi'. hbi_proc_i_rsp hbi = Some hbi' \<and> hbi_i_inv hbi' I os Q A \<and> hbi_d_view hbi' = hbi_d_view hbi
    \<and> ostq_head_freed (hb_i_ost hbi') = ostq_head_freed (hb_i_ost hbi)"
proof (cases "itf_fifo_empty (hb_i_bti_rsp_slv hbi)")
  case True
  then show ?thesis using inv by (simp add: hbi_proc_i_rsp_def)
next
  case False
  note p = i_inv_portsD [OF inv]
  let ?L = "ostq_live (hb_i_ost hbi)" and ?B = "drop (length os + length (itf_list (hb_fch_rsp_mst hbi))) A"
  obtain r t where t: "itf_read (hb_i_bti_rsp_slv hbi) = Some (r, t)" "itf_inv t" "itf_list (hb_i_bti_rsp_slv hbi) = r # itf_list t"
    by (rule itf.pop_not_empty [OF p(2) False])
  from inv t(3) ne have we: "wait_expt ?L ?B = []" and ok: "slots_ok ?L ?B" and wr: "wait_rsp ?L ?B = r # itf_list t"
    by (simp_all add: hbi_i_inv_def Let_def)
  from wait_rsp_first [OF wr we] obtain L1 c L2 B1 B2 where l: "?L = L1 @ c # L2" "?B = B1 @ Rsp r # B2" "length L1 = length B1"
    "\<forall>x\<in>set L1. hc_rsp_vld x" "\<not> hc_rsp_vld c" "itf_list t = wait_rsp L2 B2" "wait_rsp L1 B1 = []" by blast
  have id: "bp_trans_id r = FCH_TRANS_ID" using slots_ansD [OF ok, of "length B1"] l(2) by simp
  have f: "find_idx (\<lambda>c. \<not> hc_rsp_vld c) ?L = Some (length L1)" unfolding l(1) by (rule find_idx_first) (use l(4,5) in auto)
  let ?c = "c\<lparr>hc_rsp := fch_of_ans (Rsp r), hc_rsp_vld := True\<rparr>"
  have k: "length L1 < length ?L" "?L ! length L1 = c" unfolding l(1) by simp_all
  from ostq_write_live [OF p(8) k(1), of ?c] obtain ost where o: "ostq_write_slot (hb_i_ost hbi) (ostq_slot (hb_i_ost hbi) (length L1)) ?c = Some ost"
    "ostq_inv ost" "ostq_live ost = ?L[length L1 := ?c]" "ostq_head_freed ost = ostq_head_freed (hb_i_ost hbi)" by blast
  have o3: "ostq_live ost = L1 @ ?c # L2" using o(3) unfolding l(1) by simp
  let ?h = "hbi\<lparr>hb_i_bti_rsp_slv := t, hb_mmu_fch_expt_slv := hb_mmu_fch_expt_slv hbi, hb_i_ost := ost\<rparr>"
  have "hbi_proc_i_rsp hbi = Some ?h"
    using False t(1) id o(1) k(2) l(5) ostq_find_eq [OF p(8), of "\<lambda>c. \<not> hc_rsp_vld c"] f
    by (simp add: hbi_proc_i_rsp_def hbi_find_oldest_i_wait_slot_def)
  moreover have "hbi_i_inv ?h I os Q A"
    by (rule i_fill_ok [OF inv l(1-3) o(2) o3 t(2) _ p(5)]) (use we ne l p(6) wait_append [OF l(3)] in simp_all)
  ultimately show ?thesis using o(4) by (simp add: hbi_d_view_def)
qed

lemma slots_tl:
  assumes ok: "slots_ok (c # L) B" and v: "hc_rsp_vld c"
  shows "\<exists>b B'. B = b # B' \<and> hc_rsp c = fch_of_ans b \<and> slots_ok L B' \<and> wait_rsp (c # L) B = wait_rsp L B' \<and> wait_expt (c # L) B = wait_expt L B'"
proof -
  from ok v have b: "0 < length B \<and> hc_rsp c = fch_of_ans (B ! 0)" unfolding slots_ok_def by (elim conjE allE [of _ 0]) simp
  then obtain b B' where B: "B = b # B'" by (cases B) auto
  have "length B' \<le> length L" using ok B by (simp add: slots_ok_def)
  moreover have "i < length B' \<and> hc_rsp (L ! i) = fch_of_ans (B' ! i)" if "i < length L" "hc_rsp_vld (L ! i)" for i
    using ok that B unfolding slots_ok_def by (elim conjE allE [of _ "Suc i"]) simp
  moreover have "case B' ! i of Rsp r \<Rightarrow> bp_trans_id r = FCH_TRANS_ID
        | Expt e \<Rightarrow> he_type e = HART_EXPT_TYPE_EXCEPTION \<and> he_pc e = hc_pc (L ! i) \<and> (\<forall>j<i. hc_pc (L ! j) \<noteq> he_pc e)" if "i < length B'" for i
    using slots_ansD [OF ok, of "Suc i"] that B by (auto split: ans.splits)
  ultimately have "slots_ok L B'" unfolding slots_ok_def by blast
  with b B v show ?thesis by (cases b) auto
qed

lemma send_i_ok:
  assumes inv: "hbi_i_inv hbi I os Q A" and nf: "\<not> ostq_head_freed (hb_i_ost hbi)"
  shows "\<exists>hbi'. hbi_send_i_rsp hbi = Some hbi' \<and> hbi_i_inv hbi' I os Q A \<and> hbi_d_view hbi' = hbi_d_view hbi"
proof (cases "itf_fifo_full (hb_fch_rsp_mst hbi) \<or> ostq_live (hb_i_ost hbi) = [] \<or> \<not> hc_rsp_vld (hd (ostq_live (hb_i_ost hbi)))")
  case True
  then have "hbi_send_i_rsp hbi = Some hbi" using ostq_peek_live [OF i_inv_portsD(8) [OF inv]] nf by (auto simp: hbi_send_i_rsp_def)
  then show ?thesis using inv by simp
next
  case False
  note p = i_inv_portsD [OF inv]
  let ?n = "length os + length (itf_list (hb_fch_rsp_mst hbi))"
  from False obtain c L where l: "ostq_live (hb_i_ost hbi) = c # L" "hc_rsp_vld c" by (cases "ostq_live (hb_i_ost hbi)") auto
  obtain t where t: "itf_write (hb_fch_rsp_mst hbi) (hc_rsp c) = Some t" "itf_inv t" "itf_list t = itf_list (hb_fch_rsp_mst hbi) @ [hc_rsp c]"
    using itf.push_ok [OF p(4), of "hc_rsp c"] False by blast
  from ostq_free_live [OF p(8) nf] l obtain ost where o: "ostq_free_head (hb_i_ost hbi) = Some ost" "ostq_inv ost" "ostq_live ost = L" by auto
  let ?h = "hbi\<lparr>hb_fch_rsp_mst := t, hb_i_ost := ost\<rparr>"
  have run: "hbi_send_i_rsp hbi = Some ?h" using False ostq_peek_live [OF p(8)] nf l t(1) o(1) by (simp add: hbi_send_i_rsp_def)
  from inv l have ok: "slots_ok (c # L) (drop ?n A)" by (simp add: hbi_i_inv_def Let_def)
  from slots_tl [OF ok l(2)] obtain b B' where b: "drop ?n A = b # B'" "hc_rsp c = fch_of_ans b" "slots_ok L B'"
    "wait_rsp (c # L) (drop ?n A) = wait_rsp L B'" "wait_expt (c # L) (drop ?n A) = wait_expt L B'" by blast
  have n: "?n < length A" "drop (Suc ?n) A = B'" "A ! ?n = b"
    using b(1) by (cases "?n < length A"; simp) (metis Cons_nth_drop_Suc b(1) drop_all leI list.distinct(1) list.inject)+
  have tk: "take (Suc ?n) A = take ?n A @ [b]" using n by (simp add: take_Suc_conv_app_nth)
  have pcs: "map hc_pc L = map fq_pc (take (length L) (drop (Suc ?n) I))"
  proof -
    from inv l have m: "map hc_pc (c # L) = map fq_pc (take (length (c # L)) (drop ?n I))" by (simp add: hbi_i_inv_def Let_def)
    then obtain x xs where x: "drop ?n I = x # xs" by (cases "drop ?n I") auto
    then have "drop (Suc ?n) I = xs" by (metis drop_Suc list.sel(3) tl_drop)
    with m x show ?thesis by simp
  qed
  have "hbi_i_inv ?h I os Q A"
    using inv t(2,3) o(2,3) l(1) b n(1,2) tk pcs unfolding hbi_i_inv_def Let_def hbi_i_ports_def by simp
  with run show ?thesis by (simp add: hbi_d_view_def)
qed

lemma slots_snoc: "slots_ok L B \<Longrightarrow> \<not> hc_rsp_vld c \<Longrightarrow> slots_ok (L @ [c]) B"
  unfolding slots_ok_def by (auto simp: nth_append less_Suc_eq split: ans.splits)

lemma i_req_ok:
  assumes inv: "hbi_i_inv hbi I os Q A"
  shows "\<exists>hbi'. hbi_proc_i_req hbi = Some hbi' \<and> hbi_i_inv hbi' I os Q A \<and> hbi_d_view hbi' = hbi_d_view hbi"
proof (cases "fifo_empty (hb_fch_req_fifo hbi) \<or> ostq_full (hb_i_ost hbi) \<or> itf_fifo_full (hb_i_bti_req_mst hbi)")
  case True
  then have "hbi_proc_i_req hbi = Some hbi \<or> hbi_proc_i_req hbi = Some (hbi\<lparr>hb_perf_i_ost_full := hb_perf_i_ost_full hbi + 1\<rparr>)"
    by (auto simp: hbi_proc_i_req_def)
  moreover have "hbi_i_inv (hbi\<lparr>hb_perf_i_ost_full := hb_perf_i_ost_full hbi + 1\<rparr>) I os Q A"
    using inv by (subst i_inv_cong [of _ hbi]) (simp_all add: hbi_i_view_def)
  ultimately show ?thesis using inv by (auto simp: hbi_d_view_def)
next
  case False
  note p = i_inv_portsD [OF inv]
  from False have ne: "\<not> fifo_empty (hb_fch_req_fifo hbi)" and room: "\<not> ostq_full (hb_i_ost hbi)" and nf: "\<not> itf_fifo_full (hb_i_bti_req_mst hbi)" by simp_all
  obtain r q where q: "fifo_pop (hb_fch_req_fifo hbi) = Some (r, q)" "fifo_inv q" "fifo_list (hb_fch_req_fifo hbi) = r # fifo_list q"
    by (rule fifo.pop_not_empty [OF p(7) ne])
  obtain t where t: "itf_write (hb_i_bti_req_mst hbi) (fch_bti r) = Some t" "itf_inv t" "itf_list t = itf_list (hb_i_bti_req_mst hbi) @ [fch_bti r]"
    by (rule itf.push_not_full [OF p(1) nf])
  let ?c = "\<lparr>hc_pc = fq_pc r, hc_rsp_vld = False, hc_rsp = no_fch_rsp\<rparr>"
  from ostq_alloc_live [OF p(8) room, of ?c] obtain sl ost where
    o: "ostq_alloc (hb_i_ost hbi) ?c = Some (Some (sl, ost))" "ostq_inv ost" "ostq_live ost = ostq_live (hb_i_ost hbi) @ [?c]" by blast
  let ?h = "hbi\<lparr>hb_fch_req_fifo := q, hb_i_bti_req_mst := t, hb_i_ost := ost\<rparr>"
  let ?n = "length os + length (itf_list (hb_fch_rsp_mst hbi))" and ?L = "ostq_live (hb_i_ost hbi)"
  have run: "hbi_proc_i_req hbi = Some ?h" using False q(1) t(1) o(1) by (simp add: hbi_proc_i_req_def)
  from inv have ok: "slots_ok ?L (drop ?n A)" and cnt: "length Q + length (itf_list (hb_i_bti_req_mst hbi)) = ?n + length ?L"
    and req: "map fch_bti I = Q @ itf_list (hb_i_bti_req_mst hbi) @ map fch_bti (fifo_list (hb_fch_req_fifo hbi) @ itf_list (hb_fch_req_slv hbi))"
    and pcs: "map hc_pc ?L = map fq_pc (take (length ?L) (drop ?n I))"
    by (simp_all add: hbi_i_inv_def Let_def)
  have ok': "slots_ok (?L @ [?c]) (drop ?n A)" by (rule slots_snoc [OF ok]) simp
  have le: "length (drop ?n A) \<le> length ?L" using ok by (simp add: slots_ok_def)
  note w = wait_snoc [OF le, of ?c]
  have pcs': "map hc_pc (?L @ [?c]) = map fq_pc (take (Suc (length ?L)) (drop ?n I))"
  proof -
    have "map fch_bti I ! (?n + length ?L) = fch_bti r" unfolding req using cnt q(3) by (simp add: nth_append)
    moreover have lt: "?n + length ?L < length I" using arg_cong [OF req, of length] cnt q(3) by simp
    ultimately have "fq_pc (I ! (?n + length ?L)) = fq_pc r" by (simp add: fch_bti_def)
    then show ?thesis using pcs lt by (simp add: take_Suc_conv_app_nth)
  qed
  have "hbi_i_inv ?h I os Q A"
    using inv t(2,3) q(2,3) o(2,3) ok' w pcs' cnt unfolding hbi_i_inv_def Let_def hbi_i_ports_def by simp
  with run show ?thesis by (simp add: hbi_d_view_def)
qed

section \<open>Runs\<close>

lemma hbi_clock_ok:
  assumes i: "hbi_i_inv hbi I os Q A" and d: "hbi_d_inv hbi I' os' Q' R"
  shows "\<exists>hbi'. hbi_clock hbi = Some hbi' \<and> hbi_i_inv hbi' I os Q A \<and> hbi_d_inv hbi' I' os' Q' R"
proof -
  from ostq_clock_live [OF i_inv_portsD(8) [OF i]] obtain io where io: "ostq_clock (hb_i_ost hbi) = Some io" "ostq_inv io"
    "ostq_live io = ostq_live (hb_i_ost hbi)" "\<not> ostq_head_freed io" by blast
  from ostq_clock_live [OF d_inv_portsD(6) [OF d]] obtain dq where dq: "ostq_clock (hb_d_ost hbi) = Some dq" "ostq_inv dq"
    "ostq_live dq = ostq_live (hb_d_ost hbi)" "\<not> ostq_head_freed dq" by blast
  let ?h = "hbi\<lparr>hb_i_ost := io, hb_d_ost := dq\<rparr>"
  have 0: "hbi_i_inv ?h I os Q A" "hbi_d_inv ?h I' os' Q' R" using i d io dq
    by (simp_all add: hbi_i_inv_def hbi_i_ports_def hbi_d_inv_def hbi_d_ports_def Let_def)
  from capture_i_ok [OF 0(1)] obtain h1 where 1: "hbi_capture_i_req ?h = Some h1" "hbi_i_inv h1 I os Q A" "hbi_d_view h1 = hbi_d_view ?h"
    "hb_i_ost h1 = io" by auto
  have d1: "hbi_d_inv h1 I' os' Q' R" "hb_d_ost h1 = dq" using 0(2) 1(3) d_inv_cong [OF 1(3)] by (simp_all add: hbi_d_view_def)
  from capture_d_ok [OF d1(1)] obtain h2 where 2: "hbi_capture_d_req h1 = Some h2" "hbi_d_inv h2 I' os' Q' R" "hbi_i_view h2 = hbi_i_view h1"
    "hb_d_ost h2 = dq" using d1(2) by auto
  have i2: "hbi_i_inv h2 I os Q A" "hb_i_ost h2 = io" using 1(2,4) 2(3) i_inv_cong [OF 2(3)] by (simp_all add: hbi_i_view_def)
  from i_expt_ok [OF i2(1)] obtain h3 where 3: "hbi_proc_i_expt h2 = Some h3" "hbi_i_inv h3 I os Q A" "hbi_d_view h3 = hbi_d_view h2"
    "\<not> ostq_head_freed (hb_i_ost h3)" "itf_list (hb_mmu_fch_expt_slv h3) = []" using i2(2) io(4) by auto
  from i_rsp_ok [OF 3(2,5)] obtain h4 where 4: "hbi_proc_i_rsp h3 = Some h4" "hbi_i_inv h4 I os Q A" "hbi_d_view h4 = hbi_d_view h3"
    "\<not> ostq_head_freed (hb_i_ost h4)" using 3(4) by auto
  from send_i_ok [OF 4(2,4)] obtain h5 where 5: "hbi_send_i_rsp h4 = Some h5" "hbi_i_inv h5 I os Q A" "hbi_d_view h5 = hbi_d_view h4" by blast
  have v5: "hbi_d_view h5 = hbi_d_view h2" using 3(3) 4(3) 5(3) by simp
  have d5: "hbi_d_inv h5 I' os' Q' R" "hb_d_ost h5 = dq" using 2(2,4) v5 d_inv_cong [OF v5] by (simp_all add: hbi_d_view_def)
  from d_rsp_ok [OF d5(1)] obtain h6 where 6: "hbi_proc_d_rsp h5 = Some h6" "hbi_d_inv h6 I' os' Q' R" "hbi_i_view h6 = hbi_i_view h5"
    "\<not> ostq_head_freed (hb_d_ost h6)" using d5(2) dq(4) by auto
  from send_d_ok [OF 6(2,4)] obtain h7 where 7: "hbi_send_d_rsp h6 = Some h7" "hbi_d_inv h7 I' os' Q' R" "hbi_i_view h7 = hbi_i_view h6" by blast
  have v7: "hbi_i_view h7 = hbi_i_view h5" using 6(3) 7(3) by simp
  have i7: "hbi_i_inv h7 I os Q A" using 5(2) i_inv_cong [OF v7] by simp
  from i_req_ok [OF i7] obtain h8 where 8: "hbi_proc_i_req h7 = Some h8" "hbi_i_inv h8 I os Q A" "hbi_d_view h8 = hbi_d_view h7" by blast
  have d8: "hbi_d_inv h8 I' os' Q' R" using 7(2) d_inv_cong [OF 8(3)] by simp
  from d_req_ok [OF d8] obtain h9 where 9: "hbi_proc_d_req h8 = Some h9" "hbi_d_inv h9 I' os' Q' R" "hbi_i_view h9 = hbi_i_view h8" by blast
  have i9: "hbi_i_inv h9 I os Q A" using 8(2) i_inv_cong [OF 9(3)] by simp
  have "hbi_clock hbi = Some h9" unfolding hbi_clock_def io(1) dq(1)
    using 1(1) 2(1) 3(1) 4(1) 5(1) 6(1) 7(1) 8(1) 9(1) by simp
  with i9 9(2) show ?thesis by blast
qed

lemma i_answer_slots:
  assumes ok: "slots_ok L B" and lt: "length B < length L"
    and a: "case a of Rsp r \<Rightarrow> bp_trans_id r = FCH_TRANS_ID | Expt e \<Rightarrow> he_type e = HART_EXPT_TYPE_EXCEPTION
      \<and> he_pc e = hc_pc (L ! length B) \<and> (\<forall>j<length B. hc_pc (L ! j) \<noteq> he_pc e)"
  shows "slots_ok L (B @ [a])" "wait_rsp L (B @ [a]) = wait_rsp L B @ (case a of Rsp r \<Rightarrow> [r] | Expt e \<Rightarrow> [])"
    "wait_expt L (B @ [a]) = wait_expt L B @ (case a of Rsp r \<Rightarrow> [] | Expt e \<Rightarrow> [e])"
proof -
  have vl: "i < length B \<and> hc_rsp (L ! i) = fch_of_ans (B ! i)" if "i < length L" "hc_rsp_vld (L ! i)" for i
    using ok that unfolding slots_ok_def by blast
  have nv: "\<not> hc_rsp_vld (L ! length B)" using vl [of "length B"] lt by blast
  let ?L1 = "take (length B) L" and ?L2 = "drop (Suc (length B)) L"
  have L: "L = ?L1 @ L ! length B # ?L2" using lt by (simp add: id_take_nth_drop)
  have e: "length ?L1 = length B" using lt by simp
  have w: "wait_rsp L (B @ [a]) = wait_rsp ?L1 B @ wait_rsp (L ! length B # ?L2) [a]" "wait_rsp L B = wait_rsp ?L1 B"
    "wait_expt L (B @ [a]) = wait_expt ?L1 B @ wait_expt (L ! length B # ?L2) [a]" "wait_expt L B = wait_expt ?L1 B"
    using wait_append [OF e, of "L ! length B # ?L2" "[a]"] wait_append [OF e, of "L ! length B # ?L2" "[]"] L by simp_all
  then show "wait_rsp L (B @ [a]) = wait_rsp L B @ (case a of Rsp r \<Rightarrow> [r] | Expt e \<Rightarrow> [])"
    "wait_expt L (B @ [a]) = wait_expt L B @ (case a of Rsp r \<Rightarrow> [] | Expt e \<Rightarrow> [e])" using nv by (cases a; simp)+
  have "case (B @ [a]) ! i of Rsp r \<Rightarrow> bp_trans_id r = FCH_TRANS_ID
        | Expt e \<Rightarrow> he_type e = HART_EXPT_TYPE_EXCEPTION \<and> he_pc e = hc_pc (L ! i) \<and> (\<forall>j<i. hc_pc (L ! j) \<noteq> he_pc e)"
    if i: "i < length (B @ [a])" for i
  proof (cases "i = length B")
    case True
    then show ?thesis using a by (simp only: nth_append_length)
  next
    case False
    then show ?thesis using slots_ansD [OF ok, of i] i by (simp add: nth_append)
  qed
  moreover have "i < length (B @ [a]) \<and> hc_rsp (L ! i) = fch_of_ans ((B @ [a]) ! i)" if "i < length L" "hc_rsp_vld (L ! i)" for i
    using vl [OF that] by (simp add: nth_append)
  ultimately show "slots_ok L (B @ [a])" using lt unfolding slots_ok_def by simp
qed

text \<open>The neighbours: an answer is given only to a transaction that was taken, and in order.\<close>

type_synonym i_hist = "fch_req list \<times> fch_rsp list \<times> bti_req list \<times> ans list"
type_synonym d_hist = "ldst_req list \<times> ldst_rsp list \<times> bti_req list \<times> bti_rsp list"

inductive hbi_run :: "hbi \<Rightarrow> hbi \<Rightarrow> i_hist \<Rightarrow> d_hist \<Rightarrow> bool" for s0 where
  start: "hbi_run s0 s0 ([], [], [], []) ([], [], [], [])"
| tick: "hbi_run s0 s h g \<Longrightarrow> hbi_clock s = Some s' \<Longrightarrow> hbi_run s0 s' h g"
| fch_send: "hbi_run s0 s (I, os, Q, A) g \<Longrightarrow> itf_write (hb_fch_req_slv s) req = Some t \<Longrightarrow>
    hbi_run s0 (s\<lparr>hb_fch_req_slv := t\<rparr>) (I @ [req], os, Q, A) g"
| fch_recv: "hbi_run s0 s (I, os, Q, A) g \<Longrightarrow> itf_read (hb_fch_rsp_mst s) = Some (rsp, t) \<Longrightarrow>
    hbi_run s0 (s\<lparr>hb_fch_rsp_mst := t\<rparr>) (I, os @ [rsp], Q, A) g"
| i_bus_take: "hbi_run s0 s (I, os, Q, A) g \<Longrightarrow> itf_read (hb_i_bti_req_mst s) = Some (bq, t) \<Longrightarrow>
    hbi_run s0 (s\<lparr>hb_i_bti_req_mst := t\<rparr>) (I, os, Q @ [bq], A) g"
| i_bus_answer: "hbi_run s0 s (I, os, Q, A) g \<Longrightarrow> length A < length Q \<Longrightarrow> bp_trans_id r = FCH_TRANS_ID \<Longrightarrow>
    itf_write (hb_i_bti_rsp_slv s) r = Some u \<Longrightarrow> hbi_run s0 (s\<lparr>hb_i_bti_rsp_slv := u\<rparr>) (I, os, Q, A @ [Rsp r]) g"
| mmu_answer: "hbi_run s0 s (I, os, Q, A) g \<Longrightarrow> length A < length Q \<Longrightarrow> he_type e = HART_EXPT_TYPE_EXCEPTION \<Longrightarrow>
    he_pc e = fq_pc (I ! length A) \<Longrightarrow>
    \<forall>j<length A. length os + length (itf_list (hb_fch_rsp_mst s)) \<le> j \<longrightarrow> fq_pc (I ! j) \<noteq> he_pc e \<Longrightarrow>
    itf_write (hb_mmu_fch_expt_slv s) e = Some v \<Longrightarrow> hbi_run s0 (s\<lparr>hb_mmu_fch_expt_slv := v\<rparr>) (I, os, Q, A @ [Expt e]) g"
| ldst_send: "hbi_run s0 s h (I, os, Q, R) \<Longrightarrow> itf_write (hb_ldst_req_slv s) lreq = Some t' \<Longrightarrow>
    hbi_run s0 (s\<lparr>hb_ldst_req_slv := t'\<rparr>) h (I @ [lreq], os, Q, R)"
| ldst_recv: "hbi_run s0 s h (I, os, Q, R) \<Longrightarrow> itf_read (hb_ldst_rsp_mst s) = Some (lrsp, t'') \<Longrightarrow>
    hbi_run s0 (s\<lparr>hb_ldst_rsp_mst := t''\<rparr>) h (I, os @ [lrsp], Q, R)"
| d_bus_take: "hbi_run s0 s h (I, os, Q, R) \<Longrightarrow> itf_read (hb_d_bti_req_mst s) = Some (bq, t) \<Longrightarrow>
    hbi_run s0 (s\<lparr>hb_d_bti_req_mst := t\<rparr>) h (I, os, Q @ [bq], R)"
| d_bus_answer: "hbi_run s0 s h (I, os, Q, R) \<Longrightarrow> length R < length Q \<Longrightarrow> bp_trans_id r = LDST_TRANS_ID \<Longrightarrow>
    itf_write (hb_d_bti_rsp_slv s) r = Some u \<Longrightarrow> hbi_run s0 (s\<lparr>hb_d_bti_rsp_slv := u\<rparr>) h (I, os, Q, R @ [r])"

fun i_inv_of :: "hbi \<Rightarrow> i_hist \<Rightarrow> bool" where "i_inv_of s (I, os, Q, A) = hbi_i_inv s I os Q A"
fun d_inv_of :: "hbi \<Rightarrow> d_hist \<Rightarrow> bool" where "d_inv_of s (I, os, Q, R) = hbi_d_inv s I os Q R"

lemma d_inv_of_cong: "hbi_d_view s' = hbi_d_view s \<Longrightarrow> d_inv_of s g \<Longrightarrow> d_inv_of s' g"
  using d_inv_cong [of s' s] by (cases g) simp

lemma i_inv_of_cong: "hbi_i_view s' = hbi_i_view s \<Longrightarrow> i_inv_of s h \<Longrightarrow> i_inv_of s' h"
  using i_inv_cong [of s' s] by (cases h) simp

definition hbi_fresh :: "hbi \<Rightarrow> bool" where
  "hbi_fresh s \<longleftrightarrow> hbi_i_ports s \<and> hbi_d_ports s \<and> itf_list (hb_i_bti_req_mst s) = [] \<and> itf_list (hb_i_bti_rsp_slv s) = []
     \<and> itf_list (hb_fch_req_slv s) = [] \<and> itf_list (hb_fch_rsp_mst s) = [] \<and> itf_list (hb_mmu_fch_expt_slv s) = []
     \<and> itf_list (hb_d_bti_req_mst s) = [] \<and> itf_list (hb_d_bti_rsp_slv s) = [] \<and> itf_list (hb_ldst_req_slv s) = [] \<and> itf_list (hb_ldst_rsp_mst s) = []"

lemma hbi_reset_inv:
  assumes f: "hbi_fresh s"
  shows "i_inv_of (hbi_reset s) ([], [], [], [])" "d_inv_of (hbi_reset s) ([], [], [], [])"
proof -
  have "0 < q_depth (hb_i_ost s)" "0 < q_depth (hb_d_ost s)" using f by (auto simp: hbi_fresh_def hbi_i_ports_def hbi_d_ports_def dest: ostq_inv_bounds)
  note r = ostq_reset_live [OF this(1)] ostq_reset_live [OF this(2)]
  show "i_inv_of (hbi_reset s) ([], [], [], [])" "d_inv_of (hbi_reset s) ([], [], [], [])"
    using f r fifo_reset_inv [of "hb_fch_req_fifo s"] fifo_reset_inv [of "hb_ldst_req_fifo s"]
    by (simp_all add: hbi_fresh_def hbi_i_inv_def hbi_i_ports_def hbi_d_inv_def hbi_d_ports_def hbi_reset_def Let_def slots_ok_def d_slots_def)
qed

lemma i_answer_ok:
  assumes inv: "hbi_i_inv s I os Q A" and lt: "length A < length Q"
    and a: "case a of Rsp r \<Rightarrow> bp_trans_id r = FCH_TRANS_ID | Expt e \<Rightarrow> he_type e = HART_EXPT_TYPE_EXCEPTION \<and> he_pc e = fq_pc (I ! length A)
      \<and> (\<forall>j<length A. length os + length (itf_list (hb_fch_rsp_mst s)) \<le> j \<longrightarrow> fq_pc (I ! j) \<noteq> he_pc e)"
    and u: "itf_inv u" "itf_list u = itf_list (hb_i_bti_rsp_slv s) @ (case a of Rsp r \<Rightarrow> [r] | Expt e \<Rightarrow> [])"
    and v: "itf_inv v" "itf_list v = itf_list (hb_mmu_fch_expt_slv s) @ (case a of Rsp r \<Rightarrow> [] | Expt e \<Rightarrow> [e])" "itf_depth v = 1"
  shows "hbi_i_inv (s\<lparr>hb_i_bti_rsp_slv := u, hb_mmu_fch_expt_slv := v\<rparr>) I os Q (A @ [a])"
proof -
  let ?n = "length os + length (itf_list (hb_fch_rsp_mst s))" and ?L = "ostq_live (hb_i_ost s)"
  let ?B = "drop ?n A"
  from inv have ok: "slots_ok ?L ?B" and n: "?n \<le> length A" "length Q + length (itf_list (hb_i_bti_req_mst s)) = ?n + length ?L"
    and pcs: "map hc_pc ?L = map fq_pc (take (length ?L) (drop ?n I))" by (simp_all add: hbi_i_inv_def Let_def)
  have len: "length ?B < length ?L" "?n + length ?B = length A" using n lt by simp_all
  have pc: "hc_pc (?L ! i) = fq_pc (I ! (?n + i))" if "i < length ?L" for i
  proof -
    have m: "length ?L \<le> length I - ?n" using arg_cong [OF pcs, of length] by simp
    from arg_cong [OF pcs, of "\<lambda>xs. xs ! i"] show ?thesis using that m by simp
  qed
  have "case a of Rsp r \<Rightarrow> bp_trans_id r = FCH_TRANS_ID | Expt e \<Rightarrow> he_type e = HART_EXPT_TYPE_EXCEPTION
      \<and> he_pc e = hc_pc (?L ! length ?B) \<and> (\<forall>j<length ?B. hc_pc (?L ! j) \<noteq> he_pc e)"
  proof (cases a)
    case (Expt e)
    have "hc_pc (?L ! j) \<noteq> he_pc e" if "j < length ?B" for j
    proof -
      have "?n + j < length A" using that len by linarith
      moreover have "\<forall>j<length A. ?n \<le> j \<longrightarrow> fq_pc (I ! j) \<noteq> he_pc e" using a unfolding Expt ans.case by blast
      ultimately have "fq_pc (I ! (?n + j)) \<noteq> he_pc e" by simp
      then show ?thesis using pc [of j] that len by simp
    qed
    moreover from a Expt pc [OF len(1)] len(2) have "he_type e = HART_EXPT_TYPE_EXCEPTION" "he_pc e = hc_pc (?L ! length ?B)" by simp_all
    ultimately show ?thesis using Expt by simp
  qed (use a in simp)
  note w = i_answer_slots [OF ok len(1) this]
  have d: "drop ?n (A @ [a]) = ?B @ [a]" "take ?n (A @ [a]) = take ?n A" using n(1) by simp_all
  from inv show ?thesis unfolding hbi_i_inv_def Let_def hbi_i_ports_def
    using w u v lt d by simp
qed

lemma hbi_run_inv:
  assumes "hbi_run s0 s h g" "i_inv_of s0 ([], [], [], [])" "d_inv_of s0 ([], [], [], [])"
  shows "i_inv_of s h \<and> d_inv_of s g"
  using assms
proof induction
  case (tick s h g s')
  obtain I os Q A where h: "h = (I, os, Q, A)" by (cases h)
  obtain I' os' Q' R where g: "g = (I', os', Q', R)" by (cases g)
  from tick hbi_clock_ok [of s I os Q A I' os' Q' R] show ?case by (auto simp: h g)
next
  case (fch_send s I os Q A g req t)
  then have inv: "hbi_i_inv s I os Q A" and "d_inv_of s g" by simp_all
  note t = itf.push_SomeD [OF fch_send.hyps(2) i_inv_portsD(3) [OF inv]]
  have l: "take (length (ostq_live (hb_i_ost s))) (drop (length os + length (itf_list (hb_fch_rsp_mst s))) (I @ [req]))
    = take (length (ostq_live (hb_i_ost s))) (drop (length os + length (itf_list (hb_fch_rsp_mst s))) I)"
  proof -
    from inv have "length (ostq_live (hb_i_ost s)) + (length os + length (itf_list (hb_fch_rsp_mst s))) \<le> length (map fch_bti I)"
      by (simp add: hbi_i_inv_def Let_def)
    then show ?thesis by simp
  qed
  have "hbi_i_inv (s\<lparr>hb_fch_req_slv := t\<rparr>) (I @ [req]) os Q A"
    using inv t l by (simp add: hbi_i_inv_def hbi_i_ports_def Let_def)
  moreover have "d_inv_of (s\<lparr>hb_fch_req_slv := t\<rparr>) g" by (rule d_inv_of_cong [OF _ \<open>d_inv_of s g\<close>]) (simp add: hbi_d_view_def)
  ultimately show ?case by simp
next
  case (fch_recv s I os Q A g rsp t)
  then have inv: "hbi_i_inv s I os Q A" and "d_inv_of s g" by simp_all
  note t = itf.pop_SomeD [OF fch_recv.hyps(2) i_inv_portsD(4) [OF inv]]
  have "hbi_i_inv (s\<lparr>hb_fch_rsp_mst := t\<rparr>) I (os @ [rsp]) Q A" using inv t by (simp add: hbi_i_inv_def hbi_i_ports_def Let_def)
  moreover have "d_inv_of (s\<lparr>hb_fch_rsp_mst := t\<rparr>) g" by (rule d_inv_of_cong [OF _ \<open>d_inv_of s g\<close>]) (simp add: hbi_d_view_def)
  ultimately show ?case by simp
next
  case (i_bus_take s I os Q A g bq t)
  then have inv: "hbi_i_inv s I os Q A" and "d_inv_of s g" by simp_all
  note t = itf.pop_SomeD [OF i_bus_take.hyps(2) i_inv_portsD(1) [OF inv]]
  have "hbi_i_inv (s\<lparr>hb_i_bti_req_mst := t\<rparr>) I os (Q @ [bq]) A" using inv t by (simp add: hbi_i_inv_def hbi_i_ports_def Let_def)
  moreover have "d_inv_of (s\<lparr>hb_i_bti_req_mst := t\<rparr>) g" by (rule d_inv_of_cong [OF _ \<open>d_inv_of s g\<close>]) (simp add: hbi_d_view_def)
  ultimately show ?case by simp
next
  case (i_bus_answer s I os Q A g r u)
  then have inv: "hbi_i_inv s I os Q A" and "d_inv_of s g" by simp_all
  note p = i_inv_portsD [OF inv] and t = itf.push_SomeD [OF i_bus_answer.hyps(4) i_inv_portsD(2) [OF inv]]
  have "hbi_i_inv (s\<lparr>hb_i_bti_rsp_slv := u, hb_mmu_fch_expt_slv := hb_mmu_fch_expt_slv s\<rparr>) I os Q (A @ [Rsp r])"
    by (rule i_answer_ok [OF inv i_bus_answer.hyps(2)]) (use i_bus_answer.hyps(3) t p in simp_all)
  moreover have "d_inv_of (s\<lparr>hb_i_bti_rsp_slv := u\<rparr>) g" by (rule d_inv_of_cong [OF _ \<open>d_inv_of s g\<close>]) (simp add: hbi_d_view_def)
  ultimately show ?case by simp
next
  case (mmu_answer s I os Q A g e v)
  then have inv: "hbi_i_inv s I os Q A" and "d_inv_of s g" by simp_all
  note p = i_inv_portsD [OF inv] and t = itf.push_SomeD [OF mmu_answer.hyps(6) i_inv_portsD(5) [OF inv]]
  have "hbi_i_inv (s\<lparr>hb_i_bti_rsp_slv := hb_i_bti_rsp_slv s, hb_mmu_fch_expt_slv := v\<rparr>) I os Q (A @ [Expt e])"
    by (rule i_answer_ok [OF inv mmu_answer.hyps(2)]) (use mmu_answer.hyps(3-5) t p in simp_all)
  moreover have "d_inv_of (s\<lparr>hb_mmu_fch_expt_slv := v\<rparr>) g" by (rule d_inv_of_cong [OF _ \<open>d_inv_of s g\<close>]) (simp add: hbi_d_view_def)
  ultimately show ?case by simp
next
  case (ldst_send s h I os Q R lreq t')
  then have inv: "hbi_d_inv s I os Q R" and "i_inv_of s h" by simp_all
  note t = itf.push_SomeD [OF ldst_send.hyps(2) d_inv_portsD(3) [OF inv]]
  have "hbi_d_inv (s\<lparr>hb_ldst_req_slv := t'\<rparr>) (I @ [lreq]) os Q R" using inv t by (simp add: hbi_d_inv_def hbi_d_ports_def)
  moreover have "i_inv_of (s\<lparr>hb_ldst_req_slv := t'\<rparr>) h" by (rule i_inv_of_cong [OF _ \<open>i_inv_of s h\<close>]) (simp add: hbi_i_view_def)
  ultimately show ?case by simp
next
  case (ldst_recv s h I os Q R lrsp t'')
  then have inv: "hbi_d_inv s I os Q R" and "i_inv_of s h" by simp_all
  note t = itf.pop_SomeD [OF ldst_recv.hyps(2) d_inv_portsD(4) [OF inv]]
  have "hbi_d_inv (s\<lparr>hb_ldst_rsp_mst := t''\<rparr>) I (os @ [lrsp]) Q R" using inv t by (simp add: hbi_d_inv_def hbi_d_ports_def)
  moreover have "i_inv_of (s\<lparr>hb_ldst_rsp_mst := t''\<rparr>) h" by (rule i_inv_of_cong [OF _ \<open>i_inv_of s h\<close>]) (simp add: hbi_i_view_def)
  ultimately show ?case by simp
next
  case (d_bus_take s h I os Q R bq t)
  then have inv: "hbi_d_inv s I os Q R" and "i_inv_of s h" by simp_all
  note t = itf.pop_SomeD [OF d_bus_take.hyps(2) d_inv_portsD(1) [OF inv]]
  have "hbi_d_inv (s\<lparr>hb_d_bti_req_mst := t\<rparr>) I os (Q @ [bq]) R" using inv t by (simp add: hbi_d_inv_def hbi_d_ports_def)
  moreover have "i_inv_of (s\<lparr>hb_d_bti_req_mst := t\<rparr>) h" by (rule i_inv_of_cong [OF _ \<open>i_inv_of s h\<close>]) (simp add: hbi_i_view_def)
  ultimately show ?case by simp
next
  case (d_bus_answer s h I os Q R r u)
  then have inv: "hbi_d_inv s I os Q R" and "i_inv_of s h" by simp_all
  note t = itf.push_SomeD [OF d_bus_answer.hyps(4) d_inv_portsD(2) [OF inv]]
  have "hbi_d_inv (s\<lparr>hb_d_bti_rsp_slv := u\<rparr>) I os Q (R @ [r])" using inv t d_bus_answer.hyps(2,3)
    by (simp add: hbi_d_inv_def hbi_d_ports_def d_slots_rsp)
  moreover have "i_inv_of (s\<lparr>hb_d_bti_rsp_slv := u\<rparr>) h" by (rule i_inv_of_cong [OF _ \<open>i_inv_of s h\<close>]) (simp add: hbi_i_view_def)
  ultimately show ?case by simp
qed simp

text \<open>
  C9. The bus interface is transparent. In every run from reset no tick fails an assertion; the bus
  sees the fetches and the data accesses as transactions in the order in which they were sent, and
  the fetch unit and the load/store unit get the answers in that order, each fetch its own: the word
  the bus delivered for it, or the exception the translation unit reported for it. Exceptions are
  matched by address, so they are assumed to name an address that no older fetch still in the table has.
\<close>

theorem hbi_transparent:
  assumes "hbi_fresh s0" "hbi_run (hbi_reset s0) s (I, os, Q, A) (I', os', Q', R)"
  shows "(\<exists>s'. hbi_clock s = Some s') \<and> prefix Q (map fch_bti I) \<and> prefix os (map fch_of_ans A) \<and> length A \<le> length Q
    \<and> prefix Q' (map ldst_bti I') \<and> prefix os' (map ldst_of_bti R) \<and> length R \<le> length Q'"
proof -
  from hbi_run_inv [OF assms(2) hbi_reset_inv [OF assms(1)]] have i: "hbi_i_inv s I os Q A" and d: "hbi_d_inv s I' os' Q' R" by simp_all
  let ?n = "length os + length (itf_list (hb_fch_rsp_mst s))"
  from i have 1: "map fch_bti I = Q @ itf_list (hb_i_bti_req_mst s) @ map fch_bti (fifo_list (hb_fch_req_fifo s) @ itf_list (hb_fch_req_slv s))"
    "map fch_of_ans (take ?n A) = os @ itf_list (hb_fch_rsp_mst s)" "length A \<le> length Q" by (simp_all add: hbi_i_inv_def Let_def)
  have "map fch_of_ans A = (os @ itf_list (hb_fch_rsp_mst s)) @ map fch_of_ans (drop ?n A)" unfolding 1(2) [symmetric] by (simp flip: map_append)
  then have 2: "prefix os (map fch_of_ans A)" by simp
  from d have 3: "map ldst_bti I' = Q' @ itf_list (hb_d_bti_req_mst s) @ map ldst_bti (fifo_list (hb_ldst_req_fifo s) @ itf_list (hb_ldst_req_slv s))"
    "length R \<le> length Q'" by (simp_all add: hbi_d_inv_def)
  from d have "d_slots (ostq_live (hb_d_ost s)) R (itf_list (hb_d_bti_rsp_slv s)) (os' @ itf_list (hb_ldst_rsp_mst s))
      (length Q' + length (itf_list (hb_d_bti_req_mst s)))" by (simp add: hbi_d_inv_def)
  from d_slots_prefix [OF this] have 4: "prefix os' (map ldst_of_bti R)" by (auto dest: append_prefixD)
  have 5: "prefix Q (map fch_bti I)" "prefix Q' (map ldst_bti I')" unfolding 1(1) 3(1) by simp_all
  from hbi_clock_ok [OF i d] 1(3) 2 3(2) 4 5 show ?thesis by blast
qed

text \<open>A run with one fetch that the bus answers and one load.\<close>

definition hbi_sample :: hbi where
  "hbi_sample = \<lparr>hb_i_bti_req_mst = fifo_itf_construct 1, hb_i_bti_rsp_slv = fifo_itf_construct 1, hb_d_bti_req_mst = fifo_itf_construct 1,
     hb_d_bti_rsp_slv = fifo_itf_construct 1, hb_fch_req_slv = fifo_itf_construct 1, hb_fch_rsp_mst = fifo_itf_construct 1,
     hb_mmu_fch_expt_slv = fifo_itf_construct 1, hb_ldst_req_slv = fifo_itf_construct 1, hb_ldst_rsp_mst = fifo_itf_construct 1,
     hb_fch_req_fifo = the (fifo_construct 4), hb_ldst_req_fifo = the (fifo_construct 4), hb_i_ost = the (ostq_construct 8),
     hb_d_ost = the (ostq_construct 4), hb_perf_i_stg_full = 0, hb_perf_d_stg_full = 0, hb_perf_i_ost_full = 0, hb_perf_d_ost_full = 0\<rparr>"

lemma hbi_sample_fresh: "hbi_fresh hbi_sample"
proof -
  have "fifo_inv (the (fifo_construct 4) :: fch_req fifo)" "fifo_inv (the (fifo_construct 4) :: ldst_req fifo)"
    by (simp_all add: fifo_construct_def fifo_inv_def ring_inv_def)
  moreover have "ostq_inv (the (ostq_construct 8) :: hbi_i_ost_ctx ostq)" "ostq_inv (the (ostq_construct 4) :: hbi_d_ost_ctx ostq)"
    using ostq_construct_live [of 8] ostq_construct_live [of 4] by (auto simp: ostq_construct_def)
  ultimately show ?thesis by (simp add: hbi_fresh_def hbi_sample_def hbi_i_ports_def hbi_d_ports_def)
qed

datatype hbi_ev = HTick | Fetch u32 | TakeI | AnswerI u32 | FailI hart_expt | RecvI

fun hbi_event :: "hbi_ev \<Rightarrow> hbi \<times> i_hist \<Rightarrow> (hbi \<times> i_hist) option" where
  "hbi_event HTick (s, h) = do { s' \<leftarrow> hbi_clock s; Some (s', h) }"
| "hbi_event (Fetch pc) (s, (I, os, Q, A)) = do { t \<leftarrow> itf_write (hb_fch_req_slv s) \<lparr>fq_pc = pc\<rparr>; Some (s\<lparr>hb_fch_req_slv := t\<rparr>, (I @ [\<lparr>fq_pc = pc\<rparr>], os, Q, A)) }"
| "hbi_event TakeI (s, (I, os, Q, A)) = do { (bq, t) \<leftarrow> itf_read (hb_i_bti_req_mst s); Some (s\<lparr>hb_i_bti_req_mst := t\<rparr>, (I, os, Q @ [bq], A)) }"
| "hbi_event (AnswerI d) (s, (I, os, Q, A)) = do {
     let r = \<lparr>bp_trans_id = FCH_TRANS_ID, bp_data = d, bp_ok = True\<rparr>;
     DBG_CHECK (length A < length Q);
     t \<leftarrow> itf_write (hb_i_bti_rsp_slv s) r;
     Some (s\<lparr>hb_i_bti_rsp_slv := t\<rparr>, (I, os, Q, A @ [Rsp r]))
   }"
| "hbi_event (FailI e) (s, (I, os, Q, A)) = do {
     DBG_CHECK (length A < length Q \<and> he_type e = HART_EXPT_TYPE_EXCEPTION \<and> he_pc e = fq_pc (I ! length A)
       \<and> (\<forall>j\<in>set [length os + length (itf_list (hb_fch_rsp_mst s))..<length A]. fq_pc (I ! j) \<noteq> he_pc e));
     t \<leftarrow> itf_write (hb_mmu_fch_expt_slv s) e;
     Some (s\<lparr>hb_mmu_fch_expt_slv := t\<rparr>, (I, os, Q, A @ [Expt e]))
   }"
| "hbi_event RecvI (s, (I, os, Q, A)) = do { (r, t) \<leftarrow> itf_read (hb_fch_rsp_mst s); Some (s\<lparr>hb_fch_rsp_mst := t\<rparr>, (I, os @ [r], Q, A)) }"

fun hbi_exec :: "hbi_ev list \<Rightarrow> hbi \<times> i_hist \<Rightarrow> (hbi \<times> i_hist) option" where
  "hbi_exec [] s = Some s"
| "hbi_exec (ev # evs) s = do { s \<leftarrow> hbi_event ev s; hbi_exec evs s }"

lemma hbi_event_run:
  assumes "hbi_run s0 s h g" "hbi_event ev (s, h) = Some (s', h')"
  shows "hbi_run s0 s' h' g"
proof -
  obtain I os Q A where h: "h = (I, os, Q, A)" by (cases h)
  show ?thesis using assms
    by (cases ev) (auto simp: h bind_eq_Some_conv Let_def split: if_splits
      intro: hbi_run.tick hbi_run.fch_send hbi_run.i_bus_take hbi_run.i_bus_answer hbi_run.fch_recv hbi_run.mmu_answer)
qed

lemma hbi_exec_run:
  assumes "hbi_run s0 s h g" "hbi_exec evs (s, h) = Some (s', h')"
  shows "hbi_run s0 s' h' g"
  using assms
proof (induction evs arbitrary: s h)
  case (Cons ev evs)
  from Cons.prems(2) obtain t k where t: "hbi_event ev (s, h) = Some (t, k)" "hbi_exec evs (t, k) = Some (s', h')"
    by (auto simp: bind_eq_Some_conv)
  show ?case by (rule Cons.IH [OF hbi_event_run [OF Cons.prems(1) t(1)] t(2)])
qed simp

definition hbi_demo :: "hbi \<times> i_hist" where
  "hbi_demo = the (hbi_exec [Fetch 0x80, HTick, TakeI, AnswerI 0x13, HTick, RecvI] (hbi_reset hbi_sample, ([], [], [], [])))"

theorem hbi_transparent_witness:
  "hbi_run (hbi_reset hbi_sample) (fst hbi_demo) (snd hbi_demo) ([], [], [], []) \<and> (\<exists>s'. hbi_clock (fst hbi_demo) = Some s')
   \<and> fst (snd (snd hbi_demo)) = [fch_of_bti \<lparr>bp_trans_id = 0, bp_data = 0x13, bp_ok = True\<rparr>]"
proof -
  let ?evs = "[Fetch 0x80, HTick, TakeI, AnswerI 0x13, HTick, RecvI]"
  have "hbi_exec ?evs (hbi_reset hbi_sample, ([], [], [], [])) \<noteq> None" by code_simp
  then have "hbi_exec ?evs (hbi_reset hbi_sample, ([], [], [], [])) = Some (fst hbi_demo, snd hbi_demo)" by (auto simp: hbi_demo_def)
  from hbi_exec_run [OF hbi_run.start this] have r: "hbi_run (hbi_reset hbi_sample) (fst hbi_demo) (snd hbi_demo) ([], [], [], [])" by simp
  obtain I os Q A where h: "snd hbi_demo = (I, os, Q, A)" by (cases "snd hbi_demo")
  from hbi_transparent [OF hbi_sample_fresh r [unfolded h]] have "\<exists>s'. hbi_clock (fst hbi_demo) = Some s'" by blast
  moreover have "fst (snd (snd hbi_demo)) = [fch_of_bti \<lparr>bp_trans_id = 0, bp_data = 0x13, bp_ok = True\<rparr>]" by code_simp
  ultimately show ?thesis using r by blast
qed

text \<open>Fetches whose answers were given and are not waiting at an interface any more are answered in the table.\<close>

lemma no_wait_answered:
  "wait_rsp L B = [] \<Longrightarrow> wait_expt L B = [] \<Longrightarrow> length B \<le> length L \<Longrightarrow> i < length B \<Longrightarrow> hc_rsp_vld (L ! i)"
proof (induction L B arbitrary: i rule: wait_rsp.induct)
  case (1 c L r B)
  then show ?case by (cases i) (auto split: if_splits)
next
  case (2 c L e B)
  then show ?case by (cases i) (auto split: if_splits)
qed auto

lemma find_idx_le: "P (xs ! i) \<Longrightarrow> i < length xs \<Longrightarrow> \<exists>k\<le>i. find_idx P xs = Some k \<and> k < length xs"
proof (induction xs arbitrary: i)
  case (Cons x xs)
  show ?case
  proof (cases "P x")
    case False
    with Cons.prems obtain i' where i': "i = Suc i'" "P (xs ! i')" "i' < length xs" by (cases i) auto
    from Cons.IH [OF this(2,3)] obtain k where "k \<le> i'" "find_idx P xs = Some k" "k < length xs" by blast
    with False i'(1) show ?thesis by simp
  qed simp
qed simp

text \<open>An exception whose address belongs, first of all, to a fetch that is answered already fails the assertion.\<close>

lemma expt_aborts:
  assumes "ostq_inv (hb_i_ost s)" "itf_inv (hb_mmu_fch_expt_slv s)" "itf_list (hb_mmu_fch_expt_slv s) = [e]"
    and "find_idx (\<lambda>c. hc_pc c = he_pc e) (ostq_live (hb_i_ost s)) = Some k" "hc_rsp_vld (ostq_live (hb_i_ost s) ! k)"
  shows "hbi_clock s = None"
proof -
  have cap: "hbi_capture_i_req a = Some b \<Longrightarrow> hb_i_ost b = hb_i_ost a \<and> hb_mmu_fch_expt_slv b = hb_mmu_fch_expt_slv a"
    "hbi_capture_d_req a = Some b \<Longrightarrow> hb_i_ost b = hb_i_ost a \<and> hb_mmu_fch_expt_slv b = hb_mmu_fch_expt_slv a" for a b
    by (auto simp: hbi_capture_i_req_def hbi_capture_d_req_def bind_eq_Some_conv split: if_splits)
  from ostq_clock_live [OF assms(1)] obtain io where io: "ostq_clock (hb_i_ost s) = Some io" "ostq_inv io"
    "ostq_live io = ostq_live (hb_i_ost s)" by blast
  have "hbi_proc_i_expt h = None" if h: "hb_i_ost h = io" "hb_mmu_fch_expt_slv h = hb_mmu_fch_expt_slv s" for h
  proof -
    have "\<not> itf_fifo_empty (hb_mmu_fch_expt_slv h)" "itf_fifo_get_front (hb_mmu_fch_expt_slv h) = Some e"
      using itf.is_empty_iff [OF assms(2)] itf.front_Cons [OF assms(2,3)] assms(3) h(2) by simp_all
    then show ?thesis using assms(4,5) h(1) io(2,3)
      by (simp add: hbi_proc_i_expt_def hbi_find_i_slot_by_pc_def ostq_find_eq bind_eq_None_conv)
  qed
  note ne = this
  show ?thesis
  proof (rule ccontr)
    assume "hbi_clock s \<noteq> None"
    then obtain dq h1 h2 h3 where "hbi_capture_i_req (s\<lparr>hb_i_ost := io, hb_d_ost := dq\<rparr>) = Some h1" "hbi_capture_d_req h1 = Some h2"
      "hbi_proc_i_expt h2 = Some h3" using io(1) by (auto simp: hbi_clock_def Let_def bind_eq_Some_conv)
    with cap(1) [of "s\<lparr>hb_i_ost := io, hb_d_ost := dq\<rparr>" h1] cap(2) [of h1 h2] ne [of h2] show False by simp
  qed
qed

text \<open>
  C34. The condition of the transparency theorem on exceptions is needed. In every run from reset in which all answers given so far have been taken,
  the next tick goes well; but when instead the translation unit reports an exception for the oldest unanswered fetch, and an
  older, answered fetch of the same address has not left the table yet, the search by address
  finds that older fetch, and the assertion that the slot
  is still waiting aborts the simulation in the next tick.
\<close>

theorem hbi_same_pc_aborts:
  assumes "hbi_fresh s0" "hbi_run (hbi_reset s0) s (I, os, Q, A) g"
    and "itf_list (hb_i_bti_rsp_slv s) = []" "itf_list (hb_mmu_fch_expt_slv s) = []"
    and "length A < length Q" "he_type e = HART_EXPT_TYPE_EXCEPTION" "he_pc e = fq_pc (I ! length A)"
    and "length os + length (itf_list (hb_fch_rsp_mst s)) \<le> j" "j < length A" "fq_pc (I ! j) = he_pc e"
  shows "(\<exists>s'. hbi_clock s = Some s') \<and> (\<exists>v. itf_write (hb_mmu_fch_expt_slv s) e = Some v \<and> hbi_clock (s\<lparr>hb_mmu_fch_expt_slv := v\<rparr>) = None)"
proof -
  obtain I' os' Q' R where g: "g = (I', os', Q', R)" by (cases g)
  from hbi_run_inv [OF assms(2) hbi_reset_inv [OF assms(1)]] have i: "hbi_i_inv s I os Q A" and d: "hbi_d_inv s I' os' Q' R" by (simp_all add: g)
  let ?n = "length os + length (itf_list (hb_fch_rsp_mst s))" and ?L = "ostq_live (hb_i_ost s)"
  note p = i_inv_portsD [OF i]
  from i assms(3,4) have w: "wait_rsp ?L (drop ?n A) = []" "wait_expt ?L (drop ?n A) = []" "length (drop ?n A) \<le> length ?L"
    and pc: "map hc_pc ?L = map fq_pc (take (length ?L) (drop ?n I))"
    by (simp_all add: hbi_i_inv_def Let_def slots_ok_def)
  have j: "j - ?n < length (drop ?n A)" using assms(8,9) by simp
  with w(3) have jl: "j - ?n < length ?L" by simp
  have "hc_pc (?L ! (j - ?n)) = map fq_pc (take (length ?L) (drop ?n I)) ! (j - ?n)" using jl pc by (metis nth_map)
  moreover have l: "j - ?n < length (take (length ?L) (drop ?n I))" using jl pc by (metis length_map)
  moreover have "?n \<le> length I" using l by (cases "?n \<le> length I") simp_all
  then have "drop ?n I ! (j - ?n) = I ! j" using assms(8) by (simp only: nth_drop le_add_diff_inverse)
  ultimately have "hc_pc (?L ! (j - ?n)) = he_pc e" using assms(10) by simp
  from find_idx_le [of "\<lambda>c. hc_pc c = he_pc e", OF this jl] obtain k where
    k: "k \<le> j - ?n" "find_idx (\<lambda>c. hc_pc c = he_pc e) ?L = Some k" by blast
  have vld: "hc_rsp_vld (?L ! k)" by (rule no_wait_answered [OF w]) (use k(1) j in linarith)
  have "\<not> itf_fifo_full (hb_mmu_fch_expt_slv s)" using itf.is_full_iff [OF p(5)] p(6) assms(4) by simp
  from itf.push_ok [OF p(5) this, of e] assms(4) obtain v where
    v: "itf_write (hb_mmu_fch_expt_slv s) e = Some v" "itf_inv v" "itf_list v = [e]" by auto
  have "hbi_clock (s\<lparr>hb_mmu_fch_expt_slv := v\<rparr>) = None" by (rule expt_aborts [of _ e k]) (use p(8) v k(2) vld in simp_all)
  with v(1) hbi_clock_ok [OF i d] show ?thesis by blast
qed

text \<open>Three fetches, the second and third of one faulting address; the answer of the first was not taken when the second exception arrives.\<close>

definition same_pc_expt :: hart_expt where
  "same_pc_expt = \<lparr>he_type = HART_EXPT_TYPE_EXCEPTION, he_cause = HART_EXPT_CAUSE_INST_PAGE_FAULT, he_priv = 1, he_pc = 0x1000, he_tval = 0x1000\<rparr>"

definition same_pc_demo :: "hbi \<times> i_hist" where
  "same_pc_demo = the (hbi_exec [Fetch 0x80, HTick, TakeI, Fetch 0x1000, HTick, TakeI, Fetch 0x1000, HTick, TakeI, AnswerI 0x13, HTick, FailI same_pc_expt, HTick]
     (hbi_reset hbi_sample, ([], [], [], [])))"

theorem hbi_same_pc_aborts_witness:
  "\<exists>v. hbi_run (hbi_reset hbi_sample) (fst same_pc_demo) (snd same_pc_demo) ([], [], [], [])
    \<and> itf_write (hb_mmu_fch_expt_slv (fst same_pc_demo)) same_pc_expt = Some v \<and> hbi_clock ((fst same_pc_demo)\<lparr>hb_mmu_fch_expt_slv := v\<rparr>) = None"
proof -
  let ?evs = "[Fetch 0x80, HTick, TakeI, Fetch 0x1000, HTick, TakeI, Fetch 0x1000, HTick, TakeI, AnswerI 0x13, HTick, FailI same_pc_expt, HTick]"
  let ?s = "fst same_pc_demo"
  obtain I os Q A where h: "snd same_pc_demo = (I, os, Q, A)" by (cases "snd same_pc_demo")
  have "hbi_exec ?evs (hbi_reset hbi_sample, ([], [], [], [])) \<noteq> None" by code_simp
  then have "hbi_exec ?evs (hbi_reset hbi_sample, ([], [], [], [])) = Some (?s, snd same_pc_demo)" by (auto simp: same_pc_demo_def)
  from hbi_exec_run [OF hbi_run.start this] have r: "hbi_run (hbi_reset hbi_sample) ?s (I, os, Q, A) ([], [], [], [])" by (simp add: h)
  have q: "itf_list (hb_i_bti_rsp_slv ?s) = []" "itf_list (hb_mmu_fch_expt_slv ?s) = []" "length (itf_list (hb_fch_rsp_mst ?s)) = 1" by code_simp+
  have "(case snd same_pc_demo of (I, os, Q, A) \<Rightarrow> (map fq_pc I, length os, length Q, length A)) = ([0x80, 0x1000, 0x1000], 0, 3, 2)" by code_simp
  then have i: "map fq_pc I = [0x80, 0x1000, 0x1000]" "length os = 0" "length Q = 3" "length A = 2" by (simp_all add: h)
  then have pc: "fq_pc (I ! 1) = 0x1000" "fq_pc (I ! 2) = 0x1000" by (auto simp: map_eq_Cons_conv)
  have e: "he_type same_pc_expt = HART_EXPT_TYPE_EXCEPTION" "he_pc same_pc_expt = 0x1000" by (simp_all add: same_pc_expt_def)
  from hbi_same_pc_aborts [OF hbi_sample_fresh r q(1,2) _ e(1), of 1] i pc q(3) e(2) r h show ?thesis by auto
qed

end
