(* ===== verification/AxiPackets.thy ===== *)
theory AxiPackets
  imports Prelude
begin

text \<open>
  The packets of the five AXI4 channels (\<^verbatim>\<open>itf/axi4_*_if.h\<close>) and the cache maintenance operations
  that the caches put into the user field of a read address (\<^verbatim>\<open>spec/core/cache.h\<close>).
\<close>

datatype axi4_ar_burst = AXI4_AR_BURST_FIXED | AXI4_AR_BURST_INCR | AXI4_AR_BURST_WRAP
datatype axi4_ar_size = AXI4_AR_SIZE_B1 | AXI4_AR_SIZE_B2 | AXI4_AR_SIZE_B4 | AXI4_AR_SIZE_B8 | AXI4_AR_SIZE_B16
  | AXI4_AR_SIZE_B32 | AXI4_AR_SIZE_B64 | AXI4_AR_SIZE_B128

record axi4_ar =
  ar_id :: u8
  ar_addr :: u32
  ar_len :: u8
  ar_size :: axi4_ar_size
  ar_burst :: axi4_ar_burst
  ar_lock :: bool
  ar_cache :: u8
  ar_prot :: u8
  ar_qos :: u8
  ar_user :: u32

datatype axi4_aw_burst = AXI4_AW_BURST_FIXED | AXI4_AW_BURST_INCR | AXI4_AW_BURST_WRAP
datatype axi4_aw_size = AXI4_AW_SIZE_B1 | AXI4_AW_SIZE_B2 | AXI4_AW_SIZE_B4 | AXI4_AW_SIZE_B8 | AXI4_AW_SIZE_B16
  | AXI4_AW_SIZE_B32 | AXI4_AW_SIZE_B64 | AXI4_AW_SIZE_B128

record axi4_aw =
  aw_id :: u8
  aw_addr :: u32
  aw_len :: u8
  aw_size :: axi4_aw_size
  aw_burst :: axi4_aw_burst
  aw_lock :: bool
  aw_cache :: u8
  aw_prot :: u8
  aw_qos :: u8
  aw_user :: u32

record axi4_w =
  aw_data :: u32
  aw_strb :: u8
  aw_last :: bool

datatype axi4_b_resp = AXI4_B_RESP_OKAY | AXI4_B_RESP_EXOKAY | AXI4_B_RESP_SLVERR | AXI4_B_RESP_DECERR

record axi4_b =
  ab_id :: u8
  ab_resp :: axi4_b_resp

datatype axi4_r_resp = AXI4_R_RESP_OKAY | AXI4_R_RESP_EXOKAY | AXI4_R_RESP_SLVERR | AXI4_R_RESP_DECERR

record axi4_r =
  ax_id :: u8
  ax_data :: u32
  ax_resp :: axi4_r_resp
  ax_last :: bool

section \<open>Cache maintenance in the user field\<close>

abbreviation (input) AXI4_USER_CMO_OP_INVAL :: u32 where "AXI4_USER_CMO_OP_INVAL \<equiv> 1"
abbreviation (input) AXI4_USER_CMO_OP_CLEAN :: u32 where "AXI4_USER_CMO_OP_CLEAN \<equiv> 2"
abbreviation (input) AXI4_USER_CMO_OP_FLUSH :: u32 where "AXI4_USER_CMO_OP_FLUSH \<equiv> 3"
abbreviation (input) AXI4_USER_CMO_TAG :: u32 where "AXI4_USER_CMO_TAG \<equiv> 0x30"

definition axi4_user_make_cmo :: "u32 \<Rightarrow> u32" where
  "axi4_user_make_cmo op = (op AND 3) OR push_bit 2 AXI4_USER_CMO_TAG"

definition axi4_user_cmo_op :: "u32 \<Rightarrow> u32" where
  "axi4_user_cmo_op raw = raw AND 3"

definition axi4_user_is_cmo :: "u32 \<Rightarrow> bool" where
  "axi4_user_is_cmo user \<longleftrightarrow> drop_bit 2 user AND 0x3F = AXI4_USER_CMO_TAG \<and> drop_bit 8 user = 0"

definition axi4_user_cmo_invalidates :: "u32 \<Rightarrow> bool" where
  "axi4_user_cmo_invalidates user \<longleftrightarrow> axi4_user_cmo_op user = AXI4_USER_CMO_OP_INVAL \<or> axi4_user_cmo_op user = AXI4_USER_CMO_OP_FLUSH"

definition axi4_user_cmo_cleans :: "u32 \<Rightarrow> bool" where
  "axi4_user_cmo_cleans user \<longleftrightarrow> axi4_user_cmo_op user = AXI4_USER_CMO_OP_CLEAN \<or> axi4_user_cmo_op user = AXI4_USER_CMO_OP_FLUSH"

end
