(* ===== verification/L1.thy ===== *)
theory L1
  imports OstSlots BtiPackets AxiPackets ApbPackets Packets
begin

text \<open>
  The first-level cache (\<^verbatim>\<open>core/hart/l1.c\<close>), used once for instructions and once for data. A
  request goes through three stages: it is staged, looked up, and on a hit served from the
  line in the stage after; a miss occupies the one miss engine, which writes a dirty victim back,
  refills the line and serves the request. Hits overtake a miss under way unless they fall on
  its line; answers leave in order. Requests to configured ranges bypass the cache, and cache
  maintenance operations and flushes run in the miss engine.

  The members of \<^verbatim>\<open>l1_t\<close> are grouped: the five arrays, the miss engine and the counters are
  records of their own. Set, way, tag, line and beat numbers are natural numbers.
\<close>

section \<open>l1.h\<close>

abbreviation (input) L1_LINE_SIZE :: nat where "L1_LINE_SIZE \<equiv> 64"
abbreviation (input) L1_WORD_SIZE :: nat where "L1_WORD_SIZE \<equiv> 4"
abbreviation (input) L1_WORD_NUM :: nat where "L1_WORD_NUM \<equiv> 16"

record l1_conf =
  k_full_bypass :: bool
  k_ro :: bool
  k_way_num :: nat
  k_latency :: nat
  k_bypass_ranges :: "(u32 \<times> u32) list"

datatype l1_state = L1_STATE_IDLE | L1_STATE_WB_AW | L1_STATE_WB_W | L1_STATE_WB_B | L1_STATE_REFILL_AR | L1_STATE_REFILL_R
  | L1_STATE_SERVE_MISS | L1_STATE_CMO_L1_WB_AW | L1_STATE_CMO_L1_WB_W | L1_STATE_CMO_L1_WB_B | L1_STATE_CMO_L2_AR | L1_STATE_CMO_L2_R
  | L1_STATE_FLUSH_CHECK | L1_STATE_FLUSH_WB_AW | L1_STATE_FLUSH_WB_W | L1_STATE_FLUSH_WB_B | L1_STATE_FLUSH_ACK

datatype l1_ost_kind = L1_OST_CACHED | L1_OST_BYPASS_RD | L1_OST_BYPASS_WR

record l1_ost_ctx =
  o_trans_id :: u16
  o_kind :: l1_ost_kind
  o_req :: bti_req
  o_bypass_split :: bool
  o_bypass_req_idx :: nat
  o_bypass_rsp_idx :: nat
  o_rsp_vld :: bool
  o_rsp_delay_pend :: bool
  o_ok :: bool
  o_data :: u32
  o_delay :: nat

record l1_lookup_pipe =
  lp_req :: bti_req
  lp_bypass :: bool
  lp_hit :: bool
  lp_way :: nat
  lp_line_idx :: nat

record l1_hit_pipe =
  hp_req :: bti_req
  hp_slot :: nat
  hp_way :: nat
  hp_line_idx :: nat

record l1_arrays =
  a_tags :: "nat list"
  a_data :: "u32 list"
  a_replace_ways :: "nat list"
  a_valids :: "bool list"
  a_dirtys :: "bool list"

record l1_engine =
  m_state :: l1_state
  m_active_slot :: nat
  m_req :: bti_req
  m_req_set :: nat
  m_req_way :: nat
  m_req_line_idx :: nat
  m_req_tag :: nat
  m_req_line_addr :: u32
  m_req_byte_idx :: nat
  m_req_data :: u32
  m_wb_line_addr :: u32
  m_beat_idx :: nat
  m_flush_line_idx :: nat
  m_op_ok :: bool

record l1_perf =
  p_hit :: u64
  p_miss :: u64
  p_bypass :: u64
  p_writeback :: u64
  p_stg_full :: u64
  p_ost_full :: u64
  p_miss_busy :: u64

record l1 =
  c_bti_req_slv :: "bti_req itf"
  c_bti_rsp_mst :: "bti_rsp itf"
  c_axi4_aw_mst :: "axi4_aw itf"
  c_axi4_w_mst :: "axi4_w itf"
  c_axi4_b_slv :: "axi4_b itf"
  c_axi4_ar_mst :: "axi4_ar itf"
  c_axi4_r_slv :: "axi4_r itf"
  c_flush_slv :: "l1_flush itf option"
  c_flush_ack_mst :: "l1_flush_ack itf option"
  c_conf :: l1_conf
  c_set_num :: nat
  c_line_num :: nat
  c_arr :: l1_arrays
  c_req_fifo :: "bti_req fifo"
  c_ost :: "l1_ost_ctx ostq"
  c_req_pipe_vld :: bool
  c_req_pipe :: bti_req
  c_lookup_pipe_vld :: bool
  c_lookup_pipe :: l1_lookup_pipe
  c_hit_pipe_vld :: bool
  c_hit_pipe :: l1_hit_pipe
  c_eng :: l1_engine
  c_perf :: l1_perf



section \<open>l1.c: addresses\<close>

definition l1_line_idx :: "l1 \<Rightarrow> nat \<Rightarrow> nat \<Rightarrow> nat" where
  "l1_line_idx l1 st way = st * k_way_num (c_conf l1) + way"

definition l1_line_addr :: "l1 \<Rightarrow> nat \<Rightarrow> nat \<Rightarrow> u32" where
  "l1_line_addr l1 tag st = of_nat ((tag * c_set_num l1 + st) * L1_LINE_SIZE)"

definition l1_req_line_addr :: "u32 \<Rightarrow> u32" where
  "l1_req_line_addr addr = addr AND NOT 63"

definition l1_req_is_cbo :: "bti_req_cmd \<Rightarrow> bool" where
  "l1_req_is_cbo cmd \<longleftrightarrow> cmd = BTI_REQ_CMD_CBO_INVAL \<or> cmd = BTI_REQ_CMD_CBO_CLEAN \<or> cmd = BTI_REQ_CMD_CBO_FLUSH"

definition l1_cbo_cleans :: "bti_req_cmd \<Rightarrow> bool" where
  "l1_cbo_cleans cmd \<longleftrightarrow> cmd = BTI_REQ_CMD_CBO_CLEAN \<or> cmd = BTI_REQ_CMD_CBO_FLUSH"

definition l1_cbo_invalidates :: "bti_req_cmd \<Rightarrow> bool" where
  "l1_cbo_invalidates cmd \<longleftrightarrow> cmd = BTI_REQ_CMD_CBO_INVAL \<or> cmd = BTI_REQ_CMD_CBO_FLUSH"

definition l1_cbo_axi_user :: "bti_req_cmd \<Rightarrow> u32 option" where
  "l1_cbo_axi_user cmd = (case cmd of
     BTI_REQ_CMD_CBO_INVAL \<Rightarrow> Some (axi4_user_make_cmo AXI4_USER_CMO_OP_INVAL)
   | BTI_REQ_CMD_CBO_CLEAN \<Rightarrow> Some (axi4_user_make_cmo AXI4_USER_CMO_OP_CLEAN)
   | BTI_REQ_CMD_CBO_FLUSH \<Rightarrow> Some (axi4_user_make_cmo AXI4_USER_CMO_OP_FLUSH)
   | _ \<Rightarrow> None)"

definition l1_req_set :: "l1 \<Rightarrow> u32 \<Rightarrow> nat" where
  "l1_req_set l1 addr = (unat (l1_req_line_addr addr) div L1_LINE_SIZE) mod c_set_num l1"

definition l1_req_tag :: "l1 \<Rightarrow> u32 \<Rightarrow> nat" where
  "l1_req_tag l1 addr = (unat (l1_req_line_addr addr) div L1_LINE_SIZE) div c_set_num l1"

definition l1_bypass :: "l1 \<Rightarrow> u32 \<Rightarrow> bool" where
  "l1_bypass l1 addr \<longleftrightarrow> k_full_bypass (c_conf l1)
     \<or> (\<exists>(base, sz) \<in> set (k_bypass_ranges (c_conf l1)). sz \<noteq> 0 \<and> ADDR_IN addr base sz)"

definition l1_invalidate :: "l1 \<Rightarrow> l1" where
  "l1_invalidate l1 = l1\<lparr>c_arr := (c_arr l1)\<lparr>a_valids := replicate (c_line_num l1) False @ drop (c_line_num l1) (a_valids (c_arr l1)),
     a_dirtys := replicate (c_line_num l1) False @ drop (c_line_num l1) (a_dirtys (c_arr l1))\<rparr>\<rparr>"

definition l1_req_size_from :: "bti_req \<Rightarrow> nat" where
  "l1_req_size_from req = (case bq_size req of BTI_REQ_SIZE_B1 \<Rightarrow> 1 | BTI_REQ_SIZE_B2 \<Rightarrow> 2 | BTI_REQ_SIZE_B4 \<Rightarrow> 4)"

definition l1_req_word_offset :: "bti_req \<Rightarrow> nat" where
  "l1_req_word_offset req = unat (bq_addr req AND 3)"

definition l1_req_aligned_word_addr :: "bti_req \<Rightarrow> u32" where
  "l1_req_aligned_word_addr req = bq_addr req AND NOT 3"

definition l1_req_cross_word :: "bti_req \<Rightarrow> bool" where
  "l1_req_cross_word req \<longleftrightarrow> l1_req_word_offset req + l1_req_size_from req > L1_WORD_SIZE"

definition l1_bypass_beat_addr :: "l1_ost_ctx \<Rightarrow> u32" where
  "l1_bypass_beat_addr ctx = l1_req_aligned_word_addr (o_req ctx) + of_nat (o_bypass_req_idx ctx * L1_WORD_SIZE)"

definition l1_bypass_first_read_data :: "u32 \<Rightarrow> nat \<Rightarrow> u32" where
  "l1_bypass_first_read_data data offset = drop_bit (offset * 8) data"

definition l1_bypass_second_read_data :: "u32 \<Rightarrow> nat \<Rightarrow> u32" where
  "l1_bypass_second_read_data data offset = push_bit ((L1_WORD_SIZE - offset) * 8) data"

definition l1_bypass_write_data :: "l1_ost_ctx \<Rightarrow> u32" where
  "l1_bypass_write_data ctx = (let offset = l1_req_word_offset (o_req ctx) in
     if o_bypass_req_idx ctx = 0 then push_bit (offset * 8) (bq_data (o_req ctx))
     else drop_bit ((L1_WORD_SIZE - offset) * 8) (bq_data (o_req ctx)))"

definition l1_bypass_write_strobe :: "l1_ost_ctx \<Rightarrow> u8" where
  "l1_bypass_write_strobe ctx = (let offset = l1_req_word_offset (o_req ctx) in
     if o_bypass_req_idx ctx = 0 then push_bit offset (bq_strobe (o_req ctx)) AND 0xf
     else drop_bit (L1_WORD_SIZE - offset) (bq_strobe (o_req ctx)) AND 0xf)"

definition l1_bypass_beat_num :: "l1_ost_ctx \<Rightarrow> nat" where
  "l1_bypass_beat_num ctx = (if o_bypass_split ctx then 2 else 1)"

definition l1_bypass_slot_can_issue :: "l1_ost_ctx \<Rightarrow> bool" where
  "l1_bypass_slot_can_issue ctx \<longleftrightarrow> \<not> o_rsp_vld ctx \<and> o_bypass_req_idx ctx < l1_bypass_beat_num ctx
     \<and> o_bypass_req_idx ctx = o_bypass_rsp_idx ctx"

definition l1_bypass_slot_wait_rsp :: "l1_ost_ctx \<Rightarrow> bool" where
  "l1_bypass_slot_wait_rsp ctx \<longleftrightarrow> \<not> o_rsp_vld ctx \<and> o_bypass_rsp_idx ctx < o_bypass_req_idx ctx"

definition l1_req_size :: "l1 \<Rightarrow> nat" where
  "l1_req_size l1 = l1_req_size_from (m_req (c_eng l1))"

section \<open>l1.c: the arrays\<close>

definition l1_read_byte :: "l1 \<Rightarrow> nat \<Rightarrow> nat \<Rightarrow> u8 option" where
  "l1_read_byte l1 line_idx line_offset = do {
     w \<leftarrow> arr_get (a_data (c_arr l1)) (line_idx * L1_WORD_NUM + line_offset div L1_WORD_SIZE);
     Some (ucast (drop_bit ((line_offset mod L1_WORD_SIZE) * 8) w))
   }"

definition l1_write_byte :: "l1 \<Rightarrow> nat \<Rightarrow> nat \<Rightarrow> u8 \<Rightarrow> l1 option" where
  "l1_write_byte l1 line_idx line_offset b = do {
     let i = line_idx * L1_WORD_NUM + line_offset div L1_WORD_SIZE;
     let shift = (line_offset mod L1_WORD_SIZE) * 8;
     w \<leftarrow> arr_get (a_data (c_arr l1)) i;
     d \<leftarrow> arr_put (a_data (c_arr l1)) i ((w AND NOT (push_bit shift 0xff)) OR push_bit shift (ucast b));
     Some (l1\<lparr>c_arr := (c_arr l1)\<lparr>a_data := d\<rparr>\<rparr>)
   }"

definition l1_set_valid :: "l1 \<Rightarrow> nat \<Rightarrow> bool \<Rightarrow> l1 option" where
  "l1_set_valid l1 idx v = do { xs \<leftarrow> arr_put (a_valids (c_arr l1)) idx v; Some (l1\<lparr>c_arr := (c_arr l1)\<lparr>a_valids := xs\<rparr>\<rparr>) }"

definition l1_set_dirty :: "l1 \<Rightarrow> nat \<Rightarrow> bool \<Rightarrow> l1 option" where
  "l1_set_dirty l1 idx v = do { xs \<leftarrow> arr_put (a_dirtys (c_arr l1)) idx v; Some (l1\<lparr>c_arr := (c_arr l1)\<lparr>a_dirtys := xs\<rparr>\<rparr>) }"

definition l1_send_rsp_by_id :: "l1 \<Rightarrow> u16 \<Rightarrow> bool \<Rightarrow> u32 \<Rightarrow> l1 option" where
  "l1_send_rsp_by_id l1 trans_id ok data = do {
     t \<leftarrow> itf_write (c_bti_rsp_mst l1) \<lparr>bp_trans_id = trans_id, bp_data = data, bp_ok = ok\<rparr>;
     Some (l1\<lparr>c_bti_rsp_mst := t\<rparr>)
   }"

definition l1_reset :: "l1 \<Rightarrow> l1" where
  "l1_reset l1 = l1\<lparr>
     c_eng := (c_eng l1)\<lparr>m_state := L1_STATE_IDLE, m_active_slot := 0, m_beat_idx := 0, m_op_ok := True, m_req_byte_idx := 0,
       m_req_data := 0, m_flush_line_idx := 0\<rparr>,
     c_req_pipe_vld := False, c_lookup_pipe_vld := False, c_hit_pipe_vld := False,
     c_req_fifo := fifo_reset (c_req_fifo l1), c_ost := ostq_reset (c_ost l1),
     c_perf := \<lparr>p_hit = 0, p_miss = 0, p_bypass = 0, p_writeback = 0, p_stg_full = 0, p_ost_full = 0, p_miss_busy = 0\<rparr>,
     c_arr := \<lparr>a_tags = replicate (c_line_num l1) 0, a_data = replicate (c_line_num l1 * L1_WORD_NUM) 0,
       a_replace_ways = replicate (c_set_num l1) 0, a_valids = replicate (c_line_num l1) False,
       a_dirtys = replicate (c_line_num l1) False\<rparr>\<rparr>"

fun l1_lookup_loop :: "l1 \<Rightarrow> nat \<Rightarrow> nat \<Rightarrow> nat list \<Rightarrow> (nat \<times> nat) option option" where
  "l1_lookup_loop l1 st tag [] = Some None"
| "l1_lookup_loop l1 st tag (i # is) = do {
     let idx = l1_line_idx l1 st i;
     v \<leftarrow> arr_get (a_valids (c_arr l1)) idx;
     t \<leftarrow> arr_get (a_tags (c_arr l1)) idx;
     if v \<and> t = tag then Some (Some (i, idx)) else l1_lookup_loop l1 st tag is
   }"

definition l1_lookup :: "l1 \<Rightarrow> (nat \<times> nat) option option" where
  "l1_lookup l1 = l1_lookup_loop l1 (m_req_set (c_eng l1)) (m_req_tag (c_eng l1)) [0..<k_way_num (c_conf l1)]"

definition l1_lookup_addr :: "l1 \<Rightarrow> u32 \<Rightarrow> (nat \<times> nat) option option" where
  "l1_lookup_addr l1 addr = l1_lookup_loop l1 (l1_req_set l1 addr) (l1_req_tag l1 addr) [0..<k_way_num (c_conf l1)]"

fun l1_free_way :: "l1 \<Rightarrow> nat list \<Rightarrow> (nat \<times> nat) option option" where
  "l1_free_way l1 [] = Some None"
| "l1_free_way l1 (i # is) = do {
     let idx = l1_line_idx l1 (m_req_set (c_eng l1)) i;
     v \<leftarrow> arr_get (a_valids (c_arr l1)) idx;
     if \<not> v then Some (Some (i, idx)) else l1_free_way l1 is
   }"

definition l1_select_victim :: "l1 \<Rightarrow> l1 option" where
  "l1_select_victim l1 = do {
     free \<leftarrow> l1_free_way l1 [0..<k_way_num (c_conf l1)];
     case free of
       Some (i, idx) \<Rightarrow> Some (l1\<lparr>c_eng := (c_eng l1)\<lparr>m_req_way := i, m_req_line_idx := idx\<rparr>\<rparr>)
     | None \<Rightarrow> do {
         let st = m_req_set (c_eng l1);
         way \<leftarrow> arr_get (a_replace_ways (c_arr l1)) st;
         rw \<leftarrow> arr_put (a_replace_ways (c_arr l1)) st ((way + 1) mod k_way_num (c_conf l1));
         Some (l1\<lparr>c_eng := (c_eng l1)\<lparr>m_req_way := way, m_req_line_idx := l1_line_idx l1 st way\<rparr>,
           c_arr := (c_arr l1)\<lparr>a_replace_ways := rw\<rparr>\<rparr>)
       }
   }"

definition l1_setup_fragment :: "l1 \<Rightarrow> l1" where
  "l1_setup_fragment l1 = (let addr = bq_addr (m_req (c_eng l1)) + of_nat (m_req_byte_idx (c_eng l1)) in
     l1\<lparr>c_eng := (c_eng l1)\<lparr>m_req_line_addr := l1_req_line_addr addr, m_req_set := l1_req_set l1 addr, m_req_tag := l1_req_tag l1 addr\<rparr>\<rparr>)"

section \<open>l1.c: starting an operation\<close>

definition l1_start_cached_fragment :: "l1 \<Rightarrow> l1 option" where
  "l1_start_cached_fragment l1 = do {
     let l1 = l1_setup_fragment l1;
     found \<leftarrow> l1_lookup l1;
     case found of
       Some (way, line_idx) \<Rightarrow> Some (l1\<lparr>c_perf := (c_perf l1)\<lparr>p_hit := p_hit (c_perf l1) + 1\<rparr>,
         c_eng := (c_eng l1)\<lparr>m_req_way := way, m_req_line_idx := line_idx, m_state := L1_STATE_SERVE_MISS\<rparr>\<rparr>)
     | None \<Rightarrow> do {
         l1 \<leftarrow> l1_select_victim (l1\<lparr>c_perf := (c_perf l1)\<lparr>p_miss := p_miss (c_perf l1) + 1\<rparr>\<rparr>);
         let idx = m_req_line_idx (c_eng l1);
         v \<leftarrow> arr_get (a_valids (c_arr l1)) idx;
         d \<leftarrow> arr_get (a_dirtys (c_arr l1)) idx;
         if v \<and> d then do {
           tag \<leftarrow> arr_get (a_tags (c_arr l1)) idx;
           Some (l1\<lparr>c_perf := (c_perf l1)\<lparr>p_writeback := p_writeback (c_perf l1) + 1\<rparr>,
             c_eng := (c_eng l1)\<lparr>m_wb_line_addr := l1_line_addr l1 tag (m_req_set (c_eng l1)), m_beat_idx := 0, m_state := L1_STATE_WB_AW\<rparr>\<rparr>)
         }
         else Some (l1\<lparr>c_eng := (c_eng l1)\<lparr>m_beat_idx := 0, m_state := L1_STATE_REFILL_AR\<rparr>\<rparr>)
       }
   }"

definition l1_start_cbo :: "l1 \<Rightarrow> l1 option" where
  "l1_start_cbo l1 = do {
     DBG_CHECK (l1_req_is_cbo (bq_cmd (m_req (c_eng l1))));
     let l1 = l1_setup_fragment l1;
     let cmd = bq_cmd (m_req (c_eng l1));
     found \<leftarrow> l1_lookup l1;
     case found of
       None \<Rightarrow> Some (l1\<lparr>c_eng := (c_eng l1)\<lparr>m_state := L1_STATE_CMO_L2_AR\<rparr>\<rparr>)
     | Some (way, line_idx) \<Rightarrow> do {
         let l1 = l1\<lparr>c_eng := (c_eng l1)\<lparr>m_req_way := way, m_req_line_idx := line_idx\<rparr>\<rparr>;
         d \<leftarrow> arr_get (a_dirtys (c_arr l1)) line_idx;
         if l1_cbo_cleans cmd \<and> d then
           Some (l1\<lparr>c_eng := (c_eng l1)\<lparr>m_beat_idx := 0, m_wb_line_addr := m_req_line_addr (c_eng l1), m_state := L1_STATE_CMO_L1_WB_AW\<rparr>\<rparr>)
         else if l1_cbo_invalidates cmd then do {
           l1 \<leftarrow> l1_set_valid l1 line_idx False;
           l1 \<leftarrow> l1_set_dirty l1 line_idx False;
           Some (l1\<lparr>c_eng := (c_eng l1)\<lparr>m_state := L1_STATE_CMO_L2_AR\<rparr>\<rparr>)
         }
         else Some (l1\<lparr>c_eng := (c_eng l1)\<lparr>m_state := L1_STATE_CMO_L2_AR\<rparr>\<rparr>)
       }
   }"

text \<open>The value is the slot, and \<open>None\<close> inside for a full table.\<close>

definition l1_alloc_ost :: "l1 \<Rightarrow> bti_req \<Rightarrow> l1_ost_kind \<Rightarrow> (nat option \<times> l1) option" where
  "l1_alloc_ost l1 req kind =
     (if ostq_full (c_ost l1) then Some (None, l1\<lparr>c_perf := (c_perf l1)\<lparr>p_ost_full := p_ost_full (c_perf l1) + 1\<rparr>\<rparr>)
      else do {
        alloc \<leftarrow> ostq_alloc (c_ost l1) \<lparr>o_trans_id = bq_trans_id req, o_kind = kind, o_req = req,
          o_bypass_split = (kind = L1_OST_BYPASS_RD \<or> kind = L1_OST_BYPASS_WR) \<and> l1_req_cross_word req,
          o_bypass_req_idx = 0, o_bypass_rsp_idx = 0, o_rsp_vld = False, o_rsp_delay_pend = False, o_ok = False, o_data = 0, o_delay = 0\<rparr>;
        case alloc of None \<Rightarrow> Some (None, l1)
        | Some (slot, ost) \<Rightarrow> Some (Some slot, l1\<lparr>c_ost := ost\<rparr>)
      })"

definition l1_complete_slot :: "l1 \<Rightarrow> nat \<Rightarrow> bool \<Rightarrow> u32 \<Rightarrow> l1 option" where
  "l1_complete_slot l1 slot ok data = do {
     ctx \<leftarrow> ostq_read_slot (c_ost l1) slot;
     ost \<leftarrow> ostq_write_slot (c_ost l1) slot (ctx\<lparr>o_ok := ok, o_data := data, o_rsp_vld := (k_latency (c_conf l1) = 0),
       o_rsp_delay_pend := (k_latency (c_conf l1) \<noteq> 0), o_delay := 0\<rparr>);
     Some (l1\<lparr>c_ost := ost\<rparr>)
   }"

definition l1_delay_step :: "nat \<Rightarrow> l1_ost_ctx \<Rightarrow> l1_ost_ctx" where
  "l1_delay_step latency ctx = (if \<not> o_rsp_delay_pend ctx then ctx
     else let ctx = ctx\<lparr>o_delay := o_delay ctx + 1\<rparr> in
       if o_delay ctx \<ge> latency then ctx\<lparr>o_rsp_delay_pend := False, o_rsp_vld := True\<rparr> else ctx)"

fun l1_delay_loop :: "nat \<Rightarrow> l1_ost_ctx ostq \<Rightarrow> nat list \<Rightarrow> l1_ost_ctx ostq option" where
  "l1_delay_loop latency ost [] = Some ost"
| "l1_delay_loop latency ost (i # is) = do {
     ok \<leftarrow> ostq_slot_valid ost i;
     if \<not> ok then l1_delay_loop latency ost is
     else do {
       ctx \<leftarrow> ostq_read_slot ost i;
       if \<not> o_rsp_delay_pend ctx then l1_delay_loop latency ost is
       else do {
         ost \<leftarrow> ostq_write_slot ost i (l1_delay_step latency ctx);
         l1_delay_loop latency ost is
       }
     }
   }"

definition l1_tick_rsp_delay :: "l1 \<Rightarrow> l1 option" where
  "l1_tick_rsp_delay l1 =
     (if k_latency (c_conf l1) = 0 then Some l1
      else do {
        ost \<leftarrow> l1_delay_loop (k_latency (c_conf l1)) (c_ost l1) [0..<q_depth (c_ost l1)];
        Some (l1\<lparr>c_ost := ost\<rparr>)
      })"

fun l1_bypass_ost_loop :: "l1_ost_ctx ostq \<Rightarrow> nat list \<Rightarrow> bool option" where
  "l1_bypass_ost_loop ost [] = Some False"
| "l1_bypass_ost_loop ost (i # is) = do {
     ok \<leftarrow> ostq_slot_valid ost i;
     if \<not> ok then l1_bypass_ost_loop ost is
     else do {
       ctx \<leftarrow> ostq_read_slot ost i;
       if o_kind ctx = L1_OST_BYPASS_RD \<or> o_kind ctx = L1_OST_BYPASS_WR then Some True else l1_bypass_ost_loop ost is
     }
   }"

definition l1_has_bypass_ost :: "l1 \<Rightarrow> bool option" where
  "l1_has_bypass_ost l1 = l1_bypass_ost_loop (c_ost l1) [0..<q_depth (c_ost l1)]"

definition l1_state_is_flush :: "l1_state \<Rightarrow> bool" where
  "l1_state_is_flush state \<longleftrightarrow> state \<in> {L1_STATE_FLUSH_CHECK, L1_STATE_FLUSH_WB_AW, L1_STATE_FLUSH_WB_W, L1_STATE_FLUSH_WB_B, L1_STATE_FLUSH_ACK}"

definition l1_active_line_conflict :: "l1 \<Rightarrow> nat \<Rightarrow> bool" where
  "l1_active_line_conflict l1 line_idx \<longleftrightarrow> m_state (c_eng l1) \<noteq> L1_STATE_IDLE \<and> line_idx = m_req_line_idx (c_eng l1)"

definition l1_lookup_fast_hit :: "l1 \<Rightarrow> bti_req \<Rightarrow> (nat \<times> nat) option option" where
  "l1_lookup_fast_hit l1 req = do {
     let end_addr = bq_addr req + of_nat (l1_req_size_from req) - 1;
     if l1_req_line_addr (bq_addr req) \<noteq> l1_req_line_addr end_addr then Some None
     else do {
       found \<leftarrow> l1_lookup_addr l1 (bq_addr req);
       Some (case found of None \<Rightarrow> None
         | Some (way, line_idx) \<Rightarrow> if l1_active_line_conflict l1 line_idx then None else Some (way, line_idx))
     }
   }"

definition l1_lookup_pipe_hit_valid :: "l1 \<Rightarrow> bool option" where
  "l1_lookup_pipe_hit_valid l1 =
     (if \<not> lp_hit (c_lookup_pipe l1) then Some False
      else do {
        let line_idx = lp_line_idx (c_lookup_pipe l1);
        v \<leftarrow> arr_get (a_valids (c_arr l1)) line_idx;
        tag \<leftarrow> arr_get (a_tags (c_arr l1)) line_idx;
        Some (v \<and> tag = l1_req_tag l1 (bq_addr (lp_req (c_lookup_pipe l1))) \<and> \<not> l1_active_line_conflict l1 line_idx)
      })"

section \<open>l1.c: hits\<close>

fun l1_hit_loop :: "bti_req \<Rightarrow> nat \<Rightarrow> nat \<Rightarrow> nat list \<Rightarrow> u32 \<Rightarrow> l1 \<Rightarrow> (u32 \<times> l1) option" where
  "l1_hit_loop req line_idx line_offset [] data l1 = Some (data, l1)"
| "l1_hit_loop req line_idx line_offset (i # is) data l1 =
     (if bq_cmd req = BTI_REQ_CMD_WRITE then
        if bq_strobe req AND push_bit i 1 \<noteq> 0 then do {
          l1 \<leftarrow> l1_write_byte l1 line_idx (line_offset + i) (ucast (drop_bit (i * 8) (bq_data req)));
          l1 \<leftarrow> l1_set_dirty l1 line_idx True;
          l1_hit_loop req line_idx line_offset is data l1
        }
        else l1_hit_loop req line_idx line_offset is data l1
      else do {
        b \<leftarrow> l1_read_byte l1 line_idx (line_offset + i);
        l1_hit_loop req line_idx line_offset is (data OR push_bit (i * 8) (ucast b)) l1
      })"

definition l1_proc_hit_pipe :: "l1 \<Rightarrow> l1 option" where
  "l1_proc_hit_pipe l1 =
     (if \<not> c_hit_pipe_vld l1 then Some l1
      else do {
        let req = hp_req (c_hit_pipe l1);
        let line_offset = unat (bq_addr req AND 63);
        (data, l1) \<leftarrow> l1_hit_loop req (hp_line_idx (c_hit_pipe l1)) line_offset [0..<l1_req_size_from req] 0 l1;
        l1 \<leftarrow> l1_complete_slot l1 (hp_slot (c_hit_pipe l1)) True (if bq_cmd req = BTI_REQ_CMD_READ then data else 0);
        Some (l1\<lparr>c_hit_pipe_vld := False\<rparr>)
      })"

section \<open>l1.c: bypass\<close>

definition l1_issue_bypass_read :: "l1 \<Rightarrow> nat \<Rightarrow> l1_ost_ctx \<Rightarrow> l1 option" where
  "l1_issue_bypass_read l1 slot ctx = do {
     DBG_CHECK (slot \<le> 0xff);
     t \<leftarrow> itf_write (c_axi4_ar_mst l1) \<lparr>ar_id = of_nat slot, ar_addr = l1_bypass_beat_addr ctx, ar_len = 0, ar_size = AXI4_AR_SIZE_B4,
       ar_burst = AXI4_AR_BURST_INCR, ar_lock = False, ar_cache = 0, ar_prot = 0, ar_qos = 0, ar_user = 0\<rparr>;
     ost \<leftarrow> ostq_write_slot (c_ost l1) slot (ctx\<lparr>o_bypass_req_idx := o_bypass_req_idx ctx + 1\<rparr>);
     Some (l1\<lparr>c_axi4_ar_mst := t, c_ost := ost\<rparr>)
   }"

definition l1_issue_bypass_write :: "l1 \<Rightarrow> nat \<Rightarrow> l1_ost_ctx \<Rightarrow> l1 option" where
  "l1_issue_bypass_write l1 slot ctx = do {
     DBG_CHECK (slot \<le> 0xff);
     t \<leftarrow> itf_write (c_axi4_aw_mst l1) \<lparr>aw_id = of_nat slot, aw_addr = l1_bypass_beat_addr ctx, aw_len = 0, aw_size = AXI4_AW_SIZE_B4,
       aw_burst = AXI4_AW_BURST_INCR, aw_lock = False, aw_cache = 0, aw_prot = 0, aw_qos = 0, aw_user = 0\<rparr>;
     u \<leftarrow> itf_write (c_axi4_w_mst l1) \<lparr>aw_data = l1_bypass_write_data ctx, aw_strb = l1_bypass_write_strobe ctx, aw_last = True\<rparr>;
     ost \<leftarrow> ostq_write_slot (c_ost l1) slot (ctx\<lparr>o_bypass_req_idx := o_bypass_req_idx ctx + 1\<rparr>);
     Some (l1\<lparr>c_axi4_aw_mst := t, c_axi4_w_mst := u, c_ost := ost\<rparr>)
   }"

definition l1_try_bypass_req :: "l1 \<Rightarrow> bti_req \<Rightarrow> (bool \<times> l1) option" where
  "l1_try_bypass_req l1 req =
     (if m_state (c_eng l1) \<noteq> L1_STATE_IDLE then Some (False, l1)
      else if bq_cmd req = BTI_REQ_CMD_READ then
        (if itf_fifo_full (c_axi4_ar_mst l1) then Some (False, l1)
         else do {
           (alloc, l1) \<leftarrow> l1_alloc_ost l1 req L1_OST_BYPASS_RD;
           case alloc of None \<Rightarrow> Some (False, l1)
           | Some slot \<Rightarrow> do {
               ctx \<leftarrow> ostq_read_slot (c_ost l1) slot;
               l1 \<leftarrow> l1_issue_bypass_read l1 slot ctx;
               Some (True, l1)
             }
         })
      else if k_ro (c_conf l1) then do {
        (alloc, l1) \<leftarrow> l1_alloc_ost l1 req L1_OST_CACHED;
        case alloc of None \<Rightarrow> Some (False, l1)
        | Some slot \<Rightarrow> do { l1 \<leftarrow> l1_complete_slot l1 slot False 0; Some (True, l1) }
      }
      else if itf_fifo_full (c_axi4_aw_mst l1) \<or> itf_fifo_full (c_axi4_w_mst l1) then Some (False, l1)
      else do {
        (alloc, l1) \<leftarrow> l1_alloc_ost l1 req L1_OST_BYPASS_WR;
        case alloc of None \<Rightarrow> Some (False, l1)
        | Some slot \<Rightarrow> do {
            ctx \<leftarrow> ostq_read_slot (c_ost l1) slot;
            l1 \<leftarrow> l1_issue_bypass_write l1 slot ctx;
            Some (True, l1)
          }
      })"

section \<open>l1.c: the stages\<close>

definition l1_capture_req :: "l1 \<Rightarrow> l1 option" where
  "l1_capture_req l1 =
     (if fifo_full (c_req_fifo l1) then
        Some (if \<not> itf_fifo_empty (c_bti_req_slv l1) then l1\<lparr>c_perf := (c_perf l1)\<lparr>p_stg_full := p_stg_full (c_perf l1) + 1\<rparr>\<rparr> else l1)
      else if itf_fifo_empty (c_bti_req_slv l1) then Some l1
      else do {
        (req, t) \<leftarrow> itf_read (c_bti_req_slv l1);
        q \<leftarrow> fifo_push (c_req_fifo l1) req;
        Some (l1\<lparr>c_bti_req_slv := t, c_req_fifo := q\<rparr>)
      })"

definition l1_fill_req_pipe :: "l1 \<Rightarrow> l1 option" where
  "l1_fill_req_pipe l1 =
     (if c_req_pipe_vld l1 \<or> l1_state_is_flush (m_state (c_eng l1)) \<or> fifo_empty (c_req_fifo l1) then Some l1
      else do {
        (req, q) \<leftarrow> fifo_pop (c_req_fifo l1);
        Some (l1\<lparr>c_req_fifo := q, c_req_pipe := req, c_req_pipe_vld := True\<rparr>)
      })"

definition l1_fill_lookup_pipe :: "l1 \<Rightarrow> l1 option" where
  "l1_fill_lookup_pipe l1 =
     (if c_lookup_pipe_vld l1 \<or> \<not> c_req_pipe_vld l1 \<or> l1_state_is_flush (m_state (c_eng l1)) then Some l1
      else do {
        let req = c_req_pipe l1;
        let bypass = l1_bypass l1 (bq_addr req);
        let l1 = l1\<lparr>c_req_pipe_vld := False\<rparr>;
        found \<leftarrow> (if \<not> l1_req_is_cbo (bq_cmd req) \<and> (bq_cmd req = BTI_REQ_CMD_READ \<or> bq_cmd req = BTI_REQ_CMD_WRITE) \<and> \<not> bypass
            \<and> \<not> (k_ro (c_conf l1) \<and> bq_cmd req = BTI_REQ_CMD_WRITE)
          then l1_lookup_fast_hit l1 req else Some None);
        let pipe = (case found of
            None \<Rightarrow> \<lparr>lp_req = req, lp_bypass = bypass, lp_hit = False, lp_way = 0, lp_line_idx = 0\<rparr>
          | Some (way, line_idx) \<Rightarrow> \<lparr>lp_req = req, lp_bypass = bypass, lp_hit = True, lp_way = way, lp_line_idx = line_idx\<rparr>);
        Some (l1\<lparr>c_lookup_pipe := pipe, c_lookup_pipe_vld := True\<rparr>)
      })"

definition l1_reject_req :: "l1 \<Rightarrow> bti_req \<Rightarrow> l1 option" where
  "l1_reject_req l1 req = do {
     (alloc, l1) \<leftarrow> l1_alloc_ost l1 req L1_OST_CACHED;
     case alloc of None \<Rightarrow> Some l1
     | Some slot \<Rightarrow> l1_complete_slot (l1\<lparr>c_lookup_pipe_vld := False\<rparr>) slot False 0
   }"

definition l1_activate :: "l1 \<Rightarrow> bti_req \<Rightarrow> nat \<Rightarrow> l1" where
  "l1_activate l1 req slot = l1\<lparr>c_lookup_pipe_vld := False, c_eng := (c_eng l1)\<lparr>m_active_slot := slot, m_req := req, m_op_ok := True,
     m_req_byte_idx := 0, m_req_data := 0\<rparr>\<rparr>"

definition l1_proc_lookup_pipe :: "l1 \<Rightarrow> l1 option" where
  "l1_proc_lookup_pipe l1 =
     (if \<not> c_lookup_pipe_vld l1 \<or> l1_state_is_flush (m_state (c_eng l1)) then Some l1
      else if ostq_full (c_ost l1) then Some (l1\<lparr>c_perf := (c_perf l1)\<lparr>p_ost_full := p_ost_full (c_perf l1) + 1\<rparr>\<rparr>)
      else let req = lp_req (c_lookup_pipe l1) in
      if l1_req_is_cbo (bq_cmd req) then
        (if m_state (c_eng l1) \<noteq> L1_STATE_IDLE \<or> \<not> ostq_empty (c_ost l1) then Some l1
         else do {
           (alloc, l1) \<leftarrow> l1_alloc_ost l1 req L1_OST_CACHED;
           case alloc of None \<Rightarrow> Some l1 | Some slot \<Rightarrow> l1_start_cbo (l1_activate l1 req slot)
         })
      else if bq_cmd req \<noteq> BTI_REQ_CMD_READ \<and> bq_cmd req \<noteq> BTI_REQ_CMD_WRITE then l1_reject_req l1 req
      else if lp_bypass (c_lookup_pipe l1) then do {
        (done, l1) \<leftarrow> l1_try_bypass_req (l1\<lparr>c_perf := (c_perf l1)\<lparr>p_bypass := p_bypass (c_perf l1) + 1\<rparr>\<rparr>) req;
        Some (if done then l1\<lparr>c_lookup_pipe_vld := False\<rparr> else l1)
      }
      else if k_ro (c_conf l1) \<and> bq_cmd req = BTI_REQ_CMD_WRITE then l1_reject_req l1 req
      else do {
        hit \<leftarrow> l1_lookup_pipe_hit_valid l1;
        if hit then do {
          (alloc, l1) \<leftarrow> l1_alloc_ost (l1\<lparr>c_perf := (c_perf l1)\<lparr>p_hit := p_hit (c_perf l1) + 1\<rparr>\<rparr>) req L1_OST_CACHED;
          case alloc of None \<Rightarrow> Some l1
          | Some slot \<Rightarrow> Some (l1\<lparr>c_lookup_pipe_vld := False, c_hit_pipe_vld := True,
              c_hit_pipe := \<lparr>hp_req = req, hp_slot = slot, hp_way = lp_way (c_lookup_pipe l1), hp_line_idx = lp_line_idx (c_lookup_pipe l1)\<rparr>\<rparr>)
        }
        else do {
          busy \<leftarrow> (if m_state (c_eng l1) \<noteq> L1_STATE_IDLE then Some True else l1_has_bypass_ost l1);
          if busy then Some (l1\<lparr>c_perf := (c_perf l1)\<lparr>p_miss_busy := p_miss_busy (c_perf l1) + 1\<rparr>\<rparr>)
          else do {
            (alloc, l1) \<leftarrow> l1_alloc_ost l1 req L1_OST_CACHED;
            case alloc of None \<Rightarrow> Some l1 | Some slot \<Rightarrow> l1_start_cached_fragment (l1_activate l1 req slot)
          }
        }
      })"

section \<open>l1.c: cache maintenance\<close>

definition l1_line_aw :: "u32 \<Rightarrow> axi4_aw" where
  "l1_line_aw addr = \<lparr>aw_id = 0, aw_addr = addr, aw_len = of_nat (L1_WORD_NUM - 1), aw_size = AXI4_AW_SIZE_B4, aw_burst = AXI4_AW_BURST_INCR,
     aw_lock = False, aw_cache = 0xf, aw_prot = 0, aw_qos = 0, aw_user = 0\<rparr>"

definition l1_proc_cmo_l1_wb_aw :: "l1 \<Rightarrow> l1 option" where
  "l1_proc_cmo_l1_wb_aw l1 =
     (if m_state (c_eng l1) \<noteq> L1_STATE_CMO_L1_WB_AW \<or> itf_fifo_full (c_axi4_aw_mst l1) then Some l1
      else do {
        t \<leftarrow> itf_write (c_axi4_aw_mst l1) (l1_line_aw (m_wb_line_addr (c_eng l1)));
        Some (l1\<lparr>c_axi4_aw_mst := t, c_eng := (c_eng l1)\<lparr>m_beat_idx := 0, m_state := L1_STATE_CMO_L1_WB_W\<rparr>\<rparr>)
      })"

definition l1_proc_cmo_l1_wb_w :: "l1 \<Rightarrow> l1 option" where
  "l1_proc_cmo_l1_wb_w l1 =
     (if m_state (c_eng l1) \<noteq> L1_STATE_CMO_L1_WB_W \<or> itf_fifo_full (c_axi4_w_mst l1) then Some l1
      else do {
        d \<leftarrow> arr_get (a_data (c_arr l1)) (m_req_line_idx (c_eng l1) * L1_WORD_NUM + m_beat_idx (c_eng l1));
        let last = (m_beat_idx (c_eng l1) = L1_WORD_NUM - 1);
        t \<leftarrow> itf_write (c_axi4_w_mst l1) \<lparr>aw_data = d, aw_strb = 0xf, aw_last = last\<rparr>;
        let l1 = l1\<lparr>c_axi4_w_mst := t\<rparr>;
        Some (if last then l1\<lparr>c_eng := (c_eng l1)\<lparr>m_state := L1_STATE_CMO_L1_WB_B\<rparr>\<rparr>
          else l1\<lparr>c_eng := (c_eng l1)\<lparr>m_beat_idx := m_beat_idx (c_eng l1) + 1\<rparr>\<rparr>)
      })"

definition l1_proc_cmo_l1_wb_b :: "l1 \<Rightarrow> l1 option" where
  "l1_proc_cmo_l1_wb_b l1 =
     (if m_state (c_eng l1) \<noteq> L1_STATE_CMO_L1_WB_B \<or> itf_fifo_empty (c_axi4_b_slv l1) then Some l1
      else do {
        (b, t) \<leftarrow> itf_read (c_axi4_b_slv l1);
        let l1 = l1\<lparr>c_axi4_b_slv := t\<rparr>;
        if ab_resp b \<noteq> AXI4_B_RESP_OKAY then do {
          l1 \<leftarrow> l1_complete_slot l1 (m_active_slot (c_eng l1)) False 0;
          Some (l1\<lparr>c_eng := (c_eng l1)\<lparr>m_state := L1_STATE_IDLE\<rparr>\<rparr>)
        }
        else do {
          l1 \<leftarrow> l1_set_dirty l1 (m_req_line_idx (c_eng l1)) False;
          l1 \<leftarrow> (if l1_cbo_invalidates (bq_cmd (m_req (c_eng l1))) then l1_set_valid l1 (m_req_line_idx (c_eng l1)) False else Some l1);
          Some (l1\<lparr>c_eng := (c_eng l1)\<lparr>m_state := L1_STATE_CMO_L2_AR\<rparr>\<rparr>)
        }
      })"

definition l1_proc_cmo_l2_ar :: "l1 \<Rightarrow> l1 option" where
  "l1_proc_cmo_l2_ar l1 =
     (if m_state (c_eng l1) \<noteq> L1_STATE_CMO_L2_AR \<or> itf_fifo_full (c_axi4_ar_mst l1) then Some l1
      else do {
        user \<leftarrow> l1_cbo_axi_user (bq_cmd (m_req (c_eng l1)));
        t \<leftarrow> itf_write (c_axi4_ar_mst l1) \<lparr>ar_id = 0, ar_addr = m_req_line_addr (c_eng l1), ar_len = 0, ar_size = AXI4_AR_SIZE_B4,
          ar_burst = AXI4_AR_BURST_FIXED, ar_lock = False, ar_cache = 0xf, ar_prot = 0, ar_qos = 0, ar_user = user\<rparr>;
        Some (l1\<lparr>c_axi4_ar_mst := t, c_eng := (c_eng l1)\<lparr>m_state := L1_STATE_CMO_L2_R\<rparr>\<rparr>)
      })"

definition l1_proc_cmo_l2_r :: "l1 \<Rightarrow> l1 option" where
  "l1_proc_cmo_l2_r l1 =
     (if m_state (c_eng l1) \<noteq> L1_STATE_CMO_L2_R \<or> itf_fifo_empty (c_axi4_r_slv l1) then Some l1
      else do {
        (r, t) \<leftarrow> itf_read (c_axi4_r_slv l1);
        DBG_CHECK (ax_last r);
        l1 \<leftarrow> l1_complete_slot (l1\<lparr>c_axi4_r_slv := t\<rparr>) (m_active_slot (c_eng l1)) (ax_resp r = AXI4_R_RESP_OKAY) 0;
        Some (l1\<lparr>c_eng := (c_eng l1)\<lparr>m_state := L1_STATE_IDLE\<rparr>\<rparr>)
      })"

section \<open>l1.c: flush\<close>

definition l1_proc_flush :: "l1 \<Rightarrow> l1 option" where
  "l1_proc_flush l1 = (case c_flush_slv l1 of None \<Rightarrow> Some l1
   | Some fl \<Rightarrow>
      if itf_fifo_empty fl then Some l1
      else do {
        busy \<leftarrow> (if \<not> ostq_empty (c_ost l1) then Some True else l1_has_bypass_ost l1);
        if busy then Some l1
        else if k_ro (c_conf l1) \<and> (case c_flush_ack_mst l1 of None \<Rightarrow> False | Some a \<Rightarrow> itf_fifo_full a) then Some l1
        else do {
          (flush, t) \<leftarrow> itf_read fl;
          let l1 = l1\<lparr>c_flush_slv := Some t\<rparr>;
          if k_ro (c_conf l1) then
            (let l1 = l1_invalidate l1 in
             case c_flush_ack_mst l1 of None \<Rightarrow> Some l1
             | Some a \<Rightarrow> do { a \<leftarrow> itf_write a 0; Some (l1\<lparr>c_flush_ack_mst := Some a\<rparr>) })
          else Some (l1\<lparr>c_eng := (c_eng l1)\<lparr>m_flush_line_idx := 0, m_beat_idx := 0, m_op_ok := True, m_state := L1_STATE_FLUSH_CHECK\<rparr>\<rparr>)
        }
      })"

definition l1_flush_finish :: "l1 \<Rightarrow> l1" where
  "l1_flush_finish l1 = l1\<lparr>c_eng := (c_eng l1)\<lparr>m_state := (if c_flush_ack_mst l1 \<noteq> None then L1_STATE_FLUSH_ACK else L1_STATE_IDLE)\<rparr>\<rparr>"

definition l1_flush_advance :: "l1 \<Rightarrow> l1" where
  "l1_flush_advance l1 = (if m_flush_line_idx (c_eng l1) + 1 \<ge> c_line_num l1 then l1_flush_finish l1
     else l1\<lparr>c_eng := (c_eng l1)\<lparr>m_flush_line_idx := m_flush_line_idx (c_eng l1) + 1, m_state := L1_STATE_FLUSH_CHECK\<rparr>\<rparr>)"

definition l1_proc_flush_check :: "l1 \<Rightarrow> l1 option" where
  "l1_proc_flush_check l1 =
     (if m_state (c_eng l1) \<noteq> L1_STATE_FLUSH_CHECK then Some l1
      else do {
        let idx = m_flush_line_idx (c_eng l1);
        v \<leftarrow> arr_get (a_valids (c_arr l1)) idx;
        d \<leftarrow> arr_get (a_dirtys (c_arr l1)) idx;
        if v \<and> d then do {
          tag \<leftarrow> arr_get (a_tags (c_arr l1)) idx;
          Some (l1\<lparr>c_perf := (c_perf l1)\<lparr>p_writeback := p_writeback (c_perf l1) + 1\<rparr>,
            c_eng := (c_eng l1)\<lparr>m_wb_line_addr := l1_line_addr l1 tag (idx div k_way_num (c_conf l1)), m_beat_idx := 0, m_op_ok := True,
              m_state := L1_STATE_FLUSH_WB_AW\<rparr>\<rparr>)
        }
        else do {
          l1 \<leftarrow> l1_set_valid l1 idx False;
          l1 \<leftarrow> l1_set_dirty l1 idx False;
          Some (l1_flush_advance l1)
        }
      })"

definition l1_proc_flush_ack :: "l1 \<Rightarrow> l1 option" where
  "l1_proc_flush_ack l1 =
     (if m_state (c_eng l1) \<noteq> L1_STATE_FLUSH_ACK then Some l1
      else do {
        a \<leftarrow> c_flush_ack_mst l1;
        if itf_fifo_full a then Some l1
        else do {
          a \<leftarrow> itf_write a 0;
          Some (l1\<lparr>c_flush_ack_mst := Some a, c_eng := (c_eng l1)\<lparr>m_state := L1_STATE_IDLE\<rparr>\<rparr>)
        }
      })"

section \<open>l1.c: bypassed transactions under way\<close>

definition l1_find_bypass_issue_slot :: "l1 \<Rightarrow> l1_ost_kind \<Rightarrow> (nat \<times> l1_ost_ctx) option option" where
  "l1_find_bypass_issue_slot l1 kind = ostq_find (\<lambda>cur. o_kind cur = kind \<and> l1_bypass_slot_can_issue cur) (c_ost l1)"

definition l1_mark_bypass_rsp :: "l1 \<Rightarrow> nat \<Rightarrow> l1_ost_ctx \<Rightarrow> l1 option" where
  "l1_mark_bypass_rsp l1 slot ctx = do {
     let ctx = (if o_bypass_rsp_idx ctx = l1_bypass_beat_num ctx
       then ctx\<lparr>o_rsp_vld := (k_latency (c_conf l1) = 0), o_rsp_delay_pend := (k_latency (c_conf l1) \<noteq> 0), o_delay := 0\<rparr> else ctx);
     ost \<leftarrow> ostq_write_slot (c_ost l1) slot ctx;
     Some (l1\<lparr>c_ost := ost\<rparr>)
   }"

definition l1_proc_bypass_rd_wait :: "l1 \<Rightarrow> l1 option" where
  "l1_proc_bypass_rd_wait l1 =
     (if itf_fifo_empty (c_axi4_r_slv l1) then Some l1
      else do {
        r \<leftarrow> itf_fifo_get_front (c_axi4_r_slv l1);
        let slot = unat (ax_id r);
        ok \<leftarrow> (if slot \<ge> q_depth (c_ost l1) then Some False else ostq_slot_valid (c_ost l1) slot);
        if \<not> ok then Some l1
        else do {
          ctx \<leftarrow> ostq_read_slot (c_ost l1) slot;
          if o_kind ctx \<noteq> L1_OST_BYPASS_RD \<or> \<not> l1_bypass_slot_wait_rsp ctx then Some l1
          else do {
            t \<leftarrow> itf_fifo_pop_front (c_axi4_r_slv l1);
            DBG_CHECK (ax_last r);
            let resp_ok = (ax_resp r = AXI4_R_RESP_OKAY);
            let first = (o_bypass_rsp_idx ctx = 0);
            let offset = l1_req_word_offset (o_req ctx);
            let ctx = ctx\<lparr>o_ok := (if first then resp_ok else o_ok ctx \<and> resp_ok),
              o_data := (if first then l1_bypass_first_read_data (ax_data r) offset
                else o_data ctx OR l1_bypass_second_read_data (ax_data r) offset),
              o_bypass_rsp_idx := o_bypass_rsp_idx ctx + 1\<rparr>;
            l1_mark_bypass_rsp (l1\<lparr>c_axi4_r_slv := t\<rparr>) slot ctx
          }
        }
      })"

definition l1_proc_bypass_wr_wait :: "l1 \<Rightarrow> l1 option" where
  "l1_proc_bypass_wr_wait l1 =
     (if itf_fifo_empty (c_axi4_b_slv l1) then Some l1
      else do {
        b \<leftarrow> itf_fifo_get_front (c_axi4_b_slv l1);
        let slot = unat (ab_id b);
        ok \<leftarrow> (if slot \<ge> q_depth (c_ost l1) then Some False else ostq_slot_valid (c_ost l1) slot);
        if \<not> ok then Some l1
        else do {
          ctx \<leftarrow> ostq_read_slot (c_ost l1) slot;
          if o_kind ctx \<noteq> L1_OST_BYPASS_WR \<or> \<not> l1_bypass_slot_wait_rsp ctx then Some l1
          else do {
            t \<leftarrow> itf_fifo_pop_front (c_axi4_b_slv l1);
            let resp_ok = (ab_resp b = AXI4_B_RESP_OKAY);
            let ctx = ctx\<lparr>o_ok := (if o_bypass_rsp_idx ctx = 0 then resp_ok else o_ok ctx \<and> resp_ok), o_data := 0,
              o_bypass_rsp_idx := o_bypass_rsp_idx ctx + 1\<rparr>;
            l1_mark_bypass_rsp (l1\<lparr>c_axi4_b_slv := t\<rparr>) slot ctx
          }
        }
      })"

definition l1_proc_bypass_rd_issue :: "l1 \<Rightarrow> l1 option" where
  "l1_proc_bypass_rd_issue l1 =
     (if itf_fifo_full (c_axi4_ar_mst l1) then Some l1
      else do {
        found \<leftarrow> l1_find_bypass_issue_slot l1 L1_OST_BYPASS_RD;
        case found of None \<Rightarrow> Some l1 | Some (slot, ctx) \<Rightarrow> l1_issue_bypass_read l1 slot ctx
      })"

definition l1_proc_bypass_wr_issue :: "l1 \<Rightarrow> l1 option" where
  "l1_proc_bypass_wr_issue l1 =
     (if itf_fifo_full (c_axi4_aw_mst l1) \<or> itf_fifo_full (c_axi4_w_mst l1) then Some l1
      else do {
        found \<leftarrow> l1_find_bypass_issue_slot l1 L1_OST_BYPASS_WR;
        case found of None \<Rightarrow> Some l1 | Some (slot, ctx) \<Rightarrow> l1_issue_bypass_write l1 slot ctx
      })"

definition l1_send_ost_rsp :: "l1 \<Rightarrow> l1 option" where
  "l1_send_ost_rsp l1 =
     (if itf_fifo_full (c_bti_rsp_mst l1) then Some l1
      else do {
        found \<leftarrow> ostq_peek_head (c_ost l1);
        case found of None \<Rightarrow> Some l1
        | Some (slot, ctx) \<Rightarrow>
            if \<not> o_rsp_vld ctx then Some l1
            else do {
              l1 \<leftarrow> l1_send_rsp_by_id l1 (o_trans_id ctx) (o_ok ctx) (o_data ctx);
              ost \<leftarrow> ostq_free_head (c_ost l1);
              Some (l1\<lparr>c_ost := ost\<rparr>)
            }
      })"

section \<open>l1.c: write-back, refill and the request that missed\<close>

definition l1_proc_wb_aw :: "l1 \<Rightarrow> l1 option" where
  "l1_proc_wb_aw l1 =
     (if m_state (c_eng l1) \<noteq> L1_STATE_WB_AW \<and> m_state (c_eng l1) \<noteq> L1_STATE_FLUSH_WB_AW \<or> itf_fifo_full (c_axi4_aw_mst l1) then Some l1
      else do {
        t \<leftarrow> itf_write (c_axi4_aw_mst l1) (l1_line_aw (m_wb_line_addr (c_eng l1)));
        Some (l1\<lparr>c_axi4_aw_mst := t, c_eng := (c_eng l1)\<lparr>m_beat_idx := 0,
          m_state := (if m_state (c_eng l1) = L1_STATE_FLUSH_WB_AW then L1_STATE_FLUSH_WB_W else L1_STATE_WB_W)\<rparr>\<rparr>)
      })"

definition l1_proc_wb_w :: "l1 \<Rightarrow> l1 option" where
  "l1_proc_wb_w l1 =
     (if m_state (c_eng l1) \<noteq> L1_STATE_WB_W \<and> m_state (c_eng l1) \<noteq> L1_STATE_FLUSH_WB_W \<or> itf_fifo_full (c_axi4_w_mst l1) then Some l1
      else do {
        let line_idx = (if m_state (c_eng l1) = L1_STATE_FLUSH_WB_W then m_flush_line_idx (c_eng l1) else m_req_line_idx (c_eng l1));
        d \<leftarrow> arr_get (a_data (c_arr l1)) (line_idx * L1_WORD_NUM + m_beat_idx (c_eng l1));
        let last = (m_beat_idx (c_eng l1) = L1_WORD_NUM - 1);
        t \<leftarrow> itf_write (c_axi4_w_mst l1) \<lparr>aw_data = d, aw_strb = 0xf, aw_last = last\<rparr>;
        let l1 = l1\<lparr>c_axi4_w_mst := t\<rparr>;
        Some (if last then l1\<lparr>c_eng := (c_eng l1)\<lparr>m_state := (if m_state (c_eng l1) = L1_STATE_FLUSH_WB_W then L1_STATE_FLUSH_WB_B
            else L1_STATE_WB_B)\<rparr>\<rparr>
          else l1\<lparr>c_eng := (c_eng l1)\<lparr>m_beat_idx := m_beat_idx (c_eng l1) + 1\<rparr>\<rparr>)
      })"

definition l1_proc_wb_b :: "l1 \<Rightarrow> l1 option" where
  "l1_proc_wb_b l1 =
     (if m_state (c_eng l1) \<noteq> L1_STATE_WB_B \<and> m_state (c_eng l1) \<noteq> L1_STATE_FLUSH_WB_B \<or> itf_fifo_empty (c_axi4_b_slv l1) then Some l1
      else do {
        (b, t) \<leftarrow> itf_read (c_axi4_b_slv l1);
        let ok = (ab_resp b = AXI4_B_RESP_OKAY);
        let l1 = l1\<lparr>c_axi4_b_slv := t, c_eng := (c_eng l1)\<lparr>m_op_ok := ok\<rparr>\<rparr>;
        if m_state (c_eng l1) = L1_STATE_FLUSH_WB_B then do {
          l1 \<leftarrow> l1_set_valid l1 (m_flush_line_idx (c_eng l1)) False;
          l1 \<leftarrow> l1_set_dirty l1 (m_flush_line_idx (c_eng l1)) False;
          Some (l1_flush_advance (l1\<lparr>c_eng := (c_eng l1)\<lparr>m_beat_idx := 0\<rparr>\<rparr>))
        }
        else do {
          l1 \<leftarrow> l1_set_dirty l1 (m_req_line_idx (c_eng l1)) False;
          Some (l1\<lparr>c_eng := (c_eng l1)\<lparr>m_beat_idx := 0, m_state := (if ok then L1_STATE_REFILL_AR else L1_STATE_SERVE_MISS)\<rparr>\<rparr>)
        }
      })"

definition l1_proc_refill_ar :: "l1 \<Rightarrow> l1 option" where
  "l1_proc_refill_ar l1 =
     (if m_state (c_eng l1) \<noteq> L1_STATE_REFILL_AR \<or> itf_fifo_full (c_axi4_ar_mst l1) then Some l1
      else do {
        t \<leftarrow> itf_write (c_axi4_ar_mst l1) \<lparr>ar_id = 0, ar_addr = m_req_line_addr (c_eng l1), ar_len = of_nat (L1_WORD_NUM - 1),
          ar_size = AXI4_AR_SIZE_B4, ar_burst = AXI4_AR_BURST_INCR, ar_lock = False, ar_cache = 0xf, ar_prot = 0, ar_qos = 0, ar_user = 0\<rparr>;
        Some (l1\<lparr>c_axi4_ar_mst := t, c_eng := (c_eng l1)\<lparr>m_beat_idx := 0, m_op_ok := True, m_state := L1_STATE_REFILL_R\<rparr>\<rparr>)
      })"

definition l1_proc_refill_r :: "l1 \<Rightarrow> l1 option" where
  "l1_proc_refill_r l1 =
     (if m_state (c_eng l1) \<noteq> L1_STATE_REFILL_R \<or> itf_fifo_empty (c_axi4_r_slv l1) then Some l1
      else do {
        (r, t) \<leftarrow> itf_read (c_axi4_r_slv l1);
        let e = c_eng l1;
        let ok = (m_op_ok e \<and> ax_resp r = AXI4_R_RESP_OKAY);
        d \<leftarrow> arr_put (a_data (c_arr l1)) (m_req_line_idx e * L1_WORD_NUM + m_beat_idx e) (ax_data r);
        let l1 = l1\<lparr>c_axi4_r_slv := t, c_eng := e\<lparr>m_op_ok := ok\<rparr>, c_arr := (c_arr l1)\<lparr>a_data := d\<rparr>\<rparr>;
        if ax_last r \<or> m_beat_idx e = L1_WORD_NUM - 1 then do {
          l1 \<leftarrow> l1_set_valid l1 (m_req_line_idx e) ok;
          l1 \<leftarrow> l1_set_dirty l1 (m_req_line_idx e) False;
          tags \<leftarrow> arr_put (a_tags (c_arr l1)) (m_req_line_idx e) (m_req_tag e);
          Some (l1\<lparr>c_arr := (c_arr l1)\<lparr>a_tags := tags\<rparr>, c_eng := (c_eng l1)\<lparr>m_state := L1_STATE_SERVE_MISS\<rparr>\<rparr>)
        }
        else Some (l1\<lparr>c_eng := (c_eng l1)\<lparr>m_beat_idx := m_beat_idx e + 1\<rparr>\<rparr>)
      })"

fun l1_miss_loop :: "nat list \<Rightarrow> nat \<Rightarrow> l1 \<Rightarrow> l1 option" where
  "l1_miss_loop [] line_offset l1 = Some l1"
| "l1_miss_loop (i # is) line_offset l1 = (let e = c_eng l1; req = m_req e; req_byte = m_req_byte_idx e + i in
     if bq_cmd req = BTI_REQ_CMD_WRITE then
       if bq_strobe req AND push_bit req_byte 1 \<noteq> 0 then do {
         l1 \<leftarrow> l1_write_byte l1 (m_req_line_idx e) (line_offset + i) (ucast (drop_bit (req_byte * 8) (bq_data req)));
         l1 \<leftarrow> l1_set_dirty l1 (m_req_line_idx e) True;
         l1_miss_loop is line_offset l1
       }
       else l1_miss_loop is line_offset l1
     else if bq_cmd req = BTI_REQ_CMD_READ then do {
       b \<leftarrow> l1_read_byte l1 (m_req_line_idx e) (line_offset + i);
       l1_miss_loop is line_offset (l1\<lparr>c_eng := e\<lparr>m_req_data := m_req_data e OR push_bit (req_byte * 8) (ucast b)\<rparr>\<rparr>)
     }
     else Some (l1\<lparr>c_eng := e\<lparr>m_op_ok := False\<rparr>\<rparr>))"

definition l1_proc_serve_miss :: "l1 \<Rightarrow> l1 option" where
  "l1_proc_serve_miss l1 =
     (if m_state (c_eng l1) \<noteq> L1_STATE_SERVE_MISS then Some l1
      else if \<not> m_op_ok (c_eng l1) then do {
        l1 \<leftarrow> l1_set_valid l1 (m_req_line_idx (c_eng l1)) False;
        l1 \<leftarrow> l1_complete_slot l1 (m_active_slot (c_eng l1)) False 0;
        Some (l1\<lparr>c_eng := (c_eng l1)\<lparr>m_state := L1_STATE_IDLE\<rparr>\<rparr>)
      }
      else do {
        let req_size = l1_req_size l1;
        let addr = bq_addr (m_req (c_eng l1)) + of_nat (m_req_byte_idx (c_eng l1));
        let line_offset = unat (addr AND 63);
        let byte_num = min (req_size - m_req_byte_idx (c_eng l1)) (L1_LINE_SIZE - line_offset);
        l1 \<leftarrow> l1_miss_loop [0..<byte_num] line_offset l1;
        let l1 = l1\<lparr>c_eng := (c_eng l1)\<lparr>m_req_byte_idx := m_req_byte_idx (c_eng l1) + byte_num\<rparr>\<rparr>;
        if m_req_byte_idx (c_eng l1) < req_size then l1_start_cached_fragment l1
        else do {
          l1 \<leftarrow> l1_complete_slot l1 (m_active_slot (c_eng l1)) (m_op_ok (c_eng l1))
            (if bq_cmd (m_req (c_eng l1)) = BTI_REQ_CMD_READ then m_req_data (c_eng l1) else 0);
          Some (l1\<lparr>c_eng := (c_eng l1)\<lparr>m_state := L1_STATE_IDLE\<rparr>\<rparr>)
        }
      })"

definition l1_clock :: "l1 \<Rightarrow> l1 option" where
  "l1_clock l1 = do {
     ost \<leftarrow> ostq_clock (c_ost l1);
     l1 \<leftarrow> l1_tick_rsp_delay (l1\<lparr>c_ost := ost\<rparr>);
     l1 \<leftarrow> (if m_state (c_eng l1) = L1_STATE_IDLE then l1_proc_flush l1 else Some l1);
     l1 \<leftarrow> l1_proc_flush_check l1;
     l1 \<leftarrow> l1_proc_flush_ack l1;
     l1 \<leftarrow> l1_proc_bypass_rd_wait l1;
     l1 \<leftarrow> l1_proc_bypass_wr_wait l1;
     l1 \<leftarrow> l1_proc_bypass_rd_issue l1;
     l1 \<leftarrow> l1_proc_bypass_wr_issue l1;
     l1 \<leftarrow> l1_proc_cmo_l2_r l1;
     l1 \<leftarrow> l1_proc_wb_b l1;
     l1 \<leftarrow> l1_proc_refill_r l1;
     l1 \<leftarrow> l1_proc_serve_miss l1;
     l1 \<leftarrow> l1_proc_cmo_l1_wb_b l1;
     l1 \<leftarrow> l1_proc_cmo_l1_wb_w l1;
     l1 \<leftarrow> l1_proc_cmo_l1_wb_aw l1;
     l1 \<leftarrow> l1_proc_cmo_l2_ar l1;
     l1 \<leftarrow> l1_send_ost_rsp l1;
     l1 \<leftarrow> l1_proc_hit_pipe l1;
     l1 \<leftarrow> l1_proc_wb_w l1;
     l1 \<leftarrow> l1_proc_wb_aw l1;
     l1 \<leftarrow> l1_proc_refill_ar l1;
     l1 \<leftarrow> l1_proc_lookup_pipe l1;
     l1 \<leftarrow> l1_fill_lookup_pipe l1;
     l1 \<leftarrow> l1_fill_req_pipe l1;
     l1_capture_req l1
   }"

end
