(* ===== verification/L1View.thy ===== *)
theory L1View
  imports L1
begin

text \<open>
  What the contents of the first-level cache mean. A byte memory is the reference: a request reads
  or writes some bytes of it. The lines of the cache together with the memory behind it represent
  one such memory: a line the cache owns holds the current bytes of its addresses, and the
  memory behind is current everywhere but in dirty lines. The lemmas show that reading a byte of a line is reading
  the represented memory, and that storing into a line changes the represented memory at exactly that byte.
\<close>

section \<open>The reference memory\<close>

type_synonym memory = "u32 \<Rightarrow> u8"

definition mem_write :: "bti_req \<Rightarrow> nat list \<Rightarrow> memory \<Rightarrow> memory" where
  "mem_write req = fold (\<lambda>i m. if bq_strobe req AND push_bit i 1 \<noteq> 0
     then m(bq_addr req + of_nat i := ucast (drop_bit (i * 8) (bq_data req))) else m)"

definition mem_read :: "memory \<Rightarrow> bti_req \<Rightarrow> nat list \<Rightarrow> u32 \<Rightarrow> u32" where
  "mem_read m req = fold (\<lambda>i d. d OR push_bit (i * 8) (ucast (m (bq_addr req + of_nat i))))"

definition req_mem :: "bti_req \<Rightarrow> memory \<Rightarrow> memory" where
  "req_mem req m = (if bq_cmd req = BTI_REQ_CMD_WRITE then mem_write req [0..<l1_req_size_from req] m else m)"

definition req_rsp :: "memory \<Rightarrow> bti_req \<Rightarrow> bti_rsp" where
  "req_rsp m req = \<lparr>bp_trans_id = bq_trans_id req,
     bp_data = (if bq_cmd req = BTI_REQ_CMD_READ then mem_read m req [0..<l1_req_size_from req] 0 else 0), bp_ok = True\<rparr>"

text \<open>The requests one after the other: the memory they leave and their answers.\<close>

fun spec_mem :: "memory \<Rightarrow> bti_req list \<Rightarrow> memory" where
  "spec_mem m [] = m"
| "spec_mem m (r # rs) = spec_mem (req_mem r m) rs"

fun spec_rsps :: "memory \<Rightarrow> bti_req list \<Rightarrow> bti_rsp list" where
  "spec_rsps m [] = []"
| "spec_rsps m (r # rs) = req_rsp m r # spec_rsps (req_mem r m) rs"

lemma spec_mem_snoc: "spec_mem m (rs @ [r]) = req_mem r (spec_mem m rs)"
  by (induction rs arbitrary: m) simp_all

lemma spec_rsps_snoc: "spec_rsps m (rs @ [r]) = spec_rsps m rs @ [req_rsp (spec_mem m rs) r]"
  by (induction rs arbitrary: m) simp_all

lemma spec_rsps_append: "spec_rsps m (rs @ rs') = spec_rsps m rs @ spec_rsps (spec_mem m rs) rs'"
  by (induction rs arbitrary: m) simp_all

section \<open>Addresses and lines\<close>

definition lnum :: "u32 \<Rightarrow> nat" where
  "lnum a = unat a div 64"

lemma unat_less_pow2: "unat (a :: u32) < 2 ^ 32"
  by (rule order_less_le_trans [OF unsigned_less]) simp

lemma unat_and_63: "unat (a AND 63 :: u32) = unat a mod 64"
proof -
  have "a AND 63 = take_bit 6 a" by (simp add: take_bit_eq_mask mask_eq_exp_minus_1)
  then have "unat (a AND 63) = take_bit 6 (unat a)" by (simp only: unsigned_take_bit_eq)
  then show ?thesis by (simp add: take_bit_eq_mod)
qed

lemma unat_line_addr: "unat (l1_req_line_addr a) = lnum a * 64"
proof -
  have "a AND NOT 63 = push_bit 6 (drop_bit 6 a)"
  proof (rule bit_word_eqI)
    fix n assume n: "n < LENGTH(32)"
    have m: "(63 :: u32) = mask 6" by (simp add: mask_eq_exp_minus_1)
    show "bit (a AND NOT 63) n = bit (push_bit 6 (drop_bit 6 a)) n" unfolding m using n by (cases "6 \<le> n") (auto simp: bit_simps)
  qed
  then have "unat (a AND NOT 63) = take_bit 32 (push_bit 6 (drop_bit 6 (unat a)))"
    by (simp only: unsigned_push_bit_eq unsigned_drop_bit_eq) (simp add: take_bit_nat_eq_self [OF unat_less_pow2])
  moreover have "unat a div 64 * 64 < 2 ^ 32" using unat_less_pow2 [of a] div_times_less_eq_dividend [of "unat a" 64] by linarith
  ultimately show ?thesis by (simp add: l1_req_line_addr_def lnum_def drop_bit_eq_div push_bit_eq_mult take_bit_eq_mod)
qed

lemma l1_req_set_eq: "l1_req_set l1 a = lnum a mod c_set_num l1"
  by (simp add: l1_req_set_def unat_line_addr)

lemma l1_req_tag_eq: "l1_req_tag l1 a = lnum a div c_set_num l1"
  by (simp add: l1_req_tag_def unat_line_addr)

lemma lnum_bound: "lnum a < 2 ^ 26"
  using unat_less_pow2 [of a] by (simp add: lnum_def less_mult_imp_div_less)

lemma unat_in_line:
  assumes "unat (a :: u32) mod 64 + i < 64"
  shows "unat (a + of_nat i) = unat a + i"
proof -
  have "unat a + i = lnum a * 64 + (unat a mod 64 + i)" by (simp add: lnum_def)
  also have "\<dots> < 2 ^ 26 * 64" using lnum_bound [of a] assms by simp
  finally have "unat a + i < 2 ^ 32" by simp
  then show ?thesis using assms by (simp add: unat_word_ariths unat_of_nat)
qed

lemma in_line:
  assumes "unat (a :: u32) mod 64 + i < 64"
  shows "lnum (a + of_nat i) = lnum a" "unat (a + of_nat i) mod 64 = unat a mod 64 + i"
proof -
  have e: "unat (a + of_nat i) = lnum a * 64 + (unat a mod 64 + i)" using unat_in_line [OF assms] by (simp add: lnum_def)
  show "lnum (a + of_nat i) = lnum a" unfolding lnum_def [of "a + of_nat i"] e using assms by simp
  show "unat (a + of_nat i) mod 64 = unat a mod 64 + i" unfolding e using assms by simp
qed

text \<open>The byte of a word, and the word of four bytes.\<close>

definition word_byte :: "u32 \<Rightarrow> nat \<Rightarrow> u8" where
  "word_byte w j = ucast (drop_bit (j * 8) w)"

definition mem_word :: "memory \<Rightarrow> u32 \<Rightarrow> u32" where
  "mem_word m a = ucast (m a) OR push_bit 8 (ucast (m (a + 1))) OR push_bit 16 (ucast (m (a + 2))) OR push_bit 24 (ucast (m (a + 3)))"

lemma less4: "(j :: nat) < 4 \<Longrightarrow> j = 0 \<or> j = 1 \<or> j = 2 \<or> j = 3"
  by auto

lemma word_no_bit8: "\<not> bit (b :: u8) (8 + n)" "\<not> bit b (16 + n)" "\<not> bit b (24 + n)"
  by (auto dest: bit_imp_le_length)

lemma word_byte_mem_word: "j < 4 \<Longrightarrow> word_byte (mem_word m a) j = m (a + of_nat j)"
  unfolding word_byte_def mem_word_def
  by (drule less4, elim disjE) (auto intro!: bit_word_eqI simp: bit_simps word_no_bit8)

lemma word_byte_bit: "s < 4 \<Longrightarrow> bit (word_byte w s) n \<longleftrightarrow> n < 8 \<and> bit w (s * 8 + n)"
  by (auto simp: word_byte_def bit_simps)

lemma word_byte_store:
  assumes "s < 4" "t < 4"
  shows "word_byte ((w AND NOT (push_bit (t * 8) 0xff)) OR push_bit (t * 8) (ucast b)) s = (if s = t then b else word_byte w s)"
proof (rule bit_word_eqI)
  fix n assume n: "n < LENGTH(8)"
  have ff: "(0xff :: u32) = mask 8" by (simp add: mask_eq_exp_minus_1)
  have lo: "s * 8 + n < t * 8" if "s < t" using that n by simp
  have hi: "\<not> bit b (s * 8 + n - t * 8)" if "t < s" using that by (intro notI) (drule bit_imp_le_length, simp)
  consider "s = t" | "s < t" | "t < s" by linarith
  then show "bit (word_byte ((w AND NOT (push_bit (t * 8) 0xff)) OR push_bit (t * 8) (ucast b)) s) n
    = bit (if s = t then b else word_byte w s) n"
  proof cases
    case 1 then show ?thesis using assms n unfolding ff by (simp add: word_byte_bit bit_simps)
  next
    case 2 then show ?thesis using assms n lo unfolding ff by (simp add: word_byte_bit bit_simps)
  next
    case 3
    then have "\<not> s * 8 + n - t * 8 < 8" by linarith
    with 3 show ?thesis using assms n hi unfolding ff by (simp add: word_byte_bit bit_simps)
  qed
qed

lemma word_byte_inject:
  assumes "\<And>j. j < 4 \<Longrightarrow> word_byte v j = word_byte w j"
  shows "v = w"
proof (rule bit_word_eqI)
  fix n assume n: "n < LENGTH(32)"
  have "bit (word_byte v (n div 8)) (n mod 8) = bit (word_byte w (n div 8)) (n mod 8)" using assms [of "n div 8"] n by simp
  then show "bit v n = bit w n" using n by (simp add: word_byte_def bit_simps)
qed

section \<open>Lines\<close>

text \<open>
  With \<open>w\<close> ways and \<open>s\<close> sets: the line number a line of the cache stands for, its bytes,
  whether it is being refilled, and whether the cache owns it.
\<close>

definition ln_of :: "nat \<Rightarrow> nat \<Rightarrow> l1_arrays \<Rightarrow> nat \<Rightarrow> nat" where
  "ln_of w s a i = a_tags a ! i * s + i div w"

definition byte_of :: "l1_arrays \<Rightarrow> nat \<Rightarrow> nat \<Rightarrow> u8" where
  "byte_of a i off = word_byte (a_data a ! (i * 16 + off div 4)) (off mod 4)"

definition refilling :: "l1_engine \<Rightarrow> nat \<Rightarrow> bool" where
  "refilling e i \<longleftrightarrow> (m_state e = L1_STATE_REFILL_AR \<or> m_state e = L1_STATE_REFILL_R) \<and> m_req_line_idx e = i"

definition owned :: "nat \<Rightarrow> nat \<Rightarrow> l1_arrays \<Rightarrow> l1_engine \<Rightarrow> nat \<Rightarrow> bool" where
  "owned w s a e i \<longleftrightarrow> i < s * w \<and> a_valids a ! i \<and> \<not> refilling e i"

definition arr_wf :: "nat \<Rightarrow> nat \<Rightarrow> l1_arrays \<Rightarrow> bool" where
  "arr_wf w s a \<longleftrightarrow> 0 < w \<and> 0 < s \<and> length (a_tags a) = s * w \<and> length (a_valids a) = s * w \<and> length (a_dirtys a) = s * w
     \<and> length (a_data a) = s * w * 16 \<and> length (a_replace_ways a) = s \<and> (\<forall>i < s. a_replace_ways a ! i < w)"

text \<open>The memory \<open>V\<close> that the cache and the memory \<open>mem\<close> behind it represent.\<close>

definition arr_inv :: "nat \<Rightarrow> nat \<Rightarrow> l1_arrays \<Rightarrow> l1_engine \<Rightarrow> memory \<Rightarrow> memory \<Rightarrow> bool" where
  "arr_inv w s a e mem V \<longleftrightarrow> arr_wf w s a
     \<and> (\<forall>i. owned w s a e i \<longrightarrow> ln_of w s a i < 2 ^ 26)
     \<and> (\<forall>i j. owned w s a e i \<longrightarrow> owned w s a e j \<longrightarrow> ln_of w s a i = ln_of w s a j \<longrightarrow> i = j)
     \<and> (\<forall>i x. owned w s a e i \<longrightarrow> ln_of w s a i = lnum x \<longrightarrow> byte_of a i (unat x mod 64) = V x)
     \<and> (\<forall>x. (\<forall>i. owned w s a e i \<longrightarrow> a_dirtys a ! i \<longrightarrow> ln_of w s a i \<noteq> lnum x) \<longrightarrow> mem x = V x)"

lemma arr_invD:
  assumes "arr_inv w s a e mem V"
  shows "arr_wf w s a" "owned w s a e i \<Longrightarrow> ln_of w s a i < 2 ^ 26"
    "owned w s a e i \<Longrightarrow> owned w s a e j \<Longrightarrow> ln_of w s a i = ln_of w s a j \<Longrightarrow> i = j"
    "owned w s a e i \<Longrightarrow> ln_of w s a i = lnum x \<Longrightarrow> byte_of a i (unat x mod 64) = V x"
    "(\<And>i. owned w s a e i \<Longrightarrow> a_dirtys a ! i \<Longrightarrow> ln_of w s a i \<noteq> lnum x) \<Longrightarrow> mem x = V x"
  using assms unfolding arr_inv_def by blast+

lemma arr_wfD:
  assumes "arr_wf w s a"
  shows "0 < w" "0 < s" "length (a_tags a) = s * w" "length (a_valids a) = s * w" "length (a_dirtys a) = s * w"
    "length (a_data a) = s * w * 16" "length (a_replace_ways a) = s" "i < s \<Longrightarrow> a_replace_ways a ! i < w"
  using assms by (auto simp: arr_wf_def)

lemma data_idx: "i < n \<Longrightarrow> p < 64 \<Longrightarrow> i * 16 + p div 4 < n * (16 :: nat)"
proof -
  assume "i < n" "p < 64"
  then have "i * 16 + p div 4 < Suc i * 16" by simp
  also have "\<dots> \<le> n * 16" using \<open>i < n\<close> by (intro mult_le_mono1) simp
  finally show ?thesis .
qed

lemma idx16_inj:
  assumes "j * 16 + q = i * 16 + r" "q < 16" "r < (16 :: nat)"
  shows "j = i" "q = r"
proof -
  have "(j * 16 + q) div 16 = j" "(i * 16 + r) div 16 = i" using assms(2,3) by simp_all
  with assms(1) show "j = i" by simp
  with assms(1) show "q = r" by simp
qed

lemma ln_of_eq_iff:
  assumes "0 < w" "i < s * w"
  shows "ln_of w s a i = n \<longleftrightarrow> a_tags a ! i = n div s \<and> i div w = n mod s"
proof -
  have "i div w < s" using assms by (simp add: less_mult_imp_div_less)
  then show ?thesis by (auto simp: ln_of_def)
qed

text \<open>A byte stored into an owned line.\<close>

definition arr_store :: "l1_arrays \<Rightarrow> nat \<Rightarrow> nat \<Rightarrow> u8 \<Rightarrow> l1_arrays" where
  "arr_store a i off b = a\<lparr>a_data := (a_data a)[i * 16 + off div 4 :=
       (a_data a ! (i * 16 + off div 4) AND NOT (push_bit ((off mod 4) * 8) 0xff)) OR push_bit ((off mod 4) * 8) (ucast b)],
     a_dirtys := (a_dirtys a)[i := True]\<rparr>"

lemma byte_of_store:
  assumes "arr_wf w s a" "i < s * w" "j < s * w" "off < 64" "p < 64"
  shows "byte_of (arr_store a i off b) j p = (if j = i \<and> p = off then b else byte_of a j p)"
proof (cases "j * 16 + p div 4 = i * 16 + off div 4")
  case True
  then have "j = i" "p div 4 = off div 4" by (rule idx16_inj; use assms(4,5) in simp)+
  moreover from this have "p = off \<longleftrightarrow> p mod 4 = off mod 4" by (metis div_mult_mod_eq)
  ultimately show ?thesis using data_idx [OF assms(2,4)] assms(1)
    by (simp add: byte_of_def arr_store_def arr_wf_def word_byte_store)
next
  case False
  then show ?thesis by (auto simp: byte_of_def arr_store_def)
qed

lemma arr_store_frame [simp]:
  "a_tags (arr_store a i off b) = a_tags a" "a_valids (arr_store a i off b) = a_valids a"
  "a_replace_ways (arr_store a i off b) = a_replace_ways a" "a_dirtys (arr_store a i off b) = (a_dirtys a)[i := True]"
  "ln_of w s (arr_store a i off b) = ln_of w s a" "owned w s (arr_store a i off b) = owned w s a"
  by (simp_all add: arr_store_def ln_of_def owned_def fun_eq_iff)

lemma arr_wf_store [simp]: "arr_wf w s a \<Longrightarrow> arr_wf w s (arr_store a i off b)"
  by (simp add: arr_wf_def arr_store_def)

lemma arr_inv_store:
  assumes inv: "arr_inv w s a e mem V" and o: "owned w s a e i" and x: "ln_of w s a i = lnum x"
  shows "arr_inv w s (arr_store a i (unat x mod 64) b) e mem (V(x := b))"
proof -
  note d = arr_invD [OF inv]
  have i: "i < s * w" using o by (simp add: owned_def)
  have B: "byte_of (arr_store a i (unat x mod 64) b) j (unat y mod 64) = (V(x := b)) y"
    if "owned w s a e j" "ln_of w s a j = lnum y" for j y
  proof -
    have j: "j < s * w" using that(1) by (simp add: owned_def)
    have "j = i \<and> unat y mod 64 = unat x mod 64 \<longleftrightarrow> y = x"
    proof
      assume "j = i \<and> unat y mod 64 = unat x mod 64"
      with that(2) x have "unat y = unat x" unfolding lnum_def by (metis div_mult_mod_eq)
      then show "y = x" by (rule unsigned_word_eqI)
    next
      assume "y = x"
      with d(3) [OF that(1) o] that(2) x show "j = i \<and> unat y mod 64 = unat x mod 64" by simp
    qed
    with byte_of_store [OF d(1) i j, of "unat x mod 64" "unat y mod 64" b] d(4) [OF that] show ?thesis by simp
  qed
  have M: "mem y = (V(x := b)) y"
    if H: "\<And>j. owned w s a e j \<Longrightarrow> (a_dirtys a)[i := True] ! j \<Longrightarrow> ln_of w s a j \<noteq> lnum y" for y
  proof -
    have "(a_dirtys a)[i := True] ! i" using i arr_wfD(5) [OF d(1)] by simp
    with H [OF o] x have "y \<noteq> x" by auto
    moreover have "mem y = V y"
    proof (rule d(5))
      fix j assume j: "owned w s a e j" "a_dirtys a ! j"
      then have "(a_dirtys a)[i := True] ! j" by (cases "j = i") (use i arr_wfD(5) [OF d(1)] in auto)
      with H [OF j(1)] show "ln_of w s a j \<noteq> lnum y" by simp
    qed
    ultimately show ?thesis by simp
  qed
  show ?thesis unfolding arr_inv_def arr_store_frame
    using d(1-3) B M by (intro conjI) (simp, blast, blast, blast, blast)
qed

section \<open>Requests on a line\<close>

text \<open>A request that stays within a line.\<close>

definition one_line :: "bti_req \<Rightarrow> bool" where
  "one_line req \<longleftrightarrow> unat (bq_addr req) mod 64 + l1_req_size_from req \<le> 64"

lemma l1_write_byte_eq:
  assumes "arr_wf (k_way_num (c_conf l1)) (c_set_num l1) (c_arr l1)" "i < c_set_num l1 * k_way_num (c_conf l1)" "off < 64"
  shows "(l1_write_byte l1 i off b \<bind> (\<lambda>l1. l1_set_dirty l1 i True \<bind> f)) = f (l1\<lparr>c_arr := arr_store (c_arr l1) i off b\<rparr>)"
  using data_idx [OF assms(2,3)] arr_wfD(5,6) [OF assms(1)] assms(2)
  by (simp add: l1_write_byte_def l1_set_dirty_def arr_store_def Let_def)

lemma l1_read_byte_eq:
  assumes "arr_wf (k_way_num (c_conf l1)) (c_set_num l1) (c_arr l1)" "i < c_set_num l1 * k_way_num (c_conf l1)" "off < 64"
  shows "l1_read_byte l1 i off = Some (byte_of (c_arr l1) i off)"
  using data_idx [OF assms(2,3)] arr_wfD(6) [OF assms(1)]
  by (simp add: l1_read_byte_def byte_of_def word_byte_def)

lemma l1_hit_loop_ok:
  assumes "arr_inv (k_way_num (c_conf l1)) (c_set_num l1) (c_arr l1) e mem V" "owned (k_way_num (c_conf l1)) (c_set_num l1) (c_arr l1) e i"
    "ln_of (k_way_num (c_conf l1)) (c_set_num l1) (c_arr l1) i = lnum (bq_addr req)" "\<forall>k\<in>set ks. unat (bq_addr req) mod 64 + k < 64"
  shows "\<exists>a. l1_hit_loop req i (unat (bq_addr req) mod 64) ks d l1
      = Some (if bq_cmd req = BTI_REQ_CMD_WRITE then d else mem_read V req ks d, l1\<lparr>c_arr := a\<rparr>)
    \<and> arr_inv (k_way_num (c_conf l1)) (c_set_num l1) a e mem (if bq_cmd req = BTI_REQ_CMD_WRITE then mem_write req ks V else V)
    \<and> a_tags a = a_tags (c_arr l1) \<and> a_valids a = a_valids (c_arr l1)
    \<and> (\<forall>j. j \<noteq> i \<longrightarrow> a_dirtys a ! j = a_dirtys (c_arr l1) ! j \<and> (\<forall>k<16. a_data a ! (j * 16 + k) = a_data (c_arr l1) ! (j * 16 + k)))"
  using assms
proof (induction ks arbitrary: l1 V d)
  case Nil
  then show ?case by (intro exI [of _ "c_arr l1"]) (simp add: mem_read_def mem_write_def)
next
  case (Cons k ks)
  let ?w = "k_way_num (c_conf l1)" and ?s = "c_set_num l1" and ?a = "bq_addr req" and ?o = "unat (bq_addr req) mod 64"
  note wf = arr_invD(1) [OF Cons.prems(1)]
  have i: "i < ?s * ?w" using Cons.prems(2) by (simp add: owned_def)
  have k: "?o + k < 64" using Cons.prems(4) by simp
  note il = in_line [OF k]
  show ?case
  proof (cases "bq_cmd req = BTI_REQ_CMD_WRITE \<and> bq_strobe req AND push_bit k 1 \<noteq> 0")
    case True
    let ?b = "ucast (drop_bit (k * 8) (bq_data req)) :: u8"
    let ?l = "l1\<lparr>c_arr := arr_store (c_arr l1) i (?o + k) ?b\<rparr>"
    define V' where "V' = V(?a + of_nat k := ?b)"
    have st: "arr_inv ?w ?s (arr_store (c_arr l1) i (?o + k) ?b) e mem V'"
      unfolding V'_def using arr_inv_store [OF Cons.prems(1,2), of "?a + of_nat k" ?b] Cons.prems(3) il by simp
    have "l1_hit_loop req i ?o (k # ks) d l1 = l1_hit_loop req i ?o ks d ?l"
      using True l1_write_byte_eq [OF wf i k] by simp
    moreover have wr: "mem_write req (k # ks) V = mem_write req ks V'" using True by (simp add: mem_write_def V'_def)
    have dat: "a_data (c_arr ?l) ! (j * 16 + q) = a_data (c_arr l1) ! (j * 16 + q)" if "j \<noteq> i" "q < 16" for j q
    proof -
      have "j * 16 + q \<noteq> i * 16 + (?o + k) div 4" using idx16_inj(1) [of j q i "(?o + k) div 4"] that k by fastforce
      then show ?thesis by (simp add: arr_store_def)
    qed
    have "owned ?w ?s (c_arr ?l) e i" "ln_of ?w ?s (c_arr ?l) i = lnum ?a" "\<forall>k\<in>set ks. ?o + k < 64"
      using Cons.prems by simp_all
    from Cons.IH [of ?l V' d, simplified, OF st this[simplified]] True
    obtain a where a: "l1_hit_loop req i ?o ks d ?l = Some (d, l1\<lparr>c_arr := a\<rparr>)"
      "arr_inv ?w ?s a e mem (mem_write req ks V')" "a_tags a = a_tags (c_arr l1)" "a_valids a = a_valids (c_arr l1)"
      "\<forall>j. j \<noteq> i \<longrightarrow> a_dirtys a ! j = a_dirtys (c_arr l1) ! j \<and> (\<forall>k<16. a_data a ! (j * 16 + k) = a_data (c_arr ?l) ! (j * 16 + k))"
      by auto
    ultimately show ?thesis using True dat by (intro exI [of _ a]) (simp add: wr del: l1_hit_loop.simps)
  next
    case False
    show ?thesis
    proof (cases "bq_cmd req = BTI_REQ_CMD_WRITE")
      case True
      with False have "l1_hit_loop req i ?o (k # ks) d l1 = l1_hit_loop req i ?o ks d l1" by simp
      moreover have "mem_write req (k # ks) V = mem_write req ks V" using True False by (simp add: mem_write_def)
      ultimately show ?thesis using Cons.IH [of l1 V d] Cons.prems True by (simp del: l1_hit_loop.simps)
    next
      case rd: False
      let ?d = "d OR push_bit (k * 8) (ucast (V (?a + of_nat k)))"
      have "byte_of (c_arr l1) i (?o + k) = V (?a + of_nat k)"
        using arr_invD(4) [OF Cons.prems(1,2), of "?a + of_nat k"] Cons.prems(3) il by simp
      then have "l1_hit_loop req i ?o (k # ks) d l1 = l1_hit_loop req i ?o ks ?d l1"
        using rd l1_read_byte_eq [OF wf i k] by simp
      moreover have "mem_read V req (k # ks) d = mem_read V req ks ?d" by (simp add: mem_read_def)
      ultimately show ?thesis using Cons.IH [of l1 V ?d] Cons.prems rd by (simp del: l1_hit_loop.simps)
    qed
  qed
qed

text \<open>The loop that serves a miss does what the loop that serves a hit does.\<close>

lemma l1_hit_loop_eng:
  "l1_hit_loop req i off ks d (l1\<lparr>c_eng := e\<rparr>) = map_option (\<lambda>(d, l1). (d, l1\<lparr>c_eng := e\<rparr>)) (l1_hit_loop req i off ks d l1)"
proof (induction ks arbitrary: d l1)
  case (Cons k ks)
  have W: "l1_write_byte (l1\<lparr>c_eng := e\<rparr>) i (off + k) b = map_option (\<lambda>l1. l1\<lparr>c_eng := e\<rparr>) (l1_write_byte l1 i (off + k) b)" for b
    by (auto simp: l1_write_byte_def Let_def split: Option.bind_splits)
  have D: "l1_set_dirty (l1\<lparr>c_eng := e\<rparr>) i True = map_option (\<lambda>l1. l1\<lparr>c_eng := e\<rparr>) (l1_set_dirty l1 i True)" for l1
    by (auto simp: l1_set_dirty_def split: Option.bind_splits)
  have R: "l1_read_byte (l1\<lparr>c_eng := e\<rparr>) i (off + k) = l1_read_byte l1 i (off + k)" by (simp add: l1_read_byte_def)
  show ?case
    by (auto simp: W D R Cons.IH split: Option.bind_splits)
qed simp

lemma l1_miss_loop_eq:
  assumes "bq_cmd (m_req (c_eng l1)) = BTI_REQ_CMD_READ \<or> bq_cmd (m_req (c_eng l1)) = BTI_REQ_CMD_WRITE" "m_req_byte_idx (c_eng l1) = 0"
  shows "l1_miss_loop ks off l1 = map_option (\<lambda>(d, l1'). l1'\<lparr>c_eng := (c_eng l1)\<lparr>m_req_data := d\<rparr>\<rparr>)
    (l1_hit_loop (m_req (c_eng l1)) (m_req_line_idx (c_eng l1)) off ks (m_req_data (c_eng l1)) l1)"
  using assms
proof (induction ks arbitrary: l1)
  case Nil
  then show ?case by simp
next
  case (Cons k ks)
  have W: "c_eng l' = c_eng l" if "l1_write_byte l i j b = Some l'" for l l' i j b
    using that by (auto simp: l1_write_byte_def Let_def split: Option.bind_splits)
  have D: "c_eng l' = c_eng l" if "l1_set_dirty l i True = Some l'" for l l' i
    using that by (auto simp: l1_set_dirty_def split: Option.bind_splits)
  show ?case
  proof (cases "bq_cmd (m_req (c_eng l1)) = BTI_REQ_CMD_WRITE")
    case True
    show ?thesis using Cons.prems True
      by (auto simp: Let_def Cons.IH dest!: W D split: Option.bind_splits)
  next
    case False
    with Cons.prems show ?thesis
      by (auto simp: Let_def Cons.IH l1_hit_loop_eng option.map_comp comp_def split_beta split: Option.bind_splits)
  qed
qed

section \<open>Looking for a line\<close>

lemma line_idx_in: "st < s \<Longrightarrow> i < w \<Longrightarrow> st * w + i < s * (w :: nat)"
proof -
  assume "st < s" "i < w"
  then have "st * w + i < Suc st * w" by simp
  also have "\<dots> \<le> s * w" using \<open>st < s\<close> by (intro mult_le_mono1) simp
  finally show ?thesis .
qed

lemma l1_lookup_loop_ok:
  assumes "arr_wf (k_way_num (c_conf l1)) (c_set_num l1) (c_arr l1)" "st < c_set_num l1" "\<forall>i\<in>set ks. i < k_way_num (c_conf l1)"
  shows "\<exists>r. l1_lookup_loop l1 st tag ks = Some r
    \<and> (r = None \<longrightarrow> (\<forall>i\<in>set ks. \<not> (a_valids (c_arr l1) ! (st * k_way_num (c_conf l1) + i) \<and> a_tags (c_arr l1) ! (st * k_way_num (c_conf l1) + i) = tag)))
    \<and> (\<forall>i idx. r = Some (i, idx) \<longrightarrow> i \<in> set ks \<and> idx = st * k_way_num (c_conf l1) + i \<and> a_valids (c_arr l1) ! idx \<and> a_tags (c_arr l1) ! idx = tag)"
  using assms(3)
proof (induction ks)
  case (Cons k ks)
  then have "st * k_way_num (c_conf l1) + k < c_set_num l1 * k_way_num (c_conf l1)" using assms(2) by (simp add: line_idx_in)
  with Cons arr_wfD(3,4) [OF assms(1)] show ?case by (simp add: Let_def l1_line_idx_def) blast
qed simp

text \<open>No line of the set has the tag exactly when no valid line has the line number.\<close>

lemma lookup_none:
  assumes wf: "arr_wf w s a" and i: "i < s * w" "a_valids a ! i"
    and none: "\<forall>k<w. \<not> (a_valids a ! ((lnum x mod s) * w + k) \<and> a_tags a ! ((lnum x mod s) * w + k) = lnum x div s)"
  shows "ln_of w s a i \<noteq> lnum x"
proof
  assume "ln_of w s a i = lnum x"
  with ln_of_eq_iff [OF arr_wfD(1) [OF wf] i(1)] have t: "a_tags a ! i = lnum x div s" "i div w = lnum x mod s" by auto
  have "i = (lnum x mod s) * w + i mod w" using t(2) by (metis div_mult_mod_eq)
  with none i(2) t(1) arr_wfD(1) [OF wf] show False by (metis mod_less_divisor)
qed

lemma lookup_some:
  assumes wf: "arr_wf w s a" and k: "k < w" and t: "a_tags a ! ((lnum x mod s) * w + k) = lnum x div s"
  shows "(lnum x mod s) * w + k < s * w" "ln_of w s a ((lnum x mod s) * w + k) = lnum x"
proof -
  have st: "lnum x mod s < s" using arr_wfD(2) [OF wf] by simp
  show i: "(lnum x mod s) * w + k < s * w" by (rule line_idx_in [OF st k])
  show "ln_of w s a ((lnum x mod s) * w + k) = lnum x" using ln_of_eq_iff [OF arr_wfD(1) [OF wf] i] t k by simp
qed

lemma l1_lookup_addr_ok:
  assumes wf: "arr_wf (k_way_num (c_conf l1)) (c_set_num l1) (c_arr l1)"
  obtains (none) "l1_lookup_addr l1 x = Some None" "\<And>i. i < c_set_num l1 * k_way_num (c_conf l1) \<Longrightarrow> a_valids (c_arr l1) ! i
      \<Longrightarrow> ln_of (k_way_num (c_conf l1)) (c_set_num l1) (c_arr l1) i \<noteq> lnum x"
    | (found) i idx where "l1_lookup_addr l1 x = Some (Some (i, idx))" "idx < c_set_num l1 * k_way_num (c_conf l1)" "a_valids (c_arr l1) ! idx"
      "ln_of (k_way_num (c_conf l1)) (c_set_num l1) (c_arr l1) idx = lnum x"
proof -
  let ?w = "k_way_num (c_conf l1)" and ?s = "c_set_num l1"
  have "lnum x mod ?s < ?s" using arr_wfD(2) [OF wf] by simp
  from l1_lookup_loop_ok [OF wf this, of "[0..<?w]" "lnum x div ?s"] obtain r where
    r: "l1_lookup_addr l1 x = Some r"
    "r = None \<longrightarrow> (\<forall>i<?w. \<not> (a_valids (c_arr l1) ! ((lnum x mod ?s) * ?w + i) \<and> a_tags (c_arr l1) ! ((lnum x mod ?s) * ?w + i) = lnum x div ?s))"
    "\<forall>i idx. r = Some (i, idx) \<longrightarrow> i < ?w \<and> idx = (lnum x mod ?s) * ?w + i \<and> a_valids (c_arr l1) ! idx \<and> a_tags (c_arr l1) ! idx = lnum x div ?s"
    by (auto simp: l1_lookup_addr_def l1_req_set_eq l1_req_tag_eq)
  show thesis
  proof (cases r)
    case None
    show thesis
      by (rule none) (use r None lookup_none [OF wf] in auto)
  next
    case (Some p)
    obtain i idx where p: "p = (i, idx)" by (cases p)
    with r(3) Some have *: "i < ?w" "idx = (lnum x mod ?s) * ?w + i" "a_valids (c_arr l1) ! idx" "a_tags (c_arr l1) ! idx = lnum x div ?s" by auto
    show thesis
      by (rule found [of i idx]) (use r(1) Some p * lookup_some [OF wf *(1), of x] in auto)
  qed
qed

section \<open>Starting on a request that missed\<close>

lemma l1_free_way_ok:
  assumes "arr_wf (k_way_num (c_conf l1)) (c_set_num l1) (c_arr l1)" "m_req_set (c_eng l1) < c_set_num l1" "\<forall>i\<in>set ks. i < k_way_num (c_conf l1)"
  shows "\<exists>r. l1_free_way l1 ks = Some r \<and> (\<forall>i idx. r = Some (i, idx) \<longrightarrow> i < k_way_num (c_conf l1) \<and> idx = m_req_set (c_eng l1) * k_way_num (c_conf l1) + i)"
  using assms(3)
proof (induction ks)
  case (Cons k ks)
  then have "m_req_set (c_eng l1) * k_way_num (c_conf l1) + k < c_set_num l1 * k_way_num (c_conf l1)" using assms(2) by (simp add: line_idx_in)
  with Cons arr_wfD(3,4) [OF assms(1)] show ?case by (simp add: Let_def l1_line_idx_def)
qed simp

lemma arr_wf_replace:
  assumes "arr_wf w s a" "v < w"
  shows "arr_wf w s (a\<lparr>a_replace_ways := (a_replace_ways a)[st := v]\<rparr>)"
proof -
  have "(a_replace_ways a)[st := v] ! i < w" if "i < s" for i
    using assms that by (cases "i = st") (auto simp: arr_wf_def)
  with assms(1) show ?thesis by (simp add: arr_wf_def)
qed

lemma l1_select_victim_ok:
  assumes wf: "arr_wf (k_way_num (c_conf l1)) (c_set_num l1) (c_arr l1)" and st: "m_req_set (c_eng l1) < c_set_num l1"
  obtains way rw where "l1_select_victim l1 = Some (l1\<lparr>c_eng := (c_eng l1)\<lparr>m_req_way := way,
      m_req_line_idx := m_req_set (c_eng l1) * k_way_num (c_conf l1) + way\<rparr>, c_arr := (c_arr l1)\<lparr>a_replace_ways := rw\<rparr>\<rparr>)"
    "way < k_way_num (c_conf l1)" "arr_wf (k_way_num (c_conf l1)) (c_set_num l1) ((c_arr l1)\<lparr>a_replace_ways := rw\<rparr>)"
proof -
  let ?w = "k_way_num (c_conf l1)" and ?s = "c_set_num l1" and ?st = "m_req_set (c_eng l1)"
  from l1_free_way_ok [OF wf st, of "[0..<?w]"] obtain r where
    r: "l1_free_way l1 [0..<?w] = Some r" "\<forall>i idx. r = Some (i, idx) \<longrightarrow> i < ?w \<and> idx = ?st * ?w + i" by auto
  show thesis
  proof (cases r)
    case None
    let ?way = "a_replace_ways (c_arr l1) ! ?st"
    let ?rw = "(a_replace_ways (c_arr l1))[?st := Suc ?way mod ?w]"
    note d = arr_wfD [OF wf]
    show thesis
    proof (rule that [where way = ?way and rw = ?rw])
      show "l1_select_victim l1 = Some (l1\<lparr>c_eng := (c_eng l1)\<lparr>m_req_way := ?way, m_req_line_idx := ?st * ?w + ?way\<rparr>,
          c_arr := (c_arr l1)\<lparr>a_replace_ways := ?rw\<rparr>\<rparr>)"
        using None r(1) st d(7) by (simp add: l1_select_victim_def Let_def l1_line_idx_def)
      show "?way < ?w" using d(8) [OF st] .
      show "arr_wf ?w ?s ((c_arr l1)\<lparr>a_replace_ways := ?rw\<rparr>)" using d(1) by (intro arr_wf_replace [OF wf]) (rule mod_less_divisor)
    qed
  next
    case (Some p)
    obtain i idx where p: "p = (i, idx)" by (cases p)
    with r(2) Some have i: "i < ?w" "idx = ?st * ?w + i" by blast+
    have free: "l1_free_way l1 [0..<?w] = Some (Some (i, ?st * ?w + i))" using r(1) Some p i(2) by simp
    show thesis
    proof (rule that [where way = i and rw = "a_replace_ways (c_arr l1)"])
      show "l1_select_victim l1 = Some (l1\<lparr>c_eng := (c_eng l1)\<lparr>m_req_way := i, m_req_line_idx := ?st * ?w + i\<rparr>,
          c_arr := (c_arr l1)\<lparr>a_replace_ways := a_replace_ways (c_arr l1)\<rparr>\<rparr>)"
        unfolding l1_select_victim_def free by simp
      show "i < ?w" by (rule i(1))
      show "arr_wf ?w ?s ((c_arr l1)\<lparr>a_replace_ways := a_replace_ways (c_arr l1)\<rparr>)" using wf by simp
    qed
  qed
qed

text \<open>How the miss engine starts: the line is there after all, or a victim is written back, or it is refilled at once.\<close>

datatype start = Served | WriteBack | Refill

fun start_state :: "start \<Rightarrow> l1_state" where
  "start_state Served = L1_STATE_SERVE_MISS"
| "start_state WriteBack = L1_STATE_WB_AW"
| "start_state Refill = L1_STATE_REFILL_AR"

lemma l1_start_fragment_ok:
  assumes wf: "arr_wf (k_way_num (c_conf l1)) (c_set_num l1) (c_arr l1)" and b: "m_req_byte_idx (c_eng l1) = 0"
  defines "x \<equiv> bq_addr (m_req (c_eng l1))" and "w \<equiv> k_way_num (c_conf l1)" and "s \<equiv> c_set_num l1"
  shows "\<exists>k e a p. l1_start_cached_fragment l1 = Some (l1\<lparr>c_eng := e, c_arr := a, c_perf := p\<rparr>)
    \<and> (\<exists>rw. a = (c_arr l1)\<lparr>a_replace_ways := rw\<rparr>) \<and> arr_wf w s a \<and> m_state e = start_state k
    \<and> m_req_line_addr e = l1_req_line_addr x \<and> m_req_set e = lnum x mod s \<and> m_req_tag e = lnum x div s
    \<and> m_req_line_idx e < s * w \<and> m_req_line_idx e div w = lnum x mod s
    \<and> m_active_slot e = m_active_slot (c_eng l1) \<and> m_req e = m_req (c_eng l1) \<and> m_op_ok e = m_op_ok (c_eng l1)
    \<and> m_req_byte_idx e = 0 \<and> m_req_data e = m_req_data (c_eng l1)
    \<and> (k = Served \<longrightarrow> a_valids a ! m_req_line_idx e \<and> ln_of w s a (m_req_line_idx e) = lnum x)
    \<and> (k \<noteq> Served \<longrightarrow> m_beat_idx e = 0 \<and> (\<forall>i < s * w. a_valids a ! i \<longrightarrow> ln_of w s a i \<noteq> lnum x))
    \<and> (k = WriteBack \<longrightarrow> a_valids a ! m_req_line_idx e \<and> a_dirtys a ! m_req_line_idx e
        \<and> m_wb_line_addr e = of_nat (ln_of w s a (m_req_line_idx e) * 64))
    \<and> (k = Refill \<longrightarrow> \<not> (a_valids a ! m_req_line_idx e \<and> a_dirtys a ! m_req_line_idx e))"
proof -
  define l where "l = l1_setup_fragment l1"
  have l: "l = l1\<lparr>c_eng := (c_eng l1)\<lparr>m_req_line_addr := l1_req_line_addr x, m_req_set := lnum x mod s, m_req_tag := lnum x div s\<rparr>\<rparr>"
    using b by (simp add: l_def l1_setup_fragment_def Let_def x_def s_def l1_req_set_eq l1_req_tag_eq)
  have look: "l1_lookup l = l1_lookup_addr l x" by (simp add: l l1_lookup_def l1_lookup_addr_def l1_req_set_eq l1_req_tag_eq s_def)
  have lw: "k_way_num (c_conf l) = w" "c_set_num l = s" "c_arr l = c_arr l1" by (simp_all add: l w_def s_def)
  have wfl: "arr_wf (k_way_num (c_conf l)) (c_set_num l) (c_arr l)" using wf by (simp add: l)
  from wfl show ?thesis
  proof (cases rule: l1_lookup_addr_ok [where x = x])
    case (found i idx)
    let ?l = "l\<lparr>c_perf := (c_perf l)\<lparr>p_hit := p_hit (c_perf l) + 1\<rparr>,
      c_eng := (c_eng l)\<lparr>m_req_way := i, m_req_line_idx := idx, m_state := L1_STATE_SERVE_MISS\<rparr>\<rparr>"
    have "l1_start_cached_fragment l1 = Some ?l" using found(1) look by (simp add: l1_start_cached_fragment_def Let_def flip: l_def)
    moreover have "idx div w = lnum x mod s" using found(2,4) ln_of_eq_iff [of w idx s] wf lw by (simp add: arr_wf_def w_def s_def)
    ultimately show ?thesis using found(2-4) wf b unfolding lw
      by (intro exI [of _ Served] exI [of _ "c_eng ?l"] exI [of _ "c_arr l1"] exI [of _ "c_perf ?l"] conjI exI [of _ "a_replace_ways (c_arr l1)"])
        (simp_all add: l w_def s_def)
  next
    case none
    define l2 where "l2 = l\<lparr>c_perf := (c_perf l)\<lparr>p_miss := p_miss (c_perf l) + 1\<rparr>\<rparr>"
    have st: "m_req_set (c_eng l2) < c_set_num l2" using arr_wfD(2) [OF wf] by (simp add: l2_def l s_def)
    have wf2: "arr_wf (k_way_num (c_conf l2)) (c_set_num l2) (c_arr l2)" using wf by (simp add: l2_def l)
    have e2: "k_way_num (c_conf l2) = w" "c_set_num l2 = s" "c_arr l2 = c_arr l1" "m_req_set (c_eng l2) = lnum x mod s"
      by (simp_all add: l2_def l w_def s_def)
    obtain way rw where v:
      "l1_select_victim l2 = Some (l2\<lparr>c_eng := (c_eng l2)\<lparr>m_req_way := way, m_req_line_idx := (lnum x mod s) * w + way\<rparr>,
        c_arr := (c_arr l1)\<lparr>a_replace_ways := rw\<rparr>\<rparr>)" "way < w" "arr_wf w s ((c_arr l1)\<lparr>a_replace_ways := rw\<rparr>)"
      by (rule l1_select_victim_ok [OF wf2 st, unfolded e2])
    define idx where "idx = (lnum x mod s) * w + way"
    define l3 where "l3 = l2\<lparr>c_eng := (c_eng l2)\<lparr>m_req_way := way, m_req_line_idx := idx\<rparr>, c_arr := (c_arr l1)\<lparr>a_replace_ways := rw\<rparr>\<rparr>"
    have v3: "l1_select_victim l2 = Some l3" unfolding l3_def idx_def by (rule v(1))
    have idx: "idx < s * w" "idx div w = lnum x mod s" unfolding idx_def using v(2) line_idx_in [of "lnum x mod s" s way w] arr_wfD(2) [OF v(3)] by auto
    have start: "l1_start_cached_fragment l1 = (do {
       let idx = m_req_line_idx (c_eng l3);
         v \<leftarrow> arr_get (a_valids (c_arr l3)) idx;
         d \<leftarrow> arr_get (a_dirtys (c_arr l3)) idx;
         if v \<and> d then do {
           tag \<leftarrow> arr_get (a_tags (c_arr l3)) idx;
           Some (l3\<lparr>c_perf := (c_perf l3)\<lparr>p_writeback := p_writeback (c_perf l3) + 1\<rparr>,
             c_eng := (c_eng l3)\<lparr>m_wb_line_addr := l1_line_addr l3 tag (m_req_set (c_eng l3)), m_beat_idx := 0, m_state := L1_STATE_WB_AW\<rparr>\<rparr>)
         }
         else Some (l3\<lparr>c_eng := (c_eng l3)\<lparr>m_beat_idx := 0, m_state := L1_STATE_REFILL_AR\<rparr>\<rparr>)
       })"
      unfolding l1_start_cached_fragment_def Let_def l_def [symmetric] look none(1)
      by (simp only: Option.bind_lunit option.case l2_def [symmetric] v3)
    have e3: "m_req_line_idx (c_eng l3) = idx" "a_valids (c_arr l3) = a_valids (c_arr l1)" "a_dirtys (c_arr l3) = a_dirtys (c_arr l1)"
      "a_tags (c_arr l3) = a_tags (c_arr l1)" "m_req_set (c_eng l3) = lnum x mod s" by (simp_all add: l3_def l2_def l)
    have start': "l1_start_cached_fragment l1 = (if a_valids (c_arr l1) ! idx \<and> a_dirtys (c_arr l1) ! idx
      then Some (l3\<lparr>c_perf := (c_perf l3)\<lparr>p_writeback := p_writeback (c_perf l3) + 1\<rparr>,
             c_eng := (c_eng l3)\<lparr>m_wb_line_addr := l1_line_addr l3 (a_tags (c_arr l1) ! idx) (lnum x mod s), m_beat_idx := 0, m_state := L1_STATE_WB_AW\<rparr>\<rparr>)
      else Some (l3\<lparr>c_eng := (c_eng l3)\<lparr>m_beat_idx := 0, m_state := L1_STATE_REFILL_AR\<rparr>\<rparr>))"
      unfolding start e3 Let_def using idx arr_wfD(3-5) [OF wf] by (simp add: w_def s_def)
    have none': "ln_of w s ((c_arr l1)\<lparr>a_replace_ways := rw\<rparr>) i \<noteq> lnum x" if "i < s * w" "a_valids (c_arr l1) ! i" for i
      using none(2) [of i] that lw by (simp add: ln_of_def)
    show ?thesis
    proof (cases "a_valids (c_arr l1) ! idx \<and> a_dirtys (c_arr l1) ! idx")
      case True
      define l4 where "l4 = l3\<lparr>c_perf := (c_perf l3)\<lparr>p_writeback := p_writeback (c_perf l3) + 1\<rparr>,
             c_eng := (c_eng l3)\<lparr>m_wb_line_addr := l1_line_addr l3 (a_tags (c_arr l1) ! idx) (lnum x mod s), m_beat_idx := 0, m_state := L1_STATE_WB_AW\<rparr>\<rparr>"
      have "l1_start_cached_fragment l1 = Some l4" unfolding start' if_P [OF True] l4_def ..
      moreover have "m_wb_line_addr (c_eng l4) = of_nat (ln_of w s ((c_arr l1)\<lparr>a_replace_ways := rw\<rparr>) idx * 64)"
        using idx by (simp add: l4_def l3_def l2_def l l1_line_addr_def ln_of_def s_def)
      ultimately show ?thesis using True none' v(3) idx b
        by (intro exI [of _ WriteBack] exI [of _ "c_eng l4"] exI [of _ "c_arr l4"] exI [of _ "c_perf l4"] conjI exI [of _ rw])
          (simp_all add: l4_def l3_def l2_def l)
    next
      case False
      define l4 where "l4 = l3\<lparr>c_eng := (c_eng l3)\<lparr>m_beat_idx := 0, m_state := L1_STATE_REFILL_AR\<rparr>\<rparr>"
      have "l1_start_cached_fragment l1 = Some l4" unfolding start' if_not_P [OF False] l4_def ..
      then show ?thesis using False none' v(3) idx b
        by (intro exI [of _ Refill] exI [of _ "c_eng l4"] exI [of _ "c_arr l4"] exI [of _ "c_perf l4"] conjI exI [of _ rw])
          (simp_all add: l4_def l3_def l2_def l)
    qed
  qed
qed

end
