(* ===== verification/L1Eng.thy ===== *)
theory L1Eng
  imports L1View
begin

text \<open>
  The miss engine of the first-level cache between the arrays and a memory behind the AXI channels that takes and gives beats
  whenever it likes: the invariant that relates the arrays, the engine, the five channels, the hit under way and the table of outstanding
  requests to the memory that the requests accepted so far describe, and that every step of write-back and refill keeps it.
\<close>

section \<open>The memory behind the cache\<close>

record axi_mem =
  x_mem :: memory
  x_wr :: "(u8 \<times> u32) option"
  x_b :: "u8 option"
  x_rd :: "(u8 \<times> u32 \<times> nat) option"

definition write_beat :: "memory \<Rightarrow> u32 \<Rightarrow> axi4_w \<Rightarrow> memory" where
  "write_beat m x d = fold (\<lambda>j m. if aw_strb d AND push_bit j 1 \<noteq> 0 then m(x + of_nat j := word_byte (aw_data d) j) else m) [0..<4] m"

definition wbeat :: "l1_arrays \<Rightarrow> nat \<Rightarrow> nat \<Rightarrow> axi4_w" where
  "wbeat a i k = \<lparr>aw_data = a_data a ! (i * 16 + k), aw_strb = 0xf, aw_last = (k = 15)\<rparr>"

definition rbeat :: "memory \<Rightarrow> u32 \<Rightarrow> nat \<Rightarrow> axi4_r" where
  "rbeat m la k = \<lparr>ax_id = 0, ax_data = mem_word m (la + of_nat (4 * k)), ax_resp = AXI4_R_RESP_OKAY, ax_last = (k = 15)\<rparr>"

definition line_ar :: "u32 \<Rightarrow> axi4_ar" where
  "line_ar la = \<lparr>ar_id = 0, ar_addr = la, ar_len = 15, ar_size = AXI4_AR_SIZE_B4, ar_burst = AXI4_AR_BURST_INCR,
     ar_lock = False, ar_cache = 0xf, ar_prot = 0, ar_qos = 0, ar_user = 0\<rparr>"

section \<open>The invariant\<close>

definition plain_req :: "bti_req \<Rightarrow> bool" where
  "plain_req r \<longleftrightarrow> (bq_cmd r = BTI_REQ_CMD_READ \<or> bq_cmd r = BTI_REQ_CMD_WRITE) \<and> one_line r"

definition writing_back :: "l1_engine \<Rightarrow> bool" where
  "writing_back e \<longleftrightarrow> m_state e = L1_STATE_WB_AW \<or> m_state e = L1_STATE_WB_W \<or> m_state e = L1_STATE_WB_B"

definition in_refill :: "l1_engine \<Rightarrow> bool" where
  "in_refill e \<longleftrightarrow> m_state e = L1_STATE_REFILL_AR \<or> m_state e = L1_STATE_REFILL_R"

definition busy :: "l1_engine \<Rightarrow> bool" where
  "busy e \<longleftrightarrow> m_state e \<noteq> L1_STATE_IDLE"

definition eng_req :: "nat \<Rightarrow> nat \<Rightarrow> l1_engine \<Rightarrow> bool" where
  "eng_req w s e \<longleftrightarrow> m_op_ok e \<and> m_req_byte_idx e = 0 \<and> m_req_data e = 0 \<and> plain_req (m_req e)
     \<and> m_req_tag e = lnum (bq_addr (m_req e)) div s \<and> m_req_line_addr e = l1_req_line_addr (bq_addr (m_req e))
     \<and> m_req_line_idx e < s * w \<and> m_req_line_idx e div w = lnum (bq_addr (m_req e)) mod s"

definition eng_inv :: "nat \<Rightarrow> nat \<Rightarrow> l1_arrays \<Rightarrow> l1_engine \<Rightarrow> bool" where
  "eng_inv w s a e \<longleftrightarrow> (busy e \<longrightarrow> (writing_back e \<or> in_refill e \<or> m_state e = L1_STATE_SERVE_MISS) \<and> eng_req w s e)
     \<and> (writing_back e \<longrightarrow> a_valids a ! m_req_line_idx e \<and> a_dirtys a ! m_req_line_idx e
         \<and> m_wb_line_addr e = of_nat (ln_of w s a (m_req_line_idx e) * 64))
     \<and> (writing_back e \<or> in_refill e \<longrightarrow> (\<forall>i. owned w s a e i \<longrightarrow> ln_of w s a i \<noteq> lnum (bq_addr (m_req e))))
     \<and> (m_state e = L1_STATE_SERVE_MISS \<longrightarrow> a_valids a ! m_req_line_idx e \<and> ln_of w s a (m_req_line_idx e) = lnum (bq_addr (m_req e)))"

definition written :: "memory \<Rightarrow> u32 \<Rightarrow> l1_arrays \<Rightarrow> nat \<Rightarrow> nat \<Rightarrow> bool" where
  "written m wb a i j \<longleftrightarrow> (\<forall>k<j. \<forall>t<4. m (wb + of_nat (4 * k + t)) = word_byte (a_data a ! (i * 16 + k)) t)"

definition wr_inv :: "l1_arrays \<Rightarrow> l1_engine \<Rightarrow> axi4_aw list \<Rightarrow> axi4_w list \<Rightarrow> axi4_b list \<Rightarrow> axi_mem \<Rightarrow> bool" where
  "wr_inv a e aw w b x \<longleftrightarrow>
     (if m_state e = L1_STATE_WB_W \<or> m_state e = L1_STATE_WB_B then
        (let n = (if m_state e = L1_STATE_WB_W then m_beat_idx e else 16); i = m_req_line_idx e; wb = m_wb_line_addr e in
         (m_state e = L1_STATE_WB_W \<longrightarrow> m_beat_idx e < 16) \<and>
         ((\<exists>j\<le>n. j < 16 \<and> w = map (wbeat a i) [j..<n] \<and> b = [] \<and> x_b x = None \<and> written (x_mem x) wb a i j
             \<and> (aw = [l1_line_aw wb] \<and> x_wr x = None \<and> j = 0 \<or> aw = [] \<and> x_wr x = Some (0, wb + of_nat (4 * j))))
          \<or> m_state e = L1_STATE_WB_B \<and> aw = [] \<and> w = [] \<and> x_wr x = None \<and> written (x_mem x) wb a i 16
             \<and> (b = [\<lparr>ab_id = 0, ab_resp = AXI4_B_RESP_OKAY\<rparr>] \<and> x_b x = None \<or> b = [] \<and> x_b x = Some 0)))
      else aw = [] \<and> w = [] \<and> b = [] \<and> x_wr x = None \<and> x_b x = None)"

definition rd_inv :: "l1_arrays \<Rightarrow> l1_engine \<Rightarrow> axi4_ar list \<Rightarrow> axi4_r list \<Rightarrow> axi_mem \<Rightarrow> bool" where
  "rd_inv a e ar r x \<longleftrightarrow>
     (if m_state e = L1_STATE_REFILL_R then
        (let n = m_beat_idx e; i = m_req_line_idx e; la = m_req_line_addr e in
         n < 16 \<and> (\<forall>k<n. a_data a ! (i * 16 + k) = mem_word (x_mem x) (la + of_nat (4 * k)))
         \<and> (n = 0 \<and> ar = [line_ar la] \<and> r = [] \<and> x_rd x = None
            \<or> ar = [] \<and> (\<exists>j. n \<le> j \<and> j \<le> 16 \<and> r = map (rbeat (x_mem x) la) [n..<j]
                \<and> x_rd x = (if j < 16 then Some (0, la + of_nat (4 * j), 15 - j) else None))))
      else ar = [] \<and> r = [] \<and> x_rd x = None)"

definition hit_inv :: "nat \<Rightarrow> nat \<Rightarrow> l1_arrays \<Rightarrow> l1_engine \<Rightarrow> bool \<Rightarrow> l1_hit_pipe \<Rightarrow> bool" where
  "hit_inv w s a e vld hp \<longleftrightarrow> (vld \<longrightarrow> plain_req (hp_req hp) \<and> owned w s a e (hp_line_idx hp)
     \<and> ln_of w s a (hp_line_idx hp) = lnum (bq_addr (hp_req hp))
     \<and> (busy e \<longrightarrow> hp_line_idx hp \<noteq> m_req_line_idx e \<and> lnum (bq_addr (m_req e)) \<noteq> lnum (bq_addr (hp_req hp))))"

text \<open>A slot of the table of outstanding requests: answered, or that of the miss, or that of the hit.\<close>

definition slot_ok :: "l1_engine \<Rightarrow> bool \<Rightarrow> l1_hit_pipe \<Rightarrow> memory \<Rightarrow> nat \<Rightarrow> l1_ost_ctx \<Rightarrow> bti_rsp \<Rightarrow> bool" where
  "slot_ok e vld hp V n c r \<longleftrightarrow> o_kind c = L1_OST_CACHED \<and> o_trans_id c = bp_trans_id r \<and>
     (if busy e \<and> n = m_active_slot e then \<not> o_rsp_vld c \<and> \<not> o_rsp_delay_pend c \<and> r = req_rsp V (m_req e)
      else if vld \<and> n = hp_slot hp then \<not> o_rsp_vld c \<and> \<not> o_rsp_delay_pend c \<and> r = req_rsp V (hp_req hp)
      else (o_rsp_vld c \<or> o_rsp_delay_pend c) \<and> o_ok c = bp_ok r \<and> o_data c = bp_data r)"

definition ost_inv :: "l1_engine \<Rightarrow> bool \<Rightarrow> l1_hit_pipe \<Rightarrow> l1_ost_ctx ostq \<Rightarrow> memory \<Rightarrow> bti_rsp list \<Rightarrow> bool" where
  "ost_inv e vld hp ost V E \<longleftrightarrow> ostq_inv ost \<and> length (ostq_live ost) = length E
     \<and> (busy e \<longrightarrow> (\<exists>k<length E. ostq_slot ost k = m_active_slot e))
     \<and> (vld \<longrightarrow> (\<exists>k<length E. ostq_slot ost k = hp_slot hp) \<and> (busy e \<longrightarrow> hp_slot hp \<noteq> m_active_slot e))
     \<and> (\<forall>k<length E. slot_ok e vld hp V (ostq_slot ost k) (ostq_live ost ! k) (E ! k))"

text \<open>The memory once the hit and the miss under way are served.\<close>

definition pending_mem :: "l1_engine \<Rightarrow> bool \<Rightarrow> l1_hit_pipe \<Rightarrow> memory \<Rightarrow> memory" where
  "pending_mem e vld hp V = (let V = (if busy e then req_mem (m_req e) V else V) in if vld then req_mem (hp_req hp) V else V)"

definition l1_ports :: "l1 \<Rightarrow> bool" where
  "l1_ports l \<longleftrightarrow> itf_inv (c_bti_req_slv l) \<and> itf_inv (c_bti_rsp_mst l) \<and> itf_inv (c_axi4_aw_mst l) \<and> itf_inv (c_axi4_w_mst l)
     \<and> itf_inv (c_axi4_b_slv l) \<and> itf_inv (c_axi4_ar_mst l) \<and> itf_inv (c_axi4_r_slv l) \<and> fifo_inv (c_req_fifo l)
     \<and> (case c_flush_slv l of None \<Rightarrow> True | Some f \<Rightarrow> itf_fifo_empty f)"

definition l1_core :: "l1 \<Rightarrow> axi_mem \<Rightarrow> memory \<Rightarrow> bti_rsp list \<Rightarrow> memory \<Rightarrow> bool" where
  "l1_core l x V E S \<longleftrightarrow> l1_ports l \<and> arr_inv (k_way_num (c_conf l)) (c_set_num l) (c_arr l) (c_eng l) (x_mem x) V
     \<and> eng_inv (k_way_num (c_conf l)) (c_set_num l) (c_arr l) (c_eng l)
     \<and> hit_inv (k_way_num (c_conf l)) (c_set_num l) (c_arr l) (c_eng l) (c_hit_pipe_vld l) (c_hit_pipe l)
     \<and> wr_inv (c_arr l) (c_eng l) (itf_list (c_axi4_aw_mst l)) (itf_list (c_axi4_w_mst l)) (itf_list (c_axi4_b_slv l)) x
     \<and> rd_inv (c_arr l) (c_eng l) (itf_list (c_axi4_ar_mst l)) (itf_list (c_axi4_r_slv l)) x
     \<and> ost_inv (c_eng l) (c_hit_pipe_vld l) (c_hit_pipe l) (c_ost l) V E
     \<and> S = pending_mem (c_eng l) (c_hit_pipe_vld l) (c_hit_pipe l) V"

lemma l1_coreD:
  assumes "l1_core l x V E S"
  shows "l1_ports l" "arr_inv (k_way_num (c_conf l)) (c_set_num l) (c_arr l) (c_eng l) (x_mem x) V"
    "eng_inv (k_way_num (c_conf l)) (c_set_num l) (c_arr l) (c_eng l)"
    "hit_inv (k_way_num (c_conf l)) (c_set_num l) (c_arr l) (c_eng l) (c_hit_pipe_vld l) (c_hit_pipe l)"
    "wr_inv (c_arr l) (c_eng l) (itf_list (c_axi4_aw_mst l)) (itf_list (c_axi4_w_mst l)) (itf_list (c_axi4_b_slv l)) x"
    "rd_inv (c_arr l) (c_eng l) (itf_list (c_axi4_ar_mst l)) (itf_list (c_axi4_r_slv l)) x"
    "ost_inv (c_eng l) (c_hit_pipe_vld l) (c_hit_pipe l) (c_ost l) V E"
    "S = pending_mem (c_eng l) (c_hit_pipe_vld l) (c_hit_pipe l) V"
  using assms unfolding l1_core_def by blast+

text \<open>What the engine's steps leave alone.\<close>

definition l1_front :: "l1 \<Rightarrow> _" where
  "l1_front l = (c_bti_req_slv l, c_bti_rsp_mst l, c_flush_slv l, c_conf l, c_set_num l, c_req_fifo l, c_req_pipe_vld l, c_req_pipe l,
     c_lookup_pipe_vld l, c_lookup_pipe l, c_hit_pipe_vld l, c_hit_pipe l, c_ost l)"

lemma l1_frontD:
  assumes "l1_front l' = l1_front l"
  shows "c_bti_req_slv l' = c_bti_req_slv l" "c_bti_rsp_mst l' = c_bti_rsp_mst l" "c_flush_slv l' = c_flush_slv l" "c_conf l' = c_conf l"
    "c_set_num l' = c_set_num l" "c_req_fifo l' = c_req_fifo l" "c_hit_pipe_vld l' = c_hit_pipe_vld l" "c_hit_pipe l' = c_hit_pipe l" "c_ost l' = c_ost l"
  using assms unfolding l1_front_def by simp_all

section \<open>Changes of the arrays\<close>

lemma ln_of_cong: "a_tags a' ! i = a_tags a ! i \<Longrightarrow> ln_of w s a' i = ln_of w s a i"
  by (simp add: ln_of_def)

lemma byte_of_cong: "(\<And>k. k < 16 \<Longrightarrow> a_data a' ! (i * 16 + k) = a_data a ! (i * 16 + k)) \<Longrightarrow> off < 64 \<Longrightarrow> byte_of a' i off = byte_of a i off"
  by (simp add: byte_of_def)

text \<open>The arrays or the engine change, but no owned line does.\<close>

lemma arr_inv_cong:
  assumes inv: "arr_inv w s a e m V" and wf: "arr_wf w s a'" and own: "\<And>i. owned w s a' e' i = owned w s a e i"
    and tags: "\<And>i. owned w s a e i \<Longrightarrow> a_tags a' ! i = a_tags a ! i"
    and dirtys: "\<And>i. owned w s a e i \<Longrightarrow> a_dirtys a' ! i = a_dirtys a ! i"
    and data: "\<And>i k. owned w s a e i \<Longrightarrow> k < 16 \<Longrightarrow> a_data a' ! (i * 16 + k) = a_data a ! (i * 16 + k)"
  shows "arr_inv w s a' e' m V"
proof -
  note d = arr_invD [OF inv]
  have ln: "ln_of w s a' i = ln_of w s a i" if "owned w s a e i" for i by (rule ln_of_cong [OF tags [OF that]])
  have bt: "byte_of a' i (unat y mod 64) = byte_of a i (unat y mod 64)" if "owned w s a e i" for i and y :: u32
    by (rule byte_of_cong) (use data [OF that] in simp_all)
  show ?thesis unfolding arr_inv_def own
  proof (intro conjI allI impI)
    fix y assume H: "\<forall>i. owned w s a e i \<longrightarrow> a_dirtys a' ! i \<longrightarrow> ln_of w s a' i \<noteq> lnum y"
    show "m y = V y" by (rule d(5)) (use H ln dirtys in metis)
  qed (use wf d(2,3,4) ln bt in metis)+
qed

text \<open>A line that the memory behind agrees with is given up.\<close>

lemma arr_inv_disown:
  assumes inv: "arr_inv w s a e m V" and wf: "arr_wf w s a'" and own: "\<And>i. owned w s a' e' i \<longleftrightarrow> owned w s a e i \<and> i \<noteq> idx"
    and tags: "\<And>i. a_tags a' ! i = a_tags a ! i" and data: "a_data a' = a_data a"
    and dirtys: "\<And>i. i \<noteq> idx \<Longrightarrow> a_dirtys a' ! i = a_dirtys a ! i"
    and sync: "\<And>y. owned w s a e idx \<Longrightarrow> a_dirtys a ! idx \<Longrightarrow> ln_of w s a idx = lnum y \<Longrightarrow> m y = V y"
  shows "arr_inv w s a' e' m V"
proof -
  note d = arr_invD [OF inv]
  have ln: "ln_of w s a' i = ln_of w s a i" for i by (rule ln_of_cong [OF tags])
  have bt: "byte_of a' = byte_of a" by (simp add: byte_of_def fun_eq_iff data)
  show ?thesis unfolding arr_inv_def own ln bt
  proof (intro conjI allI impI)
    fix y assume H: "\<forall>i. owned w s a e i \<and> i \<noteq> idx \<longrightarrow> a_dirtys a' ! i \<longrightarrow> ln_of w s a i \<noteq> lnum y"
    show "m y = V y"
    proof (cases "owned w s a e idx \<and> a_dirtys a ! idx \<and> ln_of w s a idx = lnum y")
      case True
      then show ?thesis using sync by blast
    next
      case False
      show ?thesis by (rule d(5)) (use H False dirtys in metis)
    qed
  qed (use wf d(2,3,4) in blast)+
qed

text \<open>A line filled with the bytes of the memory behind becomes owned.\<close>

lemma arr_inv_own:
  assumes inv: "arr_inv w s a e m V" and wf: "arr_wf w s a'" and own: "\<And>i. owned w s a' e' i \<longleftrightarrow> owned w s a e i \<or> i = idx"
    and no: "\<not> owned w s a e idx" and tags: "\<And>i. i \<noteq> idx \<Longrightarrow> a_tags a' ! i = a_tags a ! i"
    and data: "\<And>i k. i \<noteq> idx \<Longrightarrow> k < 16 \<Longrightarrow> a_data a' ! (i * 16 + k) = a_data a ! (i * 16 + k)"
    and dirtys: "\<And>i. i \<noteq> idx \<Longrightarrow> a_dirtys a' ! i = a_dirtys a ! i" and clean: "\<not> a_dirtys a' ! idx"
    and ln: "ln_of w s a' idx = lnum y0" and fresh: "\<And>i. owned w s a e i \<Longrightarrow> ln_of w s a i \<noteq> lnum y0"
    and fill: "\<And>y. lnum y = lnum y0 \<Longrightarrow> byte_of a' idx (unat y mod 64) = m y"
  shows "arr_inv w s a' e' m V"
proof -
  note d = arr_invD [OF inv]
  have ne: "i \<noteq> idx" if "owned w s a e i" for i using that no by blast
  have lno: "ln_of w s a' i = ln_of w s a i" if "owned w s a e i" for i by (rule ln_of_cong [OF tags [OF ne [OF that]]])
  have bt: "byte_of a' i (unat y mod 64) = byte_of a i (unat y mod 64)" if "owned w s a e i" for i and y :: u32
    by (rule byte_of_cong) (use data [OF ne [OF that]] in simp_all)
  have mv: "m y = V y" if "lnum y = lnum y0" for y by (rule d(5)) (use fresh that in metis)
  show ?thesis unfolding arr_inv_def own
  proof (intro conjI allI impI)
    show "arr_wf w s a'" by (rule wf)
    show "ln_of w s a' i < 2 ^ 26" if "owned w s a e i \<or> i = idx" for i using that d(2) lno ln lnum_bound by metis
    show "i = j" if "owned w s a e i \<or> i = idx" "owned w s a e j \<or> j = idx" "ln_of w s a' i = ln_of w s a' j" for i j
      using that d(3) lno ln fresh by metis
    show "byte_of a' i (unat y mod 64) = V y" if "owned w s a e i \<or> i = idx" "ln_of w s a' i = lnum y" for i y
      using that d(4) lno bt ln fill mv by metis
  next
    fix y assume H: "\<forall>i. owned w s a e i \<or> i = idx \<longrightarrow> a_dirtys a' ! i \<longrightarrow> ln_of w s a' i \<noteq> lnum y"
    show "m y = V y" by (rule d(5)) (use H lno dirtys ne in metis)
  qed
qed

text \<open>The memory behind changes within an owned dirty line.\<close>

lemma arr_inv_mem:
  assumes inv: "arr_inv w s a e m V" and o: "owned w s a e i" "a_dirtys a ! i"
    and eq: "\<And>y. lnum y \<noteq> ln_of w s a i \<Longrightarrow> m' y = m y"
  shows "arr_inv w s a e m' V"
proof -
  note d = arr_invD [OF inv]
  have "m' y = V y" if H: "\<And>j. owned w s a e j \<Longrightarrow> a_dirtys a ! j \<Longrightarrow> ln_of w s a j \<noteq> lnum y" for y
    using H [OF o] eq [of y] d(5) [of y] H by metis
  then show ?thesis unfolding arr_inv_def using d(1-4) by blast
qed

section \<open>Steps of the miss engine\<close>

definition same_job :: "l1_engine \<Rightarrow> l1_engine \<Rightarrow> bool" where
  "same_job e e' \<longleftrightarrow> busy e \<and> busy e' \<and> m_active_slot e' = m_active_slot e \<and> m_req e' = m_req e \<and> m_req_line_idx e' = m_req_line_idx e"

lemma ost_inv_job: "same_job e e' \<Longrightarrow> ost_inv e' vld hp ost V E = ost_inv e vld hp ost V E"
  by (simp add: same_job_def ost_inv_def slot_ok_def)

lemma pending_mem_job: "same_job e e' \<Longrightarrow> pending_mem e' vld hp V = pending_mem e vld hp V"
  by (simp add: same_job_def pending_mem_def)

lemma core_engine:
  assumes core: "l1_core l x V E S" and front: "l1_front l' = l1_front l" and job: "same_job (c_eng l) (c_eng l')"
    and ports: "itf_inv (c_axi4_aw_mst l')" "itf_inv (c_axi4_w_mst l')" "itf_inv (c_axi4_b_slv l')" "itf_inv (c_axi4_ar_mst l')" "itf_inv (c_axi4_r_slv l')"
    and arr: "arr_inv (k_way_num (c_conf l)) (c_set_num l) (c_arr l') (c_eng l') (x_mem x') V"
    and eng: "eng_inv (k_way_num (c_conf l)) (c_set_num l) (c_arr l') (c_eng l')"
    and own: "\<And>i. i \<noteq> m_req_line_idx (c_eng l) \<Longrightarrow> owned (k_way_num (c_conf l)) (c_set_num l) (c_arr l) (c_eng l) i \<Longrightarrow>
      owned (k_way_num (c_conf l)) (c_set_num l) (c_arr l') (c_eng l') i \<and> a_tags (c_arr l') ! i = a_tags (c_arr l) ! i"
    and wr: "wr_inv (c_arr l') (c_eng l') (itf_list (c_axi4_aw_mst l')) (itf_list (c_axi4_w_mst l')) (itf_list (c_axi4_b_slv l')) x'"
    and rd: "rd_inv (c_arr l') (c_eng l') (itf_list (c_axi4_ar_mst l')) (itf_list (c_axi4_r_slv l')) x'"
  shows "l1_core l' x' V E S"
proof -
  note f = l1_frontD [OF front] and c = l1_coreD [OF core]
  have "l1_ports l'" using c(1) ports unfolding l1_ports_def f by blast
  moreover have "hit_inv (k_way_num (c_conf l)) (c_set_num l) (c_arr l') (c_eng l') (c_hit_pipe_vld l) (c_hit_pipe l)"
  proof (cases "c_hit_pipe_vld l")
    case True
    let ?hp = "c_hit_pipe l"
    have h: "plain_req (hp_req ?hp)" "owned (k_way_num (c_conf l)) (c_set_num l) (c_arr l) (c_eng l) (hp_line_idx ?hp)"
      "ln_of (k_way_num (c_conf l)) (c_set_num l) (c_arr l) (hp_line_idx ?hp) = lnum (bq_addr (hp_req ?hp))"
      "hp_line_idx ?hp \<noteq> m_req_line_idx (c_eng l)" "lnum (bq_addr (m_req (c_eng l))) \<noteq> lnum (bq_addr (hp_req ?hp))"
      using c(4) True job unfolding hit_inv_def same_job_def by blast+
    with own [OF h(4,2)] ln_of_cong job show ?thesis unfolding hit_inv_def same_job_def by metis
  qed (simp add: hit_inv_def)
  ultimately show ?thesis
    using c(7,8) arr eng wr rd unfolding l1_core_def f ost_inv_job [OF job] pending_mem_job [OF job] by blast
qed

lemma eng_invD:
  assumes "eng_inv w s a e"
  shows "busy e \<Longrightarrow> writing_back e \<or> in_refill e \<or> m_state e = L1_STATE_SERVE_MISS" "busy e \<Longrightarrow> eng_req w s e"
    "writing_back e \<Longrightarrow> a_valids a ! m_req_line_idx e" "writing_back e \<Longrightarrow> a_dirtys a ! m_req_line_idx e"
    "writing_back e \<Longrightarrow> m_wb_line_addr e = of_nat (ln_of w s a (m_req_line_idx e) * 64)"
    "writing_back e \<Longrightarrow> owned w s a e i \<Longrightarrow> ln_of w s a i \<noteq> lnum (bq_addr (m_req e))"
    "in_refill e \<Longrightarrow> owned w s a e i \<Longrightarrow> ln_of w s a i \<noteq> lnum (bq_addr (m_req e))"
    "m_state e = L1_STATE_SERVE_MISS \<Longrightarrow> a_valids a ! m_req_line_idx e" "m_state e = L1_STATE_SERVE_MISS \<Longrightarrow> ln_of w s a (m_req_line_idx e) = lnum (bq_addr (m_req e))"
  using assms unfolding eng_inv_def by blast+

lemma owned_eng: "in_refill e' = in_refill e \<Longrightarrow> m_req_line_idx e' = m_req_line_idx e \<Longrightarrow> owned w s a e' = owned w s a e"
  by (simp add: owned_def refilling_def in_refill_def fun_eq_iff)

lemma eng_state_simps [simp]:
  "busy (e\<lparr>m_state := st\<rparr>) \<longleftrightarrow> st \<noteq> L1_STATE_IDLE"
  "writing_back (e\<lparr>m_state := st\<rparr>) \<longleftrightarrow> st = L1_STATE_WB_AW \<or> st = L1_STATE_WB_W \<or> st = L1_STATE_WB_B"
  "in_refill (e\<lparr>m_state := st\<rparr>) \<longleftrightarrow> st = L1_STATE_REFILL_AR \<or> st = L1_STATE_REFILL_R"
  by (simp_all add: busy_def writing_back_def in_refill_def)

lemma proc_wb_aw_ok:
  assumes core: "l1_core l x V E S"
  shows "\<exists>l'. l1_proc_wb_aw l = Some l' \<and> l1_core l' x V E S \<and> l1_front l' = l1_front l"
proof (cases "m_state (c_eng l) = L1_STATE_WB_AW \<and> \<not> itf_fifo_full (c_axi4_aw_mst l)")
  case True
  note c = l1_coreD [OF core]
  let ?e = "c_eng l"
  let ?e' = "(c_eng l)\<lparr>m_beat_idx := 0, m_state := L1_STATE_WB_W\<rparr>"
  have wbk: "busy ?e" "writing_back ?e" "\<not> in_refill ?e" "\<not> in_refill ?e'" using True by (simp_all add: busy_def writing_back_def in_refill_def)
  from True c(1) obtain t where t: "itf_write (c_axi4_aw_mst l) (l1_line_aw (m_wb_line_addr ?e)) = Some t" "itf_inv t"
    "itf_list t = itf_list (c_axi4_aw_mst l) @ [l1_line_aw (m_wb_line_addr ?e)]" unfolding l1_ports_def by (metis itf.push_not_full)
  define l' where "l' = l\<lparr>c_axi4_aw_mst := t, c_eng := ?e'\<rparr>"
  have step: "l1_proc_wb_aw l = Some l'" using True t(1) by (simp add: l1_proc_wb_aw_def l'_def)
  have own: "owned w s a ?e' = owned w s a ?e" for w s a by (rule owned_eng) (use wbk in simp_all)
  have "l1_core l' x V E S"
  proof (rule core_engine [OF core])
    show "l1_front l' = l1_front l" by (simp add: l'_def l1_front_def)
    show "same_job (c_eng l) (c_eng l')" using wbk by (simp add: l'_def same_job_def)
    show "arr_inv (k_way_num (c_conf l)) (c_set_num l) (c_arr l') (c_eng l') (x_mem x) V"
      using c(2) unfolding arr_inv_def l'_def by (simp add: own)
    show "eng_inv (k_way_num (c_conf l)) (c_set_num l) (c_arr l') (c_eng l')"
      using c(3) wbk unfolding eng_inv_def l'_def by (simp add: own eng_req_def)
    show "wr_inv (c_arr l') (c_eng l') (itf_list (c_axi4_aw_mst l')) (itf_list (c_axi4_w_mst l')) (itf_list (c_axi4_b_slv l')) x"
      using c(5) True t(3) unfolding wr_inv_def l'_def by (simp add: written_def)
    show "rd_inv (c_arr l') (c_eng l') (itf_list (c_axi4_ar_mst l')) (itf_list (c_axi4_r_slv l')) x"
      using c(6) True unfolding rd_inv_def l'_def by simp
  qed (use c(1) t(2) own in \<open>simp_all add: l'_def l1_ports_def\<close>)
  then show ?thesis using step by (simp add: l'_def l1_front_def)
next
  case False
  note c = l1_coreD [OF core]
  have "m_state (c_eng l) \<noteq> L1_STATE_FLUSH_WB_AW"
    using eng_invD(1) [OF c(3)] by (auto simp: busy_def writing_back_def in_refill_def)
  with False core show ?thesis by (auto simp: l1_proc_wb_aw_def)
qed

lemma no_flush:
  assumes "eng_inv w s a e"
  shows "m_state e \<noteq> L1_STATE_FLUSH_CHECK" "m_state e \<noteq> L1_STATE_FLUSH_WB_AW" "m_state e \<noteq> L1_STATE_FLUSH_WB_W" "m_state e \<noteq> L1_STATE_FLUSH_WB_B"
    "m_state e \<noteq> L1_STATE_FLUSH_ACK" "m_state e \<noteq> L1_STATE_CMO_L1_WB_AW" "m_state e \<noteq> L1_STATE_CMO_L1_WB_W" "m_state e \<noteq> L1_STATE_CMO_L1_WB_B"
    "m_state e \<noteq> L1_STATE_CMO_L2_AR" "m_state e \<noteq> L1_STATE_CMO_L2_R"
  using eng_invD(1) [OF assms] by (auto simp: busy_def writing_back_def in_refill_def)

lemma eng_line_idx:
  assumes "arr_wf w s a" "eng_inv w s a e" "busy e"
  shows "m_req_line_idx e < s * w" "m_req_line_idx e < length (a_valids a)" "m_req_line_idx e < length (a_dirtys a)"
    "m_req_line_idx e < length (a_tags a)" "k < 16 \<Longrightarrow> m_req_line_idx e * 16 + k < length (a_data a)"
proof -
  show i: "m_req_line_idx e < s * w" using eng_invD(2) [OF assms(2,3)] by (simp add: eng_req_def)
  then show "m_req_line_idx e < length (a_valids a)" "m_req_line_idx e < length (a_dirtys a)" "m_req_line_idx e < length (a_tags a)"
    using arr_wfD [OF assms(1)] by simp_all
  show "m_req_line_idx e * 16 + k < length (a_data a)" if "k < 16"
    using data_idx [OF i, of "4 * k"] that arr_wfD(6) [OF assms(1)] by simp
qed

lemma proc_wb_w_ok:
  assumes core: "l1_core l x V E S"
  shows "\<exists>l'. l1_proc_wb_w l = Some l' \<and> l1_core l' x V E S \<and> l1_front l' = l1_front l"
proof (cases "m_state (c_eng l) = L1_STATE_WB_W \<and> \<not> itf_fifo_full (c_axi4_w_mst l)")
  case True
  note c = l1_coreD [OF core]
  let ?e = "c_eng l" and ?a = "c_arr l"
  let ?i = "m_req_line_idx (c_eng l)" and ?n = "m_beat_idx (c_eng l)" and ?wb = "m_wb_line_addr (c_eng l)"
  define e' where "e' = (if ?n = 15 then ?e\<lparr>m_state := L1_STATE_WB_B\<rparr> else ?e\<lparr>m_beat_idx := ?n + 1\<rparr>)"
  have wbk: "busy ?e" "writing_back ?e" "\<not> in_refill ?e" using True by (simp_all add: busy_def writing_back_def in_refill_def)
  then have wbk': "busy e'" "writing_back e'" "\<not> in_refill e'" by (simp_all add: e'_def busy_def writing_back_def in_refill_def)
  have same: "m_req_line_idx e' = ?i" "m_req e' = m_req ?e" "m_active_slot e' = m_active_slot ?e" "m_wb_line_addr e' = ?wb" "eng_req w s e' = eng_req w s ?e" for w s
    by (simp_all add: e'_def eng_req_def)
  have n: "?n < 16" using c(5) True by (simp add: wr_inv_def Let_def)
  have wr0: "\<exists>j\<le>?n. itf_list (c_axi4_w_mst l) = map (wbeat ?a ?i) [j..<?n] \<and> itf_list (c_axi4_b_slv l) = [] \<and> x_b x = None \<and> written (x_mem x) ?wb ?a ?i j
    \<and> (itf_list (c_axi4_aw_mst l) = [l1_line_aw ?wb] \<and> x_wr x = None \<and> j = 0 \<or> itf_list (c_axi4_aw_mst l) = [] \<and> x_wr x = Some (0, ?wb + of_nat (4 * j)))"
    using c(5) True by (auto simp: wr_inv_def Let_def)
  then obtain j where j: "j \<le> ?n" "itf_list (c_axi4_w_mst l) = map (wbeat ?a ?i) [j..<?n]" "itf_list (c_axi4_b_slv l) = []" "x_b x = None" "written (x_mem x) ?wb ?a ?i j"
    "itf_list (c_axi4_aw_mst l) = [l1_line_aw ?wb] \<and> x_wr x = None \<and> j = 0 \<or> itf_list (c_axi4_aw_mst l) = [] \<and> x_wr x = Some (0, ?wb + of_nat (4 * j))"
    by blast
  from True c(1) obtain t where t: "itf_write (c_axi4_w_mst l) (wbeat ?a ?i ?n) = Some t" "itf_inv t"
    "itf_list t = itf_list (c_axi4_w_mst l) @ [wbeat ?a ?i ?n]" unfolding l1_ports_def by (metis itf.push_not_full)
  define l' where "l' = l\<lparr>c_axi4_w_mst := t, c_eng := e'\<rparr>"
  have step: "l1_proc_wb_w l = Some l'"
    using True t(1) eng_line_idx(5) [OF arr_invD(1) [OF c(2)] c(3) wbk(1) n] by (simp add: l1_proc_wb_w_def l'_def e'_def Let_def wbeat_def)
  have own: "owned w s a e' = owned w s a ?e" for w s a by (rule owned_eng) (use wbk wbk' same in simp_all)
  have w': "itf_list t = map (wbeat ?a ?i) [j..<Suc ?n]" using t(3) j(1,2) by simp
  have "l1_core l' x V E S"
  proof (rule core_engine [OF core])
    show "l1_front l' = l1_front l" by (simp add: l'_def l1_front_def)
    show "same_job (c_eng l) (c_eng l')" using wbk wbk' same by (simp add: l'_def same_job_def)
    show "arr_inv (k_way_num (c_conf l)) (c_set_num l) (c_arr l') (c_eng l') (x_mem x) V"
      using c(2) unfolding arr_inv_def l'_def by (simp add: own)
    show "eng_inv (k_way_num (c_conf l)) (c_set_num l) (c_arr l') (c_eng l')"
      using c(3) wbk wbk' True unfolding eng_inv_def l'_def by (auto simp: own same writing_back_def in_refill_def busy_def)
    show "wr_inv (c_arr l') (c_eng l') (itf_list (c_axi4_aw_mst l')) (itf_list (c_axi4_w_mst l')) (itf_list (c_axi4_b_slv l')) x"
    proof (cases "?n = 15")
      case True
      then have e': "m_state e' = L1_STATE_WB_B" by (simp add: e'_def)
      have "\<exists>j\<le>16. j < 16 \<and> itf_list t = map (wbeat ?a ?i) [j..<16] \<and> itf_list (c_axi4_b_slv l) = [] \<and> x_b x = None \<and> written (x_mem x) ?wb ?a ?i j
        \<and> (itf_list (c_axi4_aw_mst l) = [l1_line_aw ?wb] \<and> x_wr x = None \<and> j = 0 \<or> itf_list (c_axi4_aw_mst l) = [] \<and> x_wr x = Some (0, ?wb + of_nat (4 * j)))"
        by (rule exI [of _ j]) (use j w' True in simp)
      then show ?thesis using e' unfolding wr_inv_def l'_def by (simp add: same)
    next
      case False
      then have e': "m_state e' = L1_STATE_WB_W" "m_beat_idx e' = Suc ?n" using True by (simp_all add: e'_def)
      have "\<exists>j\<le>Suc ?n. j < 16 \<and> itf_list t = map (wbeat ?a ?i) [j..<Suc ?n] \<and> itf_list (c_axi4_b_slv l) = [] \<and> x_b x = None \<and> written (x_mem x) ?wb ?a ?i j
        \<and> (itf_list (c_axi4_aw_mst l) = [l1_line_aw ?wb] \<and> x_wr x = None \<and> j = 0 \<or> itf_list (c_axi4_aw_mst l) = [] \<and> x_wr x = Some (0, ?wb + of_nat (4 * j)))"
        by (rule exI [of _ j]) (use j w' n in simp)
      then show ?thesis using e' False n unfolding wr_inv_def l'_def by (simp add: same)
    qed
    show "rd_inv (c_arr l') (c_eng l') (itf_list (c_axi4_ar_mst l')) (itf_list (c_axi4_r_slv l')) x"
      using c(6) wbk(3) wbk'(3) unfolding rd_inv_def l'_def by (simp add: in_refill_def)
  qed (use c(1) t(2) own in \<open>simp_all add: l'_def l1_ports_def\<close>)
  then show ?thesis using step by (simp add: l'_def l1_front_def)
next
  case False
  with core no_flush [OF l1_coreD(3) [OF core]] show ?thesis by (auto simp: l1_proc_wb_w_def)
qed

text \<open>A line written back is what the memory holds.\<close>

lemma addr_split: "x = of_nat (lnum x * 64) + of_nat (unat x mod 64)"
proof -
  have "x = of_nat (unat x)" by simp
  also have "unat x = lnum x * 64 + unat x mod 64" by (simp add: lnum_def)
  finally show ?thesis by (simp only: of_nat_add)
qed

lemma written_line:
  assumes "written m (of_nat (lnum y * 64)) a i 16"
  shows "m y = byte_of a i (unat y mod 64)"
proof -
  let ?o = "unat y mod 64"
  have "m (of_nat (lnum y * 64) + of_nat (4 * (?o div 4) + ?o mod 4)) = word_byte (a_data a ! (i * 16 + ?o div 4)) (?o mod 4)"
    by (rule assms [unfolded written_def, rule_format]) simp_all
  moreover have "of_nat (lnum y * 64) + of_nat (4 * (?o div 4) + ?o mod 4) = y" by (metis addr_split mult_div_mod_eq)
  ultimately show ?thesis by (simp add: byte_of_def)
qed

lemma proc_wb_b_ok:
  assumes core: "l1_core l x V E S"
  shows "\<exists>l'. l1_proc_wb_b l = Some l' \<and> l1_core l' x V E S \<and> l1_front l' = l1_front l"
proof (cases "m_state (c_eng l) = L1_STATE_WB_B \<and> \<not> itf_fifo_empty (c_axi4_b_slv l)")
  case True
  note c = l1_coreD [OF core]
  let ?e = "c_eng l" and ?a = "c_arr l" and ?w = "k_way_num (c_conf l)" and ?s = "c_set_num l"
  let ?i = "m_req_line_idx (c_eng l)" and ?wb = "m_wb_line_addr (c_eng l)"
  define e' where "e' = ?e\<lparr>m_op_ok := True, m_beat_idx := 0, m_state := L1_STATE_REFILL_AR\<rparr>"
  define a' where "a' = ?a\<lparr>a_dirtys := (a_dirtys ?a)[?i := False]\<rparr>"
  have wbk: "busy ?e" "writing_back ?e" "\<not> in_refill ?e" using True by (simp_all add: busy_def writing_back_def in_refill_def)
  have e': "busy e'" "\<not> writing_back e'" "in_refill e'" and st: "m_state e' = L1_STATE_REFILL_AR" by (simp_all add: e'_def)
  have same: "m_req_line_idx e' = ?i" "m_req e' = m_req ?e" "m_active_slot e' = m_active_slot ?e" by (simp_all add: e'_def)
  have wf: "arr_wf ?w ?s ?a" by (rule arr_invD(1) [OF c(2)])
  from True c(1) obtain b t where t: "itf_read (c_axi4_b_slv l) = Some (b, t)" "itf_inv t" "itf_list (c_axi4_b_slv l) = b # itf_list t"
    unfolding l1_ports_def by (metis itf.pop_not_empty)
  have w: "b = \<lparr>ab_id = 0, ab_resp = AXI4_B_RESP_OKAY\<rparr>" "itf_list t = []" "itf_list (c_axi4_aw_mst l) = []" "itf_list (c_axi4_w_mst l) = []"
    "x_wr x = None" "x_b x = None" "written (x_mem x) ?wb ?a ?i 16"
    using c(5) True t(3) by (auto simp: wr_inv_def)
  define l' where "l' = l\<lparr>c_axi4_b_slv := t, c_eng := e', c_arr := a'\<rparr>"
  note idx = eng_line_idx [OF wf c(3) wbk(1)]
  have step: "l1_proc_wb_b l = Some l'"
    using True t(1) w(1) idx(3) by (simp add: l1_proc_wb_b_def Let_def l1_set_dirty_def l'_def e'_def a'_def)
  have oi: "owned ?w ?s ?a ?e ?i" using eng_invD(3) [OF c(3) wbk(2)] idx(1) wbk(3) by (simp add: owned_def refilling_def in_refill_def)
  have own: "owned ?w ?s a' e' i \<longleftrightarrow> owned ?w ?s ?a ?e i \<and> i \<noteq> ?i" for i
    using wbk(3) by (auto simp: owned_def refilling_def in_refill_def a'_def e'_def)
  have wf': "arr_wf ?w ?s a'" using wf by (simp add: arr_wf_def a'_def)
  have ln: "ln_of ?w ?s a' i = ln_of ?w ?s ?a i" for i by (rule ln_of_cong) (simp add: a'_def)
  have "l1_core l' x V E S"
  proof (rule core_engine [OF core])
    show "l1_front l' = l1_front l" by (simp add: l'_def l1_front_def)
    show "same_job (c_eng l) (c_eng l')" using wbk e' same by (simp add: l'_def same_job_def)
    have "arr_inv ?w ?s a' e' (x_mem x) V"
    proof (rule arr_inv_disown [OF c(2) wf' own])
      fix y assume y: "ln_of ?w ?s ?a ?i = lnum y"
      have "written (x_mem x) (of_nat (lnum y * 64)) ?a ?i 16" using w(7) eng_invD(5) [OF c(3) wbk(2)] y by simp
      from written_line [OF this] arr_invD(4) [OF c(2) oi y] show "x_mem x y = V y" by simp
    qed (simp_all add: a'_def)
    then show "arr_inv ?w ?s (c_arr l') (c_eng l') (x_mem x) V" by (simp add: l'_def)
    have "eng_req ?w ?s e'" using eng_invD(2) [OF c(3) wbk(1)] by (simp add: eng_req_def e'_def)
    then have "eng_inv ?w ?s a' e'"
      using eng_invD(6) [OF c(3) wbk(2)] e' unfolding eng_inv_def by (auto simp: own ln same st)
    then show "eng_inv ?w ?s (c_arr l') (c_eng l')" by (simp add: l'_def)
    show "wr_inv (c_arr l') (c_eng l') (itf_list (c_axi4_aw_mst l')) (itf_list (c_axi4_w_mst l')) (itf_list (c_axi4_b_slv l')) x"
      using w by (simp add: wr_inv_def l'_def e'_def)
    show "rd_inv (c_arr l') (c_eng l') (itf_list (c_axi4_ar_mst l')) (itf_list (c_axi4_r_slv l')) x"
      using c(6) True by (simp add: rd_inv_def l'_def e'_def)
    show "owned ?w ?s (c_arr l') (c_eng l') i \<and> a_tags (c_arr l') ! i = a_tags ?a ! i" if "i \<noteq> ?i" "owned ?w ?s ?a ?e i" for i
      using that own by (simp add: l'_def a'_def)
  qed (use c(1) t(2) in \<open>simp_all add: l'_def l1_ports_def\<close>)
  then show ?thesis using step by (simp add: l'_def l1_front_def)
next
  case False
  with core no_flush [OF l1_coreD(3) [OF core]] show ?thesis by (auto simp: l1_proc_wb_b_def)
qed

lemma proc_refill_ar_ok:
  assumes core: "l1_core l x V E S"
  shows "\<exists>l'. l1_proc_refill_ar l = Some l' \<and> l1_core l' x V E S \<and> l1_front l' = l1_front l"
proof (cases "m_state (c_eng l) = L1_STATE_REFILL_AR \<and> \<not> itf_fifo_full (c_axi4_ar_mst l)")
  case True
  note c = l1_coreD [OF core]
  let ?e = "c_eng l"
  let ?e' = "(c_eng l)\<lparr>m_beat_idx := 0, m_op_ok := True, m_state := L1_STATE_REFILL_R\<rparr>"
  have rf: "busy ?e" "\<not> writing_back ?e" "in_refill ?e" using True by (simp_all add: busy_def writing_back_def in_refill_def)
  from True c(1) obtain t where t: "itf_write (c_axi4_ar_mst l) (line_ar (m_req_line_addr ?e)) = Some t" "itf_inv t"
    "itf_list t = itf_list (c_axi4_ar_mst l) @ [line_ar (m_req_line_addr ?e)]" unfolding l1_ports_def by (metis itf.push_not_full)
  define l' where "l' = l\<lparr>c_axi4_ar_mst := t, c_eng := ?e'\<rparr>"
  have step: "l1_proc_refill_ar l = Some l'" using True t(1) by (simp add: l1_proc_refill_ar_def l'_def line_ar_def)
  have own: "owned w s a ?e' = owned w s a ?e" for w s a by (rule owned_eng) (use rf in simp_all)
  have "l1_core l' x V E S"
  proof (rule core_engine [OF core])
    show "l1_front l' = l1_front l" by (simp add: l'_def l1_front_def)
    show "same_job (c_eng l) (c_eng l')" using rf by (simp add: l'_def same_job_def)
    show "arr_inv (k_way_num (c_conf l)) (c_set_num l) (c_arr l') (c_eng l') (x_mem x) V"
      using c(2) unfolding arr_inv_def l'_def by (simp add: own)
    show "eng_inv (k_way_num (c_conf l)) (c_set_num l) (c_arr l') (c_eng l')"
      using c(3) rf unfolding eng_inv_def l'_def by (simp add: own eng_req_def)
    show "wr_inv (c_arr l') (c_eng l') (itf_list (c_axi4_aw_mst l')) (itf_list (c_axi4_w_mst l')) (itf_list (c_axi4_b_slv l')) x"
      using c(5) True unfolding wr_inv_def l'_def by simp
    show "rd_inv (c_arr l') (c_eng l') (itf_list (c_axi4_ar_mst l')) (itf_list (c_axi4_r_slv l')) x"
      using c(6) True t(3) unfolding rd_inv_def l'_def by simp
  qed (use c(1) t(2) own in \<open>simp_all add: l'_def l1_ports_def\<close>)
  then show ?thesis using step by (simp add: l'_def l1_front_def)
next
  case False
  with core show ?thesis by (auto simp: l1_proc_refill_ar_def)
qed

lemma line_addr_eq: "l1_req_line_addr x = of_nat (lnum x * 64)"
proof -
  have "l1_req_line_addr x = of_nat (unat (l1_req_line_addr x))" by simp
  then show ?thesis unfolding unat_line_addr .
qed

text \<open>A line refilled holds the bytes of the memory.\<close>

lemma refilled_line:
  assumes "\<forall>k<16. a_data a ! (i * 16 + k) = mem_word m (of_nat (lnum y * 64) + of_nat (4 * k))"
  shows "byte_of a i (unat y mod 64) = m y"
proof -
  let ?o = "unat y mod 64"
  have "byte_of a i ?o = m (of_nat (lnum y * 64) + of_nat (4 * (?o div 4)) + of_nat (?o mod 4))"
    using assms [rule_format, of "?o div 4"] by (simp add: byte_of_def word_byte_mem_word)
  also have "of_nat (lnum y * 64) + of_nat (4 * (?o div 4)) + of_nat (?o mod 4) = of_nat (lnum y * 64) + (of_nat (4 * (?o div 4) + ?o mod 4) :: u32)"
    by (simp only: add.assoc of_nat_add)
  also have "\<dots> = y" unfolding mult_div_mod_eq by (rule addr_split [symmetric])
  finally show ?thesis .
qed

lemma proc_refill_r_ok:
  assumes core: "l1_core l x V E S"
  shows "\<exists>l'. l1_proc_refill_r l = Some l' \<and> l1_core l' x V E S \<and> l1_front l' = l1_front l"
proof (cases "m_state (c_eng l) = L1_STATE_REFILL_R \<and> \<not> itf_fifo_empty (c_axi4_r_slv l)")
  case True
  note c = l1_coreD [OF core]
  let ?e = "c_eng l" and ?a = "c_arr l" and ?w = "k_way_num (c_conf l)" and ?s = "c_set_num l"
  let ?i = "m_req_line_idx (c_eng l)" and ?la = "m_req_line_addr (c_eng l)" and ?n = "m_beat_idx (c_eng l)" and ?x = "bq_addr (m_req (c_eng l))"
  have rf: "busy ?e" "\<not> writing_back ?e" "in_refill ?e" using True by (simp_all add: busy_def writing_back_def in_refill_def)
  from True c(1) obtain r t where t: "itf_read (c_axi4_r_slv l) = Some (r, t)" "itf_inv t" "itf_list (c_axi4_r_slv l) = r # itf_list t"
    unfolding l1_ports_def by (metis itf.pop_not_empty)
  have n: "?n < 16" and old: "\<And>k. k < ?n \<Longrightarrow> a_data ?a ! (?i * 16 + k) = mem_word (x_mem x) (?la + of_nat (4 * k))"
    using c(6) True by (simp_all add: rd_inv_def Let_def)
  obtain j where j: "j \<le> 16" "r # itf_list t = map (rbeat (x_mem x) ?la) [?n..<j]" "itf_list (c_axi4_ar_mst l) = []"
    "x_rd x = (if j < 16 then Some (0, ?la + of_nat (4 * j), 15 - j) else None)"
    using c(6) True t(3) by (auto simp: rd_inv_def Let_def)
  then have nj: "?n < j" by (cases "?n < j") auto
  then have jl: "r = rbeat (x_mem x) ?la ?n" "itf_list t = map (rbeat (x_mem x) ?la) [Suc ?n..<j]"
    using j(2) by (simp_all add: upt_conv_Cons)
  have wf: "arr_wf ?w ?s ?a" by (rule arr_invD(1) [OF c(2)])
  note idx = eng_line_idx [OF wf c(3) rf(1)]
  note er = eng_invD(2) [OF c(3) rf(1), unfolded eng_req_def]
  define D where "D = (a_data ?a)[?i * 16 + ?n := mem_word (x_mem x) (?la + of_nat (4 * ?n))]"
  have Dn: "D ! (?i * 16 + k) = mem_word (x_mem x) (?la + of_nat (4 * k))" if "k \<le> ?n" for k
    using that old idx(5) [OF n] by (cases "k = ?n") (simp_all add: D_def)
  have Do: "D ! (i * 16 + k) = a_data ?a ! (i * 16 + k)" if "i \<noteq> ?i" "k < 16" for i k
    using idx16_inj(1) [of i k ?i ?n] that n by (auto simp: D_def)
  have wo: "wr_inv a e' (itf_list (c_axi4_aw_mst l)) (itf_list (c_axi4_w_mst l)) (itf_list (c_axi4_b_slv l)) x"
    if "m_state e' \<noteq> L1_STATE_WB_W" "m_state e' \<noteq> L1_STATE_WB_B" for a e'
    using c(5) True that by (simp add: wr_inv_def)
  show ?thesis
  proof (cases "?n = 15")
    case False
    define l' where "l' = l\<lparr>c_axi4_r_slv := t, c_eng := ?e\<lparr>m_op_ok := True, m_beat_idx := ?n + 1\<rparr>, c_arr := ?a\<lparr>a_data := D\<rparr>\<rparr>"
    have step: "l1_proc_refill_r l = Some l'"
      using True t(1) jl(1) er idx(5) [OF n] False by (simp add: l1_proc_refill_r_def Let_def rbeat_def l'_def D_def)
    have own: "owned ?w ?s (c_arr l') (c_eng l') = owned ?w ?s ?a ?e"
      by (simp add: owned_def refilling_def l'_def fun_eq_iff)
    have noi: "\<not> owned ?w ?s ?a ?e ?i" using True by (simp add: owned_def refilling_def)
    have "l1_core l' x V E S"
    proof (rule core_engine [OF core])
      show "l1_front l' = l1_front l" by (simp add: l'_def l1_front_def)
      show "same_job (c_eng l) (c_eng l')" using rf by (simp add: l'_def same_job_def busy_def)
      show "arr_inv ?w ?s (c_arr l') (c_eng l') (x_mem x) V"
      proof (rule arr_inv_cong [OF c(2)])
        show "arr_wf ?w ?s (c_arr l')" using wf by (simp add: arr_wf_def l'_def D_def)
        show "a_data (c_arr l') ! (i * 16 + k) = a_data ?a ! (i * 16 + k)" if "owned ?w ?s ?a ?e i" "k < 16" for i k
          using Do [of i k] that noi by (auto simp: l'_def)
        show "owned ?w ?s (c_arr l') (c_eng l') i = owned ?w ?s ?a ?e i" for i by (simp only: own)
      qed (simp_all add: l'_def)
      have st: "m_state (c_eng l') = L1_STATE_REFILL_R" "m_req (c_eng l') = m_req ?e" using True by (simp_all add: l'_def)
      have er': "eng_req ?w ?s (c_eng l')" using er by (simp add: eng_req_def l'_def)
      have ln: "ln_of ?w ?s (c_arr l') = ln_of ?w ?s ?a" by (simp add: ln_of_def fun_eq_iff l'_def)
      have "writing_back (c_eng l') = False" "in_refill (c_eng l') = True" using st by (simp_all add: writing_back_def in_refill_def)
      then show "eng_inv ?w ?s (c_arr l') (c_eng l')"
        using er' eng_invD(7) [OF c(3) rf(3)] unfolding eng_inv_def own ln st by simp
      show "wr_inv (c_arr l') (c_eng l') (itf_list (c_axi4_aw_mst l')) (itf_list (c_axi4_w_mst l')) (itf_list (c_axi4_b_slv l')) x"
        using wo [of "c_eng l'" "c_arr l'"] True by (simp add: l'_def)
      have "\<exists>j. Suc ?n \<le> j \<and> j \<le> 16 \<and> itf_list t = map (rbeat (x_mem x) ?la) [Suc ?n..<j]
        \<and> x_rd x = (if j < 16 then Some (0, ?la + of_nat (4 * j), 15 - j) else None)"
        by (rule exI [of _ j]) (use j nj jl(2) in simp)
      then show "rd_inv (c_arr l') (c_eng l') (itf_list (c_axi4_ar_mst l')) (itf_list (c_axi4_r_slv l')) x"
        using True j(3) Dn n False by (simp add: rd_inv_def l'_def less_Suc_eq_le)
      show "owned ?w ?s (c_arr l') (c_eng l') i \<and> a_tags (c_arr l') ! i = a_tags ?a ! i" if "i \<noteq> ?i" "owned ?w ?s ?a ?e i" for i
        using that own by (simp add: l'_def)
    qed (use c(1) t(2) in \<open>simp_all add: l'_def l1_ports_def\<close>)
    then show ?thesis using step by (simp add: l'_def l1_front_def)
  next
    case last: True
    define a' where "a' = ?a\<lparr>a_data := D, a_valids := (a_valids ?a)[?i := True], a_dirtys := (a_dirtys ?a)[?i := False],
      a_tags := (a_tags ?a)[?i := m_req_tag ?e]\<rparr>"
    define e' where "e' = ?e\<lparr>m_op_ok := True, m_state := L1_STATE_SERVE_MISS\<rparr>"
    define l' where "l' = l\<lparr>c_axi4_r_slv := t, c_eng := e', c_arr := a'\<rparr>"
    have e': "busy e'" "\<not> writing_back e'" "\<not> in_refill e'" and st: "m_state e' = L1_STATE_SERVE_MISS" by (simp_all add: e'_def)
    have same: "m_req_line_idx e' = ?i" "m_req e' = m_req ?e" "m_active_slot e' = m_active_slot ?e" by (simp_all add: e'_def)
    have step: "l1_proc_refill_r l = Some l'"
      using True t(1) jl(1) er idx idx(5) [OF n] last
      by (simp add: l1_proc_refill_r_def Let_def rbeat_def l'_def D_def a'_def e'_def l1_set_valid_def l1_set_dirty_def)
    have own: "owned ?w ?s a' e' i \<longleftrightarrow> owned ?w ?s ?a ?e i \<or> i = ?i" for i
      using True idx(1,2) by (cases "i = ?i") (auto simp: owned_def refilling_def a'_def e'_def)
    have noi: "\<not> owned ?w ?s ?a ?e ?i" using True by (simp add: owned_def refilling_def)
    have ln: "ln_of ?w ?s a' ?i = lnum ?x" using er idx(4) by (simp add: ln_of_def a'_def)
    have wf': "arr_wf ?w ?s a'" using wf by (simp add: arr_wf_def a'_def D_def)
    have arr': "arr_inv ?w ?s a' e' (x_mem x) V"
    proof (rule arr_inv_own [OF c(2) wf' own noi])
      show "ln_of ?w ?s a' ?i = lnum ?x" by (rule ln)
      show "byte_of a' ?i (unat y mod 64) = x_mem x y" if "lnum y = lnum ?x" for y
      proof (rule refilled_line, intro allI impI)
        fix k :: nat assume "k < 16"
        then show "a_data a' ! (?i * 16 + k) = mem_word (x_mem x) (of_nat (lnum y * 64) + of_nat (4 * k))"
          using Dn [of k] last er that by (simp add: a'_def line_addr_eq)
      qed
      show "ln_of ?w ?s ?a i \<noteq> lnum ?x" if "owned ?w ?s ?a ?e i" for i by (rule eng_invD(7) [OF c(3) rf(3) that])
    qed (use idx Do in \<open>simp_all add: a'_def\<close>)
    have "l1_core l' x V E S"
    proof (rule core_engine [OF core])
      show "l1_front l' = l1_front l" by (simp add: l'_def l1_front_def)
      show "same_job (c_eng l) (c_eng l')" using rf e' same by (simp add: l'_def same_job_def)
      show "arr_inv ?w ?s (c_arr l') (c_eng l') (x_mem x) V" using arr' by (simp add: l'_def)
      have "eng_req ?w ?s e'" using er by (simp add: eng_req_def e'_def)
      then have "eng_inv ?w ?s a' e'" using e' st ln idx(2) unfolding eng_inv_def by (simp add: same a'_def)
      then show "eng_inv ?w ?s (c_arr l') (c_eng l')" by (simp add: l'_def)
      show "wr_inv (c_arr l') (c_eng l') (itf_list (c_axi4_aw_mst l')) (itf_list (c_axi4_w_mst l')) (itf_list (c_axi4_b_slv l')) x"
        using wo [of "c_eng l'" "c_arr l'"] st by (simp add: l'_def)
      have "j = 16" using nj last j(1) by simp
      then show "rd_inv (c_arr l') (c_eng l') (itf_list (c_axi4_ar_mst l')) (itf_list (c_axi4_r_slv l')) x"
        using st j(3,4) jl(2) last by (simp add: rd_inv_def l'_def)
      show "owned ?w ?s (c_arr l') (c_eng l') i \<and> a_tags (c_arr l') ! i = a_tags ?a ! i" if "i \<noteq> ?i" "owned ?w ?s ?a ?e i" for i
        using that own by (simp add: l'_def a'_def)
    qed (use c(1) t(2) in \<open>simp_all add: l'_def l1_ports_def\<close>)
    then show ?thesis using step by (simp add: l'_def l1_front_def)
  qed
next
  case False
  with core show ?thesis by (auto simp: l1_proc_refill_r_def)
qed

end
