(* ===== verification/L1Tick.thy ===== *)
theory L1Tick
  imports L1Eng
begin

text \<open>
  The clock tick of the first-level cache on plain requests: every step of the tick keeps the invariant. The miss and the hit under way
  are served in any order, because they fall on different lines and so commute; what the tick accepts and answers is what a
  plain memory would do with the same requests.
\<close>

section \<open>Requests on different lines\<close>

lemma mem_write_cong: "m y = m' y \<Longrightarrow> mem_write r ks m y = mem_write r ks m' y"
proof (induction ks arbitrary: m m')
  case (Cons k ks)
  let ?f = "\<lambda>m. if bq_strobe r AND push_bit k 1 \<noteq> 0 then m(bq_addr r + of_nat k := ucast (drop_bit (k * 8) (bq_data r))) else m"
  have "?f m y = ?f m' y" using Cons.prems by (simp add: fun_upd_def)
  from Cons.IH [of "?f m" "?f m'", OF this] show ?case by (simp add: mem_write_def)
qed (simp add: mem_write_def)

lemma mem_write_other: "(\<And>k. k \<in> set ks \<Longrightarrow> y \<noteq> bq_addr r + of_nat k) \<Longrightarrow> mem_write r ks m y = m y"
  unfolding mem_write_def by (induction ks arbitrary: m) auto

lemma req_mem_other:
  assumes "one_line r" "lnum y \<noteq> lnum (bq_addr r)"
  shows "req_mem r m y = m y"
proof -
  have "y \<noteq> bq_addr r + of_nat k" if "k \<in> set [0..<l1_req_size_from r]" for k
    using in_line(1) [of "bq_addr r" k] assms that by (auto simp: one_line_def)
  from mem_write_other [of "[0..<l1_req_size_from r]" y r m, OF this] show ?thesis by (simp add: req_mem_def)
qed

lemma req_mem_cong: "m y = m' y \<Longrightarrow> req_mem r m y = req_mem r m' y"
  using mem_write_cong [of m y m' r] by (simp add: req_mem_def)

lemma req_mem_commute:
  assumes "one_line r" "one_line q" "lnum (bq_addr r) \<noteq> lnum (bq_addr q)"
  shows "req_mem r (req_mem q m) = req_mem q (req_mem r m)"
proof (rule ext)
  fix y
  show "req_mem r (req_mem q m) y = req_mem q (req_mem r m) y"
  proof (cases "lnum y = lnum (bq_addr r)")
    case True
    then have q: "lnum y \<noteq> lnum (bq_addr q)" using assms(3) by simp
    note o = req_mem_other [OF assms(2) q]
    show ?thesis unfolding o [of "req_mem r m"] by (rule req_mem_cong [of "req_mem q m" y m r, OF o [of m]])
  next
    case False
    note o = req_mem_other [OF assms(1) False]
    show ?thesis unfolding o [of "req_mem q m"] by (rule req_mem_cong [of "req_mem r m" y m q, OF o [of m], symmetric])
  qed
qed

lemma mem_read_cong: "(\<And>k. k \<in> set ks \<Longrightarrow> m (bq_addr r + of_nat k) = m' (bq_addr r + of_nat k)) \<Longrightarrow> mem_read m r ks d = mem_read m' r ks d"
  unfolding mem_read_def by (induction ks arbitrary: d) auto

lemma req_rsp_other:
  assumes "one_line r" "one_line q" "lnum (bq_addr r) \<noteq> lnum (bq_addr q)"
  shows "req_rsp (req_mem r m) q = req_rsp m q"
proof -
  have "req_mem r m (bq_addr q + of_nat k) = m (bq_addr q + of_nat k)" if "k \<in> set [0..<l1_req_size_from q]" for k
    using in_line(1) [of "bq_addr q" k] assms that by (intro req_mem_other) (auto simp: one_line_def)
  from mem_read_cong [of "[0..<l1_req_size_from q]" "req_mem r m" q m, OF this] show ?thesis by (simp add: req_rsp_def)
qed

section \<open>The table of outstanding requests\<close>

lemma ost_invD:
  assumes "ost_inv e vld hp ost V E"
  shows "ostq_inv ost" "length (ostq_live ost) = length E" "busy e \<Longrightarrow> \<exists>k<length E. ostq_slot ost k = m_active_slot e"
    "vld \<Longrightarrow> \<exists>k<length E. ostq_slot ost k = hp_slot hp" "vld \<Longrightarrow> busy e \<Longrightarrow> hp_slot hp \<noteq> m_active_slot e"
    "k < length E \<Longrightarrow> slot_ok e vld hp V (ostq_slot ost k) (ostq_live ost ! k) (E ! k)"
  using assms unfolding ost_inv_def by simp_all

lemma ost_inv_write:
  assumes inv: "ost_inv e vld hp ost V E" and k: "k < length E"
    and ok: "slot_ok e' vld' hp V' (ostq_slot ost k) c (E ! k)"
    and others: "\<And>j. j < length E \<Longrightarrow> j \<noteq> k \<Longrightarrow> slot_ok e vld hp V (ostq_slot ost j) (ostq_live ost ! j) (E ! j)
      \<Longrightarrow> slot_ok e' vld' hp V' (ostq_slot ost j) (ostq_live ost ! j) (E ! j)"
    and act: "busy e' \<Longrightarrow> busy e \<and> m_active_slot e' = m_active_slot e" and hit: "vld' \<Longrightarrow> vld"
  shows "\<exists>ost'. ostq_write_slot ost (ostq_slot ost k) c = Some ost' \<and> ost_inv e' vld' hp ost' V' E \<and> q_depth ost' = q_depth ost"
proof -
  note d = ost_invD [OF inv]
  from ostq_write_live [OF d(1), of k c] k d(2) obtain ost' where o: "ostq_write_slot ost (ostq_slot ost k) c = Some ost'" "ostq_inv ost'"
    "ostq_live ost' = (ostq_live ost)[k := c]" "ostq_slot ost' = ostq_slot ost" "q_depth ost' = q_depth ost" by auto
  have "slot_ok e' vld' hp V' (ostq_slot ost j) ((ostq_live ost)[k := c] ! j) (E ! j)" if "j < length E" for j
    using that ok others [OF that _ d(6) [OF that]] k d(2) by (cases "j = k") simp_all
  then have "ost_inv e' vld' hp ost' V' E" using d act hit o unfolding ost_inv_def by simp
  with o show ?thesis by blast
qed

lemma core_ost: "l1_core l x V E S \<Longrightarrow> ost_inv (c_eng l) (c_hit_pipe_vld l) (c_hit_pipe l) ost V E \<Longrightarrow> l1_core (l\<lparr>c_ost := ost\<rparr>) x V E S"
  unfolding l1_core_def l1_ports_def by simp

lemma ost_clock_ok:
  assumes core: "l1_core l x V E S"
  shows "\<exists>ost. ostq_clock (c_ost l) = Some ost \<and> l1_core (l\<lparr>c_ost := ost\<rparr>) x V E S"
proof -
  note inv = l1_coreD(7) [OF core]
  note d = ost_invD [OF inv]
  from ostq_clock_live [OF d(1)] obtain ost where o: "ostq_clock (c_ost l) = Some ost" "ostq_inv ost" "ostq_live ost = ostq_live (c_ost l)" by blast
  have "ostq_slot ost = ostq_slot (c_ost l)" using ostq_clock_slot [OF d(1) o(1)] by (simp add: fun_eq_iff)
  with inv o have "ost_inv (c_eng l) (c_hit_pipe_vld l) (c_hit_pipe l) ost V E" by (simp add: ost_inv_def)
  from core_ost [OF core this] o(1) show ?thesis by blast
qed

lemma delay_loop_ok:
  assumes "ost_inv e vld hp ost V E" "\<forall>i\<in>set ks. i < q_depth ost"
  shows "\<exists>ost'. l1_delay_loop n ost ks = Some ost' \<and> ost_inv e vld hp ost' V E"
  using assms
proof (induction ks arbitrary: ost)
  case (Cons i ks)
  note d = ost_invD [OF Cons.prems(1)]
  have i: "i < q_depth ost" using Cons.prems(2) by simp
  from d(1) i show ?case
  proof (cases rule: ostq_slot_cases)
    case dead
    with Cons show ?thesis by simp
  next
    case (live k)
    note v = ostq_slot_valid_live [OF d(1) live(1)] and r = ostq_read_live [OF d(1) live(1)]
    let ?c = "ostq_live ost ! k"
    have k: "k < length E" using live(1) d(2) by simp
    show ?thesis
    proof (cases "o_rsp_delay_pend ?c")
      case False
      with Cons v r live(2) show ?thesis by simp
    next
      case True
      have "slot_ok e vld hp V (ostq_slot ost k) (l1_delay_step n ?c) (E ! k)"
        using d(6) [OF k] True unfolding slot_ok_def l1_delay_step_def by (simp add: Let_def split: if_splits; blast)
      from ost_inv_write [OF Cons.prems(1) k this] obtain ost' where
        "ostq_write_slot ost (ostq_slot ost k) (l1_delay_step n ?c) = Some ost'" "ost_inv e vld hp ost' V E" "q_depth ost' = q_depth ost" by auto
      with Cons.IH [of ost'] Cons.prems(2) v r live(2) True show ?thesis by simp
    qed
  qed
qed simp

lemma tick_rsp_delay_ok:
  assumes core: "l1_core l x V E S"
  shows "\<exists>l'. l1_tick_rsp_delay l = Some l' \<and> l1_core l' x V E S \<and> (\<exists>ost. l' = l\<lparr>c_ost := ost\<rparr>)"
proof (cases "k_latency (c_conf l) = 0")
  case True
  with core show ?thesis by (intro exI [of _ l]) (simp add: l1_tick_rsp_delay_def exI [of _ "c_ost l"])
next
  case False
  from delay_loop_ok [OF l1_coreD(7) [OF core], of "[0..<q_depth (c_ost l)]" "k_latency (c_conf l)"] obtain ost where
    "l1_delay_loop (k_latency (c_conf l)) (c_ost l) [0..<q_depth (c_ost l)] = Some ost" "ost_inv (c_eng l) (c_hit_pipe_vld l) (c_hit_pipe l) ost V E" by auto
  with core_ost [OF core] False show ?thesis by (auto simp: l1_tick_rsp_delay_def)
qed

text \<open>The answer of a request enters its slot.\<close>

definition done_ctx :: "nat \<Rightarrow> l1_ost_ctx \<Rightarrow> bool \<Rightarrow> u32 \<Rightarrow> l1_ost_ctx" where
  "done_ctx latency c ok d = c\<lparr>o_ok := ok, o_data := d, o_rsp_vld := (latency = 0), o_rsp_delay_pend := (latency \<noteq> 0), o_delay := 0\<rparr>"

lemma complete_slot_eq:
  assumes "ostq_inv (c_ost l)" "k < length (ostq_live (c_ost l))"
  shows "l1_complete_slot l (ostq_slot (c_ost l) k) ok d
    = ostq_write_slot (c_ost l) (ostq_slot (c_ost l) k) (done_ctx (k_latency (c_conf l)) (ostq_live (c_ost l) ! k) ok d) \<bind> (\<lambda>ost. Some (l\<lparr>c_ost := ost\<rparr>))"
  using ostq_read_live [OF assms] by (simp add: l1_complete_slot_def done_ctx_def)

lemma req_rsp_simps [simp]: "bp_trans_id (req_rsp V r) = bq_trans_id r" "bp_ok (req_rsp V r)"
  by (simp_all add: req_rsp_def)

lemma complete_miss_ok:
  assumes inv: "ost_inv e vld hp (c_ost l) V E" and b: "busy e" and b': "\<not> busy e'"
    and V': "vld \<Longrightarrow> req_rsp V' (hp_req hp) = req_rsp V (hp_req hp)"
  shows "\<exists>ost. l1_complete_slot l (m_active_slot e) True (bp_data (req_rsp V (m_req e))) = Some (l\<lparr>c_ost := ost\<rparr>) \<and> ost_inv e' vld hp ost V' E"
proof -
  note d = ost_invD [OF inv]
  from d(3) [OF b] obtain k where k: "k < length E" "ostq_slot (c_ost l) k = m_active_slot e" by blast
  let ?c = "done_ctx (k_latency (c_conf l)) (ostq_live (c_ost l) ! k) True (bp_data (req_rsp V (m_req e)))"
  have ok: "slot_ok e' vld hp V' (ostq_slot (c_ost l) k) ?c (E ! k)"
    using d(6) [OF k(1)] k(2) b b' d(5) by (auto simp: slot_ok_def done_ctx_def)
  have ot: "slot_ok e' vld hp V' (ostq_slot (c_ost l) j) (ostq_live (c_ost l) ! j) (E ! j)"
    if "j < length E" "j \<noteq> k" "slot_ok e vld hp V (ostq_slot (c_ost l) j) (ostq_live (c_ost l) ! j) (E ! j)" for j
  proof -
    have "ostq_slot (c_ost l) j \<noteq> m_active_slot e" using ostq_slot_inj [OF d(1), of j k] that(1,2) k d(2) by auto
    then show ?thesis using that(3) b b' V' unfolding slot_ok_def by (auto split: if_splits)
  qed
  from ost_inv_write [OF inv k(1) ok ot] b' obtain ost where
    "ostq_write_slot (c_ost l) (ostq_slot (c_ost l) k) ?c = Some ost" "ost_inv e' vld hp ost V' E" by auto
  with complete_slot_eq [OF d(1), of k] k d(2) show ?thesis by auto
qed

lemma complete_hit_ok:
  assumes inv: "ost_inv e True hp (c_ost l) V E" and V': "busy e \<Longrightarrow> req_rsp V' (m_req e) = req_rsp V (m_req e)"
  shows "\<exists>ost. l1_complete_slot l (hp_slot hp) True (bp_data (req_rsp V (hp_req hp))) = Some (l\<lparr>c_ost := ost\<rparr>) \<and> ost_inv e False hp ost V' E"
proof -
  note d = ost_invD [OF inv]
  from d(4) obtain k where k: "k < length E" "ostq_slot (c_ost l) k = hp_slot hp" by blast
  let ?c = "done_ctx (k_latency (c_conf l)) (ostq_live (c_ost l) ! k) True (bp_data (req_rsp V (hp_req hp)))"
  have ok: "slot_ok e False hp V' (ostq_slot (c_ost l) k) ?c (E ! k)"
    using d(6) [OF k(1)] k(2) d(5) by (auto simp: slot_ok_def done_ctx_def)
  have ot: "slot_ok e False hp V' (ostq_slot (c_ost l) j) (ostq_live (c_ost l) ! j) (E ! j)"
    if "j < length E" "j \<noteq> k" "slot_ok e True hp V (ostq_slot (c_ost l) j) (ostq_live (c_ost l) ! j) (E ! j)" for j
  proof -
    have "ostq_slot (c_ost l) j \<noteq> hp_slot hp" using ostq_slot_inj [OF d(1), of j k] that(1,2) k d(2) by auto
    then show ?thesis using that(3) V' unfolding slot_ok_def by (auto split: if_splits)
  qed
  from ost_inv_write [OF inv k(1) ok ot] obtain ost where
    "ostq_write_slot (c_ost l) (ostq_slot (c_ost l) k) ?c = Some ost" "ost_inv e False hp ost V' E" by auto
  with complete_slot_eq [OF d(1), of k] k d(2) show ?thesis by auto
qed

section \<open>Serving the hit and the miss\<close>

lemma plain_reqD:
  assumes "plain_req r"
  shows "one_line r" "bq_cmd r \<noteq> BTI_REQ_CMD_WRITE \<Longrightarrow> bq_cmd r = BTI_REQ_CMD_READ"
    "\<forall>k\<in>set [0..<l1_req_size_from r]. unat (bq_addr r) mod 64 + k < 64" "0 < l1_req_size_from r"
  using assms by (auto simp: plain_req_def one_line_def l1_req_size_from_def split: bti_req_size.splits)

text \<open>The loop over the bytes of a request on an owned line.\<close>

lemma serve_line_ok:
  assumes inv: "arr_inv (k_way_num (c_conf l)) (c_set_num l) (c_arr l) e m V" and o: "owned (k_way_num (c_conf l)) (c_set_num l) (c_arr l) e i"
    and ln: "ln_of (k_way_num (c_conf l)) (c_set_num l) (c_arr l) i = lnum (bq_addr r)" and r: "plain_req r"
  obtains a d where "l1_hit_loop r i (unat (bq_addr r AND 63)) [0..<l1_req_size_from r] 0 l = Some (d, l\<lparr>c_arr := a\<rparr>)"
    "(if bq_cmd r = BTI_REQ_CMD_READ then d else 0) = bp_data (req_rsp V r)"
    "arr_inv (k_way_num (c_conf l)) (c_set_num l) a e m (req_mem r V)" "a_tags a = a_tags (c_arr l)" "a_valids a = a_valids (c_arr l)"
    "\<And>j. j \<noteq> i \<Longrightarrow> a_dirtys a ! j = a_dirtys (c_arr l) ! j" "\<And>j k. j \<noteq> i \<Longrightarrow> k < 16 \<Longrightarrow> a_data a ! (j * 16 + k) = a_data (c_arr l) ! (j * 16 + k)"
proof -
  note p = plain_reqD [OF r]
  let ?d = "if bq_cmd r = BTI_REQ_CMD_WRITE then 0 else mem_read V r [0..<l1_req_size_from r] 0"
  from l1_hit_loop_ok [OF inv o ln p(3), of 0] obtain a where
    a: "l1_hit_loop r i (unat (bq_addr r AND 63)) [0..<l1_req_size_from r] 0 l = Some (?d, l\<lparr>c_arr := a\<rparr>)"
    "arr_inv (k_way_num (c_conf l)) (c_set_num l) a e m (if bq_cmd r = BTI_REQ_CMD_WRITE then mem_write r [0..<l1_req_size_from r] V else V)"
    "a_tags a = a_tags (c_arr l)" "a_valids a = a_valids (c_arr l)"
    "\<forall>j. j \<noteq> i \<longrightarrow> a_dirtys a ! j = a_dirtys (c_arr l) ! j \<and> (\<forall>k<16. a_data a ! (j * 16 + k) = a_data (c_arr l) ! (j * 16 + k))"
    unfolding unat_and_63 by blast
  have "(if bq_cmd r = BTI_REQ_CMD_READ then ?d else 0) = bp_data (req_rsp V r)" by (simp add: req_rsp_def)
  moreover have "arr_inv (k_way_num (c_conf l)) (c_set_num l) a e m (req_mem r V)" using a(2) by (simp add: req_mem_def)
  ultimately show thesis using a by (intro that [of ?d a]) auto
qed

lemma arr_inv_eng: "arr_inv w s a e m V \<Longrightarrow> owned w s a e' = owned w s a e \<Longrightarrow> arr_inv w s a e' m V"
  unfolding arr_inv_def by simp

lemma owned_arr: "a_valids a' = a_valids a \<Longrightarrow> owned w s a' e = owned w s a e"
  by (simp add: owned_def fun_eq_iff)

lemma ln_of_arr: "a_tags a' = a_tags a \<Longrightarrow> ln_of w s a' = ln_of w s a"
  by (simp add: ln_of_def fun_eq_iff)

lemma proc_serve_miss_ok:
  assumes core: "l1_core l x V E S"
  shows "\<exists>l' V'. l1_proc_serve_miss l = Some l' \<and> l1_core l' x V' E S \<and> (\<exists>e a ost. l' = l\<lparr>c_eng := e, c_arr := a, c_ost := ost\<rparr>)"
proof (cases "m_state (c_eng l) = L1_STATE_SERVE_MISS")
  case True
  note c = l1_coreD [OF core]
  let ?w = "k_way_num (c_conf l)" and ?s = "c_set_num l" and ?e = "c_eng l" and ?A = "m_req (c_eng l)" and ?i = "m_req_line_idx (c_eng l)"
  have b: "busy ?e" using True by (simp add: busy_def)
  note er = eng_invD(2) [OF c(3) b, unfolded eng_req_def]
  have A: "plain_req ?A" using er by blast
  note pA = plain_reqD [OF A]
  note idx = eng_line_idx [OF arr_invD(1) [OF c(2)] c(3) b]
  have oi: "owned ?w ?s (c_arr l) ?e ?i" using eng_invD(8) [OF c(3) True] idx(1) True by (simp add: owned_def refilling_def)
  obtain a d where a: "l1_hit_loop ?A ?i (unat (bq_addr ?A AND 63)) [0..<l1_req_size_from ?A] 0 l = Some (d, l\<lparr>c_arr := a\<rparr>)"
    "(if bq_cmd ?A = BTI_REQ_CMD_READ then d else 0) = bp_data (req_rsp V ?A)"
    "arr_inv ?w ?s a ?e (x_mem x) (req_mem ?A V)" "a_tags a = a_tags (c_arr l)" "a_valids a = a_valids (c_arr l)"
    by (rule serve_line_ok [OF c(2) oi eng_invD(9) [OF c(3) True] A])
  let ?V = "req_mem ?A V"
  define e1 where "e1 = ?e\<lparr>m_req_data := d, m_req_byte_idx := l1_req_size_from ?A\<rparr>"
  define l1 where "l1 = l\<lparr>c_arr := a, c_eng := e1\<rparr>"
  define e' where "e' = e1\<lparr>m_state := L1_STATE_IDLE\<rparr>"
  have e1: "busy e1" "m_active_slot e1 = m_active_slot ?e" "m_req e1 = ?A" "m_req_data e1 = d" "m_op_ok e1" using b er by (simp_all add: e1_def busy_def)
  have e': "\<not> busy e'" "\<not> writing_back e'" "\<not> in_refill e'" "m_state e' = L1_STATE_IDLE" by (simp_all add: e'_def)
  have h: "c_hit_pipe_vld l \<Longrightarrow> plain_req (hp_req (c_hit_pipe l)) \<and> lnum (bq_addr ?A) \<noteq> lnum (bq_addr (hp_req (c_hit_pipe l)))"
    using c(4) b unfolding hit_inv_def by blast
  have "ost_inv e1 (c_hit_pipe_vld l) (c_hit_pipe l) (c_ost l1) V E"
    using c(7) e1 b unfolding ost_inv_def slot_ok_def by (simp add: l1_def)
  from complete_miss_ok [OF this e1(1) e'(1), of ?V] req_rsp_other [OF pA(1)] h plain_reqD(1) obtain ost where
    ost: "l1_complete_slot l1 (m_active_slot ?e) True (bp_data (req_rsp V ?A)) = Some (l1\<lparr>c_ost := ost\<rparr>)"
    "ost_inv e' (c_hit_pipe_vld l) (c_hit_pipe l) ost ?V E" unfolding e1(2,3) by blast
  define l' where "l' = l\<lparr>c_eng := e', c_arr := a, c_ost := ost\<rparr>"
  have mn: "min (l1_req_size_from ?A) (64 - unat (bq_addr ?A AND 63)) = l1_req_size_from ?A"
    using pA(1) by (simp add: one_line_def unat_and_63)
  have loop: "l1_miss_loop [0..<l1_req_size_from ?A] (unat (bq_addr ?A AND 63)) l = Some (l\<lparr>c_arr := a, c_eng := ?e\<lparr>m_req_data := d\<rparr>\<rparr>)"
    using l1_miss_loop_eq [of l] A er a(1) by (simp add: plain_req_def)
  have step: "l1_proc_serve_miss l = Some l'"
    using True er loop mn ost(1) [folded a(2)]
    by (cases "bq_cmd ?A = BTI_REQ_CMD_READ") (simp_all add: l1_proc_serve_miss_def l1_req_size_def Let_def l1_def e1_def l'_def e'_def)
  have own: "owned ?w ?s a e' = owned ?w ?s (c_arr l) ?e"
    using True owned_eng [of e' ?e] owned_arr [OF a(5)] by (simp add: in_refill_def e'_def e1_def)
  have "l1_core l' x ?V E S"
    unfolding l1_core_def
  proof (intro conjI)
    show "l1_ports l'" using c(1) by (simp add: l1_ports_def l'_def)
    have "owned ?w ?s a e' = owned ?w ?s a ?e" using own owned_arr [OF a(5)] by simp
    from arr_inv_eng [OF a(3) this] show "arr_inv (k_way_num (c_conf l')) (c_set_num l') (c_arr l') (c_eng l') (x_mem x) ?V" by (simp add: l'_def)
    show "eng_inv (k_way_num (c_conf l')) (c_set_num l') (c_arr l') (c_eng l')" using e' by (simp add: eng_inv_def l'_def)
    show "hit_inv (k_way_num (c_conf l')) (c_set_num l') (c_arr l') (c_eng l') (c_hit_pipe_vld l') (c_hit_pipe l')"
      using c(4) e'(1) own ln_of_arr [OF a(4)] unfolding hit_inv_def l'_def by simp
    show "wr_inv (c_arr l') (c_eng l') (itf_list (c_axi4_aw_mst l')) (itf_list (c_axi4_w_mst l')) (itf_list (c_axi4_b_slv l')) x"
      using c(5) True e'(4) by (simp add: wr_inv_def l'_def)
    show "rd_inv (c_arr l') (c_eng l') (itf_list (c_axi4_ar_mst l')) (itf_list (c_axi4_r_slv l')) x"
      using c(6) True e'(4) by (simp add: rd_inv_def l'_def)
    show "ost_inv (c_eng l') (c_hit_pipe_vld l') (c_hit_pipe l') (c_ost l') ?V E" using ost(2) by (simp add: l'_def)
    show "S = pending_mem (c_eng l') (c_hit_pipe_vld l') (c_hit_pipe l') ?V" using c(8) b e'(1) by (simp add: pending_mem_def l'_def)
  qed
  with step show ?thesis unfolding l'_def by blast
next
  case False
  have "l = l\<lparr>c_eng := c_eng l, c_arr := c_arr l, c_ost := c_ost l\<rparr>" by simp
  moreover have "l1_proc_serve_miss l = Some l" using False by (simp add: l1_proc_serve_miss_def)
  ultimately show ?thesis using core by blast
qed

lemma wr_inv_data:
  assumes "\<And>k. m_state e = L1_STATE_WB_W \<or> m_state e = L1_STATE_WB_B \<Longrightarrow> k < 16 \<Longrightarrow> a_data a' ! (m_req_line_idx e * 16 + k) = a_data a ! (m_req_line_idx e * 16 + k)"
  shows "wr_inv a' e aw w b x = wr_inv a e aw w b x"
proof (cases "m_state e = L1_STATE_WB_W \<or> m_state e = L1_STATE_WB_B")
  case True
  note d = assms [OF True]
  have mp: "map (wbeat a' (m_req_line_idx e)) [j..<n] = map (wbeat a (m_req_line_idx e)) [j..<n]" if "n \<le> 16" for j n
    using that d by (auto simp: wbeat_def)
  have wr: "written m wb a' (m_req_line_idx e) j = written m wb a (m_req_line_idx e) j" if "j \<le> 16" for m wb j
    using that d by (simp add: written_def)
  show ?thesis unfolding wr_inv_def Let_def by (simp add: mp wr cong: conj_cong)
qed (simp add: wr_inv_def)

lemma rd_inv_data:
  assumes "\<And>k. m_state e = L1_STATE_REFILL_R \<Longrightarrow> k < 16 \<Longrightarrow> a_data a' ! (m_req_line_idx e * 16 + k) = a_data a ! (m_req_line_idx e * 16 + k)"
  shows "rd_inv a' e ar r x = rd_inv a e ar r x"
  using assms unfolding rd_inv_def Let_def by (simp cong: conj_cong)

lemma eng_inv_arr:
  assumes "eng_inv w s a e" "a_tags a' = a_tags a" "a_valids a' = a_valids a" "writing_back e \<Longrightarrow> a_dirtys a' ! m_req_line_idx e = a_dirtys a ! m_req_line_idx e"
  shows "eng_inv w s a' e"
  using assms unfolding eng_inv_def owned_arr [OF assms(3)] ln_of_arr [OF assms(2)] by simp

lemma proc_hit_pipe_ok:
  assumes core: "l1_core l x V E S"
  shows "\<exists>l' V'. l1_proc_hit_pipe l = Some l' \<and> l1_core l' x V' E S \<and> \<not> c_hit_pipe_vld l'
    \<and> (\<exists>a ost. l' = l\<lparr>c_arr := a, c_ost := ost, c_hit_pipe_vld := False\<rparr>)"
proof (cases "c_hit_pipe_vld l")
  case True
  note c = l1_coreD [OF core]
  let ?w = "k_way_num (c_conf l)" and ?s = "c_set_num l" and ?e = "c_eng l" and ?hp = "c_hit_pipe l"
  let ?B = "hp_req (c_hit_pipe l)" and ?i = "hp_line_idx (c_hit_pipe l)"
  have h: "plain_req ?B" "owned ?w ?s (c_arr l) ?e ?i" "ln_of ?w ?s (c_arr l) ?i = lnum (bq_addr ?B)"
    "busy ?e \<Longrightarrow> ?i \<noteq> m_req_line_idx ?e" "busy ?e \<Longrightarrow> lnum (bq_addr (m_req ?e)) \<noteq> lnum (bq_addr ?B)"
    using c(4) True unfolding hit_inv_def by blast+
  obtain a d where a: "l1_hit_loop ?B ?i (unat (bq_addr ?B AND 63)) [0..<l1_req_size_from ?B] 0 l = Some (d, l\<lparr>c_arr := a\<rparr>)"
    "(if bq_cmd ?B = BTI_REQ_CMD_READ then d else 0) = bp_data (req_rsp V ?B)"
    "arr_inv ?w ?s a ?e (x_mem x) (req_mem ?B V)" "a_tags a = a_tags (c_arr l)" "a_valids a = a_valids (c_arr l)"
    "\<And>j. j \<noteq> ?i \<Longrightarrow> a_dirtys a ! j = a_dirtys (c_arr l) ! j" "\<And>j k. j \<noteq> ?i \<Longrightarrow> k < 16 \<Longrightarrow> a_data a ! (j * 16 + k) = a_data (c_arr l) ! (j * 16 + k)"
    by (rule serve_line_ok [OF c(2) h(2,3,1)]) blast
  let ?V = "req_mem ?B V"
  note oB = plain_reqD(1) [OF h(1)]
  have A: "one_line (m_req ?e)" if "busy ?e" using eng_invD(2) [OF c(3) that] plain_reqD(1) by (simp add: eng_req_def)
  have rA: "req_rsp ?V (m_req ?e) = req_rsp V (m_req ?e)" if "busy ?e"
    by (rule req_rsp_other [OF oB A [OF that]]) (use h(5) [OF that] in simp)
  have "ost_inv ?e True ?hp (c_ost (l\<lparr>c_arr := a\<rparr>)) V E" using c(7) True by simp
  from complete_hit_ok [OF this rA] obtain ost where
    ost: "l1_complete_slot (l\<lparr>c_arr := a\<rparr>) (hp_slot ?hp) True (bp_data (req_rsp V ?B)) = Some (l\<lparr>c_arr := a, c_ost := ost\<rparr>)"
    "ost_inv ?e False ?hp ost ?V E" by auto
  define l' where "l' = l\<lparr>c_arr := a, c_ost := ost, c_hit_pipe_vld := False\<rparr>"
  have step: "l1_proc_hit_pipe l = Some l'"
    using True a(1) ost(1) [folded a(2)] by (cases "bq_cmd ?B = BTI_REQ_CMD_READ") (simp_all add: l1_proc_hit_pipe_def l'_def)
  have di: "a_data a ! (m_req_line_idx ?e * 16 + k) = a_data (c_arr l) ! (m_req_line_idx ?e * 16 + k)" if "busy ?e" "k < 16" for k
    using a(7) h(4) that by metis
  have wrd: "wr_inv a ?e aw w b y = wr_inv (c_arr l) ?e aw w b y" for aw w b y by (rule wr_inv_data) (rule di, auto simp: busy_def)
  have rdd: "rd_inv a ?e ar r y = rd_inv (c_arr l) ?e ar r y" for ar r y by (rule rd_inv_data) (rule di, auto simp: busy_def)
  have "l1_core l' x ?V E S"
    unfolding l1_core_def
  proof (intro conjI)
    show "l1_ports l'" using c(1) by (simp add: l1_ports_def l'_def)
    show "arr_inv (k_way_num (c_conf l')) (c_set_num l') (c_arr l') (c_eng l') (x_mem x) ?V" using a(3) by (simp add: l'_def)
    have "eng_inv ?w ?s a ?e"
      by (rule eng_inv_arr [OF c(3) a(4,5)]) (use a(6) h(4) in \<open>auto simp: writing_back_def busy_def\<close>)
    then show "eng_inv (k_way_num (c_conf l')) (c_set_num l') (c_arr l') (c_eng l')" by (simp add: l'_def)
    show "hit_inv (k_way_num (c_conf l')) (c_set_num l') (c_arr l') (c_eng l') (c_hit_pipe_vld l') (c_hit_pipe l')" by (simp add: hit_inv_def l'_def)
    show "wr_inv (c_arr l') (c_eng l') (itf_list (c_axi4_aw_mst l')) (itf_list (c_axi4_w_mst l')) (itf_list (c_axi4_b_slv l')) x"
      using c(5) wrd by (simp add: l'_def)
    show "rd_inv (c_arr l') (c_eng l') (itf_list (c_axi4_ar_mst l')) (itf_list (c_axi4_r_slv l')) x"
      using c(6) rdd by (simp add: l'_def)
    show "ost_inv (c_eng l') (c_hit_pipe_vld l') (c_hit_pipe l') (c_ost l') ?V E" using ost(2) by (simp add: l'_def)
    have "req_mem ?B (req_mem (m_req ?e) V) = req_mem (m_req ?e) (req_mem ?B V)" if "busy ?e"
      by (rule req_mem_commute [OF oB A [OF that]]) (use h(5) [OF that] in simp)
    then show "S = pending_mem (c_eng l') (c_hit_pipe_vld l') (c_hit_pipe l') ?V" using c(8) True by (simp add: pending_mem_def l'_def)
  qed
  moreover have "\<not> c_hit_pipe_vld l'" by (simp add: l'_def)
  ultimately show ?thesis using step unfolding l'_def by blast
next
  case False
  have "l = l\<lparr>c_arr := c_arr l, c_ost := c_ost l, c_hit_pipe_vld := False\<rparr>" using False by simp
  moreover have "l1_proc_hit_pipe l = Some l" using False by (simp add: l1_proc_hit_pipe_def)
  ultimately show ?thesis using False core by blast
qed

section \<open>Answering\<close>

lemma send_ost_rsp_ok:
  assumes core: "l1_core l x V E S"
  shows "\<exists>l' E'. l1_send_ost_rsp l = Some l' \<and> l1_core l' x V E' S \<and> itf_list (c_bti_rsp_mst l') @ E' = itf_list (c_bti_rsp_mst l) @ E
    \<and> (\<exists>t ost. l' = l\<lparr>c_bti_rsp_mst := t, c_ost := ost\<rparr>)"
proof -
  note c = l1_coreD [OF core] and d = ost_invD [OF l1_coreD(7) [OF core]]
  let ?ost = "c_ost l"
  have id: "l = l\<lparr>c_bti_rsp_mst := c_bti_rsp_mst l, c_ost := c_ost l\<rparr>" by simp
  show ?thesis
  proof (cases "itf_fifo_full (c_bti_rsp_mst l) \<or> ostq_head_freed ?ost \<or> ostq_live ?ost = [] \<or> \<not> o_rsp_vld (hd (ostq_live ?ost))")
    case True
    then have "l1_send_ost_rsp l = Some l" using ostq_peek_live [OF d(1)] by (auto simp: l1_send_ost_rsp_def)
    with core id show ?thesis by blast
  next
    case False
    then obtain c0 L where L: "ostq_live ?ost = c0 # L" by (cases "ostq_live ?ost") auto
    with d(2) obtain r0 E' where E: "E = r0 # E'" "length E' = length L" by (cases E) auto
    have s0: "slot_ok (c_eng l) (c_hit_pipe_vld l) (c_hit_pipe l) V (ostq_slot ?ost 0) c0 r0" using d(6) [of 0] L E by simp
    have vld: "o_rsp_vld c0" using False L by simp
    have n0: "busy (c_eng l) \<Longrightarrow> ostq_slot ?ost 0 \<noteq> m_active_slot (c_eng l)" "c_hit_pipe_vld l \<Longrightarrow> ostq_slot ?ost 0 \<noteq> hp_slot (c_hit_pipe l)"
      and r0: "\<lparr>bp_trans_id = o_trans_id c0, bp_data = o_data c0, bp_ok = o_ok c0\<rparr> = r0"
      using s0 vld unfolding slot_ok_def by (auto split: if_splits)
    from False c(1) obtain t where t: "itf_write (c_bti_rsp_mst l) r0 = Some t" "itf_inv t" "itf_list t = itf_list (c_bti_rsp_mst l) @ [r0]"
      unfolding l1_ports_def by (metis itf.push_not_full)
    from ostq_free_live [OF d(1)] False obtain ost where o: "ostq_free_head ?ost = Some ost" "ostq_inv ost" "ostq_live ost = L" using L by auto
    have sl: "ostq_slot ost k = ostq_slot ?ost (Suc k)" for k using ostq_free_slot [OF d(1) _ _ o(1)] False by simp
    define l' where "l' = l\<lparr>c_bti_rsp_mst := t, c_ost := ost\<rparr>"
    have step: "l1_send_ost_rsp l = Some l'"
      using False ostq_peek_live [OF d(1)] L vld t(1) o(1) r0 by (simp add: l1_send_ost_rsp_def l1_send_rsp_by_id_def l'_def)
    have ex: "\<exists>k<length E'. ostq_slot ost k = n" if "\<exists>k<length E. ostq_slot ?ost k = n" "ostq_slot ?ost 0 \<noteq> n" for n
    proof -
      from that obtain k where "k < length E" "ostq_slot ?ost k = n" by blast
      with that(2) E sl show ?thesis by (cases k) auto
    qed
    have ok': "slot_ok (c_eng l) (c_hit_pipe_vld l) (c_hit_pipe l) V (ostq_slot ost k) (L ! k) (E' ! k)" if "k < length E'" for k
      using d(6) [of "Suc k"] that L E sl by simp
    have "ost_inv (c_eng l) (c_hit_pipe_vld l) (c_hit_pipe l) ost V E'"
      unfolding ost_inv_def using o E ok' ex d(3-5) n0 by simp
    then have "l1_core l' x V E' S" using core t(2) unfolding l1_core_def l1_ports_def l'_def by simp
    moreover have "itf_list (c_bti_rsp_mst l') @ E' = itf_list (c_bti_rsp_mst l) @ E" using t(3) E by (simp add: l'_def)
    ultimately show ?thesis using step unfolding l'_def by blast
  qed
qed

section \<open>Accepting a request\<close>

definition fresh_ctx :: "bti_req \<Rightarrow> l1_ost_ctx" where
  "fresh_ctx r = \<lparr>o_trans_id = bq_trans_id r, o_kind = L1_OST_CACHED, o_req = r, o_bypass_split = False, o_bypass_req_idx = 0, o_bypass_rsp_idx = 0,
     o_rsp_vld = False, o_rsp_delay_pend = False, o_ok = False, o_data = 0, o_delay = 0\<rparr>"

lemma alloc_ost_ok:
  assumes inv: "ost_inv e False hp (c_ost l) V E" and room: "\<not> ostq_full (c_ost l)"
  obtains n ost where "l1_alloc_ost l r L1_OST_CACHED = Some (Some n, l\<lparr>c_ost := ost\<rparr>)" "busy e \<Longrightarrow> n \<noteq> m_active_slot e"
    "\<And>e' vld' hp' V' q. (\<And>k c r. k \<noteq> n \<Longrightarrow> slot_ok e False hp V k c r \<Longrightarrow> slot_ok e' vld' hp' V' k c r) \<Longrightarrow>
      slot_ok e' vld' hp' V' n (fresh_ctx r) q \<Longrightarrow> (busy e' \<Longrightarrow> busy e \<and> m_active_slot e' = m_active_slot e \<or> m_active_slot e' = n) \<Longrightarrow>
      (vld' \<Longrightarrow> hp_slot hp' = n \<and> (busy e' \<longrightarrow> m_active_slot e' \<noteq> n)) \<Longrightarrow> ost_inv e' vld' hp' ost V' (E @ [q])"
proof -
  note d = ost_invD [OF inv]
  let ?n = "ostq_slot (c_ost l) (length E)"
  from ostq_alloc_live [OF d(1) room, of "fresh_ctx r"] obtain ost where o: "ostq_alloc (c_ost l) (fresh_ctx r) = Some (Some (?n, ost))" "ostq_inv ost"
    "ostq_live ost = ostq_live (c_ost l) @ [fresh_ctx r]" "ostq_slot ost = ostq_slot (c_ost l)" unfolding d(2) by blast
  have len: "length (ostq_live ost) = Suc (length E)" using o(3) d(2) by simp
  have ne: "ostq_slot (c_ost l) k \<noteq> ?n" if "k < length E" for k
    using ostq_slot_inj [OF o(2), of k "length E"] that len unfolding o(4) by auto
  show thesis
  proof (rule that [of ?n ost])
    show "l1_alloc_ost l r L1_OST_CACHED = Some (Some ?n, l\<lparr>c_ost := ost\<rparr>)" using o(1) room by (simp add: l1_alloc_ost_def fresh_ctx_def)
    show "busy e \<Longrightarrow> ?n \<noteq> m_active_slot e" using d(3) ne by metis
  next
    fix e' vld' hp' V' q
    assume keep: "\<And>k c r. k \<noteq> ?n \<Longrightarrow> slot_ok e False hp V k c r \<Longrightarrow> slot_ok e' vld' hp' V' k c r" and new: "slot_ok e' vld' hp' V' ?n (fresh_ctx r) q"
      and act: "busy e' \<Longrightarrow> busy e \<and> m_active_slot e' = m_active_slot e \<or> m_active_slot e' = ?n" and hit: "vld' \<Longrightarrow> hp_slot hp' = ?n \<and> (busy e' \<longrightarrow> m_active_slot e' \<noteq> ?n)"
    have "slot_ok e' vld' hp' V' (ostq_slot ost k) (ostq_live ost ! k) ((E @ [q]) ! k)" if "k < length (E @ [q])" for k
    proof (cases "k < length E")
      case True
      from keep [OF ne [OF True] d(6) [OF True]] True d(2) show ?thesis by (simp add: o nth_append)
    next
      case False
      then have "k = length E" using that by simp
      then show ?thesis using new d(2) by (simp add: o nth_append)
    qed
    moreover have "\<exists>k<length (E @ [q]). ostq_slot ost k = m_active_slot e'" if "busy e'"
    proof (cases "m_active_slot e' = ?n")
      case True
      then show ?thesis by (intro exI [of _ "length E"]) (simp add: o)
    next
      case False
      with act [OF that] d(3) obtain k where "k < length E" "ostq_slot (c_ost l) k = m_active_slot e'" by auto
      then show ?thesis by (intro exI [of _ k]) (simp add: o)
    qed
    moreover have "(\<exists>k<length (E @ [q]). ostq_slot ost k = hp_slot hp') \<and> (busy e' \<longrightarrow> hp_slot hp' \<noteq> m_active_slot e')" if "vld'"
      using hit [OF that] by (auto intro!: exI [of _ "length E"] simp: o)
    ultimately show "ost_inv e' vld' hp' ost V' (E @ [q])" using o(2) len unfolding ost_inv_def by simp
  qed
qed

definition pipe_ok :: "l1 \<Rightarrow> bool" where
  "pipe_ok l \<longleftrightarrow> (c_lookup_pipe_vld l \<longrightarrow> plain_req (lp_req (c_lookup_pipe l)) \<and> \<not> lp_bypass (c_lookup_pipe l)
     \<and> \<not> (k_ro (c_conf l) \<and> bq_cmd (lp_req (c_lookup_pipe l)) = BTI_REQ_CMD_WRITE)
     \<and> (lp_hit (c_lookup_pipe l) \<longrightarrow> lp_line_idx (c_lookup_pipe l) < c_set_num l * k_way_num (c_conf l)
        \<and> lp_line_idx (c_lookup_pipe l) div k_way_num (c_conf l) = lnum (bq_addr (lp_req (c_lookup_pipe l))) mod c_set_num l))"

lemma core_perf: "l1_core (l\<lparr>c_perf := p\<rparr>) x V E S = l1_core l x V E S"
  by (simp add: l1_core_def l1_ports_def)

lemma pending_mem_idle: "\<not> busy e \<Longrightarrow> pending_mem e False hp V = V"
  by (simp add: pending_mem_def)

text \<open>A hit is accepted: it falls on another line than the miss under way.\<close>

lemma accept_hit_ok:
  assumes core: "l1_core l x V E S" and nv: "\<not> c_hit_pipe_vld l" and room: "\<not> ostq_full (c_ost l)" and r: "plain_req r"
    and i: "i < c_set_num l * k_way_num (c_conf l)" "a_valids (c_arr l) ! i" "\<not> l1_active_line_conflict l i"
    and ln: "ln_of (k_way_num (c_conf l)) (c_set_num l) (c_arr l) i = lnum (bq_addr r)"
  shows "\<exists>n ost. l1_alloc_ost l r L1_OST_CACHED = Some (Some n, l\<lparr>c_ost := ost\<rparr>) \<and>
    l1_core (l\<lparr>c_ost := ost, c_lookup_pipe_vld := False, c_hit_pipe_vld := True, c_hit_pipe := \<lparr>hp_req = r, hp_slot = n, hp_way = wy, hp_line_idx = i\<rparr>\<rparr>)
      x V (E @ [req_rsp S r]) (req_mem r S)"
proof -
  note c = l1_coreD [OF core]
  let ?w = "k_way_num (c_conf l)" and ?s = "c_set_num l" and ?e = "c_eng l"
  have ni: "i \<noteq> m_req_line_idx ?e" if "busy ?e" using i(3) that by (auto simp: l1_active_line_conflict_def busy_def)
  have o: "owned ?w ?s (c_arr l) ?e i" using i ni by (auto simp: owned_def refilling_def busy_def)
  have dif: "lnum (bq_addr (m_req ?e)) \<noteq> lnum (bq_addr r)" if b: "busy ?e"
  proof -
    consider "writing_back ?e" | "in_refill ?e" | "m_state ?e = L1_STATE_SERVE_MISS" using eng_invD(1) [OF c(3) b] by blast
    then show ?thesis
    proof cases
      case 3
      have "owned ?w ?s (c_arr l) ?e (m_req_line_idx ?e)"
        using eng_invD(8) [OF c(3) 3] eng_line_idx(1) [OF arr_invD(1) [OF c(2)] c(3) b] 3 by (simp add: owned_def refilling_def)
      with arr_invD(3) [OF c(2) o] ni [OF b] ln eng_invD(9) [OF c(3) 3] show ?thesis by metis
    qed (use eng_invD(6,7) [OF c(3) _ o] ln in metis)+
  qed
  have A: "one_line (m_req ?e)" if "busy ?e" using eng_invD(2) [OF c(3) that] plain_reqD(1) by (simp add: eng_req_def)
  have q: "req_rsp S r = req_rsp V r"
    using c(8) nv req_rsp_other [OF A plain_reqD(1) [OF r] dif] by (simp add: pending_mem_def)
  have inv: "ost_inv ?e False (c_hit_pipe l) (c_ost l) V E" using c(7) nv by simp
  obtain n ost where n: "l1_alloc_ost l r L1_OST_CACHED = Some (Some n, l\<lparr>c_ost := ost\<rparr>)" "busy ?e \<Longrightarrow> n \<noteq> m_active_slot ?e" and
    keep: "\<And>e' vld' hp' V' q. (\<And>k c r. k \<noteq> n \<Longrightarrow> slot_ok ?e False (c_hit_pipe l) V k c r \<Longrightarrow> slot_ok e' vld' hp' V' k c r) \<Longrightarrow>
      slot_ok e' vld' hp' V' n (fresh_ctx r) q \<Longrightarrow> (busy e' \<Longrightarrow> busy ?e \<and> m_active_slot e' = m_active_slot ?e \<or> m_active_slot e' = n) \<Longrightarrow>
      (vld' \<Longrightarrow> hp_slot hp' = n \<and> (busy e' \<longrightarrow> m_active_slot e' \<noteq> n)) \<Longrightarrow> ost_inv e' vld' hp' ost V' (E @ [q])"
    by (rule alloc_ost_ok [OF inv room]) blast
  let ?hp = "\<lparr>hp_req = r, hp_slot = n, hp_way = wy, hp_line_idx = i\<rparr>"
  have ost: "ost_inv ?e True ?hp ost V (E @ [req_rsp V r])"
  proof (rule keep)
    show "slot_ok ?e True ?hp V n (fresh_ctx r) (req_rsp V r)" using n(2) by (auto simp: slot_ok_def fresh_ctx_def)
    show "slot_ok ?e True ?hp V k c q" if "k \<noteq> n" "slot_ok ?e False (c_hit_pipe l) V k c q" for k c q
      using that unfolding slot_ok_def by simp
  qed (use n(2) in auto)
  have "hit_inv ?w ?s (c_arr l) ?e True ?hp" using r o ln ni dif by (auto simp: hit_inv_def)
  moreover have "req_mem r S = pending_mem ?e True ?hp V" using c(8) nv by (simp add: pending_mem_def)
  ultimately have "l1_core (l\<lparr>c_ost := ost, c_lookup_pipe_vld := False, c_hit_pipe_vld := True, c_hit_pipe := ?hp\<rparr>) x V (E @ [req_rsp S r]) (req_mem r S)"
    using c(1-3,5,6) ost q unfolding l1_core_def l1_ports_def by simp
  with n(1) show ?thesis by blast
qed

text \<open>A miss is accepted while the engine is idle.\<close>

lemma accept_miss_ok:
  assumes core: "l1_core l x V E S" and nv: "\<not> c_hit_pipe_vld l" and room: "\<not> ostq_full (c_ost l)" and r: "plain_req r" and idle: "\<not> busy (c_eng l)"
  shows "\<exists>n ost l'. l1_alloc_ost l r L1_OST_CACHED = Some (Some n, l\<lparr>c_ost := ost\<rparr>)
    \<and> l1_start_cached_fragment (l1_activate (l\<lparr>c_ost := ost\<rparr>) r n) = Some l'
    \<and> l1_core l' x V (E @ [req_rsp S r]) (req_mem r S) \<and> (\<exists>e a p. l' = l\<lparr>c_ost := ost, c_lookup_pipe_vld := False, c_eng := e, c_arr := a, c_perf := p\<rparr>)"
proof -
  note c = l1_coreD [OF core]
  let ?w = "k_way_num (c_conf l)" and ?s = "c_set_num l" and ?e = "c_eng l" and ?a = "c_arr l" and ?x = "bq_addr r"
  have S: "S = V" using c(8) nv idle by (simp add: pending_mem_idle)
  have inv: "ost_inv ?e False (c_hit_pipe l) (c_ost l) V E" using c(7) nv by simp
  obtain n ost where n: "l1_alloc_ost l r L1_OST_CACHED = Some (Some n, l\<lparr>c_ost := ost\<rparr>)" and
    keep: "\<And>e' vld' hp' V' q. (\<And>k c r. k \<noteq> n \<Longrightarrow> slot_ok ?e False (c_hit_pipe l) V k c r \<Longrightarrow> slot_ok e' vld' hp' V' k c r) \<Longrightarrow>
      slot_ok e' vld' hp' V' n (fresh_ctx r) q \<Longrightarrow> (busy e' \<Longrightarrow> busy ?e \<and> m_active_slot e' = m_active_slot ?e \<or> m_active_slot e' = n) \<Longrightarrow>
      (vld' \<Longrightarrow> hp_slot hp' = n \<and> (busy e' \<longrightarrow> m_active_slot e' \<noteq> n)) \<Longrightarrow> ost_inv e' vld' hp' ost V' (E @ [q])"
    by (rule alloc_ost_ok [OF inv room]) blast
  define l2 where "l2 = l1_activate (l\<lparr>c_ost := ost\<rparr>) r n"
  have l2: "c_conf l2 = c_conf l" "c_set_num l2 = ?s" "c_arr l2 = ?a" "m_req_byte_idx (c_eng l2) = 0" "m_req (c_eng l2) = r" "m_op_ok (c_eng l2)"
    "m_active_slot (c_eng l2) = n" "m_req_data (c_eng l2) = 0" by (simp_all add: l2_def l1_activate_def)
  have wf2: "arr_wf (k_way_num (c_conf l2)) (c_set_num l2) (c_arr l2)" using arr_invD(1) [OF c(2)] l2 by simp
  from l1_start_fragment_ok [OF wf2 l2(4), unfolded l2] obtain k e a p rw where
    f: "l1_start_cached_fragment l2 = Some (l2\<lparr>c_eng := e, c_arr := a, c_perf := p\<rparr>)" "a = ?a\<lparr>a_replace_ways := rw\<rparr>" "arr_wf ?w ?s a"
    "m_state e = start_state k" "m_req_line_addr e = l1_req_line_addr ?x" "m_req_set e = lnum ?x mod ?s" "m_req_tag e = lnum ?x div ?s"
    "m_req_line_idx e < ?s * ?w" "m_req_line_idx e div ?w = lnum ?x mod ?s" "m_active_slot e = n" "m_req e = r" "m_op_ok e = m_op_ok (c_eng l2)" "m_req_byte_idx e = 0" "m_req_data e = 0"
    "k = Served \<longrightarrow> a_valids a ! m_req_line_idx e \<and> ln_of ?w ?s a (m_req_line_idx e) = lnum ?x"
    "k \<noteq> Served \<longrightarrow> m_beat_idx e = 0 \<and> (\<forall>i < ?s * ?w. a_valids a ! i \<longrightarrow> ln_of ?w ?s a i \<noteq> lnum ?x)"
    "k = WriteBack \<longrightarrow> a_valids a ! m_req_line_idx e \<and> a_dirtys a ! m_req_line_idx e \<and> m_wb_line_addr e = of_nat (ln_of ?w ?s a (m_req_line_idx e) * 64)"
    "k = Refill \<longrightarrow> \<not> (a_valids a ! m_req_line_idx e \<and> a_dirtys a ! m_req_line_idx e)"
    by (elim exE conjE) (rule that)
  define l' where "l' = l\<lparr>c_ost := ost, c_lookup_pipe_vld := False, c_eng := e, c_arr := a, c_perf := p\<rparr>"
  have step: "l1_start_cached_fragment l2 = Some l'" using f(1) by (simp add: l'_def l2_def l1_activate_def)
  have b: "busy e" using f(4) by (cases k) (simp_all add: busy_def)
  have as: "a_tags a = a_tags ?a" "a_valids a = a_valids ?a" "a_dirtys a = a_dirtys ?a" "a_data a = a_data ?a" using f(2) by simp_all
  have nr: "\<not> refilling ?e i" for i using idle by (simp add: refilling_def busy_def)
  have arr: "arr_inv ?w ?s a e (x_mem x) V"
  proof (cases "k = Refill")
    case True
    have "refilling e i \<longleftrightarrow> i = m_req_line_idx e" for i using True f(4) by (auto simp: refilling_def)
    then have own: "owned ?w ?s a e i \<longleftrightarrow> owned ?w ?s ?a ?e i \<and> i \<noteq> m_req_line_idx e" for i using as nr by (auto simp: owned_def)
    show ?thesis by (rule arr_inv_disown [OF c(2) f(3) own]) (use as f(18) True in \<open>auto simp: owned_def\<close>)
  next
    case False
    have "\<not> refilling e i" for i using False f(4) by (cases k) (auto simp: refilling_def)
    then have own: "owned ?w ?s a e i = owned ?w ?s ?a ?e i" for i using as nr by (auto simp: owned_def)
    show ?thesis by (rule arr_inv_cong [OF c(2) f(3) own]) (use as in simp_all)
  qed
  have req: "eng_req ?w ?s e" using f(5,7-14) l2(6) r by (simp add: eng_req_def)
  have eng: "eng_inv ?w ?s a e" unfolding eng_inv_def
    using req f(4,11) f(15-17) by (cases k) (auto simp: writing_back_def in_refill_def busy_def owned_def)
  have ost: "ost_inv e False (c_hit_pipe l) ost V (E @ [req_rsp V r])"
  proof (rule keep)
    show "slot_ok e False (c_hit_pipe l) V n (fresh_ctx r) (req_rsp V r)" using b f(10,11) by (auto simp: slot_ok_def fresh_ctx_def)
    show "slot_ok e False (c_hit_pipe l) V k c q" if "k \<noteq> n" "slot_ok ?e False (c_hit_pipe l) V k c q" for k c q
      using that idle f(10) unfolding slot_ok_def by simp
  qed (use f(10) in auto)
  have ns: "m_state e \<noteq> L1_STATE_WB_W" "m_state e \<noteq> L1_STATE_WB_B" "m_state e \<noteq> L1_STATE_REFILL_R" using f(4) by (cases k; simp)+
  have "wr_inv a e (itf_list (c_axi4_aw_mst l)) (itf_list (c_axi4_w_mst l)) (itf_list (c_axi4_b_slv l)) x"
    using c(5) idle ns unfolding wr_inv_def busy_def by simp
  moreover have "rd_inv a e (itf_list (c_axi4_ar_mst l)) (itf_list (c_axi4_r_slv l)) x"
    using c(6) idle ns unfolding rd_inv_def busy_def by simp
  moreover have "req_mem r S = pending_mem e False (c_hit_pipe l) V" using S b f(11) by (simp add: pending_mem_def)
  moreover have "hit_inv ?w ?s a e False (c_hit_pipe l)" by (simp add: hit_inv_def)
  ultimately have "l1_core l' x V (E @ [req_rsp S r]) (req_mem r S)"
    using c(1) arr eng ost nv S unfolding l1_core_def l1_ports_def l'_def by simp
  with n step show ?thesis unfolding l2_def l'_def by blast
qed

lemma no_bypass_slot:
  assumes inv: "ost_inv e vld hp ost V E" and i: "i < q_depth ost"
  shows "ostq_slot_valid ost i = Some False \<or> ostq_slot_valid ost i = Some True \<and> (\<exists>c. ostq_read_slot ost i = Some c \<and> o_kind c = L1_OST_CACHED)"
proof -
  note d = ost_invD [OF inv]
  from d(1) i show ?thesis
  proof (cases rule: ostq_slot_cases)
    case (live k)
    with ostq_slot_valid_live [OF d(1) live(1)] ostq_read_live [OF d(1) live(1)] d(6) [of k] d(2) show ?thesis by (simp add: slot_ok_def)
  qed simp
qed

lemma has_bypass_ost_ok:
  assumes "l1_core l x V E S"
  shows "l1_has_bypass_ost l = Some False"
proof -
  have "l1_bypass_ost_loop (c_ost l) ks = Some False" if "\<forall>i\<in>set ks. i < q_depth (c_ost l)" for ks
    using that
  proof (induction ks)
    case (Cons i ks)
    then have "i < q_depth (c_ost l)" by simp
    from no_bypass_slot [OF l1_coreD(7) [OF assms] this] Cons show ?case by (elim disjE conjE exE) simp_all
  qed simp
  then show ?thesis by (simp add: l1_has_bypass_ost_def)
qed

definition pend_lookup :: "l1 \<Rightarrow> bti_req list" where
  "pend_lookup l = (if c_lookup_pipe_vld l then [lp_req (c_lookup_pipe l)] else [])"

definition l1_staged :: "l1 \<Rightarrow> _" where
  "l1_staged l = (c_bti_req_slv l, c_bti_rsp_mst l, c_conf l, c_set_num l, c_req_fifo l, c_req_pipe_vld l, c_req_pipe l)"

lemma proc_lookup_pipe_ok:
  assumes core: "l1_core l x V E S" and nv: "\<not> c_hit_pipe_vld l" and pipe: "pipe_ok l"
  shows "\<exists>l' rs. l1_proc_lookup_pipe l = Some l' \<and> l1_core l' x V (E @ spec_rsps S rs) (spec_mem S rs) \<and> pend_lookup l = rs @ pend_lookup l'
    \<and> pipe_ok l' \<and> l1_staged l' = l1_staged l"
proof (cases "c_lookup_pipe_vld l")
  case False
  with core pipe show ?thesis by (intro exI [of _ l] exI [of _ "[]"]) (simp add: l1_proc_lookup_pipe_def)
next
  case True
  note c = l1_coreD [OF core]
  let ?w = "k_way_num (c_conf l)" and ?s = "c_set_num l" and ?e = "c_eng l" and ?a = "c_arr l" and ?lp = "c_lookup_pipe l"
  let ?r = "lp_req (c_lookup_pipe l)"
  have p: "plain_req ?r" "\<not> lp_bypass ?lp" "\<not> (k_ro (c_conf l) \<and> bq_cmd ?r = BTI_REQ_CMD_WRITE)"
    "lp_hit ?lp \<Longrightarrow> lp_line_idx ?lp < ?s * ?w \<and> lp_line_idx ?lp div ?w = lnum (bq_addr ?r) mod ?s"
    using pipe True unfolding pipe_ok_def by blast+
  have cmd: "bq_cmd ?r = BTI_REQ_CMD_READ \<or> bq_cmd ?r = BTI_REQ_CMD_WRITE" "\<not> l1_req_is_cbo (bq_cmd ?r)" using p(1) by (auto simp: plain_req_def l1_req_is_cbo_def)
  have nf: "\<not> l1_state_is_flush (m_state ?e)" using no_flush [OF c(3)] by (simp add: l1_state_is_flush_def)
  have stay: "\<exists>l' rs. Some (l\<lparr>c_perf := pf\<rparr>) = Some l' \<and> l1_core l' x V (E @ spec_rsps S rs) (spec_mem S rs) \<and> pend_lookup l = rs @ pend_lookup l'
    \<and> pipe_ok l' \<and> l1_staged l' = l1_staged l" for pf
    using core pipe by (intro exI [of _ "l\<lparr>c_perf := pf\<rparr>"] exI [of _ "[]"]) (simp add: core_perf pend_lookup_def pipe_ok_def l1_staged_def)
  show ?thesis
  proof (cases "ostq_full (c_ost l)")
    case full: True
    then show ?thesis using stay True nf by (simp add: l1_proc_lookup_pipe_def)
  next
    case room: False
    have wf: "arr_wf ?w ?s ?a" by (rule arr_invD(1) [OF c(2)])
    define hit where "hit \<longleftrightarrow> lp_hit ?lp \<and> a_valids ?a ! lp_line_idx ?lp \<and> a_tags ?a ! lp_line_idx ?lp = l1_req_tag l (bq_addr ?r) \<and> \<not> l1_active_line_conflict l (lp_line_idx ?lp)"
    have hv: "l1_lookup_pipe_hit_valid l = Some hit"
      using p(4) arr_wfD(3,4) [OF wf] by (auto simp: l1_lookup_pipe_hit_valid_def hit_def Let_def)
    show ?thesis
    proof (cases hit)
      case h: True
      let ?l = "l\<lparr>c_perf := (c_perf l)\<lparr>p_hit := p_hit (c_perf l) + 1\<rparr>\<rparr>"
      have i: "lp_line_idx ?lp < ?s * ?w" "lp_line_idx ?lp div ?w = lnum (bq_addr ?r) mod ?s" using p(4) h by (simp_all add: hit_def)
      have ln: "ln_of ?w ?s ?a (lp_line_idx ?lp) = lnum (bq_addr ?r)"
        using ln_of_eq_iff [OF arr_wfD(1) [OF wf] i(1)] h i(2) by (simp add: hit_def l1_req_tag_eq)
      have "l1_core ?l x V E S" using core by (simp add: core_perf)
      from accept_hit_ok [OF this, of ?r "lp_line_idx ?lp" "lp_way ?lp"] nv room p(1) i(1) h ln obtain n ost where
        n: "l1_alloc_ost ?l ?r L1_OST_CACHED = Some (Some n, ?l\<lparr>c_ost := ost\<rparr>)"
        "l1_core (?l\<lparr>c_ost := ost, c_lookup_pipe_vld := False, c_hit_pipe_vld := True,
           c_hit_pipe := \<lparr>hp_req = ?r, hp_slot = n, hp_way = lp_way ?lp, hp_line_idx = lp_line_idx ?lp\<rparr>\<rparr>) x V (E @ [req_rsp S ?r]) (req_mem ?r S)"
        by (auto simp: hit_def l1_active_line_conflict_def)
      define l' where "l' = ?l\<lparr>c_ost := ost, c_lookup_pipe_vld := False, c_hit_pipe_vld := True,
           c_hit_pipe := \<lparr>hp_req = ?r, hp_slot = n, hp_way = lp_way ?lp, hp_line_idx = lp_line_idx ?lp\<rparr>\<rparr>"
      have "l1_proc_lookup_pipe l = Some l'"
        using True nf room cmd p(2,3) hv h n(1) by (auto simp: l1_proc_lookup_pipe_def Let_def l'_def)
      moreover have "pend_lookup l = [?r] @ pend_lookup l'" "pipe_ok l'" "l1_staged l' = l1_staged l"
        using True by (simp_all add: pend_lookup_def pipe_ok_def l1_staged_def l'_def)
      ultimately show ?thesis using n(2) by (intro exI [of _ l'] exI [of _ "[?r]"]) (simp add: l'_def)
    next
      case nh: False
      show ?thesis
      proof (cases "busy ?e")
        case b: True
        then have "l1_proc_lookup_pipe l = Some (l\<lparr>c_perf := (c_perf l)\<lparr>p_miss_busy := p_miss_busy (c_perf l) + 1\<rparr>\<rparr>)"
          using True nf room cmd p(2,3) hv nh by (auto simp: l1_proc_lookup_pipe_def Let_def busy_def)
        then show ?thesis using stay by simp
      next
        case nb: False
        from accept_miss_ok [OF core nv room p(1) nb] obtain n ost l' e a pf where
          n: "l1_alloc_ost l ?r L1_OST_CACHED = Some (Some n, l\<lparr>c_ost := ost\<rparr>)" "l1_start_cached_fragment (l1_activate (l\<lparr>c_ost := ost\<rparr>) ?r n) = Some l'"
          "l1_core l' x V (E @ [req_rsp S ?r]) (req_mem ?r S)" "l' = l\<lparr>c_ost := ost, c_lookup_pipe_vld := False, c_eng := e, c_arr := a, c_perf := pf\<rparr>" by blast
        have "l1_proc_lookup_pipe l = Some l'"
          using True nf room cmd p(2,3) hv nh nb has_bypass_ost_ok [OF core] n(1,2) by (auto simp: l1_proc_lookup_pipe_def Let_def busy_def)
        moreover have "pend_lookup l = [?r] @ pend_lookup l'" "pipe_ok l'" "l1_staged l' = l1_staged l"
          using True by (simp_all add: pend_lookup_def pipe_ok_def l1_staged_def n(4))
        ultimately show ?thesis using n(3) by (intro exI [of _ l'] exI [of _ "[?r]"]) simp
      qed
    qed
  qed
qed

section \<open>Staging\<close>

text \<open>The requests this cache serves from its lines.\<close>

definition cached_req :: "l1 \<Rightarrow> bti_req \<Rightarrow> bool" where
  "cached_req l r \<longleftrightarrow> plain_req r \<and> \<not> l1_bypass l (bq_addr r) \<and> \<not> (k_ro (c_conf l) \<and> bq_cmd r = BTI_REQ_CMD_WRITE)"

definition pend_req :: "l1 \<Rightarrow> bti_req list" where
  "pend_req l = (if c_req_pipe_vld l then [c_req_pipe l] else []) @ fifo_list (c_req_fifo l) @ itf_list (c_bti_req_slv l)"

definition pending :: "l1 \<Rightarrow> bti_req list" where
  "pending l = pend_lookup l @ pend_req l"

lemma cached_req_conf: "c_conf l' = c_conf l \<Longrightarrow> cached_req l' r = cached_req l r"
  by (simp add: cached_req_def l1_bypass_def)

lemma lookup_fast_hit_ok:
  assumes wf: "arr_wf (k_way_num (c_conf l)) (c_set_num l) (c_arr l)" and r: "plain_req r"
  shows "\<exists>f. l1_lookup_fast_hit l r = Some f \<and> (\<forall>wy i. f = Some (wy, i) \<longrightarrow> i < c_set_num l * k_way_num (c_conf l)
    \<and> i div k_way_num (c_conf l) = lnum (bq_addr r) mod c_set_num l)"
proof -
  note p = plain_reqD [OF r]
  have q1: "bq_addr r + of_nat (l1_req_size_from r) - 1 = bq_addr r + of_nat (l1_req_size_from r - 1)" using p(4) by (simp add: of_nat_diff)
  have q2: "lnum (bq_addr r + of_nat (l1_req_size_from r - 1)) = lnum (bq_addr r)"
    by (rule in_line(1) [OF bspec [OF p(3)]]) (use p(4) in simp)
  have e: "l1_req_line_addr (bq_addr r + of_nat (l1_req_size_from r) - 1) = l1_req_line_addr (bq_addr r)" unfolding line_addr_eq q1 q2 ..
  from wf show ?thesis
  proof (cases rule: l1_lookup_addr_ok [where x = "bq_addr r"])
    case none
    then show ?thesis using e by (simp add: l1_lookup_fast_hit_def)
  next
    case (found wy i)
    have "i div k_way_num (c_conf l) = lnum (bq_addr r) mod c_set_num l"
      using ln_of_eq_iff [OF arr_wfD(1) [OF wf] found(2)] found(4) by blast
    then show ?thesis using e found by (simp add: l1_lookup_fast_hit_def)
  qed
qed

lemma fill_lookup_pipe_ok:
  assumes core: "l1_core l x V E S" and pipe: "pipe_ok l" and req: "\<forall>r\<in>set (pending l). cached_req l r"
  shows "\<exists>l'. l1_fill_lookup_pipe l = Some l' \<and> l1_core l' x V E S \<and> pipe_ok l' \<and> pending l' = pending l
    \<and> c_conf l' = c_conf l \<and> c_set_num l' = c_set_num l \<and> c_bti_rsp_mst l' = c_bti_rsp_mst l"
proof (cases "c_lookup_pipe_vld l \<or> \<not> c_req_pipe_vld l")
  case True
  with core pipe show ?thesis by (intro exI [of _ l]) (auto simp: l1_fill_lookup_pipe_def)
next
  case False
  note c = l1_coreD [OF core]
  let ?r = "c_req_pipe l" and ?l = "l\<lparr>c_req_pipe_vld := False\<rparr>"
  have nf: "\<not> l1_state_is_flush (m_state (c_eng l))" using no_flush [OF c(3)] by (simp add: l1_state_is_flush_def)
  have r: "cached_req l ?r" using req False by (simp add: pending_def pend_req_def)
  then have pr: "plain_req ?r" and nb: "\<not> l1_bypass l (bq_addr ?r)" by (simp_all add: cached_req_def)
  have cmd: "(\<not> l1_req_is_cbo (bq_cmd ?r) \<and> (bq_cmd ?r = BTI_REQ_CMD_READ \<or> bq_cmd ?r = BTI_REQ_CMD_WRITE)
    \<and> \<not> (k_ro (c_conf l) \<and> bq_cmd ?r = BTI_REQ_CMD_WRITE)) = True"
    using pr r by (auto simp: plain_req_def cached_req_def l1_req_is_cbo_def)
  from lookup_fast_hit_ok [of ?l ?r] arr_invD(1) [OF c(2)] pr obtain f where f: "l1_lookup_fast_hit ?l ?r = Some f"
    "\<forall>wy i. f = Some (wy, i) \<longrightarrow> i < c_set_num l * k_way_num (c_conf l) \<and> i div k_way_num (c_conf l) = lnum (bq_addr ?r) mod c_set_num l" by auto
  define lp where "lp = (case f of None \<Rightarrow> \<lparr>lp_req = ?r, lp_bypass = False, lp_hit = False, lp_way = 0, lp_line_idx = 0\<rparr>
    | Some (wy, i) \<Rightarrow> \<lparr>lp_req = ?r, lp_bypass = False, lp_hit = True, lp_way = wy, lp_line_idx = i\<rparr>)"
  have lp: "lp_req lp = ?r" "\<not> lp_bypass lp" "lp_hit lp \<longrightarrow> lp_line_idx lp < c_set_num l * k_way_num (c_conf l)
      \<and> lp_line_idx lp div k_way_num (c_conf l) = lnum (bq_addr ?r) mod c_set_num l"
    using f(2) by (auto simp: lp_def split: option.splits)
  define l' where "l' = ?l\<lparr>c_lookup_pipe := lp, c_lookup_pipe_vld := True\<rparr>"
  have "l1_fill_lookup_pipe l = Some l'"
    using False nf nb f(1) cmd by (simp add: l1_fill_lookup_pipe_def Let_def l'_def lp_def split: option.split)
  moreover have "l1_core l' x V E S" using core by (simp add: l'_def l1_core_def l1_ports_def)
  moreover have "pipe_ok l'" using lp r by (simp add: pipe_ok_def l'_def cached_req_def)
  moreover have "pending l' = pending l" using False lp(1) by (simp add: pending_def pend_lookup_def pend_req_def l'_def)
  ultimately show ?thesis by (simp add: l'_def)
qed

lemma fill_req_pipe_ok:
  assumes core: "l1_core l x V E S" and pipe: "pipe_ok l"
  shows "\<exists>l'. l1_fill_req_pipe l = Some l' \<and> l1_core l' x V E S \<and> pipe_ok l' \<and> pending l' = pending l
    \<and> c_conf l' = c_conf l \<and> c_set_num l' = c_set_num l \<and> c_bti_rsp_mst l' = c_bti_rsp_mst l"
proof (cases "c_req_pipe_vld l \<or> fifo_empty (c_req_fifo l)")
  case True
  with core pipe show ?thesis by (intro exI [of _ l]) (auto simp: l1_fill_req_pipe_def)
next
  case False
  note c = l1_coreD [OF core]
  have nf: "\<not> l1_state_is_flush (m_state (c_eng l))" using no_flush [OF c(3)] by (simp add: l1_state_is_flush_def)
  from c(1) False obtain r q where q: "fifo_pop (c_req_fifo l) = Some (r, q)" "fifo_inv q" "fifo_list (c_req_fifo l) = r # fifo_list q"
    unfolding l1_ports_def by (metis fifo.pop_not_empty)
  define l' where "l' = l\<lparr>c_req_fifo := q, c_req_pipe := r, c_req_pipe_vld := True\<rparr>"
  have "l1_fill_req_pipe l = Some l'" using False nf q(1) by (simp add: l1_fill_req_pipe_def l'_def)
  moreover have "l1_core l' x V E S" using core q(2) by (simp add: l'_def l1_core_def l1_ports_def)
  moreover have "pipe_ok l'" using pipe by (simp add: pipe_ok_def l'_def)
  moreover have "pending l' = pending l" using False q(3) by (simp add: pending_def pend_lookup_def pend_req_def l'_def)
  ultimately show ?thesis by (simp add: l'_def)
qed

lemma capture_req_ok:
  assumes core: "l1_core l x V E S" and pipe: "pipe_ok l"
  shows "\<exists>l'. l1_capture_req l = Some l' \<and> l1_core l' x V E S \<and> pipe_ok l' \<and> pending l' = pending l
    \<and> c_conf l' = c_conf l \<and> c_set_num l' = c_set_num l \<and> c_bti_rsp_mst l' = c_bti_rsp_mst l"
proof (cases "fifo_full (c_req_fifo l) \<or> itf_fifo_empty (c_bti_req_slv l)")
  case True
  obtain pf where "l1_capture_req l = Some (l\<lparr>c_perf := pf\<rparr>)"
  proof (cases "fifo_full (c_req_fifo l) \<and> \<not> itf_fifo_empty (c_bti_req_slv l)")
    case True
    then show thesis by (intro that) (simp add: l1_capture_req_def)
  next
    case False
    with True show thesis by (intro that [of "c_perf l"]) (auto simp: l1_capture_req_def)
  qed
  with core pipe show ?thesis by (simp add: core_perf pending_def pend_lookup_def pend_req_def pipe_ok_def)
next
  case False
  note c = l1_coreD [OF core]
  from c(1) False obtain r t where t: "itf_read (c_bti_req_slv l) = Some (r, t)" "itf_inv t" "itf_list (c_bti_req_slv l) = r # itf_list t"
    unfolding l1_ports_def by (metis itf.pop_not_empty)
  from c(1) False obtain q where q: "fifo_push (c_req_fifo l) r = Some q" "fifo_inv q" "fifo_list q = fifo_list (c_req_fifo l) @ [r]"
    unfolding l1_ports_def by (metis fifo.push_not_full)
  define l' where "l' = l\<lparr>c_bti_req_slv := t, c_req_fifo := q\<rparr>"
  have "l1_capture_req l = Some l'" using False t(1) q(1) by (simp add: l1_capture_req_def l'_def)
  moreover have "l1_core l' x V E S" using core t(2) q(2) by (simp add: l'_def l1_core_def l1_ports_def)
  moreover have "pipe_ok l'" using pipe by (simp add: pipe_ok_def l'_def)
  moreover have "pending l' = pending l" using t(3) q(3) by (simp add: pending_def pend_lookup_def pend_req_def l'_def)
  ultimately show ?thesis by (simp add: l'_def)
qed

section \<open>Steps that have nothing to do\<close>

lemma find_bypass_none:
  assumes "l1_core l x V E S" "k \<noteq> L1_OST_CACHED"
  shows "l1_find_bypass_issue_slot l k = Some None"
proof -
  note d = ost_invD [OF l1_coreD(7) [OF assms(1)]]
  have "o_kind c = L1_OST_CACHED" if "c \<in> set (ostq_live (c_ost l))" for c
  proof -
    from that obtain j where "j < length (ostq_live (c_ost l))" "ostq_live (c_ost l) ! j = c" by (auto simp: in_set_conv_nth)
    with d(6) [of j] d(2) show ?thesis by (auto simp: slot_ok_def)
  qed
  with assms(2) have "find_idx (\<lambda>cur. o_kind cur = k \<and> l1_bypass_slot_can_issue cur) (ostq_live (c_ost l)) = None" by (auto simp: find_idx_None)
  then show ?thesis by (simp add: l1_find_bypass_issue_slot_def ostq_find_eq [OF d(1)])
qed

lemma bypass_idle:
  assumes core: "l1_core l x V E S"
  shows "l1_proc_bypass_rd_wait l = Some l" "l1_proc_bypass_wr_wait l = Some l" "l1_proc_bypass_rd_issue l = Some l" "l1_proc_bypass_wr_issue l = Some l"
proof -
  note c = l1_coreD [OF core]
  have slot: "(if n \<ge> q_depth (c_ost l) then Some False else ostq_slot_valid (c_ost l) n) = Some False
    \<or> (if n \<ge> q_depth (c_ost l) then Some False else ostq_slot_valid (c_ost l) n) = Some True \<and> (\<exists>c. ostq_read_slot (c_ost l) n = Some c \<and> o_kind c = L1_OST_CACHED)" for n
    using no_bypass_slot [OF c(7), of n] by auto
  show "l1_proc_bypass_rd_wait l = Some l"
  proof (cases "itf_fifo_empty (c_axi4_r_slv l)")
    case False
    with c(1) obtain r where "itf_fifo_get_front (c_axi4_r_slv l) = Some r" unfolding l1_ports_def by (metis itf.pop_not_empty)
    with False slot [of "unat (ax_id r)"] show ?thesis by (elim disjE conjE exE) (simp_all add: l1_proc_bypass_rd_wait_def Let_def)
  qed (simp add: l1_proc_bypass_rd_wait_def)
  show "l1_proc_bypass_wr_wait l = Some l"
  proof (cases "itf_fifo_empty (c_axi4_b_slv l)")
    case False
    with c(1) obtain r where "itf_fifo_get_front (c_axi4_b_slv l) = Some r" unfolding l1_ports_def by (metis itf.pop_not_empty)
    with False slot [of "unat (ab_id r)"] show ?thesis by (elim disjE conjE exE) (simp_all add: l1_proc_bypass_wr_wait_def Let_def)
  qed (simp add: l1_proc_bypass_wr_wait_def)
  show "l1_proc_bypass_rd_issue l = Some l" "l1_proc_bypass_wr_issue l = Some l"
    using find_bypass_none [OF core] by (simp_all add: l1_proc_bypass_rd_issue_def l1_proc_bypass_wr_issue_def)
qed

lemma others_idle:
  assumes core: "l1_core l x V E S"
  shows "l1_proc_flush l = Some l" "l1_proc_flush_check l = Some l" "l1_proc_flush_ack l = Some l" "l1_proc_cmo_l2_r l = Some l"
    "l1_proc_cmo_l1_wb_b l = Some l" "l1_proc_cmo_l1_wb_w l = Some l" "l1_proc_cmo_l1_wb_aw l = Some l" "l1_proc_cmo_l2_ar l = Some l"
proof -
  show "l1_proc_flush l = Some l"
    using l1_coreD(1) [OF core] by (cases "c_flush_slv l") (simp_all add: l1_proc_flush_def l1_ports_def)
qed (use no_flush [OF l1_coreD(3) [OF core]] in \<open>simp_all add: l1_proc_flush_check_def l1_proc_flush_ack_def l1_proc_cmo_l2_r_def
    l1_proc_cmo_l1_wb_b_def l1_proc_cmo_l1_wb_w_def l1_proc_cmo_l1_wb_aw_def l1_proc_cmo_l2_ar_def\<close>)

section \<open>The clock tick\<close>

definition l1_input :: "l1 \<Rightarrow> _" where
  "l1_input l = (c_conf l, c_set_num l, c_req_fifo l, c_req_pipe_vld l, c_req_pipe l, c_bti_req_slv l, c_lookup_pipe_vld l, c_lookup_pipe l)"

lemma l1_inputD:
  assumes "l1_input l' = l1_input l"
  shows "pending l' = pending l" "pipe_ok l' = pipe_ok l" "c_conf l' = c_conf l" "c_set_num l' = c_set_num l" "pend_lookup l' = pend_lookup l" "pend_req l' = pend_req l"
  using assms unfolding l1_input_def by (simp_all add: pending_def pend_lookup_def pend_req_def pipe_ok_def)

lemma front_input: "l1_front l' = l1_front l \<Longrightarrow> l1_input l' = l1_input l \<and> c_bti_rsp_mst l' = c_bti_rsp_mst l \<and> c_hit_pipe_vld l' = c_hit_pipe_vld l"
  by (simp add: l1_front_def l1_input_def)

text \<open>The first half: the table, the engine, the answers and the hit under way.\<close>

definition l1_tick_serve :: "l1 \<Rightarrow> l1 option" where
  "l1_tick_serve l = do {
     ost \<leftarrow> ostq_clock (c_ost l);
     l \<leftarrow> l1_tick_rsp_delay (l\<lparr>c_ost := ost\<rparr>);
     l \<leftarrow> l1_proc_wb_b l;
     l \<leftarrow> l1_proc_refill_r l;
     l \<leftarrow> l1_proc_serve_miss l;
     l \<leftarrow> l1_send_ost_rsp l;
     l \<leftarrow> l1_proc_hit_pipe l;
     l \<leftarrow> l1_proc_wb_w l;
     l \<leftarrow> l1_proc_wb_aw l;
     l1_proc_refill_ar l
   }"

definition l1_tick_accept :: "l1 \<Rightarrow> l1 option" where
  "l1_tick_accept l = do {
     l \<leftarrow> l1_proc_lookup_pipe l;
     l \<leftarrow> l1_fill_lookup_pipe l;
     l \<leftarrow> l1_fill_req_pipe l;
     l1_capture_req l
   }"

text \<open>Without flushes, bypassed accesses and cache maintenance the tick is these two halves.\<close>

lemma l1_clock_split:
  assumes core: "l1_core l x V E S"
  shows "\<exists>l' V' E'. l1_tick_serve l = Some l' \<and> l1_clock l = l1_tick_accept l' \<and> l1_core l' x V' E' S \<and> \<not> c_hit_pipe_vld l'
    \<and> itf_list (c_bti_rsp_mst l') @ E' = itf_list (c_bti_rsp_mst l) @ E \<and> l1_input l' = l1_input l"
proof -
  obtain ost where a: "ostq_clock (c_ost l) = Some ost" "l1_core (l\<lparr>c_ost := ost\<rparr>) x V E S" using ost_clock_ok [OF core] by blast
  obtain l1 where b: "l1_tick_rsp_delay (l\<lparr>c_ost := ost\<rparr>) = Some l1" "l1_core l1 x V E S" "l1_input l1 = l1_input l" "c_bti_rsp_mst l1 = c_bti_rsp_mst l"
    using tick_rsp_delay_ok [OF a(2)] by (auto simp: l1_input_def)
  obtain l2 where c: "l1_proc_wb_b l1 = Some l2" "l1_core l2 x V E S" "l1_front l2 = l1_front l1" using proc_wb_b_ok [OF b(2)] by blast
  obtain l3 where d: "l1_proc_refill_r l2 = Some l3" "l1_core l3 x V E S" "l1_front l3 = l1_front l2" using proc_refill_r_ok [OF c(2)] by blast
  obtain l4 V4 where e: "l1_proc_serve_miss l3 = Some l4" "l1_core l4 x V4 E S" "l1_input l4 = l1_input l3" "c_bti_rsp_mst l4 = c_bti_rsp_mst l3"
    using proc_serve_miss_ok [OF d(2)] by (auto simp: l1_input_def)
  obtain l5 E5 where f: "l1_send_ost_rsp l4 = Some l5" "l1_core l5 x V4 E5 S" "itf_list (c_bti_rsp_mst l5) @ E5 = itf_list (c_bti_rsp_mst l4) @ E" "l1_input l5 = l1_input l4"
    using send_ost_rsp_ok [OF e(2)] by (auto simp: l1_input_def)
  obtain l6 V6 where g: "l1_proc_hit_pipe l5 = Some l6" "l1_core l6 x V6 E5 S" "\<not> c_hit_pipe_vld l6" "l1_input l6 = l1_input l5" "c_bti_rsp_mst l6 = c_bti_rsp_mst l5"
    using proc_hit_pipe_ok [OF f(2)] by (auto simp: l1_input_def)
  obtain l7 where h: "l1_proc_wb_w l6 = Some l7" "l1_core l7 x V6 E5 S" "l1_front l7 = l1_front l6" using proc_wb_w_ok [OF g(2)] by blast
  obtain l8 where i: "l1_proc_wb_aw l7 = Some l8" "l1_core l8 x V6 E5 S" "l1_front l8 = l1_front l7" using proc_wb_aw_ok [OF h(2)] by blast
  obtain l9 where j: "l1_proc_refill_ar l8 = Some l9" "l1_core l9 x V6 E5 S" "l1_front l9 = l1_front l8" using proc_refill_ar_ok [OF i(2)] by blast
  have serve: "l1_tick_serve l = Some l9" unfolding l1_tick_serve_def by (simp add: a(1) b(1) c(1) d(1) e(1) f(1) g(1) h(1) i(1) j(1))
  have clock: "l1_clock l = l1_tick_accept l9" unfolding l1_clock_def l1_tick_accept_def
    by (simp add: a(1) b(1) c(1) d(1) e(1) f(1) g(1) h(1) i(1) j(1) others_idle [OF b(2)] bypass_idle [OF b(2)] others_idle [OF e(2)])
  note fr = front_input [OF c(3)] front_input [OF d(3)] front_input [OF h(3)] front_input [OF i(3)] front_input [OF j(3)]
  show ?thesis
    by (rule exI [of _ l9], rule exI [of _ V6], rule exI [of _ E5]) (use serve clock j(2) fr b(3,4) e(3,4) f(3,4) g(3-5) in simp)
qed

lemma l1_accept_ok:
  assumes core: "l1_core l x V E S" and nv: "\<not> c_hit_pipe_vld l" and pipe: "pipe_ok l" and req: "\<forall>r\<in>set (pending l). cached_req l r"
  shows "\<exists>l' rs. l1_tick_accept l = Some l' \<and> l1_core l' x V (E @ spec_rsps S rs) (spec_mem S rs) \<and> pipe_ok l' \<and> pending l = rs @ pending l'
    \<and> c_conf l' = c_conf l \<and> c_set_num l' = c_set_num l \<and> c_bti_rsp_mst l' = c_bti_rsp_mst l"
proof -
  obtain l1 rs where a: "l1_proc_lookup_pipe l = Some l1" "l1_core l1 x V (E @ spec_rsps S rs) (spec_mem S rs)" "pend_lookup l = rs @ pend_lookup l1"
    "pipe_ok l1" "l1_staged l1 = l1_staged l" using proc_lookup_pipe_ok [OF core nv pipe] by blast
  have st: "pend_req l1 = pend_req l" "c_conf l1 = c_conf l" "c_set_num l1 = c_set_num l" "c_bti_rsp_mst l1 = c_bti_rsp_mst l"
    using a(5) by (simp_all add: l1_staged_def pend_req_def)
  have p: "pending l = rs @ pending l1" using a(3) st(1) by (simp add: pending_def)
  have "\<forall>r\<in>set (pending l1). cached_req l1 r" using req p cached_req_conf [OF st(2)] by simp
  from fill_lookup_pipe_ok [OF a(2,4) this] obtain l2 where b: "l1_fill_lookup_pipe l1 = Some l2" "l1_core l2 x V (E @ spec_rsps S rs) (spec_mem S rs)" "pipe_ok l2"
    "pending l2 = pending l1" "c_conf l2 = c_conf l1" "c_set_num l2 = c_set_num l1" "c_bti_rsp_mst l2 = c_bti_rsp_mst l1" by blast
  from fill_req_pipe_ok [OF b(2,3)] obtain l3 where c: "l1_fill_req_pipe l2 = Some l3" "l1_core l3 x V (E @ spec_rsps S rs) (spec_mem S rs)" "pipe_ok l3"
    "pending l3 = pending l2" "c_conf l3 = c_conf l2" "c_set_num l3 = c_set_num l2" "c_bti_rsp_mst l3 = c_bti_rsp_mst l2" by blast
  from capture_req_ok [OF c(2,3)] obtain l4 where d: "l1_capture_req l3 = Some l4" "l1_core l4 x V (E @ spec_rsps S rs) (spec_mem S rs)" "pipe_ok l4"
    "pending l4 = pending l3" "c_conf l4 = c_conf l3" "c_set_num l4 = c_set_num l3" "c_bti_rsp_mst l4 = c_bti_rsp_mst l3" by blast
  have "l1_tick_accept l = Some l4" by (simp add: l1_tick_accept_def a(1) b(1) c(1) d(1))
  then show ?thesis using d p b c st by (intro exI [of _ l4] exI [of _ rs]) simp
qed

end
