(* ===== verification/L1Run.thy ===== *)
theory L1Run
  imports L1Tick
begin

text \<open>
  The first-level cache in a closed system: a client that issues requests and takes answers, and a memory behind the AXI channels that
  takes and gives beats, both whenever they like. In every such run the answers are those of a plain memory that serves the requests one
  after the other.
\<close>

section \<open>Runs with a client and a memory\<close>

record l1_sys =
  y_l1 :: l1
  y_axi :: axi_mem
  y_reqs :: "bti_req list"
  y_rsps :: "bti_rsp list"

datatype l1_ev = CTick | CIssue bti_req | CReceive | CTakeAw | CTakeW | CGiveB | CTakeAr | CGiveR

text \<open>
  One event of a run. The client issues a request when there is room and takes an answer when there is one; the memory takes addresses and
  beats and gives answers when it can; an event that cannot happen changes nothing. \<open>None\<close> is an abort of the cache.
\<close>

fun l1_event :: "l1_ev \<Rightarrow> l1_sys \<Rightarrow> l1_sys option" where
  "l1_event CTick y = do { l \<leftarrow> l1_clock (y_l1 y); Some (y\<lparr>y_l1 := l\<rparr>) }"
| "l1_event (CIssue r) y = (let l = y_l1 y in
     if itf_fifo_full (c_bti_req_slv l) then Some y
     else do { t \<leftarrow> itf_write (c_bti_req_slv l) r; Some (y\<lparr>y_l1 := l\<lparr>c_bti_req_slv := t\<rparr>, y_reqs := y_reqs y @ [r]\<rparr>) })"
| "l1_event CReceive y = (let l = y_l1 y in
     if itf_fifo_empty (c_bti_rsp_mst l) then Some y
     else do { (r, t) \<leftarrow> itf_read (c_bti_rsp_mst l); Some (y\<lparr>y_l1 := l\<lparr>c_bti_rsp_mst := t\<rparr>, y_rsps := y_rsps y @ [r]\<rparr>) })"
| "l1_event CTakeAw y = (let l = y_l1 y; x = y_axi y in
     if itf_fifo_empty (c_axi4_aw_mst l) \<or> x_wr x \<noteq> None \<or> x_b x \<noteq> None then Some y
     else do { (aw, t) \<leftarrow> itf_read (c_axi4_aw_mst l);
       Some (y\<lparr>y_l1 := l\<lparr>c_axi4_aw_mst := t\<rparr>, y_axi := x\<lparr>x_wr := Some (aw_id aw, aw_addr aw)\<rparr>\<rparr>) })"
| "l1_event CTakeW y = (let l = y_l1 y; x = y_axi y in
     case x_wr x of None \<Rightarrow> Some y
     | Some (i, a) \<Rightarrow> if itf_fifo_empty (c_axi4_w_mst l) then Some y
         else do { (d, t) \<leftarrow> itf_read (c_axi4_w_mst l);
           Some (y\<lparr>y_l1 := l\<lparr>c_axi4_w_mst := t\<rparr>, y_axi := x\<lparr>x_mem := write_beat (x_mem x) a d,
             x_wr := (if aw_last d then None else Some (i, a + 4)), x_b := (if aw_last d then Some i else x_b x)\<rparr>\<rparr>) })"
| "l1_event CGiveB y = (let l = y_l1 y; x = y_axi y in
     case x_b x of None \<Rightarrow> Some y
     | Some i \<Rightarrow> if itf_fifo_full (c_axi4_b_slv l) then Some y
         else do { t \<leftarrow> itf_write (c_axi4_b_slv l) \<lparr>ab_id = i, ab_resp = AXI4_B_RESP_OKAY\<rparr>;
           Some (y\<lparr>y_l1 := l\<lparr>c_axi4_b_slv := t\<rparr>, y_axi := x\<lparr>x_b := None\<rparr>\<rparr>) })"
| "l1_event CTakeAr y = (let l = y_l1 y; x = y_axi y in
     if itf_fifo_empty (c_axi4_ar_mst l) \<or> x_rd x \<noteq> None then Some y
     else do { (ar, t) \<leftarrow> itf_read (c_axi4_ar_mst l);
       Some (y\<lparr>y_l1 := l\<lparr>c_axi4_ar_mst := t\<rparr>, y_axi := x\<lparr>x_rd := Some (ar_id ar, ar_addr ar, unat (ar_len ar))\<rparr>\<rparr>) })"
| "l1_event CGiveR y = (let l = y_l1 y; x = y_axi y in
     case x_rd x of None \<Rightarrow> Some y
     | Some (i, a, n) \<Rightarrow> if itf_fifo_full (c_axi4_r_slv l) then Some y
         else do { t \<leftarrow> itf_write (c_axi4_r_slv l) \<lparr>ax_id = i, ax_data = mem_word (x_mem x) a, ax_resp = AXI4_R_RESP_OKAY, ax_last = (n = 0)\<rparr>;
           Some (y\<lparr>y_l1 := l\<lparr>c_axi4_r_slv := t\<rparr>, y_axi := x\<lparr>x_rd := (if n = 0 then None else Some (i, a + 4, n - 1))\<rparr>\<rparr>) })"

fun l1_exec :: "l1_ev list \<Rightarrow> l1_sys \<Rightarrow> l1_sys option" where
  "l1_exec [] y = Some y"
| "l1_exec (ev # evs) y = do { y \<leftarrow> l1_event ev y; l1_exec evs y }"

section \<open>Steps of the memory\<close>

lemma lnum_in_line: "n < 2 ^ 26 \<Longrightarrow> k < 64 \<Longrightarrow> lnum (of_nat (n * 64) + of_nat k) = n"
proof -
  assume n: "n < 2 ^ 26" and k: "k < 64"
  then have "n * 64 + k < 2 ^ 32" by simp
  then have "unat (of_nat (n * 64) + of_nat k :: u32) = n * 64 + k"
    by (simp only: of_nat_add [symmetric] unat_of_nat) (simp add: take_bit_nat_eq_self)
  then show ?thesis using k by (simp add: lnum_def)
qed

lemma write_beat_full:
  "write_beat m a (wbeat ar i k) = m(a := word_byte (a_data ar ! (i * 16 + k)) 0, a + 1 := word_byte (a_data ar ! (i * 16 + k)) 1,
     a + 2 := word_byte (a_data ar ! (i * 16 + k)) 2, a + 3 := word_byte (a_data ar ! (i * 16 + k)) 3)"
proof -
  have "[0..<4] = [0, 1, 2, 3 :: nat]" by (simp add: upt_rec)
  then show ?thesis by (simp add: write_beat_def wbeat_def)
qed

lemma off_neq: "k < 64 \<Longrightarrow> k' < 64 \<Longrightarrow> (wb :: u32) + of_nat k = wb + of_nat k' \<Longrightarrow> k = k'"
proof -
  assume k: "k < 64" "k' < 64" and eq: "wb + of_nat k = wb + of_nat k'"
  from eq have "unat (of_nat k :: u32) = unat (of_nat k' :: u32)" by simp
  with k show "k = k'" by (simp only: unat_of_nat) (simp add: take_bit_nat_eq_self)
qed

lemma write_beat_at:
  assumes j: "j < 16"
  shows "t < 4 \<Longrightarrow> write_beat m (wb + of_nat (4 * j)) (wbeat ar i j) (wb + of_nat (4 * j + t)) = word_byte (a_data ar ! (i * 16 + j)) t"
    and "k < 64 \<Longrightarrow> k div 4 \<noteq> j \<Longrightarrow> write_beat m (wb + of_nat (4 * j)) (wbeat ar i j) (wb + of_nat k) = m (wb + of_nat k)"
    and "(\<And>t. t < 4 \<Longrightarrow> y \<noteq> wb + of_nat (4 * j + t)) \<Longrightarrow> write_beat m (wb + of_nat (4 * j)) (wbeat ar i j) y = m y"
proof -
  have a: "wb + of_nat (4 * j) + 1 = wb + of_nat (4 * j + 1)" "wb + of_nat (4 * j) + 2 = wb + of_nat (4 * j + 2)"
    "wb + of_nat (4 * j) + 3 = wb + of_nat (4 * j + 3)" "wb + of_nat (4 * j) = wb + of_nat (4 * j + 0)" by simp_all
  note W = write_beat_full [of m "wb + of_nat (4 * j)" ar i j, unfolded a(1-3)]
  have ne: "wb + of_nat (4 * j + t) \<noteq> wb + of_nat (4 * j + t')" if "t < 4" "t' < 4" "t \<noteq> t'" for t t'
    using off_neq [of "4 * j + t" "4 * j + t'" wb] j that by auto
  show "write_beat m (wb + of_nat (4 * j)) (wbeat ar i j) (wb + of_nat (4 * j + t)) = word_byte (a_data ar ! (i * 16 + j)) t" if "t < 4"
    using less4 [OF that] ne [of 0 1] ne [of 0 2] ne [of 0 3] ne [of 1 2] ne [of 1 3] ne [of 2 3] unfolding W
    by (elim disjE) simp_all
  show other: "write_beat m (wb + of_nat (4 * j)) (wbeat ar i j) y = m y" if "\<And>t. t < 4 \<Longrightarrow> y \<noteq> wb + of_nat (4 * j + t)" for y
    using that [of 0] that [of 1] that [of 2] that [of 3] unfolding W by simp
  show "write_beat m (wb + of_nat (4 * j)) (wbeat ar i j) (wb + of_nat k) = m (wb + of_nat k)" if "k < 64" "k div 4 \<noteq> j"
  proof (rule other)
    show "wb + of_nat k \<noteq> wb + of_nat (4 * j + t)" if t: "t < 4" for t
    proof
      assume "wb + of_nat k = wb + of_nat (4 * j + t)"
      then have "k = 4 * j + t" by (rule off_neq [rotated 2]) (use \<open>k < 64\<close> j t in auto)
      with t \<open>k div 4 \<noteq> j\<close> show False by simp
    qed
  qed
qed

lemma written_beat:
  assumes "written m wb ar i j" "j < 16"
  shows "written (write_beat m (wb + of_nat (4 * j)) (wbeat ar i j)) wb ar i (Suc j)"
  unfolding written_def
proof (intro allI impI)
  fix k t assume k: "k < Suc j" and t: "t < (4 :: nat)"
  show "write_beat m (wb + of_nat (4 * j)) (wbeat ar i j) (wb + of_nat (4 * k + t)) = word_byte (a_data ar ! (i * 16 + k)) t"
  proof (cases "k = j")
    case True
    then show ?thesis using write_beat_at(1) [OF assms(2) t] by simp
  next
    case False
    then have "(4 * k + t) div 4 \<noteq> j" "4 * k + t < 64" "k < j" using k t assms(2) by auto
    with write_beat_at(2) [OF assms(2), of "4 * k + t" m wb ar i] assms(1) t show ?thesis by (simp add: written_def)
  qed
qed

lemma wr_state:
  assumes "wr_inv a e aw w b x" "aw \<noteq> [] \<or> w \<noteq> [] \<or> b \<noteq> [] \<or> x_wr x \<noteq> None \<or> x_b x \<noteq> None"
  shows "m_state e = L1_STATE_WB_W \<or> m_state e = L1_STATE_WB_B"
  using assms unfolding wr_inv_def by (auto split: if_splits)

lemma rd_state:
  assumes "rd_inv a e ar r x" "ar \<noteq> [] \<or> r \<noteq> [] \<or> x_rd x \<noteq> None"
  shows "m_state e = L1_STATE_REFILL_R"
  using assms unfolding rd_inv_def by (auto split: if_splits)

text \<open>The memory's steps leave the cache's own state alone.\<close>

lemma core_axi:
  assumes core: "l1_core l x V E S" and front: "l1_front l' = l1_front l" and same: "c_eng l' = c_eng l" "c_arr l' = c_arr l" and b: "busy (c_eng l)"
    and ports: "itf_inv (c_axi4_aw_mst l')" "itf_inv (c_axi4_w_mst l')" "itf_inv (c_axi4_b_slv l')" "itf_inv (c_axi4_ar_mst l')" "itf_inv (c_axi4_r_slv l')"
    and arr: "arr_inv (k_way_num (c_conf l)) (c_set_num l) (c_arr l) (c_eng l) (x_mem x') V"
    and wr: "wr_inv (c_arr l) (c_eng l) (itf_list (c_axi4_aw_mst l')) (itf_list (c_axi4_w_mst l')) (itf_list (c_axi4_b_slv l')) x'"
    and rd: "rd_inv (c_arr l) (c_eng l) (itf_list (c_axi4_ar_mst l')) (itf_list (c_axi4_r_slv l')) x'"
  shows "l1_core l' x' V E S"
  by (rule core_engine [OF core front]) (use ports arr wr rd same b l1_coreD(3) [OF core] in \<open>simp_all add: same_job_def\<close>)

definition axi_next :: "l1_ev \<Rightarrow> l1 \<Rightarrow> axi_mem \<Rightarrow> l1_sys \<Rightarrow> memory \<Rightarrow> bti_rsp list \<Rightarrow> memory \<Rightarrow> bool" where
  "axi_next ev l x y V E S \<longleftrightarrow> (\<exists>l' x'. l1_event ev y = Some (y\<lparr>y_l1 := l', y_axi := x'\<rparr>) \<and> l1_core l' x' V E S \<and> l1_front l' = l1_front l)"

lemma axi_stay: "l1_event ev y = Some y \<Longrightarrow> l1_core (y_l1 y) (y_axi y) V E S \<Longrightarrow> axi_next ev (y_l1 y) (y_axi y) y V E S"
  unfolding axi_next_def by (intro exI [of _ "y_l1 y"] exI [of _ "y_axi y"]) simp

lemma take_aw_ok:
  assumes core: "l1_core l x V E S" and y: "y_l1 y = l" "y_axi y = x"
  shows "axi_next CTakeAw l x y V E S"
proof (cases "itf_fifo_empty (c_axi4_aw_mst l) \<or> x_wr x \<noteq> None \<or> x_b x \<noteq> None")
  case True
  then show ?thesis using axi_stay [of CTakeAw y] core y by (auto simp: Let_def)
next
  case False
  note c = l1_coreD [OF core]
  from c(1) False obtain aw t where t: "itf_read (c_axi4_aw_mst l) = Some (aw, t)" "itf_inv t" "itf_list (c_axi4_aw_mst l) = aw # itf_list t"
    unfolding l1_ports_def by (metis itf.pop_not_empty)
  let ?e = "c_eng l" and ?x = "x\<lparr>x_wr := Some (aw_id aw, aw_addr aw)\<rparr>" and ?l = "l\<lparr>c_axi4_aw_mst := t\<rparr>"
  have st: "m_state ?e = L1_STATE_WB_W \<or> m_state ?e = L1_STATE_WB_B" by (rule wr_state [OF c(5)]) (simp add: t(3))
  have "aw = l1_line_aw (m_wb_line_addr ?e)" "itf_list t = []" using c(5) st t(3) unfolding wr_inv_def by (auto simp: Let_def split: if_splits)
  then have wr: "wr_inv (c_arr l) ?e (itf_list t) (itf_list (c_axi4_w_mst l)) (itf_list (c_axi4_b_slv l)) ?x"
    using c(5) st t(3) unfolding wr_inv_def by (auto simp: Let_def l1_line_aw_def split: if_splits)
  have "l1_core ?l ?x V E S"
    by (rule core_axi [OF core]) (use wr c st t(2) in \<open>auto simp: l1_front_def busy_def l1_ports_def rd_inv_def\<close>)
  moreover have "l1_event CTakeAw y = Some (y\<lparr>y_l1 := ?l, y_axi := ?x\<rparr>)" using False t(1) y by (simp add: Let_def)
  ultimately show ?thesis unfolding axi_next_def by (intro exI [of _ ?l] exI [of _ ?x]) (simp add: l1_front_def)
qed

lemma take_w_ok:
  assumes core: "l1_core l x V E S" and y: "y_l1 y = l" "y_axi y = x"
  shows "axi_next CTakeW l x y V E S"
proof (cases "x_wr x = None \<or> itf_fifo_empty (c_axi4_w_mst l)")
  case True
  then show ?thesis using axi_stay [of CTakeW y] core y by (auto simp: Let_def split: option.splits)
next
  case False
  note c = l1_coreD [OF core]
  let ?e = "c_eng l" and ?a = "c_arr l" and ?i = "m_req_line_idx (c_eng l)" and ?wb = "m_wb_line_addr (c_eng l)"
  let ?w = "k_way_num (c_conf l)" and ?s = "c_set_num l"
  let ?n = "if m_state ?e = L1_STATE_WB_W then m_beat_idx ?e else 16"
  have st: "m_state ?e = L1_STATE_WB_W \<or> m_state ?e = L1_STATE_WB_B" by (rule wr_state [OF c(5)]) (use False in simp)
  have wbk: "writing_back ?e" "busy ?e" using st by (auto simp: writing_back_def busy_def)
  from c(1) False obtain d t where t: "itf_read (c_axi4_w_mst l) = Some (d, t)" "itf_inv t" "itf_list (c_axi4_w_mst l) = d # itf_list t"
    unfolding l1_ports_def by (metis itf.pop_not_empty)
  have n16: "?n \<le> 16" "m_state ?e = L1_STATE_WB_W \<longrightarrow> m_beat_idx ?e < 16" using c(5) st unfolding wr_inv_def by (auto simp: Let_def)
  obtain j where j: "j \<le> ?n" "j < 16" "d # itf_list t = map (wbeat ?a ?i) [j..<?n]" "itf_list (c_axi4_b_slv l) = []" "x_b x = None"
    "written (x_mem x) ?wb ?a ?i j" "itf_list (c_axi4_aw_mst l) = []" "x_wr x = Some (0, ?wb + of_nat (4 * j))"
    using c(5) st t(3) False unfolding wr_inv_def by (auto simp: Let_def split: if_splits)
  have jn: "j < ?n" using j(1,3) by (cases "j < ?n") auto
  then have d: "d = wbeat ?a ?i j" "itf_list t = map (wbeat ?a ?i) [Suc j..<?n]" using j(3) by (simp_all add: upt_conv_Cons)
  let ?m = "write_beat (x_mem x) (?wb + of_nat (4 * j)) d"
  let ?x = "x\<lparr>x_mem := ?m, x_wr := (if aw_last d then None else Some (0, ?wb + of_nat (4 * j) + 4)), x_b := (if aw_last d then Some 0 else x_b x)\<rparr>"
  let ?l = "l\<lparr>c_axi4_w_mst := t\<rparr>"
  have W: "written ?m ?wb ?a ?i (Suc j)" using written_beat [OF j(6,2)] d(1) by simp
  have last: "aw_last d \<longleftrightarrow> j = 15" by (simp add: d(1) wbeat_def)
  have wr: "wr_inv ?a ?e (itf_list (c_axi4_aw_mst l)) (itf_list t) (itf_list (c_axi4_b_slv l)) ?x"
  proof (cases "j = 15")
    case True
    then have "?n = 16" using jn n16(1) by linarith
    with n16(2) have "m_state ?e = L1_STATE_WB_B" using st by (auto split: if_splits)
    moreover have "written ?m ?wb ?a ?i 16" using W True by simp
    moreover have "itf_list t = []" using d(2) True \<open>?n = 16\<close> by simp
    ultimately show ?thesis using last True j(4,7) unfolding wr_inv_def by simp
  next
    case False
    have "\<exists>j\<le>?n. j < 16 \<and> itf_list t = map (wbeat ?a ?i) [j..<?n] \<and> itf_list (c_axi4_b_slv l) = [] \<and> x_b ?x = None \<and> written (x_mem ?x) ?wb ?a ?i j
      \<and> (itf_list (c_axi4_aw_mst l) = [l1_line_aw ?wb] \<and> x_wr ?x = None \<and> j = 0 \<or> itf_list (c_axi4_aw_mst l) = [] \<and> x_wr ?x = Some (0, ?wb + of_nat (4 * j)))"
      by (rule exI [of _ "Suc j"]) (use jn j False last d(2) W in \<open>simp add: algebra_simps\<close>)
    then show ?thesis using st n16 unfolding wr_inv_def Let_def by auto
  qed
  have oi: "owned ?w ?s ?a ?e ?i"
    using eng_invD(3) [OF c(3) wbk(1)] eng_line_idx(1) [OF arr_invD(1) [OF c(2)] c(3) wbk(2)] st by (auto simp: owned_def refilling_def)
  have arr: "arr_inv ?w ?s ?a ?e ?m V"
  proof (rule arr_inv_mem [OF c(2) oi eng_invD(4) [OF c(3) wbk(1)]])
    fix z assume z: "lnum z \<noteq> ln_of ?w ?s ?a ?i"
    have "z \<noteq> ?wb + of_nat (4 * j + t)" if "t < 4" for t
      using lnum_in_line [OF arr_invD(2) [OF c(2) oi], of "4 * j + t"] z j(2) that eng_invD(5) [OF c(3) wbk(1)] by auto
    from write_beat_at(3) [OF j(2) this, of "x_mem x" ?a ?i] show "?m z = x_mem x z" by (simp add: d(1))
  qed
  have rd: "rd_inv ?a ?e (itf_list (c_axi4_ar_mst l)) (itf_list (c_axi4_r_slv l)) ?x" using c(6) st unfolding rd_inv_def by auto
  have "l1_core ?l ?x V E S"
    by (rule core_axi [OF core]) (use wr arr rd c(1) wbk(2) t(2) in \<open>simp_all add: l1_front_def l1_ports_def\<close>)
  moreover have "l1_event CTakeW y = Some (y\<lparr>y_l1 := ?l, y_axi := ?x\<rparr>)" using False t(1) y j(8) by (simp add: Let_def)
  ultimately show ?thesis unfolding axi_next_def by (intro exI [of _ ?l] exI [of _ ?x]) (simp add: l1_front_def)
qed

lemma give_b_ok:
  assumes core: "l1_core l x V E S" and y: "y_l1 y = l" "y_axi y = x"
  shows "axi_next CGiveB l x y V E S"
proof (cases "x_b x = None \<or> itf_fifo_full (c_axi4_b_slv l)")
  case True
  then show ?thesis using axi_stay [of CGiveB y] core y by (auto simp: Let_def split: option.splits)
next
  case False
  note c = l1_coreD [OF core]
  have st: "m_state (c_eng l) = L1_STATE_WB_W \<or> m_state (c_eng l) = L1_STATE_WB_B" by (rule wr_state [OF c(5)]) (use False in simp)
  have b0: "x_b x = Some 0" "itf_list (c_axi4_b_slv l) = []" using c(5) st False unfolding wr_inv_def by (auto simp: Let_def split: if_splits)
  from c(1) False obtain t where t: "itf_write (c_axi4_b_slv l) \<lparr>ab_id = 0, ab_resp = AXI4_B_RESP_OKAY\<rparr> = Some t" "itf_inv t"
    "itf_list t = itf_list (c_axi4_b_slv l) @ [\<lparr>ab_id = 0, ab_resp = AXI4_B_RESP_OKAY\<rparr>]" unfolding l1_ports_def by (metis itf.push_not_full)
  let ?l = "l\<lparr>c_axi4_b_slv := t\<rparr>" and ?x = "x\<lparr>x_b := None\<rparr>"
  have wr: "wr_inv (c_arr l) (c_eng l) (itf_list (c_axi4_aw_mst l)) (itf_list (c_axi4_w_mst l)) (itf_list t) ?x"
    using c(5) st b0 t(3) unfolding wr_inv_def by (auto simp: Let_def split: if_splits)
  have "l1_core ?l ?x V E S"
    by (rule core_axi [OF core]) (use wr c st t(2) in \<open>auto simp: l1_front_def busy_def l1_ports_def rd_inv_def\<close>)
  moreover have "l1_event CGiveB y = Some (y\<lparr>y_l1 := ?l, y_axi := ?x\<rparr>)" using False t(1) y b0 by (simp add: Let_def)
  ultimately show ?thesis unfolding axi_next_def by (intro exI [of _ ?l] exI [of _ ?x]) (simp add: l1_front_def)
qed

lemma take_ar_ok:
  assumes core: "l1_core l x V E S" and y: "y_l1 y = l" "y_axi y = x"
  shows "axi_next CTakeAr l x y V E S"
proof (cases "itf_fifo_empty (c_axi4_ar_mst l) \<or> x_rd x \<noteq> None")
  case True
  then show ?thesis using axi_stay [of CTakeAr y] core y by (auto simp: Let_def)
next
  case False
  note c = l1_coreD [OF core]
  let ?e = "c_eng l" and ?la = "m_req_line_addr (c_eng l)"
  from c(1) False obtain ar t where t: "itf_read (c_axi4_ar_mst l) = Some (ar, t)" "itf_inv t" "itf_list (c_axi4_ar_mst l) = ar # itf_list t"
    unfolding l1_ports_def by (metis itf.pop_not_empty)
  have st: "m_state ?e = L1_STATE_REFILL_R" by (rule rd_state [OF c(6)]) (simp add: t(3))
  have q: "ar = line_ar ?la" "itf_list t = []" "m_beat_idx ?e = 0" "itf_list (c_axi4_r_slv l) = []"
    using c(6) st t(3) unfolding rd_inv_def by (auto simp: Let_def)
  let ?x = "x\<lparr>x_rd := Some (ar_id ar, ar_addr ar, unat (ar_len ar))\<rparr>" and ?l = "l\<lparr>c_axi4_ar_mst := t\<rparr>"
  have rd: "rd_inv (c_arr l) ?e (itf_list t) (itf_list (c_axi4_r_slv l)) ?x"
    using c(6) st q unfolding rd_inv_def by (auto simp: Let_def line_ar_def intro!: exI [of _ 0])
  have "l1_core ?l ?x V E S"
    by (rule core_axi [OF core]) (use rd c st t(2) in \<open>auto simp: l1_front_def busy_def l1_ports_def wr_inv_def\<close>)
  moreover have "l1_event CTakeAr y = Some (y\<lparr>y_l1 := ?l, y_axi := ?x\<rparr>)" using False t(1) y by (simp add: Let_def)
  ultimately show ?thesis unfolding axi_next_def by (intro exI [of _ ?l] exI [of _ ?x]) (simp add: l1_front_def)
qed

lemma give_r_ok:
  assumes core: "l1_core l x V E S" and y: "y_l1 y = l" "y_axi y = x"
  shows "axi_next CGiveR l x y V E S"
proof (cases "x_rd x = None \<or> itf_fifo_full (c_axi4_r_slv l)")
  case True
  then show ?thesis using axi_stay [of CGiveR y] core y by (auto simp: Let_def split: option.splits)
next
  case False
  note c = l1_coreD [OF core]
  let ?e = "c_eng l" and ?la = "m_req_line_addr (c_eng l)" and ?n = "m_beat_idx (c_eng l)"
  have st: "m_state ?e = L1_STATE_REFILL_R" by (rule rd_state [OF c(6)]) (use False in simp)
  obtain j where j: "itf_list (c_axi4_ar_mst l) = []" "?n \<le> j" "j < 16" "itf_list (c_axi4_r_slv l) = map (rbeat (x_mem x) ?la) [?n..<j]"
    "x_rd x = Some (0, ?la + of_nat (4 * j), 15 - j)"
    using c(6) st False unfolding rd_inv_def by (auto simp: Let_def split: if_splits)
  from c(1) False obtain t where t: "itf_write (c_axi4_r_slv l) (rbeat (x_mem x) ?la j) = Some t" "itf_inv t"
    "itf_list t = itf_list (c_axi4_r_slv l) @ [rbeat (x_mem x) ?la j]" unfolding l1_ports_def by (metis itf.push_not_full)
  let ?x = "x\<lparr>x_rd := (if 15 - j = 0 then None else Some (0, ?la + of_nat (4 * j) + 4, 15 - j - 1))\<rparr>" and ?l = "l\<lparr>c_axi4_r_slv := t\<rparr>"
  have "\<exists>j'. ?n \<le> j' \<and> j' \<le> 16 \<and> itf_list t = map (rbeat (x_mem x) ?la) [?n..<j'] \<and> x_rd ?x = (if j' < 16 then Some (0, ?la + of_nat (4 * j'), 15 - j') else None)"
    by (rule exI [of _ "Suc j"]) (use j t(3) in \<open>auto simp: algebra_simps\<close>)
  then have rd: "rd_inv (c_arr l) ?e (itf_list (c_axi4_ar_mst l)) (itf_list t) ?x"
    using c(6) st j(1) unfolding rd_inv_def by (simp add: Let_def)
  have "l1_core ?l ?x V E S"
    by (rule core_axi [OF core]) (use rd c st t(2) in \<open>auto simp: l1_front_def busy_def l1_ports_def wr_inv_def\<close>)
  moreover have "l1_event CGiveR y = Some (y\<lparr>y_l1 := ?l, y_axi := ?x\<rparr>)"
    using False t(1) y j(3,5) by (cases "j = 15") (simp_all add: Let_def rbeat_def)
  ultimately show ?thesis unfolding axi_next_def by (intro exI [of _ ?l] exI [of _ ?x]) (simp add: l1_front_def)
qed

section \<open>Every run\<close>

definition l1_ok :: "memory \<Rightarrow> l1_sys \<Rightarrow> bool" where
  "l1_ok m y \<longleftrightarrow> (\<exists>V E acc. l1_core (y_l1 y) (y_axi y) V E (spec_mem m acc) \<and> pipe_ok (y_l1 y) \<and> y_reqs y = acc @ pending (y_l1 y)
     \<and> (\<forall>r\<in>set (pending (y_l1 y)). cached_req (y_l1 y) r) \<and> y_rsps y @ itf_list (c_bti_rsp_mst (y_l1 y)) @ E = spec_rsps m acc)"

lemma spec_mem_append: "spec_mem m (a @ b) = spec_mem (spec_mem m a) b"
  by (induction a arbitrary: m) simp_all

lemma tick_ok:
  assumes "l1_ok m y"
  shows "\<exists>y'. l1_event CTick y = Some y' \<and> l1_ok m y' \<and> c_conf (y_l1 y') = c_conf (y_l1 y)"
proof -
  from assms obtain V E acc where i: "l1_core (y_l1 y) (y_axi y) V E (spec_mem m acc)" "pipe_ok (y_l1 y)" "y_reqs y = acc @ pending (y_l1 y)"
    "\<forall>r\<in>set (pending (y_l1 y)). cached_req (y_l1 y) r" "y_rsps y @ itf_list (c_bti_rsp_mst (y_l1 y)) @ E = spec_rsps m acc" unfolding l1_ok_def by blast
  from l1_clock_split [OF i(1)] obtain l1 V1 E1 where a: "l1_clock (y_l1 y) = l1_tick_accept l1" "l1_core l1 (y_axi y) V1 E1 (spec_mem m acc)" "\<not> c_hit_pipe_vld l1"
    "itf_list (c_bti_rsp_mst l1) @ E1 = itf_list (c_bti_rsp_mst (y_l1 y)) @ E" "l1_input l1 = l1_input (y_l1 y)" by blast
  note f = l1_inputD [OF a(5)]
  have "pipe_ok l1" "\<forall>r\<in>set (pending l1). cached_req l1 r" using i(2,4) f cached_req_conf [OF f(3)] by simp_all
  from l1_accept_ok [OF a(2,3) this] obtain l2 rs where b: "l1_tick_accept l1 = Some l2"
    "l1_core l2 (y_axi y) V1 (E1 @ spec_rsps (spec_mem m acc) rs) (spec_mem (spec_mem m acc) rs)"
    "pipe_ok l2" "pending l1 = rs @ pending l2" "c_conf l2 = c_conf l1" "c_bti_rsp_mst l2 = c_bti_rsp_mst l1" by blast
  have "l1_ok m (y\<lparr>y_l1 := l2\<rparr>)" unfolding l1_ok_def
  proof (intro exI conjI)
    show "l1_core (y_l1 (y\<lparr>y_l1 := l2\<rparr>)) (y_axi (y\<lparr>y_l1 := l2\<rparr>)) V1 (E1 @ spec_rsps (spec_mem m acc) rs) (spec_mem m (acc @ rs))"
      using b(2) by (simp add: spec_mem_append)
    show "y_rsps (y\<lparr>y_l1 := l2\<rparr>) @ itf_list (c_bti_rsp_mst (y_l1 (y\<lparr>y_l1 := l2\<rparr>))) @ E1 @ spec_rsps (spec_mem m acc) rs = spec_rsps m (acc @ rs)"
      using i(5) a(4) b(6) by (simp add: spec_rsps_append flip: append_assoc)
    show "\<forall>r\<in>set (pending (y_l1 (y\<lparr>y_l1 := l2\<rparr>))). cached_req (y_l1 (y\<lparr>y_l1 := l2\<rparr>)) r"
      using i(4) b(4,5) f cached_req_conf [of l2 "y_l1 y"] by simp
  qed (use i(3) b f in simp_all)
  with a(1) b(1,5) f(3) show ?thesis by simp
qed

lemma l1_ok_front:
  assumes ok: "l1_ok m y" and next_: "\<And>V E S. l1_core (y_l1 y) (y_axi y) V E S \<Longrightarrow> axi_next ev (y_l1 y) (y_axi y) y V E S"
  shows "\<exists>y'. l1_event ev y = Some y' \<and> l1_ok m y' \<and> c_conf (y_l1 y') = c_conf (y_l1 y)"
proof -
  from ok obtain V E acc where i: "l1_core (y_l1 y) (y_axi y) V E (spec_mem m acc)" "pipe_ok (y_l1 y)" "y_reqs y = acc @ pending (y_l1 y)"
    "\<forall>r\<in>set (pending (y_l1 y)). cached_req (y_l1 y) r" "y_rsps y @ itf_list (c_bti_rsp_mst (y_l1 y)) @ E = spec_rsps m acc" unfolding l1_ok_def by blast
  from next_ [OF i(1)] obtain l' x' where n: "l1_event ev y = Some (y\<lparr>y_l1 := l', y_axi := x'\<rparr>)" "l1_core l' x' V E (spec_mem m acc)" "l1_front l' = l1_front (y_l1 y)"
    unfolding axi_next_def by blast
  note g = front_input [OF n(3)] and f = l1_inputD [OF conjunct1 [OF front_input [OF n(3)]]]
  have "l1_ok m (y\<lparr>y_l1 := l', y_axi := x'\<rparr>)" unfolding l1_ok_def
    by (rule exI [of _ V], rule exI [of _ E], rule exI [of _ acc]) (use i n(2) g f cached_req_conf [OF f(3)] in simp)
  with n(1) f(3) show ?thesis by simp
qed

lemma issue_ok:
  assumes ok: "l1_ok m y" and r: "cached_req (y_l1 y) r"
  shows "\<exists>y'. l1_event (CIssue r) y = Some y' \<and> l1_ok m y' \<and> c_conf (y_l1 y') = c_conf (y_l1 y)"
proof (cases "itf_fifo_full (c_bti_req_slv (y_l1 y))")
  case True
  with ok show ?thesis by (simp add: Let_def)
next
  case False
  from ok obtain V E acc where i: "l1_core (y_l1 y) (y_axi y) V E (spec_mem m acc)" "pipe_ok (y_l1 y)" "y_reqs y = acc @ pending (y_l1 y)"
    "\<forall>r\<in>set (pending (y_l1 y)). cached_req (y_l1 y) r" "y_rsps y @ itf_list (c_bti_rsp_mst (y_l1 y)) @ E = spec_rsps m acc" unfolding l1_ok_def by blast
  from False l1_coreD(1) [OF i(1)] obtain t where t: "itf_write (c_bti_req_slv (y_l1 y)) r = Some t" "itf_inv t" "itf_list t = itf_list (c_bti_req_slv (y_l1 y)) @ [r]"
    unfolding l1_ports_def by (metis itf.push_not_full)
  define l' where "l' = (y_l1 y)\<lparr>c_bti_req_slv := t\<rparr>"
  have p: "pending l' = pending (y_l1 y) @ [r]" using t(3) by (simp add: pending_def pend_lookup_def pend_req_def l'_def)
  have c: "l1_core l' (y_axi y) V E (spec_mem m acc)" "pipe_ok l'" "c_conf l' = c_conf (y_l1 y)" "c_bti_rsp_mst l' = c_bti_rsp_mst (y_l1 y)"
    using i(1,2) t(2) by (simp_all add: l1_core_def l1_ports_def pipe_ok_def l'_def)
  have "l1_ok m (y\<lparr>y_l1 := l', y_reqs := y_reqs y @ [r]\<rparr>)" unfolding l1_ok_def
    by (rule exI [of _ V], rule exI [of _ E], rule exI [of _ acc]) (use i c p r cached_req_conf [OF c(3)] in simp)
  moreover have "l1_event (CIssue r) y = Some (y\<lparr>y_l1 := l', y_reqs := y_reqs y @ [r]\<rparr>)" using False t(1) by (simp add: Let_def l'_def)
  ultimately show ?thesis using c(3) by simp
qed

lemma receive_ok:
  assumes ok: "l1_ok m y"
  shows "\<exists>y'. l1_event CReceive y = Some y' \<and> l1_ok m y' \<and> c_conf (y_l1 y') = c_conf (y_l1 y)"
proof (cases "itf_fifo_empty (c_bti_rsp_mst (y_l1 y))")
  case True
  with ok show ?thesis by (simp add: Let_def)
next
  case False
  from ok obtain V E acc where i: "l1_core (y_l1 y) (y_axi y) V E (spec_mem m acc)" "pipe_ok (y_l1 y)" "y_reqs y = acc @ pending (y_l1 y)"
    "\<forall>r\<in>set (pending (y_l1 y)). cached_req (y_l1 y) r" "y_rsps y @ itf_list (c_bti_rsp_mst (y_l1 y)) @ E = spec_rsps m acc" unfolding l1_ok_def by blast
  from False l1_coreD(1) [OF i(1)] obtain r t where t: "itf_read (c_bti_rsp_mst (y_l1 y)) = Some (r, t)" "itf_inv t" "itf_list (c_bti_rsp_mst (y_l1 y)) = r # itf_list t"
    unfolding l1_ports_def by (metis itf.pop_not_empty)
  define l' where "l' = (y_l1 y)\<lparr>c_bti_rsp_mst := t\<rparr>"
  have c: "l1_core l' (y_axi y) V E (spec_mem m acc)" "pipe_ok l'" "c_conf l' = c_conf (y_l1 y)" "pending l' = pending (y_l1 y)" "c_bti_rsp_mst l' = t"
    using i(1,2) t(2) by (simp_all add: l1_core_def l1_ports_def pipe_ok_def pending_def pend_lookup_def pend_req_def l'_def)
  have "l1_ok m (y\<lparr>y_l1 := l', y_rsps := y_rsps y @ [r]\<rparr>)" unfolding l1_ok_def
    by (rule exI [of _ V], rule exI [of _ E], rule exI [of _ acc]) (use i c t(3) cached_req_conf [OF c(3)] in simp)
  moreover have "l1_event CReceive y = Some (y\<lparr>y_l1 := l', y_rsps := y_rsps y @ [r]\<rparr>)" using False t(1) by (simp add: Let_def l'_def)
  ultimately show ?thesis using c(3) by simp
qed

lemma event_ok:
  assumes "l1_ok m y" "\<And>r. ev = CIssue r \<Longrightarrow> cached_req (y_l1 y) r"
  shows "\<exists>y'. l1_event ev y = Some y' \<and> l1_ok m y' \<and> c_conf (y_l1 y') = c_conf (y_l1 y)"
proof (cases ev)
  case CTick then show ?thesis using tick_ok [OF assms(1)] by simp
next
  case CIssue then show ?thesis using issue_ok [OF assms(1)] assms(2) by blast
next
  case CReceive then show ?thesis using receive_ok [OF assms(1)] by blast
next
  case CTakeAw show ?thesis unfolding CTakeAw by (rule l1_ok_front [OF assms(1)]) (rule take_aw_ok, assumption, rule refl, rule refl)
next
  case CTakeW show ?thesis unfolding CTakeW by (rule l1_ok_front [OF assms(1)]) (rule take_w_ok, assumption, rule refl, rule refl)
next
  case CGiveB show ?thesis unfolding CGiveB by (rule l1_ok_front [OF assms(1)]) (rule give_b_ok, assumption, rule refl, rule refl)
next
  case CTakeAr show ?thesis unfolding CTakeAr by (rule l1_ok_front [OF assms(1)]) (rule take_ar_ok, assumption, rule refl, rule refl)
next
  case CGiveR show ?thesis unfolding CGiveR by (rule l1_ok_front [OF assms(1)]) (rule give_r_ok, assumption, rule refl, rule refl)
qed

lemma exec_ok:
  assumes "l1_ok m y" "\<And>r. CIssue r \<in> set evs \<Longrightarrow> cached_req (y_l1 y) r"
  shows "\<exists>y'. l1_exec evs y = Some y' \<and> l1_ok m y'"
  using assms
proof (induction evs arbitrary: y)
  case (Cons ev evs)
  from event_ok [OF Cons.prems(1), of ev] Cons.prems(2) obtain y1 where y1: "l1_event ev y = Some y1" "l1_ok m y1" "c_conf (y_l1 y1) = c_conf (y_l1 y)" by auto
  have "\<exists>y'. l1_exec evs y1 = Some y' \<and> l1_ok m y'"
    by (rule Cons.IH [OF y1(2)]) (use Cons.prems(2) cached_req_conf [OF y1(3)] in simp)
  with y1(1) show ?case by simp
qed simp

section \<open>The cache is transparent\<close>

text \<open>What construction leaves: a consistent geometry, constructed queues, empty channels, and no flush requested.\<close>

definition l1_ready :: "l1 \<Rightarrow> bool" where
  "l1_ready l \<longleftrightarrow> 0 < k_way_num (c_conf l) \<and> 0 < c_set_num l \<and> c_line_num l = c_set_num l * k_way_num (c_conf l)
     \<and> l1_ports l \<and> 0 < q_depth (c_ost l) \<and> itf_list (c_bti_req_slv l) = [] \<and> itf_list (c_bti_rsp_mst l) = [] \<and> itf_list (c_axi4_aw_mst l) = []
     \<and> itf_list (c_axi4_w_mst l) = [] \<and> itf_list (c_axi4_b_slv l) = [] \<and> itf_list (c_axi4_ar_mst l) = [] \<and> itf_list (c_axi4_r_slv l) = []"

definition l1_boot :: "l1 \<Rightarrow> memory \<Rightarrow> l1_sys" where
  "l1_boot l m = \<lparr>y_l1 = l1_reset l, y_axi = \<lparr>x_mem = m, x_wr = None, x_b = None, x_rd = None\<rparr>, y_reqs = [], y_rsps = []\<rparr>"

text \<open>No request is waiting anywhere in the cache or its channels.\<close>

definition l1_drained :: "l1 \<Rightarrow> bool" where
  "l1_drained l \<longleftrightarrow> itf_fifo_empty (c_bti_req_slv l) \<and> fifo_empty (c_req_fifo l) \<and> \<not> c_req_pipe_vld l \<and> \<not> c_lookup_pipe_vld l \<and> ostq_empty (c_ost l)
     \<and> itf_fifo_empty (c_bti_rsp_mst l)"

lemma boot_ok:
  assumes "l1_ready l"
  shows "l1_ok m (l1_boot l m)"
proof -
  let ?l = "l1_reset l" and ?w = "k_way_num (c_conf l)" and ?s = "c_set_num l" and ?x = "\<lparr>x_mem = m, x_wr = None, x_b = None, x_rd = None\<rparr>"
  note r = assms [unfolded l1_ready_def]
  have e: "m_state (c_eng ?l) = L1_STATE_IDLE" by (simp add: l1_reset_def)
  then have idle: "\<not> busy (c_eng ?l)" "\<not> writing_back (c_eng ?l)" "\<not> in_refill (c_eng ?l)" by (simp_all add: busy_def writing_back_def in_refill_def)
  have st: "c_conf ?l = c_conf l" "c_set_num ?l = ?s" "\<not> c_hit_pipe_vld ?l" "\<not> c_lookup_pipe_vld ?l" "\<not> c_req_pipe_vld ?l" "c_ost ?l = ostq_reset (c_ost l)"
    "c_req_fifo ?l = fifo_reset (c_req_fifo l)" by (simp_all add: l1_reset_def)
  have ch: "c_bti_req_slv ?l = c_bti_req_slv l" "c_bti_rsp_mst ?l = c_bti_rsp_mst l" "c_axi4_aw_mst ?l = c_axi4_aw_mst l" "c_axi4_w_mst ?l = c_axi4_w_mst l"
    "c_axi4_b_slv ?l = c_axi4_b_slv l" "c_axi4_ar_mst ?l = c_axi4_ar_mst l" "c_axi4_r_slv ?l = c_axi4_r_slv l" "c_flush_slv ?l = c_flush_slv l" by (simp_all add: l1_reset_def)
  have ff: "fifo_inv (fifo_reset (c_req_fifo l))" "fifo_list (fifo_reset (c_req_fifo l)) = []" using fifo_reset_inv [of "c_req_fifo l"] r by (simp_all add: l1_ports_def)
  have wf: "arr_wf ?w ?s (c_arr ?l)" using r by (simp add: arr_wf_def l1_reset_def)
  have no: "\<not> owned ?w ?s (c_arr ?l) (c_eng ?l) i" for i using r by (auto simp: owned_def l1_reset_def)
  have "l1_core ?l ?x m [] (spec_mem m [])" unfolding l1_core_def
  proof (intro conjI)
    show "l1_ports ?l" using r ff unfolding l1_ports_def ch st by blast
    show "arr_inv (k_way_num (c_conf ?l)) (c_set_num ?l) (c_arr ?l) (c_eng ?l) (x_mem ?x) m" using wf no unfolding arr_inv_def st by simp
    show "eng_inv (k_way_num (c_conf ?l)) (c_set_num ?l) (c_arr ?l) (c_eng ?l)" using idle e by (simp add: eng_inv_def)
    show "hit_inv (k_way_num (c_conf ?l)) (c_set_num ?l) (c_arr ?l) (c_eng ?l) (c_hit_pipe_vld ?l) (c_hit_pipe ?l)" using st by (simp add: hit_inv_def)
    show "wr_inv (c_arr ?l) (c_eng ?l) (itf_list (c_axi4_aw_mst ?l)) (itf_list (c_axi4_w_mst ?l)) (itf_list (c_axi4_b_slv ?l)) ?x" using r e unfolding wr_inv_def ch by simp
    show "rd_inv (c_arr ?l) (c_eng ?l) (itf_list (c_axi4_ar_mst ?l)) (itf_list (c_axi4_r_slv ?l)) ?x" using r e unfolding rd_inv_def ch by simp
    show "ost_inv (c_eng ?l) (c_hit_pipe_vld ?l) (c_hit_pipe ?l) (c_ost ?l) m []" using ostq_reset_live [of "c_ost l"] r idle st by (simp add: ost_inv_def)
    show "spec_mem m [] = pending_mem (c_eng ?l) (c_hit_pipe_vld ?l) (c_hit_pipe ?l) m" using idle st by (simp add: pending_mem_def)
  qed
  moreover have "pipe_ok ?l" "pending ?l = []" using st ff r ch by (simp_all add: pipe_ok_def pending_def pend_lookup_def pend_req_def)
  ultimately show ?thesis unfolding l1_ok_def l1_boot_def using r ch
    by (intro exI [of _ m] exI [of _ "[]"]) simp
qed

lemma l1_ok_answers:
  assumes "l1_ok m y"
  shows "\<exists>rest. spec_rsps m (y_reqs y) = y_rsps y @ rest" "l1_drained (y_l1 y) \<Longrightarrow> y_rsps y = spec_rsps m (y_reqs y)"
proof -
  from assms obtain V E acc where i: "l1_core (y_l1 y) (y_axi y) V E (spec_mem m acc)" "y_reqs y = acc @ pending (y_l1 y)"
    "y_rsps y @ itf_list (c_bti_rsp_mst (y_l1 y)) @ E = spec_rsps m acc" unfolding l1_ok_def by blast
  show "\<exists>rest. spec_rsps m (y_reqs y) = y_rsps y @ rest" unfolding i(2) spec_rsps_append i(3) [symmetric] by simp
  assume d: "l1_drained (y_l1 y)"
  note c = l1_coreD [OF i(1)] and o = ost_invD [OF l1_coreD(7) [OF i(1)]]
  have "E = []" using ostq_empty_live [OF o(1)] o(2) d by (auto simp: l1_drained_def)
  moreover have "pending (y_l1 y) = []" "itf_list (c_bti_rsp_mst (y_l1 y)) = []"
    using d c(1) by (auto simp: l1_drained_def l1_ports_def pending_def pend_lookup_def pend_req_def itf.is_empty_iff fifo.is_empty_iff)
  ultimately show "y_rsps y = spec_rsps m (y_reqs y)" using i by simp
qed

text \<open>
  C8. The first-level cache is transparent to loads and stores that stay within a line. Whatever such loads and stores the client issues to cached addresses (no bypass, no cache-block
  operation), with a memory that never answers with an error, and however the
  ticks of the cache, the client and the memory behind the AXI channels interleave, the cache never fails an assertion, and its answers come in order and
  are those of a plain memory that serves the requests one after the other: with write-backs, refills and hits that overtake a miss
  no store is lost and no load is stale. Once nothing is waiting, every request has been answered.
\<close>

theorem l1_transparent:
  assumes "l1_ready l" "\<forall>r. CIssue r \<in> set evs \<longrightarrow> cached_req l r"
  shows "\<exists>y. l1_exec evs (l1_boot l m) = Some y \<and> (\<exists>rest. spec_rsps m (y_reqs y) = y_rsps y @ rest)
    \<and> (l1_drained (y_l1 y) \<longrightarrow> y_rsps y = spec_rsps m (y_reqs y))"
proof -
  have "cached_req (y_l1 (l1_boot l m)) r" if "CIssue r \<in> set evs" for r
    using assms(2) that cached_req_conf [of "y_l1 (l1_boot l m)" l] by (simp add: l1_boot_def l1_reset_def)
  from exec_ok [OF boot_ok [OF assms(1)] this] l1_ok_answers show ?thesis by blast
qed

text \<open>
  A cache of two lines, one per set, between channels of depth four: a store that misses and two loads that hit, the second across a word boundary.
\<close>

definition sample_req :: "bti_req_cmd \<Rightarrow> u32 \<Rightarrow> u32 \<Rightarrow> bti_req" where
  "sample_req c a d = \<lparr>bq_trans_id = 7, bq_cmd = c, bq_addr = a, bq_size = BTI_REQ_SIZE_B4, bq_data = d, bq_strobe = 0xf\<rparr>"

definition l1_sample :: l1 where
  "l1_sample = (let r0 = sample_req BTI_REQ_CMD_READ 0 0 in
     \<lparr>c_bti_req_slv = fifo_itf_construct 4, c_bti_rsp_mst = fifo_itf_construct 4, c_axi4_aw_mst = fifo_itf_construct 4, c_axi4_w_mst = fifo_itf_construct 4,
      c_axi4_b_slv = fifo_itf_construct 4, c_axi4_ar_mst = fifo_itf_construct 4, c_axi4_r_slv = fifo_itf_construct 4, c_flush_slv = None, c_flush_ack_mst = None,
      c_conf = \<lparr>k_full_bypass = False, k_ro = False, k_way_num = 1, k_latency = 1, k_bypass_ranges = [(0x80000000, 0x1000)]\<rparr>,
      c_set_num = 2, c_line_num = 2, c_arr = \<lparr>a_tags = [], a_data = [], a_replace_ways = [], a_valids = [], a_dirtys = []\<rparr>,
      c_req_fifo = the (fifo_construct 2), c_ost = the (ostq_construct 4), c_req_pipe_vld = False, c_req_pipe = r0, c_lookup_pipe_vld = False,
      c_lookup_pipe = \<lparr>lp_req = r0, lp_bypass = False, lp_hit = False, lp_way = 0, lp_line_idx = 0\<rparr>, c_hit_pipe_vld = False,
      c_hit_pipe = \<lparr>hp_req = r0, hp_slot = 0, hp_way = 0, hp_line_idx = 0\<rparr>,
      c_eng = \<lparr>m_state = L1_STATE_IDLE, m_active_slot = 0, m_req = r0, m_req_set = 0, m_req_way = 0, m_req_line_idx = 0, m_req_tag = 0, m_req_line_addr = 0,
        m_req_byte_idx = 0, m_req_data = 0, m_wb_line_addr = 0, m_beat_idx = 0, m_flush_line_idx = 0, m_op_ok = False\<rparr>,
      c_perf = \<lparr>p_hit = 0, p_miss = 0, p_bypass = 0, p_writeback = 0, p_stg_full = 0, p_ost_full = 0, p_miss_busy = 0\<rparr>\<rparr>)"

definition l1_script :: "l1_ev list" where
  "l1_script = [CIssue (sample_req BTI_REQ_CMD_WRITE 0x44 0x11223344), CIssue (sample_req BTI_REQ_CMD_READ 0x44 0), CIssue (sample_req BTI_REQ_CMD_READ 0x46 0)]
     @ concat (replicate 29 [CTick, CTakeAr, CGiveR, CReceive])"

lemma l1_sample_ready: "l1_ready l1_sample"
proof -
  obtain f where f: "fifo_construct 2 = Some (f :: bti_req fifo)" by (simp add: fifo_construct_def)
  obtain q where q: "ostq_construct 4 = Some (q :: l1_ost_ctx ostq)" by (simp add: ostq_construct_def)
  have t: "itf_inv (fifo_itf_construct 4)" "itf_list (fifo_itf_construct 4) = []" by (simp_all add: itf_construct_inv)
  show ?thesis using fifo_construct_inv [OF f] ostq_construct_live [OF q] t
    by (simp add: l1_ready_def l1_ports_def l1_sample_def Let_def f q)
qed

lemma l1_script_cached: "CIssue r \<in> set l1_script \<Longrightarrow> cached_req l1_sample r"
proof -
  have ok: "cached_req l1_sample (sample_req BTI_REQ_CMD_WRITE 0x44 0x11223344)" "cached_req l1_sample (sample_req BTI_REQ_CMD_READ 0x44 0)"
    "cached_req l1_sample (sample_req BTI_REQ_CMD_READ 0x46 0)" by code_simp+
  assume "CIssue r \<in> set l1_script"
  then show ?thesis using ok by (auto simp: l1_script_def)
qed

lemma l1_script_run: "map_option (\<lambda>y. (y_reqs y, l1_drained (y_l1 y))) (l1_exec l1_script (l1_boot l1_sample (\<lambda>_. 0)))
  = Some ([sample_req BTI_REQ_CMD_WRITE 0x44 0x11223344, sample_req BTI_REQ_CMD_READ 0x44 0, sample_req BTI_REQ_CMD_READ 0x46 0], True)"
  by code_simp

theorem l1_transparent_witness:
  "\<exists>y. l1_exec l1_script (l1_boot l1_sample (\<lambda>_. 0)) = Some y
    \<and> map bp_data (y_rsps y) = [0, 0x11223344, 0x1122] \<and> list_all bp_ok (y_rsps y)"
proof -
  from l1_transparent [OF l1_sample_ready, of l1_script "\<lambda>_. 0"] l1_script_cached obtain y where
    y: "l1_exec l1_script (l1_boot l1_sample (\<lambda>_. 0)) = Some y" "l1_drained (y_l1 y) \<longrightarrow> y_rsps y = spec_rsps (\<lambda>_. 0) (y_reqs y)" by blast
  with l1_script_run have "y_reqs y = [sample_req BTI_REQ_CMD_WRITE 0x44 0x11223344, sample_req BTI_REQ_CMD_READ 0x44 0, sample_req BTI_REQ_CMD_READ 0x46 0]"
    "l1_drained (y_l1 y)" by simp_all
  moreover have "map bp_data (spec_rsps (\<lambda>_. 0) [sample_req BTI_REQ_CMD_WRITE 0x44 0x11223344, sample_req BTI_REQ_CMD_READ 0x44 0, sample_req BTI_REQ_CMD_READ 0x46 0])
      = [0, 0x11223344, 0x1122]"
    "list_all bp_ok (spec_rsps (\<lambda>_. 0) [sample_req BTI_REQ_CMD_WRITE 0x44 0x11223344, sample_req BTI_REQ_CMD_READ 0x44 0, sample_req BTI_REQ_CMD_READ 0x46 0])"
    by code_simp+
  ultimately show ?thesis using y by auto
qed

text \<open>
  The restriction to requests within a line is needed: a load across two lines while a store to a third address is under way.
\<close>

definition l1_cross_script :: "l1_ev list" where
  "l1_cross_script = [CIssue (sample_req BTI_REQ_CMD_READ 0xC4 0)] @ concat (replicate 21 [CTick, CTakeAr, CGiveR])
     @ [CIssue (sample_req BTI_REQ_CMD_READ 0x3e 0)] @ concat (replicate 16 [CTick, CTakeAr, CGiveR])
     @ [CIssue (sample_req BTI_REQ_CMD_WRITE 0xC4 0x11223344)] @ concat (replicate 24 [CTick, CTakeAr, CGiveR, CReceive])"

text \<open>
  A load that crosses a line boundary needs two refills; when the first is complete, the engine picks a victim for the
  second before the hit under way is served, and a clean victim is given up at once. A store that is under way to that very line is then answered as
  done, but the refill overwrites it: afterwards the stored word is neither in a line of the cache nor in the memory.
\<close>

lemma l1_cross_line_loses_store:
  "map_option (\<lambda>y. (map bp_ok (y_rsps y), l1_drained (y_l1 y), l1_lookup_addr (y_l1 y) 0xC4, x_mem (y_axi y) 0xC4))
     (l1_exec l1_cross_script (l1_boot l1_sample (\<lambda>_. 0)))
   = Some ([True, True, True], True, Some None, 0)"
  by code_simp

end
