(* ===== verification/Ports.thy ===== *)
theory Ports
  imports Fifo
begin

text \<open>
  What a port holds: an interface or a staging queue together with its contents as a list. The units of the
  interconnect are run symbolically over these facts.
\<close>

definition itf_holds :: "'a itf \<Rightarrow> 'a list \<Rightarrow> bool" where
  "itf_holds t xs \<longleftrightarrow> itf_inv t \<and> itf_list t = xs"

definition port_holds :: "'a itf option \<Rightarrow> 'a list \<Rightarrow> bool" where
  "port_holds port xs \<longleftrightarrow> (\<exists>t. port = Some t \<and> itf_holds t xs)"

lemma holds_Nil: "itf_holds t [] \<Longrightarrow> itf_fifo_empty t \<and> \<not> itf_fifo_full t"
  by (auto simp: itf_holds_def itf.is_empty_iff itf.is_full_iff itf_inv_def ring_inv_def)

lemma holds_Cons:
  assumes "itf_holds t (x # xs)"
  shows "\<not> itf_fifo_empty t" "itf_fifo_get_front t = Some x"
    "\<exists>t'. itf_fifo_pop_front t = Some t' \<and> itf_read t = Some (x, t') \<and> itf_holds t' xs"
proof -
  have t: "itf_inv t" "itf_list t = x # xs" using assms by (simp_all add: itf_holds_def)
  then show ne: "\<not> itf_fifo_empty t" by (simp add: itf.is_empty_iff)
  show "itf_fifo_get_front t = Some x" using itf.front_Cons [OF t] .
  from itf.pop_Cons [OF t] obtain t' where "itf_read t = Some (x, t')" "itf_inv t'" "itf_list t' = xs" by blast
  then show "\<exists>t'. itf_fifo_pop_front t = Some t' \<and> itf_read t = Some (x, t') \<and> itf_holds t' xs"
    using itf_pop_front_read [OF t(1) ne] by (auto simp: itf_holds_def)
qed

lemma holds_write: "itf_holds t xs \<Longrightarrow> \<not> itf_fifo_full t \<Longrightarrow> \<exists>t'. itf_write t x = Some t' \<and> itf_holds t' (xs @ [x])"
  using itf.push_ok [of t x] by (auto simp: itf_holds_def)

definition fifo_holds :: "'a fifo \<Rightarrow> 'a list \<Rightarrow> bool" where
  "fifo_holds f xs \<longleftrightarrow> fifo_inv f \<and> fifo_list f = xs"

lemma fifo_holds_empty: "fifo_holds f xs \<Longrightarrow> fifo_empty f \<longleftrightarrow> xs = []"
  by (auto simp: fifo_holds_def fifo.is_empty_iff)

lemma fifo_holds_Cons:
  assumes "fifo_holds f (x # xs)"
  shows "fifo_get_front f = Some x" "\<exists>f'. fifo_pop f = Some (x, f') \<and> fifo_holds f' xs"
  using assms fifo.front_Cons [of f x xs] fifo.pop_Cons [of f x xs] by (auto simp: fifo_holds_def)

lemma fifo_holds_push: "fifo_holds f xs \<Longrightarrow> \<not> fifo_full f \<Longrightarrow> \<exists>f'. fifo_push f x = Some f' \<and> fifo_holds f' (xs @ [x])"
  using fifo.push_ok [of f x] by (auto simp: fifo_holds_def)

lemma itf_holds_empty: "itf_holds t xs \<Longrightarrow> itf_fifo_empty t \<longleftrightarrow> xs = []"
  by (auto simp: itf_holds_def itf.is_empty_iff)

section \<open>Identifiers, pending beats and arrays of ports\<close>

lemma ucast_u8_inj: "ucast (a :: u8) = (ucast b :: u32) \<longleftrightarrow> a = b"
proof
  assume eq: "ucast a = (ucast b :: u32)"
  show "a = b"
  proof (rule bit_word_eqI)
    fix n assume "n < LENGTH(8)"
    moreover from eq have "bit (ucast a :: u32) n = bit (ucast b :: u32) n" by simp
    ultimately show "bit a n = bit b n" by (simp add: bit_ucast_iff)
  qed
qed simp

definition pend :: "'r itf list \<Rightarrow> ('r \<Rightarrow> bool) \<Rightarrow> nat \<Rightarrow> 'r list" where
  "pend ts P g = (if g < length ts then filter P (itf_list (ts ! g)) else [])"

lemma pend_update: "g < length ts \<Longrightarrow> pend (ts[g := t]) P = (pend ts P)(g := filter P (itf_list t))"
  by (auto simp: pend_def fun_eq_iff nth_list_update)

lemma pend_same: "g < length ts \<Longrightarrow> filter P (itf_list t) = filter P (itf_list (ts ! g)) \<Longrightarrow> pend (ts[g := t]) P = pend ts P"
  by (auto simp: pend_def fun_eq_iff nth_list_update)

lemma count_list_snoc: "count_list (xs @ [x]) y = count_list xs y + of_bool (x = y)"
  by (induction xs) auto

lemma nth_upd_all: "\<forall>g<n. P (xs ! g) \<Longrightarrow> length xs = n \<Longrightarrow> P t \<Longrightarrow> \<forall>g<n. P (xs[i := t] ! g)"
  by (metis nth_list_update_eq nth_list_update_neq)

lemma fifo_construct_the: "0 < n \<Longrightarrow> fifo_inv (the (fifo_construct n) :: 'a fifo)"
  using fifo_construct_inv [of n "the (fifo_construct n) :: 'a fifo"] by (simp add: fifo_construct_def)

end
