(* ===== verification/ApbBus.thy ===== *)
theory ApbBus
  imports BtiPackets ApbPackets Ports
begin

text \<open>
  The configuration bus: the bridge from the bus transaction interface to the peripheral bus
  (\<^verbatim>\<open>bus/bridge/bti2apb.c\<close>), the address decoder behind it (\<^verbatim>\<open>bus/demux/apb_demux.c\<close>) and the two
  connected as in \<^verbatim>\<open>core/cbi.c\<close>. A host that waits for each answer reaches the device whose window
  holds the address and gets that device's answer; a host that does not wait is answered under the
  wrong identifier.
\<close>

section \<open>bti2apb.c\<close>

record bti2apb =
  b2a_bti_req_slv :: "bti_req itf"
  b2a_bti_rsp_mst :: "bti_rsp itf"
  b2a_apb_req_mst :: "apb_req itf"
  b2a_apb_rsp_slv :: "apb_rsp itf"
  b2a_bti_trans_id :: u32

definition bti2apb_reset :: "bti2apb \<Rightarrow> bti2apb" where
  "bti2apb_reset br = br\<lparr>b2a_bti_trans_id := 0\<rparr>"

definition bti2apb_proc_req :: "bti2apb \<Rightarrow> bti2apb option" where
  "bti2apb_proc_req br =
     (if itf_fifo_empty (b2a_bti_req_slv br) then Some br
      else do {
        bti_req \<leftarrow> itf_fifo_get_front (b2a_bti_req_slv br);
        if bq_cmd bti_req \<noteq> BTI_REQ_CMD_READ \<and> bq_cmd bti_req \<noteq> BTI_REQ_CMD_WRITE then
          if itf_fifo_full (b2a_bti_rsp_mst br) then Some br
          else do {
            t \<leftarrow> itf_fifo_pop_front (b2a_bti_req_slv br);
            u \<leftarrow> itf_write (b2a_bti_rsp_mst br) \<lparr>bp_trans_id = bq_trans_id bti_req, bp_data = 0, bp_ok = False\<rparr>;
            Some (br\<lparr>b2a_bti_req_slv := t, b2a_bti_rsp_mst := u\<rparr>)
          }
        else if itf_fifo_full (b2a_apb_req_mst br) then Some br
        else do {
          t \<leftarrow> itf_fifo_pop_front (b2a_bti_req_slv br);
          u \<leftarrow> itf_write (b2a_apb_req_mst br) \<lparr>aq_paddr = bq_addr bti_req, aq_pwrite = (bq_cmd bti_req = BTI_REQ_CMD_WRITE),
            aq_pwdata = bq_data bti_req, aq_pstrb = bq_strobe bti_req\<rparr>;
          Some (br\<lparr>b2a_bti_req_slv := t, b2a_apb_req_mst := u, b2a_bti_trans_id := ucast (bq_trans_id bti_req)\<rparr>)
        }
      })"

definition bti2apb_proc_rsp :: "bti2apb \<Rightarrow> bti2apb option" where
  "bti2apb_proc_rsp br =
     (if itf_fifo_empty (b2a_apb_rsp_slv br) then Some br
      else if itf_fifo_full (b2a_bti_rsp_mst br) then Some br
      else do {
        (apb_rsp, t) \<leftarrow> itf_read (b2a_apb_rsp_slv br);
        u \<leftarrow> itf_write (b2a_bti_rsp_mst br) \<lparr>bp_trans_id = ucast (b2a_bti_trans_id br), bp_data = ap_prdata apb_rsp, bp_ok = (\<not> ap_pslverr apb_rsp)\<rparr>;
        Some (br\<lparr>b2a_apb_rsp_slv := t, b2a_bti_rsp_mst := u\<rparr>)
      })"

definition bti2apb_clock :: "bti2apb \<Rightarrow> bti2apb option" where
  "bti2apb_clock br = do { br \<leftarrow> bti2apb_proc_req br; bti2apb_proc_rsp br }"

section \<open>apb_demux.c\<close>

text \<open>A port that is not connected is \<open>None\<close>.\<close>

record apb_demux =
  ad_host_req_slv :: "apb_req itf"
  ad_host_rsp_mst :: "apb_rsp itf"
  ad_gst_req_msts :: "apb_req itf option list"
  ad_gst_rsp_slvs :: "apb_rsp itf option list"
  ad_gst_num :: nat
  ad_gst_bases :: "u32 list"
  ad_gst_sizes :: "u32 list"

text \<open>The search loop of \<^verbatim>\<open>apb_demux_proc_req\<close>: the first window that holds the address.\<close>

definition apb_demux_find_gst :: "apb_demux \<Rightarrow> u32 \<Rightarrow> nat option" where
  "apb_demux_find_gst dm addr =
     List.find (\<lambda>i. ADDR_IN addr (ad_gst_bases dm ! i) (ad_gst_sizes dm ! i)) [0..<ad_gst_num dm]"

definition apb_demux_proc_req :: "apb_demux \<Rightarrow> apb_demux option" where
  "apb_demux_proc_req dm =
     (if itf_fifo_empty (ad_host_req_slv dm) then Some dm
      else do {
        apb_req \<leftarrow> itf_fifo_get_front (ad_host_req_slv dm);
        gst_idx \<leftarrow> apb_demux_find_gst dm (aq_paddr apb_req);
        port \<leftarrow> arr_get (ad_gst_req_msts dm) gst_idx;
        gst_req \<leftarrow> port;
        if itf_fifo_full gst_req then Some dm
        else do {
          t \<leftarrow> itf_fifo_pop_front (ad_host_req_slv dm);
          u \<leftarrow> itf_write gst_req apb_req;
          Some (dm\<lparr>ad_host_req_slv := t, ad_gst_req_msts := (ad_gst_req_msts dm)[gst_idx := Some u]\<rparr>)
        }
      })"

fun apb_demux_rsp_loop :: "nat list \<Rightarrow> apb_demux \<Rightarrow> apb_demux option" where
  "apb_demux_rsp_loop [] dm = Some dm"
| "apb_demux_rsp_loop (i # is) dm = do {
     port \<leftarrow> arr_get (ad_gst_rsp_slvs dm) i;
     case port of
       None \<Rightarrow> apb_demux_rsp_loop is dm
     | Some gst_rsp \<Rightarrow>
         if itf_fifo_full (ad_host_rsp_mst dm) then apb_demux_rsp_loop is dm
         else if itf_fifo_empty gst_rsp then apb_demux_rsp_loop is dm
         else do {
           (apb_rsp, t) \<leftarrow> itf_read gst_rsp;
           u \<leftarrow> itf_write (ad_host_rsp_mst dm) apb_rsp;
           apb_demux_rsp_loop is (dm\<lparr>ad_gst_rsp_slvs := (ad_gst_rsp_slvs dm)[i := Some t], ad_host_rsp_mst := u\<rparr>)
         }
   }"

definition apb_demux_proc_rsp :: "apb_demux \<Rightarrow> apb_demux option" where
  "apb_demux_proc_rsp dm = apb_demux_rsp_loop [0..<ad_gst_num dm] dm"

definition apb_demux_clock :: "apb_demux \<Rightarrow> apb_demux option" where
  "apb_demux_clock dm = do { dm \<leftarrow> apb_demux_proc_req dm; apb_demux_proc_rsp dm }"

section \<open>cbi.c: the configuration bus\<close>

text \<open>The bridge and the decoder share the two interfaces between them.\<close>

record cfg_bus =
  cb_br :: bti2apb
  cb_dm :: apb_demux

definition cfg_bus_clock :: "cfg_bus \<Rightarrow> cfg_bus option" where
  "cfg_bus_clock cb = do {
     br \<leftarrow> bti2apb_clock (cb_br cb);
     dm \<leftarrow> apb_demux_clock ((cb_dm cb)\<lparr>ad_host_req_slv := b2a_apb_req_mst br, ad_host_rsp_mst := b2a_apb_rsp_slv br\<rparr>);
     Some \<lparr>cb_br = br\<lparr>b2a_apb_req_mst := ad_host_req_slv dm, b2a_apb_rsp_slv := ad_host_rsp_mst dm\<rparr>, cb_dm = dm\<rparr>
   }"

section \<open>One access on its way\<close>

text \<open>
  With a single access on the bus, every interface is empty but one: where the access is.
\<close>

definition apb_of :: "bti_req \<Rightarrow> apb_req" where
  "apb_of r = \<lparr>aq_paddr = bq_addr r, aq_pwrite = (bq_cmd r = BTI_REQ_CMD_WRITE), aq_pwdata = bq_data r, aq_pstrb = bq_strobe r\<rparr>"

definition bti_of :: "bti_req \<Rightarrow> apb_rsp \<Rightarrow> bti_rsp" where
  "bti_of r a = \<lparr>bp_trans_id = bq_trans_id r, bp_data = ap_prdata a, bp_ok = (\<not> ap_pslverr a)\<rparr>"

definition bti_reject :: "bti_req \<Rightarrow> bti_rsp" where
  "bti_reject r = \<lparr>bp_trans_id = bq_trans_id r, bp_data = 0, bp_ok = False\<rparr>"

definition is_rw :: "bti_req \<Rightarrow> bool" where
  "is_rw r \<longleftrightarrow> bq_cmd r = BTI_REQ_CMD_READ \<or> bq_cmd r = BTI_REQ_CMD_WRITE"

datatype place = Idle | AtBridge bti_req | ToGuest nat bti_req | InGuest nat bti_req | FromGuest nat bti_req apb_rsp
  | BackMid bti_req apb_rsp | Back bti_rsp

definition br_holds :: "bti2apb \<Rightarrow> bti_req list \<Rightarrow> apb_req list \<Rightarrow> apb_rsp list \<Rightarrow> bti_rsp list \<Rightarrow> bool" where
  "br_holds br q m mr out \<longleftrightarrow> itf_holds (b2a_bti_req_slv br) q \<and> itf_holds (b2a_apb_req_mst br) m
     \<and> itf_holds (b2a_apb_rsp_slv br) mr \<and> itf_holds (b2a_bti_rsp_mst br) out"

lemma br_quiet: "br_holds br [] m [] out \<Longrightarrow> bti2apb_clock br = Some br"
  by (simp add: br_holds_def bti2apb_clock_def bti2apb_proc_req_def bti2apb_proc_rsp_def holds_Nil)

lemma br_forward:
  assumes "br_holds br [r] [] [] out" "is_rw r"
  shows "\<exists>br'. bti2apb_clock br = Some br' \<and> br_holds br' [] [apb_of r] [] out \<and> b2a_bti_trans_id br' = ucast (bq_trans_id r)"
proof -
  have h: "itf_holds (b2a_bti_req_slv br) [r]" "itf_holds (b2a_apb_req_mst br) []" "itf_holds (b2a_apb_rsp_slv br) []"
    using assms(1) by (simp_all add: br_holds_def)
  from holds_Cons [OF h(1)] obtain t where t: "itf_fifo_pop_front (b2a_bti_req_slv br) = Some t" "itf_holds t []" by blast
  from holds_write [OF h(2), of "apb_of r"] holds_Nil [OF h(2)] obtain u where
    u: "itf_write (b2a_apb_req_mst br) (apb_of r) = Some u" "itf_holds u [apb_of r]" by auto
  have "bti2apb_proc_req br = Some (br\<lparr>b2a_bti_req_slv := t, b2a_apb_req_mst := u, b2a_bti_trans_id := ucast (bq_trans_id r)\<rparr>)"
    using holds_Cons(1,2) [OF h(1)] holds_Nil [OF h(2)] t(1) u(1) assms(2)
    by (auto simp: bti2apb_proc_req_def is_rw_def apb_of_def)
  then show ?thesis using t(2) u(2) assms(1) holds_Nil [OF h(3)] by (simp add: bti2apb_clock_def bti2apb_proc_rsp_def br_holds_def)
qed

lemma br_reject:
  assumes "br_holds br [r] m [] []" "\<not> is_rw r"
  shows "\<exists>br'. bti2apb_clock br = Some br' \<and> br_holds br' [] m [] [bti_reject r]"
proof -
  have h: "itf_holds (b2a_bti_req_slv br) [r]" "itf_holds (b2a_bti_rsp_mst br) []" "itf_holds (b2a_apb_rsp_slv br) []"
    using assms(1) by (simp_all add: br_holds_def)
  from holds_Cons [OF h(1)] obtain t where t: "itf_fifo_pop_front (b2a_bti_req_slv br) = Some t" "itf_holds t []" by blast
  from holds_write [OF h(2), of "bti_reject r"] holds_Nil [OF h(2)] obtain u where
    u: "itf_write (b2a_bti_rsp_mst br) (bti_reject r) = Some u" "itf_holds u [bti_reject r]" by auto
  have "bti2apb_proc_req br = Some (br\<lparr>b2a_bti_req_slv := t, b2a_bti_rsp_mst := u\<rparr>)"
    using holds_Cons(1,2) [OF h(1)] holds_Nil [OF h(2)] t(1) u(1) assms(2)
    by (simp add: bti2apb_proc_req_def is_rw_def bti_reject_def)
  then show ?thesis using t(2) u(2) assms(1) holds_Nil [OF h(3)] by (simp add: bti2apb_clock_def bti2apb_proc_rsp_def br_holds_def)
qed

lemma br_answer:
  assumes "br_holds br [] m [a] []" "b2a_bti_trans_id br = ucast (bq_trans_id r)"
  shows "\<exists>br'. bti2apb_clock br = Some br' \<and> br_holds br' [] m [] [bti_of r a]"
proof -
  have h: "itf_holds (b2a_apb_rsp_slv br) [a]" "itf_holds (b2a_bti_rsp_mst br) []" "itf_holds (b2a_bti_req_slv br) []"
    using assms(1) by (simp_all add: br_holds_def)
  from holds_Cons [OF h(1)] obtain t where t: "itf_read (b2a_apb_rsp_slv br) = Some (a, t)" "itf_holds t []" by blast
  from holds_write [OF h(2), of "bti_of r a"] holds_Nil [OF h(2)] obtain u where
    u: "itf_write (b2a_bti_rsp_mst br) (bti_of r a) = Some u" "itf_holds u [bti_of r a]" by auto
  have id: "ucast (ucast (bq_trans_id r) :: u32) = bq_trans_id r"
    by (rule bit_word_eqI) (simp add: bit_ucast_iff)
  have "bti2apb_clock br = Some (br\<lparr>b2a_apb_rsp_slv := t, b2a_bti_rsp_mst := u\<rparr>)"
    using holds_Nil [OF h(2)] holds_Nil [OF h(3)] holds_Cons(1) [OF h(1)] t(1) u(1) assms(2) id
    by (simp add: bti2apb_clock_def bti2apb_proc_req_def bti2apb_proc_rsp_def bti_of_def)
  then show ?thesis using t(2) u(2) assms(1) by (simp add: br_holds_def)
qed

text \<open>The decoder: its windows, and what its ports hold.\<close>

definition dm_holds :: "apb_demux \<Rightarrow> (nat \<Rightarrow> apb_req list) \<Rightarrow> (nat \<Rightarrow> apb_rsp list) \<Rightarrow> bool" where
  "dm_holds dm gq gr \<longleftrightarrow> length (ad_gst_req_msts dm) = ad_gst_num dm \<and> length (ad_gst_rsp_slvs dm) = ad_gst_num dm
     \<and> (\<forall>g<ad_gst_num dm. port_holds (ad_gst_req_msts dm ! g) (gq g) \<and> port_holds (ad_gst_rsp_slvs dm ! g) (gr g))"

lemma rsp_loop_append: "apb_demux_rsp_loop (xs @ ys) dm = do { dm \<leftarrow> apb_demux_rsp_loop xs dm; apb_demux_rsp_loop ys dm }"
proof (induction xs arbitrary: dm)
  case (Cons i xs)
  show ?case
  proof (cases "arr_get (ad_gst_rsp_slvs dm) i")
    case (Some port)
    with Cons show ?thesis by (cases port) (auto split: Option.bind_split)
  qed simp
qed simp

lemma rsp_loop_quiet:
  "\<forall>i\<in>set is. i < length (ad_gst_rsp_slvs dm) \<and> port_holds (ad_gst_rsp_slvs dm ! i) [] \<Longrightarrow> apb_demux_rsp_loop is dm = Some dm"
  by (induction "is") (auto simp: port_holds_def dest: holds_Nil)

lemma find_gst_lt: "apb_demux_find_gst dm a = Some g \<Longrightarrow> g < ad_gst_num dm"
  unfolding apb_demux_find_gst_def by (drule find_SomeD) simp

lemma dm_quiet:
  assumes "itf_holds (ad_host_req_slv dm) []" "dm_holds dm gq (\<lambda>_. [])"
  shows "apb_demux_clock dm = Some dm"
proof -
  have "apb_demux_rsp_loop [0..<ad_gst_num dm] dm = Some dm"
    by (rule rsp_loop_quiet) (use assms(2) in \<open>simp add: dm_holds_def\<close>)
  then show ?thesis using holds_Nil [OF assms(1)]
    by (simp add: apb_demux_clock_def apb_demux_proc_req_def apb_demux_proc_rsp_def)
qed

lemma dm_forward:
  assumes m: "itf_holds (ad_host_req_slv dm) [q]" and d: "dm_holds dm gq (\<lambda>_. [])"
    and g: "apb_demux_find_gst dm (aq_paddr q) = Some g" and e: "gq g = []"
  shows "\<exists>dm'. apb_demux_clock dm = Some dm' \<and> itf_holds (ad_host_req_slv dm') [] \<and> ad_host_rsp_mst dm' = ad_host_rsp_mst dm
    \<and> dm_holds dm' (gq(g := [q])) (\<lambda>_. []) \<and> apb_demux_find_gst dm' = apb_demux_find_gst dm \<and> ad_gst_num dm' = ad_gst_num dm"
proof -
  have lt: "g < ad_gst_num dm" by (rule find_gst_lt [OF g])
  with d e obtain t where t: "ad_gst_req_msts dm ! g = Some t" "itf_holds t []" and len: "g < length (ad_gst_req_msts dm)"
    by (auto simp: dm_holds_def port_holds_def)
  from holds_write [OF t(2), of q] holds_Nil [OF t(2)] obtain u where u: "itf_write t q = Some u" "itf_holds u [q]" by auto
  from holds_Cons [OF m] obtain v where v: "itf_fifo_pop_front (ad_host_req_slv dm) = Some v" "itf_holds v []" by blast
  define dm' where "dm' = dm\<lparr>ad_host_req_slv := v, ad_gst_req_msts := (ad_gst_req_msts dm)[g := Some u]\<rparr>"
  have "apb_demux_proc_req dm = Some dm'"
    using holds_Cons(1,2) [OF m] g len t holds_Nil [OF t(2)] u(1) v(1) by (simp add: apb_demux_proc_req_def dm'_def)
  moreover have h: "dm_holds dm' (gq(g := [q])) (\<lambda>_. [])"
    using d len u(2) by (auto simp: dm_holds_def dm'_def port_holds_def nth_list_update)
  then have "apb_demux_rsp_loop [0..<ad_gst_num dm'] dm' = Some dm'"
    by (intro rsp_loop_quiet) (simp add: dm_holds_def)
  ultimately have "apb_demux_clock dm = Some dm'" by (simp add: apb_demux_clock_def apb_demux_proc_rsp_def)
  with h v(2) show ?thesis
    by (intro exI [of _ dm']) (simp add: dm'_def apb_demux_find_gst_def fun_eq_iff)
qed

lemma dm_answer:
  assumes m: "itf_holds (ad_host_req_slv dm) []" "itf_holds (ad_host_rsp_mst dm) []"
    and d: "dm_holds dm gq ((\<lambda>_. [])(g := [a]))" and g: "g < ad_gst_num dm"
  shows "\<exists>dm'. apb_demux_clock dm = Some dm' \<and> ad_host_req_slv dm' = ad_host_req_slv dm \<and> itf_holds (ad_host_rsp_mst dm') [a]
    \<and> dm_holds dm' gq (\<lambda>_. []) \<and> apb_demux_find_gst dm' = apb_demux_find_gst dm \<and> ad_gst_num dm' = ad_gst_num dm"
proof -
  from d g obtain t where t: "ad_gst_rsp_slvs dm ! g = Some t" "itf_holds t [a]" and len: "g < length (ad_gst_rsp_slvs dm)"
    by (auto simp: dm_holds_def port_holds_def split: if_splits)
  from holds_Cons [OF t(2)] obtain v where v: "itf_read t = Some (a, v)" "itf_holds v []" by blast
  from holds_write [OF m(2), of a] holds_Nil [OF m(2)] obtain u where u: "itf_write (ad_host_rsp_mst dm) a = Some u" "itf_holds u [a]" by auto
  define dm' where "dm' = dm\<lparr>ad_gst_rsp_slvs := (ad_gst_rsp_slvs dm)[g := Some v], ad_host_rsp_mst := u\<rparr>"
  have h: "dm_holds dm' gq (\<lambda>_. [])"
    using d len v(2) by (auto simp: dm_holds_def dm'_def port_holds_def nth_list_update split: if_splits)
  have "[0..<ad_gst_num dm] = [0..<g] @ g # [Suc g..<ad_gst_num dm]"
    using g upt_add_eq_append [of 0 g "ad_gst_num dm - g"] upt_conv_Cons [of g "ad_gst_num dm"] by simp
  moreover have "apb_demux_rsp_loop [0..<g] dm = Some dm"
  proof (rule rsp_loop_quiet, intro ballI conjI)
    fix i assume "i \<in> set [0..<g]"
    then have i: "i < ad_gst_num dm" "i \<noteq> g" using g by auto
    with d show "i < length (ad_gst_rsp_slvs dm)" by (simp add: dm_holds_def)
    have "port_holds (ad_gst_rsp_slvs dm ! i) (((\<lambda>_. [])(g := [a])) i)" using d i(1) unfolding dm_holds_def by blast
    with i(2) show "port_holds (ad_gst_rsp_slvs dm ! i) []" by simp
  qed
  moreover have "apb_demux_rsp_loop [Suc g..<ad_gst_num dm] dm' = Some dm'"
    by (rule rsp_loop_quiet) (use h in \<open>auto simp: dm_holds_def dm'_def\<close>)
  ultimately have "apb_demux_proc_rsp dm = Some dm'"
    using len t holds_Cons(1) [OF t(2)] holds_Nil [OF m(2)] v(1) u(1)
    by (simp add: apb_demux_proc_rsp_def rsp_loop_append dm'_def)
  then have "apb_demux_clock dm = Some dm'"
    using holds_Nil [OF m(1)] by (simp add: apb_demux_clock_def apb_demux_proc_req_def)
  with h u(2) show ?thesis
    by (intro exI [of _ dm']) (simp add: dm'_def apb_demux_find_gst_def fun_eq_iff)
qed

section \<open>A tick of the bus\<close>

definition guest_reqs :: "place \<Rightarrow> nat \<Rightarrow> apb_req list" where
  "guest_reqs p = (case p of ToGuest g r \<Rightarrow> (\<lambda>_. [])(g := [apb_of r]) | _ \<Rightarrow> (\<lambda>_. []))"

definition guest_rsps :: "place \<Rightarrow> nat \<Rightarrow> apb_rsp list" where
  "guest_rsps p = (case p of FromGuest g r a \<Rightarrow> (\<lambda>_. [])(g := [a]) | _ \<Rightarrow> (\<lambda>_. []))"

definition place_req :: "place \<Rightarrow> bti_req option" where
  "place_req p = (case p of ToGuest g r \<Rightarrow> Some r | InGuest g r \<Rightarrow> Some r | FromGuest g r a \<Rightarrow> Some r | BackMid r a \<Rightarrow> Some r | _ \<Rightarrow> None)"

definition place_guest :: "place \<Rightarrow> nat option" where
  "place_guest p = (case p of ToGuest g r \<Rightarrow> Some g | InGuest g r \<Rightarrow> Some g | FromGuest g r a \<Rightarrow> Some g | _ \<Rightarrow> None)"

definition bus_at :: "cfg_bus \<Rightarrow> place \<Rightarrow> bool" where
  "bus_at cb p \<longleftrightarrow>
     br_holds (cb_br cb) (case p of AtBridge r \<Rightarrow> [r] | _ \<Rightarrow> []) [] (case p of BackMid r a \<Rightarrow> [a] | _ \<Rightarrow> [])
       (case p of Back b \<Rightarrow> [b] | _ \<Rightarrow> [])
     \<and> dm_holds (cb_dm cb) (guest_reqs p) (guest_rsps p)
     \<and> (\<forall>r. place_req p = Some r \<longrightarrow> b2a_bti_trans_id (cb_br cb) = ucast (bq_trans_id r))
     \<and> (\<forall>g. place_guest p = Some g \<longrightarrow> g < ad_gst_num (cb_dm cb))"

abbreviation bus_decode :: "cfg_bus \<Rightarrow> u32 \<Rightarrow> nat option" where
  "bus_decode cb \<equiv> apb_demux_find_gst (cb_dm cb)"

definition place_tick :: "(u32 \<Rightarrow> nat option) \<Rightarrow> place \<Rightarrow> place" where
  "place_tick dec p = (case p of
     AtBridge r \<Rightarrow> if is_rw r then ToGuest (the (dec (bq_addr r))) r else Back (bti_reject r)
   | FromGuest g r a \<Rightarrow> BackMid r a
   | BackMid r a \<Rightarrow> Back (bti_of r a)
   | _ \<Rightarrow> p)"

lemma dm_connect [simp]: "dm_holds (dm\<lparr>ad_host_req_slv := t, ad_host_rsp_mst := u\<rparr>) gq gr = dm_holds dm gq gr"
  "apb_demux_find_gst (dm\<lparr>ad_host_req_slv := t, ad_host_rsp_mst := u\<rparr>) = apb_demux_find_gst dm"
  by (simp_all add: dm_holds_def apb_demux_find_gst_def fun_eq_iff)

lemma br_connect [simp]: "br_holds (br\<lparr>b2a_apb_req_mst := t, b2a_apb_rsp_slv := u\<rparr>) q m mr out
    \<longleftrightarrow> itf_holds (b2a_bti_req_slv br) q \<and> itf_holds t m \<and> itf_holds u mr \<and> itf_holds (b2a_bti_rsp_mst br) out"
  by (simp add: br_holds_def)

text \<open>When nothing comes from the devices, the decoder only passes on what the bridge sent.\<close>

lemma bus_tick_no_request:
  assumes "bti2apb_clock (cb_br cb) = Some br" "br_holds br q [] mr out" "dm_holds (cb_dm cb) gq (\<lambda>_. [])"
  shows "\<exists>cb'. cfg_bus_clock cb = Some cb' \<and> br_holds (cb_br cb') q [] mr out \<and> dm_holds (cb_dm cb') gq (\<lambda>_. [])
    \<and> bus_decode cb' = bus_decode cb \<and> ad_gst_num (cb_dm cb') = ad_gst_num (cb_dm cb) \<and> b2a_bti_trans_id (cb_br cb') = b2a_bti_trans_id br"
proof -
  let ?dm = "(cb_dm cb)\<lparr>ad_host_req_slv := b2a_apb_req_mst br, ad_host_rsp_mst := b2a_apb_rsp_slv br\<rparr>"
  have "apb_demux_clock ?dm = Some ?dm" by (rule dm_quiet) (use assms(2,3) in \<open>simp_all add: br_holds_def\<close>)
  with assms(1) have "cfg_bus_clock cb = Some \<lparr>cb_br = br, cb_dm = ?dm\<rparr>" by (simp add: cfg_bus_clock_def)
  with assms(2,3) show ?thesis by simp
qed

lemma bus_tick:
  assumes at: "bus_at cb p" and dec: "\<And>r. p = AtBridge r \<Longrightarrow> is_rw r \<Longrightarrow> bus_decode cb (bq_addr r) \<noteq> None"
  shows "\<exists>cb'. cfg_bus_clock cb = Some cb' \<and> bus_at cb' (place_tick (bus_decode cb) p) \<and> bus_decode cb' = bus_decode cb"
proof (cases p)
  case (AtBridge r)
  have h: "br_holds (cb_br cb) [r] [] [] []" "dm_holds (cb_dm cb) (\<lambda>_. []) (\<lambda>_. [])"
    using at AtBridge by (simp_all add: bus_at_def guest_reqs_def guest_rsps_def)
  show ?thesis
  proof (cases "is_rw r")
    case True
    from br_forward [OF h(1) True] obtain br where br: "bti2apb_clock (cb_br cb) = Some br" "br_holds br [] [apb_of r] [] []"
      "b2a_bti_trans_id br = ucast (bq_trans_id r)" by blast
    let ?dm = "(cb_dm cb)\<lparr>ad_host_req_slv := b2a_apb_req_mst br, ad_host_rsp_mst := b2a_apb_rsp_slv br\<rparr>"
    obtain g where g: "bus_decode cb (bq_addr r) = Some g" using dec [OF AtBridge True] by auto
    have "\<exists>dm'. apb_demux_clock ?dm = Some dm' \<and> itf_holds (ad_host_req_slv dm') [] \<and> ad_host_rsp_mst dm' = ad_host_rsp_mst ?dm
      \<and> dm_holds dm' ((\<lambda>_. [])(g := [apb_of r])) (\<lambda>_. []) \<and> apb_demux_find_gst dm' = apb_demux_find_gst ?dm \<and> ad_gst_num dm' = ad_gst_num ?dm"
      by (rule dm_forward) (use br(2) h(2) g in \<open>simp_all add: br_holds_def apb_of_def\<close>)
    then obtain dm' where dm': "apb_demux_clock ?dm = Some dm'" "itf_holds (ad_host_req_slv dm') []" "ad_host_rsp_mst dm' = b2a_apb_rsp_slv br"
      "dm_holds dm' ((\<lambda>_. [])(g := [apb_of r])) (\<lambda>_. [])" "apb_demux_find_gst dm' = bus_decode cb" "ad_gst_num dm' = ad_gst_num (cb_dm cb)" by auto
    have "cfg_bus_clock cb = Some \<lparr>cb_br = br\<lparr>b2a_apb_req_mst := ad_host_req_slv dm', b2a_apb_rsp_slv := ad_host_rsp_mst dm'\<rparr>, cb_dm = dm'\<rparr>"
      using br(1) dm'(1) by (simp add: cfg_bus_clock_def)
    then show ?thesis using AtBridge True br(2,3) dm' g find_gst_lt [OF g]
      by (simp add: bus_at_def place_tick_def guest_reqs_def guest_rsps_def place_req_def place_guest_def br_holds_def)
  next
    case False
    from br_reject [OF h(1) False] obtain br where br: "bti2apb_clock (cb_br cb) = Some br" "br_holds br [] [] [] [bti_reject r]" by blast
    from bus_tick_no_request [OF br h(2)] show ?thesis using AtBridge False
      by (auto simp: bus_at_def place_tick_def guest_reqs_def guest_rsps_def place_req_def place_guest_def)
  qed
next
  case (FromGuest g r a)
  have h: "br_holds (cb_br cb) [] [] [] []" "dm_holds (cb_dm cb) (\<lambda>_. []) ((\<lambda>_. [])(g := [a]))" "g < ad_gst_num (cb_dm cb)"
    using at FromGuest by (simp_all add: bus_at_def guest_reqs_def guest_rsps_def place_guest_def)
  have br: "bti2apb_clock (cb_br cb) = Some (cb_br cb)" by (rule br_quiet [OF h(1)])
  let ?dm = "(cb_dm cb)\<lparr>ad_host_req_slv := b2a_apb_req_mst (cb_br cb), ad_host_rsp_mst := b2a_apb_rsp_slv (cb_br cb)\<rparr>"
  have "\<exists>dm'. apb_demux_clock ?dm = Some dm' \<and> ad_host_req_slv dm' = ad_host_req_slv ?dm \<and> itf_holds (ad_host_rsp_mst dm') [a]
    \<and> dm_holds dm' (\<lambda>_. []) (\<lambda>_. []) \<and> apb_demux_find_gst dm' = apb_demux_find_gst ?dm \<and> ad_gst_num dm' = ad_gst_num ?dm"
    by (rule dm_answer) (use h in \<open>simp_all add: br_holds_def\<close>)
  then obtain dm' where dm': "apb_demux_clock ?dm = Some dm'" "ad_host_req_slv dm' = b2a_apb_req_mst (cb_br cb)" "itf_holds (ad_host_rsp_mst dm') [a]"
    "dm_holds dm' (\<lambda>_. []) (\<lambda>_. [])" "apb_demux_find_gst dm' = bus_decode cb" "ad_gst_num dm' = ad_gst_num (cb_dm cb)" by auto
  have "cfg_bus_clock cb = Some \<lparr>cb_br = (cb_br cb)\<lparr>b2a_apb_req_mst := ad_host_req_slv dm', b2a_apb_rsp_slv := ad_host_rsp_mst dm'\<rparr>, cb_dm = dm'\<rparr>"
    using br dm'(1) by (simp add: cfg_bus_clock_def)
  then show ?thesis using FromGuest h at dm'
    by (simp add: bus_at_def place_tick_def guest_reqs_def guest_rsps_def place_req_def place_guest_def br_holds_def)
next
  case (BackMid r a)
  have h: "br_holds (cb_br cb) [] [] [a] []" "dm_holds (cb_dm cb) (\<lambda>_. []) (\<lambda>_. [])" "b2a_bti_trans_id (cb_br cb) = ucast (bq_trans_id r)"
    using at BackMid by (simp_all add: bus_at_def guest_reqs_def guest_rsps_def place_req_def)
  from br_answer [OF h(1,3)] obtain br where br: "bti2apb_clock (cb_br cb) = Some br" "br_holds br [] [] [] [bti_of r a]" by blast
  from bus_tick_no_request [OF br h(2)] show ?thesis using BackMid
    by (auto simp: bus_at_def place_tick_def guest_reqs_def guest_rsps_def place_req_def place_guest_def)
qed (use at br_quiet [of "cb_br cb"] bus_tick_no_request [of cb "cb_br cb"] in \<open>fastforce simp: bus_at_def place_tick_def guest_reqs_def guest_rsps_def place_req_def place_guest_def\<close>)+

section \<open>Runs between a host and the devices\<close>

record cfg_sys =
  s_bus :: cfg_bus
  s_held :: "nat \<Rightarrow> nat"
  s_reqs :: "bti_req list"
  s_rsps :: "bti_rsp list"
  s_seen :: "(nat \<times> apb_req) list"
  s_answers :: "apb_rsp list"

datatype cfg_ev = HTick | HIssue bti_req | HRush bti_req | HReceive | GTake nat | GAnswer nat apb_rsp

definition host_issue :: "bti_req \<Rightarrow> cfg_sys \<Rightarrow> cfg_sys option" where
  "host_issue r y = (let br = cb_br (s_bus y) in
     if itf_fifo_full (b2a_bti_req_slv br) then Some y
     else do { t \<leftarrow> itf_write (b2a_bti_req_slv br) r;
       Some (y\<lparr>s_bus := (s_bus y)\<lparr>cb_br := br\<lparr>b2a_bti_req_slv := t\<rparr>\<rparr>, s_reqs := s_reqs y @ [r]\<rparr>) })"

text \<open>
  One event of a run: the host that issues a request, either once all its answers are there
  (\<open>HIssue\<close>) or at once (\<open>HRush\<close>), or takes an answer; a device that takes a request, or answers one it
  holds. An event that cannot happen changes nothing; \<open>None\<close> is an abort of the bus.
\<close>

fun cfg_event :: "cfg_ev \<Rightarrow> cfg_sys \<Rightarrow> cfg_sys option" where
  "cfg_event HTick y = do { cb \<leftarrow> cfg_bus_clock (s_bus y); Some (y\<lparr>s_bus := cb\<rparr>) }"
| "cfg_event (HIssue r) y = (if length (s_reqs y) \<noteq> length (s_rsps y) then Some y else host_issue r y)"
| "cfg_event (HRush r) y = host_issue r y"
| "cfg_event HReceive y = (let br = cb_br (s_bus y) in
     if itf_fifo_empty (b2a_bti_rsp_mst br) then Some y
     else do { (b, t) \<leftarrow> itf_read (b2a_bti_rsp_mst br);
       Some (y\<lparr>s_bus := (s_bus y)\<lparr>cb_br := br\<lparr>b2a_bti_rsp_mst := t\<rparr>\<rparr>, s_rsps := s_rsps y @ [b]\<rparr>) })"
| "cfg_event (GTake g) y = (let dm = cb_dm (s_bus y) in
     if ad_gst_num dm \<le> g then Some y
     else do { port \<leftarrow> arr_get (ad_gst_req_msts dm) g; t \<leftarrow> port;
       if itf_fifo_empty t then Some y
       else do { (q, t) \<leftarrow> itf_read t;
         Some (y\<lparr>s_bus := (s_bus y)\<lparr>cb_dm := dm\<lparr>ad_gst_req_msts := (ad_gst_req_msts dm)[g := Some t]\<rparr>\<rparr>,
           s_held := (s_held y)(g := s_held y g + 1), s_seen := s_seen y @ [(g, q)]\<rparr>) } })"
| "cfg_event (GAnswer g a) y = (let dm = cb_dm (s_bus y) in
     if ad_gst_num dm \<le> g \<or> s_held y g = 0 then Some y
     else do { port \<leftarrow> arr_get (ad_gst_rsp_slvs dm) g; t \<leftarrow> port;
       if itf_fifo_full t then Some y
       else do { t \<leftarrow> itf_write t a;
         Some (y\<lparr>s_bus := (s_bus y)\<lparr>cb_dm := dm\<lparr>ad_gst_rsp_slvs := (ad_gst_rsp_slvs dm)[g := Some t]\<rparr>\<rparr>,
           s_held := (s_held y)(g := s_held y g - 1), s_answers := s_answers y @ [a]\<rparr>) } })"

fun cfg_exec :: "cfg_ev list \<Rightarrow> cfg_sys \<Rightarrow> cfg_sys option" where
  "cfg_exec [] y = Some y"
| "cfg_exec (ev # evs) y = do { y \<leftarrow> cfg_event ev y; cfg_exec evs y }"

definition cfg_boot :: "cfg_bus \<Rightarrow> cfg_sys" where
  "cfg_boot cb = \<lparr>s_bus = cb\<lparr>cb_br := bti2apb_reset (cb_br cb)\<rparr>, s_held = (\<lambda>_. 0), s_reqs = [], s_rsps = [], s_seen = [], s_answers = []\<rparr>"

text \<open>
  What the host expects: its reads and writes reach the device whose window holds the address, and it
  gets the devices' answers in order, each under the identifier of its request; any other command
  is refused.
\<close>

definition sent_to :: "(u32 \<Rightarrow> nat option) \<Rightarrow> bti_req list \<Rightarrow> (nat \<times> apb_req) list" where
  "sent_to dec rs = map (\<lambda>r. (the (dec (bq_addr r)), apb_of r)) (filter is_rw rs)"

fun cfg_rsps :: "bti_req list \<Rightarrow> apb_rsp list \<Rightarrow> bti_rsp list" where
  "cfg_rsps [] as = []"
| "cfg_rsps (r # rs) as =
     (if is_rw r then (case as of [] \<Rightarrow> [] | a # as \<Rightarrow> bti_of r a # cfg_rsps rs as)
      else bti_reject r # cfg_rsps rs as)"

lemma sent_to_snoc: "sent_to dec (rs @ [r]) = sent_to dec rs @ (if is_rw r then [(the (dec (bq_addr r)), apb_of r)] else [])"
  by (simp add: sent_to_def)

lemma cfg_rsps_snoc:
  assumes "length as = length (filter is_rw rs)"
  shows "is_rw r \<Longrightarrow> cfg_rsps (rs @ [r]) (as @ [a]) = cfg_rsps rs as @ [bti_of r a]"
    "is_rw r \<Longrightarrow> cfg_rsps (rs @ [r]) as = cfg_rsps rs as"
    "\<not> is_rw r \<Longrightarrow> cfg_rsps (rs @ [r]) as = cfg_rsps rs as @ [bti_reject r]"
  using assms by (induction rs arbitrary: as) (auto split: list.splits)

lemma cfg_rsps_length: "length as = length (filter is_rw rs) \<Longrightarrow> length (cfg_rsps rs as) = length rs"
  by (induction rs arbitrary: as) (auto split: list.splits)

definition settled :: "(u32 \<Rightarrow> nat option) \<Rightarrow> bti_req list \<Rightarrow> bti_rsp list \<Rightarrow> (nat \<times> apb_req) list \<Rightarrow> apb_rsp list \<Rightarrow> bool" where
  "settled dec R P S A \<longleftrightarrow> P = cfg_rsps R A \<and> S = sent_to dec R \<and> length A = length (filter is_rw R)"

text \<open>The bookkeeping of the run, by the place of the access that is under way.\<close>

definition logs_at :: "(u32 \<Rightarrow> nat option) \<Rightarrow> place \<Rightarrow> bti_req list \<Rightarrow> bti_rsp list \<Rightarrow> (nat \<times> apb_req) list \<Rightarrow> apb_rsp list \<Rightarrow> bool" where
  "logs_at dec p R P S A \<longleftrightarrow> (case p of
     Idle \<Rightarrow> settled dec R P S A
   | AtBridge r \<Rightarrow> (\<exists>R'. R = R' @ [r] \<and> settled dec R' P S A \<and> (is_rw r \<longrightarrow> dec (bq_addr r) \<noteq> None))
   | ToGuest g r \<Rightarrow> (\<exists>R'. R = R' @ [r] \<and> settled dec R' P S A \<and> is_rw r \<and> dec (bq_addr r) = Some g)
   | InGuest g r \<Rightarrow> (\<exists>R' S'. R = R' @ [r] \<and> S = S' @ [(g, apb_of r)] \<and> settled dec R' P S' A \<and> is_rw r \<and> dec (bq_addr r) = Some g)
   | FromGuest g r a \<Rightarrow> (\<exists>R' S' A'. R = R' @ [r] \<and> S = S' @ [(g, apb_of r)] \<and> A = A' @ [a] \<and> settled dec R' P S' A' \<and> is_rw r
       \<and> dec (bq_addr r) = Some g)
   | BackMid r a \<Rightarrow> (\<exists>R' S' A' g. R = R' @ [r] \<and> S = S' @ [(g, apb_of r)] \<and> A = A' @ [a] \<and> settled dec R' P S' A' \<and> is_rw r
       \<and> dec (bq_addr r) = Some g)
   | Back b \<Rightarrow> settled dec R (P @ [b]) S A)"

definition held_at :: "place \<Rightarrow> nat \<Rightarrow> nat" where
  "held_at p = (case p of InGuest g r \<Rightarrow> (\<lambda>_. 0)(g := 1) | _ \<Rightarrow> (\<lambda>_. 0))"

definition cfg_ok :: "(u32 \<Rightarrow> nat option) \<Rightarrow> cfg_sys \<Rightarrow> bool" where
  "cfg_ok dec y \<longleftrightarrow> (\<exists>p. bus_at (s_bus y) p \<and> bus_decode (s_bus y) = dec \<and> s_held y = held_at p
     \<and> logs_at dec p (s_reqs y) (s_rsps y) (s_seen y) (s_answers y))"

lemma logs_tick: "logs_at dec p R P S A \<Longrightarrow> logs_at dec (place_tick dec p) R P S A"
  by (cases p) (auto simp: logs_at_def place_tick_def settled_def cfg_rsps_snoc sent_to_snoc)

lemma held_tick: "held_at (place_tick dec p) = held_at p"
  by (cases p) (auto simp: held_at_def place_tick_def)

lemma logs_idle: "logs_at dec p R P S A \<Longrightarrow> length R = length P \<Longrightarrow> p = Idle"
  by (cases p) (auto simp: logs_at_def settled_def cfg_rsps_length dest: arg_cong [of _ _ length])

lemma cfg_ok_tick:
  assumes "cfg_ok dec y"
  shows "\<exists>y'. cfg_event HTick y = Some y' \<and> cfg_ok dec y'"
proof -
  from assms obtain p where p: "bus_at (s_bus y) p" "bus_decode (s_bus y) = dec" "s_held y = held_at p"
    "logs_at dec p (s_reqs y) (s_rsps y) (s_seen y) (s_answers y)" by (auto simp: cfg_ok_def)
  have "bus_decode (s_bus y) (bq_addr r) \<noteq> None" if "p = AtBridge r" "is_rw r" for r
    using p(2,4) that by (auto simp: logs_at_def)
  from bus_tick [OF p(1) this] obtain cb where cb: "cfg_bus_clock (s_bus y) = Some cb" "bus_at cb (place_tick dec p)" "bus_decode cb = dec"
    using p(2) by auto
  then show ?thesis using p(3) logs_tick [OF p(4)] held_tick by (auto simp: cfg_ok_def)
qed

lemma cfg_ok_issue:
  assumes "cfg_ok dec y" "is_rw r \<Longrightarrow> dec (bq_addr r) \<noteq> None"
  shows "\<exists>y'. cfg_event (HIssue r) y = Some y' \<and> cfg_ok dec y'"
proof (cases "length (s_reqs y) = length (s_rsps y)")
  case True
  from assms obtain p where p: "bus_at (s_bus y) p" "bus_decode (s_bus y) = dec" "s_held y = held_at p"
    "logs_at dec p (s_reqs y) (s_rsps y) (s_seen y) (s_answers y)" by (auto simp: cfg_ok_def)
  have idle: "p = Idle" by (rule logs_idle [OF p(4) True])
  then have h: "itf_holds (b2a_bti_req_slv (cb_br (s_bus y))) []" using p(1) by (simp add: bus_at_def br_holds_def)
  from holds_write [OF h, of r] holds_Nil [OF h] obtain t where t: "itf_write (b2a_bti_req_slv (cb_br (s_bus y))) r = Some t" "itf_holds t [r]" by auto
  define y' where "y' = y\<lparr>s_bus := (s_bus y)\<lparr>cb_br := (cb_br (s_bus y))\<lparr>b2a_bti_req_slv := t\<rparr>\<rparr>, s_reqs := s_reqs y @ [r]\<rparr>"
  have "cfg_event (HIssue r) y = Some y'" using True holds_Nil [OF h] t(1) by (simp add: host_issue_def Let_def y'_def)
  moreover have "bus_at (s_bus y') (AtBridge r)"
    using p(1) idle t(2) by (simp add: y'_def bus_at_def br_holds_def guest_reqs_def guest_rsps_def place_req_def place_guest_def)
  moreover have "logs_at dec (AtBridge r) (s_reqs y') (s_rsps y') (s_seen y') (s_answers y')"
    using p(4) idle assms(2) by (simp add: y'_def logs_at_def)
  ultimately show ?thesis using p(2,3) idle by (auto simp: cfg_ok_def held_at_def y'_def)
qed (use assms in auto)

lemma cfg_ok_receive:
  assumes "cfg_ok dec y"
  shows "\<exists>y'. cfg_event HReceive y = Some y' \<and> cfg_ok dec y'"
proof -
  from assms obtain p where p: "bus_at (s_bus y) p" "bus_decode (s_bus y) = dec" "s_held y = held_at p"
    "logs_at dec p (s_reqs y) (s_rsps y) (s_seen y) (s_answers y)" by (auto simp: cfg_ok_def)
  show ?thesis
  proof (cases p)
    case (Back b)
    then have h: "itf_holds (b2a_bti_rsp_mst (cb_br (s_bus y))) [b]" using p(1) by (simp add: bus_at_def br_holds_def)
    from holds_Cons [OF h] obtain t where t: "itf_read (b2a_bti_rsp_mst (cb_br (s_bus y))) = Some (b, t)" "itf_holds t []" by blast
    define y' where "y' = y\<lparr>s_bus := (s_bus y)\<lparr>cb_br := (cb_br (s_bus y))\<lparr>b2a_bti_rsp_mst := t\<rparr>\<rparr>, s_rsps := s_rsps y @ [b]\<rparr>"
    have "cfg_event HReceive y = Some y'" using holds_Cons(1) [OF h] t(1) by (simp add: Let_def y'_def)
    moreover have "bus_at (s_bus y') Idle"
      using p(1) Back t(2) by (simp add: y'_def bus_at_def br_holds_def guest_reqs_def guest_rsps_def place_req_def place_guest_def)
    moreover have "logs_at dec Idle (s_reqs y') (s_rsps y') (s_seen y') (s_answers y')" using p(4) Back by (simp add: y'_def logs_at_def)
    ultimately show ?thesis using p(2,3) Back by (auto simp: cfg_ok_def held_at_def y'_def)
  qed (use p(1) holds_Nil [of "b2a_bti_rsp_mst (cb_br (s_bus y))"] assms in \<open>simp_all add: bus_at_def br_holds_def Let_def\<close>)
qed

lemma port_empty_take:
  assumes "dm_holds (cb_dm (s_bus y)) gq gr" "gq g = []"
  shows "cfg_event (GTake g) y = Some y"
proof (cases "g < ad_gst_num (cb_dm (s_bus y))")
  case True
  with assms obtain t where "ad_gst_req_msts (cb_dm (s_bus y)) ! g = Some t" "itf_holds t []" "g < length (ad_gst_req_msts (cb_dm (s_bus y)))"
    by (auto simp: dm_holds_def port_holds_def)
  with holds_Nil [of t] True show ?thesis by (simp add: Let_def)
qed simp

lemma cfg_ok_take:
  assumes "cfg_ok dec y"
  shows "\<exists>y'. cfg_event (GTake g) y = Some y' \<and> cfg_ok dec y'"
proof -
  from assms obtain p where p: "bus_at (s_bus y) p" "bus_decode (s_bus y) = dec" "s_held y = held_at p"
    "logs_at dec p (s_reqs y) (s_rsps y) (s_seen y) (s_answers y)" by (auto simp: cfg_ok_def)
  let ?dm = "cb_dm (s_bus y)"
  have d: "dm_holds ?dm (guest_reqs p) (guest_rsps p)" using p(1) by (simp add: bus_at_def)
  show ?thesis
  proof (cases "guest_reqs p g")
    case Nil
    with port_empty_take [OF d] assms show ?thesis by blast
  next
    case (Cons q qs)
    then obtain r where r: "p = ToGuest g r" "guest_reqs p = (\<lambda>_. [])(g := [apb_of r])"
      by (auto simp: guest_reqs_def split: place.splits if_splits)
    have g: "g < ad_gst_num ?dm" using p(1) r by (simp add: bus_at_def place_guest_def)
    with d r(2) obtain t where t: "ad_gst_req_msts ?dm ! g = Some t" "itf_holds t [apb_of r]" and len: "g < length (ad_gst_req_msts ?dm)"
      by (auto simp: dm_holds_def port_holds_def split: if_splits)
    from holds_Cons [OF t(2)] obtain v where v: "itf_read t = Some (apb_of r, v)" "itf_holds v []" by blast
    define y' where "y' = y\<lparr>s_bus := (s_bus y)\<lparr>cb_dm := ?dm\<lparr>ad_gst_req_msts := (ad_gst_req_msts ?dm)[g := Some v]\<rparr>\<rparr>,
      s_held := (s_held y)(g := s_held y g + 1), s_seen := s_seen y @ [(g, apb_of r)]\<rparr>"
    have "cfg_event (GTake g) y = Some y'" using g len t holds_Cons(1) [OF t(2)] v(1) by (simp add: Let_def y'_def)
    moreover have "dm_holds (cb_dm (s_bus y')) (\<lambda>_. []) (\<lambda>_. [])"
      using d r len v(2) by (auto simp: dm_holds_def y'_def port_holds_def nth_list_update guest_rsps_def split: if_splits)
    with p(1) r(1) have "bus_at (s_bus y') (InGuest g r)"
      by (simp add: bus_at_def guest_reqs_def guest_rsps_def place_req_def place_guest_def y'_def)
    moreover have "logs_at dec (InGuest g r) (s_reqs y') (s_rsps y') (s_seen y') (s_answers y')" using p(4) r(1) by (simp add: y'_def logs_at_def)
    moreover have "bus_decode (s_bus y') = dec" using p(2) by (auto simp: y'_def apb_demux_find_gst_def fun_eq_iff)
    moreover have "s_held y' = held_at (InGuest g r)" using p(3) r(1) by (auto simp: held_at_def y'_def)
    ultimately show ?thesis unfolding cfg_ok_def by blast
  qed
qed

lemma cfg_ok_answer:
  assumes "cfg_ok dec y"
  shows "\<exists>y'. cfg_event (GAnswer g a) y = Some y' \<and> cfg_ok dec y'"
proof -
  from assms obtain p where p: "bus_at (s_bus y) p" "bus_decode (s_bus y) = dec" "s_held y = held_at p"
    "logs_at dec p (s_reqs y) (s_rsps y) (s_seen y) (s_answers y)" by (auto simp: cfg_ok_def)
  let ?dm = "cb_dm (s_bus y)"
  have d: "dm_holds ?dm (guest_reqs p) (guest_rsps p)" using p(1) by (simp add: bus_at_def)
  show ?thesis
  proof (cases "held_at p g")
    case 0
    with p(3) assms show ?thesis by (simp add: Let_def)
  next
    case (Suc n)
    then obtain r where r: "p = InGuest g r" by (auto simp: held_at_def split: place.splits if_splits)
    have g: "g < ad_gst_num ?dm" using p(1) r by (simp add: bus_at_def place_guest_def)
    with d r obtain t where t: "ad_gst_rsp_slvs ?dm ! g = Some t" "itf_holds t []" and len: "g < length (ad_gst_rsp_slvs ?dm)"
      by (auto simp: dm_holds_def port_holds_def guest_rsps_def)
    from holds_write [OF t(2), of a] holds_Nil [OF t(2)] obtain v where v: "itf_write t a = Some v" "itf_holds v [a]" by auto
    define y' where "y' = y\<lparr>s_bus := (s_bus y)\<lparr>cb_dm := ?dm\<lparr>ad_gst_rsp_slvs := (ad_gst_rsp_slvs ?dm)[g := Some v]\<rparr>\<rparr>,
      s_held := (s_held y)(g := s_held y g - 1), s_answers := s_answers y @ [a]\<rparr>"
    have "cfg_event (GAnswer g a) y = Some y'" using g len t holds_Nil [OF t(2)] v(1) p(3) Suc by (simp add: Let_def y'_def)
    moreover have "dm_holds (cb_dm (s_bus y')) (\<lambda>_. []) ((\<lambda>_. [])(g := [a]))"
      using d r len v(2) by (auto simp: dm_holds_def y'_def port_holds_def nth_list_update guest_rsps_def guest_reqs_def split: if_splits)
    with p(1) r have "bus_at (s_bus y') (FromGuest g r a)"
      by (simp add: bus_at_def guest_reqs_def guest_rsps_def place_req_def place_guest_def y'_def)
    moreover have "logs_at dec (FromGuest g r a) (s_reqs y') (s_rsps y') (s_seen y') (s_answers y')" using p(4) r by (auto simp: y'_def logs_at_def)
    moreover have "bus_decode (s_bus y') = dec" using p(2) by (auto simp: y'_def apb_demux_find_gst_def fun_eq_iff)
    moreover have "s_held y' = held_at (FromGuest g r a)" using p(3) r by (auto simp: held_at_def y'_def)
    ultimately show ?thesis unfolding cfg_ok_def by blast
  qed
qed

lemma cfg_ok_exec:
  "cfg_ok dec y \<Longrightarrow> (\<And>r. HRush r \<notin> set evs) \<Longrightarrow> (\<And>r. HIssue r \<in> set evs \<Longrightarrow> is_rw r \<Longrightarrow> dec (bq_addr r) \<noteq> None)
    \<Longrightarrow> \<exists>y'. cfg_exec evs y = Some y' \<and> cfg_ok dec y'"
proof (induction evs arbitrary: y)
  case (Cons ev evs)
  have "\<exists>y'. cfg_event ev y = Some y' \<and> cfg_ok dec y'"
  proof (cases ev)
    case (HRush r)
    with Cons.prems(2) [of r] show ?thesis by simp
  next
    case (HIssue r)
    with Cons.prems cfg_ok_issue [of dec y r] show ?thesis by auto
  qed (use cfg_ok_tick cfg_ok_receive cfg_ok_take cfg_ok_answer Cons.prems(1) in blast)+
  then obtain y1 where "cfg_event ev y = Some y1" "cfg_ok dec y1" by blast
  moreover from Cons.IH [OF this(2)] Cons.prems obtain y' where "cfg_exec evs y1 = Some y'" "cfg_ok dec y'" by auto
  ultimately show ?case by auto
qed simp

lemma logs_prefix:
  assumes "logs_at dec p R P S A"
  shows "(\<exists>rest. sent_to dec R = S @ rest) \<and> (\<exists>rest. cfg_rsps R A = P @ rest) \<and> length R \<le> length P + 1"
proof (intro conjI)
  show "\<exists>rest. sent_to dec R = S @ rest"
    using assms by (cases p) (auto simp: logs_at_def settled_def sent_to_snoc)
  show "length R \<le> length P + 1"
    using assms by (cases p) (auto simp: logs_at_def settled_def cfg_rsps_length dest!: arg_cong [of _ _ length])
  show "\<exists>rest. cfg_rsps R A = P @ rest"
  proof (cases p)
    case (AtBridge r)
    with assms show ?thesis by (cases "is_rw r") (auto simp: logs_at_def settled_def cfg_rsps_snoc)
  next
    case (Back b)
    with assms have "cfg_rsps R A = P @ [b]" by (simp add: logs_at_def settled_def)
    then show ?thesis ..
  qed (use assms in \<open>auto simp: logs_at_def settled_def cfg_rsps_snoc\<close>)
qed

section \<open>Properties\<close>

definition cfg_ready :: "cfg_bus \<Rightarrow> bool" where
  "cfg_ready cb \<longleftrightarrow> bus_at cb Idle"

text \<open>
  C13. The configuration bus serves a host that waits for each answer and reads and writes only addresses inside the devices'
  windows: it never aborts; every read or
  write reaches the device whose window holds its address, unchanged and in order, and the host's answers are those of the
  devices, in order and each under the identifier of its request, while other commands are refused.
\<close>

theorem cfg_bus_transparent:
  assumes "cfg_ready cb" "\<And>r. HRush r \<notin> set evs"
    and "\<And>r. HIssue r \<in> set evs \<Longrightarrow> is_rw r \<Longrightarrow> bus_decode cb (bq_addr r) \<noteq> None"
  shows "\<exists>y. cfg_exec evs (cfg_boot cb) = Some y
    \<and> (\<exists>rest. sent_to (bus_decode cb) (s_reqs y) = s_seen y @ rest)
    \<and> (\<exists>rest. cfg_rsps (s_reqs y) (s_answers y) = s_rsps y @ rest) \<and> length (s_reqs y) \<le> length (s_rsps y) + 1"
proof -
  have "bus_at (s_bus (cfg_boot cb)) Idle"
    using assms(1) by (simp add: cfg_ready_def bus_at_def cfg_boot_def bti2apb_reset_def br_holds_def place_req_def)
  then have "cfg_ok (bus_decode cb) (cfg_boot cb)"
    by (auto simp: cfg_ok_def cfg_boot_def held_at_def logs_at_def settled_def sent_to_def intro!: exI [of _ Idle])
  from cfg_ok_exec [OF this assms(2,3)] obtain y where "cfg_exec evs (cfg_boot cb) = Some y" "cfg_ok (bus_decode cb) y" by blast
  with logs_prefix show ?thesis unfolding cfg_ok_def by blast
qed

text \<open>A bus with two devices, a read of the second, a refused command and a write to the first.\<close>

definition cfg_sample :: cfg_bus where
  "cfg_sample = \<lparr>cb_br = \<lparr>b2a_bti_req_slv = fifo_itf_construct 1, b2a_bti_rsp_mst = fifo_itf_construct 1,
       b2a_apb_req_mst = fifo_itf_construct 1, b2a_apb_rsp_slv = fifo_itf_construct 1, b2a_bti_trans_id = 0\<rparr>,
     cb_dm = \<lparr>ad_host_req_slv = fifo_itf_construct 1, ad_host_rsp_mst = fifo_itf_construct 1,
       ad_gst_req_msts = [Some (fifo_itf_construct 1), Some (fifo_itf_construct 1)],
       ad_gst_rsp_slvs = [Some (fifo_itf_construct 1), Some (fifo_itf_construct 1)],
       ad_gst_num = 2, ad_gst_bases = [0x1000, 0x2000], ad_gst_sizes = [0x1000, 0x1000]\<rparr>\<rparr>"

definition cfg_req :: "u16 \<Rightarrow> bti_req_cmd \<Rightarrow> u32 \<Rightarrow> bti_req" where
  "cfg_req i c a = \<lparr>bq_trans_id = i, bq_cmd = c, bq_addr = a, bq_size = BTI_REQ_SIZE_B4, bq_data = 0, bq_strobe = 0xf\<rparr>"

definition cfg_script :: "cfg_ev list" where
  "cfg_script = [HIssue (cfg_req 7 BTI_REQ_CMD_READ 0x2004), HTick, GTake 1, GAnswer 1 \<lparr>ap_prdata = 99, ap_pslverr = False\<rparr>, HTick, HTick, HReceive,
     HIssue (cfg_req 8 BTI_REQ_CMD_CBO_CLEAN 0x1000), HTick, HReceive]"

lemma cfg_sample_ready: "cfg_ready cfg_sample"
  by (auto simp: cfg_ready_def bus_at_def cfg_sample_def br_holds_def dm_holds_def itf_holds_def port_holds_def guest_reqs_def guest_rsps_def
    place_req_def place_guest_def nth_Cons' less_Suc_eq)

theorem cfg_bus_transparent_witness:
  "\<exists>y. cfg_exec cfg_script (cfg_boot cfg_sample) = Some y \<and> length (s_rsps y) = 2
    \<and> (\<exists>rest. cfg_rsps (s_reqs y) (s_answers y) = s_rsps y @ rest)"
proof -
  have "bus_decode cfg_sample 0x2004 = Some 1" by code_simp
  then have "HRush r \<notin> set cfg_script" "HIssue r \<in> set cfg_script \<Longrightarrow> is_rw r \<Longrightarrow> bus_decode cfg_sample (bq_addr r) \<noteq> None" for r
    by (auto simp: cfg_script_def cfg_req_def is_rw_def)
  from cfg_bus_transparent [OF cfg_sample_ready this] obtain y where
    y: "cfg_exec cfg_script (cfg_boot cfg_sample) = Some y" "\<exists>rest. cfg_rsps (s_reqs y) (s_answers y) = s_rsps y @ rest" by blast
  have "map_option (\<lambda>y. length (s_rsps y)) (cfg_exec cfg_script (cfg_boot cfg_sample)) = Some 2" by code_simp
  with y show ?thesis by auto
qed

section \<open>A host that does not wait\<close>

text \<open>
  C33. The bridge keeps the identifier of the last request only, yet takes a second one while the first is with its device. For any two reads or
  writes under any identifiers: the bridge forwards the first; the device takes it, the host sends the second, and the bridge
  forwards that too; when the device now answers the first, the host gets that answer under the identifier of the second.
\<close>

theorem bti2apb_confuses_ids:
  assumes "br_holds br [first] [] [] []" "is_rw first" "is_rw second"
    and "itf_holds taken []" "itf_holds arrived [second]" "itf_holds answered [answer]"
  shows "\<exists>br1 br2 br3. bti2apb_clock br = Some br1 \<and> itf_list (b2a_apb_req_mst br1) = [apb_of first]
    \<and> bti2apb_clock (br1\<lparr>b2a_apb_req_mst := taken, b2a_bti_req_slv := arrived\<rparr>) = Some br2 \<and> itf_list (b2a_apb_req_mst br2) = [apb_of second]
    \<and> bti2apb_clock (br2\<lparr>b2a_apb_req_mst := taken, b2a_apb_rsp_slv := answered\<rparr>) = Some br3
    \<and> itf_list (b2a_bti_rsp_mst br3) = [\<lparr>bp_trans_id = bq_trans_id second, bp_data = ap_prdata answer, bp_ok = (\<not> ap_pslverr answer)\<rparr>]"
proof -
  from br_forward [OF assms(1,2)] obtain br1 where 1: "bti2apb_clock br = Some br1" "br_holds br1 [] [apb_of first] [] []" by blast
  let ?b1 = "br1\<lparr>b2a_apb_req_mst := taken, b2a_bti_req_slv := arrived\<rparr>"
  have "br_holds ?b1 [second] [] [] []" using 1(2) assms(4,5) by (simp add: br_holds_def)
  from br_forward [OF this assms(3)] obtain br2 where 2: "bti2apb_clock ?b1 = Some br2" "br_holds br2 [] [apb_of second] [] []"
    "b2a_bti_trans_id br2 = ucast (bq_trans_id second)" by blast
  let ?b2 = "br2\<lparr>b2a_apb_req_mst := taken, b2a_apb_rsp_slv := answered\<rparr>"
  have "br_holds ?b2 [] [] [answer] []" "b2a_bti_trans_id ?b2 = ucast (bq_trans_id second)" using 2(2,3) assms(4,6) by (simp_all add: br_holds_def)
  from br_answer [OF this] obtain br3 where 3: "bti2apb_clock ?b2 = Some br3" "br_holds br3 [] [] [] [bti_of second answer]" by blast
  have "itf_list (b2a_apb_req_mst br1) = [apb_of first]" "itf_list (b2a_apb_req_mst br2) = [apb_of second]"
    "itf_list (b2a_bti_rsp_mst br3) = [bti_of second answer]" using 1(2) 2(2) 3(2) by (simp_all add: br_holds_def itf_holds_def)
  with 1(1) 2(1) 3(1) show ?thesis by (auto simp: bti_of_def)
qed

definition holding :: "'a \<Rightarrow> 'a itf" where
  "holding x = the (itf_write (fifo_itf_construct 2) x)"

lemma holding_holds: "itf_holds (holding x) [x]"
proof -
  have "itf_holds (fifo_itf_construct 2) []" by (simp add: itf_holds_def)
  from holds_write [OF this, of x] holds_Nil [OF this] show ?thesis by (auto simp: holding_def)
qed

theorem bti2apb_confuses_ids_witness:
  "\<exists>br1 br2 br3. bti2apb_clock ((cb_br cfg_sample)\<lparr>b2a_bti_req_slv := holding (cfg_req 1 BTI_REQ_CMD_READ 0x1000)\<rparr>) = Some br1
    \<and> bti2apb_clock (br1\<lparr>b2a_apb_req_mst := fifo_itf_construct 2, b2a_bti_req_slv := holding (cfg_req 2 BTI_REQ_CMD_READ 0x2000)\<rparr>) = Some br2
    \<and> bti2apb_clock (br2\<lparr>b2a_apb_req_mst := fifo_itf_construct 2, b2a_apb_rsp_slv := holding \<lparr>ap_prdata = 11, ap_pslverr = False\<rparr>\<rparr>) = Some br3
    \<and> itf_list (b2a_bti_rsp_mst br3) = [\<lparr>bp_trans_id = 2, bp_data = 11, bp_ok = True\<rparr>]"
proof -
  have e: "itf_holds (fifo_itf_construct 2) []" by (simp add: itf_holds_def)
  have b: "br_holds ((cb_br cfg_sample)\<lparr>b2a_bti_req_slv := holding (cfg_req 1 BTI_REQ_CMD_READ 0x1000)\<rparr>) [cfg_req 1 BTI_REQ_CMD_READ 0x1000] [] [] []"
    using holding_holds by (simp add: br_holds_def cfg_sample_def itf_holds_def)
  have rw: "is_rw (cfg_req 1 BTI_REQ_CMD_READ 0x1000)" "is_rw (cfg_req 2 BTI_REQ_CMD_READ 0x2000)" by (simp_all add: is_rw_def cfg_req_def)
  have id: "bq_trans_id (cfg_req 2 BTI_REQ_CMD_READ 0x2000) = 2" by (simp add: cfg_req_def)
  from bti2apb_confuses_ids [OF b rw e holding_holds holding_holds [of "\<lparr>ap_prdata = 11, ap_pslverr = False\<rparr>"]] show ?thesis unfolding id by fastforce
qed

end
