(* ===== verification/AxiDemux.thy ===== *)
theory AxiDemux
  imports AxiPackets ApbPackets Ports Ost Ostk
begin

text \<open>
  The AXI4 demultiplexer (\<^verbatim>\<open>bus/demux/axi_demux.c\<close>): one host reaches several guests by address. Two keyed tables
  remember, per identifier, which guest owes an answer next, an in-order table where the write data goes; addresses outside every
  window are answered with a decode error.
\<close>

section \<open>axi_demux.c\<close>

record axi_demux_rd_ctx =
  dr_gst_idx :: nat

record axi_demux_wr_rsp_ctx =
  db_gst_idx :: nat
  db_decerr :: bool
  db_decerr_valid :: bool

record axi_demux_wr_data_ctx =
  dd_gst_idx :: nat
  dd_rsp_slot :: nat
  dd_decerr :: bool

record axi_demux =
  xd_host_aw_slv :: "axi4_aw itf"
  xd_host_w_slv :: "axi4_w itf"
  xd_host_b_mst :: "axi4_b itf"
  xd_host_ar_slv :: "axi4_ar itf"
  xd_host_r_mst :: "axi4_r itf"
  xd_gst_aw_msts :: "axi4_aw itf list"
  xd_gst_w_msts :: "axi4_w itf list"
  xd_gst_b_slvs :: "axi4_b itf list"
  xd_gst_ar_msts :: "axi4_ar itf list"
  xd_gst_r_slvs :: "axi4_r itf list"
  xd_gst_num :: nat
  xd_gst_bases :: "u32 list"
  xd_gst_sizes :: "u32 list"
  xd_rd_rsp_rr_idx :: nat
  xd_wr_rsp_rr_idx :: nat
  xd_ar_fifo :: "axi4_ar fifo"
  xd_aw_fifo :: "axi4_aw fifo"
  xd_w_fifo :: "axi4_w fifo"
  xd_rd_ost :: "axi_demux_rd_ctx ostk"
  xd_wr_data_ost :: "axi_demux_wr_data_ctx ostq"
  xd_wr_rsp_ost :: "axi_demux_wr_rsp_ctx ostk"
  xd_perf_stg_ar_full :: u64
  xd_perf_stg_aw_full :: u64
  xd_perf_stg_w_full :: u64

definition axi_demux_reset :: "axi_demux \<Rightarrow> axi_demux" where
  "axi_demux_reset d = d\<lparr>xd_rd_rsp_rr_idx := 0, xd_wr_rsp_rr_idx := 0, xd_ar_fifo := fifo_reset (xd_ar_fifo d),
     xd_aw_fifo := fifo_reset (xd_aw_fifo d), xd_w_fifo := fifo_reset (xd_w_fifo d), xd_rd_ost := ostk_reset (xd_rd_ost d),
     xd_wr_data_ost := ostq_reset (xd_wr_data_ost d), xd_wr_rsp_ost := ostk_reset (xd_wr_rsp_ost d),
     xd_perf_stg_ar_full := 0, xd_perf_stg_aw_full := 0, xd_perf_stg_w_full := 0\<rparr>"

definition axi_demux_decode :: "axi_demux \<Rightarrow> u32 \<Rightarrow> nat option" where
  "axi_demux_decode d addr =
     List.find (\<lambda>i. ADDR_IN addr (xd_gst_bases d ! i) (xd_gst_sizes d ! i)) [0..<xd_gst_num d]"

definition axi_demux_capture_ar :: "axi_demux \<Rightarrow> axi_demux option" where
  "axi_demux_capture_ar d =
     (if fifo_full (xd_ar_fifo d) then
        Some (if \<not> itf_fifo_empty (xd_host_ar_slv d) then d\<lparr>xd_perf_stg_ar_full := xd_perf_stg_ar_full d + 1\<rparr> else d)
      else if itf_fifo_empty (xd_host_ar_slv d) then Some d
      else do {
        (ar, t) \<leftarrow> itf_read (xd_host_ar_slv d);
        f \<leftarrow> fifo_push (xd_ar_fifo d) ar;
        Some (d\<lparr>xd_host_ar_slv := t, xd_ar_fifo := f\<rparr>)
      })"

definition axi_demux_capture_aw :: "axi_demux \<Rightarrow> axi_demux option" where
  "axi_demux_capture_aw d =
     (if fifo_full (xd_aw_fifo d) then
        Some (if \<not> itf_fifo_empty (xd_host_aw_slv d) then d\<lparr>xd_perf_stg_aw_full := xd_perf_stg_aw_full d + 1\<rparr> else d)
      else if itf_fifo_empty (xd_host_aw_slv d) then Some d
      else do {
        (aw, t) \<leftarrow> itf_read (xd_host_aw_slv d);
        f \<leftarrow> fifo_push (xd_aw_fifo d) aw;
        Some (d\<lparr>xd_host_aw_slv := t, xd_aw_fifo := f\<rparr>)
      })"

definition axi_demux_capture_w :: "axi_demux \<Rightarrow> axi_demux option" where
  "axi_demux_capture_w d =
     (if fifo_full (xd_w_fifo d) then
        Some (if \<not> itf_fifo_empty (xd_host_w_slv d) then d\<lparr>xd_perf_stg_w_full := xd_perf_stg_w_full d + 1\<rparr> else d)
      else if itf_fifo_empty (xd_host_w_slv d) then Some d
      else do {
        (w, t) \<leftarrow> itf_read (xd_host_w_slv d);
        f \<leftarrow> fifo_push (xd_w_fifo d) w;
        Some (d\<lparr>xd_host_w_slv := t, xd_w_fifo := f\<rparr>)
      })"

definition axi_demux_proc_ar :: "axi_demux \<Rightarrow> axi_demux option" where
  "axi_demux_proc_ar d =
     (if fifo_empty (xd_ar_fifo d) then Some d
      else do {
        ar \<leftarrow> fifo_get_front (xd_ar_fifo d);
        case axi_demux_decode d (ar_addr ar) of
          None \<Rightarrow>
            if itf_fifo_full (xd_host_r_mst d) then Some d
            else do {
              (ar, f) \<leftarrow> fifo_pop (xd_ar_fifo d);
              t \<leftarrow> itf_write (xd_host_r_mst d) \<lparr>ax_id = ar_id ar, ax_data = 0, ax_resp = AXI4_R_RESP_DECERR, ax_last = True\<rparr>;
              Some (d\<lparr>xd_ar_fifo := f, xd_host_r_mst := t\<rparr>)
            }
        | Some gst_idx \<Rightarrow>
            if ostk_full (xd_rd_ost d) then Some d
            else do {
              gst_ar \<leftarrow> arr_get (xd_gst_ar_msts d) gst_idx;
              if itf_fifo_full gst_ar then Some d
              else do {
                (ar, f) \<leftarrow> fifo_pop (xd_ar_fifo d);
                t \<leftarrow> itf_write gst_ar ar;
                p \<leftarrow> ostk_alloc (xd_rd_ost d) (ucast (ar_id ar)) \<lparr>dr_gst_idx = gst_idx\<rparr>;
                (slot, ost) \<leftarrow> p;
                Some (d\<lparr>xd_ar_fifo := f, xd_gst_ar_msts := (xd_gst_ar_msts d)[gst_idx := t], xd_rd_ost := ost\<rparr>)
              }
            }
      })"

text \<open>The loop of \<^verbatim>\<open>axi_demux_find_ready_decerr_b\<close>, with the best slot so far and its sequence number.\<close>

fun axi_demux_decerr_loop :: "nat list \<Rightarrow> axi_demux \<Rightarrow> (nat \<times> u64) option \<Rightarrow> (nat \<times> u64) option option" where
  "axi_demux_decerr_loop [] d best = Some best"
| "axi_demux_decerr_loop (i # is) d best = do {
     entry \<leftarrow> arr_get (k_entries (xd_wr_rsp_ost d)) i;
     if \<not> ke_vld entry \<or> ke_free_pending entry then axi_demux_decerr_loop is d best
     else do {
       ctx \<leftarrow> ke_ctx entry;
       if \<not> db_decerr ctx \<or> \<not> db_decerr_valid ctx then axi_demux_decerr_loop is d best
       else do {
         p \<leftarrow> ostk_peek_key (xd_wr_rsp_ost d) (ke_key entry);
         (head_slot, head_ctx) \<leftarrow> p;
         if head_slot \<noteq> i then axi_demux_decerr_loop is d best
         else axi_demux_decerr_loop is d (case best of
             None \<Rightarrow> Some (i, ke_issue_seq entry)
           | Some (b, s) \<Rightarrow> if ke_issue_seq entry < s then Some (i, ke_issue_seq entry) else best)
       }
     }
   }"

definition axi_demux_find_ready_decerr_b :: "axi_demux \<Rightarrow> nat option option" where
  "axi_demux_find_ready_decerr_b d = do {
     best \<leftarrow> axi_demux_decerr_loop [0..<k_depth (xd_wr_rsp_ost d)] d None;
     Some (map_option fst best)
   }"

fun axi_demux_b_loop :: "nat list \<Rightarrow> axi_demux \<Rightarrow> axi_demux option" where
  "axi_demux_b_loop [] d = Some d"
| "axi_demux_b_loop (i # is) d = do {
     let gst_idx = (xd_wr_rsp_rr_idx d + i) mod xd_gst_num d;
     gst_b \<leftarrow> arr_get (xd_gst_b_slvs d) gst_idx;
     if itf_fifo_empty gst_b then axi_demux_b_loop is d
     else do {
       b \<leftarrow> itf_fifo_get_front gst_b;
       p \<leftarrow> ostk_peek_key (xd_wr_rsp_ost d) (ucast (ab_id b));
       (slot, ctx) \<leftarrow> p;
       if db_decerr ctx \<or> db_gst_idx ctx \<noteq> gst_idx then axi_demux_b_loop is d
       else do {
         t \<leftarrow> itf_fifo_pop_front gst_b;
         u \<leftarrow> itf_write (xd_host_b_mst d) b;
         ost \<leftarrow> ostk_free_slot (xd_wr_rsp_ost d) slot;
         Some (d\<lparr>xd_gst_b_slvs := (xd_gst_b_slvs d)[gst_idx := t], xd_host_b_mst := u, xd_wr_rsp_ost := ost,
           xd_wr_rsp_rr_idx := (gst_idx + 1) mod xd_gst_num d\<rparr>)
       }
     }
   }"

definition axi_demux_proc_b :: "axi_demux \<Rightarrow> axi_demux option" where
  "axi_demux_proc_b d =
     (if itf_fifo_full (xd_host_b_mst d) then Some d
      else do {
        found \<leftarrow> axi_demux_find_ready_decerr_b d;
        case found of
          Some decerr_slot \<Rightarrow> do {
            entry \<leftarrow> arr_get (k_entries (xd_wr_rsp_ost d)) decerr_slot;
            u \<leftarrow> itf_write (xd_host_b_mst d) \<lparr>ab_id = ucast (ke_key entry), ab_resp = AXI4_B_RESP_DECERR\<rparr>;
            ost \<leftarrow> ostk_free_slot (xd_wr_rsp_ost d) decerr_slot;
            Some (d\<lparr>xd_host_b_mst := u, xd_wr_rsp_ost := ost\<rparr>)
          }
        | None \<Rightarrow> axi_demux_b_loop [0..<xd_gst_num d] d
      })"

fun axi_demux_r_loop :: "nat list \<Rightarrow> axi_demux \<Rightarrow> axi_demux option" where
  "axi_demux_r_loop [] d = Some d"
| "axi_demux_r_loop (i # is) d = do {
     let gst_idx = (xd_rd_rsp_rr_idx d + i) mod xd_gst_num d;
     gst_r \<leftarrow> arr_get (xd_gst_r_slvs d) gst_idx;
     if itf_fifo_empty gst_r then axi_demux_r_loop is d
     else do {
       r \<leftarrow> itf_fifo_get_front gst_r;
       p \<leftarrow> ostk_peek_key (xd_rd_ost d) (ucast (ax_id r));
       (slot, ctx) \<leftarrow> p;
       if dr_gst_idx ctx \<noteq> gst_idx then axi_demux_r_loop is d
       else do {
         t \<leftarrow> itf_fifo_pop_front gst_r;
         u \<leftarrow> itf_write (xd_host_r_mst d) r;
         ost \<leftarrow> (if ax_last r then ostk_free_slot (xd_rd_ost d) slot else Some (xd_rd_ost d));
         Some (d\<lparr>xd_gst_r_slvs := (xd_gst_r_slvs d)[gst_idx := t], xd_host_r_mst := u, xd_rd_ost := ost,
           xd_rd_rsp_rr_idx := (gst_idx + 1) mod xd_gst_num d\<rparr>)
       }
     }
   }"

definition axi_demux_proc_r :: "axi_demux \<Rightarrow> axi_demux option" where
  "axi_demux_proc_r d =
     (if itf_fifo_full (xd_host_r_mst d) then Some d else axi_demux_r_loop [0..<xd_gst_num d] d)"

definition axi_demux_proc_w :: "axi_demux \<Rightarrow> axi_demux option" where
  "axi_demux_proc_w d =
     (if fifo_empty (xd_w_fifo d) then Some d
      else do {
        head \<leftarrow> ostq_peek_head (xd_wr_data_ost d);
        case head of
          None \<Rightarrow> Some d
        | Some (data_slot, ctx) \<Rightarrow> do {
            w \<leftarrow> fifo_get_front (xd_w_fifo d);
            if dd_decerr ctx then do {
              (w, f) \<leftarrow> fifo_pop (xd_w_fifo d);
              let d = d\<lparr>xd_w_fifo := f\<rparr>;
              if aw_last w then do {
                ok \<leftarrow> ostk_slot_valid (xd_wr_rsp_ost d) (dd_rsp_slot ctx);
                DBG_CHECK ok;
                rsp_ctx \<leftarrow> ostk_read_slot (xd_wr_rsp_ost d) (dd_rsp_slot ctx);
                DBG_CHECK (db_decerr rsp_ctx);
                ost \<leftarrow> ostk_write_slot (xd_wr_rsp_ost d) (dd_rsp_slot ctx) (rsp_ctx\<lparr>db_decerr_valid := True\<rparr>);
                dost \<leftarrow> ostq_free_head (xd_wr_data_ost d);
                Some (d\<lparr>xd_wr_rsp_ost := ost, xd_wr_data_ost := dost\<rparr>)
              }
              else Some d
            }
            else do {
              DBG_CHECK (dd_gst_idx ctx < xd_gst_num d);
              gst_w \<leftarrow> arr_get (xd_gst_w_msts d) (dd_gst_idx ctx);
              if itf_fifo_full gst_w then Some d
              else do {
                (w, f) \<leftarrow> fifo_pop (xd_w_fifo d);
                t \<leftarrow> itf_write gst_w w;
                dost \<leftarrow> (if aw_last w then ostq_free_head (xd_wr_data_ost d) else Some (xd_wr_data_ost d));
                Some (d\<lparr>xd_w_fifo := f, xd_gst_w_msts := (xd_gst_w_msts d)[dd_gst_idx ctx := t], xd_wr_data_ost := dost\<rparr>)
              }
            }
          }
      })"

definition axi_demux_proc_aw :: "axi_demux \<Rightarrow> axi_demux option" where
  "axi_demux_proc_aw d =
     (if fifo_empty (xd_aw_fifo d) then Some d
      else if ostq_full (xd_wr_data_ost d) \<or> ostk_full (xd_wr_rsp_ost d) then Some d
      else do {
        aw \<leftarrow> fifo_get_front (xd_aw_fifo d);
        let hit = axi_demux_decode d (aw_addr aw);
        let gst_idx = (case hit of Some g \<Rightarrow> g | None \<Rightarrow> 0);
        full \<leftarrow> (case hit of
            Some g \<Rightarrow> do { gst_aw \<leftarrow> arr_get (xd_gst_aw_msts d) g; Some (itf_fifo_full gst_aw) }
          | None \<Rightarrow> Some False);
        if full then Some d
        else do {
          (aw, f) \<leftarrow> fifo_pop (xd_aw_fifo d);
          p \<leftarrow> ostk_alloc (xd_wr_rsp_ost d) (ucast (aw_id aw)) \<lparr>db_gst_idx = gst_idx, db_decerr = (hit = None), db_decerr_valid = False\<rparr>;
          (rsp_slot, ost) \<leftarrow> p;
          q \<leftarrow> ostq_alloc (xd_wr_data_ost d) \<lparr>dd_gst_idx = gst_idx, dd_rsp_slot = rsp_slot, dd_decerr = (hit = None)\<rparr>;
          (data_slot, dost) \<leftarrow> q;
          gst_aws \<leftarrow> (case hit of
              Some g \<Rightarrow> do { gst_aw \<leftarrow> arr_get (xd_gst_aw_msts d) g; t \<leftarrow> itf_write gst_aw aw; Some ((xd_gst_aw_msts d)[g := t]) }
            | None \<Rightarrow> Some (xd_gst_aw_msts d));
          Some (d\<lparr>xd_aw_fifo := f, xd_wr_rsp_ost := ost, xd_wr_data_ost := dost, xd_gst_aw_msts := gst_aws\<rparr>)
        }
      })"

definition axi_demux_clock :: "axi_demux \<Rightarrow> axi_demux option" where
  "axi_demux_clock d = do {
     rd \<leftarrow> ostk_clock (xd_rd_ost d);
     wd \<leftarrow> ostq_clock (xd_wr_data_ost d);
     wr \<leftarrow> ostk_clock (xd_wr_rsp_ost d);
     let d = d\<lparr>xd_rd_ost := rd, xd_wr_data_ost := wd, xd_wr_rsp_ost := wr\<rparr>;
     d \<leftarrow> axi_demux_capture_ar d;
     d \<leftarrow> axi_demux_capture_aw d;
     d \<leftarrow> axi_demux_capture_w d;
     d \<leftarrow> axi_demux_proc_b d;
     d \<leftarrow> axi_demux_proc_r d;
     d \<leftarrow> axi_demux_proc_w d;
     d \<leftarrow> axi_demux_proc_aw d;
     axi_demux_proc_ar d
   }"

end
