(* ===== verification/AxiDemuxRd.thy ===== *)
theory AxiDemuxRd
  imports AxiDemux Bursts
begin

text \<open>
  The read channels of the AXI4 demultiplexer: reads of mapped addresses reach the guest of their window in order, and the
  beats with one identifier come back burst by burst in the order of the reads.
\<close>

section \<open>Who owes an answer\<close>

text \<open>The guests that owe an answer to an identifier, the oldest first.\<close>

definition rd_tgts :: "axi_demux_rd_ctx ostk \<Rightarrow> u8 \<Rightarrow> nat list" where
  "rd_tgts ost k = map dr_gst_idx (ostk_queue ost (ucast k))"

lemma rd_tgts_upd:
  "ostk_queue ost' = (ostk_queue ost)(ucast k := cs) \<Longrightarrow> rd_tgts ost' = (rd_tgts ost)(k := map dr_gst_idx cs)"
  by (auto simp: rd_tgts_def fun_eq_iff ucast_u8_inj)

section \<open>Invariant\<close>

record rd_ghost =
  gh_ars :: "axi4_ar list"
  gh_taken :: "nat \<Rightarrow> axi4_ar list"
  gh_held :: "nat \<Rightarrow> u8 \<Rightarrow> nat"
  gh_given :: "nat \<Rightarrow> axi4_r list"
  gh_rs :: "axi4_r list"

definition rd_ports :: "axi_demux \<Rightarrow> bool" where
  "rd_ports d \<longleftrightarrow> 0 < xd_gst_num d \<and> length (xd_gst_ar_msts d) = xd_gst_num d \<and> length (xd_gst_r_slvs d) = xd_gst_num d
     \<and> itf_inv (xd_host_ar_slv d) \<and> itf_inv (xd_host_r_mst d) \<and> fifo_inv (xd_ar_fifo d)
     \<and> (\<forall>g<xd_gst_num d. itf_inv (xd_gst_ar_msts d ! g) \<and> itf_inv (xd_gst_r_slvs d ! g))
     \<and> ostk_inv (xd_rd_ost d) \<and> (\<forall>k. \<forall>g\<in>set (rd_tgts (xd_rd_ost d) k). g < xd_gst_num d)"

definition rd_target :: "(u32 \<Rightarrow> nat option) \<Rightarrow> axi4_ar \<Rightarrow> nat" where
  "rd_target dec a = the (dec (ar_addr a))"

definition rd_order :: "(u32 \<Rightarrow> nat option) \<Rightarrow> axi_demux \<Rightarrow> rd_ghost \<Rightarrow> axi4_ar list \<Rightarrow> u8 \<Rightarrow> bool" where
  "rd_order dec d G acc k \<longleftrightarrow> weaves ax_last (map (rd_target dec) (filter (\<lambda>a. ar_id a = k) acc))
     (\<lambda>g. filter (\<lambda>r. ax_id r = k) (gh_given G g)) (filter (\<lambda>r. ax_id r = k) (gh_rs G @ itf_list (xd_host_r_mst d)))
     (rd_tgts (xd_rd_ost d) k) (pend (xd_gst_r_slvs d) (\<lambda>r. ax_id r = k))"

definition rd_balance :: "axi_demux \<Rightarrow> rd_ghost \<Rightarrow> nat \<Rightarrow> u8 \<Rightarrow> bool" where
  "rd_balance d G g k \<longleftrightarrow>
     count_list (rd_tgts (xd_rd_ost d) k) g = length (filter (\<lambda>a. ar_id a = k) (itf_list (xd_gst_ar_msts d ! g))) + gh_held G g k
       + length (filter (\<lambda>r. ax_id r = k \<and> ax_last r) (itf_list (xd_gst_r_slvs d ! g)))"

definition rd_open :: "axi_demux \<Rightarrow> rd_ghost \<Rightarrow> nat \<Rightarrow> u8 \<Rightarrow> bool" where
  "rd_open d G g k \<longleftrightarrow> (let rs = filter (\<lambda>r. ax_id r = k) (itf_list (xd_gst_r_slvs d ! g)) in
     rs \<noteq> [] \<longrightarrow> \<not> ax_last (last rs) \<longrightarrow> 0 < gh_held G g k)"

definition rd_inv :: "(u32 \<Rightarrow> nat option) \<Rightarrow> axi_demux \<Rightarrow> rd_ghost \<Rightarrow> bool" where
  "rd_inv dec d G \<longleftrightarrow> rd_ports d \<and> axi_demux_decode d = dec \<and> (\<forall>a\<in>set (gh_ars G). dec (ar_addr a) \<noteq> None)
     \<and> (\<exists>acc. gh_ars G = acc @ fifo_list (xd_ar_fifo d) @ itf_list (xd_host_ar_slv d)
          \<and> (\<forall>g<xd_gst_num d. gh_taken G g @ itf_list (xd_gst_ar_msts d ! g) = filter (\<lambda>a. rd_target dec a = g) acc)
          \<and> (\<forall>k. rd_order dec d G acc k))
     \<and> (\<forall>g<xd_gst_num d. \<forall>k. rd_balance d G g k \<and> rd_open d G g k)"

lemma rd_front_known:
  assumes "rd_inv dec d G" "g < xd_gst_num d" "itf_list (xd_gst_r_slvs d ! g) = r # rs"
  shows "rd_tgts (xd_rd_ost d) (ax_id r) \<noteq> []"
proof -
  let ?k = "ax_id r" and ?ps = "filter (\<lambda>x. ax_id x = ax_id r) (itf_list (xd_gst_r_slvs d ! g))"
  have b: "rd_balance d G g ?k" "rd_open d G g ?k" using assms(1,2) by (simp_all add: rd_inv_def)
  have ne: "?ps \<noteq> []" using assms(3) by simp
  have "0 < gh_held G g ?k \<or> 0 < length (filter (\<lambda>x. ax_id x = ?k \<and> ax_last x) (itf_list (xd_gst_r_slvs d ! g)))"
  proof (cases "ax_last (last ?ps)")
    case True
    have "last ?ps \<in> set ?ps" using ne by (rule last_in_set)
    with True have "last ?ps \<in> set (filter (\<lambda>x. ax_id x = ?k \<and> ax_last x) (itf_list (xd_gst_r_slvs d ! g)))" by simp
    then show ?thesis using length_pos_if_in_set by fast
  next
    case False
    with b(2) ne show ?thesis by (simp add: rd_open_def Let_def)
  qed
  with b(1) have "0 < count_list (rd_tgts (xd_rd_ost d) ?k) g" by (auto simp: rd_balance_def)
  then show ?thesis by auto
qed

section \<open>The steps of a tick\<close>

text \<open>The members that the write channels use; the read channels leave them alone.\<close>

definition wr_part where
  "wr_part d = (xd_gst_num d, axi_demux_decode d, (xd_host_aw_slv d, xd_aw_fifo d, xd_gst_aw_msts d, xd_host_w_slv d, xd_w_fifo d, xd_gst_w_msts d),
     xd_host_b_mst d, xd_gst_b_slvs d, xd_wr_rsp_ost d, xd_wr_data_ost d)"

definition rd_part where
  "rd_part d = (xd_gst_num d, axi_demux_decode d, xd_host_ar_slv d, xd_ar_fifo d, xd_gst_ar_msts d, xd_host_r_mst d, xd_gst_r_slvs d, xd_rd_ost d)"

lemma decode_frame [simp]:
  "axi_demux_decode (d\<lparr>xd_host_aw_slv := v0\<rparr>) = axi_demux_decode d" "axi_demux_decode (d\<lparr>xd_host_w_slv := v1\<rparr>) = axi_demux_decode d" "axi_demux_decode (d\<lparr>xd_host_b_mst := v2\<rparr>) = axi_demux_decode d"
  "axi_demux_decode (d\<lparr>xd_host_ar_slv := v3\<rparr>) = axi_demux_decode d" "axi_demux_decode (d\<lparr>xd_host_r_mst := v4\<rparr>) = axi_demux_decode d" "axi_demux_decode (d\<lparr>xd_gst_aw_msts := v5\<rparr>) = axi_demux_decode d"
  "axi_demux_decode (d\<lparr>xd_gst_w_msts := v6\<rparr>) = axi_demux_decode d" "axi_demux_decode (d\<lparr>xd_gst_b_slvs := v7\<rparr>) = axi_demux_decode d" "axi_demux_decode (d\<lparr>xd_gst_ar_msts := v8\<rparr>) = axi_demux_decode d"
  "axi_demux_decode (d\<lparr>xd_gst_r_slvs := v9\<rparr>) = axi_demux_decode d" "axi_demux_decode (d\<lparr>xd_rd_rsp_rr_idx := v10\<rparr>) = axi_demux_decode d" "axi_demux_decode (d\<lparr>xd_wr_rsp_rr_idx := v11\<rparr>) = axi_demux_decode d"
  "axi_demux_decode (d\<lparr>xd_ar_fifo := v12\<rparr>) = axi_demux_decode d" "axi_demux_decode (d\<lparr>xd_aw_fifo := v13\<rparr>) = axi_demux_decode d" "axi_demux_decode (d\<lparr>xd_w_fifo := v14\<rparr>) = axi_demux_decode d"
  "axi_demux_decode (d\<lparr>xd_rd_ost := v15\<rparr>) = axi_demux_decode d" "axi_demux_decode (d\<lparr>xd_wr_data_ost := v16\<rparr>) = axi_demux_decode d" "axi_demux_decode (d\<lparr>xd_wr_rsp_ost := v17\<rparr>) = axi_demux_decode d"
  "axi_demux_decode (d\<lparr>xd_perf_stg_ar_full := v18\<rparr>) = axi_demux_decode d" "axi_demux_decode (d\<lparr>xd_perf_stg_aw_full := v19\<rparr>) = axi_demux_decode d" "axi_demux_decode (d\<lparr>xd_perf_stg_w_full := v20\<rparr>) = axi_demux_decode d"
  by (simp_all add: axi_demux_decode_def fun_eq_iff)

lemma rd_inv_cong: "rd_part d' = rd_part d \<Longrightarrow> rd_inv dec d' G = rd_inv dec d G"
  by (simp add: rd_part_def rd_inv_def rd_ports_def rd_order_def rd_balance_def rd_open_def)

lemma rd_capture_ok:
  assumes "rd_inv dec d G"
  shows "\<exists>d'. axi_demux_capture_ar d = Some d' \<and> rd_inv dec d' G \<and> wr_part d' = wr_part d \<and> xd_rd_ost d' = xd_rd_ost d"
proof (cases "fifo_full (xd_ar_fifo d)")
  case True
  let ?d = "if \<not> itf_fifo_empty (xd_host_ar_slv d) then d\<lparr>xd_perf_stg_ar_full := xd_perf_stg_ar_full d + 1\<rparr> else d"
  have "axi_demux_capture_ar d = Some ?d" using True by (simp add: axi_demux_capture_ar_def)
  moreover have "rd_part ?d = rd_part d" "wr_part ?d = wr_part d" "xd_rd_ost ?d = xd_rd_ost d"
    by (simp_all add: rd_part_def wr_part_def)
  ultimately show ?thesis using rd_inv_cong [of ?d d] assms by blast
next
  case nf: False
  have i: "itf_inv (xd_host_ar_slv d)" "fifo_inv (xd_ar_fifo d)" using assms by (simp_all add: rd_inv_def rd_ports_def)
  show ?thesis
  proof (cases "itf_fifo_empty (xd_host_ar_slv d)")
    case True
    with nf assms show ?thesis by (simp add: axi_demux_capture_ar_def)
  next
    case False
    from itf.pop_not_empty [OF i(1) False] obtain ar t where
      t: "itf_read (xd_host_ar_slv d) = Some (ar, t)" "itf_inv t" "itf_list (xd_host_ar_slv d) = ar # itf_list t" by metis
    from fifo.push_ok [OF i(2) nf] obtain f where
      f: "fifo_push (xd_ar_fifo d) ar = Some f" "fifo_inv f" "fifo_list f = fifo_list (xd_ar_fifo d) @ [ar]" by metis
    define d' where "d' = d\<lparr>xd_host_ar_slv := t, xd_ar_fifo := f\<rparr>"
    have "axi_demux_capture_ar d = Some d'" using nf False t f by (simp add: axi_demux_capture_ar_def d'_def)
    moreover have "rd_inv dec d' G"
      using assms t(2,3) f(2,3) by (simp add: rd_inv_def rd_ports_def rd_order_def rd_balance_def rd_open_def d'_def)
    moreover have "wr_part d' = wr_part d" "xd_rd_ost d' = xd_rd_ost d" by (simp_all add: wr_part_def d'_def)
    ultimately show ?thesis by blast
  qed
qed

text \<open>The read that \<^verbatim>\<open>axi_demux_proc_r\<close> serves, if any: a beat of the guest whose turn it is for that identifier.\<close>

lemma r_loop_cases:
  assumes ports: "rd_ports d" and room: "\<not> itf_fifo_full (xd_host_r_mst d)"
    and known: "\<forall>g<xd_gst_num d. \<forall>r rs. itf_list (xd_gst_r_slvs d ! g) = r # rs \<longrightarrow> rd_tgts (xd_rd_ost d) (ax_id r) \<noteq> []"
  shows "axi_demux_r_loop js d = Some d \<or>
    (\<exists>g r rs gs t u ost x. g < xd_gst_num d \<and> itf_list (xd_gst_r_slvs d ! g) = r # rs \<and> rd_tgts (xd_rd_ost d) (ax_id r) = g # gs
      \<and> axi_demux_r_loop js d = Some (d\<lparr>xd_gst_r_slvs := (xd_gst_r_slvs d)[g := t], xd_host_r_mst := u, xd_rd_ost := ost, xd_rd_rsp_rr_idx := x\<rparr>)
      \<and> itf_inv t \<and> itf_list t = rs \<and> itf_inv u \<and> itf_list u = itf_list (xd_host_r_mst d) @ [r] \<and> ostk_inv ost
      \<and> rd_tgts ost = (rd_tgts (xd_rd_ost d))(ax_id r := if ax_last r then gs else g # gs)
      \<and> k_next_issue_seq ost = k_next_issue_seq (xd_rd_ost d))"
proof (induction js)
  case (Cons i js)
  define g where "g = (xd_rd_rsp_rr_idx d + i) mod xd_gst_num d"
  have g: "g < xd_gst_num d" "g < length (xd_gst_r_slvs d)" using ports by (simp_all add: g_def rd_ports_def)
  have inv: "itf_inv (xd_gst_r_slvs d ! g)" "ostk_inv (xd_rd_ost d)" "itf_inv (xd_host_r_mst d)" using ports g by (simp_all add: rd_ports_def)
  show ?case
  proof (cases "itf_list (xd_gst_r_slvs d ! g)")
    case Nil
    then have "axi_demux_r_loop (i # js) d = axi_demux_r_loop js d" using g inv by (simp add: g_def [symmetric] itf.is_empty_iff)
    with Cons.IH show ?thesis by simp
  next
    case (Cons r rs)
    let ?t = "xd_gst_r_slvs d ! g" and ?k = "ax_id r"
    note ne = holds_Cons [of ?t r rs, unfolded itf_holds_def, OF conjI [OF inv(1) Cons]]
    from known [rule_format, OF g(1) Cons] obtain c cs where q: "ostk_queue (xd_rd_ost d) (ucast ?k) = c # cs"
      by (cases "ostk_queue (xd_rd_ost d) (ucast ?k)") (auto simp: rd_tgts_def)
    from ostk_take_head [OF inv(2) q] obtain slot ost where
      tk: "ostk_peek_key (xd_rd_ost d) (ucast ?k) = Some (Some (slot, c))" "ostk_free_slot (xd_rd_ost d) slot = Some ost" "ostk_inv ost"
      "ostk_queue ost = (ostk_queue (xd_rd_ost d))(ucast ?k := cs)" "k_next_issue_seq ost = k_next_issue_seq (xd_rd_ost d)" by blast
    show ?thesis
    proof (cases "dr_gst_idx c = g")
      case False
      then have "axi_demux_r_loop (i # js) d = axi_demux_r_loop js d"
        using g ne(1,2) tk(1) by (simp add: g_def [symmetric])
      with Cons.IH show ?thesis by simp
    next
      case True
      from ne(3) obtain t where t: "itf_fifo_pop_front ?t = Some t" "itf_inv t" "itf_list t = rs" by blast
      from itf.push_ok [OF inv(3) room, of r] obtain u where
        u: "itf_write (xd_host_r_mst d) r = Some u" "itf_inv u" "itf_list u = itf_list (xd_host_r_mst d) @ [r]" by blast
      define ost' where "ost' = (if ax_last r then ost else xd_rd_ost d)"
      have step: "axi_demux_r_loop (i # js) d = Some (d\<lparr>xd_gst_r_slvs := (xd_gst_r_slvs d)[g := t], xd_host_r_mst := u, xd_rd_ost := ost',
          xd_rd_rsp_rr_idx := (g + 1) mod xd_gst_num d\<rparr>)"
        using g ne(1,2) tk(1,2) True t(1) u(1) by (simp add: g_def [symmetric] ost'_def)
      have tg: "rd_tgts (xd_rd_ost d) ?k = g # map dr_gst_idx cs" using q True by (simp add: rd_tgts_def)
      have "ostk_inv ost'" "rd_tgts ost' = (rd_tgts (xd_rd_ost d))(?k := if ax_last r then map dr_gst_idx cs else g # map dr_gst_idx cs)"
        "k_next_issue_seq ost' = k_next_issue_seq (xd_rd_ost d)"
        using tk(3,5) inv(2) rd_tgts_upd [OF tk(4)] tg by (auto simp: ost'_def fun_eq_iff)
      then show ?thesis using step g(1) Cons tg t(2,3) u(2,3) by blast
    qed
  qed
qed simp

lemma rd_invD:
  assumes "rd_inv dec d G"
  obtains acc where "rd_ports d" "axi_demux_decode d = dec" "\<forall>a\<in>set (gh_ars G). dec (ar_addr a) \<noteq> None"
    "gh_ars G = acc @ fifo_list (xd_ar_fifo d) @ itf_list (xd_host_ar_slv d)"
    "\<forall>g<xd_gst_num d. gh_taken G g @ itf_list (xd_gst_ar_msts d ! g) = filter (\<lambda>a. rd_target dec a = g) acc"
    "\<forall>k. rd_order dec d G acc k" "\<forall>g<xd_gst_num d. \<forall>k. rd_balance d G g k" "\<forall>g<xd_gst_num d. \<forall>k. rd_open d G g k"
  using assms unfolding rd_inv_def by blast

lemma rd_invI:
  assumes "rd_ports d" "axi_demux_decode d = dec" "\<forall>a\<in>set (gh_ars G). dec (ar_addr a) \<noteq> None"
    "gh_ars G = acc @ fifo_list (xd_ar_fifo d) @ itf_list (xd_host_ar_slv d)"
    "\<forall>g<xd_gst_num d. gh_taken G g @ itf_list (xd_gst_ar_msts d ! g) = filter (\<lambda>a. rd_target dec a = g) acc"
    "\<forall>k. rd_order dec d G acc k" "\<forall>g<xd_gst_num d. \<forall>k. rd_balance d G g k" "\<forall>g<xd_gst_num d. \<forall>k. rd_open d G g k"
  shows "rd_inv dec d G"
  using assms unfolding rd_inv_def by blast

lemma rd_deliver:
  assumes inv: "rd_inv dec d G" and g: "g < xd_gst_num d" and r: "itf_list (xd_gst_r_slvs d ! g) = r # rs"
    and tg: "rd_tgts (xd_rd_ost d) (ax_id r) = g # gs"
    and t: "itf_inv t" "itf_list t = rs" and u: "itf_inv u" "itf_list u = itf_list (xd_host_r_mst d) @ [r]" and o: "ostk_inv ost"
    and tg': "rd_tgts ost = (rd_tgts (xd_rd_ost d))(ax_id r := if ax_last r then gs else g # gs)"
  shows "rd_inv dec (d\<lparr>xd_gst_r_slvs := (xd_gst_r_slvs d)[g := t], xd_host_r_mst := u, xd_rd_ost := ost, xd_rd_rsp_rr_idx := x\<rparr>) G"
proof -
  from inv obtain acc where v: "rd_ports d" "axi_demux_decode d = dec" "\<forall>a\<in>set (gh_ars G). dec (ar_addr a) \<noteq> None"
    "gh_ars G = acc @ fifo_list (xd_ar_fifo d) @ itf_list (xd_host_ar_slv d)"
    "\<forall>g<xd_gst_num d. gh_taken G g @ itf_list (xd_gst_ar_msts d ! g) = filter (\<lambda>a. rd_target dec a = g) acc"
    "\<forall>k. rd_order dec d G acc k" "\<forall>g<xd_gst_num d. \<forall>k. rd_balance d G g k" "\<forall>g<xd_gst_num d. \<forall>k. rd_open d G g k" by (rule rd_invD)
  define d' where "d' = d\<lparr>xd_gst_r_slvs := (xd_gst_r_slvs d)[g := t], xd_host_r_mst := u, xd_rd_ost := ost, xd_rd_rsp_rr_idx := x\<rparr>"
  have len: "g < length (xd_gst_r_slvs d)" using v(1) g by (simp add: rd_ports_def)
  have tgk: "rd_tgts ost k = (if k = ax_id r \<and> ax_last r then gs else rd_tgts (xd_rd_ost d) k)" for k
    using tg' tg by simp
  have "set (rd_tgts ost k) \<subseteq> set (rd_tgts (xd_rd_ost d) k)" for k using tgk [of k] tg by (auto split: if_splits)
  then have "\<forall>k. \<forall>g\<in>set (rd_tgts ost k). g < xd_gst_num d" using v(1) unfolding rd_ports_def by blast
  moreover have "itf_inv ((xd_gst_r_slvs d)[g := t] ! h)" if "h < xd_gst_num d" for h
    using v(1) t(1) that len by (cases "h = g") (simp_all add: rd_ports_def)
  ultimately have ports: "rd_ports d'"
    using v(1) u(1) o by (simp add: rd_ports_def d'_def)
  have order: "rd_order dec d' G acc k" for k
  proof (cases "k = ax_id r")
    case False
    then have "pend ((xd_gst_r_slvs d)[g := t]) (\<lambda>r. ax_id r = k) = pend (xd_gst_r_slvs d) (\<lambda>r. ax_id r = k)"
      using pend_same [OF len, of "\<lambda>r. ax_id r = k" t] t(2) r by simp
    with False v(6) [rule_format, of k] show ?thesis by (simp add: rd_order_def d'_def u(2) tgk)
  next
    case True
    let ?q = "pend (xd_gst_r_slvs d) (\<lambda>r. ax_id r = k)"
    have q: "?q g = r # filter (\<lambda>r. ax_id r = k) rs" using len r True by (simp add: pend_def)
    have "weaves ax_last (map (rd_target dec) (filter (\<lambda>a. ar_id a = k) acc)) (\<lambda>g. filter (\<lambda>r. ax_id r = k) (gh_given G g))
        (filter (\<lambda>r. ax_id r = k) (gh_rs G @ itf_list (xd_host_r_mst d))) (g # gs) ?q"
      using v(6) [rule_format, of k] tg True by (simp add: rd_order_def)
    from weaves_beat [OF this q] show ?thesis
      using tg' True u(2) pend_update [OF len, of t "\<lambda>r. ax_id r = k"] t(2) by (simp add: rd_order_def d'_def)
  qed
  have bal: "rd_balance d' G h k" if h: "h < xd_gst_num d" for h k
    using v(7) [rule_format, OF h, of k] tgk [of k] tg t(2) r len by (auto simp: rd_balance_def d'_def nth_list_update)
  have opn: "rd_open d' G h k" if h: "h < xd_gst_num d" for h k
    using v(8) [rule_format, OF h, of k] t(2) r len
    by (cases "h = g") (auto simp: rd_open_def d'_def nth_list_update Let_def split: if_splits)
  have "rd_inv dec d' G"
    by (rule rd_invI [of d' dec G acc]) (use ports order bal opn v(2-5) in \<open>simp_all add: d'_def\<close>)
  then show ?thesis by (simp add: d'_def)
qed

lemma rd_proc_r_ok:
  assumes inv: "rd_inv dec d G"
  shows "\<exists>d'. axi_demux_proc_r d = Some d' \<and> rd_inv dec d' G \<and> wr_part d' = wr_part d
    \<and> k_next_issue_seq (xd_rd_ost d') = k_next_issue_seq (xd_rd_ost d)"
proof (cases "itf_fifo_full (xd_host_r_mst d)")
  case True
  with inv show ?thesis by (simp add: axi_demux_proc_r_def)
next
  case False
  have p: "rd_ports d" using inv by (simp add: rd_inv_def)
  have step: "axi_demux_proc_r d = axi_demux_r_loop [0..<xd_gst_num d] d" using False by (simp add: axi_demux_proc_r_def)
  have known: "\<forall>g<xd_gst_num d. \<forall>r rs. itf_list (xd_gst_r_slvs d ! g) = r # rs \<longrightarrow> rd_tgts (xd_rd_ost d) (ax_id r) \<noteq> []"
    using rd_front_known [OF inv] by blast
  from r_loop_cases [OF p False known, where js = "[0..<xd_gst_num d]"] show ?thesis
  proof (elim disjE exE conjE)
    assume "axi_demux_r_loop [0..<xd_gst_num d] d = Some d"
    with step inv show ?thesis by simp
  next
    fix g r rs gs t u ost x
    assume a: "g < xd_gst_num d" "itf_list (xd_gst_r_slvs d ! g) = r # rs" "rd_tgts (xd_rd_ost d) (ax_id r) = g # gs"
      "axi_demux_r_loop [0..<xd_gst_num d] d = Some (d\<lparr>xd_gst_r_slvs := (xd_gst_r_slvs d)[g := t], xd_host_r_mst := u, xd_rd_ost := ost, xd_rd_rsp_rr_idx := x\<rparr>)"
      "itf_inv t" "itf_list t = rs" "itf_inv u" "itf_list u = itf_list (xd_host_r_mst d) @ [r]" "ostk_inv ost"
      "rd_tgts ost = (rd_tgts (xd_rd_ost d))(ax_id r := if ax_last r then gs else g # gs)" "k_next_issue_seq ost = k_next_issue_seq (xd_rd_ost d)"
    from rd_deliver [OF inv a(1-3) a(5-10), of x] step a(4,11) show ?thesis by (simp add: wr_part_def)
  qed
qed

lemma rd_proc_ar_ok:
  assumes inv: "rd_inv dec d G" and seq: "unat (k_next_issue_seq (xd_rd_ost d)) < 2 ^ 64 - 1"
  shows "\<exists>d'. axi_demux_proc_ar d = Some d' \<and> rd_inv dec d' G \<and> wr_part d' = wr_part d
    \<and> unat (k_next_issue_seq (xd_rd_ost d')) \<le> unat (k_next_issue_seq (xd_rd_ost d)) + 1"
proof -
  from inv obtain acc where v: "rd_ports d" "axi_demux_decode d = dec" "\<forall>a\<in>set (gh_ars G). dec (ar_addr a) \<noteq> None"
    "gh_ars G = acc @ fifo_list (xd_ar_fifo d) @ itf_list (xd_host_ar_slv d)"
    "\<forall>g<xd_gst_num d. gh_taken G g @ itf_list (xd_gst_ar_msts d ! g) = filter (\<lambda>a. rd_target dec a = g) acc"
    "\<forall>k. rd_order dec d G acc k" "\<forall>g<xd_gst_num d. \<forall>k. rd_balance d G g k" "\<forall>g<xd_gst_num d. \<forall>k. rd_open d G g k" by (rule rd_invD)
  have i: "fifo_inv (xd_ar_fifo d)" "ostk_inv (xd_rd_ost d)" using v(1) by (simp_all add: rd_ports_def)
  show ?thesis
  proof (cases "fifo_list (xd_ar_fifo d)")
    case Nil
    then have "axi_demux_proc_ar d = Some d" using i(1) by (simp add: axi_demux_proc_ar_def fifo.is_empty_iff)
    with inv show ?thesis by simp
  next
    case (Cons ar ars)
    note front = fifo.front_Cons [OF i(1) Cons]
    have ne: "\<not> fifo_empty (xd_ar_fifo d)" using Cons i(1) by (simp add: fifo.is_empty_iff)
    have "ar \<in> set (gh_ars G)" using v(4) Cons by simp
    with v(3) obtain g where g: "dec (ar_addr ar) = Some g" by auto
    then have glt: "g < xd_gst_num d" using v(2) find_SomeD [of _ "[0..<xd_gst_num d]" g] by (auto simp: axi_demux_decode_def)
    have len: "g < length (xd_gst_ar_msts d)" "itf_inv (xd_gst_ar_msts d ! g)" using v(1) glt by (simp_all add: rd_ports_def)
    show ?thesis
    proof (cases "ostk_full (xd_rd_ost d) \<or> itf_fifo_full (xd_gst_ar_msts d ! g)")
      case True
      then have "axi_demux_proc_ar d = Some d" using ne front g v(2) len by (auto simp: axi_demux_proc_ar_def)
      with inv show ?thesis by simp
    next
      case False
      from fifo.pop_Cons [OF i(1) Cons] obtain f where f: "fifo_pop (xd_ar_fifo d) = Some (ar, f)" "fifo_inv f" "fifo_list f = ars" by blast
      from itf.push_ok [OF len(2), of ar] False obtain t where
        t: "itf_write (xd_gst_ar_msts d ! g) ar = Some t" "itf_inv t" "itf_list t = itf_list (xd_gst_ar_msts d ! g) @ [ar]" by blast
      from ostk_alloc_ok [OF i(2) _ seq, of "ucast (ar_id ar)" "\<lparr>dr_gst_idx = g\<rparr>"] False obtain slot ost where
        al: "ostk_alloc (xd_rd_ost d) (ucast (ar_id ar)) \<lparr>dr_gst_idx = g\<rparr> = Some (Some (slot, ost))" "ostk_inv ost"
        "ostk_queue ost = (ostk_queue (xd_rd_ost d))(ucast (ar_id ar) := ostk_queue (xd_rd_ost d) (ucast (ar_id ar)) @ [\<lparr>dr_gst_idx = g\<rparr>])"
        "unat (k_next_issue_seq ost) = unat (k_next_issue_seq (xd_rd_ost d)) + 1" by blast
      define d' where "d' = d\<lparr>xd_ar_fifo := f, xd_gst_ar_msts := (xd_gst_ar_msts d)[g := t], xd_rd_ost := ost\<rparr>"
      have step: "axi_demux_proc_ar d = Some d'"
        using ne front g v(2) len(1) False f(1) t(1) al(1) by (simp add: axi_demux_proc_ar_def d'_def)
      have tg: "rd_tgts ost = (rd_tgts (xd_rd_ost d))(ar_id ar := rd_tgts (xd_rd_ost d) (ar_id ar) @ [g])"
        using rd_tgts_upd [OF al(3)] by (simp add: rd_tgts_def)
      have ports: "rd_ports d'"
        using v(1) f(2) t(2) al(2) glt tg by (auto simp: rd_ports_def d'_def nth_list_update split: if_splits)
      have tar: "rd_target dec ar = g" using g by (simp add: rd_target_def)
      have order: "rd_order dec d' G (acc @ [ar]) k" for k
        using v(6) [rule_format, of k] weaves_more_targets [where us = "[g]"] tg tar
        by (auto simp: rd_order_def d'_def)
      have taken: "gh_taken G h @ itf_list (xd_gst_ar_msts d' ! h) = filter (\<lambda>a. rd_target dec a = h) (acc @ [ar])" if "h < xd_gst_num d" for h
        using v(5) [rule_format, OF that] t(3) len(1) tar by (auto simp: d'_def nth_list_update)
      have bal: "rd_balance d' G h k" if "h < xd_gst_num d" for h k
        using v(7) [rule_format, OF that, of k] tg t(3) len(1) by (auto simp: rd_balance_def d'_def nth_list_update count_list_snoc)
      have opn: "rd_open d' G h k" if "h < xd_gst_num d" for h k
        using v(8) [rule_format, OF that, of k] by (simp add: rd_open_def d'_def)
      have "rd_inv dec d' G"
        by (rule rd_invI [of d' dec G "acc @ [ar]"]) (use ports order taken bal opn v(2-4) Cons f(3) in \<open>simp_all add: d'_def\<close>)
      with step al(4) show ?thesis by (simp add: d'_def wr_part_def)
    qed
  qed
qed

section \<open>What the host and the guests do\<close>

lemma rd_ports_inv: "rd_inv dec d G \<Longrightarrow> itf_inv (xd_host_ar_slv d) \<and> itf_inv (xd_host_r_mst d)
    \<and> (\<forall>g<xd_gst_num d. itf_inv (xd_gst_ar_msts d ! g) \<and> itf_inv (xd_gst_r_slvs d ! g))"
  by (simp add: rd_inv_def rd_ports_def)

lemma rd_issue:
  assumes inv: "rd_inv dec d G" and w: "itf_write (xd_host_ar_slv d) a = Some t" and m: "dec (ar_addr a) \<noteq> None"
  shows "rd_inv dec (d\<lparr>xd_host_ar_slv := t\<rparr>) (G\<lparr>gh_ars := gh_ars G @ [a]\<rparr>)"
proof -
  have t: "itf_inv t" "itf_list t = itf_list (xd_host_ar_slv d) @ [a]" using itf.push_SomeD [OF w] rd_ports_inv [OF inv] by simp_all
  with inv m show ?thesis by (simp add: rd_inv_def rd_ports_def rd_order_def rd_balance_def rd_open_def)
qed

lemma rd_receive:
  assumes inv: "rd_inv dec d G" and w: "itf_read (xd_host_r_mst d) = Some (r, t)"
  shows "rd_inv dec (d\<lparr>xd_host_r_mst := t\<rparr>) (G\<lparr>gh_rs := gh_rs G @ [r]\<rparr>)"
proof -
  have t: "itf_inv t" "itf_list (xd_host_r_mst d) = r # itf_list t" using itf.pop_SomeD [OF w] rd_ports_inv [OF inv] by simp_all
  with inv show ?thesis by (simp add: rd_inv_def rd_ports_def rd_order_def rd_balance_def rd_open_def)
qed

lemma rd_take:
  assumes inv: "rd_inv dec d G" and g: "g < xd_gst_num d" and w: "itf_read (xd_gst_ar_msts d ! g) = Some (a, t)"
  shows "rd_inv dec (d\<lparr>xd_gst_ar_msts := (xd_gst_ar_msts d)[g := t]\<rparr>)
    (G\<lparr>gh_taken := (gh_taken G)(g := gh_taken G g @ [a]), gh_held := (gh_held G)(g := (gh_held G g)(ar_id a := gh_held G g (ar_id a) + 1))\<rparr>)"
    (is "rd_inv dec ?d ?G")
proof -
  from inv obtain acc where v: "rd_ports d" "axi_demux_decode d = dec" "\<forall>a\<in>set (gh_ars G). dec (ar_addr a) \<noteq> None"
    "gh_ars G = acc @ fifo_list (xd_ar_fifo d) @ itf_list (xd_host_ar_slv d)"
    "\<forall>g<xd_gst_num d. gh_taken G g @ itf_list (xd_gst_ar_msts d ! g) = filter (\<lambda>a. rd_target dec a = g) acc"
    "\<forall>k. rd_order dec d G acc k" "\<forall>g<xd_gst_num d. \<forall>k. rd_balance d G g k" "\<forall>g<xd_gst_num d. \<forall>k. rd_open d G g k" by (rule rd_invD)
  have t: "itf_inv t" "itf_list (xd_gst_ar_msts d ! g) = a # itf_list t" and len: "g < length (xd_gst_ar_msts d)"
    using itf.pop_SomeD [OF w] rd_ports_inv [OF inv] g v(1) by (simp_all add: rd_ports_def)
  have "itf_inv ((xd_gst_ar_msts d)[g := t] ! h)" if "h < xd_gst_num d" for h
    using v(1) t(1) that len by (cases "h = g") (simp_all add: rd_ports_def)
  then have "rd_ports ?d" using v(1) by (simp add: rd_ports_def)
  moreover have "gh_taken ?G h @ itf_list (xd_gst_ar_msts ?d ! h) = filter (\<lambda>a. rd_target dec a = h) acc" if "h < xd_gst_num d" for h
    using v(5) [rule_format, OF that] t(2) len by (cases "h = g") simp_all
  moreover have "rd_order dec ?d ?G acc k" for k using v(6) by (simp add: rd_order_def)
  moreover have "rd_balance ?d ?G h k" if "h < xd_gst_num d" for h k
    using v(7) [rule_format, OF that, of k] t(2) len by (cases "h = g") (auto simp: rd_balance_def)
  moreover have "rd_open ?d ?G h k" if "h < xd_gst_num d" for h k
    using v(8) [rule_format, OF that, of k] by (auto simp: rd_open_def Let_def)
  ultimately show ?thesis by (intro rd_invI [of ?d dec ?G acc]) (use v(2-4) in simp_all)
qed

lemma rd_give:
  assumes inv: "rd_inv dec d G" and g: "g < xd_gst_num d" and held: "0 < gh_held G g (ax_id r)"
    and w: "itf_write (xd_gst_r_slvs d ! g) r = Some t"
  shows "rd_inv dec (d\<lparr>xd_gst_r_slvs := (xd_gst_r_slvs d)[g := t]\<rparr>)
    (G\<lparr>gh_given := (gh_given G)(g := gh_given G g @ [r]),
       gh_held := (gh_held G)(g := (gh_held G g)(ax_id r := gh_held G g (ax_id r) - of_bool (ax_last r)))\<rparr>)"
    (is "rd_inv dec ?d ?G")
proof -
  from inv obtain acc where v: "rd_ports d" "axi_demux_decode d = dec" "\<forall>a\<in>set (gh_ars G). dec (ar_addr a) \<noteq> None"
    "gh_ars G = acc @ fifo_list (xd_ar_fifo d) @ itf_list (xd_host_ar_slv d)"
    "\<forall>g<xd_gst_num d. gh_taken G g @ itf_list (xd_gst_ar_msts d ! g) = filter (\<lambda>a. rd_target dec a = g) acc"
    "\<forall>k. rd_order dec d G acc k" "\<forall>g<xd_gst_num d. \<forall>k. rd_balance d G g k" "\<forall>g<xd_gst_num d. \<forall>k. rd_open d G g k" by (rule rd_invD)
  have t: "itf_inv t" "itf_list t = itf_list (xd_gst_r_slvs d ! g) @ [r]" and len: "g < length (xd_gst_r_slvs d)"
    using itf.push_SomeD [OF w] rd_ports_inv [OF inv] g v(1) by (simp_all add: rd_ports_def)
  have "itf_inv ((xd_gst_r_slvs d)[g := t] ! h)" if "h < xd_gst_num d" for h
    using v(1) t(1) that len by (cases "h = g") (simp_all add: rd_ports_def)
  then have "rd_ports ?d" using v(1) by (simp add: rd_ports_def)
  moreover have "rd_order dec ?d ?G acc k" for k
  proof (cases "k = ax_id r")
    case False
    then have "pend ((xd_gst_r_slvs d)[g := t]) (\<lambda>r. ax_id r = k) = pend (xd_gst_r_slvs d) (\<lambda>r. ax_id r = k)"
      using pend_same [OF len, of "\<lambda>r. ax_id r = k" t] t(2) by simp
    moreover have "(\<lambda>h. filter (\<lambda>r. ax_id r = k) (gh_given ?G h)) = (\<lambda>h. filter (\<lambda>r. ax_id r = k) (gh_given G h))"
      using False by (auto simp: fun_eq_iff)
    ultimately show ?thesis using v(6) [rule_format, of k] by (simp add: rd_order_def)
  next
    case True
    have "pend ((xd_gst_r_slvs d)[g := t]) (\<lambda>r. ax_id r = k)
        = (pend (xd_gst_r_slvs d) (\<lambda>r. ax_id r = k))(g := pend (xd_gst_r_slvs d) (\<lambda>r. ax_id r = k) g @ [r])"
      using pend_update [OF len, of t "\<lambda>r. ax_id r = k"] t(2) True len by (simp add: pend_def)
    moreover have "(\<lambda>h. filter (\<lambda>r. ax_id r = k) (gh_given ?G h))
        = (\<lambda>h. filter (\<lambda>r. ax_id r = k) (gh_given G h))(g := filter (\<lambda>r. ax_id r = k) (gh_given G g) @ [r])"
      using True by (auto simp: fun_eq_iff)
    ultimately show ?thesis
      using weaves_more_beats [OF v(6) [rule_format, of k, unfolded rd_order_def], of g r] by (simp add: rd_order_def)
  qed
  moreover have "rd_balance ?d ?G h k" if "h < xd_gst_num d" for h k
    using v(7) [rule_format, OF that, of k] t(2) len held by (cases "h = g") (auto simp: rd_balance_def)
  moreover have "rd_open ?d ?G h k" if "h < xd_gst_num d" for h k
    using v(8) [rule_format, OF that, of k] t(2) len held by (cases "h = g") (auto simp: rd_open_def Let_def)
  ultimately show ?thesis by (intro rd_invI [of ?d dec ?G acc]) (use v(2-5) in simp_all)
qed

text \<open>What the host has seen in the end.\<close>

lemma rd_inv_result:
  assumes "rd_inv dec d G"
  shows "\<forall>g<xd_gst_num d. \<exists>rest. filter (\<lambda>a. rd_target dec a = g) (gh_ars G) = gh_taken G g @ rest"
    "\<exists>ts q. weaves ax_last (map (rd_target dec) (filter (\<lambda>a. ar_id a = k) (gh_ars G)))
       (\<lambda>g. filter (\<lambda>r. ax_id r = k) (gh_given G g)) (filter (\<lambda>r. ax_id r = k) (gh_rs G)) ts q"
proof -
  from assms obtain acc where v: "gh_ars G = acc @ fifo_list (xd_ar_fifo d) @ itf_list (xd_host_ar_slv d)"
    "\<forall>g<xd_gst_num d. gh_taken G g @ itf_list (xd_gst_ar_msts d ! g) = filter (\<lambda>a. rd_target dec a = g) acc"
    "\<forall>k. rd_order dec d G acc k" unfolding rd_inv_def by blast
  show "\<forall>g<xd_gst_num d. \<exists>rest. filter (\<lambda>a. rd_target dec a = g) (gh_ars G) = gh_taken G g @ rest"
    using v(1,2) by (metis append.assoc filter_append)
  from weaves_prefix [OF v(3) [rule_format, of k, unfolded rd_order_def], of "filter (\<lambda>r. ax_id r = k) (gh_rs G)"] obtain ts q where
    "weaves ax_last (map (rd_target dec) (filter (\<lambda>a. ar_id a = k) acc)) (\<lambda>g. filter (\<lambda>r. ax_id r = k) (gh_given G g))
      (filter (\<lambda>r. ax_id r = k) (gh_rs G)) ts q" by auto
  from weaves_more_targets [OF this] v(1) show "\<exists>ts q. weaves ax_last (map (rd_target dec) (filter (\<lambda>a. ar_id a = k) (gh_ars G)))
      (\<lambda>g. filter (\<lambda>r. ax_id r = k) (gh_given G g)) (filter (\<lambda>r. ax_id r = k) (gh_rs G)) ts q" by auto
qed

end
