(* ===== verification/AxiDemuxWr.thy ===== *)
theory AxiDemuxWr
  imports AxiDemuxRd OstSlots
begin

text \<open>
  The write channels of the AXI4 demultiplexer: writes to mapped addresses reach the guest of their window in order, each
  with its own data beats, and the answers under one identifier come back in the order of the writes.
\<close>

section \<open>Invariant\<close>

definition wr_tgts :: "axi_demux_wr_rsp_ctx ostk \<Rightarrow> u8 \<Rightarrow> nat list" where
  "wr_tgts ost k = map db_gst_idx (ostk_queue ost (ucast k))"

lemma wr_tgts_upd:
  "ostk_queue ost' = (ostk_queue ost)(ucast k := cs) \<Longrightarrow> wr_tgts ost' = (wr_tgts ost)(k := map db_gst_idx cs)"
  by (auto simp: wr_tgts_def fun_eq_iff ucast_u8_inj)

record wr_ghost =
  gw_aws :: "axi4_aw list"
  gw_taken :: "nat \<Rightarrow> axi4_aw list"
  gw_held :: "nat \<Rightarrow> u8 \<Rightarrow> nat"
  gw_given :: "nat \<Rightarrow> axi4_b list"
  gw_bs :: "axi4_b list"
  gw_ws :: "axi4_w list"
  gw_wtaken :: "nat \<Rightarrow> axi4_w list"

text \<open>With mapped addresses only, no entry of the tables is a decode error.\<close>

definition no_decerr :: "axi_demux_wr_rsp_ctx ostk \<Rightarrow> bool" where
  "no_decerr ost \<longleftrightarrow> (\<forall>key. \<forall>c\<in>set (ostk_queue ost key). \<not> db_decerr c)"

definition wr_ports :: "axi_demux \<Rightarrow> bool" where
  "wr_ports d \<longleftrightarrow> 0 < xd_gst_num d \<and> length (xd_gst_aw_msts d) = xd_gst_num d \<and> length (xd_gst_w_msts d) = xd_gst_num d
     \<and> length (xd_gst_b_slvs d) = xd_gst_num d
     \<and> itf_inv (xd_host_aw_slv d) \<and> itf_inv (xd_host_w_slv d) \<and> itf_inv (xd_host_b_mst d) \<and> fifo_inv (xd_aw_fifo d) \<and> fifo_inv (xd_w_fifo d)
     \<and> (\<forall>g<xd_gst_num d. itf_inv (xd_gst_aw_msts d ! g) \<and> itf_inv (xd_gst_w_msts d ! g) \<and> itf_inv (xd_gst_b_slvs d ! g))
     \<and> ostk_inv (xd_wr_rsp_ost d) \<and> no_decerr (xd_wr_rsp_ost d)
     \<and> ostq_inv (xd_wr_data_ost d) \<and> (\<forall>c\<in>set (ostq_live (xd_wr_data_ost d)). \<not> dd_decerr c \<and> dd_gst_idx c < xd_gst_num d)"

definition wr_target :: "(u32 \<Rightarrow> nat option) \<Rightarrow> axi4_aw \<Rightarrow> nat" where
  "wr_target dec a = the (dec (aw_addr a))"

definition wr_order :: "(u32 \<Rightarrow> nat option) \<Rightarrow> axi_demux \<Rightarrow> wr_ghost \<Rightarrow> axi4_aw list \<Rightarrow> u8 \<Rightarrow> bool" where
  "wr_order dec d G acc k \<longleftrightarrow> weaves (\<lambda>_. True) (map (wr_target dec) (filter (\<lambda>a. aw_id a = k) acc))
     (\<lambda>g. filter (\<lambda>b. ab_id b = k) (gw_given G g)) (filter (\<lambda>b. ab_id b = k) (gw_bs G @ itf_list (xd_host_b_mst d)))
     (wr_tgts (xd_wr_rsp_ost d) k) (pend (xd_gst_b_slvs d) (\<lambda>b. ab_id b = k))"

definition wd_order :: "(u32 \<Rightarrow> nat option) \<Rightarrow> axi_demux \<Rightarrow> wr_ghost \<Rightarrow> axi4_aw list \<Rightarrow> axi4_w list \<Rightarrow> (nat \<Rightarrow> axi4_w list) \<Rightarrow> bool" where
  "wd_order dec d G acc used outs \<longleftrightarrow> gw_ws G = used @ fifo_list (xd_w_fifo d) @ itf_list (xd_host_w_slv d)
     \<and> deals aw_last (map (wr_target dec) acc) used outs (map dd_gst_idx (ostq_live (xd_wr_data_ost d)))
     \<and> (\<forall>g<xd_gst_num d. gw_wtaken G g @ itf_list (xd_gst_w_msts d ! g) = outs g)"

definition wr_balance :: "axi_demux \<Rightarrow> wr_ghost \<Rightarrow> nat \<Rightarrow> u8 \<Rightarrow> bool" where
  "wr_balance d G g k \<longleftrightarrow>
     count_list (wr_tgts (xd_wr_rsp_ost d) k) g = length (filter (\<lambda>a. aw_id a = k) (itf_list (xd_gst_aw_msts d ! g))) + gw_held G g k
       + length (filter (\<lambda>b. ab_id b = k) (itf_list (xd_gst_b_slvs d ! g)))"

definition wr_inv :: "(u32 \<Rightarrow> nat option) \<Rightarrow> axi_demux \<Rightarrow> wr_ghost \<Rightarrow> bool" where
  "wr_inv dec d G \<longleftrightarrow> wr_ports d \<and> axi_demux_decode d = dec \<and> (\<forall>a\<in>set (gw_aws G). dec (aw_addr a) \<noteq> None)
     \<and> (\<exists>acc used outs. gw_aws G = acc @ fifo_list (xd_aw_fifo d) @ itf_list (xd_host_aw_slv d)
          \<and> (\<forall>g<xd_gst_num d. gw_taken G g @ itf_list (xd_gst_aw_msts d ! g) = filter (\<lambda>a. wr_target dec a = g) acc)
          \<and> (\<forall>k. wr_order dec d G acc k) \<and> wd_order dec d G acc used outs)
     \<and> (\<forall>g<xd_gst_num d. \<forall>k. wr_balance d G g k)"

lemma wr_invD:
  assumes "wr_inv dec d G"
  obtains acc used outs where "wr_ports d" "axi_demux_decode d = dec" "\<forall>a\<in>set (gw_aws G). dec (aw_addr a) \<noteq> None"
    "gw_aws G = acc @ fifo_list (xd_aw_fifo d) @ itf_list (xd_host_aw_slv d)"
    "\<forall>g<xd_gst_num d. gw_taken G g @ itf_list (xd_gst_aw_msts d ! g) = filter (\<lambda>a. wr_target dec a = g) acc"
    "\<forall>k. wr_order dec d G acc k" "wd_order dec d G acc used outs" "\<forall>g<xd_gst_num d. \<forall>k. wr_balance d G g k"
  using assms unfolding wr_inv_def by blast

lemma wr_invI:
  assumes "wr_ports d" "axi_demux_decode d = dec" "\<forall>a\<in>set (gw_aws G). dec (aw_addr a) \<noteq> None"
    "gw_aws G = acc @ fifo_list (xd_aw_fifo d) @ itf_list (xd_host_aw_slv d)"
    "\<forall>g<xd_gst_num d. gw_taken G g @ itf_list (xd_gst_aw_msts d ! g) = filter (\<lambda>a. wr_target dec a = g) acc"
    "\<forall>k. wr_order dec d G acc k" "wd_order dec d G acc used outs" "\<forall>g<xd_gst_num d. \<forall>k. wr_balance d G g k"
  shows "wr_inv dec d G"
  using assms unfolding wr_inv_def by blast

lemma wr_inv_cong: "wr_part d' = wr_part d \<Longrightarrow> wr_inv dec d' G = wr_inv dec d G"
  by (simp add: wr_part_def wr_inv_def wr_ports_def wr_order_def wd_order_def wr_balance_def)

section \<open>The steps of a tick\<close>

lemma wr_capture_aw_ok:
  assumes "wr_inv dec d G"
  shows "\<exists>d'. axi_demux_capture_aw d = Some d' \<and> wr_inv dec d' G \<and> rd_part d' = rd_part d \<and> xd_wr_rsp_ost d' = xd_wr_rsp_ost d"
proof (cases "fifo_full (xd_aw_fifo d)")
  case True
  let ?d = "if \<not> itf_fifo_empty (xd_host_aw_slv d) then d\<lparr>xd_perf_stg_aw_full := xd_perf_stg_aw_full d + 1\<rparr> else d"
  have "axi_demux_capture_aw d = Some ?d" using True by (simp add: axi_demux_capture_aw_def)
  moreover have "rd_part ?d = rd_part d" "wr_part ?d = wr_part d" "xd_wr_rsp_ost ?d = xd_wr_rsp_ost d"
    by (simp_all add: rd_part_def wr_part_def)
  ultimately show ?thesis using wr_inv_cong [of ?d d] assms by blast
next
  case nf: False
  have i: "itf_inv (xd_host_aw_slv d)" "fifo_inv (xd_aw_fifo d)" using assms by (simp_all add: wr_inv_def wr_ports_def)
  show ?thesis
  proof (cases "itf_fifo_empty (xd_host_aw_slv d)")
    case True
    with nf assms show ?thesis by (simp add: axi_demux_capture_aw_def)
  next
    case False
    from itf.pop_not_empty [OF i(1) False] obtain aw t where
      t: "itf_read (xd_host_aw_slv d) = Some (aw, t)" "itf_inv t" "itf_list (xd_host_aw_slv d) = aw # itf_list t" by metis
    from fifo.push_ok [OF i(2) nf] obtain f where
      f: "fifo_push (xd_aw_fifo d) aw = Some f" "fifo_inv f" "fifo_list f = fifo_list (xd_aw_fifo d) @ [aw]" by metis
    define d' where "d' = d\<lparr>xd_host_aw_slv := t, xd_aw_fifo := f\<rparr>"
    have "axi_demux_capture_aw d = Some d'" using nf False t f by (simp add: axi_demux_capture_aw_def d'_def)
    moreover have "wr_inv dec d' G"
      using assms t(2,3) f(2,3) by (simp add: wr_inv_def wr_ports_def wr_order_def wd_order_def wr_balance_def d'_def)
    moreover have "rd_part d' = rd_part d" "xd_wr_rsp_ost d' = xd_wr_rsp_ost d" by (simp_all add: rd_part_def d'_def)
    ultimately show ?thesis by blast
  qed
qed

lemma wr_capture_w_ok:
  assumes "wr_inv dec d G"
  shows "\<exists>d'. axi_demux_capture_w d = Some d' \<and> wr_inv dec d' G \<and> rd_part d' = rd_part d \<and> xd_wr_rsp_ost d' = xd_wr_rsp_ost d"
proof (cases "fifo_full (xd_w_fifo d)")
  case True
  let ?d = "if \<not> itf_fifo_empty (xd_host_w_slv d) then d\<lparr>xd_perf_stg_w_full := xd_perf_stg_w_full d + 1\<rparr> else d"
  have "axi_demux_capture_w d = Some ?d" using True by (simp add: axi_demux_capture_w_def)
  moreover have "rd_part ?d = rd_part d" "wr_part ?d = wr_part d" "xd_wr_rsp_ost ?d = xd_wr_rsp_ost d"
    by (simp_all add: rd_part_def wr_part_def)
  ultimately show ?thesis using wr_inv_cong [of ?d d] assms by blast
next
  case nf: False
  have i: "itf_inv (xd_host_w_slv d)" "fifo_inv (xd_w_fifo d)" using assms by (simp_all add: wr_inv_def wr_ports_def)
  show ?thesis
  proof (cases "itf_fifo_empty (xd_host_w_slv d)")
    case True
    with nf assms show ?thesis by (simp add: axi_demux_capture_w_def)
  next
    case False
    from itf.pop_not_empty [OF i(1) False] obtain w t where
      t: "itf_read (xd_host_w_slv d) = Some (w, t)" "itf_inv t" "itf_list (xd_host_w_slv d) = w # itf_list t" by metis
    from fifo.push_ok [OF i(2) nf] obtain f where
      f: "fifo_push (xd_w_fifo d) w = Some f" "fifo_inv f" "fifo_list f = fifo_list (xd_w_fifo d) @ [w]" by metis
    define d' where "d' = d\<lparr>xd_host_w_slv := t, xd_w_fifo := f\<rparr>"
    have "axi_demux_capture_w d = Some d'" using nf False t f by (simp add: axi_demux_capture_w_def d'_def)
    moreover have "wr_inv dec d' G"
      using assms t(2,3) f(2,3) by (simp add: wr_inv_def wr_ports_def wr_order_def wd_order_def wr_balance_def d'_def)
    moreover have "rd_part d' = rd_part d" "xd_wr_rsp_ost d' = xd_wr_rsp_ost d" by (simp_all add: rd_part_def d'_def)
    ultimately show ?thesis by blast
  qed
qed

lemma decerr_loop_none:
  assumes inv: "ostk_inv (xd_wr_rsp_ost d)" and no: "no_decerr (xd_wr_rsp_ost d)"
  shows "\<forall>i\<in>set js. i < k_depth (xd_wr_rsp_ost d) \<Longrightarrow> axi_demux_decerr_loop js d best = Some best"
proof (induction js arbitrary: best)
  case (Cons i js)
  let ?ost = "xd_wr_rsp_ost d" and ?e = "k_entries (xd_wr_rsp_ost d) ! i"
  have i: "i < k_depth ?ost" "i < length (k_entries ?ost)" using Cons.prems inv by (simp_all add: ostk_inv_def)
  have IH: "axi_demux_decerr_loop js d best = Some best" using Cons by simp
  show ?case
  proof (cases "ke_vld ?e \<and> \<not> ke_free_pending ?e")
    case True
    then obtain c where c: "ke_ctx ?e = Some c" using inv i by (auto simp: ostk_inv_def)
    have "i \<in> live_slots ?ost (ke_key ?e)" using True i by (simp add: live_slots_def ke_live_def)
    then have "c \<in> set (ostk_queue ?ost (ke_key ?e))" using c by (force simp: ostk_queue_def)
    with no have "\<not> db_decerr c" by (auto simp: no_decerr_def)
    with True c i IH show ?thesis by simp
  qed (use i IH in auto)
qed simp

lemma find_decerr_none:
  "ostk_inv (xd_wr_rsp_ost d) \<Longrightarrow> no_decerr (xd_wr_rsp_ost d) \<Longrightarrow> axi_demux_find_ready_decerr_b d = Some None"
  using decerr_loop_none [of d "[0..<k_depth (xd_wr_rsp_ost d)]" None] by (simp add: axi_demux_find_ready_decerr_b_def)

lemma wr_front_known:
  assumes "wr_inv dec d G" "g < xd_gst_num d" "itf_list (xd_gst_b_slvs d ! g) = b # bs"
  shows "wr_tgts (xd_wr_rsp_ost d) (ab_id b) \<noteq> []"
proof -
  have "wr_balance d G g (ab_id b)" using assms(1,2) by (simp add: wr_inv_def)
  then have "0 < count_list (wr_tgts (xd_wr_rsp_ost d) (ab_id b)) g" using assms(3) by (simp add: wr_balance_def)
  then show ?thesis by auto
qed

lemma b_loop_cases:
  assumes ports: "wr_ports d" and room: "\<not> itf_fifo_full (xd_host_b_mst d)"
    and known: "\<forall>g<xd_gst_num d. \<forall>b bs. itf_list (xd_gst_b_slvs d ! g) = b # bs \<longrightarrow> wr_tgts (xd_wr_rsp_ost d) (ab_id b) \<noteq> []"
  shows "axi_demux_b_loop js d = Some d \<or>
    (\<exists>g b bs gs t u ost x. g < xd_gst_num d \<and> itf_list (xd_gst_b_slvs d ! g) = b # bs \<and> wr_tgts (xd_wr_rsp_ost d) (ab_id b) = g # gs
      \<and> axi_demux_b_loop js d = Some (d\<lparr>xd_gst_b_slvs := (xd_gst_b_slvs d)[g := t], xd_host_b_mst := u, xd_wr_rsp_ost := ost, xd_wr_rsp_rr_idx := x\<rparr>)
      \<and> itf_inv t \<and> itf_list t = bs \<and> itf_inv u \<and> itf_list u = itf_list (xd_host_b_mst d) @ [b] \<and> ostk_inv ost \<and> no_decerr ost
      \<and> wr_tgts ost = (wr_tgts (xd_wr_rsp_ost d))(ab_id b := gs) \<and> k_next_issue_seq ost = k_next_issue_seq (xd_wr_rsp_ost d))"
proof (induction js)
  case (Cons i js)
  define g where "g = (xd_wr_rsp_rr_idx d + i) mod xd_gst_num d"
  have g: "g < xd_gst_num d" "g < length (xd_gst_b_slvs d)" using ports by (simp_all add: g_def wr_ports_def)
  have inv: "itf_inv (xd_gst_b_slvs d ! g)" "ostk_inv (xd_wr_rsp_ost d)" "itf_inv (xd_host_b_mst d)" "no_decerr (xd_wr_rsp_ost d)"
    using ports g by (simp_all add: wr_ports_def)
  show ?case
  proof (cases "itf_list (xd_gst_b_slvs d ! g)")
    case Nil
    then have "axi_demux_b_loop (i # js) d = axi_demux_b_loop js d" using g inv by (simp add: g_def [symmetric] itf.is_empty_iff)
    with Cons.IH show ?thesis by simp
  next
    case (Cons b bs)
    let ?t = "xd_gst_b_slvs d ! g" and ?k = "ab_id b"
    note ne = holds_Cons [of ?t b bs, unfolded itf_holds_def, OF conjI [OF inv(1) Cons]]
    from known [rule_format, OF g(1) Cons] obtain c cs where q: "ostk_queue (xd_wr_rsp_ost d) (ucast ?k) = c # cs"
      by (cases "ostk_queue (xd_wr_rsp_ost d) (ucast ?k)") (auto simp: wr_tgts_def)
    have nd: "\<not> db_decerr c" using inv(4) q by (metis list.set_intros(1) no_decerr_def)
    from ostk_take_head [OF inv(2) q] obtain slot ost where
      tk: "ostk_peek_key (xd_wr_rsp_ost d) (ucast ?k) = Some (Some (slot, c))" "ostk_free_slot (xd_wr_rsp_ost d) slot = Some ost" "ostk_inv ost"
      "ostk_queue ost = (ostk_queue (xd_wr_rsp_ost d))(ucast ?k := cs)" "k_next_issue_seq ost = k_next_issue_seq (xd_wr_rsp_ost d)" by blast
    show ?thesis
    proof (cases "db_gst_idx c = g")
      case False
      then have "axi_demux_b_loop (i # js) d = axi_demux_b_loop js d"
        using g ne(1,2) tk(1) by (simp add: g_def [symmetric])
      with Cons.IH show ?thesis by simp
    next
      case True
      from ne(3) obtain t where t: "itf_fifo_pop_front ?t = Some t" "itf_inv t" "itf_list t = bs" by blast
      from itf.push_ok [OF inv(3) room, of b] obtain u where
        u: "itf_write (xd_host_b_mst d) b = Some u" "itf_inv u" "itf_list u = itf_list (xd_host_b_mst d) @ [b]" by blast
      have step: "axi_demux_b_loop (i # js) d = Some (d\<lparr>xd_gst_b_slvs := (xd_gst_b_slvs d)[g := t], xd_host_b_mst := u, xd_wr_rsp_ost := ost,
          xd_wr_rsp_rr_idx := (g + 1) mod xd_gst_num d\<rparr>)"
        using g ne(1,2) tk(1,2) True nd t(1) u(1) by (simp add: g_def [symmetric])
      have tg: "wr_tgts (xd_wr_rsp_ost d) ?k = g # map db_gst_idx cs" using q True by (simp add: wr_tgts_def)
      have "no_decerr ost" using inv(4) tk(4) q unfolding no_decerr_def by (metis fun_upd_apply list.set_intros(2))
      then show ?thesis using step g(1) Cons tg t(2,3) u(2,3) tk(3,5) wr_tgts_upd [OF tk(4)] by blast
    qed
  qed
qed simp

lemma wr_deliver:
  assumes inv: "wr_inv dec d G" and g: "g < xd_gst_num d" and b: "itf_list (xd_gst_b_slvs d ! g) = b # bs"
    and tg: "wr_tgts (xd_wr_rsp_ost d) (ab_id b) = g # gs"
    and t: "itf_inv t" "itf_list t = bs" and u: "itf_inv u" "itf_list u = itf_list (xd_host_b_mst d) @ [b]" and o: "ostk_inv ost" "no_decerr ost"
    and tg': "wr_tgts ost = (wr_tgts (xd_wr_rsp_ost d))(ab_id b := gs)"
  shows "wr_inv dec (d\<lparr>xd_gst_b_slvs := (xd_gst_b_slvs d)[g := t], xd_host_b_mst := u, xd_wr_rsp_ost := ost, xd_wr_rsp_rr_idx := x\<rparr>) G"
proof -
  from inv obtain acc used outs where v: "wr_ports d" "axi_demux_decode d = dec" "\<forall>a\<in>set (gw_aws G). dec (aw_addr a) \<noteq> None"
    "gw_aws G = acc @ fifo_list (xd_aw_fifo d) @ itf_list (xd_host_aw_slv d)"
    "\<forall>g<xd_gst_num d. gw_taken G g @ itf_list (xd_gst_aw_msts d ! g) = filter (\<lambda>a. wr_target dec a = g) acc"
    "\<forall>k. wr_order dec d G acc k" "wd_order dec d G acc used outs" "\<forall>g<xd_gst_num d. \<forall>k. wr_balance d G g k" by (rule wr_invD)
  define d' where "d' = d\<lparr>xd_gst_b_slvs := (xd_gst_b_slvs d)[g := t], xd_host_b_mst := u, xd_wr_rsp_ost := ost, xd_wr_rsp_rr_idx := x\<rparr>"
  have len: "g < length (xd_gst_b_slvs d)" using v(1) g by (simp add: wr_ports_def)
  have "\<forall>h<xd_gst_num d. itf_inv ((xd_gst_b_slvs d)[g := t] ! h)"
    by (rule nth_upd_all) (use v(1) t(1) in \<open>simp_all add: wr_ports_def\<close>)
  then have ports: "wr_ports d'" using v(1) u(1) o by (simp add: wr_ports_def d'_def)
  have order: "wr_order dec d' G acc k" for k
  proof (cases "k = ab_id b")
    case False
    then have "pend ((xd_gst_b_slvs d)[g := t]) (\<lambda>b. ab_id b = k) = pend (xd_gst_b_slvs d) (\<lambda>b. ab_id b = k)"
      using pend_same [OF len, of "\<lambda>b. ab_id b = k" t] t(2) b by simp
    with False v(6) [rule_format, of k] show ?thesis by (simp add: wr_order_def d'_def u(2) tg')
  next
    case True
    let ?q = "pend (xd_gst_b_slvs d) (\<lambda>b. ab_id b = k)"
    have q: "?q g = b # filter (\<lambda>b. ab_id b = k) bs" using len b True by (simp add: pend_def)
    have "weaves (\<lambda>_. True) (map (wr_target dec) (filter (\<lambda>a. aw_id a = k) acc)) (\<lambda>g. filter (\<lambda>b. ab_id b = k) (gw_given G g))
        (filter (\<lambda>b. ab_id b = k) (gw_bs G @ itf_list (xd_host_b_mst d))) (g # gs) ?q"
      using v(6) [rule_format, of k] tg True by (simp add: wr_order_def)
    from weaves_beat [OF this q] show ?thesis
      using tg' True u(2) pend_update [OF len, of t "\<lambda>b. ab_id b = k"] t(2) by (simp add: wr_order_def d'_def)
  qed
  have bal: "wr_balance d' G h k" if h: "h < xd_gst_num d" for h k
    using v(8) [rule_format, OF h, of k] tg' tg t(2) b len by (auto simp: wr_balance_def d'_def nth_list_update)
  have "wr_inv dec d' G"
    by (rule wr_invI [of d' dec G acc used outs]) (use ports order bal v(2-5,7) in \<open>simp_all add: d'_def wd_order_def\<close>)
  then show ?thesis by (simp add: d'_def)
qed

lemma wr_proc_b_ok:
  assumes inv: "wr_inv dec d G"
  shows "\<exists>d'. axi_demux_proc_b d = Some d' \<and> wr_inv dec d' G \<and> rd_part d' = rd_part d
    \<and> k_next_issue_seq (xd_wr_rsp_ost d') = k_next_issue_seq (xd_wr_rsp_ost d)"
proof (cases "itf_fifo_full (xd_host_b_mst d)")
  case True
  with inv show ?thesis by (simp add: axi_demux_proc_b_def)
next
  case False
  have p: "wr_ports d" using inv by (simp add: wr_inv_def)
  then have "axi_demux_find_ready_decerr_b d = Some None" by (intro find_decerr_none) (simp_all add: wr_ports_def)
  then have step: "axi_demux_proc_b d = axi_demux_b_loop [0..<xd_gst_num d] d" using False by (simp add: axi_demux_proc_b_def)
  have known: "\<forall>g<xd_gst_num d. \<forall>b bs. itf_list (xd_gst_b_slvs d ! g) = b # bs \<longrightarrow> wr_tgts (xd_wr_rsp_ost d) (ab_id b) \<noteq> []"
    using wr_front_known [OF inv] by blast
  from b_loop_cases [OF p False known, where js = "[0..<xd_gst_num d]"] show ?thesis
  proof (elim disjE exE conjE)
    assume "axi_demux_b_loop [0..<xd_gst_num d] d = Some d"
    with step inv show ?thesis by simp
  next
    fix g b bs gs t u ost x
    assume a: "g < xd_gst_num d" "itf_list (xd_gst_b_slvs d ! g) = b # bs" "wr_tgts (xd_wr_rsp_ost d) (ab_id b) = g # gs"
      "axi_demux_b_loop [0..<xd_gst_num d] d = Some (d\<lparr>xd_gst_b_slvs := (xd_gst_b_slvs d)[g := t], xd_host_b_mst := u, xd_wr_rsp_ost := ost, xd_wr_rsp_rr_idx := x\<rparr>)"
      "itf_inv t" "itf_list t = bs" "itf_inv u" "itf_list u = itf_list (xd_host_b_mst d) @ [b]" "ostk_inv ost" "no_decerr ost"
      "wr_tgts ost = (wr_tgts (xd_wr_rsp_ost d))(ab_id b := gs)" "k_next_issue_seq ost = k_next_issue_seq (xd_wr_rsp_ost d)"
    from wr_deliver [OF inv a(1-3) a(5-11), of x] step a(4,12) show ?thesis by (simp add: rd_part_def)
  qed
qed

lemma wr_proc_w_ok:
  assumes inv: "wr_inv dec d G"
  shows "\<exists>d'. axi_demux_proc_w d = Some d' \<and> wr_inv dec d' G \<and> rd_part d' = rd_part d \<and> xd_wr_rsp_ost d' = xd_wr_rsp_ost d"
proof -
  from inv obtain acc used outs where v: "wr_ports d" "axi_demux_decode d = dec" "\<forall>a\<in>set (gw_aws G). dec (aw_addr a) \<noteq> None"
    "gw_aws G = acc @ fifo_list (xd_aw_fifo d) @ itf_list (xd_host_aw_slv d)"
    "\<forall>g<xd_gst_num d. gw_taken G g @ itf_list (xd_gst_aw_msts d ! g) = filter (\<lambda>a. wr_target dec a = g) acc"
    "\<forall>k. wr_order dec d G acc k" "wd_order dec d G acc used outs" "\<forall>g<xd_gst_num d. \<forall>k. wr_balance d G g k" by (rule wr_invD)
  let ?q = "xd_wr_data_ost d"
  have i: "fifo_inv (xd_w_fifo d)" "ostq_inv ?q" using v(1) by (simp_all add: wr_ports_def)
  show ?thesis
  proof (cases "fifo_list (xd_w_fifo d) = [] \<or> ostq_head_freed ?q \<or> ostq_live ?q = []")
    case True
    then have "axi_demux_proc_w d = Some d" using i ostq_peek_live [OF i(2)] by (auto simp: axi_demux_proc_w_def fifo.is_empty_iff)
    with inv show ?thesis by simp
  next
    case False
    then obtain w ws c cs where w: "fifo_list (xd_w_fifo d) = w # ws" and c: "ostq_live ?q = c # cs"
      by (cases "fifo_list (xd_w_fifo d)"; cases "ostq_live ?q") auto
    have pk: "ostq_peek_head ?q = Some (Some (q_rptr ?q, c))" using ostq_peek_live [OF i(2)] False c by simp
    have ctx: "\<not> dd_decerr c" "dd_gst_idx c < xd_gst_num d" using v(1) c by (simp_all add: wr_ports_def)
    let ?g = "dd_gst_idx c"
    have len: "?g < length (xd_gst_w_msts d)" "itf_inv (xd_gst_w_msts d ! ?g)" using v(1) ctx(2) by (simp_all add: wr_ports_def)
    have ne: "\<not> fifo_empty (xd_w_fifo d)" using w i(1) by (simp add: fifo.is_empty_iff)
    note front = fifo.front_Cons [OF i(1) w]
    show ?thesis
    proof (cases "itf_fifo_full (xd_gst_w_msts d ! ?g)")
      case True
      then have "axi_demux_proc_w d = Some d" using ne pk front ctx len by (simp add: axi_demux_proc_w_def)
      with inv show ?thesis by simp
    next
      case room: False
      from fifo.pop_Cons [OF i(1) w] obtain f where f: "fifo_pop (xd_w_fifo d) = Some (w, f)" "fifo_inv f" "fifo_list f = ws" by blast
      from itf.push_ok [OF len(2) room, of w] obtain t where
        t: "itf_write (xd_gst_w_msts d ! ?g) w = Some t" "itf_inv t" "itf_list t = itf_list (xd_gst_w_msts d ! ?g) @ [w]" by blast
      from ostq_free_live [OF i(2)] False obtain q1 where q1: "ostq_free_head ?q = Some q1" "ostq_inv q1" "ostq_live q1 = tl (ostq_live ?q)" by blast
      define q' where "q' = (if aw_last w then q1 else ?q)"
      define d' where "d' = d\<lparr>xd_w_fifo := f, xd_gst_w_msts := (xd_gst_w_msts d)[?g := t], xd_wr_data_ost := q'\<rparr>"
      have step: "axi_demux_proc_w d = Some d'"
        using ne pk front ctx len(1) room f(1) t(1) q1(1) by (simp add: axi_demux_proc_w_def d'_def q'_def)
      have q': "ostq_inv q'" "ostq_live q' = (if aw_last w then cs else c # cs)" using q1(2,3) i(2) c by (simp_all add: q'_def)
      have sub: "set (ostq_live q') \<subseteq> set (ostq_live ?q)" using q'(2) c by auto
      have "\<forall>h<xd_gst_num d. itf_inv ((xd_gst_w_msts d)[?g := t] ! h)"
        by (rule nth_upd_all) (use v(1) t(2) in \<open>simp_all add: wr_ports_def\<close>)
      then have ports: "wr_ports d'" using v(1) f(2) q'(1) sub by (auto simp: wr_ports_def d'_def)
      have "deals aw_last (map (wr_target dec) acc) used outs (?g # map dd_gst_idx cs)" using v(7) c by (simp add: wd_order_def)
      from deals_beat [OF this, of w] have dl: "deals aw_last (map (wr_target dec) acc) (used @ [w]) (outs(?g := outs ?g @ [w])) (map dd_gst_idx (ostq_live q'))"
        using q'(2) by (simp split: if_splits)
      have "gw_wtaken G h @ itf_list ((xd_gst_w_msts d)[?g := t] ! h) = (outs(?g := outs ?g @ [w])) h" if h: "h < xd_gst_num d" for h
      proof -
        have e: "gw_wtaken G h @ itf_list (xd_gst_w_msts d ! h) = outs h" using v(7) h by (simp add: wd_order_def)
        show ?thesis using e t(3) len(1) by (cases "h = ?g") (simp_all add: append_assoc [symmetric] del: append_assoc)
      qed
      with dl v(7) f(3) w have wd: "wd_order dec d' G acc (used @ [w]) (outs(?g := outs ?g @ [w]))"
        by (simp add: wd_order_def d'_def)
      have "wr_inv dec d' G"
        by (rule wr_invI [of d' dec G acc "used @ [w]" "outs(?g := outs ?g @ [w])"])
          (use ports wd v(2-6,8) in \<open>simp_all add: d'_def wr_order_def wr_balance_def\<close>)
      with step show ?thesis by (simp add: d'_def rd_part_def)
    qed
  qed
qed

lemma wr_proc_aw_ok:
  assumes inv: "wr_inv dec d G" and seq: "unat (k_next_issue_seq (xd_wr_rsp_ost d)) < 2 ^ 64 - 1"
  shows "\<exists>d'. axi_demux_proc_aw d = Some d' \<and> wr_inv dec d' G \<and> rd_part d' = rd_part d
    \<and> unat (k_next_issue_seq (xd_wr_rsp_ost d')) \<le> unat (k_next_issue_seq (xd_wr_rsp_ost d)) + 1"
proof -
  from inv obtain acc used outs where v: "wr_ports d" "axi_demux_decode d = dec" "\<forall>a\<in>set (gw_aws G). dec (aw_addr a) \<noteq> None"
    "gw_aws G = acc @ fifo_list (xd_aw_fifo d) @ itf_list (xd_host_aw_slv d)"
    "\<forall>g<xd_gst_num d. gw_taken G g @ itf_list (xd_gst_aw_msts d ! g) = filter (\<lambda>a. wr_target dec a = g) acc"
    "\<forall>k. wr_order dec d G acc k" "wd_order dec d G acc used outs" "\<forall>g<xd_gst_num d. \<forall>k. wr_balance d G g k" by (rule wr_invD)
  have i: "fifo_inv (xd_aw_fifo d)" "ostk_inv (xd_wr_rsp_ost d)" "ostq_inv (xd_wr_data_ost d)" using v(1) by (simp_all add: wr_ports_def)
  show ?thesis
  proof (cases "fifo_list (xd_aw_fifo d) = [] \<or> ostq_full (xd_wr_data_ost d) \<or> ostk_full (xd_wr_rsp_ost d)")
    case True
    then have "axi_demux_proc_aw d = Some d" using i(1) by (auto simp: axi_demux_proc_aw_def fifo.is_empty_iff)
    with inv show ?thesis by simp
  next
    case nf: False
    then obtain aw aws where a: "fifo_list (xd_aw_fifo d) = aw # aws" by (cases "fifo_list (xd_aw_fifo d)") auto
    note front = fifo.front_Cons [OF i(1) a]
    have ne: "\<not> fifo_empty (xd_aw_fifo d)" using a i(1) by (simp add: fifo.is_empty_iff)
    have "aw \<in> set (gw_aws G)" using v(4) a by simp
    with v(3) obtain g where g: "dec (aw_addr aw) = Some g" by auto
    then have glt: "g < xd_gst_num d" using v(2) find_SomeD [of _ "[0..<xd_gst_num d]" g] by (auto simp: axi_demux_decode_def)
    have len: "g < length (xd_gst_aw_msts d)" "itf_inv (xd_gst_aw_msts d ! g)" using v(1) glt by (simp_all add: wr_ports_def)
    show ?thesis
    proof (cases "itf_fifo_full (xd_gst_aw_msts d ! g)")
      case True
      then have "axi_demux_proc_aw d = Some d" using ne nf front g v(2) len by (simp add: axi_demux_proc_aw_def)
      with inv show ?thesis by simp
    next
      case room: False
      from fifo.pop_Cons [OF i(1) a] obtain f where f: "fifo_pop (xd_aw_fifo d) = Some (aw, f)" "fifo_inv f" "fifo_list f = aws" by blast
      from itf.push_ok [OF len(2) room, of aw] obtain t where
        t: "itf_write (xd_gst_aw_msts d ! g) aw = Some t" "itf_inv t" "itf_list t = itf_list (xd_gst_aw_msts d ! g) @ [aw]" by blast
      let ?c = "\<lparr>db_gst_idx = g, db_decerr = False, db_decerr_valid = False\<rparr>" and ?k = "ucast (aw_id aw) :: u32"
      from ostk_alloc_ok [OF i(2) _ seq, of ?k ?c] nf obtain slot ost where
        al: "ostk_alloc (xd_wr_rsp_ost d) ?k ?c = Some (Some (slot, ost))" "ostk_inv ost"
        "ostk_queue ost = (ostk_queue (xd_wr_rsp_ost d))(?k := ostk_queue (xd_wr_rsp_ost d) ?k @ [?c])"
        "unat (k_next_issue_seq ost) = unat (k_next_issue_seq (xd_wr_rsp_ost d)) + 1" by blast
      let ?e = "\<lparr>dd_gst_idx = g, dd_rsp_slot = slot, dd_decerr = False\<rparr>"
      from ostq_alloc_live [OF i(3), of ?e] nf obtain q where
        q: "ostq_alloc (xd_wr_data_ost d) ?e = Some (Some (ostq_slot (xd_wr_data_ost d) (length (ostq_live (xd_wr_data_ost d))), q))" "ostq_inv q"
        "ostq_live q = ostq_live (xd_wr_data_ost d) @ [?e]" by blast
      define d' where "d' = d\<lparr>xd_aw_fifo := f, xd_wr_rsp_ost := ost, xd_wr_data_ost := q, xd_gst_aw_msts := (xd_gst_aw_msts d)[g := t]\<rparr>"
      have step: "axi_demux_proc_aw d = Some d'"
        using ne nf front g v(2) len(1) room f(1) t(1) al(1) q(1) by (simp add: axi_demux_proc_aw_def d'_def)
      have tg: "wr_tgts ost = (wr_tgts (xd_wr_rsp_ost d))(aw_id aw := wr_tgts (xd_wr_rsp_ost d) (aw_id aw) @ [g])"
        using wr_tgts_upd [OF al(3)] by (simp add: wr_tgts_def)
      have "no_decerr ost" using v(1) al(3) by (auto simp: no_decerr_def wr_ports_def split: if_splits)
      moreover have "\<forall>h<xd_gst_num d. itf_inv ((xd_gst_aw_msts d)[g := t] ! h)"
        by (rule nth_upd_all) (use v(1) t(2) in \<open>simp_all add: wr_ports_def\<close>)
      ultimately have ports: "wr_ports d'" using v(1) f(2) al(2) q(2,3) glt by (simp add: wr_ports_def d'_def ball_Un)
      have tar: "wr_target dec aw = g" using g by (simp add: wr_target_def)
      have order: "wr_order dec d' G (acc @ [aw]) k" for k
        using v(6) [rule_format, of k] weaves_more_targets [where us = "[g]"] tg tar by (auto simp: wr_order_def d'_def)
      have wd: "wd_order dec d' G (acc @ [aw]) used outs"
        using v(7) deals_more_targets [of aw_last "map (wr_target dec) acc" used outs _ "[g]"] q(3) tar by (auto simp: wd_order_def d'_def)
      have taken: "gw_taken G h @ itf_list (xd_gst_aw_msts d' ! h) = filter (\<lambda>a. wr_target dec a = h) (acc @ [aw])" if "h < xd_gst_num d" for h
        using v(5) [rule_format, OF that] t(3) len(1) tar by (auto simp: d'_def nth_list_update)
      have bal: "wr_balance d' G h k" if "h < xd_gst_num d" for h k
        using v(8) [rule_format, OF that, of k] tg t(3) len(1) by (auto simp: wr_balance_def d'_def nth_list_update count_list_snoc)
      have "wr_inv dec d' G"
        by (rule wr_invI [of d' dec G "acc @ [aw]" used outs]) (use ports order wd taken bal v(2-4) a f(3) in \<open>simp_all add: d'_def\<close>)
      with step al(4) show ?thesis by (simp add: d'_def rd_part_def)
    qed
  qed
qed

section \<open>What the host and the guests do\<close>

lemma wr_ports_inv: "wr_inv dec d G \<Longrightarrow> itf_inv (xd_host_aw_slv d) \<and> itf_inv (xd_host_w_slv d) \<and> itf_inv (xd_host_b_mst d)
    \<and> (\<forall>g<xd_gst_num d. itf_inv (xd_gst_aw_msts d ! g) \<and> itf_inv (xd_gst_w_msts d ! g) \<and> itf_inv (xd_gst_b_slvs d ! g))
    \<and> length (xd_gst_aw_msts d) = xd_gst_num d \<and> length (xd_gst_w_msts d) = xd_gst_num d \<and> length (xd_gst_b_slvs d) = xd_gst_num d"
  by (simp add: wr_inv_def wr_ports_def)

lemma wr_issue:
  assumes inv: "wr_inv dec d G" and w: "itf_write (xd_host_aw_slv d) a = Some t" and m: "dec (aw_addr a) \<noteq> None"
  shows "wr_inv dec (d\<lparr>xd_host_aw_slv := t\<rparr>) (G\<lparr>gw_aws := gw_aws G @ [a]\<rparr>)"
proof -
  have t: "itf_inv t" "itf_list t = itf_list (xd_host_aw_slv d) @ [a]" using itf.push_SomeD [OF w] wr_ports_inv [OF inv] by simp_all
  with inv m show ?thesis by (simp add: wr_inv_def wr_ports_def wr_order_def wd_order_def wr_balance_def)
qed

lemma wr_send_data:
  assumes inv: "wr_inv dec d G" and w: "itf_write (xd_host_w_slv d) x = Some t"
  shows "wr_inv dec (d\<lparr>xd_host_w_slv := t\<rparr>) (G\<lparr>gw_ws := gw_ws G @ [x]\<rparr>)"
proof -
  have t: "itf_inv t" "itf_list t = itf_list (xd_host_w_slv d) @ [x]" using itf.push_SomeD [OF w] wr_ports_inv [OF inv] by simp_all
  with inv show ?thesis by (simp add: wr_inv_def wr_ports_def wr_order_def wd_order_def wr_balance_def)
qed

lemma wr_receive:
  assumes inv: "wr_inv dec d G" and w: "itf_read (xd_host_b_mst d) = Some (b, t)"
  shows "wr_inv dec (d\<lparr>xd_host_b_mst := t\<rparr>) (G\<lparr>gw_bs := gw_bs G @ [b]\<rparr>)"
proof -
  have t: "itf_inv t" "itf_list (xd_host_b_mst d) = b # itf_list t" using itf.pop_SomeD [OF w] wr_ports_inv [OF inv] by simp_all
  with inv show ?thesis by (simp add: wr_inv_def wr_ports_def wr_order_def wd_order_def wr_balance_def)
qed

lemma wr_take:
  assumes inv: "wr_inv dec d G" and g: "g < xd_gst_num d" and w: "itf_read (xd_gst_aw_msts d ! g) = Some (a, t)"
  shows "wr_inv dec (d\<lparr>xd_gst_aw_msts := (xd_gst_aw_msts d)[g := t]\<rparr>)
    (G\<lparr>gw_taken := (gw_taken G)(g := gw_taken G g @ [a]), gw_held := (gw_held G)(g := (gw_held G g)(aw_id a := gw_held G g (aw_id a) + 1))\<rparr>)"
    (is "wr_inv dec ?d ?G")
proof -
  from inv obtain acc used outs where v: "wr_ports d" "axi_demux_decode d = dec" "\<forall>a\<in>set (gw_aws G). dec (aw_addr a) \<noteq> None"
    "gw_aws G = acc @ fifo_list (xd_aw_fifo d) @ itf_list (xd_host_aw_slv d)"
    "\<forall>g<xd_gst_num d. gw_taken G g @ itf_list (xd_gst_aw_msts d ! g) = filter (\<lambda>a. wr_target dec a = g) acc"
    "\<forall>k. wr_order dec d G acc k" "wd_order dec d G acc used outs" "\<forall>g<xd_gst_num d. \<forall>k. wr_balance d G g k" by (rule wr_invD)
  have t: "itf_inv t" "itf_list (xd_gst_aw_msts d ! g) = a # itf_list t" and len: "g < length (xd_gst_aw_msts d)"
    using itf.pop_SomeD [OF w] wr_ports_inv [OF inv] g by simp_all
  have "\<forall>h<xd_gst_num d. itf_inv ((xd_gst_aw_msts d)[g := t] ! h)"
    by (rule nth_upd_all) (use v(1) t(1) in \<open>simp_all add: wr_ports_def\<close>)
  then have "wr_ports ?d" using v(1) by (simp add: wr_ports_def)
  moreover have "gw_taken ?G h @ itf_list (xd_gst_aw_msts ?d ! h) = filter (\<lambda>a. wr_target dec a = h) acc" if "h < xd_gst_num d" for h
    using v(5) [rule_format, OF that] t(2) len by (cases "h = g") simp_all
  moreover have "wr_order dec ?d ?G acc k" for k using v(6) by (simp add: wr_order_def)
  moreover have "wr_balance ?d ?G h k" if "h < xd_gst_num d" for h k
    using v(8) [rule_format, OF that, of k] t(2) len by (cases "h = g") (auto simp: wr_balance_def)
  ultimately show ?thesis by (intro wr_invI [of ?d dec ?G acc used outs]) (use v(2-4,7) in \<open>simp_all add: wd_order_def\<close>)
qed

lemma wr_take_data:
  assumes inv: "wr_inv dec d G" and g: "g < xd_gst_num d" and w: "itf_read (xd_gst_w_msts d ! g) = Some (x, t)"
  shows "wr_inv dec (d\<lparr>xd_gst_w_msts := (xd_gst_w_msts d)[g := t]\<rparr>) (G\<lparr>gw_wtaken := (gw_wtaken G)(g := gw_wtaken G g @ [x])\<rparr>)"
    (is "wr_inv dec ?d ?G")
proof -
  from inv obtain acc used outs where v: "wr_ports d" "axi_demux_decode d = dec" "\<forall>a\<in>set (gw_aws G). dec (aw_addr a) \<noteq> None"
    "gw_aws G = acc @ fifo_list (xd_aw_fifo d) @ itf_list (xd_host_aw_slv d)"
    "\<forall>g<xd_gst_num d. gw_taken G g @ itf_list (xd_gst_aw_msts d ! g) = filter (\<lambda>a. wr_target dec a = g) acc"
    "\<forall>k. wr_order dec d G acc k" "wd_order dec d G acc used outs" "\<forall>g<xd_gst_num d. \<forall>k. wr_balance d G g k" by (rule wr_invD)
  have t: "itf_inv t" "itf_list (xd_gst_w_msts d ! g) = x # itf_list t" and len: "g < length (xd_gst_w_msts d)"
    using itf.pop_SomeD [OF w] wr_ports_inv [OF inv] g by simp_all
  have "\<forall>h<xd_gst_num d. itf_inv ((xd_gst_w_msts d)[g := t] ! h)"
    by (rule nth_upd_all) (use v(1) t(1) in \<open>simp_all add: wr_ports_def\<close>)
  then have "wr_ports ?d" using v(1) by (simp add: wr_ports_def)
  moreover have "gw_wtaken ?G h @ itf_list (xd_gst_w_msts ?d ! h) = outs h" if "h < xd_gst_num d" for h
  proof -
    have "gw_wtaken G h @ itf_list (xd_gst_w_msts d ! h) = outs h" using v(7) that by (simp add: wd_order_def)
    then show ?thesis using t(2) len by (cases "h = g") simp_all
  qed
  then have "wd_order dec ?d ?G acc used outs" using v(7) by (simp add: wd_order_def)
  moreover have "wr_order dec ?d ?G acc k" for k using v(6) by (simp add: wr_order_def)
  moreover have "wr_balance ?d ?G h k" if "h < xd_gst_num d" for h k
    using v(8) [rule_format, OF that, of k] by (simp add: wr_balance_def)
  ultimately show ?thesis by (intro wr_invI [of ?d dec ?G acc used outs]) (use v(2-5) in simp_all)
qed

lemma wr_give:
  assumes inv: "wr_inv dec d G" and g: "g < xd_gst_num d" and held: "0 < gw_held G g (ab_id b)"
    and w: "itf_write (xd_gst_b_slvs d ! g) b = Some t"
  shows "wr_inv dec (d\<lparr>xd_gst_b_slvs := (xd_gst_b_slvs d)[g := t]\<rparr>)
    (G\<lparr>gw_given := (gw_given G)(g := gw_given G g @ [b]), gw_held := (gw_held G)(g := (gw_held G g)(ab_id b := gw_held G g (ab_id b) - 1))\<rparr>)"
    (is "wr_inv dec ?d ?G")
proof -
  from inv obtain acc used outs where v: "wr_ports d" "axi_demux_decode d = dec" "\<forall>a\<in>set (gw_aws G). dec (aw_addr a) \<noteq> None"
    "gw_aws G = acc @ fifo_list (xd_aw_fifo d) @ itf_list (xd_host_aw_slv d)"
    "\<forall>g<xd_gst_num d. gw_taken G g @ itf_list (xd_gst_aw_msts d ! g) = filter (\<lambda>a. wr_target dec a = g) acc"
    "\<forall>k. wr_order dec d G acc k" "wd_order dec d G acc used outs" "\<forall>g<xd_gst_num d. \<forall>k. wr_balance d G g k" by (rule wr_invD)
  have t: "itf_inv t" "itf_list t = itf_list (xd_gst_b_slvs d ! g) @ [b]" and len: "g < length (xd_gst_b_slvs d)"
    using itf.push_SomeD [OF w] wr_ports_inv [OF inv] g by simp_all
  have "\<forall>h<xd_gst_num d. itf_inv ((xd_gst_b_slvs d)[g := t] ! h)"
    by (rule nth_upd_all) (use v(1) t(1) in \<open>simp_all add: wr_ports_def\<close>)
  then have "wr_ports ?d" using v(1) by (simp add: wr_ports_def)
  moreover have "wr_order dec ?d ?G acc k" for k
  proof (cases "k = ab_id b")
    case False
    then have "pend ((xd_gst_b_slvs d)[g := t]) (\<lambda>b. ab_id b = k) = pend (xd_gst_b_slvs d) (\<lambda>b. ab_id b = k)"
      using pend_same [OF len, of "\<lambda>b. ab_id b = k" t] t(2) by simp
    moreover have "(\<lambda>h. filter (\<lambda>b. ab_id b = k) (gw_given ?G h)) = (\<lambda>h. filter (\<lambda>b. ab_id b = k) (gw_given G h))"
      using False by (auto simp: fun_eq_iff)
    ultimately show ?thesis using v(6) [rule_format, of k] by (simp add: wr_order_def)
  next
    case True
    have "pend ((xd_gst_b_slvs d)[g := t]) (\<lambda>b. ab_id b = k)
        = (pend (xd_gst_b_slvs d) (\<lambda>b. ab_id b = k))(g := pend (xd_gst_b_slvs d) (\<lambda>b. ab_id b = k) g @ [b])"
      using pend_update [OF len, of t "\<lambda>b. ab_id b = k"] t(2) True len by (simp add: pend_def)
    moreover have "(\<lambda>h. filter (\<lambda>b. ab_id b = k) (gw_given ?G h))
        = (\<lambda>h. filter (\<lambda>b. ab_id b = k) (gw_given G h))(g := filter (\<lambda>b. ab_id b = k) (gw_given G g) @ [b])"
      using True by (auto simp: fun_eq_iff)
    ultimately show ?thesis
      using weaves_more_beats [OF v(6) [rule_format, of k, unfolded wr_order_def], of g b] by (simp add: wr_order_def)
  qed
  moreover have "wr_balance ?d ?G h k" if "h < xd_gst_num d" for h k
    using v(8) [rule_format, OF that, of k] t(2) len held by (cases "h = g") (auto simp: wr_balance_def)
  ultimately show ?thesis by (intro wr_invI [of ?d dec ?G acc used outs]) (use v(2-5,7) in \<open>simp_all add: wd_order_def\<close>)
qed

lemma wr_inv_result:
  assumes "wr_inv dec d G"
  shows "\<forall>g<xd_gst_num d. \<exists>rest. filter (\<lambda>a. wr_target dec a = g) (gw_aws G) = gw_taken G g @ rest"
    "\<exists>ts q. weaves (\<lambda>_. True) (map (wr_target dec) (filter (\<lambda>a. aw_id a = k) (gw_aws G)))
       (\<lambda>g. filter (\<lambda>b. ab_id b = k) (gw_given G g)) (filter (\<lambda>b. ab_id b = k) (gw_bs G)) ts q"
    "\<exists>used later outs ts. gw_ws G = used @ later \<and> deals aw_last (map (wr_target dec) (gw_aws G)) used outs ts
       \<and> (\<forall>g<xd_gst_num d. \<exists>rest. outs g = gw_wtaken G g @ rest)"
proof -
  from assms obtain acc used outs where v: "gw_aws G = acc @ fifo_list (xd_aw_fifo d) @ itf_list (xd_host_aw_slv d)"
    "\<forall>g<xd_gst_num d. gw_taken G g @ itf_list (xd_gst_aw_msts d ! g) = filter (\<lambda>a. wr_target dec a = g) acc"
    "\<forall>k. wr_order dec d G acc k" "wd_order dec d G acc used outs" unfolding wr_inv_def by blast
  show "\<forall>g<xd_gst_num d. \<exists>rest. filter (\<lambda>a. wr_target dec a = g) (gw_aws G) = gw_taken G g @ rest"
    using v(1,2) by (metis append.assoc filter_append)
  from weaves_prefix [OF v(3) [rule_format, of k, unfolded wr_order_def], of "filter (\<lambda>b. ab_id b = k) (gw_bs G)"] obtain ts q where
    "weaves (\<lambda>_. True) (map (wr_target dec) (filter (\<lambda>a. aw_id a = k) acc)) (\<lambda>g. filter (\<lambda>b. ab_id b = k) (gw_given G g))
      (filter (\<lambda>b. ab_id b = k) (gw_bs G)) ts q" by auto
  from weaves_more_targets [OF this] v(1) show "\<exists>ts q. weaves (\<lambda>_. True) (map (wr_target dec) (filter (\<lambda>a. aw_id a = k) (gw_aws G)))
       (\<lambda>g. filter (\<lambda>b. ab_id b = k) (gw_given G g)) (filter (\<lambda>b. ab_id b = k) (gw_bs G)) ts q" by auto
  have "deals aw_last (map (wr_target dec) (gw_aws G)) used outs
      (map dd_gst_idx (ostq_live (xd_wr_data_ost d)) @ map (wr_target dec) (fifo_list (xd_aw_fifo d) @ itf_list (xd_host_aw_slv d)))"
    using v(1,4) deals_more_targets by (auto simp: wd_order_def)
  moreover have "\<forall>g<xd_gst_num d. \<exists>rest. outs g = gw_wtaken G g @ rest" using v(4) unfolding wd_order_def by metis
  ultimately show "\<exists>used later outs ts. gw_ws G = used @ later \<and> deals aw_last (map (wr_target dec) (gw_aws G)) used outs ts
       \<and> (\<forall>g<xd_gst_num d. \<exists>rest. outs g = gw_wtaken G g @ rest)" using v(4) unfolding wd_order_def by blast
qed

end
