(* ===== verification/AxiDemuxRun.thy ===== *)
theory AxiDemuxRun
  imports AxiDemuxWr
begin

text \<open>
  The AXI4 demultiplexer between a host and its guests: in every run each guest sees the transactions of its window, and the
  host sees the answers of the guests in the order the AXI4 rules demand. Reads outside every window break that order.
\<close>

section \<open>A tick\<close>

lemma demux_clock_ok:
  assumes rd: "rd_inv dec d G" and wr: "wr_inv dec d W"
    and seq: "unat (k_next_issue_seq (xd_rd_ost d)) < 2 ^ 64 - 1" "unat (k_next_issue_seq (xd_wr_rsp_ost d)) < 2 ^ 64 - 1"
  shows "\<exists>d'. axi_demux_clock d = Some d' \<and> rd_inv dec d' G \<and> wr_inv dec d' W \<and> xd_gst_num d' = xd_gst_num d
    \<and> unat (k_next_issue_seq (xd_rd_ost d')) \<le> unat (k_next_issue_seq (xd_rd_ost d)) + 1
    \<and> unat (k_next_issue_seq (xd_wr_rsp_ost d')) \<le> unat (k_next_issue_seq (xd_wr_rsp_ost d)) + 1"
proof -
  have i: "ostk_inv (xd_rd_ost d)" "ostq_inv (xd_wr_data_ost d)" "ostk_inv (xd_wr_rsp_ost d)"
    using rd wr by (simp_all add: rd_inv_def rd_ports_def wr_inv_def wr_ports_def)
  from ostk_clock_ok [OF i(1)] obtain o1 where o1: "ostk_clock (xd_rd_ost d) = Some o1" "ostk_inv o1"
    "k_next_issue_seq o1 = k_next_issue_seq (xd_rd_ost d)" "ostk_queue o1 = ostk_queue (xd_rd_ost d)" by blast
  from ostq_clock_live [OF i(2)] obtain o2 where o2: "ostq_clock (xd_wr_data_ost d) = Some o2" "ostq_inv o2" "ostq_live o2 = ostq_live (xd_wr_data_ost d)" by blast
  from ostk_clock_ok [OF i(3)] obtain o3 where o3: "ostk_clock (xd_wr_rsp_ost d) = Some o3" "ostk_inv o3"
    "k_next_issue_seq o3 = k_next_issue_seq (xd_wr_rsp_ost d)" "ostk_queue o3 = ostk_queue (xd_wr_rsp_ost d)" by blast
  define d0 where "d0 = d\<lparr>xd_rd_ost := o1, xd_wr_data_ost := o2, xd_wr_rsp_ost := o3\<rparr>"
  have s0: "k_next_issue_seq (xd_rd_ost d0) = k_next_issue_seq (xd_rd_ost d)" "k_next_issue_seq (xd_wr_rsp_ost d0) = k_next_issue_seq (xd_wr_rsp_ost d)"
    using o1(3) o3(3) by (simp_all add: d0_def)
  have r0: "rd_inv dec d0 G" using rd o1(2,4)
    by (simp add: d0_def rd_inv_def rd_ports_def rd_order_def rd_balance_def rd_open_def rd_tgts_def)
  have w0: "wr_inv dec d0 W" using wr o2(2,3) o3(2,4)
    by (simp add: d0_def wr_inv_def wr_ports_def wr_order_def wd_order_def wr_balance_def wr_tgts_def no_decerr_def)
  from rd_capture_ok [OF r0] obtain d1 where d1: "axi_demux_capture_ar d0 = Some d1" "rd_inv dec d1 G" "wr_part d1 = wr_part d0" "xd_rd_ost d1 = xd_rd_ost d0" by blast
  have w1: "wr_inv dec d1 W" using wr_inv_cong [OF d1(3)] w0 by simp
  from wr_capture_aw_ok [OF w1] obtain d2 where d2: "axi_demux_capture_aw d1 = Some d2" "wr_inv dec d2 W" "rd_part d2 = rd_part d1" "xd_wr_rsp_ost d2 = xd_wr_rsp_ost d1" by blast
  from wr_capture_w_ok [OF d2(2)] obtain d3 where d3: "axi_demux_capture_w d2 = Some d3" "wr_inv dec d3 W" "rd_part d3 = rd_part d2" "xd_wr_rsp_ost d3 = xd_wr_rsp_ost d2" by blast
  from wr_proc_b_ok [OF d3(2)] obtain d4 where d4: "axi_demux_proc_b d3 = Some d4" "wr_inv dec d4 W" "rd_part d4 = rd_part d3"
    "k_next_issue_seq (xd_wr_rsp_ost d4) = k_next_issue_seq (xd_wr_rsp_ost d3)" by blast
  have r4: "rd_inv dec d4 G" using rd_inv_cong [of d4 d1] d4(3) d3(3) d2(3) d1(2) by simp
  from rd_proc_r_ok [OF r4] obtain d5 where d5: "axi_demux_proc_r d4 = Some d5" "rd_inv dec d5 G" "wr_part d5 = wr_part d4"
    "k_next_issue_seq (xd_rd_ost d5) = k_next_issue_seq (xd_rd_ost d4)" by blast
  have w5: "wr_inv dec d5 W" using wr_inv_cong [OF d5(3)] d4(2) by simp
  from wr_proc_w_ok [OF w5] obtain d6 where d6: "axi_demux_proc_w d5 = Some d6" "wr_inv dec d6 W" "rd_part d6 = rd_part d5" "xd_wr_rsp_ost d6 = xd_wr_rsp_ost d5" by blast
  have sw: "k_next_issue_seq (xd_wr_rsp_ost d6) = k_next_issue_seq (xd_wr_rsp_ost d)"
    using d6(4) d5(3) d4(4) d3(4) d2(4) d1(3) s0(2) by (simp add: wr_part_def)
  have "unat (k_next_issue_seq (xd_wr_rsp_ost d6)) < 2 ^ 64 - 1" using sw seq(2) by simp
  from wr_proc_aw_ok [OF d6(2) this] obtain d7 where d7: "axi_demux_proc_aw d6 = Some d7" "wr_inv dec d7 W" "rd_part d7 = rd_part d6"
    "unat (k_next_issue_seq (xd_wr_rsp_ost d7)) \<le> unat (k_next_issue_seq (xd_wr_rsp_ost d6)) + 1" by blast
  have r7: "rd_inv dec d7 G" using rd_inv_cong [of d7 d5] d7(3) d6(3) d5(2) by simp
  have sr: "k_next_issue_seq (xd_rd_ost d7) = k_next_issue_seq (xd_rd_ost d)"
    using d7(3) d6(3) d5(4) d4(3) d3(3) d2(3) d1(4) s0(1) by (simp add: rd_part_def)
  have "unat (k_next_issue_seq (xd_rd_ost d7)) < 2 ^ 64 - 1" using sr seq(1) by simp
  from rd_proc_ar_ok [OF r7 this] obtain d8 where d8: "axi_demux_proc_ar d7 = Some d8" "rd_inv dec d8 G" "wr_part d8 = wr_part d7"
    "unat (k_next_issue_seq (xd_rd_ost d8)) \<le> unat (k_next_issue_seq (xd_rd_ost d7)) + 1" by blast
  have "axi_demux_clock d = Some d8"
    unfolding axi_demux_clock_def using o1(1) o2(1) o3(1) d1(1) d2(1) d3(1) d4(1) d5(1) d6(1) d7(1) d8(1) by (simp add: d0_def)
  moreover have "wr_inv dec d8 W" using wr_inv_cong [OF d8(3)] d7(2) by simp
  moreover have "xd_wr_rsp_ost d8 = xd_wr_rsp_ost d7" using d8(3) by (simp add: wr_part_def)
  moreover have "xd_gst_num d8 = xd_gst_num d"
    using d8(3) d7(3) d6(3) d5(3) d4(3) d3(3) d2(3) d1(3) by (simp add: wr_part_def rd_part_def d0_def)
  ultimately show ?thesis using d8(2,4) d7(4) sr sw by simp
qed

section \<open>Runs between a host and the guests\<close>

record xd_sys =
  z_demux :: axi_demux
  z_rd :: rd_ghost
  z_wr :: wr_ghost

datatype xd_ev = XTick | XIssueAr axi4_ar | XIssueAw axi4_aw | XSendW axi4_w | XTakeR | XTakeB
  | XGuestAr nat | XGuestAw nat | XGuestW nat | XGiveR nat axi4_r | XGiveB nat axi4_b

text \<open>
  One event of a run. The host issues addresses and data and takes answers; a guest takes them, and answers with beats and responses
  for identifiers of which it holds a transaction. An event that cannot happen changes nothing; \<open>None\<close> is an abort.
\<close>

fun xd_event :: "xd_ev \<Rightarrow> xd_sys \<Rightarrow> xd_sys option" where
  "xd_event XTick z = do { d \<leftarrow> axi_demux_clock (z_demux z); Some (z\<lparr>z_demux := d\<rparr>) }"
| "xd_event (XIssueAr a) z = (let d = z_demux z; G = z_rd z in
     if itf_fifo_full (xd_host_ar_slv d) then Some z
     else do { t \<leftarrow> itf_write (xd_host_ar_slv d) a; Some (z\<lparr>z_demux := d\<lparr>xd_host_ar_slv := t\<rparr>, z_rd := G\<lparr>gh_ars := gh_ars G @ [a]\<rparr>\<rparr>) })"
| "xd_event (XIssueAw a) z = (let d = z_demux z; W = z_wr z in
     if itf_fifo_full (xd_host_aw_slv d) then Some z
     else do { t \<leftarrow> itf_write (xd_host_aw_slv d) a; Some (z\<lparr>z_demux := d\<lparr>xd_host_aw_slv := t\<rparr>, z_wr := W\<lparr>gw_aws := gw_aws W @ [a]\<rparr>\<rparr>) })"
| "xd_event (XSendW w) z = (let d = z_demux z; W = z_wr z in
     if itf_fifo_full (xd_host_w_slv d) then Some z
     else do { t \<leftarrow> itf_write (xd_host_w_slv d) w; Some (z\<lparr>z_demux := d\<lparr>xd_host_w_slv := t\<rparr>, z_wr := W\<lparr>gw_ws := gw_ws W @ [w]\<rparr>\<rparr>) })"
| "xd_event XTakeR z = (let d = z_demux z; G = z_rd z in
     if itf_fifo_empty (xd_host_r_mst d) then Some z
     else do { (r, t) \<leftarrow> itf_read (xd_host_r_mst d); Some (z\<lparr>z_demux := d\<lparr>xd_host_r_mst := t\<rparr>, z_rd := G\<lparr>gh_rs := gh_rs G @ [r]\<rparr>\<rparr>) })"
| "xd_event XTakeB z = (let d = z_demux z; W = z_wr z in
     if itf_fifo_empty (xd_host_b_mst d) then Some z
     else do { (b, t) \<leftarrow> itf_read (xd_host_b_mst d); Some (z\<lparr>z_demux := d\<lparr>xd_host_b_mst := t\<rparr>, z_wr := W\<lparr>gw_bs := gw_bs W @ [b]\<rparr>\<rparr>) })"
| "xd_event (XGuestAr g) z = (let d = z_demux z; G = z_rd z in
     if xd_gst_num d \<le> g \<or> itf_fifo_empty (xd_gst_ar_msts d ! g) then Some z
     else do { (a, t) \<leftarrow> itf_read (xd_gst_ar_msts d ! g);
       Some (z\<lparr>z_demux := d\<lparr>xd_gst_ar_msts := (xd_gst_ar_msts d)[g := t]\<rparr>, z_rd := G\<lparr>gh_taken := (gh_taken G)(g := gh_taken G g @ [a]),
         gh_held := (gh_held G)(g := (gh_held G g)(ar_id a := gh_held G g (ar_id a) + 1))\<rparr>\<rparr>) })"
| "xd_event (XGuestAw g) z = (let d = z_demux z; W = z_wr z in
     if xd_gst_num d \<le> g \<or> itf_fifo_empty (xd_gst_aw_msts d ! g) then Some z
     else do { (a, t) \<leftarrow> itf_read (xd_gst_aw_msts d ! g);
       Some (z\<lparr>z_demux := d\<lparr>xd_gst_aw_msts := (xd_gst_aw_msts d)[g := t]\<rparr>, z_wr := W\<lparr>gw_taken := (gw_taken W)(g := gw_taken W g @ [a]),
         gw_held := (gw_held W)(g := (gw_held W g)(aw_id a := gw_held W g (aw_id a) + 1))\<rparr>\<rparr>) })"
| "xd_event (XGuestW g) z = (let d = z_demux z; W = z_wr z in
     if xd_gst_num d \<le> g \<or> itf_fifo_empty (xd_gst_w_msts d ! g) then Some z
     else do { (w, t) \<leftarrow> itf_read (xd_gst_w_msts d ! g);
       Some (z\<lparr>z_demux := d\<lparr>xd_gst_w_msts := (xd_gst_w_msts d)[g := t]\<rparr>, z_wr := W\<lparr>gw_wtaken := (gw_wtaken W)(g := gw_wtaken W g @ [w])\<rparr>\<rparr>) })"
| "xd_event (XGiveR g r) z = (let d = z_demux z; G = z_rd z in
     if xd_gst_num d \<le> g \<or> gh_held G g (ax_id r) = 0 \<or> itf_fifo_full (xd_gst_r_slvs d ! g) then Some z
     else do { t \<leftarrow> itf_write (xd_gst_r_slvs d ! g) r;
       Some (z\<lparr>z_demux := d\<lparr>xd_gst_r_slvs := (xd_gst_r_slvs d)[g := t]\<rparr>, z_rd := G\<lparr>gh_given := (gh_given G)(g := gh_given G g @ [r]),
         gh_held := (gh_held G)(g := (gh_held G g)(ax_id r := gh_held G g (ax_id r) - of_bool (ax_last r)))\<rparr>\<rparr>) })"
| "xd_event (XGiveB g b) z = (let d = z_demux z; W = z_wr z in
     if xd_gst_num d \<le> g \<or> gw_held W g (ab_id b) = 0 \<or> itf_fifo_full (xd_gst_b_slvs d ! g) then Some z
     else do { t \<leftarrow> itf_write (xd_gst_b_slvs d ! g) b;
       Some (z\<lparr>z_demux := d\<lparr>xd_gst_b_slvs := (xd_gst_b_slvs d)[g := t]\<rparr>, z_wr := W\<lparr>gw_given := (gw_given W)(g := gw_given W g @ [b]),
         gw_held := (gw_held W)(g := (gw_held W g)(ab_id b := gw_held W g (ab_id b) - 1))\<rparr>\<rparr>) })"

fun xd_exec :: "xd_ev list \<Rightarrow> xd_sys \<Rightarrow> xd_sys option" where
  "xd_exec [] z = Some z"
| "xd_exec (ev # evs) z = do { z \<leftarrow> xd_event ev z; xd_exec evs z }"

definition xd_boot :: "axi_demux \<Rightarrow> xd_sys" where
  "xd_boot d = \<lparr>z_demux = axi_demux_reset d,
     z_rd = \<lparr>gh_ars = [], gh_taken = (\<lambda>_. []), gh_held = (\<lambda>_ _. 0), gh_given = (\<lambda>_. []), gh_rs = []\<rparr>,
     z_wr = \<lparr>gw_aws = [], gw_taken = (\<lambda>_. []), gw_held = (\<lambda>_ _. 0), gw_given = (\<lambda>_. []), gw_bs = [], gw_ws = [], gw_wtaken = (\<lambda>_. [])\<rparr>\<rparr>"

definition xd_ok :: "(u32 \<Rightarrow> nat option) \<Rightarrow> nat \<Rightarrow> nat \<Rightarrow> xd_sys \<Rightarrow> bool" where
  "xd_ok dec n s z \<longleftrightarrow> rd_inv dec (z_demux z) (z_rd z) \<and> wr_inv dec (z_demux z) (z_wr z) \<and> xd_gst_num (z_demux z) = n
     \<and> unat (k_next_issue_seq (xd_rd_ost (z_demux z))) \<le> s \<and> unat (k_next_issue_seq (xd_wr_rsp_ost (z_demux z))) \<le> s"

lemma xd_ok_rd_event:
  assumes "xd_ok dec n s z" "wr_part d = wr_part (z_demux z)" "rd_inv dec d G" "xd_rd_ost d = xd_rd_ost (z_demux z)"
  shows "xd_ok dec n (Suc s) (z\<lparr>z_demux := d, z_rd := G\<rparr>)"
  using assms wr_inv_cong [OF assms(2)] by (simp add: xd_ok_def wr_part_def)

lemma xd_ok_wr_event:
  assumes "xd_ok dec n s z" "rd_part d = rd_part (z_demux z)" "wr_inv dec d W" "xd_wr_rsp_ost d = xd_wr_rsp_ost (z_demux z)"
  shows "xd_ok dec n (Suc s) (z\<lparr>z_demux := d, z_wr := W\<rparr>)"
  using assms rd_inv_cong [OF assms(2)] by (simp add: xd_ok_def rd_part_def)

lemma xd_ok_idle: "xd_ok dec n s z \<Longrightarrow> xd_ok dec n (Suc s) z"
  by (simp add: xd_ok_def)

lemma xd_ok_tick:
  assumes ok: "xd_ok dec n s z" and s: "s < 2 ^ 64 - 1"
  shows "\<exists>z'. xd_event XTick z = Some z' \<and> xd_ok dec n (Suc s) z'"
proof -
  have i: "rd_inv dec (z_demux z) (z_rd z)" "wr_inv dec (z_demux z) (z_wr z)" "xd_gst_num (z_demux z) = n"
    "unat (k_next_issue_seq (xd_rd_ost (z_demux z))) \<le> s" "unat (k_next_issue_seq (xd_wr_rsp_ost (z_demux z))) \<le> s"
    using ok by (simp_all add: xd_ok_def)
  have b: "unat (k_next_issue_seq (xd_rd_ost (z_demux z))) < 2 ^ 64 - 1" "unat (k_next_issue_seq (xd_wr_rsp_ost (z_demux z))) < 2 ^ 64 - 1"
    using i(4,5) s by linarith+
  from demux_clock_ok [OF i(1,2) b] obtain d' where d': "axi_demux_clock (z_demux z) = Some d'" "rd_inv dec d' (z_rd z)" "wr_inv dec d' (z_wr z)"
    "xd_gst_num d' = xd_gst_num (z_demux z)" "unat (k_next_issue_seq (xd_rd_ost d')) \<le> unat (k_next_issue_seq (xd_rd_ost (z_demux z))) + 1"
    "unat (k_next_issue_seq (xd_wr_rsp_ost d')) \<le> unat (k_next_issue_seq (xd_wr_rsp_ost (z_demux z))) + 1" by blast
  then show ?thesis using i(3-5) by (simp add: xd_ok_def)
qed

lemma xd_ok_read_events:
  assumes ok: "xd_ok dec n s z"
  shows "dec (ar_addr a) \<noteq> None \<Longrightarrow> \<exists>z'. xd_event (XIssueAr a) z = Some z' \<and> xd_ok dec n (Suc s) z'"
    "\<exists>z'. xd_event XTakeR z = Some z' \<and> xd_ok dec n (Suc s) z'"
    "\<exists>z'. xd_event (XGuestAr g) z = Some z' \<and> xd_ok dec n (Suc s) z'"
    "\<exists>z'. xd_event (XGiveR g r) z = Some z' \<and> xd_ok dec n (Suc s) z'"
proof -
  let ?d = "z_demux z"
  have i: "rd_inv dec ?d (z_rd z)" using ok by (simp add: xd_ok_def)
  note p = rd_ports_inv [OF i] and idle = xd_ok_idle [OF ok]
  show "\<exists>z'. xd_event (XIssueAr a) z = Some z' \<and> xd_ok dec n (Suc s) z'" if m: "dec (ar_addr a) \<noteq> None"
  proof (cases "itf_fifo_full (xd_host_ar_slv ?d)")
    case False
    have v: "itf_inv (xd_host_ar_slv ?d)" using p by simp
    obtain t where t: "itf_write (xd_host_ar_slv ?d) a = Some t" by (rule itf.push_not_full [OF v False])
    have fr: "wr_part (?d\<lparr>xd_host_ar_slv := t\<rparr>) = wr_part ?d" "xd_rd_ost (?d\<lparr>xd_host_ar_slv := t\<rparr>) = xd_rd_ost ?d" by (simp_all add: wr_part_def)
    show ?thesis using xd_ok_rd_event [OF ok fr(1) rd_issue [OF i t m] fr(2)] False by (simp add: Let_def t)
  qed (use idle in \<open>simp add: Let_def\<close>)
  show "\<exists>z'. xd_event XTakeR z = Some z' \<and> xd_ok dec n (Suc s) z'"
  proof (cases "itf_fifo_empty (xd_host_r_mst ?d)")
    case False
    have v: "itf_inv (xd_host_r_mst ?d)" using p by simp
    obtain r t where t: "itf_read (xd_host_r_mst ?d) = Some (r, t)" by (rule itf.pop_not_empty [OF v False])
    have fr: "wr_part (?d\<lparr>xd_host_r_mst := t\<rparr>) = wr_part ?d" "xd_rd_ost (?d\<lparr>xd_host_r_mst := t\<rparr>) = xd_rd_ost ?d" by (simp_all add: wr_part_def)
    show ?thesis using xd_ok_rd_event [OF ok fr(1) rd_receive [OF i t] fr(2)] False by (simp add: Let_def t)
  qed (use idle in \<open>simp add: Let_def\<close>)
  show "\<exists>z'. xd_event (XGuestAr g) z = Some z' \<and> xd_ok dec n (Suc s) z'"
  proof (cases "xd_gst_num ?d \<le> g \<or> itf_fifo_empty (xd_gst_ar_msts ?d ! g)")
    case False
    then have g: "g < xd_gst_num ?d" and ne: "\<not> itf_fifo_empty (xd_gst_ar_msts ?d ! g)" by auto
    have v: "itf_inv (xd_gst_ar_msts ?d ! g)" using p g by simp
    obtain a t where t: "itf_read (xd_gst_ar_msts ?d ! g) = Some (a, t)" by (rule itf.pop_not_empty [OF v ne])
    have fr: "wr_part (?d\<lparr>xd_gst_ar_msts := (xd_gst_ar_msts ?d)[g := t]\<rparr>) = wr_part ?d" "xd_rd_ost (?d\<lparr>xd_gst_ar_msts := (xd_gst_ar_msts ?d)[g := t]\<rparr>) = xd_rd_ost ?d" by (simp_all add: wr_part_def)
    show ?thesis using xd_ok_rd_event [OF ok fr(1) rd_take [OF i g t] fr(2)] False by (simp add: Let_def t)
  qed (use idle in \<open>auto simp: Let_def\<close>)
  show "\<exists>z'. xd_event (XGiveR g r) z = Some z' \<and> xd_ok dec n (Suc s) z'"
  proof (cases "xd_gst_num ?d \<le> g \<or> gh_held (z_rd z) g (ax_id r) = 0 \<or> itf_fifo_full (xd_gst_r_slvs ?d ! g)")
    case False
    then have g: "g < xd_gst_num ?d" and h: "0 < gh_held (z_rd z) g (ax_id r)" and nf: "\<not> itf_fifo_full (xd_gst_r_slvs ?d ! g)" by auto
    have v: "itf_inv (xd_gst_r_slvs ?d ! g)" using p g by simp
    obtain t where t: "itf_write (xd_gst_r_slvs ?d ! g) r = Some t" by (rule itf.push_not_full [OF v nf])
    have fr: "wr_part (?d\<lparr>xd_gst_r_slvs := (xd_gst_r_slvs ?d)[g := t]\<rparr>) = wr_part ?d" "xd_rd_ost (?d\<lparr>xd_gst_r_slvs := (xd_gst_r_slvs ?d)[g := t]\<rparr>) = xd_rd_ost ?d" by (simp_all add: wr_part_def)
    show ?thesis using xd_ok_rd_event [OF ok fr(1) rd_give [OF i g h t] fr(2)] False by (simp add: Let_def t)
  qed (use idle in \<open>auto simp: Let_def\<close>)
qed

lemma xd_ok_write_events:
  assumes ok: "xd_ok dec n s z"
  shows "dec (aw_addr a) \<noteq> None \<Longrightarrow> \<exists>z'. xd_event (XIssueAw a) z = Some z' \<and> xd_ok dec n (Suc s) z'"
    "\<exists>z'. xd_event (XSendW w) z = Some z' \<and> xd_ok dec n (Suc s) z'"
    "\<exists>z'. xd_event XTakeB z = Some z' \<and> xd_ok dec n (Suc s) z'"
    "\<exists>z'. xd_event (XGuestAw g) z = Some z' \<and> xd_ok dec n (Suc s) z'"
    "\<exists>z'. xd_event (XGuestW g) z = Some z' \<and> xd_ok dec n (Suc s) z'"
    "\<exists>z'. xd_event (XGiveB g b) z = Some z' \<and> xd_ok dec n (Suc s) z'"
proof -
  let ?d = "z_demux z"
  have i: "wr_inv dec ?d (z_wr z)" using ok by (simp add: xd_ok_def)
  note p = wr_ports_inv [OF i] and idle = xd_ok_idle [OF ok]
  show "\<exists>z'. xd_event (XIssueAw a) z = Some z' \<and> xd_ok dec n (Suc s) z'" if m: "dec (aw_addr a) \<noteq> None"
  proof (cases "itf_fifo_full (xd_host_aw_slv ?d)")
    case False
    have v: "itf_inv (xd_host_aw_slv ?d)" using p by simp
    obtain t where t: "itf_write (xd_host_aw_slv ?d) a = Some t" by (rule itf.push_not_full [OF v False])
    have fr: "rd_part (?d\<lparr>xd_host_aw_slv := t\<rparr>) = rd_part ?d" "xd_wr_rsp_ost (?d\<lparr>xd_host_aw_slv := t\<rparr>) = xd_wr_rsp_ost ?d" by (simp_all add: rd_part_def)
    show ?thesis using xd_ok_wr_event [OF ok fr(1) wr_issue [OF i t m] fr(2)] False by (simp add: Let_def t)
  qed (use idle in \<open>simp add: Let_def\<close>)
  show "\<exists>z'. xd_event (XSendW w) z = Some z' \<and> xd_ok dec n (Suc s) z'"
  proof (cases "itf_fifo_full (xd_host_w_slv ?d)")
    case False
    have v: "itf_inv (xd_host_w_slv ?d)" using p by simp
    obtain t where t: "itf_write (xd_host_w_slv ?d) w = Some t" by (rule itf.push_not_full [OF v False])
    have fr: "rd_part (?d\<lparr>xd_host_w_slv := t\<rparr>) = rd_part ?d" "xd_wr_rsp_ost (?d\<lparr>xd_host_w_slv := t\<rparr>) = xd_wr_rsp_ost ?d" by (simp_all add: rd_part_def)
    show ?thesis using xd_ok_wr_event [OF ok fr(1) wr_send_data [OF i t] fr(2)] False by (simp add: Let_def t)
  qed (use idle in \<open>simp add: Let_def\<close>)
  show "\<exists>z'. xd_event XTakeB z = Some z' \<and> xd_ok dec n (Suc s) z'"
  proof (cases "itf_fifo_empty (xd_host_b_mst ?d)")
    case False
    have v: "itf_inv (xd_host_b_mst ?d)" using p by simp
    obtain b t where t: "itf_read (xd_host_b_mst ?d) = Some (b, t)" by (rule itf.pop_not_empty [OF v False])
    have fr: "rd_part (?d\<lparr>xd_host_b_mst := t\<rparr>) = rd_part ?d" "xd_wr_rsp_ost (?d\<lparr>xd_host_b_mst := t\<rparr>) = xd_wr_rsp_ost ?d" by (simp_all add: rd_part_def)
    show ?thesis using xd_ok_wr_event [OF ok fr(1) wr_receive [OF i t] fr(2)] False by (simp add: Let_def t)
  qed (use idle in \<open>simp add: Let_def\<close>)
  show "\<exists>z'. xd_event (XGuestAw g) z = Some z' \<and> xd_ok dec n (Suc s) z'"
  proof (cases "xd_gst_num ?d \<le> g \<or> itf_fifo_empty (xd_gst_aw_msts ?d ! g)")
    case False
    then have g: "g < xd_gst_num ?d" and ne: "\<not> itf_fifo_empty (xd_gst_aw_msts ?d ! g)" by auto
    have v: "itf_inv (xd_gst_aw_msts ?d ! g)" using p g by simp
    obtain a t where t: "itf_read (xd_gst_aw_msts ?d ! g) = Some (a, t)" by (rule itf.pop_not_empty [OF v ne])
    have fr: "rd_part (?d\<lparr>xd_gst_aw_msts := (xd_gst_aw_msts ?d)[g := t]\<rparr>) = rd_part ?d" "xd_wr_rsp_ost (?d\<lparr>xd_gst_aw_msts := (xd_gst_aw_msts ?d)[g := t]\<rparr>) = xd_wr_rsp_ost ?d" by (simp_all add: rd_part_def)
    show ?thesis using xd_ok_wr_event [OF ok fr(1) wr_take [OF i g t] fr(2)] False by (simp add: Let_def t)
  qed (use idle in \<open>auto simp: Let_def\<close>)
  show "\<exists>z'. xd_event (XGuestW g) z = Some z' \<and> xd_ok dec n (Suc s) z'"
  proof (cases "xd_gst_num ?d \<le> g \<or> itf_fifo_empty (xd_gst_w_msts ?d ! g)")
    case False
    then have g: "g < xd_gst_num ?d" and ne: "\<not> itf_fifo_empty (xd_gst_w_msts ?d ! g)" by auto
    have v: "itf_inv (xd_gst_w_msts ?d ! g)" using p g by simp
    obtain x t where t: "itf_read (xd_gst_w_msts ?d ! g) = Some (x, t)" by (rule itf.pop_not_empty [OF v ne])
    have fr: "rd_part (?d\<lparr>xd_gst_w_msts := (xd_gst_w_msts ?d)[g := t]\<rparr>) = rd_part ?d" "xd_wr_rsp_ost (?d\<lparr>xd_gst_w_msts := (xd_gst_w_msts ?d)[g := t]\<rparr>) = xd_wr_rsp_ost ?d" by (simp_all add: rd_part_def)
    show ?thesis using xd_ok_wr_event [OF ok fr(1) wr_take_data [OF i g t] fr(2)] False by (simp add: Let_def t)
  qed (use idle in \<open>auto simp: Let_def\<close>)
  show "\<exists>z'. xd_event (XGiveB g b) z = Some z' \<and> xd_ok dec n (Suc s) z'"
  proof (cases "xd_gst_num ?d \<le> g \<or> gw_held (z_wr z) g (ab_id b) = 0 \<or> itf_fifo_full (xd_gst_b_slvs ?d ! g)")
    case False
    then have g: "g < xd_gst_num ?d" and h: "0 < gw_held (z_wr z) g (ab_id b)" and nf: "\<not> itf_fifo_full (xd_gst_b_slvs ?d ! g)" by auto
    have v: "itf_inv (xd_gst_b_slvs ?d ! g)" using p g by simp
    obtain t where t: "itf_write (xd_gst_b_slvs ?d ! g) b = Some t" by (rule itf.push_not_full [OF v nf])
    have fr: "rd_part (?d\<lparr>xd_gst_b_slvs := (xd_gst_b_slvs ?d)[g := t]\<rparr>) = rd_part ?d" "xd_wr_rsp_ost (?d\<lparr>xd_gst_b_slvs := (xd_gst_b_slvs ?d)[g := t]\<rparr>) = xd_wr_rsp_ost ?d" by (simp_all add: rd_part_def)
    show ?thesis using xd_ok_wr_event [OF ok fr(1) wr_give [OF i g h t] fr(2)] False by (simp add: Let_def t)
  qed (use idle in \<open>auto simp: Let_def\<close>)
qed

lemma xd_ok_exec_seq:
  "xd_ok dec n s z \<Longrightarrow> s + length evs < 2 ^ 64 \<Longrightarrow> (\<And>a. XIssueAr a \<in> set evs \<Longrightarrow> dec (ar_addr a) \<noteq> None)
    \<Longrightarrow> (\<And>a. XIssueAw a \<in> set evs \<Longrightarrow> dec (aw_addr a) \<noteq> None) \<Longrightarrow> \<exists>z'. xd_exec evs z = Some z' \<and> xd_ok dec n (s + length evs) z'"
proof (induction evs arbitrary: z s)
  case (Cons ev evs)
  have s: "s < 2 ^ 64 - 1" using Cons.prems(2) by simp
  have "\<exists>z'. xd_event ev z = Some z' \<and> xd_ok dec n (Suc s) z'"
    using xd_ok_tick [OF Cons.prems(1) s] xd_ok_read_events [OF Cons.prems(1)] xd_ok_write_events [OF Cons.prems(1)] Cons.prems(3,4)
    by (cases ev) (simp_all del: xd_event.simps)
  then obtain z1 where z1: "xd_event ev z = Some z1" "xd_ok dec n (Suc s) z1" by blast
  have "Suc s + length evs < 2 ^ 64" using Cons.prems(2) by simp
  from Cons.IH [OF z1(2) this] Cons.prems(3,4) z1(1) show ?case by auto
qed auto

section \<open>Properties\<close>

definition xd_ready :: "axi_demux \<Rightarrow> bool" where
  "xd_ready d \<longleftrightarrow> 0 < xd_gst_num d \<and> (\<forall>n\<in>{length (xd_gst_ar_msts d), length (xd_gst_r_slvs d), length (xd_gst_aw_msts d), length (xd_gst_w_msts d),
       length (xd_gst_b_slvs d)}. n = xd_gst_num d)
     \<and> itf_holds (xd_host_ar_slv d) [] \<and> itf_holds (xd_host_r_mst d) [] \<and> itf_holds (xd_host_aw_slv d) [] \<and> itf_holds (xd_host_w_slv d) []
     \<and> itf_holds (xd_host_b_mst d) []
     \<and> (\<forall>g<xd_gst_num d. itf_holds (xd_gst_ar_msts d ! g) [] \<and> itf_holds (xd_gst_r_slvs d ! g) [] \<and> itf_holds (xd_gst_aw_msts d ! g) []
          \<and> itf_holds (xd_gst_w_msts d ! g) [] \<and> itf_holds (xd_gst_b_slvs d ! g) [])
     \<and> fifo_inv (xd_ar_fifo d) \<and> fifo_inv (xd_aw_fifo d) \<and> fifo_inv (xd_w_fifo d)
     \<and> 0 < k_depth (xd_rd_ost d) \<and> 0 < q_depth (xd_wr_data_ost d) \<and> 0 < k_depth (xd_wr_rsp_ost d)"

lemma xd_boot_ok:
  assumes "xd_ready d"
  shows "xd_ok (axi_demux_decode d) (xd_gst_num d) 0 (xd_boot d)"
proof -
  have r: "0 < k_depth (xd_rd_ost d)" "0 < q_depth (xd_wr_data_ost d)" "0 < k_depth (xd_wr_rsp_ost d)"
    "fifo_inv (xd_ar_fifo d)" "fifo_inv (xd_aw_fifo d)" "fifo_inv (xd_w_fifo d)" using assms by (simp_all add: xd_ready_def)
  note f = fifo_reset_inv [OF r(4)] fifo_reset_inv [OF r(5)] fifo_reset_inv [OF r(6)]
  note o = ostk_reset_fresh [OF r(1)] ostk_reset_fresh [OF r(3)] ostq_reset_live [OF r(2)]
  let ?d = "axi_demux_reset d" and ?z = "xd_boot d"
  have dec: "axi_demux_decode ?d = axi_demux_decode d" by (simp add: axi_demux_reset_def)
  have p0: "pend (xd_gst_r_slvs d) P = (\<lambda>_. [])" "pend (xd_gst_b_slvs d) Q = (\<lambda>_. [])" for P Q
    using assms by (auto simp: pend_def fun_eq_iff xd_ready_def itf_holds_def)
  have "rd_ports ?d" using assms f(1) o(1,2) by (simp add: rd_ports_def axi_demux_reset_def xd_ready_def itf_holds_def rd_tgts_def)
  moreover have "rd_order (axi_demux_decode d) ?d (z_rd ?z) [] k" for k
    using assms o(2) weaves_start [of ax_last "[]" "\<lambda>_. []"] p0(1)
    by (simp add: rd_order_def xd_boot_def axi_demux_reset_def xd_ready_def itf_holds_def rd_tgts_def)
  ultimately have "rd_inv (axi_demux_decode d) ?d (z_rd ?z)"
    using assms dec f(1) o(2) by (intro rd_invI [of _ _ _ "[]"])
      (simp_all add: xd_boot_def axi_demux_reset_def xd_ready_def itf_holds_def rd_balance_def rd_open_def rd_tgts_def)
  moreover have "wr_ports ?d"
    using assms f o by (simp add: wr_ports_def axi_demux_reset_def xd_ready_def itf_holds_def no_decerr_def)
  moreover have "wr_order (axi_demux_decode d) ?d (z_wr ?z) [] k" for k
    using assms o(5) weaves_start [of "\<lambda>_. True" "[]" "\<lambda>_. []"] p0(2)
    by (simp add: wr_order_def xd_boot_def axi_demux_reset_def xd_ready_def itf_holds_def wr_tgts_def)
  moreover have "wd_order (axi_demux_decode d) ?d (z_wr ?z) [] [] (\<lambda>_. [])"
    using assms f(3) o(8) deals_start [of aw_last "[]"]
    by (simp add: wd_order_def xd_boot_def axi_demux_reset_def xd_ready_def itf_holds_def)
  ultimately have "rd_inv (axi_demux_decode d) ?d (z_rd ?z)" "wr_inv (axi_demux_decode d) ?d (z_wr ?z)"
    using assms dec f(2) o(5) by (simp, intro wr_invI [of _ _ _ "[]" "[]" "\<lambda>_. []"])
      (simp_all add: xd_boot_def axi_demux_reset_def xd_ready_def itf_holds_def wr_balance_def wr_tgts_def)
  then show ?thesis using o(3,6) by (simp add: xd_ok_def xd_boot_def axi_demux_reset_def)
qed

text \<open>
  C11. The demultiplexer keeps the order AXI4 demands. As long as the host addresses windows only and the guests answer what they were sent, it never
  aborts; every guest sees exactly the reads and writes of its window, in order, and of each write its own data beats; and of every identifier
  the host receives the guests' read beats, burst by burst, and write responses in the order in which it issued the transactions.
  The bound is the number of sequence numbers of the tables.
\<close>

theorem axi_demux_transparent:
  assumes "xd_ready d" "length evs < 2 ^ 64"
    and "\<And>a. XIssueAr a \<in> set evs \<Longrightarrow> axi_demux_decode d (ar_addr a) \<noteq> None"
    and "\<And>a. XIssueAw a \<in> set evs \<Longrightarrow> axi_demux_decode d (aw_addr a) \<noteq> None"
  shows "\<exists>z. xd_exec evs (xd_boot d) = Some z
    \<and> (\<forall>g<xd_gst_num d. \<exists>rest. filter (\<lambda>a. rd_target (axi_demux_decode d) a = g) (gh_ars (z_rd z)) = gh_taken (z_rd z) g @ rest)
    \<and> (\<forall>g<xd_gst_num d. \<exists>rest. filter (\<lambda>a. wr_target (axi_demux_decode d) a = g) (gw_aws (z_wr z)) = gw_taken (z_wr z) g @ rest)
    \<and> (\<forall>k. \<exists>ts q. weaves ax_last (map (rd_target (axi_demux_decode d)) (filter (\<lambda>a. ar_id a = k) (gh_ars (z_rd z))))
         (\<lambda>g. filter (\<lambda>r. ax_id r = k) (gh_given (z_rd z) g)) (filter (\<lambda>r. ax_id r = k) (gh_rs (z_rd z))) ts q)
    \<and> (\<forall>k. \<exists>ts q. weaves (\<lambda>_. True) (map (wr_target (axi_demux_decode d)) (filter (\<lambda>a. aw_id a = k) (gw_aws (z_wr z))))
         (\<lambda>g. filter (\<lambda>b. ab_id b = k) (gw_given (z_wr z) g)) (filter (\<lambda>b. ab_id b = k) (gw_bs (z_wr z))) ts q)
    \<and> (\<exists>used later outs ts. gw_ws (z_wr z) = used @ later
         \<and> deals aw_last (map (wr_target (axi_demux_decode d)) (gw_aws (z_wr z))) used outs ts
         \<and> (\<forall>g<xd_gst_num d. \<exists>rest. outs g = gw_wtaken (z_wr z) g @ rest))"
proof -
  have "0 + length evs < 2 ^ 64" using assms(2) by simp
  from xd_ok_exec_seq [OF xd_boot_ok [OF assms(1)] this assms(3,4)] obtain z where
    z: "xd_exec evs (xd_boot d) = Some z" "xd_ok (axi_demux_decode d) (xd_gst_num d) (0 + length evs) z" by blast
  have r: "rd_inv (axi_demux_decode d) (z_demux z) (z_rd z)" and w: "wr_inv (axi_demux_decode d) (z_demux z) (z_wr z)"
    and n: "xd_gst_num (z_demux z) = xd_gst_num d" using z(2) by (simp_all add: xd_ok_def)
  show ?thesis using z(1) rd_inv_result [OF r] wr_inv_result [OF w] unfolding n by blast
qed

text \<open>A demultiplexer with two windows, and two reads under one identifier whose guests answer in the other order.\<close>

definition xd_sample :: axi_demux where
  "xd_sample = \<lparr>xd_host_aw_slv = fifo_itf_construct 1, xd_host_w_slv = fifo_itf_construct 1, xd_host_b_mst = fifo_itf_construct 1,
     xd_host_ar_slv = fifo_itf_construct 1, xd_host_r_mst = fifo_itf_construct 1,
     xd_gst_aw_msts = [fifo_itf_construct 1, fifo_itf_construct 1], xd_gst_w_msts = [fifo_itf_construct 1, fifo_itf_construct 1],
     xd_gst_b_slvs = [fifo_itf_construct 1, fifo_itf_construct 1], xd_gst_ar_msts = [fifo_itf_construct 1, fifo_itf_construct 1],
     xd_gst_r_slvs = [fifo_itf_construct 1, fifo_itf_construct 1], xd_gst_num = 2, xd_gst_bases = [0x1000, 0x2000], xd_gst_sizes = [0x1000, 0x1000],
     xd_rd_rsp_rr_idx = 0, xd_wr_rsp_rr_idx = 0, xd_ar_fifo = the (fifo_construct 2), xd_aw_fifo = the (fifo_construct 2),
     xd_w_fifo = the (fifo_construct 2), xd_rd_ost = the (ostk_construct 2), xd_wr_data_ost = the (ostq_construct 2),
     xd_wr_rsp_ost = the (ostk_construct 2), xd_perf_stg_ar_full = 0, xd_perf_stg_aw_full = 0, xd_perf_stg_w_full = 0\<rparr>"

lemma xd_sample_ready: "xd_ready xd_sample"
  by (simp add: xd_ready_def xd_sample_def itf_holds_def less_Suc_eq numeral_2_eq_2 ostk_construct_def ostk_reset_def
    ostq_construct_def ostq_reset_def fifo_construct_the)

definition xd_ar :: "u32 \<Rightarrow> axi4_ar" where
  "xd_ar a = \<lparr>ar_id = 5, ar_addr = a, ar_len = 0, ar_size = AXI4_AR_SIZE_B4, ar_burst = AXI4_AR_BURST_INCR, ar_lock = False, ar_cache = 0, ar_prot = 0,
     ar_qos = 0, ar_user = 0\<rparr>"

definition xd_r :: "u32 \<Rightarrow> axi4_r" where
  "xd_r x = \<lparr>ax_id = 5, ax_data = x, ax_resp = AXI4_R_RESP_OKAY, ax_last = True\<rparr>"

definition xd_script :: "xd_ev list" where
  "xd_script = [XIssueAr (xd_ar 0x2004), XTick, XIssueAr (xd_ar 0x1008), XTick, XGuestAr 0, XGuestAr 1, XGiveR 0 (xd_r 10), XTick, XTakeR,
     XGiveR 1 (xd_r 20), XTick, XTakeR, XTick, XTakeR]"

lemma xd_script_run: "map_option (\<lambda>z. map ax_data (gh_rs (z_rd z))) (xd_exec xd_script (xd_boot xd_sample)) = Some [20, 10]"
  by code_simp

theorem axi_demux_transparent_witness:
  "\<exists>z. xd_exec xd_script (xd_boot xd_sample) = Some z \<and> map ax_data (gh_rs (z_rd z)) = [20, 10]
    \<and> (\<exists>ts q. weaves ax_last (map (rd_target (axi_demux_decode xd_sample)) (filter (\<lambda>a. ar_id a = 5) (gh_ars (z_rd z))))
         (\<lambda>g. filter (\<lambda>r. ax_id r = 5) (gh_given (z_rd z) g)) (filter (\<lambda>r. ax_id r = 5) (gh_rs (z_rd z))) ts q)"
proof -
  have "axi_demux_decode xd_sample 0x2004 = Some 1" "axi_demux_decode xd_sample 0x1008 = Some 0" by code_simp+
  then have m: "XIssueAr a \<in> set xd_script \<Longrightarrow> axi_demux_decode xd_sample (ar_addr a) \<noteq> None"
    "XIssueAw b \<in> set xd_script \<Longrightarrow> axi_demux_decode xd_sample (aw_addr b) \<noteq> None" for a b
    by (auto simp: xd_script_def xd_ar_def)
  have "length xd_script < 2 ^ 64" by (simp add: xd_script_def)
  from axi_demux_transparent [OF xd_sample_ready this m] obtain z where z: "xd_exec xd_script (xd_boot xd_sample) = Some z"
    "\<forall>k. \<exists>ts q. weaves ax_last (map (rd_target (axi_demux_decode xd_sample)) (filter (\<lambda>a. ar_id a = k) (gh_ars (z_rd z))))
         (\<lambda>g. filter (\<lambda>r. ax_id r = k) (gh_given (z_rd z) g)) (filter (\<lambda>r. ax_id r = k) (gh_rs (z_rd z))) ts q" by blast
  with xd_script_run show ?thesis by auto
qed

section \<open>Reads outside every window\<close>

text \<open>Nothing of the read side is waiting in the demultiplexer; what the guests hold, and what the table says they owe, is open.\<close>

definition rd_quiet :: "axi_demux \<Rightarrow> bool" where
  "rd_quiet d \<longleftrightarrow> fifo_list (xd_ar_fifo d) = [] \<and> itf_list (xd_host_ar_slv d) = [] \<and> itf_list (xd_host_r_mst d) = []
     \<and> (\<forall>g<xd_gst_num d. itf_list (xd_gst_r_slvs d ! g) = [])"

definition decerr_beat :: "axi4_ar \<Rightarrow> axi4_r" where
  "decerr_beat a = \<lparr>ax_id = ar_id a, ax_data = 0, ax_resp = AXI4_R_RESP_DECERR, ax_last = True\<rparr>"

lemma capture_first:
  assumes "fifo_inv (xd_ar_fifo d)" "fifo_list (xd_ar_fifo d) = []" "itf_holds (xd_host_ar_slv d) [a]"
  shows "\<exists>t f. axi_demux_capture_ar d = Some (d\<lparr>xd_host_ar_slv := t, xd_ar_fifo := f\<rparr>) \<and> itf_holds t [] \<and> fifo_holds f [a]"
proof -
  have f: "fifo_holds (xd_ar_fifo d) []" using assms(1,2) by (simp add: fifo_holds_def)
  have nf: "\<not> fifo_full (xd_ar_fifo d)" using assms(1,2) fifo.is_full_iff [of "xd_ar_fifo d"] by (auto simp: fifo_inv_def ring_inv_def)
  from fifo_holds_push [OF f nf, of a] obtain f' where f': "fifo_push (xd_ar_fifo d) a = Some f'" "fifo_holds f' [a]" by auto
  from holds_Cons [OF assms(3)] obtain t where t: "itf_read (xd_host_ar_slv d) = Some (a, t)" "itf_holds t []" by blast
  have "axi_demux_capture_ar d = Some (d\<lparr>xd_host_ar_slv := t, xd_ar_fifo := f'\<rparr>)"
    using nf holds_Cons(1) [OF assms(3)] f'(1) t(1) by (simp add: axi_demux_capture_ar_def)
  with f'(2) t(2) show ?thesis by blast
qed

lemma proc_r_idle:
  assumes "rd_ports d" "\<forall>g<xd_gst_num d. itf_list (xd_gst_r_slvs d ! g) = []"
  shows "axi_demux_proc_r d = Some d"
proof (cases "itf_fifo_full (xd_host_r_mst d)")
  case False
  have "\<forall>g<xd_gst_num d. \<forall>r rs. itf_list (xd_gst_r_slvs d ! g) = r # rs \<longrightarrow> rd_tgts (xd_rd_ost d) (ax_id r) \<noteq> []"
    using assms(2) by simp
  from r_loop_cases [OF assms(1) False this, of "[0..<xd_gst_num d]"] show ?thesis
  proof (elim disjE exE conjE)
    assume "axi_demux_r_loop [0..<xd_gst_num d] d = Some d"
    with False show ?thesis by (simp add: axi_demux_proc_r_def)
  qed (use assms(2) in simp)
qed (simp add: axi_demux_proc_r_def)

lemma proc_ar_decerr:
  assumes "fifo_holds (xd_ar_fifo d) [a]" "axi_demux_decode d (ar_addr a) = None" "itf_holds (xd_host_r_mst d) []"
  shows "\<exists>d'. axi_demux_proc_ar d = Some d' \<and> itf_holds (xd_host_r_mst d') [decerr_beat a]"
proof -
  from fifo_holds_Cons [OF assms(1)] obtain f where f: "fifo_get_front (xd_ar_fifo d) = Some a" "fifo_pop (xd_ar_fifo d) = Some (a, f)" by blast
  from holds_write [OF assms(3), of "decerr_beat a"] holds_Nil [OF assms(3)] obtain t where
    t: "itf_write (xd_host_r_mst d) (decerr_beat a) = Some t" "itf_holds t [decerr_beat a]" by auto
  have "axi_demux_proc_ar d = Some (d\<lparr>xd_ar_fifo := f, xd_host_r_mst := t\<rparr>)"
    using f t(1) assms(2) fifo_holds_empty [OF assms(1)] holds_Nil [OF assms(3)] by (simp add: axi_demux_proc_ar_def decerr_beat_def)
  with t(2) show ?thesis by simp
qed

lemma decerr_tick:
  assumes rd: "rd_inv dec d G" and wr: "wr_inv dec d W" and seq: "unat (k_next_issue_seq (xd_wr_rsp_ost d)) < 2 ^ 64 - 1"
    and q: "rd_quiet d" and a: "dec (ar_addr a) = None" and t: "itf_holds t [a]"
  shows "\<exists>d'. axi_demux_clock (d\<lparr>xd_host_ar_slv := t\<rparr>) = Some d' \<and> itf_holds (xd_host_r_mst d') [decerr_beat a]"
proof -
  have p: "rd_ports d" and dec: "axi_demux_decode d = dec" using rd by (simp_all add: rd_inv_def)
  have i: "ostk_inv (xd_rd_ost d)" "ostq_inv (xd_wr_data_ost d)" "ostk_inv (xd_wr_rsp_ost d)"
    using rd wr by (simp_all add: rd_inv_def rd_ports_def wr_inv_def wr_ports_def)
  from ostk_clock_ok [OF i(1)] obtain o1 where o1: "ostk_clock (xd_rd_ost d) = Some o1" "ostk_inv o1" "ostk_queue o1 = ostk_queue (xd_rd_ost d)" by blast
  from ostq_clock_live [OF i(2)] obtain o2 where o2: "ostq_clock (xd_wr_data_ost d) = Some o2" "ostq_inv o2" "ostq_live o2 = ostq_live (xd_wr_data_ost d)" by blast
  from ostk_clock_ok [OF i(3)] obtain o3 where o3: "ostk_clock (xd_wr_rsp_ost d) = Some o3" "ostk_inv o3"
    "k_next_issue_seq o3 = k_next_issue_seq (xd_wr_rsp_ost d)" "ostk_queue o3 = ostk_queue (xd_wr_rsp_ost d)" by blast
  define d0 where "d0 = d\<lparr>xd_host_ar_slv := t, xd_rd_ost := o1, xd_wr_data_ost := o2, xd_wr_rsp_ost := o3\<rparr>"
  have w0: "wr_inv dec d0 W" using wr o2(2,3) o3(2,4)
    by (simp add: d0_def wr_inv_def wr_ports_def wr_order_def wd_order_def wr_balance_def wr_tgts_def no_decerr_def)
  have "fifo_inv (xd_ar_fifo d0)" "fifo_list (xd_ar_fifo d0) = []" "itf_holds (xd_host_ar_slv d0) [a]"
    using p q t by (simp_all add: d0_def rd_ports_def rd_quiet_def)
  from capture_first [OF this] obtain u f where c: "axi_demux_capture_ar d0 = Some (d0\<lparr>xd_host_ar_slv := u, xd_ar_fifo := f\<rparr>)"
    "itf_holds u []" "fifo_holds f [a]" by blast
  define d1 where "d1 = d0\<lparr>xd_host_ar_slv := u, xd_ar_fifo := f\<rparr>"
  have w1: "wr_inv dec d1 W" using wr_inv_cong [of d1 d0] w0 by (simp add: d1_def wr_part_def)
  from wr_capture_aw_ok [OF w1] obtain d2 where d2: "axi_demux_capture_aw d1 = Some d2" "wr_inv dec d2 W" "rd_part d2 = rd_part d1" "xd_wr_rsp_ost d2 = xd_wr_rsp_ost d1" by blast
  from wr_capture_w_ok [OF d2(2)] obtain d3 where d3: "axi_demux_capture_w d2 = Some d3" "wr_inv dec d3 W" "rd_part d3 = rd_part d2" "xd_wr_rsp_ost d3 = xd_wr_rsp_ost d2" by blast
  from wr_proc_b_ok [OF d3(2)] obtain d4 where d4: "axi_demux_proc_b d3 = Some d4" "wr_inv dec d4 W" "rd_part d4 = rd_part d3"
    "k_next_issue_seq (xd_wr_rsp_ost d4) = k_next_issue_seq (xd_wr_rsp_ost d3)" by blast
  have rp: "rd_part d4 = rd_part d1" using d4(3) d3(3) d2(3) by simp
  then have f4: "xd_gst_num d4 = xd_gst_num d" "axi_demux_decode d4 = dec" "xd_host_ar_slv d4 = u" "xd_ar_fifo d4 = f" "xd_gst_ar_msts d4 = xd_gst_ar_msts d"
    "xd_host_r_mst d4 = xd_host_r_mst d" "xd_gst_r_slvs d4 = xd_gst_r_slvs d" "xd_rd_ost d4 = o1" using dec by (simp_all add: rd_part_def d1_def d0_def)
  have "rd_ports d4" using p c(2,3) o1(2,3) unfolding rd_ports_def f4 by (simp add: itf_holds_def fifo_holds_def rd_tgts_def)
  moreover have "\<forall>g<xd_gst_num d4. itf_list (xd_gst_r_slvs d4 ! g) = []" using q by (simp add: f4 rd_quiet_def)
  ultimately have d5: "axi_demux_proc_r d4 = Some d4" by (rule proc_r_idle)
  from wr_proc_w_ok [OF d4(2)] obtain d6 where d6: "axi_demux_proc_w d4 = Some d6" "wr_inv dec d6 W" "rd_part d6 = rd_part d4" "xd_wr_rsp_ost d6 = xd_wr_rsp_ost d4" by blast
  have "unat (k_next_issue_seq (xd_wr_rsp_ost d6)) < 2 ^ 64 - 1"
    using seq d6(4) d4(4) d3(4) d2(4) o3(3) by (simp add: d1_def d0_def)
  from wr_proc_aw_ok [OF d6(2) this] obtain d7 where d7: "axi_demux_proc_aw d6 = Some d7" "rd_part d7 = rd_part d6" by blast
  have "fifo_holds (xd_ar_fifo d7) [a]" "axi_demux_decode d7 (ar_addr a) = None" "itf_holds (xd_host_r_mst d7) []"
    using d7(2) d6(3) f4 c(3) a p q by (simp_all add: rd_part_def itf_holds_def rd_ports_def rd_quiet_def)
  from proc_ar_decerr [OF this] obtain d8 where d8: "axi_demux_proc_ar d7 = Some d8" "itf_holds (xd_host_r_mst d8) [decerr_beat a]" by blast
  have "axi_demux_clock (d\<lparr>xd_host_ar_slv := t\<rparr>) = Some d8"
    unfolding axi_demux_clock_def using o1(1) o2(1) o3(1) c(1) d2(1) d3(1) d4(1) d5 d6(1) d7(1) d8(1) by (simp add: d0_def d1_def)
  with d8(2) show ?thesis by blast
qed

text \<open>
  C31. A read outside every window is answered at once, past the table of outstanding reads. After any run with mapped addresses that leaves no read and
  no beat waiting inside the demultiplexer, whatever reads the guests still owe: the host issues a read outside every window,
  one tick later its decode error is the next beat the host takes, marked as the last of its identifier. When an earlier read under that
  identifier is still with its guest, the error comes before that read's beats, and the host takes it for their end.
\<close>

theorem axi_demux_decerr_overtakes:
  assumes "xd_ready d" "length evs < 2 ^ 64 - 1"
    and "\<And>a. XIssueAr a \<in> set evs \<Longrightarrow> axi_demux_decode d (ar_addr a) \<noteq> None"
    and "\<And>a. XIssueAw a \<in> set evs \<Longrightarrow> axi_demux_decode d (aw_addr a) \<noteq> None"
    and "xd_exec evs (xd_boot d) = Some z" "rd_quiet (z_demux z)" "axi_demux_decode d (ar_addr a) = None"
  shows "\<exists>z'. xd_exec [XIssueAr a, XTick, XTakeR] z = Some z' \<and> gh_ars (z_rd z') = gh_ars (z_rd z) @ [a]
    \<and> gh_rs (z_rd z') = gh_rs (z_rd z) @ [\<lparr>ax_id = ar_id a, ax_data = 0, ax_resp = AXI4_R_RESP_DECERR, ax_last = True\<rparr>]"
proof -
  let ?d = "z_demux z"
  from xd_ok_exec_seq [OF xd_boot_ok [OF assms(1)], of evs] assms(2-5)
  have "xd_ok (axi_demux_decode d) (xd_gst_num d) (length evs) z" by auto
  then have i: "rd_inv (axi_demux_decode d) ?d (z_rd z)" "wr_inv (axi_demux_decode d) ?d (z_wr z)"
    "unat (k_next_issue_seq (xd_wr_rsp_ost ?d)) < 2 ^ 64 - 1" using assms(2) by (simp_all add: xd_ok_def)
  have "itf_holds (xd_host_ar_slv ?d) []" using rd_ports_inv [OF i(1)] assms(6) by (simp add: itf_holds_def rd_quiet_def)
  with holds_write [OF this, of a] holds_Nil [OF this] obtain t where t: "\<not> itf_fifo_full (xd_host_ar_slv ?d)"
    "itf_write (xd_host_ar_slv ?d) a = Some t" "itf_holds t [a]" by auto
  from decerr_tick [OF i assms(6,7) t(3)] obtain d' where d': "axi_demux_clock (?d\<lparr>xd_host_ar_slv := t\<rparr>) = Some d'"
    "itf_holds (xd_host_r_mst d') [decerr_beat a]" by blast
  from holds_Cons [OF d'(2)] obtain u where "\<not> itf_fifo_empty (xd_host_r_mst d')" "itf_read (xd_host_r_mst d') = Some (decerr_beat a, u)" by blast
  with t(1,2) d'(1) show ?thesis by (simp add: Let_def decerr_beat_def)
qed

theorem axi_demux_decerr_overtakes_witness:
  "\<exists>z z'. xd_exec [XIssueAr (xd_ar 0x1004), XTick, XGuestAr 0] (xd_boot xd_sample) = Some z \<and> xd_exec [XIssueAr (xd_ar 0x9000), XTick, XTakeR] z = Some z'
    \<and> map ar_id (gh_ars (z_rd z')) = [5, 5] \<and> map (\<lambda>r. (ax_id r, ax_resp r)) (gh_rs (z_rd z')) = [(5, AXI4_R_RESP_DECERR)]"
proof -
  let ?evs = "[XIssueAr (xd_ar 0x1004), XTick, XGuestAr 0]"
  have m: "axi_demux_decode xd_sample (ar_addr (xd_ar 0x1004)) \<noteq> None" "axi_demux_decode xd_sample (ar_addr (xd_ar 0x9000)) = None" by code_simp+
  have "map_option (\<lambda>z. (rd_quiet (z_demux z), gh_ars (z_rd z), gh_rs (z_rd z))) (xd_exec ?evs (xd_boot xd_sample)) = Some (True, [xd_ar 0x1004], [])"
    by code_simp
  then obtain z where z: "xd_exec ?evs (xd_boot xd_sample) = Some z" "rd_quiet (z_demux z)" "gh_ars (z_rd z) = [xd_ar 0x1004]" "gh_rs (z_rd z) = []" by auto
  have "\<And>a. XIssueAr a \<in> set ?evs \<Longrightarrow> axi_demux_decode xd_sample (ar_addr a) \<noteq> None" "\<And>a. XIssueAw a \<in> set ?evs \<Longrightarrow> axi_demux_decode xd_sample (aw_addr a) \<noteq> None"
    using m(1) by auto
  from axi_demux_decerr_overtakes [OF xd_sample_ready _ this z(1,2) m(2)] z show ?thesis by (fastforce simp: xd_ar_def)
qed

end
