(* ===== verification/AxiMux.thy ===== *)
theory AxiMux
  imports AxiPackets Ports Ost Ostk
begin

text \<open>
  The AXI4 multiplexer (\<^verbatim>\<open>bus/mux/axi_mux.c\<close>): several hosts share one guest. Addresses are forwarded round-robin; two keyed tables
  remember, per identifier, which host gets the next answer, an in-order table whose data beats come next.
\<close>

section \<open>axi_mux.c\<close>

record axi_mux_ost_ctx =
  xc_host_idx :: nat

record axi_mux =
  xm_host_aw_slvs :: "axi4_aw itf list"
  xm_host_w_slvs :: "axi4_w itf list"
  xm_host_b_msts :: "axi4_b itf list"
  xm_host_ar_slvs :: "axi4_ar itf list"
  xm_host_r_msts :: "axi4_r itf list"
  xm_gst_aw_mst :: "axi4_aw itf"
  xm_gst_w_mst :: "axi4_w itf"
  xm_gst_b_slv :: "axi4_b itf"
  xm_gst_ar_mst :: "axi4_ar itf"
  xm_gst_r_slv :: "axi4_r itf"
  xm_host_num :: nat
  xm_rd_rr_idx :: nat
  xm_wr_rr_idx :: nat
  xm_host_ar_fifos :: "axi4_ar fifo list"
  xm_host_aw_fifos :: "axi4_aw fifo list"
  xm_host_w_fifos :: "axi4_w fifo list"
  xm_rd_ost :: "axi_mux_ost_ctx ostk"
  xm_wr_data_ost :: "axi_mux_ost_ctx ostq"
  xm_wr_rsp_ost :: "axi_mux_ost_ctx ostk"
  xm_perf_stg_ar_full :: u64
  xm_perf_stg_aw_full :: u64
  xm_perf_stg_w_full :: u64

definition axi_mux_reset :: "axi_mux \<Rightarrow> axi_mux" where
  "axi_mux_reset m = m\<lparr>xm_rd_rr_idx := 0, xm_wr_rr_idx := 0, xm_host_ar_fifos := map fifo_reset (xm_host_ar_fifos m),
     xm_host_aw_fifos := map fifo_reset (xm_host_aw_fifos m), xm_host_w_fifos := map fifo_reset (xm_host_w_fifos m),
     xm_rd_ost := ostk_reset (xm_rd_ost m), xm_wr_data_ost := ostq_reset (xm_wr_data_ost m), xm_wr_rsp_ost := ostk_reset (xm_wr_rsp_ost m),
     xm_perf_stg_ar_full := 0, xm_perf_stg_aw_full := 0, xm_perf_stg_w_full := 0\<rparr>"

text \<open>
  The three capture loops have the same body: it moves a packet from an interface to a staging queue, or
  counts that there was no room. \<open>stage\<close> is that body on one host's interface, queue and counter.
\<close>

definition stage :: "'a itf \<Rightarrow> 'a fifo \<Rightarrow> u64 \<Rightarrow> ('a itf \<times> 'a fifo \<times> u64) option" where
  "stage t f perf =
     (if fifo_full f then Some (t, f, if \<not> itf_fifo_empty t then perf + 1 else perf)
      else if itf_fifo_empty t then Some (t, f, perf)
      else do { (x, t) \<leftarrow> itf_read t; f \<leftarrow> fifo_push f x; Some (t, f, perf) })"

fun stage_all :: "nat list \<Rightarrow> 'a itf list \<Rightarrow> 'a fifo list \<Rightarrow> u64 \<Rightarrow> ('a itf list \<times> 'a fifo list \<times> u64) option" where
  "stage_all [] ts fs perf = Some (ts, fs, perf)"
| "stage_all (i # is) ts fs perf = do {
     t \<leftarrow> arr_get ts i;
     f \<leftarrow> arr_get fs i;
     (t, f, perf) \<leftarrow> stage t f perf;
     stage_all is (ts[i := t]) (fs[i := f]) perf
   }"

definition axi_mux_capture_ar :: "axi_mux \<Rightarrow> axi_mux option" where
  "axi_mux_capture_ar m = do {
     (ts, fs, perf) \<leftarrow> stage_all [0..<xm_host_num m] (xm_host_ar_slvs m) (xm_host_ar_fifos m) (xm_perf_stg_ar_full m);
     Some (m\<lparr>xm_host_ar_slvs := ts, xm_host_ar_fifos := fs, xm_perf_stg_ar_full := perf\<rparr>)
   }"

definition axi_mux_capture_aw :: "axi_mux \<Rightarrow> axi_mux option" where
  "axi_mux_capture_aw m = do {
     (ts, fs, perf) \<leftarrow> stage_all [0..<xm_host_num m] (xm_host_aw_slvs m) (xm_host_aw_fifos m) (xm_perf_stg_aw_full m);
     Some (m\<lparr>xm_host_aw_slvs := ts, xm_host_aw_fifos := fs, xm_perf_stg_aw_full := perf\<rparr>)
   }"

definition axi_mux_capture_w :: "axi_mux \<Rightarrow> axi_mux option" where
  "axi_mux_capture_w m = do {
     (ts, fs, perf) \<leftarrow> stage_all [0..<xm_host_num m] (xm_host_w_slvs m) (xm_host_w_fifos m) (xm_perf_stg_w_full m);
     Some (m\<lparr>xm_host_w_slvs := ts, xm_host_w_fifos := fs, xm_perf_stg_w_full := perf\<rparr>)
   }"

definition axi_mux_proc_b :: "axi_mux \<Rightarrow> axi_mux option" where
  "axi_mux_proc_b m =
     (if itf_fifo_empty (xm_gst_b_slv m) then Some m
      else do {
        b \<leftarrow> itf_fifo_get_front (xm_gst_b_slv m);
        p \<leftarrow> ostk_peek_key (xm_wr_rsp_ost m) (ucast (ab_id b));
        (slot, ctx) \<leftarrow> p;
        DBG_CHECK (xc_host_idx ctx < xm_host_num m);
        host_b \<leftarrow> arr_get (xm_host_b_msts m) (xc_host_idx ctx);
        if itf_fifo_full host_b then Some m
        else do {
          t \<leftarrow> itf_fifo_pop_front (xm_gst_b_slv m);
          u \<leftarrow> itf_write host_b b;
          ost \<leftarrow> ostk_free_slot (xm_wr_rsp_ost m) slot;
          Some (m\<lparr>xm_gst_b_slv := t, xm_host_b_msts := (xm_host_b_msts m)[xc_host_idx ctx := u], xm_wr_rsp_ost := ost\<rparr>)
        }
      })"

definition axi_mux_proc_r :: "axi_mux \<Rightarrow> axi_mux option" where
  "axi_mux_proc_r m =
     (if itf_fifo_empty (xm_gst_r_slv m) then Some m
      else do {
        r \<leftarrow> itf_fifo_get_front (xm_gst_r_slv m);
        p \<leftarrow> ostk_peek_key (xm_rd_ost m) (ucast (ax_id r));
        (slot, ctx) \<leftarrow> p;
        DBG_CHECK (xc_host_idx ctx < xm_host_num m);
        host_r \<leftarrow> arr_get (xm_host_r_msts m) (xc_host_idx ctx);
        if itf_fifo_full host_r then Some m
        else do {
          t \<leftarrow> itf_fifo_pop_front (xm_gst_r_slv m);
          u \<leftarrow> itf_write host_r r;
          ost \<leftarrow> (if ax_last r then ostk_free_slot (xm_rd_ost m) slot else Some (xm_rd_ost m));
          Some (m\<lparr>xm_gst_r_slv := t, xm_host_r_msts := (xm_host_r_msts m)[xc_host_idx ctx := u], xm_rd_ost := ost\<rparr>)
        }
      })"

definition axi_mux_proc_w :: "axi_mux \<Rightarrow> axi_mux option" where
  "axi_mux_proc_w m =
     (if itf_fifo_full (xm_gst_w_mst m) then Some m
      else do {
        head \<leftarrow> ostq_peek_head (xm_wr_data_ost m);
        case head of
          None \<Rightarrow> Some m
        | Some (slot, ctx) \<Rightarrow> do {
            DBG_CHECK (xc_host_idx ctx < xm_host_num m);
            host_w_fifo \<leftarrow> arr_get (xm_host_w_fifos m) (xc_host_idx ctx);
            if fifo_empty host_w_fifo then Some m
            else do {
              (w, f) \<leftarrow> fifo_pop host_w_fifo;
              t \<leftarrow> itf_write (xm_gst_w_mst m) w;
              ost \<leftarrow> (if aw_last w then ostq_free_head (xm_wr_data_ost m) else Some (xm_wr_data_ost m));
              Some (m\<lparr>xm_host_w_fifos := (xm_host_w_fifos m)[xc_host_idx ctx := f], xm_gst_w_mst := t, xm_wr_data_ost := ost\<rparr>)
            }
          }
      })"

text \<open>The host whose turn it is: the first one, from the round-robin index on, with a staged address.\<close>

definition next_staged :: "nat \<Rightarrow> nat \<Rightarrow> 'a fifo list \<Rightarrow> nat option" where
  "next_staged rr n fs = map_option (\<lambda>i. (rr + i) mod n) (List.find (\<lambda>i. \<not> fifo_empty (fs ! ((rr + i) mod n))) [0..<n])"

definition axi_mux_proc_aw :: "axi_mux \<Rightarrow> axi_mux option" where
  "axi_mux_proc_aw m =
     (if ostq_full (xm_wr_data_ost m) \<or> ostk_full (xm_wr_rsp_ost m) then Some m
      else if itf_fifo_full (xm_gst_aw_mst m) then Some m
      else case next_staged (xm_wr_rr_idx m) (xm_host_num m) (xm_host_aw_fifos m) of
        None \<Rightarrow> Some m
      | Some host_idx \<Rightarrow> do {
          host_aw_fifo \<leftarrow> arr_get (xm_host_aw_fifos m) host_idx;
          aw \<leftarrow> fifo_get_front host_aw_fifo;
          p \<leftarrow> ostq_alloc (xm_wr_data_ost m) \<lparr>xc_host_idx = host_idx\<rparr>;
          (data_slot, dost) \<leftarrow> p;
          q \<leftarrow> ostk_alloc (xm_wr_rsp_ost m) (ucast (aw_id aw)) \<lparr>xc_host_idx = host_idx\<rparr>;
          (rsp_slot, ost) \<leftarrow> q;
          (aw, f) \<leftarrow> fifo_pop host_aw_fifo;
          t \<leftarrow> itf_write (xm_gst_aw_mst m) aw;
          Some (m\<lparr>xm_wr_data_ost := dost, xm_wr_rsp_ost := ost, xm_host_aw_fifos := (xm_host_aw_fifos m)[host_idx := f], xm_gst_aw_mst := t,
            xm_wr_rr_idx := (host_idx + 1) mod xm_host_num m\<rparr>)
        })"

definition axi_mux_proc_ar :: "axi_mux \<Rightarrow> axi_mux option" where
  "axi_mux_proc_ar m =
     (if ostk_full (xm_rd_ost m) then Some m
      else if itf_fifo_full (xm_gst_ar_mst m) then Some m
      else case next_staged (xm_rd_rr_idx m) (xm_host_num m) (xm_host_ar_fifos m) of
        None \<Rightarrow> Some m
      | Some host_idx \<Rightarrow> do {
          host_ar_fifo \<leftarrow> arr_get (xm_host_ar_fifos m) host_idx;
          ar \<leftarrow> fifo_get_front host_ar_fifo;
          q \<leftarrow> ostk_alloc (xm_rd_ost m) (ucast (ar_id ar)) \<lparr>xc_host_idx = host_idx\<rparr>;
          (slot, ost) \<leftarrow> q;
          (ar, f) \<leftarrow> fifo_pop host_ar_fifo;
          t \<leftarrow> itf_write (xm_gst_ar_mst m) ar;
          Some (m\<lparr>xm_rd_ost := ost, xm_host_ar_fifos := (xm_host_ar_fifos m)[host_idx := f], xm_gst_ar_mst := t,
            xm_rd_rr_idx := (host_idx + 1) mod xm_host_num m\<rparr>)
        })"

definition axi_mux_clock :: "axi_mux \<Rightarrow> axi_mux option" where
  "axi_mux_clock m = do {
     rd \<leftarrow> ostk_clock (xm_rd_ost m);
     wd \<leftarrow> ostq_clock (xm_wr_data_ost m);
     wr \<leftarrow> ostk_clock (xm_wr_rsp_ost m);
     let m = m\<lparr>xm_rd_ost := rd, xm_wr_data_ost := wd, xm_wr_rsp_ost := wr\<rparr>;
     m \<leftarrow> axi_mux_capture_ar m;
     m \<leftarrow> axi_mux_capture_aw m;
     m \<leftarrow> axi_mux_capture_w m;
     m \<leftarrow> axi_mux_proc_b m;
     m \<leftarrow> axi_mux_proc_r m;
     m \<leftarrow> axi_mux_proc_w m;
     m \<leftarrow> axi_mux_proc_aw m;
     axi_mux_proc_ar m
   }"

section \<open>Staging\<close>

text \<open>Staging moves packets along and loses none.\<close>

definition staged :: "'a itf list \<Rightarrow> 'a fifo list \<Rightarrow> nat \<Rightarrow> 'a list" where
  "staged ts fs h = (if h < length ts then fifo_list (fs ! h) @ itf_list (ts ! h) else [])"

definition stage_ok :: "nat \<Rightarrow> 'a itf list \<Rightarrow> 'a fifo list \<Rightarrow> bool" where
  "stage_ok n ts fs \<longleftrightarrow> length ts = n \<and> length fs = n \<and> (\<forall>h<n. itf_inv (ts ! h) \<and> fifo_inv (fs ! h))"

lemma stage_one:
  assumes "itf_inv t" "fifo_inv f"
  shows "\<exists>t' f' perf'. stage t f perf = Some (t', f', perf') \<and> itf_inv t' \<and> fifo_inv f' \<and> fifo_list f' @ itf_list t' = fifo_list f @ itf_list t"
proof (cases "fifo_full f \<or> itf_fifo_empty t")
  case True
  with assms show ?thesis by (auto simp: stage_def)
next
  case False
  then have nf: "\<not> fifo_full f" and ne: "\<not> itf_fifo_empty t" by simp_all
  obtain x t' where t: "itf_read t = Some (x, t')" "itf_inv t'" "itf_list t = x # itf_list t'" by (rule itf.pop_not_empty [OF assms(1) ne])
  obtain f' where f: "fifo_push f x = Some f'" "fifo_inv f'" "fifo_list f' = fifo_list f @ [x]" by (rule fifo.push_not_full [OF assms(2) nf])
  with nf ne t show ?thesis by (simp add: stage_def)
qed

lemma stage_all_ok:
  "stage_ok n ts fs \<Longrightarrow> \<forall>i\<in>set js. i < n \<Longrightarrow>
    \<exists>ts' fs' perf'. stage_all js ts fs perf = Some (ts', fs', perf') \<and> stage_ok n ts' fs' \<and> staged ts' fs' = staged ts fs"
proof (induction js arbitrary: ts fs perf)
  case (Cons i js)
  have i: "i < n" "i < length ts" "i < length fs" "itf_inv (ts ! i)" "fifo_inv (fs ! i)" using Cons.prems by (simp_all add: stage_ok_def)
  from stage_one [OF i(4,5), of perf] obtain t f p where
    s: "stage (ts ! i) (fs ! i) perf = Some (t, f, p)" "itf_inv t" "fifo_inv f" "fifo_list f @ itf_list t = fifo_list (fs ! i) @ itf_list (ts ! i)" by blast
  have "stage_ok n (ts[i := t]) (fs[i := f])"
    using Cons.prems(1) s(2,3) nth_upd_all [of n itf_inv ts t i] nth_upd_all [of n fifo_inv fs f i] by (simp add: stage_ok_def)
  moreover have "staged (ts[i := t]) (fs[i := f]) = staged ts fs"
    using s(4) i by (auto simp: staged_def fun_eq_iff nth_list_update)
  ultimately obtain ts' fs' p' where r: "stage_all js (ts[i := t]) (fs[i := f]) p = Some (ts', fs', p')" "stage_ok n ts' fs'" "staged ts' fs' = staged ts fs"
    using Cons.IH [of "ts[i := t]" "fs[i := f]" p] Cons.prems(2) by auto
  with i s(1) show ?case by simp
qed auto

lemma next_staged_Some:
  assumes "next_staged rr n fs = Some h"
  shows "h < n \<and> \<not> fifo_empty (fs ! h)"
proof -
  from assms obtain i where i: "List.find (\<lambda>i. \<not> fifo_empty (fs ! ((rr + i) mod n))) [0..<n] = Some i" "h = (rr + i) mod n"
    by (auto simp: next_staged_def)
  from find_SomeD [OF i(1)] i(2) show ?thesis by auto
qed

end
