(* ===== verification/AxiMuxRd.thy ===== *)
theory AxiMuxRd
  imports AxiMux Bursts OstSlots
begin

text \<open>
  The read channels of the AXI4 multiplexer: the reads of all hosts reach the guest in one order that keeps each host's own, and the
  beats of the guest under one identifier go, burst by burst, to the hosts in that order.
\<close>

section \<open>Invariant\<close>

definition mx_hosts :: "axi_mux_ost_ctx ostk \<Rightarrow> u8 \<Rightarrow> nat list" where
  "mx_hosts ost k = map xc_host_idx (ostk_queue ost (ucast k))"

lemma mx_hosts_upd:
  "ostk_queue ost' = (ostk_queue ost)(ucast k := cs) \<Longrightarrow> mx_hosts ost' = (mx_hosts ost)(k := map xc_host_idx cs)"
  by (auto simp: mx_hosts_def fun_eq_iff ucast_u8_inj)

record mrd_ghost =
  mr_ars :: "nat \<Rightarrow> axi4_ar list"
  mr_taken :: "axi4_ar list"
  mr_held :: "u8 \<Rightarrow> nat"
  mr_given :: "axi4_r list"
  mr_rs :: "nat \<Rightarrow> axi4_r list"

definition mrd_ports :: "axi_mux \<Rightarrow> bool" where
  "mrd_ports m \<longleftrightarrow> 0 < xm_host_num m \<and> stage_ok (xm_host_num m) (xm_host_ar_slvs m) (xm_host_ar_fifos m)
     \<and> length (xm_host_r_msts m) = xm_host_num m \<and> (\<forall>h<xm_host_num m. itf_inv (xm_host_r_msts m ! h))
     \<and> itf_inv (xm_gst_ar_mst m) \<and> itf_inv (xm_gst_r_slv m) \<and> ostk_inv (xm_rd_ost m) \<and> (\<forall>k. \<forall>h\<in>set (mx_hosts (xm_rd_ost m) k). h < xm_host_num m)"

definition mrd_order :: "axi_mux \<Rightarrow> mrd_ghost \<Rightarrow> (nat \<times> axi4_ar) list \<Rightarrow> u8 \<Rightarrow> axi4_r list \<Rightarrow> (nat \<Rightarrow> axi4_r list) \<Rightarrow> bool" where
  "mrd_order m G acc k used outs \<longleftrightarrow>
     filter (\<lambda>r. ax_id r = k) (mr_given G) = used @ filter (\<lambda>r. ax_id r = k) (itf_list (xm_gst_r_slv m))
     \<and> deals ax_last (map fst (filter (\<lambda>x. ar_id (snd x) = k) acc)) used outs (mx_hosts (xm_rd_ost m) k)
     \<and> (\<forall>h<xm_host_num m. filter (\<lambda>r. ax_id r = k) (mr_rs G h @ itf_list (xm_host_r_msts m ! h)) = outs h)"

definition mrd_balance :: "axi_mux \<Rightarrow> mrd_ghost \<Rightarrow> u8 \<Rightarrow> bool" where
  "mrd_balance m G k \<longleftrightarrow>
     length (mx_hosts (xm_rd_ost m) k) = length (filter (\<lambda>a. ar_id a = k) (itf_list (xm_gst_ar_mst m))) + mr_held G k
       + length (filter (\<lambda>r. ax_id r = k \<and> ax_last r) (itf_list (xm_gst_r_slv m)))"

definition mrd_open :: "axi_mux \<Rightarrow> mrd_ghost \<Rightarrow> u8 \<Rightarrow> bool" where
  "mrd_open m G k \<longleftrightarrow> (let rs = filter (\<lambda>r. ax_id r = k) (itf_list (xm_gst_r_slv m)) in
     rs \<noteq> [] \<longrightarrow> \<not> ax_last (last rs) \<longrightarrow> 0 < mr_held G k)"

definition mrd_inv :: "axi_mux \<Rightarrow> mrd_ghost \<Rightarrow> bool" where
  "mrd_inv m G \<longleftrightarrow> mrd_ports m
     \<and> (\<exists>acc. (\<forall>h<xm_host_num m. mr_ars G h = of_host h acc @ staged (xm_host_ar_slvs m) (xm_host_ar_fifos m) h)
          \<and> mr_taken G @ itf_list (xm_gst_ar_mst m) = map snd acc \<and> (\<forall>k. \<exists>used outs. mrd_order m G acc k used outs))
     \<and> (\<forall>k. mrd_balance m G k \<and> mrd_open m G k)"

lemma mrd_invD:
  assumes "mrd_inv m G"
  obtains acc where "mrd_ports m" "\<forall>h<xm_host_num m. mr_ars G h = of_host h acc @ staged (xm_host_ar_slvs m) (xm_host_ar_fifos m) h"
    "mr_taken G @ itf_list (xm_gst_ar_mst m) = map snd acc" "\<forall>k. \<exists>used outs. mrd_order m G acc k used outs"
    "\<forall>k. mrd_balance m G k" "\<forall>k. mrd_open m G k"
  using assms unfolding mrd_inv_def by blast

lemma mrd_invI:
  assumes "mrd_ports m" "\<forall>h<xm_host_num m. mr_ars G h = of_host h acc @ staged (xm_host_ar_slvs m) (xm_host_ar_fifos m) h"
    "mr_taken G @ itf_list (xm_gst_ar_mst m) = map snd acc" "\<forall>k. \<exists>used outs. mrd_order m G acc k used outs"
    "\<forall>k. mrd_balance m G k" "\<forall>k. mrd_open m G k"
  shows "mrd_inv m G"
  using assms unfolding mrd_inv_def by blast

text \<open>The members of the write channels, and those of the read channels.\<close>

definition mwr_part where
  "mwr_part m = (xm_host_num m, (xm_host_aw_slvs m, xm_host_aw_fifos m, xm_gst_aw_mst m, xm_host_w_slvs m, xm_host_w_fifos m, xm_gst_w_mst m),
     xm_host_b_msts m, xm_gst_b_slv m, xm_wr_rsp_ost m, xm_wr_data_ost m)"

definition mrd_part where
  "mrd_part m = (xm_host_num m, xm_host_ar_slvs m, xm_host_ar_fifos m, xm_gst_ar_mst m, xm_host_r_msts m, xm_gst_r_slv m, xm_rd_ost m)"

lemma mrd_inv_cong: "mrd_part m' = mrd_part m \<Longrightarrow> mrd_inv m' G = mrd_inv m G"
  by (simp add: mrd_part_def mrd_inv_def mrd_ports_def mrd_order_def mrd_balance_def mrd_open_def)

lemma mrd_front_known:
  assumes "mrd_inv m G" "itf_list (xm_gst_r_slv m) = r # rs"
  shows "mx_hosts (xm_rd_ost m) (ax_id r) \<noteq> []"
proof -
  let ?k = "ax_id r" and ?ps = "filter (\<lambda>x. ax_id x = ax_id r) (itf_list (xm_gst_r_slv m))"
  have b: "mrd_balance m G ?k" "mrd_open m G ?k" using assms(1) by (simp_all add: mrd_inv_def)
  have ne: "?ps \<noteq> []" using assms(2) by simp
  have "0 < mr_held G ?k \<or> 0 < length (filter (\<lambda>x. ax_id x = ?k \<and> ax_last x) (itf_list (xm_gst_r_slv m)))"
  proof (cases "ax_last (last ?ps)")
    case True
    have "last ?ps \<in> set ?ps" using ne by (rule last_in_set)
    with True have "last ?ps \<in> set (filter (\<lambda>x. ax_id x = ?k \<and> ax_last x) (itf_list (xm_gst_r_slv m)))" by simp
    then show ?thesis using length_pos_if_in_set by fast
  next
    case False
    with b(2) ne show ?thesis by (simp add: mrd_open_def Let_def)
  qed
  with b(1) have "0 < length (mx_hosts (xm_rd_ost m) ?k)" by (auto simp: mrd_balance_def)
  then show ?thesis by auto
qed

section \<open>The steps of a tick\<close>

lemma mrd_capture_ok:
  assumes "mrd_inv m G"
  shows "\<exists>m'. axi_mux_capture_ar m = Some m' \<and> mrd_inv m' G \<and> mwr_part m' = mwr_part m \<and> xm_rd_ost m' = xm_rd_ost m"
proof -
  have "stage_ok (xm_host_num m) (xm_host_ar_slvs m) (xm_host_ar_fifos m)" using assms by (simp add: mrd_inv_def mrd_ports_def)
  from stage_all_ok [OF this, of "[0..<xm_host_num m]" "xm_perf_stg_ar_full m"] obtain ts fs p where
    s: "stage_all [0..<xm_host_num m] (xm_host_ar_slvs m) (xm_host_ar_fifos m) (xm_perf_stg_ar_full m) = Some (ts, fs, p)"
    "stage_ok (xm_host_num m) ts fs" "staged ts fs = staged (xm_host_ar_slvs m) (xm_host_ar_fifos m)" by auto
  define m' where "m' = m\<lparr>xm_host_ar_slvs := ts, xm_host_ar_fifos := fs, xm_perf_stg_ar_full := p\<rparr>"
  have "axi_mux_capture_ar m = Some m'" using s(1) by (simp add: axi_mux_capture_ar_def m'_def)
  moreover have "mrd_inv m' G"
    using assms s(2,3) by (simp add: m'_def mrd_inv_def mrd_ports_def mrd_order_def mrd_balance_def mrd_open_def)
  moreover have "mwr_part m' = mwr_part m" "xm_rd_ost m' = xm_rd_ost m" by (simp_all add: m'_def mwr_part_def)
  ultimately show ?thesis by blast
qed

lemma mrd_proc_r_ok:
  assumes inv: "mrd_inv m G"
  shows "\<exists>m'. axi_mux_proc_r m = Some m' \<and> mrd_inv m' G \<and> mwr_part m' = mwr_part m
    \<and> k_next_issue_seq (xm_rd_ost m') = k_next_issue_seq (xm_rd_ost m)"
proof -
  from inv obtain acc where v: "mrd_ports m" "\<forall>h<xm_host_num m. mr_ars G h = of_host h acc @ staged (xm_host_ar_slvs m) (xm_host_ar_fifos m) h"
    "mr_taken G @ itf_list (xm_gst_ar_mst m) = map snd acc" "\<forall>k. \<exists>used outs. mrd_order m G acc k used outs"
    "\<forall>k. mrd_balance m G k" "\<forall>k. mrd_open m G k" by (rule mrd_invD)
  have i: "itf_inv (xm_gst_r_slv m)" "ostk_inv (xm_rd_ost m)" using v(1) by (simp_all add: mrd_ports_def)
  show ?thesis
  proof (cases "itf_list (xm_gst_r_slv m)")
    case Nil
    then have "axi_mux_proc_r m = Some m" using i(1) by (simp add: axi_mux_proc_r_def itf.is_empty_iff)
    with inv show ?thesis by simp
  next
    case (Cons r rs)
    let ?k = "ax_id r"
    note ne = holds_Cons [of "xm_gst_r_slv m" r rs, unfolded itf_holds_def, OF conjI [OF i(1) Cons]]
    from mrd_front_known [OF inv Cons] obtain c cs where q: "ostk_queue (xm_rd_ost m) (ucast ?k) = c # cs"
      by (cases "ostk_queue (xm_rd_ost m) (ucast ?k)") (auto simp: mx_hosts_def)
    let ?h = "xc_host_idx c"
    have hs: "mx_hosts (xm_rd_ost m) ?k = ?h # map xc_host_idx cs" using q by (simp add: mx_hosts_def)
    then have "?h \<in> set (mx_hosts (xm_rd_ost m) ?k)" by simp
    then have h: "?h < xm_host_num m" using v(1) unfolding mrd_ports_def by blast
    have len: "?h < length (xm_host_r_msts m)" "itf_inv (xm_host_r_msts m ! ?h)" using v(1) h by (simp_all add: mrd_ports_def)
    from ostk_take_head [OF i(2) q] obtain slot ost where
      tk: "ostk_peek_key (xm_rd_ost m) (ucast ?k) = Some (Some (slot, c))" "ostk_free_slot (xm_rd_ost m) slot = Some ost" "ostk_inv ost"
      "ostk_queue ost = (ostk_queue (xm_rd_ost m))(ucast ?k := cs)" "k_next_issue_seq ost = k_next_issue_seq (xm_rd_ost m)" by blast
    show ?thesis
    proof (cases "itf_fifo_full (xm_host_r_msts m ! ?h)")
      case True
      then have "axi_mux_proc_r m = Some m" using ne(1,2) tk(1) h len(1) by (simp add: axi_mux_proc_r_def)
      with inv show ?thesis by simp
    next
      case room: False
      from ne(3) obtain t where t: "itf_fifo_pop_front (xm_gst_r_slv m) = Some t" "itf_inv t" "itf_list t = rs" by blast
      from itf.push_ok [OF len(2) room, of r] obtain u where
        u: "itf_write (xm_host_r_msts m ! ?h) r = Some u" "itf_inv u" "itf_list u = itf_list (xm_host_r_msts m ! ?h) @ [r]" by blast
      define ost' where "ost' = (if ax_last r then ost else xm_rd_ost m)"
      define m' where "m' = m\<lparr>xm_gst_r_slv := t, xm_host_r_msts := (xm_host_r_msts m)[?h := u], xm_rd_ost := ost'\<rparr>"
      have step: "axi_mux_proc_r m = Some m'"
        using ne(1,2) tk(1,2) h len(1) room t(1) u(1) by (simp add: axi_mux_proc_r_def m'_def ost'_def)
      have o': "ostk_inv ost'" "k_next_issue_seq ost' = k_next_issue_seq (xm_rd_ost m)"
        "mx_hosts ost' j = (if j = ?k \<and> ax_last r then map xc_host_idx cs else mx_hosts (xm_rd_ost m) j)" for j
        using tk(3,5) i(2) mx_hosts_upd [OF tk(4)] by (auto simp: ost'_def)
      have "set (mx_hosts ost' j) \<subseteq> set (mx_hosts (xm_rd_ost m) j)" for j using o'(3) [of j] hs by (auto split: if_splits)
      then have "\<forall>k. \<forall>h\<in>set (mx_hosts ost' k). h < xm_host_num m" using v(1) unfolding mrd_ports_def by blast
      moreover have "\<forall>h<xm_host_num m. itf_inv ((xm_host_r_msts m)[?h := u] ! h)"
        by (rule nth_upd_all) (use v(1) u(2) in \<open>simp_all add: mrd_ports_def\<close>)
      ultimately have ports: "mrd_ports m'" using v(1) t(2) o'(1) by (simp add: mrd_ports_def m'_def)
      have order: "\<exists>used outs. mrd_order m' G acc j used outs" for j
      proof -
        from v(4) obtain used outs where mo: "mrd_order m G acc j used outs" by blast
        show ?thesis
        proof (cases "j = ?k")
          case False
          have "filter (\<lambda>r. ax_id r = j) (mr_rs G g @ itf_list ((xm_host_r_msts m)[?h := u] ! g)) = outs g" if "g < xm_host_num m" for g
          proof -
            have "filter (\<lambda>r. ax_id r = j) (mr_rs G g @ itf_list (xm_host_r_msts m ! g)) = outs g" using mo that by (simp add: mrd_order_def)
            then show ?thesis using False u(3) len(1) by (cases "g = ?h") simp_all
          qed
          then have "mrd_order m' G acc j used outs" using mo False Cons t(3) o'(3) [of j] by (simp add: mrd_order_def m'_def)
          then show ?thesis by blast
        next
          case True
          have "deals ax_last (map fst (filter (\<lambda>x. ar_id (snd x) = j) acc)) used outs (?h # map xc_host_idx cs)" using mo hs True by (simp add: mrd_order_def)
          from deals_beat [OF this, of r] have d: "deals ax_last (map fst (filter (\<lambda>x. ar_id (snd x) = j) acc)) (used @ [r]) (outs(?h := outs ?h @ [r])) (mx_hosts ost' j)"
            using o'(3) [of j] True hs by (simp split: if_splits)
          have "filter (\<lambda>r. ax_id r = j) (mr_rs G g @ itf_list ((xm_host_r_msts m)[?h := u] ! g)) = (outs(?h := outs ?h @ [r])) g" if "g < xm_host_num m" for g
          proof -
            have "filter (\<lambda>r. ax_id r = j) (mr_rs G g @ itf_list (xm_host_r_msts m ! g)) = outs g" using mo that by (simp add: mrd_order_def)
            then show ?thesis using True u(3) len(1) by (cases "g = ?h") auto
          qed
          with d mo True Cons t(3) have "mrd_order m' G acc j (used @ [r]) (outs(?h := outs ?h @ [r]))" by (simp add: mrd_order_def m'_def)
          then show ?thesis by blast
        qed
      qed
      have bal: "mrd_balance m' G j" for j
        using v(5) [rule_format, of j] o'(3) [of j] hs t(3) Cons by (auto simp: mrd_balance_def m'_def)
      have opn: "mrd_open m' G j" for j
        using v(6) [rule_format, of j] t(3) Cons by (auto simp: mrd_open_def m'_def Let_def split: if_splits)
      have "mrd_inv m' G" by (rule mrd_invI [of m' G acc]) (use ports order bal opn v(2,3) in \<open>simp_all add: m'_def\<close>)
      with step o'(2) show ?thesis by (simp add: m'_def mwr_part_def)
    qed
  qed
qed

lemma mrd_proc_ar_ok:
  assumes inv: "mrd_inv m G" and seq: "unat (k_next_issue_seq (xm_rd_ost m)) < 2 ^ 64 - 1"
  shows "\<exists>m'. axi_mux_proc_ar m = Some m' \<and> mrd_inv m' G \<and> mwr_part m' = mwr_part m
    \<and> unat (k_next_issue_seq (xm_rd_ost m')) \<le> unat (k_next_issue_seq (xm_rd_ost m)) + 1"
proof -
  from inv obtain acc where v: "mrd_ports m" "\<forall>h<xm_host_num m. mr_ars G h = of_host h acc @ staged (xm_host_ar_slvs m) (xm_host_ar_fifos m) h"
    "mr_taken G @ itf_list (xm_gst_ar_mst m) = map snd acc" "\<forall>k. \<exists>used outs. mrd_order m G acc k used outs"
    "\<forall>k. mrd_balance m G k" "\<forall>k. mrd_open m G k" by (rule mrd_invD)
  have i: "itf_inv (xm_gst_ar_mst m)" "ostk_inv (xm_rd_ost m)" "stage_ok (xm_host_num m) (xm_host_ar_slvs m) (xm_host_ar_fifos m)"
    using v(1) by (simp_all add: mrd_ports_def)
  show ?thesis
  proof (cases "ostk_full (xm_rd_ost m) \<or> itf_fifo_full (xm_gst_ar_mst m) \<or> next_staged (xm_rd_rr_idx m) (xm_host_num m) (xm_host_ar_fifos m) = None")
    case True
    then have "axi_mux_proc_ar m = Some m" by (auto simp: axi_mux_proc_ar_def)
    with inv show ?thesis by simp
  next
    case False
    then obtain h where ns: "next_staged (xm_rd_rr_idx m) (xm_host_num m) (xm_host_ar_fifos m) = Some h" by auto
    let ?f = "xm_host_ar_fifos m ! h"
    have h: "h < xm_host_num m" "\<not> fifo_empty ?f" using next_staged_Some [OF ns] by simp_all
    have len: "h < length (xm_host_ar_fifos m)" "h < length (xm_host_ar_slvs m)" "fifo_inv ?f" using i(3) h(1) by (simp_all add: stage_ok_def)
    obtain ar f where f: "fifo_pop ?f = Some (ar, f)" "fifo_inv f" "fifo_list ?f = ar # fifo_list f" "fifo_get_front ?f = Some ar"
      by (rule fifo.pop_not_empty [OF len(3) h(2)])
    from itf.push_ok [OF i(1), of ar] False obtain t where
      t: "itf_write (xm_gst_ar_mst m) ar = Some t" "itf_inv t" "itf_list t = itf_list (xm_gst_ar_mst m) @ [ar]" by blast
    from ostk_alloc_ok [OF i(2) _ seq, of "ucast (ar_id ar)" "\<lparr>xc_host_idx = h\<rparr>"] False obtain slot ost where
      al: "ostk_alloc (xm_rd_ost m) (ucast (ar_id ar)) \<lparr>xc_host_idx = h\<rparr> = Some (Some (slot, ost))" "ostk_inv ost"
      "ostk_queue ost = (ostk_queue (xm_rd_ost m))(ucast (ar_id ar) := ostk_queue (xm_rd_ost m) (ucast (ar_id ar)) @ [\<lparr>xc_host_idx = h\<rparr>])"
      "unat (k_next_issue_seq ost) = unat (k_next_issue_seq (xm_rd_ost m)) + 1" by blast
    define m' where "m' = m\<lparr>xm_rd_ost := ost, xm_host_ar_fifos := (xm_host_ar_fifos m)[h := f], xm_gst_ar_mst := t,
      xm_rd_rr_idx := (h + 1) mod xm_host_num m\<rparr>"
    have step: "axi_mux_proc_ar m = Some m'"
      using False ns len(1) f(1,4) t(1) al(1) by (simp add: axi_mux_proc_ar_def m'_def)
    have hs: "mx_hosts ost = (mx_hosts (xm_rd_ost m))(ar_id ar := mx_hosts (xm_rd_ost m) (ar_id ar) @ [h])"
      using mx_hosts_upd [OF al(3)] by (simp add: mx_hosts_def)
    have "stage_ok (xm_host_num m) (xm_host_ar_slvs m) ((xm_host_ar_fifos m)[h := f])"
      using i(3) f(2) nth_upd_all [of "xm_host_num m" fifo_inv "xm_host_ar_fifos m" f h] by (simp add: stage_ok_def)
    moreover have "\<forall>k. \<forall>g\<in>set (mx_hosts ost k). g < xm_host_num m" using v(1) hs h(1) by (auto simp: mrd_ports_def split: if_splits)
    ultimately have ports: "mrd_ports m'" using v(1) t(2) al(2) by (simp add: mrd_ports_def m'_def)
    have ars: "mr_ars G g = of_host g (acc @ [(h, ar)]) @ staged (xm_host_ar_slvs m) ((xm_host_ar_fifos m)[h := f]) g" if "g < xm_host_num m" for g
      using v(2) [rule_format, OF that] f(3) len(1,2) i(3) by (cases "g = h") (simp_all add: staged_def stage_ok_def)
    have order: "\<exists>used outs. mrd_order m' G (acc @ [(h, ar)]) k used outs" for k
    proof -
      from v(4) obtain used outs where mo: "mrd_order m G acc k used outs" by blast
      then have "mrd_order m' G (acc @ [(h, ar)]) k used outs"
        using hs deals_more_targets [of ax_last _ used outs _ "[h]"] by (auto simp: mrd_order_def m'_def)
      then show ?thesis by blast
    qed
    have bal: "mrd_balance m' G k" for k using v(5) [rule_format, of k] hs t(3) by (auto simp: mrd_balance_def m'_def)
    have opn: "mrd_open m' G k" for k using v(6) [rule_format, of k] by (simp add: mrd_open_def m'_def)
    have "mrd_inv m' G"
      by (rule mrd_invI [of m' G "acc @ [(h, ar)]"]) (use ports ars order bal opn v(3) t(3) in \<open>simp_all add: m'_def\<close>)
    with step al(4) show ?thesis by (simp add: m'_def mwr_part_def)
  qed
qed

section \<open>What the hosts and the guest do\<close>

lemma mrd_ports_inv: "mrd_inv m G \<Longrightarrow> itf_inv (xm_gst_ar_mst m) \<and> itf_inv (xm_gst_r_slv m)
    \<and> (\<forall>h<xm_host_num m. itf_inv (xm_host_ar_slvs m ! h) \<and> itf_inv (xm_host_r_msts m ! h))
    \<and> length (xm_host_ar_slvs m) = xm_host_num m \<and> length (xm_host_r_msts m) = xm_host_num m"
  by (simp add: mrd_inv_def mrd_ports_def stage_ok_def)

lemma staged_push:
  assumes "stage_ok n ts fs" "h < n" "itf_inv t" "itf_list t = itf_list (ts ! h) @ [x]"
  shows "stage_ok n (ts[h := t]) fs" "staged (ts[h := t]) fs = (staged ts fs)(h := staged ts fs h @ [x])"
  using assms nth_upd_all [of n itf_inv ts t h] by (auto simp: stage_ok_def staged_def fun_eq_iff)

lemma mrd_issue:
  assumes inv: "mrd_inv m G" and h: "h < xm_host_num m" and w: "itf_write (xm_host_ar_slvs m ! h) a = Some t"
  shows "mrd_inv (m\<lparr>xm_host_ar_slvs := (xm_host_ar_slvs m)[h := t]\<rparr>) (G\<lparr>mr_ars := (mr_ars G)(h := mr_ars G h @ [a])\<rparr>)" (is "mrd_inv ?m ?G")
proof -
  from inv obtain acc where v: "mrd_ports m" "\<forall>h<xm_host_num m. mr_ars G h = of_host h acc @ staged (xm_host_ar_slvs m) (xm_host_ar_fifos m) h"
    "mr_taken G @ itf_list (xm_gst_ar_mst m) = map snd acc" "\<forall>k. \<exists>used outs. mrd_order m G acc k used outs"
    "\<forall>k. mrd_balance m G k" "\<forall>k. mrd_open m G k" by (rule mrd_invD)
  have t: "itf_inv t" "itf_list t = itf_list (xm_host_ar_slvs m ! h) @ [a]" using itf.push_SomeD [OF w] mrd_ports_inv [OF inv] h by simp_all
  have so: "stage_ok (xm_host_num m) (xm_host_ar_slvs m) (xm_host_ar_fifos m)" using v(1) by (simp add: mrd_ports_def)
  note st = staged_push [OF so h t]
  have "mrd_ports ?m" using v(1) st(1) by (simp add: mrd_ports_def)
  moreover have "\<forall>g<xm_host_num m. mr_ars ?G g = of_host g acc @ staged ((xm_host_ar_slvs m)[h := t]) (xm_host_ar_fifos m) g"
    using v(2) by (auto simp: st(2))
  moreover have "mrd_order ?m ?G acc k used outs = mrd_order m G acc k used outs" "mrd_balance ?m ?G k = mrd_balance m G k"
    "mrd_open ?m ?G k = mrd_open m G k" for k used outs by (simp_all add: mrd_order_def mrd_balance_def mrd_open_def)
  ultimately show ?thesis using v(3-6) by (intro mrd_invI [of ?m ?G acc]) simp_all
qed

lemma mrd_receive:
  assumes inv: "mrd_inv m G" and h: "h < xm_host_num m" and w: "itf_read (xm_host_r_msts m ! h) = Some (r, t)"
  shows "mrd_inv (m\<lparr>xm_host_r_msts := (xm_host_r_msts m)[h := t]\<rparr>) (G\<lparr>mr_rs := (mr_rs G)(h := mr_rs G h @ [r])\<rparr>)" (is "mrd_inv ?m ?G")
proof -
  from inv obtain acc where v: "mrd_ports m" "\<forall>h<xm_host_num m. mr_ars G h = of_host h acc @ staged (xm_host_ar_slvs m) (xm_host_ar_fifos m) h"
    "mr_taken G @ itf_list (xm_gst_ar_mst m) = map snd acc" "\<forall>k. \<exists>used outs. mrd_order m G acc k used outs"
    "\<forall>k. mrd_balance m G k" "\<forall>k. mrd_open m G k" by (rule mrd_invD)
  have t: "itf_inv t" "itf_list (xm_host_r_msts m ! h) = r # itf_list t" and len: "h < length (xm_host_r_msts m)"
    using itf.pop_SomeD [OF w] mrd_ports_inv [OF inv] h by simp_all
  have "\<forall>g<xm_host_num m. itf_inv ((xm_host_r_msts m)[h := t] ! g)"
    by (rule nth_upd_all) (use v(1) t(1) in \<open>simp_all add: mrd_ports_def\<close>)
  then have "mrd_ports ?m" using v(1) by (simp add: mrd_ports_def)
  moreover have "mr_rs ?G g @ itf_list (xm_host_r_msts ?m ! g) = mr_rs G g @ itf_list (xm_host_r_msts m ! g)" for g
    using t(2) len by (cases "g = h") simp_all
  then have "mrd_order ?m ?G acc k used outs = mrd_order m G acc k used outs" for k used outs unfolding mrd_order_def by simp
  moreover have "mrd_balance ?m ?G k = mrd_balance m G k" "mrd_open ?m ?G k = mrd_open m G k" for k
    by (simp_all add: mrd_balance_def mrd_open_def)
  ultimately show ?thesis using v(2-6) by (intro mrd_invI [of ?m ?G acc]) simp_all
qed

lemma mrd_take:
  assumes inv: "mrd_inv m G" and w: "itf_read (xm_gst_ar_mst m) = Some (a, t)"
  shows "mrd_inv (m\<lparr>xm_gst_ar_mst := t\<rparr>) (G\<lparr>mr_taken := mr_taken G @ [a], mr_held := (mr_held G)(ar_id a := mr_held G (ar_id a) + 1)\<rparr>)"
    (is "mrd_inv ?m ?G")
proof -
  from inv obtain acc where v: "mrd_ports m" "\<forall>h<xm_host_num m. mr_ars G h = of_host h acc @ staged (xm_host_ar_slvs m) (xm_host_ar_fifos m) h"
    "mr_taken G @ itf_list (xm_gst_ar_mst m) = map snd acc" "\<forall>k. \<exists>used outs. mrd_order m G acc k used outs"
    "\<forall>k. mrd_balance m G k" "\<forall>k. mrd_open m G k" by (rule mrd_invD)
  have t: "itf_inv t" "itf_list (xm_gst_ar_mst m) = a # itf_list t" using itf.pop_SomeD [OF w] mrd_ports_inv [OF inv] by simp_all
  have "mrd_ports ?m" using v(1) t(1) by (simp add: mrd_ports_def)
  moreover have "mrd_order ?m ?G acc k used outs = mrd_order m G acc k used outs" for k used outs by (simp add: mrd_order_def)
  moreover have "mrd_balance ?m ?G k" for k using v(5) [rule_format, of k] t(2) by (auto simp: mrd_balance_def)
  moreover have "mrd_open ?m ?G k" for k using v(6) [rule_format, of k] by (auto simp: mrd_open_def Let_def)
  ultimately show ?thesis using v(2-4) t(2) by (intro mrd_invI [of ?m ?G acc]) simp_all
qed

lemma mrd_give:
  assumes inv: "mrd_inv m G" and held: "0 < mr_held G (ax_id r)" and w: "itf_write (xm_gst_r_slv m) r = Some t"
  shows "mrd_inv (m\<lparr>xm_gst_r_slv := t\<rparr>)
    (G\<lparr>mr_given := mr_given G @ [r], mr_held := (mr_held G)(ax_id r := mr_held G (ax_id r) - of_bool (ax_last r))\<rparr>)" (is "mrd_inv ?m ?G")
proof -
  from inv obtain acc where v: "mrd_ports m" "\<forall>h<xm_host_num m. mr_ars G h = of_host h acc @ staged (xm_host_ar_slvs m) (xm_host_ar_fifos m) h"
    "mr_taken G @ itf_list (xm_gst_ar_mst m) = map snd acc" "\<forall>k. \<exists>used outs. mrd_order m G acc k used outs"
    "\<forall>k. mrd_balance m G k" "\<forall>k. mrd_open m G k" by (rule mrd_invD)
  have t: "itf_inv t" "itf_list t = itf_list (xm_gst_r_slv m) @ [r]" using itf.push_SomeD [OF w] mrd_ports_inv [OF inv] by simp_all
  have "mrd_ports ?m" using v(1) t(1) by (simp add: mrd_ports_def)
  moreover have "mrd_order m G acc k used outs \<Longrightarrow> mrd_order ?m ?G acc k used outs" for k used outs by (simp add: mrd_order_def t(2))
  then have "\<forall>k. \<exists>used outs. mrd_order ?m ?G acc k used outs" using v(4) by blast
  moreover have "mrd_balance ?m ?G k" for k using v(5) [rule_format, of k] t(2) held by (auto simp: mrd_balance_def)
  moreover have "mrd_open ?m ?G k" for k using v(6) [rule_format, of k] t(2) held by (auto simp: mrd_open_def Let_def)
  ultimately show ?thesis using v(2,3) by (intro mrd_invI [of ?m ?G acc]) simp_all
qed

definition mrd_result :: "nat \<Rightarrow> mrd_ghost \<Rightarrow> bool" where
  "mrd_result n G \<longleftrightarrow> (\<exists>acc. (\<forall>h<n. \<exists>rest. mr_ars G h = of_host h acc @ rest) \<and> (\<exists>rest. map snd acc = mr_taken G @ rest)
     \<and> (\<forall>k. \<exists>used later outs ts. filter (\<lambda>r. ax_id r = k) (mr_given G) = used @ later
          \<and> deals ax_last (map fst (filter (\<lambda>x. ar_id (snd x) = k) acc)) used outs ts
          \<and> (\<forall>h<n. \<exists>rest. outs h = filter (\<lambda>r. ax_id r = k) (mr_rs G h) @ rest)))"

lemma mrd_inv_result: "mrd_inv m G \<Longrightarrow> mrd_result (xm_host_num m) G"
proof -
  assume "mrd_inv m G"
  then obtain acc where v: "\<forall>h<xm_host_num m. mr_ars G h = of_host h acc @ staged (xm_host_ar_slvs m) (xm_host_ar_fifos m) h"
    "mr_taken G @ itf_list (xm_gst_ar_mst m) = map snd acc" "\<forall>k. \<exists>used outs. mrd_order m G acc k used outs" by (rule mrd_invD)
  have "\<exists>used later outs ts. filter (\<lambda>r. ax_id r = k) (mr_given G) = used @ later
      \<and> deals ax_last (map fst (filter (\<lambda>x. ar_id (snd x) = k) acc)) used outs ts
      \<and> (\<forall>h<xm_host_num m. \<exists>rest. outs h = filter (\<lambda>r. ax_id r = k) (mr_rs G h) @ rest)" for k
  proof -
    from v(3) obtain used outs where mo: "mrd_order m G acc k used outs" by blast
    then have "\<forall>h<xm_host_num m. \<exists>rest. outs h = filter (\<lambda>r. ax_id r = k) (mr_rs G h) @ rest"
      unfolding mrd_order_def by (metis filter_append)
    with mo show ?thesis unfolding mrd_order_def by blast
  qed
  moreover have "\<forall>h<xm_host_num m. \<exists>rest. mr_ars G h = of_host h acc @ rest" using v(1) by blast
  moreover have "\<exists>rest. map snd acc = mr_taken G @ rest" using v(2) by metis
  ultimately show ?thesis unfolding mrd_result_def by blast
qed

end
