(* ===== verification/AxiMuxWr.thy ===== *)
theory AxiMuxWr
  imports AxiMuxRd
begin

text \<open>
  The write channels of the AXI4 multiplexer: the writes of all hosts reach the guest in one order that keeps each host's own, their data
  beats follow burst by burst in that same order, and the guest's responses under one identifier go to the hosts in that order.
\<close>

section \<open>Invariant\<close>

record mwr_ghost =
  mw_aws :: "nat \<Rightarrow> axi4_aw list"
  mw_taken :: "axi4_aw list"
  mw_held :: "u8 \<Rightarrow> nat"
  mw_given :: "axi4_b list"
  mw_bs :: "nat \<Rightarrow> axi4_b list"
  mw_ws :: "nat \<Rightarrow> axi4_w list"
  mw_wtaken :: "axi4_w list"

definition mwr_ports :: "axi_mux \<Rightarrow> bool" where
  "mwr_ports m \<longleftrightarrow> 0 < xm_host_num m \<and> stage_ok (xm_host_num m) (xm_host_aw_slvs m) (xm_host_aw_fifos m)
     \<and> stage_ok (xm_host_num m) (xm_host_w_slvs m) (xm_host_w_fifos m)
     \<and> length (xm_host_b_msts m) = xm_host_num m \<and> (\<forall>h<xm_host_num m. itf_inv (xm_host_b_msts m ! h))
     \<and> itf_inv (xm_gst_aw_mst m) \<and> itf_inv (xm_gst_w_mst m) \<and> itf_inv (xm_gst_b_slv m)
     \<and> ostk_inv (xm_wr_rsp_ost m) \<and> (\<forall>k. \<forall>h\<in>set (mx_hosts (xm_wr_rsp_ost m) k). h < xm_host_num m)
     \<and> ostq_inv (xm_wr_data_ost m) \<and> (\<forall>c\<in>set (ostq_live (xm_wr_data_ost m)). xc_host_idx c < xm_host_num m)"

definition mwr_order :: "axi_mux \<Rightarrow> mwr_ghost \<Rightarrow> (nat \<times> axi4_aw) list \<Rightarrow> u8 \<Rightarrow> axi4_b list \<Rightarrow> (nat \<Rightarrow> axi4_b list) \<Rightarrow> bool" where
  "mwr_order m G acc k used outs \<longleftrightarrow>
     filter (\<lambda>b. ab_id b = k) (mw_given G) = used @ filter (\<lambda>b. ab_id b = k) (itf_list (xm_gst_b_slv m))
     \<and> deals (\<lambda>_. True) (map fst (filter (\<lambda>x. aw_id (snd x) = k) acc)) used outs (mx_hosts (xm_wr_rsp_ost m) k)
     \<and> (\<forall>h<xm_host_num m. filter (\<lambda>b. ab_id b = k) (mw_bs G h @ itf_list (xm_host_b_msts m ! h)) = outs h)"

definition mwd_order :: "axi_mux \<Rightarrow> mwr_ghost \<Rightarrow> (nat \<times> axi4_aw) list \<Rightarrow> bool" where
  "mwd_order m G acc \<longleftrightarrow> weaves aw_last (map fst acc) (mw_ws G) (mw_wtaken G @ itf_list (xm_gst_w_mst m))
     (map xc_host_idx (ostq_live (xm_wr_data_ost m))) (staged (xm_host_w_slvs m) (xm_host_w_fifos m))"

definition mwr_balance :: "axi_mux \<Rightarrow> mwr_ghost \<Rightarrow> u8 \<Rightarrow> bool" where
  "mwr_balance m G k \<longleftrightarrow>
     length (mx_hosts (xm_wr_rsp_ost m) k) = length (filter (\<lambda>a. aw_id a = k) (itf_list (xm_gst_aw_mst m))) + mw_held G k
       + length (filter (\<lambda>b. ab_id b = k) (itf_list (xm_gst_b_slv m)))"

definition mwr_inv :: "axi_mux \<Rightarrow> mwr_ghost \<Rightarrow> bool" where
  "mwr_inv m G \<longleftrightarrow> mwr_ports m
     \<and> (\<exists>acc. (\<forall>h<xm_host_num m. mw_aws G h = of_host h acc @ staged (xm_host_aw_slvs m) (xm_host_aw_fifos m) h)
          \<and> mw_taken G @ itf_list (xm_gst_aw_mst m) = map snd acc \<and> (\<forall>k. \<exists>used outs. mwr_order m G acc k used outs) \<and> mwd_order m G acc)
     \<and> (\<forall>k. mwr_balance m G k)"

lemma mwr_invD:
  assumes "mwr_inv m G"
  obtains acc where "mwr_ports m" "\<forall>h<xm_host_num m. mw_aws G h = of_host h acc @ staged (xm_host_aw_slvs m) (xm_host_aw_fifos m) h"
    "mw_taken G @ itf_list (xm_gst_aw_mst m) = map snd acc" "\<forall>k. \<exists>used outs. mwr_order m G acc k used outs" "mwd_order m G acc" "\<forall>k. mwr_balance m G k"
  using assms unfolding mwr_inv_def by blast

lemma mwr_invI:
  assumes "mwr_ports m" "\<forall>h<xm_host_num m. mw_aws G h = of_host h acc @ staged (xm_host_aw_slvs m) (xm_host_aw_fifos m) h"
    "mw_taken G @ itf_list (xm_gst_aw_mst m) = map snd acc" "\<forall>k. \<exists>used outs. mwr_order m G acc k used outs" "mwd_order m G acc" "\<forall>k. mwr_balance m G k"
  shows "mwr_inv m G"
  using assms unfolding mwr_inv_def by blast

lemma mwr_inv_cong: "mwr_part m' = mwr_part m \<Longrightarrow> mwr_inv m' G = mwr_inv m G"
  by (simp add: mwr_part_def mwr_inv_def mwr_ports_def mwr_order_def mwd_order_def mwr_balance_def)

section \<open>The steps of a tick\<close>

lemma mwr_capture_aw_ok:
  assumes "mwr_inv m G"
  shows "\<exists>m'. axi_mux_capture_aw m = Some m' \<and> mwr_inv m' G \<and> mrd_part m' = mrd_part m \<and> xm_wr_rsp_ost m' = xm_wr_rsp_ost m"
proof -
  have "stage_ok (xm_host_num m) (xm_host_aw_slvs m) (xm_host_aw_fifos m)" using assms by (simp add: mwr_inv_def mwr_ports_def)
  from stage_all_ok [OF this, of "[0..<xm_host_num m]" "xm_perf_stg_aw_full m"] obtain ts fs p where
    s: "stage_all [0..<xm_host_num m] (xm_host_aw_slvs m) (xm_host_aw_fifos m) (xm_perf_stg_aw_full m) = Some (ts, fs, p)"
    "stage_ok (xm_host_num m) ts fs" "staged ts fs = staged (xm_host_aw_slvs m) (xm_host_aw_fifos m)" by auto
  define m' where "m' = m\<lparr>xm_host_aw_slvs := ts, xm_host_aw_fifos := fs, xm_perf_stg_aw_full := p\<rparr>"
  have "axi_mux_capture_aw m = Some m'" using s(1) by (simp add: axi_mux_capture_aw_def m'_def)
  moreover have "mwr_inv m' G"
    using assms s(2,3) by (simp add: m'_def mwr_inv_def mwr_ports_def mwr_order_def mwd_order_def mwr_balance_def)
  moreover have "mrd_part m' = mrd_part m" "xm_wr_rsp_ost m' = xm_wr_rsp_ost m" by (simp_all add: m'_def mrd_part_def)
  ultimately show ?thesis by blast
qed

lemma mwr_capture_w_ok:
  assumes "mwr_inv m G"
  shows "\<exists>m'. axi_mux_capture_w m = Some m' \<and> mwr_inv m' G \<and> mrd_part m' = mrd_part m \<and> xm_wr_rsp_ost m' = xm_wr_rsp_ost m"
proof -
  have "stage_ok (xm_host_num m) (xm_host_w_slvs m) (xm_host_w_fifos m)" using assms by (simp add: mwr_inv_def mwr_ports_def)
  from stage_all_ok [OF this, of "[0..<xm_host_num m]" "xm_perf_stg_w_full m"] obtain ts fs p where
    s: "stage_all [0..<xm_host_num m] (xm_host_w_slvs m) (xm_host_w_fifos m) (xm_perf_stg_w_full m) = Some (ts, fs, p)"
    "stage_ok (xm_host_num m) ts fs" "staged ts fs = staged (xm_host_w_slvs m) (xm_host_w_fifos m)" by auto
  define m' where "m' = m\<lparr>xm_host_w_slvs := ts, xm_host_w_fifos := fs, xm_perf_stg_w_full := p\<rparr>"
  have "axi_mux_capture_w m = Some m'" using s(1) by (simp add: axi_mux_capture_w_def m'_def)
  moreover have "mwr_inv m' G"
    using assms s(2,3) by (simp add: m'_def mwr_inv_def mwr_ports_def mwr_order_def mwd_order_def mwr_balance_def)
  moreover have "mrd_part m' = mrd_part m" "xm_wr_rsp_ost m' = xm_wr_rsp_ost m" by (simp_all add: m'_def mrd_part_def)
  ultimately show ?thesis by blast
qed

lemma mwr_front_known:
  assumes "mwr_inv m G" "itf_list (xm_gst_b_slv m) = b # bs"
  shows "mx_hosts (xm_wr_rsp_ost m) (ab_id b) \<noteq> []"
proof -
  have "mwr_balance m G (ab_id b)" using assms(1) by (simp add: mwr_inv_def)
  then have "0 < length (mx_hosts (xm_wr_rsp_ost m) (ab_id b))" using assms(2) by (simp add: mwr_balance_def)
  then show ?thesis by auto
qed

lemma mwr_proc_b_ok:
  assumes inv: "mwr_inv m G"
  shows "\<exists>m'. axi_mux_proc_b m = Some m' \<and> mwr_inv m' G \<and> mrd_part m' = mrd_part m
    \<and> k_next_issue_seq (xm_wr_rsp_ost m') = k_next_issue_seq (xm_wr_rsp_ost m)"
proof -
  from inv obtain acc where v: "mwr_ports m" "\<forall>h<xm_host_num m. mw_aws G h = of_host h acc @ staged (xm_host_aw_slvs m) (xm_host_aw_fifos m) h"
    "mw_taken G @ itf_list (xm_gst_aw_mst m) = map snd acc" "\<forall>k. \<exists>used outs. mwr_order m G acc k used outs" "mwd_order m G acc"
    "\<forall>k. mwr_balance m G k" by (rule mwr_invD)
  have i: "itf_inv (xm_gst_b_slv m)" "ostk_inv (xm_wr_rsp_ost m)" using v(1) by (simp_all add: mwr_ports_def)
  show ?thesis
  proof (cases "itf_list (xm_gst_b_slv m)")
    case Nil
    then have "axi_mux_proc_b m = Some m" using i(1) by (simp add: axi_mux_proc_b_def itf.is_empty_iff)
    with inv show ?thesis by simp
  next
    case (Cons b bs)
    let ?k = "ab_id b"
    note ne = holds_Cons [of "xm_gst_b_slv m" b bs, unfolded itf_holds_def, OF conjI [OF i(1) Cons]]
    from mwr_front_known [OF inv Cons] obtain c cs where q: "ostk_queue (xm_wr_rsp_ost m) (ucast ?k) = c # cs"
      by (cases "ostk_queue (xm_wr_rsp_ost m) (ucast ?k)") (auto simp: mx_hosts_def)
    let ?h = "xc_host_idx c"
    have hs: "mx_hosts (xm_wr_rsp_ost m) ?k = ?h # map xc_host_idx cs" using q by (simp add: mx_hosts_def)
    then have "?h \<in> set (mx_hosts (xm_wr_rsp_ost m) ?k)" by simp
    then have h: "?h < xm_host_num m" using v(1) unfolding mwr_ports_def by blast
    have len: "?h < length (xm_host_b_msts m)" "itf_inv (xm_host_b_msts m ! ?h)" using v(1) h by (simp_all add: mwr_ports_def)
    from ostk_take_head [OF i(2) q] obtain slot ost where
      tk: "ostk_peek_key (xm_wr_rsp_ost m) (ucast ?k) = Some (Some (slot, c))" "ostk_free_slot (xm_wr_rsp_ost m) slot = Some ost" "ostk_inv ost"
      "ostk_queue ost = (ostk_queue (xm_wr_rsp_ost m))(ucast ?k := cs)" "k_next_issue_seq ost = k_next_issue_seq (xm_wr_rsp_ost m)" by blast
    show ?thesis
    proof (cases "itf_fifo_full (xm_host_b_msts m ! ?h)")
      case True
      then have "axi_mux_proc_b m = Some m" using ne(1,2) tk(1) h len(1) by (simp add: axi_mux_proc_b_def)
      with inv show ?thesis by simp
    next
      case room: False
      from ne(3) obtain t where t: "itf_fifo_pop_front (xm_gst_b_slv m) = Some t" "itf_inv t" "itf_list t = bs" by blast
      from itf.push_ok [OF len(2) room, of b] obtain u where
        u: "itf_write (xm_host_b_msts m ! ?h) b = Some u" "itf_inv u" "itf_list u = itf_list (xm_host_b_msts m ! ?h) @ [b]" by blast
      define m' where "m' = m\<lparr>xm_gst_b_slv := t, xm_host_b_msts := (xm_host_b_msts m)[?h := u], xm_wr_rsp_ost := ost\<rparr>"
      have step: "axi_mux_proc_b m = Some m'"
        using ne(1,2) tk(1,2) h len(1) room t(1) u(1) by (simp add: axi_mux_proc_b_def m'_def)
      have hs': "mx_hosts ost = (mx_hosts (xm_wr_rsp_ost m))(?k := map xc_host_idx cs)" by (rule mx_hosts_upd [OF tk(4)])
      have "set (mx_hosts ost j) \<subseteq> set (mx_hosts (xm_wr_rsp_ost m) j)" for j using hs' hs by auto
      then have "\<forall>k. \<forall>h\<in>set (mx_hosts ost k). h < xm_host_num m" using v(1) unfolding mwr_ports_def by blast
      moreover have "\<forall>h<xm_host_num m. itf_inv ((xm_host_b_msts m)[?h := u] ! h)"
        by (rule nth_upd_all) (use v(1) u(2) in \<open>simp_all add: mwr_ports_def\<close>)
      ultimately have ports: "mwr_ports m'" using v(1) t(2) tk(3) by (simp add: mwr_ports_def m'_def)
      have order: "\<exists>used outs. mwr_order m' G acc j used outs" for j
      proof -
        from v(4) obtain used outs where mo: "mwr_order m G acc j used outs" by blast
        have e: "filter (\<lambda>b. ab_id b = j) (mw_bs G g @ itf_list (xm_host_b_msts m ! g)) = outs g" if "g < xm_host_num m" for g
          using mo that by (simp add: mwr_order_def)
        show ?thesis
        proof (cases "j = ?k")
          case False
          have "filter (\<lambda>b. ab_id b = j) (mw_bs G g @ itf_list ((xm_host_b_msts m)[?h := u] ! g)) = outs g" if "g < xm_host_num m" for g
            using e [OF that] False u(3) len(1) by (cases "g = ?h") simp_all
          then have "mwr_order m' G acc j used outs" using mo False Cons t(3) hs' by (simp add: mwr_order_def m'_def)
          then show ?thesis by blast
        next
          case True
          have "deals (\<lambda>_. True) (map fst (filter (\<lambda>x. aw_id (snd x) = j) acc)) used outs (?h # map xc_host_idx cs)" using mo hs True by (simp add: mwr_order_def)
          from deals_beat [OF this, of b] have d: "deals (\<lambda>_. True) (map fst (filter (\<lambda>x. aw_id (snd x) = j) acc)) (used @ [b]) (outs(?h := outs ?h @ [b])) (mx_hosts ost j)"
            using hs' True by simp
          have "filter (\<lambda>b. ab_id b = j) (mw_bs G g @ itf_list ((xm_host_b_msts m)[?h := u] ! g)) = (outs(?h := outs ?h @ [b])) g" if "g < xm_host_num m" for g
            using e [OF that] True u(3) len(1) by (cases "g = ?h") auto
          with d mo True Cons t(3) have "mwr_order m' G acc j (used @ [b]) (outs(?h := outs ?h @ [b]))" by (simp add: mwr_order_def m'_def)
          then show ?thesis by blast
        qed
      qed
      have bal: "mwr_balance m' G j" for j
        using v(6) [rule_format, of j] hs' hs t(3) Cons by (auto simp: mwr_balance_def m'_def)
      have "mwr_inv m' G" by (rule mwr_invI [of m' G acc]) (use ports order bal v(2,3,5) in \<open>simp_all add: m'_def mwd_order_def\<close>)
      with step tk(5) show ?thesis by (simp add: m'_def mrd_part_def)
    qed
  qed
qed

lemma mwr_proc_w_ok:
  assumes inv: "mwr_inv m G"
  shows "\<exists>m'. axi_mux_proc_w m = Some m' \<and> mwr_inv m' G \<and> mrd_part m' = mrd_part m \<and> xm_wr_rsp_ost m' = xm_wr_rsp_ost m"
proof -
  from inv obtain acc where v: "mwr_ports m" "\<forall>h<xm_host_num m. mw_aws G h = of_host h acc @ staged (xm_host_aw_slvs m) (xm_host_aw_fifos m) h"
    "mw_taken G @ itf_list (xm_gst_aw_mst m) = map snd acc" "\<forall>k. \<exists>used outs. mwr_order m G acc k used outs" "mwd_order m G acc"
    "\<forall>k. mwr_balance m G k" by (rule mwr_invD)
  let ?q = "xm_wr_data_ost m" and ?ts = "xm_host_w_slvs m" and ?fs = "xm_host_w_fifos m"
  have i: "itf_inv (xm_gst_w_mst m)" "ostq_inv ?q" "stage_ok (xm_host_num m) ?ts ?fs" using v(1) by (simp_all add: mwr_ports_def)
  show ?thesis
  proof (cases "itf_fifo_full (xm_gst_w_mst m) \<or> ostq_head_freed ?q \<or> ostq_live ?q = []")
    case True
    then have "axi_mux_proc_w m = Some m" using ostq_peek_live [OF i(2)] by (auto simp: axi_mux_proc_w_def)
    with inv show ?thesis by simp
  next
    case False
    then obtain c cs where c: "ostq_live ?q = c # cs" by (cases "ostq_live ?q") auto
    have pk: "ostq_peek_head ?q = Some (Some (q_rptr ?q, c))" using ostq_peek_live [OF i(2)] False c by simp
    let ?h = "xc_host_idx c"
    have h: "?h < xm_host_num m" using v(1) c by (simp add: mwr_ports_def)
    have len: "?h < length ?fs" "?h < length ?ts" "fifo_inv (?fs ! ?h)" using i(3) h by (simp_all add: stage_ok_def)
    show ?thesis
    proof (cases "fifo_empty (?fs ! ?h)")
      case True
      then have "axi_mux_proc_w m = Some m" using False pk h len(1) by (simp add: axi_mux_proc_w_def)
      with inv show ?thesis by simp
    next
      case ne: False
      obtain w f where f: "fifo_pop (?fs ! ?h) = Some (w, f)" "fifo_inv f" "fifo_list (?fs ! ?h) = w # fifo_list f"
        by (rule fifo.pop_not_empty [OF len(3) ne])
      from itf.push_ok [OF i(1), of w] False obtain t where
        t: "itf_write (xm_gst_w_mst m) w = Some t" "itf_inv t" "itf_list t = itf_list (xm_gst_w_mst m) @ [w]" by blast
      from ostq_free_live [OF i(2)] False obtain q1 where q1: "ostq_free_head ?q = Some q1" "ostq_inv q1" "ostq_live q1 = tl (ostq_live ?q)" by blast
      define q' where "q' = (if aw_last w then q1 else ?q)"
      define m' where "m' = m\<lparr>xm_host_w_fifos := ?fs[?h := f], xm_gst_w_mst := t, xm_wr_data_ost := q'\<rparr>"
      have step: "axi_mux_proc_w m = Some m'"
        using False pk h len(1) ne f(1) t(1) q1(1) by (simp add: axi_mux_proc_w_def m'_def q'_def)
      have q': "ostq_inv q'" "ostq_live q' = (if aw_last w then cs else c # cs)" using q1(2,3) i(2) c by (simp_all add: q'_def)
      have sub: "set (ostq_live q') \<subseteq> set (ostq_live ?q)" using q'(2) c by auto
      have "stage_ok (xm_host_num m) ?ts (?fs[?h := f])"
        using i(3) f(2) nth_upd_all [of "xm_host_num m" fifo_inv ?fs f ?h] by (simp add: stage_ok_def)
      then have ports: "mwr_ports m'" using v(1) t(2) q'(1) sub by (auto simp: mwr_ports_def m'_def)
      have st: "staged ?ts (?fs[?h := f]) = (staged ?ts ?fs)(?h := fifo_list f @ itf_list (?ts ! ?h))"
        using len i(3) by (auto simp: staged_def fun_eq_iff stage_ok_def)
      have "staged ?ts ?fs ?h = w # (fifo_list f @ itf_list (?ts ! ?h))" using len f(3) by (simp add: staged_def)
      moreover have "weaves aw_last (map fst acc) (mw_ws G) (mw_wtaken G @ itf_list (xm_gst_w_mst m)) (?h # map xc_host_idx cs) (staged ?ts ?fs)"
        using v(5) c by (simp add: mwd_order_def)
      ultimately have "weaves aw_last (map fst acc) (mw_ws G) ((mw_wtaken G @ itf_list (xm_gst_w_mst m)) @ [w])
          (if aw_last w then map xc_host_idx cs else ?h # map xc_host_idx cs) ((staged ?ts ?fs)(?h := fifo_list f @ itf_list (?ts ! ?h)))"
        by (intro weaves_beat)
      then have wd: "mwd_order m' G acc" using st q'(2) t(3) by (simp add: mwd_order_def m'_def split: if_splits)
      have "mwr_inv m' G" by (rule mwr_invI [of m' G acc]) (use ports wd v(2-4,6) in \<open>simp_all add: m'_def mwr_order_def mwr_balance_def\<close>)
      with step show ?thesis by (simp add: m'_def mrd_part_def)
    qed
  qed
qed

lemma mwr_proc_aw_ok:
  assumes inv: "mwr_inv m G" and seq: "unat (k_next_issue_seq (xm_wr_rsp_ost m)) < 2 ^ 64 - 1"
  shows "\<exists>m'. axi_mux_proc_aw m = Some m' \<and> mwr_inv m' G \<and> mrd_part m' = mrd_part m
    \<and> unat (k_next_issue_seq (xm_wr_rsp_ost m')) \<le> unat (k_next_issue_seq (xm_wr_rsp_ost m)) + 1"
proof -
  from inv obtain acc where v: "mwr_ports m" "\<forall>h<xm_host_num m. mw_aws G h = of_host h acc @ staged (xm_host_aw_slvs m) (xm_host_aw_fifos m) h"
    "mw_taken G @ itf_list (xm_gst_aw_mst m) = map snd acc" "\<forall>k. \<exists>used outs. mwr_order m G acc k used outs" "mwd_order m G acc"
    "\<forall>k. mwr_balance m G k" by (rule mwr_invD)
  have i: "itf_inv (xm_gst_aw_mst m)" "ostk_inv (xm_wr_rsp_ost m)" "stage_ok (xm_host_num m) (xm_host_aw_slvs m) (xm_host_aw_fifos m)" "ostq_inv (xm_wr_data_ost m)"
    using v(1) by (simp_all add: mwr_ports_def)
  show ?thesis
  proof (cases "ostq_full (xm_wr_data_ost m) \<or> ostk_full (xm_wr_rsp_ost m) \<or> itf_fifo_full (xm_gst_aw_mst m)
      \<or> next_staged (xm_wr_rr_idx m) (xm_host_num m) (xm_host_aw_fifos m) = None")
    case True
    then have "axi_mux_proc_aw m = Some m" by (auto simp: axi_mux_proc_aw_def)
    with inv show ?thesis by simp
  next
    case False
    then obtain h where ns: "next_staged (xm_wr_rr_idx m) (xm_host_num m) (xm_host_aw_fifos m) = Some h" by auto
    let ?f = "xm_host_aw_fifos m ! h"
    have h: "h < xm_host_num m" "\<not> fifo_empty ?f" using next_staged_Some [OF ns] by simp_all
    have len: "h < length (xm_host_aw_fifos m)" "h < length (xm_host_aw_slvs m)" "fifo_inv ?f" using i(3) h(1) by (simp_all add: stage_ok_def)
    obtain aw f where f: "fifo_pop ?f = Some (aw, f)" "fifo_inv f" "fifo_list ?f = aw # fifo_list f" "fifo_get_front ?f = Some aw"
      by (rule fifo.pop_not_empty [OF len(3) h(2)])
    from itf.push_ok [OF i(1), of aw] False obtain t where
      t: "itf_write (xm_gst_aw_mst m) aw = Some t" "itf_inv t" "itf_list t = itf_list (xm_gst_aw_mst m) @ [aw]" by blast
    from ostk_alloc_ok [OF i(2) _ seq, of "ucast (aw_id aw)" "\<lparr>xc_host_idx = h\<rparr>"] False obtain slot ost where
      al: "ostk_alloc (xm_wr_rsp_ost m) (ucast (aw_id aw)) \<lparr>xc_host_idx = h\<rparr> = Some (Some (slot, ost))" "ostk_inv ost"
      "ostk_queue ost = (ostk_queue (xm_wr_rsp_ost m))(ucast (aw_id aw) := ostk_queue (xm_wr_rsp_ost m) (ucast (aw_id aw)) @ [\<lparr>xc_host_idx = h\<rparr>])"
      "unat (k_next_issue_seq ost) = unat (k_next_issue_seq (xm_wr_rsp_ost m)) + 1" by blast
    from ostq_alloc_live [OF i(4), of "\<lparr>xc_host_idx = h\<rparr>"] False obtain q where
      q: "ostq_alloc (xm_wr_data_ost m) \<lparr>xc_host_idx = h\<rparr> = Some (Some (ostq_slot (xm_wr_data_ost m) (length (ostq_live (xm_wr_data_ost m))), q))"
      "ostq_inv q" "ostq_live q = ostq_live (xm_wr_data_ost m) @ [\<lparr>xc_host_idx = h\<rparr>]" by blast
    define m' where "m' = m\<lparr>xm_wr_data_ost := q, xm_wr_rsp_ost := ost, xm_host_aw_fifos := (xm_host_aw_fifos m)[h := f], xm_gst_aw_mst := t,
      xm_wr_rr_idx := (h + 1) mod xm_host_num m\<rparr>"
    have step: "axi_mux_proc_aw m = Some m'"
      using False ns len(1) f(1,4) t(1) al(1) q(1) by (simp add: axi_mux_proc_aw_def m'_def)
    have hs: "mx_hosts ost = (mx_hosts (xm_wr_rsp_ost m))(aw_id aw := mx_hosts (xm_wr_rsp_ost m) (aw_id aw) @ [h])"
      using mx_hosts_upd [OF al(3)] by (simp add: mx_hosts_def)
    have "stage_ok (xm_host_num m) (xm_host_aw_slvs m) ((xm_host_aw_fifos m)[h := f])"
      using i(3) f(2) nth_upd_all [of "xm_host_num m" fifo_inv "xm_host_aw_fifos m" f h] by (simp add: stage_ok_def)
    moreover have "\<forall>k. \<forall>g\<in>set (mx_hosts ost k). g < xm_host_num m" using v(1) hs h(1) by (auto simp: mwr_ports_def split: if_splits)
    ultimately have ports: "mwr_ports m'" using v(1) t(2) al(2) q(2,3) h(1) by (simp add: mwr_ports_def m'_def ball_Un)
    have aws: "mw_aws G g = of_host g (acc @ [(h, aw)]) @ staged (xm_host_aw_slvs m) ((xm_host_aw_fifos m)[h := f]) g" if "g < xm_host_num m" for g
      using v(2) [rule_format, OF that] f(3) len(1,2) i(3) by (cases "g = h") (simp_all add: staged_def stage_ok_def)
    have order: "\<exists>used outs. mwr_order m' G (acc @ [(h, aw)]) k used outs" for k
    proof -
      from v(4) obtain used outs where mo: "mwr_order m G acc k used outs" by blast
      then have "mwr_order m' G (acc @ [(h, aw)]) k used outs"
        using hs deals_more_targets [of "\<lambda>_. True" _ used outs _ "[h]"] by (auto simp: mwr_order_def m'_def)
      then show ?thesis by blast
    qed
    have wd: "mwd_order m' G (acc @ [(h, aw)])"
      using weaves_more_targets [OF v(5) [unfolded mwd_order_def], of "[h]"] q(3) by (simp add: mwd_order_def m'_def)
    have bal: "mwr_balance m' G k" for k using v(6) [rule_format, of k] hs t(3) by (auto simp: mwr_balance_def m'_def)
    have "mwr_inv m' G"
      by (rule mwr_invI [of m' G "acc @ [(h, aw)]"]) (use ports aws order wd bal v(3) t(3) in \<open>simp_all add: m'_def\<close>)
    with step al(4) show ?thesis by (simp add: m'_def mrd_part_def)
  qed
qed

section \<open>What the hosts and the guest do\<close>

lemma mwr_ports_inv: "mwr_inv m G \<Longrightarrow> itf_inv (xm_gst_aw_mst m) \<and> itf_inv (xm_gst_w_mst m) \<and> itf_inv (xm_gst_b_slv m)
    \<and> (\<forall>h<xm_host_num m. itf_inv (xm_host_aw_slvs m ! h) \<and> itf_inv (xm_host_w_slvs m ! h) \<and> itf_inv (xm_host_b_msts m ! h))
    \<and> length (xm_host_aw_slvs m) = xm_host_num m \<and> length (xm_host_w_slvs m) = xm_host_num m \<and> length (xm_host_b_msts m) = xm_host_num m"
  by (simp add: mwr_inv_def mwr_ports_def stage_ok_def)

lemma mwr_issue:
  assumes inv: "mwr_inv m G" and h: "h < xm_host_num m" and w: "itf_write (xm_host_aw_slvs m ! h) a = Some t"
  shows "mwr_inv (m\<lparr>xm_host_aw_slvs := (xm_host_aw_slvs m)[h := t]\<rparr>) (G\<lparr>mw_aws := (mw_aws G)(h := mw_aws G h @ [a])\<rparr>)" (is "mwr_inv ?m ?G")
proof -
  from inv obtain acc where v: "mwr_ports m" "\<forall>h<xm_host_num m. mw_aws G h = of_host h acc @ staged (xm_host_aw_slvs m) (xm_host_aw_fifos m) h"
    "mw_taken G @ itf_list (xm_gst_aw_mst m) = map snd acc" "\<forall>k. \<exists>used outs. mwr_order m G acc k used outs" "mwd_order m G acc"
    "\<forall>k. mwr_balance m G k" by (rule mwr_invD)
  have t: "itf_inv t" "itf_list t = itf_list (xm_host_aw_slvs m ! h) @ [a]" using itf.push_SomeD [OF w] mwr_ports_inv [OF inv] h by simp_all
  have so: "stage_ok (xm_host_num m) (xm_host_aw_slvs m) (xm_host_aw_fifos m)" using v(1) by (simp add: mwr_ports_def)
  note st = staged_push [OF so h t]
  have "mwr_ports ?m" using v(1) st(1) by (simp add: mwr_ports_def)
  moreover have "\<forall>g<xm_host_num m. mw_aws ?G g = of_host g acc @ staged ((xm_host_aw_slvs m)[h := t]) (xm_host_aw_fifos m) g"
    using v(2) by (auto simp: st(2))
  moreover have "mwr_order ?m ?G acc k used outs = mwr_order m G acc k used outs" "mwr_balance ?m ?G k = mwr_balance m G k"
    "mwd_order ?m ?G acc = mwd_order m G acc" for k used outs by (simp_all add: mwr_order_def mwr_balance_def mwd_order_def)
  ultimately show ?thesis using v(3-6) by (intro mwr_invI [of ?m ?G acc]) simp_all
qed

lemma mwr_send_data:
  assumes inv: "mwr_inv m G" and h: "h < xm_host_num m" and w: "itf_write (xm_host_w_slvs m ! h) x = Some t"
  shows "mwr_inv (m\<lparr>xm_host_w_slvs := (xm_host_w_slvs m)[h := t]\<rparr>) (G\<lparr>mw_ws := (mw_ws G)(h := mw_ws G h @ [x])\<rparr>)" (is "mwr_inv ?m ?G")
proof -
  from inv obtain acc where v: "mwr_ports m" "\<forall>h<xm_host_num m. mw_aws G h = of_host h acc @ staged (xm_host_aw_slvs m) (xm_host_aw_fifos m) h"
    "mw_taken G @ itf_list (xm_gst_aw_mst m) = map snd acc" "\<forall>k. \<exists>used outs. mwr_order m G acc k used outs" "mwd_order m G acc"
    "\<forall>k. mwr_balance m G k" by (rule mwr_invD)
  have t: "itf_inv t" "itf_list t = itf_list (xm_host_w_slvs m ! h) @ [x]" using itf.push_SomeD [OF w] mwr_ports_inv [OF inv] h by simp_all
  have so: "stage_ok (xm_host_num m) (xm_host_w_slvs m) (xm_host_w_fifos m)" using v(1) by (simp add: mwr_ports_def)
  note st = staged_push [OF so h t]
  have "mwr_ports ?m" using v(1) st(1) by (simp add: mwr_ports_def)
  moreover have "mwd_order ?m ?G acc"
    using weaves_more_beats [OF v(5) [unfolded mwd_order_def], of h x] st(2) by (simp add: mwd_order_def)
  moreover have "mwr_order ?m ?G acc k used outs = mwr_order m G acc k used outs" "mwr_balance ?m ?G k = mwr_balance m G k"
    for k used outs by (simp_all add: mwr_order_def mwr_balance_def)
  ultimately show ?thesis using v(2-4,6) by (intro mwr_invI [of ?m ?G acc]) simp_all
qed

lemma mwr_receive:
  assumes inv: "mwr_inv m G" and h: "h < xm_host_num m" and w: "itf_read (xm_host_b_msts m ! h) = Some (b, t)"
  shows "mwr_inv (m\<lparr>xm_host_b_msts := (xm_host_b_msts m)[h := t]\<rparr>) (G\<lparr>mw_bs := (mw_bs G)(h := mw_bs G h @ [b])\<rparr>)" (is "mwr_inv ?m ?G")
proof -
  from inv obtain acc where v: "mwr_ports m" "\<forall>h<xm_host_num m. mw_aws G h = of_host h acc @ staged (xm_host_aw_slvs m) (xm_host_aw_fifos m) h"
    "mw_taken G @ itf_list (xm_gst_aw_mst m) = map snd acc" "\<forall>k. \<exists>used outs. mwr_order m G acc k used outs" "mwd_order m G acc"
    "\<forall>k. mwr_balance m G k" by (rule mwr_invD)
  have t: "itf_inv t" "itf_list (xm_host_b_msts m ! h) = b # itf_list t" and len: "h < length (xm_host_b_msts m)"
    using itf.pop_SomeD [OF w] mwr_ports_inv [OF inv] h by simp_all
  have "\<forall>g<xm_host_num m. itf_inv ((xm_host_b_msts m)[h := t] ! g)"
    by (rule nth_upd_all) (use v(1) t(1) in \<open>simp_all add: mwr_ports_def\<close>)
  then have "mwr_ports ?m" using v(1) by (simp add: mwr_ports_def)
  moreover have "mw_bs ?G g @ itf_list (xm_host_b_msts ?m ! g) = mw_bs G g @ itf_list (xm_host_b_msts m ! g)" for g
    using t(2) len by (cases "g = h") simp_all
  then have "mwr_order ?m ?G acc k used outs = mwr_order m G acc k used outs" for k used outs unfolding mwr_order_def by simp
  moreover have "mwr_balance ?m ?G k = mwr_balance m G k" "mwd_order ?m ?G acc = mwd_order m G acc" for k
    by (simp_all add: mwr_balance_def mwd_order_def)
  ultimately show ?thesis using v(2-6) by (intro mwr_invI [of ?m ?G acc]) simp_all
qed

lemma mwr_take:
  assumes inv: "mwr_inv m G" and w: "itf_read (xm_gst_aw_mst m) = Some (a, t)"
  shows "mwr_inv (m\<lparr>xm_gst_aw_mst := t\<rparr>) (G\<lparr>mw_taken := mw_taken G @ [a], mw_held := (mw_held G)(aw_id a := mw_held G (aw_id a) + 1)\<rparr>)"
    (is "mwr_inv ?m ?G")
proof -
  from inv obtain acc where v: "mwr_ports m" "\<forall>h<xm_host_num m. mw_aws G h = of_host h acc @ staged (xm_host_aw_slvs m) (xm_host_aw_fifos m) h"
    "mw_taken G @ itf_list (xm_gst_aw_mst m) = map snd acc" "\<forall>k. \<exists>used outs. mwr_order m G acc k used outs" "mwd_order m G acc"
    "\<forall>k. mwr_balance m G k" by (rule mwr_invD)
  have t: "itf_inv t" "itf_list (xm_gst_aw_mst m) = a # itf_list t" using itf.pop_SomeD [OF w] mwr_ports_inv [OF inv] by simp_all
  have "mwr_ports ?m" using v(1) t(1) by (simp add: mwr_ports_def)
  moreover have "mwr_order ?m ?G acc k used outs = mwr_order m G acc k used outs" "mwd_order ?m ?G acc = mwd_order m G acc" for k used outs
    by (simp_all add: mwr_order_def mwd_order_def)
  moreover have "mwr_balance ?m ?G k" for k using v(6) [rule_format, of k] t(2) by (auto simp: mwr_balance_def)
  ultimately show ?thesis using v(2-5) t(2) by (intro mwr_invI [of ?m ?G acc]) simp_all
qed

lemma mwr_take_data:
  assumes inv: "mwr_inv m G" and w: "itf_read (xm_gst_w_mst m) = Some (x, t)"
  shows "mwr_inv (m\<lparr>xm_gst_w_mst := t\<rparr>) (G\<lparr>mw_wtaken := mw_wtaken G @ [x]\<rparr>)" (is "mwr_inv ?m ?G")
proof -
  from inv obtain acc where v: "mwr_ports m" "\<forall>h<xm_host_num m. mw_aws G h = of_host h acc @ staged (xm_host_aw_slvs m) (xm_host_aw_fifos m) h"
    "mw_taken G @ itf_list (xm_gst_aw_mst m) = map snd acc" "\<forall>k. \<exists>used outs. mwr_order m G acc k used outs" "mwd_order m G acc"
    "\<forall>k. mwr_balance m G k" by (rule mwr_invD)
  have t: "itf_inv t" "itf_list (xm_gst_w_mst m) = x # itf_list t" using itf.pop_SomeD [OF w] mwr_ports_inv [OF inv] by simp_all
  have "mwr_ports ?m" using v(1) t(1) by (simp add: mwr_ports_def)
  moreover have "mwr_order ?m ?G acc k used outs = mwr_order m G acc k used outs" "mwr_balance ?m ?G k = mwr_balance m G k"
    "mwd_order ?m ?G acc = mwd_order m G acc" for k used outs by (simp_all add: mwr_order_def mwd_order_def mwr_balance_def t(2))
  ultimately show ?thesis using v(2-6) by (intro mwr_invI [of ?m ?G acc]) simp_all
qed

lemma mwr_give:
  assumes inv: "mwr_inv m G" and held: "0 < mw_held G (ab_id b)" and w: "itf_write (xm_gst_b_slv m) b = Some t"
  shows "mwr_inv (m\<lparr>xm_gst_b_slv := t\<rparr>) (G\<lparr>mw_given := mw_given G @ [b], mw_held := (mw_held G)(ab_id b := mw_held G (ab_id b) - 1)\<rparr>)"
    (is "mwr_inv ?m ?G")
proof -
  from inv obtain acc where v: "mwr_ports m" "\<forall>h<xm_host_num m. mw_aws G h = of_host h acc @ staged (xm_host_aw_slvs m) (xm_host_aw_fifos m) h"
    "mw_taken G @ itf_list (xm_gst_aw_mst m) = map snd acc" "\<forall>k. \<exists>used outs. mwr_order m G acc k used outs" "mwd_order m G acc"
    "\<forall>k. mwr_balance m G k" by (rule mwr_invD)
  have t: "itf_inv t" "itf_list t = itf_list (xm_gst_b_slv m) @ [b]" using itf.push_SomeD [OF w] mwr_ports_inv [OF inv] by simp_all
  have "mwr_ports ?m" using v(1) t(1) by (simp add: mwr_ports_def)
  moreover have "mwr_order m G acc k used outs \<Longrightarrow> mwr_order ?m ?G acc k used outs" for k used outs by (simp add: mwr_order_def t(2))
  then have "\<forall>k. \<exists>used outs. mwr_order ?m ?G acc k used outs" using v(4) by blast
  moreover have "mwr_balance ?m ?G k" for k using v(6) [rule_format, of k] t(2) held by (auto simp: mwr_balance_def)
  moreover have "mwd_order ?m ?G acc = mwd_order m G acc" by (simp add: mwd_order_def)
  ultimately show ?thesis using v(2,3,5) by (intro mwr_invI [of ?m ?G acc]) simp_all
qed

definition mwr_result :: "nat \<Rightarrow> mwr_ghost \<Rightarrow> bool" where
  "mwr_result n G \<longleftrightarrow> (\<exists>acc. (\<forall>h<n. \<exists>rest. mw_aws G h = of_host h acc @ rest) \<and> (\<exists>rest. map snd acc = mw_taken G @ rest)
     \<and> (\<exists>ts q. weaves aw_last (map fst acc) (mw_ws G) (mw_wtaken G) ts q)
     \<and> (\<forall>k. \<exists>used later outs ts. filter (\<lambda>b. ab_id b = k) (mw_given G) = used @ later
          \<and> deals (\<lambda>_. True) (map fst (filter (\<lambda>x. aw_id (snd x) = k) acc)) used outs ts
          \<and> (\<forall>h<n. \<exists>rest. outs h = filter (\<lambda>b. ab_id b = k) (mw_bs G h) @ rest)))"

lemma mwr_inv_result: "mwr_inv m G \<Longrightarrow> mwr_result (xm_host_num m) G"
proof -
  assume inv: "mwr_inv m G"
  from inv obtain acc where v: "mwr_ports m" "\<forall>h<xm_host_num m. mw_aws G h = of_host h acc @ staged (xm_host_aw_slvs m) (xm_host_aw_fifos m) h"
    "mw_taken G @ itf_list (xm_gst_aw_mst m) = map snd acc" "\<forall>k. \<exists>used outs. mwr_order m G acc k used outs" "mwd_order m G acc"
    "\<forall>k. mwr_balance m G k" by (rule mwr_invD)
  have "\<exists>used later outs ts. filter (\<lambda>b. ab_id b = k) (mw_given G) = used @ later
      \<and> deals (\<lambda>_. True) (map fst (filter (\<lambda>x. aw_id (snd x) = k) acc)) used outs ts
      \<and> (\<forall>h<xm_host_num m. \<exists>rest. outs h = filter (\<lambda>b. ab_id b = k) (mw_bs G h) @ rest)" for k
  proof -
    from v(4) obtain used outs where mo: "mwr_order m G acc k used outs" by blast
    then have "\<forall>h<xm_host_num m. \<exists>rest. outs h = filter (\<lambda>b. ab_id b = k) (mw_bs G h) @ rest"
      unfolding mwr_order_def by (metis filter_append)
    with mo show ?thesis unfolding mwr_order_def by blast
  qed
  moreover have "\<forall>h<xm_host_num m. \<exists>rest. mw_aws G h = of_host h acc @ rest" using v(2) by blast
  moreover have "\<exists>rest. map snd acc = mw_taken G @ rest" using v(3) by metis
  moreover have "\<exists>ts q. weaves aw_last (map fst acc) (mw_ws G) (mw_wtaken G) ts q"
    by (rule weaves_prefix [OF v(5) [unfolded mwd_order_def]]) simp
  ultimately show ?thesis unfolding mwr_result_def by blast
qed

end
