(* ===== verification/AxiMuxRun.thy ===== *)
theory AxiMuxRun
  imports AxiMuxWr
begin

text \<open>
  The AXI4 multiplexer between its hosts and its guest: in every run the transactions of the hosts are merged into one order, and every
  beat and every response of the guest reaches the host whose transaction it answers.
\<close>

section \<open>A tick\<close>

lemma mux4_clock_ok:
  assumes rd: "mrd_inv m G" and wr: "mwr_inv m W"
    and seq: "unat (k_next_issue_seq (xm_rd_ost m)) < 2 ^ 64 - 1" "unat (k_next_issue_seq (xm_wr_rsp_ost m)) < 2 ^ 64 - 1"
  shows "\<exists>m'. axi_mux_clock m = Some m' \<and> mrd_inv m' G \<and> mwr_inv m' W \<and> xm_host_num m' = xm_host_num m
    \<and> unat (k_next_issue_seq (xm_rd_ost m')) \<le> unat (k_next_issue_seq (xm_rd_ost m)) + 1
    \<and> unat (k_next_issue_seq (xm_wr_rsp_ost m')) \<le> unat (k_next_issue_seq (xm_wr_rsp_ost m)) + 1"
proof -
  have i: "ostk_inv (xm_rd_ost m)" "ostq_inv (xm_wr_data_ost m)" "ostk_inv (xm_wr_rsp_ost m)"
    using rd wr by (simp_all add: mrd_inv_def mrd_ports_def mwr_inv_def mwr_ports_def)
  from ostk_clock_ok [OF i(1)] obtain o1 where o1: "ostk_clock (xm_rd_ost m) = Some o1" "ostk_inv o1"
    "k_next_issue_seq o1 = k_next_issue_seq (xm_rd_ost m)" "ostk_queue o1 = ostk_queue (xm_rd_ost m)" by blast
  from ostq_clock_live [OF i(2)] obtain o2 where o2: "ostq_clock (xm_wr_data_ost m) = Some o2" "ostq_inv o2" "ostq_live o2 = ostq_live (xm_wr_data_ost m)" by blast
  from ostk_clock_ok [OF i(3)] obtain o3 where o3: "ostk_clock (xm_wr_rsp_ost m) = Some o3" "ostk_inv o3"
    "k_next_issue_seq o3 = k_next_issue_seq (xm_wr_rsp_ost m)" "ostk_queue o3 = ostk_queue (xm_wr_rsp_ost m)" by blast
  define m0 where "m0 = m\<lparr>xm_rd_ost := o1, xm_wr_data_ost := o2, xm_wr_rsp_ost := o3\<rparr>"
  have s0: "k_next_issue_seq (xm_rd_ost m0) = k_next_issue_seq (xm_rd_ost m)" "k_next_issue_seq (xm_wr_rsp_ost m0) = k_next_issue_seq (xm_wr_rsp_ost m)"
    using o1(3) o3(3) by (simp_all add: m0_def)
  have hs: "mx_hosts o1 = mx_hosts (xm_rd_ost m)" "mx_hosts o3 = mx_hosts (xm_wr_rsp_ost m)" using o1(4) o3(4) by (simp_all add: mx_hosts_def fun_eq_iff)
  have r0: "mrd_inv m0 G" using rd o1(2) hs(1)
    by (simp add: m0_def mrd_inv_def mrd_ports_def mrd_order_def mrd_balance_def mrd_open_def)
  have w0: "mwr_inv m0 W" using wr o2(2,3) o3(2) hs(2)
    by (simp add: m0_def mwr_inv_def mwr_ports_def mwr_order_def mwd_order_def mwr_balance_def)
  from mrd_capture_ok [OF r0] obtain m1 where m1: "axi_mux_capture_ar m0 = Some m1" "mrd_inv m1 G" "mwr_part m1 = mwr_part m0" "xm_rd_ost m1 = xm_rd_ost m0" by blast
  have w1: "mwr_inv m1 W" using mwr_inv_cong [OF m1(3)] w0 by simp
  from mwr_capture_aw_ok [OF w1] obtain m2 where m2: "axi_mux_capture_aw m1 = Some m2" "mwr_inv m2 W" "mrd_part m2 = mrd_part m1" "xm_wr_rsp_ost m2 = xm_wr_rsp_ost m1" by blast
  from mwr_capture_w_ok [OF m2(2)] obtain m3 where m3: "axi_mux_capture_w m2 = Some m3" "mwr_inv m3 W" "mrd_part m3 = mrd_part m2" "xm_wr_rsp_ost m3 = xm_wr_rsp_ost m2" by blast
  from mwr_proc_b_ok [OF m3(2)] obtain m4 where m4: "axi_mux_proc_b m3 = Some m4" "mwr_inv m4 W" "mrd_part m4 = mrd_part m3"
    "k_next_issue_seq (xm_wr_rsp_ost m4) = k_next_issue_seq (xm_wr_rsp_ost m3)" by blast
  have r4: "mrd_inv m4 G" using mrd_inv_cong [of m4 m1] m4(3) m3(3) m2(3) m1(2) by simp
  from mrd_proc_r_ok [OF r4] obtain m5 where m5: "axi_mux_proc_r m4 = Some m5" "mrd_inv m5 G" "mwr_part m5 = mwr_part m4"
    "k_next_issue_seq (xm_rd_ost m5) = k_next_issue_seq (xm_rd_ost m4)" by blast
  have w5: "mwr_inv m5 W" using mwr_inv_cong [OF m5(3)] m4(2) by simp
  from mwr_proc_w_ok [OF w5] obtain m6 where m6: "axi_mux_proc_w m5 = Some m6" "mwr_inv m6 W" "mrd_part m6 = mrd_part m5" "xm_wr_rsp_ost m6 = xm_wr_rsp_ost m5" by blast
  have sw: "k_next_issue_seq (xm_wr_rsp_ost m6) = k_next_issue_seq (xm_wr_rsp_ost m)"
    using m6(4) m5(3) m4(4) m3(4) m2(4) m1(3) s0(2) by (simp add: mwr_part_def)
  have "unat (k_next_issue_seq (xm_wr_rsp_ost m6)) < 2 ^ 64 - 1" using sw seq(2) by simp
  from mwr_proc_aw_ok [OF m6(2) this] obtain m7 where m7: "axi_mux_proc_aw m6 = Some m7" "mwr_inv m7 W" "mrd_part m7 = mrd_part m6"
    "unat (k_next_issue_seq (xm_wr_rsp_ost m7)) \<le> unat (k_next_issue_seq (xm_wr_rsp_ost m6)) + 1" by blast
  have r7: "mrd_inv m7 G" using mrd_inv_cong [of m7 m5] m7(3) m6(3) m5(2) by simp
  have sr: "k_next_issue_seq (xm_rd_ost m7) = k_next_issue_seq (xm_rd_ost m)"
    using m7(3) m6(3) m5(4) m4(3) m3(3) m2(3) m1(4) s0(1) by (simp add: mrd_part_def)
  have "unat (k_next_issue_seq (xm_rd_ost m7)) < 2 ^ 64 - 1" using sr seq(1) by simp
  from mrd_proc_ar_ok [OF r7 this] obtain m8 where m8: "axi_mux_proc_ar m7 = Some m8" "mrd_inv m8 G" "mwr_part m8 = mwr_part m7"
    "unat (k_next_issue_seq (xm_rd_ost m8)) \<le> unat (k_next_issue_seq (xm_rd_ost m7)) + 1" by blast
  have "axi_mux_clock m = Some m8"
    unfolding axi_mux_clock_def using o1(1) o2(1) o3(1) m1(1) m2(1) m3(1) m4(1) m5(1) m6(1) m7(1) m8(1) by (simp add: m0_def)
  moreover have "mwr_inv m8 W" using mwr_inv_cong [OF m8(3)] m7(2) by simp
  moreover have "xm_wr_rsp_ost m8 = xm_wr_rsp_ost m7" using m8(3) by (simp add: mwr_part_def)
  moreover have "xm_host_num m8 = xm_host_num m"
    using m8(3) m7(3) m6(3) m5(3) m4(3) m3(3) m2(3) m1(3) by (simp add: mwr_part_def mrd_part_def m0_def)
  ultimately show ?thesis using m8(2,4) m7(4) sr sw by simp
qed

section \<open>Runs between the hosts and the guest\<close>

record xm_sys =
  v_mux :: axi_mux
  v_rd :: mrd_ghost
  v_wr :: mwr_ghost

datatype xm_ev = MTick | MIssueAr nat axi4_ar | MIssueAw nat axi4_aw | MSendW nat axi4_w | MTakeR nat | MTakeB nat
  | MGuestAr | MGuestAw | MGuestW | MGiveR axi4_r | MGiveB axi4_b

text \<open>
  One event of a run. A host issues addresses and data and takes answers; the guest takes them, and answers with beats and responses
  for identifiers of which it holds a transaction. An event that cannot happen changes nothing; \<open>None\<close> is an abort.
\<close>

fun xm_event :: "xm_ev \<Rightarrow> xm_sys \<Rightarrow> xm_sys option" where
  "xm_event MTick v = do { m \<leftarrow> axi_mux_clock (v_mux v); Some (v\<lparr>v_mux := m\<rparr>) }"
| "xm_event (MIssueAr h a) v = (let m = v_mux v; G = v_rd v in
     if xm_host_num m \<le> h \<or> itf_fifo_full (xm_host_ar_slvs m ! h) then Some v
     else do { t \<leftarrow> itf_write (xm_host_ar_slvs m ! h) a;
       Some (v\<lparr>v_mux := m\<lparr>xm_host_ar_slvs := (xm_host_ar_slvs m)[h := t]\<rparr>, v_rd := G\<lparr>mr_ars := (mr_ars G)(h := mr_ars G h @ [a])\<rparr>\<rparr>) })"
| "xm_event (MIssueAw h a) v = (let m = v_mux v; W = v_wr v in
     if xm_host_num m \<le> h \<or> itf_fifo_full (xm_host_aw_slvs m ! h) then Some v
     else do { t \<leftarrow> itf_write (xm_host_aw_slvs m ! h) a;
       Some (v\<lparr>v_mux := m\<lparr>xm_host_aw_slvs := (xm_host_aw_slvs m)[h := t]\<rparr>, v_wr := W\<lparr>mw_aws := (mw_aws W)(h := mw_aws W h @ [a])\<rparr>\<rparr>) })"
| "xm_event (MSendW h w) v = (let m = v_mux v; W = v_wr v in
     if xm_host_num m \<le> h \<or> itf_fifo_full (xm_host_w_slvs m ! h) then Some v
     else do { t \<leftarrow> itf_write (xm_host_w_slvs m ! h) w;
       Some (v\<lparr>v_mux := m\<lparr>xm_host_w_slvs := (xm_host_w_slvs m)[h := t]\<rparr>, v_wr := W\<lparr>mw_ws := (mw_ws W)(h := mw_ws W h @ [w])\<rparr>\<rparr>) })"
| "xm_event (MTakeR h) v = (let m = v_mux v; G = v_rd v in
     if xm_host_num m \<le> h \<or> itf_fifo_empty (xm_host_r_msts m ! h) then Some v
     else do { (r, t) \<leftarrow> itf_read (xm_host_r_msts m ! h);
       Some (v\<lparr>v_mux := m\<lparr>xm_host_r_msts := (xm_host_r_msts m)[h := t]\<rparr>, v_rd := G\<lparr>mr_rs := (mr_rs G)(h := mr_rs G h @ [r])\<rparr>\<rparr>) })"
| "xm_event (MTakeB h) v = (let m = v_mux v; W = v_wr v in
     if xm_host_num m \<le> h \<or> itf_fifo_empty (xm_host_b_msts m ! h) then Some v
     else do { (b, t) \<leftarrow> itf_read (xm_host_b_msts m ! h);
       Some (v\<lparr>v_mux := m\<lparr>xm_host_b_msts := (xm_host_b_msts m)[h := t]\<rparr>, v_wr := W\<lparr>mw_bs := (mw_bs W)(h := mw_bs W h @ [b])\<rparr>\<rparr>) })"
| "xm_event MGuestAr v = (let m = v_mux v; G = v_rd v in
     if itf_fifo_empty (xm_gst_ar_mst m) then Some v
     else do { (a, t) \<leftarrow> itf_read (xm_gst_ar_mst m);
       Some (v\<lparr>v_mux := m\<lparr>xm_gst_ar_mst := t\<rparr>, v_rd := G\<lparr>mr_taken := mr_taken G @ [a], mr_held := (mr_held G)(ar_id a := mr_held G (ar_id a) + 1)\<rparr>\<rparr>) })"
| "xm_event MGuestAw v = (let m = v_mux v; W = v_wr v in
     if itf_fifo_empty (xm_gst_aw_mst m) then Some v
     else do { (a, t) \<leftarrow> itf_read (xm_gst_aw_mst m);
       Some (v\<lparr>v_mux := m\<lparr>xm_gst_aw_mst := t\<rparr>, v_wr := W\<lparr>mw_taken := mw_taken W @ [a], mw_held := (mw_held W)(aw_id a := mw_held W (aw_id a) + 1)\<rparr>\<rparr>) })"
| "xm_event MGuestW v = (let m = v_mux v; W = v_wr v in
     if itf_fifo_empty (xm_gst_w_mst m) then Some v
     else do { (x, t) \<leftarrow> itf_read (xm_gst_w_mst m);
       Some (v\<lparr>v_mux := m\<lparr>xm_gst_w_mst := t\<rparr>, v_wr := W\<lparr>mw_wtaken := mw_wtaken W @ [x]\<rparr>\<rparr>) })"
| "xm_event (MGiveR r) v = (let m = v_mux v; G = v_rd v in
     if mr_held G (ax_id r) = 0 \<or> itf_fifo_full (xm_gst_r_slv m) then Some v
     else do { t \<leftarrow> itf_write (xm_gst_r_slv m) r;
       Some (v\<lparr>v_mux := m\<lparr>xm_gst_r_slv := t\<rparr>, v_rd := G\<lparr>mr_given := mr_given G @ [r],
         mr_held := (mr_held G)(ax_id r := mr_held G (ax_id r) - of_bool (ax_last r))\<rparr>\<rparr>) })"
| "xm_event (MGiveB b) v = (let m = v_mux v; W = v_wr v in
     if mw_held W (ab_id b) = 0 \<or> itf_fifo_full (xm_gst_b_slv m) then Some v
     else do { t \<leftarrow> itf_write (xm_gst_b_slv m) b;
       Some (v\<lparr>v_mux := m\<lparr>xm_gst_b_slv := t\<rparr>, v_wr := W\<lparr>mw_given := mw_given W @ [b],
         mw_held := (mw_held W)(ab_id b := mw_held W (ab_id b) - 1)\<rparr>\<rparr>) })"

fun xm_exec :: "xm_ev list \<Rightarrow> xm_sys \<Rightarrow> xm_sys option" where
  "xm_exec [] v = Some v"
| "xm_exec (ev # evs) v = do { v \<leftarrow> xm_event ev v; xm_exec evs v }"

definition xm_boot :: "axi_mux \<Rightarrow> xm_sys" where
  "xm_boot m = \<lparr>v_mux = axi_mux_reset m,
     v_rd = \<lparr>mr_ars = (\<lambda>_. []), mr_taken = [], mr_held = (\<lambda>_. 0), mr_given = [], mr_rs = (\<lambda>_. [])\<rparr>,
     v_wr = \<lparr>mw_aws = (\<lambda>_. []), mw_taken = [], mw_held = (\<lambda>_. 0), mw_given = [], mw_bs = (\<lambda>_. []), mw_ws = (\<lambda>_. []), mw_wtaken = []\<rparr>\<rparr>"

definition xm_ok :: "nat \<Rightarrow> nat \<Rightarrow> xm_sys \<Rightarrow> bool" where
  "xm_ok n s v \<longleftrightarrow> mrd_inv (v_mux v) (v_rd v) \<and> mwr_inv (v_mux v) (v_wr v) \<and> xm_host_num (v_mux v) = n
     \<and> unat (k_next_issue_seq (xm_rd_ost (v_mux v))) \<le> s \<and> unat (k_next_issue_seq (xm_wr_rsp_ost (v_mux v))) \<le> s"

lemma xm_ok_rd_event:
  assumes "xm_ok n s v" "mwr_part m = mwr_part (v_mux v)" "mrd_inv m G" "xm_rd_ost m = xm_rd_ost (v_mux v)"
  shows "xm_ok n (Suc s) (v\<lparr>v_mux := m, v_rd := G\<rparr>)"
  using assms mwr_inv_cong [OF assms(2)] by (simp add: xm_ok_def mwr_part_def)

lemma xm_ok_wr_event:
  assumes "xm_ok n s v" "mrd_part m = mrd_part (v_mux v)" "mwr_inv m W" "xm_wr_rsp_ost m = xm_wr_rsp_ost (v_mux v)"
  shows "xm_ok n (Suc s) (v\<lparr>v_mux := m, v_wr := W\<rparr>)"
  using assms mrd_inv_cong [OF assms(2)] by (simp add: xm_ok_def mrd_part_def)

lemma xm_ok_idle: "xm_ok n s v \<Longrightarrow> xm_ok n (Suc s) v"
  by (simp add: xm_ok_def)

lemma xm_ok_tick:
  assumes ok: "xm_ok n s v" and s: "s < 2 ^ 64 - 1"
  shows "\<exists>v'. xm_event MTick v = Some v' \<and> xm_ok n (Suc s) v'"
proof -
  have i: "mrd_inv (v_mux v) (v_rd v)" "mwr_inv (v_mux v) (v_wr v)" "xm_host_num (v_mux v) = n"
    "unat (k_next_issue_seq (xm_rd_ost (v_mux v))) \<le> s" "unat (k_next_issue_seq (xm_wr_rsp_ost (v_mux v))) \<le> s"
    using ok by (simp_all add: xm_ok_def)
  have b: "unat (k_next_issue_seq (xm_rd_ost (v_mux v))) < 2 ^ 64 - 1" "unat (k_next_issue_seq (xm_wr_rsp_ost (v_mux v))) < 2 ^ 64 - 1"
    using i(4,5) s by linarith+
  from mux4_clock_ok [OF i(1,2) b] obtain m' where m': "axi_mux_clock (v_mux v) = Some m'" "mrd_inv m' (v_rd v)" "mwr_inv m' (v_wr v)"
    "xm_host_num m' = xm_host_num (v_mux v)" "unat (k_next_issue_seq (xm_rd_ost m')) \<le> unat (k_next_issue_seq (xm_rd_ost (v_mux v))) + 1"
    "unat (k_next_issue_seq (xm_wr_rsp_ost m')) \<le> unat (k_next_issue_seq (xm_wr_rsp_ost (v_mux v))) + 1" by blast
  then show ?thesis using i(3-5) by (simp add: xm_ok_def)
qed

lemma xm_ok_read_events:
  assumes ok: "xm_ok n s v"
  shows "\<exists>v'. xm_event (MIssueAr h a) v = Some v' \<and> xm_ok n (Suc s) v'"
    "\<exists>v'. xm_event (MTakeR h) v = Some v' \<and> xm_ok n (Suc s) v'"
    "\<exists>v'. xm_event MGuestAr v = Some v' \<and> xm_ok n (Suc s) v'"
    "\<exists>v'. xm_event (MGiveR r) v = Some v' \<and> xm_ok n (Suc s) v'"
proof -
  let ?m = "v_mux v"
  have i: "mrd_inv ?m (v_rd v)" using ok by (simp add: xm_ok_def)
  note p = mrd_ports_inv [OF i] and idle = xm_ok_idle [OF ok]
  show "\<exists>v'. xm_event (MIssueAr h a) v = Some v' \<and> xm_ok n (Suc s) v'"
  proof (cases "xm_host_num ?m \<le> h \<or> itf_fifo_full (xm_host_ar_slvs ?m ! h)")
    case False
    then have h: "h < xm_host_num ?m" and c: "\<not> itf_fifo_full (xm_host_ar_slvs ?m ! h)" by auto
    have i1: "itf_inv (xm_host_ar_slvs ?m ! h)" using p h by simp
    obtain t where t: "itf_write (xm_host_ar_slvs ?m ! h) a = Some t" by (rule itf.push_not_full [OF i1 c])
    have fr: "mwr_part (?m\<lparr>xm_host_ar_slvs := (xm_host_ar_slvs ?m)[h := t]\<rparr>) = mwr_part ?m" "xm_rd_ost (?m\<lparr>xm_host_ar_slvs := (xm_host_ar_slvs ?m)[h := t]\<rparr>) = xm_rd_ost ?m" by (simp_all add: mwr_part_def)
    show ?thesis using xm_ok_rd_event [OF ok fr(1) mrd_issue [OF i h t] fr(2)] False by (simp add: Let_def t)
  qed (use idle in \<open>auto simp: Let_def\<close>)
  show "\<exists>v'. xm_event (MTakeR h) v = Some v' \<and> xm_ok n (Suc s) v'"
  proof (cases "xm_host_num ?m \<le> h \<or> itf_fifo_empty (xm_host_r_msts ?m ! h)")
    case False
    then have h: "h < xm_host_num ?m" and c: "\<not> itf_fifo_empty (xm_host_r_msts ?m ! h)" by auto
    have i1: "itf_inv (xm_host_r_msts ?m ! h)" using p h by simp
    obtain r t where t: "itf_read (xm_host_r_msts ?m ! h) = Some (r, t)" by (rule itf.pop_not_empty [OF i1 c])
    have fr: "mwr_part (?m\<lparr>xm_host_r_msts := (xm_host_r_msts ?m)[h := t]\<rparr>) = mwr_part ?m" "xm_rd_ost (?m\<lparr>xm_host_r_msts := (xm_host_r_msts ?m)[h := t]\<rparr>) = xm_rd_ost ?m" by (simp_all add: mwr_part_def)
    show ?thesis using xm_ok_rd_event [OF ok fr(1) mrd_receive [OF i h t] fr(2)] False by (simp add: Let_def t)
  qed (use idle in \<open>auto simp: Let_def\<close>)
  show "\<exists>v'. xm_event MGuestAr v = Some v' \<and> xm_ok n (Suc s) v'"
  proof (cases "itf_fifo_empty (xm_gst_ar_mst ?m)")
    case False
    then have c: "\<not> itf_fifo_empty (xm_gst_ar_mst ?m)" by auto
    have i1: "itf_inv (xm_gst_ar_mst ?m)" using p by simp
    obtain a t where t: "itf_read (xm_gst_ar_mst ?m) = Some (a, t)" by (rule itf.pop_not_empty [OF i1 c])
    have fr: "mwr_part (?m\<lparr>xm_gst_ar_mst := t\<rparr>) = mwr_part ?m" "xm_rd_ost (?m\<lparr>xm_gst_ar_mst := t\<rparr>) = xm_rd_ost ?m" by (simp_all add: mwr_part_def)
    show ?thesis using xm_ok_rd_event [OF ok fr(1) mrd_take [OF i t] fr(2)] False by (simp add: Let_def t)
  qed (use idle in \<open>auto simp: Let_def\<close>)
  show "\<exists>v'. xm_event (MGiveR r) v = Some v' \<and> xm_ok n (Suc s) v'"
  proof (cases "mr_held (v_rd v) (ax_id r) = 0 \<or> itf_fifo_full (xm_gst_r_slv ?m)")
    case False
    then have e: "0 < mr_held (v_rd v) (ax_id r)" and c: "\<not> itf_fifo_full (xm_gst_r_slv ?m)" by auto
    have i1: "itf_inv (xm_gst_r_slv ?m)" using p by simp
    obtain t where t: "itf_write (xm_gst_r_slv ?m) r = Some t" by (rule itf.push_not_full [OF i1 c])
    have fr: "mwr_part (?m\<lparr>xm_gst_r_slv := t\<rparr>) = mwr_part ?m" "xm_rd_ost (?m\<lparr>xm_gst_r_slv := t\<rparr>) = xm_rd_ost ?m" by (simp_all add: mwr_part_def)
    show ?thesis using xm_ok_rd_event [OF ok fr(1) mrd_give [OF i e t] fr(2)] False by (simp add: Let_def t)
  qed (use idle in \<open>auto simp: Let_def\<close>)
qed

lemma xm_ok_write_events:
  assumes ok: "xm_ok n s v"
  shows "\<exists>v'. xm_event (MIssueAw h aw) v = Some v' \<and> xm_ok n (Suc s) v'"
    "\<exists>v'. xm_event (MSendW h w) v = Some v' \<and> xm_ok n (Suc s) v'"
    "\<exists>v'. xm_event (MTakeB h) v = Some v' \<and> xm_ok n (Suc s) v'"
    "\<exists>v'. xm_event MGuestAw v = Some v' \<and> xm_ok n (Suc s) v'"
    "\<exists>v'. xm_event MGuestW v = Some v' \<and> xm_ok n (Suc s) v'"
    "\<exists>v'. xm_event (MGiveB b) v = Some v' \<and> xm_ok n (Suc s) v'"
proof -
  let ?m = "v_mux v"
  have i: "mwr_inv ?m (v_wr v)" using ok by (simp add: xm_ok_def)
  note p = mwr_ports_inv [OF i] and idle = xm_ok_idle [OF ok]
  show "\<exists>v'. xm_event (MIssueAw h aw) v = Some v' \<and> xm_ok n (Suc s) v'"
  proof (cases "xm_host_num ?m \<le> h \<or> itf_fifo_full (xm_host_aw_slvs ?m ! h)")
    case False
    then have h: "h < xm_host_num ?m" and c: "\<not> itf_fifo_full (xm_host_aw_slvs ?m ! h)" by auto
    have i1: "itf_inv (xm_host_aw_slvs ?m ! h)" using p h by simp
    obtain t where t: "itf_write (xm_host_aw_slvs ?m ! h) aw = Some t" by (rule itf.push_not_full [OF i1 c])
    have fr: "mrd_part (?m\<lparr>xm_host_aw_slvs := (xm_host_aw_slvs ?m)[h := t]\<rparr>) = mrd_part ?m" "xm_wr_rsp_ost (?m\<lparr>xm_host_aw_slvs := (xm_host_aw_slvs ?m)[h := t]\<rparr>) = xm_wr_rsp_ost ?m" by (simp_all add: mrd_part_def)
    show ?thesis using xm_ok_wr_event [OF ok fr(1) mwr_issue [OF i h t] fr(2)] False by (simp add: Let_def t)
  qed (use idle in \<open>auto simp: Let_def\<close>)
  show "\<exists>v'. xm_event (MSendW h w) v = Some v' \<and> xm_ok n (Suc s) v'"
  proof (cases "xm_host_num ?m \<le> h \<or> itf_fifo_full (xm_host_w_slvs ?m ! h)")
    case False
    then have h: "h < xm_host_num ?m" and c: "\<not> itf_fifo_full (xm_host_w_slvs ?m ! h)" by auto
    have i1: "itf_inv (xm_host_w_slvs ?m ! h)" using p h by simp
    obtain t where t: "itf_write (xm_host_w_slvs ?m ! h) w = Some t" by (rule itf.push_not_full [OF i1 c])
    have fr: "mrd_part (?m\<lparr>xm_host_w_slvs := (xm_host_w_slvs ?m)[h := t]\<rparr>) = mrd_part ?m" "xm_wr_rsp_ost (?m\<lparr>xm_host_w_slvs := (xm_host_w_slvs ?m)[h := t]\<rparr>) = xm_wr_rsp_ost ?m" by (simp_all add: mrd_part_def)
    show ?thesis using xm_ok_wr_event [OF ok fr(1) mwr_send_data [OF i h t] fr(2)] False by (simp add: Let_def t)
  qed (use idle in \<open>auto simp: Let_def\<close>)
  show "\<exists>v'. xm_event (MTakeB h) v = Some v' \<and> xm_ok n (Suc s) v'"
  proof (cases "xm_host_num ?m \<le> h \<or> itf_fifo_empty (xm_host_b_msts ?m ! h)")
    case False
    then have h: "h < xm_host_num ?m" and c: "\<not> itf_fifo_empty (xm_host_b_msts ?m ! h)" by auto
    have i1: "itf_inv (xm_host_b_msts ?m ! h)" using p h by simp
    obtain b t where t: "itf_read (xm_host_b_msts ?m ! h) = Some (b, t)" by (rule itf.pop_not_empty [OF i1 c])
    have fr: "mrd_part (?m\<lparr>xm_host_b_msts := (xm_host_b_msts ?m)[h := t]\<rparr>) = mrd_part ?m" "xm_wr_rsp_ost (?m\<lparr>xm_host_b_msts := (xm_host_b_msts ?m)[h := t]\<rparr>) = xm_wr_rsp_ost ?m" by (simp_all add: mrd_part_def)
    show ?thesis using xm_ok_wr_event [OF ok fr(1) mwr_receive [OF i h t] fr(2)] False by (simp add: Let_def t)
  qed (use idle in \<open>auto simp: Let_def\<close>)
  show "\<exists>v'. xm_event MGuestAw v = Some v' \<and> xm_ok n (Suc s) v'"
  proof (cases "itf_fifo_empty (xm_gst_aw_mst ?m)")
    case False
    then have c: "\<not> itf_fifo_empty (xm_gst_aw_mst ?m)" by auto
    have i1: "itf_inv (xm_gst_aw_mst ?m)" using p by simp
    obtain a t where t: "itf_read (xm_gst_aw_mst ?m) = Some (a, t)" by (rule itf.pop_not_empty [OF i1 c])
    have fr: "mrd_part (?m\<lparr>xm_gst_aw_mst := t\<rparr>) = mrd_part ?m" "xm_wr_rsp_ost (?m\<lparr>xm_gst_aw_mst := t\<rparr>) = xm_wr_rsp_ost ?m" by (simp_all add: mrd_part_def)
    show ?thesis using xm_ok_wr_event [OF ok fr(1) mwr_take [OF i t] fr(2)] False by (simp add: Let_def t)
  qed (use idle in \<open>auto simp: Let_def\<close>)
  show "\<exists>v'. xm_event MGuestW v = Some v' \<and> xm_ok n (Suc s) v'"
  proof (cases "itf_fifo_empty (xm_gst_w_mst ?m)")
    case False
    then have c: "\<not> itf_fifo_empty (xm_gst_w_mst ?m)" by auto
    have i1: "itf_inv (xm_gst_w_mst ?m)" using p by simp
    obtain x t where t: "itf_read (xm_gst_w_mst ?m) = Some (x, t)" by (rule itf.pop_not_empty [OF i1 c])
    have fr: "mrd_part (?m\<lparr>xm_gst_w_mst := t\<rparr>) = mrd_part ?m" "xm_wr_rsp_ost (?m\<lparr>xm_gst_w_mst := t\<rparr>) = xm_wr_rsp_ost ?m" by (simp_all add: mrd_part_def)
    show ?thesis using xm_ok_wr_event [OF ok fr(1) mwr_take_data [OF i t] fr(2)] False by (simp add: Let_def t)
  qed (use idle in \<open>auto simp: Let_def\<close>)
  show "\<exists>v'. xm_event (MGiveB b) v = Some v' \<and> xm_ok n (Suc s) v'"
  proof (cases "mw_held (v_wr v) (ab_id b) = 0 \<or> itf_fifo_full (xm_gst_b_slv ?m)")
    case False
    then have e: "0 < mw_held (v_wr v) (ab_id b)" and c: "\<not> itf_fifo_full (xm_gst_b_slv ?m)" by auto
    have i1: "itf_inv (xm_gst_b_slv ?m)" using p by simp
    obtain t where t: "itf_write (xm_gst_b_slv ?m) b = Some t" by (rule itf.push_not_full [OF i1 c])
    have fr: "mrd_part (?m\<lparr>xm_gst_b_slv := t\<rparr>) = mrd_part ?m" "xm_wr_rsp_ost (?m\<lparr>xm_gst_b_slv := t\<rparr>) = xm_wr_rsp_ost ?m" by (simp_all add: mrd_part_def)
    show ?thesis using xm_ok_wr_event [OF ok fr(1) mwr_give [OF i e t] fr(2)] False by (simp add: Let_def t)
  qed (use idle in \<open>auto simp: Let_def\<close>)
qed

lemma xm_ok_exec:
  "xm_ok n s v \<Longrightarrow> s + length evs < 2 ^ 64 \<Longrightarrow> \<exists>v' s'. xm_exec evs v = Some v' \<and> xm_ok n s' v'"
proof (induction evs arbitrary: v s)
  case (Cons ev evs)
  have s: "s < 2 ^ 64 - 1" using Cons.prems(2) by simp
  have "\<exists>v'. xm_event ev v = Some v' \<and> xm_ok n (Suc s) v'"
    using xm_ok_tick [OF Cons.prems(1) s] xm_ok_read_events [OF Cons.prems(1)] xm_ok_write_events [OF Cons.prems(1)]
    by (cases ev) (simp_all del: xm_event.simps)
  then obtain v1 where v1: "xm_event ev v = Some v1" "xm_ok n (Suc s) v1" by blast
  have "Suc s + length evs < 2 ^ 64" using Cons.prems(2) by simp
  from Cons.IH [OF v1(2) this] v1(1) show ?case by auto
qed auto

section \<open>Properties\<close>

definition xm_ready :: "axi_mux \<Rightarrow> bool" where
  "xm_ready m \<longleftrightarrow> 0 < xm_host_num m \<and> stage_ok (xm_host_num m) (xm_host_ar_slvs m) (xm_host_ar_fifos m)
     \<and> stage_ok (xm_host_num m) (xm_host_aw_slvs m) (xm_host_aw_fifos m) \<and> stage_ok (xm_host_num m) (xm_host_w_slvs m) (xm_host_w_fifos m)
     \<and> length (xm_host_r_msts m) = xm_host_num m \<and> length (xm_host_b_msts m) = xm_host_num m
     \<and> (\<forall>h<xm_host_num m. itf_list (xm_host_ar_slvs m ! h) = [] \<and> itf_list (xm_host_aw_slvs m ! h) = [] \<and> itf_list (xm_host_w_slvs m ! h) = []
          \<and> itf_holds (xm_host_r_msts m ! h) [] \<and> itf_holds (xm_host_b_msts m ! h) [])
     \<and> itf_holds (xm_gst_ar_mst m) [] \<and> itf_holds (xm_gst_aw_mst m) [] \<and> itf_holds (xm_gst_w_mst m) []
     \<and> itf_holds (xm_gst_r_slv m) [] \<and> itf_holds (xm_gst_b_slv m) []
     \<and> 0 < k_depth (xm_rd_ost m) \<and> 0 < q_depth (xm_wr_data_ost m) \<and> 0 < k_depth (xm_wr_rsp_ost m)"

lemma stage_reset:
  assumes "stage_ok n ts fs" "\<forall>h<n. itf_list (ts ! h) = []"
  shows "stage_ok n ts (map fifo_reset fs)" "staged ts (map fifo_reset fs) = (\<lambda>_. [])"
  using assms fifo_reset_inv by (auto simp: stage_ok_def staged_def fun_eq_iff)

lemma xm_boot_ok:
  assumes "xm_ready m"
  shows "xm_ok (xm_host_num m) 0 (xm_boot m)"
proof -
  have r: "0 < k_depth (xm_rd_ost m)" "0 < q_depth (xm_wr_data_ost m)" "0 < k_depth (xm_wr_rsp_ost m)"
    "stage_ok (xm_host_num m) (xm_host_ar_slvs m) (xm_host_ar_fifos m)" "\<forall>h<xm_host_num m. itf_list (xm_host_ar_slvs m ! h) = []"
    "stage_ok (xm_host_num m) (xm_host_aw_slvs m) (xm_host_aw_fifos m)" "\<forall>h<xm_host_num m. itf_list (xm_host_aw_slvs m ! h) = []"
    "stage_ok (xm_host_num m) (xm_host_w_slvs m) (xm_host_w_fifos m)" "\<forall>h<xm_host_num m. itf_list (xm_host_w_slvs m ! h) = []"
    using assms by (simp_all add: xm_ready_def)
  note f = stage_reset [OF r(4,5)] stage_reset [OF r(6,7)] stage_reset [OF r(8,9)]
  note o = ostk_reset_fresh [OF r(1)] ostk_reset_fresh [OF r(3)] ostq_reset_live [OF r(2)]
  let ?m = "axi_mux_reset m" and ?v = "xm_boot m"
  have "mrd_ports ?m" using assms f(1) o(1,2) by (simp add: mrd_ports_def axi_mux_reset_def xm_ready_def itf_holds_def mx_hosts_def)
  moreover have "mrd_order ?m (v_rd ?v) [] k [] (\<lambda>_. [])" for k
    using assms o(2) deals_start [of ax_last "[]"] by (simp add: mrd_order_def xm_boot_def axi_mux_reset_def xm_ready_def itf_holds_def mx_hosts_def)
  then have "\<forall>k. \<exists>used outs. mrd_order ?m (v_rd ?v) [] k used outs" by blast
  ultimately have rd: "mrd_inv ?m (v_rd ?v)"
    using assms f(2) o(2) by (intro mrd_invI [of _ _ "[]"])
      (simp_all add: xm_boot_def axi_mux_reset_def xm_ready_def itf_holds_def mrd_balance_def mrd_open_def mx_hosts_def of_host_def)
  have "mwr_ports ?m" using assms f(3,5) o by (simp add: mwr_ports_def axi_mux_reset_def xm_ready_def itf_holds_def mx_hosts_def)
  moreover have "mwr_order ?m (v_wr ?v) [] k [] (\<lambda>_. [])" for k
    using assms o(5) deals_start [of "\<lambda>_. True" "[]"] by (simp add: mwr_order_def xm_boot_def axi_mux_reset_def xm_ready_def itf_holds_def mx_hosts_def)
  then have "\<forall>k. \<exists>used outs. mwr_order ?m (v_wr ?v) [] k used outs" by blast
  moreover have "mwd_order ?m (v_wr ?v) []"
    using assms f(6) o(8) weaves_start [of aw_last "[]" "\<lambda>_. []"] by (simp add: mwd_order_def xm_boot_def axi_mux_reset_def xm_ready_def itf_holds_def)
  ultimately have wr: "mwr_inv ?m (v_wr ?v)"
    using assms f(4) o(5) by (intro mwr_invI [of _ _ "[]"])
      (simp_all add: xm_boot_def axi_mux_reset_def xm_ready_def itf_holds_def mwr_balance_def mx_hosts_def of_host_def)
  from rd wr show ?thesis using o(3,6) by (simp add: xm_ok_def xm_boot_def axi_mux_reset_def)
qed

text \<open>
  C12. The multiplexer merges the hosts' transactions fairly to each of them. As long as the guest answers what it was sent, it never aborts; the guest sees
  the reads, and the writes, of all hosts in one order that keeps every host's own (\<open>acc\<close>), with the data bursts in the order of the writes; and of every identifier
  the guest's read beats, burst by burst, and its write responses go to the hosts in the order in which their transactions were forwarded.
\<close>

theorem axi_mux_transparent:
  assumes "xm_ready m" "length evs < 2 ^ 64"
  shows "\<exists>v. xm_exec evs (xm_boot m) = Some v \<and> mrd_result (xm_host_num m) (v_rd v) \<and> mwr_result (xm_host_num m) (v_wr v)"
proof -
  have "0 + length evs < 2 ^ 64" using assms(2) by simp
  from xm_ok_exec [OF xm_boot_ok [OF assms(1)] this] obtain v s where v: "xm_exec evs (xm_boot m) = Some v" "xm_ok (xm_host_num m) s v" by blast
  then have "mrd_inv (v_mux v) (v_rd v)" "mwr_inv (v_mux v) (v_wr v)" "xm_host_num (v_mux v) = xm_host_num m" by (simp_all add: xm_ok_def)
  with mrd_inv_result mwr_inv_result v(1) show ?thesis by metis
qed

text \<open>Two hosts that read under the same identifier.\<close>

definition xm_sample :: axi_mux where
  "xm_sample = \<lparr>xm_host_aw_slvs = [fifo_itf_construct 1, fifo_itf_construct 1], xm_host_w_slvs = [fifo_itf_construct 1, fifo_itf_construct 1],
     xm_host_b_msts = [fifo_itf_construct 1, fifo_itf_construct 1], xm_host_ar_slvs = [fifo_itf_construct 1, fifo_itf_construct 1],
     xm_host_r_msts = [fifo_itf_construct 1, fifo_itf_construct 1], xm_gst_aw_mst = fifo_itf_construct 1, xm_gst_w_mst = fifo_itf_construct 1,
     xm_gst_b_slv = fifo_itf_construct 1, xm_gst_ar_mst = fifo_itf_construct 1, xm_gst_r_slv = fifo_itf_construct 1, xm_host_num = 2,
     xm_rd_rr_idx = 0, xm_wr_rr_idx = 0, xm_host_ar_fifos = [the (fifo_construct 2), the (fifo_construct 2)],
     xm_host_aw_fifos = [the (fifo_construct 2), the (fifo_construct 2)], xm_host_w_fifos = [the (fifo_construct 2), the (fifo_construct 2)],
     xm_rd_ost = the (ostk_construct 2), xm_wr_data_ost = the (ostq_construct 2), xm_wr_rsp_ost = the (ostk_construct 2),
     xm_perf_stg_ar_full = 0, xm_perf_stg_aw_full = 0, xm_perf_stg_w_full = 0\<rparr>"

lemma xm_sample_ready: "xm_ready xm_sample"
  by (simp add: xm_ready_def xm_sample_def itf_holds_def stage_ok_def less_Suc_eq numeral_2_eq_2 ostk_construct_def ostk_reset_def
    ostq_construct_def ostq_reset_def fifo_construct_the)

definition xm_ar :: "u32 \<Rightarrow> axi4_ar" where
  "xm_ar a = \<lparr>ar_id = 3, ar_addr = a, ar_len = 0, ar_size = AXI4_AR_SIZE_B4, ar_burst = AXI4_AR_BURST_INCR, ar_lock = False, ar_cache = 0, ar_prot = 0,
     ar_qos = 0, ar_user = 0\<rparr>"

definition xm_r :: "u32 \<Rightarrow> axi4_r" where
  "xm_r x = \<lparr>ax_id = 3, ax_data = x, ax_resp = AXI4_R_RESP_OKAY, ax_last = True\<rparr>"

definition xm_script :: "xm_ev list" where
  "xm_script = [MIssueAr 1 (xm_ar 0x10), MTick, MIssueAr 0 (xm_ar 0x20), MGuestAr, MTick, MGuestAr, MGiveR (xm_r 11), MTick, MGiveR (xm_r 22), MTick, MTakeR 0, MTakeR 1]"

lemma xm_script_run: "map_option (\<lambda>v. (map ax_data (mr_rs (v_rd v) 0), map ax_data (mr_rs (v_rd v) 1))) (xm_exec xm_script (xm_boot xm_sample)) = Some ([22], [11])"
  by code_simp

theorem axi_mux_transparent_witness:
  "\<exists>v. xm_exec xm_script (xm_boot xm_sample) = Some v \<and> map ax_data (mr_rs (v_rd v) 0) = [22] \<and> map ax_data (mr_rs (v_rd v) 1) = [11]
    \<and> mrd_result 2 (v_rd v)"
proof -
  have "length xm_script < 2 ^ 64" "xm_host_num xm_sample = 2" by (simp_all add: xm_script_def xm_sample_def)
  with axi_mux_transparent [OF xm_sample_ready, of xm_script] xm_script_run show ?thesis by auto
qed

end
