(* ===== verification/Ram.thy ===== *)
theory Ram
  imports Ports BtiPackets AxiPackets
begin

text \<open>
  The memory (\<^verbatim>\<open>mem/ram.c\<close>). It serves up to two BTI ports or one AXI4 port, without delay or with a configured latency: then
  requests wait in rings of 1024 entries until their cycle has come. The members of \<^verbatim>\<open>ram_t\<close> are grouped: what belongs to one BTI
  port, the burst under way on each AXI4 side, and the two rings of the delayed AXI4 side are records of their own. The contents
  are the list of the allocated bytes, three more than the size; a ring entry that was never written is \<open>None\<close>. Words are stored with the
  low byte first, as the host does.
\<close>

section \<open>ram.h\<close>

abbreviation (input) RAM_PENDING_DEPTH :: nat where "RAM_PENDING_DEPTH \<equiv> 1024"
abbreviation (input) RAM_MAX_PORT_NUM :: nat where "RAM_MAX_PORT_NUM \<equiv> 2"

datatype ram_mode = RAM_MODE_BTI | RAM_MODE_AXI

record ram_bti_entry =
  rt_ready_cycle :: u64
  rt_rsp :: bti_rsp

record ram_axi_rd_entry =
  re_ready_cycle :: u64
  re_addr :: u32
  re_id :: u8
  re_len :: u8
  re_size :: axi4_ar_size
  re_burst :: axi4_ar_burst
  re_beat_cnt :: u8

record ram_axi_wr_entry =
  we_ready_cycle :: u64
  we_addr :: u32
  we_id :: u8
  we_len :: u8
  we_size :: axi4_aw_size
  we_burst :: axi4_aw_burst
  we_beat_cnt :: u8
  we_w_done :: bool

record ram_port =
  rp_req_slv :: "bti_req itf"
  rp_rsp_mst :: "bti_rsp itf"
  rp_entries :: "ram_bti_entry option list"
  rp_rptr :: nat
  rp_wptr :: nat
  rp_count :: nat

record ram_rd_burst =
  rb_addr :: u32
  rb_id :: u8
  rb_len :: u8
  rb_size :: axi4_ar_size
  rb_type :: axi4_ar_burst
  rb_cnt :: u8
  rb_active :: bool

record ram_wr_burst =
  wb_addr :: u32
  wb_id :: u8
  wb_len :: u8
  wb_size :: axi4_aw_size
  wb_type :: axi4_aw_burst
  wb_cnt :: u8
  wb_active :: bool
  wb_b_pending :: bool

record ram_rd_ring =
  rr_entries :: "ram_axi_rd_entry option list"
  rr_rptr :: nat
  rr_wptr :: nat
  rr_count :: nat

record ram_wr_ring =
  wr_entries :: "ram_axi_wr_entry option list"
  wr_rptr :: nat
  wr_wptr :: nat
  wr_data_rptr :: nat
  wr_need_w_count :: nat
  wr_count :: nat

record ram =
  ram_cycle_sig :: "u64 option"
  ram_ports :: "ram_port list"
  ram_aw_slv :: "axi4_aw itf"
  ram_w_slv :: "axi4_w itf"
  ram_b_mst :: "axi4_b itf"
  ram_ar_slv :: "axi4_ar itf"
  ram_r_mst :: "axi4_r itf"
  ram_port_num :: nat
  ram_mode_of :: ram_mode
  ram_base_addr :: u32
  ram_size :: u32
  ram_latency :: u32
  ram_data :: "u8 list"
  ram_rd :: ram_rd_burst
  ram_wr :: ram_wr_burst
  ram_rdq :: ram_rd_ring
  ram_wrq :: ram_wr_ring
  ram_bti_count :: u32

section \<open>Enumerations as numbers\<close>

definition bti_size_num :: "bti_req_size \<Rightarrow> nat" where
  "bti_size_num s = (case s of BTI_REQ_SIZE_B1 \<Rightarrow> 0 | BTI_REQ_SIZE_B2 \<Rightarrow> 1 | BTI_REQ_SIZE_B4 \<Rightarrow> 2)"

definition ar_size_num :: "axi4_ar_size \<Rightarrow> nat" where
  "ar_size_num s = (case s of AXI4_AR_SIZE_B1 \<Rightarrow> 0 | AXI4_AR_SIZE_B2 \<Rightarrow> 1 | AXI4_AR_SIZE_B4 \<Rightarrow> 2 | AXI4_AR_SIZE_B8 \<Rightarrow> 3
     | AXI4_AR_SIZE_B16 \<Rightarrow> 4 | AXI4_AR_SIZE_B32 \<Rightarrow> 5 | AXI4_AR_SIZE_B64 \<Rightarrow> 6 | AXI4_AR_SIZE_B128 \<Rightarrow> 7)"

definition aw_size_num :: "axi4_aw_size \<Rightarrow> nat" where
  "aw_size_num s = (case s of AXI4_AW_SIZE_B1 \<Rightarrow> 0 | AXI4_AW_SIZE_B2 \<Rightarrow> 1 | AXI4_AW_SIZE_B4 \<Rightarrow> 2 | AXI4_AW_SIZE_B8 \<Rightarrow> 3
     | AXI4_AW_SIZE_B16 \<Rightarrow> 4 | AXI4_AW_SIZE_B32 \<Rightarrow> 5 | AXI4_AW_SIZE_B64 \<Rightarrow> 6 | AXI4_AW_SIZE_B128 \<Rightarrow> 7)"

definition ar_burst_num :: "axi4_ar_burst \<Rightarrow> nat" where
  "ar_burst_num b = (case b of AXI4_AR_BURST_FIXED \<Rightarrow> 0 | AXI4_AR_BURST_INCR \<Rightarrow> 1 | AXI4_AR_BURST_WRAP \<Rightarrow> 2)"

definition aw_burst_num :: "axi4_aw_burst \<Rightarrow> nat" where
  "aw_burst_num b = (case b of AXI4_AW_BURST_FIXED \<Rightarrow> 0 | AXI4_AW_BURST_INCR \<Rightarrow> 1 | AXI4_AW_BURST_WRAP \<Rightarrow> 2)"

section \<open>ram.c: reset and contents\<close>

definition ram_reset :: "ram \<Rightarrow> ram" where
  "ram_reset ram = ram\<lparr>
     ram_rd := (ram_rd ram)\<lparr>rb_active := False\<rparr>,
     ram_wr := (ram_wr ram)\<lparr>wb_active := False, wb_b_pending := False\<rparr>,
     ram_ports := map (\<lambda>p. p\<lparr>rp_rptr := 0, rp_wptr := 0, rp_count := 0\<rparr>) (ram_ports ram),
     ram_rdq := (ram_rdq ram)\<lparr>rr_rptr := 0, rr_wptr := 0, rr_count := 0\<rparr>,
     ram_wrq := (ram_wrq ram)\<lparr>wr_rptr := 0, wr_wptr := 0, wr_data_rptr := 0, wr_need_w_count := 0, wr_count := 0\<rparr>,
     ram_bti_count := 0\<rparr>"

text \<open>\<^verbatim>\<open>memcpy\<close> into the contents; a byte past the end of the allocation is an abort.\<close>

fun put_bytes :: "u8 list \<Rightarrow> nat \<Rightarrow> u8 list \<Rightarrow> u8 list option" where
  "put_bytes xs a [] = Some xs"
| "put_bytes xs a (b # bs) = do { xs \<leftarrow> arr_put xs a b; put_bytes xs (Suc a) bs }"

definition ram_load :: "ram \<Rightarrow> u8 list \<Rightarrow> u32 \<Rightarrow> ram option" where
  "ram_load ram data addr = do {
     let sz = of_nat (length data);
     DBG_CHECK (addr < ram_size ram);
     DBG_CHECK (addr + sz \<le> ram_size ram);
     d \<leftarrow> put_bytes (ram_data ram) (unat addr) data;
     Some (ram\<lparr>ram_data := d\<rparr>)
   }"

fun get_bytes :: "u8 list \<Rightarrow> nat \<Rightarrow> nat list \<Rightarrow> u32 \<Rightarrow> u32 option" where
  "get_bytes xs a [] d = Some d"
| "get_bytes xs a (i # is) d = do { b \<leftarrow> arr_get xs (a + i); get_bytes xs a is (d OR push_bit (i * 8) (ucast b)) }"

text \<open>The guard both accesses share, and the value of a read: \<open>None\<close> inside for \<^verbatim>\<open>false\<close>.\<close>

definition ram_in_range :: "u32 \<Rightarrow> u32 \<Rightarrow> nat \<Rightarrow> bool" where
  "ram_in_range sz addr byte_num \<longleftrightarrow> \<not> (byte_num > 4 \<or> addr \<ge> sz \<or> byte_num > unat (sz - addr))"

definition ram_read :: "ram \<Rightarrow> u32 \<Rightarrow> nat \<Rightarrow> u32 option option" where
  "ram_read ram addr byte_num =
     (if \<not> ram_in_range (ram_size ram) addr byte_num then Some None
      else do { d \<leftarrow> get_bytes (ram_data ram) (unat addr) [0..<byte_num] 0; Some (Some d) })"

fun ram_write_loop :: "u32 \<Rightarrow> u8 \<Rightarrow> nat \<Rightarrow> nat list \<Rightarrow> u8 list \<Rightarrow> u8 list option" where
  "ram_write_loop data strobe a [] xs = Some xs"
| "ram_write_loop data strobe a (i # is) xs =
     (if strobe AND push_bit i 1 \<noteq> 0 then do {
        xs \<leftarrow> arr_put xs (a + i) (ucast (drop_bit (i * 8) data));
        ram_write_loop data strobe a is xs
      }
      else ram_write_loop data strobe a is xs)"

definition ram_write :: "ram \<Rightarrow> u32 \<Rightarrow> nat \<Rightarrow> u32 \<Rightarrow> u8 \<Rightarrow> (bool \<times> ram) option" where
  "ram_write ram addr byte_num data strobe =
     (if \<not> ram_in_range (ram_size ram) addr byte_num then Some (False, ram)
      else do {
        xs \<leftarrow> ram_write_loop data strobe (unat addr) [0..<byte_num] (ram_data ram);
        Some (True, ram\<lparr>ram_data := xs\<rparr>)
      })"

definition axi_burst_next_addr :: "u32 \<Rightarrow> nat \<Rightarrow> nat \<Rightarrow> u32" where
  "axi_burst_next_addr addr burst_type burst_size = (if burst_type = 0 then addr else addr + push_bit burst_size 1)"

definition ram_fifo_next :: "nat \<Rightarrow> nat" where
  "ram_fifo_next ptr = (ptr + 1) mod RAM_PENDING_DEPTH"

definition ram_cycle :: "ram \<Rightarrow> u64" where
  "ram_cycle ram = (case ram_cycle_sig ram of None \<Rightarrow> 0 | Some c \<Rightarrow> c)"

definition ram_ready_cycle :: "ram \<Rightarrow> u64" where
  "ram_ready_cycle ram = ram_cycle ram + ucast (ram_latency ram)"

definition ram_entry_ready :: "ram \<Rightarrow> u64 \<Rightarrow> bool" where
  "ram_entry_ready ram ready_cycle \<longleftrightarrow> ram_cycle ram \<ge> ready_cycle"

definition ram_build_bti_rsp :: "ram \<Rightarrow> bti_req \<Rightarrow> (bti_rsp \<times> ram) option" where
  "ram_build_bti_rsp ram req = (let rsp = \<lparr>bp_trans_id = bq_trans_id req, bp_data = 0, bp_ok = False\<rparr>;
       addr = bq_addr req - ram_base_addr ram; byte_num = 2 ^ bti_size_num (bq_size req) in
     if bti_size_num (bq_size req) > bti_size_num BTI_REQ_SIZE_B4 then Some (rsp, ram)
     else if bq_cmd req = BTI_REQ_CMD_READ then do {
       d \<leftarrow> ram_read ram addr byte_num;
       Some (case d of None \<Rightarrow> rsp | Some d \<Rightarrow> rsp\<lparr>bp_data := d, bp_ok := True\<rparr>, ram)
     }
     else if bq_cmd req = BTI_REQ_CMD_WRITE then do {
       (ok, ram) \<leftarrow> ram_write ram addr byte_num (bq_data req) (bq_strobe req);
       Some (rsp\<lparr>bp_ok := ok\<rparr>, ram)
     }
     else Some (rsp, ram))"

section \<open>ram.c: AXI4 without latency\<close>

definition ram_fast_proc_axi_ar :: "ram \<Rightarrow> ram option" where
  "ram_fast_proc_axi_ar ram =
     (if rb_active (ram_rd ram) \<or> itf_fifo_empty (ram_ar_slv ram) then Some ram
      else do {
        (ar, t) \<leftarrow> itf_read (ram_ar_slv ram);
        DBG_CHECK (ar_addr ar \<ge> ram_base_addr ram);
        Some (ram\<lparr>ram_ar_slv := t, ram_rd := \<lparr>rb_addr = ar_addr ar - ram_base_addr ram, rb_id = ar_id ar, rb_len = ar_len ar,
          rb_size = ar_size ar, rb_type = ar_burst ar, rb_cnt = 0, rb_active = True\<rparr>\<rparr>)
      })"

definition ram_fast_proc_axi_r :: "ram \<Rightarrow> ram option" where
  "ram_fast_proc_axi_r ram =
     (if \<not> rb_active (ram_rd ram) \<or> itf_fifo_full (ram_r_mst ram) then Some ram
      else do {
        let rd = ram_rd ram;
        d \<leftarrow> ram_read ram (rb_addr rd) (2 ^ ar_size_num (rb_size rd));
        let last = (rb_cnt rd = rb_len rd);
        t \<leftarrow> itf_write (ram_r_mst ram) \<lparr>ax_id = rb_id rd, ax_data = (case d of None \<Rightarrow> 0 | Some d \<Rightarrow> d),
          ax_resp = (if d \<noteq> None then AXI4_R_RESP_OKAY else AXI4_R_RESP_SLVERR), ax_last = last\<rparr>;
        Some (ram\<lparr>ram_r_mst := t, ram_rd := (if last then rd\<lparr>rb_active := False\<rparr>
          else rd\<lparr>rb_addr := axi_burst_next_addr (rb_addr rd) (ar_burst_num (rb_type rd)) (ar_size_num (rb_size rd)), rb_cnt := rb_cnt rd + 1\<rparr>)\<rparr>)
      })"

definition ram_fast_proc_axi_aw :: "ram \<Rightarrow> ram option" where
  "ram_fast_proc_axi_aw ram =
     (if wb_active (ram_wr ram) \<or> wb_b_pending (ram_wr ram) \<or> itf_fifo_empty (ram_aw_slv ram) then Some ram
      else do {
        (aw, t) \<leftarrow> itf_read (ram_aw_slv ram);
        DBG_CHECK (aw_addr aw \<ge> ram_base_addr ram);
        Some (ram\<lparr>ram_aw_slv := t, ram_wr := \<lparr>wb_addr = aw_addr aw - ram_base_addr ram, wb_id = aw_id aw, wb_len = aw_len aw,
          wb_size = aw_size aw, wb_type = aw_burst aw, wb_cnt = 0, wb_active = True, wb_b_pending = False\<rparr>\<rparr>)
      })"

definition ram_fast_proc_axi_w :: "ram \<Rightarrow> ram option" where
  "ram_fast_proc_axi_w ram =
     (if \<not> wb_active (ram_wr ram) \<or> itf_fifo_empty (ram_w_slv ram) then Some ram
      else do {
        w \<leftarrow> itf_fifo_get_front (ram_w_slv ram);
        let wr = ram_wr ram;
        let last = (aw_last w \<or> wb_cnt wr = wb_len wr);
        if last \<and> wb_b_pending wr then Some ram
        else do {
          t \<leftarrow> itf_fifo_pop_front (ram_w_slv ram);
          (ok, ram) \<leftarrow> ram_write (ram\<lparr>ram_w_slv := t\<rparr>) (wb_addr wr) (2 ^ aw_size_num (wb_size wr)) (aw_data w) (aw_strb w);
          Some (ram\<lparr>ram_wr := (if last then wr\<lparr>wb_active := False, wb_b_pending := True\<rparr>
            else wr\<lparr>wb_addr := axi_burst_next_addr (wb_addr wr) (aw_burst_num (wb_type wr)) (aw_size_num (wb_size wr)), wb_cnt := wb_cnt wr + 1\<rparr>)\<rparr>)
        }
      })"

definition ram_fast_proc_axi_b :: "ram \<Rightarrow> ram option" where
  "ram_fast_proc_axi_b ram =
     (if \<not> wb_b_pending (ram_wr ram) \<or> itf_fifo_full (ram_b_mst ram) then Some ram
      else do {
        t \<leftarrow> itf_write (ram_b_mst ram) \<lparr>ab_id = wb_id (ram_wr ram), ab_resp = AXI4_B_RESP_OKAY\<rparr>;
        Some (ram\<lparr>ram_b_mst := t, ram_wr := (ram_wr ram)\<lparr>wb_b_pending := False\<rparr>\<rparr>)
      })"

definition ram_fast_proc_axi :: "ram \<Rightarrow> ram option" where
  "ram_fast_proc_axi ram = do {
     ram \<leftarrow> ram_fast_proc_axi_b ram;
     ram \<leftarrow> ram_fast_proc_axi_r ram;
     ram \<leftarrow> ram_fast_proc_axi_w ram;
     ram \<leftarrow> ram_fast_proc_axi_aw ram;
     ram_fast_proc_axi_ar ram
   }"

section \<open>ram.c: BTI\<close>

definition ram_fast_proc_bti_port :: "ram \<Rightarrow> nat \<Rightarrow> ram option" where
  "ram_fast_proc_bti_port ram port_idx = do {
     DBG_CHECK (port_idx < ram_port_num ram);
     p \<leftarrow> arr_get (ram_ports ram) port_idx;
     if itf_fifo_empty (rp_req_slv p) \<or> itf_fifo_full (rp_rsp_mst p) then Some ram
     else do {
       (req, t) \<leftarrow> itf_read (rp_req_slv p);
       DBG_CHECK (bq_addr req \<ge> ram_base_addr ram);
       (rsp, ram) \<leftarrow> ram_build_bti_rsp ram req;
       u \<leftarrow> itf_write (rp_rsp_mst p) rsp;
       Some (ram\<lparr>ram_ports := (ram_ports ram)[port_idx := p\<lparr>rp_req_slv := t, rp_rsp_mst := u\<rparr>]\<rparr>)
     }
   }"

fun ram_port_loop :: "(ram \<Rightarrow> nat \<Rightarrow> ram option) \<Rightarrow> nat list \<Rightarrow> ram \<Rightarrow> ram option" where
  "ram_port_loop f [] ram = Some ram"
| "ram_port_loop f (i # is) ram = do { ram \<leftarrow> f ram i; ram_port_loop f is ram }"

definition ram_fast_proc_bti :: "ram \<Rightarrow> ram option" where
  "ram_fast_proc_bti ram = ram_port_loop ram_fast_proc_bti_port [0..<ram_port_num ram] ram"

text \<open>A ring entry: \<open>None\<close> when it is outside the ring or was never written.\<close>

definition ring_get :: "'a option list \<Rightarrow> nat \<Rightarrow> 'a option" where
  "ring_get xs i = arr_get xs i \<bind> (\<lambda>x. x)"

definition ram_send_bti_rsp :: "ram \<Rightarrow> nat \<Rightarrow> ram option" where
  "ram_send_bti_rsp ram port_idx = do {
     p \<leftarrow> arr_get (ram_ports ram) port_idx;
     if rp_count p = 0 \<or> itf_fifo_full (rp_rsp_mst p) then Some ram
     else do {
       entry \<leftarrow> ring_get (rp_entries p) (rp_rptr p);
       if \<not> ram_entry_ready ram (rt_ready_cycle entry) then Some ram
       else do {
         t \<leftarrow> itf_write (rp_rsp_mst p) (rt_rsp entry);
         Some (ram\<lparr>ram_ports := (ram_ports ram)[port_idx := p\<lparr>rp_rsp_mst := t, rp_rptr := ram_fifo_next (rp_rptr p), rp_count := rp_count p - 1\<rparr>],
           ram_bti_count := ram_bti_count ram - 1\<rparr>)
       }
     }
   }"

definition ram_accept_bti_req :: "ram \<Rightarrow> nat \<Rightarrow> ram option" where
  "ram_accept_bti_req ram port_idx = do {
     p \<leftarrow> arr_get (ram_ports ram) port_idx;
     if itf_fifo_empty (rp_req_slv p) then Some ram
     else if rp_count p = RAM_PENDING_DEPTH then Some ram
     else do {
       (req, t) \<leftarrow> itf_read (rp_req_slv p);
       DBG_CHECK (bq_addr req \<ge> ram_base_addr ram);
       (rsp, ram) \<leftarrow> ram_build_bti_rsp ram req;
       es \<leftarrow> arr_put (rp_entries p) (rp_wptr p) (Some \<lparr>rt_ready_cycle = ram_ready_cycle ram, rt_rsp = rsp\<rparr>);
       Some (ram\<lparr>ram_ports := (ram_ports ram)[port_idx := p\<lparr>rp_req_slv := t, rp_entries := es, rp_wptr := ram_fifo_next (rp_wptr p), rp_count := rp_count p + 1\<rparr>],
         ram_bti_count := ram_bti_count ram + 1\<rparr>)
     }
   }"

definition ram_proc_bti :: "ram \<Rightarrow> ram option" where
  "ram_proc_bti ram = do {
     ram \<leftarrow> ram_port_loop ram_send_bti_rsp [0..<ram_port_num ram] ram;
     ram_port_loop ram_accept_bti_req [0..<ram_port_num ram] ram
   }"

section \<open>ram.c: AXI4 with latency\<close>

definition ram_accept_axi_ar :: "ram \<Rightarrow> ram option" where
  "ram_accept_axi_ar ram =
     (if itf_fifo_empty (ram_ar_slv ram) then Some ram
      else if rr_count (ram_rdq ram) = RAM_PENDING_DEPTH then Some ram
      else do {
        (ar, t) \<leftarrow> itf_read (ram_ar_slv ram);
        DBG_CHECK (ar_addr ar \<ge> ram_base_addr ram);
        let q = ram_rdq ram;
        es \<leftarrow> arr_put (rr_entries q) (rr_wptr q) (Some \<lparr>re_ready_cycle = ram_ready_cycle ram, re_addr = ar_addr ar - ram_base_addr ram,
          re_id = ar_id ar, re_len = ar_len ar, re_size = ar_size ar, re_burst = ar_burst ar, re_beat_cnt = 0\<rparr>);
        Some (ram\<lparr>ram_ar_slv := t, ram_rdq := q\<lparr>rr_entries := es, rr_wptr := ram_fifo_next (rr_wptr q), rr_count := rr_count q + 1\<rparr>\<rparr>)
      })"

definition ram_send_axi_r :: "ram \<Rightarrow> ram option" where
  "ram_send_axi_r ram =
     (if rr_count (ram_rdq ram) = 0 \<or> itf_fifo_full (ram_r_mst ram) then Some ram
      else do {
        let q = ram_rdq ram;
        entry \<leftarrow> ring_get (rr_entries q) (rr_rptr q);
        if \<not> ram_entry_ready ram (re_ready_cycle entry) then Some ram
        else do {
          d \<leftarrow> ram_read ram (re_addr entry) (2 ^ ar_size_num (re_size entry));
          let last = (re_beat_cnt entry = re_len entry);
          t \<leftarrow> itf_write (ram_r_mst ram) \<lparr>ax_id = re_id entry, ax_data = (case d of None \<Rightarrow> 0 | Some d \<Rightarrow> d),
            ax_resp = (if d \<noteq> None then AXI4_R_RESP_OKAY else AXI4_R_RESP_SLVERR), ax_last = last\<rparr>;
          if last then Some (ram\<lparr>ram_r_mst := t, ram_rdq := q\<lparr>rr_rptr := ram_fifo_next (rr_rptr q), rr_count := rr_count q - 1\<rparr>\<rparr>)
          else do {
            es \<leftarrow> arr_put (rr_entries q) (rr_rptr q) (Some (entry\<lparr>re_addr :=
              axi_burst_next_addr (re_addr entry) (ar_burst_num (re_burst entry)) (ar_size_num (re_size entry)), re_beat_cnt := re_beat_cnt entry + 1\<rparr>));
            Some (ram\<lparr>ram_r_mst := t, ram_rdq := q\<lparr>rr_entries := es\<rparr>\<rparr>)
          }
        }
      })"

definition ram_accept_axi_aw :: "ram \<Rightarrow> ram option" where
  "ram_accept_axi_aw ram =
     (if itf_fifo_empty (ram_aw_slv ram) then Some ram
      else if wr_count (ram_wrq ram) = RAM_PENDING_DEPTH then Some ram
      else do {
        (aw, t) \<leftarrow> itf_read (ram_aw_slv ram);
        DBG_CHECK (aw_addr aw \<ge> ram_base_addr ram);
        let q = ram_wrq ram;
        let slot = wr_wptr q;
        es \<leftarrow> arr_put (wr_entries q) slot (Some \<lparr>we_ready_cycle = 0, we_addr = aw_addr aw - ram_base_addr ram,
          we_id = aw_id aw, we_len = aw_len aw, we_size = aw_size aw, we_burst = aw_burst aw, we_beat_cnt = 0, we_w_done = False\<rparr>);
        Some (ram\<lparr>ram_aw_slv := t, ram_wrq := q\<lparr>wr_entries := es,
          wr_data_rptr := (if wr_need_w_count q = 0 then slot else wr_data_rptr q),
          wr_wptr := ram_fifo_next (wr_wptr q), wr_count := wr_count q + 1, wr_need_w_count := wr_need_w_count q + 1\<rparr>\<rparr>)
      })"

definition ram_accept_axi_w :: "ram \<Rightarrow> ram option" where
  "ram_accept_axi_w ram =
     (if itf_fifo_empty (ram_w_slv ram) then Some ram
      else if wr_need_w_count (ram_wrq ram) = 0 then Some ram
      else do {
        let q = ram_wrq ram;
        entry \<leftarrow> ring_get (wr_entries q) (wr_data_rptr q);
        DBG_CHECK (\<not> we_w_done entry);
        w \<leftarrow> itf_fifo_get_front (ram_w_slv ram);
        let last = (aw_last w \<or> we_beat_cnt entry = we_len entry);
        t \<leftarrow> itf_fifo_pop_front (ram_w_slv ram);
        (ok, ram) \<leftarrow> ram_write (ram\<lparr>ram_w_slv := t\<rparr>) (we_addr entry) (2 ^ aw_size_num (we_size entry)) (aw_data w) (aw_strb w);
        if last then do {
          es \<leftarrow> arr_put (wr_entries q) (wr_data_rptr q) (Some (entry\<lparr>we_w_done := True, we_ready_cycle := ram_ready_cycle ram\<rparr>));
          let need = wr_need_w_count q - 1;
          Some (ram\<lparr>ram_wrq := q\<lparr>wr_entries := es, wr_need_w_count := need,
            wr_data_rptr := (if need > 0 then ram_fifo_next (wr_data_rptr q) else wr_data_rptr q)\<rparr>\<rparr>)
        }
        else do {
          es \<leftarrow> arr_put (wr_entries q) (wr_data_rptr q) (Some (entry\<lparr>we_addr :=
            axi_burst_next_addr (we_addr entry) (aw_burst_num (we_burst entry)) (aw_size_num (we_size entry)), we_beat_cnt := we_beat_cnt entry + 1\<rparr>));
          Some (ram\<lparr>ram_wrq := q\<lparr>wr_entries := es\<rparr>\<rparr>)
        }
      })"

definition ram_send_axi_b :: "ram \<Rightarrow> ram option" where
  "ram_send_axi_b ram =
     (if wr_count (ram_wrq ram) = 0 \<or> itf_fifo_full (ram_b_mst ram) then Some ram
      else do {
        let q = ram_wrq ram;
        entry \<leftarrow> ring_get (wr_entries q) (wr_rptr q);
        if \<not> we_w_done entry \<or> \<not> ram_entry_ready ram (we_ready_cycle entry) then Some ram
        else do {
          t \<leftarrow> itf_write (ram_b_mst ram) \<lparr>ab_id = we_id entry, ab_resp = AXI4_B_RESP_OKAY\<rparr>;
          Some (ram\<lparr>ram_b_mst := t, ram_wrq := q\<lparr>wr_rptr := ram_fifo_next (wr_rptr q), wr_count := wr_count q - 1\<rparr>\<rparr>)
        }
      })"

definition ram_proc_axi :: "ram \<Rightarrow> ram option" where
  "ram_proc_axi ram = do {
     ram \<leftarrow> ram_send_axi_b ram;
     ram \<leftarrow> ram_send_axi_r ram;
     ram \<leftarrow> ram_accept_axi_w ram;
     ram \<leftarrow> ram_accept_axi_aw ram;
     ram_accept_axi_ar ram
   }"

definition ram_clock :: "ram \<Rightarrow> ram option" where
  "ram_clock ram =
     (if ram_latency ram = 0 then
        (if ram_mode_of ram = RAM_MODE_AXI then ram_fast_proc_axi ram else ram_fast_proc_bti ram)
      else if ram_mode_of ram = RAM_MODE_AXI then ram_proc_axi ram else ram_proc_bti ram)"

end
