(* ===== verification/RamView.thy ===== *)
theory RamView
  imports Ram L1View
begin

text \<open>
  The contents of the memory as a function from addresses to bytes. Reads and writes within the range are reads and writes of that
  function; outside they fail and change nothing.
\<close>

definition mem_get :: "memory \<Rightarrow> u32 \<Rightarrow> nat list \<Rightarrow> u32 \<Rightarrow> u32" where
  "mem_get m a = fold (\<lambda>i d. d OR push_bit (i * 8) (ucast (m (a + of_nat i))))"

definition mem_put :: "u32 \<Rightarrow> u8 \<Rightarrow> u32 \<Rightarrow> nat list \<Rightarrow> memory \<Rightarrow> memory" where
  "mem_put data strobe a = fold (\<lambda>i m. if strobe AND push_bit i 1 \<noteq> 0 then m(a + of_nat i := ucast (drop_bit (i * 8) data)) else m)"

definition ram_holds :: "ram \<Rightarrow> memory \<Rightarrow> bool" where
  "ram_holds ram m \<longleftrightarrow> length (ram_data ram) = unat (ram_size ram) + 3 \<and> unat (ram_base_addr ram) + unat (ram_size ram) \<le> 2 ^ 32
     \<and> (\<forall>k < unat (ram_size ram). m (ram_base_addr ram + of_nat k) = ram_data ram ! k)"

lemma ram_holdsD:
  assumes "ram_holds ram m"
  shows "length (ram_data ram) = unat (ram_size ram) + 3" "unat (ram_base_addr ram) + unat (ram_size ram) \<le> 2 ^ 32"
    "k < unat (ram_size ram) \<Longrightarrow> m (ram_base_addr ram + of_nat k) = ram_data ram ! k"
  using assms by (simp_all add: ram_holds_def)

lemma ram_holds_cong:
  "ram_data r' = ram_data r \<Longrightarrow> ram_size r' = ram_size r \<Longrightarrow> ram_base_addr r' = ram_base_addr r \<Longrightarrow> ram_holds r' m = ram_holds r m"
  by (simp add: ram_holds_def)

lemma ram_in_range_iff: "ram_in_range sz a n \<longleftrightarrow> n \<le> 4 \<and> unat a < unat sz \<and> unat a + n \<le> unat sz"
proof (cases "a < sz")
  case True
  then have "unat (sz - a) = unat sz - unat a" by (intro unat_sub) simp
  with True show ?thesis by (auto simp: ram_in_range_def word_less_nat_alt word_le_nat_alt)
next
  case False
  then show ?thesis by (simp add: ram_in_range_def word_less_nat_alt not_less word_le_nat_alt)
qed

lemma of_nat_inj32: "i < 2 ^ 32 \<Longrightarrow> j < 2 ^ 32 \<Longrightarrow> (of_nat i :: u32) = of_nat j \<Longrightarrow> i = j"
proof -
  assume b: "i < 2 ^ 32" "j < 2 ^ 32" and "(of_nat i :: u32) = of_nat j"
  then have "unat (of_nat i :: u32) = unat (of_nat j :: u32)" by simp
  with b show "i = j" by (simp only: unat_of_nat) (simp add: take_bit_nat_eq_self)
qed

lemma get_bytes_ok:
  assumes "ram_holds ram m" "\<forall>i\<in>set ks. unat a + i < unat (ram_size ram)"
  shows "get_bytes (ram_data ram) (unat a) ks d = Some (mem_get m (ram_base_addr ram + a) ks d)"
  using assms(2)
proof (induction ks arbitrary: d)
  case (Cons i ks)
  then have i: "unat a + i < unat (ram_size ram)" by simp
  then have "arr_get (ram_data ram) (unat a + i) = Some (m (ram_base_addr ram + a + of_nat i))"
    using ram_holdsD(1) [OF assms(1)] ram_holdsD(3) [OF assms(1) i] by (simp add: add.assoc)
  with Cons show ?case by (simp add: mem_get_def)
qed (simp add: mem_get_def)

lemma ram_read_ok:
  assumes "ram_holds ram m" "ram_in_range (ram_size ram) a n"
  shows "ram_read ram a n = Some (Some (mem_get m (ram_base_addr ram + a) [0..<n] 0))"
  using get_bytes_ok [OF assms(1), of "[0..<n]" a 0] assms(2) by (simp add: ram_read_def ram_in_range_iff)

lemma ram_read_fails: "\<not> ram_in_range (ram_size ram) a n \<Longrightarrow> ram_read ram a n = Some None"
  by (simp add: ram_read_def)

lemma ram_holds_update:
  assumes h: "ram_holds ram m" and k: "k < unat (ram_size ram)"
  shows "ram_holds (ram\<lparr>ram_data := (ram_data ram)[k := b]\<rparr>) (m(ram_base_addr ram + of_nat k := b))"
  unfolding ram_holds_def
proof (intro conjI allI impI)
  fix j assume j: "j < unat (ram_size (ram\<lparr>ram_data := (ram_data ram)[k := b]\<rparr>))"
  have "unat (ram_size ram) \<le> 2 ^ 32" using ram_holdsD(2) [OF h] by linarith
  then have "(of_nat j :: u32) = of_nat k \<longleftrightarrow> j = k" using of_nat_inj32 [of j k] j k by auto
  then show "(m(ram_base_addr ram + of_nat k := b)) (ram_base_addr (ram\<lparr>ram_data := (ram_data ram)[k := b]\<rparr>) + of_nat j)
      = ram_data (ram\<lparr>ram_data := (ram_data ram)[k := b]\<rparr>) ! j"
    using ram_holdsD(1,3) [OF h] j k by (auto simp: nth_list_update)
qed (use ram_holdsD [OF h] in simp_all)

lemma ram_write_loop_ok:
  assumes "ram_holds ram m" "\<forall>i\<in>set ks. unat a + i < unat (ram_size ram)"
  shows "\<exists>xs. ram_write_loop data strobe (unat a) ks (ram_data ram) = Some xs
    \<and> ram_holds (ram\<lparr>ram_data := xs\<rparr>) (mem_put data strobe (ram_base_addr ram + a) ks m)"
  using assms
proof (induction ks arbitrary: ram m)
  case Nil
  then show ?case by (simp add: mem_put_def)
next
  case (Cons i ks)
  then have i: "unat a + i < unat (ram_size ram)" and ks: "\<forall>i\<in>set ks. unat a + i < unat (ram_size ram)" by simp_all
  let ?b = "ucast (drop_bit (i * 8) data) :: u8"
  let ?r = "ram\<lparr>ram_data := (ram_data ram)[unat a + i := ?b]\<rparr>"
  from ram_holds_update [OF Cons.prems(1) i, of ?b]
  have h: "ram_holds ?r (m(ram_base_addr ram + a + of_nat i := ?b))" by (simp add: add.assoc)
  show ?case
  proof (cases "strobe AND push_bit i 1 = 0")
    case True
    then show ?thesis using Cons.IH [OF Cons.prems(1) ks] by (simp add: mem_put_def)
  next
    case False
    have "arr_put (ram_data ram) (unat a + i) ?b = Some ((ram_data ram)[unat a + i := ?b])" using i ram_holdsD(1) [OF Cons.prems(1)] by simp
    with False Cons.IH [OF h] ks show ?thesis by (simp add: mem_put_def fun_upd_def)
  qed
qed

lemma ram_write_ok:
  assumes "ram_holds ram m" "ram_in_range (ram_size ram) a n"
  obtains xs where "ram_write ram a n data strobe = Some (True, ram\<lparr>ram_data := xs\<rparr>)"
    "ram_holds (ram\<lparr>ram_data := xs\<rparr>) (mem_put data strobe (ram_base_addr ram + a) [0..<n] m)"
  using ram_write_loop_ok [OF assms(1), of "[0..<n]" a data strobe] assms(2)
  by (auto simp: ram_write_def ram_in_range_iff)

lemma ram_write_fails: "\<not> ram_in_range (ram_size ram) a n \<Longrightarrow> ram_write ram a n data strobe = Some (False, ram)"
  by (simp add: ram_write_def)

text \<open>A load of a program puts exactly its bytes at its place.\<close>

lemma put_bytes_ok:
  "a + length bs \<le> length xs \<Longrightarrow> put_bytes xs a bs = Some (take a xs @ bs @ drop (a + length bs) xs)"
proof (induction bs arbitrary: xs a)
  case (Cons b bs)
  from Cons.prems have a: "a < length xs" by simp
  with Cons.IH [of "Suc a" "xs[a := b]"] Cons.prems show ?case
    by (simp add: take_Suc_conv_app_nth drop_update_cancel)
qed simp

end
