(* ===== verification/RamBti.thy ===== *)
theory RamBti
  imports RamView
begin

text \<open>
  The memory with BTI ports, closed with a client at each port that issues requests and takes answers whenever it likes. With and
  without latency, the memory behaves as if it served the requests of all ports one at a time, at the moment it takes them.
\<close>

section \<open>What a request means\<close>

definition ram_accepts :: "u32 \<Rightarrow> u32 \<Rightarrow> bti_req \<Rightarrow> bool" where
  "ram_accepts base sz r \<longleftrightarrow> (bq_cmd r = BTI_REQ_CMD_READ \<or> bq_cmd r = BTI_REQ_CMD_WRITE)
     \<and> ram_in_range sz (bq_addr r - base) (l1_req_size_from r)"

definition ram_rsp_of :: "u32 \<Rightarrow> u32 \<Rightarrow> memory \<Rightarrow> bti_req \<Rightarrow> bti_rsp" where
  "ram_rsp_of base sz m r = (if ram_accepts base sz r then req_rsp m r else \<lparr>bp_trans_id = bq_trans_id r, bp_data = 0, bp_ok = False\<rparr>)"

definition ram_mem_of :: "u32 \<Rightarrow> u32 \<Rightarrow> bti_req \<Rightarrow> memory \<Rightarrow> memory" where
  "ram_mem_of base sz r m = (if ram_accepts base sz r then req_mem r m else m)"

text \<open>The requests of all ports one after the other, each with the number of its port.\<close>

fun serve_mem :: "u32 \<Rightarrow> u32 \<Rightarrow> memory \<Rightarrow> (nat \<times> bti_req) list \<Rightarrow> memory" where
  "serve_mem base sz m [] = m"
| "serve_mem base sz m ((p, r) # rs) = serve_mem base sz (ram_mem_of base sz r m) rs"

fun serve_rsps :: "u32 \<Rightarrow> u32 \<Rightarrow> memory \<Rightarrow> (nat \<times> bti_req) list \<Rightarrow> (nat \<times> bti_rsp) list" where
  "serve_rsps base sz m [] = []"
| "serve_rsps base sz m ((p, r) # rs) = (p, ram_rsp_of base sz m r) # serve_rsps base sz (ram_mem_of base sz r m) rs"

definition of_port :: "nat \<Rightarrow> (nat \<times> 'a) list \<Rightarrow> 'a list" where
  "of_port p xs = map snd (filter (\<lambda>x. fst x = p) xs)"

lemma of_port_snoc: "of_port p (xs @ [(q, x)]) = of_port p xs @ (if q = p then [x] else [])"
  by (simp add: of_port_def)

lemma serve_mem_snoc: "serve_mem base sz m (xs @ [(p, r)]) = ram_mem_of base sz r (serve_mem base sz m xs)"
  by (induction xs arbitrary: m) auto

lemma serve_rsps_snoc: "serve_rsps base sz m (xs @ [(p, r)]) = serve_rsps base sz m xs @ [(p, ram_rsp_of base sz (serve_mem base sz m xs) r)]"
  by (induction xs arbitrary: m) auto

lemma size_from_num: "2 ^ bti_size_num (bq_size r) = l1_req_size_from r"
  by (simp add: bti_size_num_def l1_req_size_from_def split: bti_req_size.split)

lemma mem_read_get: "mem_read m r = mem_get m (bq_addr r)"
  by (simp add: fun_eq_iff mem_read_def mem_get_def)

lemma mem_write_put: "mem_write r = mem_put (bq_data r) (bq_strobe r) (bq_addr r)"
  by (simp add: fun_eq_iff mem_write_def mem_put_def)

lemma ram_build_bti_rsp_ok:
  assumes h: "ram_holds ram m"
  obtains xs where "ram_build_bti_rsp ram r = Some (ram_rsp_of (ram_base_addr ram) (ram_size ram) m r, ram\<lparr>ram_data := xs\<rparr>)"
    "ram_holds (ram\<lparr>ram_data := xs\<rparr>) (ram_mem_of (ram_base_addr ram) (ram_size ram) r m)"
proof -
  let ?a = "bq_addr r - ram_base_addr ram" and ?n = "l1_req_size_from r"
  have sz: "\<not> bti_size_num (bq_size r) > bti_size_num BTI_REQ_SIZE_B4" by (simp add: bti_size_num_def split: bti_req_size.split)
  have keep: "ram\<lparr>ram_data := ram_data ram\<rparr> = ram" by simp
  note simps = ram_build_bti_rsp_def size_from_num ram_rsp_of_def ram_mem_of_def ram_accepts_def req_rsp_def req_mem_def mem_read_get mem_write_put Let_def
  show thesis
  proof (cases "ram_accepts (ram_base_addr ram) (ram_size ram) r")
    case False
    then show thesis using that [of "ram_data ram"] h keep sz ram_read_fails [of ram ?a ?n] ram_write_fails [of ram ?a ?n]
      by (cases "bq_cmd r") (auto simp: simps)
  next
    case True
    then have rng: "ram_in_range (ram_size ram) ?a ?n" by (simp add: ram_accepts_def)
    from True consider "bq_cmd r = BTI_REQ_CMD_READ" | "bq_cmd r = BTI_REQ_CMD_WRITE" by (auto simp: ram_accepts_def)
    then show thesis
    proof cases
      case 1
      then show thesis using that [of "ram_data ram"] h keep sz rng ram_read_ok [OF h rng] by (simp add: simps)
    next
      case 2
      from ram_write_ok [OF h rng] obtain xs where "ram_write ram ?a ?n (bq_data r) (bq_strobe r) = Some (True, ram\<lparr>ram_data := xs\<rparr>)"
        "ram_holds (ram\<lparr>ram_data := xs\<rparr>) (mem_put (bq_data r) (bq_strobe r) (ram_base_addr ram + ?a) [0..<?n] m)" .
      with 2 show thesis using that [of xs] sz rng by (simp add: simps)
    qed
  qed
qed

section \<open>One port\<close>

definition port_wf :: "u32 \<Rightarrow> ram_port \<Rightarrow> bool" where
  "port_wf latency p \<longleftrightarrow> itf_inv (rp_req_slv p) \<and> itf_inv (rp_rsp_mst p)
     \<and> (if latency = 0 then rp_count p = 0 else ring_inv (rp_entries p) RAM_PENDING_DEPTH (rp_count p) (rp_rptr p) (rp_wptr p))"

text \<open>The answers of a port that are not taken yet: in the channel, then in the ring.\<close>

definition port_out :: "ram_port \<Rightarrow> bti_rsp list" where
  "port_out p = itf_list (rp_rsp_mst p) @ map rt_rsp (ring_list (rp_entries p) RAM_PENDING_DEPTH (rp_count p) (rp_rptr p))"

definition port_inv :: "ram \<Rightarrow> memory \<Rightarrow> (nat \<times> bti_req) list \<Rightarrow> (nat \<Rightarrow> bti_req list) \<Rightarrow> (nat \<Rightarrow> bti_rsp list) \<Rightarrow> nat \<Rightarrow> bool" where
  "port_inv ram m acc iss rcv p \<longleftrightarrow> (let P = ram_ports ram ! p in port_wf (ram_latency ram) P
     \<and> iss p = of_port p acc @ itf_list (rp_req_slv P) \<and> rcv p @ port_out P = of_port p (serve_rsps (ram_base_addr ram) (ram_size ram) m acc)
     \<and> (\<forall>r\<in>set (itf_list (rp_req_slv P)). ram_base_addr ram \<le> bq_addr r))"

definition bti_inv :: "memory \<Rightarrow> (nat \<Rightarrow> bti_req list) \<Rightarrow> (nat \<Rightarrow> bti_rsp list) \<Rightarrow> ram \<Rightarrow> bool" where
  "bti_inv m iss rcv ram \<longleftrightarrow> ram_port_num ram \<le> length (ram_ports ram) \<and> ram_mode_of ram = RAM_MODE_BTI
     \<and> (\<exists>acc. ram_holds ram (serve_mem (ram_base_addr ram) (ram_size ram) m acc)
          \<and> (\<forall>p < ram_port_num ram. port_inv ram m acc iss rcv p))"

lemma port_invD:
  assumes "port_inv ram m acc iss rcv p"
  shows "itf_inv (rp_req_slv (ram_ports ram ! p))" "itf_inv (rp_rsp_mst (ram_ports ram ! p))"
    "ram_latency ram = 0 \<Longrightarrow> rp_count (ram_ports ram ! p) = 0"
    "ram_latency ram \<noteq> 0 \<Longrightarrow> ring_inv (rp_entries (ram_ports ram ! p)) RAM_PENDING_DEPTH (rp_count (ram_ports ram ! p)) (rp_rptr (ram_ports ram ! p)) (rp_wptr (ram_ports ram ! p))"
    "iss p = of_port p acc @ itf_list (rp_req_slv (ram_ports ram ! p))"
    "rcv p @ port_out (ram_ports ram ! p) = of_port p (serve_rsps (ram_base_addr ram) (ram_size ram) m acc)"
    "r \<in> set (itf_list (rp_req_slv (ram_ports ram ! p))) \<Longrightarrow> ram_base_addr ram \<le> bq_addr r"
  using assms by (auto simp: port_inv_def port_wf_def Let_def)

text \<open>A step that concerns the answers of one port only.\<close>

lemma bti_inv_port:
  assumes inv: "bti_inv m iss rcv ram" and i: "i < ram_port_num ram"
    and P: "P = ram_ports ram ! i" and wf: "port_wf (ram_latency ram) P'" and req: "rp_req_slv P' = rp_req_slv P"
    and out: "rcv' i @ port_out P' = rcv i @ port_out P" and others: "\<And>p. p \<noteq> i \<Longrightarrow> rcv' p = rcv p"
  shows "bti_inv m iss rcv' (ram\<lparr>ram_ports := (ram_ports ram)[i := P'], ram_bti_count := n\<rparr>)"
proof -
  from inv obtain acc where len: "ram_port_num ram \<le> length (ram_ports ram)" "ram_mode_of ram = RAM_MODE_BTI"
    and h: "ram_holds ram (serve_mem (ram_base_addr ram) (ram_size ram) m acc)" and ports: "\<And>p. p < ram_port_num ram \<Longrightarrow> port_inv ram m acc iss rcv p"
    unfolding bti_inv_def by blast
  let ?r = "ram\<lparr>ram_ports := (ram_ports ram)[i := P'], ram_bti_count := n\<rparr>"
  have "port_inv ?r m acc iss rcv' p" if p: "p < ram_port_num ram" for p
  proof (cases "p = i")
    case True
    then show ?thesis using port_invD [OF ports [OF p]] wf req out len(1) i P by (simp add: port_inv_def)
  next
    case False
    then show ?thesis using ports [OF p] others by (simp add: port_inv_def)
  qed
  moreover have "ram_holds ?r (serve_mem (ram_base_addr ram) (ram_size ram) m acc)" using h by (simp add: ram_holds_def)
  ultimately show ?thesis unfolding bti_inv_def using len by auto
qed

text \<open>A step that serves the first request waiting at one port.\<close>

lemma bti_inv_serve:
  assumes inv: "bti_inv m iss rcv ram" and i: "i < ram_port_num ram"
    and P: "P = ram_ports ram ! i" and ne: "\<not> itf_fifo_empty (rp_req_slv P)"
  obtains r t rsp xs where "itf_read (rp_req_slv P) = Some (r, t)" "ram_base_addr ram \<le> bq_addr r" "itf_inv t"
    "ram_build_bti_rsp ram r = Some (rsp, ram\<lparr>ram_data := xs\<rparr>)"
    "\<And>P' n. port_wf (ram_latency ram) P' \<Longrightarrow> rp_req_slv P' = t \<Longrightarrow> port_out P' = port_out P @ [rsp] \<Longrightarrow>
      bti_inv m iss rcv (ram\<lparr>ram_data := xs, ram_ports := (ram_ports ram)[i := P'], ram_bti_count := n\<rparr>)"
proof -
  from inv obtain acc where len: "ram_port_num ram \<le> length (ram_ports ram)" "ram_mode_of ram = RAM_MODE_BTI"
    and h: "ram_holds ram (serve_mem (ram_base_addr ram) (ram_size ram) m acc)" and ports: "\<And>p. p < ram_port_num ram \<Longrightarrow> port_inv ram m acc iss rcv p"
    unfolding bti_inv_def by blast
  note d = port_invD [OF ports [OF i]]
  from d(1) ne P obtain r t where t: "itf_read (rp_req_slv P) = Some (r, t)" "itf_inv t" "itf_list (rp_req_slv P) = r # itf_list t"
    by (metis itf.pop_not_empty)
  let ?acc = "acc @ [(i, r)]" and ?B = "ram_base_addr ram" and ?Z = "ram_size ram"
  let ?m = "serve_mem ?B ?Z m acc"
  from ram_build_bti_rsp_ok [OF h, of r] obtain xs where x: "ram_build_bti_rsp ram r = Some (ram_rsp_of ?B ?Z ?m r, ram\<lparr>ram_data := xs\<rparr>)"
    "ram_holds (ram\<lparr>ram_data := xs\<rparr>) (ram_mem_of ?B ?Z r ?m)" .
  show thesis
  proof (rule that [OF t(1) _ t(2) x(1)])
    show "?B \<le> bq_addr r" using d(7) [of r] t(3) P by simp
    fix P' n assume P': "port_wf (ram_latency ram) P'" "rp_req_slv P' = t" "port_out P' = port_out P @ [ram_rsp_of ?B ?Z ?m r]"
    let ?r = "ram\<lparr>ram_data := xs, ram_ports := (ram_ports ram)[i := P'], ram_bti_count := n\<rparr>"
    have "port_inv ?r m ?acc iss rcv p" if p: "p < ram_port_num ram" for p
    proof (cases "p = i")
      case True
      then show ?thesis using P' d(5,6,7) t(3) P i len(1) by (auto simp: port_inv_def of_port_snoc serve_rsps_snoc)
    next
      case False
      then show ?thesis using ports [OF p] by (simp add: port_inv_def of_port_snoc serve_rsps_snoc)
    qed
    moreover have "ram_holds ?r (serve_mem ?B ?Z m ?acc)" using x(2) by (simp add: serve_mem_snoc ram_holds_def)
    ultimately show "bti_inv m iss rcv ?r" unfolding bti_inv_def using len by auto
  qed
qed

section \<open>One tick\<close>

definition same_conf :: "ram \<Rightarrow> ram \<Rightarrow> bool" where
  "same_conf r r' \<longleftrightarrow> ram_port_num r' = ram_port_num r \<and> ram_latency r' = ram_latency r \<and> ram_base_addr r' = ram_base_addr r \<and> ram_size r' = ram_size r"

definition bti_next :: "memory \<Rightarrow> (nat \<Rightarrow> bti_req list) \<Rightarrow> (nat \<Rightarrow> bti_rsp list) \<Rightarrow> ram \<Rightarrow> ram option \<Rightarrow> bool" where
  "bti_next m iss rcv ram res \<longleftrightarrow> (\<exists>r. res = Some r \<and> bti_inv m iss rcv r \<and> same_conf ram r)"

lemma bti_invD:
  assumes "bti_inv m iss rcv ram" "i < ram_port_num ram" "P = ram_ports ram ! i"
  shows "i < length (ram_ports ram)" "itf_inv (rp_req_slv P)" "itf_inv (rp_rsp_mst P)" "ram_latency ram = 0 \<Longrightarrow> rp_count P = 0"
    "ram_latency ram \<noteq> 0 \<Longrightarrow> ring_inv (rp_entries P) RAM_PENDING_DEPTH (rp_count P) (rp_rptr P) (rp_wptr P)"
  using assms port_invD(1-4) unfolding bti_inv_def by (metis order_less_le_trans)+

lemma bti_stay: "bti_inv m iss rcv ram \<Longrightarrow> bti_next m iss rcv ram (Some ram)"
  by (simp add: bti_next_def same_conf_def)

lemma ring_list_empty [simp]: "ring_list xs d 0 r = []"
  by (simp add: ring_list_def)

lemma fast_bti_port_ok:
  assumes inv: "bti_inv m iss rcv ram" and i: "i < ram_port_num ram" and lat: "ram_latency ram = 0"
  shows "bti_next m iss rcv ram (ram_fast_proc_bti_port ram i)"
proof -
  define P where "P = ram_ports ram ! i"
  note d = bti_invD [OF inv i P_def]
  have get: "arr_get (ram_ports ram) i = Some P" using d(1) by (simp add: P_def)
  show ?thesis
  proof (cases "itf_fifo_empty (rp_req_slv P) \<or> itf_fifo_full (rp_rsp_mst P)")
    case True
    then have "ram_fast_proc_bti_port ram i = Some ram" using get i by (simp add: ram_fast_proc_bti_port_def)
    then show ?thesis using bti_stay [OF inv] by simp
  next
    case False
    then have "\<not> itf_fifo_empty (rp_req_slv P)" by simp
    from bti_inv_serve [OF inv i P_def this] obtain r t rsp xs where s: "itf_read (rp_req_slv P) = Some (r, t)" "ram_base_addr ram \<le> bq_addr r" "itf_inv t"
      "ram_build_bti_rsp ram r = Some (rsp, ram\<lparr>ram_data := xs\<rparr>)"
      and next_inv: "\<And>P' n. port_wf (ram_latency ram) P' \<Longrightarrow> rp_req_slv P' = t \<Longrightarrow> port_out P' = port_out P @ [rsp] \<Longrightarrow>
        bti_inv m iss rcv (ram\<lparr>ram_data := xs, ram_ports := (ram_ports ram)[i := P'], ram_bti_count := n\<rparr>)" by blast
    from itf.push_not_full [OF d(3), of rsp] False obtain u where u: "itf_write (rp_rsp_mst P) rsp = Some u" "itf_inv u" "itf_list u = itf_list (rp_rsp_mst P) @ [rsp]"
      by auto
    let ?P = "P\<lparr>rp_req_slv := t, rp_rsp_mst := u\<rparr>"
    let ?r = "ram\<lparr>ram_data := xs, ram_ports := (ram_ports ram)[i := ?P]\<rparr>"
    have "bti_inv m iss rcv (ram\<lparr>ram_data := xs, ram_ports := (ram_ports ram)[i := ?P], ram_bti_count := ram_bti_count ram\<rparr>)"
      by (rule next_inv) (use s(3) u d(4) lat in \<open>simp_all add: port_wf_def port_out_def\<close>)
    moreover have "ram_fast_proc_bti_port ram i = Some ?r" using False get i s u(1) by (simp add: ram_fast_proc_bti_port_def)
    ultimately show ?thesis by (simp add: bti_next_def same_conf_def)
  qed
qed

lemma ring_get_front:
  assumes "ring_inv xs d n r w" "0 < n"
  shows "ring_get xs r = Some (the (xs ! r))"
  using ring_front [OF assms] by (auto simp: ring_get_def)

lemma send_bti_rsp_ok:
  assumes inv: "bti_inv m iss rcv ram" and i: "i < ram_port_num ram" and lat: "ram_latency ram \<noteq> 0"
  shows "bti_next m iss rcv ram (ram_send_bti_rsp ram i)"
proof -
  define P where "P = ram_ports ram ! i"
  note d = bti_invD [OF inv i P_def]
  have get: "arr_get (ram_ports ram) i = Some P" using d(1) by (simp add: P_def)
  define e where "e = the (rp_entries P ! rp_rptr P)"
  show ?thesis
  proof (cases "rp_count P = 0 \<or> itf_fifo_full (rp_rsp_mst P) \<or> \<not> ram_entry_ready ram (rt_ready_cycle e)")
    case True
    then have "ram_send_bti_rsp ram i = Some ram" using get ring_get_front [OF d(5) [OF lat]] by (auto simp: ram_send_bti_rsp_def e_def)
    then show ?thesis using bti_stay [OF inv] by simp
  next
    case False
    then have n: "0 < rp_count P" by simp
    from itf.push_not_full [OF d(3), of "rt_rsp e"] False obtain u where u: "itf_write (rp_rsp_mst P) (rt_rsp e) = Some u" "itf_inv u"
      "itf_list u = itf_list (rp_rsp_mst P) @ [rt_rsp e]" by auto
    note R = ring_pop_inv [OF d(5) [OF lat] n] ring_pop_list [OF d(5) [OF lat] n]
    let ?P = "P\<lparr>rp_rsp_mst := u, rp_rptr := ram_fifo_next (rp_rptr P), rp_count := rp_count P - 1\<rparr>"
    let ?r = "ram\<lparr>ram_ports := (ram_ports ram)[i := ?P], ram_bti_count := ram_bti_count ram - 1\<rparr>"
    have "bti_inv m iss rcv ?r"
      by (rule bti_inv_port [OF inv i P_def]) (use u d(2) lat R in \<open>simp_all add: port_wf_def port_out_def ram_fifo_next_def e_def\<close>)
    moreover have "ram_send_bti_rsp ram i = Some ?r" using False get u(1) ring_get_front [OF d(5) [OF lat] n] by (simp add: ram_send_bti_rsp_def e_def)
    ultimately show ?thesis by (simp add: bti_next_def same_conf_def)
  qed
qed

lemma accept_bti_req_ok:
  assumes inv: "bti_inv m iss rcv ram" and i: "i < ram_port_num ram" and lat: "ram_latency ram \<noteq> 0"
  shows "bti_next m iss rcv ram (ram_accept_bti_req ram i)"
proof -
  define P where "P = ram_ports ram ! i"
  note d = bti_invD [OF inv i P_def]
  have get: "arr_get (ram_ports ram) i = Some P" using d(1) by (simp add: P_def)
  show ?thesis
  proof (cases "itf_fifo_empty (rp_req_slv P) \<or> rp_count P = RAM_PENDING_DEPTH")
    case True
    then have "ram_accept_bti_req ram i = Some ram" using get by (auto simp: ram_accept_bti_req_def)
    then show ?thesis using bti_stay [OF inv] by simp
  next
    case False
    then have "\<not> itf_fifo_empty (rp_req_slv P)" by simp
    from bti_inv_serve [OF inv i P_def this] obtain r t rsp xs where s: "itf_read (rp_req_slv P) = Some (r, t)" "ram_base_addr ram \<le> bq_addr r" "itf_inv t"
      "ram_build_bti_rsp ram r = Some (rsp, ram\<lparr>ram_data := xs\<rparr>)"
      and next_inv: "\<And>P' n. port_wf (ram_latency ram) P' \<Longrightarrow> rp_req_slv P' = t \<Longrightarrow> port_out P' = port_out P @ [rsp] \<Longrightarrow>
        bti_inv m iss rcv (ram\<lparr>ram_data := xs, ram_ports := (ram_ports ram)[i := P'], ram_bti_count := n\<rparr>)" by blast
    note ring = d(5) [OF lat]
    have room: "rp_count P < RAM_PENDING_DEPTH" using False ring by (simp add: ring_inv_def)
    define e where "e = \<lparr>rt_ready_cycle = ram_ready_cycle (ram\<lparr>ram_data := xs\<rparr>), rt_rsp = rsp\<rparr>"
    have put: "arr_put (rp_entries P) (rp_wptr P) (Some e) = Some ((rp_entries P)[rp_wptr P := Some e])"
      using ring_wptr_bound [OF ring] by simp
    note R = ring_push_inv [OF ring room, of e] ring_push_list [OF ring room, of e]
    let ?P = "P\<lparr>rp_req_slv := t, rp_entries := (rp_entries P)[rp_wptr P := Some e], rp_wptr := ram_fifo_next (rp_wptr P), rp_count := rp_count P + 1\<rparr>"
    let ?r = "ram\<lparr>ram_data := xs, ram_ports := (ram_ports ram)[i := ?P], ram_bti_count := ram_bti_count ram + 1\<rparr>"
    have "bti_inv m iss rcv ?r"
      by (rule next_inv) (use s(3) d(3) lat R in \<open>simp_all add: port_wf_def port_out_def ram_fifo_next_def e_def\<close>)
    moreover have "ram_accept_bti_req ram i = Some ?r" using False get s put by (simp add: ram_accept_bti_req_def e_def)
    ultimately show ?thesis by (simp add: bti_next_def same_conf_def)
  qed
qed

lemma ram_port_loop_ok:
  assumes "bti_inv m iss rcv ram" "\<forall>i\<in>set is. i < ram_port_num ram"
    and "\<And>r i. bti_inv m iss rcv r \<Longrightarrow> same_conf ram r \<Longrightarrow> i < ram_port_num r \<Longrightarrow> bti_next m iss rcv r (f r i)"
  shows "bti_next m iss rcv ram (ram_port_loop f is ram)"
  using assms
proof (induction "is" arbitrary: ram)
  case Nil
  then show ?case by (simp add: bti_stay)
next
  case (Cons i js)
  from Cons.prems have "bti_next m iss rcv ram (f ram i)" by (simp add: same_conf_def)
  then obtain r where r: "f ram i = Some r" "bti_inv m iss rcv r" "same_conf ram r" unfolding bti_next_def by blast
  have "bti_next m iss rcv r (ram_port_loop f js r)"
    by (rule Cons.IH) (use r Cons.prems in \<open>auto simp: same_conf_def\<close>)
  with r show ?case by (auto simp: bti_next_def same_conf_def)
qed

lemma ram_bti_clock_ok:
  assumes inv: "bti_inv m iss rcv ram"
  shows "bti_next m iss rcv ram (ram_clock ram)"
proof -
  have mode: "ram_mode_of ram = RAM_MODE_BTI" using inv by (simp add: bti_inv_def)
  have loop: "bti_next m iss rcv r (ram_port_loop f [0..<ram_port_num r] r)"
    if "bti_inv m iss rcv r" "\<And>r' i. bti_inv m iss rcv r' \<Longrightarrow> same_conf r r' \<Longrightarrow> i < ram_port_num r' \<Longrightarrow> bti_next m iss rcv r' (f r' i)" for f r
    by (rule ram_port_loop_ok) (use that in auto)
  show ?thesis
  proof (cases "ram_latency ram = 0")
    case True
    then have "bti_next m iss rcv ram (ram_fast_proc_bti ram)" unfolding ram_fast_proc_bti_def
      by (intro loop [OF inv]) (auto intro!: fast_bti_port_ok simp: same_conf_def)
    then show ?thesis using True mode by (simp add: ram_clock_def)
  next
    case False
    then have "bti_next m iss rcv ram (ram_port_loop ram_send_bti_rsp [0..<ram_port_num ram] ram)"
      by (intro loop [OF inv]) (auto intro!: send_bti_rsp_ok simp: same_conf_def)
    then obtain r where r: "ram_port_loop ram_send_bti_rsp [0..<ram_port_num ram] ram = Some r" "bti_inv m iss rcv r" "same_conf ram r"
      unfolding bti_next_def by blast
    have "bti_next m iss rcv r (ram_port_loop ram_accept_bti_req [0..<ram_port_num r] r)"
      by (intro loop [OF r(2)]) (use r(3) False in \<open>auto intro!: accept_bti_req_ok simp: same_conf_def\<close>)
    then show ?thesis using r False mode by (auto simp: ram_clock_def ram_proc_bti_def bti_next_def same_conf_def)
  qed
qed

section \<open>Runs\<close>

record ram_sys =
  z_ram :: ram
  z_reqs :: "nat \<Rightarrow> bti_req list"
  z_rsps :: "nat \<Rightarrow> bti_rsp list"

datatype ram_ev = RIssue nat bti_req | RReceive nat | RTick u64

text \<open>
  A client issues a request when there is room and takes an answer when there is one; a tick happens at some value of the cycle
  counter. An event that cannot happen changes nothing.
\<close>

fun ram_event :: "ram_ev \<Rightarrow> ram_sys \<Rightarrow> ram_sys option" where
  "ram_event (RTick c) z = do { r \<leftarrow> ram_clock ((z_ram z)\<lparr>ram_cycle_sig := Some c\<rparr>); Some (z\<lparr>z_ram := r\<rparr>) }"
| "ram_event (RIssue p r) z = (let ram = z_ram z; P = ram_ports ram ! p in
     if p \<ge> ram_port_num ram \<or> itf_fifo_full (rp_req_slv P) then Some z
     else do { t \<leftarrow> itf_write (rp_req_slv P) r;
       Some (z\<lparr>z_ram := ram\<lparr>ram_ports := (ram_ports ram)[p := P\<lparr>rp_req_slv := t\<rparr>]\<rparr>, z_reqs := (z_reqs z)(p := z_reqs z p @ [r])\<rparr>) })"
| "ram_event (RReceive p) z = (let ram = z_ram z; P = ram_ports ram ! p in
     if p \<ge> ram_port_num ram \<or> itf_fifo_empty (rp_rsp_mst P) then Some z
     else do { (r, t) \<leftarrow> itf_read (rp_rsp_mst P);
       Some (z\<lparr>z_ram := ram\<lparr>ram_ports := (ram_ports ram)[p := P\<lparr>rp_rsp_mst := t\<rparr>]\<rparr>, z_rsps := (z_rsps z)(p := z_rsps z p @ [r])\<rparr>) })"

fun ram_exec :: "ram_ev list \<Rightarrow> ram_sys \<Rightarrow> ram_sys option" where
  "ram_exec [] z = Some z"
| "ram_exec (ev # evs) z = do { z \<leftarrow> ram_event ev z; ram_exec evs z }"

definition ram_contents :: "ram \<Rightarrow> memory" where
  "ram_contents ram a = (if unat (a - ram_base_addr ram) < length (ram_data ram) then ram_data ram ! unat (a - ram_base_addr ram) else 0)"

definition ram_wf :: "ram \<Rightarrow> bool" where
  "ram_wf ram \<longleftrightarrow> length (ram_data ram) = unat (ram_size ram) + 3 \<and> unat (ram_base_addr ram) + unat (ram_size ram) \<le> 2 ^ 32"

definition ram_bti_ready :: "ram \<Rightarrow> bool" where
  "ram_bti_ready ram \<longleftrightarrow> ram_wf ram \<and> ram_mode_of ram = RAM_MODE_BTI \<and> ram_port_num ram \<le> length (ram_ports ram)
     \<and> (\<forall>p < ram_port_num ram. let P = ram_ports ram ! p in itf_inv (rp_req_slv P) \<and> itf_list (rp_req_slv P) = []
          \<and> itf_inv (rp_rsp_mst P) \<and> itf_list (rp_rsp_mst P) = [] \<and> (ram_latency ram \<noteq> 0 \<longrightarrow> length (rp_entries P) = RAM_PENDING_DEPTH))"

definition ram_boot :: "ram \<Rightarrow> ram_sys" where
  "ram_boot ram = \<lparr>z_ram = ram_reset ram, z_reqs = (\<lambda>_. []), z_rsps = (\<lambda>_. [])\<rparr>"

text \<open>Nothing is waiting at a port.\<close>

definition port_drained :: "ram_port \<Rightarrow> bool" where
  "port_drained p \<longleftrightarrow> itf_fifo_empty (rp_req_slv p) \<and> itf_fifo_empty (rp_rsp_mst p) \<and> rp_count p = 0"

lemma ram_contents_holds:
  assumes "ram_wf ram"
  shows "ram_holds ram (ram_contents ram)"
proof -
  have "ram_contents ram (ram_base_addr ram + of_nat k) = ram_data ram ! k" if "k < unat (ram_size ram)" for k
  proof -
    have "k < 2 ^ 32" using that assms by (simp add: ram_wf_def)
    then have "unat (of_nat k :: u32) = k" by (simp only: unat_of_nat) (simp add: take_bit_nat_eq_self)
    then show ?thesis using that assms by (simp add: ram_contents_def ram_wf_def)
  qed
  then show ?thesis using assms by (simp add: ram_holds_def ram_wf_def)
qed

lemma bti_inv_cycle [simp]: "bti_inv m iss rcv (ram\<lparr>ram_cycle_sig := c\<rparr>) = bti_inv m iss rcv ram"
  by (simp add: bti_inv_def port_inv_def ram_holds_def)

lemma bti_boot_ok:
  assumes "ram_bti_ready ram"
  shows "bti_inv (ram_contents ram) (\<lambda>_. []) (\<lambda>_. []) (ram_reset ram)"
proof -
  have "ram_holds (ram_reset ram) (ram_contents ram)" using ram_contents_holds [of ram] assms
    by (simp add: ram_bti_ready_def ram_holds_def ram_reset_def)
  moreover have "port_inv (ram_reset ram) (ram_contents ram) [] (\<lambda>_. []) (\<lambda>_. []) p" if "p < ram_port_num ram" for p
    using assms that by (simp add: ram_bti_ready_def port_inv_def ram_reset_def port_wf_def port_out_def of_port_def ring_empty Let_def)
  ultimately show ?thesis using assms unfolding bti_inv_def
    by (intro conjI exI [of _ "[]"]) (simp_all add: ram_bti_ready_def ram_reset_def)
qed

lemma bti_issue_ok:
  assumes inv: "bti_inv m iss rcv ram" and i: "i < ram_port_num ram" and P: "P = ram_ports ram ! i"
    and t: "itf_inv t" "itf_list t = itf_list (rp_req_slv P) @ [r]" and base: "ram_base_addr ram \<le> bq_addr r"
  shows "bti_inv m (iss(i := iss i @ [r])) rcv (ram\<lparr>ram_ports := (ram_ports ram)[i := P\<lparr>rp_req_slv := t\<rparr>]\<rparr>)"
proof -
  from inv obtain acc where len: "ram_port_num ram \<le> length (ram_ports ram)" "ram_mode_of ram = RAM_MODE_BTI"
    and h: "ram_holds ram (serve_mem (ram_base_addr ram) (ram_size ram) m acc)" and ports: "\<And>p. p < ram_port_num ram \<Longrightarrow> port_inv ram m acc iss rcv p"
    unfolding bti_inv_def by blast
  let ?r = "ram\<lparr>ram_ports := (ram_ports ram)[i := P\<lparr>rp_req_slv := t\<rparr>]\<rparr>"
  have "port_inv ?r m acc (iss(i := iss i @ [r])) rcv p" if p: "p < ram_port_num ram" for p
  proof (cases "p = i")
    case True
    note d = port_invD [OF ports [OF i]]
    have "port_wf (ram_latency ram) (P\<lparr>rp_req_slv := t\<rparr>)" using ports [OF i] t(1) P by (simp add: port_inv_def port_wf_def Let_def)
    moreover have "port_out (P\<lparr>rp_req_slv := t\<rparr>) = port_out P" by (simp add: port_out_def)
    ultimately show ?thesis using True d(5,6,7) t(2) base P i len(1) by (auto simp: port_inv_def)
  next
    case False
    then show ?thesis using ports [OF p] by (simp add: port_inv_def)
  qed
  moreover have "ram_holds ?r (serve_mem (ram_base_addr ram) (ram_size ram) m acc)" using h by (simp add: ram_holds_def)
  ultimately show ?thesis unfolding bti_inv_def using len by auto
qed

definition ram_sys_ok :: "ram \<Rightarrow> ram_sys \<Rightarrow> bool" where
  "ram_sys_ok ram z \<longleftrightarrow> bti_inv (ram_contents ram) (z_reqs z) (z_rsps z) (z_ram z) \<and> same_conf ram (z_ram z)"

lemma ram_event_ok:
  assumes ok: "ram_sys_ok ram z" and base: "\<And>p r. ev = RIssue p r \<Longrightarrow> ram_base_addr ram \<le> bq_addr r"
  shows "\<exists>z'. ram_event ev z = Some z' \<and> ram_sys_ok ram z'"
proof -
  have inv: "bti_inv (ram_contents ram) (z_reqs z) (z_rsps z) (z_ram z)" and conf: "same_conf ram (z_ram z)" using ok by (simp_all add: ram_sys_ok_def)
  show ?thesis
  proof (cases ev)
    case (RTick c)
    have "bti_inv (ram_contents ram) (z_reqs z) (z_rsps z) ((z_ram z)\<lparr>ram_cycle_sig := Some c\<rparr>)" using inv by simp
    from ram_bti_clock_ok [OF this] obtain r where "ram_clock ((z_ram z)\<lparr>ram_cycle_sig := Some c\<rparr>) = Some r"
      "bti_inv (ram_contents ram) (z_reqs z) (z_rsps z) r" "same_conf ((z_ram z)\<lparr>ram_cycle_sig := Some c\<rparr>) r" unfolding bti_next_def by blast
    then show ?thesis using RTick conf by (simp add: ram_sys_ok_def same_conf_def)
  next
    case (RIssue p r)
    define P where "P = ram_ports (z_ram z) ! p"
    show ?thesis
    proof (cases "p \<ge> ram_port_num (z_ram z) \<or> itf_fifo_full (rp_req_slv P)")
      case True
      then show ?thesis using ok RIssue by (auto simp: P_def Let_def)
    next
      case False
      then have p: "p < ram_port_num (z_ram z)" by simp
      from itf.push_not_full [OF bti_invD(2) [OF inv p P_def], of r] False obtain t where
        t: "itf_write (rp_req_slv P) r = Some t" "itf_inv t" "itf_list t = itf_list (rp_req_slv P) @ [r]" by auto
      have "ram_base_addr (z_ram z) \<le> bq_addr r" using base [OF RIssue] conf by (simp add: same_conf_def)
      from bti_issue_ok [OF inv p P_def t(2,3) this] show ?thesis using RIssue False t(1) conf
        by (simp add: P_def [symmetric] Let_def ram_sys_ok_def same_conf_def fun_upd_def)
    qed
  next
    case (RReceive p)
    define P where "P = ram_ports (z_ram z) ! p"
    show ?thesis
    proof (cases "p \<ge> ram_port_num (z_ram z) \<or> itf_fifo_empty (rp_rsp_mst P)")
      case True
      then show ?thesis using ok RReceive by (auto simp: P_def Let_def)
    next
      case False
      then have p: "p < ram_port_num (z_ram z)" by simp
      note d = bti_invD [OF inv p P_def]
      from False have "\<not> itf_fifo_empty (rp_rsp_mst P)" by simp
      with d(3) obtain r t where
        t: "itf_read (rp_rsp_mst P) = Some (r, t)" "itf_inv t" "itf_list (rp_rsp_mst P) = r # itf_list t" by (rule itf.pop_not_empty)
      let ?P = "P\<lparr>rp_rsp_mst := t\<rparr>"
      have "bti_inv (ram_contents ram) (z_reqs z) ((z_rsps z)(p := z_rsps z p @ [r]))
          ((z_ram z)\<lparr>ram_ports := (ram_ports (z_ram z))[p := ?P], ram_bti_count := ram_bti_count (z_ram z)\<rparr>)"
        by (rule bti_inv_port [OF inv p P_def]) (use t(2,3) d in \<open>simp_all add: port_wf_def port_out_def\<close>)
      then show ?thesis using RReceive False t(1) conf by (simp add: P_def [symmetric] Let_def ram_sys_ok_def same_conf_def fun_upd_def)
    qed
  qed
qed

lemma ram_exec_ok:
  assumes "ram_sys_ok ram z" "\<forall>p r. RIssue p r \<in> set evs \<longrightarrow> ram_base_addr ram \<le> bq_addr r"
  shows "\<exists>z'. ram_exec evs z = Some z' \<and> ram_sys_ok ram z'"
  using assms
proof (induction evs arbitrary: z)
  case (Cons ev evs)
  from ram_event_ok [OF Cons.prems(1), of ev] Cons.prems(2) obtain z1 where z1: "ram_event ev z = Some z1" "ram_sys_ok ram z1" by auto
  from Cons.IH [OF z1(2)] Cons.prems(2) z1(1) show ?case by simp
qed simp

text \<open>
  C14. The memory is linearizable at its BTI ports. However the clients of the ports and the ticks of the memory interleave, at whatever cycles the ticks
  happen and whatever the latency, the memory never fails an assertion, and there is one order of the requests of all ports,
  containing the requests of each port in the order they were issued, such that every port gets the answers that a plain memory gives when it serves
  them one after the other in that order, its own answers in its own order; a request that runs past the end of the memory is answered as failed and
  changes nothing. The addresses are at or above the base of the memory: one below it fails the assertion that checks it. The contents are those of that plain memory, and at a port where nothing is waiting every request has been answered.
\<close>

theorem ram_bti_linearizable:
  assumes "ram_bti_ready ram" "\<forall>p r. RIssue p r \<in> set evs \<longrightarrow> ram_base_addr ram \<le> bq_addr r"
  shows "\<exists>z acc. ram_exec evs (ram_boot ram) = Some z \<and> ram_holds (z_ram z) (serve_mem (ram_base_addr ram) (ram_size ram) (ram_contents ram) acc)
    \<and> (\<forall>p < ram_port_num ram. let answers = of_port p (serve_rsps (ram_base_addr ram) (ram_size ram) (ram_contents ram) acc) in
         (\<exists>waiting. z_reqs z p = of_port p acc @ waiting) \<and> (\<exists>out. answers = z_rsps z p @ out)
         \<and> (port_drained (ram_ports (z_ram z) ! p) \<longrightarrow> z_reqs z p = of_port p acc \<and> z_rsps z p = answers))"
proof -
  have "ram_sys_ok ram (ram_boot ram)" using bti_boot_ok [OF assms(1)] by (simp add: ram_sys_ok_def ram_boot_def same_conf_def ram_reset_def)
  from ram_exec_ok [OF this assms(2)] obtain z where z: "ram_exec evs (ram_boot ram) = Some z" "ram_sys_ok ram z" by blast
  then obtain acc where h: "ram_holds (z_ram z) (serve_mem (ram_base_addr ram) (ram_size ram) (ram_contents ram) acc)"
    and ports: "\<And>p. p < ram_port_num ram \<Longrightarrow> port_inv (z_ram z) (ram_contents ram) acc (z_reqs z) (z_rsps z) p"
    and conf: "ram_base_addr (z_ram z) = ram_base_addr ram" "ram_size (z_ram z) = ram_size ram"
    by (auto simp: ram_sys_ok_def bti_inv_def same_conf_def)
  have "let answers = of_port p (serve_rsps (ram_base_addr ram) (ram_size ram) (ram_contents ram) acc) in
       (\<exists>waiting. z_reqs z p = of_port p acc @ waiting) \<and> (\<exists>out. answers = z_rsps z p @ out)
       \<and> (port_drained (ram_ports (z_ram z) ! p) \<longrightarrow> z_reqs z p = of_port p acc \<and> z_rsps z p = answers)" if p: "p < ram_port_num ram" for p
  proof -
    note d = port_invD [OF ports [OF p], unfolded conf]
    have "itf_list (rp_req_slv (ram_ports (z_ram z) ! p)) = [] \<and> port_out (ram_ports (z_ram z) ! p) = []" if "port_drained (ram_ports (z_ram z) ! p)"
      using that d(1,2) by (simp add: port_drained_def port_out_def itf.is_empty_iff)
    then show ?thesis using d(5) d(6) [symmetric] by (auto simp: Let_def)
  qed
  with z(1) h show ?thesis by blast
qed

text \<open>Two ports on a memory of eight bytes: a store and a load at one port, a load outside and one inside at the other.\<close>

definition ram_sample :: ram where
  "ram_sample = \<lparr>ram_cycle_sig = None,
     ram_ports = replicate 2 \<lparr>rp_req_slv = fifo_itf_construct 2, rp_rsp_mst = fifo_itf_construct 2, rp_entries = [], rp_rptr = 0, rp_wptr = 0, rp_count = 0\<rparr>,
     ram_aw_slv = fifo_itf_construct 2, ram_w_slv = fifo_itf_construct 2, ram_b_mst = fifo_itf_construct 2, ram_ar_slv = fifo_itf_construct 2,
     ram_r_mst = fifo_itf_construct 2, ram_port_num = 2, ram_mode_of = RAM_MODE_BTI, ram_base_addr = 0x100, ram_size = 8, ram_latency = 0,
     ram_data = replicate 11 0,
     ram_rd = \<lparr>rb_addr = 0, rb_id = 0, rb_len = 0, rb_size = AXI4_AR_SIZE_B4, rb_type = AXI4_AR_BURST_INCR, rb_cnt = 0, rb_active = False\<rparr>,
     ram_wr = \<lparr>wb_addr = 0, wb_id = 0, wb_len = 0, wb_size = AXI4_AW_SIZE_B4, wb_type = AXI4_AW_BURST_INCR, wb_cnt = 0, wb_active = False, wb_b_pending = False\<rparr>,
     ram_rdq = \<lparr>rr_entries = [], rr_rptr = 0, rr_wptr = 0, rr_count = 0\<rparr>,
     ram_wrq = \<lparr>wr_entries = [], wr_rptr = 0, wr_wptr = 0, wr_data_rptr = 0, wr_need_w_count = 0, wr_count = 0\<rparr>, ram_bti_count = 0\<rparr>"

definition ram_sample_req :: "u16 \<Rightarrow> bti_req_cmd \<Rightarrow> u32 \<Rightarrow> u32 \<Rightarrow> bti_req" where
  "ram_sample_req i c a d = \<lparr>bq_trans_id = i, bq_cmd = c, bq_addr = a, bq_size = BTI_REQ_SIZE_B4, bq_data = d, bq_strobe = 0xf\<rparr>"

definition ram_sample_script :: "ram_ev list" where
  "ram_sample_script = [RIssue 0 (ram_sample_req 1 BTI_REQ_CMD_WRITE 0x102 0x11223344), RIssue 1 (ram_sample_req 2 BTI_REQ_CMD_READ 0x106 0),
     RTick 0, RIssue 1 (ram_sample_req 3 BTI_REQ_CMD_READ 0x104 0), RTick 1, RReceive 0, RReceive 1, RReceive 1]"

lemma ram_sample_ready: "ram_bti_ready ram_sample"
proof -
  have "p < 2 \<Longrightarrow> p = 0 \<or> p = 1" for p :: nat by auto
  then show ?thesis by (auto simp: ram_bti_ready_def ram_wf_def ram_sample_def Let_def itf_construct_inv numeral_2_eq_2 [symmetric])
qed

lemma ram_sample_run:
  "map_option (\<lambda>z. (z_rsps z 0, z_rsps z 1, map port_drained (ram_ports (z_ram z)))) (ram_exec ram_sample_script (ram_boot ram_sample))
   = Some ([\<lparr>bp_trans_id = 1, bp_data = 0, bp_ok = True\<rparr>],
       [\<lparr>bp_trans_id = 2, bp_data = 0, bp_ok = False\<rparr>, \<lparr>bp_trans_id = 3, bp_data = 0x1122, bp_ok = True\<rparr>], [True, True])"
  by code_simp

theorem ram_bti_linearizable_witness:
  "\<exists>z acc. ram_exec ram_sample_script (ram_boot ram_sample) = Some z
    \<and> of_port 1 (serve_rsps 0x100 8 (ram_contents ram_sample) acc)
      = [\<lparr>bp_trans_id = 2, bp_data = 0, bp_ok = False\<rparr>, \<lparr>bp_trans_id = 3, bp_data = 0x1122, bp_ok = True\<rparr>]"
proof -
  have base: "\<forall>p r. RIssue p r \<in> set ram_sample_script \<longrightarrow> ram_base_addr ram_sample \<le> bq_addr r"
    by (auto simp: ram_sample_script_def ram_sample_req_def ram_sample_def)
  have conf: "ram_base_addr ram_sample = 0x100" "ram_size ram_sample = 8" "ram_port_num ram_sample = 2" by (simp_all add: ram_sample_def)
  from ram_bti_linearizable [OF ram_sample_ready base] obtain z acc where z: "ram_exec ram_sample_script (ram_boot ram_sample) = Some z"
    "\<forall>p < 2. port_drained (ram_ports (z_ram z) ! p) \<longrightarrow> z_rsps z p = of_port p (serve_rsps 0x100 8 (ram_contents ram_sample) acc)"
    by (auto simp: conf Let_def)
  with ram_sample_run have "z_rsps z 1 = [\<lparr>bp_trans_id = 2, bp_data = 0, bp_ok = False\<rparr>, \<lparr>bp_trans_id = 3, bp_data = 0x1122, bp_ok = True\<rparr>]"
    "map port_drained (ram_ports (z_ram z)) = [True, True]" by simp_all
  moreover from this(2) have "port_drained (ram_ports (z_ram z) ! 1)" by (auto simp: map_eq_Cons_conv)
  ultimately show ?thesis using z by (intro exI [of _ z] exI [of _ acc]) auto
qed

end
