(* ===== verification/RamAxi.thy ===== *)
theory RamAxi
  imports RamBti "HOL-Library.Sublist"
begin

text \<open>
  The memory with its AXI4 port, closed with a host that sends addresses and data and takes beats and responses whenever it likes. With and
  without latency, the memory behaves as a plain memory that serves the beats of the bursts one at a time.
\<close>

section \<open>What a burst means\<close>

record axi_burst =
  bu_addr :: u32
  bu_id :: u8
  bu_len :: u8
  bu_bytes :: nat
  bu_step :: u32
  bu_cnt :: u8

text \<open>The bytes of a beat, and how far the next beat is: a fixed burst stays, the others go on by the size of a beat.\<close>

definition mk_burst :: "u32 \<Rightarrow> u8 \<Rightarrow> u8 \<Rightarrow> nat \<Rightarrow> nat \<Rightarrow> u8 \<Rightarrow> axi_burst" where
  "mk_burst addr i len sz type cnt = \<lparr>bu_addr = addr, bu_id = i, bu_len = len, bu_bytes = 2 ^ sz,
     bu_step = (if type = 0 then 0 else push_bit sz 1), bu_cnt = cnt\<rparr>"

definition rd_burst :: "axi4_ar \<Rightarrow> axi_burst" where
  "rd_burst a = mk_burst (ar_addr a) (ar_id a) (ar_len a) (ar_size_num (ar_size a)) (ar_burst_num (ar_burst a)) 0"

definition wr_burst :: "axi4_aw \<Rightarrow> axi_burst" where
  "wr_burst a = mk_burst (aw_addr a) (aw_id a) (aw_len a) (aw_size_num (aw_size a)) (aw_burst_num (aw_burst a)) 0"

definition next_beat :: "axi_burst \<Rightarrow> axi_burst" where
  "next_beat b = b\<lparr>bu_addr := bu_addr b + bu_step b, bu_cnt := bu_cnt b + 1\<rparr>"

text \<open>
  The plain memory: the bursts still to be read, the bursts still to be written, each with its next beat, and the data that was sent. Serving a read beat gives the bytes, or
  a slave error outside the memory; serving a write beat stores the bytes, outside the memory it does nothing; the write burst is answered after its last beat.
\<close>

record axim =
  am_mem :: memory
  am_rq :: "axi_burst list"
  am_wq :: "axi_burst list"
  am_ws :: "axi4_w list"

datatype axi_op = ServeR | ServeW

definition beat_ok :: "u32 \<Rightarrow> u32 \<Rightarrow> axi_burst \<Rightarrow> bool" where
  "beat_ok base sz b \<longleftrightarrow> ram_in_range sz (bu_addr b - base) (bu_bytes b)"

definition r_beat :: "u32 \<Rightarrow> u32 \<Rightarrow> memory \<Rightarrow> axi_burst \<Rightarrow> axi4_r" where
  "r_beat base sz m b = \<lparr>ax_id = bu_id b, ax_data = (if beat_ok base sz b then mem_get m (bu_addr b) [0..<bu_bytes b] 0 else 0),
     ax_resp = (if beat_ok base sz b then AXI4_R_RESP_OKAY else AXI4_R_RESP_SLVERR), ax_last = (bu_cnt b = bu_len b)\<rparr>"

definition w_mem :: "u32 \<Rightarrow> u32 \<Rightarrow> axi_burst \<Rightarrow> axi4_w \<Rightarrow> memory \<Rightarrow> memory" where
  "w_mem base sz b w m = (if beat_ok base sz b then mem_put (aw_data w) (aw_strb w) (bu_addr b) [0..<bu_bytes b] m else m)"

definition okay :: "u8 \<Rightarrow> axi4_b" where
  "okay i = \<lparr>ab_id = i, ab_resp = AXI4_B_RESP_OKAY\<rparr>"

definition w_ends :: "axi_burst \<Rightarrow> axi4_w \<Rightarrow> bool" where
  "w_ends b w \<longleftrightarrow> aw_last w \<or> bu_cnt b = bu_len b"

fun axim_step :: "u32 \<Rightarrow> u32 \<Rightarrow> axi_op \<Rightarrow> axim \<Rightarrow> (axim \<times> axi4_r list \<times> axi4_b list) option" where
  "axim_step base sz ServeR a = (case am_rq a of [] \<Rightarrow> None
     | b # bs \<Rightarrow> Some (a\<lparr>am_rq := (if bu_cnt b = bu_len b then bs else next_beat b # bs)\<rparr>, [r_beat base sz (am_mem a) b], []))"
| "axim_step base sz ServeW a = (case (am_wq a, am_ws a) of
       (b # bs, w # ws) \<Rightarrow> Some (a\<lparr>am_mem := w_mem base sz b w (am_mem a), am_ws := ws, am_wq := (if w_ends b w then bs else next_beat b # bs)\<rparr>,
         [], if w_ends b w then [okay (bu_id b)] else [])
     | _ \<Rightarrow> None)"

fun axim_run :: "u32 \<Rightarrow> u32 \<Rightarrow> axi_op list \<Rightarrow> axim \<Rightarrow> (axim \<times> axi4_r list \<times> axi4_b list) option" where
  "axim_run base sz [] a = Some (a, [], [])"
| "axim_run base sz (x # xs) a = do { (a, r, b) \<leftarrow> axim_step base sz x a; (a, rs, bs) \<leftarrow> axim_run base sz xs a; Some (a, r @ rs, b @ bs) }"

lemma axim_run_append:
  "axim_run base sz xs a = Some (a1, rs, bs) \<Longrightarrow> axim_run base sz ys a1 = Some (a2, rs', bs')
    \<Longrightarrow> axim_run base sz (xs @ ys) a = Some (a2, rs @ rs', bs @ bs')"
  by (induction xs arbitrary: a rs bs) (auto simp: bind_eq_Some_conv)

text \<open>What is sent later does not change what was served.\<close>

lemma axim_step_more:
  assumes "axim_step base sz x a = Some (a', rs, bs)"
  shows "axim_step base sz x (a\<lparr>am_rq := am_rq a @ p, am_wq := am_wq a @ q, am_ws := am_ws a @ w\<rparr>)
    = Some (a'\<lparr>am_rq := am_rq a' @ p, am_wq := am_wq a' @ q, am_ws := am_ws a' @ w\<rparr>, rs, bs)"
  using assms by (cases x; cases a) (auto split: list.splits)

lemma axim_run_more:
  "axim_run base sz xs a = Some (a', rs, bs) \<Longrightarrow>
    axim_run base sz xs (a\<lparr>am_rq := am_rq a @ p, am_wq := am_wq a @ q, am_ws := am_ws a @ w\<rparr>)
    = Some (a'\<lparr>am_rq := am_rq a' @ p, am_wq := am_wq a' @ q, am_ws := am_ws a' @ w\<rparr>, rs, bs)"
proof (induction xs arbitrary: a rs bs)
  case (Cons x xs)
  from Cons.prems obtain a1 r b rs1 bs1 where s: "axim_step base sz x a = Some (a1, r, b)" "axim_run base sz xs a1 = Some (a', rs1, bs1)"
    "rs = r @ rs1" "bs = b @ bs1" by (auto simp: bind_eq_Some_conv)
  from axim_step_more [OF s(1), where p = p and q = q and w = w] Cons.IH [OF s(2)] s(3,4) show ?case by simp
qed simp

section \<open>The state of the memory as bursts\<close>

lemma ring_set:
  assumes inv: "ring_inv xs d n r w" and i: "i < n"
  shows "ring_inv (xs[(r + i) mod d := Some e]) d n r w" "ring_list (xs[(r + i) mod d := Some e]) d n r = (ring_list xs d n r)[i := e]"
    "(r + i) mod d < length xs" "ring_get xs ((r + i) mod d) = Some (ring_list xs d n r ! i)"
proof -
  have lt: "(r + i) mod d < length xs" using inv by (simp add: ring_inv_def)
  then show "(r + i) mod d < length xs" .
  have at: "xs[(r + i) mod d := Some e] ! ((r + j) mod d) = (if j = i then Some e else xs ! ((r + j) mod d))" if "j < n" for j
  proof (cases "j = i")
    case False
    have "i < d" "j < d" using inv i that by (simp_all add: ring_inv_def)
    then have "(r + j) mod d \<noteq> (r + i) mod d" using mod_add_inj [of r j d i] False by blast
    then show ?thesis using False by simp
  qed (use lt in simp)
  then show "ring_inv (xs[(r + i) mod d := Some e]) d n r w" using inv by (simp add: ring_inv_def)
  show "ring_list (xs[(r + i) mod d := Some e]) d n r = (ring_list xs d n r)[i := e]"
    using at i by (auto simp: list_eq_iff_nth_eq ring_list_nth nth_list_update)
  have "xs ! ((r + i) mod d) \<noteq> None" using inv i by (simp add: ring_inv_def)
  then show "ring_get xs ((r + i) mod d) = Some (ring_list xs d n r ! i)" using i lt by (auto simp: ring_get_def ring_list_nth)
qed

definition rd_of :: "u32 \<Rightarrow> ram_rd_burst \<Rightarrow> axi_burst" where
  "rd_of base b = mk_burst (base + rb_addr b) (rb_id b) (rb_len b) (ar_size_num (rb_size b)) (ar_burst_num (rb_type b)) (rb_cnt b)"

definition wr_of :: "u32 \<Rightarrow> ram_wr_burst \<Rightarrow> axi_burst" where
  "wr_of base b = mk_burst (base + wb_addr b) (wb_id b) (wb_len b) (aw_size_num (wb_size b)) (aw_burst_num (wb_type b)) (wb_cnt b)"

definition rde_of :: "u32 \<Rightarrow> ram_axi_rd_entry \<Rightarrow> axi_burst" where
  "rde_of base e = mk_burst (base + re_addr e) (re_id e) (re_len e) (ar_size_num (re_size e)) (ar_burst_num (re_burst e)) (re_beat_cnt e)"

definition wre_of :: "u32 \<Rightarrow> ram_axi_wr_entry \<Rightarrow> axi_burst" where
  "wre_of base e = mk_burst (base + we_addr e) (we_id e) (we_len e) (aw_size_num (we_size e)) (aw_burst_num (we_burst e)) (we_beat_cnt e)"

definition rd_list :: "ram_rd_ring \<Rightarrow> ram_axi_rd_entry list" where
  "rd_list q = ring_list (rr_entries q) RAM_PENDING_DEPTH (rr_count q) (rr_rptr q)"

definition wr_list :: "ram_wr_ring \<Rightarrow> ram_axi_wr_entry list" where
  "wr_list q = ring_list (wr_entries q) RAM_PENDING_DEPTH (wr_count q) (wr_rptr q)"

text \<open>The writes in the ring: first those that have their data, then those that wait for it.\<close>

definition wr_done :: "ram_wr_ring \<Rightarrow> nat" where
  "wr_done q = wr_count q - wr_need_w_count q"

definition rd_ring_ok :: "ram_rd_ring \<Rightarrow> bool" where
  "rd_ring_ok q \<longleftrightarrow> ring_inv (rr_entries q) RAM_PENDING_DEPTH (rr_count q) (rr_rptr q) (rr_wptr q)"

definition wr_ring_ok :: "ram_wr_ring \<Rightarrow> bool" where
  "wr_ring_ok q \<longleftrightarrow> ring_inv (wr_entries q) RAM_PENDING_DEPTH (wr_count q) (wr_rptr q) (wr_wptr q) \<and> wr_need_w_count q \<le> wr_count q
     \<and> (\<forall>i<wr_count q. we_w_done (wr_list q ! i) = (i < wr_done q))
     \<and> (0 < wr_need_w_count q \<longrightarrow> wr_data_rptr q = (wr_rptr q + wr_done q) mod RAM_PENDING_DEPTH)"

definition rq_of :: "ram \<Rightarrow> axi_burst list" where
  "rq_of ram = (if ram_latency ram = 0 then (if rb_active (ram_rd ram) then [rd_of (ram_base_addr ram) (ram_rd ram)] else [])
     else map (rde_of (ram_base_addr ram)) (rd_list (ram_rdq ram))) @ map rd_burst (itf_list (ram_ar_slv ram))"

definition wq_of :: "ram \<Rightarrow> axi_burst list" where
  "wq_of ram = (if ram_latency ram = 0 then (if wb_active (ram_wr ram) then [wr_of (ram_base_addr ram) (ram_wr ram)] else [])
     else map (wre_of (ram_base_addr ram)) (drop (wr_done (ram_wrq ram)) (wr_list (ram_wrq ram)))) @ map wr_burst (itf_list (ram_aw_slv ram))"

definition out_b :: "ram \<Rightarrow> axi4_b list" where
  "out_b ram = itf_list (ram_b_mst ram) @ (if ram_latency ram = 0 then (if wb_b_pending (ram_wr ram) then [okay (wb_id (ram_wr ram))] else [])
     else map (okay \<circ> we_id) (take (wr_done (ram_wrq ram)) (wr_list (ram_wrq ram))))"

definition axi_st :: "ram \<Rightarrow> memory \<Rightarrow> axim" where
  "axi_st ram m = \<lparr>am_mem = m, am_rq = rq_of ram, am_wq = wq_of ram, am_ws = itf_list (ram_w_slv ram)\<rparr>"

definition axi_wf :: "ram \<Rightarrow> bool" where
  "axi_wf ram \<longleftrightarrow> ram_mode_of ram = RAM_MODE_AXI \<and> ram_wf ram \<and> itf_inv (ram_ar_slv ram) \<and> itf_inv (ram_r_mst ram) \<and> itf_inv (ram_aw_slv ram)
     \<and> itf_inv (ram_w_slv ram) \<and> itf_inv (ram_b_mst ram) \<and> (\<forall>a\<in>set (itf_list (ram_ar_slv ram)). ram_base_addr ram \<le> ar_addr a)
     \<and> (\<forall>a\<in>set (itf_list (ram_aw_slv ram)). ram_base_addr ram \<le> aw_addr a)
     \<and> (if ram_latency ram = 0 then \<not> (wb_active (ram_wr ram) \<and> wb_b_pending (ram_wr ram)) else rd_ring_ok (ram_rdq ram) \<and> wr_ring_ok (ram_wrq ram))"

lemma axi_wfD:
  assumes "axi_wf ram"
  shows "ram_mode_of ram = RAM_MODE_AXI" "ram_wf ram" "itf_inv (ram_ar_slv ram)" "itf_inv (ram_r_mst ram)" "itf_inv (ram_aw_slv ram)" "itf_inv (ram_w_slv ram)"
    "itf_inv (ram_b_mst ram)" "\<forall>a\<in>set (itf_list (ram_ar_slv ram)). ram_base_addr ram \<le> ar_addr a" "\<forall>a\<in>set (itf_list (ram_aw_slv ram)). ram_base_addr ram \<le> aw_addr a"
    "ram_latency ram = 0 \<Longrightarrow> \<not> (wb_active (ram_wr ram) \<and> wb_b_pending (ram_wr ram))"
    "ram_latency ram \<noteq> 0 \<Longrightarrow> rd_ring_ok (ram_rdq ram)" "ram_latency ram \<noteq> 0 \<Longrightarrow> wr_ring_ok (ram_wrq ram)"
  using assms by (auto simp: axi_wf_def split: if_splits)

section \<open>Steps\<close>

definition axi_conf :: "ram \<Rightarrow> ram \<Rightarrow> bool" where
  "axi_conf r r' \<longleftrightarrow> ram_latency r' = ram_latency r \<and> ram_base_addr r' = ram_base_addr r \<and> ram_size r' = ram_size r"

text \<open>A step of the memory is a number of served beats of the plain memory.\<close>

definition axi_step :: "ram \<Rightarrow> ram option \<Rightarrow> bool" where
  "axi_step ram res \<longleftrightarrow> (\<exists>r. res = Some r \<and> axi_wf r \<and> axi_conf ram r \<and> (\<forall>m. ram_holds ram m \<longrightarrow>
     (\<exists>xs m' rs bs. axim_run (ram_base_addr ram) (ram_size ram) xs (axi_st ram m) = Some (axi_st r m', rs, bs) \<and> ram_holds r m'
        \<and> itf_list (ram_r_mst r) = itf_list (ram_r_mst ram) @ rs \<and> out_b r = out_b ram @ bs)))"

lemma axi_step_stay: "axi_wf ram \<Longrightarrow> axi_step ram (Some ram)"
  unfolding axi_step_def axi_conf_def by (intro exI [of _ ram] conjI allI impI exI [of _ "[]"]) auto

lemma axi_step_bind:
  assumes s: "axi_step ram res" and f: "\<And>r. axi_wf r \<Longrightarrow> axi_conf ram r \<Longrightarrow> axi_step r (f r)"
  shows "axi_step ram (res \<bind> f)"
proof -
  from s obtain r where r: "res = Some r" "axi_wf r" "axi_conf ram r" and
    sim: "\<And>m. ram_holds ram m \<Longrightarrow> \<exists>xs m' rs bs. axim_run (ram_base_addr ram) (ram_size ram) xs (axi_st ram m) = Some (axi_st r m', rs, bs) \<and> ram_holds r m'
        \<and> itf_list (ram_r_mst r) = itf_list (ram_r_mst ram) @ rs \<and> out_b r = out_b ram @ bs" unfolding axi_step_def by blast
  from f [OF r(2,3)] obtain r' where r': "f r = Some r'" "axi_wf r'" "axi_conf r r'" and
    sim': "\<And>m. ram_holds r m \<Longrightarrow> \<exists>xs m' rs bs. axim_run (ram_base_addr r) (ram_size r) xs (axi_st r m) = Some (axi_st r' m', rs, bs) \<and> ram_holds r' m'
        \<and> itf_list (ram_r_mst r') = itf_list (ram_r_mst r) @ rs \<and> out_b r' = out_b r @ bs" unfolding axi_step_def by blast
  have "\<exists>xs m' rs bs. axim_run (ram_base_addr ram) (ram_size ram) xs (axi_st ram m) = Some (axi_st r' m', rs, bs) \<and> ram_holds r' m'
        \<and> itf_list (ram_r_mst r') = itf_list (ram_r_mst ram) @ rs \<and> out_b r' = out_b ram @ bs" if "ram_holds ram m" for m
  proof -
    from sim [OF that] obtain xs m1 rs bs where 1: "axim_run (ram_base_addr ram) (ram_size ram) xs (axi_st ram m) = Some (axi_st r m1, rs, bs)" "ram_holds r m1"
      "itf_list (ram_r_mst r) = itf_list (ram_r_mst ram) @ rs" "out_b r = out_b ram @ bs" by blast
    from sim' [OF 1(2)] obtain ys m2 rs' bs' where 2: "axim_run (ram_base_addr r) (ram_size r) ys (axi_st r m1) = Some (axi_st r' m2, rs', bs')" "ram_holds r' m2"
      "itf_list (ram_r_mst r') = itf_list (ram_r_mst r) @ rs'" "out_b r' = out_b r @ bs'" by blast
    have "axim_run (ram_base_addr ram) (ram_size ram) ys (axi_st r m1) = Some (axi_st r' m2, rs', bs')" using 2(1) r(3) by (simp add: axi_conf_def)
    from axim_run_append [OF 1(1) this] 1(3,4) 2(2-4) show ?thesis by (intro exI [of _ "xs @ ys"] exI [of _ m2]) auto
  qed
  then show ?thesis using r(1,3) r' unfolding axi_step_def by (intro exI [of _ r']) (auto simp: axi_conf_def)
qed

lemma axi_step_silent:
  assumes "res = Some r" "axi_wf r" "axi_conf ram r" "ram_data r = ram_data ram" "rq_of r = rq_of ram" "wq_of r = wq_of ram"
    "itf_list (ram_w_slv r) = itf_list (ram_w_slv ram)" "itf_list (ram_r_mst r) = itf_list (ram_r_mst ram)" "out_b r = out_b ram"
  shows "axi_step ram res"
proof -
  have "axi_st r m = axi_st ram m" for m using assms by (simp add: axi_st_def)
  moreover have "ram_holds r m = ram_holds ram m" for m using assms(3,4) by (intro ram_holds_cong) (simp_all add: axi_conf_def)
  ultimately show ?thesis using assms unfolding axi_step_def
    by (intro exI [of _ r] conjI allI impI) (auto intro!: exI [of _ "[]"])
qed

text \<open>A step that serves one read beat, the next of the burst \<open>b\<close> at the front.\<close>

lemma axi_step_read:
  assumes "res = Some r" "axi_wf r" "axi_conf ram r" "ram_data r = ram_data ram" "rq_of ram = b # bs"
    "rq_of r = (if bu_cnt b = bu_len b then bs else next_beat b # bs)" "wq_of r = wq_of ram"
    "itf_list (ram_w_slv r) = itf_list (ram_w_slv ram)" "out_b r = out_b ram"
    "\<And>m. ram_holds ram m \<Longrightarrow> itf_list (ram_r_mst r) = itf_list (ram_r_mst ram) @ [r_beat (ram_base_addr ram) (ram_size ram) m b]"
  shows "axi_step ram res"
proof -
  have "axim_run (ram_base_addr ram) (ram_size ram) [ServeR] (axi_st ram m)
      = Some (axi_st r m, [r_beat (ram_base_addr ram) (ram_size ram) m b], [])" for m
    using assms(5-8) by (simp add: axi_st_def)
  moreover have "ram_holds r m = ram_holds ram m" for m using assms(3,4) by (intro ram_holds_cong) (simp_all add: axi_conf_def)
  ultimately show ?thesis using assms(1-3,9,10) unfolding axi_step_def
    by (intro exI [of _ r] conjI allI impI exI [of _ "[ServeR]"]) auto
qed

text \<open>A step that serves one write beat.\<close>

lemma axi_step_write:
  assumes "res = Some r" "axi_wf r" "axi_conf ram r" "wq_of ram = b # bs" "itf_list (ram_w_slv ram) = w # itf_list (ram_w_slv r)"
    "wq_of r = (if w_ends b w then bs else next_beat b # bs)" "rq_of r = rq_of ram"
    "itf_list (ram_r_mst r) = itf_list (ram_r_mst ram)" "out_b r = out_b ram @ (if w_ends b w then [okay (bu_id b)] else [])"
    "\<And>m. ram_holds ram m \<Longrightarrow> ram_holds r (w_mem (ram_base_addr ram) (ram_size ram) b w m)"
  shows "axi_step ram res"
proof -
  have "axim_run (ram_base_addr ram) (ram_size ram) [ServeW] (axi_st ram m)
      = Some (axi_st r (w_mem (ram_base_addr ram) (ram_size ram) b w m), [], if w_ends b w then [okay (bu_id b)] else [])" for m
    using assms(4-7) by (simp add: axi_st_def)
  then show ?thesis using assms(1-3,8,9,10) unfolding axi_step_def
    by (intro exI [of _ r] conjI allI impI exI [of _ "[ServeW]"]) auto
qed

lemma burst_addr: "mk_burst a i len sz type cnt = \<lparr>bu_addr = a, bu_id = i, bu_len = len, bu_bytes = 2 ^ sz, bu_step = (if type = 0 then 0 else push_bit sz 1), bu_cnt = cnt\<rparr>"
  by (simp add: mk_burst_def)

text \<open>The read and the write of a beat.\<close>

lemma read_beat:
  assumes wf: "ram_wf ram" and b: "b = mk_burst (ram_base_addr ram + a) i len sz type cnt"
  shows "\<exists>d. ram_read ram a (2 ^ sz) = Some d \<and> (\<forall>m. ram_holds ram m \<longrightarrow> \<lparr>ax_id = i, ax_data = (case d of None \<Rightarrow> 0 | Some d \<Rightarrow> d),
     ax_resp = (if d \<noteq> None then AXI4_R_RESP_OKAY else AXI4_R_RESP_SLVERR), ax_last = (cnt = len)\<rparr> = r_beat (ram_base_addr ram) (ram_size ram) m b)"
proof (cases "ram_in_range (ram_size ram) a (2 ^ sz)")
  case True
  from ram_read_ok [OF ram_contents_holds [OF wf] True] obtain d where d: "ram_read ram a (2 ^ sz) = Some (Some d)" by blast
  have "d = mem_get m (ram_base_addr ram + a) [0..<2 ^ sz] 0" if "ram_holds ram m" for m using ram_read_ok [OF that True] d by simp
  with d True b show ?thesis by (intro exI [of _ "Some d"]) (simp add: r_beat_def beat_ok_def mk_burst_def)
next
  case False
  with ram_read_fails [OF False] b show ?thesis by (intro exI [of _ None]) (simp add: r_beat_def beat_ok_def mk_burst_def)
qed

lemma write_beat:
  assumes wf: "ram_wf ram" and b: "b = mk_burst (ram_base_addr ram + a) i len sz type cnt"
  shows "\<exists>ok xs. ram_write ram a (2 ^ sz) (aw_data w) (aw_strb w) = Some (ok, ram\<lparr>ram_data := xs\<rparr>) \<and> ram_wf (ram\<lparr>ram_data := xs\<rparr>)
    \<and> (\<forall>m. ram_holds ram m \<longrightarrow> ram_holds (ram\<lparr>ram_data := xs\<rparr>) (w_mem (ram_base_addr ram) (ram_size ram) b w m))"
proof (cases "ram_in_range (ram_size ram) a (2 ^ sz)")
  case True
  from ram_write_ok [OF ram_contents_holds [OF wf] True] obtain xs m0 where
    x: "ram_write ram a (2 ^ sz) (aw_data w) (aw_strb w) = Some (True, ram\<lparr>ram_data := xs\<rparr>)" "ram_holds (ram\<lparr>ram_data := xs\<rparr>) m0" by blast
  have "ram_wf (ram\<lparr>ram_data := xs\<rparr>)" using x(2) by (simp add: ram_wf_def ram_holds_def)
  have "ram_holds (ram\<lparr>ram_data := xs\<rparr>) (w_mem (ram_base_addr ram) (ram_size ram) b w m)" if m: "ram_holds ram m" for m
  proof -
    from ram_write_ok [OF m True] obtain ys where y: "ram_write ram a (2 ^ sz) (aw_data w) (aw_strb w) = Some (True, ram\<lparr>ram_data := ys\<rparr>)"
      "ram_holds (ram\<lparr>ram_data := ys\<rparr>) (mem_put (aw_data w) (aw_strb w) (ram_base_addr ram + a) [0..<2 ^ sz] m)" by blast
    have "ram\<lparr>ram_data := ys\<rparr> = ram\<lparr>ram_data := xs\<rparr>" using x(1) y(1) by simp
    with y(2) True b show ?thesis by (simp add: w_mem_def beat_ok_def mk_burst_def)
  qed
  with x(1) \<open>ram_wf (ram\<lparr>ram_data := xs\<rparr>)\<close> show ?thesis by blast
next
  case False
  then show ?thesis using ram_write_fails [OF False] wf b
    by (intro exI [of _ False] exI [of _ "ram_data ram"]) (simp add: w_mem_def beat_ok_def mk_burst_def)
qed

lemmas axi_view = rq_of_def wq_of_def out_b_def axi_conf_def

lemma itf_front_pop:
  assumes "itf_inv t" "\<not> itf_fifo_empty t"
  obtains x t' where "itf_fifo_get_front t = Some x" "itf_fifo_pop_front t = Some t'" "itf_inv t'" "itf_list t = x # itf_list t'"
proof -
  obtain x xs where "itf_holds t (x # xs)" using assms by (cases "itf_list t") (auto simp: itf_holds_def itf.is_empty_iff)
  from holds_Cons [OF this] this show thesis using that by (auto simp: itf_holds_def)
qed

section \<open>Without latency\<close>

lemma fast_b_ok:
  assumes wf: "axi_wf ram" and lat: "ram_latency ram = 0"
  shows "axi_step ram (ram_fast_proc_axi_b ram)"
proof (cases "\<not> wb_b_pending (ram_wr ram) \<or> itf_fifo_full (ram_b_mst ram)")
  case True
  then have "ram_fast_proc_axi_b ram = Some ram" by (auto simp: ram_fast_proc_axi_b_def)
  then show ?thesis using axi_step_stay [OF wf] by simp
next
  case False
  note d = axi_wfD [OF wf]
  let ?b = "okay (wb_id (ram_wr ram))"
  from False have room: "\<not> itf_fifo_full (ram_b_mst ram)" by simp
  obtain t where t: "itf_write (ram_b_mst ram) ?b = Some t" "itf_inv t" "itf_list t = itf_list (ram_b_mst ram) @ [?b]" by (rule itf.push_not_full [OF d(7) room])
  let ?r = "ram\<lparr>ram_b_mst := t, ram_wr := (ram_wr ram)\<lparr>wb_b_pending := False\<rparr>\<rparr>"
  have "ram_fast_proc_axi_b ram = Some ?r" using False t(1) by (simp add: ram_fast_proc_axi_b_def okay_def)
  moreover have "axi_wf ?r" using wf t(2) lat by (simp add: axi_wf_def ram_wf_def)
  ultimately show ?thesis using False t(3) lat by (intro axi_step_silent [of _ ?r]) (simp_all add: axi_view wr_of_def)
qed

lemma fast_r_ok:
  assumes wf: "axi_wf ram" and lat: "ram_latency ram = 0"
  shows "axi_step ram (ram_fast_proc_axi_r ram)"
proof (cases "\<not> rb_active (ram_rd ram) \<or> itf_fifo_full (ram_r_mst ram)")
  case True
  then have "ram_fast_proc_axi_r ram = Some ram" by (auto simp: ram_fast_proc_axi_r_def)
  then show ?thesis using axi_step_stay [OF wf] by simp
next
  case False
  note d = axi_wfD [OF wf]
  define b where "b = ram_rd ram"
  from read_beat [OF d(2) rd_of_def, of b] obtain v where v: "ram_read ram (rb_addr b) (2 ^ ar_size_num (rb_size b)) = Some v"
    "\<forall>m. ram_holds ram m \<longrightarrow> \<lparr>ax_id = rb_id b, ax_data = (case v of None \<Rightarrow> 0 | Some d \<Rightarrow> d), ax_resp = (if v \<noteq> None then AXI4_R_RESP_OKAY else AXI4_R_RESP_SLVERR),
       ax_last = (rb_cnt b = rb_len b)\<rparr> = r_beat (ram_base_addr ram) (ram_size ram) m (rd_of (ram_base_addr ram) b)" by blast
  define x where "x = \<lparr>ax_id = rb_id b, ax_data = (case v of None \<Rightarrow> 0 | Some d \<Rightarrow> d), ax_resp = (if v \<noteq> None then AXI4_R_RESP_OKAY else AXI4_R_RESP_SLVERR),
       ax_last = (rb_cnt b = rb_len b)\<rparr>"
  from False have room: "\<not> itf_fifo_full (ram_r_mst ram)" by simp
  obtain t where t: "itf_write (ram_r_mst ram) x = Some t" "itf_inv t" "itf_list t = itf_list (ram_r_mst ram) @ [x]" by (rule itf.push_not_full [OF d(4) room])
  have out: "itf_list t = itf_list (ram_r_mst ram) @ [r_beat (ram_base_addr ram) (ram_size ram) m (rd_of (ram_base_addr ram) b)]" if "ram_holds ram m" for m
    using v(2) that t(3) by (simp add: x_def)
  let ?r = "ram\<lparr>ram_r_mst := t, ram_rd := (if rb_cnt b = rb_len b then b\<lparr>rb_active := False\<rparr>
    else b\<lparr>rb_addr := axi_burst_next_addr (rb_addr b) (ar_burst_num (rb_type b)) (ar_size_num (rb_size b)), rb_cnt := rb_cnt b + 1\<rparr>)\<rparr>"
  have "ram_fast_proc_axi_r ram = Some ?r" using False v(1) t(1) by (simp add: ram_fast_proc_axi_r_def b_def x_def Let_def)
  moreover have "axi_wf ?r" using wf t(2) lat by (simp add: axi_wf_def ram_wf_def)
  ultimately show ?thesis using False out lat
    by (intro axi_step_read [of _ ?r _ "rd_of (ram_base_addr ram) b" "map rd_burst (itf_list (ram_ar_slv ram))"])
      (simp_all add: axi_view b_def rd_of_def mk_burst_def next_beat_def axi_burst_next_addr_def)
qed

lemma fast_w_ok:
  assumes wf: "axi_wf ram" and lat: "ram_latency ram = 0"
  shows "axi_step ram (ram_fast_proc_axi_w ram)"
proof (cases "\<not> wb_active (ram_wr ram) \<or> itf_fifo_empty (ram_w_slv ram)")
  case True
  then have "ram_fast_proc_axi_w ram = Some ram" by (auto simp: ram_fast_proc_axi_w_def)
  then show ?thesis using axi_step_stay [OF wf] by simp
next
  case False
  note d = axi_wfD [OF wf]
  define b where "b = ram_wr ram"
  let ?b = "wr_of (ram_base_addr ram) b"
  from False have ne: "\<not> itf_fifo_empty (ram_w_slv ram)" and act: "wb_active b" by (simp_all add: b_def)
  with d(10) [OF lat] have np: "\<not> wb_b_pending b" by (simp add: b_def)
  obtain w t where t: "itf_fifo_get_front (ram_w_slv ram) = Some w" "itf_fifo_pop_front (ram_w_slv ram) = Some t" "itf_inv t" "itf_list (ram_w_slv ram) = w # itf_list t"
    by (rule itf_front_pop [OF d(6) ne])
  let ?r1 = "ram\<lparr>ram_w_slv := t\<rparr>"
  have "ram_wf ?r1" "?b = mk_burst (ram_base_addr ?r1 + wb_addr b) (wb_id b) (wb_len b) (aw_size_num (wb_size b)) (aw_burst_num (wb_type b)) (wb_cnt b)"
    using d(2) by (simp_all add: ram_wf_def wr_of_def)
  from write_beat [OF this, of w] obtain ok xs where x: "ram_write ?r1 (wb_addr b) (2 ^ aw_size_num (wb_size b)) (aw_data w) (aw_strb w) = Some (ok, ?r1\<lparr>ram_data := xs\<rparr>)"
    "ram_wf (?r1\<lparr>ram_data := xs\<rparr>)" "\<forall>m. ram_holds ?r1 m \<longrightarrow> ram_holds (?r1\<lparr>ram_data := xs\<rparr>) (w_mem (ram_base_addr ram) (ram_size ram) ?b w m)" by auto
  have ends: "w_ends ?b w \<longleftrightarrow> aw_last w \<or> wb_cnt b = wb_len b" by (simp add: w_ends_def wr_of_def mk_burst_def)
  let ?r = "?r1\<lparr>ram_data := xs, ram_wr := (if aw_last w \<or> wb_cnt b = wb_len b then b\<lparr>wb_active := False, wb_b_pending := True\<rparr>
    else b\<lparr>wb_addr := axi_burst_next_addr (wb_addr b) (aw_burst_num (wb_type b)) (aw_size_num (wb_size b)), wb_cnt := wb_cnt b + 1\<rparr>)\<rparr>"
  have "ram_fast_proc_axi_w ram = Some ?r" using ne act np t(1,2) x(1) by (simp add: ram_fast_proc_axi_w_def b_def [symmetric] Let_def)
  moreover have "axi_wf ?r" using wf t(3) lat x(2) np by (simp add: axi_wf_def ram_wf_def)
  moreover have "ram_holds ?r (w_mem (ram_base_addr ram) (ram_size ram) ?b w m)" if "ram_holds ram m" for m
    using x(3) [rule_format, of m] that by (simp add: ram_holds_def)
  ultimately show ?thesis using act np t(4) lat ends
    by (intro axi_step_write [of _ ?r _ ?b "map wr_burst (itf_list (ram_aw_slv ram))" w])
      (simp_all add: axi_view b_def [symmetric] wr_of_def mk_burst_def next_beat_def axi_burst_next_addr_def)
qed

lemma fast_aw_ok:
  assumes wf: "axi_wf ram" and lat: "ram_latency ram = 0"
  shows "axi_step ram (ram_fast_proc_axi_aw ram)"
proof (cases "wb_active (ram_wr ram) \<or> wb_b_pending (ram_wr ram) \<or> itf_fifo_empty (ram_aw_slv ram)")
  case True
  then have "ram_fast_proc_axi_aw ram = Some ram" by (auto simp: ram_fast_proc_axi_aw_def)
  then show ?thesis using axi_step_stay [OF wf] by simp
next
  case False
  note d = axi_wfD [OF wf]
  from False have ne: "\<not> itf_fifo_empty (ram_aw_slv ram)" by simp
  obtain a t where t: "itf_read (ram_aw_slv ram) = Some (a, t)" "itf_inv t" "itf_list (ram_aw_slv ram) = a # itf_list t" by (rule itf.pop_not_empty [OF d(5) ne])
  let ?r = "ram\<lparr>ram_aw_slv := t, ram_wr := \<lparr>wb_addr = aw_addr a - ram_base_addr ram, wb_id = aw_id a, wb_len = aw_len a,
          wb_size = aw_size a, wb_type = aw_burst a, wb_cnt = 0, wb_active = True, wb_b_pending = False\<rparr>\<rparr>"
  have "ram_fast_proc_axi_aw ram = Some ?r" using False t(1,3) d(9) by (simp add: ram_fast_proc_axi_aw_def)
  moreover have "axi_wf ?r" using wf t(2,3) lat by (simp add: axi_wf_def ram_wf_def)
  ultimately show ?thesis using False t(3) lat by (intro axi_step_silent [of _ ?r]) (simp_all add: axi_view wr_of_def wr_burst_def)
qed

lemma fast_ar_ok:
  assumes wf: "axi_wf ram" and lat: "ram_latency ram = 0"
  shows "axi_step ram (ram_fast_proc_axi_ar ram)"
proof (cases "rb_active (ram_rd ram) \<or> itf_fifo_empty (ram_ar_slv ram)")
  case True
  then have "ram_fast_proc_axi_ar ram = Some ram" by (auto simp: ram_fast_proc_axi_ar_def)
  then show ?thesis using axi_step_stay [OF wf] by simp
next
  case False
  note d = axi_wfD [OF wf]
  from False have ne: "\<not> itf_fifo_empty (ram_ar_slv ram)" by simp
  obtain a t where t: "itf_read (ram_ar_slv ram) = Some (a, t)" "itf_inv t" "itf_list (ram_ar_slv ram) = a # itf_list t" by (rule itf.pop_not_empty [OF d(3) ne])
  let ?r = "ram\<lparr>ram_ar_slv := t, ram_rd := \<lparr>rb_addr = ar_addr a - ram_base_addr ram, rb_id = ar_id a, rb_len = ar_len a,
          rb_size = ar_size a, rb_type = ar_burst a, rb_cnt = 0, rb_active = True\<rparr>\<rparr>"
  have "ram_fast_proc_axi_ar ram = Some ?r" using False t(1,3) d(8) by (simp add: ram_fast_proc_axi_ar_def)
  moreover have "axi_wf ?r" using wf t(2,3) lat by (simp add: axi_wf_def ram_wf_def)
  ultimately show ?thesis using False t(3) lat by (intro axi_step_silent [of _ ?r]) (simp_all add: axi_view rd_of_def rd_burst_def)
qed

lemma fast_axi_ok:
  assumes wf: "axi_wf ram" and lat: "ram_latency ram = 0"
  shows "axi_step ram (ram_fast_proc_axi ram)"
  unfolding ram_fast_proc_axi_def
  by (intro axi_step_bind fast_b_ok fast_r_ok fast_w_ok fast_aw_ok fast_ar_ok wf) (use lat in \<open>simp_all add: axi_conf_def\<close>)

section \<open>With latency\<close>

lemma accept_ar_ok:
  assumes wf: "axi_wf ram" and lat: "ram_latency ram \<noteq> 0"
  shows "axi_step ram (ram_accept_axi_ar ram)"
proof (cases "itf_fifo_empty (ram_ar_slv ram) \<or> rr_count (ram_rdq ram) = RAM_PENDING_DEPTH")
  case True
  then have "ram_accept_axi_ar ram = Some ram" by (auto simp: ram_accept_axi_ar_def)
  then show ?thesis using axi_step_stay [OF wf] by simp
next
  case False
  note d = axi_wfD [OF wf]
  define q where "q = ram_rdq ram"
  have ring: "ring_inv (rr_entries q) RAM_PENDING_DEPTH (rr_count q) (rr_rptr q) (rr_wptr q)" using d(11) [OF lat] by (simp add: rd_ring_ok_def q_def)
  have room: "rr_count q < RAM_PENDING_DEPTH" using False ring by (simp add: ring_inv_def q_def)
  from False have ne: "\<not> itf_fifo_empty (ram_ar_slv ram)" by simp
  obtain a t where t: "itf_read (ram_ar_slv ram) = Some (a, t)" "itf_inv t" "itf_list (ram_ar_slv ram) = a # itf_list t" by (rule itf.pop_not_empty [OF d(3) ne])
  define e where "e = \<lparr>re_ready_cycle = ram_ready_cycle ram, re_addr = ar_addr a - ram_base_addr ram,
          re_id = ar_id a, re_len = ar_len a, re_size = ar_size a, re_burst = ar_burst a, re_beat_cnt = 0\<rparr>"
  note R = ring_push_inv [OF ring room, of e] ring_push_list [OF ring room, of e]
  let ?q = "q\<lparr>rr_entries := (rr_entries q)[rr_wptr q := Some e], rr_wptr := ram_fifo_next (rr_wptr q), rr_count := rr_count q + 1\<rparr>"
  let ?r = "ram\<lparr>ram_ar_slv := t, ram_rdq := ?q\<rparr>"
  have q: "rd_ring_ok ?q" "rd_list ?q = rd_list q @ [e]" using R by (simp_all add: rd_ring_ok_def rd_list_def ram_fifo_next_def)
  have "ram_accept_axi_ar ram = Some ?r"
    using False t(1,3) d(8) ring_wptr_bound [OF ring] by (simp add: ram_accept_axi_ar_def q_def e_def Let_def)
  moreover have "axi_wf ?r" using wf t(2,3) lat q(1) by (simp add: axi_wf_def ram_wf_def)
  ultimately show ?thesis using t(3) lat q(2)
    by (intro axi_step_silent [of _ ?r]) (simp_all add: axi_view q_def [symmetric] rde_of_def rd_burst_def e_def)
qed

lemma send_r_ok:
  assumes wf: "axi_wf ram" and lat: "ram_latency ram \<noteq> 0"
  shows "axi_step ram (ram_send_axi_r ram)"
proof -
  note d = axi_wfD [OF wf]
  define q where "q = ram_rdq ram"
  define e where "e = rd_list q ! 0"
  have ring: "ring_inv (rr_entries q) RAM_PENDING_DEPTH (rr_count q) (rr_rptr q) (rr_wptr q)" using d(11) [OF lat] by (simp add: rd_ring_ok_def q_def)
  have rp: "(rr_rptr q + 0) mod RAM_PENDING_DEPTH = rr_rptr q" using ring by (simp add: ring_inv_def)
  have get: "ring_get (rr_entries q) (rr_rptr q) = Some e" if "0 < rr_count q" using ring_set(4) [OF ring that] rp by (simp add: e_def rd_list_def)
  show ?thesis
  proof (cases "rr_count q = 0 \<or> itf_fifo_full (ram_r_mst ram) \<or> \<not> ram_entry_ready ram (re_ready_cycle e)")
    case True
    then have "ram_send_axi_r ram = Some ram" using get by (auto simp: ram_send_axi_r_def q_def [symmetric] Let_def)
    then show ?thesis using axi_step_stay [OF wf] by simp
  next
    case False
    then have n: "0 < rr_count q" by simp
    let ?b = "rde_of (ram_base_addr ram) e"
    from read_beat [OF d(2) rde_of_def, of e] obtain v where v: "ram_read ram (re_addr e) (2 ^ ar_size_num (re_size e)) = Some v"
      "\<forall>m. ram_holds ram m \<longrightarrow> \<lparr>ax_id = re_id e, ax_data = (case v of None \<Rightarrow> 0 | Some d \<Rightarrow> d), ax_resp = (if v \<noteq> None then AXI4_R_RESP_OKAY else AXI4_R_RESP_SLVERR),
         ax_last = (re_beat_cnt e = re_len e)\<rparr> = r_beat (ram_base_addr ram) (ram_size ram) m ?b" by blast
    define x where "x = \<lparr>ax_id = re_id e, ax_data = (case v of None \<Rightarrow> 0 | Some d \<Rightarrow> d), ax_resp = (if v \<noteq> None then AXI4_R_RESP_OKAY else AXI4_R_RESP_SLVERR),
         ax_last = (re_beat_cnt e = re_len e)\<rparr>"
    from False have room: "\<not> itf_fifo_full (ram_r_mst ram)" by simp
    obtain t where t: "itf_write (ram_r_mst ram) x = Some t" "itf_inv t" "itf_list t = itf_list (ram_r_mst ram) @ [x]" by (rule itf.push_not_full [OF d(4) room])
    have out: "itf_list t = itf_list (ram_r_mst ram) @ [r_beat (ram_base_addr ram) (ram_size ram) m ?b]" if "ram_holds ram m" for m
      using v(2) that t(3) by (simp add: x_def)
    define e' where "e' = e\<lparr>re_addr := axi_burst_next_addr (re_addr e) (ar_burst_num (re_burst e)) (ar_size_num (re_size e)), re_beat_cnt := re_beat_cnt e + 1\<rparr>"
    let ?q = "if re_beat_cnt e = re_len e then q\<lparr>rr_rptr := ram_fifo_next (rr_rptr q), rr_count := rr_count q - 1\<rparr> else q\<lparr>rr_entries := (rr_entries q)[rr_rptr q := Some e']\<rparr>"
    let ?r = "ram\<lparr>ram_r_mst := t, ram_rdq := ?q\<rparr>"
    note pop = ring_pop_inv [OF ring n] ring_pop_list [OF ring n] and set = ring_set(1,2) [OF ring n, of e', unfolded rp] ring_set(3) [OF ring n, unfolded rp]
    have l: "rd_list q = e # tl (rd_list q)" using pop(2) by (simp add: e_def rd_list_def)
    have q: "rd_ring_ok ?q" "rd_list ?q = (if re_beat_cnt e = re_len e then tl (rd_list q) else e' # tl (rd_list q))"
      using pop set(1,2) l by (simp_all add: rd_ring_ok_def rd_list_def ram_fifo_next_def)
    have "ram_send_axi_r ram = Some ?r" using False get [OF n] v(1) t(1) set(3) by (simp add: ram_send_axi_r_def q_def [symmetric] x_def e'_def Let_def)
    moreover have "axi_wf ?r" using wf t(2) lat q(1) by (simp add: axi_wf_def ram_wf_def)
    moreover have "rq_of ram = ?b # map (rde_of (ram_base_addr ram)) (tl (rd_list q)) @ map rd_burst (itf_list (ram_ar_slv ram))"
      using lat l by (simp add: rq_of_def q_def [symmetric]) (metis list.simps(9))
    moreover have "rde_of (ram_base_addr ram) e' = next_beat ?b" "bu_cnt ?b = re_beat_cnt e" "bu_len ?b = re_len e"
      by (simp_all add: e'_def rde_of_def mk_burst_def next_beat_def axi_burst_next_addr_def)
    ultimately show ?thesis using out lat q(2)
      by (intro axi_step_read [of _ ?r _ ?b "map (rde_of (ram_base_addr ram)) (tl (rd_list q)) @ map rd_burst (itf_list (ram_ar_slv ram))"])
        (simp_all add: axi_view)
  qed
qed

lemma wr_ringD:
  assumes "wr_ring_ok q"
  shows "ring_inv (wr_entries q) RAM_PENDING_DEPTH (wr_count q) (wr_rptr q) (wr_wptr q)" "wr_need_w_count q \<le> wr_count q"
    "i < wr_count q \<Longrightarrow> we_w_done (wr_list q ! i) = (i < wr_done q)" "0 < wr_need_w_count q \<Longrightarrow> wr_data_rptr q = (wr_rptr q + wr_done q) mod RAM_PENDING_DEPTH"
    "length (wr_list q) = wr_count q"
  using assms by (simp_all add: wr_ring_ok_def wr_list_def)

lemma accept_aw_ok:
  assumes wf: "axi_wf ram" and lat: "ram_latency ram \<noteq> 0"
  shows "axi_step ram (ram_accept_axi_aw ram)"
proof (cases "itf_fifo_empty (ram_aw_slv ram) \<or> wr_count (ram_wrq ram) = RAM_PENDING_DEPTH")
  case True
  then have "ram_accept_axi_aw ram = Some ram" by (auto simp: ram_accept_axi_aw_def)
  then show ?thesis using axi_step_stay [OF wf] by simp
next
  case False
  note d = axi_wfD [OF wf]
  define q where "q = ram_wrq ram"
  have ok: "wr_ring_ok q" using d(12) [OF lat] by (simp add: q_def)
  note w = wr_ringD [OF ok]
  have room: "wr_count q < RAM_PENDING_DEPTH" using False w(1) by (simp add: ring_inv_def q_def)
  from False have ne: "\<not> itf_fifo_empty (ram_aw_slv ram)" by simp
  obtain a t where t: "itf_read (ram_aw_slv ram) = Some (a, t)" "itf_inv t" "itf_list (ram_aw_slv ram) = a # itf_list t" by (rule itf.pop_not_empty [OF d(5) ne])
  define e where "e = \<lparr>we_ready_cycle = 0, we_addr = aw_addr a - ram_base_addr ram,
          we_id = aw_id a, we_len = aw_len a, we_size = aw_size a, we_burst = aw_burst a, we_beat_cnt = 0, we_w_done = False\<rparr>"
  note R = ring_push_inv [OF w(1) room, of e] ring_push_list [OF w(1) room, of e]
  let ?q = "q\<lparr>wr_entries := (wr_entries q)[wr_wptr q := Some e], wr_data_rptr := (if wr_need_w_count q = 0 then wr_wptr q else wr_data_rptr q),
    wr_wptr := ram_fifo_next (wr_wptr q), wr_count := wr_count q + 1, wr_need_w_count := wr_need_w_count q + 1\<rparr>"
  let ?r = "ram\<lparr>ram_aw_slv := t, ram_wrq := ?q\<rparr>"
  have l: "wr_list ?q = wr_list q @ [e]" "wr_done ?q = wr_done q" using R by (simp_all add: wr_list_def wr_done_def)
  have "wr_wptr q = (wr_rptr q + wr_count q) mod RAM_PENDING_DEPTH" using w(1) by (simp add: ring_inv_def)
  then have "wr_data_rptr ?q = (wr_rptr q + wr_done q) mod RAM_PENDING_DEPTH" using w(4) by (simp add: wr_done_def)
  moreover have "\<not> we_w_done e" "wr_done q \<le> wr_count q" by (simp_all add: e_def wr_done_def)
  then have "\<forall>i<Suc (wr_count q). we_w_done ((wr_list q @ [e]) ! i) = (i < wr_done q)"
    using w(3,5) by (auto simp: nth_append less_Suc_eq)
  ultimately have q: "wr_ring_ok ?q" using R w(2) l by (simp add: wr_ring_ok_def ram_fifo_next_def)
  have "ram_accept_axi_aw ram = Some ?r"
    using False t(1,3) d(9) ring_wptr_bound [OF w(1)] by (simp add: ram_accept_axi_aw_def q_def e_def Let_def)
  moreover have "axi_wf ?r" using wf t(2,3) lat q by (simp add: axi_wf_def ram_wf_def)
  ultimately show ?thesis using t(3) lat l w(5)
    by (intro axi_step_silent [of _ ?r]) (simp_all add: axi_view q_def [symmetric] wre_of_def wr_burst_def e_def wr_done_def)
qed

lemma send_b_ok:
  assumes wf: "axi_wf ram" and lat: "ram_latency ram \<noteq> 0"
  shows "axi_step ram (ram_send_axi_b ram)"
proof -
  note d = axi_wfD [OF wf]
  define q where "q = ram_wrq ram"
  have ok: "wr_ring_ok q" using d(12) [OF lat] by (simp add: q_def)
  note w = wr_ringD [OF ok]
  define e where "e = wr_list q ! 0"
  have rp: "(wr_rptr q + 0) mod RAM_PENDING_DEPTH = wr_rptr q" using w(1) by (simp add: ring_inv_def)
  have get: "ring_get (wr_entries q) (wr_rptr q) = Some e" if "0 < wr_count q" using ring_set(4) [OF w(1) that] rp by (simp add: e_def wr_list_def)
  show ?thesis
  proof (cases "wr_count q = 0 \<or> itf_fifo_full (ram_b_mst ram) \<or> \<not> we_w_done e \<or> \<not> ram_entry_ready ram (we_ready_cycle e)")
    case True
    then have "ram_send_axi_b ram = Some ram" using get by (auto simp: ram_send_axi_b_def q_def [symmetric] Let_def)
    then show ?thesis using axi_step_stay [OF wf] by simp
  next
    case False
    then have n: "0 < wr_count q" by simp
    from False have room: "\<not> itf_fifo_full (ram_b_mst ram)" by simp
    obtain t where t: "itf_write (ram_b_mst ram) (okay (we_id e)) = Some t" "itf_inv t" "itf_list t = itf_list (ram_b_mst ram) @ [okay (we_id e)]"
      by (rule itf.push_not_full [OF d(7) room])
    have k: "0 < wr_done q" using w(3) [OF n] False by (simp add: e_def)
    let ?q = "q\<lparr>wr_rptr := ram_fifo_next (wr_rptr q), wr_count := wr_count q - 1\<rparr>"
    let ?r = "ram\<lparr>ram_b_mst := t, ram_wrq := ?q\<rparr>"
    have l: "wr_list q = e # wr_list ?q" using ring_pop_list [OF w(1) n] rp by (simp add: e_def wr_list_def ram_fifo_next_def)
    have k': "wr_done q = Suc (wr_done ?q)" using k by (simp add: wr_done_def)
    have "we_w_done (wr_list ?q ! i) = (i < wr_done ?q)" if "i < wr_count q - 1" for i
      using w(3) [of "Suc i"] that l k' by simp
    moreover have "(wr_rptr q + wr_done q) mod RAM_PENDING_DEPTH = (wr_rptr ?q + wr_done ?q) mod RAM_PENDING_DEPTH"
      using k' by (simp add: ram_fifo_next_def mod_simps)
    then have "0 < wr_need_w_count q \<longrightarrow> wr_data_rptr q = (wr_rptr ?q + wr_done ?q) mod RAM_PENDING_DEPTH" using w(4) by simp
    moreover have "wr_need_w_count q \<le> wr_count q - 1" using k by (simp add: wr_done_def)
    moreover have "ring_inv (wr_entries q) RAM_PENDING_DEPTH (wr_count q - 1) (wr_rptr ?q) (wr_wptr q)" using ring_pop_inv [OF w(1) n] by (simp add: ram_fifo_next_def)
    ultimately have "wr_ring_ok ?q" by (simp add: wr_ring_ok_def)
    then have "axi_wf ?r" using wf t(2) lat by (simp add: axi_wf_def ram_wf_def)
    moreover have "ram_send_axi_b ram = Some ?r" using False get [OF n] t(1) by (simp add: ram_send_axi_b_def q_def [symmetric] okay_def Let_def)
    ultimately show ?thesis using t(3) lat l k'
      by (intro axi_step_silent [of _ ?r]) (simp_all add: axi_view q_def [symmetric])
  qed
qed

lemma accept_w_ok:
  assumes wf: "axi_wf ram" and lat: "ram_latency ram \<noteq> 0"
  shows "axi_step ram (ram_accept_axi_w ram)"
proof (cases "itf_fifo_empty (ram_w_slv ram) \<or> wr_need_w_count (ram_wrq ram) = 0")
  case True
  then have "ram_accept_axi_w ram = Some ram" by (auto simp: ram_accept_axi_w_def)
  then show ?thesis using axi_step_stay [OF wf] by simp
next
  case False
  note d = axi_wfD [OF wf]
  define q where "q = ram_wrq ram"
  have ok: "wr_ring_ok q" using d(12) [OF lat] by (simp add: q_def)
  note w = wr_ringD [OF ok]
  define k where "k = wr_done q"
  define e where "e = wr_list q ! k"
  let ?b = "wre_of (ram_base_addr ram) e"
  from False have need: "0 < wr_need_w_count q" and ne: "\<not> itf_fifo_empty (ram_w_slv ram)" by (simp_all add: q_def)
  have k: "k < wr_count q" using need w(2) by (simp add: k_def wr_done_def)
  have dp: "wr_data_rptr q = (wr_rptr q + k) mod RAM_PENDING_DEPTH" using w(4) [OF need] by (simp add: k_def)
  have get: "ring_get (wr_entries q) (wr_data_rptr q) = Some e" "wr_data_rptr q < length (wr_entries q)"
    using ring_set(3,4) [OF w(1) k] by (simp_all add: dp e_def wr_list_def)
  have nd: "\<not> we_w_done e" using w(3) [OF k] by (simp add: e_def k_def)
  obtain x t where t: "itf_fifo_get_front (ram_w_slv ram) = Some x" "itf_fifo_pop_front (ram_w_slv ram) = Some t" "itf_inv t" "itf_list (ram_w_slv ram) = x # itf_list t"
    by (rule itf_front_pop [OF d(6) ne])
  let ?r1 = "ram\<lparr>ram_w_slv := t\<rparr>"
  have "ram_wf ?r1" "?b = mk_burst (ram_base_addr ?r1 + we_addr e) (we_id e) (we_len e) (aw_size_num (we_size e)) (aw_burst_num (we_burst e)) (we_beat_cnt e)"
    using d(2) by (simp_all add: ram_wf_def wre_of_def)
  from write_beat [OF this, of x] obtain okw xs where x: "ram_write ?r1 (we_addr e) (2 ^ aw_size_num (we_size e)) (aw_data x) (aw_strb x) = Some (okw, ?r1\<lparr>ram_data := xs\<rparr>)"
    "ram_wf (?r1\<lparr>ram_data := xs\<rparr>)" "\<forall>m. ram_holds ?r1 m \<longrightarrow> ram_holds (?r1\<lparr>ram_data := xs\<rparr>) (w_mem (ram_base_addr ram) (ram_size ram) ?b x m)" by auto
  define last where "last \<longleftrightarrow> aw_last x \<or> we_beat_cnt e = we_len e"
  have ends: "w_ends ?b x \<longleftrightarrow> last" "bu_id ?b = we_id e" by (simp_all add: w_ends_def wre_of_def mk_burst_def last_def)
  define e' where "e' = (if last then e\<lparr>we_w_done := True, we_ready_cycle := ram_ready_cycle (?r1\<lparr>ram_data := xs\<rparr>)\<rparr>
    else e\<lparr>we_addr := axi_burst_next_addr (we_addr e) (aw_burst_num (we_burst e)) (aw_size_num (we_size e)), we_beat_cnt := we_beat_cnt e + 1\<rparr>)"
  define es where "es = (wr_entries q)[wr_data_rptr q := Some e']"
  let ?need = "wr_need_w_count q - 1"
  define q' where "q' = (if last then q\<lparr>wr_entries := es, wr_need_w_count := ?need,
      wr_data_rptr := (if ?need > 0 then ram_fifo_next (wr_data_rptr q) else wr_data_rptr q)\<rparr> else q\<lparr>wr_entries := es\<rparr>)"
  let ?r = "?r1\<lparr>ram_data := xs, ram_wrq := q'\<rparr>"
  note set = ring_set(1,2) [OF w(1) k, of e', folded dp, folded es_def]
  have l: "wr_list q' = (wr_list q)[k := e']" "wr_done q' = (if last then Suc k else k)" "wr_count q' = wr_count q"
    using set(2) need w(2) by (auto simp: q'_def wr_list_def wr_done_def k_def)
  have split: "wr_list q = take k (wr_list q) @ e # drop (Suc k) (wr_list q)" using k w(5) by (simp add: e_def id_take_nth_drop [symmetric])
  have upd: "(wr_list q)[k := e'] = take k (wr_list q) @ e' # drop (Suc k) (wr_list q)" using k w(5) by (simp add: upd_conv_take_nth_drop)
  have "we_w_done e' = last" using nd by (simp add: e'_def)
  then have "we_w_done (wr_list q' ! i) = (i < wr_done q')" if "i < wr_count q" for i
    using w(3) [OF that] that l w(5) by (cases "i = k") (auto simp: k_def [symmetric])
  moreover have "0 < wr_need_w_count q' \<longrightarrow> wr_data_rptr q' = (wr_rptr q + wr_done q') mod RAM_PENDING_DEPTH"
    using l(2) dp by (auto simp: q'_def ram_fifo_next_def mod_simps)
  ultimately have qok: "wr_ring_ok q'" using set(1) l w(2) by (auto simp: wr_ring_ok_def q'_def)
  have step: "ram_accept_axi_w ram = Some ?r"
    using False need nd get t(1,2) x(1) by (simp add: ram_accept_axi_w_def q_def [symmetric] Let_def es_def q'_def e'_def last_def)
  have wf': "axi_wf ?r" using wf t(3) lat x(2) qok by (simp add: axi_wf_def ram_wf_def)
  have holds: "ram_holds ?r (w_mem (ram_base_addr ram) (ram_size ram) ?b x m)" if "ram_holds ram m" for m
    using x(3) [rule_format, of m] that by (simp add: ram_holds_def)
  have nb: "\<not> last \<Longrightarrow> wre_of (ram_base_addr ram) e' = next_beat ?b" "we_id e' = we_id e"
    by (simp_all add: e'_def wre_of_def mk_burst_def next_beat_def axi_burst_next_addr_def)
  have lk: "length (take k (wr_list q)) = k" using k w(5) by simp
  have dr: "drop k (wr_list q) = e # drop (Suc k) (wr_list q)" using k w(5) by (simp add: e_def Cons_nth_drop_Suc)
  have dr': "drop (wr_done q') (wr_list q') = (if last then drop (Suc k) (wr_list q) else e' # drop (Suc k) (wr_list q))"
    "take (wr_done q') (wr_list q') = take k (wr_list q) @ (if last then [e'] else [])"
    unfolding l(1,2) upd using lk by simp_all
  show ?thesis
    by (rule axi_step_write [OF step wf', of ram ?b "map (wre_of (ram_base_addr ram)) (drop (Suc k) (wr_list q)) @ map wr_burst (itf_list (ram_aw_slv ram))" x])
      (use t(4) lat ends nb holds dr dr' in \<open>auto simp: axi_view q_def [symmetric] k_def [symmetric]\<close>)
qed

lemma slow_axi_ok:
  assumes wf: "axi_wf ram" and lat: "ram_latency ram \<noteq> 0"
  shows "axi_step ram (ram_proc_axi ram)"
  unfolding ram_proc_axi_def
  by (intro axi_step_bind send_b_ok send_r_ok accept_w_ok accept_aw_ok accept_ar_ok wf) (use lat in \<open>simp_all add: axi_conf_def\<close>)

lemma ram_axi_clock_ok:
  assumes "axi_wf ram"
  shows "axi_step ram (ram_clock ram)"
  using fast_axi_ok [OF assms] slow_axi_ok [OF assms] axi_wfD(1) [OF assms] by (simp add: ram_clock_def)

section \<open>Runs\<close>

record axi_sys =
  y_ram :: ram
  y_ars :: "axi4_ar list"
  y_aws :: "axi4_aw list"
  y_ws :: "axi4_w list"
  y_rs :: "axi4_r list"
  y_bs :: "axi4_b list"

datatype axi_ev = YAr axi4_ar | YAw axi4_aw | YW axi4_w | YTakeR | YTakeB | YTick u64

text \<open>The host sends when there is room and takes what there is; a tick happens at some value of the cycle counter. An event that cannot happen changes nothing.\<close>

fun axi_event :: "axi_ev \<Rightarrow> axi_sys \<Rightarrow> axi_sys option" where
  "axi_event (YTick c) z = do { r \<leftarrow> ram_clock ((y_ram z)\<lparr>ram_cycle_sig := Some c\<rparr>); Some (z\<lparr>y_ram := r\<rparr>) }"
| "axi_event (YAr a) z = (let ram = y_ram z in if itf_fifo_full (ram_ar_slv ram) then Some z
     else do { t \<leftarrow> itf_write (ram_ar_slv ram) a; Some (z\<lparr>y_ram := ram\<lparr>ram_ar_slv := t\<rparr>, y_ars := y_ars z @ [a]\<rparr>) })"
| "axi_event (YAw a) z = (let ram = y_ram z in if itf_fifo_full (ram_aw_slv ram) then Some z
     else do { t \<leftarrow> itf_write (ram_aw_slv ram) a; Some (z\<lparr>y_ram := ram\<lparr>ram_aw_slv := t\<rparr>, y_aws := y_aws z @ [a]\<rparr>) })"
| "axi_event (YW w) z = (let ram = y_ram z in if itf_fifo_full (ram_w_slv ram) then Some z
     else do { t \<leftarrow> itf_write (ram_w_slv ram) w; Some (z\<lparr>y_ram := ram\<lparr>ram_w_slv := t\<rparr>, y_ws := y_ws z @ [w]\<rparr>) })"
| "axi_event YTakeR z = (let ram = y_ram z in if itf_fifo_empty (ram_r_mst ram) then Some z
     else do { (r, t) \<leftarrow> itf_read (ram_r_mst ram); Some (z\<lparr>y_ram := ram\<lparr>ram_r_mst := t\<rparr>, y_rs := y_rs z @ [r]\<rparr>) })"
| "axi_event YTakeB z = (let ram = y_ram z in if itf_fifo_empty (ram_b_mst ram) then Some z
     else do { (b, t) \<leftarrow> itf_read (ram_b_mst ram); Some (z\<lparr>y_ram := ram\<lparr>ram_b_mst := t\<rparr>, y_bs := y_bs z @ [b]\<rparr>) })"

fun axi_exec :: "axi_ev list \<Rightarrow> axi_sys \<Rightarrow> axi_sys option" where
  "axi_exec [] z = Some z"
| "axi_exec (ev # evs) z = do { z \<leftarrow> axi_event ev z; axi_exec evs z }"

definition axi_boot :: "ram \<Rightarrow> axi_sys" where
  "axi_boot ram = \<lparr>y_ram = ram_reset ram, y_ars = [], y_aws = [], y_ws = [], y_rs = [], y_bs = []\<rparr>"

definition ram_axi_ready :: "ram \<Rightarrow> bool" where
  "ram_axi_ready ram \<longleftrightarrow> ram_wf ram \<and> ram_mode_of ram = RAM_MODE_AXI \<and> itf_holds (ram_ar_slv ram) [] \<and> itf_holds (ram_r_mst ram) []
     \<and> itf_holds (ram_aw_slv ram) [] \<and> itf_holds (ram_w_slv ram) [] \<and> itf_holds (ram_b_mst ram) []
     \<and> (ram_latency ram \<noteq> 0 \<longrightarrow> length (rr_entries (ram_rdq ram)) = RAM_PENDING_DEPTH \<and> length (wr_entries (ram_wrq ram)) = RAM_PENDING_DEPTH)"

text \<open>Nothing is waiting in the memory or at its channels.\<close>

definition axi_drained :: "ram \<Rightarrow> bool" where
  "axi_drained ram \<longleftrightarrow> itf_fifo_empty (ram_ar_slv ram) \<and> itf_fifo_empty (ram_r_mst ram) \<and> itf_fifo_empty (ram_aw_slv ram) \<and> itf_fifo_empty (ram_b_mst ram)
     \<and> \<not> rb_active (ram_rd ram) \<and> \<not> wb_active (ram_wr ram) \<and> \<not> wb_b_pending (ram_wr ram) \<and> rr_count (ram_rdq ram) = 0 \<and> wr_count (ram_wrq ram) = 0"

text \<open>What the host has sent, as the state of the plain memory in which nothing is served yet.\<close>

definition axi_start :: "memory \<Rightarrow> axi_sys \<Rightarrow> axim" where
  "axi_start m z = \<lparr>am_mem = m, am_rq = map rd_burst (y_ars z), am_wq = map wr_burst (y_aws z), am_ws = y_ws z\<rparr>"

definition axi_ok :: "ram \<Rightarrow> axi_op list \<Rightarrow> axi_sys \<Rightarrow> bool" where
  "axi_ok ram xs z \<longleftrightarrow> axi_wf (y_ram z) \<and> axi_conf ram (y_ram z) \<and> (\<exists>m rs bs.
     axim_run (ram_base_addr ram) (ram_size ram) xs (axi_start (ram_contents ram) z) = Some (axi_st (y_ram z) m, rs, bs) \<and> ram_holds (y_ram z) m
     \<and> rs = y_rs z @ itf_list (ram_r_mst (y_ram z)) \<and> bs = y_bs z @ out_b (y_ram z))"

lemma axi_okI:
  assumes wf: "axi_wf (y_ram z)"
    and run: "axim_run (ram_base_addr ram) (ram_size ram) xs (axi_start (ram_contents ram) z) = Some (axi_st (y_ram z) m, rs, bs)"
    and r: "axi_conf ram r" "ram_holds r m" "axi_conf r (y_ram z)" "ram_data (y_ram z) = ram_data r"
    and out: "rs = y_rs z @ itf_list (ram_r_mst (y_ram z))" "bs = y_bs z @ out_b (y_ram z)"
  shows "axi_ok ram xs z"
proof -
  have "axi_conf ram (y_ram z)" "ram_holds (y_ram z) m" using r by (simp_all add: axi_conf_def ram_holds_def)
  with wf run out show ?thesis unfolding axi_ok_def by blast
qed

lemma axi_ok_tick:
  assumes ok: "axi_ok ram xs z"
  shows "\<exists>z' ys. axi_event (YTick c) z = Some z' \<and> axi_ok ram (xs @ ys) z'"
proof -
  let ?r = "(y_ram z)\<lparr>ram_cycle_sig := Some c\<rparr>"
  from ok obtain m where i: "axi_wf (y_ram z)" "axi_conf ram (y_ram z)" "ram_holds (y_ram z) m"
    "axim_run (ram_base_addr ram) (ram_size ram) xs (axi_start (ram_contents ram) z)
      = Some (axi_st (y_ram z) m, y_rs z @ itf_list (ram_r_mst (y_ram z)), y_bs z @ out_b (y_ram z))" unfolding axi_ok_def by blast
  have c: "axi_wf ?r" "axi_st ?r m = axi_st (y_ram z) m" "ram_holds ?r m" "out_b ?r = out_b (y_ram z)"
    using i(1,3) by (simp_all add: axi_wf_def ram_wf_def axi_st_def rq_of_def wq_of_def ram_holds_def out_b_def)
  from ram_axi_clock_ok [OF c(1)] c(3) obtain r ys m' rs bs where r: "ram_clock ?r = Some r" "axi_wf r" "axi_conf ?r r"
    "axim_run (ram_base_addr ?r) (ram_size ?r) ys (axi_st ?r m) = Some (axi_st r m', rs, bs)" "ram_holds r m'"
    "itf_list (ram_r_mst r) = itf_list (ram_r_mst ?r) @ rs" "out_b r = out_b ?r @ bs" unfolding axi_step_def by blast
  have "axim_run (ram_base_addr ram) (ram_size ram) ys (axi_st (y_ram z) m) = Some (axi_st r m', rs, bs)" using r(4) c(2) i(2) by (simp add: axi_conf_def)
  from axim_run_append [OF i(4) this] have "axi_ok ram (xs @ ys) (z\<lparr>y_ram := r\<rparr>)"
    using r(2,3,5-7) c(4) i(2) unfolding axi_ok_def by (auto simp: axi_conf_def axi_start_def)
  with r(1) show ?thesis by auto
qed

lemma axi_ok_send:
  assumes ok: "axi_ok ram xs z"
  shows "ram_base_addr ram \<le> ar_addr a \<Longrightarrow> \<exists>z'. axi_event (YAr a) z = Some z' \<and> axi_ok ram xs z'"
    "ram_base_addr ram \<le> aw_addr b \<Longrightarrow> \<exists>z'. axi_event (YAw b) z = Some z' \<and> axi_ok ram xs z'"
    "\<exists>z'. axi_event (YW w) z = Some z' \<and> axi_ok ram xs z'"
proof -
  let ?r = "y_ram z"
  from ok obtain m where i: "axi_wf ?r" "axi_conf ram ?r" "ram_holds ?r m"
    "axim_run (ram_base_addr ram) (ram_size ram) xs (axi_start (ram_contents ram) z) = Some (axi_st ?r m, y_rs z @ itf_list (ram_r_mst ?r), y_bs z @ out_b ?r)"
    unfolding axi_ok_def by blast
  note d = axi_wfD [OF i(1)] and more = axim_run_more [OF i(4)]
  { assume base: "ram_base_addr ram \<le> ar_addr a"
    show "\<exists>z'. axi_event (YAr a) z = Some z' \<and> axi_ok ram xs z'"
    proof (cases "itf_fifo_full (ram_ar_slv ?r)")
      case False
      obtain t where t: "itf_write (ram_ar_slv ?r) a = Some t" "itf_inv t" "itf_list t = itf_list (ram_ar_slv ?r) @ [a]" by (rule itf.push_not_full [OF d(3) False])
      let ?z = "z\<lparr>y_ram := ?r\<lparr>ram_ar_slv := t\<rparr>, y_ars := y_ars z @ [a]\<rparr>"
      have "axi_wf (y_ram ?z)" using i(1,2) t(2,3) base by (auto simp: axi_wf_def ram_wf_def axi_conf_def)
      moreover have "axim_run (ram_base_addr ram) (ram_size ram) xs (axi_start (ram_contents ram) ?z)
          = Some (axi_st (y_ram ?z) m, y_rs z @ itf_list (ram_r_mst ?r), y_bs z @ out_b ?r)"
        using more [where p = "[rd_burst a]" and q = "[]" and w = "[]"] t(3) by (simp add: axi_start_def axi_st_def rq_of_def wq_of_def)
      ultimately have "axi_ok ram xs ?z" by (rule axi_okI [OF _ _ i(2,3)]) (simp_all add: axi_conf_def out_b_def)
      with t(1) False show ?thesis by (simp add: Let_def)
    qed (use ok in \<open>simp add: Let_def\<close>) }
  { assume base: "ram_base_addr ram \<le> aw_addr b"
    show "\<exists>z'. axi_event (YAw b) z = Some z' \<and> axi_ok ram xs z'"
    proof (cases "itf_fifo_full (ram_aw_slv ?r)")
      case False
      obtain t where t: "itf_write (ram_aw_slv ?r) b = Some t" "itf_inv t" "itf_list t = itf_list (ram_aw_slv ?r) @ [b]" by (rule itf.push_not_full [OF d(5) False])
      let ?z = "z\<lparr>y_ram := ?r\<lparr>ram_aw_slv := t\<rparr>, y_aws := y_aws z @ [b]\<rparr>"
      have "axi_wf (y_ram ?z)" using i(1,2) t(2,3) base by (auto simp: axi_wf_def ram_wf_def axi_conf_def)
      moreover have "axim_run (ram_base_addr ram) (ram_size ram) xs (axi_start (ram_contents ram) ?z)
          = Some (axi_st (y_ram ?z) m, y_rs z @ itf_list (ram_r_mst ?r), y_bs z @ out_b ?r)"
        using more [where p = "[]" and q = "[wr_burst b]" and w = "[]"] t(3) by (simp add: axi_start_def axi_st_def rq_of_def wq_of_def)
      ultimately have "axi_ok ram xs ?z" by (rule axi_okI [OF _ _ i(2,3)]) (simp_all add: axi_conf_def out_b_def)
      with t(1) False show ?thesis by (simp add: Let_def)
    qed (use ok in \<open>simp add: Let_def\<close>) }
  show "\<exists>z'. axi_event (YW w) z = Some z' \<and> axi_ok ram xs z'"
  proof (cases "itf_fifo_full (ram_w_slv ?r)")
    case False
    obtain t where t: "itf_write (ram_w_slv ?r) w = Some t" "itf_inv t" "itf_list t = itf_list (ram_w_slv ?r) @ [w]" by (rule itf.push_not_full [OF d(6) False])
    let ?z = "z\<lparr>y_ram := ?r\<lparr>ram_w_slv := t\<rparr>, y_ws := y_ws z @ [w]\<rparr>"
    have "axi_wf (y_ram ?z)" using i(1) t(2) by (auto simp: axi_wf_def ram_wf_def)
    moreover have "axim_run (ram_base_addr ram) (ram_size ram) xs (axi_start (ram_contents ram) ?z)
        = Some (axi_st (y_ram ?z) m, y_rs z @ itf_list (ram_r_mst ?r), y_bs z @ out_b ?r)"
      using more [where p = "[]" and q = "[]" and w = "[w]"] t(3) by (simp add: axi_start_def axi_st_def rq_of_def wq_of_def)
    ultimately have "axi_ok ram xs ?z" by (rule axi_okI [OF _ _ i(2,3)]) (simp_all add: axi_conf_def out_b_def)
    with t(1) False show ?thesis by (simp add: Let_def)
  qed (use ok in \<open>simp add: Let_def\<close>)
qed

lemma axi_ok_take:
  assumes ok: "axi_ok ram xs z"
  shows "\<exists>z'. axi_event YTakeR z = Some z' \<and> axi_ok ram xs z'" "\<exists>z'. axi_event YTakeB z = Some z' \<and> axi_ok ram xs z'"
proof -
  let ?r = "y_ram z"
  from ok obtain m where i: "axi_wf ?r" "axi_conf ram ?r" "ram_holds ?r m"
    "axim_run (ram_base_addr ram) (ram_size ram) xs (axi_start (ram_contents ram) z) = Some (axi_st ?r m, y_rs z @ itf_list (ram_r_mst ?r), y_bs z @ out_b ?r)"
    unfolding axi_ok_def by blast
  note d = axi_wfD [OF i(1)]
  have st: "axi_st (?r\<lparr>ram_r_mst := t\<rparr>) m = axi_st ?r m" "axi_st (?r\<lparr>ram_b_mst := u\<rparr>) m = axi_st ?r m" for t u
    by (simp_all add: axi_st_def rq_of_def wq_of_def)
  show "\<exists>z'. axi_event YTakeR z = Some z' \<and> axi_ok ram xs z'"
  proof (cases "itf_fifo_empty (ram_r_mst ?r)")
    case False
    obtain r t where t: "itf_read (ram_r_mst ?r) = Some (r, t)" "itf_inv t" "itf_list (ram_r_mst ?r) = r # itf_list t" by (rule itf.pop_not_empty [OF d(4) False])
    let ?z = "z\<lparr>y_ram := ?r\<lparr>ram_r_mst := t\<rparr>, y_rs := y_rs z @ [r]\<rparr>"
    have "axi_wf (y_ram ?z)" using i(1) t(2) by (auto simp: axi_wf_def ram_wf_def)
    moreover have "axim_run (ram_base_addr ram) (ram_size ram) xs (axi_start (ram_contents ram) ?z) = Some (axi_st (y_ram ?z) m, y_rs z @ itf_list (ram_r_mst ?r), y_bs z @ out_b ?r)"
      using i(4) st(1) by (simp add: axi_start_def)
    ultimately have "axi_ok ram xs ?z" by (rule axi_okI [OF _ _ i(2,3)]) (use t(3) in \<open>simp_all add: axi_conf_def out_b_def\<close>)
    with t(1) False show ?thesis by (simp add: Let_def)
  qed (use ok in \<open>simp add: Let_def\<close>)
  show "\<exists>z'. axi_event YTakeB z = Some z' \<and> axi_ok ram xs z'"
  proof (cases "itf_fifo_empty (ram_b_mst ?r)")
    case False
    obtain b t where t: "itf_read (ram_b_mst ?r) = Some (b, t)" "itf_inv t" "itf_list (ram_b_mst ?r) = b # itf_list t" by (rule itf.pop_not_empty [OF d(7) False])
    let ?z = "z\<lparr>y_ram := ?r\<lparr>ram_b_mst := t\<rparr>, y_bs := y_bs z @ [b]\<rparr>"
    have "axi_wf (y_ram ?z)" using i(1) t(2) by (auto simp: axi_wf_def ram_wf_def)
    moreover have "axim_run (ram_base_addr ram) (ram_size ram) xs (axi_start (ram_contents ram) ?z) = Some (axi_st (y_ram ?z) m, y_rs z @ itf_list (ram_r_mst ?r), y_bs z @ out_b ?r)"
      using i(4) st(2) by (simp add: axi_start_def)
    ultimately have "axi_ok ram xs ?z" by (rule axi_okI [OF _ _ i(2,3)]) (use t(3) in \<open>simp_all add: axi_conf_def out_b_def\<close>)
    with t(1) False show ?thesis by (simp add: Let_def)
  qed (use ok in \<open>simp add: Let_def\<close>)
qed

definition axi_hosted :: "ram \<Rightarrow> axi_ev list \<Rightarrow> bool" where
  "axi_hosted ram evs \<longleftrightarrow> (\<forall>a. YAr a \<in> set evs \<longrightarrow> ram_base_addr ram \<le> ar_addr a) \<and> (\<forall>a. YAw a \<in> set evs \<longrightarrow> ram_base_addr ram \<le> aw_addr a)"

lemma axi_exec_ok:
  assumes "axi_ok ram xs z" "axi_hosted ram evs"
  shows "\<exists>z' ys. axi_exec evs z = Some z' \<and> axi_ok ram (xs @ ys) z'"
  using assms
proof (induction evs arbitrary: z xs)
  case Nil
  then show ?case by (intro exI [of _ z] exI [of _ "[]"]) simp
next
  case (Cons ev evs)
  note ok = axi_ok_tick [OF Cons.prems(1)] axi_ok_send [OF Cons.prems(1)] axi_ok_take [OF Cons.prems(1)]
  have "\<exists>z1 ys. axi_event ev z = Some z1 \<and> axi_ok ram (xs @ ys) z1"
  proof (cases "\<exists>c. ev = YTick c")
    case False
    then have "\<exists>z1. axi_event ev z = Some z1 \<and> axi_ok ram xs z1"
      using ok Cons.prems(2) by (cases ev) (simp_all add: axi_hosted_def del: axi_event.simps)
    then show ?thesis by (metis append_Nil2)
  qed (use ok(1) in \<open>auto simp del: axi_event.simps\<close>)
  then obtain z1 ys where z1: "axi_event ev z = Some z1" "axi_ok ram (xs @ ys) z1" by blast
  have "axi_hosted ram evs" using Cons.prems(2) by (simp add: axi_hosted_def)
  from Cons.IH [OF z1(2) this] z1(1) show ?case by auto
qed

lemma axi_boot_ok:
  assumes "ram_axi_ready ram"
  shows "axi_ok ram [] (axi_boot ram)"
proof -
  let ?r = "ram_reset ram"
  have r: "ram_wf ram" "itf_holds (ram_ar_slv ram) []" "itf_holds (ram_r_mst ram) []" "itf_holds (ram_aw_slv ram) []" "itf_holds (ram_w_slv ram) []"
    "itf_holds (ram_b_mst ram) []" using assms by (simp_all add: ram_axi_ready_def)
  have "rd_ring_ok (ram_rdq ?r)" "wr_ring_ok (ram_wrq ?r)" if "ram_latency ram \<noteq> 0"
    using assms that by (simp_all add: ram_axi_ready_def ram_reset_def rd_ring_ok_def wr_ring_ok_def ring_empty)
  then have "axi_wf ?r" using assms by (simp add: axi_wf_def ram_axi_ready_def ram_reset_def ram_wf_def itf_holds_def)
  moreover have "ram_holds ?r (ram_contents ram)" using ram_contents_holds [OF r(1)] by (simp add: ram_holds_def ram_reset_def)
  moreover have "axi_st ?r (ram_contents ram) = axi_start (ram_contents ram) (axi_boot ram)" "itf_list (ram_r_mst ?r) = []" "out_b ?r = []"
    using r by (simp_all add: axi_st_def axi_start_def axi_boot_def rq_of_def wq_of_def out_b_def ram_reset_def itf_holds_def rd_list_def wr_list_def wr_done_def)
  ultimately show ?thesis unfolding axi_ok_def
    by (intro conjI exI [of _ "ram_contents ram"]) (simp_all add: axi_boot_def axi_conf_def, simp add: ram_reset_def)
qed

text \<open>
  An order of the beats explains what the host has seen: the plain memory, given what the host sent, can serve the beats in that order, it then has the contents of the memory, and what the
  host received is what it gave. Once nothing is waiting, the host has received all of it, and every burst was served.
\<close>

definition axi_explains :: "ram \<Rightarrow> axi_op list \<Rightarrow> axi_sys \<Rightarrow> bool" where
  "axi_explains ram xs z \<longleftrightarrow> (case axim_run (ram_base_addr ram) (ram_size ram) xs (axi_start (ram_contents ram) z) of
       None \<Rightarrow> False
     | Some (a, rs, bs) \<Rightarrow> ram_holds (y_ram z) (am_mem a) \<and> prefix (y_rs z) rs \<and> prefix (y_bs z) bs
         \<and> (axi_drained (y_ram z) \<longrightarrow> y_rs z = rs \<and> y_bs z = bs \<and> am_rq a = [] \<and> am_wq a = []))"

lemma axi_ok_explains:
  assumes "axi_ok ram xs z"
  shows "axi_explains ram xs z"
proof -
  let ?r = "y_ram z"
  from assms obtain m where i: "axi_wf ?r" "ram_holds ?r m"
    "axim_run (ram_base_addr ram) (ram_size ram) xs (axi_start (ram_contents ram) z) = Some (axi_st ?r m, y_rs z @ itf_list (ram_r_mst ?r), y_bs z @ out_b ?r)"
    unfolding axi_ok_def by blast
  have "itf_list (ram_r_mst ?r) = [] \<and> out_b ?r = [] \<and> rq_of ?r = [] \<and> wq_of ?r = []" if "axi_drained ?r"
    using that axi_wfD(3-7) [OF i(1)]
    by (simp add: axi_drained_def itf.is_empty_iff out_b_def rq_of_def wq_of_def rd_list_def wr_list_def)
  with i(2,3) show ?thesis by (auto simp: axi_explains_def axi_st_def)
qed

section \<open>Properties\<close>

text \<open>
  C32. The memory is linearizable at its AXI4 port, except that it hides failed writes. However the host and the ticks of the memory interleave, whatever the latency,
  and whatever bursts the host sends at or above the base address, the memory never fails an assertion, and one order of the read and the write beats explains what the host receives: the beats
  and the responses of a plain memory that serves them one after the other in that order, the read bursts in the order in which they were sent, and the write bursts too. As the run goes on the order
  only grows, so a burst that is sent after another was answered is served after it. A read beat past the end of the memory is answered with a slave error; a write beat there is dropped, and yet
  every write burst is answered as done. A burst that is not fixed goes on by the size of a beat, also a wrapping one. The contents are those of the plain memory, and once nothing is waiting
  every burst was served and every answer received.
\<close>

theorem ram_axi_linearizable:
  assumes "ram_axi_ready ram" "axi_hosted ram evs" "axi_hosted ram evs'"
  shows "\<exists>z xs z' ys. axi_exec evs (axi_boot ram) = Some z \<and> axi_explains ram xs z
    \<and> axi_exec evs' z = Some z' \<and> axi_explains ram (xs @ ys) z'"
proof -
  from axi_exec_ok [OF axi_boot_ok [OF assms(1)] assms(2)] obtain z xs where z: "axi_exec evs (axi_boot ram) = Some z" "axi_ok ram xs z" by auto
  from axi_exec_ok [OF z(2) assms(3)] obtain z' ys where z': "axi_exec evs' z = Some z'" "axi_ok ram (xs @ ys) z'" by blast
  from z z' axi_ok_explains [OF z(2)] axi_ok_explains [OF z'(2)] show ?thesis by blast
qed

text \<open>A memory of eight bytes: a write burst of two beats, of which the second is past the end, and two reads, of the last word and behind it.\<close>

definition ram_axi_sample :: ram where
  "ram_axi_sample = ram_sample\<lparr>ram_mode_of := RAM_MODE_AXI\<rparr>"

definition ax_w :: "u32 \<Rightarrow> bool \<Rightarrow> axi4_w" where
  "ax_w d l = \<lparr>aw_data = d, aw_strb = 0xf, aw_last = l\<rparr>"

definition ram_axi_aw :: axi4_aw where
  "ram_axi_aw = \<lparr>aw_id = 1, aw_addr = 0x104, aw_len = 1, aw_size = AXI4_AW_SIZE_B4, aw_burst = AXI4_AW_BURST_INCR,
       aw_lock = False, aw_cache = 0, aw_prot = 0, aw_qos = 0, aw_user = 0\<rparr>"

definition ram_axi_ar :: "u8 \<Rightarrow> u32 \<Rightarrow> axi4_ar" where
  "ram_axi_ar i a = \<lparr>ar_id = i, ar_addr = a, ar_len = 0, ar_size = AXI4_AR_SIZE_B4, ar_burst = AXI4_AR_BURST_INCR,
       ar_lock = False, ar_cache = 0, ar_prot = 0, ar_qos = 0, ar_user = 0\<rparr>"

definition ram_axi_script :: "axi_ev list" where
  "ram_axi_script = [YAw ram_axi_aw, YW (ax_w 0x11223344 False), YW (ax_w 0x55667788 True), YTick 0, YTick 1, YTick 2, YTick 3, YTakeB]"

definition ram_axi_more :: "axi_ev list" where
  "ram_axi_more = [YAr (ram_axi_ar 2 0x104), YAr (ram_axi_ar 3 0x108), YTick 4, YTick 5, YTick 6, YTakeR, YTakeR]"

lemma ram_axi_sample_ready: "ram_axi_ready ram_axi_sample"
  using ram_sample_ready by (simp add: ram_bti_ready_def ram_axi_ready_def ram_axi_sample_def ram_wf_def ram_sample_def itf_holds_def itf_construct_inv)

lemma ram_axi_sample_run:
  "map_option (\<lambda>(z, z'). (y_bs z, y_bs z', map (\<lambda>r. (ax_id r, ax_data r, ax_resp r)) (y_rs z'), axi_drained (y_ram z')))
     (do { z \<leftarrow> axi_exec ram_axi_script (axi_boot ram_axi_sample); z' \<leftarrow> axi_exec ram_axi_more z; Some (z, z') })
   = Some ([okay 1], [okay 1], [(2, 0x11223344, AXI4_R_RESP_OKAY), (3, 0, AXI4_R_RESP_SLVERR)], True)"
  by code_simp

theorem ram_axi_linearizable_witness:
  "\<exists>z xs z' ys. axi_exec ram_axi_script (axi_boot ram_axi_sample) = Some z \<and> axi_explains ram_axi_sample xs z \<and> y_bs z = [okay 1]
    \<and> axi_exec ram_axi_more z = Some z' \<and> axi_explains ram_axi_sample (xs @ ys) z' \<and> axi_drained (y_ram z')
    \<and> map (\<lambda>r. (ax_id r, ax_data r, ax_resp r)) (y_rs z') = [(2, 0x11223344, AXI4_R_RESP_OKAY), (3, 0, AXI4_R_RESP_SLVERR)]"
proof -
  have host: "axi_hosted ram_axi_sample ram_axi_script" "axi_hosted ram_axi_sample ram_axi_more"
    by (auto simp: axi_hosted_def ram_axi_script_def ram_axi_more_def ram_axi_ar_def ram_axi_aw_def ram_axi_sample_def ram_sample_def)
  from ram_axi_linearizable [OF ram_axi_sample_ready host] obtain z xs z' ys where z: "axi_exec ram_axi_script (axi_boot ram_axi_sample) = Some z"
    "axi_explains ram_axi_sample xs z" "axi_exec ram_axi_more z = Some z'" "axi_explains ram_axi_sample (xs @ ys) z'" by blast
  have "y_bs z = [okay 1]" "map (\<lambda>r. (ax_id r, ax_data r, ax_resp r)) (y_rs z') = [(2, 0x11223344, AXI4_R_RESP_OKAY), (3, 0, AXI4_R_RESP_SLVERR)]" "axi_drained (y_ram z')"
    using ram_axi_sample_run z(1,3) by simp_all
  with z show ?thesis by (intro exI [of _ z] exI [of _ xs] exI [of _ z'] exI [of _ ys]) simp
qed

end
