(* ===== verification/LsuErr.thy ===== *)
theory LsuErr
  imports Lsu Ports
begin

text \<open>
  What the load/store unit (\<^verbatim>\<open>core/hart/lsu.c\<close>) does when a byte of a split access fails while the answers to other bytes of that
  access are still to come.
\<close>

section \<open>A unit with at most one access\<close>

text \<open>What the queues of the unit hold, and whether the slot at the head of the table was freed in this tick.\<close>

record lsu_view =
  lv_tab :: "lsu_ost_ctx list"
  lv_freed :: bool
  lv_fifo :: "ldst_req list"
  lv_exu_req :: "ldst_req list"
  lv_exu_rsp :: "ldst_rsp list"
  lv_hbi_req :: "ldst_req list"
  lv_hbi_rsp :: "ldst_rsp list"

definition view_of :: "lsu \<Rightarrow> lsu_view" where
  "view_of s = \<lparr>lv_tab = ostq_live (ls_ost s), lv_freed = ostq_head_freed (ls_ost s), lv_fifo = fifo_list (ls_req_fifo s),
     lv_exu_req = itf_list (ls_exu_ldst_req_slv s), lv_exu_rsp = itf_list (ls_exu_ldst_rsp_mst s),
     lv_hbi_req = itf_list (ls_hbi_ldst_req_mst s), lv_hbi_rsp = itf_list (ls_hbi_ldst_rsp_slv s)\<rparr>"

definition lsu_at :: "lsu_view \<Rightarrow> csr_lsu_state \<Rightarrow> lsu \<Rightarrow> bool" where
  "lsu_at v c s \<longleftrightarrow> lsu_itfs s \<and> view_of s = v \<and> ls_csr_state_i s = c"

lemma lsu_atD:
  assumes "lsu_at v c s"
  shows "itf_holds (ls_exu_ldst_req_slv s) (lv_exu_req v)" "itf_holds (ls_exu_ldst_rsp_mst s) (lv_exu_rsp v)"
    "itf_holds (ls_hbi_ldst_req_mst s) (lv_hbi_req v)" "itf_holds (ls_hbi_ldst_rsp_slv s) (lv_hbi_rsp v)" "fifo_holds (ls_req_fifo s) (lv_fifo v)"
    "ostq_inv (ls_ost s)" "ostq_live (ls_ost s) = lv_tab v" "ostq_head_freed (ls_ost s) = lv_freed v"
  using assms by (auto simp: lsu_at_def lsu_itfs_def view_of_def itf_holds_def fifo_holds_def)

lemma lsu_atI:
  assumes "itf_holds (ls_exu_ldst_req_slv s) (lv_exu_req v)" "itf_holds (ls_exu_ldst_rsp_mst s) (lv_exu_rsp v)"
    "itf_holds (ls_hbi_ldst_req_mst s) (lv_hbi_req v)" "itf_holds (ls_hbi_ldst_rsp_slv s) (lv_hbi_rsp v)" "fifo_holds (ls_req_fifo s) (lv_fifo v)"
    "ostq_inv (ls_ost s)" "ostq_live (ls_ost s) = lv_tab v" "ostq_head_freed (ls_ost s) = lv_freed v" "ls_csr_state_i s = c"
  shows "lsu_at v c s"
  using assms by (simp add: lsu_at_def lsu_itfs_def view_of_def itf_holds_def fifo_holds_def)

lemma at_clock:
  assumes "lsu_at v c s"
  shows "\<exists>ost. ostq_clock (ls_ost s) = Some ost \<and> lsu_at (v\<lparr>lv_freed := False\<rparr>) c (s\<lparr>ls_ost := ost\<rparr>)"
proof -
  note p = lsu_atD [OF assms]
  from ostq_clock_live [OF p(6)] obtain ost where "ostq_clock (ls_ost s) = Some ost" "ostq_inv ost" "ostq_live ost = ostq_live (ls_ost s)"
    "\<not> ostq_head_freed ost" by blast
  with p assms show ?thesis by (intro exI [of _ ost] conjI lsu_atI) (simp_all add: lsu_at_def)
qed

lemma at_capture:
  assumes "lsu_at v c s"
  shows "lv_exu_req v = [] \<Longrightarrow> \<exists>s'. lsu_capture_req s = Some s' \<and> lsu_at v c s'"
    "lv_exu_req v = [r] \<Longrightarrow> lv_fifo v = [] \<Longrightarrow> \<exists>s'. lsu_capture_req s = Some s' \<and> lsu_at (v\<lparr>lv_exu_req := [], lv_fifo := [r]\<rparr>) c s'"
proof -
  note p = lsu_atD [OF assms]
  { assume "lv_exu_req v = []"
    then have "lsu_capture_req s = Some s" using itf_holds_empty [OF p(1)] by (simp add: lsu_capture_req_def)
    with assms show "\<exists>s'. lsu_capture_req s = Some s' \<and> lsu_at v c s'" by blast }
  assume e: "lv_exu_req v = [r]" "lv_fifo v = []"
  from holds_Cons [OF p(1) [unfolded e(1)]] obtain t where t: "\<not> itf_fifo_empty (ls_exu_ldst_req_slv s)"
    "itf_read (ls_exu_ldst_req_slv s) = Some (r, t)" "itf_holds t []" by blast
  have nf: "\<not> fifo_full (ls_req_fifo s)" using p(5) e(2) by (auto simp: fifo_holds_def fifo.is_full_iff fifo_inv_def ring_inv_def)
  from fifo_holds_push [OF p(5) nf, of r] e(2) obtain f where f: "fifo_push (ls_req_fifo s) r = Some f" "fifo_holds f [r]" by auto
  have "lsu_capture_req s = Some (s\<lparr>ls_exu_ldst_req_slv := t, ls_req_fifo := f\<rparr>)" using nf t f by (simp add: lsu_capture_req_def)
  moreover have "lsu_at (v\<lparr>lv_exu_req := [], lv_fifo := [r]\<rparr>) c (s\<lparr>ls_exu_ldst_req_slv := t, ls_req_fifo := f\<rparr>)"
    using p t f assms by (intro lsu_atI) (simp_all add: lsu_at_def)
  ultimately show "\<exists>s'. lsu_capture_req s = Some s' \<and> lsu_at (v\<lparr>lv_exu_req := [], lv_fifo := [r]\<rparr>) c s'" by blast
qed

lemma at_rsp:
  assumes "lsu_at v c s"
  shows "lv_tab v = [] \<Longrightarrow> \<exists>s'. lsu_proc_rsp s = Some s' \<and> lsu_at v c s'"
    "lv_tab v = [x] \<Longrightarrow> \<not> lc_ready x \<Longrightarrow> lc_rsp_idx x < lc_req_idx x \<Longrightarrow> lv_hbi_rsp v = [b]
      \<Longrightarrow> \<exists>s'. lsu_proc_rsp s = Some s' \<and> lsu_at (v\<lparr>lv_tab := [lsu_take_rsp x b], lv_hbi_rsp := []\<rparr>) c s'"
proof -
  note p = lsu_atD [OF assms]
  { assume "lv_tab v = []"
    then have "lsu_proc_rsp s = Some s" using p(6,7) by (simp add: lsu_proc_rsp_def lsu_find_rsp_slot_def ostq_find_eq)
    with assms show "\<exists>s'. lsu_proc_rsp s = Some s' \<and> lsu_at v c s'" by blast }
  assume e: "lv_tab v = [x]" "\<not> lc_ready x" "lc_rsp_idx x < lc_req_idx x" "lv_hbi_rsp v = [b]"
  from holds_Cons [OF p(4) [unfolded e(4)]] obtain t where t: "\<not> itf_fifo_empty (ls_hbi_ldst_rsp_slv s)"
    "itf_read (ls_hbi_ldst_rsp_slv s) = Some (b, t)" "itf_holds t []" by blast
  from ostq_write_live [OF p(6), of 0 "lsu_take_rsp x b"] p(7) e(1) obtain ost where
    o: "ostq_write_slot (ls_ost s) (ostq_slot (ls_ost s) 0) (lsu_take_rsp x b) = Some ost" "ostq_inv ost" "ostq_live ost = [lsu_take_rsp x b]"
      "ostq_head_freed ost = ostq_head_freed (ls_ost s)" by auto
  have "lsu_proc_rsp s = Some (s\<lparr>ls_hbi_ldst_rsp_slv := t, ls_ost := ost\<rparr>)"
    using p(6,7) e t o(1) by (simp add: lsu_proc_rsp_def lsu_find_rsp_slot_def ostq_find_eq)
  moreover have "lsu_at (v\<lparr>lv_tab := [lsu_take_rsp x b], lv_hbi_rsp := []\<rparr>) c (s\<lparr>ls_hbi_ldst_rsp_slv := t, ls_ost := ost\<rparr>)"
    using p t o assms by (intro lsu_atI) (simp_all add: lsu_at_def)
  ultimately show "\<exists>s'. lsu_proc_rsp s = Some s' \<and> lsu_at (v\<lparr>lv_tab := [lsu_take_rsp x b], lv_hbi_rsp := []\<rparr>) c s'" by blast
qed

definition rsp_of_ctx :: "lsu_ost_ctx \<Rightarrow> ldst_rsp" where
  "rsp_of_ctx x = \<lparr>lr_data = (if lc_ok x \<and> \<not> lq_st (lc_req x) then lc_rsp_data x else 0), lr_ok = lc_ok x\<rparr>"

lemma at_send:
  assumes "lsu_at v c s"
  shows "lv_tab v = [] \<Longrightarrow> \<exists>s'. lsu_send_ready_rsp s = Some s' \<and> lsu_at v c s'"
    "lv_tab v = [x] \<Longrightarrow> lc_ready x \<Longrightarrow> \<not> lv_freed v \<Longrightarrow> lv_exu_rsp v = []
      \<Longrightarrow> \<exists>s'. lsu_send_ready_rsp s = Some s' \<and> lsu_at (v\<lparr>lv_tab := [], lv_freed := True, lv_exu_rsp := [rsp_of_ctx x]\<rparr>) c s'"
proof -
  note p = lsu_atD [OF assms]
  { assume "lv_tab v = []"
    then have "lsu_send_ready_rsp s = Some s" using p(6,7) ostq_peek_live [OF p(6)] by (simp add: lsu_send_ready_rsp_def)
    with assms show "\<exists>s'. lsu_send_ready_rsp s = Some s' \<and> lsu_at v c s'" by blast }
  assume e: "lv_tab v = [x]" "lc_ready x" "\<not> lv_freed v" "lv_exu_rsp v = []"
  from holds_write [OF p(2), of "rsp_of_ctx x"] holds_Nil [of "ls_exu_ldst_rsp_mst s"] p(2) e(4) obtain t where
    t: "\<not> itf_fifo_full (ls_exu_ldst_rsp_mst s)" "itf_write (ls_exu_ldst_rsp_mst s) (rsp_of_ctx x) = Some t" "itf_holds t [rsp_of_ctx x]" by auto
  from ostq_free_live [OF p(6)] p(7,8) e(1,3) obtain ost where
    o: "ostq_free_head (ls_ost s) = Some ost" "ostq_inv ost" "ostq_live ost = []" "ostq_head_freed ost" by auto
  have "lsu_send_ready_rsp s = Some (s\<lparr>ls_exu_ldst_rsp_mst := t, ls_ost := ost\<rparr>)"
    using p(7,8) e t(1,2) o(1) ostq_peek_live [OF p(6)] by (simp add: lsu_send_ready_rsp_def rsp_of_ctx_def)
  moreover have "lsu_at (v\<lparr>lv_tab := [], lv_freed := True, lv_exu_rsp := [rsp_of_ctx x]\<rparr>) c (s\<lparr>ls_exu_ldst_rsp_mst := t, ls_ost := ost\<rparr>)"
    using p t o assms by (intro lsu_atI) (simp_all add: lsu_at_def)
  ultimately show "\<exists>s'. lsu_send_ready_rsp s = Some s' \<and> lsu_at (v\<lparr>lv_tab := [], lv_freed := True, lv_exu_rsp := [rsp_of_ctx x]\<rparr>) c s'" by blast
qed

lemma at_issue:
  assumes "lsu_at v c s"
  shows "lv_tab v = [] \<Longrightarrow> \<exists>s'. lsu_issue_req s = Some s' \<and> lsu_at v c s'"
    "lv_tab v = [x] \<Longrightarrow> \<not> lc_ready x \<Longrightarrow> lc_req_idx x < lc_byte_num x \<Longrightarrow> lv_hbi_req v = []
      \<Longrightarrow> \<exists>s'. lsu_issue_req s = Some s' \<and> lsu_at (v\<lparr>lv_tab := [x\<lparr>lc_req_idx := lc_req_idx x + 1\<rparr>], lv_hbi_req := [next_req x]\<rparr>) c s'"
proof -
  note p = lsu_atD [OF assms]
  { assume "lv_tab v = []"
    then have "lsu_issue_req s = Some s" using p(6,7) by (simp add: lsu_issue_req_def lsu_find_issue_slot_def ostq_find_eq)
    with assms show "\<exists>s'. lsu_issue_req s = Some s' \<and> lsu_at v c s'" by blast }
  assume e: "lv_tab v = [x]" "\<not> lc_ready x" "lc_req_idx x < lc_byte_num x" "lv_hbi_req v = []"
  let ?x = "x\<lparr>lc_req_idx := lc_req_idx x + 1\<rparr>"
  from holds_write [OF p(3), of "next_req x"] holds_Nil [of "ls_hbi_ldst_req_mst s"] p(3) e(4) obtain t where
    t: "\<not> itf_fifo_full (ls_hbi_ldst_req_mst s)" "itf_write (ls_hbi_ldst_req_mst s) (next_req x) = Some t" "itf_holds t [next_req x]" by auto
  from ostq_write_live [OF p(6), of 0 ?x] p(7) e(1) obtain ost where
    o: "ostq_write_slot (ls_ost s) (ostq_slot (ls_ost s) 0) ?x = Some ost" "ostq_inv ost" "ostq_live ost = [?x]"
      "ostq_head_freed ost = ostq_head_freed (ls_ost s)" by auto
  have "lsu_issue_req s = Some (s\<lparr>ls_hbi_ldst_req_mst := t, ls_ost := ost\<rparr>)"
    using p(6,7) e t(1,2) o(1) by (simp add: lsu_issue_req_def lsu_find_issue_slot_def ostq_find_eq next_req_def Let_def)
  moreover have "lsu_at (v\<lparr>lv_tab := [?x], lv_hbi_req := [next_req x]\<rparr>) c (s\<lparr>ls_hbi_ldst_req_mst := t, ls_ost := ost\<rparr>)"
    using p t o assms by (intro lsu_atI) (simp_all add: lsu_at_def)
  ultimately show "\<exists>s'. lsu_issue_req s = Some s' \<and> lsu_at (v\<lparr>lv_tab := [?x], lv_hbi_req := [next_req x]\<rparr>) c s'" by blast
qed

text \<open>The context of a request that is not split.\<close>

definition whole_ctx :: "ldst_req \<Rightarrow> lsu_ost_ctx" where
  "whole_ctx r = \<lparr>lc_req = r, lc_split = False, lc_byte_num = 1, lc_req_idx = 0, lc_rsp_idx = 0, lc_rsp_data = 0, lc_ready = False, lc_ok = True\<rparr>"

lemma at_alloc:
  assumes "lsu_at v c s"
  shows "lv_fifo v = [] \<Longrightarrow> \<exists>s'. lsu_alloc_req s = Some s' \<and> lsu_at v c s'"
    "lv_fifo v = [r] \<Longrightarrow> lv_tab v = [] \<Longrightarrow> \<not> lv_freed v \<Longrightarrow> \<not> snd (lsu_acc s r)
      \<Longrightarrow> \<exists>s'. lsu_alloc_req s = Some s' \<and> lsu_at (v\<lparr>lv_fifo := [], lv_tab := [whole_ctx r]\<rparr>) c s'"
proof -
  note p = lsu_atD [OF assms]
  { assume "lv_fifo v = []"
    then have "lsu_alloc_req s = Some s" using fifo_holds_empty [OF p(5)] by (simp add: lsu_alloc_req_def)
    with assms show "\<exists>s'. lsu_alloc_req s = Some s' \<and> lsu_at v c s'" by blast }
  assume e: "lv_fifo v = [r]" "lv_tab v = []" "\<not> lv_freed v" "\<not> snd (lsu_acc s r)"
  from fifo_holds_Cons [of "ls_req_fifo s" r "[]"] p(5) e(1) obtain f where f: "fifo_pop (ls_req_fifo s) = Some (r, f)" "fifo_holds f []" by auto
  have ne: "\<not> fifo_empty (ls_req_fifo s)" using fifo_holds_empty [OF p(5)] e(1) by simp
  have nf: "\<not> ostq_full (ls_ost s)"
    using ostq_count_live [OF p(6)] p(7,8) e(2,3) ostq_inv_bounds [OF p(6)] by (auto simp: ostq_full_def ostq_off_def)
  from ostq_alloc_live [OF p(6) nf, of "whole_ctx r"] p(7) e(2) obtain slot ost where
    o: "ostq_alloc (ls_ost s) (whole_ctx r) = Some (Some (slot, ost))" "ostq_inv ost" "ostq_live ost = [whole_ctx r]"
      "ostq_head_freed ost = ostq_head_freed (ls_ost s)" by auto
  have "lsu_alloc_req s = Some (s\<lparr>ls_req_fifo := f, ls_ost := ost\<rparr>)"
    using ne nf f(1) o(1) e(4) by (auto simp: lsu_alloc_req_def Let_def whole_ctx_def lsu_acc_def)
  moreover have "lsu_at (v\<lparr>lv_fifo := [], lv_tab := [whole_ctx r]\<rparr>) c (s\<lparr>ls_req_fifo := f, ls_ost := ost\<rparr>)"
    using p f o assms by (intro lsu_atI) (simp_all add: lsu_at_def)
  ultimately show "\<exists>s'. lsu_alloc_req s = Some s' \<and> lsu_at (v\<lparr>lv_fifo := [], lv_tab := [whole_ctx r]\<rparr>) c s'" by blast
qed

lemma at_dbg:
  assumes "lsu_at v c s"
  shows "\<exists>s'. lsu_update_dbg_state s = Some s' \<and> lsu_at v c s'"
proof -
  note p = lsu_atD [OF assms]
  let ?s = "the (lsu_update_dbg_state s)"
  have "lsu_update_dbg_state s \<noteq> None" using ostq_peek_live [OF p(6)] by (simp add: lsu_update_dbg_state_def Let_def)
  then have s: "lsu_update_dbg_state s = Some ?s" by auto
  have "lsu_at v c ?s" using p assms
    by (intro lsu_atI) (simp_all add: lsu_update_dbg_state_def Let_def ostq_peek_live [OF p(6)] lsu_at_def)
  with s show ?thesis by blast
qed

lemma lsu_acc_csr: "ls_csr_state_i s = ls_csr_state_i s' \<Longrightarrow> lsu_acc s = lsu_acc s'"
  by (simp add: lsu_acc_def lsu_translation_enabled_def fun_eq_iff)

section \<open>The three ticks\<close>

text \<open>A failed answer ends the access at once, whatever is still to come.\<close>

lemma tick_fail:
  assumes "lsu_at v c s" "lv_tab v = [x]" "\<not> lc_ready x" "lc_rsp_idx x < lc_req_idx x" "lv_hbi_rsp v = [b]" "\<not> lr_ok b"
    "lv_exu_rsp v = []" "lv_exu_req v = []" "lv_fifo v = []"
  shows "\<exists>s'. lsu_clock s = Some s'
    \<and> lsu_at (v\<lparr>lv_tab := [], lv_freed := True, lv_exu_rsp := [\<lparr>lr_data = 0, lr_ok = False\<rparr>], lv_hbi_rsp := []\<rparr>) c s'"
proof -
  let ?x = "lsu_take_rsp x b"
  have x: "lc_ready ?x" "rsp_of_ctx ?x = \<lparr>lr_data = 0, lr_ok = False\<rparr>" using assms(6) by (simp_all add: lsu_take_rsp_def rsp_of_ctx_def)
  from at_clock [OF assms(1)] obtain o1 where 1: "ostq_clock (ls_ost s) = Some o1" "lsu_at (v\<lparr>lv_freed := False\<rparr>) c (s\<lparr>ls_ost := o1\<rparr>)" by blast
  from at_capture(1) [OF 1(2)] assms(8) obtain s1 where 2: "lsu_capture_req (s\<lparr>ls_ost := o1\<rparr>) = Some s1" "lsu_at (v\<lparr>lv_freed := False\<rparr>) c s1" by auto
  from at_rsp(2) [OF 2(2)] assms(2-5) obtain s2 where
    3: "lsu_proc_rsp s1 = Some s2" "lsu_at (v\<lparr>lv_freed := False, lv_tab := [?x], lv_hbi_rsp := []\<rparr>) c s2" by auto
  from at_send(2) [OF 3(2)] x assms(7) obtain s3 where 4: "lsu_send_ready_rsp s2 = Some s3"
    "lsu_at (v\<lparr>lv_tab := [], lv_freed := True, lv_exu_rsp := [\<lparr>lr_data = 0, lr_ok = False\<rparr>], lv_hbi_rsp := []\<rparr>) c s3" by (cases v) auto
  from at_issue(1) [OF 4(2)] obtain s4 where 5: "lsu_issue_req s3 = Some s4"
    "lsu_at (v\<lparr>lv_tab := [], lv_freed := True, lv_exu_rsp := [\<lparr>lr_data = 0, lr_ok = False\<rparr>], lv_hbi_rsp := []\<rparr>) c s4" by auto
  from at_alloc(1) [OF 5(2)] assms(9) obtain s5 where 6: "lsu_alloc_req s4 = Some s5"
    "lsu_at (v\<lparr>lv_tab := [], lv_freed := True, lv_exu_rsp := [\<lparr>lr_data = 0, lr_ok = False\<rparr>], lv_hbi_rsp := []\<rparr>) c s5" by auto
  from at_issue(1) [OF 6(2)] obtain s6 where 7: "lsu_issue_req s5 = Some s6"
    "lsu_at (v\<lparr>lv_tab := [], lv_freed := True, lv_exu_rsp := [\<lparr>lr_data = 0, lr_ok = False\<rparr>], lv_hbi_rsp := []\<rparr>) c s6" by auto
  from at_dbg [OF 7(2)] 1(1) 2(1) 3(1) 4(1) 5(1) 6(1) 7(1) show ?thesis by (simp add: lsu_clock_def)
qed

text \<open>With an empty table an early answer stays at the interface; the new request is put into the table and sent.\<close>

lemma tick_accept:
  assumes "lsu_at v c s" "lv_tab v = []" "lv_exu_req v = [r]" "lv_fifo v = []" "lv_hbi_req v = []" "\<not> snd (lsu_acc s r)"
  shows "\<exists>s'. lsu_clock s = Some s'
    \<and> lsu_at (v\<lparr>lv_freed := False, lv_exu_req := [], lv_tab := [(whole_ctx r)\<lparr>lc_req_idx := 1\<rparr>], lv_hbi_req := [r]\<rparr>) c s'"
proof -
  let ?v = "v\<lparr>lv_freed := False, lv_exu_req := [], lv_fifo := [r]\<rparr>" and ?w = "v\<lparr>lv_freed := False, lv_exu_req := [], lv_fifo := [], lv_tab := [whole_ctx r]\<rparr>"
  let ?u = "v\<lparr>lv_freed := False, lv_exu_req := [], lv_tab := [(whole_ctx r)\<lparr>lc_req_idx := 1\<rparr>], lv_hbi_req := [r]\<rparr>"
  from at_clock [OF assms(1)] obtain o1 where 1: "ostq_clock (ls_ost s) = Some o1" "lsu_at (v\<lparr>lv_freed := False\<rparr>) c (s\<lparr>ls_ost := o1\<rparr>)" by blast
  from at_capture(2) [OF 1(2), of r] assms(3,4) obtain s1 where 2: "lsu_capture_req (s\<lparr>ls_ost := o1\<rparr>) = Some s1" "lsu_at ?v c s1" by auto
  from at_rsp(1) [OF 2(2)] assms(2) obtain s2 where 3: "lsu_proc_rsp s1 = Some s2" "lsu_at ?v c s2" by auto
  from at_send(1) [OF 3(2)] assms(2) obtain s3 where 4: "lsu_send_ready_rsp s2 = Some s3" "lsu_at ?v c s3" by auto
  from at_issue(1) [OF 4(2)] assms(2) obtain s4 where 5: "lsu_issue_req s3 = Some s4" "lsu_at ?v c s4" by auto
  have "\<not> snd (lsu_acc s4 r)" using assms(1,6) 5(2) lsu_acc_csr [of s4 s] by (simp add: lsu_at_def)
  with at_alloc(2) [OF 5(2), of r] assms(2) obtain s5 where 6: "lsu_alloc_req s4 = Some s5" "lsu_at ?w c s5" by auto
  from at_issue(2) [OF 6(2), of "whole_ctx r"] assms(4,5) obtain s6 where 7: "lsu_issue_req s5 = Some s6" "lsu_at ?u c s6"
    by (cases v) (auto simp: whole_ctx_def next_req_def)
  from at_dbg [OF 7(2)] 1(1) 2(1) 3(1) 4(1) 5(1) 6(1) 7(1) show ?thesis by (simp add: lsu_clock_def)
qed

text \<open>In the next tick the answer that waits is taken for the new request and completes it.\<close>

lemma tick_answer:
  assumes "lsu_at v c s" "lv_tab v = [(whole_ctx r)\<lparr>lc_req_idx := 1\<rparr>]" "lv_hbi_rsp v = [b]" "lr_ok b" "\<not> lq_st r"
    "lv_exu_rsp v = []" "lv_exu_req v = []" "lv_fifo v = []"
  shows "\<exists>s'. lsu_clock s = Some s' \<and> lsu_at (v\<lparr>lv_tab := [], lv_freed := True, lv_exu_rsp := [\<lparr>lr_data = lr_data b, lr_ok = True\<rparr>], lv_hbi_rsp := []\<rparr>) c s'"
proof -
  let ?x = "(whole_ctx r)\<lparr>lc_req_idx := 1\<rparr>"
  let ?w = "v\<lparr>lv_tab := [], lv_freed := True, lv_exu_rsp := [\<lparr>lr_data = lr_data b, lr_ok = True\<rparr>], lv_hbi_rsp := []\<rparr>"
  have x: "lc_ready (lsu_take_rsp ?x b)" "rsp_of_ctx (lsu_take_rsp ?x b) = \<lparr>lr_data = lr_data b, lr_ok = True\<rparr>" "\<not> lc_ready ?x" "lc_rsp_idx ?x < lc_req_idx ?x"
    using assms(4,5) by (simp_all add: lsu_take_rsp_def rsp_of_ctx_def whole_ctx_def)
  from at_clock [OF assms(1)] obtain o1 where 1: "ostq_clock (ls_ost s) = Some o1" "lsu_at (v\<lparr>lv_freed := False\<rparr>) c (s\<lparr>ls_ost := o1\<rparr>)" by blast
  from at_capture(1) [OF 1(2)] assms(7) obtain s1 where 2: "lsu_capture_req (s\<lparr>ls_ost := o1\<rparr>) = Some s1" "lsu_at (v\<lparr>lv_freed := False\<rparr>) c s1" by auto
  from at_rsp(2) [OF 2(2), of ?x b] assms(2,3) x obtain s2 where
    3: "lsu_proc_rsp s1 = Some s2" "lsu_at (v\<lparr>lv_freed := False, lv_tab := [lsu_take_rsp ?x b], lv_hbi_rsp := []\<rparr>) c s2" by auto
  from at_send(2) [OF 3(2)] x assms(6) obtain s3 where 4: "lsu_send_ready_rsp s2 = Some s3" "lsu_at ?w c s3" by (cases v) auto
  from at_issue(1) [OF 4(2)] obtain s4 where 5: "lsu_issue_req s3 = Some s4" "lsu_at ?w c s4" by auto
  from at_alloc(1) [OF 5(2)] assms(8) obtain s5 where 6: "lsu_alloc_req s4 = Some s5" "lsu_at ?w c s5" by auto
  from at_issue(1) [OF 6(2)] obtain s6 where 7: "lsu_issue_req s5 = Some s6" "lsu_at ?w c s6" by auto
  from at_dbg [OF 7(2)] 1(1) 2(1) 3(1) 4(1) 5(1) 6(1) 7(1) show ?thesis by (simp add: lsu_clock_def)
qed

section \<open>What the neighbours do\<close>

lemma at_exu_send:
  assumes "lsu_at v c s" "lv_exu_req v = []"
  shows "\<exists>s'. lsu_event (ExuSend r) (s, I, os, Q, R) = Some (s', I @ [lsu_acc s r], os, Q, R) \<and> lsu_at (v\<lparr>lv_exu_req := [r]\<rparr>) c s'"
proof -
  note p = lsu_atD [OF assms(1)]
  from holds_write [OF p(1), of r] holds_Nil [of "ls_exu_ldst_req_slv s"] p(1) assms(2) obtain t where
    t: "itf_write (ls_exu_ldst_req_slv s) r = Some t" "itf_holds t [r]" by auto
  have "lsu_at (v\<lparr>lv_exu_req := [r]\<rparr>) c (s\<lparr>ls_exu_ldst_req_slv := t\<rparr>)" using p t assms(1) by (intro lsu_atI) (simp_all add: lsu_at_def)
  with t(1) show ?thesis by simp
qed

lemma at_exu_recv:
  assumes "lsu_at v c s" "lv_exu_rsp v = [x]"
  shows "\<exists>s'. lsu_event ExuRecv (s, I, os, Q, R) = Some (s', I, os @ [x], Q, R) \<and> lsu_at (v\<lparr>lv_exu_rsp := []\<rparr>) c s'"
proof -
  note p = lsu_atD [OF assms(1)]
  from holds_Cons [OF p(2) [unfolded assms(2)]] obtain t where t: "itf_read (ls_exu_ldst_rsp_mst s) = Some (x, t)" "itf_holds t []" by blast
  have "lsu_at (v\<lparr>lv_exu_rsp := []\<rparr>) c (s\<lparr>ls_exu_ldst_rsp_mst := t\<rparr>)" using p t assms(1) by (intro lsu_atI) (simp_all add: lsu_at_def)
  with t(1) show ?thesis by simp
qed

lemma at_hbi_send:
  assumes "lsu_at v c s" "lv_hbi_rsp v = []" "length R < length Q"
  shows "\<exists>s'. lsu_event (HbiSend b) (s, I, os, Q, R) = Some (s', I, os, Q, R @ [lr_data b]) \<and> lsu_at (v\<lparr>lv_hbi_rsp := [b]\<rparr>) c s'"
proof -
  note p = lsu_atD [OF assms(1)]
  from holds_write [OF p(4), of b] holds_Nil [of "ls_hbi_ldst_rsp_slv s"] p(4) assms(2) obtain t where
    t: "itf_write (ls_hbi_ldst_rsp_slv s) b = Some t" "itf_holds t [b]" by auto
  have "lsu_at (v\<lparr>lv_hbi_rsp := [b]\<rparr>) c (s\<lparr>ls_hbi_ldst_rsp_slv := t\<rparr>)" using p t assms(1) by (intro lsu_atI) (simp_all add: lsu_at_def)
  with t(1) assms(3) show ?thesis by simp
qed

text \<open>In a run the bus owes the answers that the accesses in the table still wait for.\<close>

lemma owed_answers:
  assumes inv: "lsu_inv s I os Q R" and quiet: "itf_list (ls_hbi_ldst_req_mst s) = []" "itf_list (ls_hbi_ldst_rsp_slv s) = []"
    and tab: "ostq_live (ls_ost s) = [x]"
  shows "length R + lc_req_idx x = length Q + lc_rsp_idx x" "lc_ready x \<Longrightarrow> lc_rsp_idx x = lc_req_idx x"
proof -
  from inv obtain D P pe where t: "tab_ok [x] P" and h: "hist_ok D P I pe (os @ itf_list (ls_exu_ldst_rsp_mst s)) Q R []"
    unfolding lsu_inv_def tab quiet by auto
  from t obtain ds where P: "P = [(x, ds)]" and ok: "ctx_ok (x, ds)" by (auto simp: tab_ok_def)
  have "length (concat (map (expand \<circ> fst) D)) = length (concat (map snd D))"
    using h unfolding hist_ok_def by (auto simp: length_concat comp_def intro!: arg_cong [of _ _ sum_list] map_cong)
  moreover have "length (issued (x, ds)) = lc_req_idx x" "length ds = lc_rsp_idx x" using ok by (simp_all add: issued_def ctx_ok_def)
  ultimately show "length R + lc_req_idx x = length Q + lc_rsp_idx x" using h P unfolding hist_ok_def by simp
  show "lc_ready x \<Longrightarrow> lc_rsp_idx x = lc_req_idx x" using ok by (auto simp: ctx_ok_def)
qed

section \<open>Properties\<close>

text \<open>
  C36. When a byte request of a split access fails, the access is reported as failed at once and
  its other byte requests are forgotten although their responses still come: the response that
  belongs to the failed access is delivered as the answer to the next one. After any run that leaves one access in the unit, of which at
  least two answers are owed, and nothing else waiting: the bus answers the next byte with an error, the execution unit gets the failure, and sends
  any load that is not split while the bus answers the following byte of the failed access with \<open>d\<close>; then two ticks later
  the load is answered with \<open>d\<close>, before the bus has even taken its request.
\<close>

theorem lsu_stale_response:
  assumes "lsu_fresh s0" "lsu_run s0 s I os Q R"
    and "itf_list (ls_exu_ldst_req_slv s) = []" "itf_list (ls_exu_ldst_rsp_mst s) = []" "itf_list (ls_hbi_ldst_req_mst s) = []"
    and "itf_list (ls_hbi_ldst_rsp_slv s) = []" "fifo_list (ls_req_fifo s) = []"
    and "ostq_live (ls_ost s) = [x]" "lc_rsp_idx x + 2 \<le> lc_req_idx x"
    and "\<not> lr_ok f" "\<not> lq_st r" "\<not> snd (lsu_acc s r)"
  shows "\<exists>s'. lsu_exec [HbiSend f, Tick, ExuRecv, ExuSend r, HbiSend \<lparr>lr_data = d, lr_ok = True\<rparr>, Tick, Tick, ExuRecv] (s, I, os, Q, R)
    = Some (s', I @ [(r, False)], os @ [\<lparr>lr_data = 0, lr_ok = False\<rparr>, \<lparr>lr_data = d, lr_ok = True\<rparr>], Q, R @ [lr_data f, d])"
proof -
  let ?c = "ls_csr_state_i s" and ?d = "\<lparr>lr_data = d, lr_ok = True\<rparr>"
  note inv = lsu_run_inv [OF assms(2,1)]
  note owed = owed_answers [OF inv assms(5,6,8)]
  have len: "length R < length Q" "Suc (length R) < length Q" "\<not> lc_ready x" using owed assms(9) by auto
  have acc: "lsu_acc s r = (r, False)" using assms(12) by (simp add: lsu_acc_def)
  have 0: "lsu_at \<lparr>lv_tab = [x], lv_freed = ostq_head_freed (ls_ost s), lv_fifo = [], lv_exu_req = [], lv_exu_rsp = [], lv_hbi_req = [], lv_hbi_rsp = []\<rparr> ?c s"
    using inv assms(3-8) by (simp add: lsu_at_def view_of_def lsu_inv_def)
  from at_hbi_send [OF 0, of R Q f I os] len(1) obtain s1 where 1: "lsu_event (HbiSend f) (s, I, os, Q, R) = Some (s1, I, os, Q, R @ [lr_data f])"
    "lsu_at \<lparr>lv_tab = [x], lv_freed = ostq_head_freed (ls_ost s), lv_fifo = [], lv_exu_req = [], lv_exu_rsp = [], lv_hbi_req = [], lv_hbi_rsp = [f]\<rparr> ?c s1" by auto
  from tick_fail [OF 1(2), of x f] len(3) assms(9,10) obtain s2 where 2: "lsu_clock s1 = Some s2"
    "lsu_at \<lparr>lv_tab = [], lv_freed = True, lv_fifo = [], lv_exu_req = [], lv_exu_rsp = [\<lparr>lr_data = 0, lr_ok = False\<rparr>], lv_hbi_req = [], lv_hbi_rsp = []\<rparr> ?c s2" by auto
  from at_exu_recv [OF 2(2), of _ I os Q "R @ [lr_data f]"] obtain s3 where
    3: "lsu_event ExuRecv (s2, I, os, Q, R @ [lr_data f]) = Some (s3, I, os @ [\<lparr>lr_data = 0, lr_ok = False\<rparr>], Q, R @ [lr_data f])"
    "lsu_at \<lparr>lv_tab = [], lv_freed = True, lv_fifo = [], lv_exu_req = [], lv_exu_rsp = [], lv_hbi_req = [], lv_hbi_rsp = []\<rparr> ?c s3" by auto
  have acc3: "lsu_acc s3 r = (r, False)" using acc lsu_acc_csr [of s3 s] 3(2) by (simp add: lsu_at_def)
  from at_exu_send [OF 3(2), of r I "os @ [\<lparr>lr_data = 0, lr_ok = False\<rparr>]" Q "R @ [lr_data f]"] acc3 obtain s4 where
    4: "lsu_event (ExuSend r) (s3, I, os @ [\<lparr>lr_data = 0, lr_ok = False\<rparr>], Q, R @ [lr_data f]) = Some (s4, I @ [(r, False)], os @ [\<lparr>lr_data = 0, lr_ok = False\<rparr>], Q, R @ [lr_data f])"
    "lsu_at \<lparr>lv_tab = [], lv_freed = True, lv_fifo = [], lv_exu_req = [r], lv_exu_rsp = [], lv_hbi_req = [], lv_hbi_rsp = []\<rparr> ?c s4" by auto
  from at_hbi_send [OF 4(2), of "R @ [lr_data f]" Q ?d "I @ [(r, False)]" "os @ [\<lparr>lr_data = 0, lr_ok = False\<rparr>]"] len(2) obtain s5 where
    5: "lsu_event (HbiSend ?d) (s4, I @ [(r, False)], os @ [\<lparr>lr_data = 0, lr_ok = False\<rparr>], Q, R @ [lr_data f])
      = Some (s5, I @ [(r, False)], os @ [\<lparr>lr_data = 0, lr_ok = False\<rparr>], Q, R @ [lr_data f, d])"
    "lsu_at \<lparr>lv_tab = [], lv_freed = True, lv_fifo = [], lv_exu_req = [r], lv_exu_rsp = [], lv_hbi_req = [], lv_hbi_rsp = [?d]\<rparr> ?c s5" by auto
  have "\<not> snd (lsu_acc s5 r)" using acc lsu_acc_csr [of s5 s] 5(2) by (simp add: lsu_at_def)
  with tick_accept [OF 5(2), of r] obtain s6 where 6: "lsu_clock s5 = Some s6"
    "lsu_at \<lparr>lv_tab = [(whole_ctx r)\<lparr>lc_req_idx := 1\<rparr>], lv_freed = False, lv_fifo = [], lv_exu_req = [], lv_exu_rsp = [], lv_hbi_req = [r], lv_hbi_rsp = [?d]\<rparr> ?c s6" by auto
  from tick_answer [OF 6(2), of r ?d] assms(11) obtain s7 where 7: "lsu_clock s6 = Some s7"
    "lsu_at \<lparr>lv_tab = [], lv_freed = True, lv_fifo = [], lv_exu_req = [], lv_exu_rsp = [?d], lv_hbi_req = [r], lv_hbi_rsp = []\<rparr> ?c s7" by auto
  from at_exu_recv [OF 7(2), of ?d "I @ [(r, False)]" "os @ [\<lparr>lr_data = 0, lr_ok = False\<rparr>]" Q "R @ [lr_data f, d]"] obtain s8 where
    8: "lsu_event ExuRecv (s7, I @ [(r, False)], os @ [\<lparr>lr_data = 0, lr_ok = False\<rparr>], Q, R @ [lr_data f, d])
      = Some (s8, I @ [(r, False)], os @ [\<lparr>lr_data = 0, lr_ok = False\<rparr>, ?d], Q, R @ [lr_data f, d])" by auto
  show ?thesis using 1(1) 2(1) 3(1) 4(1) 5(1) 6(1) 7(1) 8
    by (intro exI [of _ s8]) (simp del: lsu_event.simps add: lsu_event.simps(5))
qed

text \<open>
  A halfword load across a page fails on its first byte; the byte \<^verbatim>\<open>0x56\<close> read for its second half is returned to
  the load of another address that follows.
\<close>

definition lsu_next_req :: ldst_req where
  "lsu_next_req = ldst_req_init\<lparr>lq_size := LDST_REQ_SIZE_B4, lq_addr := 0x4000\<rparr>"

definition lsu_stale_start :: lsu_hist where
  "lsu_stale_start = the (lsu_exec [ExuSend lsu_sample_req, Tick, HbiRecv, Tick, HbiRecv] (lsu_sample, [], [], [], []))"

theorem lsu_stale_response_witness:
  "\<exists>s I os Q R. lsu_exec [HbiSend \<lparr>lr_data = 0, lr_ok = False\<rparr>, Tick, ExuRecv, ExuSend lsu_next_req, HbiSend \<lparr>lr_data = 0x56, lr_ok = True\<rparr>, Tick, Tick, ExuRecv]
      lsu_stale_start = Some (s, I, os, Q, R)
    \<and> os = [\<lparr>lr_data = 0, lr_ok = False\<rparr>, \<lparr>lr_data = 0x56, lr_ok = True\<rparr>] \<and> map lq_addr Q = [0x1fff, 0x2000]"
proof -
  let ?evs = "[ExuSend lsu_sample_req, Tick, HbiRecv, Tick, HbiRecv]"
  obtain s I os Q R where e: "lsu_stale_start = (s, I, os, Q, R)" by (cases lsu_stale_start)
  have "lsu_exec ?evs (lsu_sample, [], [], [], []) \<noteq> None" by code_simp
  then have x: "lsu_exec ?evs (lsu_sample, [], [], [], []) = Some (s, I, os, Q, R)" using e unfolding lsu_stale_start_def by (metis option.collapse)
  have "\<forall>r. HbiSend r \<in> set ?evs \<longrightarrow> lr_ok r" by auto
  note run = lsu_exec_run [OF lsu_run.start this x]
  have "(case lsu_stale_start of (s, I, os, Q, R) \<Rightarrow> ((itf_list (ls_exu_ldst_req_slv s), itf_list (ls_exu_ldst_rsp_mst s), itf_list (ls_hbi_ldst_req_mst s),
      itf_list (ls_hbi_ldst_rsp_slv s), fifo_list (ls_req_fifo s)), map (\<lambda>x. (lc_rsp_idx x, lc_req_idx x)) (ostq_live (ls_ost s)), snd (lsu_acc s lsu_next_req), os, map lq_addr Q))
    = (([], [], [], [], []), [(0, 2)], False, [], [0x1fff, 0x2000])" by code_simp
  then obtain y where y: "itf_list (ls_exu_ldst_req_slv s) = []" "itf_list (ls_exu_ldst_rsp_mst s) = []" "itf_list (ls_hbi_ldst_req_mst s) = []"
      "itf_list (ls_hbi_ldst_rsp_slv s) = []" "fifo_list (ls_req_fifo s) = []" "ostq_live (ls_ost s) = [y]" "lc_rsp_idx y + 2 \<le> lc_req_idx y"
      "\<not> snd (lsu_acc s lsu_next_req)" "os = []" "map lq_addr Q = [0x1fff, 0x2000]" by (auto simp: e)
  have "\<not> lr_ok \<lparr>lr_data = 0, lr_ok = False\<rparr>" "\<not> lq_st lsu_next_req" by (simp_all add: lsu_next_req_def ldst_req_init_def)
  from lsu_stale_response [OF lsu_sample_fresh run y(1-7) this y(8), of "0x56"] y(9,10) show ?thesis unfolding e by (metis append_Nil)
qed

end
