(* ===== verification/Spec2Isabelle.thy ===== *)
theory Spec2Isabelle
  imports ExuRun Trap Arb Ost Ostk BtiMux Bpu Lsu MmuRun Plic Aclint IfuRun Hbi L1Run
    ApbBus AxiDemuxRun AxiMuxRun RamAxi LsuErr
begin

text \<open>
  \<^bold>\<open>RVBucket: a verification of the cycle model of a RISC-V core\<close>

  The repository holds a cycle-level C model of a 32-bit RISC-V system: a hart
  (\<^verbatim>\<open>src/design/model/core/hart\<close>) made of modules that run once per clock tick and talk
  through bounded queues (\<^verbatim>\<open>itf_t\<close> in FIFO mode) and signals, with interrupt controllers, a bus
  and devices around it. A module has a \<^verbatim>\<open>_reset\<close> and a \<^verbatim>\<open>_clock\<close> operation; its ports are
  pointers to interfaces it shares with one neighbour each.

  \<^bold>\<open>Conventions.\<close> A module is a record with the members of its C structure; a port in FIFO mode is
  an \<open>itf\<close> value in that record, a signal is its current value. Every function of the source is a
  definition of the same name on that record; a function that can fail a \<^verbatim>\<open>DBG_CHECK\<close> or leave an
  array has an \<open>option\<close> result and \<open>None\<close> is the abort. Machine integers are words of their
  width; a count or an index that the code keeps below a configured bound is a \<open>nat\<close>. Loops over
  arrays are recursive functions over the list of their indices, so every operation is total: no
  fuel is used anywhere, and a claim that an operation returns is a proof that its value is
  \<open>Some\<close>. Construction, waveform and trace output are left out; performance counters are kept.
  What a neighbour does is an \<open>inductive\<close> run relation with the neighbour's possible actions; what
  a run theorem assumes of it is written in that relation.

  \<^bold>\<open>Infrastructure.\<close>
  \<^item> \<open>Prelude\<close>: machine integers, assertions, arrays, bit-fields.
  \<^item> \<open>Fifo\<close> (\<^verbatim>\<open>base/fifo.c\<close>, \<^verbatim>\<open>base/itf.c\<close>): the ring buffers. The locale \<open>bounded_fifo\<close> is the
    contract of a bounded queue; both rings and the in-order table are interpretations of it, and
    all other proofs use those facts. Both refine a bounded list queue.
  \<^item> \<open>Arb\<close> (\<^verbatim>\<open>base/arb.c\<close>): the round-robin arbiter; no requester starves.
  \<^item> \<open>Ost\<close>, \<open>OstSlots\<close>, \<open>Ostk\<close> (\<^verbatim>\<open>base/ost.c\<close>): the in-order and the keyed table of
    outstanding transactions, with their deferred release; refinements of one queue and of one
    queue per key, and the operations of the slot-searching clients as operations on a list.
  \<^item> \<open>Isa\<close>, \<open>Packets\<close>, \<open>FchPackets\<close>, \<open>BtiPackets\<close>, \<open>ApbPackets\<close>,
    \<open>AxiPackets\<close> (\<^verbatim>\<open>spec/core/isa.h\<close>,
    \<^verbatim>\<open>itf/*_if.h\<close>): instruction fields, immediates and the packets between modules.

  \<^bold>\<open>The hart.\<close>
  \<^item> \<open>Ifu\<close>, \<open>IfuRun\<close> (\<^verbatim>\<open>hart/ifu.c\<close>) with \<open>Bpu\<close> (\<^verbatim>\<open>hart/bpu.c\<close>): fetch along the predicted path.
    The locale \<open>branch_predictor\<close> is what the fetch unit relies on; the predictor interprets it.
    The instructions handed over are those of the predicted path, each with the word fetched for
    its address; predictions take a waiting update into account; returns are predicted right.
  \<^item> \<open>ExuBase\<close>, \<open>ExuAlu\<close>, \<open>ExuBranch\<close>, \<open>ExuMem\<close>, \<open>ExuSys\<close>, \<open>Exu\<close>, \<open>ExuRun\<close>
    (\<^verbatim>\<open>hart/exu/*.c\<close>): every instruction group against its definition in mathematical integers
    or as a memory transaction, the issue rules of the tick, and the invariant that at most one
    memory transaction is in flight.
  \<^item> \<open>Csr\<close> (\<^verbatim>\<open>hart/csr.c\<close>, \<^verbatim>\<open>spec/core/csr.*\<close>) and \<open>Trap\<close> (\<^verbatim>\<open>hart/trap.c\<close>): access rules,
    supervisor views, published signals; trap entry, delegation, returns, interrupt priority.
  \<^item> \<open>Lsu\<close>, \<open>LsuErr\<close> (\<^verbatim>\<open>hart/lsu.c\<close>), \<open>Hbi\<close> (\<^verbatim>\<open>hart/hbi.c\<close>): accesses that cross a page are split and put
    together again. Both units are transparent, in order, and do not abort, the load/store unit as
    long as the bus answers without errors and the translation mode changes only while the unit is
    idle, the bus interface as long as no exception names the address of an older fetch
    that is still in its table; what happens without these conditions is a theorem of its own.
  \<^item> \<open>Mmu\<close>, \<open>MmuWalk\<close>, \<open>MmuTlb\<close>, \<open>MmuRun\<close> (\<^verbatim>\<open>hart/mmu.c\<close>): the page table walk against the
    Sv32 algorithm with its page and access faults, hits against walks, and coherence of the
    translation buffers in every run in which the page tables stay the same and \<open>satp\<close> changes
    only while no walk is under way.
  \<^item> \<open>L1\<close>, \<open>L1View\<close>, \<open>L1Eng\<close>, \<open>L1Tick\<close>, \<open>L1Run\<close> (\<^verbatim>\<open>hart/l1.c\<close>): the first-level cache, with hits
    under a miss, write-back, refill, bypass, maintenance and flush. \<open>L1View\<close> is the memory a client
    means to see, read off the lines and the memory behind them; \<open>L1Eng\<close> and \<open>L1Tick\<close> show that every
    step of a tick keeps it; \<open>L1Run\<close> closes the cache with a client and a memory behind the AXI
    channels: for cached accesses within a line, and with a memory that never answers with an
    error, the cache is transparent; one run with an access across two lines shows a lost store.

  \<^bold>\<open>Around the hart.\<close>
  \<^item> \<open>Plic\<close> (\<^verbatim>\<open>core/plic.c\<close>), \<open>Aclint\<close> (\<^verbatim>\<open>core/aclint.c\<close>): claim and completion of external
    interrupts, the timer line and when it fires.
  \<^item> \<open>BtiMux\<close> (\<^verbatim>\<open>bus/mux/bti_mux.c\<close>): in every run the requests of the hosts reach
    the guest in one order, and of every identifier the i-th response goes to the host that issued
    the i-th request.
  \<^item> \<open>Ports\<close>, \<open>Bursts\<close>: what the proofs of the bus modules share, a port read as the list of what it
    holds, and streams of beats woven from, or dealt out to, several sides.
  \<^item> \<open>AxiDemux\<close>, \<open>AxiDemuxRd\<close>, \<open>AxiDemuxWr\<close>, \<open>AxiDemuxRun\<close> (\<^verbatim>\<open>bus/demux/axi_demux.c\<close>): the AXI4
    demultiplexer. The second and third theory treat the read and the write channels one step at a
    time, the last closes the module with a host and its guests and shows it transparent.
  \<^item> \<open>AxiMux\<close>, \<open>AxiMuxRd\<close>, \<open>AxiMuxWr\<close>, \<open>AxiMuxRun\<close> (\<^verbatim>\<open>bus/mux/axi_mux.c\<close>): the AXI4 multiplexer,
    in the same layout: each host gets the answers to its own requests, in order, and the bursts of
    different hosts are not mixed on the write channel.
  \<^item> \<open>ApbBus\<close> (\<^verbatim>\<open>bus/bridge/bti2apb.c\<close>, \<^verbatim>\<open>bus/demux/apb_demux.c\<close> and their connection in
    \<^verbatim>\<open>core/cbi.c\<close>): the way of a request to a device register, through both modules, and of its
    answer back, for addresses inside the windows of the devices and a host that waits.
  \<^item> \<open>Ram\<close>, \<open>RamView\<close>, \<open>RamBti\<close>, \<open>RamAxi\<close> (\<^verbatim>\<open>mem/ram.c\<close>): the memory with its BTI and AXI4 sides, each with and
    without latency; its contents as a function from addresses to bytes; at the BTI ports it behaves as
    one plain memory that serves one request at a time, at the AXI4 port as one that serves one beat
    at a time. Addresses are at or above the base, below it the code aborts.

  \<^bold>\<open>What the model shows to be wrong.\<close> The theorems also state behaviour that the code cannot mean:
  \<open>mret\<close> is not checked for privilege; a page table entry that cannot be read ends in a page fault
  where an access fault is due; a failed byte of a split access leaves answers behind that
  the next access takes for its own; a walk that is under way when the translation is changed fills
  in an entry under the new one; interrupt source 32 can never be enabled; two outstanding
  fetches of one faulting address can abort the bus interface; the decode error of a read overtakes answers
  to earlier reads of the same identifier in the AXI4 demultiplexer; the bridge to the
  peripheral bus confuses the identifiers of two requests that are outstanding at once; and an AXI4
  write past the end of the memory is dropped and answered as done. An example run of the cache
  shows a load across two lines giving up a line that a store is about to write.

  \<^bold>\<open>Not modelled.\<close> The second-level cache, the bridges between BTI and AXI4, the BTI
  demultiplexer, the read-only memory and devices; their place at the ports of the modelled units is taken by
  the assumptions of the run relations. The wiring in \<^verbatim>\<open>hart.c\<close>, \<^verbatim>\<open>rv32g.c\<close> and \<^verbatim>\<open>soc.c\<close> is the
  way the units are put side by side here. Host input and output, tracing, simulation threads and
  the file tools have no influence on the simulated state.
\<close>

end
